(* ===== verification/Prelude.thy ===== *)
theory Prelude
  imports Main "HOL-Library.Word"
begin

text \<open>
  Shared vocabulary of the development: the type synonyms the components use for the
  C++ standard library's types, the byte view of a \<open>std::string\<close>, the searches of
  \<open>std::string_view\<close> with their \<open>npos\<close> result, and the generic lemmas the component
  proofs rest on.
\<close>

unbundle bit_operations_syntax

named_theorems range_simps \<open>interval bounds of the byte and code point tests\<close>

subsection \<open>Strings and bytes\<close>

text \<open>
  A \<open>std::string\<close> is a list of 8-bit characters; \<open>byte\<close> is
  \<open>static_cast<unsigned char>\<close>. A \<open>char32_t\<close> holding a code point is a \<open>nat\<close>: every
  place of the code that computes one keeps it below \<open>2 ^ 32\<close>, so no wrap-around occurs
  (the bounds are proved where the values are computed).
\<close>

type_synonym byte = nat
type_synonym code_point = nat

abbreviation byte_of :: "char \<Rightarrow> byte" where
  "byte_of c \<equiv> of_char c"

subsection \<open>Errors as values\<close>

text \<open>
  A C++ function that throws returns a sum: \<open>Inl\<close> the exception, \<open>Inr\<close> the result. A
  sequence of statements of which one may throw is a chain of \<open>bindE\<close>.
\<close>

definition bindE :: "'e + 'a \<Rightarrow> ('a \<Rightarrow> 'e + 'b) \<Rightarrow> 'e + 'b" where
  "bindE m k = (case m of Inl e \<Rightarrow> Inl e | Inr x \<Rightarrow> k x)"

lemma bindE_simps [simp]: "bindE (Inl e) k = Inl e" "bindE (Inr x) k = k x"
  by (simp_all add: bindE_def)

lemma bindE_Inr [simp]: "bindE m k = Inr y \<longleftrightarrow> (\<exists>x. m = Inr x \<and> k x = Inr y)"
  by (cases m) auto

lemma bindE_Inl: "bindE m k = Inl e \<longleftrightarrow> m = Inl e \<or> (\<exists>x. m = Inr x \<and> k x = Inl e)"
  by (cases m) auto

lemma bindE_cong [fundef_cong]:
  "m = m' \<Longrightarrow> (\<And>x. m' = Inr x \<Longrightarrow> k x = k' x) \<Longrightarrow> bindE m k = bindE m' k'"
  by (cases m') auto

subsection \<open>Searching a string\<close>

text \<open>
  \<open>std::string_view::find\<close> of one character from a position, and \<open>find_first_of\<close> of a
  set of characters: the least index at or after \<open>pos\<close>, or \<open>npos\<close>, here \<open>None\<close>.
\<close>

fun find_index_from :: "('a \<Rightarrow> bool) \<Rightarrow> 'a list \<Rightarrow> nat \<Rightarrow> nat option" where
  "find_index_from p [] i = None"
| "find_index_from p (x # xs) i = (if p x then Some i else find_index_from p xs (Suc i))"

definition find_from :: "('a \<Rightarrow> bool) \<Rightarrow> 'a list \<Rightarrow> nat \<Rightarrow> nat option" where
  "find_from p xs pos = find_index_from p (drop pos xs) pos"

lemma find_index_from_Some:
  "find_index_from p xs i = Some k \<Longrightarrow>
     i \<le> k \<and> k < i + length xs \<and> p (xs ! (k - i)) \<and> (\<forall>j < k - i. \<not> p (xs ! j))"
proof (induction xs arbitrary: i)
  case Nil
  then show ?case by simp
next
  case (Cons x xs)
  show ?case
  proof (cases "p x")
    case True
    with Cons.prems show ?thesis by auto
  next
    case False
    with Cons.prems have "find_index_from p xs (Suc i) = Some k" by simp
    note ih = Cons.IH [OF this]
    then obtain d where d: "k = Suc i + d" using nat_le_iff_add by auto
    with ih False show ?thesis
      by (auto simp: nth_Cons split: nat.splits)
  qed
qed

lemma find_index_from_None: "find_index_from p xs i = None \<longleftrightarrow> (\<forall>x \<in> set xs. \<not> p x)"
  by (induction xs arbitrary: i) auto

lemma find_from_Some:
  assumes "find_from p xs pos = Some k"
  shows "pos \<le> k" and "k < length xs" and "p (xs ! k)" and "\<And>j. pos \<le> j \<Longrightarrow> j < k \<Longrightarrow> \<not> p (xs ! j)"
proof -
  note * = find_index_from_Some [OF assms [unfolded find_from_def]]
  from * show a: "pos \<le> k" and b: "k < length xs" by auto
  from * a b show "p (xs ! k)" by simp
  fix j assume j: "pos \<le> j" "j < k"
  with a have "j - pos < k - pos" by simp
  with * have "\<not> p (drop pos xs ! (j - pos))" by blast
  with j b show "\<not> p (xs ! j)" by simp
qed

lemma find_from_None: "find_from p xs pos = None \<longleftrightarrow> (\<forall>x \<in> set (drop pos xs). \<not> p x)"
  by (simp add: find_from_def find_index_from_None)

subsection \<open>Lists\<close>

lemma take_drop_slice_snoc:
  "i \<le> j \<Longrightarrow> j < length xs \<Longrightarrow> take (Suc j - i) (drop i xs) = take (j - i) (drop i xs) @ [xs ! j]"
  by (simp add: Suc_diff_le take_Suc_conv_app_nth)

lemma drop_nth_Cons: "i < length xs \<Longrightarrow> drop i xs = xs ! i # drop (Suc i) xs"
  by (rule Cons_nth_drop_Suc [symmetric])

lemma foldl_invariant:
  assumes "P a" and "\<And>a x. P a \<Longrightarrow> x \<in> set xs \<Longrightarrow> P (f a x)"
  shows "P (foldl f a xs)"
  using assms by (induction xs arbitrary: a) auto

subsection \<open>Decimal text\<close>

text \<open>\<open>std::to_string\<close> of an unsigned integer.\<close>

definition digit_char :: "nat \<Rightarrow> char" where
  "digit_char d = char_of (48 + d)"

fun decimal :: "nat \<Rightarrow> string" where
  "decimal n = (if n < 10 then [digit_char n] else decimal (n div 10) @ [digit_char (n mod 10)])"

declare decimal.simps [simp del]

lemma byte_digit_char: "d < 10 \<Longrightarrow> byte_of (digit_char d) = 48 + d"
  by (simp add: digit_char_def)

lemma decimal_digits: "c \<in> set (decimal n) \<Longrightarrow> 48 \<le> (byte_of c :: nat) \<and> (byte_of c :: nat) \<le> 57"
proof (induction n rule: decimal.induct)
  case (1 n)
  show ?case
  proof (cases "n < 10")
    case True
    with "1.prems" show ?thesis by (subst (asm) decimal.simps) (simp add: byte_digit_char)
  next
    case False
    with "1.prems" have "c \<in> set (decimal (n div 10)) \<or> c = digit_char (n mod 10)"
      by (subst (asm) decimal.simps) auto
    with "1.IH" [OF False] show ?thesis
      using byte_digit_char [of "n mod 10"] by auto
  qed
qed

lemma decimal_nonempty [simp]: "decimal n \<noteq> []"
  by (subst decimal.simps) simp

text \<open>Reading the digits back.\<close>

definition decimal_value :: "string \<Rightarrow> nat" where
  "decimal_value s = foldl (\<lambda>v c. v * 10 + (byte_of c - 48)) 0 s"

lemma decimal_value_snoc: "decimal_value (s @ [c]) = decimal_value s * 10 + (byte_of c - 48)"
  by (simp add: decimal_value_def)

lemma decimal_value_decimal [simp]: "decimal_value (decimal n) = n"
proof (induction n rule: decimal.induct)
  case (1 n)
  show ?case
  proof (cases "n < 10")
    case True
    then show ?thesis by (subst decimal.simps) (simp add: decimal_value_def byte_digit_char)
  next
    case False
    with "1.IH" have "decimal_value (decimal (n div 10)) = n div 10" by simp
    with False show ?thesis
      by (subst decimal.simps) (simp add: decimal_value_snoc byte_digit_char)
  qed
qed

subsection \<open>Searching for a substring\<close>

text \<open>\<open>std::string::find\<close> of a nonempty text: the least index where it starts.\<close>

fun find_text_from :: "string \<Rightarrow> string \<Rightarrow> nat \<Rightarrow> nat option" where
  "find_text_from needle [] i = None"
| "find_text_from needle (x # xs) i =
     (if take (length needle) (x # xs) = needle then Some i else find_text_from needle xs (Suc i))"

definition find_text :: "string \<Rightarrow> string \<Rightarrow> nat option" where
  "find_text needle s = find_text_from needle s 0"

lemma find_text_from_Some:
  "find_text_from needle s i = Some k \<Longrightarrow>
     i \<le> k \<and> k < i + length s \<and> take (length needle) (drop (k - i) s) = needle
     \<and> (\<forall>j < k - i. take (length needle) (drop j s) \<noteq> needle)"
proof (induction needle s i rule: find_text_from.induct)
  case (2 needle x xs i)
  show ?case
  proof (cases "take (length needle) (x # xs) = needle")
    case True
    with "2.prems" show ?thesis by auto
  next
    case False
    with "2.prems" have "find_text_from needle xs (Suc i) = Some k" by simp
    note ih = "2.IH" [OF False this]
    then obtain d where d: "k = Suc i + d" using nat_le_iff_add by auto
    show ?thesis
    proof (intro conjI allI impI)
      fix j assume "j < k - i"
      with ih False d show "take (length needle) (drop j (x # xs)) \<noteq> needle"
        by (cases j) auto
    qed (use ih d in auto)
  qed
qed simp

lemma find_text_Some:
  assumes "find_text needle s = Some k"
  shows "k < length s" "take (length needle) (drop k s) = needle"
    "\<And>j. j < k \<Longrightarrow> take (length needle) (drop j s) \<noteq> needle"
  using find_text_from_Some [OF assms [unfolded find_text_def]] by auto

lemma find_text_first:
  assumes "take (length needle) (drop k s) = needle" "k < length s"
    and "\<And>j. j < k \<Longrightarrow> take (length needle) (drop j s) \<noteq> needle"
  shows "find_text needle s = Some k"
proof -
  have "find_text_from needle s i = Some (i + k)" for i
    using assms
  proof (induction k arbitrary: s i)
    case 0
    then show ?case by (cases s) auto
  next
    case (Suc k)
    then obtain x xs where s: "s = x # xs" by (cases s) auto
    have "take (length needle) (x # xs) \<noteq> needle" using Suc.prems(3) [of 0] s by simp
    moreover have "find_text_from needle xs (Suc i) = Some (Suc i + k)"
    proof (intro Suc.IH)
      show "take (length needle) (drop j xs) \<noteq> needle" if "j < k" for j
        using Suc.prems(3) [of "Suc j"] that s by simp
    qed (use Suc.prems s in auto)
    ultimately show ?case by (simp add: s)
  qed
  from this [of 0] show ?thesis by (simp add: find_text_def)
qed

text \<open>First occurrence of a character in a string built around it.\<close>

lemma find_index_from_append:
  "(\<forall>x \<in> set xs. \<not> p x) \<Longrightarrow> find_index_from p (xs @ ys) i = find_index_from p ys (i + length xs)"
  by (induction xs arbitrary: i) auto

lemma find_from_first:
  "(\<forall>x \<in> set xs. \<not> p x) \<Longrightarrow> p y \<Longrightarrow> find_from p (xs @ y # ys) 0 = Some (length xs)"
  by (simp add: find_from_def find_index_from_append)

lemma find_from_absent: "(\<forall>x \<in> set xs. \<not> p x) \<Longrightarrow> find_from p xs pos = None"
  by (auto simp: find_from_None dest: in_set_dropD)

end
