(* ===== verification/Utf8.thy ===== *)
theory Utf8
  imports Prelude
begin

text \<open>
  The two UTF-8 decoders of the program: \<open>decode_utf8\<close> of src/core/regex.cpp, which turns
  a malformed byte into U+FFFD and advances by one byte, and \<open>decode_utf8\<close> of
  src/auth/metadata_policy.cpp, which reports a malformed sequence by the length 0. Both
  are compared with the encoding of RFC 3629 (\<open>utf8_encode\<close>), and with each other.
\<close>

definition g_max_code_point :: code_point where
  "g_max_code_point = 0x10FFFF"

definition g_replacement_character :: code_point where
  "g_replacement_character = 0xFFFD"

subsection \<open>The decoder of the regular expression engine\<close>

text \<open>
  The continuation loop: \<open>value\<close> accumulates six bits per byte; \<open>None\<close> is the early
  return on a byte that is not of the form \<open>10xxxxxx\<close>.
\<close>

fun decode_continuation :: "nat \<Rightarrow> byte list \<Rightarrow> nat option" where
  "decode_continuation v [] = Some v"
| "decode_continuation v (b # bs) =
     (if b AND 0xC0 \<noteq> 0x80 then None
      else decode_continuation (push_bit 6 v OR (b AND 0x3F)) bs)"

text \<open>The class of a lead byte: length of the sequence, its payload bits, least code point.\<close>

definition utf8_lead :: "byte \<Rightarrow> (nat \<times> nat \<times> nat) option" where
  "utf8_lead lead =
     (if lead AND 0xE0 = 0xC0 then Some (2, lead AND 0x1F, 0x80)
      else if lead AND 0xF0 = 0xE0 then Some (3, lead AND 0x0F, 0x800)
      else if lead AND 0xF8 = 0xF0 then Some (4, lead AND 0x07, 0x10000)
      else None)"

definition bytes_at :: "string \<Rightarrow> nat \<Rightarrow> nat \<Rightarrow> byte list" where
  "bytes_at text pos n = map byte_of (take n (drop pos text))"

text \<open>
  \<open>decode_utf8 text pos\<close> is the decoded code point and the advanced position. It is
  called with \<open>pos < text.size()\<close> only.
\<close>

definition decode_utf8 :: "string \<Rightarrow> nat \<Rightarrow> code_point \<times> nat" where
  "decode_utf8 text pos =
     (let lead = byte_of (text ! pos) in
      if lead < 0x80 then (lead, pos + 1)
      else (case utf8_lead lead of
          None \<Rightarrow> (g_replacement_character, pos + 1)
        | Some (len, start, minimum) \<Rightarrow>
            if pos + len > length text then (g_replacement_character, pos + 1)
            else (case decode_continuation start (bytes_at text (pos + 1) (len - 1)) of
                None \<Rightarrow> (g_replacement_character, pos + 1)
              | Some v \<Rightarrow>
                  if v < minimum \<or> v > g_max_code_point \<or> (v \<ge> 0xD800 \<and> v \<le> 0xDFFF)
                  then (g_replacement_character, pos + 1)
                  else (v, pos + len))))"

subsection \<open>The decoder of the diagnostics sanitizer\<close>

record Utf8Sequence =
  useq_length :: nat
  useq_codepoint :: nat

definition utf8_malformed :: Utf8Sequence where
  "utf8_malformed = \<lparr>useq_length = 0, useq_codepoint = 0\<rparr>"

definition policy_lead :: "byte \<Rightarrow> (nat \<times> nat) option" where
  "policy_lead lead =
     (if lead AND 0xE0 = 0xC0 then Some (2, lead AND 0x1F)
      else if lead AND 0xF0 = 0xE0 then Some (3, lead AND 0x0F)
      else if lead AND 0xF8 = 0xF0 then Some (4, lead AND 0x07)
      else None)"

definition decode_utf8_sequence :: "string \<Rightarrow> nat \<Rightarrow> Utf8Sequence" where
  "decode_utf8_sequence value index =
     (let lead = byte_of (value ! index) in
      if lead < 0x80 then \<lparr>useq_length = 1, useq_codepoint = lead\<rparr>
      else (case policy_lead lead of
          None \<Rightarrow> utf8_malformed
        | Some (len, start) \<Rightarrow>
            if index + len > length value then utf8_malformed
            else (case decode_continuation start (bytes_at value (index + 1) (len - 1)) of
                None \<Rightarrow> utf8_malformed
              | Some cp \<Rightarrow>
                  let overlong = (len = 2 \<and> cp < 0x80) \<or> (len = 3 \<and> cp < 0x800)
                        \<or> (len = 4 \<and> cp < 0x10000);
                      surrogate = cp \<ge> 0xD800 \<and> cp \<le> 0xDFFF
                  in if overlong \<or> surrogate \<or> cp > 0x10FFFF then utf8_malformed
                     else \<lparr>useq_length = len, useq_codepoint = cp\<rparr>)))"

subsection \<open>RFC 3629: the encoding both decoders invert\<close>

definition unicode_scalar :: "code_point \<Rightarrow> bool" where
  "unicode_scalar c \<longleftrightarrow> c \<le> 0x10FFFF \<and> \<not> (0xD800 \<le> c \<and> c \<le> 0xDFFF)"

definition utf8_encode_bytes :: "code_point \<Rightarrow> byte list" where
  "utf8_encode_bytes c =
     (if c < 0x80 then [c]
      else if c < 0x800 then [0xC0 + c div 64, 0x80 + c mod 64]
      else if c < 0x10000 then [0xE0 + c div 4096, 0x80 + (c div 64) mod 64, 0x80 + c mod 64]
      else [0xF0 + c div 262144, 0x80 + (c div 4096) mod 64, 0x80 + (c div 64) mod 64,
            0x80 + c mod 64])"

definition utf8_encode :: "code_point \<Rightarrow> string" where
  "utf8_encode c = map char_of (utf8_encode_bytes c)"

subsection \<open>Bit masks as arithmetic\<close>

lemma and_shifted_mask: "(b::nat) AND push_bit n (mask m) = (b div 2 ^ n) mod 2 ^ m * 2 ^ n"
proof -
  have "b AND push_bit n (mask m) = push_bit n (take_bit m (drop_bit n b))"
    by (rule bit_eqI) (auto simp: bit_simps)
  then show ?thesis by (simp add: take_bit_eq_mod push_bit_eq_mult drop_bit_eq_div)
qed

lemma div_times_eq:
  assumes "0 < (k::nat)"
  shows "b div k * k = m * k \<longleftrightarrow> m * k \<le> b \<and> b < Suc m * k"
proof -
  have "b div k * k = m * k \<longleftrightarrow> b div k = m" using assms by simp
  also have "\<dots> \<longleftrightarrow> m \<le> b div k \<and> b div k < Suc m" by auto
  also have "\<dots> \<longleftrightarrow> m * k \<le> b \<and> b < Suc m * k"
    using assms by (simp only: less_eq_div_iff_mult_less_eq div_less_iff_less_mult)
  finally show ?thesis .
qed

lemma mod_sub_multiple:
  assumes "m * k \<le> b" and "b < Suc m * (k::nat)"
  shows "b mod k = b - m * k"
proof -
  have "b = (b - m * k) + k * m" "b - m * k < k" using assms by auto
  then show ?thesis by (metis mod_less mod_mult_self2)
qed

lemma byte_masks:
  assumes "b < (256::nat)"
  shows "b AND 0xE0 = 0xC0 \<longleftrightarrow> 192 \<le> b \<and> b < 224"
    and "b AND 0xF0 = 0xE0 \<longleftrightarrow> 224 \<le> b \<and> b < 240"
    and "b AND 0xF8 = 0xF0 \<longleftrightarrow> 240 \<le> b \<and> b < 248"
    and "b AND 0xC0 = 0x80 \<longleftrightarrow> 128 \<le> b \<and> b < 192"
proof -
  have "b AND 0xE0 = (b div 32) mod 8 * 32" "b AND 0xF0 = (b div 16) mod 16 * 16"
    "b AND 0xF8 = (b div 8) mod 32 * 8" "b AND 0xC0 = (b div 64) mod 4 * 64"
    using and_shifted_mask [of b 5 3] and_shifted_mask [of b 4 4] and_shifted_mask [of b 3 5]
      and_shifted_mask [of b 6 2]
    by (simp_all add: mask_eq_exp_minus_1 push_bit_eq_mult)
  note masks = this
  have "(b div 32) mod 8 = b div 32" "(b div 16) mod 16 = b div 16" "(b div 8) mod 32 = b div 8"
    "(b div 64) mod 4 = b div 64"
    using assms by (auto intro!: mod_less)
  note masks = masks [unfolded this]
  show "b AND 0xE0 = 0xC0 \<longleftrightarrow> 192 \<le> b \<and> b < 224"
    unfolding masks using div_times_eq [of 32 b 6] by simp
  show "b AND 0xF0 = 0xE0 \<longleftrightarrow> 224 \<le> b \<and> b < 240"
    unfolding masks using div_times_eq [of 16 b 14] by simp
  show "b AND 0xF8 = 0xF0 \<longleftrightarrow> 240 \<le> b \<and> b < 248"
    unfolding masks using div_times_eq [of 8 b 30] by simp
  show "b AND 0xC0 = 0x80 \<longleftrightarrow> 128 \<le> b \<and> b < 192"
    unfolding masks using div_times_eq [of 64 b 2] by simp
qed

lemma and_low_bits: "(n::nat) AND 0x3F = n mod 64" "n AND 0x1F = n mod 32" "n AND 0x0F = n mod 16"
  "n AND 0x07 = n mod 8"
  using take_bit_eq_mask [of 6 n] take_bit_eq_mask [of 5 n] take_bit_eq_mask [of 4 n]
    take_bit_eq_mask [of 3 n]
  by (simp_all add: take_bit_eq_mod mask_eq_exp_minus_1)

lemma shift_or_low: "push_bit 6 v OR (b AND 0x3F) = v * 64 + (b::nat) mod 64"
proof -
  have "push_bit 6 v AND take_bit 6 b = 0"
    by (rule bit_eqI) (simp add: bit_simps)
  then have "push_bit 6 v OR take_bit 6 b = push_bit 6 v + take_bit 6 b"
    by (simp add: disjunctive_add_eq_or)
  then show ?thesis by (simp add: and_low_bits take_bit_eq_mod push_bit_eq_mult)
qed

text \<open>The decoders in arithmetic form: one clause per sequence length.\<close>

definition utf8_valid :: "nat \<Rightarrow> nat \<Rightarrow> (nat \<times> nat) option" where
  "utf8_valid n c =
     (if c \<le> 0x10FFFF \<and> \<not> (0xD800 \<le> c \<and> c \<le> 0xDFFF)
         \<and> ((n = 2 \<and> 0x80 \<le> c) \<or> (n = 3 \<and> 0x800 \<le> c) \<or> (n = 4 \<and> 0x10000 \<le> c))
      then Some (c, n) else None)"

fun utf8_core :: "byte list \<Rightarrow> (nat \<times> nat) option" where
  "utf8_core [] = None"
| "utf8_core (b # bs) =
     (if b < 128 then Some (b, 1)
      else if 192 \<le> b \<and> b < 224 then
        (case bs of x # _ \<Rightarrow>
           if 128 \<le> x \<and> x < 192 then utf8_valid 2 ((b - 192) * 64 + (x - 128)) else None
         | _ \<Rightarrow> None)
      else if 224 \<le> b \<and> b < 240 then
        (case bs of x # y # _ \<Rightarrow>
           if 128 \<le> x \<and> x < 192 \<and> 128 \<le> y \<and> y < 192
           then utf8_valid 3 ((b - 224) * 4096 + (x - 128) * 64 + (y - 128)) else None
         | _ \<Rightarrow> None)
      else if 240 \<le> b \<and> b < 248 then
        (case bs of x # y # z # _ \<Rightarrow>
           if 128 \<le> x \<and> x < 192 \<and> 128 \<le> y \<and> y < 192 \<and> 128 \<le> z \<and> z < 192
           then utf8_valid 4 ((b - 240) * 262144 + (x - 128) * 4096 + (y - 128) * 64 + (z - 128))
           else None
         | _ \<Rightarrow> None)
      else None)"

lemma decode_continuation_Cons:
  assumes "b < 256"
  shows "decode_continuation v (b # bs) =
    (if 128 \<le> b \<and> b < 192 then decode_continuation (v * 64 + (b - 128)) bs else None)"
proof -
  have "128 \<le> b \<Longrightarrow> b < 192 \<Longrightarrow> b mod 64 = b - 128"
    using mod_sub_multiple [of 2 64 b] by simp
  then show ?thesis by (simp add: byte_masks [OF assms] shift_or_low)
qed

declare decode_continuation.simps(2) [simp del]

text \<open>
  The body shared by the two decoders after the lead byte: the length check, the
  continuation bytes and the range checks, as one optional result.
\<close>

definition utf8_rest :: "nat \<Rightarrow> nat \<Rightarrow> byte list \<Rightarrow> (nat \<times> nat) option" where
  "utf8_rest len start bs =
     (if len > Suc (length bs) then None
      else case decode_continuation start (take (len - 1) bs) of
          None \<Rightarrow> None
        | Some c \<Rightarrow> utf8_valid len c)"

lemma utf8_core_rest:
  assumes b: "b < 256" "\<not> b < 128" and bs: "\<forall>x \<in> set bs. x < 256"
  shows "utf8_core (b # bs) =
    (case policy_lead b of None \<Rightarrow> None | Some (len, start) \<Rightarrow> utf8_rest len start bs)"
proof -
  have lows: "192 \<le> b \<Longrightarrow> b < 224 \<Longrightarrow> b mod 32 = b - 192"
    "224 \<le> b \<Longrightarrow> b < 240 \<Longrightarrow> b mod 16 = b - 224" "240 \<le> b \<Longrightarrow> b < 248 \<Longrightarrow> b mod 8 = b - 240"
    using mod_sub_multiple [of 6 32 b] mod_sub_multiple [of 14 16 b] mod_sub_multiple [of 30 8 b]
    by auto
  consider (two) "192 \<le> b \<and> b < 224" | (three) "224 \<le> b \<and> b < 240" | (four) "240 \<le> b \<and> b < 248"
    | (bad) "\<not> (192 \<le> b \<and> b < 224)" "\<not> (224 \<le> b \<and> b < 240)" "\<not> (240 \<le> b \<and> b < 248)"
    by blast
  then show ?thesis
  proof cases
    case two
    then show ?thesis using b bs
      by (cases bs) (auto simp: policy_lead_def byte_masks and_low_bits lows utf8_rest_def
          decode_continuation_Cons)
  next
    case three
    then show ?thesis using b bs
      by (auto simp: policy_lead_def byte_masks and_low_bits lows utf8_rest_def
          decode_continuation_Cons algebra_simps split: list.split)
  next
    case four
    then show ?thesis using b bs
      by (auto simp: policy_lead_def byte_masks and_low_bits lows utf8_rest_def
          decode_continuation_Cons algebra_simps split: list.split)
  next
    case bad
    then show ?thesis using b
      by (auto simp: policy_lead_def byte_masks)
  qed
qed

lemma policy_lead_cases:
  assumes "policy_lead b = Some (len, start)"
  shows "len \<in> {2, 3, 4}"
  using assms by (auto simp: policy_lead_def split: if_splits)

lemma utf8_lead_policy:
  "utf8_lead b = map_option (\<lambda>(len, start). (len, start,
     if len = 2 then 0x80 else if len = 3 then 0x800 else 0x10000)) (policy_lead b)"
  by (simp add: utf8_lead_def policy_lead_def)

lemma decode_utf8_sequence_core:
  assumes pos: "pos < length text"
  shows "decode_utf8_sequence text pos =
    (case utf8_core (map byte_of (drop pos text)) of None \<Rightarrow> utf8_malformed
     | Some (c, n) \<Rightarrow> \<lparr>useq_length = n, useq_codepoint = c\<rparr>)"
proof -
  define b where "b = byte_of (text ! pos)"
  define bs where "bs = map byte_of (drop (Suc pos) text)"
  have b: "b < 256" and bs: "\<forall>x \<in> set bs. x < 256" by (auto simp: b_def bs_def)
  have split: "map byte_of (drop pos text) = b # bs"
    using pos by (simp add: bs_def b_def drop_nth_Cons)
  have len: "pos + n > length text \<longleftrightarrow> n > Suc (length bs)" for n
    using pos by (auto simp: bs_def)
  have at: "bytes_at text (pos + 1) n = take n bs" for n
    by (simp add: bytes_at_def bs_def take_map)
  show ?thesis
  proof (cases "b < 128")
    case True
    then show ?thesis by (simp add: decode_utf8_sequence_def b_def [symmetric] split)
  next
    case False
    show ?thesis
    proof (cases "policy_lead b")
      case None
      then show ?thesis
        unfolding decode_utf8_sequence_def Let_def b_def [symmetric] split utf8_core_rest [OF b False bs]
        using False by (simp)
    next
      case (Some p)
      obtain n start where p: "p = (n, start)" by force
      with Some have n: "n = 2 \<or> n = 3 \<or> n = 4" using policy_lead_cases [of b] by auto
      from Some p n False show ?thesis
        unfolding decode_utf8_sequence_def Let_def b_def [symmetric] split at len
          utf8_core_rest [OF b False bs]
        by (cases "decode_continuation start (take (n - 1) bs)")
          (auto simp: utf8_rest_def utf8_valid_def)
    qed
  qed
qed

lemma decode_utf8_core:
  assumes pos: "pos < length text"
  shows "decode_utf8 text pos =
    (case utf8_core (map byte_of (drop pos text)) of None \<Rightarrow> (g_replacement_character, pos + 1)
     | Some (c, n) \<Rightarrow> (c, pos + n))"
proof -
  define b where "b = byte_of (text ! pos)"
  define bs where "bs = map byte_of (drop (Suc pos) text)"
  have b: "b < 256" and bs: "\<forall>x \<in> set bs. x < 256" by (auto simp: b_def bs_def)
  have split: "map byte_of (drop pos text) = b # bs"
    using pos by (simp add: bs_def b_def drop_nth_Cons)
  have len: "pos + n > length text \<longleftrightarrow> n > Suc (length bs)" for n
    using pos by (auto simp: bs_def)
  have at: "bytes_at text (pos + 1) n = take n bs" for n
    by (simp add: bytes_at_def bs_def take_map)
  show ?thesis
  proof (cases "b < 128")
    case True
    then show ?thesis by (simp add: decode_utf8_def b_def [symmetric] split)
  next
    case False
    show ?thesis
    proof (cases "policy_lead b")
      case None
      then show ?thesis
        unfolding decode_utf8_def Let_def b_def [symmetric] split utf8_core_rest [OF b False bs]
        using False by (simp add: utf8_lead_policy)
    next
      case (Some p)
      obtain n start where p: "p = (n, start)" by force
      with Some have n: "n = 2 \<or> n = 3 \<or> n = 4" using policy_lead_cases [of b] by auto
      from Some p n False show ?thesis
        unfolding decode_utf8_def Let_def b_def [symmetric] split at len
          utf8_core_rest [OF b False bs]
        by (cases "decode_continuation start (take (n - 1) bs)")
          (auto simp: utf8_rest_def utf8_valid_def utf8_lead_policy g_max_code_point_def)
    qed
  qed
qed

subsection \<open>The core inverts the encoding\<close>

lemma div_64_64: "(c::nat) div 4096 = c div 64 div 64" "c div 262144 = c div 4096 div 64"
  by (simp_all add: div_mult2_eq [symmetric])

lemma utf8_core_encode:
  assumes "unicode_scalar c"
  shows "utf8_core (utf8_encode_bytes c @ rest) = Some (c, length (utf8_encode_bytes c))"
proof -
  consider "c < 0x80" | "0x80 \<le> c" "c < 0x800" | "0x800 \<le> c" "c < 0x10000" | "0x10000 \<le> c" "c \<le> 0x10FFFF"
    using assms by (force simp: unicode_scalar_def)
  then show ?thesis
  proof cases
    case 1
    then show ?thesis by (simp add: utf8_encode_bytes_def)
  next
    case 2
    then have "c div 64 < 32" "2 \<le> c div 64" by auto
    with 2 show ?thesis by (simp add: utf8_encode_bytes_def utf8_valid_def)
  next
    case 3
    then have "c div 4096 < 16" by auto
    moreover have "c div 4096 * 4096 + (c div 64 mod 64) * 64 + c mod 64 = c"
      using div_mult_mod_eq [of c 64] div_mult_mod_eq [of "c div 64" 64] div_64_64 [of c]
      by linarith
    ultimately show ?thesis using 3 assms
      by (simp add: utf8_encode_bytes_def utf8_valid_def unicode_scalar_def)
  next
    case 4
    then have "c div 262144 < 8" by auto
    moreover have "c div 262144 * 262144 + (c div 4096 mod 64) * 4096 + (c div 64 mod 64) * 64
        + c mod 64 = c"
      using div_mult_mod_eq [of c 64] div_mult_mod_eq [of "c div 64" 64]
        div_mult_mod_eq [of "c div 4096" 64] div_64_64 [of c]
      by linarith
    ultimately show ?thesis using 4 assms
      by (simp add: utf8_encode_bytes_def utf8_valid_def unicode_scalar_def)
  qed
qed

lemma digit_split:
  assumes "d < (k::nat)"
  shows "(q * k + d) div k = q" and "(q * k + d) mod k = d"
  using assms by auto

lemma utf8_core_Some:
  assumes "utf8_core bs = Some (c, n)"
  shows "unicode_scalar c \<and> n = length (utf8_encode_bytes c) \<and> n \<le> length bs
    \<and> take n bs = utf8_encode_bytes c"
proof (cases bs)
  case Nil
  with assms show ?thesis by simp
next
  case (Cons b xs)
  consider "b < 128" | "\<not> b < 128" "192 \<le> b \<and> b < 224" | "\<not> b < 128" "224 \<le> b \<and> b < 240"
    | "\<not> b < 128" "240 \<le> b \<and> b < 248"
    using assms Cons by (auto split: if_splits)
  then show ?thesis
  proof cases
    case 1
    with assms Cons show ?thesis by (auto simp: unicode_scalar_def utf8_encode_bytes_def)
  next
    case 2
    define b' where "b' = b - 192"
    with 2 have b': "b = 192 + b'" "b' < 32" by auto
    from assms Cons 2 obtain x ys where xs: "xs = x # ys" "128 \<le> x" "x < 192"
      "utf8_valid 2 ((b - 192) * 64 + (x - 128)) = Some (c, n)"
      by (auto split: list.splits if_splits)
    define x' where "x' = x - 128"
    with xs have x': "x = 128 + x'" "x' < 64" by auto
    from xs(4) have c: "c = b' * 64 + x'" "n = 2" "unicode_scalar c" "0x80 \<le> c"
      by (auto simp: utf8_valid_def unicode_scalar_def b' x' split: if_splits)
    have "c div 64 = b'" "c mod 64 = x'" "c < 0x800"
      using b' x' c(1) by auto
    with c(2-4) xs(1) b' x' Cons show ?thesis by (simp add: utf8_encode_bytes_def)
  next
    case 3
    define b' where "b' = b - 224"
    with 3 have b': "b = 224 + b'" "b' < 16" by auto
    from assms Cons 3 obtain x y ys where xs: "xs = x # y # ys" "128 \<le> x" "x < 192" "128 \<le> y" "y < 192"
      "utf8_valid 3 ((b - 224) * 4096 + (x - 128) * 64 + (y - 128)) = Some (c, n)"
      by (auto split: list.splits if_splits)
    define x' y' where "x' = x - 128" and "y' = y - 128"
    with xs have x': "x = 128 + x'" "x' < 64" "y = 128 + y'" "y' < 64" by auto
    from xs(6) have c: "c = b' * 4096 + x' * 64 + y'" "n = 3" "unicode_scalar c" "0x800 \<le> c"
      by (auto simp: utf8_valid_def unicode_scalar_def b' x' split: if_splits)
    have "c = (b' * 64 + x') * 64 + y'" using c(1) by simp
    then have "c div 64 = b' * 64 + x'" "c mod 64 = y'" using x' by (simp_all only: digit_split)
    moreover from this have "c div 4096 = b'" "(c div 64) mod 64 = x'"
      using x' div_mult2_eq [of c 64 64] by auto
    moreover have "c < 0x10000" using b' x' c(1) by simp
    ultimately show ?thesis using c(2-4) xs(1) b' x' Cons by (simp add: utf8_encode_bytes_def)
  next
    case 4
    define b' where "b' = b - 240"
    with 4 have b': "b = 240 + b'" "b' < 8" by auto
    from assms Cons 4 obtain x y z ys where xs: "xs = x # y # z # ys" "128 \<le> x" "x < 192"
      "128 \<le> y" "y < 192" "128 \<le> z" "z < 192"
      "utf8_valid 4 ((b - 240) * 262144 + (x - 128) * 4096 + (y - 128) * 64 + (z - 128)) = Some (c, n)"
      by (auto split: list.splits if_splits)
    define x' y' z' where "x' = x - 128" and "y' = y - 128" and "z' = z - 128"
    with xs have x': "x = 128 + x'" "x' < 64" "y = 128 + y'" "y' < 64" "z = 128 + z'" "z' < 64"
      by auto
    from xs(8) have c: "c = b' * 262144 + x' * 4096 + y' * 64 + z'" "n = 4" "unicode_scalar c"
      "0x10000 \<le> c"
      by (auto simp: utf8_valid_def unicode_scalar_def b' x' split: if_splits)
    have "c = ((b' * 64 + x') * 64 + y') * 64 + z'" using c(1) by simp
    then have "c div 64 = (b' * 64 + x') * 64 + y'" "c mod 64 = z'" using x' by (simp_all only: digit_split)
    then have "c div 4096 = b' * 64 + x'" "(c div 64) mod 64 = y'" "c mod 64 = z'"
      using x' div_mult2_eq [of c 64 64] digit_split [of y' 64 "b' * 64 + x'"] by simp_all
    moreover from this have "c div 262144 = b'" "(c div 4096) mod 64 = x'"
      using x' div_mult2_eq [of c 4096 64] digit_split [of x' 64 b'] by simp_all
    ultimately show ?thesis using c(2-4) xs(1) b' x' Cons by (simp add: utf8_encode_bytes_def)
  qed
qed


subsection \<open>What the decoders compute\<close>

text \<open>\<open>encoded_at text pos c\<close>: the bytes at \<open>pos\<close> are the encoding of the scalar value \<open>c\<close>.\<close>

definition encoded_at :: "string \<Rightarrow> nat \<Rightarrow> code_point \<Rightarrow> bool" where
  "encoded_at text pos c \<longleftrightarrow>
     unicode_scalar c \<and> take (length (utf8_encode c)) (drop pos text) = utf8_encode c"

lemma utf8_encode_bytes_less: "unicode_scalar c \<Longrightarrow> \<forall>b \<in> set (utf8_encode_bytes c). b < 256"
  by (auto simp: utf8_encode_bytes_def unicode_scalar_def)

lemma map_byte_utf8_encode:
  assumes "unicode_scalar c"
  shows "map byte_of (utf8_encode c) = utf8_encode_bytes c"
proof -
  have "map (\<lambda>b. byte_of (char_of b)) (utf8_encode_bytes c) = map (\<lambda>b. b) (utf8_encode_bytes c)"
    by (rule map_cong) (use utf8_encode_bytes_less [OF assms] in auto)
  then show ?thesis by (simp add: utf8_encode_def comp_def)
qed

lemma map_byte_inject: "map byte_of xs = map byte_of ys \<longleftrightarrow> xs = ys"
  by (rule inj_map_eq_map) (rule inj_of_char)

lemma utf8_encode_length: "0 < length (utf8_encode c)" "length (utf8_encode c) \<le> 4"
  by (simp_all add: utf8_encode_def utf8_encode_bytes_def)

lemma utf8_core_encoded_at:
  "utf8_core (map byte_of (drop pos text)) = Some (c, n) \<longleftrightarrow>
     encoded_at text pos c \<and> n = length (utf8_encode c)"
proof
  assume "utf8_core (map byte_of (drop pos text)) = Some (c, n)"
  note * = utf8_core_Some [OF this]
  have "map byte_of (take n (drop pos text)) = map byte_of (utf8_encode c)"
    using * map_byte_utf8_encode [of c] by (metis take_map)
  then have "take n (drop pos text) = utf8_encode c" by (simp only: map_byte_inject)
  with * show "encoded_at text pos c \<and> n = length (utf8_encode c)"
    by (simp add: encoded_at_def utf8_encode_def)
next
  assume a: "encoded_at text pos c \<and> n = length (utf8_encode c)"
  then have "drop pos text = utf8_encode c @ drop n (drop pos text)"
    by (metis append_take_drop_id encoded_at_def)
  then have "map byte_of (drop pos text) = utf8_encode_bytes c @ map byte_of (drop n (drop pos text))"
    using a map_byte_utf8_encode [of c] by (metis encoded_at_def map_append)
  then show "utf8_core (map byte_of (drop pos text)) = Some (c, n)"
    using a utf8_core_encode [of c] by (simp add: encoded_at_def utf8_encode_def)
qed

lemma utf8_core_at:
  "encoded_at text pos c \<Longrightarrow>
     utf8_core (map byte_of (drop pos text)) = Some (c, length (utf8_encode c))"
  by (simp add: utf8_core_encoded_at)

lemma utf8_core_not_at:
  "\<nexists>c. encoded_at text pos c \<Longrightarrow> utf8_core (map byte_of (drop pos text)) = None"
  using utf8_core_encoded_at [of pos "text"]
  by (cases "utf8_core (map byte_of (drop pos text))") auto

lemma encoded_at_unique: "encoded_at text pos c \<Longrightarrow> encoded_at text pos d \<Longrightarrow> c = d"
  using utf8_core_at [of "text" pos c] utf8_core_at [of "text" pos d] by simp

lemma decode_utf8_encoded:
  assumes "pos < length text" and "encoded_at text pos c"
  shows "decode_utf8 text pos = (c, pos + length (utf8_encode c))"
  using utf8_core_at [OF assms(2)] assms(1) by (simp add: decode_utf8_core)

lemma decode_utf8_malformed:
  assumes "pos < length text" and "\<nexists>c. encoded_at text pos c"
  shows "decode_utf8 text pos = (0xFFFD, pos + 1)"
  using utf8_core_not_at [OF assms(2)] assms(1)
  by (simp add: decode_utf8_core g_replacement_character_def)

lemma decode_utf8_advances:
  assumes "pos < length text"
  shows "pos < snd (decode_utf8 text pos)" "snd (decode_utf8 text pos) \<le> length text"
proof -
  have "pos < snd (decode_utf8 text pos) \<and> snd (decode_utf8 text pos) \<le> length text"
  proof (cases "\<exists>c. encoded_at text pos c")
    case True
    then obtain c where c: "encoded_at text pos c" by blast
    then have "length (utf8_encode c) \<le> length text - pos"
      by (metis encoded_at_def length_drop length_take min.cobounded1)
    with c assms show ?thesis using utf8_encode_length [of c] by (simp add: decode_utf8_encoded)
  next
    case False
    with assms show ?thesis by (simp add: decode_utf8_malformed)
  qed
  then show "pos < snd (decode_utf8 text pos)" "snd (decode_utf8 text pos) \<le> length text" by auto
qed

lemma decode_utf8_scalar:
  assumes "pos < length text"
  shows "unicode_scalar (fst (decode_utf8 text pos))"
proof (cases "\<exists>c. encoded_at text pos c")
  case True
  with assms show ?thesis by (auto simp: decode_utf8_encoded encoded_at_def)
next
  case False
  with assms show ?thesis by (simp add: decode_utf8_malformed unicode_scalar_def)
qed

lemma decode_utf8_sequence_spec:
  assumes "pos < length text"
  shows "encoded_at text pos c \<Longrightarrow>
      decode_utf8_sequence text pos = \<lparr>useq_length = length (utf8_encode c), useq_codepoint = c\<rparr>"
    and "\<nexists>c. encoded_at text pos c \<Longrightarrow> decode_utf8_sequence text pos = utf8_malformed"
  using assms by (simp_all add: decode_utf8_sequence_core utf8_core_at utf8_core_not_at)

end
