(* ===== verification/RegexRange.thy ===== *)
theory RegexRange
  imports Utf8
begin

text \<open>
  Character classes of the regular expression engine (src/core/regex.cpp): the code point
  ranges, their normal form and complement, the predefined classes, and the binary search
  the matcher uses. A class denotes a set of code points (\<open>ranges_set\<close>); the normal form is
  unique, so the order in which \<open>std::sort\<close> leaves ranges with equal bounds is immaterial.
\<close>

record Range =
  rfirst :: code_point
  rlast :: code_point

definition mk_range :: "code_point \<Rightarrow> code_point \<Rightarrow> Range" where
  "mk_range a b = \<lparr>rfirst = a, rlast = b\<rparr>"

lemma mk_range_sel [simp]: "rfirst (mk_range a b) = a" "rlast (mk_range a b) = b"
  by (simp_all add: mk_range_def)

definition is_word_character :: "code_point \<Rightarrow> bool" where
  "is_word_character c \<longleftrightarrow>
     (c \<ge> byte_of (CHR ''a'') \<and> c \<le> byte_of (CHR ''z'')) \<or>
     (c \<ge> byte_of (CHR ''A'') \<and> c \<le> byte_of (CHR ''Z'')) \<or>
     (c \<ge> byte_of (CHR ''0'') \<and> c \<le> byte_of (CHR ''9'')) \<or> c = byte_of (CHR ''_'')"

definition is_line_terminator :: "code_point \<Rightarrow> bool" where
  "is_line_terminator c \<longleftrightarrow> c = 0x0A \<or> c = 0x0D \<or> c = 0x2028 \<or> c = 0x2029"

text \<open>The loop of \<open>normalize\<close>: extend the last merged range or start a new one.\<close>

definition normalize_step :: "Range list \<Rightarrow> Range \<Rightarrow> Range list" where
  "normalize_step merged rng =
     (if merged \<noteq> [] \<and> rfirst rng \<le> rlast (last merged) + 1
      then butlast merged @ [(last merged)\<lparr>rlast := max (rlast (last merged)) (rlast rng)\<rparr>]
      else merged @ [rng])"

definition normalize :: "Range list \<Rightarrow> Range list" where
  "normalize ranges = foldl normalize_step [] (sort_key rfirst ranges)"

definition complement_step :: "Range list \<times> code_point \<Rightarrow> Range \<Rightarrow> Range list \<times> code_point" where
  "complement_step st rng =
     (case st of (result, next) \<Rightarrow>
        ((if rfirst rng > next then result @ [mk_range next (rfirst rng - 1)] else result),
         rlast rng + 1))"

definition complement :: "Range list \<Rightarrow> Range list" where
  "complement ranges =
     (case foldl complement_step ([], 0) (normalize ranges) of (result, next) \<Rightarrow>
        if next \<le> g_max_code_point then result @ [mk_range next g_max_code_point] else result)"

definition digit_ranges :: "Range list" where
  "digit_ranges = [mk_range (byte_of (CHR ''0'')) (byte_of (CHR ''9''))]"

definition word_ranges :: "Range list" where
  "word_ranges =
     [mk_range (byte_of (CHR ''0'')) (byte_of (CHR ''9'')),
      mk_range (byte_of (CHR ''A'')) (byte_of (CHR ''Z'')),
      mk_range (byte_of (CHR ''_'')) (byte_of (CHR ''_'')),
      mk_range (byte_of (CHR ''a'')) (byte_of (CHR ''z''))]"

definition space_ranges :: "Range list" where
  "space_ranges =
     [mk_range 0x09 0x0D, mk_range 0x20 0x20, mk_range 0xA0 0xA0, mk_range 0x1680 0x1680,
      mk_range 0x2000 0x200A, mk_range 0x2028 0x2029, mk_range 0x202F 0x202F,
      mk_range 0x205F 0x205F, mk_range 0x3000 0x3000, mk_range 0xFEFF 0xFEFF]"

text \<open>
  \<open>std::upper_bound\<close> on ranges sorted by their first code point: the index of the first
  range that starts after \<open>c\<close>.
\<close>

definition upper_bound_range :: "Range list \<Rightarrow> code_point \<Rightarrow> nat" where
  "upper_bound_range ranges c = length (takeWhile (\<lambda>r. \<not> c < rfirst r) ranges)"

definition contains :: "Range list \<Rightarrow> code_point \<Rightarrow> bool" where
  "contains ranges c =
     (let iter = upper_bound_range ranges c
      in iter \<noteq> 0 \<and> c \<le> rlast (ranges ! (iter - 1)))"

subsection \<open>The set a class denotes, and its normal form\<close>

definition range_set :: "Range \<Rightarrow> code_point set" where
  "range_set r = {rfirst r .. rlast r}"

definition ranges_set :: "Range list \<Rightarrow> code_point set" where
  "ranges_set rs = (\<Union>r \<in> set rs. range_set r)"

definition range_ok :: "Range \<Rightarrow> bool" where
  "range_ok r \<longleftrightarrow> rfirst r \<le> rlast r \<and> rlast r \<le> g_max_code_point"

definition gap :: "Range \<Rightarrow> Range \<Rightarrow> bool" where
  "gap a b \<longleftrightarrow> rlast a + 1 < rfirst b"

definition canonical :: "Range list \<Rightarrow> bool" where
  "canonical rs \<longleftrightarrow> (\<forall>r \<in> set rs. range_ok r) \<and> sorted_wrt gap rs"

lemma ranges_set_simps [simp]:
  "ranges_set [] = {}" "ranges_set (r # rs) = range_set r \<union> ranges_set rs"
  "ranges_set (rs @ rs') = ranges_set rs \<union> ranges_set rs'"
  by (auto simp: ranges_set_def)

lemma canonical_snoc:
  "canonical (rs @ [r]) \<longleftrightarrow> canonical rs \<and> range_ok r \<and> (\<forall>x \<in> set rs. gap x r)"
  by (auto simp: canonical_def sorted_wrt_append)

lemma canonical_Cons:
  "canonical (r # rs) \<longleftrightarrow> canonical rs \<and> range_ok r \<and> (\<forall>x \<in> set rs. gap r x)"
  by (auto simp: canonical_def)

text \<open>
  One step of the merge keeps the normal form and adds exactly the new range, when ranges
  arrive in the order of their first code points.
\<close>

lemma normalize_step_canonical:
  assumes c: "canonical merged" and r: "range_ok r" and s: "\<forall>x \<in> set merged. rfirst x \<le> rfirst r"
  shows "canonical (normalize_step merged r)"
    and "ranges_set (normalize_step merged r) = ranges_set merged \<union> range_set r"
    and "\<forall>x \<in> set (normalize_step merged r). rfirst x \<le> rfirst r"
proof -
  have "canonical (normalize_step merged r)
    \<and> ranges_set (normalize_step merged r) = ranges_set merged \<union> range_set r
    \<and> (\<forall>x \<in> set (normalize_step merged r). rfirst x \<le> rfirst r)"
  proof (cases merged rule: rev_cases)
    case Nil
    with r show ?thesis by (simp add: normalize_step_def canonical_def)
  next
    case (snoc ys y)
    show ?thesis
    proof (cases "rfirst r \<le> rlast y + 1")
      case True
      with snoc have m: "normalize_step merged r = ys @ [y\<lparr>rlast := max (rlast y) (rlast r)\<rparr>]"
        by (simp add: normalize_step_def)
      have y: "range_ok y" "\<forall>x \<in> set ys. gap x y" "canonical ys" "rfirst y \<le> rfirst r"
        using c s snoc by (auto simp: canonical_snoc)
      then have "canonical (normalize_step merged r)"
        using r by (auto simp: m canonical_snoc range_ok_def gap_def)
      moreover have "range_set (y\<lparr>rlast := max (rlast y) (rlast r)\<rparr>) = range_set y \<union> range_set r"
        using True y r by (auto simp: range_set_def range_ok_def)
      ultimately show ?thesis using snoc s y(4) unfolding m
        by (simp add: Un_assoc)
    next
      case False
      with snoc have m: "normalize_step merged r = merged @ [r]"
        by (simp add: normalize_step_def)
      have "\<forall>x \<in> set merged. gap x r"
        using c False snoc by (fastforce simp: canonical_snoc gap_def range_ok_def)
      with c r s show ?thesis by (auto simp: m canonical_snoc)
    qed
  qed
  then show "canonical (normalize_step merged r)"
    and "ranges_set (normalize_step merged r) = ranges_set merged \<union> range_set r"
    and "\<forall>x \<in> set (normalize_step merged r). rfirst x \<le> rfirst r" by auto
qed

lemma normalize_fold_canonical:
  assumes "canonical merged" "\<forall>r \<in> set rs. range_ok r" "sorted (map rfirst rs)"
    "\<forall>x \<in> set merged. \<forall>r \<in> set rs. rfirst x \<le> rfirst r"
  shows "canonical (foldl normalize_step merged rs)
    \<and> ranges_set (foldl normalize_step merged rs) = ranges_set merged \<union> ranges_set rs"
  using assms
proof (induction rs arbitrary: merged)
  case Nil
  then show ?case by simp
next
  case (Cons r rs)
  have pre: "\<forall>x \<in> set merged. rfirst x \<le> rfirst r" and ok: "range_ok r" using Cons.prems by auto
  note step = normalize_step_canonical [OF Cons.prems(1) ok pre]
  have "\<forall>x \<in> set (normalize_step merged r). \<forall>r' \<in> set rs. rfirst x \<le> rfirst r'"
    using step(3) Cons.prems(3) by (auto intro: order_trans)
  with Cons.IH [OF step(1)] Cons.prems step(2) show ?case by auto
qed

lemma normalize_canonical:
  assumes "\<forall>r \<in> set rs. range_ok r"
  shows "canonical (normalize rs)" and "ranges_set (normalize rs) = ranges_set rs"
  using normalize_fold_canonical [of "[]" "sort_key rfirst rs"] assms
  by (auto simp: normalize_def canonical_def ranges_set_def)

lemma contains_canonical:
  assumes "canonical rs"
  shows "contains rs c \<longleftrightarrow> c \<in> ranges_set rs"
proof -
  define pre post where "pre = takeWhile (\<lambda>r. \<not> c < rfirst r) rs"
    and "post = dropWhile (\<lambda>r. \<not> c < rfirst r) rs"
  have rs: "rs = pre @ post" by (simp add: pre_def post_def)
  have pre: "\<forall>r \<in> set pre. rfirst r \<le> c" by (auto simp: pre_def dest: set_takeWhileD)
  have "\<forall>r \<in> set post. c < rfirst r"
  proof (cases post)
    case Nil
    then show ?thesis by simp
  next
    case (Cons p ps)
    then have "c < rfirst p" by (auto simp: post_def dropWhile_eq_Cons_conv)
    moreover have "\<forall>r \<in> set ps. gap p r" "range_ok p"
      using assms rs Cons by (auto simp: canonical_def sorted_wrt_append)
    ultimately show ?thesis using Cons by (auto simp: gap_def range_ok_def)
  qed
  then have post: "c \<notin> ranges_set post" by (auto simp: ranges_set_def range_set_def)
  have ub: "upper_bound_range rs c = length pre" by (simp add: upper_bound_range_def pre_def)
  show ?thesis
  proof (cases pre rule: rev_cases)
    case Nil
    with ub rs post show ?thesis by (simp add: contains_def)
  next
    case (snoc ys y)
    have "\<forall>x \<in> set ys. gap x y" "rfirst y \<le> c"
      using assms rs snoc pre by (auto simp: canonical_def sorted_wrt_append)
    then have "c \<notin> ranges_set ys" by (fastforce simp: ranges_set_def range_set_def gap_def)
    moreover have "contains rs c \<longleftrightarrow> c \<le> rlast y"
      using ub rs snoc by (simp add: contains_def nth_append)
    ultimately show ?thesis using rs snoc post \<open>rfirst y \<le> c\<close> by (auto simp: range_set_def)
  qed
qed


subsection \<open>The complement\<close>

lemma complement_step_pair:
  "complement_step (res, nxt) r =
     (if rfirst r > nxt then res @ [mk_range nxt (rfirst r - 1)] else res, rlast r + 1)"
  by (simp add: complement_step_def)

lemma complement_fold:
  assumes "canonical rs" "canonical res" "\<forall>x \<in> set res. rlast x + 1 < nxt"
    "\<forall>r \<in> set rs. nxt \<le> rfirst r" "nxt \<le> g_max_code_point + 1"
    "foldl complement_step (res, nxt) rs = (res', nxt')"
  shows "canonical res' \<and> (\<forall>x \<in> set res'. rlast x + 1 < nxt') \<and> nxt \<le> nxt'
    \<and> nxt' \<le> g_max_code_point + 1 \<and> (\<forall>c \<in> ranges_set rs. c < nxt')
    \<and> ranges_set res' = ranges_set res \<union> ({nxt..<nxt'} - ranges_set rs)"
  using assms
proof (induction rs arbitrary: res nxt)
  case Nil
  then show ?case by auto
next
  case (Cons r rs)
  define res1 where "res1 = (if rfirst r > nxt then res @ [mk_range nxt (rfirst r - 1)] else res)"
  define nxt1 where "nxt1 = rlast r + 1"
  have r: "range_ok r" "\<forall>x \<in> set rs. gap r x" "canonical rs" "nxt \<le> rfirst r"
    using Cons.prems by (auto simp: canonical_Cons)
  have c1: "canonical res1"
    using Cons.prems(2,3) r(1) by (auto simp: res1_def canonical_snoc range_ok_def gap_def)
  have b1: "\<forall>x \<in> set res1. rlast x + 1 < nxt1"
    using Cons.prems(3) r(1,4)
    by (auto simp: res1_def nxt1_def range_ok_def intro: less_le_trans)
  have f1: "\<forall>x \<in> set rs. nxt1 \<le> rfirst x"
    using r(2) by (auto simp: nxt1_def gap_def)
  have m1: "nxt1 \<le> g_max_code_point + 1" using r(1) by (simp add: nxt1_def range_ok_def)
  have s1: "ranges_set res1 = ranges_set res \<union> {nxt..<rfirst r}"
    using r(4) by (auto simp: res1_def range_set_def)
  have "foldl complement_step (res1, nxt1) rs = (res', nxt')"
    using Cons.prems(6) by (simp add: complement_step_pair res1_def nxt1_def)
  note ih = Cons.IH [OF r(3) c1 b1 f1 m1 this]
  have "range_set r = {rfirst r..<nxt1}" by (auto simp: range_set_def nxt1_def)
  moreover have "ranges_set rs \<inter> {0..<nxt1} = {}"
    using f1 by (fastforce simp: ranges_set_def range_set_def)
  moreover have "nxt \<le> nxt1" "rfirst r \<le> nxt1" using r(1,4) by (auto simp: nxt1_def range_ok_def)
  ultimately show ?case using ih s1 r(4) by fastforce
qed

lemma complement_canonical:
  assumes "\<forall>r \<in> set rs. range_ok r"
  shows "canonical (complement rs)"
    and "ranges_set (complement rs) = {0..g_max_code_point} - ranges_set rs"
proof -
  obtain res nxt where f: "foldl complement_step ([], 0) (normalize rs) = (res, nxt)" by force
  note fold = complement_fold [OF normalize_canonical(1) [OF assms] _ _ _ _ f]
  then have "canonical res" "\<forall>x \<in> set res. rlast x + 1 < nxt" "nxt \<le> g_max_code_point + 1"
    "\<forall>c \<in> ranges_set rs. c < nxt" "ranges_set res = {0..<nxt} - ranges_set rs"
    by (auto simp: canonical_def normalize_canonical(2) [OF assms])
  then show "canonical (complement rs)"
    and "ranges_set (complement rs) = {0..g_max_code_point} - ranges_set rs"
    by (auto simp: complement_def f canonical_snoc gap_def range_ok_def range_set_def)
qed

subsection \<open>Uniqueness of the normal form\<close>

lemma canonical_first_least:
  assumes "canonical (r # rs)"
  shows "rfirst r \<in> ranges_set (r # rs)" "\<And>c. c \<in> ranges_set (r # rs) \<Longrightarrow> rfirst r \<le> c"
  using assms by (fastforce simp: canonical_Cons range_ok_def gap_def ranges_set_def range_set_def)+

lemma canonical_first_end:
  assumes "canonical (r # rs)"
  shows "rlast r + 1 \<notin> ranges_set (r # rs)"
    and "\<And>c. rfirst r \<le> c \<Longrightarrow> c \<le> rlast r \<Longrightarrow> c \<in> ranges_set (r # rs)"
  using assms by (fastforce simp: canonical_Cons range_ok_def gap_def ranges_set_def range_set_def)+

lemma canonical_unique:
  assumes "canonical rs" "canonical rs'" "ranges_set rs = ranges_set rs'"
  shows "rs = rs'"
  using assms
proof (induction rs arbitrary: rs')
  case Nil
  then show ?case
    by (cases rs') (auto simp: canonical_Cons range_ok_def range_set_def)
next
  case (Cons r rs)
  obtain r' rs1 where rs': "rs' = r' # rs1"
    using Cons.prems canonical_first_least(1) by (cases rs') fastforce+
  have c': "canonical (r' # rs1)" and eq: "ranges_set (r # rs) = ranges_set (r' # rs1)"
    using Cons.prems rs' by auto
  have f: "rfirst r = rfirst r'"
    using canonical_first_least [OF Cons.prems(1)] canonical_first_least [OF c'] eq
    by (metis antisym)
  have "rlast r = rlast r'"
  proof (rule ccontr)
    assume "rlast r \<noteq> rlast r'"
    then consider "rlast r + 1 \<le> rlast r'" | "rlast r' + 1 \<le> rlast r" by linarith
    then show False
    proof cases
      case 1
      have "rfirst r' \<le> rlast r + 1"
        using Cons.prems(1) f by (auto simp: canonical_Cons range_ok_def)
      from canonical_first_end(2) [OF c' this 1] canonical_first_end(1) [OF Cons.prems(1)] eq
      show False by blast
    next
      case 2
      have "rfirst r \<le> rlast r' + 1"
        using c' f by (auto simp: canonical_Cons range_ok_def)
      from canonical_first_end(2) [OF Cons.prems(1) this 2] canonical_first_end(1) [OF c'] eq
      show False by blast
    qed
  qed
  with f have r: "r = r'" by simp
  have disj: "ranges_set xs \<inter> range_set x = {}" if "canonical (x # xs)" for x xs
    using that by (fastforce simp: canonical_Cons gap_def ranges_set_def range_set_def)
  have "ranges_set rs = ranges_set rs1"
    using eq disj [OF Cons.prems(1)] disj [OF c'] r by auto
  with Cons.IH Cons.prems(1) c' r rs' show ?case by (simp add: canonical_Cons)
qed

lemma normalize_any_sort:
  assumes "\<forall>r \<in> set rs. range_ok r" and "set ys = set rs" and "sorted (map rfirst ys)"
  shows "foldl normalize_step [] ys = normalize rs"
proof -
  have "canonical (foldl normalize_step [] ys) \<and> ranges_set (foldl normalize_step [] ys) = ranges_set rs"
    using normalize_fold_canonical [of "[]" ys] assms by (auto simp: canonical_def ranges_set_def)
  then show ?thesis using canonical_unique normalize_canonical [OF assms(1)] by metis
qed

lemma predefined_ranges_ok:
  "\<forall>r \<in> set digit_ranges. range_ok r" "\<forall>r \<in> set word_ranges. range_ok r"
  "\<forall>r \<in> set space_ranges. range_ok r"
  by (simp_all add: digit_ranges_def word_ranges_def space_ranges_def range_ok_def
      g_max_code_point_def)

lemma word_ranges_set: "c \<in> ranges_set word_ranges \<longleftrightarrow> is_word_character c"
  by (auto simp: word_ranges_def is_word_character_def range_set_def)

end
