(* ===== verification/RegexLexer.thy ===== *)
theory RegexLexer
  imports RegexRange
begin

text \<open>
  The data of the regular expression parser (src/core/regex.cpp) and the parts of it that do
  not recurse into groups: the character cursor, quantifiers, escapes and class members. A
  parsed pattern is a list of nodes that refer to each other by index (\<open>Parser::nodes\<close>), with
  the character classes beside it. \<open>fail\<close> throws, which is the left value of the sum.
\<close>

subsection \<open>Data\<close>

datatype Op = Op_eChar | Op_eAny | Op_eClass | Op_eSplit | Op_eJump | Op_eInputStart
  | Op_eInputEnd | Op_eWordBoundary | Op_eNotWordBoundary | Op_eMatch

datatype Kind = Kind_eEmpty | Kind_eChar | Kind_eAny | Kind_eClass | Kind_eConcat
  | Kind_eAlternation | Kind_eRepeat | Kind_eAssertion

record Node =
  nd_kind :: Kind
  nd_code_point :: code_point
  nd_class_index :: nat
  nd_assertion :: Op
  nd_children :: "nat list"
  nd_min :: nat
  nd_max :: "nat option"

definition new_node :: Node where
  "new_node = \<lparr>nd_kind = Kind_eEmpty, nd_code_point = 0, nd_class_index = 0,
     nd_assertion = Op_eInputStart, nd_children = [], nd_min = 0, nd_max = None\<rparr>"

record ClassAtom =
  at_code_point :: "code_point option"
  at_set :: "Range list"

definition char_atom :: "code_point \<Rightarrow> ClassAtom" where
  "char_atom c = \<lparr>at_code_point = Some c, at_set = []\<rparr>"

definition set_atom :: "Range list \<Rightarrow> ClassAtom" where
  "set_atom rs = \<lparr>at_code_point = None, at_set = rs\<rparr>"

record Parser =
  p_text :: "code_point list"
  p_pos :: nat
  p_nodes :: "Node list"
  p_classes :: "Range list list"

text \<open>
  \<open>RegexError\<close>: a malformed pattern, with the offset and reason of the message, or a program
  over the size limit. \<open>OutOfFuel\<close> is no error of the code; no call of \<open>parse\<close> gives it.
\<close>

datatype RegexError = InvalidPattern nat string | ProgramTooLarge | OutOfFuel

definition max_repeat_count :: nat where "max_repeat_count = 10000"
definition max_nesting :: nat where "max_nesting = 64"
definition max_program_size :: nat where "max_program_size = 20000"

abbreviation cp :: "char \<Rightarrow> code_point" where "cp c \<equiv> byte_of c"

subsection \<open>The character cursor\<close>

definition fail :: "Parser \<Rightarrow> string \<Rightarrow> RegexError + 'a" where
  "fail p reason = Inl (InvalidPattern (p_pos p) reason)"

definition at_end :: "Parser \<Rightarrow> bool" where
  "at_end p \<longleftrightarrow> p_pos p \<ge> length (p_text p)"

definition peek :: "Parser \<Rightarrow> nat \<Rightarrow> code_point" where
  "peek p ahead = (if p_pos p + ahead < length (p_text p) then p_text p ! (p_pos p + ahead) else 0)"

definition advance :: "Parser \<Rightarrow> Parser" where
  "advance p = p\<lparr>p_pos := p_pos p + 1\<rparr>"

definition accept :: "Parser \<Rightarrow> char \<Rightarrow> bool \<times> Parser" where
  "accept p c = (if \<not> at_end p \<and> p_text p ! p_pos p = cp c then (True, advance p) else (False, p))"

definition add :: "Parser \<Rightarrow> Node \<Rightarrow> nat \<times> Parser" where
  "add p node = (length (p_nodes p), p\<lparr>p_nodes := p_nodes p @ [node]\<rparr>)"

definition add_class :: "Parser \<Rightarrow> Range list \<Rightarrow> nat \<times> Parser" where
  "add_class p ranges =
     add (p\<lparr>p_classes := p_classes p @ [normalize ranges]\<rparr>)
       (new_node\<lparr>nd_kind := Kind_eClass, nd_class_index := length (p_classes p)\<rparr>)"

definition add_char :: "Parser \<Rightarrow> code_point \<Rightarrow> nat \<times> Parser" where
  "add_char p c = add p (new_node\<lparr>nd_kind := Kind_eChar, nd_code_point := c\<rparr>)"

definition add_assertion :: "Parser \<Rightarrow> Op \<Rightarrow> nat \<times> Parser" where
  "add_assertion p a = add p (new_node\<lparr>nd_kind := Kind_eAssertion, nd_assertion := a\<rparr>)"

text \<open>The rest of the pattern shrinks: the measure of every loop below.\<close>

definition rest :: "Parser \<Rightarrow> nat" where
  "rest p = length (p_text p) - p_pos p"

lemma advance_sel [simp]:
  "p_text (advance p) = p_text p" "p_pos (advance p) = p_pos p + 1" "p_nodes (advance p) = p_nodes p"
  "p_classes (advance p) = p_classes p"
  by (simp_all add: advance_def)

lemma rest_advance: "\<not> at_end p \<Longrightarrow> rest (advance p) < rest p"
  by (simp add: rest_def at_end_def)

subsection \<open>Quantifiers\<close>

definition is_digit :: "code_point \<Rightarrow> bool" where
  "is_digit c \<longleftrightarrow> c \<ge> cp CHR ''0'' \<and> c \<le> cp CHR ''9''"

function read_number_loop :: "Parser \<Rightarrow> nat \<Rightarrow> nat \<Rightarrow> RegexError + (nat \<times> nat \<times> Parser)" where
  "read_number_loop p value digits =
     (if \<not> at_end p \<and> is_digit (peek p 0) then
        (let value' = value * 10 + (peek p 0 - cp CHR ''0'')
         in if value' > max_repeat_count then fail p ''repetition count exceeds 10000''
            else read_number_loop (advance p) value' (digits + 1))
      else Inr (value, digits, p))"
  by pat_completeness auto
termination
  by (relation "measure (\<lambda>(p, value, digits). rest p)") (auto simp: rest_advance)

declare read_number_loop.simps [simp del]

text \<open>\<open>read_number\<close>: the value and whether any digit was read.\<close>

definition read_number :: "Parser \<Rightarrow> RegexError + (nat \<times> bool \<times> Parser)" where
  "read_number p =
     bindE (read_number_loop p 0 0) (\<lambda>(value, digits, p'). Inr (value, digits > 0, p'))"

definition parse_braces :: "Parser \<Rightarrow> RegexError + ((nat \<times> nat option) option \<times> Parser)" where
  "parse_braces p =
     bindE (read_number (advance p)) (\<lambda>(low, any, p1).
       if \<not> any then Inr (None, p1\<lparr>p_pos := p_pos p\<rparr>)
       else
         (case accept p1 CHR '','' of (comma, p2) \<Rightarrow>
           bindE (if comma
                  then bindE (read_number p2) (\<lambda>(value, any2, p3).
                         Inr (if any2 then Some value else None, p3))
                  else Inr (Some low, p2)) (\<lambda>(high, p3).
             (case accept p3 CHR ''}'' of (closed, p4) \<Rightarrow>
               if \<not> closed then Inr (None, p4\<lparr>p_pos := p_pos p\<rparr>)
               else if (case high of Some h \<Rightarrow> h < low | None \<Rightarrow> False)
               then fail p4 ''numbers out of order in {} quantifier''
               else Inr (Some (low, high), p4)))))"

definition parse_quantifier :: "Parser \<Rightarrow> RegexError + ((nat \<times> nat option) option \<times> Parser)" where
  "parse_quantifier p =
     (case accept p CHR ''*'' of (is_star, p1) \<Rightarrow>
        if is_star then Inr (Some (0, None), p1)
        else (case accept p CHR ''+'' of (is_plus, p2) \<Rightarrow>
          if is_plus then Inr (Some (1, None), p2)
          else (case accept p CHR ''?'' of (is_opt, p3) \<Rightarrow>
            if is_opt then Inr (Some (0, Some 1), p3)
            else if peek p 0 = cp CHR ''{'' then parse_braces p
            else Inr (None, p))))"

subsection \<open>Escapes\<close>

definition hex_nibble :: "code_point \<Rightarrow> nat option" where
  "hex_nibble h =
     (if h \<ge> cp CHR ''0'' \<and> h \<le> cp CHR ''9'' then Some (h - cp CHR ''0'')
      else if h \<ge> cp CHR ''a'' \<and> h \<le> cp CHR ''f'' then Some (h - cp CHR ''a'' + 10)
      else if h \<ge> cp CHR ''A'' \<and> h \<le> cp CHR ''F'' then Some (h - cp CHR ''A'' + 10)
      else None)"

fun parse_hex_loop :: "nat \<Rightarrow> Parser \<Rightarrow> nat \<Rightarrow> RegexError + (nat \<times> Parser)" where
  "parse_hex_loop 0 p value = Inr (value, p)"
| "parse_hex_loop (Suc n) p value =
     (case hex_nibble (peek p 0) of
        None \<Rightarrow> fail p ''invalid hexadecimal escape''
      | Some nibble \<Rightarrow> parse_hex_loop n (advance p) (value * 16 + nibble))"

definition parse_hex :: "Parser \<Rightarrow> nat \<Rightarrow> RegexError + (nat \<times> Parser)" where
  "parse_hex p digits = parse_hex_loop digits p 0"

lemma hex_nibble_less: "hex_nibble h = Some n \<Longrightarrow> n < 16"
  by (auto simp: hex_nibble_def split: if_splits)

lemma hex_nibble_peek_not_end: "hex_nibble (peek p 0) = Some n \<Longrightarrow> \<not> at_end p"
  by (auto simp: hex_nibble_def peek_def at_end_def split: if_splits)

lemma parse_hex_frame:
  "parse_hex_loop n p v0 = Inr (v, p') \<Longrightarrow>
     p' = p\<lparr>p_pos := p_pos p + n\<rparr> \<and> (0 < n \<longrightarrow> p_pos p + n \<le> length (p_text p))
     \<and> v < (v0 + 1) * 16 ^ n"
proof (induction n arbitrary: p v0)
  case 0
  then show ?case by simp
next
  case (Suc n)
  then obtain nib where nib: "hex_nibble (peek p 0) = Some nib"
    "parse_hex_loop n (advance p) (v0 * 16 + nib) = Inr (v, p')"
    by (auto simp: fail_def split: option.splits)
  from Suc.IH [OF nib(2)] have *: "p' = p\<lparr>p_pos := p_pos p + Suc n\<rparr>"
    "0 < n \<longrightarrow> p_pos p + Suc n \<le> length (p_text p)" "v < (v0 * 16 + nib + 1) * 16 ^ n"
    by (auto simp: advance_def)
  have "(v0 * 16 + nib + 1) * 16 ^ n \<le> (v0 + 1) * 16 * 16 ^ n"
    using hex_nibble_less [OF nib(1)] by (intro mult_right_mono) auto
  with *(3) have "v < (v0 + 1) * 16 ^ Suc n" by (simp only: power_Suc mult.assoc)
  with *(1,2) hex_nibble_peek_not_end [OF nib(1)] show ?case
    by (cases n) (auto simp: at_end_def)
qed

lemma parse_hex_rest:
  assumes "parse_hex p 1 = Inr (h, p')"
  shows "rest p' < rest p"
proof -
  have "parse_hex_loop 1 p 0 = Inr (h, p')" using assms by (simp only: parse_hex_def)
  from parse_hex_frame [OF this] show ?thesis by (auto simp: rest_def)
qed

function unicode_braces_loop ::
  "Parser \<Rightarrow> nat \<Rightarrow> nat \<Rightarrow> RegexError + (nat \<times> nat \<times> Parser)" where
  "unicode_braces_loop p value digits =
     (if \<not> at_end p \<and> peek p 0 \<noteq> cp CHR ''}'' then
        (case parse_hex p 1 of
           Inl e \<Rightarrow> Inl e
         | Inr (h, p') \<Rightarrow>
             (let value' = value * 16 + h
              in if digits + 1 > 6 \<or> value' > g_max_code_point then fail p' ''code point out of range''
                 else unicode_braces_loop p' value' (digits + 1)))
      else Inr (value, digits, p))"
  by pat_completeness auto
termination
  by (relation "measure (\<lambda>(p, value, digits). rest p)") (auto intro: parse_hex_rest)

declare unicode_braces_loop.simps [simp del]

definition parse_unicode_escape :: "Parser \<Rightarrow> RegexError + (code_point \<times> Parser)" where
  "parse_unicode_escape p =
     (case accept p CHR ''{'' of (braces, p1) \<Rightarrow>
        if braces then
          bindE (unicode_braces_loop p1 0 0) (\<lambda>(value, digits, p2).
            (case accept p2 CHR ''}'' of (closed, p3) \<Rightarrow>
               if digits = 0 then fail p2 (''invalid '' @ [CHR 0x5C] @ ''u{} escape'')
               else if \<not> closed then fail p3 (''invalid '' @ [CHR 0x5C] @ ''u{} escape'')
               else Inr (value, p3)))
        else
          bindE (parse_hex p 4) (\<lambda>(value, p2).
            if value \<ge> 0xD800 \<and> value \<le> 0xDBFF \<and> peek p2 0 = 0x5C \<and> peek p2 1 = cp CHR ''u'' then
              bindE (parse_hex (p2\<lparr>p_pos := p_pos p2 + 2\<rparr>) 4) (\<lambda>(low, p3).
                if low \<ge> 0xDC00 \<and> low \<le> 0xDFFF
                then Inr (0x10000 + push_bit 10 (value - 0xD800) + (low - 0xDC00), p3)
                else Inr (value, p3\<lparr>p_pos := p_pos p2\<rparr>))
            else Inr (value, p2)))"

definition unsupported_octal :: string where
  "unsupported_octal = ''octal escapes are not supported''"

text \<open>
  The switch of \<open>parse_escape_atom\<close>, case by case in the order of the source; \<open>p\<close> is the state
  after the escaped character \<open>c\<close> has been taken.
\<close>

definition escape_switch :: "Parser \<Rightarrow> code_point \<Rightarrow> bool \<Rightarrow> RegexError + (ClassAtom \<times> Parser)" where
  "escape_switch p c in_class =
     (if c = cp CHR ''d'' then Inr (set_atom digit_ranges, p)
      else if c = cp CHR ''D'' then Inr (set_atom (complement digit_ranges), p)
      else if c = cp CHR ''w'' then Inr (set_atom word_ranges, p)
      else if c = cp CHR ''W'' then Inr (set_atom (complement word_ranges), p)
      else if c = cp CHR ''s'' then Inr (set_atom space_ranges, p)
      else if c = cp CHR ''S'' then Inr (set_atom (complement space_ranges), p)
      else if c = cp CHR ''t'' then Inr (char_atom 0x09, p)
      else if c = cp CHR ''n'' then Inr (char_atom 0x0A, p)
      else if c = cp CHR ''v'' then Inr (char_atom 0x0B, p)
      else if c = cp CHR ''f'' then Inr (char_atom 0x0C, p)
      else if c = cp CHR ''r'' then Inr (char_atom 0x0D, p)
      else if c = cp CHR ''0'' then
        (if is_digit (peek p 0) then fail p unsupported_octal else Inr (char_atom 0, p))
      else if c = cp CHR ''c'' then
        (let letter = peek p 0 in
         if \<not> ((letter \<ge> cp CHR ''a'' \<and> letter \<le> cp CHR ''z'')
             \<or> (letter \<ge> cp CHR ''A'' \<and> letter \<le> cp CHR ''Z''))
         then fail p (''invalid '' @ [CHR 0x5C] @ ''c escape'')
         else Inr (char_atom (letter mod 32), advance p))
      else if c = cp CHR ''x'' then bindE (parse_hex p 2) (\<lambda>(v, p'). Inr (char_atom v, p'))
      else if c = cp CHR ''u'' then bindE (parse_unicode_escape p) (\<lambda>(v, p'). Inr (char_atom v, p'))
      else if c = cp CHR ''p'' \<or> c = cp CHR ''P'' then
        fail p ''Unicode property escapes are not supported''
      else if c = cp CHR ''k'' then fail p ''backreferences are not supported''
      else if c = cp CHR ''b'' \<and> in_class then Inr (char_atom 0x08, p)
      else if c = cp CHR ''-'' then Inr (char_atom (cp CHR ''-''), p)
      else if c \<ge> cp CHR ''1'' \<and> c \<le> cp CHR ''9'' then
        fail p (if in_class then unsupported_octal else ''backreferences are not supported'')
      else if is_word_character c then fail p (''unknown escape '' @ [CHR 0x5C] @ [char_of c])
      else Inr (char_atom c, p))"

definition parse_escape_atom :: "Parser \<Rightarrow> bool \<Rightarrow> RegexError + (ClassAtom \<times> Parser)" where
  "parse_escape_atom p in_class =
     (if at_end p then fail p ([CHR 0x5C] @ '' at end of pattern'')
      else escape_switch (advance p) (peek p 0) in_class)"

definition parse_escape :: "Parser \<Rightarrow> RegexError + (nat \<times> Parser)" where
  "parse_escape p =
     (if peek p 0 = cp CHR ''b'' \<or> peek p 0 = cp CHR ''B'' then
        Inr (add_assertion (advance p)
               (if peek p 0 = cp CHR ''B'' then Op_eNotWordBoundary else Op_eWordBoundary))
      else bindE (parse_escape_atom p False) (\<lambda>(atom, p').
             Inr (case at_code_point atom of
                    Some c \<Rightarrow> add_char p' c
                  | None \<Rightarrow> add_class p' (at_set atom))))"

subsection \<open>Character classes\<close>

definition quoted :: "char \<Rightarrow> string" where
  "quoted c = [CHR 0x27, c, CHR 0x27]"

definition parse_class_atom :: "Parser \<Rightarrow> RegexError + (ClassAtom \<times> Parser)" where
  "parse_class_atom p =
     (if at_end p then fail p (''missing '' @ quoted CHR '']'')
      else (case accept p (CHR 0x5C) of (escaped, p1) \<Rightarrow>
        if escaped then parse_escape_atom p1 True
        else Inr (char_atom (peek p 0), advance p)))"

text \<open>The ranges an atom contributes: one code point, or the members of its set.\<close>

definition atom_ranges :: "ClassAtom \<Rightarrow> Range list" where
  "atom_ranges atom = (case at_code_point atom of Some c \<Rightarrow> [mk_range c c] | None \<Rightarrow> at_set atom)"

text \<open>One turn of the loop of \<open>parse_class\<close>: an atom, or two atoms around a \<open>-\<close>.\<close>

definition parse_class_item :: "Parser \<Rightarrow> Range list \<Rightarrow> RegexError + (Range list \<times> Parser)" where
  "parse_class_item p ranges =
     bindE (parse_class_atom p) (\<lambda>(low, p1).
       if peek p1 0 = cp CHR ''-'' \<and> peek p1 1 \<noteq> cp CHR '']'' \<and> peek p1 1 \<noteq> 0 then
         bindE (parse_class_atom (advance p1)) (\<lambda>(high, p2).
           (case (at_code_point low, at_code_point high) of
              (Some l, Some h) \<Rightarrow>
                if l > h then fail p2 ''range out of order in character class''
                else Inr (ranges @ [mk_range l h], p2)
            | _ \<Rightarrow>
                Inr (ranges @ atom_ranges low @ atom_ranges high @
                     [mk_range (cp CHR ''-'') (cp CHR ''-'')], p2)))
       else Inr (ranges @ atom_ranges low, p1))"

subsection \<open>What the flat parsing functions change\<close>

text \<open>
  \<open>moved p p'\<close>: only the position changed, forwards and within the text. Every function above
  that does not add a node moves its state; the ones that take an atom move it by one or more.
\<close>

definition moved :: "Parser \<Rightarrow> Parser \<Rightarrow> bool" where
  "moved p p' \<longleftrightarrow> p' = p\<lparr>p_pos := p_pos p'\<rparr> \<and> p_pos p \<le> p_pos p'
     \<and> (p_pos p \<le> length (p_text p) \<longrightarrow> p_pos p' \<le> length (p_text p))"

definition moved1 :: "Parser \<Rightarrow> Parser \<Rightarrow> bool" where
  "moved1 p p' \<longleftrightarrow> moved p p' \<and> p_pos p < p_pos p'"

lemma moved_refl [simp]: "moved p p"
  by (simp add: moved_def)

lemma moved_trans: "moved p q \<Longrightarrow> moved q r \<Longrightarrow> moved p r"
  unfolding moved_def by (metis Parser.select_convs(1) Parser.surjective Parser.update_convs(2) le_trans)

lemma moved1_trans: "moved1 p q \<Longrightarrow> moved q r \<Longrightarrow> moved1 p r" "moved p q \<Longrightarrow> moved1 q r \<Longrightarrow> moved1 p r"
  by (auto simp: moved1_def intro: moved_trans dest: moved_def [THEN iffD1])

lemma moved1_moved: "moved1 p q \<Longrightarrow> moved p q"
  by (simp add: moved1_def)

lemma moved_sel:
  assumes "moved p p'"
  shows "p_text p' = p_text p" "p_nodes p' = p_nodes p" "p_classes p' = p_classes p"
    "p_pos p \<le> p_pos p'" "rest p' \<le> rest p"
proof -
  from assms have p': "p' = p\<lparr>p_pos := p_pos p'\<rparr>" by (simp add: moved_def)
  show "p_text p' = p_text p" "p_nodes p' = p_nodes p" "p_classes p' = p_classes p"
    by (subst p', simp)+
  with assms show "p_pos p \<le> p_pos p'" "rest p' \<le> rest p" by (auto simp: moved_def rest_def)
qed

lemma moved_restore: "moved p q \<Longrightarrow> q\<lparr>p_pos := p_pos p\<rparr> = p"
  unfolding moved_def by (metis Parser.surjective Parser.update_convs(2))

lemma moved1_advance: "\<not> at_end p \<Longrightarrow> moved1 p (advance p)"
  by (simp add: moved1_def moved_def advance_def at_end_def)

lemma accept_moved: "accept p c = (b, p') \<Longrightarrow> moved p p' \<and> (b \<longrightarrow> moved1 p p')"
  by (auto simp: accept_def moved1_advance moved1_moved split: if_splits)

lemma read_number_loop_moved:
  "read_number_loop p v d = Inr (v', d', p') \<Longrightarrow> moved p p'"
proof (induction p v d rule: read_number_loop.induct)
  case (1 p v d)
  then show ?case
    by (subst (asm) (2) read_number_loop.simps)
      (auto simp: Let_def fail_def split: if_splits
        intro: moved1_moved [OF moved1_advance] moved_trans)
qed

lemma parse_hex_moved: "parse_hex p n = Inr (v, p') \<Longrightarrow> moved p p'"
  by (auto simp: parse_hex_def moved_def dest!: parse_hex_frame)

definition parser_text_ok :: "Parser \<Rightarrow> bool" where
  "parser_text_ok p \<longleftrightarrow> (\<forall>c \<in> set (p_text p). c \<le> g_max_code_point)"

lemma peek_bound: "parser_text_ok p \<Longrightarrow> peek p n \<le> g_max_code_point"
  by (auto simp: parser_text_ok_def peek_def)

lemma parser_text_ok_moved: "moved p p' \<Longrightarrow> parser_text_ok p' = parser_text_ok p"
  by (simp add: parser_text_ok_def moved_sel)

lemma parser_text_ok_advance [simp]: "parser_text_ok (advance p) = parser_text_ok p"
  by (simp add: parser_text_ok_def)

lemma read_number_loop_bound:
  "read_number_loop p v d = Inr (v', d', p') \<Longrightarrow> v \<le> max_repeat_count \<Longrightarrow> v' \<le> max_repeat_count"
proof (induction p v d rule: read_number_loop.induct)
  case (1 p v d)
  then show ?case
    by (subst (asm) (2) read_number_loop.simps) (auto simp: Let_def fail_def split: if_splits)
qed

lemma read_number_moved: "read_number p = Inr (v, b, p') \<Longrightarrow> moved p p' \<and> v \<le> max_repeat_count"
  by (auto simp: read_number_def max_repeat_count_def
      dest: read_number_loop_moved read_number_loop_bound)

lemma parse_braces_moved:
  assumes "parse_braces p = Inr (q, p')" and "\<not> at_end p"
  shows "(q = None \<longrightarrow> p' = p) \<and> (q \<noteq> None \<longrightarrow> moved1 p p')
    \<and> (\<forall>lo hi. q = Some (lo, hi) \<longrightarrow> lo \<le> max_repeat_count \<and> (\<forall>h. hi = Some h \<longrightarrow> lo \<le> h))"
proof -
  from assms(1) obtain low any p1 where p1: "read_number (advance p) = Inr (low, any, p1)"
    and r1: "(if \<not> any then Inr (None, p1\<lparr>p_pos := p_pos p\<rparr>)
       else (case accept p1 CHR '','' of (comma, p2) \<Rightarrow>
           bindE (if comma
                  then bindE (read_number p2) (\<lambda>(v, any2, p3).
                         Inr (if any2 then Some v else None, p3))
                  else Inr (Some low, p2)) (\<lambda>(high, p3).
             (case accept p3 CHR ''}'' of (closed, p4) \<Rightarrow>
               if \<not> closed then Inr (None, p4\<lparr>p_pos := p_pos p\<rparr>)
               else if (case high of Some h \<Rightarrow> h < low | None \<Rightarrow> False)
               then fail p4 ''numbers out of order in {} quantifier''
               else Inr (Some (low, high), p4))))) = Inr (q, p')"
    by (auto simp: parse_braces_def)
  have m1: "moved1 p p1" and low: "low \<le> max_repeat_count"
    using read_number_moved [OF p1] moved1_advance [OF assms(2)] by (auto intro: moved1_trans)
  show ?thesis
  proof (cases any)
    case False
    with r1 m1 show ?thesis by (auto simp: moved1_moved moved_restore)
  next
    case True
    obtain comma p2 where p2: "accept p1 CHR '','' = (comma, p2)" by force
    then have m2: "moved1 p p2" using m1 accept_moved by (blast intro: moved1_trans)
    from r1 True p2 obtain high p3 where
      p3: "(if comma then bindE (read_number p2) (\<lambda>(v, any2, p3).
              Inr (if any2 then Some v else None, p3)) else Inr (Some low, p2)) = Inr (high, p3)"
      and r3: "(case accept p3 CHR ''}'' of (closed, p4) \<Rightarrow>
               if \<not> closed then Inr (None, p4\<lparr>p_pos := p_pos p\<rparr>)
               else if (case high of Some h \<Rightarrow> h < low | None \<Rightarrow> False)
               then fail p4 ''numbers out of order in {} quantifier''
               else Inr (Some (low, high), p4)) = Inr (q, p')"
      by auto
    have m3: "moved1 p p3"
      using p3 m2 by (auto split: if_splits dest!: read_number_moved intro: moved1_trans)
    obtain closed p4 where p4: "accept p3 CHR ''}'' = (closed, p4)" by force
    then have m4: "moved1 p p4" using m3 accept_moved by (blast intro: moved1_trans)
    with r3 p4 low show ?thesis
      by (auto simp: fail_def moved1_moved moved_restore split: if_splits option.splits)
  qed
qed

lemma peek_not_end: "peek p 0 \<noteq> 0 \<Longrightarrow> \<not> at_end p"
  by (auto simp: peek_def at_end_def)

lemma parse_quantifier_moved:
  assumes "parse_quantifier p = Inr (q, p')"
  shows "(q = None \<longrightarrow> p' = p) \<and> (q \<noteq> None \<longrightarrow> moved1 p p')
    \<and> (\<forall>lo hi. q = Some (lo, hi) \<longrightarrow> lo \<le> max_repeat_count \<and> (\<forall>h. hi = Some h \<longrightarrow> lo \<le> h))"
proof (cases "peek p 0 = cp CHR ''{''")
  case True
  then have "\<not> at_end p" using peek_not_end [of p] by simp
  with assms show ?thesis
    by (auto simp: parse_quantifier_def accept_def moved1_advance max_repeat_count_def
        split: if_splits dest!: parse_braces_moved)
next
  case False
  with assms show ?thesis
    by (auto simp: parse_quantifier_def accept_def moved1_advance max_repeat_count_def
        split: if_splits)
qed

definition atom_ok :: "ClassAtom \<Rightarrow> bool" where
  "atom_ok a \<longleftrightarrow> (case at_code_point a of Some c \<Rightarrow> c \<le> g_max_code_point
     | None \<Rightarrow> \<forall>r \<in> set (at_set a). range_ok r)"

lemma atom_ok_simps [simp]:
  "atom_ok (char_atom c) \<longleftrightarrow> c \<le> g_max_code_point"
  "atom_ok (set_atom rs) \<longleftrightarrow> (\<forall>r \<in> set rs. range_ok r)"
  by (simp_all add: atom_ok_def char_atom_def set_atom_def)

lemma atom_ranges_ok: "atom_ok a \<Longrightarrow> \<forall>r \<in> set (atom_ranges a). range_ok r"
  by (auto simp: atom_ok_def atom_ranges_def range_ok_def split: option.splits)

lemma unicode_braces_loop_moved:
  "unicode_braces_loop p v d = Inr (v', d', p') \<Longrightarrow> v \<le> g_max_code_point \<Longrightarrow>
     moved p p' \<and> v' \<le> g_max_code_point"
proof (induction p v d rule: unicode_braces_loop.induct)
  case (1 p v d)
  show ?case
  proof (cases "\<not> at_end p \<and> peek p 0 \<noteq> cp CHR ''}''")
    case True
    with "1.prems"(1) obtain h q where h: "parse_hex p 1 = Inr (h, q)"
      "\<not> (d + 1 > 6 \<or> v * 16 + h > g_max_code_point)"
      "unicode_braces_loop q (v * 16 + h) (d + 1) = Inr (v', d', p')"
      by (subst (asm) unicode_braces_loop.simps)
        (auto simp: Let_def fail_def split: if_splits sum.splits)
    from "1.IH" [OF True h(1) refl refl h(2,3)] h(2) have "moved q p' \<and> v' \<le> g_max_code_point"
      by simp
    with parse_hex_moved [OF h(1)] show ?thesis by (auto intro: moved_trans)
  next
    case False
    with "1.prems" show ?thesis by (subst (asm) unicode_braces_loop.simps) auto
  qed
qed

lemma parse_hex_bound: "parse_hex p n = Inr (v, p') \<Longrightarrow> v < 16 ^ n"
  by (auto simp: parse_hex_def dest!: parse_hex_frame)

lemma surrogate_pair_bound:
  assumes "value \<ge> 0xD800" "value \<le> 0xDBFF" "low \<ge> 0xDC00" "low \<le> (0xDFFF::nat)"
  shows "0x10000 + push_bit 10 (value - 0xD800) + (low - 0xDC00) \<le> g_max_code_point"
  using assms by (simp add: push_bit_eq_mult g_max_code_point_def)

lemma parse_unicode_escape_moved:
  assumes "parse_unicode_escape p = Inr (v, p')"
  shows "moved p p' \<and> v \<le> g_max_code_point"
proof -
  obtain braces p1 where p1: "accept p CHR ''{'' = (braces, p1)" by force
  note m1 = accept_moved [OF p1, THEN conjunct1]
  show ?thesis
  proof (cases braces)
    case True
    with assms p1 obtain v0 d p2 where u: "unicode_braces_loop p1 0 0 = Inr (v0, d, p2)"
      and r: "(case accept p2 CHR ''}'' of (closed, p3) \<Rightarrow>
               if d = 0 then fail p2 (''invalid '' @ [CHR 0x5C] @ ''u{} escape'')
               else if \<not> closed then fail p3 (''invalid '' @ [CHR 0x5C] @ ''u{} escape'')
               else Inr (v0, p3)) = Inr (v, p')"
      by (auto simp: parse_unicode_escape_def)
    obtain c p3 where a: "accept p2 CHR ''}'' = (c, p3)" by force
    with r have "v = v0" "p' = p3" by (auto simp: fail_def split: if_splits)
    with unicode_braces_loop_moved [OF u] accept_moved [OF a] m1
    show ?thesis by (auto intro: moved_trans)
  next
    case False
    with p1 have p: "p1 = p" by (auto simp: accept_def split: if_splits)
    from assms p1 False obtain v1 p2 where v1: "parse_hex p 4 = Inr (v1, p2)"
      and r: "(if v1 \<ge> 0xD800 \<and> v1 \<le> 0xDBFF \<and> peek p2 0 = 0x5C \<and> peek p2 1 = cp CHR ''u'' then
              bindE (parse_hex (p2\<lparr>p_pos := p_pos p2 + 2\<rparr>) 4) (\<lambda>(low, p3).
                if low \<ge> 0xDC00 \<and> low \<le> 0xDFFF
                then Inr (0x10000 + push_bit 10 (v1 - 0xD800) + (low - 0xDC00), p3)
                else Inr (v1, p3\<lparr>p_pos := p_pos p2\<rparr>))
            else Inr (v1, p2)) = Inr (v, p')"
      by (auto simp: parse_unicode_escape_def)
    have m2: "moved p p2" and b1: "v1 \<le> g_max_code_point"
      using parse_hex_moved [OF v1] parse_hex_bound [OF v1] by (auto simp: g_max_code_point_def)
    show ?thesis
    proof (cases "v1 \<ge> 0xD800 \<and> v1 \<le> 0xDBFF \<and> peek p2 0 = 0x5C \<and> peek p2 1 = cp CHR ''u''")
      case True
      with r obtain low p3 where low: "parse_hex (p2\<lparr>p_pos := p_pos p2 + 2\<rparr>) 4 = Inr (low, p3)"
        and r': "(if low \<ge> 0xDC00 \<and> low \<le> 0xDFFF
                then Inr (0x10000 + push_bit 10 (v1 - 0xD800) + (low - 0xDC00), p3)
                else Inr (v1, p3\<lparr>p_pos := p_pos p2\<rparr>)) = (Inr (v, p') :: RegexError + _)"
        by auto
      have "p_pos p2 + 1 < length (p_text p2)"
        using True by (auto simp: peek_def split: if_splits)
      then have "moved p2 (p2\<lparr>p_pos := p_pos p2 + 2\<rparr>)" by (simp add: moved_def)
      with parse_hex_moved [OF low] have m3: "moved p2 p3" by (blast intro: moved_trans)
      from r' m2 m3 b1 True surrogate_pair_bound [of v1 low] show ?thesis
        by (auto simp: moved_restore split: if_splits intro: moved_trans)
    next
      case False
      with r m2 b1 show ?thesis by auto
    qed
  qed
qed

lemma complement_predefined_ok:
  "\<forall>r \<in> set (complement digit_ranges). range_ok r"
  "\<forall>r \<in> set (complement word_ranges). range_ok r"
  "\<forall>r \<in> set (complement space_ranges). range_ok r"
  using complement_canonical(1) predefined_ranges_ok by (auto simp: canonical_def)

lemma parse_hex_2: "parse_hex p 2 = Inr (v, p') \<Longrightarrow> moved p p' \<and> v < 256"
  using parse_hex_moved [of p 2 v p'] parse_hex_bound [of p 2 v p'] by simp

lemma escape_switch_moved:
  assumes "escape_switch p c in_class = Inr (a, p')"
  shows "moved p p' \<and> (c \<le> g_max_code_point \<longrightarrow> atom_ok a)"
proof -
  have letter: "moved p (advance p)" if "peek p 0 \<ge> 65"
    using that peek_not_end [of p] by (auto intro: moved1_moved moved1_advance)
  have small: "n \<le> g_max_code_point" if "n < 256" for n
    using that by (simp add: g_max_code_point_def)
  have mod32: "n mod 32 \<le> g_max_code_point" for n
    using mod_less_divisor [of 32 n] by (simp add: g_max_code_point_def)
  from assms show ?thesis
    by (auto simp: escape_switch_def fail_def Let_def predefined_ranges_ok
        complement_predefined_ok small mod32 letter simp del: mod_less_divisor
        split: if_splits dest!: parse_unicode_escape_moved parse_hex_2)
qed

lemma parse_escape_atom_moved:
  assumes "parse_escape_atom p in_class = Inr (a, p')"
  shows "moved1 p p' \<and> \<not> at_end p \<and> (parser_text_ok p \<longrightarrow> atom_ok a)"
proof -
  have e: "\<not> at_end p" and s: "escape_switch (advance p) (peek p 0) in_class = Inr (a, p')"
    using assms(1) by (auto simp: parse_escape_atom_def fail_def split: if_splits)
  from escape_switch_moved [OF s] moved1_advance [OF e] e peek_bound [of p 0]
  show ?thesis by (auto intro: moved1_trans)
qed

lemma parse_class_atom_moved:
  assumes "parse_class_atom p = Inr (a, p')"
  shows "moved1 p p' \<and> \<not> at_end p \<and> (parser_text_ok p \<longrightarrow> atom_ok a)"
proof -
  obtain b p1 where b: "accept p (CHR 0x5C) = (b, p1)" by force
  have e: "\<not> at_end p" using assms(1) by (auto simp: parse_class_atom_def fail_def split: if_splits)
  show ?thesis
  proof (cases b)
    case True
    with accept_moved [OF b] have m: "moved1 p p1" by simp
    with True b e assms(1) parser_text_ok_moved [OF moved1_moved [OF m]] show ?thesis
      by (auto simp: parse_class_atom_def dest!: parse_escape_atom_moved intro: moved1_trans moved1_moved)
  next
    case False
    with b e assms(1) have "a = char_atom (peek p 0)" "p' = advance p"
      by (auto simp: parse_class_atom_def)
    with e show ?thesis by (simp add: moved1_advance peek_bound)
  qed
qed

lemma parse_class_item_moved:
  assumes i: "parse_class_item p rs = Inr (rs', p')"
  shows "moved1 p p' \<and> \<not> at_end p
    \<and> (parser_text_ok p \<longrightarrow> (\<forall>r \<in> set rs. range_ok r) \<longrightarrow> (\<forall>r \<in> set rs'. range_ok r))"
proof -
  obtain low p1 where l: "parse_class_atom p = Inr (low, p1)"
    using i by (auto simp: parse_class_item_def)
  note ml = parse_class_atom_moved [OF l]
  then have lo: "parser_text_ok p \<Longrightarrow> \<forall>r \<in> set (atom_ranges low). range_ok r"
    using atom_ranges_ok by blast
  show ?thesis
  proof (cases "peek p1 0 = cp CHR ''-'' \<and> peek p1 1 \<noteq> cp CHR '']'' \<and> peek p1 1 \<noteq> 0")
    case False
    with i l ml lo show ?thesis by (auto simp: parse_class_item_def)
  next
    case True
    then have "\<not> at_end p1" using peek_not_end [of p1] by simp
    then have m1: "moved1 p (advance p1)"
      using ml moved1_advance by (blast intro: moved1_trans moved1_moved)
    then have t1: "parser_text_ok (advance p1) = parser_text_ok p"
      using parser_text_ok_moved moved1_moved by blast
    from i l True obtain high p2 where h: "parse_class_atom (advance p1) = Inr (high, p2)"
      by (auto simp: parse_class_item_def)
    note mh = parse_class_atom_moved [OF h, unfolded t1]
    then have hi: "parser_text_ok p \<Longrightarrow> \<forall>r \<in> set (atom_ranges high). range_ok r"
      using atom_ranges_ok by blast
    have "p' = p2" and "parser_text_ok p \<Longrightarrow> \<forall>r \<in> set rs. range_ok r \<Longrightarrow> \<forall>r \<in> set rs'. range_ok r"
      using i l True h ml mh lo hi
      by (auto simp: parse_class_item_def fail_def range_ok_def atom_ok_def g_max_code_point_def
          split: option.splits if_splits)
    with m1 mh ml show ?thesis by (auto intro: moved1_trans moved1_moved)
  qed
qed

subsection \<open>No flat function runs out of fuel\<close>

lemma fail_not_fuel [simp]: "fail p m \<noteq> Inl OutOfFuel"
  by (simp add: fail_def)

lemma read_number_loop_not_fuel [simp]: "read_number_loop p v d \<noteq> Inl OutOfFuel"
  by (induction p v d rule: read_number_loop.induct)
    (subst read_number_loop.simps, simp add: Let_def)

lemma parse_hex_not_fuel [simp]: "parse_hex p n \<noteq> Inl OutOfFuel"
proof -
  have "parse_hex_loop n p v \<noteq> Inl OutOfFuel" for v
    by (induction n arbitrary: p v) (auto split: option.splits)
  then show ?thesis by (simp add: parse_hex_def)
qed

lemma unicode_braces_loop_not_fuel [simp]: "unicode_braces_loop p v d \<noteq> Inl OutOfFuel"
proof (induction p v d rule: unicode_braces_loop.induct)
  case (1 p v d)
  show ?case
    by (subst unicode_braces_loop.simps)
      (use 1 parse_hex_not_fuel in \<open>auto simp: Let_def split: sum.splits\<close>)
qed

lemma parse_braces_not_fuel [simp]: "parse_braces p \<noteq> Inl OutOfFuel"
  by (auto simp: parse_braces_def read_number_def bindE_Inl split: prod.splits if_splits)

lemma parse_quantifier_not_fuel [simp]: "parse_quantifier p \<noteq> Inl OutOfFuel"
  by (auto simp: parse_quantifier_def split: prod.splits if_splits)

lemma parse_unicode_escape_not_fuel [simp]: "parse_unicode_escape p \<noteq> Inl OutOfFuel"
  by (auto simp: parse_unicode_escape_def bindE_Inl split: prod.splits if_splits)

lemma parse_escape_atom_not_fuel [simp]: "parse_escape_atom p b \<noteq> Inl OutOfFuel"
  by (auto simp: parse_escape_atom_def escape_switch_def bindE_Inl Let_def)

lemma parse_class_atom_not_fuel [simp]: "parse_class_atom p \<noteq> Inl OutOfFuel"
  by (auto simp: parse_class_atom_def split: prod.splits)

lemma parse_class_item_not_fuel [simp]: "parse_class_item p rs \<noteq> Inl OutOfFuel"
  by (auto simp: parse_class_item_def bindE_Inl split: option.splits if_splits)

lemma parse_escape_not_fuel [simp]: "parse_escape p \<noteq> Inl OutOfFuel"
  by (auto simp: parse_escape_def bindE_Inl)

end
