(* ===== verification/RegexParser.thy ===== *)
theory RegexParser
  imports RegexLexer "HOL-Library.Sublist"
begin

text \<open>
  The recursive part of the regular expression parser (src/core/regex.cpp): classes, groups,
  repetition, concatenation and alternation. The mutually recursive functions take fuel; the
  loops of \<open>parse_alternation\<close> and \<open>parse_concat\<close> are the functions \<open>alternation_loop\<close> and
  \<open>concat_loop\<close>. \<open>parse\<close> supplies \<open>parse_fuel\<close>, which \<open>parse_not_out_of_fuel\<close> shows to be
  enough for every pattern; every parsed node table is well-formed (\<open>parser_wf\<close>).
\<close>

subsection \<open>Character classes\<close>

lemma rest_moved1: "moved1 p p' \<Longrightarrow> \<not> at_end p \<Longrightarrow> rest p' < rest p"
  by (auto simp: moved1_def moved_sel rest_def at_end_def)

function parse_class_loop :: "Parser \<Rightarrow> Range list \<Rightarrow> RegexError + (Range list \<times> Parser)" where
  "parse_class_loop p ranges =
     (case accept p CHR '']'' of (closed, p1) \<Rightarrow>
        if closed then Inr (ranges, p1)
        else (case parse_class_item p1 ranges of
                Inl e \<Rightarrow> Inl e
              | Inr (ranges', p2) \<Rightarrow> parse_class_loop p2 ranges'))"
  by pat_completeness auto

termination
proof (relation "measure (\<lambda>(p, ranges). rest p)", goal_cases)
  case 1
  show ?case by simp
next
  case 2
  then show ?case
    by (auto simp: accept_def dest!: parse_class_item_moved intro: rest_moved1 split: if_splits)
qed

declare parse_class_loop.simps [simp del]

definition parse_class :: "Parser \<Rightarrow> RegexError + (nat \<times> Parser)" where
  "parse_class p =
     (case accept p CHR ''^'' of (negated, p1) \<Rightarrow>
        bindE (parse_class_loop p1 []) (\<lambda>(ranges, p2).
          Inr (add_class p2 (if negated then complement ranges else ranges))))"

subsection \<open>Groups\<close>

function skip_group_name :: "Parser \<Rightarrow> Parser" where
  "skip_group_name p =
     (if \<not> at_end p \<and> (is_word_character (peek p 0) \<or> peek p 0 = cp CHR ''$'')
      then skip_group_name (advance p) else p)"
  by pat_completeness auto
termination by (relation "measure rest") (auto simp: rest_advance)

declare skip_group_name.simps [simp del]

text \<open>What follows the opening parenthesis: \<open>?:\<close>, \<open>?<name>\<close>, or nothing.\<close>

definition parse_group_prefix :: "Parser \<Rightarrow> RegexError + Parser" where
  "parse_group_prefix p =
     (case accept p CHR ''?'' of (question, p1) \<Rightarrow>
        if \<not> question then Inr p1
        else (case accept p1 CHR '':'' of (colon, p2) \<Rightarrow>
          if colon then Inr p2
          else if peek p1 0 = cp CHR ''='' \<or> peek p1 0 = cp CHR ''!'' then
            fail p1 ''lookahead is not supported''
          else if peek p1 0 = cp CHR ''<'' \<and> (peek p1 1 = cp CHR ''='' \<or> peek p1 1 = cp CHR ''!'') then
            fail p1 ''lookbehind is not supported''
          else (case accept p1 CHR ''<'' of (named, p3) \<Rightarrow>
            if named then
              (let p4 = skip_group_name p3 in
               if p_pos p4 = p_pos p3 then fail p4 ''invalid group name''
               else (case accept p4 CHR ''>'' of (closed, p5) \<Rightarrow>
                 if \<not> closed then fail p5 ''invalid group name'' else Inr p5))
            else fail p1 ''invalid group'')))"

subsection \<open>The recursive descent\<close>

function (sequential) parse_alternation :: "nat \<Rightarrow> nat \<Rightarrow> Parser \<Rightarrow> RegexError + (nat \<times> Parser)"
  and alternation_loop :: "nat \<Rightarrow> nat \<Rightarrow> nat list \<Rightarrow> Parser \<Rightarrow> RegexError + (nat list \<times> Parser)"
  and parse_concat :: "nat \<Rightarrow> nat \<Rightarrow> Parser \<Rightarrow> RegexError + (nat \<times> Parser)"
  and concat_loop :: "nat \<Rightarrow> nat \<Rightarrow> nat list \<Rightarrow> Parser \<Rightarrow> RegexError + (nat list \<times> Parser)"
  and parse_repeat :: "nat \<Rightarrow> nat \<Rightarrow> Parser \<Rightarrow> RegexError + (nat \<times> Parser)"
  and parse_atom :: "nat \<Rightarrow> nat \<Rightarrow> Parser \<Rightarrow> RegexError + (nat \<times> Parser)"
  and parse_group :: "nat \<Rightarrow> nat \<Rightarrow> Parser \<Rightarrow> RegexError + (nat \<times> Parser)" where
  "parse_alternation 0 depth p = Inl OutOfFuel"
| "parse_alternation (Suc fuel) depth p =
     bindE (parse_concat fuel depth p) (\<lambda>(i, p1).
     bindE (alternation_loop fuel depth [i] p1) (\<lambda>(alternatives, p2).
       if length alternatives = 1 then Inr (hd alternatives, p2)
       else Inr (add p2 (new_node\<lparr>nd_kind := Kind_eAlternation, nd_children := alternatives\<rparr>))))"
| "alternation_loop 0 depth alternatives p = Inl OutOfFuel"
| "alternation_loop (Suc fuel) depth alternatives p =
     (case accept p CHR ''|'' of (bar, p1) \<Rightarrow>
        if bar then
          bindE (parse_concat fuel depth p1) (\<lambda>(i, p2).
            alternation_loop fuel depth (alternatives @ [i]) p2)
        else Inr (alternatives, p1))"
| "parse_concat 0 depth p = Inl OutOfFuel"
| "parse_concat (Suc fuel) depth p =
     bindE (concat_loop fuel depth [] p) (\<lambda>(children, p1).
       if children = [] then Inr (add p1 new_node)
       else if length children = 1 then Inr (hd children, p1)
       else Inr (add p1 (new_node\<lparr>nd_kind := Kind_eConcat, nd_children := children\<rparr>)))"
| "concat_loop 0 depth children p = Inl OutOfFuel"
| "concat_loop (Suc fuel) depth children p =
     (if \<not> at_end p \<and> peek p 0 \<noteq> cp CHR ''|'' \<and> peek p 0 \<noteq> cp CHR '')'' then
        bindE (parse_repeat fuel depth p) (\<lambda>(i, p1). concat_loop fuel depth (children @ [i]) p1)
      else Inr (children, p))"
| "parse_repeat 0 depth p = Inl OutOfFuel"
| "parse_repeat (Suc fuel) depth p =
     (let assertion = peek p 0 = cp CHR ''^'' \<or> peek p 0 = cp CHR ''$''
            \<or> (peek p 0 = 0x5C \<and> (peek p 1 = cp CHR ''b'' \<or> peek p 1 = cp CHR ''B''))
      in bindE (parse_atom fuel depth p) (\<lambda>(atom, p1).
         bindE (parse_quantifier p1) (\<lambda>(quantifier, p2).
           (case quantifier of
              None \<Rightarrow> Inr (atom, p2)
            | Some (mn, mx) \<Rightarrow>
                if assertion then fail p2 ''nothing to repeat''
                else Inr (add (snd (accept p2 CHR ''?''))
                       (new_node\<lparr>nd_kind := Kind_eRepeat, nd_children := [atom],
                          nd_min := mn, nd_max := mx\<rparr>))))))"
| "parse_atom 0 depth p = Inl OutOfFuel"
| "parse_atom (Suc fuel) depth p =
     (let c = peek p 0 in
      if c = cp CHR ''('' then parse_group fuel depth p
      else if c = cp CHR ''['' then parse_class (advance p)
      else if c = cp CHR ''.'' then
        Inr (add (advance p) (new_node\<lparr>nd_kind := Kind_eAny\<rparr>))
      else if c = cp CHR ''^'' \<or> c = cp CHR ''$'' then
        Inr (add_assertion (advance p) (if c = cp CHR ''^'' then Op_eInputStart else Op_eInputEnd))
      else if c = 0x5C then parse_escape (advance p)
      else if c = cp CHR ''*'' \<or> c = cp CHR ''+'' \<or> c = cp CHR ''?'' then
        fail p ''nothing to repeat''
      else if c = cp CHR ''{'' then
        bindE (parse_braces p) (\<lambda>(braces, p1).
          if braces \<noteq> None then fail p1 ''nothing to repeat''
          else Inr (add_char (advance p1) c))
      else Inr (add_char (advance p) c))"
| "parse_group 0 depth p = Inl OutOfFuel"
| "parse_group (Suc fuel) depth p =
     (if depth + 1 > max_nesting then fail p ''groups nested deeper than 64''
      else
        bindE (parse_group_prefix (advance p)) (\<lambda>p1.
        bindE (parse_alternation fuel (depth + 1) p1) (\<lambda>(inner, p2).
          (case accept p2 CHR '')'' of (closed, p3) \<Rightarrow>
             if \<not> closed then fail p3 (''missing '' @ quoted CHR '')'') else Inr (inner, p3)))))"

  by pat_completeness auto
termination
  by (relation "measure (case_sum (case_sum fst (case_sum fst fst))
      (case_sum (case_sum fst fst) (case_sum fst fst)))") auto

text \<open>The constructor of \<open>Parser\<close>: the code points of the pattern, nothing parsed yet.\<close>

function decode_all :: "string \<Rightarrow> nat \<Rightarrow> code_point list" where
  "decode_all pattern pos =
     (if pos < length pattern
      then fst (decode_utf8 pattern pos) # decode_all pattern (snd (decode_utf8 pattern pos))
      else [])"
  by pat_completeness auto
termination
  by (relation "measure (\<lambda>(pattern, pos). length pattern - pos)")
    (auto simp: decode_utf8_advances diff_less_mono2)

declare decode_all.simps [simp del]

definition new_parser :: "string \<Rightarrow> Parser" where
  "new_parser pattern = \<lparr>p_text = decode_all pattern 0, p_pos = 0, p_nodes = [], p_classes = []\<rparr>"

definition parse_fuel :: "Parser \<Rightarrow> nat" where
  "parse_fuel p = 8 * rest p + 7"

definition parse :: "Parser \<Rightarrow> RegexError + (nat \<times> Parser)" where
  "parse p =
     bindE (parse_alternation (parse_fuel p) 0 p) (\<lambda>(root, p1).
       if p_pos p1 \<noteq> length (p_text p1)
       then fail p1 (if peek p1 0 = cp CHR '')'' then ''unmatched '' @ quoted CHR '')''
                     else ''unexpected character'')
       else Inr (root, p1))"

subsection \<open>Well-formed node tables\<close>

text \<open>
  Node \<open>k\<close> of a table refers only to earlier nodes and to existing classes; a repeat node has one
  operand and ordered bounds; code points are in range. This is what the compiler relies on
  when it follows indices.
\<close>

definition node_ok :: "nat \<Rightarrow> nat \<Rightarrow> Node \<Rightarrow> bool" where
  "node_ok nc k n \<longleftrightarrow>
     (case nd_kind n of
        Kind_eEmpty \<Rightarrow> True
      | Kind_eChar \<Rightarrow> nd_code_point n \<le> g_max_code_point
      | Kind_eAny \<Rightarrow> True
      | Kind_eClass \<Rightarrow> nd_class_index n < nc
      | Kind_eConcat \<Rightarrow> nd_children n \<noteq> [] \<and> (\<forall>c \<in> set (nd_children n). c < k)
      | Kind_eAlternation \<Rightarrow> nd_children n \<noteq> [] \<and> (\<forall>c \<in> set (nd_children n). c < k)
      | Kind_eRepeat \<Rightarrow> (\<exists>c. nd_children n = [c] \<and> c < k)
          \<and> (\<forall>m. nd_max n = Some m \<longrightarrow> nd_min n \<le> m)
      | Kind_eAssertion \<Rightarrow> nd_assertion n \<in>
          {Op_eInputStart, Op_eInputEnd, Op_eWordBoundary, Op_eNotWordBoundary})"

definition table_ok :: "Node list \<Rightarrow> Range list list \<Rightarrow> bool" where
  "table_ok ns cs \<longleftrightarrow> (\<forall>k < length ns. node_ok (length cs) k (ns ! k)) \<and> (\<forall>c \<in> set cs. canonical c)"

definition parser_wf :: "Parser \<Rightarrow> bool" where
  "parser_wf p \<longleftrightarrow> parser_text_ok p \<and> table_ok (p_nodes p) (p_classes p)"

text \<open>\<open>grows p p'\<close>: the position moved forwards, nodes and classes were only appended, well-formedness kept.\<close>

definition grows :: "Parser \<Rightarrow> Parser \<Rightarrow> bool" where
  "grows p p' \<longleftrightarrow> p_text p' = p_text p \<and> p_pos p \<le> p_pos p'
     \<and> (p_pos p \<le> length (p_text p) \<longrightarrow> p_pos p' \<le> length (p_text p))
     \<and> prefix (p_nodes p) (p_nodes p') \<and> prefix (p_classes p) (p_classes p')
     \<and> (parser_wf p \<longrightarrow> parser_wf p')"

definition grows1 :: "Parser \<Rightarrow> Parser \<Rightarrow> bool" where
  "grows1 p p' \<longleftrightarrow> grows p p' \<and> p_pos p < p_pos p'"

text \<open>A function that returns a node index returns one that exists.\<close>

definition index_in :: "Parser \<Rightarrow> nat \<Rightarrow> bool" where
  "index_in p i \<longleftrightarrow> i < length (p_nodes p)"

lemma grows_refl [simp]: "grows p p"
  by (simp add: grows_def)

lemma grows_trans: "grows p q \<Longrightarrow> grows q r \<Longrightarrow> grows p r"
  by (auto simp: grows_def intro: prefix_order.trans)

lemma grows1_trans: "grows1 p q \<Longrightarrow> grows q r \<Longrightarrow> grows1 p r" "grows p q \<Longrightarrow> grows1 q r \<Longrightarrow> grows1 p r"
  by (auto simp: grows1_def intro: grows_trans simp: grows_def)

lemma grows1_grows: "grows1 p q \<Longrightarrow> grows p q"
  by (simp add: grows1_def)

lemma moved_grows: "moved p p' \<Longrightarrow> grows p p'"
  by (auto simp: grows_def moved_sel parser_wf_def parser_text_ok_moved moved_def [THEN iffD1])

lemma moved1_grows1: "moved1 p p' \<Longrightarrow> grows1 p p'"
  by (auto simp: grows1_def moved1_def moved_grows)

lemma index_in_grows: "index_in p i \<Longrightarrow> grows p q \<Longrightarrow> index_in q i"
  by (auto simp: index_in_def grows_def dest: prefix_length_le)

lemma node_ok_mono: "node_ok nc k n \<Longrightarrow> nc \<le> nc' \<Longrightarrow> node_ok nc' k n"
  by (auto simp: node_ok_def split: Kind.splits)

lemma add_grows:
  assumes "parser_wf p \<Longrightarrow> node_ok (length (p_classes p)) (length (p_nodes p)) n"
  shows "grows p (snd (add p n))" and "index_in (snd (add p n)) (fst (add p n))"
  using assms
  by (auto simp: grows_def add_def parser_wf_def parser_text_ok_def table_ok_def index_in_def
      nth_append less_Suc_eq)

lemma add_eq: "add p n = (i, p') \<longleftrightarrow> i = fst (add p n) \<and> p' = snd (add p n)"
  by (auto simp: add_def)

lemma add_char_grows:
  assumes "parser_wf p \<Longrightarrow> c \<le> g_max_code_point" and "add_char p c = (i, p')"
  shows "grows p p' \<and> index_in p' i"
proof -
  define n where "n = new_node\<lparr>nd_kind := Kind_eChar, nd_code_point := c\<rparr>"
  have "parser_wf p \<Longrightarrow> node_ok (length (p_classes p)) (length (p_nodes p)) n"
    using assms(1) by (simp add: n_def node_ok_def)
  from add_grows [OF this] assms(2) show ?thesis
    by (simp add: add_char_def add_eq flip: n_def)
qed

lemma add_class_grows:
  assumes "parser_wf p \<Longrightarrow> \<forall>r \<in> set rs. range_ok r" and "add_class p rs = (i, p')"
  shows "grows p p' \<and> index_in p' i"
proof -
  have p': "p' = p\<lparr>p_classes := p_classes p @ [normalize rs],
      p_nodes := p_nodes p @ [new_node\<lparr>nd_kind := Kind_eClass, nd_class_index := length (p_classes p)\<rparr>]\<rparr>"
    and i: "i = length (p_nodes p)"
    using assms(2) by (auto simp: add_class_def add_def)
  have "parser_wf p \<Longrightarrow> parser_wf p'"
    using assms(1) normalize_canonical(1)
    by (auto simp: p' parser_wf_def parser_text_ok_def table_ok_def nth_append less_Suc_eq
        node_ok_def [of _ _ "new_node\<lparr>nd_kind := Kind_eClass, nd_class_index := length (p_classes p)\<rparr>"]
        intro: node_ok_mono)
  then show ?thesis by (auto simp: grows_def index_in_def i p')
qed

lemma add_assertion_grows:
  assumes "a \<in> {Op_eInputStart, Op_eInputEnd, Op_eWordBoundary, Op_eNotWordBoundary}"
    and "add_assertion p a = (i, p')"
  shows "grows p p' \<and> index_in p' i"
  using add_grows [of p "new_node\<lparr>nd_kind := Kind_eAssertion, nd_assertion := a\<rparr>"] assms
  by (auto simp: add_assertion_def node_ok_def add_eq)

lemma parse_class_loop_moved:
  "parse_class_loop p rs = Inr (rs', p') \<Longrightarrow> moved1 p p'
     \<and> (parser_text_ok p \<longrightarrow> (\<forall>r \<in> set rs. range_ok r) \<longrightarrow> (\<forall>r \<in> set rs'. range_ok r))"
proof (induction p rs rule: parse_class_loop.induct)
  case (1 p rs)
  obtain c p1 where a: "accept p CHR '']'' = (c, p1)" by force
  show ?case
  proof (cases c)
    case True
    with "1.prems" a show ?thesis
      by (subst (asm) parse_class_loop.simps) (auto dest: accept_moved)
  next
    case False
    with "1.prems" a obtain rs1 p2 where i: "parse_class_item p1 rs = Inr (rs1, p2)"
      and l: "parse_class_loop p2 rs1 = Inr (rs', p')"
      by (subst (asm) parse_class_loop.simps) (auto split: sum.splits)
    have p1: "p1 = p" using a False by (auto simp: accept_def split: if_splits)
    note m = parse_class_item_moved [OF i]
    from "1.IH" [OF a [symmetric] False i refl l] m p1 parser_text_ok_moved [of p p2]
    show ?thesis by (auto dest: moved1_moved intro: moved1_trans)
  qed
qed

lemma parse_class_grows:
  assumes "parse_class p = Inr (i, p')"
  shows "grows1 p p' \<and> index_in p' i"
proof -
  obtain n p1 where a: "accept p CHR ''^'' = (n, p1)" by force
  from assms a obtain rs p2 where l: "parse_class_loop p1 [] = Inr (rs, p2)"
    and i: "add_class p2 (if n then complement rs else rs) = (i, p')"
    by (auto simp: parse_class_def)
  have m: "moved1 p p2" using accept_moved [OF a] parse_class_loop_moved [OF l]
    by (auto intro: moved1_trans)
  have "\<forall>r \<in> set (if n then complement rs else rs). range_ok r" if wf: "parser_wf p2"
  proof -
    have "parser_text_ok p1"
      using wf accept_moved [OF a] m moved_sel(1) [of p p1] moved_sel(1) [of p p2]
      by (auto simp: parser_wf_def parser_text_ok_def moved1_moved)
    then have "\<forall>r \<in> set rs. range_ok r" using parse_class_loop_moved [OF l] by simp
    with complement_canonical(1) [of rs] show ?thesis by (auto simp: canonical_def)
  qed
  from add_class_grows [OF this i] moved1_grows1 [OF m] show ?thesis
    by (auto intro: grows1_trans)
qed

lemma parse_escape_grows:
  assumes "parse_escape p = Inr (i, p')" and "\<not> at_end p \<or> peek p 0 \<noteq> cp CHR ''b''"
  shows "grows p p' \<and> index_in p' i"
proof (cases "peek p 0 = cp CHR ''b'' \<or> peek p 0 = cp CHR ''B''")
  case True
  then have "\<not> at_end p" using peek_not_end [of p] by auto
  then have "grows p (advance p)" by (intro moved_grows moved1_moved moved1_advance)
  moreover obtain a where "add_assertion (advance p) a = (i, p')"
    "a \<in> {Op_eWordBoundary, Op_eNotWordBoundary}"
    using True assms(1) by (auto simp: parse_escape_def split: if_splits)
  ultimately show ?thesis
    using add_assertion_grows [of a "advance p" i p'] by (auto intro: grows_trans)
next
  case False
  with assms(1) obtain atom p1 where a: "parse_escape_atom p False = Inr (atom, p1)"
    and r: "(case at_code_point atom of Some c \<Rightarrow> add_char p1 c
       | None \<Rightarrow> add_class p1 (at_set atom)) = (i, p')"
    by (auto simp: parse_escape_def)
  note m = parse_escape_atom_moved [OF a]
  have ok: "atom_ok atom" if "parser_wf p1"
    using that m parser_text_ok_moved [of p p1] by (auto simp: parser_wf_def dest: moved1_moved)
  have "grows p1 p' \<and> index_in p' i"
  proof (cases "at_code_point atom")
    case None
    with r ok show ?thesis
      by (intro add_class_grows [of p1 "at_set atom"]) (auto simp: atom_ok_def)
  next
    case (Some c)
    with r ok show ?thesis by (intro add_char_grows [of p1 c]) (auto simp: atom_ok_def)
  qed
  with m show ?thesis by (auto dest!: moved1_moved moved_grows intro: grows_trans)
qed

lemma skip_group_name_moved: "moved p (skip_group_name p)"
proof (induction p rule: skip_group_name.induct)
  case (1 p)
  then show ?case
    by (subst skip_group_name.simps) (auto intro: moved_trans moved1_moved moved1_advance)
qed

lemma parse_group_prefix_moved:
  assumes "parse_group_prefix p = Inr p'"
  shows "moved p p'"
proof -
  obtain q p1 where q: "accept p CHR ''?'' = (q, p1)" by force
  obtain c p2 where c: "accept p1 CHR '':'' = (c, p2)" by force
  obtain n p3 where n: "accept p1 CHR ''<'' = (n, p3)" by force
  obtain e p5 where e: "accept (skip_group_name p3) CHR ''>'' = (e, p5)" by force
  have "p' \<in> {p1, p2, p5}"
    using assms q c n e by (auto simp: parse_group_prefix_def fail_def Let_def split: if_splits)
  moreover have "moved p p1" "moved p1 p2" "moved p1 p3" "moved (skip_group_name p3) p5"
    using accept_moved q c n e by blast+
  ultimately show ?thesis
    using skip_group_name_moved [of p3] by (auto intro: moved_trans)
qed

subsection \<open>The recursive functions keep the table well-formed\<close>

definition returns_node :: "(Parser \<Rightarrow> RegexError + (nat \<times> Parser)) \<Rightarrow> bool" where
  "returns_node f \<longleftrightarrow> (\<forall>p i p'. f p = Inr (i, p') \<longrightarrow> grows p p' \<and> index_in p' i)"

definition consumes_node :: "(Parser \<Rightarrow> RegexError + (nat \<times> Parser)) \<Rightarrow> bool" where
  "consumes_node f \<longleftrightarrow>
     (\<forall>p i p'. f p = Inr (i, p') \<longrightarrow> \<not> at_end p \<longrightarrow> grows1 p p' \<and> index_in p' i)"

definition extends_nodes :: "(nat list \<Rightarrow> Parser \<Rightarrow> RegexError + (nat list \<times> Parser)) \<Rightarrow> bool" where
  "extends_nodes f \<longleftrightarrow>
     (\<forall>is p is' p'. f is p = Inr (is', p') \<longrightarrow>
        grows p p' \<and> ((\<forall>i \<in> set is. index_in p i) \<longrightarrow> (\<forall>i \<in> set is'. index_in p' i))
        \<and> length is \<le> length is')"

lemma returns_nodeD: "returns_node f \<Longrightarrow> f p = Inr (i, p') \<Longrightarrow> grows p p' \<and> index_in p' i"
  by (auto simp: returns_node_def)

lemma consumes_nodeD:
  "consumes_node f \<Longrightarrow> f p = Inr (i, p') \<Longrightarrow> \<not> at_end p \<Longrightarrow> grows1 p p' \<and> index_in p' i"
  by (auto simp: consumes_node_def)

lemma extends_nodesD:
  assumes "extends_nodes f" "f is p = Inr (is', p')"
  shows "grows p p'" "\<forall>i \<in> set is. index_in p i \<Longrightarrow> \<forall>i \<in> set is'. index_in p' i"
    "length is \<le> length is'"
  using assms by (auto simp: extends_nodes_def)

lemma add_node_grows:
  assumes "add p n = (i, p')" and "parser_wf p \<Longrightarrow> node_ok (length (p_classes p)) (length (p_nodes p)) n"
  shows "grows p p' \<and> index_in p' i"
  using add_grows [OF assms(2)] assms(1) by (simp add: add_eq)

lemma length_one_in: "length xs = 1 \<Longrightarrow> hd xs \<in> set xs"
  by (cases xs) auto

lemma alternation_returns:
  assumes "returns_node (parse_concat f d)" "extends_nodes (alternation_loop f d)"
  shows "returns_node (parse_alternation (Suc f) d)"
  unfolding returns_node_def
proof (intro allI impI)
  fix p i p' assume "parse_alternation (Suc f) d p = Inr (i, p')"
  then obtain j p1 as p2 where j: "parse_concat f d p = Inr (j, p1)"
    and as: "alternation_loop f d [j] p1 = Inr (as, p2)"
    and r: "(if length as = 1 then (hd as, p2)
       else add p2 (new_node\<lparr>nd_kind := Kind_eAlternation, nd_children := as\<rparr>)) = (i, p')"
    by (auto split: if_splits)
  from returns_nodeD [OF assms(1) j] have g1: "grows p p1" "index_in p1 j" by auto
  note e = extends_nodesD [OF assms(2) as]
  have ok: "\<forall>i \<in> set as. index_in p2 i" "as \<noteq> []" using e(2) g1(2) e(3) by auto
  have "grows p2 p' \<and> index_in p' i"
  proof (cases "length as = 1")
    case True
    with r ok length_one_in [of as] show ?thesis by auto
  next
    case False
    with r have "add p2 (new_node\<lparr>nd_kind := Kind_eAlternation, nd_children := as\<rparr>) = (i, p')" by simp
    then show ?thesis by (rule add_node_grows) (use ok in \<open>auto simp: node_ok_def index_in_def\<close>)
  qed
  with g1(1) e(1) show "grows p p' \<and> index_in p' i" by (blast intro: grows_trans)
qed

lemma alternation_loop_extends:
  assumes "returns_node (parse_concat f d)" "extends_nodes (alternation_loop f d)"
  shows "extends_nodes (alternation_loop (Suc f) d)"
  unfolding extends_nodes_def
proof (intro allI impI)
  fix "is" p is' p' assume a: "alternation_loop (Suc f) d is p = Inr (is', p')"
  obtain b p1 where b: "accept p CHR ''|'' = (b, p1)" by force
  have g: "grows p p1" using accept_moved [OF b] by (blast intro: moved_grows)
  show "grows p p' \<and> ((\<forall>i \<in> set is. index_in p i) \<longrightarrow> (\<forall>i \<in> set is'. index_in p' i))
      \<and> length is \<le> length is'"
  proof (cases b)
    case True
    with a b obtain j p2 where j: "parse_concat f d p1 = Inr (j, p2)"
      and l: "alternation_loop f d (is @ [j]) p2 = Inr (is', p')" by auto
    from returns_nodeD [OF assms(1) j] have g1: "grows p p2" "index_in p2 j"
      using g by (auto intro: grows_trans)
    from extends_nodesD [OF assms(2) l] g1 show ?thesis
      by (auto intro: grows_trans index_in_grows)
  next
    case False
    with a b g show ?thesis by (auto intro: index_in_grows)
  qed
qed

lemma concat_returns:
  assumes "extends_nodes (concat_loop f d)"
  shows "returns_node (parse_concat (Suc f) d)"
  unfolding returns_node_def
proof (intro allI impI)
  fix p i p' assume "parse_concat (Suc f) d p = Inr (i, p')"
  then obtain as p2 where as: "concat_loop f d [] p = Inr (as, p2)"
    and r: "(if as = [] then add p2 new_node else if length as = 1 then (hd as, p2)
       else add p2 (new_node\<lparr>nd_kind := Kind_eConcat, nd_children := as\<rparr>)) = (i, p')"
    by (auto split: if_splits)
  note e = extends_nodesD [OF assms(1) as]
  have ok: "\<forall>i \<in> set as. index_in p2 i" using e(2) by auto
  consider "as = []" | "as \<noteq> []" "length as = 1" | "as \<noteq> []" "length as \<noteq> 1" by blast
  then have "grows p2 p' \<and> index_in p' i"
  proof cases
    case 1
    with r have "add p2 new_node = (i, p')" by simp
    then show ?thesis by (rule add_node_grows) (auto simp: node_ok_def new_node_def)
  next
    case 2
    with r ok length_one_in [of as] show ?thesis by auto
  next
    case 3
    with r have "add p2 (new_node\<lparr>nd_kind := Kind_eConcat, nd_children := as\<rparr>) = (i, p')" by simp
    then show ?thesis by (rule add_node_grows) (use ok 3 in \<open>auto simp: node_ok_def index_in_def\<close>)
  qed
  with e(1) show "grows p p' \<and> index_in p' i" by (blast intro: grows_trans)
qed

lemma concat_loop_extends:
  assumes "consumes_node (parse_repeat f d)" "extends_nodes (concat_loop f d)"
  shows "extends_nodes (concat_loop (Suc f) d)"
  unfolding extends_nodes_def
proof (intro allI impI)
  fix "is" p is' p' assume a: "concat_loop (Suc f) d is p = Inr (is', p')"
  show "grows p p' \<and> ((\<forall>i \<in> set is. index_in p i) \<longrightarrow> (\<forall>i \<in> set is'. index_in p' i))
      \<and> length is \<le> length is'"
  proof (cases "\<not> at_end p \<and> peek p 0 \<noteq> cp CHR ''|'' \<and> peek p 0 \<noteq> cp CHR '')''")
    case True
    with a obtain j p2 where j: "parse_repeat f d p = Inr (j, p2)"
      and l: "concat_loop f d (is @ [j]) p2 = Inr (is', p')" by auto
    from consumes_nodeD [OF assms(1) j] True have g1: "grows p p2" "index_in p2 j"
      by (auto intro: grows1_grows)
    from extends_nodesD [OF assms(2) l] g1 show ?thesis
      by (auto intro: grows_trans index_in_grows)
  next
    case False
    with a show ?thesis by auto
  qed
qed

lemma repeat_consumes:
  assumes "consumes_node (parse_atom f d)"
  shows "consumes_node (parse_repeat (Suc f) d)"
  unfolding consumes_node_def
proof (intro allI impI)
  fix p i p' assume a: "parse_repeat (Suc f) d p = Inr (i, p')" and e: "\<not> at_end p"
  define assertion where "assertion \<longleftrightarrow> peek p 0 = cp CHR ''^'' \<or> peek p 0 = cp CHR ''$''
    \<or> (peek p 0 = 0x5C \<and> (peek p 1 = cp CHR ''b'' \<or> peek p 1 = cp CHR ''B''))"
  from a obtain j p1 q p2 where j: "parse_atom f d p = Inr (j, p1)"
    and q: "parse_quantifier p1 = Inr (q, p2)"
    and r0: "(case q of None \<Rightarrow> Inr (j, p2)
       | Some (mn, mx) \<Rightarrow> if assertion then fail p2 ''nothing to repeat''
           else Inr (add (snd (accept p2 CHR ''?''))
                  (new_node\<lparr>nd_kind := Kind_eRepeat, nd_children := [j],
                     nd_min := mn, nd_max := mx\<rparr>))) = Inr (i, p')"
    unfolding parse_repeat.simps Let_def assertion_def [symmetric]
    by (clarsimp simp only: bindE_Inr split_paired_all prod.case)
  then have r: "q = None \<and> (j, p2) = (i, p') \<or> (\<exists>mn mx. q = Some (mn, mx) \<and>
      add (snd (accept p2 CHR ''?'')) (new_node\<lparr>nd_kind := Kind_eRepeat, nd_children := [j],
          nd_min := mn, nd_max := mx\<rparr>) = (i, p'))"
    by (cases q) (auto simp: fail_def split: if_splits prod.splits)
  from consumes_nodeD [OF assms j e] have g1: "grows1 p p1" "index_in p1 j" by auto
  note m = parse_quantifier_moved [OF q]
  have g2: "grows p1 p2" using m by (cases q) (auto dest!: moved1_moved moved_grows)
  then have j2: "index_in p2 j" using g1(2) index_in_grows by blast
  from r have "grows p2 p' \<and> index_in p' i"
  proof
    assume "q = None \<and> (j, p2) = (i, p')"
    with j2 show ?thesis by simp
  next
    assume "\<exists>mn mx. q = Some (mn, mx) \<and>
      add (snd (accept p2 CHR ''?'')) (new_node\<lparr>nd_kind := Kind_eRepeat, nd_children := [j],
          nd_min := mn, nd_max := mx\<rparr>) = (i, p')"
    then obtain mn mx where q: "q = Some (mn, mx)"
      and add: "add (snd (accept p2 CHR ''?'')) (new_node\<lparr>nd_kind := Kind_eRepeat, nd_children := [j],
          nd_min := mn, nd_max := mx\<rparr>) = (i, p')" by blast
    have g3: "grows p2 (snd (accept p2 CHR ''?''))"
      using accept_moved [of p2 "CHR ''?''"] by (cases "accept p2 CHR ''?''") (auto intro: moved_grows)
    then have "index_in (snd (accept p2 CHR ''?'')) j" using j2 index_in_grows by blast
    with m q have "grows (snd (accept p2 CHR ''?'')) p' \<and> index_in p' i"
      by (intro add_node_grows [OF add]) (auto simp: node_ok_def index_in_def)
    with g3 show ?thesis by (auto intro: grows_trans)
  qed
  with g1(1) g2 show "grows1 p p' \<and> index_in p' i" by (blast intro: grows1_trans)
qed

lemma group_consumes:
  assumes "returns_node (parse_alternation f (d + 1))"
    and a: "parse_group (Suc f) d p = Inr (i, p')" and e: "\<not> at_end p"
  shows "grows1 p p' \<and> index_in p' i"
proof -
  from a obtain p1 j p2 where p1: "parse_group_prefix (advance p) = Inr p1"
    and j: "parse_alternation f (d + 1) p1 = Inr (j, p2)"
    and r0: "(case accept p2 CHR '')'' of (closed, p3) \<Rightarrow>
             if \<not> closed then fail p3 (''missing '' @ quoted CHR '')'') else Inr (j, p3)) = Inr (i, p')"
    by (auto simp: fail_def split: if_splits)
  have "j = i" using r0 by (auto simp: fail_def split: if_splits prod.splits)
  with j r0 have p2: "parse_alternation f (d + 1) p1 = Inr (i, p2)"
    and r: "(case accept p2 CHR '')'' of (closed, p3) \<Rightarrow>
             if \<not> closed then fail p3 (''missing '' @ quoted CHR '')'') else Inr (i, p3)) = Inr (i, p')"
    by (auto simp only: Suc_eq_plus1)
  obtain c p3 where c: "accept p2 CHR '')'' = (c, p3)" by force
  with r have "p' = p3" by (auto simp: fail_def split: if_splits)
  with accept_moved [OF c] have g2: "grows p2 p'" by (auto intro: moved_grows)
  have g1: "grows1 p p1"
    using moved1_advance [OF e] parse_group_prefix_moved [OF p1]
    by (blast intro: moved1_grows1 moved1_trans)
  from returns_nodeD [OF assms(1) p2] g1 g2 show ?thesis
    by (blast intro: grows1_trans index_in_grows)
qed

lemma atom_consumes:
  assumes "returns_node (parse_alternation f' (d + 1))" and f: "f = Suc f' \<or> f = 0"
  shows "consumes_node (parse_atom (Suc f) d)"
  unfolding consumes_node_def
proof (intro allI impI)
  fix p i p' assume a: "parse_atom (Suc f) d p = Inr (i, p')" and e: "\<not> at_end p"
  have adv: "grows1 p (advance p)" by (rule moved1_grows1) (rule moved1_advance [OF e])
  have then_grows: "grows1 p p' \<and> index_in p' i" if "grows (advance p) p' \<and> index_in p' i"
    using that adv by (blast intro: grows1_trans)
  consider (group) "peek p 0 = cp CHR ''(''" "parse_group f d p = Inr (i, p')"
    | (cls) "parse_class (advance p) = Inr (i, p')"
    | (any) "add (advance p) (new_node\<lparr>nd_kind := Kind_eAny\<rparr>) = (i, p')"
    | (assertion) x where "add_assertion (advance p) x = (i, p')" "x \<in> {Op_eInputStart, Op_eInputEnd}"
    | (escape) "peek p 0 = 0x5C" "parse_escape (advance p) = Inr (i, p')"
    | (brace) p1 where "parse_braces p = Inr (None, p1)" "add_char (advance p1) (peek p 0) = (i, p')"
    | (char) "add_char (advance p) (peek p 0) = (i, p')"
    using a by (auto simp: Let_def fail_def simp del: not_None_eq split: if_splits)
  then show "grows1 p p' \<and> index_in p' i"
  proof cases
    case group
    with f obtain "f = Suc f'" by auto
    with group group_consumes [OF assms(1) _ e] show ?thesis by blast
  next
    case cls
    from parse_class_grows [OF cls] show ?thesis by (intro then_grows) (auto intro: grows1_grows)
  next
    case any
    then have "grows (advance p) p' \<and> index_in p' i"
      by (rule add_node_grows) (simp add: node_ok_def)
    then show ?thesis by (rule then_grows)
  next
    case assertion
    then show ?thesis by (intro then_grows add_assertion_grows [OF _ assertion(1)]) auto
  next
    case escape
    have "\<not> at_end (advance p) \<or> peek (advance p) 0 \<noteq> cp CHR ''b''"
      using peek_not_end [of "advance p"] by auto
    from parse_escape_grows [OF escape(2) this] show ?thesis by (rule then_grows)
  next
    case brace
    have "p1 = p" using parse_braces_moved [OF brace(1) e] by simp
    with brace(2) have "add_char (advance p) (peek p 0) = (i, p')" by simp
    then show ?thesis
      by (intro then_grows add_char_grows) (auto simp: parser_wf_def peek_bound)
  next
    case char
    then show ?thesis
      by (intro then_grows add_char_grows) (auto simp: parser_wf_def peek_bound)
  qed
qed

lemma returns_node_0:
  "returns_node (parse_alternation 0 d)" "extends_nodes (alternation_loop 0 d)"
  "returns_node (parse_concat 0 d)" "extends_nodes (concat_loop 0 d)"
  "consumes_node (parse_repeat 0 d)" "consumes_node (parse_atom 0 d)"
  by (simp_all add: returns_node_def extends_nodes_def consumes_node_def)

lemma parser_returns:
  "(\<forall>d. returns_node (parse_alternation f d)) \<and> (\<forall>d. extends_nodes (alternation_loop f d))
   \<and> (\<forall>d. returns_node (parse_concat f d)) \<and> (\<forall>d. extends_nodes (concat_loop f d))
   \<and> (\<forall>d. consumes_node (parse_repeat f d)) \<and> (\<forall>d. consumes_node (parse_atom f d))"
proof (induction f rule: less_induct)
  case (less f)
  show ?case
  proof (cases f)
    case 0
    show ?thesis unfolding 0 using returns_node_0 by blast
  next
    case (Suc g)
    note ih = less [of g, unfolded Suc, simplified]
    have "consumes_node (parse_atom (Suc g) d)" for d
    proof (cases g)
      case 0
      show ?thesis
        by (rule atom_consumes [of 0 d g]) (simp_all add: 0 returns_node_0)
    next
      case (Suc h)
      with less [of h] \<open>f = Suc g\<close> have "returns_node (parse_alternation h (d + 1))" by simp
      then show ?thesis by (rule atom_consumes) (simp add: Suc)
    qed
    with ih show ?thesis unfolding Suc
      by (intro conjI allI alternation_returns alternation_loop_extends concat_returns
          concat_loop_extends repeat_consumes) blast+
  qed
qed

lemmas parse_alternation_grows = parser_returns [THEN conjunct1, rule_format, THEN returns_nodeD]
lemmas alternation_loop_grows =
  parser_returns [THEN conjunct2, THEN conjunct1, rule_format, THEN extends_nodesD(1)]
lemmas parse_concat_grows =
  parser_returns [THEN conjunct2, THEN conjunct2, THEN conjunct1, rule_format, THEN returns_nodeD]
lemmas concat_loop_grows =
  parser_returns [THEN conjunct2, THEN conjunct2, THEN conjunct2, THEN conjunct1, rule_format,
    THEN extends_nodesD(1)]
lemmas parse_repeat_grows =
  parser_returns [THEN conjunct2, THEN conjunct2, THEN conjunct2, THEN conjunct2, THEN conjunct1,
    rule_format, THEN consumes_nodeD]

subsection \<open>The fuel of \<open>parse\<close> suffices\<close>

lemma rest_grows: "grows p p' \<Longrightarrow> rest p' \<le> rest p"
  by (auto simp: grows_def rest_def)

lemma rest_grows1: "grows1 p p' \<Longrightarrow> \<not> at_end p \<Longrightarrow> rest p' < rest p"
  by (auto simp: grows1_def grows_def rest_def at_end_def)

lemma accept_rest:
  assumes "accept p c = (b, p')"
  shows "rest p' \<le> rest p" and "b \<Longrightarrow> rest p' < rest p"
  using assms rest_advance [of p] by (auto simp: accept_def split: if_splits)

lemma parse_class_not_fuel [simp]: "parse_class p \<noteq> Inl OutOfFuel"
proof -
  have "parse_class_loop p rs \<noteq> Inl OutOfFuel" for p rs
  proof (induction p rs rule: parse_class_loop.induct)
    case (1 p rs)
    show ?case
      by (subst parse_class_loop.simps)
        (use 1 parse_class_item_not_fuel in \<open>auto split: prod.splits sum.splits\<close>)
  qed
  then show ?thesis by (auto simp: parse_class_def bindE_Inl split: prod.splits)
qed

lemma parse_group_prefix_not_fuel [simp]: "parse_group_prefix p \<noteq> Inl OutOfFuel"
  by (auto simp: parse_group_prefix_def Let_def split: prod.splits)

definition fuelled :: "nat \<Rightarrow> nat \<Rightarrow> (Parser \<Rightarrow> RegexError + 'a) \<Rightarrow> bool" where
  "fuelled f k fn \<longleftrightarrow> (\<forall>p. 8 * rest p + k \<le> f \<longrightarrow> fn p \<noteq> Inl OutOfFuel)"

lemma fuelledD: "fuelled f k fn \<Longrightarrow> 8 * rest p + k \<le> f \<Longrightarrow> fn p \<noteq> Inl OutOfFuel"
  by (auto simp: fuelled_def)

lemma bindE_not_fuel:
  assumes "m \<noteq> Inl OutOfFuel" and "\<And>x. m = Inr x \<Longrightarrow> k x \<noteq> Inl OutOfFuel"
  shows "bindE m k \<noteq> Inl OutOfFuel"
  using assms by (auto simp: bindE_Inl)

lemma alternation_fuelled:
  assumes "\<And>d. fuelled f 5 (parse_concat f d)" "\<And>d is. fuelled f 1 (alternation_loop f d is)"
  shows "fuelled (Suc f) 6 (parse_alternation (Suc f) d)"
  unfolding fuelled_def parse_alternation.simps
proof (intro allI impI bindE_not_fuel)
  fix p assume f: "8 * rest p + 6 \<le> Suc f"
  show "parse_concat f d p \<noteq> Inl OutOfFuel" using f by (intro fuelledD [OF assms(1)]) simp
  fix x assume x: "parse_concat f d p = Inr x"
  obtain i p1 where x': "x = (i, p1)" by force
  have "rest p1 \<le> rest p" using parse_concat_grows [OF x [unfolded x']] rest_grows by blast
  with f have "alternation_loop f d [i] p1 \<noteq> Inl OutOfFuel" by (intro fuelledD [OF assms(2)]) simp
  then show "(case x of (i, p1) \<Rightarrow> bindE (alternation_loop f d [i] p1) (\<lambda>(alternatives, p2).
       if length alternatives = 1 then Inr (hd alternatives, p2)
       else Inr (add p2 (new_node\<lparr>nd_kind := Kind_eAlternation, nd_children := alternatives\<rparr>))))
      \<noteq> Inl OutOfFuel"
    by (auto simp: x' bindE_Inl split: if_splits)
qed

lemma alternation_loop_fuelled:
  assumes "\<And>d. fuelled f 5 (parse_concat f d)" "\<And>d is. fuelled f 1 (alternation_loop f d is)"
  shows "fuelled (Suc f) 1 (alternation_loop (Suc f) d is)"
  unfolding fuelled_def
proof (intro allI impI)
  fix p assume f: "8 * rest p + 1 \<le> Suc f"
  obtain b p1 where b: "accept p CHR ''|'' = (b, p1)" by force
  show "alternation_loop (Suc f) d is p \<noteq> Inl OutOfFuel"
  proof (cases b)
    case True
    note r = accept_rest(2) [OF b True]
    have c: "parse_concat f d p1 \<noteq> Inl OutOfFuel" using f r by (intro fuelledD [OF assms(1)]) simp
    have l: "alternation_loop f d is' p2 \<noteq> Inl OutOfFuel" if "parse_concat f d p1 = Inr (i, p2)" for i p2 is'
    proof -
      have "rest p2 \<le> rest p1" using parse_concat_grows [OF that] rest_grows by blast
      with f r show ?thesis by (intro fuelledD [OF assms(2)]) simp
    qed
    from True b c l show ?thesis by (auto simp: bindE_Inl)
  next
    case False
    with b show ?thesis by simp
  qed
qed

lemma concat_loop_fuelled:
  assumes "\<And>d. fuelled f 3 (parse_repeat f d)" "\<And>d is. fuelled f 4 (concat_loop f d is)"
  shows "fuelled (Suc f) 4 (concat_loop (Suc f) d is)"
  unfolding fuelled_def
proof (intro allI impI)
  fix p assume f: "8 * rest p + 4 \<le> Suc f"
  show "concat_loop (Suc f) d is p \<noteq> Inl OutOfFuel"
  proof (cases "at_end p")
    case True
    then show ?thesis by simp
  next
    case False
    have c: "parse_repeat f d p \<noteq> Inl OutOfFuel" using f by (intro fuelledD [OF assms(1)]) simp
    have l: "concat_loop f d is' p2 \<noteq> Inl OutOfFuel" if "parse_repeat f d p = Inr (i, p2)" for i p2 is'
    proof -
      have "rest p2 < rest p" using parse_repeat_grows [OF that False] rest_grows1 False by blast
      with f show ?thesis by (intro fuelledD [OF assms(2)]) simp
    qed
    from c l show ?thesis by (auto simp: bindE_Inl)
  qed
qed

lemma fuelled_pass:
  assumes "\<And>d is. fuelled f 4 (concat_loop f d is)" "\<And>d. fuelled f 2 (parse_atom f d)"
    "\<And>d p. \<not> at_end p \<Longrightarrow> 8 * rest p + 1 \<le> f \<Longrightarrow> parse_group f d p \<noteq> Inl OutOfFuel"
  shows "fuelled (Suc f) 5 (parse_concat (Suc f) d)" "fuelled (Suc f) 3 (parse_repeat (Suc f) d)"
    "fuelled (Suc f) 2 (parse_atom (Suc f) d)"
proof -
  show "fuelled (Suc f) 5 (parse_concat (Suc f) d)"
    unfolding fuelled_def
  proof (intro allI impI)
    fix p assume "8 * rest p + 5 \<le> Suc f"
    then have "concat_loop f d [] p \<noteq> Inl OutOfFuel" by (intro fuelledD [OF assms(1)]) simp
    then show "parse_concat (Suc f) d p \<noteq> Inl OutOfFuel"
      by (auto simp: bindE_Inl split: if_splits)
  qed
  show "fuelled (Suc f) 3 (parse_repeat (Suc f) d)"
    unfolding fuelled_def
  proof (intro allI impI)
    fix p assume "8 * rest p + 3 \<le> Suc f"
    then have "parse_atom f d p \<noteq> Inl OutOfFuel" by (intro fuelledD [OF assms(2)]) simp
    then show "parse_repeat (Suc f) d p \<noteq> Inl OutOfFuel"
      by (auto simp: bindE_Inl Let_def split: if_splits option.splits)
  qed
  show "fuelled (Suc f) 2 (parse_atom (Suc f) d)"
    unfolding fuelled_def
  proof (intro allI impI)
    fix p assume f: "8 * rest p + 2 \<le> Suc f"
    have "parse_group f d p \<noteq> Inl OutOfFuel" if "peek p 0 = cp CHR ''(''"
      using that peek_not_end [of p] f by (intro assms(3)) auto
    then show "parse_atom (Suc f) d p \<noteq> Inl OutOfFuel"
      by (auto simp: bindE_Inl Let_def split: if_splits)
  qed
qed

lemma group_fuelled:
  assumes "\<And>d. fuelled f 6 (parse_alternation f d)" and e: "\<not> at_end p" and f: "8 * rest p + 1 \<le> Suc f"
  shows "parse_group (Suc f) d p \<noteq> Inl OutOfFuel"
proof -
  have "parse_alternation f (d + 1) p1 \<noteq> Inl OutOfFuel"
    if "parse_group_prefix (advance p) = Inr p1" for p1
  proof -
    have "rest p1 < rest p"
      using parse_group_prefix_moved [OF that] rest_advance [OF e] moved_sel(5) le_less_trans by blast
    with f show ?thesis by (intro fuelledD [OF assms(1)]) simp
  qed
  then show ?thesis by (auto simp: bindE_Inl split: prod.splits)
qed

lemma fuelled_steps:
  "(\<forall>d. fuelled f 6 (parse_alternation f d)) \<and> (\<forall>d is. fuelled f 1 (alternation_loop f d is))
   \<and> (\<forall>d. fuelled f 5 (parse_concat f d)) \<and> (\<forall>d is. fuelled f 4 (concat_loop f d is))
   \<and> (\<forall>d. fuelled f 3 (parse_repeat f d)) \<and> (\<forall>d. fuelled f 2 (parse_atom f d))
   \<and> (\<forall>d. \<forall>p. \<not> at_end p \<longrightarrow> 8 * rest p + 1 \<le> f \<longrightarrow> parse_group f d p \<noteq> Inl OutOfFuel)"
proof (induction f)
  case 0
  then show ?case by (auto simp: fuelled_def)
next
  case (Suc f)
  then show ?case
    by (intro conjI allI impI alternation_fuelled alternation_loop_fuelled concat_loop_fuelled
        fuelled_pass group_fuelled) blast+
qed

lemma parse_not_out_of_fuel: "parse p \<noteq> Inl OutOfFuel"
proof -
  have "parse_alternation (parse_fuel p) 0 p \<noteq> Inl OutOfFuel"
    using fuelled_steps [of "parse_fuel p"] by (intro fuelledD) (auto simp: parse_fuel_def)
  then show ?thesis by (auto simp: parse_def bindE_Inl split: if_splits)
qed

subsection \<open>What \<open>parse\<close> returns\<close>

lemma decode_all_bound: "\<forall>c \<in> set (decode_all s pos). c \<le> g_max_code_point"
proof (induction s pos rule: decode_all.induct)
  case (1 s pos)
  then show ?case
    by (subst decode_all.simps)
      (auto dest: decode_utf8_scalar simp: unicode_scalar_def g_max_code_point_def)
qed

lemma new_parser_wf: "parser_wf (new_parser s)"
  using decode_all_bound [of s 0]
  by (simp add: parser_wf_def new_parser_def parser_text_ok_def table_ok_def)

lemma parse_wf:
  assumes "parse (new_parser s) = Inr (root, p)"
  shows "table_ok (p_nodes p) (p_classes p)" and "root < length (p_nodes p)"
    and "p_pos p = length (p_text p)" and "p_text p = decode_all s 0"
proof -
  have a: "parse_alternation (parse_fuel (new_parser s)) 0 (new_parser s) = Inr (root, p)"
    and e: "p_pos p = length (p_text p)"
    using assms by (auto simp: parse_def fail_def split: if_splits)
  note g = parse_alternation_grows [OF a]
  with new_parser_wf [of s] show "table_ok (p_nodes p) (p_classes p)" "root < length (p_nodes p)"
    "p_text p = decode_all s 0"
    by (auto simp: grows_def parser_wf_def index_in_def new_parser_def)
  show "p_pos p = length (p_text p)" by (rule e)
qed

end
