(* ===== verification/RegexProgram.thy ===== *)
theory RegexProgram
  imports RegexParser
begin

text \<open>
  The programs of the regular expression engine (src/core/regex.cpp): instructions, what an
  assertion sees at an input position, and one nondeterministic machine step over an input
  \<open>w\<close>. A fragment \<open>[s, e)\<close> of a program denotes the relation between the input positions
  where a run enters at \<open>s\<close> and leaves at \<open>e\<close>; the combinators the compiler emits compose
  these relations.
\<close>

record Instruction =
  i_op :: Op
  i_arg1 :: nat
  i_arg2 :: nat

definition instr :: "Op \<Rightarrow> nat \<Rightarrow> nat \<Rightarrow> Instruction" where
  "instr op a b = \<lparr>i_op = op, i_arg1 = a, i_arg2 = b\<rparr>"

lemma instr_sel [simp]: "i_op (instr op a b) = op" "i_arg1 (instr op a b) = a" "i_arg2 (instr op a b) = b"
  by (simp_all add: instr_def)

lemma instr_upd [simp]:
  "(instr op a b)\<lparr>i_arg1 := x\<rparr> = instr op x b" "(instr op a b)\<lparr>i_arg2 := x\<rparr> = instr op a x"
  by (simp_all add: instr_def)

record Position =
  at_start :: bool
  at_finish :: bool
  previous_is_word :: bool
  next_is_word :: bool

text \<open>The position between the first \<open>i\<close> code points of \<open>w\<close> and the rest.\<close>

definition position_at :: "code_point list \<Rightarrow> nat \<Rightarrow> Position" where
  "position_at w i =
     \<lparr>at_start = (i = 0), at_finish = (i \<ge> length w),
      previous_is_word = (0 < i \<and> is_word_character (w ! (i - 1))),
      next_is_word = (i < length w \<and> is_word_character (w ! i))\<rparr>"

text \<open>Whether a zero-width assertion passes; the cases of \<open>add_thread\<close>.\<close>

definition assertion_holds :: "Op \<Rightarrow> Position \<Rightarrow> bool" where
  "assertion_holds op here =
     (case op of
        Op_eInputStart \<Rightarrow> at_start here
      | Op_eInputEnd \<Rightarrow> at_finish here
      | Op_eWordBoundary \<Rightarrow> previous_is_word here \<noteq> next_is_word here
      | Op_eNotWordBoundary \<Rightarrow> previous_is_word here = next_is_word here
      | _ \<Rightarrow> False)"

text \<open>Whether an instruction consumes the code point \<open>c\<close>; the switch of the search loop.\<close>

definition consumes :: "Range list list \<Rightarrow> Instruction \<Rightarrow> code_point \<Rightarrow> bool" where
  "consumes cs ins c =
     (case i_op ins of
        Op_eChar \<Rightarrow> i_arg1 ins = c
      | Op_eAny \<Rightarrow> \<not> is_line_terminator c
      | Op_eClass \<Rightarrow> contains (cs ! i_arg1 ins) c
      | _ \<Rightarrow> False)"

text \<open>The zero-width successors of an instruction, and one machine step.\<close>

definition eps_succs :: "Instruction \<Rightarrow> nat \<Rightarrow> Position \<Rightarrow> nat set" where
  "eps_succs ins pc here =
     (case i_op ins of
        Op_eJump \<Rightarrow> {i_arg1 ins}
      | Op_eSplit \<Rightarrow> {i_arg1 ins, i_arg2 ins}
      | op \<Rightarrow> if assertion_holds op here then {pc + 1} else {})"

type_synonym config = "nat \<times> nat"

inductive vm_step :: "Instruction list \<Rightarrow> Range list list \<Rightarrow> code_point list \<Rightarrow> config \<Rightarrow> config \<Rightarrow> bool"
  for P cs w where
  vm_eps: "pc < length P \<Longrightarrow> pc' \<in> eps_succs (P ! pc) pc (position_at w i) \<Longrightarrow>
     vm_step P cs w (pc, i) (pc', i)"
| vm_consume: "pc < length P \<Longrightarrow> i < length w \<Longrightarrow> consumes cs (P ! pc) (w ! i) \<Longrightarrow>
     vm_step P cs w (pc, i) (pc + 1, i + 1)"

inductive_cases vm_stepE: "vm_step P cs w (pc, i) c'"
inductive_simps vm_step_iff: "vm_step P cs w (pc, i) (pc', i')"

subsection \<open>Fragments\<close>

text \<open>A step whose instruction lies in \<open>[s, e)\<close>, and runs of such steps.\<close>

definition frag_step :: "Instruction list \<Rightarrow> Range list list \<Rightarrow> code_point list \<Rightarrow> nat \<Rightarrow> nat \<Rightarrow> (config \<times> config) set" where
  "frag_step P cs w s e = {(c, c'). s \<le> fst c \<and> fst c < e \<and> vm_step P cs w c c'}"

definition targets_in :: "Instruction \<Rightarrow> nat \<Rightarrow> nat \<Rightarrow> bool" where
  "targets_in ins s e \<longleftrightarrow>
     (case i_op ins of
        Op_eJump \<Rightarrow> s \<le> i_arg1 ins \<and> i_arg1 ins \<le> e
      | Op_eSplit \<Rightarrow> s \<le> i_arg1 ins \<and> i_arg1 ins \<le> e \<and> s \<le> i_arg2 ins \<and> i_arg2 ins \<le> e
      | Op_eMatch \<Rightarrow> False
      | _ \<Rightarrow> True)"

definition closed_frag :: "Instruction list \<Rightarrow> nat \<Rightarrow> nat \<Rightarrow> bool" where
  "closed_frag P s e \<longleftrightarrow> s \<le> e \<and> e \<le> length P \<and>
     (\<forall>pc. s \<le> pc \<longrightarrow> pc < e \<longrightarrow> targets_in (P ! pc) s e)"

lemma targets_in_mono: "targets_in ins s e \<Longrightarrow> s' \<le> s \<Longrightarrow> e \<le> e' \<Longrightarrow> targets_in ins s' e'"
  by (auto simp: targets_in_def split: Op.splits)

lemma closed_fragD:
  "closed_frag P s e \<Longrightarrow> s \<le> pc \<Longrightarrow> pc < e \<Longrightarrow> s' \<le> s \<Longrightarrow> e \<le> e' \<Longrightarrow> targets_in (P ! pc) s' e'"
  by (simp add: closed_frag_def) (blast intro: targets_in_mono)

lemma closed_frag_le: "closed_frag P s e \<Longrightarrow> s \<le> e \<and> e \<le> length P"
  by (simp add: closed_frag_def)

definition frag :: "Instruction list \<Rightarrow> Range list list \<Rightarrow> code_point list \<Rightarrow> nat \<Rightarrow> nat \<Rightarrow> (nat \<Rightarrow> nat \<Rightarrow> bool) \<Rightarrow> bool" where
  "frag P cs w s e R \<longleftrightarrow> closed_frag P s e
     \<and> (\<forall>i j. ((s, i), (e, j)) \<in> (frag_step P cs w s e)\<^sup>* \<longleftrightarrow> R i j)"

lemma closed_frag_step:
  assumes "closed_frag P s e" "(c, c') \<in> frag_step P cs w s e"
  shows "s \<le> fst c'" "fst c' \<le> e"
proof -
  obtain pc i where c: "c = (pc, i)" by force
  obtain pc' i' where c': "c' = (pc', i')" by force
  from assms(2) have pc: "s \<le> pc" "pc < e" "vm_step P cs w (pc, i) (pc', i')"
    by (auto simp: frag_step_def c c')
  note ins = assms(1) [unfolded closed_frag_def, THEN conjunct2, THEN conjunct2, rule_format, OF pc(1,2)]
  from pc(3) have "s \<le> pc' \<and> pc' \<le> e"
  proof (cases rule: vm_step.cases)
    case (vm_eps)
    then show ?thesis using ins pc(1,2)
      by (cases "i_op (P ! pc)") (auto simp: eps_succs_def targets_in_def split: if_splits)
  next
    case vm_consume
    then show ?thesis using pc(1,2) by simp
  qed
  then show "s \<le> fst c'" "fst c' \<le> e" by (simp_all add: c')
qed

lemma frag_step_mono: "s' \<le> s \<Longrightarrow> e \<le> e' \<Longrightarrow> frag_step P cs w s e \<subseteq> frag_step P cs w s' e'"
  by (auto simp: frag_step_def)

lemma frag_run_mono:
  "s' \<le> s \<Longrightarrow> e \<le> e' \<Longrightarrow> (c, c') \<in> (frag_step P cs w s e)\<^sup>* \<Longrightarrow> (c, c') \<in> (frag_step P cs w s' e')\<^sup>*"
  using rtrancl_mono [OF frag_step_mono] by blast

lemma frag_empty: "s \<le> length P \<Longrightarrow> frag P cs w s s (=)"
proof -
  assume "s \<le> length P"
  moreover have "frag_step P cs w s s = {}" by (auto simp: frag_step_def)
  ultimately show ?thesis by (auto simp: frag_def closed_frag_def)
qed

lemma frag_cong: "frag P cs w s e R \<Longrightarrow> (\<And>i j. R i j = R' i j) \<Longrightarrow> frag P cs w s e R'"
  by (simp add: frag_def)

text \<open>
  Runs to the exit of a fragment by induction on the last configuration reached: a predicate
  that holds of the exit and is kept by steps taken backwards holds of the entry.
\<close>

lemma frag_run_induct:
  assumes run: "(c, (e, j)) \<in> (frag_step P cs w s e)\<^sup>*" and c: "s \<le> fst c" "fst c \<le> e"
    and cl: "closed_frag P s e"
    and base: "Q (e, j)"
    and step: "\<And>c c'. (c, c') \<in> frag_step P cs w s e \<Longrightarrow> s \<le> fst c' \<Longrightarrow> fst c' \<le> e \<Longrightarrow> Q c' \<Longrightarrow> Q c"
  shows "Q c"
  using run
proof (induction rule: converse_rtrancl_induct)
  case base
  show ?case by (rule assms(5))
next
  case (step y z)
  show ?case using assms(6) [OF step.hyps(1) closed_frag_step [OF cl step.hyps(1)] step.IH] .
qed

lemma frag_stepD:
  assumes "((pc, i), (pc', i')) \<in> frag_step P cs w s e"
  shows "s \<le> pc" "pc < e" "vm_step P cs w (pc, i) (pc', i')"
  using assms by (auto simp: frag_step_def)

lemma frag_stepI: "s \<le> pc \<Longrightarrow> pc < e \<Longrightarrow> vm_step P cs w (pc, i) c' \<Longrightarrow> ((pc, i), c') \<in> frag_step P cs w s e"
  by (simp add: frag_step_def)

subsection \<open>Single instructions\<close>

lemma frag_single:
  assumes pc: "s < length P" and op: "i_op (P ! s) \<notin> {Op_eJump, Op_eSplit, Op_eMatch}"
  shows "frag P cs w s (s + 1)
    (\<lambda>i j. assertion_holds (i_op (P ! s)) (position_at w i) \<and> j = i
       \<or> i < length w \<and> consumes cs (P ! s) (w ! i) \<and> j = i + 1)"
proof -
  have cl: "closed_frag P s (s + 1)"
    using assms by (auto simp: closed_frag_def le_Suc_eq less_Suc_eq targets_in_def split: Op.splits)
  have one_step: "((s, i), (pc', i')) \<in> frag_step P cs w s (s + 1) \<longleftrightarrow> pc' = s + 1 \<and>
      (assertion_holds (i_op (P ! s)) (position_at w i) \<and> i' = i
       \<or> i < length w \<and> consumes cs (P ! s) (w ! i) \<and> i' = i + 1)" for i pc' i'
    using assms by (cases "i_op (P ! s)") (auto simp: frag_step_def vm_step_iff eps_succs_def)
  have none: "((s + 1, i), c) \<in> (frag_step P cs w s (s + 1))\<^sup>* \<longleftrightarrow> c = (s + 1, i)" for i c
    by (auto elim: converse_rtranclE simp: frag_step_def)
  have "((s, i), (s + 1, j)) \<in> (frag_step P cs w s (s + 1))\<^sup>* \<longleftrightarrow>
      ((s, i), (s + 1, j)) \<in> frag_step P cs w s (s + 1)" for i j
  proof
    assume "((s, i), (s + 1, j)) \<in> (frag_step P cs w s (s + 1))\<^sup>*"
    then show "((s, i), (s + 1, j)) \<in> frag_step P cs w s (s + 1)"
    proof (cases rule: converse_rtranclE)
      case (step y)
      obtain q k where y: "y = (q, k)" by force
      with step(1) one_step have "q = s + 1" by simp
      with y none step show ?thesis by auto
    qed simp
  qed auto
  with cl one_step show ?thesis by (simp add: frag_def)
qed

subsection \<open>Composition\<close>

lemma closed_frag_seq:
  assumes "closed_frag P s m" "closed_frag P m e"
  shows "closed_frag P s e"
proof -
  have "targets_in (P ! pc) s e" if "s \<le> pc" "pc < e" for pc
  proof (cases "pc < m")
    case True
    with that closed_frag_le [OF assms(2)] show ?thesis by (intro closed_fragD [OF assms(1)]) auto
  next
    case False
    with that closed_frag_le [OF assms(1)] show ?thesis by (intro closed_fragD [OF assms(2)]) auto
  qed
  with assms show ?thesis by (auto simp: closed_frag_def)
qed

lemma closed_frag_Cons:
  assumes "closed_frag P (s + 1) e" "targets_in (P ! s) s e"
  shows "closed_frag P s e"
proof -
  have "targets_in (P ! pc) s e" if "s \<le> pc" "pc < e" for pc
    using that assms(2) by (cases "pc = s") (auto intro: closed_fragD [OF assms(1)])
  with assms(1) show ?thesis by (auto simp: closed_frag_def)
qed

lemma frag_seq:
  assumes f1: "frag P cs w s m R1" and f2: "frag P cs w m e R2"
  shows "frag P cs w s e (R1 OO R2)"
proof -
  have c1: "closed_frag P s m" and c2: "closed_frag P m e" using f1 f2 by (auto simp: frag_def)
  then have sm: "s \<le> m" "m \<le> e" by (auto simp: closed_frag_def)
  note cl = closed_frag_seq [OF c1 c2]
  define Q where "Q j c \<longleftrightarrow> (if fst c < m
      then \<exists>k. (c, (m, k)) \<in> (frag_step P cs w s m)\<^sup>* \<and> ((m, k), (e, j)) \<in> (frag_step P cs w m e)\<^sup>*
      else (c, (e, j)) \<in> (frag_step P cs w m e)\<^sup>*)" for j c
  have sound: "Q j (s, i)" if "((s, i), (e, j)) \<in> (frag_step P cs w s e)\<^sup>*" for i j
  proof (rule frag_run_induct [OF that _ _ cl, where Q = "Q j"])
    show "s \<le> fst (s, i)" "fst (s, i) \<le> e" using sm by auto
    show "Q j (e, j)" using sm by (simp add: Q_def)
    fix c c' assume st: "(c, c') \<in> frag_step P cs w s e" and q: "Q j c'"
    show "Q j c"
    proof (cases "fst c < m")
      case True
      then have st1: "(c, c') \<in> frag_step P cs w s m" using st by (auto simp: frag_step_def)
      note b = closed_frag_step [OF c1 st1]
      show ?thesis
      proof (cases "fst c' < m")
        case True
        with q st1 \<open>fst c < m\<close> show ?thesis
          by (auto simp: Q_def intro: converse_rtrancl_into_rtrancl)
      next
        case False
        with b have "c' = (m, snd c')" by (simp add: prod_eq_iff)
        with q st1 \<open>fst c < m\<close> False show ?thesis
          by (auto simp: Q_def intro!: exI [of _ "snd c'"])
      qed
    next
      case False
      then have st2: "(c, c') \<in> frag_step P cs w m e" using st by (auto simp: frag_step_def)
      with closed_frag_step(1) [OF c2 st2] q False show ?thesis
        by (auto simp: Q_def intro: converse_rtrancl_into_rtrancl)
    qed
  qed
  have "((s, i), (e, j)) \<in> (frag_step P cs w s e)\<^sup>* \<longleftrightarrow> (R1 OO R2) i j" for i j
  proof
    assume "((s, i), (e, j)) \<in> (frag_step P cs w s e)\<^sup>*"
    from sound [OF this] show "(R1 OO R2) i j"
    proof (cases "s < m")
      case True
      with \<open>Q j (s, i)\<close> f1 f2 show ?thesis by (auto simp: Q_def frag_def)
    next
      case False
      then have "s = m" using sm by simp
      with \<open>Q j (s, i)\<close> f1 f2 show ?thesis by (auto simp: Q_def frag_def intro!: relcomppI [of _ i i])
    qed
  next
    assume "(R1 OO R2) i j"
    then obtain k where "((s, i), (m, k)) \<in> (frag_step P cs w s m)\<^sup>*"
      "((m, k), (e, j)) \<in> (frag_step P cs w m e)\<^sup>*"
      using f1 f2 by (auto simp: frag_def)
    then show "((s, i), (e, j)) \<in> (frag_step P cs w s e)\<^sup>*"
      using sm by (meson frag_run_mono order_refl rtrancl_trans)
  qed
  with cl show ?thesis by (simp add: frag_def)
qed

text \<open>Steps of a split and of a jump.\<close>

lemma vm_step_split:
  "i_op (P ! pc) = Op_eSplit \<Longrightarrow> vm_step P cs w (pc, i) c' \<longleftrightarrow>
     pc < length P \<and> (c' = (i_arg1 (P ! pc), i) \<or> c' = (i_arg2 (P ! pc), i))"
  by (cases c') (auto simp: vm_step_iff eps_succs_def consumes_def)

lemma vm_step_jump:
  "i_op (P ! pc) = Op_eJump \<Longrightarrow> vm_step P cs w (pc, i) c' \<longleftrightarrow>
     pc < length P \<and> c' = (i_arg1 (P ! pc), i)"
  by (cases c') (auto simp: vm_step_iff eps_succs_def consumes_def)

text \<open>\<open>split L1, END; L1: ...; END:\<close> - run the body or skip it.\<close>

lemma frag_skip:
  assumes P: "P ! s = instr Op_eSplit (s + 1) e" "s < length P" and f: "frag P cs w (s + 1) e R"
  shows "frag P cs w s e (\<lambda>i j. j = i \<or> R i j)"
proof -
  have c: "closed_frag P (s + 1) e" using f by (simp add: frag_def)
  have cl: "closed_frag P s e"
    using closed_frag_Cons [OF c] P c by (auto simp: targets_in_def closed_frag_def)
  define Q where "Q j c \<longleftrightarrow> (if fst c = s then j = snd c \<or> R (snd c) j
      else (c, (e, j)) \<in> (frag_step P cs w (s + 1) e)\<^sup>*)" for j c
  have se: "s < e" using c by (simp add: closed_frag_def)
  have sound: "Q j (s, i)" if "((s, i), (e, j)) \<in> (frag_step P cs w s e)\<^sup>*" for i j
  proof (rule frag_run_induct [OF that _ _ cl, where Q = "Q j"])
    show "s \<le> fst (s, i)" "fst (s, i) \<le> e" using se by auto
    show "Q j (e, j)" using se by (simp add: Q_def)
    fix c1 c' assume st: "(c1, c') \<in> frag_step P cs w s e" and q: "Q j c'"
    obtain pc k where c1: "c1 = (pc, k)" by force
    show "Q j c1"
    proof (cases "pc = s")
      case True
      with st P have "c' = (s + 1, k) \<or> c' = (e, k)" by (auto simp: frag_step_def c1 vm_step_split)
      moreover have "((e, k), (e, j)) \<in> (frag_step P cs w (s + 1) e)\<^sup>* \<Longrightarrow> k = j"
        by (auto elim: converse_rtranclE simp: frag_step_def)
      ultimately show ?thesis using q True se f by (auto simp: Q_def c1 frag_def)
    next
      case False
      with st have st2: "(c1, c') \<in> frag_step P cs w (s + 1) e" by (auto simp: frag_step_def c1)
      from closed_frag_step [OF c st2] q st2 False show ?thesis
        by (auto simp: Q_def c1 intro: converse_rtrancl_into_rtrancl)
    qed
  qed
  have "((s, i), (e, j)) \<in> (frag_step P cs w s e)\<^sup>* \<longleftrightarrow> j = i \<or> R i j" for i j
  proof
    assume "((s, i), (e, j)) \<in> (frag_step P cs w s e)\<^sup>*"
    from sound [OF this] show "j = i \<or> R i j" by (simp add: Q_def)
  next
    have 1: "((s, i), (s + 1, i)) \<in> frag_step P cs w s e" "((s, i), (e, i)) \<in> frag_step P cs w s e"
      using P se by (auto intro!: frag_stepI simp: vm_step_split)
    assume "j = i \<or> R i j"
    then show "((s, i), (e, j)) \<in> (frag_step P cs w s e)\<^sup>*"
    proof
      assume "R i j"
      then have "((s + 1, i), (e, j)) \<in> (frag_step P cs w (s + 1) e)\<^sup>*" using f by (simp add: frag_def)
      then have "((s + 1, i), (e, j)) \<in> (frag_step P cs w s e)\<^sup>*"
        by (rule frag_run_mono [rotated 2]) auto
      with 1(1) show ?thesis by (rule converse_rtrancl_into_rtrancl)
    qed (use 1 in auto)
  qed
  with cl show ?thesis by (simp add: frag_def)
qed

lemma no_run_from_exit: "((e, k), (e, j)) \<in> (frag_step P cs w s e)\<^sup>* \<Longrightarrow> k = j"
  by (auto elim: converse_rtranclE simp: frag_step_def)

text \<open>\<open>split L1, L2; L1: ...; jump END; L2: ...; END:\<close> - one arm or the others.\<close>

lemma frag_choice:
  assumes P: "P ! s = instr Op_eSplit (s + 1) (m + 1)" "P ! m = instr Op_eJump e 0"
    and f1: "frag P cs w (s + 1) m R1" and f2: "frag P cs w (m + 1) e R2"
  shows "frag P cs w s e (\<lambda>i j. R1 i j \<or> R2 i j)"
proof -
  have c1: "closed_frag P (s + 1) m" and c2: "closed_frag P (m + 1) e"
    using f1 f2 by (auto simp: frag_def)
  then have b: "s < m" "m < e" "e \<le> length P" by (auto simp: closed_frag_def)
  have m: "targets_in (P ! m) (s + 1) e" using b P by (simp add: targets_in_def)
  have "targets_in (P ! pc) (s + 1) e" if "s + 1 \<le> pc" "pc < e" for pc
  proof -
    consider "pc < m" | "pc = m" | "m < pc" by linarith
    then show ?thesis
      by cases (use that b m in \<open>auto intro: closed_fragD [OF c1] closed_fragD [OF c2]\<close>)
  qed
  with b have "closed_frag P (s + 1) e" by (auto simp: closed_frag_def)
  then have cl: "closed_frag P s e"
    by (rule closed_frag_Cons) (use b P in \<open>simp add: targets_in_def\<close>)
  define Q where "Q j c \<longleftrightarrow> (if fst c = s then R1 (snd c) j \<or> R2 (snd c) j
      else if fst c < m then (c, (m, j)) \<in> (frag_step P cs w (s + 1) m)\<^sup>*
      else if fst c = m then snd c = j
      else (c, (e, j)) \<in> (frag_step P cs w (m + 1) e)\<^sup>*)" for j c
  have sound: "Q j (s, i)" if "((s, i), (e, j)) \<in> (frag_step P cs w s e)\<^sup>*" for i j
  proof (rule frag_run_induct [OF that _ _ cl, where Q = "Q j"])
    show "s \<le> fst (s, i)" "fst (s, i) \<le> e" using b by auto
    show "Q j (e, j)" using b by (simp add: Q_def)
    fix c1' c' assume st: "(c1', c') \<in> frag_step P cs w s e" and q: "Q j c'"
    obtain pc k where c1': "c1' = (pc, k)" by force
    from st have "s \<le> pc" by (simp add: frag_step_def c1')
    then consider "pc = s" | "s < pc" "pc < m" | "pc = m" | "m < pc" by linarith
    then show "Q j c1'"
    proof cases
      case 1
      with st P have "c' = (s + 1, k) \<or> c' = (m + 1, k)"
        by (auto simp: frag_step_def c1' vm_step_split)
      moreover have "s + 1 = m \<Longrightarrow> k = j \<Longrightarrow> R1 k j" using f1 by (auto simp: frag_def)
      ultimately show ?thesis using q 1 b f1 f2
        by (cases "s + 1 = m") (auto simp: Q_def c1' frag_def)
    next
      case 2
      with st have st2: "(c1', c') \<in> frag_step P cs w (s + 1) m" by (auto simp: frag_step_def c1')
      obtain pc' k' where c': "c' = (pc', k')" by force
      from closed_frag_step [OF c1 st2] have "s + 1 \<le> pc'" "pc' \<le> m" by (auto simp: c')
      with q 2 st2 show ?thesis
        by (cases "pc' = m") (auto simp: Q_def c1' c' intro: converse_rtrancl_into_rtrancl)
    next
      case 3
      with st P have "c' = (e, k)" by (auto simp: frag_step_def c1' vm_step_jump)
      with q 3 b no_run_from_exit [of e k j P cs w "m + 1"] show ?thesis by (auto simp: Q_def c1')
    next
      case 4
      with st have st2: "(c1', c') \<in> frag_step P cs w (m + 1) e" by (auto simp: frag_step_def c1')
      from closed_frag_step [OF c2 st2] q st2 4 b show ?thesis
        by (auto simp: Q_def c1' intro: converse_rtrancl_into_rtrancl)
    qed
  qed
  have "((s, i), (e, j)) \<in> (frag_step P cs w s e)\<^sup>* \<longleftrightarrow> R1 i j \<or> R2 i j" for i j
  proof
    assume "((s, i), (e, j)) \<in> (frag_step P cs w s e)\<^sup>*"
    from sound [OF this] show "R1 i j \<or> R2 i j" by (simp add: Q_def)
  next
    have 1: "((s, i), (s + 1, i)) \<in> frag_step P cs w s e" "((s, i), (m + 1, i)) \<in> frag_step P cs w s e"
      "((m, j), (e, j)) \<in> frag_step P cs w s e"
      using P b by (auto intro!: frag_stepI simp: vm_step_split vm_step_jump)
    assume "R1 i j \<or> R2 i j"
    then show "((s, i), (e, j)) \<in> (frag_step P cs w s e)\<^sup>*"
    proof
      assume "R1 i j"
      then have "((s + 1, i), (m, j)) \<in> (frag_step P cs w (s + 1) m)\<^sup>*" using f1 by (simp add: frag_def)
      then have "((s + 1, i), (m, j)) \<in> (frag_step P cs w s e)\<^sup>*"
        by (rule frag_run_mono [rotated 2]) (use b in auto)
      with 1 show ?thesis by (meson converse_rtrancl_into_rtrancl rtrancl_into_rtrancl)
    next
      assume "R2 i j"
      then have "((m + 1, i), (e, j)) \<in> (frag_step P cs w (m + 1) e)\<^sup>*" using f2 by (simp add: frag_def)
      then have "((m + 1, i), (e, j)) \<in> (frag_step P cs w s e)\<^sup>*"
        by (rule frag_run_mono [rotated 2]) (use b in auto)
      with 1 show ?thesis by (meson converse_rtrancl_into_rtrancl)
    qed
  qed
  with cl show ?thesis by (simp add: frag_def)
qed

text \<open>\<open>L1: split L2, L3; L2: ...; jump L1; L3:\<close> - any number of turns.\<close>

lemma frag_loop:
  assumes P: "P ! s = instr Op_eSplit (s + 1) (m + 1)" "P ! m = instr Op_eJump s 0" "m < length P"
    and f: "frag P cs w (s + 1) m R"
  shows "frag P cs w s (m + 1) R\<^sup>*\<^sup>*"
proof -
  define e where "e = m + 1"
  have c1: "closed_frag P (s + 1) m" using f by (auto simp: frag_def)
  then have b: "s < m" "m < e" "e \<le> length P" using P(3) by (auto simp: closed_frag_def e_def)
  have m: "targets_in (P ! m) s e" "targets_in (P ! s) s e" using b P by (simp_all add: targets_in_def e_def)
  have "targets_in (P ! pc) s e" if pc: "s \<le> pc" "pc < e" for pc
  proof -
    consider "pc = s" | "s < pc" "pc < m" | "pc = m" using pc e_def by linarith
    then show ?thesis
      by cases (use pc b m in \<open>auto intro: closed_fragD [OF c1]\<close>)
  qed
  with b have cl: "closed_frag P s e" by (auto simp: closed_frag_def)
  define Q where "Q j c \<longleftrightarrow> (if fst c = s \<or> fst c = m then R\<^sup>*\<^sup>* (snd c) j
      else if fst c < m then \<exists>k. (c, (m, k)) \<in> (frag_step P cs w (s + 1) m)\<^sup>* \<and> R\<^sup>*\<^sup>* k j
      else snd c = j)" for j c
  have sound: "Q j (s, i)" if "((s, i), (e, j)) \<in> (frag_step P cs w s e)\<^sup>*" for i j
  proof (rule frag_run_induct [OF that _ _ cl, where Q = "Q j"])
    show "s \<le> fst (s, i)" "fst (s, i) \<le> e" using b by auto
    show "Q j (e, j)" using b by (simp add: Q_def)
    fix c1' c' assume st: "(c1', c') \<in> frag_step P cs w s e" and q: "Q j c'"
    obtain pc k where c1': "c1' = (pc, k)" by force
    from st have "pc < e" "s \<le> pc" by (auto simp: frag_step_def c1')
    then consider "pc = s" | "s < pc" "pc < m" | "pc = m" using e_def by linarith
    then show "Q j c1'"
    proof cases
      case 1
      with st P have "c' = (s + 1, k) \<or> c' = (e, k)"
        by (auto simp: frag_step_def c1' vm_step_split e_def)
      then show ?thesis
      proof
        assume c': "c' = (s + 1, k)"
        show ?thesis
        proof (cases "s + 1 = m")
          case True
          with q c' 1 show ?thesis by (simp add: Q_def c1')
        next
          case False
          with q c' b obtain k' where "((s + 1, k), (m, k')) \<in> (frag_step P cs w (s + 1) m)\<^sup>*" "R\<^sup>*\<^sup>* k' j"
            by (auto simp: Q_def)
          with f have "R k k'" by (simp add: frag_def)
          with \<open>R\<^sup>*\<^sup>* k' j\<close> 1 show ?thesis by (simp add: Q_def c1' converse_rtranclp_into_rtranclp)
        qed
      next
        assume "c' = (e, k)"
        with q b 1 show ?thesis by (simp add: Q_def c1' e_def)
      qed
    next
      case 2
      with st have st2: "(c1', c') \<in> frag_step P cs w (s + 1) m" by (auto simp: frag_step_def c1')
      obtain pc' k' where c': "c' = (pc', k')" by force
      from closed_frag_step [OF c1 st2] have pc': "s + 1 \<le> pc'" "pc' \<le> m" by (auto simp: c')
      show ?thesis
      proof (cases "pc' = m")
        case True
        with q 2 st2 show ?thesis by (auto simp: Q_def c1' c')
      next
        case False
        with q 2 st2 pc' show ?thesis
          by (auto simp: Q_def c1' c' intro: converse_rtrancl_into_rtrancl)
      qed
    next
      case 3
      with st P have "c' = (s, k)" by (auto simp: frag_step_def c1' vm_step_jump)
      with q 3 show ?thesis by (auto simp: Q_def c1')
    qed
  qed
  have turn: "((s, i), (s, k)) \<in> (frag_step P cs w s e)\<^sup>*" if "R i k" for i k
  proof -
    have 1: "((s, i), (s + 1, i)) \<in> frag_step P cs w s e" "((m, k), (s, k)) \<in> frag_step P cs w s e"
      using P b by (auto intro!: frag_stepI simp: vm_step_split vm_step_jump)
    from that have "((s + 1, i), (m, k)) \<in> (frag_step P cs w (s + 1) m)\<^sup>*" using f by (simp add: frag_def)
    then have "((s + 1, i), (m, k)) \<in> (frag_step P cs w s e)\<^sup>*"
      by (rule frag_run_mono [rotated 2]) (use b in auto)
    with 1 show ?thesis by (meson converse_rtrancl_into_rtrancl rtrancl_into_rtrancl)
  qed
  have "((s, i), (e, j)) \<in> (frag_step P cs w s e)\<^sup>* \<longleftrightarrow> R\<^sup>*\<^sup>* i j" for i j
  proof
    assume "((s, i), (e, j)) \<in> (frag_step P cs w s e)\<^sup>*"
    from sound [OF this] show "R\<^sup>*\<^sup>* i j" by (simp add: Q_def)
  next
    assume "R\<^sup>*\<^sup>* i j"
    then have "((s, i), (s, j)) \<in> (frag_step P cs w s e)\<^sup>*"
      by (induction rule: rtranclp_induct) (auto dest: turn intro: rtrancl_trans)
    moreover have "((s, j), (e, j)) \<in> frag_step P cs w s e"
      using P b by (auto intro!: frag_stepI simp: vm_step_split e_def)
    ultimately show "((s, i), (e, j)) \<in> (frag_step P cs w s e)\<^sup>*" by (rule rtrancl_into_rtrancl)
  qed
  with cl show ?thesis by (simp add: frag_def e_def)
qed

end
