(* ===== verification/RegexCompiler.thy ===== *)
theory RegexCompiler
  imports RegexProgram
begin

text \<open>
  The compiler of src/core/regex.cpp, from node tables to programs, with the forward targets
  of splits and jumps patched as the code does, and its correctness: every compiled node is a
  fragment that denotes what the node matches (\<open>matches\<close>, the declarative meaning of the
  supported ECMA-262 constructs).
\<close>

subsection \<open>What a node matches\<close>

text \<open>
  \<open>matches ns cs w k i j\<close>: node \<open>k\<close> matches the code points of \<open>w\<close> from position \<open>i\<close> to \<open>j\<close>.
  A concatenation matches its children in turn, an alternation any child, a repetition its
  operand between \<open>min\<close> and \<open>max\<close> times, an assertion the empty text where it holds.
\<close>

inductive matches :: "Node list \<Rightarrow> Range list list \<Rightarrow> code_point list \<Rightarrow> nat \<Rightarrow> nat \<Rightarrow> nat \<Rightarrow> bool"
  and matches_seq :: "Node list \<Rightarrow> Range list list \<Rightarrow> code_point list \<Rightarrow> nat list \<Rightarrow> nat \<Rightarrow> nat \<Rightarrow> bool"
  and matches_times :: "Node list \<Rightarrow> Range list list \<Rightarrow> code_point list \<Rightarrow> nat \<Rightarrow> nat \<Rightarrow> nat \<Rightarrow> nat \<Rightarrow> bool"
  for ns cs w where
  m_empty: "k < length ns \<Longrightarrow> nd_kind (ns ! k) = Kind_eEmpty \<Longrightarrow> matches ns cs w k i i"
| m_char: "k < length ns \<Longrightarrow> nd_kind (ns ! k) = Kind_eChar \<Longrightarrow> i < length w \<Longrightarrow>
     w ! i = nd_code_point (ns ! k) \<Longrightarrow> matches ns cs w k i (i + 1)"
| m_any: "k < length ns \<Longrightarrow> nd_kind (ns ! k) = Kind_eAny \<Longrightarrow> i < length w \<Longrightarrow>
     \<not> is_line_terminator (w ! i) \<Longrightarrow> matches ns cs w k i (i + 1)"
| m_class: "k < length ns \<Longrightarrow> nd_kind (ns ! k) = Kind_eClass \<Longrightarrow> i < length w \<Longrightarrow>
     w ! i \<in> ranges_set (cs ! nd_class_index (ns ! k)) \<Longrightarrow> matches ns cs w k i (i + 1)"
| m_assertion: "k < length ns \<Longrightarrow> nd_kind (ns ! k) = Kind_eAssertion \<Longrightarrow>
     assertion_holds (nd_assertion (ns ! k)) (position_at w i) \<Longrightarrow> matches ns cs w k i i"
| m_concat: "k < length ns \<Longrightarrow> nd_kind (ns ! k) = Kind_eConcat \<Longrightarrow>
     matches_seq ns cs w (nd_children (ns ! k)) i j \<Longrightarrow> matches ns cs w k i j"
| m_alternation: "k < length ns \<Longrightarrow> nd_kind (ns ! k) = Kind_eAlternation \<Longrightarrow>
     c \<in> set (nd_children (ns ! k)) \<Longrightarrow> matches ns cs w c i j \<Longrightarrow> matches ns cs w k i j"
| m_repeat: "k < length ns \<Longrightarrow> nd_kind (ns ! k) = Kind_eRepeat \<Longrightarrow> nd_children (ns ! k) = [c] \<Longrightarrow>
     matches_times ns cs w c n i j \<Longrightarrow> nd_min (ns ! k) \<le> n \<Longrightarrow>
     (\<forall>m. nd_max (ns ! k) = Some m \<longrightarrow> n \<le> m) \<Longrightarrow> matches ns cs w k i j"
| ms_nil: "matches_seq ns cs w [] i i"
| ms_cons: "matches ns cs w c i j \<Longrightarrow> matches_seq ns cs w rest' j k' \<Longrightarrow> matches_seq ns cs w (c # rest') i k'"
| mt_zero: "matches_times ns cs w c 0 i i"
| mt_suc: "matches ns cs w c i j \<Longrightarrow> matches_times ns cs w c n j k' \<Longrightarrow> matches_times ns cs w c (Suc n) i k'"

inductive_simps matches_seq_Nil: "matches_seq ns cs w [] i j"
inductive_simps matches_seq_Cons: "matches_seq ns cs w (c # rest') i j"
inductive_simps matches_times_0: "matches_times ns cs w c 0 i j"
inductive_simps matches_times_Suc: "matches_times ns cs w c (Suc n) i j"
inductive_simps matches_iff: "matches ns cs w k i j"

subsection \<open>The compiler\<close>

definition emit :: "Instruction list \<Rightarrow> Instruction \<Rightarrow> RegexError + (nat \<times> Instruction list)" where
  "emit program instruction =
     (if length program \<ge> max_program_size then Inl ProgramTooLarge
      else Inr (length program, program @ [instruction]))"

definition set_arg1 :: "Instruction list \<Rightarrow> nat \<Rightarrow> nat \<Rightarrow> Instruction list" where
  "set_arg1 program k v = program[k := (program ! k)\<lparr>i_arg1 := v\<rparr>]"

definition set_arg2 :: "Instruction list \<Rightarrow> nat \<Rightarrow> nat \<Rightarrow> Instruction list" where
  "set_arg2 program k v = program[k := (program ! k)\<lparr>i_arg2 := v\<rparr>]"

type_synonym emitter = "nat \<Rightarrow> Instruction list \<Rightarrow> RegexError + Instruction list"

text \<open>\<open>case eConcat\<close>: each child after the other.\<close>

fun compile_children :: "emitter \<Rightarrow> nat list \<Rightarrow> Instruction list \<Rightarrow> RegexError + Instruction list" where
  "compile_children gen [] program = Inr program"
| "compile_children gen (c # children) program =
     bindE (gen c program) (\<lambda>program'. compile_children gen children program')"

text \<open>The loop of \<open>compile_alternation\<close> and its last arm; the jumps it leaves to be patched.\<close>

fun alternation_arms ::
  "emitter \<Rightarrow> nat list \<Rightarrow> nat list \<Rightarrow> Instruction list \<Rightarrow> RegexError + (nat list \<times> Instruction list)" where
  "alternation_arms gen [] jumps program = Inr (jumps, program)"
| "alternation_arms gen [c] jumps program =
     bindE (gen c program) (\<lambda>program'. Inr (jumps, program'))"
| "alternation_arms gen (c # d # children) jumps program =
     bindE (emit program (instr Op_eSplit 0 0)) (\<lambda>(split, p1).
     bindE (gen c (set_arg1 p1 split (length p1))) (\<lambda>p2.
     bindE (emit p2 (instr Op_eJump 0 0)) (\<lambda>(jump, p3).
       alternation_arms gen (d # children) (jumps @ [jump]) (set_arg2 p3 split (length p3)))))"

definition compile_alternation :: "emitter \<Rightarrow> Node \<Rightarrow> Instruction list \<Rightarrow> RegexError + Instruction list" where
  "compile_alternation gen node program =
     bindE (alternation_arms gen (nd_children node) [] program) (\<lambda>(jumps, program').
       Inr (foldl (\<lambda>p jump. set_arg1 p jump (length p)) program' jumps))"

text \<open>The mandatory copies of a repetition, with the early exit for an operand without code.\<close>

fun repeat_min :: "emitter \<Rightarrow> nat \<Rightarrow> nat \<Rightarrow> Instruction list \<Rightarrow> RegexError + Instruction list" where
  "repeat_min gen child 0 program = Inr program"
| "repeat_min gen child (Suc n) program =
     bindE (gen child program) (\<lambda>program'.
       if length program' = length program then Inr program'
       else repeat_min gen child n program')"

fun repeat_optional ::
  "emitter \<Rightarrow> nat \<Rightarrow> nat \<Rightarrow> nat list \<Rightarrow> Instruction list \<Rightarrow> RegexError + (nat list \<times> Instruction list)" where
  "repeat_optional gen child 0 splits program = Inr (splits, program)"
| "repeat_optional gen child (Suc n) splits program =
     bindE (emit program (instr Op_eSplit 0 0)) (\<lambda>(split, p1).
     bindE (gen child (set_arg1 p1 split (length p1))) (\<lambda>p2.
       repeat_optional gen child n (splits @ [split]) p2))"

definition compile_repeat :: "emitter \<Rightarrow> Node \<Rightarrow> Instruction list \<Rightarrow> RegexError + Instruction list" where
  "compile_repeat gen node program =
     (let child = hd (nd_children node) in
      bindE (repeat_min gen child (nd_min node) program) (\<lambda>p1.
        (case nd_max node of
           None \<Rightarrow>
             bindE (emit p1 (instr Op_eSplit 0 0)) (\<lambda>(split, p2).
             bindE (gen child (set_arg1 p2 split (length p2))) (\<lambda>p3.
             bindE (emit p3 (instr Op_eJump split 0)) (\<lambda>(_, p4).
               Inr (set_arg2 p4 split (length p4)))))
         | Some m \<Rightarrow>
             bindE (repeat_optional gen child (m - nd_min node) [] p1) (\<lambda>(splits, p2).
               Inr (foldl (\<lambda>p split. set_arg2 p split (length p)) p2 splits)))))"

definition emit1 :: "Instruction list \<Rightarrow> Instruction \<Rightarrow> RegexError + Instruction list" where
  "emit1 program ins = bindE (emit program ins) (\<lambda>(_, program'). Inr program')"

text \<open>
  \<open>compile fuel ns k program\<close> appends the code of node \<open>k\<close>. The recursion follows child indices,
  which decrease in a well-formed table, so fuel \<open>k + 1\<close> suffices (\<open>compile_not_out_of_fuel\<close>).
\<close>

fun compile :: "nat \<Rightarrow> Node list \<Rightarrow> emitter" where
  "compile 0 ns k program = Inl OutOfFuel"
| "compile (Suc fuel) ns k program =
     (let node = ns ! k in
      case nd_kind node of
        Kind_eEmpty \<Rightarrow> Inr program
      | Kind_eChar \<Rightarrow> emit1 program (instr Op_eChar (nd_code_point node) 0)
      | Kind_eAny \<Rightarrow> emit1 program (instr Op_eAny 0 0)
      | Kind_eClass \<Rightarrow> emit1 program (instr Op_eClass (nd_class_index node) 0)
      | Kind_eAssertion \<Rightarrow> emit1 program (instr (nd_assertion node) 0 0)
      | Kind_eConcat \<Rightarrow> compile_children (compile fuel ns) (nd_children node) program
      | Kind_eAlternation \<Rightarrow> compile_alternation (compile fuel ns) node program
      | Kind_eRepeat \<Rightarrow> compile_repeat (compile fuel ns) node program)"

subsection \<open>What compiled code denotes\<close>

text \<open>\<open>agrees P p s e\<close>: the final program \<open>P\<close> holds at \<open>[s, e)\<close> what \<open>p\<close> holds there.\<close>

definition agrees :: "Instruction list \<Rightarrow> Instruction list \<Rightarrow> nat \<Rightarrow> nat \<Rightarrow> bool" where
  "agrees P p s e \<longleftrightarrow> e \<le> length P \<and> (\<forall>k. s \<le> k \<longrightarrow> k < e \<longrightarrow> P ! k = p ! k)"

text \<open>
  \<open>emits\<close>: a successful run of an emitter only appends, and wherever its code ends up
  unchanged it is a fragment for the relation \<open>R\<close>.
\<close>

definition denotes :: "Range list list \<Rightarrow> code_point list \<Rightarrow> Instruction list \<Rightarrow> Instruction list \<Rightarrow> (nat \<Rightarrow> nat \<Rightarrow> bool) \<Rightarrow> bool" where
  "denotes cs w p p' R \<longleftrightarrow> prefix p p'
     \<and> (\<forall>P. agrees P p' (length p) (length p') \<longrightarrow> frag P cs w (length p) (length p') R)"

definition emits :: "Range list list \<Rightarrow> code_point list \<Rightarrow> emitter \<Rightarrow> nat \<Rightarrow> (nat \<Rightarrow> nat \<Rightarrow> bool) \<Rightarrow> bool" where
  "emits cs w gen k R \<longleftrightarrow> (\<forall>p p'. gen k p = Inr p' \<longrightarrow> denotes cs w p p' R)"

lemma emitsD: "emits cs w gen k R \<Longrightarrow> gen k p = Inr p' \<Longrightarrow> denotes cs w p p' R"
  by (auto simp: emits_def)

lemma denotes_prefix: "denotes cs w p p' R \<Longrightarrow> prefix p p'"
  by (simp add: denotes_def)

lemma denotes_frag:
  "denotes cs w p p' R \<Longrightarrow> agrees P p' (length p) (length p') \<Longrightarrow> frag P cs w (length p) (length p') R"
  by (simp add: denotes_def)

lemma prefix_nth: "prefix p p' \<Longrightarrow> k < length p \<Longrightarrow> p' ! k = p ! k"
  by (auto simp: prefix_def nth_append)

lemma prefix_len: "prefix p p' \<Longrightarrow> length p \<le> length p'"
  by (rule prefix_length_le)

lemma agrees_sub:
  assumes "agrees P p' s e" "prefix p p'" "s \<le> s'" "e' \<le> e" "e' \<le> length p"
  shows "agrees P p s' e'"
  using assms by (auto simp: agrees_def prefix_nth)

lemma denotes_refl: "denotes cs w p p (=)"
  by (auto simp: denotes_def agrees_def intro: frag_empty)

lemma denotes_trans:
  assumes "denotes cs w p q R1" "denotes cs w q r R2"
  shows "denotes cs w p r (R1 OO R2)"
  unfolding denotes_def
proof (intro conjI allI impI)
  have pq: "prefix p q" and qr: "prefix q r" using assms by (auto simp: denotes_def)
  then show "prefix p r" by (rule prefix_order.trans)
  fix P assume a: "agrees P r (length p) (length r)"
  have "agrees P q (length p) (length q)" by (rule agrees_sub [OF a qr]) (use prefix_len [OF qr] in auto)
  moreover have "agrees P r (length q) (length r)" using prefix_len [OF pq] a by (simp add: agrees_def)
  ultimately have "agrees P q (length p) (length q)" "agrees P r (length q) (length r)" .
  then show "frag P cs w (length p) (length r) (R1 OO R2)"
    using assms by (blast intro: frag_seq denotes_frag)
qed

lemma denotes_cong: "denotes cs w p q R \<Longrightarrow> (\<And>i j. R i j = R' i j) \<Longrightarrow> denotes cs w p q R'"
  by (simp add: denotes_def frag_def)

lemma emit1_denotes:
  assumes "emit1 p ins = Inr p'" and "i_op ins \<notin> {Op_eJump, Op_eSplit, Op_eMatch}"
  shows "denotes cs w p p' (\<lambda>i j. assertion_holds (i_op ins) (position_at w i) \<and> j = i
       \<or> i < length w \<and> consumes cs ins (w ! i) \<and> j = i + 1)"
proof -
  have p': "p' = p @ [ins]" using assms(1) by (auto simp: emit1_def emit_def split: if_splits)
  have "frag P cs w (length p) (length p + 1) (\<lambda>i j. assertion_holds (i_op ins) (position_at w i) \<and> j = i
       \<or> i < length w \<and> consumes cs ins (w ! i) \<and> j = i + 1)"
    if "agrees P p' (length p) (length p')" for P
  proof -
    have "P ! length p = ins" "length p < length P" using that by (auto simp: agrees_def p')
    with frag_single [of "length p" P cs w] assms(2) show ?thesis by simp
  qed
  then show ?thesis by (simp add: denotes_def p')
qed

subsection \<open>Patching\<close>

lemma foldl_set_arg1:
  "\<forall>k \<in> set ks. k < length p \<Longrightarrow>
     length (foldl (\<lambda>p k. set_arg1 p k (length p)) p ks) = length p
     \<and> (\<forall>i < length p. foldl (\<lambda>p k. set_arg1 p k (length p)) p ks ! i
         = (if i \<in> set ks then (p ! i)\<lparr>i_arg1 := length p\<rparr> else p ! i))"
proof (induction ks arbitrary: p)
  case (Cons k ks)
  have "length (set_arg1 p k (length p)) = length p" by (simp add: set_arg1_def)
  with Cons.IH [of "set_arg1 p k (length p)"] Cons.prems show ?case
    by (auto simp: set_arg1_def nth_list_update)
qed simp

lemma foldl_set_arg2:
  "\<forall>k \<in> set ks. k < length p \<Longrightarrow>
     length (foldl (\<lambda>p k. set_arg2 p k (length p)) p ks) = length p
     \<and> (\<forall>i < length p. foldl (\<lambda>p k. set_arg2 p k (length p)) p ks ! i
         = (if i \<in> set ks then (p ! i)\<lparr>i_arg2 := length p\<rparr> else p ! i))"
proof (induction ks arbitrary: p)
  case (Cons k ks)
  have "length (set_arg2 p k (length p)) = length p" by (simp add: set_arg2_def)
  with Cons.IH [of "set_arg2 p k (length p)"] Cons.prems show ?case
    by (auto simp: set_arg2_def nth_list_update)
qed simp

lemma prefix_nthI:
  assumes "length p \<le> length q" "\<And>i. i < length p \<Longrightarrow> q ! i = p ! i"
  shows "prefix p q"
proof -
  have "take (length p) q = p" using assms by (intro nth_equalityI) auto
  then show ?thesis by (metis take_is_prefix)
qed

lemma emit_Inr:
  "emit p ins = Inr (k, p') \<longleftrightarrow> k = length p \<and> p' = p @ [ins] \<and> length p < max_program_size"
  by (auto simp: emit_def)

lemma set_arg1_last: "set_arg1 (p @ [ins]) (length p) v = p @ [ins\<lparr>i_arg1 := v\<rparr>]"
  by (simp add: set_arg1_def)

lemma set_arg2_mid: "set_arg2 (p @ ins # q) (length p) v = p @ (ins\<lparr>i_arg2 := v\<rparr>) # q"
  by (simp add: set_arg2_def)

subsection \<open>Concatenation and alternation\<close>

lemma compile_children_denotes:
  assumes "\<And>c. c \<in> set children \<Longrightarrow> emits cs w gen c (matches ns cs w c)"
    and "compile_children gen children p = Inr p'"
  shows "denotes cs w p p' (matches_seq ns cs w children)"
  using assms
proof (induction children arbitrary: p)
  case Nil
  then show ?case by (auto intro!: denotes_cong [OF denotes_refl] simp: matches_seq_Nil)
next
  case (Cons c children)
  then obtain q where q: "gen c p = Inr q" "compile_children gen children q = Inr p'" by auto
  have "denotes cs w p q (matches ns cs w c)" 
    by (rule emitsD [where gen = gen and k = c, OF _ q(1)]) (simp add: Cons.prems(1))
  moreover have "denotes cs w q p' (matches_seq ns cs w children)" using Cons q(2) by auto
  ultimately have "denotes cs w p p' (matches ns cs w c OO matches_seq ns cs w children)"
    by (rule denotes_trans)
  then show ?case by (rule denotes_cong) (auto simp: matches_seq_Cons)
qed

text \<open>
  Code with forward targets still open at the indices \<open>js\<close>: once they are filled with the
  end of the code, it is a fragment for \<open>R\<close>.
\<close>

definition opens ::
  "(nat \<Rightarrow> Instruction \<Rightarrow> Instruction) \<Rightarrow> Range list list \<Rightarrow> code_point list \<Rightarrow> Instruction list \<Rightarrow>
    Instruction list \<Rightarrow> nat list \<Rightarrow> (nat \<Rightarrow> nat \<Rightarrow> bool) \<Rightarrow> bool" where
  "opens fill cs w p p' js R \<longleftrightarrow> prefix p p' \<and> (\<forall>j \<in> set js. length p \<le> j \<and> j < length p')
     \<and> (\<forall>P. length p' \<le> length P
          \<longrightarrow> (\<forall>k. length p \<le> k \<longrightarrow> k < length p' \<longrightarrow>
                P ! k = (if k \<in> set js then fill (length p') (p' ! k) else p' ! k))
          \<longrightarrow> frag P cs w (length p) (length p') R)"

abbreviation "fill1 \<equiv> \<lambda>e ins. ins\<lparr>i_arg1 := e\<rparr>"
abbreviation "fill2 \<equiv> \<lambda>e ins. ins\<lparr>i_arg2 := e\<rparr>"

lemma opens_frag:
  assumes "opens fill cs w p p' js R" "length p' \<le> length P"
    and "\<And>k. length p \<le> k \<Longrightarrow> k < length p' \<Longrightarrow> P ! k = (if k \<in> set js then fill (length p') (p' ! k) else p' ! k)"
  shows "frag P cs w (length p) (length p') R"
  using assms by (simp add: opens_def)

lemma opens_denotes:
  assumes o: "opens fill cs w p p' js R" and len: "length q = length p'"
    and q: "\<And>i. i < length p' \<Longrightarrow> q ! i = (if i \<in> set js then fill (length p') (p' ! i) else p' ! i)"
  shows "denotes cs w p q R"
proof -
  have pp: "prefix p p'" and js: "\<And>j. j \<in> set js \<Longrightarrow> length p \<le> j \<and> j < length p'"
    using o by (auto simp: opens_def)
  have "prefix p q"
  proof (rule prefix_nthI)
    show "length p \<le> length q" using pp len by (simp add: prefix_len)
    fix i assume i: "i < length p"
    then have "i \<notin> set js" using js by force
    with i prefix_len [OF pp] show "q ! i = p ! i" by (simp add: q prefix_nth [OF pp])
  qed
  moreover have "frag P cs w (length p) (length q) R" if "agrees P q (length p) (length q)" for P
    using opens_frag [OF o, of P] that by (simp add: agrees_def len q)
  ultimately show ?thesis by (simp add: denotes_def)
qed

lemma alternation_arms_opens:
  assumes "\<And>c. c \<in> set children \<Longrightarrow> emits cs w gen c (matches ns cs w c)"
    and "alternation_arms gen children jumps p = Inr (jumps', p')" and "children \<noteq> []"
  shows "\<exists>js. jumps' = jumps @ js
    \<and> opens fill1 cs w p p' js (\<lambda>i j. \<exists>c \<in> set children. matches ns cs w c i j)"
  using assms
proof (induction children arbitrary: jumps p)
  case (Cons c children0)
  note prems = Cons.prems
  show ?case
  proof (cases children0)
    case Nil
    with prems have "gen c p = Inr p'" "jumps' = jumps" "emits cs w gen c (matches ns cs w c)" by auto
    then have "denotes cs w p p' (matches ns cs w c)" by (auto intro: emitsD)
    then show ?thesis using Nil \<open>jumps' = jumps\<close> by (auto simp: opens_def denotes_def agrees_def)
  next
    case c0: (Cons d children)
    define p1 where "p1 = p @ [instr Op_eSplit (length p + 1) 0]"
    from prems(2) c0 obtain p2 where p2: "gen c p1 = Inr p2"
      and r: "alternation_arms gen (d # children) (jumps @ [length p2])
        (set_arg2 (p2 @ [instr Op_eJump 0 0]) (length p) (length p2 + 1)) = Inr (jumps', p')"
      by (auto simp: emit_Inr set_arg1_last p1_def)
    have "denotes cs w p1 p2 (matches ns cs w c)" 
      by (rule emitsD [where gen = gen and k = c, OF _ p2]) (simp add: prems(1))
    note d1 = denotes_prefix [OF this] denotes_frag [OF this]
    then obtain body where body: "p2 = p1 @ body" by (auto elim: prefixE)
    define q where "q = p @ instr Op_eSplit (length p + 1) (length p2 + 1) # body @ [instr Op_eJump 0 0]"
    have q: "set_arg2 (p2 @ [instr Op_eJump 0 0]) (length p) (length p2 + 1) = q"
      by (simp add: q_def body p1_def set_arg2_mid)
    have lq: "length q = length p2 + 1" "length p1 = length p + 1" "length p < length p2"
      by (simp_all add: q_def body p1_def)
    from Cons.IH [of "jumps @ [length p2]" q] prems(1) r [unfolded q] c0 obtain js where js: "jumps' = jumps @ length p2 # js"
      and o: "opens fill1 cs w q p' js (\<lambda>i j. \<exists>c \<in> set (d # children). matches ns cs w c i j)"
      by auto
    have qp: "prefix q p'" and jsb: "\<And>j. j \<in> set js \<Longrightarrow> length q \<le> j \<and> j < length p'"
      using o by (auto simp: opens_def)
    have p'q: "p' ! k = q ! k" if "k < length q" for k using qp that by (rule prefix_nth)
    have notin: "k \<notin> set js" if "k < length q" for k using jsb that by force
    have nth: "q ! length p = instr Op_eSplit (length p + 1) (length p2 + 1)"
      "q ! length p2 = instr Op_eJump 0 0" "\<And>k. length p1 \<le> k \<Longrightarrow> k < length p2 \<Longrightarrow> q ! k = p2 ! k"
      by (auto simp: q_def body p1_def nth_append nth_Cons')
    have "opens fill1 cs w p p' (length p2 # js)
      (\<lambda>i j. \<exists>c \<in> set (c # d # children). matches ns cs w c i j)"
      unfolding opens_def
    proof (intro conjI allI impI)
      show "prefix p p'" using qp by (auto simp: q_def elim!: prefixE)
      show "\<forall>j \<in> set (length p2 # js). length p \<le> j \<and> j < length p'"
        using jsb lq prefix_len [OF qp] by fastforce
      fix P assume P: "length p' \<le> length P" "\<forall>k. length p \<le> k \<longrightarrow> k < length p' \<longrightarrow>
                P ! k = (if k \<in> set (length p2 # js) then fill1 (length p') (p' ! k) else p' ! k)"
      have "frag P cs w (length q) (length p') (\<lambda>i j. \<exists>c \<in> set (d # children). matches ns cs w c i j)"
        using P lq by (intro opens_frag [OF o]) auto
      moreover have "agrees P p2 (length p1) (length p2)"
        using P lq prefix_len [OF qp] by (auto simp: agrees_def p'q nth notin)
      then have "frag P cs w (length p + 1) (length p2) (matches ns cs w c)"
        using d1(2) lq by simp
      moreover have "P ! length p = instr Op_eSplit (length p + 1) (length p2 + 1)"
        "P ! length p2 = instr Op_eJump (length p') 0"
        using P lq prefix_len [OF qp] by (auto simp: p'q nth notin)
      ultimately have "frag P cs w (length p) (length p')
         (\<lambda>i j. matches ns cs w c i j \<or> (\<exists>c \<in> set (d # children). matches ns cs w c i j))"
        using lq(1) by (intro frag_choice) auto
      then show "frag P cs w (length p) (length p') (\<lambda>i j. \<exists>c \<in> set (c # d # children). matches ns cs w c i j)"
        by (rule frag_cong) auto
    qed
    then show ?thesis using c0 js by auto
  qed
qed simp

lemma compile_alternation_denotes:
  assumes "\<And>c. c \<in> set (nd_children node) \<Longrightarrow> emits cs w gen c (matches ns cs w c)"
    and "compile_alternation gen node p = Inr p'" and "nd_children node \<noteq> []"
  shows "denotes cs w p p' (\<lambda>i j. \<exists>c \<in> set (nd_children node). matches ns cs w c i j)"
proof -
  from assms(2) obtain js q where a: "alternation_arms gen (nd_children node) [] p = Inr (js, q)"
    and p': "p' = foldl (\<lambda>p jump. set_arg1 p jump (length p)) q js"
    by (auto simp: compile_alternation_def)
  from alternation_arms_opens [OF assms(1) a assms(3)]
  have o: "opens fill1 cs w p q js (\<lambda>i j. \<exists>c \<in> set (nd_children node). matches ns cs w c i j)" by simp
  then have "\<forall>j \<in> set js. j < length q" by (auto simp: opens_def)
  from foldl_set_arg1 [OF this] show ?thesis by (intro opens_denotes [OF o]) (simp_all add: p')
qed

subsection \<open>Repetition\<close>

lemma matches_times_relpowp: "matches_times ns cs w c n i j \<longleftrightarrow> (matches ns cs w c ^^ n) i j"
proof (induction n arbitrary: i)
  case 0
  then show ?case by (auto simp: matches_times_0)
next
  case (Suc n)
  then show ?case by (auto simp: matches_times_Suc relpowp_Suc_left simp del: relpowp.simps)
qed

lemma eq_relpowp: "((=) ^^ n) = (=)"
  by (induction n) (auto simp: fun_eq_iff)

text \<open>Code of length zero denotes the identity, so repeating it changes nothing.\<close>

lemma denotes_empty:
  assumes "denotes cs w p p' R" "length p' = length p"
  shows "p' = p \<and> R = (=)"
proof -
  have "prefix p p'" using assms(1) by (rule denotes_prefix)
  with assms(2) have p': "p' = p" by (auto elim!: prefixE)
  have "frag p cs w (length p) (length p) R"
    using denotes_frag [OF assms(1)] by (simp add: p' agrees_def)
  moreover have "frag_step p cs w (length p) (length p) = {}" by (auto simp: frag_step_def)
  ultimately show ?thesis by (auto simp: frag_def p' fun_eq_iff)
qed

lemma repeat_min_denotes:
  assumes "emits cs w gen c R" and "repeat_min gen c n p = Inr p'"
  shows "denotes cs w p p' (R ^^ n)"
  using assms(2)
proof (induction n arbitrary: p)
  case 0
  then show ?case by (auto intro!: denotes_cong [OF denotes_refl])
next
  case (Suc n)
  then obtain q where q: "gen c p = Inr q"
    and r: "(if length q = length p then Inr q else repeat_min gen c n q) = Inr p'" by auto
  note d = emitsD [OF assms(1) q]
  show ?case
  proof (cases "length q = length p")
    case True
    from denotes_empty [OF d True] r True have "p' = p" "R = (=)" by auto
    then show ?thesis by (simp add: eq_relpowp denotes_refl OO_eq)
  next
    case False
    with r have "denotes cs w q p' (R ^^ n)" by (intro Suc.IH) simp
    from denotes_trans [OF d this] show ?thesis
      by (rule denotes_cong) (simp only: relpowp.simps relpowp_commute)
  qed
qed

lemma repeat_optional_opens:
  assumes e: "emits cs w gen c R" and "repeat_optional gen c n splits p = Inr (splits', p')"
  shows "\<exists>js. splits' = splits @ js \<and> opens fill2 cs w p p' js (\<lambda>i j. \<exists>k \<le> n. (R ^^ k) i j)"
  using assms(2)
proof (induction n arbitrary: splits p)
  case 0
  then have "splits' = splits" "p' = p" by auto
  then show ?case by (auto simp: opens_def intro: frag_cong [OF frag_empty])
next
  case (Suc n)
  define p1 where "p1 = p @ [instr Op_eSplit (length p + 1) 0]"
  from Suc.prems obtain q where q: "gen c p1 = Inr q"
    and r: "repeat_optional gen c n (splits @ [length p]) q = Inr (splits', p')"
    by (auto simp: emit_Inr set_arg1_last p1_def)
  from Suc.IH [OF r] obtain js where js: "splits' = splits @ length p # js"
    and o: "opens fill2 cs w q p' js (\<lambda>i j. \<exists>k \<le> n. (R ^^ k) i j)" by auto
  have d: "denotes cs w p1 q R" by (rule emitsD [OF e q])
  have pq: "prefix p1 q" using d by (rule denotes_prefix)
  have qp: "prefix q p'" and jsb: "\<And>j. j \<in> set js \<Longrightarrow> length q \<le> j \<and> j < length p'"
    using o by (auto simp: opens_def)
  have l1: "length p1 = length p + 1" by (simp add: p1_def)
  note len = l1 prefix_len [OF pq] prefix_len [OF qp]
  have p'q: "p' ! k = q ! k" if "k < length q" for k using qp that by (rule prefix_nth)
  have notin: "k \<notin> set js" if "k < length q" for k using jsb that by force
  have qs: "q ! length p = instr Op_eSplit (length p + 1) 0"
    using prefix_nth [OF pq, of "length p"] by (simp add: p1_def)
  have "opens fill2 cs w p p' (length p # js) (\<lambda>i j. \<exists>k \<le> Suc n. (R ^^ k) i j)"
    unfolding opens_def
  proof (intro conjI allI impI)
    have "prefix p p1" by (simp add: p1_def)
    with pq qp show "prefix p p'" by (meson prefix_order.trans)
    show "\<forall>j \<in> set (length p # js). length p \<le> j \<and> j < length p'"
      using jsb len by fastforce
    fix P assume P: "length p' \<le> length P" "\<forall>k. length p \<le> k \<longrightarrow> k < length p' \<longrightarrow>
              P ! k = (if k \<in> set (length p # js) then fill2 (length p') (p' ! k) else p' ! k)"
    have "frag P cs w (length q) (length p') (\<lambda>i j. \<exists>k \<le> n. (R ^^ k) i j)"
      using P len by (intro opens_frag [OF o]) auto
    moreover have "agrees P q (length p1) (length q)"
      using P len by (auto simp: agrees_def p'q notin)
    then have "frag P cs w (length p + 1) (length q) R"
      using denotes_frag [OF d] l1 by simp
    ultimately have "frag P cs w (length p + 1) (length p') (R OO (\<lambda>i j. \<exists>k \<le> n. (R ^^ k) i j))"
      by (rule frag_seq [rotated])
    moreover have "P ! length p = instr Op_eSplit (length p + 1) (length p')" "length p < length P"
      using P len by (auto simp: p'q qs notin)
    ultimately have "frag P cs w (length p) (length p')
       (\<lambda>i j. j = i \<or> (R OO (\<lambda>i j. \<exists>k \<le> n. (R ^^ k) i j)) i j)"
      by (intro frag_skip)
    then show "frag P cs w (length p) (length p') (\<lambda>i j. \<exists>k \<le> Suc n. (R ^^ k) i j)"
    proof (rule frag_cong)
      fix i j
      have "(\<exists>k \<le> Suc n. (R ^^ k) i j) \<longleftrightarrow> (R ^^ 0) i j \<or> (\<exists>k \<le> n. (R ^^ Suc k) i j)"
        by (metis le_SucE Suc_le_mono not0_implies_Suc zero_le)
      then show "(j = i \<or> (R OO (\<lambda>i j. \<exists>k \<le> n. (R ^^ k) i j)) i j) = (\<exists>k \<le> Suc n. (R ^^ k) i j)"
        by (auto simp: relpowp_Suc_left simp del: relpowp.simps(2))
    qed
  qed
  with js show ?case by auto
qed

lemma relpowp_add_OO: "R ^^ (m + n) = (R ^^ m) OO (R ^^ n)"
  by (rule relpowp_add)

lemma compile_repeat_denotes:
  assumes e: "emits cs w gen c R" and ch: "nd_children node = [c]"
    and mm: "\<forall>m. nd_max node = Some m \<longrightarrow> nd_min node \<le> m"
    and g: "compile_repeat gen node p = Inr p'"
  shows "denotes cs w p p' (\<lambda>i j. \<exists>n \<ge> nd_min node. (\<forall>m. nd_max node = Some m \<longrightarrow> n \<le> m) \<and> (R ^^ n) i j)"
proof -
  from g obtain p1 where p1: "repeat_min gen c (nd_min node) p = Inr p1" by (auto simp: compile_repeat_def ch)
  note d1 = repeat_min_denotes [OF e p1]
  show ?thesis
  proof (cases "nd_max node")
    case None
    define p2 where "p2 = p1 @ [instr Op_eSplit (length p1 + 1) 0]"
    from g p1 None obtain p3 where p3: "gen c p2 = Inr p3"
      and p': "p' = set_arg2 (p3 @ [instr Op_eJump (length p1) 0]) (length p1) (length p3 + 1)"
      by (auto simp: compile_repeat_def ch emit_Inr set_arg1_last p2_def)
    note d = emitsD [OF e p3]
    obtain body where body: "p3 = p2 @ body" using denotes_prefix [OF d] by (auto elim: prefixE)
    have p'': "p' = p1 @ instr Op_eSplit (length p1 + 1) (length p3 + 1) # body @ [instr Op_eJump (length p1) 0]"
      by (simp add: p' body p2_def set_arg2_mid)
    have len: "length p' = length p3 + 1" "length p2 = length p1 + 1" "length p1 < length p3"
      by (simp_all add: p'' body p2_def)
    have "denotes cs w p1 p' R\<^sup>*\<^sup>*"
      unfolding denotes_def
    proof (intro conjI allI impI)
      show "prefix p1 p'" by (simp add: p'')
      fix P assume P: "agrees P p' (length p1) (length p')"
      have "agrees P p3 (length p2) (length p3)"
        using P len by (auto simp: agrees_def p'' body p2_def nth_append nth_Cons')
      then have "frag P cs w (length p1 + 1) (length p3) R" using denotes_frag [OF d] len by simp
      moreover have "P ! length p1 = instr Op_eSplit (length p1 + 1) (length p3 + 1)"
        "P ! length p3 = instr Op_eJump (length p1) 0" "length p3 < length P"
        using P by (auto simp: agrees_def p'' body p2_def nth_append)
      ultimately show "frag P cs w (length p1) (length p') R\<^sup>*\<^sup>*"
        using frag_loop [of P "length p1" "length p3" cs w R] by (simp add: len)
    qed
    from denotes_trans [OF d1 this] show ?thesis
    proof (rule denotes_cong)
      fix i j
      have "(\<exists>n \<ge> nd_min node. (R ^^ n) i j) \<longleftrightarrow> (\<exists>k. (R ^^ (nd_min node + k)) i j)"
        by (metis le_add1 le_iff_add)
      then show "((R ^^ nd_min node) OO R\<^sup>*\<^sup>*) i j =
        (\<exists>n \<ge> nd_min node. (\<forall>m. nd_max node = Some m \<longrightarrow> n \<le> m) \<and> (R ^^ n) i j)"
        by (auto simp: None relpowp_add rtranclp_is_Sup_relpowp)
    qed
  next
    case (Some m)
    from g p1 Some obtain js p2 where o: "repeat_optional gen c (m - nd_min node) [] p1 = Inr (js, p2)"
      and p': "p' = foldl (\<lambda>p split. set_arg2 p split (length p)) p2 js"
      by (auto simp: compile_repeat_def ch)
    from repeat_optional_opens [OF e o]
    have op: "opens fill2 cs w p1 p2 js (\<lambda>i j. \<exists>k \<le> m - nd_min node. (R ^^ k) i j)" by simp
    then have "\<forall>j \<in> set js. j < length p2" by (auto simp: opens_def)
    from foldl_set_arg2 [OF this]
    have "denotes cs w p1 p' (\<lambda>i j. \<exists>k \<le> m - nd_min node. (R ^^ k) i j)"
      by (intro opens_denotes [OF op]) (simp_all add: p')
    from denotes_trans [OF d1 this] show ?thesis
    proof (rule denotes_cong)
      fix i j
      have "(\<exists>n \<ge> nd_min node. n \<le> m \<and> (R ^^ n) i j) \<longleftrightarrow> (\<exists>k \<le> m - nd_min node. (R ^^ (nd_min node + k)) i j)"
        using mm Some by (metis le_add1 le_iff_add nat_add_left_cancel_le le_add_diff_inverse)
      then show "((R ^^ nd_min node) OO (\<lambda>i j. \<exists>k \<le> m - nd_min node. (R ^^ k) i j)) i j =
        (\<exists>n \<ge> nd_min node. (\<forall>m. nd_max node = Some m \<longrightarrow> n \<le> m) \<and> (R ^^ n) i j)"
        by (auto simp: Some relpowp_add)
    qed
  qed
qed

subsection \<open>The compiler is correct\<close>

lemma matches_seq_cong_compile:
  "table_ok ns cs \<Longrightarrow> k < length ns \<Longrightarrow> node_ok (length cs) k (ns ! k)"
  by (simp add: table_ok_def)

lemma matches_repeat_iff:
  assumes "k < length ns" "nd_kind (ns ! k) = Kind_eRepeat" "nd_children (ns ! k) = [c]"
  shows "matches ns cs w k i j \<longleftrightarrow>
    (\<exists>n \<ge> nd_min (ns ! k). (\<forall>m. nd_max (ns ! k) = Some m \<longrightarrow> n \<le> m) \<and> (matches ns cs w c ^^ n) i j)"
  using assms by (subst matches_iff) (auto simp: matches_times_relpowp)

lemma compile_emits:
  assumes "table_ok ns cs"
  shows "k < length ns \<Longrightarrow> emits cs w (compile fuel ns) k (matches ns cs w k)"
proof (induction fuel arbitrary: k)
  case 0
  then show ?case by (simp add: emits_def)
next
  case (Suc fuel)
  have ok: "node_ok (length cs) k (ns ! k)" using assms Suc.prems by (simp add: table_ok_def)
  show ?case
    unfolding emits_def
  proof (intro allI impI)
    fix p p' assume c: "compile (Suc fuel) ns k p = Inr p'"
    show "denotes cs w p p' (matches ns cs w k)"
    proof (cases "nd_kind (ns ! k)")
      case Kind_eEmpty
      with c have "p' = p" by simp
      with denotes_refl show ?thesis
        by (auto intro!: denotes_cong [OF denotes_refl] simp: matches_iff [of _ _ _ k] Kind_eEmpty Suc.prems)
    next
      case Kind_eChar
      with c have "emit1 p (instr Op_eChar (nd_code_point (ns ! k)) 0) = Inr p'" by simp
      from emit1_denotes [OF this] show ?thesis
        by (rule denotes_cong) (auto simp: matches_iff [of _ _ _ k] Kind_eChar Suc.prems assertion_holds_def consumes_def)
    next
      case Kind_eAny
      with c have "emit1 p (instr Op_eAny 0 0) = Inr p'" by simp
      from emit1_denotes [OF this] show ?thesis
        by (rule denotes_cong) (auto simp: matches_iff [of _ _ _ k] Kind_eAny Suc.prems assertion_holds_def consumes_def)
    next
      case Kind_eClass
      with ok assms have can: "canonical (cs ! nd_class_index (ns ! k))"
        by (simp add: node_ok_def table_ok_def)
      from Kind_eClass c have "emit1 p (instr Op_eClass (nd_class_index (ns ! k)) 0) = Inr p'" by simp
      from emit1_denotes [OF this] show ?thesis
        by (rule denotes_cong) (auto simp: matches_iff [of _ _ _ k] Kind_eClass Suc.prems assertion_holds_def
            consumes_def contains_canonical [OF can])
    next
      case Kind_eAssertion
      with c have e: "emit1 p (instr (nd_assertion (ns ! k)) 0 0) = Inr p'" by simp
      from ok Kind_eAssertion have a: "nd_assertion (ns ! k)
         \<in> {Op_eInputStart, Op_eInputEnd, Op_eWordBoundary, Op_eNotWordBoundary}"
        by (simp add: node_ok_def)
      then have "i_op (instr (nd_assertion (ns ! k)) 0 0) \<notin> {Op_eJump, Op_eSplit, Op_eMatch}" by auto
      from emit1_denotes [OF e this] show ?thesis
        by (rule denotes_cong) (use a in \<open>auto simp: matches_iff [of _ _ _ k] Kind_eAssertion Suc.prems consumes_def\<close>)
    next
      case Kind_eConcat
      with ok Suc.prems have "\<And>c. c \<in> set (nd_children (ns ! k)) \<Longrightarrow> emits cs w (compile fuel ns) c (matches ns cs w c)"
        by (intro Suc.IH) (auto simp: node_ok_def)
      from compile_children_denotes [OF this] c Kind_eConcat
      have "denotes cs w p p' (matches_seq ns cs w (nd_children (ns ! k)))" by simp
      then show ?thesis
        by (rule denotes_cong) (simp add: matches_iff [of _ _ _ k] Kind_eConcat Suc.prems)
    next
      case Kind_eAlternation
      with ok Suc.prems have "\<And>c. c \<in> set (nd_children (ns ! k)) \<Longrightarrow> emits cs w (compile fuel ns) c (matches ns cs w c)"
        by (intro Suc.IH) (auto simp: node_ok_def)
      from compile_alternation_denotes [OF this] c Kind_eAlternation ok
      have "denotes cs w p p' (\<lambda>i j. \<exists>c \<in> set (nd_children (ns ! k)). matches ns cs w c i j)"
        by (simp add: node_ok_def)
      then show ?thesis
        by (rule denotes_cong) (auto simp: matches_iff [of _ _ _ k] Kind_eAlternation Suc.prems)
    next
      case Kind_eRepeat
      with ok obtain d where d: "nd_children (ns ! k) = [d]" "d < k"
        and mm: "\<forall>m. nd_max (ns ! k) = Some m \<longrightarrow> nd_min (ns ! k) \<le> m"
        by (auto simp: node_ok_def)
      have "emits cs w (compile fuel ns) d (matches ns cs w d)" using d Suc.prems by (intro Suc.IH) auto
      from compile_repeat_denotes [OF this d(1) mm] c Kind_eRepeat show ?thesis
        by (intro denotes_cong [OF _ matches_repeat_iff [OF Suc.prems Kind_eRepeat d(1), symmetric]]) simp
    qed
  qed
qed

subsection \<open>The compiler always returns, and what its programs contain\<close>

text \<open>No class index out of range, and never more than \<open>max_program_size\<close> instructions.\<close>

definition ins_ok :: "nat \<Rightarrow> Instruction \<Rightarrow> bool" where
  "ins_ok nc ins \<longleftrightarrow> (i_op ins = Op_eClass \<longrightarrow> i_arg1 ins < nc)"

definition prog_ok :: "nat \<Rightarrow> Instruction list \<Rightarrow> bool" where
  "prog_ok nc p \<longleftrightarrow> length p \<le> max_program_size \<and> (\<forall>ins \<in> set p. ins_ok nc ins)"

definition well_behaved :: "nat \<Rightarrow> emitter \<Rightarrow> nat \<Rightarrow> bool" where
  "well_behaved nc gen k \<longleftrightarrow> (\<forall>p. gen k p \<noteq> Inl OutOfFuel
     \<and> (\<forall>p'. gen k p = Inr p' \<longrightarrow> prefix p p' \<and> (prog_ok nc p \<longrightarrow> prog_ok nc p')))"

lemma well_behavedD:
  assumes "well_behaved nc gen k" "gen k p = Inr p'"
  shows "prefix p p'" "prog_ok nc p \<Longrightarrow> prog_ok nc p'"
  using assms by (auto simp: well_behaved_def)

lemma well_behaved_fuel: "well_behaved nc gen k \<Longrightarrow> gen k p \<noteq> Inl OutOfFuel"
  by (simp add: well_behaved_def)

lemma emit_fuel: "emit p ins \<noteq> Inl OutOfFuel"
  by (simp add: emit_def)

lemma prog_ok_snoc: "prog_ok nc p \<Longrightarrow> length p < max_program_size \<Longrightarrow> ins_ok nc ins \<Longrightarrow> prog_ok nc (p @ [ins])"
  by (auto simp: prog_ok_def)

lemma prog_ok_set_arg2: "prog_ok nc p \<Longrightarrow> k < length p \<Longrightarrow> prog_ok nc (set_arg2 p k v)"
proof -
  assume p: "prog_ok nc p" "k < length p"
  then have "ins_ok nc (p ! k)" by (simp add: prog_ok_def)
  then have "ins_ok nc ((p ! k)\<lparr>i_arg2 := v\<rparr>)" by (simp add: ins_ok_def)
  with p show ?thesis by (auto simp: prog_ok_def set_arg2_def dest!: set_update_subset_insert [THEN subsetD])
qed

lemma prog_ok_set_arg1:
  assumes "prog_ok nc p" "k < length p" "i_op (p ! k) \<noteq> Op_eClass"
  shows "prog_ok nc (set_arg1 p k v)"
proof -
  have "ins_ok nc ((p ! k)\<lparr>i_arg1 := v\<rparr>)" using assms by (simp add: ins_ok_def)
  with assms show ?thesis by (auto simp: prog_ok_def set_arg1_def dest!: set_update_subset_insert [THEN subsetD])
qed

lemma compile_children_well_behaved:
  assumes "\<And>c. c \<in> set children \<Longrightarrow> well_behaved nc gen c"
  shows "compile_children gen children p \<noteq> Inl OutOfFuel"
    and "compile_children gen children p = Inr p' \<Longrightarrow> prefix p p' \<and> (prog_ok nc p \<longrightarrow> prog_ok nc p')"
  using assms
proof (induction children arbitrary: p)
  case (Cons c children)
  case 1
  then have "gen c p \<noteq> Inl OutOfFuel" by (intro well_behaved_fuel) auto
  with 1 Cons.IH(1) show ?case by (auto simp: bindE_Inl)
next
  case (Cons c children)
  case 2
  then obtain q where q: "gen c p = Inr q" "compile_children gen children q = Inr p'" by auto
  with 2 have "prefix p q \<and> (prog_ok nc p \<longrightarrow> prog_ok nc q)" by (auto dest: well_behavedD)
  moreover have "prefix q p' \<and> (prog_ok nc q \<longrightarrow> prog_ok nc p')" using Cons.IH(2) q 2 by auto
  ultimately show ?case by (blast intro: prefix_order.trans)
qed auto

text \<open>The indices collected for patching are jumps (splits) of the program.\<close>

definition holes :: "Op \<Rightarrow> nat list \<Rightarrow> Instruction list \<Rightarrow> bool" where
  "holes op js p \<longleftrightarrow> (\<forall>j \<in> set js. j < length p \<and> i_op (p ! j) = op)"

lemma holes_prefix: "holes op js p \<Longrightarrow> prefix p q \<Longrightarrow> holes op js q"
  by (auto simp: holes_def prefix_nth dest!: prefix_len)

lemma holes_set: "holes op js p \<Longrightarrow> holes op js (set_arg1 p k v) \<and> holes op js (set_arg2 p k v)"
proof -
  have "i_op (set_arg1 p k v ! j) = i_op (p ! j) \<and> i_op (set_arg2 p k v ! j) = i_op (p ! j)" if "j < length p" for j
    using that by (cases "k = j") (simp_all add: set_arg1_def set_arg2_def)
  then show "holes op js p \<Longrightarrow> holes op js (set_arg1 p k v) \<and> holes op js (set_arg2 p k v)"
    by (simp add: holes_def set_arg1_def set_arg2_def)
qed

lemma alternation_arms_well_behaved:
  assumes "\<And>c. c \<in> set children \<Longrightarrow> well_behaved nc gen c"
  shows "alternation_arms gen children js p \<noteq> Inl OutOfFuel
    \<and> (\<forall>js' p'. alternation_arms gen children js p = Inr (js', p') \<longrightarrow> holes Op_eJump js p \<longrightarrow> prog_ok nc p \<longrightarrow>
        holes Op_eJump js' p' \<and> prog_ok nc p')"
  using assms
proof (induction children arbitrary: js p)
  case (Cons c children)
  have wb: "well_behaved nc gen c" using Cons.prems by simp
  note fuel = well_behaved_fuel [OF wb] emit_fuel
  show ?case
  proof (cases children)
    case Nil
    with fuel show ?thesis by (auto simp: bindE_Inl dest: well_behavedD [OF wb] intro: holes_prefix)
  next
    case c0: (Cons d ds)
    note IH = Cons.IH [OF Cons.prems, unfolded c0, simplified]
    have "alternation_arms gen (d # ds) (js @ [jump]) q \<noteq> Inl OutOfFuel" for jump q
      using Cons.IH Cons.prems c0 by auto
    with fuel have 1: "alternation_arms gen (c # d # ds) js p \<noteq> Inl OutOfFuel"
      by (auto simp: bindE_Inl split: prod.splits)
    have "holes Op_eJump js' p' \<and> prog_ok nc p'"
      if r: "alternation_arms gen (c # d # ds) js p = Inr (js', p')" and h: "holes Op_eJump js p" and pk: "prog_ok nc p"
      for js' p'
    proof -
      define p1 where "p1 = p @ [instr Op_eSplit (length p + 1) 0]"
      from r obtain p2 where lt: "length p < max_program_size" "length p2 < max_program_size"
        and p2: "gen c p1 = Inr p2"
        and r': "alternation_arms gen (d # ds) (js @ [length p2])
          (set_arg2 (p2 @ [instr Op_eJump 0 0]) (length p) (length p2 + 1)) = Inr (js', p')"
        by (auto simp: emit_Inr set_arg1_last p1_def)
      define p3 where "p3 = p2 @ [instr Op_eJump 0 0]"
      have "prog_ok nc p1" using pk lt by (simp add: p1_def prog_ok_snoc ins_ok_def)
      then have "prog_ok nc p2" by (rule well_behavedD(2) [OF wb p2])
      then have p3k: "prog_ok nc p3" using lt by (simp add: p3_def prog_ok_snoc ins_ok_def)
      have pre: "prefix p1 p2" by (rule well_behavedD(1) [OF wb p2])
      then have "prefix p p3" by (auto simp: p3_def p1_def elim!: prefixE)
      then have "holes Op_eJump js p3" using h by (rule holes_prefix [rotated])
      then have "holes Op_eJump (js @ [length p2]) p3" by (auto simp: holes_def p3_def)
      then have "holes Op_eJump (js @ [length p2]) (set_arg2 p3 (length p) (length p2 + 1))"
        by (simp add: holes_set)
      moreover have "prog_ok nc (set_arg2 p3 (length p) (length p2 + 1))"
        using p3k prefix_len [OF pre] by (intro prog_ok_set_arg2) (auto simp: p3_def p1_def)
      ultimately show ?thesis
        using Cons.IH [of "js @ [length p2]" "set_arg2 p3 (length p) (length p2 + 1)"] Cons.prems r' c0
        by (simp add: p3_def)
    qed
    with 1 c0 show ?thesis by simp
  qed
qed auto

lemma fill_holes_ok:
  assumes "holes op js p" "op \<noteq> Op_eClass" "prog_ok nc p"
  shows "prog_ok nc (foldl (\<lambda>p k. set_arg1 p k (length p)) p js)"
    and "prog_ok nc (foldl (\<lambda>p k. set_arg2 p k (length p)) p js)"
proof -
  let ?I = "\<lambda>p. holes op js p \<and> prog_ok nc p"
  have k: "k < length q \<and> i_op (q ! k) = op" if "?I q" "k \<in> set js" for k q using that by (simp add: holes_def)
  have "?I (foldl (\<lambda>p k. set_arg1 p k (length p)) p js)"
    by (rule foldl_invariant [where P = ?I])
      (use assms k in \<open>simp_all add: holes_set prog_ok_set_arg1\<close>)
  then show "prog_ok nc (foldl (\<lambda>p k. set_arg1 p k (length p)) p js)" by simp
  have "?I (foldl (\<lambda>p k. set_arg2 p k (length p)) p js)"
    by (rule foldl_invariant [where P = ?I])
      (use assms k in \<open>simp_all add: holes_set prog_ok_set_arg2\<close>)
  then show "prog_ok nc (foldl (\<lambda>p k. set_arg2 p k (length p)) p js)" by simp
qed

lemma repeat_min_well_behaved:
  assumes "well_behaved nc gen c"
  shows "repeat_min gen c n p \<noteq> Inl OutOfFuel
    \<and> (\<forall>p'. repeat_min gen c n p = Inr p' \<longrightarrow> prog_ok nc p \<longrightarrow> prog_ok nc p')"
  using assms
  by (induction n arbitrary: p) (auto simp: bindE_Inl well_behaved_fuel dest: well_behavedD split: if_splits)

lemma repeat_optional_well_behaved:
  assumes "well_behaved nc gen c"
  shows "repeat_optional gen c n js p \<noteq> Inl OutOfFuel
    \<and> (\<forall>js' p'. repeat_optional gen c n js p = Inr (js', p') \<longrightarrow> holes Op_eSplit js p \<longrightarrow> prog_ok nc p
        \<longrightarrow> holes Op_eSplit js' p' \<and> prog_ok nc p')"
proof (induction n arbitrary: js p)
  case (Suc n)
  note fuel = well_behaved_fuel [OF assms] emit_fuel
  have 1: "repeat_optional gen c (Suc n) js p \<noteq> Inl OutOfFuel"
    using fuel Suc.IH by (auto simp: bindE_Inl split: prod.splits)
  have "holes Op_eSplit js' p' \<and> prog_ok nc p'"
    if r: "repeat_optional gen c (Suc n) js p = Inr (js', p')" and h: "holes Op_eSplit js p" and pk: "prog_ok nc p"
    for js' p'
  proof -
    define p1 where "p1 = p @ [instr Op_eSplit (length p + 1) 0]"
    from r obtain q where lt: "length p < max_program_size" and q: "gen c p1 = Inr q"
      and r': "repeat_optional gen c n (js @ [length p]) q = Inr (js', p')"
      by (auto simp: emit_Inr set_arg1_last p1_def)
    have "prog_ok nc p1" using pk lt by (simp add: p1_def prog_ok_snoc ins_ok_def)
    then have "prog_ok nc q" by (rule well_behavedD(2) [OF assms q])
    moreover have "holes Op_eSplit (js @ [length p]) p1" using h by (auto simp: holes_def p1_def nth_append)
    then have "holes Op_eSplit (js @ [length p]) q" by (rule holes_prefix) (rule well_behavedD(1) [OF assms q])
    ultimately show ?thesis using Suc.IH r' by blast
  qed
  with 1 show ?case by simp
qed simp

lemma compile_repeat_well_behaved:
  assumes wb: "well_behaved nc gen c" and ch: "nd_children node = [c]"
  shows "compile_repeat gen node p \<noteq> Inl OutOfFuel
    \<and> (\<forall>p'. compile_repeat gen node p = Inr p' \<longrightarrow> prog_ok nc p \<longrightarrow> prog_ok nc p')"
proof -
  note fuel = well_behaved_fuel [OF wb] emit_fuel conjunct1 [OF repeat_min_well_behaved [OF wb]]
    conjunct1 [OF repeat_optional_well_behaved [OF wb]]
  have 1: "compile_repeat gen node p \<noteq> Inl OutOfFuel"
    using fuel by (auto simp: compile_repeat_def ch bindE_Inl split: prod.splits option.splits)
  have "prog_ok nc p'" if r: "compile_repeat gen node p = Inr p'" and pk: "prog_ok nc p" for p'
  proof -
    from r obtain p1 where p1: "repeat_min gen c (nd_min node) p = Inr p1" by (auto simp: compile_repeat_def ch)
    with pk have p1k: "prog_ok nc p1" using repeat_min_well_behaved [OF wb] by blast
    show ?thesis
    proof (cases "nd_max node")
      case None
      define p2 where "p2 = p1 @ [instr Op_eSplit (length p1 + 1) 0]"
      from r p1 None obtain p3 where p3: "gen c p2 = Inr p3"
        and lt: "length p1 < max_program_size" "length p3 < max_program_size"
        and p': "p' = set_arg2 (p3 @ [instr Op_eJump (length p1) 0]) (length p1) (length p3 + 1)"
        by (auto simp: compile_repeat_def ch emit_Inr set_arg1_last p2_def)
      have "prog_ok nc p2" using p1k lt by (simp add: p2_def prog_ok_snoc ins_ok_def)
      then have "prog_ok nc p3" by (rule well_behavedD(2) [OF wb p3])
      then have "prog_ok nc (p3 @ [instr Op_eJump (length p1) 0])" using lt by (simp add: prog_ok_snoc ins_ok_def)
      then show ?thesis
        using prefix_len [OF well_behavedD(1) [OF wb p3]]
        by (auto simp: p' p2_def intro!: prog_ok_set_arg2)
    next
      case (Some m)
      from r p1 Some obtain js p2 where o: "repeat_optional gen c (m - nd_min node) [] p1 = Inr (js, p2)"
        and p': "p' = foldl (\<lambda>p split. set_arg2 p split (length p)) p2 js"
        by (auto simp: compile_repeat_def ch)
      have "holes Op_eSplit [] p1" by (simp add: holes_def)
      with o p1k have "holes Op_eSplit js p2 \<and> prog_ok nc p2"
        using repeat_optional_well_behaved [OF wb] by blast
      then show ?thesis by (auto simp: p' intro: fill_holes_ok(2))
    qed
  qed
  with 1 show ?thesis by blast
qed

lemma compile_alternation_well_behaved:
  assumes wb: "\<And>c. c \<in> set (nd_children node) \<Longrightarrow> well_behaved nc gen c"
  shows "compile_alternation gen node p \<noteq> Inl OutOfFuel
    \<and> (\<forall>p'. compile_alternation gen node p = Inr p' \<longrightarrow> prog_ok nc p \<longrightarrow> prog_ok nc p')"
proof -
  note a = alternation_arms_well_behaved [of "nd_children node" nc gen "[]" p, OF wb]
  have "holes Op_eJump [] p" by (simp add: holes_def)
  with a show ?thesis
    by (auto simp: compile_alternation_def bindE_Inl intro!: fill_holes_ok(1))
qed

lemma compile_well_behaved:
  assumes "table_ok ns cs"
  shows "k < length ns \<Longrightarrow> k < fuel \<Longrightarrow> well_behaved (length cs) (compile fuel ns) k"
proof (induction fuel arbitrary: k)
  case (Suc fuel)
  have ok: "node_ok (length cs) k (ns ! k)" using assms Suc.prems by (simp add: table_ok_def)
  have IH: "well_behaved (length cs) (compile fuel ns) c" if "c < k" for c
    using that Suc.prems by (intro Suc.IH) auto
  have pre: "prefix p p'" if "compile (Suc fuel) ns k p = Inr p'" for p p'
    using that emitsD [OF compile_emits [OF assms Suc.prems(1)]] by (blast intro: denotes_prefix)
  have "compile (Suc fuel) ns k p \<noteq> Inl OutOfFuel
      \<and> (\<forall>p'. compile (Suc fuel) ns k p = Inr p' \<longrightarrow> prog_ok (length cs) p \<longrightarrow> prog_ok (length cs) p')" for p
  proof (cases "nd_kind (ns ! k)")
    case Kind_eConcat
    with ok IH have "\<And>c. c \<in> set (nd_children (ns ! k)) \<Longrightarrow> well_behaved (length cs) (compile fuel ns) c"
      by (auto simp: node_ok_def)
    from compile_children_well_behaved [OF this] Kind_eConcat show ?thesis by simp
  next
    case Kind_eAlternation
    with ok IH have "\<And>c. c \<in> set (nd_children (ns ! k)) \<Longrightarrow> well_behaved (length cs) (compile fuel ns) c"
      by (auto simp: node_ok_def)
    from compile_alternation_well_behaved [OF this] Kind_eAlternation show ?thesis by simp
  next
    case Kind_eRepeat
    with ok obtain d where "nd_children (ns ! k) = [d]" "d < k" by (auto simp: node_ok_def)
    with compile_repeat_well_behaved [OF IH] Kind_eRepeat show ?thesis by simp
  qed (use ok in \<open>auto simp: emit1_def bindE_Inl emit_fuel emit_Inr ins_ok_def node_ok_def intro!: prog_ok_snoc\<close>)
  with pre show ?case by (auto simp: well_behaved_def)
qed simp

text \<open>Fuel beyond the node index is enough, whatever the program so far.\<close>

lemma compile_not_out_of_fuel:
  "table_ok ns cs \<Longrightarrow> k < length ns \<Longrightarrow> k < fuel \<Longrightarrow> compile fuel ns k p \<noteq> Inl OutOfFuel"
  by (rule well_behaved_fuel [OF compile_well_behaved])


end
