(* ===== verification/SparseSet.thy ===== *)
theory SparseSet
  imports RegexCompiler
begin

text \<open>
  The thread list of the regular expression machine (\<open>ThreadList\<close> of src/core/regex.cpp): a
  sparse set of program counters with constant-time insert, membership and clear. Vectors are
  lists, and an access outside a vector is the value \<open>None\<close>, so that its absence can be
  proved. The locale \<open>thread_set\<close> is the interface the search relies on; the sparse set
  provides it.
\<close>

record ThreadList =
  tl_dense :: "nat list"
  tl_sparse :: "nat list"
  tl_count :: nat

definition new_thread_list :: "nat \<Rightarrow> ThreadList" where
  "new_thread_list n = \<lparr>tl_dense = replicate n 0, tl_sparse = replicate n 0, tl_count = 0\<rparr>"

text \<open>\<open>at_index xs i\<close> is \<open>xs[i]\<close>, undefined behaviour made explicit.\<close>

definition at_index :: "'a list \<Rightarrow> nat \<Rightarrow> 'a option" where
  "at_index xs i = (if i < length xs then Some (xs ! i) else None)"

definition tl_contains :: "ThreadList \<Rightarrow> nat \<Rightarrow> bool option" where
  "tl_contains l pc =
     Option.bind (at_index (tl_sparse l) pc) (\<lambda>slot.
       if slot < tl_count l
       then Option.bind (at_index (tl_dense l) slot) (\<lambda>d. Some (d = pc))
       else Some False)"

definition tl_insert :: "ThreadList \<Rightarrow> nat \<Rightarrow> ThreadList option" where
  "tl_insert l pc =
     (if pc < length (tl_sparse l) \<and> tl_count l < length (tl_dense l)
      then Some (l\<lparr>tl_sparse := (tl_sparse l)[pc := tl_count l],
                   tl_dense := (tl_dense l)[tl_count l := pc], tl_count := tl_count l + 1\<rparr>)
      else None)"

definition tl_clear :: "ThreadList \<Rightarrow> ThreadList" where
  "tl_clear l = l\<lparr>tl_count := 0\<rparr>"

definition tl_nth :: "ThreadList \<Rightarrow> nat \<Rightarrow> nat option" where
  "tl_nth l i = at_index (tl_dense l) i"

subsection \<open>The interface\<close>

text \<open>
  A set of numbers below \<open>capacity l\<close>. Membership is defined for every such number, inserting
  a new one never runs out of room, and positions below the size enumerate the elements.
\<close>

locale thread_set =
  fixes member :: "'l \<Rightarrow> nat \<Rightarrow> bool option"
    and ins :: "'l \<Rightarrow> nat \<Rightarrow> 'l option"
    and clear :: "'l \<Rightarrow> 'l"
    and nth_elem :: "'l \<Rightarrow> nat \<Rightarrow> nat option"
    and size_of :: "'l \<Rightarrow> nat"
    and capacity :: "'l \<Rightarrow> nat"
    and elems :: "'l \<Rightarrow> nat set"
    and invar :: "'l \<Rightarrow> bool"
  assumes member_law: "invar l \<Longrightarrow> pc < capacity l \<Longrightarrow> member l pc = Some (pc \<in> elems l)"
    and insert_law: "invar l \<Longrightarrow> pc < capacity l \<Longrightarrow> pc \<notin> elems l \<Longrightarrow>
      \<exists>l'. ins l pc = Some l' \<and> invar l' \<and> elems l' = insert pc (elems l) \<and> capacity l' = capacity l"
    and clear_law: "invar l \<Longrightarrow> invar (clear l) \<and> elems (clear l) = {} \<and> capacity (clear l) = capacity l"
    and nth_law: "invar l \<Longrightarrow> i < size_of l \<Longrightarrow> \<exists>pc. nth_elem l i = Some pc"
    and elems_law: "invar l \<Longrightarrow> elems l = {pc. \<exists>i < size_of l. nth_elem l i = Some pc}"
    and elems_below: "invar l \<Longrightarrow> elems l \<subseteq> {..< capacity l}"
    and size_law: "invar l \<Longrightarrow> size_of l = card (elems l)"
begin

lemma size_le_capacity: "invar l \<Longrightarrow> size_of l \<le> capacity l"
  using card_mono [OF _ elems_below] by (simp add: size_law)

lemma size_0_iff: "invar l \<Longrightarrow> size_of l = 0 \<longleftrightarrow> elems l = {}"
  using finite_subset [OF elems_below] by (simp add: size_law)

text \<open>Test, then insert when absent: the step of every client.\<close>

lemma visit:
  assumes "invar l" "pc < capacity l"
  shows "member l pc = Some True \<and> pc \<in> elems l
    \<or> (\<exists>l'. member l pc = Some False \<and> ins l pc = Some l' \<and> pc \<notin> elems l \<and> invar l'
          \<and> elems l' = insert pc (elems l) \<and> capacity l' = capacity l)"
  using member_law [OF assms] insert_law [OF assms] by (cases "pc \<in> elems l") auto

end

subsection \<open>The sparse set provides it\<close>

text \<open>Only the slots below \<open>count_\<close> are meaningful: each holds a number whose sparse entry points back.\<close>

definition tl_invar :: "ThreadList \<Rightarrow> bool" where
  "tl_invar l \<longleftrightarrow> length (tl_sparse l) = length (tl_dense l) \<and> tl_count l \<le> length (tl_dense l)
     \<and> (\<forall>i < tl_count l. tl_dense l ! i < length (tl_sparse l) \<and> tl_sparse l ! (tl_dense l ! i) = i)"

definition tl_elems :: "ThreadList \<Rightarrow> nat set" where
  "tl_elems l = set (take (tl_count l) (tl_dense l))"

definition tl_capacity :: "ThreadList \<Rightarrow> nat" where
  "tl_capacity l = length (tl_dense l)"

lemma tl_elems_iff:
  "tl_invar l \<Longrightarrow> pc \<in> tl_elems l \<longleftrightarrow> (\<exists>i < tl_count l. tl_dense l ! i = pc)"
  by (auto simp: tl_elems_def tl_invar_def in_set_conv_nth)

lemma tl_contains_law:
  assumes "tl_invar l" "pc < tl_capacity l"
  shows "tl_contains l pc = Some (pc \<in> tl_elems l)"
proof (cases "tl_sparse l ! pc < tl_count l")
  case True
  then have "pc \<in> tl_elems l \<longleftrightarrow> tl_dense l ! (tl_sparse l ! pc) = pc"
    using assms by (auto simp: tl_elems_iff tl_invar_def)
  with True assms show ?thesis
    by (auto simp: tl_contains_def at_index_def tl_capacity_def tl_invar_def)
next
  case False
  then have "pc \<notin> tl_elems l" using assms by (auto simp: tl_elems_iff tl_invar_def)
  with False assms show ?thesis
    by (auto simp: tl_contains_def at_index_def tl_capacity_def tl_invar_def)
qed

lemma tl_size_law: "tl_invar l \<Longrightarrow> tl_count l = card (tl_elems l)"
proof -
  assume inv: "tl_invar l"
  then have "distinct (take (tl_count l) (tl_dense l))"
    by (auto simp: distinct_conv_nth tl_invar_def) metis
  then show ?thesis using inv by (simp add: tl_elems_def distinct_card tl_invar_def)
qed

lemma tl_elems_below: "tl_invar l \<Longrightarrow> tl_elems l \<subseteq> {..< tl_capacity l}"
  by (auto simp: tl_elems_iff tl_invar_def tl_capacity_def)

text \<open>A set that misses a number below its capacity has a free slot.\<close>

lemma tl_room:
  assumes "tl_invar l" "pc < tl_capacity l" "pc \<notin> tl_elems l"
  shows "tl_count l < length (tl_dense l)"
proof -
  have "tl_elems l \<subset> {..< tl_capacity l}" using tl_elems_below [OF assms(1)] assms(2,3) by auto
  then have "card (tl_elems l) < card {..< tl_capacity l}" by (intro psubset_card_mono) auto
  then show ?thesis by (simp add: tl_size_law [OF assms(1)] tl_capacity_def)
qed

lemma tl_insert_law:
  assumes inv: "tl_invar l" and pc: "pc < tl_capacity l" "pc \<notin> tl_elems l"
  shows "\<exists>l'. tl_insert l pc = Some l' \<and> tl_invar l' \<and> tl_elems l' = insert pc (tl_elems l)
    \<and> tl_capacity l' = tl_capacity l"
proof -
  note room = tl_room [OF assms]
  define l' where "l' = l\<lparr>tl_sparse := (tl_sparse l)[pc := tl_count l],
      tl_dense := (tl_dense l)[tl_count l := pc], tl_count := tl_count l + 1\<rparr>"
  have ins: "tl_insert l pc = Some l'"
    using inv pc room by (simp add: tl_insert_def l'_def tl_invar_def tl_capacity_def)
  have ne: "tl_dense l ! i \<noteq> pc" if "i < tl_count l" for i using pc(2) that inv by (auto simp: tl_elems_iff)
  have d: "tl_dense l' ! i = (if i = tl_count l then pc else tl_dense l ! i)" if "i < tl_count l'" for i
    using that room by (auto simp: l'_def nth_list_update)
  have "tl_dense l' ! i < length (tl_sparse l') \<and> tl_sparse l' ! (tl_dense l' ! i) = i" if "i < tl_count l'" for i
    using that inv ne pc room
    by (auto simp: d tl_invar_def tl_capacity_def l'_def nth_list_update less_Suc_eq)
  then have inv': "tl_invar l'" using inv room by (simp add: tl_invar_def l'_def)
  moreover have "tl_elems l' = insert pc (tl_elems l)"
  proof -
    have "(\<exists>i < tl_count l'. tl_dense l' ! i = x) \<longleftrightarrow> x = pc \<or> (\<exists>i < tl_count l. tl_dense l ! i = x)" for x
    proof -
      have "(\<exists>i < Suc n. Q i) \<longleftrightarrow> Q n \<or> (\<exists>i < n. Q i)" for n and Q :: "nat \<Rightarrow> bool"
        by (auto simp: less_Suc_eq)
      then show ?thesis using room by (auto simp: l'_def nth_list_update)
    qed
    then show ?thesis using inv inv' by (auto simp: tl_elems_iff)
  qed
  ultimately show ?thesis using ins by (simp add: l'_def tl_capacity_def)
qed

interpretation sparse: thread_set tl_contains tl_insert tl_clear tl_nth tl_count tl_capacity tl_elems tl_invar
proof unfold_locales
  fix l :: ThreadList and pc i :: nat
  assume inv: "tl_invar l"
  show "tl_elems l \<subseteq> {..< tl_capacity l}" by (rule tl_elems_below [OF inv])
  show "tl_count l = card (tl_elems l)" by (rule tl_size_law [OF inv])
  show "tl_invar (tl_clear l) \<and> tl_elems (tl_clear l) = {} \<and> tl_capacity (tl_clear l) = tl_capacity l"
    using inv by (simp add: tl_clear_def tl_invar_def tl_elems_def tl_capacity_def)
  show "tl_elems l = {pc. \<exists>i < tl_count l. tl_nth l i = Some pc}"
  proof -
    have "tl_nth l i = Some (tl_dense l ! i)" if "i < tl_count l" for i
      using inv that by (simp add: tl_nth_def at_index_def tl_invar_def)
    then show ?thesis by (auto simp: set_eq_iff tl_elems_iff [OF inv])
  qed
  show "\<exists>pc. tl_nth l i = Some pc" if "i < tl_count l"
    using inv that by (auto simp: tl_nth_def at_index_def tl_invar_def)
  show "tl_contains l pc = Some (pc \<in> tl_elems l)" if "pc < tl_capacity l"
    using inv that by (rule tl_contains_law)
  show "\<exists>l'. tl_insert l pc = Some l' \<and> tl_invar l' \<and> tl_elems l' = insert pc (tl_elems l)
      \<and> tl_capacity l' = tl_capacity l" if "pc < tl_capacity l" "pc \<notin> tl_elems l"
    using inv that by (rule tl_insert_law)
qed

lemma new_thread_list_invar [simp]:
  "tl_invar (new_thread_list n)" "tl_capacity (new_thread_list n) = n" "tl_elems (new_thread_list n) = {}"
  by (simp_all add: new_thread_list_def tl_invar_def tl_capacity_def tl_elems_def)

end
