(* ===== verification/RegexVM.thy ===== *)
theory RegexVM
  imports SparseSet
begin

text \<open>
  \<open>Regex::Regex\<close> and \<open>Regex::search\<close> of src/core/regex.cpp: a Pike machine that keeps the set
  of reachable instructions for each input position, under a step budget. The outer option of
  a result is the absence of an out-of-bounds access, the inner one (\<open>std::optional<bool>\<close>)
  is \<open>None\<close> when the budget ran out.
\<close>

record RegexProgram =
  rp_pattern :: string
  rp_instructions :: "Instruction list"
  rp_classes :: "Range list list"
  rp_anchored :: bool

definition Regex :: "string \<Rightarrow> RegexError + RegexProgram" where
  "Regex pattern =
     bindE (parse (new_parser pattern)) (\<lambda>(root, parser).
     bindE (compile (root + 1) (p_nodes parser) root []) (\<lambda>instructions.
     bindE (emit instructions (instr Op_eMatch 0 0)) (\<lambda>(_, program).
       Inr \<lparr>rp_pattern = pattern, rp_instructions = program, rp_classes = p_classes parser,
            rp_anchored = (i_op (hd program) = Op_eInputStart)\<rparr>)))"

definition charge :: "nat \<Rightarrow> nat \<Rightarrow> bool \<times> nat" where
  "charge steps_left steps = (if steps > steps_left then (False, 0) else (True, steps_left - steps))"

text \<open>What one visit pushes on the stack, the top of the stack first.\<close>

definition thread_pushes :: "Instruction \<Rightarrow> nat \<Rightarrow> Position \<Rightarrow> nat list" where
  "thread_pushes ins pc here =
     (case i_op ins of
        Op_eJump \<Rightarrow> [i_arg1 ins]
      | Op_eSplit \<Rightarrow> [i_arg1 ins, i_arg2 ins]
      | Op_eInputStart \<Rightarrow> if at_start here then [pc + 1] else []
      | Op_eInputEnd \<Rightarrow> if at_finish here then [pc + 1] else []
      | Op_eWordBoundary \<Rightarrow> if previous_is_word here \<noteq> next_is_word here then [pc + 1] else []
      | Op_eNotWordBoundary \<Rightarrow> if previous_is_word here = next_is_word here then [pc + 1] else []
      | _ \<Rightarrow> [])"

lemma option_bind_fundef_cong [fundef_cong]:
  "x = y \<Longrightarrow> (\<And>a. y = Some a \<Longrightarrow> f a = g a) \<Longrightarrow> Option.bind x f = Option.bind y g"
  by (cases y) auto

text \<open>The loop of \<open>add_thread\<close>: every turn shortens the stack or fills a slot of the list.\<close>

function add_loop ::
  "Instruction list \<Rightarrow> Position \<Rightarrow> ThreadList \<Rightarrow> nat list \<Rightarrow> bool \<Rightarrow> (ThreadList \<times> bool) option" where
  "add_loop P here l [] matched = Some (l, matched)"
| "add_loop P here l (pc # stack) matched =
     Option.bind (tl_contains l pc) (\<lambda>present.
       if present then add_loop P here l stack matched
       else Option.bind (tl_insert l pc) (\<lambda>l'.
         Option.bind (at_index P pc) (\<lambda>ins.
           add_loop P here l' (thread_pushes ins pc here @ stack) (matched \<or> i_op ins = Op_eMatch))))"
  by pat_completeness auto
termination
  by (relation "measures [\<lambda>(P, here, l, stack, matched). length (tl_dense l) - tl_count l,
      \<lambda>(P, here, l, stack, matched). length stack]")
    (auto simp: tl_insert_def split: if_splits)

definition add_thread :: "Instruction list \<Rightarrow> ThreadList \<Rightarrow> nat \<Rightarrow> Position \<Rightarrow> (ThreadList \<times> bool) option" where
  "add_thread P l start here = add_loop P here l [start] False"

text \<open>The consuming instructions of the current position, each class access checked.\<close>

definition consumes_at :: "Range list list \<Rightarrow> Instruction \<Rightarrow> code_point \<Rightarrow> bool option" where
  "consumes_at classes ins c =
     (case i_op ins of
        Op_eChar \<Rightarrow> Some (i_arg1 ins = c)
      | Op_eAny \<Rightarrow> Some (\<not> is_line_terminator c)
      | Op_eClass \<Rightarrow> Option.bind (at_index classes (i_arg1 ins)) (\<lambda>ranges. Some (contains ranges c))
      | _ \<Rightarrow> Some False)"

function consume_loop ::
  "Instruction list \<Rightarrow> Range list list \<Rightarrow> code_point \<Rightarrow> Position \<Rightarrow> ThreadList \<Rightarrow> nat \<Rightarrow> ThreadList
    \<Rightarrow> (ThreadList \<times> bool) option" where
  "consume_loop P classes c after current i next =
     (if i < tl_count current then
        Option.bind (tl_nth current i) (\<lambda>pc.
        Option.bind (at_index P pc) (\<lambda>ins.
        Option.bind (consumes_at classes ins c) (\<lambda>consumed.
          if consumed
          then Option.bind (add_thread P next (pc + 1) after) (\<lambda>(next', matched).
            if matched then Some (next', True)
            else consume_loop P classes c after current (i + 1) next')
          else consume_loop P classes c after current (i + 1) next)))
      else Some (next, False))"
  by pat_completeness auto
termination
  by (relation "measure (\<lambda>(P, classes, c, after, current, i, next). tl_count current - i)") auto

declare consume_loop.simps [simp del]

definition decode_next :: "string \<Rightarrow> nat \<Rightarrow> code_point option \<times> nat" where
  "decode_next input offset =
     (if offset < length input
      then (Some (fst (decode_utf8 input offset)), snd (decode_utf8 input offset))
      else (None, offset))"

text \<open>\<open>while (current_char)\<close>; the result is the answer and the budget left.\<close>

function search_loop ::
  "RegexProgram \<Rightarrow> string \<Rightarrow> ThreadList \<Rightarrow> ThreadList \<Rightarrow> code_point option \<Rightarrow> nat \<Rightarrow> nat
    \<Rightarrow> (bool option \<times> nat) option" where
  "search_loop rp input current next current_char offset steps_left =
     (case current_char of
        None \<Rightarrow> Some (Some False, steps_left)
      | Some c \<Rightarrow>
          (case charge steps_left (tl_count current + 1) of
             (False, left) \<Rightarrow> Some (None, left)
           | (True, left) \<Rightarrow>
              (case decode_next input offset of
                 (following, offset') \<Rightarrow>
                   let after = \<lparr>at_start = False, at_finish = (following = None),
                                previous_is_word = is_word_character c,
                                next_is_word = (case following of None \<Rightarrow> False | Some d \<Rightarrow> is_word_character d)\<rparr> in
                   Option.bind (consume_loop (rp_instructions rp) (rp_classes rp) c after current 0 (tl_clear next))
                     (\<lambda>(next1, matched).
                     if matched then Some (Some True, left)
                     else Option.bind
                       (if rp_anchored rp then Some (next1, False)
                        else add_thread (rp_instructions rp) next1 0 after)
                       (\<lambda>(next2, matched2).
                        if matched2 then Some (Some True, left)
                        else if rp_anchored rp \<and> tl_count next2 = 0 then Some (Some False, left)
                        else search_loop rp input next2 current following offset' left)))))"
  by pat_completeness auto
termination
  by (relation "measure (\<lambda>(rp, input, current, next, current_char, offset, steps_left).
      (length input - offset) + (case current_char of None \<Rightarrow> 0 | Some _ \<Rightarrow> 1))")
    (auto simp: decode_next_def decode_utf8_advances diff_less_mono2 split: if_splits)

declare search_loop.simps [simp del]

definition search_budget :: "RegexProgram \<Rightarrow> string \<Rightarrow> nat \<Rightarrow> (bool option \<times> nat) option" where
  "search_budget rp input steps_left =
     (let size = length (rp_instructions rp) in
      case charge steps_left size of
        (False, left) \<Rightarrow> Some (None, left)
      | (True, left) \<Rightarrow>
         (case decode_next input 0 of
            (current_char, offset) \<Rightarrow>
              let here = \<lparr>at_start = True, at_finish = (current_char = None), previous_is_word = False,
                          next_is_word = (case current_char of None \<Rightarrow> False | Some c \<Rightarrow> is_word_character c)\<rparr> in
              Option.bind (add_thread (rp_instructions rp) (new_thread_list size) 0 here)
                (\<lambda>(current, matched).
                  if matched then Some (Some True, left)
                  else search_loop rp input current (new_thread_list size) current_char offset left)))"

text \<open>\<open>bool search(input)\<close>: an unlimited budget, and the option dereferenced.\<close>

definition size_max :: nat where "size_max = 2 ^ 64 - 1"

definition search :: "RegexProgram \<Rightarrow> string \<Rightarrow> bool option" where
  "search rp input =
     Option.bind (search_budget rp input size_max) (\<lambda>(result, _). result)"

subsection \<open>\<open>add_thread\<close> computes a closure\<close>

lemma set_thread_pushes: "set (thread_pushes ins pc here) = eps_succs ins pc here"
  by (cases "i_op ins") (auto simp: thread_pushes_def eps_succs_def assertion_holds_def)

text \<open>The zero-width edges of a program at a position, and the program counters they lead to.\<close>

definition eps_edges :: "Instruction list \<Rightarrow> Position \<Rightarrow> (nat \<times> nat) set" where
  "eps_edges P here = {(pc, pc'). pc < length P \<and> pc' \<in> eps_succs (P ! pc) pc here}"

definition closure :: "Instruction list \<Rightarrow> Position \<Rightarrow> nat set \<Rightarrow> nat set" where
  "closure P here S = (eps_edges P here)\<^sup>* `` S"

definition has_match :: "Instruction list \<Rightarrow> nat set \<Rightarrow> bool" where
  "has_match P S \<longleftrightarrow> (\<exists>pc \<in> S. pc < length P \<and> i_op (P ! pc) = Op_eMatch)"

text \<open>Every target stays inside the program.\<close>

definition targets_ok :: "Instruction list \<Rightarrow> bool" where
  "targets_ok P \<longleftrightarrow> (\<forall>here. \<forall>pc < length P. eps_succs (P ! pc) pc here \<subseteq> {..< length P})"

lemma targets_okD: "targets_ok P \<Longrightarrow> pc < length P \<Longrightarrow> pc' \<in> eps_succs (P ! pc) pc here \<Longrightarrow> pc' < length P"
  by (auto simp: targets_ok_def)

lemma closure_empty [simp]: "closure P here {} = {}"
  by (simp add: closure_def)

lemma closure_union: "closure P here (A \<union> B) = closure P here A \<union> closure P here B"
  by (auto simp: closure_def)

lemma closure_below:
  assumes "targets_ok P" "S \<subseteq> {..< length P}"
  shows "closure P here S \<subseteq> {..< length P}"
proof
  fix pc assume "pc \<in> closure P here S"
  then obtain s where "s \<in> S" "(s, pc) \<in> (eps_edges P here)\<^sup>*" by (auto simp: closure_def)
  from this(2,1) show "pc \<in> {..< length P}"
    by (induction rule: rtrancl_induct) (use assms in \<open>auto simp: eps_edges_def dest: targets_okD\<close>)
qed

definition eps_closed :: "Instruction list \<Rightarrow> Position \<Rightarrow> nat set \<Rightarrow> nat set \<Rightarrow> bool" where
  "eps_closed P here S pending \<longleftrightarrow> (\<forall>pc \<in> S. eps_succs (P ! pc) pc here \<subseteq> S \<union> pending)"

lemma eps_closedD: "eps_closed P here S W \<Longrightarrow> pc \<in> S \<Longrightarrow> eps_succs (P ! pc) pc here \<subseteq> S \<union> W"
  by (simp add: eps_closed_def)

lemma closure_least:
  assumes "eps_closed P here S {}" "A \<subseteq> S"
  shows "closure P here A \<subseteq> S"
proof
  fix pc assume "pc \<in> closure P here A"
  then obtain a where "a \<in> A" "(a, pc) \<in> (eps_edges P here)\<^sup>*" by (auto simp: closure_def)
  from this(2,1) show "pc \<in> S"
    by (induction rule: rtrancl_induct) (use assms in \<open>auto simp: eps_edges_def eps_closed_def\<close>)
qed

lemma closure_mono: "A \<subseteq> B \<Longrightarrow> closure P here A \<subseteq> closure P here B"
  by (auto simp: closure_def)

lemma add_loop_spec:
  assumes "targets_ok P" "tl_invar l" "tl_capacity l = length P" "set stack \<subseteq> {..< length P}"
    and "eps_closed P here (tl_elems l) (set stack)"
  shows "\<exists>l' m. add_loop P here l stack matched = Some (l', m) \<and> tl_invar l' \<and> tl_capacity l' = length P
    \<and> tl_elems l \<union> set stack \<subseteq> tl_elems l' \<and> tl_elems l' \<subseteq> tl_elems l \<union> closure P here (set stack)
    \<and> eps_closed P here (tl_elems l') {}
    \<and> (m \<longleftrightarrow> matched \<or> has_match P (tl_elems l' - tl_elems l))"
  using assms
proof (induction P here l stack matched rule: add_loop.induct)
  case (1 P here l matched)
  then show ?case by (simp add: has_match_def)
next
  case (2 P here l pc stack matched)
  have pc: "pc < tl_capacity l" "pc < length P" using "2.prems" by auto
  from sparse.visit [OF "2.prems"(2) pc(1)] show ?case
  proof (elim disjE conjE exE)
    assume c: "tl_contains l pc = Some True" "pc \<in> tl_elems l"
    have "eps_closed P here (tl_elems l) (set stack)"
      using "2.prems"(5) c(2) by (auto simp: eps_closed_def)
    with "2.IH"(1) [OF c(1)] "2.prems"(1-4) c
    obtain l' m where r: "add_loop P here l stack matched = Some (l', m)"
      and l': "tl_invar l'" "tl_capacity l' = length P" "tl_elems l \<union> set stack \<subseteq> tl_elems l'"
      "tl_elems l' \<subseteq> tl_elems l \<union> closure P here (set stack)" "eps_closed P here (tl_elems l') {}"
      "m \<longleftrightarrow> matched \<or> has_match P (tl_elems l' - tl_elems l)"
      by auto
    have "closure P here (set stack) \<subseteq> closure P here (set (pc # stack))" by (rule closure_mono) auto
    with l' c(2) have "tl_elems l' \<subseteq> tl_elems l \<union> closure P here (set (pc # stack))"
      "tl_elems l \<union> set (pc # stack) \<subseteq> tl_elems l'" by auto
    moreover have "add_loop P here l (pc # stack) matched = Some (l', m)" using r by (simp add: c)
    ultimately show ?case using l'(1,2,5,6) by blast
  next
    fix l1 assume c: "tl_contains l pc = Some False" and i: "tl_insert l pc = Some l1" and n: "pc \<notin> tl_elems l"
      and l1: "tl_invar l1" "tl_elems l1 = insert pc (tl_elems l)" "tl_capacity l1 = tl_capacity l"
    define new where "new = thread_pushes (P ! pc) pc here"
    have new: "set new = eps_succs (P ! pc) pc here" by (simp add: new_def set_thread_pushes)
    have nb: "set new \<subseteq> {..< length P}" using targets_okD [OF "2.prems"(1) pc(2)] by (auto simp: new)
    have a: "at_index P pc = Some (P ! pc)" using pc by (simp add: at_index_def)
    have ec: "eps_closed P here (tl_elems l1) (set (new @ stack))"
      using "2.prems"(5) by (auto simp: eps_closed_def l1 new)
    have "set (new @ stack) \<subseteq> {..< length P}" using "2.prems"(4) nb by auto
    with "2.IH"(2) [OF c _ i a "2.prems"(1) l1(1) _ _ ec [unfolded new_def]] "2.prems"(3)
    obtain l' m where r: "add_loop P here l1 (new @ stack) (matched \<or> i_op (P ! pc) = Op_eMatch) = Some (l', m)"
      and l': "tl_invar l'" "tl_capacity l' = length P"
      "tl_elems l1 \<union> set (new @ stack) \<subseteq> tl_elems l'"
      "tl_elems l' \<subseteq> tl_elems l1 \<union> closure P here (set (new @ stack))"
      "eps_closed P here (tl_elems l') {}"
      and m: "m \<longleftrightarrow> (matched \<or> i_op (P ! pc) = Op_eMatch) \<or> has_match P (tl_elems l' - tl_elems l1)"
      by (auto simp: l1(3) new_def)
    have pcin: "pc \<in> tl_elems l'" using l'(3) by (auto simp: l1)
    have "closure P here (set new) \<subseteq> closure P here {pc}"
      using pc(2) by (auto simp: closure_def eps_edges_def new Image_iff intro: converse_rtrancl_into_rtrancl)
    also have "\<dots> \<subseteq> closure P here (set (pc # stack))" by (rule closure_mono) auto
    finally have "closure P here (set new) \<subseteq> closure P here (set (pc # stack))" .
    moreover have "closure P here (set stack) \<subseteq> closure P here (set (pc # stack))" by (rule closure_mono) auto
    moreover have "pc \<in> closure P here (set (pc # stack))" by (auto simp: closure_def)
    ultimately have sub: "tl_elems l' \<subseteq> tl_elems l \<union> closure P here (set (pc # stack))"
      using l'(4) by (auto simp: l1(2) closure_union)
    have "has_match P (tl_elems l' - tl_elems l) \<longleftrightarrow>
        i_op (P ! pc) = Op_eMatch \<or> has_match P (tl_elems l' - tl_elems l1)"
      using pcin n pc(2) by (auto simp: has_match_def l1)
    with m have m': "m \<longleftrightarrow> matched \<or> has_match P (tl_elems l' - tl_elems l)" by auto
    have "tl_elems l \<union> set (pc # stack) \<subseteq> tl_elems l'" using l'(3) by (auto simp: l1)
    moreover have "add_loop P here l (pc # stack) matched = Some (l', m)"
      using r by (simp add: c i a new_def)
    ultimately show ?case using l'(1,2,5) sub m' by blast
  qed
qed

text \<open>
  A thread list that represents a closed set of program counters without a match. Adding a
  thread to it adds the closure of its start, and reports whether that contains a match.
\<close>

definition threads :: "Instruction list \<Rightarrow> Position \<Rightarrow> ThreadList \<Rightarrow> bool" where
  "threads P here l \<longleftrightarrow> tl_invar l \<and> tl_capacity l = length P \<and> eps_closed P here (tl_elems l) {}
     \<and> \<not> has_match P (tl_elems l)"

lemma add_thread_spec:
  assumes P: "targets_ok P" and l: "threads P here l" and s: "start < length P"
  shows "\<exists>l' m. add_thread P l start here = Some (l', m)
    \<and> (m \<longleftrightarrow> has_match P (closure P here {start}))
    \<and> (\<not> m \<longrightarrow> threads P here l' \<and> tl_elems l' = tl_elems l \<union> closure P here {start})"
proof -
  have "eps_closed P here (tl_elems l) (set [start])" using l by (auto simp: threads_def eps_closed_def)
  with add_loop_spec [OF P, of l "[start]" here False] l s
  obtain l' m where r: "add_loop P here l [start] False = Some (l', m)"
    and l': "tl_invar l'" "tl_capacity l' = length P" "tl_elems l \<union> {start} \<subseteq> tl_elems l'"
    "tl_elems l' \<subseteq> tl_elems l \<union> closure P here {start}" "eps_closed P here (tl_elems l') {}"
    and m: "m \<longleftrightarrow> has_match P (tl_elems l' - tl_elems l)"
    by (auto simp: threads_def)
  have e: "tl_elems l' = tl_elems l \<union> closure P here {start}"
    using l' closure_least [OF l'(5), of "{start}"] by auto
  moreover have "m \<longleftrightarrow> has_match P (closure P here {start})"
    using m l by (auto simp: e has_match_def threads_def)
  moreover have "\<not> m \<Longrightarrow> threads P here l'"
    using l' m l by (auto simp: threads_def has_match_def)
  ultimately show ?thesis using r by (auto simp: add_thread_def)
qed

subsection \<open>One input position\<close>

definition classes_ok :: "Range list list \<Rightarrow> Instruction list \<Rightarrow> bool" where
  "classes_ok classes P \<longleftrightarrow> (\<forall>ins \<in> set P. ins_ok (length classes) ins)"

lemma consumes_at_ok:
  "ins_ok (length classes) ins \<Longrightarrow> consumes_at classes ins c = Some (consumes classes ins c)"
  by (auto simp: consumes_at_def consumes_def ins_ok_def at_index_def split: Op.splits)

text \<open>The instructions after those at positions \<open>i, ...\<close> of the list that consume \<open>c\<close>.\<close>

definition successors :: "Instruction list \<Rightarrow> Range list list \<Rightarrow> code_point \<Rightarrow> nat set \<Rightarrow> nat set" where
  "successors P classes c S = {pc + 1 | pc. pc \<in> S \<and> pc < length P \<and> consumes classes (P ! pc) c}"

definition elems_from :: "ThreadList \<Rightarrow> nat \<Rightarrow> nat set" where
  "elems_from l i = {pc. \<exists>k. i \<le> k \<and> k < tl_count l \<and> tl_nth l k = Some pc}"

lemma elems_from_0: "tl_invar l \<Longrightarrow> elems_from l 0 = tl_elems l"
  by (auto simp: elems_from_def sparse.elems_law)

lemma elems_from_step: "tl_nth l i = Some pc \<Longrightarrow> i < tl_count l \<Longrightarrow> elems_from l i = insert pc (elems_from l (i + 1))"
  by (auto simp: elems_from_def dest: Suc_leD) (metis Suc_leI le_neq_implies_less option.inject)

lemma elems_from_end: "\<not> i < tl_count l \<Longrightarrow> elems_from l i = {}"
  by (auto simp: elems_from_def)

lemma consume_loop_spec:
  assumes P: "targets_ok P" "classes_ok classes P"
    and cur: "tl_invar current" "tl_capacity current = length P"
    and nxt: "threads P after next"
    and succ: "successors P classes c (tl_elems current) \<subseteq> {..< length P}"
  shows "\<exists>next' m. consume_loop P classes c after current i next = Some (next', m)
    \<and> (m \<longleftrightarrow> has_match P (closure P after (successors P classes c (elems_from current i))))
    \<and> (\<not> m \<longrightarrow> threads P after next' \<and>
         tl_elems next' = tl_elems next \<union> closure P after (successors P classes c (elems_from current i)))"
  using nxt
proof (induction "tl_count current - i" arbitrary: i "next")
  case 0
  then show ?case
    by (subst consume_loop.simps) (auto simp: elems_from_end successors_def has_match_def)
next
  case (Suc d)
  then have i: "i < tl_count current" "d = tl_count current - (i + 1)" by auto
  obtain pc where pc: "tl_nth current i = Some pc" using sparse.nth_law [OF cur(1) i(1)] by blast
  then have pce: "pc \<in> tl_elems current" using i(1) cur(1) by (auto simp: sparse.elems_law)
  then have pcl: "pc < length P" using sparse.elems_below [OF cur(1)] cur(2) by auto
  have at: "at_index P pc = Some (P ! pc)" using pcl by (simp add: at_index_def)
  have ct: "consumes_at classes (P ! pc) c = Some (consumes classes (P ! pc) c)"
    using P(2) pcl by (intro consumes_at_ok) (simp add: classes_ok_def)
  define T where "T = successors P classes c (elems_from current (i + 1))"
  note step = elems_from_step [OF pc i(1)]
  show ?case
  proof (cases "consumes classes (P ! pc) c")
    case False
    then have "successors P classes c (elems_from current i) = T"
      by (auto simp: T_def successors_def step)
    with Suc.hyps(1) [OF i(2) Suc.prems] show ?thesis
      by (subst consume_loop.simps) (simp add: i(1) pc at ct False T_def)
  next
    case True
    then have S: "successors P classes c (elems_from current i) = insert (pc + 1) T"
      using pcl by (auto simp: T_def successors_def step)
    have "pc + 1 \<in> successors P classes c (tl_elems current)"
      using True pcl pce by (auto simp: successors_def)
    then have "pc + 1 < length P" using succ by auto
    from add_thread_spec [OF P(1) Suc.prems this] obtain n1 m1 where
      a: "add_thread P next (pc + 1) after = Some (n1, m1)"
      and m1: "m1 \<longleftrightarrow> has_match P (closure P after {pc + 1})"
      and n1: "\<not> m1 \<longrightarrow> threads P after n1 \<and> tl_elems n1 = tl_elems next \<union> closure P after {pc + 1}"
      by blast
    have cl: "closure P after (insert (pc + 1) T) = closure P after {pc + 1} \<union> closure P after T"
      using closure_union [of P after "{pc + 1}" T] by simp
    have hm: "has_match P (closure P after (insert (pc + 1) T)) \<longleftrightarrow> m1 \<or> has_match P (closure P after T)"
      unfolding cl m1 by (auto simp: has_match_def)
    show ?thesis
    proof (cases m1)
      case True
      with a \<open>consumes classes (P ! pc) c\<close>
      have "consume_loop P classes c after current i next = Some (n1, True)"
        by (subst consume_loop.simps) (simp add: i(1) pc at ct)
      with hm True show ?thesis unfolding S by blast
    next
      case False
      with n1 have "threads P after n1" by simp
      from Suc.hyps(1) [OF i(2) this] obtain n2 m2 where
        r: "consume_loop P classes c after current (i + 1) n1 = Some (n2, m2)"
        and m2: "m2 \<longleftrightarrow> has_match P (closure P after T)"
        and n2: "\<not> m2 \<longrightarrow> threads P after n2 \<and> tl_elems n2 = tl_elems n1 \<union> closure P after T"
        by (auto simp: T_def)
      have "consume_loop P classes c after current i next = Some (n2, m2)"
        using r False a \<open>consumes classes (P ! pc) c\<close>
        by (subst consume_loop.simps) (simp add: i(1) pc at ct)
      moreover have "m2 \<longleftrightarrow> has_match P (closure P after (insert (pc + 1) T))" using hm m2 False by simp
      moreover have "tl_elems n2 = tl_elems next \<union> closure P after (insert (pc + 1) T)" if "\<not> m2"
        using n2 n1 that False unfolding cl by auto
      ultimately show ?thesis using n2 unfolding S by blast
    qed
  qed
qed

subsection \<open>Reachable instructions\<close>

text \<open>
  The instructions a run of the machine can be at after \<open>i\<close> code points, started at
  instruction 0 at any position, or only at position 0 when the search is anchored.
\<close>

definition reached :: "Instruction list \<Rightarrow> Range list list \<Rightarrow> code_point list \<Rightarrow> bool \<Rightarrow> nat \<Rightarrow> nat set" where
  "reached P cs w anchored i =
     {pc. \<exists>i0 \<le> length w. (anchored \<longrightarrow> i0 = 0) \<and> (vm_step P cs w)\<^sup>*\<^sup>* (0, i0) (pc, i)}"

lemma vm_step_mono: "vm_step P cs w c c' \<Longrightarrow> snd c \<le> snd c'"
  by (induction rule: vm_step.induct) auto

lemma vm_steps_mono: "(vm_step P cs w)\<^sup>*\<^sup>* c c' \<Longrightarrow> snd c \<le> snd c'"
  by (induction rule: rtranclp_induct) (auto dest: vm_step_mono)

lemma closure_run:
  assumes "pc' \<in> closure P (position_at w i) {pc}"
  shows "(vm_step P cs w)\<^sup>*\<^sup>* (pc, i) (pc', i)"
proof -
  from assms have "(pc, pc') \<in> (eps_edges P (position_at w i))\<^sup>*" by (auto simp: closure_def)
  then show ?thesis
    by (induction rule: rtrancl_induct)
      (auto simp: eps_edges_def intro: rtranclp.rtrancl_into_rtrancl vm_eps)
qed

lemma closure_step:
  "pc \<in> closure P here S \<Longrightarrow> pc < length P \<Longrightarrow> pc' \<in> eps_succs (P ! pc) pc here \<Longrightarrow> pc' \<in> closure P here S"
  by (auto simp: closure_def Image_iff eps_edges_def intro: rtrancl_into_rtrancl)

lemma closure_self: "pc \<in> S \<Longrightarrow> pc \<in> closure P here S"
  by (auto simp: closure_def)

lemma closure_elem: "pc' \<in> closure P here S \<Longrightarrow> \<exists>pc \<in> S. pc' \<in> closure P here {pc}"
  by (auto simp: closure_def)

lemma reached_0: "reached P cs w anchored 0 = closure P (position_at w 0) {0}"
proof (intro equalityI subsetI)
  fix pc assume "pc \<in> reached P cs w anchored 0"
  then obtain i0 where r: "(vm_step P cs w)\<^sup>*\<^sup>* (0, i0) (pc, 0)" by (auto simp: reached_def)
  from r have "snd (pc, 0::nat) = 0 \<longrightarrow> fst (pc, 0::nat) \<in> closure P (position_at w 0) {0}"
  proof (induction rule: rtranclp_induct)
    case base
    then show ?case by (simp add: closure_self)
  next
    case (step c c')
    from step.hyps(2) step.IH show ?case
      by (cases rule: vm_step.cases) (auto intro: closure_step)
  qed
  then show "pc \<in> closure P (position_at w 0) {0}" by simp
next
  fix pc assume "pc \<in> closure P (position_at w 0) {0}"
  from closure_run [OF this] show "pc \<in> reached P cs w anchored 0" by (auto simp: reached_def)
qed

lemma reached_Suc:
  assumes i: "i < length w"
  shows "reached P cs w anchored (i + 1) = closure P (position_at w (i + 1))
    (successors P cs (w ! i) (reached P cs w anchored i) \<union> (if anchored then {} else {0}))"
    (is "_ = closure P ?here ?S")
proof (intro equalityI subsetI)
  fix pc assume "pc \<in> reached P cs w anchored (i + 1)"
  then obtain i0 where i0: "i0 \<le> length w" "anchored \<longrightarrow> i0 = 0"
    and r: "(vm_step P cs w)\<^sup>*\<^sup>* (0, i0) (pc, i + 1)" by (auto simp: reached_def)
  from r have "snd (pc, i + 1) = i + 1 \<longrightarrow> fst (pc, i + 1) \<in> closure P ?here ?S"
  proof (induction rule: rtranclp_induct)
    case base
    with i0 show ?case by (auto intro: closure_self)
  next
    case (step c c')
    from step.hyps(2) show ?case
    proof (cases rule: vm_step.cases)
      case (vm_eps pc pc' k)
      with step.IH show ?thesis by (auto intro: closure_step)
    next
      case (vm_consume pc k)
      show ?thesis
      proof
        assume "snd c' = i + 1"
        with vm_consume have k: "k = i" by simp
        with vm_consume step.hyps(1) i0 have "pc \<in> reached P cs w anchored i" by (auto simp: reached_def)
        with vm_consume k have "pc + 1 \<in> ?S" by (auto simp: successors_def)
        then show "fst c' \<in> closure P ?here ?S" using vm_consume by (simp add: closure_self)
      qed
    qed
  qed
  then show "pc \<in> closure P ?here ?S" by simp
next
  fix pc assume "pc \<in> closure P ?here ?S"
  then obtain s where s: "s \<in> ?S" "pc \<in> closure P ?here {s}" by (blast dest: closure_elem)
  note run = closure_run [OF s(2), of cs]
  show "pc \<in> reached P cs w anchored (i + 1)"
  proof (cases "s \<in> successors P cs (w ! i) (reached P cs w anchored i)")
    case True
    then obtain q i0 where q: "s = q + 1" "q < length P" "consumes cs (P ! q) (w ! i)"
      "i0 \<le> length w" "anchored \<longrightarrow> i0 = 0" "(vm_step P cs w)\<^sup>*\<^sup>* (0, i0) (q, i)"
      by (auto simp: successors_def reached_def)
    have "vm_step P cs w (q, i) (s, i + 1)" unfolding q(1) by (rule vm_consume) (use q i in auto)
    with q(6) run have "(vm_step P cs w)\<^sup>*\<^sup>* (0, i0) (pc, i + 1)"
      by (meson rtranclp.rtrancl_into_rtrancl rtranclp_trans)
    with q(4,5) show ?thesis by (auto simp: reached_def)
  next
    case False
    with s have "\<not> anchored" "s = 0" by (auto split: if_splits)
    with run i show ?thesis by (auto simp: reached_def intro!: exI [of _ "i + 1"])
  qed
qed

lemma reached_anchored_empty:
  assumes "reached P cs w True i = {}" "i \<le> k" "k \<le> length w"
  shows "reached P cs w True k = {}"
  using assms(2,3)
proof (induction k)
  case 0
  with assms show ?case by simp
next
  case (Suc k)
  show ?case
  proof (cases "i = Suc k")
    case False
    with Suc have "reached P cs w True k = {}" by simp
    then show ?thesis using reached_Suc [of k w P cs True] Suc.prems by (simp add: successors_def)
  qed (use assms in simp)
qed

subsection \<open>The search loop\<close>

text \<open>What the constructor establishes of a program (\<open>Regex_wf\<close> below).\<close>

definition program_wf :: "RegexProgram \<Rightarrow> bool" where
  "program_wf rp \<longleftrightarrow> (\<exists>e. length (rp_instructions rp) = e + 1
     \<and> i_op (rp_instructions rp ! e) = Op_eMatch \<and> closed_frag (rp_instructions rp) 0 e)
     \<and> classes_ok (rp_classes rp) (rp_instructions rp)
     \<and> rp_anchored rp = (i_op (rp_instructions rp ! 0) = Op_eInputStart)"

lemma no_succs_match: "i_op ins = Op_eMatch \<Longrightarrow> eps_succs ins pc here = {} \<and> \<not> consumes cs ins c"
  by (simp add: eps_succs_def assertion_holds_def consumes_def)

lemma program_wf_targets:
  assumes "program_wf rp"
  shows "targets_ok (rp_instructions rp)"
proof -
  define P where "P = rp_instructions rp"
  obtain e where e: "length P = e + 1" "i_op (P ! e) = Op_eMatch" "closed_frag P 0 e"
    using assms by (auto simp: program_wf_def P_def)
  have "pc' < length P" if "pc < length P" "pc' \<in> eps_succs (P ! pc) pc here" for pc pc' here
  proof (cases "pc = e")
    case True
    with that no_succs_match [OF e(2)] show ?thesis by simp
  next
    case False
    with that e(1) have "pc < e" by simp
    with e(3) have "targets_in (P ! pc) 0 e" by (simp add: closed_frag_def)
    with that(2) \<open>pc < e\<close> e(1) show ?thesis
      by (cases "i_op (P ! pc)") (auto simp: eps_succs_def targets_in_def split: if_splits)
  qed
  then show ?thesis by (auto simp: targets_ok_def P_def)
qed

lemma program_wf_successors:
  assumes "program_wf rp"
  shows "successors (rp_instructions rp) cs c S \<subseteq> {..< length (rp_instructions rp)}"
proof -
  obtain e where e: "length (rp_instructions rp) = e + 1" "i_op (rp_instructions rp ! e) = Op_eMatch"
    using assms by (auto simp: program_wf_def)
  have "pc \<noteq> e" if "consumes cs (rp_instructions rp ! pc) c" for pc
    using that no_succs_match [OF e(2), of 0 undefined cs c] by auto
  with e show ?thesis by (force simp: successors_def)
qed

text \<open>The input decoded so far: \<open>offset\<close> is where code point \<open>i + 1\<close> starts.\<close>

lemma decode_next_spec:
  assumes "decode_all input offset = drop i w" "i \<le> length w"
  shows "fst (decode_next input offset) = (if i < length w then Some (w ! i) else None)"
    and "i < length w \<Longrightarrow> decode_all input (snd (decode_next input offset)) = drop (i + 1) w"
proof -
  show "fst (decode_next input offset) = (if i < length w then Some (w ! i) else None)"
    using assms decode_all.simps [of input offset]
    by (cases "offset < length input") (auto simp: decode_next_def drop_nth_Cons)
  show "decode_all input (snd (decode_next input offset)) = drop (i + 1) w" if "i < length w"
    using assms that decode_all.simps [of input offset]
    by (cases "offset < length input") (auto simp: decode_next_def drop_nth_Cons)
qed

lemma threads_clear:
  "tl_invar l \<Longrightarrow> tl_capacity l = length P \<Longrightarrow> threads P here (tl_clear l) \<and> tl_elems (tl_clear l) = {}"
  using sparse.clear_law [of l] by (simp add: threads_def eps_closed_def has_match_def)

lemma threads_sized: "threads P here l \<Longrightarrow> tl_invar l \<and> tl_capacity l = length P"
  by (simp add: threads_def)

text \<open>
  One turn: from the instructions reached before position \<open>i + 1\<close> to those reached there, or
  a match at that position. The budget pays for the threads stepped.
\<close>

lemma search_turn:
  fixes rp input w
  defines "P \<equiv> rp_instructions rp" and "cs \<equiv> rp_classes rp" and "a \<equiv> rp_anchored rp"
  assumes wf: "program_wf rp" and i: "i < length w"
    and cur: "threads P (position_at w i) current" "tl_elems current = reached P cs w a i"
    and nxt: "tl_invar next" "tl_capacity next = length P"
    and after: "after = position_at w (i + 1)"
  shows "\<exists>n1 m1 n2 m2. consume_loop P cs (w ! i) after current 0 (tl_clear next) = Some (n1, m1)
    \<and> (\<not> m1 \<longrightarrow> (if a then Some (n1, False) else add_thread P n1 0 after) = Some (n2, m2))
    \<and> (m1 \<or> m2 \<longleftrightarrow> has_match P (reached P cs w a (i + 1)))
    \<and> (\<not> m1 \<longrightarrow> \<not> m2 \<longrightarrow> threads P after n2 \<and> tl_elems n2 = reached P cs w a (i + 1))"
proof -
  have P: "targets_ok P" "classes_ok cs P" and pos: "0 < length P"
    using wf program_wf_targets [OF wf] by (auto simp: program_wf_def P_def cs_def)
  define S where "S = successors P cs (w ! i) (reached P cs w a i)"
  note cl = threads_clear [OF nxt, of after]
  note ci = threads_sized [OF cur(1)]
  have "successors P cs (w ! i) (tl_elems current) \<subseteq> {..< length P}"
    using program_wf_successors [OF wf] by (simp add: P_def)
  from consume_loop_spec [OF P conjunct1 [OF ci] conjunct2 [OF ci] conjunct1 [OF cl] this, of 0]
  obtain n1 m1 where c1: "consume_loop P cs (w ! i) after current 0 (tl_clear next) = Some (n1, m1)"
    and m1: "m1 \<longleftrightarrow> has_match P (closure P after S)"
    and n1: "\<not> m1 \<Longrightarrow> threads P after n1 \<and> tl_elems n1 = closure P after S"
    using cl by (auto simp: elems_from_0 ci cur(2) S_def)
  have R: "reached P cs w a (i + 1) = closure P after S \<union> (if a then {} else closure P after {0})"
    using reached_Suc [OF i, of P cs a] by (simp add: closure_union after S_def)
  have hm: "has_match P (A \<union> B) \<longleftrightarrow> has_match P A \<or> has_match P B" for A B by (auto simp: has_match_def)
  show ?thesis
  proof (cases "m1 \<or> a")
    case True
    have "\<not> has_match P {}" by (simp add: has_match_def)
    with True c1 m1 n1 R show ?thesis
      by (intro exI [of _ n1] exI [of _ m1] exI [of _ False]) (auto simp: hm)
  next
    case False
    with n1 have "threads P after n1" by simp
    from add_thread_spec [OF P(1) this pos] obtain n2 m2 where
      "add_thread P n1 0 after = Some (n2, m2)" "m2 \<longleftrightarrow> has_match P (closure P after {0})"
      "\<not> m2 \<longrightarrow> threads P after n2 \<and> tl_elems n2 = tl_elems n1 \<union> closure P after {0}" by blast
    with False c1 m1 n1 R show ?thesis
      by (intro exI [of _ n1] exI [of _ m1] exI [of _ n2] exI [of _ m2]) (auto simp: hm)
  qed
qed

lemma position_after:
  assumes "i < length w"
  shows "position_at w (i + 1) =
    \<lparr>at_start = False, at_finish = ((if i + 1 < length w then Some (w ! (i + 1)) else None) = None),
     previous_is_word = is_word_character (w ! i),
     next_is_word = (case (if i + 1 < length w then Some (w ! (i + 1)) else None) of
       None \<Rightarrow> False | Some d \<Rightarrow> is_word_character d)\<rparr>"
  using assms by (auto simp: position_at_def)

lemma position_start:
  "position_at w 0 =
    \<lparr>at_start = True, at_finish = ((if 0 < length w then Some (w ! 0) else None) = None),
     previous_is_word = False,
     next_is_word = (case (if 0 < length w then Some (w ! 0) else None) of
       None \<Rightarrow> False | Some d \<Rightarrow> is_word_character d)\<rparr>"
  by (auto simp: position_at_def)

text \<open>
  What a result says: the answer is exact when there is one, the budget only shrinks, it is
  used up when there is none, and \<open>need\<close> steps are always enough for an answer.
\<close>

definition good_result :: "bool \<Rightarrow> nat \<Rightarrow> nat \<Rightarrow> (bool option \<times> nat) option \<Rightarrow> bool" where
  "good_result answer need steps_left res \<longleftrightarrow> (\<exists>r left. res = Some (r, left) \<and> left \<le> steps_left
     \<and> (\<forall>b. r = Some b \<longrightarrow> b = answer) \<and> (r = None \<longrightarrow> left = 0) \<and> (need \<le> steps_left \<longrightarrow> r \<noteq> None))"

lemma good_result_mono:
  "good_result answer need left res \<Longrightarrow> left \<le> steps_left \<Longrightarrow> need + (steps_left - left) \<le> need' \<Longrightarrow>
    good_result answer need' steps_left res"
  by (auto simp: good_result_def)

lemma search_loop_spec:
  assumes wf: "program_wf rp" and i: "i \<le> length w"
    and cc: "current_char = (if i < length w then Some (w ! i) else None)"
    and off: "i < length w \<Longrightarrow> decode_all input offset = drop (i + 1) w"
    and cur: "threads (rp_instructions rp) (position_at w i) current"
      "tl_elems current = reached (rp_instructions rp) (rp_classes rp) w (rp_anchored rp) i"
    and nxt: "tl_invar next" "tl_capacity next = length (rp_instructions rp)"
  shows "good_result
    (\<exists>k > i. k \<le> length w \<and> has_match (rp_instructions rp)
        (reached (rp_instructions rp) (rp_classes rp) w (rp_anchored rp) k))
    ((length w - i) * (length (rp_instructions rp) + 1)) steps_left
    (search_loop rp input current next current_char offset steps_left)"
  using i cc off cur nxt
proof (induction "length w - i" arbitrary: i current "next" current_char offset steps_left)
  case 0
  then show ?case by (subst search_loop.simps) (auto simp: good_result_def)
next
  case (Suc d)
  let ?P = "rp_instructions rp" and ?cs = "rp_classes rp" and ?a = "rp_anchored rp"
  let ?R = "reached ?P ?cs w ?a" and ?n = "length (rp_instructions rp)"
  from Suc.hyps(2) have i: "i < length w" "d = length w - (i + 1)" by auto
  with Suc.prems have cc: "current_char = Some (w ! i)" by simp
  define after where "after = position_at w (i + 1)"
  obtain following offset' where dn: "decode_next input offset = (following, offset')" by force
  have fo: "following = (if i + 1 < length w then Some (w ! (i + 1)) else None)"
    "i + 1 < length w \<Longrightarrow> decode_all input offset' = drop (i + 1 + 1) w"
    using decode_next_spec [of input offset "i + 1" w] Suc.prems(3) i dn by auto
  obtain n1 m1 n2 m2 where turn:
    "consume_loop ?P ?cs (w ! i) after current 0 (tl_clear next) = Some (n1, m1)"
    "\<not> m1 \<longrightarrow> (if ?a then Some (n1, False) else add_thread ?P n1 0 after) = Some (n2, m2)"
    "m1 \<or> m2 \<longleftrightarrow> has_match ?P (?R (i + 1))"
    "\<not> m1 \<longrightarrow> \<not> m2 \<longrightarrow> threads ?P after n2 \<and> tl_elems n2 = ?R (i + 1)"
    using search_turn [OF wf i(1) Suc.prems(4,5,6,7) after_def] by blast
  let ?ans = "\<lambda>i. \<exists>k > i. k \<le> length w \<and> has_match ?P (?R k)"
  have ans: "?ans i \<longleftrightarrow> has_match ?P (?R (i + 1)) \<or> ?ans (i + 1)"
    using i(1) by (metis Suc_eq_plus1 Suc_leI Suc_lessD Suc_lessI less_add_one)
  have count: "tl_count current + 1 \<le> ?n + 1"
    using sparse.size_le_capacity [of current] Suc.prems(4) by (auto simp: threads_def)
  have need: "(length w - i) * (?n + 1) = (length w - (i + 1)) * (?n + 1) + (?n + 1)"
    using i(1) by (metis Suc_diff_Suc Suc_eq_plus1 add.commute mult_Suc)
  show ?case
  proof (cases "steps_left < tl_count current + 1")
    case True
    then have "search_loop rp input current next current_char offset steps_left = Some (None, 0)"
      by (subst search_loop.simps) (simp add: cc charge_def)
    with True count need show ?thesis by (auto simp: good_result_def)
  next
    case False
    define left where "left = steps_left - (tl_count current + 1)"
    have loop: "search_loop rp input current next current_char offset steps_left =
      (if m1 \<or> m2 then Some (Some True, left)
       else if ?a \<and> tl_count n2 = 0 then Some (Some False, left)
       else search_loop rp input n2 current following offset' left)"
    proof -
      have after': "after = \<lparr>at_start = False, at_finish = (following = None),
          previous_is_word = is_word_character (w ! i),
          next_is_word = (case following of None \<Rightarrow> False | Some d \<Rightarrow> is_word_character d)\<rparr>"
        unfolding after_def fo(1) by (rule position_after [OF i(1)])
      have ch: "charge steps_left (tl_count current + 1) = (True, left)"
        using False by (simp add: charge_def left_def)
      have unf: "search_loop rp input current next current_char offset steps_left =
         (if m1 then Some (Some True, left)
          else Option.bind (if ?a then Some (n1, False) else add_thread ?P n1 0 after)
            (\<lambda>(next2, matched2). if matched2 then Some (Some True, left)
              else if ?a \<and> tl_count next2 = 0 then Some (Some False, left)
              else search_loop rp input next2 current following offset' left))"
        by (subst search_loop.simps)
          (simp only: cc ch dn option.case prod.case bool.case Let_def turn(1) Option.bind.bind_lunit flip: after')
      show ?thesis
      proof (cases m1)
        case False
        then show ?thesis unfolding unf using turn(2) by (simp only: if_False Option.bind.bind_lunit prod.case simp_thms)
      qed (simp add: unf)
    qed
    show ?thesis
    proof (cases "m1 \<or> m2")
      case True
      with turn(3) ans have "?ans i" by blast
      with True loop show ?thesis by (auto simp: good_result_def left_def)
    next
      case F: False
      with turn have n2: "threads ?P after n2" "tl_elems n2 = ?R (i + 1)" by auto
      have ans': "?ans i = ?ans (i + 1)" using F turn(3) ans by blast
      show ?thesis
      proof (cases "?a \<and> tl_count n2 = 0")
        case True
        with n2 have "?R (i + 1) = {}" by (auto simp: threads_def sparse.size_0_iff)
        with True have "?R k = {}" if "i + 1 \<le> k" "k \<le> length w" for k
          using that reached_anchored_empty [of ?P ?cs w "i + 1" k] by simp
        then have "\<not> ?ans i" by (auto simp: has_match_def)
        with F True loop show ?thesis by (auto simp: good_result_def left_def)
      next
        case N: False
        have "good_result (?ans (i + 1)) ((length w - (i + 1)) * (?n + 1)) left
          (search_loop rp input n2 current following offset' left)"
          using i n2 fo Suc.prems(4)
          by (intro Suc.hyps(1)) (auto simp: after_def threads_def)
        moreover have "left \<le> steps_left" "(length w - (i + 1)) * (?n + 1) + (steps_left - left) \<le> (length w - i) * (?n + 1)"
          using False count need by (simp_all add: left_def)
        ultimately have "good_result (?ans (i + 1)) ((length w - i) * (?n + 1)) steps_left
          (search_loop rp input n2 current following offset' left)"
          by (rule good_result_mono)
        then show ?thesis unfolding loop ans' using F N by (simp only: if_False simp_thms)
      qed
    qed
  qed
qed

lemma search_budget_spec:
  assumes wf: "program_wf rp" and w: "w = decode_all input 0"
  shows "good_result
    (\<exists>k \<le> length w. has_match (rp_instructions rp)
        (reached (rp_instructions rp) (rp_classes rp) w (rp_anchored rp) k))
    (length (rp_instructions rp) + length w * (length (rp_instructions rp) + 1)) steps_left
    (search_budget rp input steps_left)"
proof -
  let ?P = "rp_instructions rp" and ?n = "length (rp_instructions rp)"
  let ?R = "reached ?P (rp_classes rp) w (rp_anchored rp)"
  define here where "here = position_at w 0"
  obtain current_char offset where dn: "decode_next input 0 = (current_char, offset)" by force
  have fo: "current_char = (if 0 < length w then Some (w ! 0) else None)"
    "0 < length w \<Longrightarrow> decode_all input offset = drop (0 + 1) w"
    using decode_next_spec [of input 0 0 w] dn w by auto
  have here': "here = \<lparr>at_start = True, at_finish = (current_char = None), previous_is_word = False,
      next_is_word = (case current_char of None \<Rightarrow> False | Some c \<Rightarrow> is_word_character c)\<rparr>"
    unfolding here_def fo(1) by (rule position_start)
  have pos: "0 < ?n" using wf by (auto simp: program_wf_def)
  have "threads ?P here (new_thread_list ?n)" by (simp add: threads_def eps_closed_def has_match_def)
  from add_thread_spec [OF program_wf_targets [OF wf] this pos] obtain l m where
    a: "add_thread ?P (new_thread_list ?n) 0 here = Some (l, m)"
    and m: "m \<longleftrightarrow> has_match ?P (?R 0)"
    and l: "\<not> m \<longrightarrow> threads ?P here l \<and> tl_elems l = ?R 0"
    by (auto simp: reached_0 here_def)
  let ?ans = "\<exists>k \<le> length w. has_match ?P (?R k)"
  show ?thesis
  proof (cases "steps_left < ?n")
    case True
    then show ?thesis by (simp add: search_budget_def charge_def good_result_def)
  next
    case False
    define left where "left = steps_left - ?n"
    have ch: "charge steps_left ?n = (True, left)" using False by (simp add: charge_def left_def)
    have unf: "search_budget rp input steps_left = (if m then Some (Some True, left)
        else search_loop rp input l (new_thread_list ?n) current_char offset left)"
      unfolding search_budget_def
      by (simp only: ch dn option.case prod.case bool.case Let_def Option.bind.bind_lunit a flip: here')
    show ?thesis
    proof (cases m)
      case True
      with m have ?ans by blast
      with True unf show ?thesis by (auto simp: good_result_def left_def)
    next
      case F: False
      with l have l': "threads ?P (position_at w 0) l" "tl_elems l = ?R 0" by (auto simp: here_def)
      have "good_result (\<exists>k > 0. k \<le> length w \<and> has_match ?P (?R k)) ((length w - 0) * (?n + 1)) left
        (search_loop rp input l (new_thread_list ?n) current_char offset left)"
        by (rule search_loop_spec [OF wf _ fo l']) auto
      moreover have "?ans \<longleftrightarrow> (\<exists>k > 0. k \<le> length w \<and> has_match ?P (?R k))"
        using F m by (metis gr0I)
      ultimately have "good_result ?ans (length w * (?n + 1)) left (search_budget rp input steps_left)"
        using F by (simp only: unf if_False diff_zero simp_thms)
      then show ?thesis by (rule good_result_mono) (use False in \<open>simp_all add: left_def\<close>)
    qed
  qed
qed

subsection \<open>The constructor\<close>

lemma exit_no_step: "i_op (P ! e) = Op_eMatch \<Longrightarrow> \<not> vm_step P cs w (e, i) c"
  using no_succs_match by (cases c) (auto simp: vm_step_iff)

lemma run_iff_frag:
  assumes "length P = e + 1" "i_op (P ! e) = Op_eMatch"
  shows "(vm_step P cs w)\<^sup>*\<^sup>* (0, i) (e, j) \<longleftrightarrow> ((0, i), (e, j)) \<in> (frag_step P cs w 0 e)\<^sup>*"
proof
  assume "(vm_step P cs w)\<^sup>*\<^sup>* (0, i) (e, j)"
  then show "((0, i), (e, j)) \<in> (frag_step P cs w 0 e)\<^sup>*"
  proof (induction rule: converse_rtranclp_induct)
    case (step c c')
    have "fst c < length P" using step.hyps(1) by (cases rule: vm_step.cases) auto
    moreover have "fst c \<noteq> e" using step.hyps(1) exit_no_step [OF assms(2)] by (metis prod.collapse)
    ultimately have "(c, c') \<in> frag_step P cs w 0 e" using step.hyps(1) assms(1) by (simp add: frag_step_def)
    from this step.IH show ?case by (rule converse_rtrancl_into_rtrancl)
  qed simp
next
  assume "((0, i), (e, j)) \<in> (frag_step P cs w 0 e)\<^sup>*"
  then show "(vm_step P cs w)\<^sup>*\<^sup>* (0, i) (e, j)"
    by (induction rule: rtrancl_induct) (auto simp: frag_step_def intro: rtranclp.rtrancl_into_rtrancl)
qed

lemma has_match_reached:
  assumes "length P = e + 1" "i_op (P ! e) = Op_eMatch" "closed_frag P 0 e" "S \<subseteq> {..< length P}"
  shows "has_match P S \<longleftrightarrow> e \<in> S"
proof -
  have "pc = e" if "pc < length P" "i_op (P ! pc) = Op_eMatch" for pc
  proof (rule ccontr)
    assume "pc \<noteq> e"
    with that assms(1,3) have "targets_in (P ! pc) 0 e" by (simp add: closed_frag_def)
    with that show False by (simp add: targets_in_def)
  qed
  with assms(2,1) show ?thesis by (auto simp: has_match_def)
qed

lemma has_match_run:
  assumes e: "length P = e + 1" "i_op (P ! e) = Op_eMatch" "closed_frag P 0 e"
  shows "(\<exists>k \<le> length w. has_match P (reached P cs w (i_op (P ! 0) = Op_eInputStart) k)) \<longleftrightarrow>
    (\<exists>i \<le> length w. \<exists>j \<le> length w. (vm_step P cs w)\<^sup>*\<^sup>* (0, i) (e, j))"
    (is "_ = ?run")
proof -
  let ?a = "i_op (P ! 0) = Op_eInputStart"
  have only: "pc = e" if "pc < length P" "i_op (P ! pc) = Op_eMatch" for pc
    using has_match_reached [OF e, of "{pc}"] that by (auto simp: has_match_def)
  have iff: "has_match P (reached P cs w ?a k) \<longleftrightarrow>
      (\<exists>i \<le> length w. (?a \<longrightarrow> i = 0) \<and> (vm_step P cs w)\<^sup>*\<^sup>* (0, i) (e, k))" for k
    using only e(1,2) by (auto simp: has_match_def reached_def)
  have start: "i = 0" if r: "(vm_step P cs w)\<^sup>*\<^sup>* (0, i) (e, k)" and a: "?a" for i k
    using r
  proof (cases rule: converse_rtranclpE)
    case base
    with e(2) a show ?thesis by simp
  next
    case (step y)
    from step(1) show ?thesis
      by (cases rule: vm_step.cases)
        (use a in \<open>auto simp: eps_succs_def assertion_holds_def consumes_def position_at_def split: if_splits\<close>)
  qed
  with iff show ?thesis by blast
qed

text \<open>
  A constructed program is well-formed and has a run from \<open>(0, i)\<close> to its match instruction
  at \<open>j\<close> exactly when the parsed pattern matches from \<open>i\<close> to \<open>j\<close>.
\<close>

lemma Regex_Inr:
  assumes "Regex pattern = Inr rp"
  obtains root p code where "parse (new_parser pattern) = Inr (root, p)"
    "compile (root + 1) (p_nodes p) root [] = Inr code" "length code < max_program_size"
    "rp_instructions rp = code @ [instr Op_eMatch 0 0]" "rp_classes rp = p_classes p" "rp_pattern rp = pattern"
    "rp_anchored rp = (i_op (rp_instructions rp ! 0) = Op_eInputStart)"
proof -
  from assms obtain root p code where c: "parse (new_parser pattern) = Inr (root, p)"
    "compile (root + 1) (p_nodes p) root [] = Inr code" "length code < max_program_size"
    "rp = \<lparr>rp_pattern = pattern, rp_instructions = code @ [instr Op_eMatch 0 0], rp_classes = p_classes p,
       rp_anchored = (i_op (hd (code @ [instr Op_eMatch 0 0])) = Op_eInputStart)\<rparr>"
    by (auto simp: Regex_def emit_Inr)
  then show thesis by (intro that [of root p code]) (auto simp: hd_conv_nth)
qed

lemma Regex_wf:
  assumes "Regex pattern = Inr rp"
  shows "program_wf rp" and "length (rp_instructions rp) \<le> max_program_size"
proof -
  from assms obtain root p code where c: "parse (new_parser pattern) = Inr (root, p)"
    "compile (root + 1) (p_nodes p) root [] = Inr code" "length code < max_program_size"
    "rp_instructions rp = code @ [instr Op_eMatch 0 0]" "rp_classes rp = p_classes p"
    "rp_anchored rp = (i_op (rp_instructions rp ! 0) = Op_eInputStart)"
    by (rule Regex_Inr) blast
  note t = parse_wf [OF c(1)]
  have wb: "well_behaved (length (p_classes p)) (compile (root + 1) (p_nodes p)) root"
    by (rule compile_well_behaved [OF t(1,2)]) simp
  have "prog_ok (length (p_classes p)) code"
    by (rule well_behavedD(2) [OF wb c(2)]) (simp add: prog_ok_def)
  moreover have "closed_frag (rp_instructions rp) 0 (length code)"
    using denotes_frag [OF emitsD [OF compile_emits [OF t(1,2)] c(2)], of "rp_instructions rp" "[]"]
    by (simp add: c(4) agrees_def nth_append frag_def)
  ultimately show "program_wf rp"
    by (auto simp: program_wf_def c(4-6) classes_ok_def prog_ok_def ins_ok_def)
  show "length (rp_instructions rp) \<le> max_program_size" using c(3) by (simp add: c(4))
qed

lemma Regex_runs:
  assumes r: "Regex pattern = Inr rp" and p: "parse (new_parser pattern) = Inr (root, p)"
  shows "(vm_step (rp_instructions rp) (rp_classes rp) w)\<^sup>*\<^sup>* (0, i) (length (rp_instructions rp) - 1, j)
    \<longleftrightarrow> matches (p_nodes p) (p_classes p) w root i j"
proof -
  from r p obtain code where c: "compile (root + 1) (p_nodes p) root [] = Inr code"
    "rp_instructions rp = code @ [instr Op_eMatch 0 0]" "rp_classes rp = p_classes p"
    by (auto elim!: Regex_Inr)
  note t = parse_wf [OF p]
  have "frag (rp_instructions rp) (p_classes p) w 0 (length code) (matches (p_nodes p) (p_classes p) w root)"
    using denotes_frag [OF emitsD [OF compile_emits [OF t(1,2)] c(1)], of "rp_instructions rp" w]
    by (simp add: c(2) agrees_def nth_append)
  then show ?thesis
    using run_iff_frag [of "rp_instructions rp" "length code" "p_classes p" w i j]
    by (simp add: c(2,3) frag_def)
qed

text \<open>The engine against the declarative meaning of the pattern.\<close>

definition regex_matches :: "Node list \<Rightarrow> Range list list \<Rightarrow> nat \<Rightarrow> code_point list \<Rightarrow> bool" where
  "regex_matches ns cs root w \<longleftrightarrow> (\<exists>i \<le> length w. \<exists>j \<le> length w. matches ns cs w root i j)"

lemma search_good:
  assumes r: "Regex pattern = Inr rp" and p: "parse (new_parser pattern) = Inr (root, p)"
  shows "good_result (regex_matches (p_nodes p) (p_classes p) root (decode_all input 0))
    (length (rp_instructions rp) + length (decode_all input 0) * (length (rp_instructions rp) + 1)) steps_left
    (search_budget rp input steps_left)"
proof -
  define w where "w = decode_all input 0"
  note wf = Regex_wf(1) [OF r]
  then obtain e where e: "length (rp_instructions rp) = e + 1" "i_op (rp_instructions rp ! e) = Op_eMatch"
    "closed_frag (rp_instructions rp) 0 e" and a: "rp_anchored rp = (i_op (rp_instructions rp ! 0) = Op_eInputStart)"
    by (auto simp: program_wf_def)
  have "regex_matches (p_nodes p) (p_classes p) root w \<longleftrightarrow>
     (\<exists>k \<le> length w. has_match (rp_instructions rp) (reached (rp_instructions rp) (rp_classes rp) w (rp_anchored rp) k))"
    unfolding a has_match_run [OF e] using Regex_runs [OF r p, of w] e(1) by (simp add: regex_matches_def)
  with search_budget_spec [OF wf w_def, of steps_left] show ?thesis by (simp add: w_def)
qed

lemma decode_all_length: "pos \<le> length s \<Longrightarrow> length (decode_all s pos) \<le> length s - pos"
proof (induction s pos rule: decode_all.induct)
  case (1 s pos)
  show ?case
  proof (cases "pos < length s")
    case True
    with "1.IH" decode_utf8_advances [OF True]
    have "length (decode_all s (snd (decode_utf8 s pos))) \<le> length s - snd (decode_utf8 s pos)" by simp
    with True decode_utf8_advances [OF True] show ?thesis by (subst decode_all.simps) simp
  qed (simp add: decode_all.simps)
qed

lemma Regex_parsed: "Regex pattern = Inr rp \<Longrightarrow> \<exists>root p. parse (new_parser pattern) = Inr (root, p)"
  by (auto elim: Regex_Inr)

end
