(* ===== verification/RegexProps.thy ===== *)
theory RegexProps
  imports RegexVM
begin

text \<open>
  The properties of the regular expression engine (src/core/regex.cpp): UTF-8 decoding,
  character classes, the parser, the compiler and the search, each with a witness where it has
  a hypothesis. \<open>regex_search_exact\<close> composes all of them, from the bytes of the pattern to
  the answer of the search.
\<close>

subsection \<open>Evaluating the engine on an example\<close>

text \<open>The parser's steps on an explicit state, so that simplification stays on the path taken.\<close>

abbreviation "pp a b c d \<equiv> \<lparr>p_text = a, p_pos = b, p_nodes = c, p_classes = d\<rparr>"

lemma bindE_weak_cong: "m = m' \<Longrightarrow> bindE m k = bindE m' k" by simp

lemma cursor_eval:
  "advance (pp a b c d) = pp a (Suc b) c d"
  "peek (pp a b c d) k = (if b + k < length a then a ! (b + k) else 0)"
  "accept (pp a b c d) x =
     (if b < length a \<and> a ! b = cp x then (True, pp a (Suc b) c d) else (False, pp a b c d))"
  "at_end (pp a b c d) = (length a \<le> b)"
  "add (pp a b c d) n = (length c, pp a b (c @ [n]) d)"
  by (simp_all add: advance_def peek_def accept_def at_end_def add_def)

lemma quantifier_eval:
  "parse_quantifier (pp a b c d) = (if b < length a then
     (if a ! b = cp CHR ''*'' then Inr (Some (0, None), pp a (Suc b) c d)
      else if a ! b = cp CHR ''+'' then Inr (Some (1, None), pp a (Suc b) c d)
      else if a ! b = cp CHR ''?'' then Inr (Some (0, Some 1), pp a (Suc b) c d)
      else if a ! b = cp CHR ''{'' then parse_braces (pp a b c d) else Inr (None, pp a b c d))
     else Inr (None, pp a b c d))"
  by (simp add: parse_quantifier_def cursor_eval)

lemmas descent_eval =
  parse_alternation.simps(2) [of _ _ "pp a b c d" for a b c d]
  alternation_loop.simps(2) [of _ _ _ "pp a b c d" for a b c d]
  parse_concat.simps(2) [of _ _ "pp a b c d" for a b c d]
  concat_loop.simps(2) [of _ _ _ "pp a b c d" for a b c d]
  parse_repeat.simps(2) [of _ _ "pp a b c d" for a b c d]
  parse_atom.simps(2) [of _ _ "pp a b c d" for a b c d]

lemmas descent_stop =
  parse_alternation.simps alternation_loop.simps parse_concat.simps concat_loop.simps
  parse_repeat.simps parse_atom.simps

definition example_nodes :: "Node list" where
  "example_nodes =
     [new_node\<lparr>nd_kind := Kind_eChar, nd_code_point := 97\<rparr>,
      new_node\<lparr>nd_kind := Kind_eRepeat, nd_children := [0], nd_min := 1\<rparr>,
      new_node\<lparr>nd_kind := Kind_eChar, nd_code_point := 98\<rparr>,
      new_node\<lparr>nd_kind := Kind_eConcat, nd_children := [1, 2]\<rparr>]"

definition example_program :: RegexProgram where
  "example_program =
     \<lparr>rp_pattern = ''a+b'',
      rp_instructions = [instr Op_eChar 97 0, instr Op_eSplit 2 4, instr Op_eChar 97 0,
        instr Op_eJump 1 0, instr Op_eChar 98 0, instr Op_eMatch 0 0],
      rp_classes = [], rp_anchored = False\<rparr>"

lemma example_parse: "parse (new_parser ''a+b'') = Inr (3, pp [97, 43, 98] 3 example_nodes [])"
proof -
  have decoded: "decode_all ''a+b'' 0 = [97, 43, 98]" by (simp add: decode_all.simps decode_utf8_def)
  have fuel: "parse_fuel (pp [97, 43, 98] 0 [] []) = (Suc (Suc (Suc (Suc (Suc (Suc (Suc (Suc (Suc (Suc (Suc (Suc (Suc (Suc (Suc (Suc (Suc (Suc (Suc (Suc (Suc (Suc (Suc (Suc (Suc (Suc (Suc (Suc (Suc (Suc (Suc 0)))))))))))))))))))))))))))))))"
    by (simp add: parse_fuel_def rest_def)
  show ?thesis
    by (simp add: parse_def new_parser_def decoded fuel descent_eval cursor_eval quantifier_eval
        add_char_def example_nodes_def new_node_def cong: bindE_weak_cong del: descent_stop)
qed

lemma example_compile: "compile 4 example_nodes 3 [] = Inr (butlast (rp_instructions example_program))"
proof -
  have four: "4 = Suc (Suc (Suc (Suc 0)))" by simp
  show ?thesis
    unfolding four
    by (simp add: example_nodes_def example_program_def new_node_def emit1_def emit_def set_arg1_def set_arg2_def
        compile_repeat_def max_program_size_def numeral_2_eq_2 numeral_3_eq_3 cong: bindE_weak_cong)
qed

lemma example_regex: "Regex ''a+b'' = Inr example_program"
  using example_compile
  by (simp add: Regex_def example_parse emit_def example_program_def max_program_size_def
      del: compile.simps)

lemma example_search: "search_budget example_program ''xab'' 30 = Some (Some True, 15)"
  unfolding example_program_def by code_simp

lemma example_budget: "search_budget example_program ''xab'' 14 = Some (None, 0)"
  unfolding example_program_def by code_simp

subsection \<open>The search is exact\<close>

text \<open>C1: For every pattern the constructor accepts, every input and every step budget, the
  search never reads outside a vector and returns; when it answers, the answer is whether the
  parsed pattern, read as the ECMA-262 construct it stands for, matches somewhere in the
  decoded input; when it gives up (\<open>nullopt\<close>) the whole budget has been used.\<close>

theorem regex_search_exact:
  assumes "Regex pattern = Inr rp" and "parse (new_parser pattern) = Inr (root, p)"
  shows "\<exists>r left. search_budget rp input steps = Some (r, left) \<and> left \<le> steps
    \<and> (\<forall>b. r = Some b \<longrightarrow> b = regex_matches (p_nodes p) (p_classes p) root (decode_all input 0))
    \<and> (r = None \<longrightarrow> left = 0)"
  using search_good [OF assms, of input steps] by (auto simp: good_result_def)

lemma regex_search_exact_witness:
  "regex_matches example_nodes [] 3 (decode_all ''xab'' 0)"
  using regex_search_exact [OF example_regex example_parse, of "''xab''" 30] example_search by simp

text \<open>A search is linear: a budget of the program's size plus, for each byte of the input, one
  more than the program's size always buys an answer.\<close>

theorem regex_search_linear:
  assumes "Regex pattern = Inr rp"
    and "length (rp_instructions rp) + length input * (length (rp_instructions rp) + 1) \<le> steps"
  shows "\<exists>b left. search_budget rp input steps = Some (Some b, left)"
proof -
  obtain root p where p: "parse (new_parser pattern) = Inr (root, p)" using Regex_parsed [OF assms(1)] by blast
  have "length (decode_all input 0) \<le> length input" using decode_all_length [of 0 input] by simp
  then have "length (decode_all input 0) * (length (rp_instructions rp) + 1)
      \<le> length input * (length (rp_instructions rp) + 1)" by (rule mult_le_mono1)
  with search_good [OF assms(1) p, of input steps] assms(2) show ?thesis
    by (auto simp: good_result_def)
qed

lemma regex_search_linear_witness:
  "\<exists>b left. search_budget example_program ''xab'' 27 = Some (Some b, left)"
  by (rule regex_search_linear [OF example_regex]) (simp add: example_program_def)

text \<open>The unbounded \<open>search(input)\<close> dereferences the optional result of a search with budget
  \<open>SIZE_MAX\<close>; for inputs below \<open>2 ^ 49\<close> bytes that result is always there, so the call is
  defined and exact.\<close>

theorem regex_search_total:
  assumes "Regex pattern = Inr rp" and "parse (new_parser pattern) = Inr (root, p)"
    and "length input < 2 ^ 49"
  shows "search rp input = Some (regex_matches (p_nodes p) (p_classes p) root (decode_all input 0))"
proof -
  let ?n = "length (rp_instructions rp)" and ?m = "length (decode_all input 0)"
  have n: "?n \<le> 20000" using Regex_wf(2) [OF assms(1)] by (simp add: max_program_size_def)
  have m: "?m < 2 ^ 49" using decode_all_length [of 0 input] assms(3) by simp
  have "?m * (?n + 1) \<le> 2 ^ 49 * 20001" by (rule mult_le_mono) (use m n in simp_all)
  moreover have "20000 + 2 ^ 49 * 20001 \<le> size_max" by (simp add: size_max_def)
  ultimately have "?n + ?m * (?n + 1) \<le> size_max" using n by linarith
  with search_good [OF assms(1,2), of input size_max]
  obtain r left where "search_budget rp input size_max = Some (r, left)" "r \<noteq> None"
    "\<forall>b. r = Some b \<longrightarrow> b = regex_matches (p_nodes p) (p_classes p) root (decode_all input 0)"
    unfolding good_result_def by blast
  then show ?thesis by (auto simp: search_def simp del: decode_all.simps)
qed

lemma regex_search_total_witness:
  "search example_program ''xab'' = Some (regex_matches example_nodes [] 3 (decode_all ''xab'' 0))"
  using regex_search_total [OF example_regex example_parse, of "''xab''"] by simp

text \<open>The budget does not change the answer: two searches of one input that both answer agree,
  whatever the budgets they were given.\<close>

theorem regex_budget_independent:
  assumes "Regex pattern = Inr rp"
    and "search_budget rp input steps = Some (Some b, left)"
    and "search_budget rp input steps' = Some (Some b', left')"
  shows "b = b'"
proof -
  obtain root p where p: "parse (new_parser pattern) = Inr (root, p)" using Regex_parsed [OF assms(1)] by blast
  from search_good [OF assms(1) p, of input steps] search_good [OF assms(1) p, of input steps'] assms(2,3)
  show ?thesis by (auto simp: good_result_def)
qed

lemma regex_budget_independent_witness: "True = True \<and> search_budget example_program ''xab'' 30 = Some (Some True, 15)"
  using regex_budget_independent [OF example_regex example_search example_search] example_search by simp

subsection \<open>Construction\<close>

text \<open>C39: Constructing a \<open>Regex\<close> always returns: whatever the bytes of the pattern, the recursive
  descent and the compiler finish with a program or a \<open>RegexError\<close>.\<close>

theorem regex_constructor_returns: "Regex pattern \<noteq> Inl OutOfFuel"
proof
  assume "Regex pattern = Inl OutOfFuel"
  then obtain root p where p: "parse (new_parser pattern) = Inr (root, p)"
    and c: "compile (root + 1) (p_nodes p) root [] = Inl OutOfFuel"
    using parse_not_out_of_fuel [of "new_parser pattern"] by (auto simp: Regex_def bindE_Inl emit_def split: if_splits)
  with compile_not_out_of_fuel [OF parse_wf(1,2) [OF p], of "root + 1" "[]"] show False by simp
qed

text \<open>A constructed program is safe to run: at most 20000 instructions, the match instruction
  at its end and nowhere else, every jump and split target inside the program, every class
  index inside the class table.\<close>

theorem regex_program_safe:
  assumes "Regex pattern = Inr rp"
  shows "length (rp_instructions rp) \<le> 20000 \<and> (\<exists>e. length (rp_instructions rp) = e + 1
      \<and> (\<forall>pc \<le> e. i_op (rp_instructions rp ! pc) = Op_eMatch \<longleftrightarrow> pc = e)
      \<and> (\<forall>pc < e. targets_in (rp_instructions rp ! pc) 0 e)
      \<and> (\<forall>pc < e. i_op (rp_instructions rp ! pc) = Op_eClass \<longrightarrow>
            i_arg1 (rp_instructions rp ! pc) < length (rp_classes rp)))"
proof
  show "length (rp_instructions rp) \<le> 20000" using Regex_wf(2) [OF assms] by (simp add: max_program_size_def)
  obtain e where e: "length (rp_instructions rp) = e + 1" "i_op (rp_instructions rp ! e) = Op_eMatch"
    "closed_frag (rp_instructions rp) 0 e" "classes_ok (rp_classes rp) (rp_instructions rp)"
    using Regex_wf(1) [OF assms] by (auto simp: program_wf_def)
  have t: "targets_in (rp_instructions rp ! pc) 0 e" if "pc < e" for pc
    using e(3) that by (simp add: closed_frag_def)
  moreover have "i_op (rp_instructions rp ! pc) = Op_eMatch \<longleftrightarrow> pc = e" if "pc \<le> e" for pc
    using t [of pc] e(2) that by (cases "pc = e") (auto simp: targets_in_def)
  ultimately show "\<exists>e. length (rp_instructions rp) = e + 1
      \<and> (\<forall>pc \<le> e. i_op (rp_instructions rp ! pc) = Op_eMatch \<longleftrightarrow> pc = e)
      \<and> (\<forall>pc < e. targets_in (rp_instructions rp ! pc) 0 e)
      \<and> (\<forall>pc < e. i_op (rp_instructions rp ! pc) = Op_eClass \<longrightarrow>
            i_arg1 (rp_instructions rp ! pc) < length (rp_classes rp))"
    using e(1,4) by (auto simp: classes_ok_def ins_ok_def intro!: exI [of _ e])
qed

lemma regex_program_safe_witness: "length (rp_instructions example_program) \<le> 20000"
  using regex_program_safe [OF example_regex] by simp

text \<open>C40: Compiling a node of a well-formed table appends code whose runs, from its first
  instruction to its end, relate exactly the positions the node matches between, wherever the
  code is placed unchanged in a larger program.\<close>

theorem regex_compile_correct:
  assumes "table_ok ns cs" and "k < length ns" and "compile fuel ns k p = Inr p'"
  shows "\<exists>code. p' = p @ code \<and>
    (\<forall>tail i j. ((length p, i), (length p', j)) \<in> (frag_step (p' @ tail) cs w (length p) (length p'))\<^sup>*
        \<longleftrightarrow> matches ns cs w k i j)"
proof -
  note d = emitsD [OF compile_emits [OF assms(1,2)] assms(3)]
  obtain code where "p' = p @ code" using denotes_prefix [OF d] by (auto elim: prefixE)
  moreover have "agrees (p' @ tail) p' (length p) (length p')" for tail by (auto simp: agrees_def nth_append)
  ultimately show ?thesis using denotes_frag [OF d] by (auto simp: frag_def)
qed

lemma example_table: "table_ok example_nodes []"
  by (auto simp: table_ok_def example_nodes_def node_ok_def new_node_def less_Suc_eq g_max_code_point_def)

lemma regex_compile_correct_witness:
  "\<exists>code. butlast (rp_instructions example_program) = [] @ code"
  using regex_compile_correct [OF example_table _ example_compile] by (auto simp: example_nodes_def)

subsection \<open>The thread list\<close>

text \<open>The sparse set refines a set of program counters: on a list that satisfies its invariant a
  membership test answers membership, inserting an absent number adds just that number, and
  both stay inside the two vectors; clearing keeps the invariant though it leaves both vectors'
  contents in place.\<close>

theorem thread_list_refines_set:
  assumes "tl_invar l" and "pc < tl_capacity l"
  shows "tl_contains l pc = Some (pc \<in> tl_elems l)
    \<and> (pc \<notin> tl_elems l \<longrightarrow> (\<exists>l'. tl_insert l pc = Some l' \<and> tl_invar l' \<and> tl_elems l' = insert pc (tl_elems l)))
    \<and> tl_invar (tl_clear l) \<and> tl_elems (tl_clear l) = {} \<and> tl_count l = card (tl_elems l)"
  using sparse.member_law [OF assms] sparse.insert_law [OF assms] sparse.clear_law [OF assms(1)]
    sparse.size_law [OF assms(1)] by blast

lemma thread_list_refines_set_witness:
  "tl_contains (new_thread_list 3) 2 = Some False"
  using thread_list_refines_set [of "new_thread_list 3" 2] by simp

text \<open>\<open>add_thread\<close> computes a closure: from a list of program counters closed under the zero-width
  steps possible at a position it returns without leaving the program, reports whether the
  match instruction is reachable from the new start by such steps, and otherwise leaves exactly
  the old elements and those reachable from the start.\<close>

theorem add_thread_closure:
  assumes "targets_ok P" and "threads P here l" and "start < length P"
  shows "\<exists>l' matched. add_thread P l start here = Some (l', matched)
    \<and> (matched \<longleftrightarrow> has_match P ((eps_edges P here)\<^sup>* `` {start}))
    \<and> (\<not> matched \<longrightarrow> threads P here l' \<and> tl_elems l' = tl_elems l \<union> (eps_edges P here)\<^sup>* `` {start})"
  using add_thread_spec [OF assms] by (simp add: closure_def)

lemma add_thread_closure_witness:
  "\<exists>l' matched. add_thread (rp_instructions example_program) (new_thread_list 6) 1 (position_at [97] 0) = Some (l', matched)"
proof -
  have "targets_ok (rp_instructions example_program)"
    by (rule program_wf_targets) (rule Regex_wf(1) [OF example_regex])
  moreover have "threads (rp_instructions example_program) (position_at [97] 0) (new_thread_list 6)"
    by (simp add: threads_def eps_closed_def has_match_def example_program_def)
  ultimately show ?thesis
    using add_thread_closure [of "rp_instructions example_program" "position_at [97] 0" "new_thread_list 6" 1]
    by (auto simp: example_program_def)
qed

subsection \<open>Classes\<close>

text \<open>A class built from any list of ranges is normal and exact: the stored form is sorted and
  disjoint with a gap between neighbours, the binary search finds a code point exactly when one
  of the given ranges holds it, and the complement of the class holds exactly the code points it
  does not.\<close>

theorem class_exact:
  assumes "\<forall>r \<in> set rs. range_ok r"
  shows "canonical (normalize rs) \<and> (contains (normalize rs) c \<longleftrightarrow> (\<exists>r \<in> set rs. rfirst r \<le> c \<and> c \<le> rlast r))
    \<and> canonical (complement rs)
    \<and> (contains (complement rs) c \<longleftrightarrow> c \<le> g_max_code_point \<and> \<not> contains (normalize rs) c)"
  using normalize_canonical [OF assms] complement_canonical [OF assms]
  by (auto simp: contains_canonical ranges_set_def range_set_def)

lemma class_exact_witness: "contains (normalize [mk_range 5 9, mk_range 1 6]) 7"
  using class_exact [of "[mk_range 5 9, mk_range 1 6]" 7] by (simp add: mk_range_def range_ok_def g_max_code_point_def)

text \<open>The normal form of a class is unique: two lists of ranges over the same code points
  normalize to the same class, in whatever order \<open>std::sort\<close> leaves ranges that start alike.\<close>

theorem normalize_unique:
  assumes "\<forall>r \<in> set rs. range_ok r" and "\<forall>r \<in> set ys. range_ok r" and "ranges_set rs = ranges_set ys"
  shows "normalize rs = normalize ys \<and>
    (\<forall>zs. set zs = set rs \<and> sorted (map rfirst zs) \<longrightarrow> foldl normalize_step [] zs = normalize ys)"
proof -
  have "normalize rs = normalize ys"
    using normalize_canonical [OF assms(1)] normalize_canonical [OF assms(2)] assms(3)
    by (intro canonical_unique) auto
  with normalize_any_sort [OF assms(1)] show ?thesis by auto
qed

lemma normalize_unique_witness:
  "normalize [mk_range 5 9, mk_range 1 6] = normalize [mk_range 1 9]"
proof -
  have "ranges_set [mk_range 5 9, mk_range 1 6] = ranges_set [mk_range 1 9]"
    by (auto simp: ranges_set_def range_set_def mk_range_def)
  with normalize_unique [of "[mk_range 5 9, mk_range 1 6]" "[mk_range 1 9]"] show ?thesis
    by (simp add: mk_range_def range_ok_def g_max_code_point_def)
qed

subsection \<open>UTF-8\<close>

lemma decode_all_append:
  "\<forall>c \<in> set cs. unicode_scalar c \<Longrightarrow>
     decode_all (pre @ concat (map utf8_encode cs)) (length pre) = cs"
proof (induction cs arbitrary: pre)
  case Nil
  then show ?case by (simp add: decode_all.simps)
next
  case (Cons c cs)
  let ?s = "pre @ concat (map utf8_encode (c # cs))"
  have ne: "utf8_encode c \<noteq> []" by (simp add: utf8_encode_def utf8_encode_bytes_def)
  then have lt: "length pre < length ?s" by simp
  have "encoded_at ?s (length pre) c" using Cons.prems by (simp add: encoded_at_def)
  from decode_utf8_encoded [OF lt this]
  have d: "decode_utf8 ?s (length pre) = (c, length (pre @ utf8_encode c))" by simp
  have "decode_all ?s (length (pre @ utf8_encode c)) = cs"
    using Cons.IH [of "pre @ utf8_encode c"] Cons.prems by simp
  with d lt show ?case by (subst decode_all.simps) simp
qed

text \<open>UTF-8 decoding inverts encoding: the engine reads back every sequence of Unicode scalar
  values from its UTF-8 encoding, so patterns and inputs are matched by code point.\<close>

theorem utf8_roundtrip:
  assumes "\<forall>c \<in> set cs. unicode_scalar c"
  shows "decode_all (concat (map utf8_encode cs)) 0 = cs"
  using decode_all_append [OF assms, of "[]"] by simp

lemma utf8_roundtrip_witness: "decode_all (concat (map utf8_encode [0x61, 0x20AC, 0x1F600])) 0 = [0x61, 0x20AC, 0x1F600]"
  by (rule utf8_roundtrip) (simp add: unicode_scalar_def)

text \<open>The two UTF-8 decoders of the program, of the regular expression engine and of the
  diagnostics sanitizer, accept the same sequences at every position of every string: the
  first yields U+FFFD and one byte exactly where the second reports a malformed sequence, and
  elsewhere they yield the same code point and length.\<close>

theorem utf8_decoders_agree:
  assumes "pos < length s"
  shows "decode_utf8 s pos =
     (let seq = decode_utf8_sequence s pos in
      if useq_length seq = 0 then (0xFFFD, pos + 1) else (useq_codepoint seq, pos + useq_length seq))"
proof (cases "\<exists>c. encoded_at s pos c")
  case True
  then obtain c where c: "encoded_at s pos c" by blast
  have "0 < length (utf8_encode c)" by (simp add: utf8_encode_def utf8_encode_bytes_def)
  with decode_utf8_encoded [OF assms c] decode_utf8_sequence_spec(1) [OF assms c] show ?thesis by (simp add: Let_def)
next
  case False
  with decode_utf8_malformed [OF assms False] decode_utf8_sequence_spec(2) [OF assms False] show ?thesis
    by (simp add: Let_def utf8_malformed_def)
qed

lemma utf8_decoders_agree_witness:
  "decode_utf8 [CHR 0xC3, CHR 0xA9] 0 = (0xE9, 2) \<and> decode_utf8_sequence [CHR 0xC3, CHR 0xA9] 0 = \<lparr>useq_length = 2, useq_codepoint = 0xE9\<rparr>"
proof -
  have enc: "encoded_at [CHR 0xC3, CHR 0xA9] 0 0xE9"
    by (simp add: encoded_at_def unicode_scalar_def utf8_encode_def utf8_encode_bytes_def char_of_def bit_numeral_rec bit_0)
  have "decode_utf8_sequence [CHR 0xC3, CHR 0xA9] 0 = \<lparr>useq_length = 2, useq_codepoint = 0xE9\<rparr>"
    using decode_utf8_sequence_spec(1) [of 0 "[CHR 0xC3, CHR 0xA9]", OF _ enc]
    by (simp add: utf8_encode_def utf8_encode_bytes_def)
  with utf8_decoders_agree [of 0 "[CHR 0xC3, CHR 0xA9]"] show ?thesis by (simp add: Let_def)
qed

end
