(* ===== verification/Diagnostics.thy ===== *)
theory Diagnostics
  imports Utf8
begin

text \<open>
  The cleaning of peer-controlled text before it enters a diagnostic message:
  \<open>sanitize_for_diagnostics\<close> of src/auth/metadata_policy.cpp, which src/detail/diagnostic_text.hpp
  forwards to. The result is a well-formed UTF-8 text of bounded length in which no character
  ends or re-orders a line, and clean short text passes unchanged.
\<close>

definition breaks_a_line :: "code_point \<Rightarrow> bool" where
  "breaks_a_line c \<longleftrightarrow> c < 0x20 \<or> c = 0x7f \<or> (c \<ge> 0x80 \<and> c \<le> 0x9f) \<or> c = 0x2028 \<or> c = 0x2029"

definition reorders_the_line :: "code_point \<Rightarrow> bool" where
  "reorders_the_line c \<longleftrightarrow> (c \<ge> 0x202a \<and> c \<le> 0x202e) \<or> (c \<ge> 0x2066 \<and> c \<le> 0x2069)
     \<or> c = 0x200e \<or> c = 0x200f \<or> c = 0x061c"

definition diagnostics_max_length :: nat where
  "diagnostics_max_length = 256"

text \<open>One turn of the loop: what replaces the sequence at \<open>index\<close>, and how many bytes it spans.\<close>

definition sanitize_step :: "string \<Rightarrow> nat \<Rightarrow> string \<times> nat" where
  "sanitize_step val index =
     (let decoded = decode_utf8_sequence val index;
          width = (if useq_length decoded = 0 then 1 else useq_length decoded)
      in (if useq_length decoded = 0 then ''?''
          else if breaks_a_line (useq_codepoint decoded) \<or> reorders_the_line (useq_codepoint decoded) then '' ''
          else take (useq_length decoded) (drop index val), width))"

lemma sanitize_step_width: "0 < snd (sanitize_step val index)"
  by (simp add: sanitize_step_def Let_def)

function sanitize_loop :: "string \<Rightarrow> nat \<Rightarrow> string \<Rightarrow> string \<times> bool" where
  "sanitize_loop val index cleaned =
     (if index < length val then
        (case sanitize_step val index of (piece, width) \<Rightarrow>
           if length cleaned + width > diagnostics_max_length then (cleaned, True)
           else sanitize_loop val (index + width) (cleaned @ piece))
      else (cleaned, False))"
  by pat_completeness auto
termination
proof (relation "measure (\<lambda>(val, index, cleaned). length val - index)", goal_cases)
  case (2 val index cleaned piece width)
  with sanitize_step_width [of val index] have "0 < width" by (simp add: prod_eq_iff)
  with 2 show ?case by simp
qed simp

declare sanitize_loop.simps [simp del]

definition sanitize_for_diagnostics :: "string \<Rightarrow> string" where
  "sanitize_for_diagnostics val =
     (case sanitize_loop val 0 [] of (cleaned, truncated) \<Rightarrow> if truncated then cleaned @ ''...'' else cleaned)"

subsection \<open>Clean text\<close>

definition harmless :: "code_point \<Rightarrow> bool" where
  "harmless c \<longleftrightarrow> unicode_scalar c \<and> \<not> breaks_a_line c \<and> \<not> reorders_the_line c"

definition clean_text :: "string \<Rightarrow> bool" where
  "clean_text s \<longleftrightarrow> (\<exists>cs. (\<forall>c \<in> set cs. harmless c) \<and> s = concat (map utf8_encode cs))"

lemma clean_text_Nil [simp]: "clean_text []"
  by (auto simp: clean_text_def intro: exI [of _ "[]"])

lemma clean_text_encode: "harmless c \<Longrightarrow> clean_text (utf8_encode c)"
  by (auto simp: clean_text_def intro: exI [of _ "[c]"])

lemma clean_text_append: "clean_text s \<Longrightarrow> clean_text t \<Longrightarrow> clean_text (s @ t)"
  unfolding clean_text_def by (elim exE conjE) (rule_tac x = "cs @ csa" in exI, auto)

lemma clean_ascii: "clean_text ''?''" "clean_text '' ''" "clean_text ''...''"
proof -
  have *: "clean_text [char_of c]" if "0x20 \<le> c" "c < 0x7f" for c :: nat
    using clean_text_encode [of c] that
    by (simp add: harmless_def unicode_scalar_def breaks_a_line_def reorders_the_line_def utf8_encode_def utf8_encode_bytes_def)
  have c: "CHR ''?'' = char_of (63 :: nat)" "CHR '' '' = char_of (32 :: nat)" "CHR ''.'' = char_of (46 :: nat)"
    by (simp_all add: char_of_def bit_numeral_rec bit_0)
  show "clean_text ''?''" "clean_text '' ''" unfolding c by (rule *; simp)+
  have "clean_text ''.''" unfolding c by (rule *) simp_all
  from clean_text_append [OF this clean_text_append [OF this this]] show "clean_text ''...''" by simp
qed

lemma sanitize_step_clean:
  assumes "index < length val"
  shows "clean_text (fst (sanitize_step val index))"
    and "length (fst (sanitize_step val index)) \<le> snd (sanitize_step val index)"
    and "index + snd (sanitize_step val index) \<le> length val"
proof -
  have "clean_text (fst (sanitize_step val index))
    \<and> length (fst (sanitize_step val index)) \<le> snd (sanitize_step val index)
    \<and> index + snd (sanitize_step val index) \<le> length val"
  proof (cases "\<exists>c. encoded_at val index c")
    case True
    then obtain c where c: "encoded_at val index c" by blast
    note d = decode_utf8_sequence_spec(1) [OF assms c]
    have piece: "take (length (utf8_encode c)) (drop index val) = utf8_encode c" and sc: "unicode_scalar c"
      using c by (simp_all add: encoded_at_def)
    have len: "length (utf8_encode c) \<le> length val - index"
      using piece by (metis length_drop length_take min.cobounded1)
    have "harmless c" if "\<not> (breaks_a_line c \<or> reorders_the_line c)" using that sc by (simp add: harmless_def)
    with utf8_encode_length(1) [of c] len assms show ?thesis
      by (auto simp: sanitize_step_def d piece clean_ascii clean_text_encode Let_def Suc_le_eq)
  next
    case False
    note d = decode_utf8_sequence_spec(2) [OF assms False]
    with assms show ?thesis by (simp add: sanitize_step_def utf8_malformed_def clean_ascii)
  qed
  then show "clean_text (fst (sanitize_step val index))"
    "length (fst (sanitize_step val index)) \<le> snd (sanitize_step val index)"
    "index + snd (sanitize_step val index) \<le> length val" by auto
qed

lemma sanitize_loop_clean:
  "clean_text cleaned \<Longrightarrow> length cleaned \<le> diagnostics_max_length \<Longrightarrow> sanitize_loop val index cleaned = (r, t) \<Longrightarrow>
     clean_text r \<and> length r \<le> diagnostics_max_length"
proof (induction val index cleaned rule: sanitize_loop.induct)
  case (1 val index cleaned)
  show ?case
  proof (cases "index < length val")
    case True
    obtain piece width where st: "sanitize_step val index = (piece, width)" by force
    with sanitize_step_clean [OF True] have p: "clean_text piece" "length piece \<le> width" by auto
    show ?thesis
    proof (cases "length cleaned + width > diagnostics_max_length")
      case True
      with "1.prems" \<open>index < length val\<close> st show ?thesis by (subst (asm) sanitize_loop.simps) simp
    next
      case False
      with "1.prems" True st have "sanitize_loop val (index + width) (cleaned @ piece) = (r, t)"
        by (subst (asm) sanitize_loop.simps) simp
      then show ?thesis
        using "1.IH" [OF True st [symmetric] False] "1.prems" p False by (simp add: clean_text_append)
    qed
  next
    case False
    with "1.prems" show ?thesis by (subst (asm) sanitize_loop.simps) simp
  qed
qed

text \<open>Text that is already clean passes while it fits.\<close>

lemma sanitize_loop_identity:
  "\<forall>c \<in> set cs. harmless c \<Longrightarrow> length (pre @ concat (map utf8_encode cs)) \<le> diagnostics_max_length \<Longrightarrow>
     sanitize_loop (pre @ concat (map utf8_encode cs)) (length pre) pre = (pre @ concat (map utf8_encode cs), False)"
proof (induction cs arbitrary: pre)
  case Nil
  then show ?case by (simp add: sanitize_loop.simps)
next
  case (Cons c cs)
  let ?s = "pre @ concat (map utf8_encode (c # cs))"
  have h: "harmless c" using Cons.prems by simp
  have lt: "length pre < length ?s" using utf8_encode_length(1) [of c] by simp
  have e: "encoded_at ?s (length pre) c" using h by (simp add: encoded_at_def harmless_def)
  have st: "sanitize_step ?s (length pre) = (utf8_encode c, length (utf8_encode c))"
    using decode_utf8_sequence_spec(1) [OF lt e] h utf8_encode_length(1) [of c]
    by (simp add: sanitize_step_def harmless_def)
  have "sanitize_loop ?s (length pre) pre
      = sanitize_loop ((pre @ utf8_encode c) @ concat (map utf8_encode cs)) (length (pre @ utf8_encode c)) (pre @ utf8_encode c)"
    using Cons.prems lt st by (subst sanitize_loop.simps) simp
  also have "\<dots> = ((pre @ utf8_encode c) @ concat (map utf8_encode cs), False)"
    by (rule Cons.IH) (use Cons.prems in auto)
  finally show ?case by simp
qed

subsection \<open>Properties\<close>

text \<open>Whatever bytes a peer sends, the text put into a diagnostic is well-formed UTF-8, holds no
  character that ends a line (C0 and C1 controls, DEL, U+2028, U+2029) and none that re-orders
  one, and is at most 256 bytes plus an ellipsis.\<close>

theorem sanitize_safe:
  "clean_text (sanitize_for_diagnostics val) \<and> length (sanitize_for_diagnostics val) \<le> 256 + 3"
proof -
  obtain r t where r: "sanitize_loop val 0 [] = (r, t)" by force
  from sanitize_loop_clean [OF clean_text_Nil _ r] have "clean_text r" "length r \<le> 256"
    by (simp_all add: diagnostics_max_length_def)
  then show ?thesis by (simp add: sanitize_for_diagnostics_def r clean_text_append clean_ascii)
qed

text \<open>Text that needs no cleaning is kept: every sequence of harmless characters whose encoding
  takes at most 256 bytes is returned byte for byte, so sanitizing a sanitized text that was not
  cut changes nothing.\<close>

theorem sanitize_identity:
  assumes "clean_text s" and "length s \<le> 256"
  shows "sanitize_for_diagnostics s = s"
proof -
  from assms(1) obtain cs where "\<forall>c \<in> set cs. harmless c" "s = concat (map utf8_encode cs)"
    by (auto simp: clean_text_def)
  with sanitize_loop_identity [of cs "[]"] assms(2) show ?thesis
    by (simp add: sanitize_for_diagnostics_def diagnostics_max_length_def)
qed

lemma sanitize_identity_witness: "sanitize_for_diagnostics ''...'' = ''...''"
  by (rule sanitize_identity [OF clean_ascii(3)]) simp

end
