(* ===== verification/Ascii.thy ===== *)
theory Ascii
  imports Prelude
begin

text \<open>
  The character classes of the C locale the program uses through \<open>std::isalnum\<close>,
  \<open>std::tolower\<close> and their hand-written equivalents, on single bytes.
\<close>

definition is_upper :: "char \<Rightarrow> bool" where
  "is_upper c \<longleftrightarrow> 65 \<le> (byte_of c :: nat) \<and> (byte_of c :: nat) \<le> 90"

definition is_lower :: "char \<Rightarrow> bool" where
  "is_lower c \<longleftrightarrow> 97 \<le> (byte_of c :: nat) \<and> (byte_of c :: nat) \<le> 122"

definition is_digit_char :: "char \<Rightarrow> bool" where
  "is_digit_char c \<longleftrightarrow> 48 \<le> (byte_of c :: nat) \<and> (byte_of c :: nat) \<le> 57"

definition is_alnum :: "char \<Rightarrow> bool" where
  "is_alnum c \<longleftrightarrow> is_upper c \<or> is_lower c \<or> is_digit_char c"

definition lower_char :: "char \<Rightarrow> char" where
  "lower_char c = (if is_upper c then char_of (byte_of c + 32 :: nat) else c)"

definition upper_char :: "char \<Rightarrow> char" where
  "upper_char c = (if is_lower c then char_of (byte_of c - 32 :: nat) else c)"

lemma byte_lower_char: "is_upper c \<Longrightarrow> byte_of (lower_char c) = (byte_of c + 32 :: nat)"
  by (simp add: lower_char_def is_upper_def)

lemma lower_char_idem [simp]: "lower_char (lower_char c) = lower_char c"
proof (cases "is_upper c")
  case True
  then have "\<not> is_upper (lower_char c)" using byte_lower_char [OF True] by (simp add: is_upper_def)
  then show ?thesis by (simp add: lower_char_def)
qed (simp add: lower_char_def)

text \<open>What a sequence of characters up to the first that fails \<open>p\<close> leaves: every scanning loop.\<close>

definition skip_while :: "(char \<Rightarrow> bool) \<Rightarrow> string \<Rightarrow> string" where
  "skip_while p s = dropWhile p s"

lemma skip_while_length: "length (skip_while p s) \<le> length s"
  by (simp add: skip_while_def length_dropWhile_le)

lemma skip_while_stop [simp]: "s = [] \<or> \<not> p (hd s) \<Longrightarrow> skip_while p s = s"
  by (cases s) (auto simp: skip_while_def)

lemma skip_while_Cons [simp]: "p c \<Longrightarrow> skip_while p (c # s) = skip_while p s"
  by (simp add: skip_while_def)

end
