(* ===== verification/MetadataPolicy.thy ===== *)
theory MetadataPolicy
  imports Diagnostics Ascii
begin

text \<open>
  The policy that guards outbound OAuth metadata requests (src/auth/metadata_policy.cpp): origins
  are canonicalized before the deny and allow lists see them, and addresses are classified
  before they are connected to. Boost.Asio's address parsing and formatting and its predicates on
  IPv6 addresses are a parameter (\<open>AsioIp\<close>); \<open>asio_ok\<close> states what their documentation says.
\<close>

subsection \<open>Splitting a URL\<close>

text \<open>\<open>split_url\<close>: the scheme and the authority, or nothing when it returns false.\<close>

definition ends_authority :: "char \<Rightarrow> bool" where
  "ends_authority c \<longleftrightarrow> c = CHR ''/'' \<or> c = CHR ''?'' \<or> c = CHR ''#''"

definition split_url :: "string \<Rightarrow> (string \<times> string) option" where
  "split_url url =
     (case find_text ''://'' url of
        None \<Rightarrow> None
      | Some scheme_end \<Rightarrow>
          if scheme_end = 0 then None
          else
            (let authority_start = scheme_end + 3;
                 authority_end = (case find_from ends_authority url authority_start of
                                    None \<Rightarrow> length url | Some index \<Rightarrow> index);
                 authority = take (authority_end - authority_start) (drop authority_start url)
             in if authority = [] then None else Some (take scheme_end url, authority)))"

definition is_char :: "char \<Rightarrow> char \<Rightarrow> bool" where
  "is_char c x \<longleftrightarrow> x = c"

definition authority_host :: "string \<Rightarrow> string option" where
  "authority_host authority =
     (if hd authority = CHR ''['' then
        (case find_from (is_char CHR '']'') authority 0 of
           None \<Rightarrow> None
         | Some closing \<Rightarrow> if closing = 1 then None else Some (take (closing - 1) (drop 1 authority)))
      else
        (case find_from (is_char CHR '':'') authority 0 of
           None \<Rightarrow> Some authority
         | Some colon \<Rightarrow>
             if find_from (is_char CHR '':'') authority (colon + 1) \<noteq> None then None
             else if take colon authority = [] then None
             else Some (take colon authority)))"

definition lowercase_ascii :: "string \<Rightarrow> string" where
  "lowercase_ascii s = map lower_char s"

fun strict_port_loop :: "string \<Rightarrow> nat \<Rightarrow> nat option" where
  "strict_port_loop [] v = Some v"
| "strict_port_loop (c # cs) v =
     (if byte_of c < (48::nat) \<or> byte_of c > (57::nat) then None
      else (let v' = v * 10 + (byte_of c - 48) in
            if v' > 65535 then None else strict_port_loop cs v'))"

definition parse_strict_port :: "string \<Rightarrow> nat option" where
  "parse_strict_port port_text = (if port_text = [] then None else strict_port_loop port_text 0)"

subsection \<open>Addresses\<close>

datatype Address = V4 "32 word" | V6 "byte list"

text \<open>The functions of Boost.Asio the policy calls.\<close>

record AsioIp =
  make_address :: "string \<Rightarrow> Address option"
  address_text :: "Address \<Rightarrow> string"
  v4_is_loopback :: "32 word \<Rightarrow> bool"
  v6_is_unspecified :: "byte list \<Rightarrow> bool"
  v6_is_loopback :: "byte list \<Rightarrow> bool"
  v6_is_link_local :: "byte list \<Rightarrow> bool"
  v6_is_multicast :: "byte list \<Rightarrow> bool"
  v6_is_site_local :: "byte list \<Rightarrow> bool"

definition address_is_loopback :: "AsioIp \<Rightarrow> Address \<Rightarrow> bool" where
  "address_is_loopback ip a = (case a of V4 v \<Rightarrow> v4_is_loopback ip v | V6 b \<Rightarrow> v6_is_loopback ip b)"

subsection \<open>Canonical origins\<close>

record CanonicalOrigin =
  co_scheme :: string
  co_host :: string
  co_port :: "nat option"
  co_bracketed :: bool

text \<open>The port text of an authority, if one is written.\<close>

definition authority_port :: "string \<Rightarrow> string option" where
  "authority_port authority =
     (if hd authority = CHR ''['' then
        (case find_from (is_char CHR '']'') authority 0 of
           Some closing \<Rightarrow>
             if closing + 1 < length authority \<and> authority ! (closing + 1) = CHR '':''
             then Some (drop (closing + 2) authority) else None
         | None \<Rightarrow> None)
      else
        (case find_from (is_char CHR '':'') authority 0 of
           Some colon \<Rightarrow> Some (drop (colon + 1) authority)
         | None \<Rightarrow> None))"

definition strip_trailing_dots :: "string \<Rightarrow> string" where
  "strip_trailing_dots s = rev (dropWhile (\<lambda>c. c = CHR ''.'') (rev s))"

definition canonical_host :: "AsioIp \<Rightarrow> string \<Rightarrow> string option" where
  "canonical_host ip host =
     (case make_address ip host of
        Some a \<Rightarrow> Some (address_text ip a)
      | None \<Rightarrow> (let h = strip_trailing_dots (lowercase_ascii host) in if h = [] then None else Some h))"

definition default_port :: "string \<Rightarrow> nat \<Rightarrow> bool" where
  "default_port scheme port \<longleftrightarrow> (port = 443 \<and> scheme = ''https'') \<or> (port = 80 \<and> scheme = ''http'')"

definition canonicalize_origin_parts :: "AsioIp \<Rightarrow> string \<Rightarrow> CanonicalOrigin option" where
  "canonicalize_origin_parts ip origin =
     (case split_url origin of
        None \<Rightarrow> None
      | Some (scheme, authority) \<Rightarrow>
          if length scheme + 3 + length authority \<noteq> length origin then None
          else (case authority_host authority of
              None \<Rightarrow> None
            | Some host \<Rightarrow>
                (case (case authority_port authority of
                         None \<Rightarrow> Some None
                       | Some port_text \<Rightarrow> map_option Some (parse_strict_port port_text)) of
                   None \<Rightarrow> None
                 | Some port \<Rightarrow>
                     (let scheme' = lowercase_ascii scheme in
                      case canonical_host ip host of
                        None \<Rightarrow> None
                      | Some host' \<Rightarrow>
                          Some \<lparr>co_scheme = scheme', co_host = host',
                                co_port = (case port of
                                             Some p \<Rightarrow> if default_port scheme' p then None else Some p
                                           | None \<Rightarrow> None),
                                co_bracketed = (hd authority = CHR ''['')\<rparr>))))"

definition format_canonical_origin :: "CanonicalOrigin \<Rightarrow> string" where
  "format_canonical_origin parts =
     co_scheme parts @ ''://''
     @ (if co_bracketed parts then ''['' @ co_host parts @ '']'' else co_host parts)
     @ (case co_port parts of None \<Rightarrow> [] | Some p \<Rightarrow> '':'' @ decimal p)"

definition canonicalize_origin :: "AsioIp \<Rightarrow> string \<Rightarrow> string option" where
  "canonicalize_origin ip origin = map_option format_canonical_origin (canonicalize_origin_parts ip origin)"

subsection \<open>Decisions and policies\<close>

datatype MetadataUrlDecision = Decision_allowed | Decision_malformed_url | Decision_scheme_not_allowed
  | Decision_origin_denied | Decision_origin_not_allowed | Decision_address_link_local
  | Decision_address_private | Decision_address_loopback | Decision_address_multicast
  | Decision_address_reserved | Decision_redirect_limit_exceeded | Decision_response_too_large
  | Decision_denied_origin_entry_malformed

definition describe :: "MetadataUrlDecision \<Rightarrow> string" where
  "describe decision =
     (case decision of
        Decision_allowed \<Rightarrow> ''allowed''
      | Decision_malformed_url \<Rightarrow> ''URL is malformed or carries userinfo''
      | Decision_scheme_not_allowed \<Rightarrow> ''scheme is not https and the loopback opt-out does not apply''
      | Decision_origin_denied \<Rightarrow> ''origin is on the application deny list''
      | Decision_origin_not_allowed \<Rightarrow> ''origin is not on the application allow list''
      | Decision_address_link_local \<Rightarrow> ''address is link-local''
      | Decision_address_private \<Rightarrow> ''address is in a private range''
      | Decision_address_loopback \<Rightarrow> ''address is loopback and the loopback opt-out is not enabled''
      | Decision_address_multicast \<Rightarrow> ''address is multicast or broadcast''
      | Decision_address_reserved \<Rightarrow> ''address is reserved or non-routable''
      | Decision_redirect_limit_exceeded \<Rightarrow> ''redirect chain exceeded the configured bound''
      | Decision_response_too_large \<Rightarrow> ''response exceeded the configured size cap''
      | Decision_denied_origin_entry_malformed \<Rightarrow> ''deny list entry is not a bare origin'')"

text \<open>\<open>origin_allowance\<close> is an empty \<open>std::function\<close> when \<open>None\<close>.\<close>

record MetadataFetchPolicy =
  allowed_origins :: "string list"
  denied_origins :: "string list"
  origin_allowance :: "(string \<Rightarrow> bool) option"
  allow_plain_http_loopback :: bool
  max_response_bytes :: nat
  max_redirects :: nat

record MetadataPolicyError =
  mpe_decision :: MetadataUrlDecision
  mpe_target :: string
  mpe_what :: string

definition metadata_policy_error :: "MetadataUrlDecision \<Rightarrow> string \<Rightarrow> MetadataPolicyError" where
  "metadata_policy_error decision target =
     \<lparr>mpe_decision = decision, mpe_target = target,
      mpe_what = ''OAuth metadata target refused ('' @ describe decision @ ''): ''
        @ sanitize_for_diagnostics target\<rparr>"

definition contains_origin :: "AsioIp \<Rightarrow> string list \<Rightarrow> string \<Rightarrow> bool" where
  "contains_origin ip origins canonical_origin \<longleftrightarrow>
     (\<exists>candidate \<in> set origins. canonicalize_origin ip candidate = Some canonical_origin)"

fun denies_origin_loop :: "AsioIp \<Rightarrow> string list \<Rightarrow> string \<Rightarrow> bool \<Rightarrow> MetadataPolicyError + bool" where
  "denies_origin_loop ip [] canonical_origin denied = Inr denied"
| "denies_origin_loop ip (candidate # origins) canonical_origin denied =
     (case canonicalize_origin ip candidate of
        None \<Rightarrow> Inl (metadata_policy_error Decision_denied_origin_entry_malformed candidate)
      | Some c \<Rightarrow> denies_origin_loop ip origins canonical_origin (denied \<or> c = canonical_origin))"

definition denies_origin :: "AsioIp \<Rightarrow> string list \<Rightarrow> string \<Rightarrow> MetadataPolicyError + bool" where
  "denies_origin ip origins canonical_origin = denies_origin_loop ip origins canonical_origin False"

subsection \<open>Classification\<close>

definition octet :: "nat \<Rightarrow> 32 word \<Rightarrow> 32 word" where
  "octet shift a = drop_bit shift a AND 0xFF"

definition classify_v4 :: "MetadataFetchPolicy \<Rightarrow> 32 word \<Rightarrow> MetadataUrlDecision" where
  "classify_v4 policy a =
     (let octet1 = octet 24 a; octet2 = octet 16 a; octet3 = octet 8 a in
      if octet1 = 127 then
        (if allow_plain_http_loopback policy then Decision_allowed else Decision_address_loopback)
      else if octet1 = 169 \<and> octet2 = 254 then Decision_address_link_local
      else if octet1 = 10 \<or> (octet1 = 172 \<and> octet2 \<ge> 16 \<and> octet2 \<le> 31) \<or> (octet1 = 192 \<and> octet2 = 168)
      then Decision_address_private
      else if a = 0xFFFFFFFF then Decision_address_multicast
      else if octet1 \<ge> 224 \<and> octet1 \<le> 239 then Decision_address_multicast
      else if octet1 = 0 \<or> octet1 \<ge> 240 then Decision_address_reserved
      else if octet1 = 100 \<and> octet2 \<ge> 64 \<and> octet2 \<le> 127 then Decision_address_reserved
      else if octet1 = 192 \<and> octet2 = 0 \<and> (octet3 = 0 \<or> octet3 = 2) then Decision_address_reserved
      else if octet1 = 198 \<and> (octet2 = 18 \<or> octet2 = 19) then Decision_address_reserved
      else if octet1 = 198 \<and> octet2 = 51 \<and> octet3 = 100 then Decision_address_reserved
      else if octet1 = 203 \<and> octet2 = 0 \<and> octet3 = 113 then Decision_address_reserved
      else Decision_allowed)"

text \<open>\<open>address_v4(bytes)\<close>, in network order.\<close>

definition v4_of_bytes :: "byte \<Rightarrow> byte \<Rightarrow> byte \<Rightarrow> byte \<Rightarrow> 32 word" where
  "v4_of_bytes a b c d = of_nat (((a * 256 + b) * 256 + c) * 256 + d)"

definition mapped_v4 :: "byte list \<Rightarrow> 32 word option" where
  "mapped_v4 bs =
     (if (\<forall>b \<in> set (take 10 bs). b = 0) \<and> bs ! 10 = 0xFF \<and> bs ! 11 = 0xFF
      then Some (v4_of_bytes (bs ! 12) (bs ! 13) (bs ! 14) (bs ! 15)) else None)"

definition nat64_prefix :: "byte list" where
  "nat64_prefix = [0x00, 0x64, 0xFF, 0x9B, 0, 0, 0, 0, 0, 0, 0, 0]"

definition embedded_v4 :: "byte list \<Rightarrow> 32 word option" where
  "embedded_v4 bs =
     (if take 12 bs = nat64_prefix then Some (v4_of_bytes (bs ! 12) (bs ! 13) (bs ! 14) (bs ! 15))
      else if bs ! 0 = 0x20 \<and> bs ! 1 = 0x02 then Some (v4_of_bytes (bs ! 2) (bs ! 3) (bs ! 4) (bs ! 5))
      else None)"

definition classify_v6 :: "AsioIp \<Rightarrow> MetadataFetchPolicy \<Rightarrow> byte list \<Rightarrow> MetadataUrlDecision" where
  "classify_v6 ip policy bs =
     (case mapped_v4 bs of
        Some mapped \<Rightarrow> classify_v4 policy mapped
      | None \<Rightarrow>
          (case embedded_v4 bs of
             Some embedded \<Rightarrow> classify_v4 (policy\<lparr>allow_plain_http_loopback := False\<rparr>) embedded
           | None \<Rightarrow>
               if v6_is_unspecified ip bs then Decision_address_reserved
               else if v6_is_loopback ip bs then
                 (if allow_plain_http_loopback policy then Decision_allowed else Decision_address_loopback)
               else if v6_is_link_local ip bs then Decision_address_link_local
               else if v6_is_multicast ip bs then Decision_address_multicast
               else if (bs ! 0) AND 0xFE = 0xFC then Decision_address_private
               else if v6_is_site_local ip bs then Decision_address_private
               else Decision_allowed))"

definition is_loopback_host :: "AsioIp \<Rightarrow> string \<Rightarrow> bool" where
  "is_loopback_host ip host =
     (if host = ''localhost'' then True
      else (case make_address ip host of None \<Rightarrow> False | Some a \<Rightarrow> address_is_loopback ip a))"

definition metadata_url_origin :: "string \<Rightarrow> string" where
  "metadata_url_origin url =
     (case split_url url of None \<Rightarrow> [] | Some (scheme, authority) \<Rightarrow> scheme @ ''://'' @ authority)"

definition validate_metadata_address :: "AsioIp \<Rightarrow> MetadataFetchPolicy \<Rightarrow> string \<Rightarrow> MetadataUrlDecision" where
  "validate_metadata_address ip policy address_literal =
     (case make_address ip address_literal of
        None \<Rightarrow> Decision_malformed_url
      | Some (V6 b) \<Rightarrow> classify_v6 ip policy b
      | Some (V4 a) \<Rightarrow> classify_v4 policy a)"

definition validate_metadata_url ::
  "AsioIp \<Rightarrow> MetadataFetchPolicy \<Rightarrow> string \<Rightarrow> MetadataPolicyError + MetadataUrlDecision" where
  "validate_metadata_url ip policy url =
     (case split_url url of
        None \<Rightarrow> Inr Decision_malformed_url
      | Some (scheme, authority) \<Rightarrow>
          if CHR ''@'' \<in> set authority then Inr Decision_malformed_url
          else (case authority_host authority of
              None \<Rightarrow> Inr Decision_malformed_url
            | Some host \<Rightarrow>
                (case canonicalize_origin_parts ip (scheme @ ''://'' @ authority) of
                   None \<Rightarrow> Inr Decision_malformed_url
                 | Some parts \<Rightarrow>
                     (let canonical_origin = format_canonical_origin parts in
                      bindE (denies_origin ip (denied_origins policy) canonical_origin) (\<lambda>denied.
                        if denied then Inr Decision_origin_denied
                        else if \<not> contains_origin ip (allowed_origins policy) canonical_origin
                             \<and> \<not> (case origin_allowance policy of None \<Rightarrow> False | Some f \<Rightarrow> f canonical_origin)
                        then Inr Decision_origin_not_allowed
                        else if co_scheme parts \<noteq> ''https''
                             \<and> \<not> (allow_plain_http_loopback policy \<and> co_scheme parts = ''http''
                                  \<and> is_loopback_host ip (co_host parts))
                        then Inr Decision_scheme_not_allowed
                        else (case make_address ip host of
                                Some a \<Rightarrow> Inr (validate_metadata_address ip policy (address_text ip a))
                              | None \<Rightarrow> Inr Decision_allowed))))))"

subsection \<open>IPv4 ranges\<close>

text \<open>A block \<open>a.b.c.d/len\<close> by the value of the address's first \<open>len\<close> bits.\<close>

definition in_block :: "32 word \<Rightarrow> nat \<times> nat \<times> nat \<times> nat \<times> nat \<Rightarrow> bool" where
  "in_block x blk = (case blk of (a, b, c, d, len) \<Rightarrow>
     unat x div 2 ^ (32 - len) = (((a * 256 + b) * 256 + c) * 256 + d) div 2 ^ (32 - len))"

text \<open>
  The blocks a metadata fetch must not reach: this network, RFC 1918, shared address space,
  link-local, the IETF protocol assignments, the documentation and benchmarking blocks,
  multicast, and the reserved block with the limited broadcast address.
\<close>

definition forbidden_blocks :: "(nat \<times> nat \<times> nat \<times> nat \<times> nat) list" where
  "forbidden_blocks =
     [(0, 0, 0, 0, 8), (10, 0, 0, 0, 8), (100, 64, 0, 0, 10), (169, 254, 0, 0, 16), (172, 16, 0, 0, 12),
      (192, 0, 0, 0, 24), (192, 0, 2, 0, 24), (192, 168, 0, 0, 16), (198, 18, 0, 0, 15),
      (198, 51, 100, 0, 24), (203, 0, 113, 0, 24), (224, 0, 0, 0, 4), (240, 0, 0, 0, 4)]"

definition loopback_block :: "nat \<times> nat \<times> nat \<times> nat \<times> nat" where
  "loopback_block = (127, 0, 0, 0, 8)"

lemma unat_octet: "unat (octet s a) = (unat a div 2 ^ s) mod 256"
proof -
  have "octet s a = take_bit 8 (drop_bit s a)"
    by (simp add: octet_def take_bit_eq_mask mask_eq_exp_minus_1)
  also have "unat \<dots> = take_bit 8 (drop_bit s (unat a))"
    by (simp only: unsigned_take_bit_eq unat_drop_bit_eq)
  finally show ?thesis by (simp only: drop_bit_eq_div take_bit_eq_mod) simp
qed

text \<open>An address as four octets, and the quotients the blocks compare.\<close>

lemma v4_digits:
  fixes v :: nat
  assumes "v < 2 ^ 32"
  obtains p q r s where "v = ((p * 256 + q) * 256 + r) * 256 + s" "p < 256" "q < 256" "r < 256" "s < 256"
proof
  have "v = v div 256 * 256 + v mod 256" "v div 256 = v div 65536 * 256 + v div 256 mod 256"
    "v div 65536 = v div 16777216 * 256 + v div 65536 mod 256"
    using div_mult_mod_eq [of v 256] div_mult_mod_eq [of "v div 256" 256] div_mult_mod_eq [of "v div 65536" 256]
    by (simp_all add: div_mult2_eq [symmetric])
  then show "v = ((v div 2 ^ 24 * 256 + v div 2 ^ 16 mod 256) * 256 + v div 2 ^ 8 mod 256) * 256 + v mod 256"
    by simp
  show "v div 2 ^ 24 < 256" using assms by simp
qed auto

lemma v4_quotients:
  fixes p q r s :: nat
  assumes "p < 256" "q < 256" "r < 256" "s < 256" and v: "v = ((p * 256 + q) * 256 + r) * 256 + s"
  shows "v div 2 ^ 8 = (p * 256 + q) * 256 + r" "v div 2 ^ 16 = p * 256 + q" "v div 2 ^ 24 = p"
    "v div 2 ^ 17 = p * 128 + q div 2" "v div 2 ^ 20 = p * 16 + q div 16" "v div 2 ^ 22 = p * 4 + q div 64"
    "v div 2 ^ 28 = p div 16"
  using assms by auto

lemma octet_compare:
  "octet s a = 0 \<longleftrightarrow> (unat a div 2 ^ s) mod 256 = 0"
  "octet s a = numeral k \<longleftrightarrow> (unat a div 2 ^ s) mod 256 = unat (numeral k :: 32 word)"
  "octet s a \<le> numeral k \<longleftrightarrow> (unat a div 2 ^ s) mod 256 \<le> unat (numeral k :: 32 word)"
  "numeral k \<le> octet s a \<longleftrightarrow> unat (numeral k :: 32 word) \<le> (unat a div 2 ^ s) mod 256"
  by (simp_all only: word_unat_eq_iff [of "octet s a"] word_le_nat_alt unat_octet unat_0)

text \<open>The decision in terms of the four octets.\<close>

lemma classify_v4_octets:
  assumes "unat a = ((p * 256 + q) * 256 + r) * 256 + s" "p < 256" "q < 256" "r < 256" "s < 256"
  shows "classify_v4 policy a = Decision_allowed \<longleftrightarrow>
    (p = 127 \<and> allow_plain_http_loopback policy) \<or>
    \<not> (p = 127 \<or> p = 169 \<and> q = 254 \<or> p = 10 \<or> p = 172 \<and> 16 \<le> q \<and> q \<le> 31 \<or> p = 192 \<and> q = 168
       \<or> 224 \<le> p \<or> p = 0 \<or> p = 100 \<and> 64 \<le> q \<and> q \<le> 127 \<or> p = 192 \<and> q = 0 \<and> (r = 0 \<or> r = 2)
       \<or> p = 198 \<and> (q = 18 \<or> q = 19) \<or> p = 198 \<and> q = 51 \<and> r = 100 \<or> p = 203 \<and> q = 0 \<and> r = 113)"
proof -
  note quot = v4_quotients [OF assms(2-5) assms(1)]
  have o: "(unat a div 2 ^ 24) mod 256 = p" "(unat a div 2 ^ 16) mod 256 = q" "(unat a div 2 ^ 8) mod 256 = r"
    unfolding quot(1-3) using assms(2-4) by (simp_all only: mod_mult_self3 mod_less)
  have bc: "a = 0xFFFFFFFF \<Longrightarrow> p = 255" using quot(3) by auto
  show ?thesis
    unfolding classify_v4_def Let_def octet_compare o
    using bc assms(2-4) by (simp split: if_splits) arith
qed

lemma octet_pair_eq: "q < 256 \<Longrightarrow> y < 256 \<Longrightarrow> (p :: nat) * 256 + q = x * 256 + y \<longleftrightarrow> p = x \<and> q = y"
  by (metis mod_mult_self3 mod_less add_right_cancel mult_right_cancel zero_neq_numeral)

lemma div_eq_interval:
  fixes q k n :: nat
  assumes "0 < n"
  shows "q div n = k \<longleftrightarrow> n * k \<le> q \<and> q < n * k + n"
  using assms by (metis div_nat_eqI mult.commute mult_Suc_right add.commute div_times_less_eq_dividend dividend_less_div_times)

lemma block_split:
  fixes p d n k x :: nat
  assumes "d < n" "x < n"
  shows "p * n + d = k * n + x \<longleftrightarrow> p = k \<and> d = x"
proof
  assume e: "p * n + d = k * n + x"
  from arg_cong [OF e, of "\<lambda>y. y mod n"] assms have "d = x" by simp
  with e assms show "p = k \<and> d = x" by simp
qed simp

lemma block_arith:
  fixes p q :: nat
  shows "q < 256 \<Longrightarrow> p * 4 + q div 64 = 401 \<longleftrightarrow> p = 100 \<and> 64 \<le> q \<and> q \<le> 127"
    and "q < 256 \<Longrightarrow> p * 16 + q div 16 = 2753 \<longleftrightarrow> p = 172 \<and> 16 \<le> q \<and> q \<le> 31"
    and "q < 256 \<Longrightarrow> p * 128 + q div 2 = 25353 \<longleftrightarrow> p = 198 \<and> (q = 18 \<or> q = 19)"
    and "p < 256 \<Longrightarrow> p div 16 = 14 \<or> p div 16 = 15 \<longleftrightarrow> 224 \<le> p"
proof -
  have "q div 64 < 4" "q div 16 < 16" "q div 2 < 128" if "q < 256" using that by simp_all
  note b = this
  show "q < 256 \<Longrightarrow> p * 4 + q div 64 = 401 \<longleftrightarrow> p = 100 \<and> 64 \<le> q \<and> q \<le> 127"
    using block_split [of "q div 64" 4 1 p 100] b(1) div_eq_interval [of 64 q 1] by auto
  show "q < 256 \<Longrightarrow> p * 16 + q div 16 = 2753 \<longleftrightarrow> p = 172 \<and> 16 \<le> q \<and> q \<le> 31"
    using block_split [of "q div 16" 16 1 p 172] b(2) div_eq_interval [of 16 q 1] by auto
  show "q < 256 \<Longrightarrow> p * 128 + q div 2 = 25353 \<longleftrightarrow> p = 198 \<and> (q = 18 \<or> q = 19)"
    using block_split [of "q div 2" 128 9 p 198] b(3) div_eq_interval [of 2 q 9] by auto
  show "p < 256 \<Longrightarrow> p div 16 = 14 \<or> p div 16 = 15 \<longleftrightarrow> 224 \<le> p"
    using div_eq_interval [of 16 p 14] div_eq_interval [of 16 p 15] by auto
qed

lemma in_block_octets:
  assumes "unat a = ((p * 256 + q) * 256 + r) * 256 + s" "p < 256" "q < 256" "r < 256" "s < 256"
  shows "(\<exists>blk \<in> set forbidden_blocks. in_block a blk) \<longleftrightarrow>
     p = 0 \<or> p = 10 \<or> p = 100 \<and> 64 \<le> q \<and> q \<le> 127 \<or> p = 169 \<and> q = 254 \<or> p = 172 \<and> 16 \<le> q \<and> q \<le> 31
     \<or> p = 192 \<and> q = 0 \<and> r = 0 \<or> p = 192 \<and> q = 0 \<and> r = 2 \<or> p = 192 \<and> q = 168 \<or> p = 198 \<and> (q = 18 \<or> q = 19)
     \<or> p = 198 \<and> q = 51 \<and> r = 100 \<or> p = 203 \<and> q = 0 \<and> r = 113 \<or> 224 \<le> p"
    and "in_block a loopback_block \<longleftrightarrow> p = 127"
proof -
  note quot = v4_quotients [OF assms(2-5) assms(1)]
  have 1: "in_block a (x, 0, 0, 0, 8) \<longleftrightarrow> p = x" for x using quot(3) by (simp add: in_block_def)
  have 2: "in_block a (x, y, 0, 0, 16) \<longleftrightarrow> p = x \<and> q = y" if "y < 256" for x y
    using octet_pair_eq [OF assms(3) that, of p x] that quot(2)
    by (simp add: in_block_def mult.commute)
  have 3: "in_block a (x, y, z, 0, 24) \<longleftrightarrow> p = x \<and> q = y \<and> r = z" if "y < 256" "z < 256" for x y z
  proof -
    have "in_block a (x, y, z, 0, 24) \<longleftrightarrow> unat a div 2 ^ 8 = (x * 256 + y) * 256 + z"
      by (simp add: in_block_def mult.commute)
    then show ?thesis
      by (simp only: quot(1) octet_pair_eq [OF assms(4) that(2)] octet_pair_eq [OF assms(3) that(1)] conj_assoc)
  qed
  have 4: "in_block a (100, 64, 0, 0, 10) \<longleftrightarrow> p = 100 \<and> 64 \<le> q \<and> q \<le> 127"
    using block_arith(1) [OF assms(3), of p] quot(6) by (simp add: in_block_def)
  have 5: "in_block a (172, 16, 0, 0, 12) \<longleftrightarrow> p = 172 \<and> 16 \<le> q \<and> q \<le> 31"
    using block_arith(2) [OF assms(3), of p] quot(5) by (simp add: in_block_def)
  have 6: "in_block a (198, 18, 0, 0, 15) \<longleftrightarrow> p = 198 \<and> (q = 18 \<or> q = 19)"
    using block_arith(3) [OF assms(3), of p] quot(4) by (simp add: in_block_def)
  have 7: "in_block a (224, 0, 0, 0, 4) \<or> in_block a (240, 0, 0, 0, 4) \<longleftrightarrow> 224 \<le> p"
    using block_arith(4) [OF assms(2)] quot(7) by (simp add: in_block_def)
  show "(\<exists>blk \<in> set forbidden_blocks. in_block a blk) \<longleftrightarrow>
     p = 0 \<or> p = 10 \<or> p = 100 \<and> 64 \<le> q \<and> q \<le> 127 \<or> p = 169 \<and> q = 254 \<or> p = 172 \<and> 16 \<le> q \<and> q \<le> 31
     \<or> p = 192 \<and> q = 0 \<and> r = 0 \<or> p = 192 \<and> q = 0 \<and> r = 2 \<or> p = 192 \<and> q = 168 \<or> p = 198 \<and> (q = 18 \<or> q = 19)
     \<or> p = 198 \<and> q = 51 \<and> r = 100 \<or> p = 203 \<and> q = 0 \<and> r = 113 \<or> 224 \<le> p"
    using 4 5 6 7 by (simp add: forbidden_blocks_def 1 2 3)
  show "in_block a loopback_block \<longleftrightarrow> p = 127" by (simp add: loopback_block_def 1)
qed

lemma classify_v4_blocks:
  "classify_v4 policy a = Decision_allowed \<longleftrightarrow>
     (if in_block a loopback_block then allow_plain_http_loopback policy
      else \<not> (\<exists>blk \<in> set forbidden_blocks. in_block a blk))"
proof -
  have "unat a < 2 ^ 32" using unsigned_less [of a] by simp
  then obtain p q r s where "unat a = ((p * 256 + q) * 256 + r) * 256 + s" "p < 256" "q < 256" "r < 256" "s < 256"
    by (rule v4_digits)
  note o = classify_v4_octets [OF this] in_block_octets [OF this]
  show ?thesis unfolding o by argo
qed

subsection \<open>What Boost.Asio documents\<close>

text \<open>
  The documented behaviour the properties rely on: an IPv6 address has sixteen bytes, formatting
  a parsed address and parsing it again gives the address, and the predicates name the ranges
  of RFC 4291.
\<close>

definition asio_ok :: "AsioIp \<Rightarrow> bool" where
  "asio_ok ip \<longleftrightarrow>
     (\<forall>s b. make_address ip s = Some (V6 b) \<longrightarrow> length b = 16 \<and> (\<forall>x \<in> set b. x < 256))
   \<and> (\<forall>s a. make_address ip s = Some a \<longrightarrow> make_address ip (address_text ip a) = Some a)
   \<and> (\<forall>v. v4_is_loopback ip v \<longleftrightarrow> in_block v loopback_block)
   \<and> (\<forall>b. length b = 16 \<longrightarrow>
         (v6_is_unspecified ip b \<longleftrightarrow> b = replicate 16 0)
       \<and> (v6_is_loopback ip b \<longleftrightarrow> b = replicate 15 0 @ [1])
       \<and> (v6_is_link_local ip b \<longleftrightarrow> b ! 0 = 0xFE \<and> b ! 1 div 64 = 2)
       \<and> (v6_is_multicast ip b \<longleftrightarrow> b ! 0 = 0xFF)
       \<and> (v6_is_site_local ip b \<longleftrightarrow> b ! 0 = 0xFE \<and> b ! 1 div 64 = 3))"

text \<open>The IPv4 addresses an IPv6 address stands for: mapped, NAT64 and 6to4.\<close>

definition carries_v4 :: "byte list \<Rightarrow> 32 word \<Rightarrow> bool" where
  "carries_v4 b v \<longleftrightarrow>
     (take 12 b = replicate 10 0 @ [0xFF, 0xFF] \<and> v = v4_of_bytes (b ! 12) (b ! 13) (b ! 14) (b ! 15))
   \<or> (take 12 b = [0x00, 0x64, 0xFF, 0x9B, 0, 0, 0, 0, 0, 0, 0, 0] \<and> v = v4_of_bytes (b ! 12) (b ! 13) (b ! 14) (b ! 15))
   \<or> (take 2 b = [0x20, 0x02] \<and> v = v4_of_bytes (b ! 2) (b ! 3) (b ! 4) (b ! 5))"

lemma sixteen:
  assumes "length b = 16"
  obtains b0 b1 b2 b3 b4 b5 b6 b7 b8 b9 b10 b11 b12 b13 b14 b15
  where "b = [b0, b1, b2, b3, b4, b5, b6, b7, b8, b9, b10, b11, b12, b13, b14, b15]"
  using assms by (auto simp: numeral_eq_Suc length_Suc_conv)

lemma carries_v4_cases:
  assumes "length b = 16" "carries_v4 b v"
  shows "mapped_v4 b = Some v \<or> mapped_v4 b = None \<and> embedded_v4 b = Some v"
  using assms(1)
proof (rule sixteen)
  fix b0 b1 b2 b3 b4 b5 b6 b7 b8 b9 b10 b11 b12 b13 b14 b15
  assume "b = [b0, b1, b2, b3, b4, b5, b6, b7, b8, b9, b10, b11, b12, b13, b14, b15]"
  with assms(2) show ?thesis
    by (simp add: carries_v4_def mapped_v4_def embedded_v4_def nat64_prefix_def numeral_eq_Suc) auto
qed

lemma classify_v6_carried:
  assumes "length b = 16" "carries_v4 b v" "classify_v6 ip policy b = Decision_allowed"
  shows "classify_v4 policy v = Decision_allowed"
  using carries_v4_cases [OF assms(1,2)] assms(3)
  by (auto simp: classify_v6_def classify_v4_blocks split: if_splits)

lemma classify_v6_plain:
  assumes ip: "asio_ok ip" and b: "length b = 16" and a: "classify_v6 ip policy b = Decision_allowed"
    and n: "\<not> (\<exists>v. carries_v4 b v)"
  shows "b = replicate 15 0 @ [1] \<and> allow_plain_http_loopback policy
    \<or> b \<noteq> replicate 16 0 \<and> b \<noteq> replicate 15 0 @ [1] \<and> b ! 0 \<noteq> 0xFF \<and> b ! 0 \<noteq> 0xFC \<and> b ! 0 \<noteq> 0xFD
      \<and> \<not> (b ! 0 = 0xFE \<and> b ! 1 div 64 \<in> {2, 3})"
proof -
  have m: "mapped_v4 b = None" "embedded_v4 b = None"
    using b n
    by (rule_tac [!] sixteen [OF b])
      (auto simp: carries_v4_def mapped_v4_def embedded_v4_def nat64_prefix_def numeral_eq_Suc split: if_splits)
  have p: "b ! 0 = 0xFC \<or> b ! 0 = 0xFD \<Longrightarrow> (b ! 0) AND 0xFE = 0xFC" by auto
  show ?thesis
    using ip a b p by (auto simp: classify_v6_def m asio_ok_def split: if_splits)
qed

subsection \<open>Splitting a URL that was put together\<close>

text \<open>Schemes and hosts as URLs write them.\<close>

definition scheme_text :: "string \<Rightarrow> bool" where
  "scheme_text s \<longleftrightarrow> s \<noteq> [] \<and> CHR '':'' \<notin> set s"

definition authority_text :: "string \<Rightarrow> bool" where
  "authority_text a \<longleftrightarrow> a \<noteq> [] \<and> (\<forall>c \<in> set a. \<not> ends_authority c)"

definition rest_text :: "string \<Rightarrow> bool" where
  "rest_text r \<longleftrightarrow> r = [] \<or> ends_authority (hd r)"

definition host_text :: "string \<Rightarrow> bool" where
  "host_text h \<longleftrightarrow> authority_text h \<and> CHR '':'' \<notin> set h \<and> CHR ''@'' \<notin> set h \<and> hd h \<noteq> CHR ''[''"

lemma find_scheme_end:
  assumes "scheme_text s"
  shows "find_text ''://'' (s @ ''://'' @ t) = Some (length s)"
proof (rule find_text_first)
  show "take (length ''://'') (drop (length s) (s @ ''://'' @ t)) = ''://''" by simp
  show "length s < length (s @ ''://'' @ t)" by simp
  fix j assume j: "j < length s"
  then have "drop j (s @ ''://'' @ t) = s ! j # drop (Suc j) (s @ ''://'' @ t)"
    by (subst drop_nth_Cons) (auto simp: nth_append)
  moreover have "s ! j \<noteq> CHR '':''" using assms j nth_mem by (fastforce simp: scheme_text_def)
  ultimately show "take (length ''://'') (drop j (s @ ''://'' @ t)) \<noteq> ''://''" by simp
qed

lemma split_url_built:
  assumes s: "scheme_text s" and a: "authority_text a" and r: "rest_text r"
  shows "split_url (s @ ''://'' @ a @ r) = Some (s, a)"
proof -
  let ?u = "s @ ''://'' @ a @ r"
  have d: "drop (length s + 3) ?u = a @ r" by simp
  have "find_from ends_authority ?u (length s + 3) = find_index_from ends_authority (a @ r) (length s + 3)"
    by (simp only: find_from_def d)
  also have "\<dots> = find_index_from ends_authority r (length s + 3 + length a)"
    using a by (simp add: find_index_from_append authority_text_def)
  finally have f: "(case find_from ends_authority ?u (length s + 3) of None \<Rightarrow> length ?u | Some index \<Rightarrow> index)
      = length s + 3 + length a"
    using r by (cases r) (auto simp: rest_text_def)
  have "length s \<noteq> 0" using s by (simp add: scheme_text_def)
  moreover have "a \<noteq> []" using a by (simp add: authority_text_def)
  ultimately show ?thesis
    unfolding split_url_def find_scheme_end [OF s] option.case Let_def f
    by simp
qed

lemma split_url_parts:
  assumes "split_url url = Some (s, a)"
  shows "s \<noteq> []" "a \<noteq> []" "\<forall>c \<in> set a. \<not> ends_authority c" "\<exists>r. url = s @ ''://'' @ a @ r \<and> rest_text r"
proof -
  from assms obtain k where k: "find_text ''://'' url = Some k" "k \<noteq> 0"
    and s: "s = take k url"
    and a: "a = take ((case find_from ends_authority url (k + 3) of None \<Rightarrow> length url | Some i \<Rightarrow> i) - (k + 3)) (drop (k + 3) url)"
    and ne: "a \<noteq> []"
    by (auto simp: split_url_def Let_def split: option.splits if_splits)
  note f = find_text_Some [OF k(1)]
  show "s \<noteq> []" using k(2) f(1) by (auto simp: s)
  show "a \<noteq> []" by (rule ne)
  have three: "take 3 (drop k url) = ''://''" using f(2) by (simp add: numeral_3_eq_3)
  have "drop k url = take 3 (drop k url) @ drop (k + 3) url"
    using append_take_drop_id [of 3 "drop k url"] by (simp add: add.commute)
  then have "drop k url = ''://'' @ drop (k + 3) url" by (simp only: three)
  then have u: "url = s @ ''://'' @ drop (k + 3) url"
    using append_take_drop_id [of k url] by (simp only: s)
  show "\<forall>c \<in> set a. \<not> ends_authority c"
  proof (cases "find_from ends_authority url (k + 3)")
    case None
    then show ?thesis using a by (auto simp: find_from_None dest: in_set_takeD)
  next
    case (Some i)
    note i = find_from_Some [OF Some]
    show ?thesis
    proof
      fix c assume "c \<in> set a"
      then obtain j where "j < length a" "c = a ! j" by (auto simp: in_set_conv_nth)
      with a Some i(4) [of "k + 3 + j"] i(2) show "\<not> ends_authority c" by auto
    qed
  qed
  define n where "n = (case find_from ends_authority url (k + 3) of None \<Rightarrow> length url | Some i \<Rightarrow> i) - (k + 3)"
  have "drop (k + 3) url = a @ drop n (drop (k + 3) url)" by (simp only: a n_def append_take_drop_id)
  moreover have "rest_text (drop n (drop (k + 3) url))"
  proof (cases "find_from ends_authority url (k + 3)")
    case None
    then show ?thesis by (simp add: n_def rest_text_def)
  next
    case (Some i)
    note i = find_from_Some [OF Some]
    then show ?thesis by (simp add: n_def Some rest_text_def hd_drop_conv_nth)
  qed
  ultimately show "\<exists>r. url = s @ ''://'' @ a @ r \<and> rest_text r" using u by metis
qed

subsection \<open>Origins by their spelling\<close>

lemma strict_port_loop_Some:
  "strict_port_loop cs v = Some p \<Longrightarrow> v \<le> 65535 \<Longrightarrow>
     (\<forall>c \<in> set cs. 48 \<le> (byte_of c :: nat) \<and> (byte_of c :: nat) \<le> 57)
     \<and> p = foldl (\<lambda>v c. v * 10 + (byte_of c - 48)) v cs \<and> p \<le> 65535"
  by (induction cs arbitrary: v) (auto simp: Let_def split: if_splits)

lemma foldl_digits_mono: "v \<le> foldl (\<lambda>v c. v * 10 + (byte_of c - 48 :: nat)) v cs"
proof (induction cs arbitrary: v)
  case (Cons c cs)
  have "v \<le> v * 10 + (byte_of c - 48)" by simp
  also have "\<dots> \<le> foldl (\<lambda>v c. v * 10 + (byte_of c - 48)) (v * 10 + (byte_of c - 48)) cs" by (rule Cons.IH)
  finally show ?case by simp
qed simp

lemma strict_port_loop_digits:
  "\<forall>c \<in> set cs. 48 \<le> (byte_of c :: nat) \<and> (byte_of c :: nat) \<le> 57 \<Longrightarrow>
     strict_port_loop cs v = (let p = foldl (\<lambda>v c. v * 10 + (byte_of c - 48)) v cs in
        if cs = [] \<or> p \<le> 65535 then Some p else None)"
proof (induction cs arbitrary: v)
  case (Cons c cs)
  let ?v = "v * 10 + (byte_of c - 48)"
  have "?v \<le> foldl (\<lambda>v c. v * 10 + (byte_of c - 48)) ?v cs" by (rule foldl_digits_mono)
  moreover have "strict_port_loop cs ?v = (let p = foldl (\<lambda>v c. v * 10 + (byte_of c - 48)) ?v cs in
        if cs = [] \<or> p \<le> 65535 then Some p else None)"
    by (rule Cons.IH) (use Cons.prems in auto)
  ultimately show ?case using Cons.prems by (auto simp: Let_def)
qed simp

text \<open>\<open>parse_strict_port\<close> accepts exactly the nonempty digit strings with a value up to 65535.\<close>

lemma parse_strict_port_iff:
  "parse_strict_port s = Some p \<longleftrightarrow>
     s \<noteq> [] \<and> (\<forall>c \<in> set s. 48 \<le> (byte_of c :: nat) \<and> (byte_of c :: nat) \<le> 57) \<and> decimal_value s = p \<and> p \<le> 65535"
  using strict_port_loop_Some [of s 0 p] strict_port_loop_digits [of s 0]
  by (auto simp: parse_strict_port_def decimal_value_def Let_def)

lemma parse_strict_port_decimal: "p \<le> 65535 \<Longrightarrow> parse_strict_port (decimal p) = Some p"
  using decimal_digits [of _ p] by (auto simp: parse_strict_port_iff)

text \<open>An authority of a plain host with an optional port.\<close>

definition port_suffix :: "string option \<Rightarrow> string" where
  "port_suffix port = (case port of None \<Rightarrow> [] | Some t \<Rightarrow> '':'' @ t)"

definition port_text_ok :: "string option \<Rightarrow> bool" where
  "port_text_ok port \<longleftrightarrow> (\<forall>t. port = Some t \<longrightarrow> CHR '':'' \<notin> set t \<and> CHR ''@'' \<notin> set t \<and> (\<forall>c \<in> set t. \<not> ends_authority c))"

lemma not_is_char: "CHR '':'' \<notin> set h \<Longrightarrow> \<forall>x \<in> set h. \<not> is_char CHR '':'' x"
  by (auto simp: is_char_def)

lemma plain_authority:
  assumes h: "host_text h" and p: "port_text_ok port"
  shows "authority_host (h @ port_suffix port) = Some h" "authority_port (h @ port_suffix port) = port"
    "authority_text (h @ port_suffix port)" "CHR ''@'' \<notin> set (h @ port_suffix port)"
    "hd (h @ port_suffix port) = hd h"
proof -
  have ne: "h \<noteq> []" "hd h \<noteq> CHR ''[''" "CHR '':'' \<notin> set h" using h by (auto simp: host_text_def authority_text_def)
  note nc = not_is_char [OF ne(3)]
  show "hd (h @ port_suffix port) = hd h" using ne by simp
  show "authority_host (h @ port_suffix port) = Some h" "authority_port (h @ port_suffix port) = port"
  proof (atomize (full), cases port)
    case None
    then show "authority_host (h @ port_suffix port) = Some h \<and> authority_port (h @ port_suffix port) = port"
      using ne find_from_absent [OF nc] by (simp add: authority_host_def authority_port_def port_suffix_def)
  next
    case (Some t)
    have f: "find_from (is_char CHR '':'') (h @ CHR '':'' # t) 0 = Some (length h)"
      by (rule find_from_first [OF nc]) (simp add: is_char_def)
    have "CHR '':'' \<notin> set t" using p Some by (simp add: port_text_ok_def)
    then have "find_from (is_char CHR '':'') (h @ CHR '':'' # t) (length h + 1) = None"
      by (auto simp: find_from_None is_char_def)
    with f ne Some show "authority_host (h @ port_suffix port) = Some h \<and> authority_port (h @ port_suffix port) = port"
      by (simp add: authority_host_def authority_port_def port_suffix_def)
  qed
  have "\<not> ends_authority CHR '':''" by (simp add: ends_authority_def)
  then show "authority_text (h @ port_suffix port)"
    using h p by (auto simp: host_text_def authority_text_def port_suffix_def port_text_ok_def split: option.splits)
  show "CHR ''@'' \<notin> set (h @ port_suffix port)"
    using h p by (auto simp: host_text_def port_suffix_def port_text_ok_def split: option.splits)
qed

text \<open>The port an origin names: as written, unless it is the scheme's default.\<close>

definition effective_port :: "string \<Rightarrow> string option \<Rightarrow> nat option option" where
  "effective_port scheme port =
     (case port of
        None \<Rightarrow> Some None
      | Some t \<Rightarrow> (case parse_strict_port t of None \<Rightarrow> None
                   | Some p \<Rightarrow> Some (if default_port (lowercase_ascii scheme) p then None else Some p)))"

lemma canonicalize_plain:
  assumes s: "scheme_text s" and h: "host_text h" and p: "port_text_ok port"
  shows "canonicalize_origin_parts ip (s @ ''://'' @ h @ port_suffix port) =
    (case effective_port s port of None \<Rightarrow> None
     | Some port' \<Rightarrow> (case canonical_host ip h of None \<Rightarrow> None
        | Some h' \<Rightarrow> Some \<lparr>co_scheme = lowercase_ascii s, co_host = h', co_port = port', co_bracketed = False\<rparr>))"
proof -
  note a = plain_authority [OF h p]
  have sp: "split_url (s @ ''://'' @ h @ port_suffix port) = Some (s, h @ port_suffix port)"
    using split_url_built [OF s a(3), of "[]"] by (simp add: rest_text_def)
  have nb: "hd h \<noteq> CHR ''[''" using h by (simp add: host_text_def)
  show ?thesis
    unfolding canonicalize_origin_parts_def sp
    using a nb
    by (cases port) (auto simp: effective_port_def Let_def split: option.splits)
qed

lemma denies_origin_loop_spec:
  "denies_origin_loop ip origins c denied =
     (case find (\<lambda>d. canonicalize_origin ip d = None) origins of
        Some d \<Rightarrow> Inl (metadata_policy_error Decision_denied_origin_entry_malformed d)
      | None \<Rightarrow> Inr (denied \<or> (\<exists>d \<in> set origins. canonicalize_origin ip d = Some c)))"
proof (induction origins arbitrary: denied)
  case (Cons d origins)
  then show ?case by (cases "canonicalize_origin ip d") (auto split: option.splits)
qed simp

text \<open>The decision once the origin is canonical and the list and scheme checks have their inputs.\<close>

lemma split_url_replace:
  assumes "split_url url = Some (s, a)" and r': "rest_text r'"
  shows "split_url (s @ ''://'' @ a @ r') = Some (s, a)"
proof -
  from assms obtain k where k: "find_text ''://'' url = Some k" "k \<noteq> 0" "s = take k url" "a \<noteq> []"
    by (auto simp: split_url_def Let_def split: option.splits if_splits)
  note f = find_text_Some [OF k(1)]
  have ls: "length s = k" using f(1) k(3) by simp
  obtain r where u: "url = s @ ''://'' @ a @ r" using split_url_parts [OF assms(1)] by blast
  have ft: "find_text ''://'' (s @ ''://'' @ a @ r') = Some k"
  proof (rule find_text_first)
    show "take (length ''://'') (drop k (s @ ''://'' @ a @ r')) = ''://''" using ls by simp
    show "k < length (s @ ''://'' @ a @ r')" using ls by simp
    fix j assume j: "j < k"
    have "take 3 (drop j (s @ ''://'' @ a @ r')) = take 3 (drop j url)"
    proof -
      have t: "take n (''://'' @ y) = take n ''://''" if "n \<le> 3" for n and y :: string
        using that by (simp only: take_append) simp
      have "take 3 (drop j (s @ ''://'' @ y)) = take 3 (drop j s) @ take (3 - (length s - j)) ''://''" for y :: string
        using j ls t [of "3 - (length s - j)" y] by (simp only: drop_append take_append length_drop) simp
      from this [of "a @ r'"] this [of "a @ r"] show ?thesis unfolding u by (simp only: append_assoc)
    qed
    with f(3) [OF j] show "take (length ''://'') (drop j (s @ ''://'' @ a @ r')) \<noteq> ''://''"
      by (simp add: numeral_3_eq_3)
  qed
  have e: "(case find_from ends_authority (s @ ''://'' @ a @ r') (k + 3) of
      None \<Rightarrow> length (s @ ''://'' @ a @ r') | Some index \<Rightarrow> index) = k + 3 + length a"
  proof -
    have "drop (k + 3) (s @ ''://'' @ a @ r') = a @ r'" using ls by simp
    then have "find_from ends_authority (s @ ''://'' @ a @ r') (k + 3) = find_index_from ends_authority r' (k + 3 + length a)"
      using split_url_parts(3) [OF assms(1)] by (simp add: find_from_def find_index_from_append)
    then show ?thesis using r' ls by (cases r') (auto simp: rest_text_def)
  qed
  show ?thesis
    unfolding split_url_def ft option.case Let_def e using k(2,4) ls by simp
qed

lemma split_url_rebuild: "split_url url = Some (s, a) \<Longrightarrow> split_url (s @ ''://'' @ a) = Some (s, a)"
  using split_url_replace [of url s a "[]"] by (simp add: rest_text_def)

subsection \<open>Properties\<close>

text \<open>An IPv4 address passes the classification exactly when it lies in none of the blocks that are
  not publicly routed (this network, private, shared, link-local, protocol assignment,
  benchmarking, documentation, multicast, reserved and broadcast), or is a loopback address and
  the policy opted in to loopback.\<close>

theorem classify_v4_exact:
  "classify_v4 policy a = Decision_allowed \<longleftrightarrow>
     (if in_block a (127, 0, 0, 0, 8) then allow_plain_http_loopback policy
      else list_all (\<lambda>blk. \<not> in_block a blk)
        [(0, 0, 0, 0, 8), (10, 0, 0, 0, 8), (100, 64, 0, 0, 10), (169, 254, 0, 0, 16), (172, 16, 0, 0, 12),
         (192, 0, 0, 0, 24), (192, 0, 2, 0, 24), (192, 168, 0, 0, 16), (198, 18, 0, 0, 15),
         (198, 51, 100, 0, 24), (203, 0, 113, 0, 24), (224, 0, 0, 0, 4), (240, 0, 0, 0, 4)])"
  unfolding classify_v4_blocks loopback_block_def forbidden_blocks_def by simp


text \<open>C35: What an allowed URL satisfies: it carries no userinfo; every entry of the deny list is a
  bare origin and none canonicalizes to the URL's origin; the canonical origin is on the allow
  list or admitted by the callback; the scheme is https, or http to a loopback host under the
  opt-in; and a host written as an IP literal names an address that passes the classification.\<close>

theorem validate_metadata_url_sound:
  assumes "validate_metadata_url ip policy url = Inr Decision_allowed"
  shows "\<exists>scheme authority host parts.
      split_url url = Some (scheme, authority) \<and> CHR ''@'' \<notin> set authority \<and> authority_host authority = Some host
    \<and> canonicalize_origin_parts ip (scheme @ ''://'' @ authority) = Some parts
    \<and> (\<forall>d \<in> set (denied_origins policy). \<exists>c. canonicalize_origin ip d = Some c \<and> c \<noteq> format_canonical_origin parts)
    \<and> (contains_origin ip (allowed_origins policy) (format_canonical_origin parts)
       \<or> (\<exists>f. origin_allowance policy = Some f \<and> f (format_canonical_origin parts)))
    \<and> (co_scheme parts = ''https''
       \<or> co_scheme parts = ''http'' \<and> allow_plain_http_loopback policy \<and> is_loopback_host ip (co_host parts))
    \<and> (\<forall>a. make_address ip host = Some a \<longrightarrow>
         validate_metadata_address ip policy (address_text ip a) = Decision_allowed)"
proof -
  from assms obtain s a host parts where u: "split_url url = Some (s, a)" "CHR ''@'' \<notin> set a"
    "authority_host a = Some host" "canonicalize_origin_parts ip (s @ ''://'' @ a) = Some parts"
    by (auto simp: validate_metadata_url_def split: option.splits if_splits)
  define co where "co = format_canonical_origin parts"
  have e: "bindE (denies_origin ip (denied_origins policy) co) (\<lambda>denied.
      if denied then Inr Decision_origin_denied
      else if \<not> contains_origin ip (allowed_origins policy) co
           \<and> \<not> (case origin_allowance policy of None \<Rightarrow> False | Some f \<Rightarrow> f co)
      then Inr Decision_origin_not_allowed
      else if co_scheme parts \<noteq> ''https'' \<and> \<not> (allow_plain_http_loopback policy \<and> co_scheme parts = ''http''
                \<and> is_loopback_host ip (co_host parts))
      then Inr Decision_scheme_not_allowed
      else (case make_address ip host of
              Some a \<Rightarrow> Inr (validate_metadata_address ip policy (address_text ip a))
            | None \<Rightarrow> Inr Decision_allowed)) = Inr Decision_allowed"
    using assms unfolding validate_metadata_url_def
    by (simp only: u option.case prod.case if_False Let_def co_def)
  from e have d: "denies_origin ip (denied_origins policy) co = Inr False"
    by (auto split: if_splits)
  note e' = e [unfolded d bindE_simps if_False]
  have al: "contains_origin ip (allowed_origins policy) co \<or> (\<exists>f. origin_allowance policy = Some f \<and> f co)"
    using e' by (auto split: if_splits option.splits)
  have sc: "co_scheme parts = ''https'' \<or> co_scheme parts = ''http'' \<and> allow_plain_http_loopback policy
       \<and> is_loopback_host ip (co_host parts)"
    using e' by (auto split: if_splits)
  have ad: "\<forall>x. make_address ip host = Some x \<longrightarrow> validate_metadata_address ip policy (address_text ip x) = Decision_allowed"
    using e' by (auto split: if_splits)
  from d have "\<forall>x \<in> set (denied_origins policy). \<exists>c. canonicalize_origin ip x = Some c \<and> c \<noteq> co"
    by (auto simp: denies_origin_def denies_origin_loop_spec find_None_iff split: option.splits)
  with u al sc ad show ?thesis unfolding co_def by blast
qed

text \<open>The deny list fails closed: while some entry of it is not a bare origin, no URL is allowed;
  each one is either malformed itself or refused with an error that names the first bad entry.\<close>

theorem deny_list_fails_closed:
  assumes "d \<in> set (denied_origins policy)" and "canonicalize_origin ip d = None"
  shows "validate_metadata_url ip policy url = Inr Decision_malformed_url
    \<or> (\<exists>e. validate_metadata_url ip policy url = Inl e \<and> mpe_decision e = Decision_denied_origin_entry_malformed
         \<and> find (\<lambda>d. canonicalize_origin ip d = None) (denied_origins policy) = Some (mpe_target e))"
proof -
  have "find (\<lambda>d. canonicalize_origin ip d = None) (denied_origins policy) \<noteq> None"
    using assms by (auto simp: find_None_iff)
  then obtain e where "find (\<lambda>d. canonicalize_origin ip d = None) (denied_origins policy) = Some e" by blast
  then show ?thesis
    by (auto simp: validate_metadata_url_def denies_origin_def denies_origin_loop_spec metadata_policy_error_def
        Let_def split: option.splits)
qed

text \<open>The spelling of an origin cannot change the decision: two URLs of plain hosts that differ in
  the case of scheme and host, in trailing dots of the host, in an explicit default port or
  leading zeros of a port, and in whatever follows the authority, get the same answer.\<close>

theorem origin_spelling_irrelevant:
  assumes "scheme_text s" "scheme_text s'" "host_text h" "host_text h'" "port_text_ok p" "port_text_ok p'"
    and "rest_text r" "rest_text r'"
    and "lowercase_ascii s = lowercase_ascii s'"
    and "strip_trailing_dots (lowercase_ascii h) = strip_trailing_dots (lowercase_ascii h')"
    and "make_address ip h = None" "make_address ip h' = None"
    and "effective_port s p = effective_port s' p'"
  shows "validate_metadata_url ip policy (s @ ''://'' @ h @ port_suffix p @ r) =
    validate_metadata_url ip policy (s' @ ''://'' @ h' @ port_suffix p' @ r')"
proof -
  note a = plain_authority [OF assms(3,5)] and a' = plain_authority [OF assms(4,6)]
  have sp: "split_url (s @ ''://'' @ h @ port_suffix p @ r) = Some (s, h @ port_suffix p)"
    using split_url_built [OF assms(1) a(3) assms(7)] by simp
  have sp': "split_url (s' @ ''://'' @ h' @ port_suffix p' @ r') = Some (s', h' @ port_suffix p')"
    using split_url_built [OF assms(2) a'(3) assms(8)] by simp
  have ch: "canonical_host ip h = canonical_host ip h'" using assms(10-12) by (simp add: canonical_host_def)
  have c: "canonicalize_origin_parts ip (s @ ''://'' @ h @ port_suffix p)
      = canonicalize_origin_parts ip (s' @ ''://'' @ h' @ port_suffix p')"
    using canonicalize_plain [OF assms(1,3,5), of ip] canonicalize_plain [OF assms(2,4,6), of ip]
    by (simp only: assms(9,13) ch)
  show ?thesis
    unfolding validate_metadata_url_def sp sp' option.case prod.case a(1) a'(1)
    by (simp only: a(4) a'(4) if_False c assms(11,12) option.case)
qed

text \<open>
  What follows the closing bracket of an IPv6 authority and is not a port is ignored, so such a
  text, which is no authority, canonicalizes to the origin it resembles.
\<close>

lemma bracketed_suffix_ignored:
  assumes s: "scheme_text s" and h: "h \<noteq> []" "CHR '']'' \<notin> set h" "\<forall>c \<in> set h. \<not> ends_authority c"
    and t: "\<forall>c \<in> set t. \<not> ends_authority c" "t = [] \<or> hd t \<noteq> CHR '':''"
  shows "canonicalize_origin ip (s @ ''://'' @ ''['' @ h @ '']'' @ t) = canonicalize_origin ip (s @ ''://'' @ ''['' @ h @ '']'')"
proof -
  have na: "authority_text (''['' @ h @ '']'' @ t)" if "\<forall>c \<in> set t. \<not> ends_authority c" for t
    using h that by (auto simp: authority_text_def ends_authority_def)
  have sp: "split_url (s @ ''://'' @ ''['' @ h @ '']'' @ t) = Some (s, ''['' @ h @ '']'' @ t)"
    if "\<forall>c \<in> set t. \<not> ends_authority c" for t
    using split_url_built [OF s na [OF that], of "[]"] by (simp add: rest_text_def)
  have f: "find_from (is_char CHR '']'') (''['' @ h @ '']'' @ t) 0 = Some (length h + 1)" for t
    using find_from_first [of "''['' @ h" "is_char CHR '']''" "CHR '']''" t] h(2) by (auto simp: is_char_def)
  have ah: "authority_host (''['' @ h @ '']'' @ t) = Some h" for t
    using f [of t] h(1) by (simp add: authority_host_def)
  have ap: "authority_port (''['' @ h @ '']'' @ t) = None" if "t = [] \<or> hd t \<noteq> CHR '':''" for t
    using f [of t] that by (cases t) (auto simp: authority_port_def nth_append)
  have e: "canonicalize_origin_parts ip (s @ ''://'' @ ''['' @ h @ '']'' @ t) =
     (case canonical_host ip h of None \<Rightarrow> None | Some h' \<Rightarrow>
        Some \<lparr>co_scheme = lowercase_ascii s, co_host = h', co_port = None, co_bracketed = True\<rparr>)"
    if "\<forall>c \<in> set t. \<not> ends_authority c" "t = [] \<or> hd t \<noteq> CHR '':''" for t
    unfolding canonicalize_origin_parts_def sp [OF that(1)] using ah [of t] ap [OF that(2)]
    by (simp add: Let_def split: option.split)
  show ?thesis using e [OF t] e [of "[]"] by (simp add: canonicalize_origin_def)
qed

subsection \<open>Witnesses\<close>

text \<open>A resolver that knows one address, and policies over it.\<close>

definition example_ip :: AsioIp where
  "example_ip =
     \<lparr>make_address = (\<lambda>s. if s = ''::1'' then Some (V6 (replicate 15 0 @ [1])) else None),
      address_text = (\<lambda>_. ''::1''),
      v4_is_loopback = (\<lambda>v. in_block v loopback_block),
      v6_is_unspecified = (\<lambda>b. b = replicate 16 0),
      v6_is_loopback = (\<lambda>b. b = replicate 15 0 @ [1]),
      v6_is_link_local = (\<lambda>b. b ! 0 = 0xFE \<and> b ! 1 div 64 = 2),
      v6_is_multicast = (\<lambda>b. b ! 0 = 0xFF),
      v6_is_site_local = (\<lambda>b. b ! 0 = 0xFE \<and> b ! 1 div 64 = 3)\<rparr>"

definition example_policy :: MetadataFetchPolicy where
  "example_policy =
     \<lparr>allowed_origins = [''https://as.test''], denied_origins = [], origin_allowance = None,
      allow_plain_http_loopback = True, max_response_bytes = 1000, max_redirects = 3\<rparr>"

lemma example_ip_ok: "asio_ok example_ip"
  by (auto simp: asio_ok_def example_ip_def split: if_splits)

lemma example_address_allowed: "validate_metadata_address example_ip example_policy ''::1'' = Decision_allowed"
proof -
  have m: "make_address example_ip ''::1'' = Some (V6 (replicate 15 0 @ [1]))" by (simp add: example_ip_def)
  have l: "replicate 15 0 @ [1 :: nat] = [0, 0, 0, 0, 0, 0, 0, 0, 0, 0, 0, 0, 0, 0, 0, 1]"
    by (simp add: numeral_eq_Suc)
  have "mapped_v4 (replicate 15 0 @ [1]) = None" "embedded_v4 (replicate 15 0 @ [1]) = None"
    unfolding l by (simp_all add: mapped_v4_def embedded_v4_def nat64_prefix_def)
  moreover have "\<not> v6_is_unspecified example_ip (replicate 15 0 @ [1])"
    unfolding example_ip_def AsioIp.simps l by (simp add: numeral_eq_Suc)
  ultimately show ?thesis
    unfolding validate_metadata_address_def m classify_v6_def
    by (simp add: example_ip_def example_policy_def)
qed


lemma example_host: "host_text ''as.test'' \<and> host_text ''AS.test.'' \<and> scheme_text ''https'' \<and> scheme_text ''HTTPS''"
  by (auto simp: host_text_def authority_text_def ends_authority_def scheme_text_def)

lemma example_port: "port_text_ok None \<and> port_text_ok (Some ''0443'')"
  by (auto simp: port_text_ok_def ends_authority_def)

lemma example_effective: "effective_port ''HTTPS'' (Some ''0443'') = effective_port ''https'' None"
  by (simp add: effective_port_def parse_strict_port_def default_port_def lowercase_ascii_def lower_char_def is_upper_def
      char_of_def bit_numeral_rec bit_0)

lemma origin_spelling_irrelevant_witness:
  "validate_metadata_url example_ip example_policy (''https'' @ ''://'' @ ''as.test'' @ port_suffix None @ [])
   = validate_metadata_url example_ip example_policy (''HTTPS'' @ ''://'' @ ''AS.test.'' @ port_suffix (Some ''0443'') @ ''/x'')"
proof (rule origin_spelling_irrelevant)
  show "lowercase_ascii ''https'' = lowercase_ascii ''HTTPS''"
    by (simp add: lowercase_ascii_def lower_char_def is_upper_def char_of_def bit_numeral_rec bit_0)
  show "strip_trailing_dots (lowercase_ascii ''as.test'') = strip_trailing_dots (lowercase_ascii ''AS.test.'')"
    by (simp add: strip_trailing_dots_def lowercase_ascii_def lower_char_def is_upper_def char_of_def bit_numeral_rec bit_0)
qed (use example_host example_port example_effective in
    \<open>auto simp: rest_text_def ends_authority_def example_ip_def\<close>)

lemma example_allowed: "validate_metadata_url example_ip example_policy ''https://as.test/x'' = Inr Decision_allowed"
proof -
  have h: "host_text ''as.test''" "scheme_text ''https''" "port_text_ok None" using example_host example_port by auto
  note a = plain_authority [OF h(1,3)]
  have sp: "split_url ''https://as.test/x'' = Some (''https'', ''as.test'')"
    using split_url_built [OF h(2) a(3), of "''/x''"] by (simp add: port_suffix_def rest_text_def ends_authority_def)
  have c: "canonicalize_origin_parts example_ip ''https://as.test'' =
     Some \<lparr>co_scheme = ''https'', co_host = ''as.test'', co_port = None, co_bracketed = False\<rparr>"
    using canonicalize_plain [OF h(2,1,3), of example_ip]
    by (simp add: port_suffix_def effective_port_def canonical_host_def example_ip_def strip_trailing_dots_def
        lowercase_ascii_def lower_char_def is_upper_def)
  show ?thesis
    unfolding validate_metadata_url_def sp
    using a(1) c
    by (simp add: port_suffix_def Let_def denies_origin_def example_policy_def contains_origin_def
        canonicalize_origin_def format_canonical_origin_def example_ip_def)
qed

lemma validate_metadata_url_sound_witness:
  "\<exists>scheme authority. split_url ''https://as.test/x'' = Some (scheme, authority) \<and> CHR ''@'' \<notin> set authority"
  using validate_metadata_url_sound [OF example_allowed] by blast

lemma deny_list_fails_closed_witness:
  "validate_metadata_url example_ip (example_policy\<lparr>denied_origins := [''nonsense'']\<rparr>) ''https://as.test/x'' \<noteq> Inr Decision_allowed"
proof -
  have "canonicalize_origin example_ip ''nonsense'' = None"
    by (simp add: canonicalize_origin_def canonicalize_origin_parts_def split_url_def find_text_def)
  from deny_list_fails_closed [OF _ this, of "example_policy\<lparr>denied_origins := [''nonsense'']\<rparr>" "''https://as.test/x''"]
  show ?thesis by auto
qed

end
