(* ===== verification/Challenge.thy ===== *)
theory Challenge
  imports Ascii Diagnostics
begin

text \<open>
  Authentication challenges and authorization responses (src/auth/challenge.cpp): the parser of
  \<open>WWW-Authenticate\<close> values, the decoder of form-encoded redirect queries, and the RFC 9207
  validation of an authorization response. A position into a string view is modelled by the
  text from it on.
\<close>

definition token_specials :: string where
  "token_specials = [CHR ''!'', CHR ''#'', CHR ''$'', CHR ''%'', CHR ''&'', CHR 0x27, CHR ''*'', CHR ''+'',
     CHR ''-'', CHR ''.'', CHR ''^'', CHR ''_'', CHR 0x60, CHR ''|'', CHR ''~'']"

definition is_token_char :: "char \<Rightarrow> bool" where
  "is_token_char c \<longleftrightarrow> is_alnum c \<or> c \<in> set token_specials"

definition to_lower_ascii :: "string \<Rightarrow> string" where
  "to_lower_ascii s = map lower_char s"

definition equals_ignore_case :: "string \<Rightarrow> string \<Rightarrow> bool" where
  "equals_ignore_case l r \<longleftrightarrow> length l = length r \<and> list_all2 (\<lambda>a b. lower_char a = lower_char b) l r"

definition is_space_tab :: "char \<Rightarrow> bool" where
  "is_space_tab c \<longleftrightarrow> c = CHR '' '' \<or> c = CHR 0x09"

definition skip_whitespace :: "string \<Rightarrow> string" where
  "skip_whitespace s = skip_while is_space_tab s"

definition skip_separators :: "string \<Rightarrow> string" where
  "skip_separators s = skip_while (\<lambda>c. is_space_tab c \<or> c = CHR '','') s"

lemma skip_whitespace_le: "length (skip_whitespace s) \<le> length s"
  by (simp add: skip_whitespace_def skip_while_length)

lemma skip_separators_le: "length (skip_separators s) \<le> length s"
  by (simp add: skip_separators_def skip_while_length)

definition read_token :: "string \<Rightarrow> string \<times> string" where
  "read_token s = (takeWhile is_token_char s, dropWhile is_token_char s)"

text \<open>\<open>read_quoted_string\<close>, from after the opening quote.\<close>

fun read_quoted_string :: "string \<Rightarrow> string \<Rightarrow> (string \<times> string) option" where
  "read_quoted_string [] acc = None"
| "read_quoted_string (c # s) acc =
     (if c = CHR 0x5C then (case s of [] \<Rightarrow> None | d # s' \<Rightarrow> read_quoted_string s' (acc @ [d]))
      else if c = CHR 0x22 then Some (acc, s)
      else read_quoted_string s (acc @ [c]))"

subsection \<open>Challenges\<close>

record BearerChallenge =
  bc_scheme :: string
  bc_realm :: "string option"
  bc_resource_metadata :: "string option"
  bc_scope :: "string option"
  bc_error :: "string option"
  bc_error_description :: "string option"
  bc_error_uri :: "string option"
  bc_parameters :: "(string \<times> string) list"

definition empty_challenge :: "string \<Rightarrow> BearerChallenge" where
  "empty_challenge scheme =
     \<lparr>bc_scheme = scheme, bc_realm = None, bc_resource_metadata = None, bc_scope = None, bc_error = None,
      bc_error_description = None, bc_error_uri = None, bc_parameters = []\<rparr>"

definition is_bearer :: "BearerChallenge \<Rightarrow> bool" where
  "is_bearer c = equals_ignore_case (bc_scheme c) ''Bearer''"

text \<open>\<open>assign_once\<close>: a field keeps its first value.\<close>

definition assign_once :: "string option \<Rightarrow> string \<Rightarrow> string option" where
  "assign_once field v = (case field of None \<Rightarrow> Some v | Some old \<Rightarrow> Some old)"

lemma assign_once_simps [simp]: "assign_once None v = Some v" "assign_once (Some old) v = Some old"
  by (simp_all add: assign_once_def)

definition assign_parameter :: "BearerChallenge \<Rightarrow> string \<Rightarrow> string \<Rightarrow> BearerChallenge" where
  "assign_parameter challenge name v =
     (let c = (if name = ''realm'' then challenge\<lparr>bc_realm := assign_once (bc_realm challenge) v\<rparr>
               else if name = ''resource_metadata'' then
                 challenge\<lparr>bc_resource_metadata := assign_once (bc_resource_metadata challenge) v\<rparr>
               else if name = ''scope'' then challenge\<lparr>bc_scope := assign_once (bc_scope challenge) v\<rparr>
               else if name = ''error'' then challenge\<lparr>bc_error := assign_once (bc_error challenge) v\<rparr>
               else if name = ''error_description'' then
                 challenge\<lparr>bc_error_description := assign_once (bc_error_description challenge) v\<rparr>
               else if name = ''error_uri'' then challenge\<lparr>bc_error_uri := assign_once (bc_error_uri challenge) v\<rparr>
               else challenge)
      in c\<lparr>bc_parameters := bc_parameters challenge @ [(name, v)]\<rparr>)"

text \<open>\<open>flush\<close>: the challenge being read, if any, joins the list.\<close>

definition flush :: "BearerChallenge list \<Rightarrow> BearerChallenge option \<Rightarrow> BearerChallenge list" where
  "flush challenges current = (case current of None \<Rightarrow> challenges | Some c \<Rightarrow> challenges @ [c])"

lemma read_token_shorter:
  assumes "read_token s = (name, after)" "name \<noteq> []"
  shows "length after < length s"
proof -
  have "s = name @ after" using assms(1) by (auto simp: read_token_def)
  with assms(2) show ?thesis by simp
qed

lemma read_token_le: "length (snd (read_token s)) \<le> length s"
  by (simp add: read_token_def length_dropWhile_le)

lemma read_quoted_string_shorter: "read_quoted_string s acc = Some (v, r) \<Longrightarrow> length r < length s"
proof (induction s acc rule: read_quoted_string.induct)
  case (2 c s acc)
  then show ?case by (force split: if_splits list.splits)
qed simp

function www_loop :: "string \<Rightarrow> BearerChallenge option \<Rightarrow> BearerChallenge list \<Rightarrow> BearerChallenge list" where
  "www_loop s current challenges =
     (if s = [] then flush challenges current
      else (case read_token s of (name, after_name) \<Rightarrow>
        if name = [] then flush challenges current
        else let s1 = skip_whitespace after_name in
          if s1 = [] \<or> hd s1 \<noteq> CHR ''='' then
            www_loop (skip_separators after_name) (Some (empty_challenge name)) (flush challenges current)
          else let s2 = tl s1; probe = skip_whitespace (skip_while (\<lambda>c. c = CHR ''='') s2) in
            if probe = [] \<or> hd probe = CHR '','' then www_loop (skip_separators probe) current challenges
            else let s3 = skip_whitespace s2 in
              (case (if hd s3 = CHR 0x22 then read_quoted_string (tl s3) [] else Some (read_token s3)) of
                 None \<Rightarrow> flush challenges current
               | Some (v, s4) \<Rightarrow>
                   www_loop (skip_separators s4)
                     (map_option (\<lambda>c. assign_parameter c (to_lower_ascii name) v) current) challenges)))"
  by pat_completeness auto
termination
proof (relation "measure (\<lambda>(s, current, challenges). length s)", goal_cases)
  case (2 s current challenges name after_name s1)
  then have "length after_name < length s" by (intro read_token_shorter [of s name after_name]) simp_all
  with skip_separators_le [of after_name] show ?case by simp
next
  case (3 s current challenges name after_name s1 s2 probe)
  then have "length after_name < length s" by (intro read_token_shorter [of s name after_name]) simp_all
  moreover have "length s1 \<le> length after_name" using 3 skip_whitespace_le by simp
  moreover have "length s2 \<le> length s1" using 3 by simp
  moreover have "length probe \<le> length s2" 
    unfolding 3(7) by (rule order_trans [OF skip_whitespace_le skip_while_length])
  ultimately show ?case using skip_separators_le [of probe] by simp
next
  case (4 s current challenges name after_name s1 s2 probe s3 x v s4)
  then have "length after_name < length s" by (intro read_token_shorter [of s name after_name]) simp_all
  moreover have "length s1 \<le> length after_name" using 4 skip_whitespace_le by simp
  moreover have "length s2 \<le> length s1" using 4 by simp
  moreover have "length s3 \<le> length s2" unfolding 4(9) by (rule skip_whitespace_le)
  moreover have "length s4 \<le> length s3"
    using 4 read_quoted_string_shorter [of "tl s3" "[]" v s4] read_token_le [of s3]
    by (auto split: if_splits)
  ultimately show ?case using skip_separators_le [of s4] by simp
qed simp

declare www_loop.simps [simp del]

definition parse_www_authenticate :: "string \<Rightarrow> BearerChallenge list" where
  "parse_www_authenticate header_value = www_loop (skip_separators header_value) None []"

definition parse_www_authenticate_all :: "string list \<Rightarrow> BearerChallenge list" where
  "parse_www_authenticate_all header_values = concat (map parse_www_authenticate header_values)"

definition select_bearer_challenge :: "BearerChallenge list \<Rightarrow> BearerChallenge option" where
  "select_bearer_challenge challenges = find is_bearer challenges"

subsection \<open>Form encoding\<close>

definition hex_digits_upper :: string where
  "hex_digits_upper = ''0123456789ABCDEF''"

text \<open>\<open>g_hex_digits_upper.find(toupper(c))\<close>.\<close>

definition hex_value :: "char \<Rightarrow> nat option" where
  "hex_value c = find_from (\<lambda>d. d = upper_char c) hex_digits_upper 0"

fun form_decode :: "string \<Rightarrow> string" where
  "form_decode [] = []"
| "form_decode (c # s) =
     (if c = CHR ''+'' then CHR '' '' # form_decode s
      else if c = CHR ''%'' then
        (case s of
           h # l # s' \<Rightarrow>
             (case (hex_value h, hex_value l) of
                (Some high, Some low) \<Rightarrow> char_of (high * 16 + low) # form_decode s'
              | _ \<Rightarrow> c # form_decode s)
         | _ \<Rightarrow> c # form_decode s)
      else c # form_decode s)"

subsection \<open>Authorization responses\<close>

record AuthorizationResponse =
  ar_code :: "string option"
  ar_state :: "string option"
  ar_iss :: "string option"
  ar_error :: "string option"
  ar_error_description :: "string option"
  ar_error_uri :: "string option"

definition empty_response :: AuthorizationResponse where
  "empty_response = \<lparr>ar_code = None, ar_state = None, ar_iss = None, ar_error = None,
     ar_error_description = None, ar_error_uri = None\<rparr>"

definition assign_response_field :: "AuthorizationResponse \<Rightarrow> string \<Rightarrow> string \<Rightarrow> AuthorizationResponse" where
  "assign_response_field r name v =
     (if name = ''code'' then r\<lparr>ar_code := assign_once (ar_code r) v\<rparr>
      else if name = ''state'' then r\<lparr>ar_state := assign_once (ar_state r) v\<rparr>
      else if name = ''iss'' then r\<lparr>ar_iss := assign_once (ar_iss r) v\<rparr>
      else if name = ''error'' then r\<lparr>ar_error := assign_once (ar_error r) v\<rparr>
      else if name = ''error_description'' then r\<lparr>ar_error_description := assign_once (ar_error_description r) v\<rparr>
      else if name = ''error_uri'' then r\<lparr>ar_error_uri := assign_once (ar_error_uri r) v\<rparr>
      else r)"

definition split_at :: "char \<Rightarrow> string \<Rightarrow> (string \<times> string) option" where
  "split_at c s = (case find_from (\<lambda>x. x = c) s 0 of None \<Rightarrow> None | Some k \<Rightarrow> Some (take k s, drop (k + 1) s))"

lemma split_at_shorter: "split_at c s = Some (a, b) \<Longrightarrow> length b < length s"
  by (auto simp: split_at_def dest: find_from_Some(2) split: option.splits)

function response_loop :: "string \<Rightarrow> AuthorizationResponse \<Rightarrow> AuthorizationResponse" where
  "response_loop query r =
     (if query = [] then r
      else (case (case split_at (CHR ''&'') query of None \<Rightarrow> (query, []) | Some (f, q) \<Rightarrow> (f, q)) of
        (field, query') \<Rightarrow>
          (case split_at (CHR ''='') field of
             None \<Rightarrow> response_loop query' r
           | Some (name, v) \<Rightarrow>
               response_loop query'
                 (assign_response_field r (to_lower_ascii (form_decode name)) (form_decode v)))))"
  by pat_completeness auto
termination
  by (relation "measure (\<lambda>(query, r). length query)") (auto dest: split_at_shorter split: option.splits)

declare response_loop.simps [simp del]

definition parse_authorization_response :: "string \<Rightarrow> AuthorizationResponse" where
  "parse_authorization_response redirect_url =
     (let query = (case split_at (CHR ''?'') redirect_url of None \<Rightarrow> redirect_url | Some (_, q) \<Rightarrow> q);
          query' = (case split_at (CHR ''#'') query of None \<Rightarrow> query | Some (q, _) \<Rightarrow> q)
      in response_loop query' empty_response)"

record AuthorizationRequest =
  rq_authorization_url :: string
  rq_state :: string
  rq_code_verifier :: string
  rq_code_challenge :: string
  rq_issuer :: string
  rq_issuer_parameter_supported :: bool
  rq_client_id :: string
  rq_redirect_uri :: string
  rq_scope :: "string option"
  rq_resource :: "string option"

datatype AuthorizationResponseStatus = Status_accepted | Status_state_missing | Status_state_mismatch
  | Status_issuer_missing | Status_issuer_mismatch | Status_server_error | Status_code_missing

definition validate_authorization_response ::
  "AuthorizationRequest \<Rightarrow> AuthorizationResponse \<Rightarrow> AuthorizationResponseStatus \<times> string" where
  "validate_authorization_response request response =
     (if rq_state request \<noteq> [] \<and> ar_state response = None then
        (Status_state_missing, ''authorization response omitted the state parameter'')
      else if rq_state request \<noteq> [] \<and> ar_state response \<noteq> Some (rq_state request) then
        (Status_state_mismatch, ''authorization response state did not match the recorded value'')
      else if ar_iss response \<noteq> None \<and> ar_iss response \<noteq> Some (rq_issuer request) then
        (Status_issuer_mismatch, ''authorization response iss did not match the recorded issuer'')
      else if ar_iss response = None \<and> rq_issuer_parameter_supported request then
        (Status_issuer_missing, ''authorization server advertises iss support but omitted the parameter'')
      else (case ar_error response of
          Some e \<Rightarrow> (Status_server_error, ''authorization server returned error '' @ sanitize_for_diagnostics e)
        | None \<Rightarrow>
            if ar_code response = None \<or> ar_code response = Some [] then
              (Status_code_missing, ''authorization response carried no authorization code'')
            else (Status_accepted, [])))"

text \<open>C37: The client uses an authorization response exactly when it carries the recorded state (when
  one was recorded), its \<open>iss\<close> is the recorded issuer, or is absent where the server does not
  advertise the parameter, it reports no error, and it has a nonempty code. In particular no
  \<open>code\<close> and no \<open>error\<close> of a response is looked at unless the issuer and the state are
  right (RFC 9207), and the text of a server error is sanitized.\<close>

theorem validate_authorization_response_exact:
  "(fst (validate_authorization_response request response) = Status_accepted \<longleftrightarrow>
      (rq_state request = [] \<or> ar_state response = Some (rq_state request))
      \<and> (ar_iss response = Some (rq_issuer request)
         \<or> ar_iss response = None \<and> \<not> rq_issuer_parameter_supported request)
      \<and> ar_error response = None
      \<and> (\<exists>c cs. ar_code response = Some (c # cs)))
   \<and> (fst (validate_authorization_response request response) \<in> {Status_server_error, Status_code_missing}
      \<longrightarrow> (rq_state request = [] \<or> ar_state response = Some (rq_state request))
        \<and> (ar_iss response = Some (rq_issuer request)
           \<or> ar_iss response = None \<and> \<not> rq_issuer_parameter_supported request))
   \<and> (\<forall>e. ar_error response = Some e \<longrightarrow> fst (validate_authorization_response request response) = Status_server_error
        \<longrightarrow> snd (validate_authorization_response request response)
            = ''authorization server returned error '' @ sanitize_for_diagnostics e)"
proof -
  have "c \<noteq> [] \<longleftrightarrow> (\<exists>d ds. c = d # ds)" for c :: string by (cases c) auto
  then show ?thesis
    unfolding validate_authorization_response_def
    by (cases "ar_code response"; cases "ar_iss response"; cases "ar_error response"; cases "ar_state response") auto
qed

definition example_request :: AuthorizationRequest where
  "example_request = \<lparr>rq_authorization_url = ''https://as/authorize'', rq_state = ''s1'',
     rq_code_verifier = ''v'', rq_code_challenge = ''c'', rq_issuer = ''https://as'',
     rq_issuer_parameter_supported = True, rq_client_id = ''app'', rq_redirect_uri = ''http://localhost/cb'',
     rq_scope = None, rq_resource = None\<rparr>"

lemma validate_authorization_response_exact_witness:
  "fst (validate_authorization_response example_request
     (empty_response\<lparr>ar_code := Some ''k'', ar_state := Some ''s1'', ar_iss := Some ''https://as''\<rparr>)) = Status_accepted"
  using validate_authorization_response_exact [of example_request
    "empty_response\<lparr>ar_code := Some ''k'', ar_state := Some ''s1'', ar_iss := Some ''https://as''\<rparr>"]
  by (simp add: example_request_def empty_response_def)

end
