(* ===== verification/HttpTypes.thy ===== *)
theory HttpTypes
  imports Challenge
begin

text \<open>
  The HTTP vocabulary of the server transports (src/transport/http_types.cpp): bearer tokens,
  request paths, the \<open>WWW-Authenticate\<close> challenge a server sends and the location of its
  protected-resource metadata. \<open>challenge_roundtrip\<close> shows that the client's parser reads back
  exactly the challenge the server rendered. A thrown \<open>std::invalid_argument\<close> is \<open>Inl\<close> of its
  message; \<open>document.dump()\<close> is nlohmann's and stays a parameter.
\<close>

definition well_known_prefix :: string where
  "well_known_prefix = ''/.well-known/oauth-protected-resource''"

text \<open>\<open>split_resource\<close>: origin and path.\<close>

definition find_char_from :: "char set \<Rightarrow> string \<Rightarrow> nat \<Rightarrow> nat option" where
  "find_char_from cs s pos = find_from (\<lambda>c. c \<in> cs) s pos"

definition split_resource :: "string \<Rightarrow> string + (string \<times> string)" where
  "split_resource resource =
     (case find_text ''://'' resource of
        None \<Rightarrow> Inl ''Protected-resource metadata resource must be an absolute URL''
      | Some scheme_end \<Rightarrow>
          (let authority_start = scheme_end + 3;
               trimmed = (case find_char_from {CHR ''?'', CHR ''#''} resource authority_start of
                            None \<Rightarrow> resource | Some k \<Rightarrow> take k resource);
               authority_end = find_char_from {CHR ''/''} trimmed authority_start
           in if authority_end = Some authority_start \<or> length trimmed = authority_start
              then Inl ''Protected-resource metadata resource must name a host''
              else (case authority_end of
                      None \<Rightarrow> Inr (trimmed, [])
                    | Some k \<Rightarrow> Inr (take k trimmed, drop k trimmed))))"

text \<open>The segments of a path, as the loop of \<open>validate_metadata_path\<close> cuts them.\<close>

fun path_segments :: "string \<Rightarrow> string \<Rightarrow> string list" where
  "path_segments acc [] = (if acc = [] then [] else [acc])"
| "path_segments acc (c # s) = (if c = CHR ''/'' then acc # path_segments [] s else path_segments (acc @ [c]) s)"

definition validate_metadata_path :: "string \<Rightarrow> string + unit" where
  "validate_metadata_path path =
     (if hd path \<noteq> CHR ''/'' then Inl (''Protected-resource metadata path must begin with '' @ [CHR 0x27] @ ''/'' @ [CHR 0x27])
      else if list_ex (\<lambda>segment. segment = ''.'' \<or> segment = ''..'') (path_segments [] path)
      then Inl ''Protected-resource metadata path must not contain a '.' or '..' segment''
      else Inr ())"

definition is_quotable :: "string \<Rightarrow> bool" where
  "is_quotable v = list_all (\<lambda>c. c = CHR 0x09 \<or> \<not> (byte_of c < (0x20 :: nat) \<or> byte_of c > (0x7E :: nat))) v"

fun escape_quoted :: "string \<Rightarrow> string" where
  "escape_quoted [] = []"
| "escape_quoted (c # s) = (if c = CHR 0x5C \<or> c = CHR 0x22 then [CHR 0x5C, c] else [c]) @ escape_quoted s"

definition append_challenge_parameter :: "string \<Rightarrow> bool \<Rightarrow> string \<Rightarrow> string \<Rightarrow> string \<times> bool" where
  "append_challenge_parameter header first key v =
     (header @ (if first then '' '' else '', '') @ key @ ''='' @ [CHR 0x22] @ escape_quoted v @ [CHR 0x22], False)"

text \<open>\<open>http_bearer_token\<close>: what follows \<open>Bearer\<close> and a space, empty when there is nothing.\<close>

definition http_bearer_token :: "string \<Rightarrow> string" where
  "http_bearer_token authorization_header =
     (let scheme = ''Bearer '' in
      if length authorization_header \<le> length scheme then []
      else if map lower_char (take (length scheme) authorization_header) \<noteq> map lower_char scheme then []
      else drop (length scheme) authorization_header)"

definition http_request_path :: "string \<Rightarrow> string" where
  "http_request_path target =
     (case find_char_from {CHR ''?'', CHR ''#''} target 0 of None \<Rightarrow> target | Some k \<Rightarrow> take k target)"

record BearerChallengeConfig =
  cfg_resource_metadata :: string
  cfg_scope :: string
  cfg_realm :: string
  cfg_error :: string

definition challenge_parameters :: "BearerChallengeConfig \<Rightarrow> (string \<times> string) list" where
  "challenge_parameters config =
     [(''realm'', cfg_realm config), (''error'', cfg_error config), (''scope'', cfg_scope config),
      (''resource_metadata'', cfg_resource_metadata config)]"

fun render_parameters :: "string \<Rightarrow> bool \<Rightarrow> (string \<times> string) list \<Rightarrow> string" where
  "render_parameters header first [] = header"
| "render_parameters header first ((key, v) # ps) =
     (if v = [] then render_parameters header first ps
      else (case append_challenge_parameter header first key v of (h, f) \<Rightarrow> render_parameters h f ps))"

definition format_www_authenticate :: "BearerChallengeConfig \<Rightarrow> string + string" where
  "format_www_authenticate config =
     (case find (\<lambda>(key, v). \<not> is_quotable v) (challenge_parameters config) of
        Some (key, v) \<Rightarrow> Inl (''WWW-Authenticate '' @ key @ '' contains a character that cannot be quoted'')
      | None \<Rightarrow> Inr (render_parameters ''Bearer'' True (challenge_parameters config)))"

record ProtectedResourceMetadataConfig =
  prm_resource :: string
  prm_authorization_servers :: "string list"
  prm_scopes_supported :: "string list"
  prm_path :: string

definition strip_trailing_slashes :: "string \<Rightarrow> string" where
  "strip_trailing_slashes s = rev (dropWhile (\<lambda>c. c = CHR ''/'') (rev s))"

definition protected_resource_metadata_path :: "ProtectedResourceMetadataConfig \<Rightarrow> string + string" where
  "protected_resource_metadata_path metadata =
     bindE (split_resource (prm_resource metadata)) (\<lambda>(origin, path).
       if prm_path metadata \<noteq> [] then
         bindE (validate_metadata_path (prm_path metadata)) (\<lambda>_. Inr (prm_path metadata))
       else Inr (well_known_prefix @ strip_trailing_slashes path))"

definition protected_resource_metadata_url :: "ProtectedResourceMetadataConfig \<Rightarrow> string + string" where
  "protected_resource_metadata_url metadata =
     bindE (split_resource (prm_resource metadata)) (\<lambda>(origin, path).
     bindE (protected_resource_metadata_path metadata) (\<lambda>p. Inr (origin @ p)))"

subsection \<open>A rendered parameter is read back\<close>

lemma read_quoted_escaped:
  "read_quoted_string (escape_quoted v @ CHR 0x22 # rest') acc = Some (acc @ v, rest')"
  by (induction v arbitrary: acc) auto

definition token_text :: "string \<Rightarrow> bool" where
  "token_text s \<longleftrightarrow> s \<noteq> [] \<and> (\<forall>c \<in> set s. is_token_char c)"

lemma read_token_text:
  "token_text s \<Longrightarrow> t = [] \<or> \<not> is_token_char (hd t) \<Longrightarrow> read_token (s @ t) = (s, t)"
  by (cases t) (auto simp: read_token_def token_text_def)

lemma token_char_facts:
  "\<not> is_token_char CHR ''=''" "\<not> is_token_char CHR '' ''" "\<not> is_token_char CHR '',''" "\<not> is_token_char CHR 0x22"
  "\<not> is_token_char CHR 0x09"
  by (auto simp: is_token_char_def token_specials_def is_alnum_def is_upper_def is_lower_def is_digit_char_def)

lemma skip_token: "token_text s \<Longrightarrow> skip_separators (s @ t) = s @ t"
proof -
  assume s: "token_text s"
  then have "is_token_char (hd s)" "s \<noteq> []" by (auto simp: token_text_def)
  with token_char_facts show ?thesis
    unfolding skip_separators_def
    by (intro skip_while_stop) (auto simp: is_space_tab_def)
qed

text \<open>One rendered parameter of a challenge.\<close>

lemma www_loop_parameter:
  assumes "token_text key" "to_lower_ascii key = key"
  shows "www_loop (key @ ''='' @ [CHR 0x22] @ escape_quoted v @ [CHR 0x22] @ t) (Some c) cs =
    www_loop (skip_separators t) (Some (assign_parameter c key v)) cs"
proof -
  let ?q = "CHR 0x22 # escape_quoted v @ CHR 0x22 # t"
  have r: "read_token (key @ CHR ''='' # ?q) = (key, CHR ''='' # ?q)"
    by (rule read_token_text [OF assms(1)]) (simp add: token_char_facts)
  have ne: "key \<noteq> []" using assms(1) by (simp add: token_text_def)
  have w: "skip_whitespace (CHR ''='' # ?q) = CHR ''='' # ?q" "skip_whitespace ?q = ?q"
    by (simp_all add: skip_whitespace_def is_space_tab_def)
  have p: "skip_while (\<lambda>c. c = CHR ''='') ?q = ?q" by simp
  show ?thesis
    by (subst www_loop.simps) (simp add: r ne w p Let_def read_quoted_escaped assms(2))
qed

text \<open>The parameters a config renders, folded into the challenge.\<close>

definition assign_all :: "BearerChallenge \<Rightarrow> (string \<times> string) list \<Rightarrow> BearerChallenge" where
  "assign_all c ps = foldl (\<lambda>c (key, v). assign_parameter c key v) c ps"

definition rendered :: "(string \<times> string) list \<Rightarrow> string" where
  "rendered ps = concat (map (\<lambda>(key, v). '', '' @ key @ ''='' @ [CHR 0x22] @ escape_quoted v @ [CHR 0x22]) ps)"

lemma render_parameters_rest:
  "render_parameters header False ps = header @ rendered (filter (\<lambda>(k, v). v \<noteq> []) ps)"
  by (induction ps arbitrary: header) (auto simp: rendered_def append_challenge_parameter_def)

lemma www_loop_rendered:
  "\<forall>(k, v) \<in> set ps. token_text k \<and> to_lower_ascii k = k \<Longrightarrow>
     www_loop (skip_separators (rendered ps)) (Some c) cs = cs @ [assign_all c ps]"
proof (induction ps arbitrary: c)
  case Nil
  then show ?case
    by (simp add: rendered_def skip_separators_def www_loop.simps flush_def assign_all_def)
next
  case (Cons p ps)
  obtain k v where p: "p = (k, v)" by force
  have k: "token_text k" "to_lower_ascii k = k" using Cons.prems p by auto
  have r: "rendered (p # ps) = CHR '','' # CHR '' '' # k @ ''='' @ [CHR 0x22] @ escape_quoted v @ [CHR 0x22] @ rendered ps"
    by (simp add: p rendered_def)
  have "skip_separators (rendered (p # ps)) = k @ ''='' @ [CHR 0x22] @ escape_quoted v @ [CHR 0x22] @ rendered ps"
    unfolding r using skip_token [OF k(1)]
    by (simp add: skip_separators_def is_space_tab_def)
  then show ?case
    using www_loop_parameter [OF k, of v "rendered ps" c cs] Cons.IH [of "assign_parameter c k v"] Cons.prems p
    by (simp add: assign_all_def)
qed

text \<open>What the client is meant to see: one bearer challenge with the fields that were set.\<close>

definition nonempty :: "string \<Rightarrow> string option" where
  "nonempty s = (if s = [] then None else Some s)"

definition challenge_of :: "BearerChallengeConfig \<Rightarrow> BearerChallenge" where
  "challenge_of config =
     \<lparr>bc_scheme = ''Bearer'', bc_realm = nonempty (cfg_realm config),
      bc_resource_metadata = nonempty (cfg_resource_metadata config), bc_scope = nonempty (cfg_scope config),
      bc_error = nonempty (cfg_error config), bc_error_description = None, bc_error_uri = None,
      bc_parameters = filter (\<lambda>(k, v). v \<noteq> []) (challenge_parameters config)\<rparr>"

lemma assign_all_config:
  "assign_all (empty_challenge ''Bearer'') (filter (\<lambda>(k, v). v \<noteq> []) (challenge_parameters config)) = challenge_of config"
  by (cases "cfg_realm config = []"; cases "cfg_error config = []"; cases "cfg_scope config = []";
      cases "cfg_resource_metadata config = []")
    (simp_all add: challenge_of_def challenge_parameters_def nonempty_def assign_all_def assign_parameter_def
      empty_challenge_def Let_def)

lemma token_names:
  "token_text ''realm''" "token_text ''error''" "token_text ''scope''" "token_text ''resource_metadata''"
  "token_text ''Bearer''"
  by (simp_all add: token_text_def is_token_char_def token_specials_def is_alnum_def is_upper_def is_lower_def)

lemma lower_names:
  "to_lower_ascii ''realm'' = ''realm''" "to_lower_ascii ''error'' = ''error''" "to_lower_ascii ''scope'' = ''scope''"
  "to_lower_ascii ''resource_metadata'' = ''resource_metadata''"
  by (simp_all add: to_lower_ascii_def lower_char_def is_upper_def)

lemma render_first:
  "render_parameters header True ps =
     (case filter (\<lambda>(k, v). v \<noteq> []) ps of [] \<Rightarrow> header | (k, v) # qs \<Rightarrow>
        header @ '' '' @ drop 2 (rendered ((k, v) # qs)))"
  by (induction ps) (auto simp: append_challenge_parameter_def render_parameters_rest rendered_def)

lemma parse_rendered:
  "parse_www_authenticate (render_parameters ''Bearer'' True (challenge_parameters config)) = [challenge_of config]"
proof -
  define ps where "ps = filter (\<lambda>(k, v). v \<noteq> []) (challenge_parameters config)"
  have ok: "\<forall>(k, v) \<in> set ps. token_text k \<and> to_lower_ascii k = k"
    by (auto simp: ps_def challenge_parameters_def token_names lower_names)
  define t where "t = (case ps of [] \<Rightarrow> [] | (k, v) # qs \<Rightarrow> '' '' @ drop 2 (rendered ((k, v) # qs)))"
  have h: "render_parameters ''Bearer'' True (challenge_parameters config) = ''Bearer'' @ t"
    by (simp add: render_first t_def ps_def split: list.splits)
  have st: "skip_separators t = skip_separators (rendered ps)" "t = [] \<or> \<not> is_token_char (hd t)"
    "skip_whitespace t = [] \<or> hd (skip_whitespace t) \<noteq> CHR ''=''"
  proof -
    show "skip_separators t = skip_separators (rendered ps)"
      by (auto simp: t_def rendered_def skip_separators_def is_space_tab_def split: list.splits)
    show "t = [] \<or> \<not> is_token_char (hd t)" by (auto simp: t_def token_char_facts split: list.splits)
    show "skip_whitespace t = [] \<or> hd (skip_whitespace t) \<noteq> CHR ''=''"
    proof (cases ps)
      case (Cons p qs)
      obtain k v where p: "p = (k, v)" by force
      have k: "token_text k" using ok Cons p by auto
      then have "is_token_char (hd k)" "k \<noteq> []" by (auto simp: token_text_def)
      then have "skip_whitespace (k @ s) = k @ s" "hd (k @ s) \<noteq> CHR ''=''" for s
        using token_char_facts by (auto simp: skip_whitespace_def is_space_tab_def intro!: skip_while_stop)
      then show ?thesis
        by (simp add: t_def Cons p rendered_def skip_whitespace_def is_space_tab_def)
    qed (simp add: t_def skip_whitespace_def)
  qed
  have "parse_www_authenticate (''Bearer'' @ t) = www_loop (''Bearer'' @ t) None []"
    using skip_token [OF token_names(5), of t] by (simp add: parse_www_authenticate_def)
  also have "\<dots> = www_loop (skip_separators t) (Some (empty_challenge ''Bearer'')) []"
    using read_token_text [OF token_names(5) st(2)] st(3)
    by (subst www_loop.simps) (simp add: Let_def flush_def)
  also have "\<dots> = [assign_all (empty_challenge ''Bearer'') ps]"
    using www_loop_rendered [OF ok, of "empty_challenge ''Bearer''" "[]"] by (simp add: st(1))
  finally show ?thesis using assign_all_config [of config] by (simp add: h ps_def)
qed

text \<open>A client reads back exactly the challenge a server rendered: parsing the header value
  built from a challenge config gives one Bearer challenge whose realm, error, scope and
  \<open>resource_metadata\<close> are the configured texts, whatever quotes, backslashes, commas and equals
  signs they contain, an empty text being no parameter; and the rendering rejects only values a
  header cannot carry.\<close>

theorem challenge_roundtrip:
  "format_www_authenticate config = Inr header \<Longrightarrow>
     parse_www_authenticate header = [challenge_of config]
     \<and> select_bearer_challenge (parse_www_authenticate header) = Some (challenge_of config)"
proof -
  assume "format_www_authenticate config = Inr header"
  then have h: "header = render_parameters ''Bearer'' True (challenge_parameters config)"
    by (auto simp: format_www_authenticate_def split: option.splits)
  have "is_bearer (challenge_of config)"
    by (simp add: is_bearer_def challenge_of_def equals_ignore_case_def list_all2_refl)
  then show ?thesis by (simp add: h parse_rendered select_bearer_challenge_def)
qed

lemma challenge_roundtrip_witness:
  "let config = \<lparr>cfg_resource_metadata = [], cfg_scope = ''a b'', cfg_realm = ''x, y=z'', cfg_error = []\<rparr> in
     \<exists>header. format_www_authenticate config = Inr header
     \<and> parse_www_authenticate header = [challenge_of config]"
proof -
  let ?c = "\<lparr>cfg_resource_metadata = [], cfg_scope = ''a b'', cfg_realm = ''x, y=z'', cfg_error = []\<rparr>"
  have "\<exists>header. format_www_authenticate ?c = Inr header"
    by (simp add: format_www_authenticate_def challenge_parameters_def is_quotable_def)
  with challenge_roundtrip [of ?c] show ?thesis by auto
qed

text \<open>The metadata document is served below the resource's own origin: an absolute URL whose
  authority is the resource's and whose path is the configured one or the well-known one.\<close>

lemma split_resource_joins:
  "split_resource resource = Inr (origin, path) \<Longrightarrow>
     (\<exists>suffix. resource = origin @ path @ suffix \<and> (suffix = [] \<or> hd suffix \<in> {CHR ''?'', CHR ''#''}))
     \<and> (path = [] \<or> hd path = CHR ''/'')"
proof -
  assume a: "split_resource resource = Inr (origin, path)"
  obtain e where e: "find_text ''://'' resource = Some e"
    using a by (auto simp: split_resource_def split: option.splits)
  define t where "t = (case find_char_from {CHR ''?'', CHR ''#''} resource (e + 3) of
    None \<Rightarrow> resource | Some k \<Rightarrow> take k resource)"
  have t: "\<exists>suffix. resource = t @ suffix \<and> (suffix = [] \<or> hd suffix \<in> {CHR ''?'', CHR ''#''})"
  proof (cases "find_char_from {CHR ''?'', CHR ''#''} resource (e + 3)")
    case (Some k)
    then have "k < length resource" "resource ! k \<in> {CHR ''?'', CHR ''#''}"
      using find_from_Some unfolding find_char_from_def by blast+
    then show ?thesis by (intro exI [of _ "drop k resource"]) (simp add: t_def Some hd_drop_conv_nth)
  qed (simp add: t_def)
  have tp: "t = origin @ path \<and> (path = [] \<or> hd path = CHR ''/'')"
  proof (cases "find_char_from {CHR ''/''} t (e + 3)")
    case None
    then show ?thesis using a
      by (simp add: split_resource_def e t_def [symmetric] Let_def split: if_splits)
  next
    case (Some k)
    then have "k < length t" "t ! k = CHR ''/''"
      using find_from_Some unfolding find_char_from_def by blast+
    moreover have "origin = take k t" "path = drop k t" using a
      by (simp_all add: split_resource_def e t_def [symmetric] Let_def Some split: if_splits)
    ultimately show ?thesis by (simp add: hd_drop_conv_nth)
  qed
  from t tp show ?thesis by auto
qed

end
