(* ===== verification/OAuthCodec.thy ===== *)
theory OAuthCodec
  imports Challenge
begin

text \<open>
  The encodings of the OAuth client (src/auth/oauth.cpp, namespace \<open>detail\<close>): base64 and base64url,
  the rejection sampling of \<open>generate_random_string\<close>, percent and form encoding, the form body of
  a request, the PKCE pair, and the session identifiers of src/core/secure_random.cpp. OpenSSL's
  \<open>RAND_bytes\<close> is the list of the bytes it yields, \<open>None\<close> for a call that fails; its SHA-256 is
  a parameter. The decoders of the round trips are the ones of \<open>Challenge\<close>, where the program has
  them, and RFC 4648's for base64, which it never decodes.
\<close>

subsection \<open>Base64\<close>

definition alphabet :: string where
  "alphabet = ''ABCDEFGHIJKLMNOPQRSTUVWXYZabcdefghijklmnopqrstuvwxyz0123456789+/''"

text \<open>
  One iteration of the loop: the byte at \<open>i\<close> and the ones at \<open>i + 1\<close> and \<open>i + 2\<close> where they
  exist, gathered in an \<open>unsigned int\<close>.
\<close>

definition base64_group :: "byte \<Rightarrow> byte option \<Rightarrow> byte option \<Rightarrow> string" where
  "base64_group b0 b1 b2 =
     (let v0 = push_bit 16 (of_nat b0 :: 32 word);
          v1 = (case b1 of None \<Rightarrow> v0 | Some b \<Rightarrow> v0 OR push_bit 8 (of_nat b));
          v = (case b2 of None \<Rightarrow> v1 | Some b \<Rightarrow> v1 OR of_nat b);
          letter = (\<lambda>shift. alphabet ! unat (drop_bit shift v AND 0x3F))
      in [letter 18, letter 12,
          if b1 \<noteq> None then letter 6 else CHR ''='',
          if b2 \<noteq> None then letter 0 else CHR ''=''])"

fun base64_encode :: "byte list \<Rightarrow> string" where
  "base64_encode [] = []"
| "base64_encode [a] = base64_group a None None"
| "base64_encode [a, b] = base64_group a (Some b) None"
| "base64_encode (a # b # c # s) = base64_group a (Some b) (Some c) @ base64_encode s"

definition url_letter :: "char \<Rightarrow> char" where
  "url_letter c = (if c = CHR ''+'' then CHR ''-'' else if c = CHR ''/'' then CHR ''_'' else c)"

definition base64url_encode :: "byte list \<Rightarrow> string" where
  "base64url_encode s = filter (\<lambda>c. c \<noteq> CHR ''='') (map url_letter (base64_encode s))"

text \<open>RFC 4648, section 4: the decoder of padded text.\<close>

definition sextet :: "char \<Rightarrow> nat option" where
  "sextet c = find_from (\<lambda>d. d = c) alphabet 0"

definition sextet_val :: "char \<Rightarrow> nat" where
  "sextet_val c = (case sextet c of None \<Rightarrow> 0 | Some v \<Rightarrow> v)"

fun base64_decode :: "string \<Rightarrow> byte list" where
  "base64_decode (a # b # c # d # s) =
     (let n = sextet_val a * 262144 + sextet_val b * 4096 + sextet_val c * 64 + sextet_val d
      in (if d = CHR ''='' then (if c = CHR ''='' then [n div 65536] else [n div 65536, n div 256 mod 256])
          else [n div 65536, n div 256 mod 256, n mod 256])) @ base64_decode s"
| "base64_decode _ = []"

lemma alphabet_length [simp]: "length alphabet = 64"
  by (simp add: alphabet_def)

lemma alphabet_distinct: "distinct alphabet"
  by (simp add: alphabet_def)

lemma alphabet_no_pad: "CHR ''='' \<notin> set alphabet"
  by (simp add: alphabet_def)

lemma find_from_distinct:
  assumes "distinct xs" "i < length xs"
  shows "find_from (\<lambda>d. d = xs ! i) xs 0 = Some i"
proof -
  have "xs = take i xs @ xs ! i # drop (Suc i) xs" by (rule id_take_nth_drop [OF assms(2)])
  moreover have "\<forall>x \<in> set (take i xs). x \<noteq> xs ! i"
    using assms by (auto simp: in_set_conv_nth nth_eq_iff_index_eq)
  ultimately show ?thesis
    using find_from_first [of "take i xs" "\<lambda>d. d = xs ! i" "xs ! i" "drop (Suc i) xs"] assms(2) by auto
qed

lemma sextet_letter: "i < 64 \<Longrightarrow> sextet_val (alphabet ! i) = i"
  by (simp add: sextet_val_def sextet_def find_from_distinct alphabet_distinct)

lemma letter_no_pad: "i < 64 \<Longrightarrow> alphabet ! i \<noteq> CHR ''=''"
  using alphabet_no_pad nth_mem [of i alphabet] by (metis alphabet_length)

lemma pad_val [simp]: "sextet_val CHR ''='' = 0"
proof -
  have "sextet CHR ''='' = None"
    unfolding sextet_def by (rule find_from_absent) (use alphabet_no_pad in metis)
  then show ?thesis by (simp add: sextet_val_def)
qed

text \<open>The gathered word is the number of the three bytes, so the letters are its base-64 digits.\<close>

lemma or_disjoint_nat:
  assumes "(b :: nat) < 2 ^ n"
  shows "push_bit n a OR b = a * 2 ^ n + b"
proof -
  have b: "b = take_bit n b" using assms by (simp add: take_bit_nat_eq_self)
  have "push_bit n a AND b = 0"
    by (subst b, rule bit_eqI) (auto simp: bit_simps)
  then show ?thesis by (metis disjunctive_add_eq_or push_bit_eq_mult)
qed

lemma unat_byte: "b < 256 \<Longrightarrow> unat (of_nat b :: 32 word) = b"
  by (simp add: unat_of_nat)

lemma unat_shifted: "b < 256 \<Longrightarrow> n \<le> 16 \<Longrightarrow> unat (push_bit n (of_nat b :: 32 word)) = push_bit n b"
proof -
  assume b: "b < 256" "n \<le> 16"
  have "b * 2 ^ n < 256 * 2 ^ n" using b by simp
  also have "\<dots> \<le> 256 * 2 ^ 16" using b(2) by (intro mult_left_mono power_increasing) simp_all
  finally have "b * 2 ^ n < 2 ^ 32" by simp
  then have "take_bit 32 (push_bit n b) = push_bit n b"
    by (simp add: take_bit_nat_eq_self_iff push_bit_eq_mult)
  moreover have "take_bit 32 b = b" using b by (simp add: take_bit_nat_eq_self_iff)
  ultimately show ?thesis by (simp add: unsigned_push_bit_eq unat_byte [OF b(1)] unsigned_of_nat)
qed

lemma unat_gather:
  assumes "a < 256" "b < 256" "c < 256"
  shows "unat ((push_bit 16 (of_nat a :: 32 word) OR push_bit 8 (of_nat b)) OR of_nat c) = a * 65536 + b * 256 + c"
proof -
  have *: "push_bit 8 b OR c = b * 256 + c" using or_disjoint_nat [of c 8 b] assms by simp
  have "push_bit 16 a OR (b * 256 + c) = a * 65536 + (b * 256 + c)"
    using or_disjoint_nat [of "b * 256 + c" 16 a] assms by simp
  then show ?thesis
    using assms by (simp add: unsigned_or_eq unat_shifted unat_byte * or.assoc)
qed

lemma letter_index:
  "unat (drop_bit n v AND 0x3F) = unat (v :: 32 word) div 2 ^ n mod 64"
proof -
  have "(0x3F :: 32 word) = mask 6" by (simp add: mask_eq_exp_minus_1)
  then have "drop_bit n v AND 0x3F = take_bit 6 (drop_bit n v)" by (simp only: take_bit_eq_mask)
  then have "unat (drop_bit n v AND 0x3F) = take_bit 6 (unat (drop_bit n v))"
    by (simp only: unsigned_take_bit_eq)
  then show ?thesis by (simp only: unat_drop_bit_eq) (simp add: take_bit_eq_mod drop_bit_eq_div)
qed

definition letter_at :: "nat \<Rightarrow> nat \<Rightarrow> char" where
  "letter_at n d = alphabet ! (n div d mod 64)"

lemma sextet_letter_at [simp]: "sextet_val (letter_at n d) = n div d mod 64"
  by (simp add: letter_at_def sextet_letter)

lemma letter_at_no_pad [simp]: "letter_at n d \<noteq> CHR ''=''"
  by (simp add: letter_at_def letter_no_pad)

lemma base64_group_eq:
  assumes "a < 256" "b < 256" "c < 256"
  shows "base64_group a (Some b) (Some c) =
      (let n = a * 65536 + b * 256 + c in [letter_at n 262144, letter_at n 4096, letter_at n 64, letter_at n 1])"
    and "base64_group a (Some b) None =
      (let n = a * 65536 + b * 256 in [letter_at n 262144, letter_at n 4096, letter_at n 64, CHR ''=''])"
    and "base64_group a None None = (let n = a * 65536 in [letter_at n 262144, letter_at n 4096, CHR ''='', CHR ''=''])"
proof -
  note g = unat_gather [OF assms] unat_gather [OF assms(1,2), of 0, simplified or.right_neutral of_nat_0]
    unat_gather [OF assms(1), of 0 0, simplified or.right_neutral of_nat_0 push_bit_of_0]
  show "base64_group a (Some b) (Some c) =
      (let n = a * 65536 + b * 256 + c in [letter_at n 262144, letter_at n 4096, letter_at n 64, letter_at n 1])"
    unfolding base64_group_def Let_def option.case letter_index g(1) letter_at_def by simp
  show "base64_group a (Some b) None =
      (let n = a * 65536 + b * 256 in [letter_at n 262144, letter_at n 4096, letter_at n 64, CHR ''=''])"
    unfolding base64_group_def Let_def option.case letter_index g(2) [simplified] letter_at_def by simp
  show "base64_group a None None = (let n = a * 65536 in [letter_at n 262144, letter_at n 4096, CHR ''='', CHR ''=''])"
    unfolding base64_group_def Let_def option.case letter_index g(3) [simplified] letter_at_def by simp
qed

lemma digits_64:
  fixes n :: nat
  assumes "n < 16777216"
  shows "n div 262144 mod 64 * 262144 + n div 4096 mod 64 * 4096 + n div 64 mod 64 * 64 + n mod 64 = n"
proof -
  have 1: "n mod 64 + n div 64 * 64 = n" by simp
  have 2: "n div 64 mod 64 + n div 4096 * 64 = n div 64"
    using mod_div_mult_eq [of "n div 64" 64] by (simp add: div_mult2_eq [symmetric])
  have 3: "n div 4096 mod 64 + n div 262144 * 64 = n div 4096"
    using mod_div_mult_eq [of "n div 4096" 64] by (simp add: div_mult2_eq [symmetric])
  have 4: "n div 262144 mod 64 = n div 262144" using assms by (intro mod_less) (simp add: div_less_iff_less_mult)
  from 1 2 3 4 show ?thesis by linarith
qed

lemma bytes_of_group:
  fixes a b c :: nat
  assumes "a < 256" "b < 256" "c < 256"
  shows "(a * 65536 + b * 256 + c) div 65536 = a" "(a * 65536 + b * 256 + c) div 256 mod 256 = b"
    "(a * 65536 + b * 256 + c) mod 256 = c"
proof -
  show "(a * 65536 + b * 256 + c) div 65536 = a" using assms by (intro div_nat_eqI) auto
  have "(a * 65536 + b * 256 + c) div 256 = a * 256 + b" using assms by (intro div_nat_eqI) auto
  then show "(a * 65536 + b * 256 + c) div 256 mod 256 = b" using assms by (simp add: mod_mult_self3)
  have "a * 65536 + b * 256 + c = (a * 256 + b) * 256 + c" by simp
  then show "(a * 65536 + b * 256 + c) mod 256 = c" using assms by (metis mod_mult_self3 mod_less)
qed

lemma base64_decode_group:
  assumes "a < 256" "b < 256" "c < 256"
  shows "base64_decode (base64_group a (Some b) (Some c) @ s) = [a, b, c] @ base64_decode s"
proof -
  have n: "a * 65536 + b * 256 + c < 16777216" using assms by auto
  show ?thesis
    using digits_64 [OF n] bytes_of_group [OF assms] by (simp add: base64_group_eq [OF assms] Let_def)
qed

lemma base64_decode_group2:
  assumes "a < 256" "b < 256"
  shows "base64_decode (base64_group a (Some b) None) = [a, b]"
proof -
  define n where "n = a * 65536 + b * 256"
  have n: "n < 16777216" using assms by (auto simp: n_def)
  have "n = (a * 1024 + b * 4) * 64" by (simp add: n_def)
  then have "n mod 64 = 0" by (metis mod_mult_self2_is_0)
  then have *: "n div 262144 mod 64 * 262144 + n div 4096 mod 64 * 4096 + n div 64 mod 64 * 64 = n"
    using digits_64 [OF n] by linarith
  have "n div 65536 = a" "n div 256 mod 256 = b" using bytes_of_group [OF assms, of 0] by (simp_all add: n_def)
  moreover have "base64_group a (Some b) None = [letter_at n 262144, letter_at n 4096, letter_at n 64, CHR ''='']"
    using base64_group_eq(2) [OF assms, of 0] by (simp add: Let_def n_def)
  ultimately show ?thesis by (simp add: Let_def *)
qed

lemma base64_decode_group1:
  assumes "a < 256"
  shows "base64_decode (base64_group a None None) = [a]"
proof -
  define n where "n = a * 65536"
  have n: "n < 16777216" using assms by (auto simp: n_def)
  have "n = a * 16 * 64 * 64" by (simp add: n_def)
  then have "n mod 64 = 0" "n div 64 mod 64 = 0"
    by (metis mod_mult_self2_is_0, metis nonzero_mult_div_cancel_right mod_mult_self2_is_0 zero_neq_numeral)
  then have *: "n div 262144 mod 64 * 262144 + n div 4096 mod 64 * 4096 = n"
    using digits_64 [OF n] by linarith
  have "n div 65536 = a" by (simp add: n_def)
  moreover have "base64_group a None None = [letter_at n 262144, letter_at n 4096, CHR ''='', CHR ''='']"
    using base64_group_eq(3) [OF assms, of 0 0] by (simp add: Let_def n_def)
  ultimately show ?thesis by (simp add: Let_def *)
qed

lemma base64_decode_encode: "\<forall>b \<in> set s. b < 256 \<Longrightarrow> base64_decode (base64_encode s) = s"
  by (induction s rule: base64_encode.induct) (simp_all add: base64_decode_group base64_decode_group1 base64_decode_group2)

text \<open>base64 loses nothing: the RFC 4648 decoder applied to the encoding of any bytes gives the
  bytes back, whatever their number modulo three, and the text has four letters per started
  group of three bytes.\<close>

theorem base64_roundtrip:
  "\<forall>b \<in> set s. b < 256 \<Longrightarrow>
     base64_decode (base64_encode s) = s \<and> length (base64_encode s) = (length s + 2) div 3 * 4"
proof -
  have "length (base64_encode s) = (length s + 2) div 3 * 4"
  proof (induction s rule: base64_encode.induct)
    case (4 a b c s)
    have "(5 + length s) div 3 = Suc (Suc (Suc (length s)) div 3)"
      using div_add_self1 [of 3 "length s + 2"] by (simp add: ac_simps)
    with 4 show ?case by (simp add: base64_group_def Let_def)
  qed (simp_all add: base64_group_def Let_def)
  then show "\<forall>b \<in> set s. b < 256 \<Longrightarrow> ?thesis" by (simp add: base64_decode_encode)
qed

lemma base64_roundtrip_witness: "base64_decode (base64_encode [77, 97, 110, 255]) = [77, 97, 110, 255]"
  using base64_roundtrip [of "[77, 97, 110, 255]"] by simp

subsection \<open>Random text\<close>

definition unreserved_chars :: string where
  "unreserved_chars = ''ABCDEFGHIJKLMNOPQRSTUVWXYZabcdefghijklmnopqrstuvwxyz0123456789-._~''"

definition charset_size :: nat where
  "charset_size = length unreserved_chars"

definition bias_limit :: nat where
  "bias_limit = 256 div charset_size * charset_size"

text \<open>
  \<open>generate_random_string\<close>: the loop draws until it has enough. The result is \<open>None\<close> where the
  draws listed run out, \<open>Inl\<close> the exception of a failed draw, and otherwise the text with the
  draws that are left.
\<close>

fun random_loop :: "nat \<Rightarrow> string \<Rightarrow> byte option list \<Rightarrow> ((string + string) \<times> byte option list) option" where
  "random_loop n result [] = (if length result < n then None else Some (Inr result, []))"
| "random_loop n result (d # draws) =
     (if length result < n then
        (case d of
           None \<Rightarrow> Some (Inl ''RAND_bytes failed'', draws)
         | Some b \<Rightarrow> random_loop n (if b < bias_limit then result @ [unreserved_chars ! (b mod charset_size)] else result) draws)
      else Some (Inr result, d # draws))"

definition generate_random_string :: "nat \<Rightarrow> byte option list \<Rightarrow> ((string + string) \<times> byte option list) option" where
  "generate_random_string n draws = random_loop n [] draws"

lemma less_three: "(d :: nat) < 3 \<Longrightarrow> d = 0 \<or> d = 1 \<or> d = 2"
  by auto

lemma quotient_66: "(b :: nat) < 198 \<Longrightarrow> b div 66 < 3"
  by (simp add: div_less_iff_less_mult)

lemma preimages_66: "(b :: nat) < 198 \<Longrightarrow> b mod 66 = i \<Longrightarrow> b \<in> {i, i + 66, i + 132}"
proof -
  assume b: "b < 198" "b mod 66 = i"
  define q where "q = b div 66"
  have "b = 66 * q + i" unfolding q_def b(2) [symmetric] by (rule mult_div_mod_eq [symmetric])
  with less_three [OF quotient_66 [OF b(1), folded q_def]] show ?thesis by auto
qed

lemma charset_size_eq: "charset_size = 66" and bias_limit_eq: "bias_limit = 198"
  by (simp_all add: charset_size_def unreserved_chars_def bias_limit_def)

lemma unreserved_distinct: "distinct unreserved_chars"
  by (simp add: unreserved_chars_def)

lemma random_loop_draws:
  assumes "n \<le> length result + length (filter (\<lambda>b. b < bias_limit) draws)" "length result \<le> n"
  shows "\<exists>left. random_loop n result (map Some draws) =
    Some (Inr (result @ map (\<lambda>b. unreserved_chars ! (b mod charset_size))
      (take (n - length result) (filter (\<lambda>b. b < bias_limit) draws))), left)"
  using assms
proof (induction draws arbitrary: result)
  case (Cons b draws)
  show ?case
  proof (cases "length result < n \<and> b < bias_limit")
    case True
    then obtain m where m: "n - length result = Suc m" by (metis Suc_diff_Suc)
    then have "n - Suc (length result) = m" by simp
    with True Cons.IH [of "result @ [unreserved_chars ! (b mod charset_size)]"] Cons.prems show ?thesis
      by (simp add: m)
  next
    case False
    with Cons.prems Cons.IH [of result] show ?thesis by (cases "length result < n") simp_all
  qed
qed simp

text \<open>Random texts are unbiased: given enough draws of \<open>RAND_bytes\<close> the loop ends with a text
  of exactly the length asked for, made of the letters of the accepted draws in order, and each
  of the unreserved characters is the letter of exactly three of the 256 byte values.\<close>

theorem random_string_unbiased:
  assumes "n \<le> length (filter (\<lambda>b. b < bias_limit) draws)"
  shows "(\<exists>text left. generate_random_string n (map Some draws) = Some (Inr text, left) \<and> length text = n
      \<and> text = map (\<lambda>b. unreserved_chars ! (b mod charset_size)) (take n (filter (\<lambda>b. b < bias_limit) draws)))
    \<and> (\<forall>c \<in> set unreserved_chars. card {b. b < 256 \<and> b < bias_limit \<and> unreserved_chars ! (b mod charset_size) = c} = 3)"
proof (rule conjI)
  show "\<exists>text left. generate_random_string n (map Some draws) = Some (Inr text, left) \<and> length text = n
      \<and> text = map (\<lambda>b. unreserved_chars ! (b mod charset_size)) (take n (filter (\<lambda>b. b < bias_limit) draws))"
    using random_loop_draws [of n "[]" draws] assms by (force simp: generate_random_string_def)
  show "\<forall>c \<in> set unreserved_chars. card {b. b < 256 \<and> b < bias_limit \<and> unreserved_chars ! (b mod charset_size) = c} = 3"
  proof
    fix c assume "c \<in> set unreserved_chars"
    then obtain i where i: "i < 66" "unreserved_chars ! i = c"
      by (metis in_set_conv_nth charset_size_def charset_size_eq)
    have nth: "unreserved_chars ! (b mod 66) = c \<longleftrightarrow> b mod 66 = i" for b
      using i unreserved_distinct nth_eq_iff_index_eq [of unreserved_chars "b mod 66" i] charset_size_eq
      by (auto simp: charset_size_def)
    have "{b. b < 256 \<and> b < bias_limit \<and> unreserved_chars ! (b mod charset_size) = c} = {i, i + 66, i + 132}"
    proof (intro equalityI subsetI)
      fix b assume "b \<in> {b. b < 256 \<and> b < bias_limit \<and> unreserved_chars ! (b mod charset_size) = c}"
      then have "b < 198" "b mod 66 = i" by (simp_all add: nth charset_size_eq bias_limit_eq)
      then show "b \<in> {i, i + 66, i + 132}" using preimages_66 by blast
    next
      fix b assume "b \<in> {i, i + 66, i + 132}"
      moreover have "(i + 132) mod 66 = i" "(i + 66) mod 66 = i"
        using i(1) mod_mult_self1 [of i 2 66] by simp_all
      ultimately have "b < 198" "b mod 66 = i" using i(1) by auto
      then show "b \<in> {b. b < 256 \<and> b < bias_limit \<and> unreserved_chars ! (b mod charset_size) = c}"
        by (simp add: nth charset_size_eq bias_limit_eq)
    qed
    then show "card {b. b < 256 \<and> b < bias_limit \<and> unreserved_chars ! (b mod charset_size) = c} = 3" by simp
  qed
qed

lemma random_string_unbiased_witness:
  "\<exists>left. generate_random_string 2 (map Some [0, 200, 67]) = Some (Inr ''AB'', left)"
  using random_string_unbiased [of 2 "[0, 200, 67]"]
  by (simp add: charset_size_def bias_limit_def unreserved_chars_def)

text \<open>\<open>generate_secure_session_id\<close>: the hexadecimal digits of 16 random bytes.\<close>

definition hex_digits :: string where
  "hex_digits = ''0123456789abcdef''"

definition session_id_length :: nat where
  "session_id_length = 32"

fun session_id_loop :: "byte list \<Rightarrow> string \<Rightarrow> string" where
  "session_id_loop [] acc = acc"
| "session_id_loop (b # bytes) acc =
     (let acc1 = acc @ [hex_digits ! (b div 16 mod 16)] in
      if length acc1 = session_id_length then acc1
      else let acc2 = acc1 @ [hex_digits ! (b mod 16)] in
        if length acc2 = session_id_length then acc2 else session_id_loop bytes acc2)"

definition generate_secure_session_id :: "(nat \<Rightarrow> byte list option) \<Rightarrow> string + string" where
  "generate_secure_session_id rand_bytes =
     (case rand_bytes ((session_id_length + 1) div 2) of
        None \<Rightarrow> Inl ''Failed to generate a cryptographically secure session id''
      | Some bytes \<Rightarrow> Inr (session_id_loop bytes []))"

lemma session_id_loop_eq:
  "length acc + 2 * length bytes \<le> session_id_length \<Longrightarrow> acc = [] \<or> length acc < session_id_length \<Longrightarrow> even (length acc) \<Longrightarrow>
     session_id_loop bytes acc = acc @ concat (map (\<lambda>b. [hex_digits ! (b div 16 mod 16), hex_digits ! (b mod 16)]) bytes)"
proof (induction bytes arbitrary: acc)
  case (Cons b bytes)
  then have "Suc (length acc) \<noteq> session_id_length" by (auto simp: session_id_length_def)
  moreover have "bytes = []" if "Suc (Suc (length acc)) = session_id_length"
    using Cons.prems(1) that by (cases bytes) auto
  ultimately show ?case using Cons.prems Cons.IH [of "acc @ [hex_digits ! (b div 16 mod 16), hex_digits ! (b mod 16)]"]
    by (auto simp: Let_def)
qed simp

text \<open>A session id carries every bit drawn for it: it has 32 lower-case hexadecimal digits and
  two ids agree only when the 16 random bytes they were made from do.\<close>

theorem session_id_injective:
  assumes "length xs = 16" "length ys = 16" "\<forall>b \<in> set xs \<union> set ys. b < 256"
  shows "\<exists>ix iy. generate_secure_session_id (\<lambda>n. Some xs) = Inr ix \<and> generate_secure_session_id (\<lambda>n. Some ys) = Inr iy
    \<and> length ix = session_id_length \<and> set ix \<subseteq> set hex_digits \<and> (ix = iy \<longleftrightarrow> xs = ys)"
proof -
  let ?h = "\<lambda>b. [hex_digits ! (b div 16 mod 16), hex_digits ! (b mod 16)]"
  have l: "length hex_digits = 16" by (simp add: hex_digits_def)
  have d: "distinct hex_digits" by (simp add: hex_digits_def)
  have e: "session_id_loop bs [] = concat (map ?h bs)" if "length bs = 16" for bs
    using session_id_loop_eq [of "[]" bs] that by (simp add: session_id_length_def)
  have inj: "concat (map ?h us) = concat (map ?h vs) \<longleftrightarrow> us = vs"
    if "length us = length vs" "\<forall>b \<in> set us \<union> set vs. b < 256" for us vs
    using that
  proof (induction us vs rule: list_induct2)
    case (Cons u us v vs)
    have "?h u = ?h v \<longleftrightarrow> u = v"
    proof
      assume "?h u = ?h v"
      then have "u div 16 mod 16 = v div 16 mod 16" "u mod 16 = v mod 16"
        using d l by (simp_all add: nth_eq_iff_index_eq)
      moreover have "u div 16 mod 16 = u div 16" "v div 16 mod 16 = v div 16"
        using Cons.prems by (simp_all add: div_less_iff_less_mult)
      ultimately show "u = v" by (metis div_mult_mod_eq)
    qed simp
    with Cons show ?case by auto
  qed simp
  have sub: "set (concat (map ?h bs)) \<subseteq> set hex_digits" for bs
    using l by (induction bs) auto
  have len: "length (concat (map ?h bs)) = 2 * length bs" for bs by (induction bs) auto
  show ?thesis
    using inj [of xs ys] assms sub [of xs] len [of xs]
    by (simp add: generate_secure_session_id_def e session_id_length_def)
qed

lemma session_id_injective_witness:
  "generate_secure_session_id (\<lambda>n. Some (replicate 16 0)) \<noteq> generate_secure_session_id (\<lambda>n. Some (replicate 16 171))"
  using session_id_injective [of "replicate 16 0" "replicate 16 171"] by auto

subsection \<open>Percent and form encoding\<close>

definition is_unreserved :: "char \<Rightarrow> bool" where
  "is_unreserved c \<longleftrightarrow> is_upper c \<or> is_lower c \<or> is_digit_char c \<or> c = CHR ''-'' \<or> c = CHR ''_'' \<or> c = CHR ''.'' \<or> c = CHR ''~''"

fun url_encode :: "string \<Rightarrow> string" where
  "url_encode [] = []"
| "url_encode (c # s) =
     (if is_unreserved c then [c]
      else [CHR ''%'', hex_digits_upper ! (byte_of c div 16), hex_digits_upper ! (byte_of c mod 16)]) @ url_encode s"

type_synonym key_values = "(string \<times> string) list"

definition add_pair :: "string \<Rightarrow> string \<times> string \<Rightarrow> string" where
  "add_pair body kv = (case kv of (k, v) \<Rightarrow>
     body @ (if body \<noteq> [] then ''&'' else []) @ url_encode k @ ''='' @ url_encode v)"

definition build_form_body :: "key_values \<Rightarrow> string" where
  "build_form_body params = foldl add_pair [] params"

text \<open>\<open>form_encode\<close>: the texts between spaces, encoded, joined by \<open>+\<close>.\<close>

function form_encode_loop :: "string \<Rightarrow> string \<Rightarrow> string" where
  "form_encode_loop result val =
     (case split_at (CHR '' '') val of
        None \<Rightarrow> result @ url_encode val
      | Some (word, val') \<Rightarrow> form_encode_loop (result @ url_encode word @ ''+'') val')"
  by pat_completeness auto
termination
  by (relation "measure (\<lambda>(result, val). length val)") (auto dest: split_at_shorter)

declare form_encode_loop.simps [simp del]

definition form_encode :: "string \<Rightarrow> string" where
  "form_encode val = form_encode_loop [] val"

lemma split_at_first: "c \<notin> set a \<Longrightarrow> split_at c (a @ c # b) = Some (a, b)"
  by (subst split_at_def, subst find_from_first) auto

lemma split_at_absent: "c \<notin> set a \<Longrightarrow> split_at c a = None"
  by (subst split_at_def, subst find_from_absent) auto

lemma split_at_SomeD: "split_at c s = Some (a, b) \<Longrightarrow> s = a @ c # b \<and> c \<notin> set a"
proof -
  assume "split_at c s = Some (a, b)"
  then obtain k where k: "find_from (\<lambda>x. x = c) s 0 = Some k" "a = take k s" "b = drop (k + 1) s"
    by (auto simp: split_at_def split: option.splits)
  note f = find_from_Some [OF k(1)]
  have "s = take k s @ c # drop (k + 1) s" using id_take_nth_drop [OF f(2)] f(3) by simp
  moreover have "c \<notin> set (take k s)" using f(2,4) by (auto simp: in_set_conv_nth)
  ultimately show ?thesis using k by simp
qed

lemma split_at_NoneD: "split_at c s = None \<Longrightarrow> c \<notin> set s"
  by (auto simp: split_at_def find_from_None split: option.splits)

lemma hex_value_upper: "i < 16 \<Longrightarrow> hex_value (hex_digits_upper ! i) = Some i"
proof -
  have d: "distinct hex_digits_upper" "length hex_digits_upper = 16" by (simp_all add: hex_digits_upper_def)
  have u: "\<forall>c \<in> set hex_digits_upper. upper_char c = c"
    by (simp add: hex_digits_upper_def upper_char_def is_lower_def)
  assume i: "i < 16"
  then have "upper_char (hex_digits_upper ! i) = hex_digits_upper ! i" using u d(2) by simp
  then show ?thesis using find_from_distinct [OF d(1), of i] i d(2) by (simp add: hex_value_def)
qed

lemma byte_less: "byte_of c < (256 :: nat)"
  by (rule nat_of_char_less_256)

lemma form_decode_percent: "form_decode (CHR ''%'' # hex_digits_upper ! (byte_of c div 16) # hex_digits_upper ! (byte_of c mod 16) # s)
  = c # form_decode s"
proof -
  have "byte_of c div 16 < (16 :: nat)" "byte_of c mod 16 < (16 :: nat)"
    using byte_less [of c] by (simp_all add: div_less_iff_less_mult)
  then show ?thesis by (simp add: hex_value_upper)
qed

lemma unreserved_plain: "is_unreserved c \<Longrightarrow> c \<noteq> CHR ''+'' \<and> c \<noteq> CHR ''%''"
  by (auto simp: is_unreserved_def is_upper_def is_lower_def is_digit_char_def)

lemma form_decode_url_encode: "form_decode (url_encode s @ t) = s @ form_decode t"
proof (induction s)
  case (Cons c s)
  show ?case
  proof (cases "is_unreserved c")
    case True
    with Cons unreserved_plain [OF True] show ?thesis by (simp del: form_decode.simps(2) add: form_decode.simps(2) [of c])
  next
    case False
    with Cons show ?thesis using form_decode_percent [of c "url_encode s @ t"] by (simp del: form_decode.simps)
  qed
qed simp

lemma form_decode_plus: "form_decode (''+'' @ s) = '' '' @ form_decode s"
  by simp

lemma form_decode_form_encode_loop:
  "(\<And>t. form_decode (result @ t) = done @ form_decode t) \<Longrightarrow> form_decode (form_encode_loop result val) = done @ val"
proof (induction result val arbitrary: "done" rule: form_encode_loop.induct)
  case (1 result val)
  show ?case
  proof (cases "split_at (CHR '' '') val")
    case None
    then show ?thesis using "1.prems" form_decode_url_encode [of val "[]"]
      by (subst form_encode_loop.simps) simp
  next
    case (Some p)
    obtain word val' where p: "p = (word, val')" by force
    have v: "val = word @ CHR '' '' # val'" using Some p split_at_SomeD by blast
    have "form_decode ((result @ url_encode word @ ''+'') @ t) = (done @ word @ '' '') @ form_decode t" for t
      using "1.prems" form_decode_url_encode [of word "''+'' @ t"] by simp
    from "1.IH" [OF Some p [symmetric], OF this] show ?thesis
      using Some p v by (subst form_encode_loop.simps) simp
  qed
qed

definition encoded_char :: "char \<Rightarrow> bool" where
  "encoded_char c \<longleftrightarrow> is_unreserved c \<or> c = CHR ''%''"

lemma hex_unreserved: "i < 16 \<Longrightarrow> is_unreserved (hex_digits_upper ! i)"
proof -
  have "\<forall>c \<in> set hex_digits_upper. is_unreserved c"
    by (simp add: hex_digits_upper_def is_unreserved_def is_upper_def is_digit_char_def)
  moreover have "length hex_digits_upper = 16" by (simp add: hex_digits_upper_def)
  ultimately show "i < 16 \<Longrightarrow> ?thesis" by simp
qed

lemma url_encode_chars: "c \<in> set (url_encode s) \<Longrightarrow> encoded_char c"
proof (induction s)
  case (Cons d s)
  have "byte_of d div 16 < (16 :: nat)" "byte_of d mod 16 < (16 :: nat)"
    using byte_less [of d] by (simp_all add: div_less_iff_less_mult)
  with Cons show ?case by (auto simp: encoded_char_def hex_unreserved split: if_splits)
qed simp

lemma encoded_delimiters:
  "\<not> encoded_char CHR ''&''" "\<not> encoded_char CHR ''=''" "\<not> encoded_char CHR ''#''" "\<not> encoded_char CHR ''?''"
  "\<not> encoded_char CHR '':''" "\<not> encoded_char CHR ''+''"
  by (simp_all add: encoded_char_def is_unreserved_def is_upper_def is_lower_def is_digit_char_def)

text \<open>What the client percent- or form-encodes is decoded back by the program's form decoder, and
  the percent encoding leaves no character that delimits a URL, a form body or HTTP Basic
  credentials.\<close>

theorem form_roundtrip:
  "form_decode (url_encode s) = s \<and> form_decode (form_encode s) = s
   \<and> set (url_encode s) \<inter> {CHR ''&'', CHR ''='', CHR ''#'', CHR ''?'', CHR ''/'', CHR '':'', CHR ''+'', CHR '' ''} = {}"
proof (intro conjI)
  show "form_decode (url_encode s) = s" using form_decode_url_encode [of s "[]"] by simp
  show "form_decode (form_encode s) = s"
    using form_decode_form_encode_loop [of "[]" "[]" s] by (simp add: form_encode_def)
  have "\<not> encoded_char c" if "c \<in> {CHR ''&'', CHR ''='', CHR ''#'', CHR ''?'', CHR ''/'', CHR '':'', CHR ''+'', CHR '' ''}" for c
    using that by (auto simp: encoded_char_def is_unreserved_def is_upper_def is_lower_def is_digit_char_def)
  then show "set (url_encode s) \<inter> {CHR ''&'', CHR ''='', CHR ''#'', CHR ''?'', CHR ''/'', CHR '':'', CHR ''+'', CHR '' ''} = {}"
    using url_encode_chars [of _ s] by blast
qed

subsection \<open>A form body read back\<close>

definition field_text :: "string \<times> string \<Rightarrow> string" where
  "field_text kv = url_encode (fst kv) @ ''='' @ url_encode (snd kv)"

fun joined_fields :: "key_values \<Rightarrow> string" where
  "joined_fields [] = []"
| "joined_fields [kv] = field_text kv"
| "joined_fields (kv # kw # params) = field_text kv @ ''&'' @ joined_fields (kw # params)"

lemma joined_fields_snoc:
  "joined_fields (params @ [kv]) = joined_fields params @ (if params = [] then [] else ''&'') @ field_text kv"
  by (induction params rule: joined_fields.induct) simp_all

lemma joined_fields_nonempty: "params \<noteq> [] \<Longrightarrow> joined_fields params \<noteq> []"
  by (induction params rule: joined_fields.induct) (simp_all add: field_text_def)

lemma build_form_body_eq: "build_form_body params = joined_fields params"
proof (induction params rule: rev_induct)
  case (snoc kv params)
  then show ?case
    by (cases kv) (auto simp: build_form_body_def add_pair_def joined_fields_snoc field_text_def
      dest: joined_fields_nonempty)
qed (simp add: build_form_body_def)

lemma field_text_split:
  "CHR ''&'' \<notin> set (field_text kv)" "CHR ''#'' \<notin> set (field_text kv)"
  "split_at (CHR ''='') (field_text kv) = Some (url_encode (fst kv), url_encode (snd kv))"
proof -
  have *: "d \<notin> set (url_encode s)" if "\<not> encoded_char d" for d s using that url_encode_chars by blast
  show "CHR ''&'' \<notin> set (field_text kv)" "CHR ''#'' \<notin> set (field_text kv)"
    using *[OF encoded_delimiters(1)] *[OF encoded_delimiters(3)] by (simp_all add: field_text_def)
  show "split_at (CHR ''='') (field_text kv) = Some (url_encode (fst kv), url_encode (snd kv))"
    using split_at_first [OF * [OF encoded_delimiters(2)]] by (simp add: field_text_def)
qed

definition assign_field :: "AuthorizationResponse \<Rightarrow> string \<times> string \<Rightarrow> AuthorizationResponse" where
  "assign_field r kv = assign_response_field r (to_lower_ascii (fst kv)) (snd kv)"

lemma response_loop_field:
  "query = field_text kv @ t \<Longrightarrow> t = [] \<and> t' = [] \<or> t = CHR ''&'' # t' \<Longrightarrow>
     response_loop query r = response_loop t' (assign_field r kv)"
proof -
  assume q: "query = field_text kv @ t" and t: "t = [] \<and> t' = [] \<or> t = CHR ''&'' # t'"
  have "query \<noteq> []" using q by (simp add: field_text_def)
  moreover have "(case split_at (CHR ''&'') query of None \<Rightarrow> (query, []) | Some (f, q) \<Rightarrow> (f, q)) = (field_text kv, t')"
    using t
  proof
    assume "t = [] \<and> t' = []"
    then show ?thesis using q split_at_absent [OF field_text_split(1) [of kv]] by simp
  next
    assume "t = CHR ''&'' # t'"
    then show ?thesis using q split_at_first [OF field_text_split(1) [of kv], of t'] by simp
  qed
  moreover have "form_decode (url_encode s) = s" for s using form_decode_url_encode [of s "[]"] by simp
  ultimately show ?thesis
    by (subst response_loop.simps) (simp add: field_text_split(3) assign_field_def)
qed

lemma response_loop_joined: "response_loop (joined_fields params) r = foldl assign_field r params"
proof (induction params arbitrary: r rule: joined_fields.induct)
  case 1
  then show ?case by (simp add: response_loop.simps)
next
  case (2 kv)
  then show ?case using response_loop_field [of "field_text kv" kv "[]" "[]" r] by (simp add: response_loop.simps)
next
  case (3 kv kw params)
  then show ?case
    using response_loop_field [of "joined_fields (kv # kw # params)" kv "''&'' @ joined_fields (kw # params)" _ r]
    by simp
qed

definition lowered :: "key_values \<Rightarrow> key_values" where
  "lowered params = map (\<lambda>(k, v). (to_lower_ascii k, v)) params"

definition first_or :: "string option \<Rightarrow> string \<Rightarrow> key_values \<Rightarrow> string option" where
  "first_or old name params = (case old of None \<Rightarrow> map_of (lowered params) name | Some v \<Rightarrow> Some v)"

lemma first_or_Cons:
  "first_or (if to_lower_ascii k = n then assign_once old v else old) n params = first_or old n ((k, v) # params)"
  by (simp add: first_or_def lowered_def split: option.splits)

lemma assign_field_selects:
  "ar_code (assign_field r (k, v)) = (if to_lower_ascii k = ''code'' then assign_once (ar_code r) v else ar_code r)"
  "ar_state (assign_field r (k, v)) = (if to_lower_ascii k = ''state'' then assign_once (ar_state r) v else ar_state r)"
  "ar_iss (assign_field r (k, v)) = (if to_lower_ascii k = ''iss'' then assign_once (ar_iss r) v else ar_iss r)"
  "ar_error (assign_field r (k, v)) = (if to_lower_ascii k = ''error'' then assign_once (ar_error r) v else ar_error r)"
  by (simp_all add: assign_field_def assign_response_field_def)

lemma foldl_assign_field:
  "ar_code (foldl assign_field r params) = first_or (ar_code r) ''code'' params"
  "ar_state (foldl assign_field r params) = first_or (ar_state r) ''state'' params"
  "ar_iss (foldl assign_field r params) = first_or (ar_iss r) ''iss'' params"
  "ar_error (foldl assign_field r params) = first_or (ar_error r) ''error'' params"
proof (induction params arbitrary: r)
  case (Cons kv params)
  { case 1 then show ?case by (cases kv) (simp only: foldl_Cons Cons.IH assign_field_selects first_or_Cons) }
  { case 2 then show ?case by (cases kv) (simp only: foldl_Cons Cons.IH assign_field_selects first_or_Cons) }
  { case 3 then show ?case by (cases kv) (simp only: foldl_Cons Cons.IH assign_field_selects first_or_Cons) }
  { case 4 then show ?case by (cases kv) (simp only: foldl_Cons Cons.IH assign_field_selects first_or_Cons) }
qed (simp_all add: first_or_def lowered_def split: option.splits)

text \<open>The response an authorization server encodes is the response the client reads: for a redirect
  to a URL without a query, with any parameters, percent-encoded and joined as
  \<open>build_form_body\<close> joins them, and any fragment, each of \<open>code\<close>, \<open>state\<close>, \<open>iss\<close> and \<open>error\<close> is the
  first parameter of that name, names compared without case; a repeated parameter cannot replace
  the first.\<close>

theorem authorization_response_roundtrip:
  assumes "CHR ''?'' \<notin> set redirect_uri" and "fragment = [] \<or> hd fragment = CHR ''#''"
  shows "let response = parse_authorization_response (redirect_uri @ ''?'' @ build_form_body params @ fragment) in
     ar_code response = map_of (lowered params) ''code'' \<and> ar_state response = map_of (lowered params) ''state''
     \<and> ar_iss response = map_of (lowered params) ''iss'' \<and> ar_error response = map_of (lowered params) ''error''"
proof -
  have f: "CHR ''#'' \<notin> set (joined_fields params)"
    by (induction params rule: joined_fields.induct) (simp_all add: field_text_split(2))
  have "(case split_at (CHR ''#'') (joined_fields params @ fragment) of None \<Rightarrow> joined_fields params @ fragment
      | Some (q, _) \<Rightarrow> q) = joined_fields params"
    using assms(2) split_at_first [OF f] split_at_absent [OF f] by (cases fragment) auto
  then have "parse_authorization_response (redirect_uri @ ''?'' @ build_form_body params @ fragment)
      = response_loop (joined_fields params) empty_response"
    using split_at_first [OF assms(1)] by (simp add: parse_authorization_response_def build_form_body_eq Let_def)
  then show ?thesis
    by (simp add: foldl_assign_field response_loop_joined first_or_def Let_def empty_response_def)
qed

lemma authorization_response_roundtrip_witness:
  "ar_code (parse_authorization_response
     (''http://localhost/cb?'' @ build_form_body [(''code'', ''a&b=c''), (''Code'', ''evil'')] @ ''#x'')) = Some ''a&b=c''"
  using authorization_response_roundtrip [of "''http://localhost/cb''" "''#x''" "[(''code'', ''a&b=c''), (''Code'', ''evil'')]"]
  by (simp add: Let_def lowered_def to_lower_ascii_def lower_char_def is_upper_def)

subsection \<open>PKCE\<close>

record PkcePair =
  code_verifier :: string
  code_challenge :: string
  challenge_method :: string

definition min_verifier_length :: nat where
  "min_verifier_length = 43"

definition max_verifier_length :: nat where
  "max_verifier_length = 128"

text \<open>\<open>sha256 v\<close> is the digest, \<open>None\<close> where OpenSSL reports an error.\<close>

definition generate_pkce_pair ::
  "(string \<Rightarrow> byte list option) \<Rightarrow> byte option list \<Rightarrow> nat \<Rightarrow> (string + PkcePair) option" where
  "generate_pkce_pair sha256 draws verifier_length =
     (if verifier_length < min_verifier_length \<or> verifier_length > max_verifier_length then
        Some (Inl ''PKCE verifier length must be 43-128 characters'')
      else
        (case generate_random_string verifier_length draws of
           None \<Rightarrow> None
         | Some (Inl e, _) \<Rightarrow> Some (Inl e)
         | Some (Inr verifier, _) \<Rightarrow>
             (case sha256 verifier of
                None \<Rightarrow> Some (Inl ''OpenSSL SHA-256 failed'')
              | Some hash \<Rightarrow>
                  Some (Inr \<lparr>code_verifier = verifier, code_challenge = base64url_encode hash,
                             challenge_method = ''S256''\<rparr>))))"

text \<open>The check of an authorization server (RFC 7636, section 4.6).\<close>

definition server_accepts_pkce :: "(string \<Rightarrow> byte list option) \<Rightarrow> string \<Rightarrow> string \<Rightarrow> bool" where
  "server_accepts_pkce sha256 challenge verifier = (map_option base64url_encode (sha256 verifier) = Some challenge)"

lemma base64_encode_chars: "set (base64_encode s) \<subseteq> insert (CHR ''='') (set alphabet)"
proof (induction s rule: base64_encode.induct)
  case (4 a b c s)
  have "set (base64_group a (Some b) (Some c)) \<subseteq> set alphabet"
    by (auto simp: base64_group_def Let_def letter_index)
  with 4 show ?case by auto
qed (auto simp: base64_group_def Let_def letter_index)

lemma base64url_chars: "c \<in> set (base64url_encode s) \<Longrightarrow> is_unreserved c"
proof -
  assume "c \<in> set (base64url_encode s)"
  then obtain d where d: "d \<in> set (base64_encode s)" "c = url_letter d" "c \<noteq> CHR ''=''"
    by (auto simp: base64url_encode_def)
  then have "d \<in> set alphabet" using base64_encode_chars [of s] by (auto simp: url_letter_def)
  moreover have "\<forall>d \<in> set alphabet. is_unreserved (url_letter d)"
    by (simp add: alphabet_def url_letter_def is_unreserved_def is_upper_def is_lower_def is_digit_char_def)
  ultimately show ?thesis using d by simp
qed

lemma unreserved_chars_unreserved: "c \<in> set unreserved_chars \<Longrightarrow> is_unreserved c"
proof -
  have "\<forall>c \<in> set unreserved_chars. is_unreserved c"
    by (simp add: unreserved_chars_def is_unreserved_def is_upper_def is_lower_def is_digit_char_def)
  then show "c \<in> set unreserved_chars \<Longrightarrow> ?thesis" by blast
qed

lemma random_loop_text:
  "random_loop n result draws = Some (Inr t, left) \<Longrightarrow> length result \<le> n \<Longrightarrow> set result \<subseteq> set unreserved_chars \<Longrightarrow>
     length t = n \<and> set t \<subseteq> set unreserved_chars"
proof (induction n result draws rule: random_loop.induct)
  case (2 n result d draws)
  have "unreserved_chars ! (b mod charset_size) \<in> set unreserved_chars" for b
    by (intro nth_mem) (simp add: charset_size_def unreserved_chars_def)
  with 2 show ?case by (auto split: if_splits option.splits)
qed (auto split: if_splits)

text \<open>A PKCE pair is well formed and is accepted by the server: whatever the random source yields,
  a pair that is returned has a verifier of the length asked for, between 43 and 128
  unreserved characters, a challenge of base64url letters without padding, the method S256, and
  the challenge is the one the server recomputes from the verifier; a length outside the range
  is refused before any draw.\<close>

theorem pkce_pair_sound:
  "(generate_pkce_pair sha256 draws n = Some (Inr pair) \<longrightarrow>
      43 \<le> n \<and> n \<le> 128 \<and> length (code_verifier pair) = n
      \<and> (\<forall>c \<in> set (code_verifier pair) \<union> set (code_challenge pair). is_unreserved c)
      \<and> challenge_method pair = ''S256''
      \<and> server_accepts_pkce sha256 (code_challenge pair) (code_verifier pair))
   \<and> (n < 43 \<or> 128 < n \<longrightarrow>
      generate_pkce_pair sha256 draws n = Some (Inl ''PKCE verifier length must be 43-128 characters''))"
proof (intro conjI impI)
  assume "generate_pkce_pair sha256 draws n = Some (Inr pair)"
  then obtain v left hash where v: "random_loop n [] draws = Some (Inr v, left)" "sha256 v = Some hash"
      "pair = \<lparr>code_verifier = v, code_challenge = base64url_encode hash, challenge_method = ''S256''\<rparr>"
      "43 \<le> n" "n \<le> 128"
    by (auto simp: generate_pkce_pair_def generate_random_string_def min_verifier_length_def max_verifier_length_def
      split: if_splits option.splits sum.splits)
  show "43 \<le> n" "n \<le> 128" using v by simp_all
  show "length (code_verifier pair) = n" using random_loop_text [OF v(1)] v(3) by simp
  show "\<forall>c \<in> set (code_verifier pair) \<union> set (code_challenge pair). is_unreserved c"
    using random_loop_text [OF v(1)] v(3) unreserved_chars_unreserved base64url_chars by auto
  show "challenge_method pair = ''S256''" using v by simp
  show "server_accepts_pkce sha256 (code_challenge pair) (code_verifier pair)"
    using v by (simp add: server_accepts_pkce_def)
qed (auto simp: generate_pkce_pair_def min_verifier_length_def max_verifier_length_def)

lemma pkce_pair_sound_witness:
  "let pair = the (generate_pkce_pair (\<lambda>v. Some [0, 16, 131]) (replicate 43 (Some 0)) 43) in
     \<exists>p. pair = Inr p \<and> length (code_verifier p) = 43"
proof -
  have "43 \<le> length (filter (\<lambda>b. b < bias_limit) (replicate 43 0))" by (simp add: bias_limit_eq)
  then obtain left where "generate_random_string 43 (map Some (replicate 43 0)) = Some (Inr (map (\<lambda>b. unreserved_chars ! (b mod charset_size))
      (take 43 (filter (\<lambda>b. b < bias_limit) (replicate 43 0)))), left)"
    using random_loop_draws [of 43 "[]" "replicate 43 0"] by (auto simp: generate_random_string_def)
  then obtain p where "generate_pkce_pair (\<lambda>v. Some [0, 16, 131]) (replicate 43 (Some 0)) 43 = Some (Inr p)"
    by (simp add: generate_pkce_pair_def min_verifier_length_def max_verifier_length_def)
  with pkce_pair_sound [of "\<lambda>v. Some [0, 16, 131]" "replicate 43 (Some 0)" 43 p] show ?thesis by simp
qed

end
