(* ===== verification/OAuthUrl.thy ===== *)
theory OAuthUrl
  imports MetadataPolicy HttpTypes "HOL-Library.Sublist"
begin

text \<open>
  URLs as the OAuth client reads them (src/auth/oauth.cpp): the request target of a fetch, the
  target of a redirect, whether a protected resource identifies the configured server, and the
  well-known locations of metadata documents. The client splits URLs in three places by three
  routines of its own; the properties relate them to each other and to the fetch policy's.
\<close>

subsection \<open>The request target\<close>

definition starts_with :: "string \<Rightarrow> string \<Rightarrow> bool" where
  "starts_with pre s \<longleftrightarrow> take (length pre) s = pre"

lemma starts_with_append: "starts_with p s \<longleftrightarrow> (\<exists>t. s = p @ t)"
  by (metis append_eq_conv_conj append_take_drop_id starts_with_def)

record ParsedUrl =
  pu_scheme :: string
  pu_host :: string
  pu_host_header :: string
  pu_port :: string
  pu_path :: string

definition http_prefix :: string where
  "http_prefix = ''http://''"

definition https_prefix :: string where
  "https_prefix = ''https://''"

text \<open>The request path: the fragment is dropped and a query gets the root path.\<close>

definition request_path :: "string \<Rightarrow> string" where
  "request_path path =
     (let p = (case find_from (is_char CHR ''#'') path 0 of None \<Rightarrow> path | Some fragment \<Rightarrow> take fragment path)
      in if p = [] \<or> hd p \<noteq> CHR ''/'' then CHR ''/'' # p else p)"

text \<open>Host, Host header and port of an authority.\<close>

definition split_authority :: "string \<Rightarrow> string \<Rightarrow> string + (string \<times> string \<times> string)" where
  "split_authority authority port0 =
     (if authority \<noteq> [] \<and> hd authority = CHR ''['' then
        (case find_from (is_char CHR '']'') authority 0 of
           None \<Rightarrow> Inl ''OAuth HTTP client URL has a malformed IPv6 host''
         | Some closing \<Rightarrow>
             if closing + 1 < length authority \<and> authority ! (closing + 1) \<noteq> CHR '':'' then
               Inl ''OAuth HTTP client URL has a malformed IPv6 host''
             else Inr (take (closing - 1) (drop 1 authority), take (closing + 1) authority,
                       if closing + 1 < length authority then drop (closing + 2) authority else port0))
      else
        (case find_from (is_char CHR '':'') authority 0 of
           None \<Rightarrow> Inr (authority, authority, port0)
         | Some colon \<Rightarrow> Inr (take colon authority, take colon authority, drop (colon + 1) authority)))"

definition parse_url :: "string \<Rightarrow> string + ParsedUrl" where
  "parse_url url =
     (case (if starts_with http_prefix url then Some (''http'', ''80'', length http_prefix)
            else if starts_with https_prefix url then Some (''https'', ''443'', length https_prefix)
            else None) of
        None \<Rightarrow> Inl ''OAuth HTTP client URL must use the http:// or https:// scheme''
      | Some (scheme, port0, prefix_length) \<Rightarrow>
          (let rest_url = drop prefix_length url;
               authority_end = find_from ends_authority rest_url 0;
               authority = (case authority_end of None \<Rightarrow> rest_url | Some k \<Rightarrow> take k rest_url);
               path = (case authority_end of None \<Rightarrow> [] | Some k \<Rightarrow> drop k rest_url)
           in bindE (split_authority authority port0) (\<lambda>(host, host_header, port).
                Inr \<lparr>pu_scheme = scheme, pu_host = host, pu_host_header = host_header, pu_port = port,
                     pu_path = request_path path\<rparr>)))"

subsection \<open>Redirects\<close>

definition is_alpha :: "char \<Rightarrow> bool" where
  "is_alpha c \<longleftrightarrow> is_upper c \<or> is_lower c"

definition has_uri_scheme :: "string \<Rightarrow> bool" where
  "has_uri_scheme reference =
     (case find_from (\<lambda>c. c \<in> {CHR '':'', CHR ''/'', CHR ''?'', CHR ''#''}) reference 0 of
        None \<Rightarrow> False
      | Some colon \<Rightarrow>
          if colon = 0 \<or> reference ! colon \<noteq> CHR '':'' \<or> \<not> is_alpha (hd reference) then False
          else list_all (\<lambda>c. is_alnum c \<or> c = CHR ''+'' \<or> c = CHR ''-'' \<or> c = CHR ''.'') (take colon reference))"

text \<open>\<open>rfind\<close>: the last index of a character.\<close>

fun rfind_from :: "char \<Rightarrow> string \<Rightarrow> nat \<Rightarrow> nat option \<Rightarrow> nat option" where
  "rfind_from c [] i found = found"
| "rfind_from c (x # xs) i found = rfind_from c xs (Suc i) (if x = c then Some i else found)"

definition resolve_redirect_target :: "string \<Rightarrow> string \<Rightarrow> string" where
  "resolve_redirect_target base location =
     (if has_uri_scheme location then location
      else let origin = metadata_url_origin base in
        if origin = [] then location
        else if location \<noteq> [] \<and> hd location = CHR ''/'' then origin @ location
        else let directory = (case find_from (\<lambda>c. c \<in> {CHR ''?'', CHR ''#''}) base 0 of
                                None \<Rightarrow> base | Some query \<Rightarrow> take query base)
          in (case rfind_from (CHR ''/'') directory 0 None of
                None \<Rightarrow> origin @ ''/'' @ location
              | Some last_slash \<Rightarrow>
                  if last_slash < length origin then origin @ ''/'' @ location
                  else take (last_slash + 1) directory @ location))"

definition is_redirect_status :: "nat \<Rightarrow> bool" where
  "is_redirect_status status \<longleftrightarrow> status \<in> {301, 302, 303, 307, 308}"

subsection \<open>Does a resource identify the server?\<close>

definition resource_identifies_server :: "string \<Rightarrow> string \<Rightarrow> bool" where
  "resource_identifies_server resource server_url =
     (if resource = server_url then True
      else if CHR ''?'' \<in> set resource \<or> CHR ''#'' \<in> set resource then False
      else let resource_origin = metadata_url_origin resource; server_origin = metadata_url_origin server_url in
        if resource_origin = [] \<or> resource_origin \<noteq> server_origin then False
        else let resource_path = drop (length resource_origin) resource in
          if resource_path = [] \<or> resource_path = ''/'' then True
          else let resource_path' = (if last resource_path = CHR ''/'' then butlast resource_path else resource_path);
                   server_path = drop (length server_origin) server_url
            in if server_path = resource_path' then True
               else length server_path > length resource_path' \<and> take (length resource_path') server_path = resource_path'
                    \<and> server_path ! length resource_path' = CHR ''/'')"

definition require_resource_identifies_server :: "string \<Rightarrow> string \<Rightarrow> string + unit" where
  "require_resource_identifies_server resource server_url =
     (if resource = [] then
        Inl (''Protected resource metadata for server '' @ [CHR 0x27] @ sanitize_for_diagnostics server_url
             @ [CHR 0x27] @ '' is missing the required '' @ [CHR 0x27] @ ''resource'' @ [CHR 0x27] @ '' member'')
      else if \<not> resource_identifies_server resource server_url then
        Inl (''Protected resource metadata resource '' @ [CHR 0x27] @ sanitize_for_diagnostics resource
             @ [CHR 0x27] @ '' does not identify server '' @ [CHR 0x27] @ sanitize_for_diagnostics server_url @ [CHR 0x27])
      else Inr ())"

subsection \<open>Well-known locations\<close>

record UrlComponents =
  uc_scheme :: string
  uc_authority :: string
  uc_path :: string

definition parse_url_components :: "string \<Rightarrow> string + UrlComponents" where
  "parse_url_components url =
     (case find_text ''://'' url of
        None \<Rightarrow> Inl (''URL missing scheme: '' @ sanitize_for_diagnostics url)
      | Some scheme_end \<Rightarrow>
          (let rest_url = drop (scheme_end + 3) url in
           case find_from (is_char CHR ''/'') rest_url 0 of
             None \<Rightarrow> Inr \<lparr>uc_scheme = take scheme_end url, uc_authority = rest_url, uc_path = ''/''\<rparr>
           | Some path_start \<Rightarrow>
               Inr \<lparr>uc_scheme = take scheme_end url, uc_authority = take path_start rest_url,
                    uc_path = drop path_start rest_url\<rparr>))"

definition without_leading_slash :: "string \<Rightarrow> string" where
  "without_leading_slash path = (if path \<noteq> [] \<and> hd path = CHR ''/'' then tl path else path)"

definition without_trailing_slash :: "string \<Rightarrow> string" where
  "without_trailing_slash path = (if path \<noteq> [] \<and> last path = CHR ''/'' then butlast path else path)"

text \<open>The candidates \<open>discover_protected_resource\<close> and \<open>discover_auth_server\<close> try, in order.\<close>

definition protected_resource_urls :: "string \<Rightarrow> string option \<Rightarrow> string + string list" where
  "protected_resource_urls resource_url challenge_metadata_url =
     (case challenge_metadata_url of
        Some url \<Rightarrow> Inr [url]
      | None \<Rightarrow>
          bindE (parse_url_components resource_url) (\<lambda>parsed.
            let base = uc_scheme parsed @ ''://'' @ uc_authority parsed in
            Inr ((if uc_path parsed \<noteq> [] \<and> uc_path parsed \<noteq> ''/''
                  then [base @ ''/.well-known/oauth-protected-resource/'' @ without_leading_slash (uc_path parsed)]
                  else []) @ [base @ ''/.well-known/oauth-protected-resource''])))"

definition auth_server_urls :: "string \<Rightarrow> string + string list" where
  "auth_server_urls issuer_url =
     bindE (parse_url_components issuer_url) (\<lambda>parsed.
       let base = uc_scheme parsed @ ''://'' @ uc_authority parsed in
       if uc_path parsed \<noteq> [] \<and> uc_path parsed \<noteq> ''/'' then
         (let path_part = without_trailing_slash (without_leading_slash (uc_path parsed)) in
          Inr [base @ ''/.well-known/oauth-authorization-server/'' @ path_part,
               base @ ''/.well-known/openid-configuration/'' @ path_part,
               issuer_url @ ''/.well-known/openid-configuration''])
       else Inr [base @ ''/.well-known/oauth-authorization-server'', base @ ''/.well-known/openid-configuration''])"

subsection \<open>Agreement of the splits\<close>

lemma origin_of_split: "split_url url = Some (s, a) \<Longrightarrow> metadata_url_origin url = s @ ''://'' @ a"
  by (simp add: metadata_url_origin_def)

lemma metadata_url_origin_split:
  assumes "metadata_url_origin url \<noteq> []"
  shows "\<exists>s a r. split_url url = Some (s, a) \<and> url = metadata_url_origin url @ r \<and> rest_text r
    \<and> metadata_url_origin url = s @ ''://'' @ a"
proof -
  obtain s a where sp: "split_url url = Some (s, a)"
    using assms by (cases "split_url url") (auto simp: metadata_url_origin_def)
  obtain r where "url = s @ ''://'' @ a @ r" "rest_text r" using split_url_parts(4) [OF sp] by blast
  with sp origin_of_split [OF sp] show ?thesis by auto
qed

lemma metadata_url_origin_replace:
  assumes "metadata_url_origin url \<noteq> []" "rest_text r"
  shows "metadata_url_origin (metadata_url_origin url @ r) = metadata_url_origin url"
proof -
  obtain s a where sp: "split_url url = Some (s, a)" and o: "metadata_url_origin url = s @ ''://'' @ a"
    using metadata_url_origin_split [OF assms(1)] by blast
  from origin_of_split [OF split_url_replace [OF sp assms(2)]] o show ?thesis by simp
qed

lemma rfind_from_Some:
  "rfind_from c s i found = Some k \<Longrightarrow> found = Some k \<or> i \<le> k \<and> k < i + length s \<and> s ! (k - i) = c"
proof (induction s arbitrary: i found)
  case (Cons x s)
  from Cons.IH [of "Suc i"] Cons.prems show ?case
    by (fastforce simp: nth_Cons' split: if_splits)
qed simp

lemma rfind_Some: "rfind_from c s 0 None = Some k \<Longrightarrow> k < length s \<and> s ! k = c"
  using rfind_from_Some [of c s 0 None k] by simp

lemma find_first_authority:
  assumes "\<forall>c \<in> set a. \<not> ends_authority c" "rest_text r"
  shows "find_from ends_authority (a @ r) 0 = (if r = [] then None else Some (length a))"
proof (cases r)
  case Nil
  then show ?thesis using find_from_absent assms(1) by auto
next
  case (Cons c r')
  then show ?thesis using assms find_from_first [of a ends_authority c r'] by (auto simp: rest_text_def)
qed

lemma parse_url_split:
  assumes p: "parse_url url = Inr p" and sp: "split_url url = Some (s, a)"
  shows "s \<in> {''http'', ''https''}"
    and "\<exists>h hh t. split_authority a (if s = ''http'' then ''80'' else ''443'') = Inr (h, hh, t)
      \<and> pu_scheme p = s \<and> pu_host p = h \<and> pu_host_header p = hh \<and> pu_port p = t"
proof -
  have pre: "starts_with http_prefix url \<or> starts_with https_prefix url"
    using p by (auto simp: parse_url_def split: if_splits)
  have st: "scheme_text ''http''" "scheme_text ''https''" by (simp_all add: scheme_text_def)
  have "http_prefix = ''http'' @ ''://''" "https_prefix = ''https'' @ ''://''"
    by (simp_all add: http_prefix_def https_prefix_def)
  with pre obtain s' t where s': "s' \<in> {''http'', ''https''}" and u: "url = s' @ ''://'' @ t"
    unfolding starts_with_append by (metis append_assoc insertCI)
  have f: "find_text ''://'' url = Some (length s')" unfolding u using s' st find_scheme_end by blast
  have "s = take (length s') url" using sp unfolding split_url_def f by (auto simp: Let_def split: if_splits)
  then have s: "s = s'" by (simp add: u)
  with s' show "s \<in> {''http'', ''https''}" by simp
  obtain r where r: "url = s @ ''://'' @ a @ r" "rest_text r" using split_url_parts(4) [OF sp] by blast
  have t: "t = a @ r" using u r(1) s by simp
  note fa = find_first_authority [OF split_url_parts(3) [OF sp] r(2)]
  have au: "(case find_from ends_authority t 0 of None \<Rightarrow> t | Some k \<Rightarrow> take k t) = a"
    unfolding t fa by simp
  have pa: "parse_url url = bindE (split_authority a (if s = ''http'' then ''80'' else ''443''))
      (\<lambda>(host, host_header, port). Inr \<lparr>pu_scheme = s, pu_host = host, pu_host_header = host_header, pu_port = port,
          pu_path = request_path (case find_from ends_authority t 0 of None \<Rightarrow> [] | Some k \<Rightarrow> drop k t)\<rparr>)"
  proof (cases "s = ''http''")
    case True
    have "url = CHR ''h'' # CHR ''t'' # CHR ''t'' # CHR ''p'' # CHR '':'' # CHR ''/'' # CHR ''/'' # t"
      using True s by (simp add: u)
    then have "starts_with http_prefix url" "drop (length http_prefix) url = t"
      by (simp_all add: http_prefix_def starts_with_def)
    with True show ?thesis by (simp add: parse_url_def Let_def au del: drop_drop cong: option.case_cong)
  next
    case False
    then have h: "s = ''https''" using s' s by simp
    then have "url = CHR ''h'' # CHR ''t'' # CHR ''t'' # CHR ''p'' # CHR ''s'' # CHR '':'' # CHR ''/'' # CHR ''/'' # t"
      using s by (simp add: u)
    then have "\<not> starts_with http_prefix url" "starts_with https_prefix url" "drop (length https_prefix) url = t"
      by (simp_all add: http_prefix_def https_prefix_def starts_with_def)
    with h show ?thesis by (simp add: parse_url_def Let_def au del: drop_drop cong: option.case_cong)
  qed
  from p show "\<exists>h hh t. split_authority a (if s = ''http'' then ''80'' else ''443'') = Inr (h, hh, t)
      \<and> pu_scheme p = s \<and> pu_host p = h \<and> pu_host_header p = hh \<and> pu_port p = t"
    unfolding pa by auto
qed

lemma split_authority_host:
  assumes "split_authority a d = Inr (h, hh, t)" "authority_host a = Some host" "a \<noteq> []"
  shows "h = host \<and> t = (case authority_port a of None \<Rightarrow> d | Some port \<Rightarrow> port)"
proof (cases "hd a = CHR ''[''")
  case True
  then show ?thesis using assms
    by (auto simp: split_authority_def authority_host_def authority_port_def split: option.splits if_splits)
next
  case False
  then show ?thesis using assms
    by (auto simp: split_authority_def authority_host_def authority_port_def split: option.splits if_splits)
qed

subsection \<open>Properties\<close>

text \<open>The host the client connects to is the host the policy judged: when a URL is allowed and
  \<open>parse_url\<close> accepts it, the host it resolves is the policy's host, the scheme is the policy's,
  and the port is the one written in the authority or the scheme's default; the two routines
  cannot be made to read different hosts from one URL.\<close>

theorem fetched_host_is_checked_host:
  assumes "validate_metadata_url ip policy url = Inr Decision_allowed" and "parse_url url = Inr p"
  shows "\<exists>authority host. split_url url = Some (pu_scheme p, authority) \<and> authority_host authority = Some host
    \<and> CHR ''@'' \<notin> set authority \<and> pu_host p = host
    \<and> pu_port p = (case authority_port authority of
         None \<Rightarrow> if pu_scheme p = ''http'' then ''80'' else ''443'' | Some port \<Rightarrow> port)"
proof -
  obtain s a host where sp: "split_url url = Some (s, a)" "CHR ''@'' \<notin> set a" "authority_host a = Some host"
    using assms(1) by (auto simp: validate_metadata_url_def split: option.splits if_splits)
  from parse_url_split(2) [OF assms(2) sp(1)] obtain h hh t where
    "split_authority a (if s = ''http'' then ''80'' else ''443'') = Inr (h, hh, t)"
    "pu_scheme p = s" "pu_host p = h" "pu_port p = t" by blast
  with split_authority_host [OF _ sp(3) split_url_parts(2) [OF sp(1)]] sp show ?thesis by blast
qed

lemma fetched_host_is_checked_host_witness:
  "\<exists>p. parse_url ''https://as.test/x'' = Inr p \<and> pu_host p = ''as.test'' \<and> pu_port p = ''443''"
proof -
  have p: "parse_url ''https://as.test/x'' = Inr \<lparr>pu_scheme = ''https'', pu_host = ''as.test'',
      pu_host_header = ''as.test'', pu_port = ''443'', pu_path = ''/x''\<rparr>"
    by (simp add: parse_url_def starts_with_def http_prefix_def https_prefix_def Let_def find_from_def ends_authority_def
        split_authority_def is_char_def request_path_def)
  have "split_url ''https://as.test/x'' = Some (''https'', ''as.test'')"
    using split_url_built [of "''https''" "''as.test''" "''/x''"] 
    by (simp add: scheme_text_def authority_text_def rest_text_def ends_authority_def)
  with fetched_host_is_checked_host [OF example_allowed p] p show ?thesis
    by (auto simp: authority_port_def find_from_def is_char_def)
qed

text \<open>A relative redirect cannot leave the origin: whatever a \<open>Location\<close> without a scheme of its own
  contains (a network-path reference, dots, a query, an authority-like text), the URL it resolves
  to has the origin of the URL that answered; and a \<open>Location\<close> with a scheme is used as it is.\<close>

theorem redirect_stays_on_origin:
  "(metadata_url_origin base \<noteq> [] \<and> \<not> has_uri_scheme location \<longrightarrow>
      metadata_url_origin (resolve_redirect_target base location) = metadata_url_origin base)
   \<and> (has_uri_scheme location \<longrightarrow> resolve_redirect_target base location = location)"
proof (intro conjI impI)
  assume a: "metadata_url_origin base \<noteq> [] \<and> \<not> has_uri_scheme location"
  let ?o = "metadata_url_origin base"
  obtain r where r: "base = ?o @ r" "rest_text r" using metadata_url_origin_split a by blast
  note replace = metadata_url_origin_replace [OF conjunct1 [OF a]]
  have slash: "metadata_url_origin (?o @ ''/'' @ location) = ?o"
    by (rule replace) (simp add: rest_text_def ends_authority_def)
  define directory where "directory = (case find_from (\<lambda>c. c \<in> {CHR ''?'', CHR ''#''}) base 0 of
      None \<Rightarrow> base | Some query \<Rightarrow> take query base)"
  have pre: "\<exists>n. directory = take n base"
    by (cases "find_from (\<lambda>c. c \<in> {CHR ''?'', CHR ''#''}) base 0") (auto simp: directory_def intro: exI [of _ "length base"])
  have dir: "metadata_url_origin (take (k + 1) directory @ location) = ?o"
    if k: "rfind_from (CHR ''/'') directory 0 None = Some k" "length ?o \<le> k" for k
  proof -
    obtain n where n: "directory = take n base" using pre by blast
    have kl: "k < length directory" using rfind_Some [OF k(1)] by blast
    then have l: "take (k + 1) directory = take (k + 1) base" using n by (simp add: take_take)
    have b: "take (k + 1) base = ?o @ take (k + 1 - length ?o) r"
      using k(2) by (subst r(1)) simp
    have "length ?o < length base" using kl k(2) n by (simp split: if_splits)
    then have "r \<noteq> []" using r(1) by (metis append_Nil2 less_irrefl)
    moreover have "0 < k + 1 - length ?o" using k(2) by simp
    ultimately have "rest_text (take (k + 1 - length ?o) r @ location)"
      using r(2) by (cases r) (auto simp: rest_text_def take_Cons')
    from replace [OF this] show ?thesis by (simp only: l b append_assoc)
  qed
  show "metadata_url_origin (resolve_redirect_target base location) = ?o"
  proof (cases "location \<noteq> [] \<and> hd location = CHR ''/''")
    case True
    have "rest_text location" using True by (simp add: rest_text_def ends_authority_def)
    from replace [OF this] True a show ?thesis by (simp add: resolve_redirect_target_def Let_def)
  next
    case False
    have "resolve_redirect_target base location =
        (case rfind_from (CHR ''/'') directory 0 None of
           None \<Rightarrow> ?o @ ''/'' @ location
         | Some last_slash \<Rightarrow> if last_slash < length ?o then ?o @ ''/'' @ location
             else take (last_slash + 1) directory @ location)"
      unfolding resolve_redirect_target_def Let_def directory_def [symmetric]
      using a False by (simp only: if_False simp_thms)
    then show ?thesis
      using slash dir by (cases "rfind_from (CHR ''/'') directory 0 None") (simp_all add: not_less)
  qed
qed (simp add: resolve_redirect_target_def)

lemma redirect_stays_on_origin_witness:
  "metadata_url_origin (resolve_redirect_target ''https://as.test/a/b?x=/c'' ''//evil.test/y'') = ''https://as.test''"
proof -
  have "split_url ''https://as.test/a/b?x=/c'' = Some (''https'', ''as.test'')"
    using split_url_built [of "''https''" "''as.test''" "''/a/b?x=/c''"]
    by (simp add: scheme_text_def authority_text_def rest_text_def ends_authority_def)
  then have o: "metadata_url_origin ''https://as.test/a/b?x=/c'' = ''https://as.test''"
    by (simp add: metadata_url_origin_def)
  have "\<not> has_uri_scheme ''//evil.test/y''" by (simp add: has_uri_scheme_def find_from_def)
  with redirect_stays_on_origin [of "''https://as.test/a/b?x=/c''" "''//evil.test/y''"] o show ?thesis by simp
qed

text \<open>The segments between slashes.\<close>

fun segments :: "string \<Rightarrow> string list" where
  "segments [] = [[]]"
| "segments (c # s) = (if c = CHR ''/'' then [] # segments s else (c # hd (segments s)) # tl (segments s))"

fun join_segments :: "string list \<Rightarrow> string" where
  "join_segments [] = []"
| "join_segments [x] = x"
| "join_segments (x # y # xs) = x @ ''/'' @ join_segments (y # xs)"

lemma segments_nonempty [simp]: "segments s \<noteq> []"
  by (induction s) auto

lemma join_segments_Cons: "xs \<noteq> [] \<Longrightarrow> join_segments (x # xs) = x @ ''/'' @ join_segments xs"
  by (cases xs) auto

lemma join_segments_hd: "xs \<noteq> [] \<Longrightarrow> join_segments ((c # hd xs) # tl xs) = c # join_segments xs"
  by (cases xs rule: join_segments.cases) auto

lemma join_segments_segments [simp]: "join_segments (segments s) = s"
  by (induction s) (auto simp: join_segments_Cons join_segments_hd)

lemma join_segments_append:
  "xs \<noteq> [] \<Longrightarrow> ys \<noteq> [] \<Longrightarrow> join_segments (xs @ ys) = join_segments xs @ ''/'' @ join_segments ys"
  by (induction xs rule: join_segments.induct) (auto simp: join_segments_Cons)

lemma segments_append: "segments (q @ CHR ''/'' # x) = segments q @ segments x"
  by (induction q) (auto simp: tl_append split: list.splits)

lemma segment_boundary:
  "sp = q \<or> (\<exists>x. sp = q @ CHR ''/'' # x) \<longleftrightarrow> prefix (segments q) (segments sp)"
proof
  assume "sp = q \<or> (\<exists>x. sp = q @ CHR ''/'' # x)"
  then show "prefix (segments q) (segments sp)" by (auto simp: segments_append)
next
  assume "prefix (segments q) (segments sp)"
  then obtain ys where ys: "segments sp = segments q @ ys" by (auto simp: prefix_def)
  show "sp = q \<or> (\<exists>x. sp = q @ CHR ''/'' # x)"
  proof (cases "ys = []")
    case True
    with ys show ?thesis by (metis append_Nil2 join_segments_segments)
  next
    case False
    have "sp = join_segments (segments q @ ys)" using ys by (metis join_segments_segments)
    with False show ?thesis by (simp add: join_segments_append)
  qed
qed

lemma boundary_test:
  "length sp > length q \<and> take (length q) sp = q \<and> sp ! length q = CHR ''/'' \<longleftrightarrow> (\<exists>x. sp = q @ CHR ''/'' # x)"
proof
  assume a: "length sp > length q \<and> take (length q) sp = q \<and> sp ! length q = CHR ''/''"
  then have "sp = q @ CHR ''/'' # drop (Suc (length q)) sp" using id_take_nth_drop [of "length q" sp] by simp
  then show "\<exists>x. sp = q @ CHR ''/'' # x" by blast
qed auto

text \<open>A resource identifies the server exactly when it is the server's URL, or has no query or
  fragment, has the same scheme and authority byte for byte, and its path is empty, a single
  slash, or, without one trailing slash, a prefix of the server's path in whole segments: a
  resource \<open>/a/b\<close> covers \<open>/a/b/c\<close> and never \<open>/a/bc\<close>.\<close>

theorem resource_identifies_server_segments:
  "resource_identifies_server resource server_url \<longleftrightarrow>
     resource = server_url
     \<or> CHR ''?'' \<notin> set resource \<and> CHR ''#'' \<notin> set resource
       \<and> metadata_url_origin resource \<noteq> [] \<and> metadata_url_origin resource = metadata_url_origin server_url
       \<and> (let path = drop (length (metadata_url_origin resource)) resource;
              server_path = drop (length (metadata_url_origin server_url)) server_url
          in path = [] \<or> path = ''/'' \<or> prefix (segments (without_trailing_slash path)) (segments server_path))"
proof -
  have "(if sp = q then True else length sp > length q \<and> take (length q) sp = q \<and> sp ! length q = CHR ''/'')
      \<longleftrightarrow> prefix (segments q) (segments sp)" for sp q
    using segment_boundary [of sp q] boundary_test [of q sp] by (simp del: not_less) blast
  note * = this
  show ?thesis
    unfolding resource_identifies_server_def Let_def * without_trailing_slash_def
    by (auto split: if_splits)
qed

text \<open>The server path the check compares is what follows the authority, a query included, so the path
  of a configured URL with a query is not recognised.\<close>

lemma query_hides_server_path:
  "\<not> resource_identifies_server ''https://h/mcp'' ''https://h/mcp?tenant=1''"
  by (simp add: resource_identifies_server_def metadata_url_origin_def split_url_def find_text_def find_from_def
    ends_authority_def)

lemma find_index_from_shift: "find_index_from p xs (i + d) = map_option (\<lambda>k. k + d) (find_index_from p xs i)"
proof (induction xs arbitrary: i)
  case (Cons x xs)
  from Cons.IH [of "Suc i"] show ?case by simp
qed simp

text \<open>Discovery looks where a server publishes: for a server of this library configured with a
  resource that has no query or fragment and does not end in a slash after a longer path, and
  with no metadata path of its own, the first location the client tries is the one the server
  serves its protected-resource metadata at.\<close>

theorem discovery_finds_published_metadata:
  assumes "protected_resource_metadata_url metadata = Inr published" and "prm_path metadata = []"
    and "CHR ''?'' \<notin> set (prm_resource metadata)" and "CHR ''#'' \<notin> set (prm_resource metadata)"
    and "split_resource (prm_resource metadata) = Inr (origin, path)"
    and "path = ''/'' \<or> path = [] \<or> last path \<noteq> CHR ''/''"
  shows "\<exists>others. protected_resource_urls (prm_resource metadata) None = Inr (published # others)"
proof -
  let ?r = "prm_resource metadata"
  obtain e where e: "find_text ''://'' ?r = Some e"
    using assms(5) by (auto simp: split_resource_def split: option.splits)
  have el: "e + 3 \<le> length ?r" and ep: "take 3 (drop e ?r) = ''://''"
  proof -
    have "take 3 (drop e ?r) = ''://''" using find_text_Some(2) [OF e] by (simp add: numeral_3_eq_3)
    then show "take 3 (drop e ?r) = ''://''" .
    then have "length (take 3 (drop e ?r)) = 3" by (simp only: list.size)
    then show "e + 3 \<le> length ?r" by simp
  qed
  have nf: "find_char_from {CHR ''?'', CHR ''#''} ?r (e + 3) = None"
    using assms(3,4) by (auto simp: find_char_from_def find_from_None dest: in_set_dropD)
  define rest_url where "rest_url = drop (e + 3) ?r"
  have ru: "?r = take e ?r @ ''://'' @ rest_url"
    using append_take_drop_id [of e ?r] append_take_drop_id [of 3 "drop e ?r"] ep
    by (simp add: rest_url_def add.commute)
  have le: "length (take e ?r) = e" using el by simp
  have fi: "find_from (is_char CHR ''/'') ?r (e + 3) = map_option (\<lambda>k. k + (e + 3)) (find_from (is_char CHR ''/'') rest_url 0)"
  proof -
    show ?thesis using find_index_from_shift [of "is_char CHR ''/''" rest_url 0 "e + 3"]
      by (simp add: find_from_def rest_url_def)
  qed
  have cs: "find_char_from {CHR ''/''} ?r (e + 3) = find_from (is_char CHR ''/'') ?r (e + 3)"
    by (simp add: find_char_from_def is_char_def [abs_def])
  have op: "origin = take e ?r @ ''://'' @ (case find_from (is_char CHR ''/'') rest_url 0 of None \<Rightarrow> rest_url | Some k \<Rightarrow> take k rest_url)
      \<and> path = (case find_from (is_char CHR ''/'') rest_url 0 of None \<Rightarrow> [] | Some k \<Rightarrow> drop k rest_url)"
  proof (cases "find_from (is_char CHR ''/'') rest_url 0")
    case None
    with assms(5) ru show ?thesis
      by (auto simp: split_resource_def e nf cs fi Let_def split: if_splits)
  next
    case (Some k)
    then have o: "origin = take (k + (e + 3)) ?r" "path = drop (k + (e + 3)) ?r"
      using assms(5) by (auto simp: split_resource_def e nf cs fi Let_def split: if_splits)
    have "take (k + (e + 3)) ?r = take e ?r @ ''://'' @ take k rest_url"
      using le by (subst ru) (simp add: numeral_3_eq_3)
    with Some o show ?thesis by (simp add: rest_url_def)
  qed
  have pc: "parse_url_components ?r = Inr \<lparr>uc_scheme = take e ?r,
      uc_authority = (case find_from (is_char CHR ''/'') rest_url 0 of None \<Rightarrow> rest_url | Some k \<Rightarrow> take k rest_url),
      uc_path = (if path = [] then ''/'' else path)\<rparr>"
  proof (cases "find_from (is_char CHR ''/'') rest_url 0")
    case None
    then show ?thesis using op by (simp add: parse_url_components_def e rest_url_def)
  next
    case (Some k)
    then have "drop k rest_url \<noteq> []" using find_from_Some(2) by fastforce
    then show ?thesis using op Some by (simp add: parse_url_components_def e rest_url_def)
  qed
  have pub: "published = origin @ well_known_prefix @ strip_trailing_slashes path"
    using assms(1,2,5) by (simp add: protected_resource_metadata_url_def protected_resource_metadata_path_def)
  show ?thesis
  proof (cases "path = [] \<or> path = ''/''")
    case True
    then have "strip_trailing_slashes path = []" by (auto simp: strip_trailing_slashes_def)
    with True show ?thesis
      using op by (auto simp: protected_resource_urls_def pc pub Let_def well_known_prefix_def)
  next
    case False
    then have ls: "last path \<noteq> CHR ''/''" using assms(6) by blast
    then have "strip_trailing_slashes path = path"
      using False by (cases path rule: rev_cases) (auto simp: strip_trailing_slashes_def)
    moreover have "hd path = CHR ''/''" using split_resource_joins [OF assms(5)] False by blast
    moreover have "path = CHR ''/'' # without_leading_slash path"
      using calculation(2) False by (cases path) (auto simp: without_leading_slash_def)
    ultimately show ?thesis
      using False op by (auto simp: protected_resource_urls_def pc pub Let_def well_known_prefix_def)
  qed
qed

lemma discovery_finds_published_metadata_witness:
  "\<exists>others. protected_resource_urls ''https://h/mcp'' None =
     Inr (''https://h/.well-known/oauth-protected-resource/mcp'' # others)"
proof -
  let ?m = "\<lparr>prm_resource = ''https://h/mcp'', prm_authorization_servers = [], prm_scopes_supported = [], prm_path = []\<rparr>"
  have s: "split_resource (prm_resource ?m) = Inr (''https://h'', ''/mcp'')"
    by (simp add: split_resource_def find_text_def find_char_from_def find_from_def)
  then have "protected_resource_metadata_url ?m = Inr ''https://h/.well-known/oauth-protected-resource/mcp''"
    by (simp add: protected_resource_metadata_url_def protected_resource_metadata_path_def well_known_prefix_def
      strip_trailing_slashes_def)
  from discovery_finds_published_metadata [OF this _ _ _ s] show ?thesis by simp
qed

end
