(* ===== verification/OAuthHttp.thy ===== *)
theory OAuthHttp
  imports OAuthUrl OAuthCodec
begin

text \<open>
  The outbound HTTP exchanges of the OAuth client (\<open>OAuthHttpClient::Impl\<close> in src/auth/oauth.cpp).
  An exchange is a coroutine: what it does between two suspensions, or between two critical
  sections of \<open>active_mutex\<close>, is one function, and the step relation \<open>http_step\<close> interleaves the
  exchanges of a client with the calls that abort it or change its policy. Name resolution, the
  socket and the JSON parser are outside the program: their answers are the arguments of the
  steps. Opening a socket is recorded in a log, which is what the properties speak about.
\<close>

datatype OAuthError =
  Operation_aborted
| Policy_error MetadataPolicyError
| Invalid_argument string
| Runtime_error string
| Network_error string
| Timed_out

record HttpResponse =
  rs_status :: nat
  rs_location :: "string option"
  rs_body :: string

text \<open>What the exchange of a request and its response ends with.\<close>

datatype Reply = Reply_response HttpResponse | Reply_body_limit | Reply_expired | Reply_error string

type_synonym Endpoint = "Address \<times> nat"
type_synonym HostResolver = "string \<Rightarrow> string \<Rightarrow> string list"

text \<open>A GET, or a POST with its body, content type, failure label and authorization.\<close>

datatype FetchKind = Fetch_get | Fetch_post string string string string

text \<open>Where an exchange stands; \<open>'j\<close> is the parsed JSON document.\<close>

datatype 'j Phase =
  Untracked
| Hop
| Resolving
| Checking
| Opening
| Exchanging
| Finished "OAuthError + 'j"

record 'j Exchange =
  ex_url :: string
  ex_parsed :: "ParsedUrl option"
  ex_scope :: "nat option"
  ex_policy :: MetadataFetchPolicy
  ex_resolver :: "HostResolver option"
  ex_kind :: FetchKind
  ex_redirect :: nat
  ex_endpoints :: "Endpoint list"
  ex_phase :: "'j Phase"

record Opened =
  op_exchange :: nat
  op_url :: string
  op_parsed :: ParsedUrl
  op_endpoints :: "Endpoint list"

record 'j HttpClient =
  hc_policy :: MetadataFetchPolicy
  hc_resolver :: "HostResolver option"
  hc_aborted :: bool
  hc_scopes :: "bool list"
  hc_exchanges :: "'j Exchange list"
  hc_active :: "nat list"
  hc_posted :: "nat list"
  hc_log :: "Opened list"

text \<open>\<open>is_aborted\<close>: the client's latch, or that of the scope.\<close>

definition scope_latched :: "bool list \<Rightarrow> nat option \<Rightarrow> bool" where
  "scope_latched scopes scope = (case scope of None \<Rightarrow> False | Some s \<Rightarrow> scopes ! s)"

definition is_aborted :: "'j HttpClient \<Rightarrow> nat option \<Rightarrow> bool" where
  "is_aborted client scope = (hc_aborted client \<or> scope_latched (hc_scopes client) scope)"

subsection \<open>The segments of an exchange\<close>

text \<open>\<open>std::stoul\<close>, cast to \<open>unsigned short\<close>: white space, a sign, and the digits up to the first other character.\<close>

definition is_space_char :: "char \<Rightarrow> bool" where
  "is_space_char c \<longleftrightarrow> c = CHR '' '' \<or> 9 \<le> (byte_of c :: nat) \<and> (byte_of c :: nat) \<le> 13"

definition stoul_port :: "string \<Rightarrow> OAuthError + nat" where
  "stoul_port port =
     (let s = skip_while is_space_char port;
          negative = (s \<noteq> [] \<and> hd s = CHR ''-'');
          t = (if s \<noteq> [] \<and> hd s \<in> {CHR ''-'', CHR ''+''} then tl s else s);
          digits = takeWhile is_digit_char t
      in if digits = [] then Inl (Invalid_argument ''stoul'')
         else if decimal_value digits \<ge> 2 ^ 64 then Inl (Runtime_error ''stoul'')
         else Inr (if negative then (2 ^ 64 - decimal_value digits) mod 65536 else decimal_value digits mod 65536))"

definition fail_exchange :: "'j Exchange \<Rightarrow> OAuthError \<Rightarrow> 'j Exchange" where
  "fail_exchange ex e = ex\<lparr>ex_phase := Finished (Inl e)\<rparr>"

definition enforce_url_policy :: "AsioIp \<Rightarrow> MetadataFetchPolicy \<Rightarrow> string \<Rightarrow> OAuthError + unit" where
  "enforce_url_policy ip policy url =
     (case validate_metadata_url ip policy url of
        Inl e \<Rightarrow> Inl (Policy_error e)
      | Inr decision \<Rightarrow>
          if decision \<noteq> Decision_allowed then Inl (Policy_error (metadata_policy_error decision url)) else Inr ())"

fun enforce_address_policy :: "AsioIp \<Rightarrow> MetadataFetchPolicy \<Rightarrow> Endpoint list \<Rightarrow> OAuthError + unit" where
  "enforce_address_policy ip policy [] = Inr ()"
| "enforce_address_policy ip policy ((address, port) # endpoints) =
     (let literal = address_text ip address; decision = validate_metadata_address ip policy literal in
      if decision \<noteq> Decision_allowed then Inl (Policy_error (metadata_policy_error decision literal))
      else enforce_address_policy ip policy endpoints)"

fun resolver_endpoints :: "AsioIp \<Rightarrow> string list \<Rightarrow> nat \<Rightarrow> OAuthError + Endpoint list" where
  "resolver_endpoints ip [] port = Inr []"
| "resolver_endpoints ip (literal # literals) port =
     (case make_address ip literal of
        None \<Rightarrow> Inl (Runtime_error (''Host resolver returned an unusable address: '' @ sanitize_for_diagnostics literal))
      | Some address \<Rightarrow>
          bindE (resolver_endpoints ip literals port) (\<lambda>endpoints. Inr ((address, port) # endpoints)))"

text \<open>\<open>connect\<close> once the lookup has answered: nothing resolved, or an address the policy refuses, ends it.\<close>

definition after_lookup :: "AsioIp \<Rightarrow> ParsedUrl \<Rightarrow> Endpoint list \<Rightarrow> 'j Exchange \<Rightarrow> 'j Exchange" where
  "after_lookup ip parsed endpoints ex =
     (if endpoints = [] then
        fail_exchange ex (Runtime_error (''No address resolved for '' @ sanitize_for_diagnostics (pu_host parsed)))
      else (case enforce_address_policy ip (ex_policy ex) endpoints of
              Inl e \<Rightarrow> fail_exchange ex e
            | Inr _ \<Rightarrow> ex\<lparr>ex_endpoints := endpoints, ex_phase := Checking\<rparr>))"

text \<open>\<open>connect\<close> up to its first suspension.\<close>

definition connect_begin :: "AsioIp \<Rightarrow> ParsedUrl \<Rightarrow> 'j Exchange \<Rightarrow> 'j Exchange" where
  "connect_begin ip parsed ex =
     (if pu_scheme parsed \<noteq> ''http'' then
        fail_exchange ex (Runtime_error
          (''OAuth over https requires TLS support, which this build does not provide: '' @ sanitize_for_diagnostics (ex_url ex)))
      else (case ex_resolver ex of
              None \<Rightarrow> ex\<lparr>ex_phase := Resolving\<rparr>
            | Some resolver \<Rightarrow>
                (case bindE (stoul_port (pu_port parsed))
                        (resolver_endpoints ip (resolver (pu_host parsed) (pu_port parsed))) of
                   Inl e \<Rightarrow> fail_exchange ex e
                 | Inr endpoints \<Rightarrow> after_lookup ip parsed endpoints ex)))"

text \<open>
  One hop up to the lookup: \<open>run_get\<close> re-reads the abort, \<open>run_post_json\<close> does not; both enforce the
  URL policy, split the URL and drop what an earlier hop left.
\<close>

definition hop_begin :: "AsioIp \<Rightarrow> bool \<Rightarrow> 'j Exchange \<Rightarrow> 'j Exchange" where
  "hop_begin ip aborted ex =
     (if ex_kind ex = Fetch_get \<and> aborted then fail_exchange ex Operation_aborted
      else (case enforce_url_policy ip (ex_policy ex) (ex_url ex) of
              Inl e \<Rightarrow> fail_exchange ex e
            | Inr _ \<Rightarrow>
                (case parse_url (ex_url ex) of
                   Inl m \<Rightarrow> fail_exchange ex (Invalid_argument m)
                 | Inr parsed \<Rightarrow> connect_begin ip parsed (ex\<lparr>ex_parsed := Some parsed, ex_endpoints := []\<rparr>))))"

text \<open>The request a hop sends.\<close>

record HttpRequest =
  hq_verb :: string
  hq_target :: string
  hq_headers :: "(string \<times> string) list"
  hq_body :: string

definition exchange_request :: "'j Exchange \<Rightarrow> ParsedUrl \<Rightarrow> HttpRequest" where
  "exchange_request ex parsed =
     (case ex_kind ex of
        Fetch_get \<Rightarrow>
          \<lparr>hq_verb = ''GET'', hq_target = pu_path parsed,
           hq_headers = [(''Host'', pu_host_header parsed), (''Accept'', ''application/json'')], hq_body = []\<rparr>
      | Fetch_post body content_type label authorization \<Rightarrow>
          \<lparr>hq_verb = ''POST'', hq_target = pu_path parsed,
           hq_headers = [(''Host'', pu_host_header parsed), (''Content-Type'', content_type), (''Accept'', ''application/json'')]
             @ (if authorization \<noteq> [] then [(''Authorization'', authorization)] else []),
           hq_body = body\<rparr>)"

definition parse_body :: "(string \<Rightarrow> 'j option) \<Rightarrow> 'j Exchange \<Rightarrow> HttpResponse \<Rightarrow> 'j Exchange" where
  "parse_body parse_json ex response =
     (case parse_json (rs_body response) of
        None \<Rightarrow> fail_exchange ex (Runtime_error (''Failed to parse JSON from '' @ sanitize_for_diagnostics (ex_url ex)))
      | Some json \<Rightarrow> ex\<lparr>ex_phase := Finished (Inr json)\<rparr>)"

text \<open>What \<open>run_get\<close> does with a response: follow the redirect, or end.\<close>

definition get_response :: "(string \<Rightarrow> 'j option) \<Rightarrow> 'j Exchange \<Rightarrow> HttpResponse \<Rightarrow> 'j Exchange" where
  "get_response parse_json ex response =
     (if is_redirect_status (rs_status response) then
        if ex_redirect ex \<ge> max_redirects (ex_policy ex) then
          fail_exchange ex (Policy_error (metadata_policy_error Decision_redirect_limit_exceeded (ex_url ex)))
        else (case rs_location response of
                None \<Rightarrow> fail_exchange ex (Runtime_error (''HTTP GET '' @ sanitize_for_diagnostics (ex_url ex)
                          @ '' returned a redirect without a Location header''))
              | Some location \<Rightarrow>
                  ex\<lparr>ex_url := resolve_redirect_target (ex_url ex) location, ex_redirect := ex_redirect ex + 1,
                     ex_phase := Hop\<rparr>)
      else if rs_status response \<ge> 400 then
        fail_exchange ex (Runtime_error (''HTTP GET '' @ sanitize_for_diagnostics (ex_url ex) @ '' failed with status ''
          @ decimal (rs_status response)))
      else parse_body parse_json ex response)"

definition post_response :: "(string \<Rightarrow> 'j option) \<Rightarrow> string \<Rightarrow> 'j Exchange \<Rightarrow> HttpResponse \<Rightarrow> 'j Exchange" where
  "post_response parse_json label ex response =
     (if rs_status response \<ge> 400 then
        fail_exchange ex (Runtime_error (label @ '' failed with status '' @ decimal (rs_status response) @ '': ''
          @ sanitize_for_diagnostics (rs_body response)))
      else parse_body parse_json ex response)"

definition after_reply :: "(string \<Rightarrow> 'j option) \<Rightarrow> Reply \<Rightarrow> 'j Exchange \<Rightarrow> 'j Exchange" where
  "after_reply parse_json reply ex =
     (case reply of
        Reply_response response \<Rightarrow>
          (case ex_kind ex of
             Fetch_get \<Rightarrow> get_response parse_json ex response
           | Fetch_post body content_type label authorization \<Rightarrow> post_response parse_json label ex response)
      | Reply_body_limit \<Rightarrow>
          fail_exchange ex (Policy_error (metadata_policy_error Decision_response_too_large (ex_url ex)))
      | Reply_expired \<Rightarrow> fail_exchange ex Timed_out
      | Reply_error message \<Rightarrow> fail_exchange ex (Network_error message))"

subsection \<open>The client\<close>

definition make_exchange :: "'j HttpClient \<Rightarrow> string \<Rightarrow> nat option \<Rightarrow> FetchKind \<Rightarrow> 'j Exchange" where
  "make_exchange client url scope kind =
     \<lparr>ex_url = url, ex_parsed = None, ex_scope = scope, ex_policy = hc_policy client,
      ex_resolver = hc_resolver client, ex_kind = kind, ex_redirect = 0, ex_endpoints = [], ex_phase = Untracked\<rparr>"

definition is_finished :: "'j Phase \<Rightarrow> bool" where
  "is_finished phase = (case phase of Finished r \<Rightarrow> True | _ \<Rightarrow> False)"

text \<open>
  An exchange moves on; one that ends leaves the list of active exchanges, as the destructor of
  \<open>ActiveExchangeGuard\<close> does.
\<close>

definition put_exchange :: "'j HttpClient \<Rightarrow> nat \<Rightarrow> 'j Exchange \<Rightarrow> 'j HttpClient" where
  "put_exchange client e ex =
     client\<lparr>hc_exchanges := (hc_exchanges client)[e := ex],
            hc_active := (if is_finished (ex_phase ex) then removeAll e (hc_active client) else hc_active client)\<rparr>"

definition track_exchange :: "'j HttpClient \<Rightarrow> nat \<Rightarrow> 'j HttpClient" where
  "track_exchange client e =
     (let ex = hc_exchanges client ! e in
      if is_aborted client (ex_scope ex) then put_exchange client e (fail_exchange ex Operation_aborted)
      else put_exchange (client\<lparr>hc_active := hc_active client @ [e]\<rparr>) e (ex\<lparr>ex_phase := Hop\<rparr>))"

text \<open>\<open>throw_if_aborted\<close> in \<open>connect\<close>, the last look before a socket exists.\<close>

definition check_abort :: "'j HttpClient \<Rightarrow> nat \<Rightarrow> 'j HttpClient" where
  "check_abort client e =
     (let ex = hc_exchanges client ! e in
      if is_aborted client (ex_scope ex) then put_exchange client e (fail_exchange ex Operation_aborted)
      else put_exchange client e (ex\<lparr>ex_phase := Opening\<rparr>))"

definition open_socket :: "'j HttpClient \<Rightarrow> nat \<Rightarrow> ParsedUrl \<Rightarrow> 'j HttpClient" where
  "open_socket client e parsed =
     (let ex = hc_exchanges client ! e in
      put_exchange client e (ex\<lparr>ex_phase := Exchanging\<rparr>)
        \<lparr>hc_log := hc_log client @ [\<lparr>op_exchange = e, op_url = ex_url ex, op_parsed = parsed, op_endpoints = ex_endpoints ex\<rparr>]\<rparr>)"

text \<open>\<open>abort_matching\<close>: latch the scope, or the client, and post a close for each of its active exchanges.\<close>

definition abort_matching :: "'j HttpClient \<Rightarrow> nat option \<Rightarrow> 'j HttpClient" where
  "abort_matching client scope =
     (case scope of
        None \<Rightarrow> client\<lparr>hc_aborted := True, hc_posted := hc_posted client @ hc_active client\<rparr>
      | Some s \<Rightarrow>
          client\<lparr>hc_scopes := (hc_scopes client)[s := True],
                 hc_posted := hc_posted client
                   @ filter (\<lambda>e. ex_scope (hc_exchanges client ! e) = Some s) (hc_active client)\<rparr>)"

text \<open>A posted close runs: a socket operation that is pending ends with the error.\<close>

definition run_close :: "'j HttpClient \<Rightarrow> nat \<Rightarrow> 'j HttpClient" where
  "run_close client e =
     (let ex = hc_exchanges client ! e;
          client' = client\<lparr>hc_posted := removeAll e (hc_posted client)\<rparr>
      in if ex_phase ex = Exchanging then put_exchange client' e (fail_exchange ex Operation_aborted) else client')"

definition phase_of :: "'j HttpClient \<Rightarrow> nat \<Rightarrow> 'j Phase \<Rightarrow> bool" where
  "phase_of client e phase \<longleftrightarrow> e < length (hc_exchanges client) \<and> ex_phase (hc_exchanges client ! e) = phase"

text \<open>
  The interleavings. \<open>close\<close> cannot run while an exchange is opening its socket: the coroutine
  holds the client's strand from its last look at the abort until it suspends with the socket
  open, and posted closes run on that strand.
\<close>

inductive http_step :: "AsioIp \<Rightarrow> (string \<Rightarrow> 'j option) \<Rightarrow> 'j HttpClient \<Rightarrow> 'j HttpClient \<Rightarrow> bool"
  for ip :: AsioIp and parse_json :: "string \<Rightarrow> 'j option" where
  configure: "http_step ip parse_json client (client\<lparr>hc_policy := policy, hc_resolver := resolver\<rparr>)"
| new_scope: "http_step ip parse_json client (client\<lparr>hc_scopes := hc_scopes client @ [False]\<rparr>)"
| make: "(\<forall>s. scope = Some s \<longrightarrow> s < length (hc_scopes client)) \<Longrightarrow>
    http_step ip parse_json client
      (client\<lparr>hc_exchanges := hc_exchanges client @ [make_exchange client url scope kind]\<rparr>)"
| track: "phase_of client e Untracked \<Longrightarrow> http_step ip parse_json client (track_exchange client e)"
| hop: "phase_of client e Hop \<Longrightarrow>
    http_step ip parse_json client
      (put_exchange client e (hop_begin ip (is_aborted client (ex_scope (hc_exchanges client ! e))) (hc_exchanges client ! e)))"
| resolved: "phase_of client e Resolving \<Longrightarrow> ex_parsed (hc_exchanges client ! e) = Some parsed \<Longrightarrow>
    http_step ip parse_json client (put_exchange client e (after_lookup ip parsed endpoints (hc_exchanges client ! e)))"
| unresolved: "phase_of client e Resolving \<Longrightarrow>
    http_step ip parse_json client (put_exchange client e (fail_exchange (hc_exchanges client ! e) (Network_error message)))"
| check: "phase_of client e Checking \<Longrightarrow> http_step ip parse_json client (check_abort client e)"
| opens: "phase_of client e Opening \<Longrightarrow> ex_parsed (hc_exchanges client ! e) = Some parsed \<Longrightarrow>
    http_step ip parse_json client (open_socket client e parsed)"
| reply: "phase_of client e Exchanging \<Longrightarrow>
    http_step ip parse_json client (put_exchange client e (after_reply parse_json reply (hc_exchanges client ! e)))"
| abort: "(\<forall>s. scope = Some s \<longrightarrow> s < length (hc_scopes client)) \<Longrightarrow>
    http_step ip parse_json client (abort_matching client scope)"
| close: "e \<in> set (hc_posted client) \<Longrightarrow> e < length (hc_exchanges client) \<Longrightarrow>
    ex_phase (hc_exchanges client ! e) \<noteq> Opening \<Longrightarrow> http_step ip parse_json client (run_close client e)"

text \<open>A new client: no exchange, no scope, and whatever policy it was configured with.\<close>

definition new_client :: "MetadataFetchPolicy \<Rightarrow> HostResolver option \<Rightarrow> 'j HttpClient" where
  "new_client policy resolver =
     \<lparr>hc_policy = policy, hc_resolver = resolver, hc_aborted = False, hc_scopes = [], hc_exchanges = [],
      hc_active = [], hc_posted = [], hc_log = []\<rparr>"

inductive http_reachable :: "AsioIp \<Rightarrow> (string \<Rightarrow> 'j option) \<Rightarrow> 'j HttpClient \<Rightarrow> bool"
  for ip :: AsioIp and parse_json :: "string \<Rightarrow> 'j option" where
  init: "http_reachable ip parse_json (new_client policy resolver)"
| step: "http_reachable ip parse_json client \<Longrightarrow> http_step ip parse_json client client' \<Longrightarrow>
    http_reachable ip parse_json client'"

subsection \<open>What holds of one exchange\<close>

definition endpoints_ok :: "AsioIp \<Rightarrow> MetadataFetchPolicy \<Rightarrow> Endpoint list \<Rightarrow> bool" where
  "endpoints_ok ip policy endpoints \<longleftrightarrow> endpoints \<noteq> []
     \<and> (\<forall>(address, port) \<in> set endpoints. validate_metadata_address ip policy (address_text ip address) = Decision_allowed)"

definition target_ok :: "AsioIp \<Rightarrow> MetadataFetchPolicy \<Rightarrow> string \<Rightarrow> ParsedUrl \<Rightarrow> bool" where
  "target_ok ip policy url parsed \<longleftrightarrow>
     validate_metadata_url ip policy url = Inr Decision_allowed \<and> parse_url url = Inr parsed \<and> pu_scheme parsed = ''http''"

definition exchange_ok :: "AsioIp \<Rightarrow> 'j Exchange \<Rightarrow> bool" where
  "exchange_ok ip ex \<longleftrightarrow>
     (ex_phase ex \<in> {Resolving, Checking, Opening} \<longrightarrow>
        (\<exists>parsed. ex_parsed ex = Some parsed \<and> target_ok ip (ex_policy ex) (ex_url ex) parsed))
   \<and> (ex_phase ex \<in> {Checking, Opening} \<longrightarrow> endpoints_ok ip (ex_policy ex) (ex_endpoints ex))
   \<and> ex_redirect ex \<le> max_redirects (ex_policy ex)
   \<and> (ex_kind ex \<noteq> Fetch_get \<longrightarrow> ex_redirect ex = 0)"

text \<open>The parts of an exchange that are pinned when it is made.\<close>

definition pinned :: "'j Exchange \<Rightarrow> 'j Exchange \<Rightarrow> bool" where
  "pinned ex ex' \<longleftrightarrow> ex_policy ex' = ex_policy ex \<and> ex_resolver ex' = ex_resolver ex \<and> ex_scope ex' = ex_scope ex
     \<and> ex_kind ex' = ex_kind ex"

lemma enforce_address_policy_ok:
  "enforce_address_policy ip policy endpoints = Inr () \<longleftrightarrow>
     (\<forall>(address, port) \<in> set endpoints. validate_metadata_address ip policy (address_text ip address) = Decision_allowed)"
  by (induction endpoints) (auto simp: Let_def split: if_splits)

lemma enforce_url_policy_ok:
  "enforce_url_policy ip policy url = Inr u \<Longrightarrow> validate_metadata_url ip policy url = Inr Decision_allowed"
  by (auto simp: enforce_url_policy_def split: sum.splits if_splits)

lemma fail_exchange_selects [simp]:
  "ex_policy (fail_exchange ex e) = ex_policy ex" "ex_resolver (fail_exchange ex e) = ex_resolver ex"
  "ex_scope (fail_exchange ex e) = ex_scope ex" "ex_kind (fail_exchange ex e) = ex_kind ex"
  by (simp_all add: fail_exchange_def)

lemma fail_exchange_simps [simp]:
  "ex_phase (fail_exchange ex e) = Finished (Inl e)" "pinned ex (fail_exchange ex e)"
  "ex_redirect (fail_exchange ex e) = ex_redirect ex"
  by (simp_all add: fail_exchange_def pinned_def)

lemma fail_exchange_ok: "exchange_ok ip ex \<Longrightarrow> exchange_ok ip (fail_exchange ex e)"
  by (simp add: exchange_ok_def fail_exchange_def)

lemma after_lookup_ok:
  assumes "exchange_ok ip ex" "ex_parsed ex = Some parsed" "target_ok ip (ex_policy ex) (ex_url ex) parsed"
  shows "exchange_ok ip (after_lookup ip parsed endpoints ex)" "pinned ex (after_lookup ip parsed endpoints ex)"
    "ex_redirect (after_lookup ip parsed endpoints ex) = ex_redirect ex"
    "ex_phase (after_lookup ip parsed endpoints ex) = Checking \<or> (\<exists>r. ex_phase (after_lookup ip parsed endpoints ex) = Finished r)"
  using assms fail_exchange_ok [OF assms(1)]
  by (auto simp: after_lookup_def exchange_ok_def endpoints_ok_def enforce_address_policy_ok pinned_def fail_exchange_def
    split: sum.splits)

lemma connect_begin_ok:
  assumes "exchange_ok ip ex" "ex_parsed ex = Some parsed" "validate_metadata_url ip (ex_policy ex) (ex_url ex) = Inr Decision_allowed"
    "parse_url (ex_url ex) = Inr parsed"
  shows "exchange_ok ip (connect_begin ip parsed ex) \<and> pinned ex (connect_begin ip parsed ex)
    \<and> ex_redirect (connect_begin ip parsed ex) = ex_redirect ex
    \<and> (ex_phase (connect_begin ip parsed ex) \<in> {Resolving, Checking} \<or> (\<exists>r. ex_phase (connect_begin ip parsed ex) = Finished r))"
proof (cases "pu_scheme parsed = ''http''")
  case True
  then have t: "target_ok ip (ex_policy ex) (ex_url ex) parsed" using assms by (simp add: target_ok_def)
  show ?thesis
  proof (cases "ex_resolver ex")
    case None
    with True t assms show ?thesis by (simp add: connect_begin_def exchange_ok_def pinned_def)
  next
    case (Some resolver)
    with True after_lookup_ok [OF assms(1,2) t] fail_exchange_ok [OF assms(1)] show ?thesis
      by (auto simp: connect_begin_def split: sum.splits)
  qed
qed (simp add: connect_begin_def fail_exchange_ok [OF assms(1)])

lemma hop_begin_ok:
  assumes "exchange_ok ip ex" "ex_phase ex = Hop"
  shows "exchange_ok ip (hop_begin ip aborted ex) \<and> pinned ex (hop_begin ip aborted ex)
    \<and> ex_redirect (hop_begin ip aborted ex) = ex_redirect ex
    \<and> (ex_phase (hop_begin ip aborted ex) \<in> {Resolving, Checking} \<or> (\<exists>r. ex_phase (hop_begin ip aborted ex) = Finished r))"
proof (cases "ex_kind ex = Fetch_get \<and> aborted")
  case True
  then show ?thesis by (simp add: hop_begin_def fail_exchange_ok [OF assms(1)])
next
  case live: False
  show ?thesis
  proof (cases "enforce_url_policy ip (ex_policy ex) (ex_url ex)")
    case (Inl e)
    with live show ?thesis by (simp add: hop_begin_def fail_exchange_ok [OF assms(1)])
  next
    case (Inr u)
    note v = enforce_url_policy_ok [OF Inr]
    show ?thesis
    proof (cases "parse_url (ex_url ex)")
      case (Inl m)
      with live Inr show ?thesis by (simp add: hop_begin_def fail_exchange_ok [OF assms(1)])
    next
      case p: (Inr parsed)
      let ?ex = "ex\<lparr>ex_parsed := Some parsed, ex_endpoints := []\<rparr>"
      have "exchange_ok ip ?ex" using assms by (simp add: exchange_ok_def)
      moreover have "hop_begin ip aborted ex = connect_begin ip parsed ?ex"
        using live Inr p by (simp only: hop_begin_def if_False sum.case)
      ultimately show ?thesis using connect_begin_ok [of ip ?ex parsed] v p by (simp add: pinned_def)
    qed
  qed
qed

lemma after_reply_ok:
  assumes "exchange_ok ip ex" "ex_phase ex = Exchanging"
  shows "exchange_ok ip (after_reply parse_json reply ex) \<and> pinned ex (after_reply parse_json reply ex)
    \<and> (ex_redirect (after_reply parse_json reply ex) = ex_redirect ex
         \<and> (\<exists>r. ex_phase (after_reply parse_json reply ex) = Finished r)
       \<or> ex_redirect (after_reply parse_json reply ex) = Suc (ex_redirect ex) \<and> ex_kind ex = Fetch_get
         \<and> ex_phase (after_reply parse_json reply ex) = Hop)"
  using assms fail_exchange_ok [OF assms(1)]
  by (cases reply; cases "ex_kind ex")
    (auto simp: after_reply_def get_response_def post_response_def parse_body_def exchange_ok_def pinned_def fail_exchange_def
      split: option.splits)

subsection \<open>What holds of a client\<close>

text \<open>Stated of every exchange of a client, with what the log says of it.\<close>

definition opens_of :: "'j HttpClient \<Rightarrow> nat \<Rightarrow> nat" where
  "opens_of client e = length (filter (\<lambda>entry. op_exchange entry = e) (hc_log client))"

definition socket_phase :: "'j Phase \<Rightarrow> bool" where
  "socket_phase phase = (case phase of Exchanging \<Rightarrow> True | Finished r \<Rightarrow> True | _ \<Rightarrow> False)"

definition running :: "'j Phase \<Rightarrow> bool" where
  "running phase = (case phase of Untracked \<Rightarrow> False | Finished r \<Rightarrow> False | _ \<Rightarrow> True)"

definition exchange_inv :: "AsioIp \<Rightarrow> 'j HttpClient \<Rightarrow> nat \<Rightarrow> bool" where
  "exchange_inv ip client e \<longleftrightarrow>
     (let ex = hc_exchanges client ! e in
        exchange_ok ip ex
      \<and> (\<forall>s. ex_scope ex = Some s \<longrightarrow> s < length (hc_scopes client))
      \<and> (running (ex_phase ex) \<longrightarrow> e \<in> set (hc_active client))
      \<and> (ex_phase ex \<in> {Opening, Exchanging} \<and> is_aborted client (ex_scope ex) \<longrightarrow> e \<in> set (hc_posted client))
      \<and> opens_of client e \<le> ex_redirect ex + (if socket_phase (ex_phase ex) then 1 else 0))"

definition opened_ok :: "AsioIp \<Rightarrow> 'j HttpClient \<Rightarrow> Opened \<Rightarrow> bool" where
  "opened_ok ip client entry \<longleftrightarrow>
     op_exchange entry < length (hc_exchanges client)
   \<and> target_ok ip (ex_policy (hc_exchanges client ! op_exchange entry)) (op_url entry) (op_parsed entry)
   \<and> endpoints_ok ip (ex_policy (hc_exchanges client ! op_exchange entry)) (op_endpoints entry)"

definition client_inv :: "AsioIp \<Rightarrow> 'j HttpClient \<Rightarrow> bool" where
  "client_inv ip client \<longleftrightarrow>
     (\<forall>e < length (hc_exchanges client). exchange_inv ip client e) \<and> (\<forall>entry \<in> set (hc_log client). opened_ok ip client entry)
   \<and> set (hc_active client) \<subseteq> {..< length (hc_exchanges client)}"

lemma put_exchange_simps [simp]:
  "hc_exchanges (put_exchange client e ex) = (hc_exchanges client)[e := ex]"
  "hc_scopes (put_exchange client e ex) = hc_scopes client"
  "hc_posted (put_exchange client e ex) = hc_posted client"
  "hc_log (put_exchange client e ex) = hc_log client"
  "hc_aborted (put_exchange client e ex) = hc_aborted client"
  "is_aborted (put_exchange client e ex) scope = is_aborted client scope"
  "opens_of (put_exchange client e ex) e' = opens_of client e'"
  by (simp_all add: put_exchange_def is_aborted_def opens_of_def)

lemma put_exchange_active:
  "set (hc_active (put_exchange client e ex)) =
     (if is_finished (ex_phase ex) then set (hc_active client) - {e} else set (hc_active client))"
  by (simp add: put_exchange_def)

text \<open>One exchange moves: the others are as they were, and it must satisfy its own part.\<close>

lemma put_exchange_inv:
  assumes inv: "client_inv ip client" and e: "e < length (hc_exchanges client)"
    and pin: "pinned (hc_exchanges client ! e) ex" and ok: "exchange_ok ip ex"
    and active: "running (ex_phase ex) \<longrightarrow> e \<in> set (hc_active client)"
    and posted: "ex_phase ex \<in> {Opening, Exchanging} \<and> is_aborted client (ex_scope ex) \<longrightarrow> e \<in> set (hc_posted client)"
    and opens: "opens_of client e \<le> ex_redirect ex + (if socket_phase (ex_phase ex) then 1 else 0)"
  shows "client_inv ip (put_exchange client e ex)"
proof -
  have fin: "is_finished p \<Longrightarrow> \<not> running p" for p :: "'a Phase" by (cases p) (auto simp: is_finished_def running_def)
  have "exchange_inv ip (put_exchange client e ex) e'" if "e' < length (hc_exchanges client)" for e'
  proof (cases "e' = e")
    case True
    have "\<forall>s. ex_scope ex = Some s \<longrightarrow> s < length (hc_scopes client)"
      using inv e pin by (auto simp: client_inv_def exchange_inv_def pinned_def Let_def)
    with True e ok active posted opens fin [of "ex_phase ex"] show ?thesis
      by (auto simp: exchange_inv_def put_exchange_active Let_def)
  next
    case False
    with inv that show ?thesis
      by (auto simp: client_inv_def exchange_inv_def put_exchange_active Let_def)
  qed
  moreover have "opened_ok ip (put_exchange client e ex) entry" if "opened_ok ip client entry" for entry
    using that pin e by (auto simp: opened_ok_def nth_list_update pinned_def)
  ultimately show ?thesis
    using inv by (auto simp: client_inv_def put_exchange_active)
qed

lemma exchange_invD:
  assumes "client_inv ip client" "phase_of client e phase"
  shows "e < length (hc_exchanges client)" "ex_phase (hc_exchanges client ! e) = phase"
    "exchange_ok ip (hc_exchanges client ! e)"
    "running phase \<Longrightarrow> e \<in> set (hc_active client)"
    "phase \<in> {Opening, Exchanging} \<Longrightarrow> is_aborted client (ex_scope (hc_exchanges client ! e)) \<Longrightarrow> e \<in> set (hc_posted client)"
    "opens_of client e \<le> ex_redirect (hc_exchanges client ! e) + (if socket_phase phase then 1 else 0)"
  using assms by (auto simp: phase_of_def client_inv_def exchange_inv_def Let_def)

lemma phase_simps [simp]:
  "socket_phase (Finished r)" "socket_phase Exchanging" "\<not> socket_phase Hop" "\<not> socket_phase Checking"
  "\<not> socket_phase Resolving" "\<not> socket_phase Opening" "\<not> socket_phase Untracked"
  "\<not> running (Finished r)" "\<not> running Untracked" "running Hop" "running Checking" "running Resolving" "running Opening"
  "running Exchanging"
  by (simp_all add: socket_phase_def running_def)

lemma http_step_inv:
  assumes "http_step ip parse_json client client'" "client_inv ip client"
  shows "client_inv ip client'"
  using assms
proof (cases rule: http_step.cases)
  case (configure policy resolver)
  with assms(2) show ?thesis
    by (auto simp: client_inv_def exchange_inv_def opened_ok_def Let_def is_aborted_def opens_of_def)
next
  case new_scope
  with assms(2) show ?thesis
    by (auto simp: client_inv_def exchange_inv_def opened_ok_def Let_def is_aborted_def scope_latched_def opens_of_def
      nth_append split: option.splits)
next
  case (make scope url kind)
  let ?ex = "make_exchange client url scope kind"
  have new: "exchange_inv ip client' (length (hc_exchanges client))"
  proof -
    have "op_exchange entry \<noteq> length (hc_exchanges client)" if "entry \<in> set (hc_log client)" for entry
      using assms(2) that by (auto simp: client_inv_def opened_ok_def)
    then have "opens_of client' (length (hc_exchanges client)) = 0"
      using make(1) by (auto simp: opens_of_def filter_empty_conv)
    then show ?thesis using make by (simp add: exchange_inv_def make_exchange_def exchange_ok_def Let_def)
  qed
  have "exchange_inv ip client' e" if "e < length (hc_exchanges client)" for e
    using assms(2) that make(1)
    by (auto simp: client_inv_def exchange_inv_def Let_def nth_append is_aborted_def opens_of_def)
  with new assms(2) make(1) show ?thesis
    by (auto simp: client_inv_def opened_ok_def nth_append less_Suc_eq)
next
  case (track e)
  note d = exchange_invD [OF assms(2) track(2)]
  show ?thesis
  proof (cases "is_aborted client (ex_scope (hc_exchanges client ! e))")
    case True
    then show ?thesis
      unfolding track(1) track_exchange_def Let_def using d(6)
      by (auto intro!: put_exchange_inv [OF assms(2) d(1)] fail_exchange_ok d(3))
  next
    case False
    let ?c = "client\<lparr>hc_active := hc_active client @ [e]\<rparr>"
    have c: "client_inv ip ?c"
      using assms(2) d(1)
      by (auto simp: client_inv_def exchange_inv_def opened_ok_def Let_def is_aborted_def opens_of_def)
    have "exchange_ok ip ((hc_exchanges client ! e)\<lparr>ex_phase := Hop\<rparr>)" using d(3) by (simp add: exchange_ok_def)
    moreover have "opens_of ?c e = opens_of client e" by (simp add: opens_of_def)
    ultimately show ?thesis
      unfolding track(1) track_exchange_def Let_def using False d(1,6)
      by (auto intro!: put_exchange_inv [OF c] simp: pinned_def)
  qed
next
  case (hop e)
  note d = exchange_invD [OF assms(2) hop(2)]
  note h = hop_begin_ok [OF d(3,2), of "is_aborted client (ex_scope (hc_exchanges client ! e))"]
  show ?thesis
    unfolding hop(1) using h d(4,6)
    by (intro put_exchange_inv [OF assms(2) d(1)]) auto
next
  case (resolved e parsed endpoints)
  note d = exchange_invD [OF assms(2) resolved(2)]
  have t: "target_ok ip (ex_policy (hc_exchanges client ! e)) (ex_url (hc_exchanges client ! e)) parsed"
    using d(2,3) resolved(3) by (simp add: exchange_ok_def)
  note a = after_lookup_ok [OF d(3) resolved(3) t, of endpoints]
  show ?thesis
    unfolding resolved(1) using a d(4,6)
    by (intro put_exchange_inv [OF assms(2) d(1)]) auto
next
  case (unresolved e message)
  note d = exchange_invD [OF assms(2) unresolved(2)]
  show ?thesis
    unfolding unresolved(1) using d(6)
    by (intro put_exchange_inv [OF assms(2) d(1)]) (auto simp: fail_exchange_ok d(3))
next
  case (check e)
  note d = exchange_invD [OF assms(2) check(2)]
  have "exchange_ok ip ((hc_exchanges client ! e)\<lparr>ex_phase := Opening\<rparr>)" using d(2,3) by (simp add: exchange_ok_def)
  then show ?thesis
    unfolding check(1) check_abort_def Let_def using d(4,6)
    by (auto intro!: put_exchange_inv [OF assms(2) d(1)] fail_exchange_ok d(3) simp: pinned_def)
next
  case (opens e parsed)
  note d = exchange_invD [OF assms(2) opens(2)]
  let ?ex = "hc_exchanges client ! e"
  have t: "target_ok ip (ex_policy ?ex) (ex_url ?ex) parsed" "endpoints_ok ip (ex_policy ?ex) (ex_endpoints ?ex)"
    using d(2,3) opens(3) by (auto simp: exchange_ok_def)
  have p: "client_inv ip (put_exchange client e (?ex\<lparr>ex_phase := Exchanging\<rparr>))"
    using d by (intro put_exchange_inv [OF assms(2) d(1)]) (auto simp: pinned_def exchange_ok_def)
  have cnt: "opens_of (open_socket client e parsed) e' = opens_of client e' + (if e' = e then 1 else 0)" for e'
    by (simp add: open_socket_def Let_def opens_of_def)
  have others: "exchange_inv ip (open_socket client e parsed) e'" if "e' < length (hc_exchanges client)" for e'
  proof -
    let ?c = "put_exchange client e (?ex\<lparr>ex_phase := Exchanging\<rparr>)"
    have i: "exchange_inv ip ?c e'" using p that by (simp add: client_inv_def)
    have sel: "hc_exchanges (open_socket client e parsed) = hc_exchanges ?c" "hc_active (open_socket client e parsed) = hc_active ?c"
      "hc_scopes (open_socket client e parsed) = hc_scopes ?c" "hc_posted (open_socket client e parsed) = hc_posted ?c"
      "is_aborted (open_socket client e parsed) = is_aborted ?c"
      by (simp_all add: open_socket_def Let_def is_aborted_def [abs_def])
    show ?thesis
    proof (cases "e' = e")
      case True
      with i cnt [of e'] d(1,6) show ?thesis unfolding exchange_inv_def sel Let_def by simp
    next
      case False
      with i cnt [of e'] show ?thesis unfolding exchange_inv_def sel Let_def by simp
    qed
  qed
  show ?thesis
    using p others t d(1) unfolding opens(1)
    by (auto simp: client_inv_def open_socket_def Let_def opened_ok_def)
next
  case (reply e r)
  note d = exchange_invD [OF assms(2) reply(2)]
  note a = after_reply_ok [OF d(3,2), of parse_json r]
  show ?thesis
    unfolding reply(1) using a d(4,6)
    by (intro put_exchange_inv [OF assms(2) d(1)]) auto
next
  case (abort scope)
  have act: "e \<in> set (hc_active client)" if "e < length (hc_exchanges client)" "ex_phase (hc_exchanges client ! e) \<in> {Opening, Exchanging}" for e
    using assms(2) that by (auto simp: client_inv_def exchange_inv_def Let_def)
  show ?thesis
  proof (cases scope)
    case None
    then have "client' = client\<lparr>hc_aborted := True, hc_posted := hc_posted client @ hc_active client\<rparr>"
      using abort by (simp add: abort_matching_def)
    with assms(2) act show ?thesis
      by (auto simp: client_inv_def exchange_inv_def opened_ok_def Let_def opens_of_def)
  next
    case (Some s)
    then have c': "client' = client\<lparr>hc_scopes := (hc_scopes client)[s := True],
        hc_posted := hc_posted client @ filter (\<lambda>e. ex_scope (hc_exchanges client ! e) = Some s) (hc_active client)\<rparr>"
      using abort by (simp add: abort_matching_def)
    have ia: "is_aborted client' sc \<longleftrightarrow> is_aborted client sc \<or> sc = Some s" if "\<forall>t. sc = Some t \<longrightarrow> t < length (hc_scopes client)" for sc
      using that abort(2) Some unfolding c' by (auto simp: is_aborted_def scope_latched_def nth_list_update split: option.splits)
    have "exchange_inv ip client' e" if e: "e < length (hc_exchanges client)" for e
    proof -
      have "exchange_inv ip client e" using assms(2) e by (simp add: client_inv_def)
      then show ?thesis
        using act [OF e] ia [of "ex_scope (hc_exchanges client ! e)"] unfolding exchange_inv_def Let_def
        by (auto simp: c' opens_of_def)
    qed
    with assms(2) show ?thesis by (auto simp: client_inv_def c' opened_ok_def)
  qed
next
  case (close e)
  let ?c = "client\<lparr>hc_posted := removeAll e (hc_posted client)\<rparr>" and ?ex = "hc_exchanges client ! e"
  show ?thesis
  proof (cases "ex_phase ?ex = Exchanging")
    case True
    have ph: "phase_of client e Exchanging" using True close by (simp add: phase_of_def)
    note d = exchange_invD [OF assms(2) ph]
    have "client_inv ip (put_exchange client e (fail_exchange ?ex Operation_aborted))"
      using d(6) by (intro put_exchange_inv [OF assms(2) d(1)]) (auto simp: fail_exchange_ok d(3))
    then show ?thesis
      unfolding close(1) run_close_def Let_def using True close(3)
      by (auto simp: client_inv_def exchange_inv_def opened_ok_def Let_def is_aborted_def opens_of_def put_exchange_def
        nth_list_update)
  next
    case False
    with close assms(2) show ?thesis
      by (auto simp: run_close_def client_inv_def exchange_inv_def opened_ok_def Let_def is_aborted_def opens_of_def)
  qed
qed

lemma http_reachable_inv: "http_reachable ip parse_json client \<Longrightarrow> client_inv ip client"
proof (induction rule: http_reachable.induct)
  case (init policy resolver)
  then show ?case by (simp add: client_inv_def new_client_def)
qed (rule http_step_inv)

subsection \<open>Properties\<close>

text \<open>C34: Every socket the client opens was admitted by the policy its exchange was made under,
  whatever the other exchanges, the aborts and the changes of policy in between: the URL of the
  hop, redirect targets included, was allowed, the scheme is plain http (this build has no TLS),
  and every address that may be connected to is one the policy allows; and an exchange opens at
  most one socket more than its policy allows redirects, a POST at most one.\<close>

theorem opened_sockets_allowed:
  assumes "http_reachable ip parse_json client"
  shows "(\<forall>entry \<in> set (hc_log client).
       let policy = ex_policy (hc_exchanges client ! op_exchange entry) in
         op_exchange entry < length (hc_exchanges client)
       \<and> validate_metadata_url ip policy (op_url entry) = Inr Decision_allowed
       \<and> parse_url (op_url entry) = Inr (op_parsed entry) \<and> pu_scheme (op_parsed entry) = ''http''
       \<and> op_endpoints entry \<noteq> []
       \<and> (\<forall>(address, port) \<in> set (op_endpoints entry).
            validate_metadata_address ip policy (address_text ip address) = Decision_allowed))
   \<and> (\<forall>e < length (hc_exchanges client).
       let ex = hc_exchanges client ! e in
         opens_of client e \<le> (if ex_kind ex = Fetch_get then max_redirects (ex_policy ex) + 1 else 1))"
proof (intro conjI ballI allI impI)
  note inv = http_reachable_inv [OF assms]
  fix entry assume "entry \<in> set (hc_log client)"
  with inv show "let policy = ex_policy (hc_exchanges client ! op_exchange entry) in
         op_exchange entry < length (hc_exchanges client)
       \<and> validate_metadata_url ip policy (op_url entry) = Inr Decision_allowed
       \<and> parse_url (op_url entry) = Inr (op_parsed entry) \<and> pu_scheme (op_parsed entry) = ''http''
       \<and> op_endpoints entry \<noteq> []
       \<and> (\<forall>(address, port) \<in> set (op_endpoints entry).
            validate_metadata_address ip policy (address_text ip address) = Decision_allowed)"
    by (auto simp: client_inv_def opened_ok_def target_ok_def endpoints_ok_def Let_def)
next
  note inv = http_reachable_inv [OF assms]
  fix e assume "e < length (hc_exchanges client)"
  with inv have "exchange_inv ip client e" by (simp add: client_inv_def)
  then show "let ex = hc_exchanges client ! e in
         opens_of client e \<le> (if ex_kind ex = Fetch_get then max_redirects (ex_policy ex) + 1 else 1)"
    by (auto simp: exchange_inv_def exchange_ok_def Let_def split: if_splits)
qed

text \<open>An abort reaches every exchange it covers: in any state, an exchange of an aborted client or
  scope whose socket is open, or is just being opened, has a close posted for it, so once the
  posted closes have run none of its sockets is open; and from then on such an exchange can only
  fail, its next look at the abort ending it with the same error.\<close>

theorem abort_reaches_every_socket:
  assumes "http_reachable ip parse_json client" and "e < length (hc_exchanges client)"
    and "is_aborted client (ex_scope (hc_exchanges client ! e))"
  shows "(ex_phase (hc_exchanges client ! e) \<in> {Opening, Exchanging} \<longrightarrow> e \<in> set (hc_posted client))
   \<and> ex_phase (hc_exchanges (check_abort client e) ! e) = Finished (Inl Operation_aborted)
   \<and> ex_phase (hc_exchanges (track_exchange client e) ! e) = Finished (Inl Operation_aborted)
   \<and> (ex_kind (hc_exchanges client ! e) = Fetch_get \<longrightarrow>
        hop_begin ip (is_aborted client (ex_scope (hc_exchanges client ! e))) (hc_exchanges client ! e)
          = fail_exchange (hc_exchanges client ! e) Operation_aborted)"
  using http_reachable_inv [OF assms(1)] assms(2,3)
  by (simp add: client_inv_def exchange_inv_def check_abort_def track_exchange_def hop_begin_def Let_def)

text \<open>Aborting one scope leaves the rest of the client alone: exactly that scope becomes aborted, the
  client's own unscoped work and every other scope stay as they were, no exchange of theirs is
  posted a close, and no exchange changes at once.\<close>

theorem scoped_abort_isolated:
  assumes "s < length (hc_scopes client)" and "\<forall>t. scope = Some t \<longrightarrow> t < length (hc_scopes client)"
  shows "(is_aborted (abort_matching client (Some s)) scope \<longleftrightarrow> is_aborted client scope \<or> scope = Some s)
   \<and> hc_exchanges (abort_matching client (Some s)) = hc_exchanges client
   \<and> (\<forall>e. e \<in> set (hc_posted (abort_matching client (Some s))) - set (hc_posted client) \<longrightarrow>
        ex_scope (hc_exchanges client ! e) = Some s)"
  using assms
  by (auto simp: abort_matching_def is_aborted_def scope_latched_def nth_list_update split: option.splits)

subsection \<open>Witnesses\<close>

text \<open>A client under a policy that admits one loopback server, with a resolver that finds it.\<close>

definition loopback_policy :: MetadataFetchPolicy where
  "loopback_policy = example_policy\<lparr>allowed_origins := [''http://localhost'']\<rparr>"

definition example_exchange :: "unit Phase \<Rightarrow> unit Exchange" where
  "example_exchange phase =
     \<lparr>ex_url = ''http://localhost/m'', ex_parsed = None, ex_scope = Some 0, ex_policy = loopback_policy,
      ex_resolver = Some (\<lambda>host port. [''::1'']), ex_kind = Fetch_get, ex_redirect = 0, ex_endpoints = [],
      ex_phase = phase\<rparr>"

definition example_client :: "unit HttpClient" where
  "example_client = \<lparr>hc_policy = loopback_policy, hc_resolver = Some (\<lambda>host port. [''::1'']), hc_aborted = False,
     hc_scopes = [False], hc_exchanges = [example_exchange Hop], hc_active = [0], hc_posted = [], hc_log = []\<rparr>"

lemma example_client_reachable: "http_reachable example_ip parse_json example_client"
proof -
  define r :: "HostResolver option" where "r = Some (\<lambda>host port. [''::1''])"
  define c0 where "c0 = (new_client loopback_policy r :: unit HttpClient)"
  define c1 where "c1 = c0\<lparr>hc_scopes := hc_scopes c0 @ [False]\<rparr>"
  define c2 where "c2 = c1\<lparr>hc_exchanges := hc_exchanges c1 @ [make_exchange c1 ''http://localhost/m'' (Some 0) Fetch_get]\<rparr>"
  have e: "c2 = example_client\<lparr>hc_exchanges := [example_exchange Untracked], hc_active := []\<rparr>"
    by (simp add: c2_def c1_def c0_def r_def new_client_def make_exchange_def example_client_def example_exchange_def)
  have "http_reachable example_ip parse_json c0" unfolding c0_def by (rule http_reachable.init)
  then have "http_reachable example_ip parse_json c1" unfolding c1_def by (rule http_reachable.step) (rule http_step.new_scope)
  then have 2: "http_reachable example_ip parse_json c2"
    unfolding c2_def by (rule http_reachable.step) (rule http_step.make, simp add: c1_def)
  have "phase_of c2 0 Untracked" by (simp add: e phase_of_def example_exchange_def)
  then have "http_reachable example_ip parse_json (track_exchange c2 0)"
    using 2 http_step.track http_reachable.step by blast
  moreover have "track_exchange c2 0 = example_client"
    by (simp add: e track_exchange_def Let_def example_client_def example_exchange_def is_aborted_def scope_latched_def
      put_exchange_def is_finished_def)
  ultimately show ?thesis by simp
qed

definition example_target :: ParsedUrl where
  "example_target = \<lparr>pu_scheme = ''http'', pu_host = ''localhost'', pu_host_header = ''localhost'', pu_port = ''80'', pu_path = ''/m''\<rparr>"

lemma lists_irrelevant:
  "classify_v4 (policy\<lparr>allowed_origins := origins\<rparr>) v = classify_v4 policy v"
  "classify_v6 ip (policy\<lparr>allowed_origins := origins\<rparr>) b = classify_v6 ip policy b"
proof -
  show 4: "classify_v4 (policy\<lparr>allowed_origins := origins\<rparr>) v = classify_v4 policy v" for v
    unfolding classify_v4_def by simp
  have 5: "classify_v4 (policy\<lparr>allowed_origins := origins, allow_plain_http_loopback := False\<rparr>) v
      = classify_v4 (policy\<lparr>allow_plain_http_loopback := False\<rparr>) v" for v
    unfolding classify_v4_def by simp
  show "classify_v6 ip (policy\<lparr>allowed_origins := origins\<rparr>) b = classify_v6 ip policy b"
    by (cases "mapped_v4 b"; cases "embedded_v4 b") (simp_all add: classify_v6_def 4 5)
qed

lemma example_hop:
  "hop_begin example_ip False (example_exchange Hop) = example_exchange Checking
     \<lparr>ex_parsed := Some example_target, ex_endpoints := [(V6 (replicate 15 0 @ [1]), 80)]\<rparr>"
proof -
  have h: "host_text ''localhost''" "scheme_text ''http''" "port_text_ok None"
    by (auto simp: host_text_def authority_text_def ends_authority_def scheme_text_def port_text_ok_def)
  note a = plain_authority [OF h(1,3)]
  have sp: "split_url ''http://localhost/m'' = Some (''http'', ''localhost'')"
    using split_url_built [OF h(2) a(3), of "''/m''"] by (simp add: port_suffix_def rest_text_def ends_authority_def)
  have c: "canonicalize_origin_parts example_ip ''http://localhost'' =
     Some \<lparr>co_scheme = ''http'', co_host = ''localhost'', co_port = None, co_bracketed = False\<rparr>"
    using canonicalize_plain [OF h(2,1,3), of example_ip]
    by (simp add: port_suffix_def effective_port_def canonical_host_def example_ip_def strip_trailing_dots_def
        lowercase_ascii_def lower_char_def is_upper_def)
  have v: "validate_metadata_url example_ip loopback_policy ''http://localhost/m'' = Inr Decision_allowed"
    unfolding validate_metadata_url_def sp
    using a(1) c
    by (simp add: port_suffix_def Let_def denies_origin_def loopback_policy_def example_policy_def contains_origin_def
        canonicalize_origin_def format_canonical_origin_def example_ip_def is_loopback_host_def)
  have p: "parse_url ''http://localhost/m'' = Inr example_target"
    by (simp add: parse_url_def starts_with_def http_prefix_def https_prefix_def Let_def find_from_def ends_authority_def
        split_authority_def is_char_def request_path_def example_target_def)
  have w: "validate_metadata_address example_ip loopback_policy ''::1'' = Decision_allowed"
    using example_address_allowed
    unfolding validate_metadata_address_def loopback_policy_def by (simp add: lists_irrelevant cong: option.case_cong Address.case_cong)
  have st: "stoul_port ''80'' = Inr 80"
    by (simp add: stoul_port_def is_space_char_def is_digit_char_def Let_def decimal_value_def)
  have m: "make_address example_ip ''::1'' = Some (V6 (replicate 15 0 @ [1]))" "address_text example_ip x = ''::1''" for x
    by (simp_all add: example_ip_def)
  show ?thesis
    by (simp add: hop_begin_def example_exchange_def enforce_url_policy_def v p connect_begin_def example_target_def st m
      after_lookup_def w Let_def)
qed

definition example_opened :: Opened where
  "example_opened = \<lparr>op_exchange = 0, op_url = ''http://localhost/m'', op_parsed = example_target,
     op_endpoints = [(V6 (replicate 15 0 @ [1]), 80)]\<rparr>"

definition opened_client :: "unit HttpClient" where
  "opened_client = example_client\<lparr>hc_exchanges := [example_exchange Exchanging
     \<lparr>ex_parsed := Some example_target, ex_endpoints := [(V6 (replicate 15 0 @ [1]), 80)]\<rparr>], hc_log := [example_opened]\<rparr>"

lemma opened_client_reachable: "http_reachable example_ip parse_json opened_client"
proof -
  define at where "at phase = example_client\<lparr>hc_exchanges := [example_exchange phase
     \<lparr>ex_parsed := Some example_target, ex_endpoints := [(V6 (replicate 15 0 @ [1]), 80)]\<rparr>]\<rparr>" for phase
  have "phase_of example_client 0 Hop" by (simp add: phase_of_def example_client_def example_exchange_def)
  from http_reachable.step [OF example_client_reachable http_step.hop [OF this]]
  have 0: "http_reachable example_ip parse_json (put_exchange example_client 0
      (hop_begin example_ip (is_aborted example_client (ex_scope (hc_exchanges example_client ! 0))) (hc_exchanges example_client ! 0)))" .
  have "hc_exchanges example_client ! 0 = example_exchange Hop" "ex_scope (example_exchange Hop) = Some 0"
    "\<not> is_aborted example_client (Some 0)"
    by (simp_all add: example_client_def example_exchange_def is_aborted_def scope_latched_def)
  then have e: "hop_begin example_ip (is_aborted example_client (ex_scope (hc_exchanges example_client ! 0))) (hc_exchanges example_client ! 0)
      = hop_begin example_ip False (example_exchange Hop)" by simp
  have "ex_phase (hop_begin example_ip False (example_exchange Hop)) = Checking"
    unfolding example_hop by (simp add: example_exchange_def)
  then have "put_exchange example_client 0 (hop_begin example_ip False (example_exchange Hop)) = at Checking"
    unfolding at_def by (simp add: put_exchange_def is_finished_def example_hop example_client_def)
  with 0 e have 1: "http_reachable example_ip parse_json (at Checking)" by simp
  have "phase_of (at Checking) 0 Checking" by (simp add: phase_of_def at_def example_exchange_def)
  from http_reachable.step [OF 1 http_step.check [OF this]]
  have 2: "http_reachable example_ip parse_json (at Opening)"
    by (simp add: at_def check_abort_def Let_def example_client_def is_aborted_def scope_latched_def example_exchange_def
      put_exchange_def is_finished_def)
  have "phase_of (at Opening) 0 Opening" "ex_parsed (hc_exchanges (at Opening) ! 0) = Some example_target"
    by (simp_all add: phase_of_def at_def example_exchange_def)
  from http_reachable.step [OF 2 http_step.opens [OF this]]
  have "http_reachable example_ip parse_json (open_socket (at Opening) 0 example_target)" .
  moreover have "open_socket (at Opening) 0 example_target = opened_client"
    by (simp add: at_def open_socket_def opened_client_def Let_def example_client_def example_exchange_def put_exchange_def
      is_finished_def example_opened_def)
  ultimately show ?thesis by simp
qed

lemma opened_sockets_allowed_witness:
  "opens_of opened_client 0 = 1 \<and> validate_metadata_address example_ip loopback_policy ''::1'' = Decision_allowed"
proof -
  have "\<forall>(address, port) \<in> set (op_endpoints example_opened).
      validate_metadata_address example_ip (ex_policy (hc_exchanges opened_client ! op_exchange example_opened))
        (address_text example_ip address) = Decision_allowed"
    using opened_sockets_allowed [OF opened_client_reachable [of "\<lambda>s. None"]]
    by (auto simp: Let_def opened_client_def)
  then show ?thesis
    by (simp add: example_opened_def opened_client_def example_exchange_def opens_of_def example_ip_def)
qed

lemma abort_reaches_every_socket_witness:
  "hc_posted (abort_matching opened_client (Some 0)) = [0]
   \<and> ex_phase (hc_exchanges (check_abort (abort_matching opened_client (Some 0)) 0) ! 0) = Finished (Inl Operation_aborted)"
proof -
  have s: "hc_scopes opened_client = [False]" "length (hc_exchanges opened_client) = 1" "hc_active opened_client = [0]"
    "ex_scope (hc_exchanges opened_client ! 0) = Some 0" "hc_posted opened_client = []"
    by (simp_all add: opened_client_def example_client_def example_exchange_def)
  have "http_reachable example_ip (\<lambda>s. None) (abort_matching opened_client (Some 0))"
    using opened_client_reachable by (rule http_reachable.step) (rule http_step.abort, simp add: s)
  from abort_reaches_every_socket [OF this, of 0] show ?thesis
    by (simp add: abort_matching_def is_aborted_def scope_latched_def s)
qed

lemma scoped_abort_isolated_witness:
  "\<not> is_aborted (abort_matching opened_client (Some 0)) None"
proof -
  have s: "hc_scopes opened_client = [False]" "\<not> hc_aborted opened_client"
    by (simp_all add: opened_client_def example_client_def)
  with scoped_abort_isolated [of 0 opened_client None] show ?thesis by (simp add: is_aborted_def scope_latched_def)
qed

end
