(* ===== verification/KeyedStore.thy ===== *)
theory KeyedStore
  imports Prelude
begin

text \<open>
  The interface of the program's credential stores, \<open>TokenStore\<close> in include/mcp/auth/oauth.hpp and
  \<open>ClientCredentialStore\<close> in include/mcp/auth/client_identity.hpp: virtual \<open>store\<close>, \<open>load\<close> and
  \<open>remove\<close> over a key. A client of the interface takes the operations as an argument. The locale
  states the contract the comments of the classes give, and the in-memory classes, an unordered map
  under a mutex, are shown to keep it.
\<close>

record ('s, 'v) StoreApi =
  st_store :: "string \<Rightarrow> 'v \<Rightarrow> 's \<Rightarrow> 's"
  st_load :: "string \<Rightarrow> 's \<Rightarrow> 'v option"
  st_remove :: "string \<Rightarrow> 's \<Rightarrow> 's"

datatype 'v StoreOp = Op_store string 'v | Op_remove string

fun run_op :: "('s, 'v) StoreApi \<Rightarrow> 'v StoreOp \<Rightarrow> 's \<Rightarrow> 's" where
  "run_op api (Op_store k v) s = st_store api k v s"
| "run_op api (Op_remove k) s = st_remove api k s"

text \<open>What a store must answer after a history, the latest operation first.\<close>

fun last_write :: "string \<Rightarrow> 'v option \<Rightarrow> 'v StoreOp list \<Rightarrow> 'v option" where
  "last_write k initial [] = initial"
| "last_write k initial (Op_store k' v # ops) = (if k' = k then Some v else last_write k initial ops)"
| "last_write k initial (Op_remove k' # ops) = (if k' = k then None else last_write k initial ops)"

locale keyed_store =
  fixes api :: "('s, 'v) StoreApi"
  assumes load_store: "st_load api k (st_store api k' v s) = (if k = k' then Some v else st_load api k s)"
    and load_remove: "st_load api k (st_remove api k' s) = (if k = k' then None else st_load api k s)"
begin

lemma load_history: "st_load api k (foldr (run_op api) ops s) = last_write k (st_load api k s) ops"
proof (induction ops)
  case (Cons op ops)
  then show ?case by (cases op) (auto simp: load_store load_remove)
qed simp

lemma load_stored [simp]: "st_load api k (st_store api k v s) = Some v"
  by (simp add: load_store)

lemma load_other: "k \<noteq> k' \<Longrightarrow> st_load api k (st_store api k' v s) = st_load api k s"
  by (simp add: load_store)

end

text \<open>\<open>InMemoryTokenStore\<close> and \<open>InMemoryClientCredentialStore\<close>.\<close>

definition in_memory_store :: "(string \<rightharpoonup> 'v, 'v) StoreApi" where
  "in_memory_store =
     \<lparr>st_store = (\<lambda>k v tokens. tokens(k \<mapsto> v)), st_load = (\<lambda>k tokens. tokens k),
      st_remove = (\<lambda>k tokens. tokens(k := None))\<rparr>"

interpretation memory: keyed_store in_memory_store
  by unfold_locales (simp_all add: in_memory_store_def)

end
