(* ===== verification/Json.thy ===== *)
theory Json
  imports Prelude "HOL-Library.Countable" "HOL-Library.Word" "HOL-Library.AList"
begin

text \<open>
  The JSON library the program uses (nlohmann/json) is not part of its source: the operations the
  program calls are the fields of \<open>JsonApi\<close>, an argument of every definition that uses them, and
  \<open>json_laws\<close> says what their documentation says of them. \<open>tree_api\<close> is a concrete library on
  finite trees that satisfies the laws, for the witnesses. The second part of the theory is the
  vocabulary of the program's \<open>to_json\<close> and \<open>from_json\<close> functions: required and optional members
  and lists.
\<close>

subsection \<open>The library\<close>

text \<open>
  A \<open>double\<close> is its IEEE 754 bit pattern: the program stores and hands on such values and computes
  with none. It is finite when its exponent is not all ones; JSON has no text for the others.
\<close>

type_synonym double = "64 word"

definition finite_double :: "double \<Rightarrow> bool" where
  "finite_double d \<longleftrightarrow> take_bit 11 (drop_bit 52 d) \<noteq> 2047"

text \<open>
  A \<open>std::map\<close> with string keys is the list of its entries in the order of the keys, that of their
  bytes.
\<close>

fun key_less :: "string \<Rightarrow> string \<Rightarrow> bool" where
  "key_less [] ys \<longleftrightarrow> ys \<noteq> []"
| "key_less (x # xs) [] \<longleftrightarrow> False"
| "key_less (x # xs) (y # ys) \<longleftrightarrow>
     (of_char x :: nat) < of_char y \<or> ((of_char x :: nat) = of_char y \<and> key_less xs ys)"

definition map_ok :: "(string \<times> 'a) list \<Rightarrow> bool" where
  "map_ok m \<longleftrightarrow> sorted_wrt key_less (map fst m)"

text \<open>An exception of the library, or one that the program's own \<open>from_json\<close> throws.\<close>

datatype DecodeError = Json_error string | Bad_value string

record 'j JsonApi =
  j_find :: "'j \<Rightarrow> string \<Rightarrow> 'j option"
  j_at :: "'j \<Rightarrow> string \<Rightarrow> DecodeError + 'j"
  j_put :: "'j \<Rightarrow> string \<Rightarrow> 'j \<Rightarrow> 'j"
  j_empty_object :: 'j
  j_null :: 'j
  j_is_null :: "'j \<Rightarrow> bool"
  j_is_object :: "'j \<Rightarrow> bool"
  j_is_string :: "'j \<Rightarrow> bool"
  j_is_integer :: "'j \<Rightarrow> bool"
  j_is_number :: "'j \<Rightarrow> bool"
  j_of_string :: "string \<Rightarrow> 'j"
  j_of_int :: "int \<Rightarrow> 'j"
  j_of_bool :: "bool \<Rightarrow> 'j"
  j_of_list :: "'j list \<Rightarrow> 'j"
  j_string :: "'j \<Rightarrow> DecodeError + string"
  j_int :: "'j \<Rightarrow> DecodeError + int"
  j_bool :: "'j \<Rightarrow> DecodeError + bool"
  j_list :: "'j \<Rightarrow> DecodeError + 'j list"
  j_is_array :: "'j \<Rightarrow> bool"
  j_of_double :: "double \<Rightarrow> 'j"
  j_double :: "'j \<Rightarrow> DecodeError + double"
  j_of_map :: "(string \<times> 'j) list \<Rightarrow> 'j"
  j_map :: "'j \<Rightarrow> DecodeError + (string \<times> 'j) list"
  j_parse :: "string \<Rightarrow> 'j option"
  j_dump :: "'j \<Rightarrow> string"

text \<open>
  What the documentation of nlohmann/json promises: members of an object are found as they were
  last assigned, \<open>at\<close> agrees with \<open>find\<close>, values come back as they were stored (integers in the
  range of \<open>int64_t\<close>, doubles that are finite), a stored value is not null, and parsing a serialized value gives the value.
\<close>

definition int64_range :: "int \<Rightarrow> bool" where
  "int64_range i \<longleftrightarrow> - (2 ^ 63) \<le> i \<and> i < 2 ^ 63"

definition json_laws :: "'j JsonApi \<Rightarrow> bool" where
  "json_laws api \<longleftrightarrow>
     (\<forall>k. j_find api (j_empty_object api) k = None)
   \<and> j_is_object api (j_empty_object api)
   \<and> (\<forall>j k v. j_is_object api j \<longrightarrow> j_is_object api (j_put api j k v))
   \<and> (\<forall>j k v k'. j_is_object api j \<longrightarrow> j_find api (j_put api j k v) k' = (if k' = k then Some v else j_find api j k'))
   \<and> (\<forall>j k v. j_find api j k = Some v \<longrightarrow> j_at api j k = Inr v)
   \<and> (\<forall>j k. j_find api j k = None \<longrightarrow> (\<exists>e. j_at api j k = Inl (Json_error e)))
   \<and> j_is_null api (j_null api)
   \<and> (\<forall>j. j_is_object api j \<longrightarrow> \<not> j_is_null api j \<and> \<not> j_is_string api j \<and> \<not> j_is_integer api j)
   \<and> (\<forall>s. j_string api (j_of_string api s) = Inr s \<and> j_is_string api (j_of_string api s) \<and> \<not> j_is_null api (j_of_string api s))
   \<and> (\<forall>i. int64_range i \<longrightarrow> j_int api (j_of_int api i) = Inr i \<and> j_is_integer api (j_of_int api i)
        \<and> j_is_number api (j_of_int api i) \<and> \<not> j_is_string api (j_of_int api i) \<and> \<not> j_is_null api (j_of_int api i))
   \<and> (\<forall>b. j_bool api (j_of_bool api b) = Inr b \<and> \<not> j_is_null api (j_of_bool api b))
   \<and> (\<forall>xs. j_list api (j_of_list api xs) = Inr xs \<and> \<not> j_is_null api (j_of_list api xs) \<and> j_is_array api (j_of_list api xs))
   \<and> (\<forall>j. j_is_object api j \<longrightarrow> \<not> j_is_array api j)
   \<and> (\<forall>d. finite_double d \<longrightarrow> j_double api (j_of_double api d) = Inr d \<and> \<not> j_is_null api (j_of_double api d))
   \<and> (\<forall>m. map_ok m \<longrightarrow> j_map api (j_of_map api m) = Inr m \<and> j_is_object api (j_of_map api m))
   \<and> (\<forall>j. j_parse api (j_dump api j) = Some j)"

text \<open>The laws as rewrite rules, for the proofs that run a codec under them.\<close>

lemma json_empty [simp]:
  "json_laws api \<Longrightarrow> j_find api (j_empty_object api) k = None"
  "json_laws api \<Longrightarrow> j_is_object api (j_empty_object api)"
  unfolding json_laws_def by metis+

lemma json_put [simp]:
  "json_laws api \<Longrightarrow> j_is_object api j \<Longrightarrow> j_is_object api (j_put api j k v)"
  "json_laws api \<Longrightarrow> j_is_object api j \<Longrightarrow>
     j_find api (j_put api j k v) k' = (if k' = k then Some v else j_find api j k')"
  unfolding json_laws_def by metis+

lemma json_at: "json_laws api \<Longrightarrow> j_find api j k = Some v \<Longrightarrow> j_at api j k = Inr v"
  unfolding json_laws_def by metis

lemma json_at_missing: "json_laws api \<Longrightarrow> j_find api j k = None \<Longrightarrow> \<exists>e. j_at api j k = Inl (Json_error e)"
  unfolding json_laws_def by metis

lemma json_values [simp]:
  "json_laws api \<Longrightarrow> j_is_null api (j_null api)"
  "json_laws api \<Longrightarrow> j_string api (j_of_string api s) = Inr s"
  "json_laws api \<Longrightarrow> j_is_string api (j_of_string api s)"
  "json_laws api \<Longrightarrow> \<not> j_is_null api (j_of_string api s)"
  "json_laws api \<Longrightarrow> int64_range i \<Longrightarrow> j_int api (j_of_int api i) = Inr i"
  "json_laws api \<Longrightarrow> int64_range i \<Longrightarrow> j_is_integer api (j_of_int api i)"
  "json_laws api \<Longrightarrow> int64_range i \<Longrightarrow> j_is_number api (j_of_int api i)"
  "json_laws api \<Longrightarrow> int64_range i \<Longrightarrow> \<not> j_is_string api (j_of_int api i)"
  "json_laws api \<Longrightarrow> int64_range i \<Longrightarrow> \<not> j_is_null api (j_of_int api i)"
  "json_laws api \<Longrightarrow> j_bool api (j_of_bool api b) = Inr b"
  "json_laws api \<Longrightarrow> \<not> j_is_null api (j_of_bool api b)"
  "json_laws api \<Longrightarrow> j_list api (j_of_list api xs) = Inr xs"
  "json_laws api \<Longrightarrow> \<not> j_is_null api (j_of_list api xs)"
  "json_laws api \<Longrightarrow> j_is_array api (j_of_list api xs)"
  "json_laws api \<Longrightarrow> j_is_object api j \<Longrightarrow> \<not> j_is_array api j"
  "json_laws api \<Longrightarrow> finite_double d \<Longrightarrow> j_double api (j_of_double api d) = Inr d"
  "json_laws api \<Longrightarrow> finite_double d \<Longrightarrow> \<not> j_is_null api (j_of_double api d)"
  "json_laws api \<Longrightarrow> map_ok m \<Longrightarrow> j_map api (j_of_map api m) = Inr m"
  "json_laws api \<Longrightarrow> map_ok m \<Longrightarrow> j_is_object api (j_of_map api m)"
  "json_laws api \<Longrightarrow> j_parse api (j_dump api j) = Some j"
  unfolding json_laws_def by metis+

lemma json_object_not_null [simp]: "json_laws api \<Longrightarrow> j_is_object api j \<Longrightarrow> \<not> j_is_null api j"
  unfolding json_laws_def by metis

subsection \<open>Members of an object\<close>

text \<open>\<open>contains\<close>, and \<open>has_json_value\<close> of protocol/base.hpp: present and not null.\<close>

definition j_contains :: "'j JsonApi \<Rightarrow> 'j \<Rightarrow> string \<Rightarrow> bool" where
  "j_contains api j k \<longleftrightarrow> j_find api j k \<noteq> None"

definition has_json_value :: "'j JsonApi \<Rightarrow> 'j \<Rightarrow> string \<Rightarrow> bool" where
  "has_json_value api j k = (case j_find api j k of None \<Rightarrow> False | Some v \<Rightarrow> \<not> j_is_null api v)"

text \<open>\<open>json.at(k).get_to(...)\<close>, the same guarded by \<open>has_json_value\<close>, and guarded by \<open>contains\<close>.\<close>

definition get_member :: "'j JsonApi \<Rightarrow> ('j \<Rightarrow> DecodeError + 'a) \<Rightarrow> 'j \<Rightarrow> string \<Rightarrow> DecodeError + 'a" where
  "get_member api getter j k = bindE (j_at api j k) getter"

definition get_optional :: "'j JsonApi \<Rightarrow> ('j \<Rightarrow> DecodeError + 'a) \<Rightarrow> 'j \<Rightarrow> string \<Rightarrow> DecodeError + 'a option" where
  "get_optional api getter j k =
     (if has_json_value api j k then bindE (get_member api getter j k) (\<lambda>x. Inr (Some x)) else Inr None)"

definition get_if_present :: "'j JsonApi \<Rightarrow> ('j \<Rightarrow> DecodeError + 'a) \<Rightarrow> 'j \<Rightarrow> string \<Rightarrow> DecodeError + 'a option" where
  "get_if_present api getter j k =
     (if j_contains api j k then bindE (get_member api getter j k) (\<lambda>x. Inr (Some x)) else Inr None)"

text \<open>\<open>if (field) json[k] = *field\<close>, and an array of elements.\<close>

definition put_optional :: "'j JsonApi \<Rightarrow> ('a \<Rightarrow> 'j) \<Rightarrow> 'j \<Rightarrow> string \<Rightarrow> 'a option \<Rightarrow> 'j" where
  "put_optional api setter j k field = (case field of None \<Rightarrow> j | Some x \<Rightarrow> j_put api j k (setter x))"

fun collect :: "('a \<Rightarrow> 'e + 'b) \<Rightarrow> 'a list \<Rightarrow> 'e + 'b list" where
  "collect f [] = Inr []"
| "collect f (x # xs) = bindE (f x) (\<lambda>y. bindE (collect f xs) (\<lambda>ys. Inr (y # ys)))"

definition get_list :: "'j JsonApi \<Rightarrow> ('j \<Rightarrow> DecodeError + 'a) \<Rightarrow> 'j \<Rightarrow> DecodeError + 'a list" where
  "get_list api getter j = bindE (j_list api j) (collect getter)"

definition put_list :: "'j JsonApi \<Rightarrow> ('a \<Rightarrow> 'j) \<Rightarrow> 'a list \<Rightarrow> 'j" where
  "put_list api setter xs = j_of_list api (map setter xs)"

text \<open>The first value, or the second where there is none.\<close>

definition or_else :: "'a option \<Rightarrow> 'a option \<Rightarrow> 'a option" where
  "or_else a b = (case a of None \<Rightarrow> b | Some x \<Rightarrow> Some x)"

lemma or_else_simps [simp]: "or_else a None = a" "or_else None b = b" "or_else (Some x) b = Some x"
  by (simp_all add: or_else_def split: option.split)

lemma map_option_same [simp]: "map_option (\<lambda>x. x) v = v"
  by (cases v) simp_all

lemma put_optional_object [simp]:
  "json_laws api \<Longrightarrow> j_is_object api j \<Longrightarrow> j_is_object api (put_optional api setter j k field)"
  by (cases field) (simp_all add: put_optional_def)

lemma find_put_optional [simp]:
  "json_laws api \<Longrightarrow> j_is_object api j \<Longrightarrow>
     j_find api (put_optional api setter j k field) k' =
       (if k' = k then or_else (map_option setter field) (j_find api j k') else j_find api j k')"
  by (cases field) (simp_all add: put_optional_def)

lemma get_member_eq: "json_laws api \<Longrightarrow> j_find api j k = Some v \<Longrightarrow> get_member api getter j k = getter v"
  by (simp add: get_member_def json_at)

lemma get_member_missing:
  "json_laws api \<Longrightarrow> j_find api j k = None \<Longrightarrow> \<exists>e. get_member api getter j k = Inl (Json_error e)"
  using json_at_missing [of api j k] by (auto simp: get_member_def)

lemma get_optional_Some:
  "json_laws api \<Longrightarrow> j_find api j k = Some v \<Longrightarrow> \<not> j_is_null api v \<Longrightarrow> getter v = Inr x \<Longrightarrow>
     get_optional api getter j k = Inr (Some x)"
  by (simp add: get_optional_def has_json_value_def get_member_eq)

lemma get_optional_None: "j_find api j k = None \<Longrightarrow> get_optional api getter j k = Inr None"
  by (simp add: get_optional_def has_json_value_def)

text \<open>A member written by \<open>put_optional\<close> is the one \<open>get_optional\<close> reads.\<close>

lemma get_optional_field:
  assumes "json_laws api" "j_find api j k = map_option setter field"
    and "\<And>x. field = Some x \<Longrightarrow> getter (setter x) = Inr x \<and> \<not> j_is_null api (setter x)"
  shows "get_optional api getter j k = Inr field"
  using assms by (cases field) (auto intro: get_optional_Some get_optional_None)

lemma get_if_present_field:
  assumes "json_laws api" "j_find api j k = map_option setter field"
    and "\<And>x. field = Some x \<Longrightarrow> getter (setter x) = Inr x"
  shows "get_if_present api getter j k = Inr field"
  using assms by (cases field) (auto simp: get_if_present_def j_contains_def get_member_eq)

lemma collect_map: "(\<And>x. x \<in> set xs \<Longrightarrow> f (g x) = Inr x) \<Longrightarrow> collect f (map g xs) = Inr xs"
  by (induction xs) auto

lemma get_put_list [simp]:
  "json_laws api \<Longrightarrow> (\<And>x. x \<in> set xs \<Longrightarrow> getter (setter x) = Inr x) \<Longrightarrow>
     get_list api getter (put_list api setter xs) = Inr xs"
  by (simp add: get_list_def put_list_def collect_map)

lemma put_list_not_null [simp]: "json_laws api \<Longrightarrow> \<not> j_is_null api (put_list api setter xs)"
  by (simp add: put_list_def)

subsection \<open>A concrete library\<close>

datatype tree = T_null | T_bool bool | T_int int | T_string string | T_list "tree list" | T_double nat | T_object "(string \<times> tree) list"

instance tree :: countable by countable_datatype

fun tree_put :: "tree \<Rightarrow> string \<Rightarrow> tree \<Rightarrow> tree" where
  "tree_put (T_object ms) k v = T_object ((k, v) # filter (\<lambda>(k', v'). k' \<noteq> k) ms)"
| "tree_put t k v = t"

fun tree_find :: "tree \<Rightarrow> string \<Rightarrow> tree option" where
  "tree_find (T_object ms) k = map_of ms k"
| "tree_find t k = None"

definition tree_api :: "tree JsonApi" where
  "tree_api =
     \<lparr>j_find = tree_find,
      j_at = (\<lambda>t k. case tree_find t k of None \<Rightarrow> Inl (Json_error ''key not found'') | Some v \<Rightarrow> Inr v),
      j_put = tree_put, j_empty_object = T_object [], j_null = T_null,
      j_is_null = (\<lambda>t. t = T_null),
      j_is_object = (\<lambda>t. case t of T_object ms \<Rightarrow> True | _ \<Rightarrow> False),
      j_is_string = (\<lambda>t. case t of T_string s \<Rightarrow> True | _ \<Rightarrow> False),
      j_is_integer = (\<lambda>t. case t of T_int i \<Rightarrow> True | _ \<Rightarrow> False),
      j_is_number = (\<lambda>t. case t of T_int i \<Rightarrow> True | T_double d \<Rightarrow> True | _ \<Rightarrow> False),
      j_of_string = T_string, j_of_int = T_int, j_of_bool = T_bool, j_of_list = T_list,
      j_string = (\<lambda>t. case t of T_string s \<Rightarrow> Inr s | _ \<Rightarrow> Inl (Json_error ''type must be string'')),
      j_int = (\<lambda>t. case t of T_int i \<Rightarrow> Inr i | _ \<Rightarrow> Inl (Json_error ''type must be number'')),
      j_bool = (\<lambda>t. case t of T_bool b \<Rightarrow> Inr b | _ \<Rightarrow> Inl (Json_error ''type must be boolean'')),
      j_list = (\<lambda>t. case t of T_list xs \<Rightarrow> Inr xs | _ \<Rightarrow> Inl (Json_error ''type must be array'')),
      j_is_array = (\<lambda>t. case t of T_list xs \<Rightarrow> True | _ \<Rightarrow> False),
      j_of_double = (\<lambda>d. T_double (unat d)),
      j_double = (\<lambda>t. case t of T_double d \<Rightarrow> Inr (of_nat d) | _ \<Rightarrow> Inl (Json_error ''type must be number'')),
      j_of_map = T_object,
      j_map = (\<lambda>t. case t of T_object ms \<Rightarrow> Inr (AList.clearjunk ms) | _ \<Rightarrow> Inl (Json_error ''type must be object'')),
      j_parse = (\<lambda>s. Some (from_nat (length s))),
      j_dump = (\<lambda>t. replicate (to_nat t) (CHR ''x''))\<rparr>"

lemma map_of_filter_other: "k' \<noteq> k \<Longrightarrow> map_of (filter (\<lambda>(x, y). x \<noteq> k) ms) k' = map_of ms k'"
  by (induction ms) auto

lemma key_less_irrefl: "\<not> key_less k k"
  by (induction k) auto

lemma map_ok_distinct: "map_ok m \<Longrightarrow> distinct (map fst m)"
  unfolding map_ok_def by (induction m) (auto simp: key_less_irrefl)

lemma tree_api_laws: "json_laws tree_api"
  by (auto simp: json_laws_def tree_api_def map_of_filter_other map_ok_distinct AList.distinct_clearjunk split: tree.splits option.splits)

text \<open>
  Two more promises, for the code that asks what a value is: exactly the strings can be read as
  strings, an integer can be read as one, a null is neither; and \<open>items()\<close> of an object lists the
  members that are found in it, each once.
\<close>

definition json_kinds :: "'j JsonApi \<Rightarrow> bool" where
  "json_kinds api \<longleftrightarrow> (\<forall>j. j_is_string api j \<longleftrightarrow> (\<exists>s. j_string api j = Inr s))
     \<and> (\<forall>j. j_is_integer api j \<longrightarrow> (\<exists>i. j_int api j = Inr i))
     \<and> \<not> j_is_string api (j_null api) \<and> \<not> j_is_integer api (j_null api)"

definition json_items :: "'j JsonApi \<Rightarrow> bool" where
  "json_items api \<longleftrightarrow> (\<forall>j. j_is_object api j \<longrightarrow>
     (\<exists>m. j_map api j = Inr m \<and> distinct (map fst m) \<and> (\<forall>k v. (k, v) \<in> set m \<longleftrightarrow> j_find api j k = Some v)))"

lemma tree_api_kinds: "json_kinds tree_api"
  by (auto simp: json_kinds_def tree_api_def split: tree.splits)

lemma tree_api_items: "json_items tree_api"
proof -
  have "(k, v) \<in> set (AList.clearjunk ms) \<longleftrightarrow> map_of ms k = Some v" for k v and ms :: "(string \<times> tree) list"
    by (metis AList.distinct_clearjunk AList.map_of_clearjunk map_of_eq_Some_iff)
  then show ?thesis by (auto simp: json_items_def tree_api_def AList.distinct_clearjunk split: tree.splits)
qed

end
