(* ===== verification/JsonRpc.thy ===== *)
theory JsonRpc
  imports Json
begin

text \<open>
  The JSON-RPC messages (protocol/base.hpp): their types, their \<open>to_json\<close> and \<open>from_json\<close>
  functions, and the key that matches a response to its request. An \<open>int64_t\<close> is an \<open>int\<close>, with
  the range stated where it matters.
\<close>

subsection \<open>Request identifiers\<close>

datatype RequestId = Id_string string | Id_int int

text \<open>\<open>std::to_string\<close> of a signed integer.\<close>

definition int_text :: "int \<Rightarrow> string" where
  "int_text i = (if i < 0 then ''-'' @ decimal (nat (- i)) else decimal (nat i))"

definition id_to_string :: "RequestId \<Rightarrow> string" where
  "id_to_string i = (case i of Id_string s \<Rightarrow> s | Id_int n \<Rightarrow> int_text n)"

definition correlation_key :: "RequestId \<Rightarrow> string" where
  "correlation_key i = (case i of Id_string s \<Rightarrow> ''s:'' @ s | Id_int n \<Rightarrow> ''i:'' @ int_text n)"

definition id_to_json :: "'j JsonApi \<Rightarrow> RequestId \<Rightarrow> 'j" where
  "id_to_json api i = (case i of Id_string s \<Rightarrow> j_of_string api s | Id_int n \<Rightarrow> j_of_int api n)"

definition id_from_json :: "'j JsonApi \<Rightarrow> 'j \<Rightarrow> DecodeError + RequestId" where
  "id_from_json api j =
     (if j_is_string api j then bindE (j_string api j) (\<lambda>s. Inr (Id_string s))
      else if j_is_integer api j then bindE (j_int api j) (\<lambda>n. Inr (Id_int n))
      else Inl (Bad_value ''RequestId must be a string or integer''))"

definition validate_jsonrpc_version :: "string \<Rightarrow> DecodeError + unit" where
  "validate_jsonrpc_version version =
     (if version \<noteq> ''2.0'' then Inl (Bad_value (''jsonrpc must be '' @ [CHR 0x22] @ ''2.0'' @ [CHR 0x22])) else Inr ())"

subsection \<open>Errors\<close>

record 'j Error =
  er_code :: int
  er_message :: string
  er_data :: "'j option"

text \<open>\<open>get<int>()\<close>: the value as a 32-bit \<open>int\<close>.\<close>

definition int32_cast :: "int \<Rightarrow> int" where
  "int32_cast i = (i + 2 ^ 31) mod 2 ^ 32 - 2 ^ 31"

definition int32_range :: "int \<Rightarrow> bool" where
  "int32_range i \<longleftrightarrow> - (2 ^ 31) \<le> i \<and> i < 2 ^ 31"

definition error_to_json :: "'j JsonApi \<Rightarrow> 'j Error \<Rightarrow> 'j" where
  "error_to_json api e =
     (let j = j_put api (j_put api (j_empty_object api) ''code'' (j_of_int api (er_code e))) ''message'' (j_of_string api (er_message e))
      in put_optional api (\<lambda>x. x) j ''data'' (er_data e))"

definition error_from_json :: "'j JsonApi \<Rightarrow> 'j \<Rightarrow> DecodeError + 'j Error" where
  "error_from_json api j =
     bindE (get_member api (j_int api) j ''code'') (\<lambda>code.
     bindE (get_optional api (j_string api) j ''message'') (\<lambda>message.
     bindE (get_optional api Inr j ''data'') (\<lambda>data.
       Inr \<lparr>er_code = int32_cast code, er_message = (case message of None \<Rightarrow> [] | Some m \<Rightarrow> m), er_data = data\<rparr>)))"

subsection \<open>Messages\<close>

record 'j JSONRPCRequest =
  rq_id :: RequestId
  rq_jsonrpc :: string
  rq_method :: string
  rq_params :: "'j option"

record 'j JSONRPCNotification =
  nt_jsonrpc :: string
  nt_method :: string
  nt_params :: "'j option"

record 'j JSONRPCResultResponse =
  rr_id :: RequestId
  rr_jsonrpc :: string
  rr_result :: 'j

record 'j JSONRPCErrorResponse =
  re_error :: "'j Error"
  re_jsonrpc :: string
  re_id :: "RequestId option"

datatype 'j JSONRPCMessage =
  Msg_request "'j JSONRPCRequest"
| Msg_notification "'j JSONRPCNotification"
| Msg_result "'j JSONRPCResultResponse"
| Msg_error "'j JSONRPCErrorResponse"

definition request_to_json :: "'j JsonApi \<Rightarrow> 'j JSONRPCRequest \<Rightarrow> 'j" where
  "request_to_json api r =
     (let j = j_put api (j_empty_object api) ''id'' (id_to_json api (rq_id r));
          j = j_put api j ''jsonrpc'' (j_of_string api (rq_jsonrpc r));
          j = j_put api j ''method'' (j_of_string api (rq_method r))
      in put_optional api (\<lambda>x. x) j ''params'' (rq_params r))"

definition request_from_json :: "'j JsonApi \<Rightarrow> 'j \<Rightarrow> DecodeError + 'j JSONRPCRequest" where
  "request_from_json api j =
     bindE (get_member api (id_from_json api) j ''id'') (\<lambda>i.
     bindE (get_member api (j_string api) j ''jsonrpc'') (\<lambda>version.
     bindE (validate_jsonrpc_version version) (\<lambda>_.
     bindE (get_member api (j_string api) j ''method'') (\<lambda>method'.
     bindE (get_optional api Inr j ''params'') (\<lambda>params.
       Inr \<lparr>rq_id = i, rq_jsonrpc = version, rq_method = method', rq_params = params\<rparr>)))))"

definition notification_to_json :: "'j JsonApi \<Rightarrow> 'j JSONRPCNotification \<Rightarrow> 'j" where
  "notification_to_json api n =
     (let j = j_put api (j_empty_object api) ''jsonrpc'' (j_of_string api (nt_jsonrpc n));
          j = j_put api j ''method'' (j_of_string api (nt_method n))
      in put_optional api (\<lambda>x. x) j ''params'' (nt_params n))"

definition notification_from_json :: "'j JsonApi \<Rightarrow> 'j \<Rightarrow> DecodeError + 'j JSONRPCNotification" where
  "notification_from_json api j =
     bindE (get_member api (j_string api) j ''jsonrpc'') (\<lambda>version.
     bindE (validate_jsonrpc_version version) (\<lambda>_.
     bindE (get_member api (j_string api) j ''method'') (\<lambda>method'.
     bindE (get_optional api Inr j ''params'') (\<lambda>params.
       Inr \<lparr>nt_jsonrpc = version, nt_method = method', nt_params = params\<rparr>))))"

definition result_to_json :: "'j JsonApi \<Rightarrow> 'j JSONRPCResultResponse \<Rightarrow> 'j" where
  "result_to_json api r =
     (let j = j_put api (j_empty_object api) ''id'' (id_to_json api (rr_id r));
          j = j_put api j ''jsonrpc'' (j_of_string api (rr_jsonrpc r))
      in j_put api j ''result'' (rr_result r))"

definition result_from_json :: "'j JsonApi \<Rightarrow> 'j \<Rightarrow> DecodeError + 'j JSONRPCResultResponse" where
  "result_from_json api j =
     bindE (get_member api (id_from_json api) j ''id'') (\<lambda>i.
     bindE (get_member api (j_string api) j ''jsonrpc'') (\<lambda>version.
     bindE (validate_jsonrpc_version version) (\<lambda>_.
     bindE (get_member api Inr j ''result'') (\<lambda>r.
       Inr \<lparr>rr_id = i, rr_jsonrpc = version, rr_result = r\<rparr>))))"

definition error_response_to_json :: "'j JsonApi \<Rightarrow> 'j JSONRPCErrorResponse \<Rightarrow> 'j" where
  "error_response_to_json api r =
     (let j = j_put api (j_empty_object api) ''error'' (error_to_json api (re_error r));
          j = j_put api j ''id'' (j_null api);
          j = j_put api j ''jsonrpc'' (j_of_string api (re_jsonrpc r))
      in put_optional api (id_to_json api) j ''id'' (re_id r))"

definition error_response_from_json :: "'j JsonApi \<Rightarrow> 'j \<Rightarrow> DecodeError + 'j JSONRPCErrorResponse" where
  "error_response_from_json api j =
     bindE (get_member api (error_from_json api) j ''error'') (\<lambda>e.
     bindE (get_member api (j_string api) j ''jsonrpc'') (\<lambda>version.
     bindE (validate_jsonrpc_version version) (\<lambda>_.
     bindE (get_optional api (id_from_json api) j ''id'') (\<lambda>i.
       Inr \<lparr>re_error = e, re_jsonrpc = version, re_id = i\<rparr>))))"

definition message_to_json :: "'j JsonApi \<Rightarrow> 'j JSONRPCMessage \<Rightarrow> 'j" where
  "message_to_json api m =
     (case m of Msg_request r \<Rightarrow> request_to_json api r | Msg_notification n \<Rightarrow> notification_to_json api n
      | Msg_result r \<Rightarrow> result_to_json api r | Msg_error r \<Rightarrow> error_response_to_json api r)"

definition message_from_json :: "'j JsonApi \<Rightarrow> 'j \<Rightarrow> DecodeError + 'j JSONRPCMessage" where
  "message_from_json api j =
     (if has_json_value api j ''error'' then bindE (error_response_from_json api j) (\<lambda>r. Inr (Msg_error r))
      else if j_contains api j ''result'' then bindE (result_from_json api j) (\<lambda>r. Inr (Msg_result r))
      else if j_contains api j ''id'' then bindE (request_from_json api j) (\<lambda>r. Inr (Msg_request r))
      else bindE (notification_from_json api j) (\<lambda>r. Inr (Msg_notification r)))"

text \<open>\<open>JSONRPCResponse\<close>: the variant of the two response forms.\<close>

definition response_from_json :: "'j JsonApi \<Rightarrow> 'j \<Rightarrow> DecodeError + 'j JSONRPCResultResponse + 'j JSONRPCErrorResponse" where
  "response_from_json api j =
     (if has_json_value api j ''error'' then bindE (error_response_from_json api j) (\<lambda>r. Inr (Inr r))
      else bindE (result_from_json api j) (\<lambda>r. Inr (Inl r)))"

definition response_to_json :: "'j JsonApi \<Rightarrow> 'j JSONRPCResultResponse + 'j JSONRPCErrorResponse \<Rightarrow> 'j" where
  "response_to_json api r = (case r of Inl a \<Rightarrow> result_to_json api a | Inr b \<Rightarrow> error_response_to_json api b)"

subsection \<open>Round trips\<close>

definition id_ok :: "RequestId \<Rightarrow> bool" where
  "id_ok i = (case i of Id_string s \<Rightarrow> True | Id_int n \<Rightarrow> int64_range n)"

text \<open>An optional member that is set is not set to null.\<close>

definition value_ok :: "'j JsonApi \<Rightarrow> 'j option \<Rightarrow> bool" where
  "value_ok api v \<longleftrightarrow> (\<forall>x. v = Some x \<longrightarrow> \<not> j_is_null api x)"

definition message_ok :: "'j JsonApi \<Rightarrow> 'j JSONRPCMessage \<Rightarrow> bool" where
  "message_ok api m =
     (case m of
        Msg_request r \<Rightarrow> id_ok (rq_id r) \<and> rq_jsonrpc r = ''2.0'' \<and> value_ok api (rq_params r)
      | Msg_notification n \<Rightarrow> nt_jsonrpc n = ''2.0'' \<and> value_ok api (nt_params n)
      | Msg_result r \<Rightarrow> id_ok (rr_id r) \<and> rr_jsonrpc r = ''2.0''
      | Msg_error r \<Rightarrow> (\<forall>i. re_id r = Some i \<longrightarrow> id_ok i) \<and> re_jsonrpc r = ''2.0''
          \<and> int32_range (er_code (re_error r)) \<and> value_ok api (er_data (re_error r)))"

lemma id_roundtrip: "json_laws api \<Longrightarrow> id_ok i \<Longrightarrow> id_from_json api (id_to_json api i) = Inr i"
  by (cases i) (simp_all add: id_from_json_def id_to_json_def id_ok_def)

lemma id_not_null: "json_laws api \<Longrightarrow> id_ok i \<Longrightarrow> \<not> j_is_null api (id_to_json api i)"
  by (cases i) (simp_all add: id_to_json_def id_ok_def)

lemma validate_version [simp]: "validate_jsonrpc_version v = Inr u \<longleftrightarrow> v = ''2.0''"
  by (simp add: validate_jsonrpc_version_def)

lemma int32_cast_id: "int32_range i \<Longrightarrow> int32_cast i = i"
  by (simp add: int32_cast_def int32_range_def)

lemma int32_int64: "int32_range i \<Longrightarrow> int64_range i"
  by (simp add: int32_range_def int64_range_def)

lemma optional_value:
  "json_laws api \<Longrightarrow> j_find api j k = v \<Longrightarrow> value_ok api v \<Longrightarrow> get_optional api Inr j k = Inr v"
  by (rule get_optional_field [where setter = "\<lambda>x. x"]) (auto simp: value_ok_def option.map_id0 [unfolded id_def])

lemma error_object: "json_laws api \<Longrightarrow> j_is_object api (error_to_json api e)"
  by (simp add: error_to_json_def)

lemma error_roundtrip:
  assumes "json_laws api" "int32_range (er_code e)" "value_ok api (er_data e)"
  shows "error_from_json api (error_to_json api e) = Inr e"
proof -
  let ?j = "error_to_json api e"
  have f: "j_find api ?j ''code'' = Some (j_of_int api (er_code e))" "j_find api ?j ''message'' = Some (j_of_string api (er_message e))"
    "j_find api ?j ''data'' = er_data e"
    using assms(1) by (simp_all add: error_to_json_def Let_def)
  show ?thesis
    using assms f int32_int64 [OF assms(2)]
    by (simp add: error_from_json_def get_member_eq get_optional_Some optional_value int32_cast_id)
qed

lemma request_decodes:
  assumes laws: "json_laws api" and "message_ok api (Msg_request r)"
  shows "message_from_json api (message_to_json api (Msg_request r)) = Inr (Msg_request r)"
proof -
  let ?j = "request_to_json api r"
  have f: "j_find api ?j ''error'' = None" "j_find api ?j ''result'' = None" "j_find api ?j ''id'' = Some (id_to_json api (rq_id r))"
    "j_find api ?j ''jsonrpc'' = Some (j_of_string api (rq_jsonrpc r))"
    "j_find api ?j ''method'' = Some (j_of_string api (rq_method r))" "j_find api ?j ''params'' = rq_params r"
    using laws by (simp_all add: request_to_json_def Let_def)
  have ok: "id_ok (rq_id r)" "rq_jsonrpc r = ''2.0''" "value_ok api (rq_params r)" using assms(2) by (simp_all add: message_ok_def)
  show ?thesis
    unfolding message_from_json_def message_to_json_def
    using laws ok f id_roundtrip [OF laws ok(1)]
    by (simp add: has_json_value_def j_contains_def request_from_json_def get_member_eq optional_value)
qed

lemma notification_decodes:
  assumes laws: "json_laws api" and "message_ok api (Msg_notification n)"
  shows "message_from_json api (message_to_json api (Msg_notification n)) = Inr (Msg_notification n)"
proof -
  let ?j = "notification_to_json api n"
  have f: "j_find api ?j ''error'' = None" "j_find api ?j ''result'' = None" "j_find api ?j ''id'' = None"
    "j_find api ?j ''jsonrpc'' = Some (j_of_string api (nt_jsonrpc n))"
    "j_find api ?j ''method'' = Some (j_of_string api (nt_method n))" "j_find api ?j ''params'' = nt_params n"
    using laws by (simp_all add: notification_to_json_def Let_def)
  have ok: "nt_jsonrpc n = ''2.0''" "value_ok api (nt_params n)" using assms(2) by (simp_all add: message_ok_def)
  show ?thesis
    unfolding message_from_json_def message_to_json_def
    using laws ok f by (simp add: has_json_value_def j_contains_def notification_from_json_def get_member_eq optional_value)
qed

lemma result_decodes:
  assumes laws: "json_laws api" and "message_ok api (Msg_result r)"
  shows "message_from_json api (message_to_json api (Msg_result r)) = Inr (Msg_result r)"
proof -
  let ?j = "result_to_json api r"
  have f: "j_find api ?j ''error'' = None" "j_find api ?j ''result'' = Some (rr_result r)"
    "j_find api ?j ''id'' = Some (id_to_json api (rr_id r))" "j_find api ?j ''jsonrpc'' = Some (j_of_string api (rr_jsonrpc r))"
    using laws by (simp_all add: result_to_json_def Let_def)
  have ok: "id_ok (rr_id r)" "rr_jsonrpc r = ''2.0''" using assms(2) by (simp_all add: message_ok_def)
  show ?thesis
    unfolding message_from_json_def message_to_json_def
    using laws ok f id_roundtrip [OF laws ok(1)]
    by (simp add: has_json_value_def j_contains_def result_from_json_def get_member_eq)
qed

lemma error_decodes:
  assumes laws: "json_laws api" and "message_ok api (Msg_error r)"
  shows "message_from_json api (message_to_json api (Msg_error r)) = Inr (Msg_error r)"
proof -
  let ?j = "error_response_to_json api r"
  have f: "j_find api ?j ''error'' = Some (error_to_json api (re_error r))"
    "j_find api ?j ''jsonrpc'' = Some (j_of_string api (re_jsonrpc r))"
    "j_find api ?j ''id'' = or_else (map_option (id_to_json api) (re_id r)) (Some (j_null api))"
    using laws by (simp_all add: error_response_to_json_def Let_def)
  have ok: "re_jsonrpc r = ''2.0''" "int32_range (er_code (re_error r))" "value_ok api (er_data (re_error r))"
    "\<forall>i. re_id r = Some i \<longrightarrow> id_ok i" using assms(2) by (simp_all add: message_ok_def)
  have i: "get_optional api (id_from_json api) ?j ''id'' = Inr (re_id r)"
  proof (cases "re_id r")
    case None
    with f(3) laws show ?thesis by (simp add: get_optional_def has_json_value_def)
  next
    case (Some i)
    with ok(4) have "id_ok i" by simp
    with f(3) laws Some show ?thesis by (simp add: get_optional_Some id_roundtrip id_not_null)
  qed
  show ?thesis
    unfolding message_from_json_def message_to_json_def
    using laws ok f(1,2) i error_roundtrip [OF laws ok(2,3)] error_object [OF laws, of "re_error r"]
    by (simp add: has_json_value_def error_response_from_json_def get_member_eq)
qed

lemma message_decodes: "json_laws api \<Longrightarrow> message_ok api m \<Longrightarrow> message_from_json api (message_to_json api m) = Inr m"
  by (cases m) (simp_all add: request_decodes notification_decodes result_decodes error_decodes)

text \<open>Every JSON-RPC message survives the wire: a message with protocol version 2.0, 64-bit ids, a
  32-bit error code and no explicit null where a value is optional decodes from its encoding,
  and from its serialized text, to itself, and as the same kind of message.\<close>

theorem message_roundtrip:
  assumes "json_laws api" and "message_ok api m"
  shows "message_from_json api (message_to_json api m) = Inr m
    \<and> map_option (message_from_json api) (j_parse api (j_dump api (message_to_json api m))) = Some (Inr m)"
  using message_decodes [OF assms] assms(1) by simp

lemma message_roundtrip_witness:
  "message_from_json tree_api (message_to_json tree_api
     (Msg_request \<lparr>rq_id = Id_int 7, rq_jsonrpc = ''2.0'', rq_method = ''ping'', rq_params = Some (T_object [])\<rparr>))
   = Inr (Msg_request \<lparr>rq_id = Id_int 7, rq_jsonrpc = ''2.0'', rq_method = ''ping'', rq_params = Some (T_object [])\<rparr>)"
  using message_roundtrip [OF tree_api_laws,
    of "Msg_request \<lparr>rq_id = Id_int 7, rq_jsonrpc = ''2.0'', rq_method = ''ping'', rq_params = Some (T_object [])\<rparr>"]
  by (simp add: message_ok_def id_ok_def int64_range_def value_ok_def tree_api_def)

text \<open>Only protocol version 2.0 is decoded, and a message is classified by its members alone: what
  decodes is an error response exactly when it has a non-null \<open>error\<close>, otherwise a result
  exactly when it has a \<open>result\<close>, otherwise a request exactly when it has an \<open>id\<close>; every
  decoded message carries version 2.0, and a document with another version is refused.\<close>

theorem message_classification:
  assumes "message_from_json api j = Inr m"
  shows "(case m of
        Msg_error r \<Rightarrow> has_json_value api j ''error'' \<and> re_jsonrpc r = ''2.0''
      | Msg_result r \<Rightarrow> \<not> has_json_value api j ''error'' \<and> j_contains api j ''result'' \<and> rr_jsonrpc r = ''2.0''
      | Msg_request r \<Rightarrow> \<not> has_json_value api j ''error'' \<and> \<not> j_contains api j ''result'' \<and> j_contains api j ''id''
          \<and> rq_jsonrpc r = ''2.0''
      | Msg_notification r \<Rightarrow> \<not> has_json_value api j ''error'' \<and> \<not> j_contains api j ''result''
          \<and> \<not> j_contains api j ''id'' \<and> nt_jsonrpc r = ''2.0'')
    \<and> get_member api (j_string api) j ''jsonrpc'' = Inr ''2.0''"
  using assms
  by (auto simp: message_from_json_def error_response_from_json_def result_from_json_def request_from_json_def
    notification_from_json_def split: if_splits)

lemma message_classification_witness:
  "get_member tree_api (j_string tree_api)
     (T_object [(''jsonrpc'', T_string ''2.0''), (''method'', T_string ''ping'')]) ''jsonrpc'' = Inr ''2.0''"
proof -
  let ?j = "T_object [(''jsonrpc'', T_string ''2.0''), (''method'', T_string ''ping'')]"
  have "message_from_json tree_api ?j = Inr (Msg_notification \<lparr>nt_jsonrpc = ''2.0'', nt_method = ''ping'', nt_params = None\<rparr>)"
    by (simp add: message_from_json_def has_json_value_def j_contains_def notification_from_json_def get_member_def
      get_optional_def tree_api_def validate_jsonrpc_version_def)
  from message_classification [OF this] show ?thesis by blast
qed

lemma int_text_inject: "int_text i = int_text k \<longleftrightarrow> i = k"
proof -
  have neg: "CHR ''-'' \<notin> set (decimal n)" for n
  proof
    assume "CHR ''-'' \<in> set (decimal n)"
    from decimal_digits [OF this] show False by simp
  qed
  have inj: "decimal m = decimal n \<longleftrightarrow> m = n" for m n by (metis decimal_value_decimal)
  have sep: "decimal m \<noteq> CHR ''-'' # s" for m s using neg [of m] by (metis list.set_intros(1))
  show ?thesis
    using inj sep sep [symmetric] by (auto simp: int_text_def)
qed

text \<open>Responses cannot be credited to the wrong request: two ids have the same correlation key only
  when they are the same id, so the string \<open>7\<close> and the integer 7 are told apart, which
  \<open>to_string\<close> does not do.\<close>

theorem correlation_key_injective:
  "(correlation_key a = correlation_key b \<longleftrightarrow> a = b)
   \<and> id_to_string (Id_string ''7'') = id_to_string (Id_int 7)"
proof
  show "correlation_key a = correlation_key b \<longleftrightarrow> a = b"
    by (cases a; cases b) (auto simp: correlation_key_def int_text_inject)
  show "id_to_string (Id_string ''7'') = id_to_string (Id_int 7)"
    by (simp add: id_to_string_def int_text_def decimal.simps digit_char_def char_of_def bit_numeral_rec bit_0)
qed

end
