(* ===== verification/OAuthTokens.thy ===== *)
theory OAuthTokens
  imports KeyedStore OAuthHttp JsonRpc
begin

text \<open>
  Tokens and the authenticator that renews them (src/auth/oauth.cpp): \<open>TokenResponse\<close> with its JSON
  form and its expiry, the refresh over a token store, and \<open>OAuthAuthenticator\<close>, which shares an
  HTTP client with others and therefore works in a scope of its own. Times are nanoseconds of the
  steady clock; \<open>int\<close> seconds are 32 bits, so the sums stay far below the 64-bit range of the clock.
\<close>

subsection \<open>Tokens\<close>

record TokenResponse =
  tk_access_token :: string
  tk_token_type :: string
  tk_refresh_token :: "string option"
  tk_expires_in :: "int option"
  tk_scope :: "string option"
  tk_received_at :: int

definition default_margin :: int where
  "default_margin = 30"

definition is_expired :: "int \<Rightarrow> int \<Rightarrow> TokenResponse \<Rightarrow> bool" where
  "is_expired now margin token =
     (case tk_expires_in token of
        None \<Rightarrow> False
      | Some seconds \<Rightarrow>
          (let expiry = tk_received_at token + seconds * 10 ^ 9 - margin * 10 ^ 9 in now \<ge> expiry))"

text \<open>\<open>json.value(key, default)\<close>, on an object.\<close>

definition get_value :: "'j JsonApi \<Rightarrow> ('j \<Rightarrow> DecodeError + 'a) \<Rightarrow> 'j \<Rightarrow> string \<Rightarrow> 'a \<Rightarrow> DecodeError + 'a" where
  "get_value api getter j k d = (case j_find api j k of None \<Rightarrow> Inr d | Some v \<Rightarrow> getter v)"

definition get_int32 :: "'j JsonApi \<Rightarrow> 'j \<Rightarrow> DecodeError + int" where
  "get_int32 api j = bindE (j_int api j) (\<lambda>i. Inr (int32_cast i))"

definition token_from_json :: "'j JsonApi \<Rightarrow> int \<Rightarrow> 'j \<Rightarrow> DecodeError + TokenResponse" where
  "token_from_json api now j =
     bindE (get_member api (j_string api) j ''access_token'') (\<lambda>access_token.
     bindE (get_value api (j_string api) j ''token_type'' ''Bearer'') (\<lambda>token_type.
     bindE (get_if_present api (j_string api) j ''refresh_token'') (\<lambda>refresh_token.
     bindE (get_if_present api (get_int32 api) j ''expires_in'') (\<lambda>expires_in.
     bindE (get_if_present api (j_string api) j ''scope'') (\<lambda>scope.
       Inr \<lparr>tk_access_token = access_token, tk_token_type = token_type, tk_refresh_token = refresh_token,
            tk_expires_in = expires_in, tk_scope = scope, tk_received_at = now\<rparr>)))))"

definition token_to_json :: "'j JsonApi \<Rightarrow> TokenResponse \<Rightarrow> 'j" where
  "token_to_json api token =
     (let j = j_put api (j_empty_object api) ''access_token'' (j_of_string api (tk_access_token token));
          j = j_put api j ''token_type'' (j_of_string api (tk_token_type token));
          j = put_optional api (j_of_string api) j ''refresh_token'' (tk_refresh_token token);
          j = put_optional api (j_of_int api) j ''expires_in'' (tk_expires_in token)
      in put_optional api (j_of_string api) j ''scope'' (tk_scope token))"

subsection \<open>Renewing a token\<close>

text \<open>
  A refresh has two parts around the exchange: what is read from the store before it, and what is
  written after it. Another operation may run in between.
\<close>

definition refresh_begin :: "('s, TokenResponse) StoreApi \<Rightarrow> string \<Rightarrow> 's \<Rightarrow> (TokenResponse \<times> string) option" where
  "refresh_begin api server_url s =
     (case st_load api server_url s of
        None \<Rightarrow> None
      | Some stored \<Rightarrow> (case tk_refresh_token stored of None \<Rightarrow> None | Some r \<Rightarrow> Some (stored, r)))"

definition renewed_token :: "TokenResponse \<Rightarrow> TokenResponse \<Rightarrow> TokenResponse" where
  "renewed_token stored new =
     (case tk_refresh_token new of None \<Rightarrow> new\<lparr>tk_refresh_token := tk_refresh_token stored\<rparr> | Some r \<Rightarrow> new)"

definition refresh_finish ::
  "('s, TokenResponse) StoreApi \<Rightarrow> string \<Rightarrow> TokenResponse \<Rightarrow> 'e + TokenResponse \<Rightarrow> 's \<Rightarrow> 's \<times> bool" where
  "refresh_finish api server_url stored result s =
     (case result of
        Inl e \<Rightarrow> (s, False)
      | Inr new \<Rightarrow> (st_store api server_url (renewed_token stored new) s, True))"

definition refresh_token ::
  "('s, TokenResponse) StoreApi \<Rightarrow> string \<Rightarrow> (string \<Rightarrow> 'e + TokenResponse) \<Rightarrow> 's \<Rightarrow> 's \<times> bool" where
  "refresh_token api server_url exchange s =
     (case refresh_begin api server_url s of
        None \<Rightarrow> (s, False)
      | Some (stored, r) \<Rightarrow> refresh_finish api server_url stored (exchange r) s)"

definition get_access_token :: "('s, TokenResponse) StoreApi \<Rightarrow> string \<Rightarrow> 's \<Rightarrow> string" where
  "get_access_token api server_url s =
     (case st_load api server_url s of None \<Rightarrow> '''' | Some token \<Rightarrow> tk_access_token token)"

text \<open>What renewing means for any store that keeps the contract.\<close>

locale token_store = keyed_store api for api :: "('s, TokenResponse) StoreApi"
begin

lemma refresh_other: "k \<noteq> server_url \<Longrightarrow> st_load api k (fst (refresh_token api server_url exchange s)) = st_load api k s"
  by (simp add: refresh_token_def refresh_finish_def load_store split: option.split prod.split sum.split)

lemma refresh_failed: "\<not> snd (refresh_token api server_url exchange s) \<Longrightarrow> fst (refresh_token api server_url exchange s) = s"
  by (auto simp: refresh_token_def refresh_finish_def split: option.splits prod.splits sum.splits)

lemma refresh_succeeded:
  "snd (refresh_token api server_url exchange s) \<longleftrightarrow>
     (\<exists>stored r new. st_load api server_url s = Some stored \<and> tk_refresh_token stored = Some r \<and> exchange r = Inr new
        \<and> st_load api server_url (fst (refresh_token api server_url exchange s)) = Some (renewed_token stored new))"
  by (auto simp: refresh_token_def refresh_begin_def refresh_finish_def split: option.splits sum.splits)

lemma renewed_refresh_token:
  "tk_refresh_token stored = Some r \<Longrightarrow>
     tk_refresh_token (renewed_token stored new) = (case tk_refresh_token new of None \<Rightarrow> Some r | Some r' \<Rightarrow> Some r')
     \<and> tk_access_token (renewed_token stored new) = tk_access_token new"
  by (simp add: renewed_token_def split: option.split)

lemma refresh_renewable:
  assumes "st_load api server_url s = Some stored" "tk_refresh_token stored \<noteq> None"
  shows "\<exists>t. st_load api server_url (fst (refresh_token api server_url exchange s)) = Some t \<and> tk_refresh_token t \<noteq> None"
  using assms renewed_refresh_token
  by (force simp: refresh_token_def refresh_begin_def refresh_finish_def split: option.splits sum.splits)

end

interpretation memory_tokens: token_store in_memory_store ..

definition token_ok :: "TokenResponse \<Rightarrow> bool" where
  "token_ok token \<longleftrightarrow> (\<forall>i. tk_expires_in token = Some i \<longrightarrow> int32_range i)"

text \<open>A token survives being stored as JSON: reading what was written gives the same token, with the
  time of the reading as its receipt time, when its lifetime is a 32-bit number of seconds.\<close>

theorem token_roundtrip:
  assumes "json_laws api" "token_ok token"
  shows "token_from_json api now (token_to_json api token) = Inr (token\<lparr>tk_received_at := now\<rparr>)"
proof -
  let ?j = "token_to_json api token"
  have f: "j_find api ?j ''access_token'' = Some (j_of_string api (tk_access_token token))"
    "j_find api ?j ''token_type'' = Some (j_of_string api (tk_token_type token))"
    "j_find api ?j ''refresh_token'' = map_option (j_of_string api) (tk_refresh_token token)"
    "j_find api ?j ''expires_in'' = map_option (j_of_int api) (tk_expires_in token)"
    "j_find api ?j ''scope'' = map_option (j_of_string api) (tk_scope token)"
    using assms(1) by (simp_all add: token_to_json_def Let_def)
  have e: "get_if_present api (get_int32 api) ?j ''expires_in'' = Inr (tk_expires_in token)"
    by (rule get_if_present_field [OF assms(1) f(4)])
      (use assms int32_int64 in \<open>simp add: token_ok_def get_int32_def int32_cast_id\<close>)
  have "get_if_present api (j_string api) ?j ''refresh_token'' = Inr (tk_refresh_token token)"
    "get_if_present api (j_string api) ?j ''scope'' = Inr (tk_scope token)"
    by (rule get_if_present_field [OF assms(1) f(3)], use assms(1) in simp,
        rule get_if_present_field [OF assms(1) f(5)], use assms(1) in simp)
  with e f assms(1) show ?thesis by (simp add: token_from_json_def get_member_eq get_value_def)
qed

theorem token_roundtrip_witness:
  "token_from_json tree_api 7 (token_to_json tree_api
     \<lparr>tk_access_token = ''a'', tk_token_type = ''Bearer'', tk_refresh_token = Some ''r'', tk_expires_in = Some 3600,
      tk_scope = None, tk_received_at = 0\<rparr>)
   = Inr \<lparr>tk_access_token = ''a'', tk_token_type = ''Bearer'', tk_refresh_token = Some ''r'', tk_expires_in = Some 3600,
      tk_scope = None, tk_received_at = 7\<rparr>"
  by (subst token_roundtrip [OF tree_api_laws]) (simp_all add: token_ok_def int32_range_def)

text \<open>Renewing a token never loses the grant: a refresh asks with the refresh token that is stored,
  succeeds exactly when there is one and the exchange succeeds, then the stored token is the new one
  with the old refresh token where the server sent none, and in every other case, and for every other
  server, the store is untouched; a token that could be renewed before can be renewed after.\<close>

theorem refresh_keeps_grant:
  "(snd (refresh_token in_memory_store server_url exchange s) \<longleftrightarrow>
      (\<exists>stored r new. s server_url = Some stored \<and> tk_refresh_token stored = Some r \<and> exchange r = Inr new
         \<and> fst (refresh_token in_memory_store server_url exchange s) server_url =
             Some (new\<lparr>tk_refresh_token := (case tk_refresh_token new of None \<Rightarrow> Some r | Some r' \<Rightarrow> Some r')\<rparr>)))
   \<and> (\<not> snd (refresh_token in_memory_store server_url exchange s) \<longrightarrow>
      fst (refresh_token in_memory_store server_url exchange s) = s)
   \<and> (k \<noteq> server_url \<longrightarrow> fst (refresh_token in_memory_store server_url exchange s) k = s k)
   \<and> (s server_url = Some t \<and> tk_refresh_token t \<noteq> None \<longrightarrow>
      (\<exists>t'. fst (refresh_token in_memory_store server_url exchange s) server_url = Some t' \<and> tk_refresh_token t' \<noteq> None))"
proof -
  have l: "st_load in_memory_store k s' = s' k" for k and s' :: "string \<rightharpoonup> TokenResponse"
    by (simp add: in_memory_store_def)
  have r: "renewed_token stored new = new\<lparr>tk_refresh_token := (case tk_refresh_token new of None \<Rightarrow> Some r | Some r' \<Rightarrow> Some r')\<rparr>"
    if "tk_refresh_token stored = Some r" for stored new r
    using that by (cases new) (simp add: renewed_token_def split: option.split)
  have "snd (refresh_token in_memory_store server_url exchange s) \<longleftrightarrow>
      (\<exists>stored r new. s server_url = Some stored \<and> tk_refresh_token stored = Some r \<and> exchange r = Inr new
         \<and> fst (refresh_token in_memory_store server_url exchange s) server_url =
             Some (new\<lparr>tk_refresh_token := (case tk_refresh_token new of None \<Rightarrow> Some r | Some r' \<Rightarrow> Some r')\<rparr>))"
    using memory_tokens.refresh_succeeded [of server_url exchange s, unfolded l] r by metis
  moreover have "k \<noteq> server_url \<longrightarrow> fst (refresh_token in_memory_store server_url exchange s) k = s k"
    using memory_tokens.refresh_other [of k server_url exchange s, unfolded l] by blast
  moreover have "s server_url = Some t \<and> tk_refresh_token t \<noteq> None \<longrightarrow>
      (\<exists>t'. fst (refresh_token in_memory_store server_url exchange s) server_url = Some t' \<and> tk_refresh_token t' \<noteq> None)"
    using memory_tokens.refresh_renewable [of server_url s t exchange, unfolded l] by blast
  ultimately show ?thesis using memory_tokens.refresh_failed [of server_url exchange s] by blast
qed

theorem refresh_keeps_grant_witness:
  "\<exists>t'. fst (refresh_token in_memory_store ''u'' (\<lambda>r. Inl ''refused'')
      [''u'' \<mapsto> \<lparr>tk_access_token = ''a'', tk_token_type = ''Bearer'', tk_refresh_token = Some ''r'', tk_expires_in = None,
                tk_scope = None, tk_received_at = 0\<rparr>]) ''u'' = Some t' \<and> tk_refresh_token t' \<noteq> None"
  by (rule refresh_keeps_grant [THEN conjunct2, THEN conjunct2, THEN conjunct2, rule_format]) (intro conjI, simp, simp)

subsection \<open>Authenticators that share a client\<close>

text \<open>
  \<open>OAuthAuthenticator\<close> keeps the scope its requests go through. The client is the application's and
  may serve other authenticators, so the state here is one client with all its authenticators.
\<close>

record Authenticator =
  au_scope :: nat
  au_closed :: bool

record 'j AuthSystem =
  sy_client :: "'j HttpClient"
  sy_authenticators :: "Authenticator list"

definition make_scope :: "'j HttpClient \<Rightarrow> 'j HttpClient \<times> nat" where
  "make_scope client = (client\<lparr>hc_scopes := hc_scopes client @ [False]\<rparr>, length (hc_scopes client))"

definition new_authenticator :: "'j AuthSystem \<Rightarrow> 'j AuthSystem" where
  "new_authenticator sys =
     (let (client, scope) = make_scope (sy_client sys) in
      sys\<lparr>sy_client := client, sy_authenticators := sy_authenticators sys @ [\<lparr>au_scope = scope, au_closed = False\<rparr>]\<rparr>)"

text \<open>\<open>cancel_pending\<close>: the scope is exchanged for a new one under the lock, then the old one is aborted.\<close>

definition cancel_authenticator :: "nat \<Rightarrow> 'j AuthSystem \<Rightarrow> 'j AuthSystem" where
  "cancel_authenticator i sys =
     (let a = sy_authenticators sys ! i in
      if au_closed a then sys
      else
        (let (client, scope) = make_scope (sy_client sys) in
         sys\<lparr>sy_client := abort_matching client (Some (au_scope a)),
             sy_authenticators := (sy_authenticators sys)[i := a\<lparr>au_scope := scope\<rparr>]\<rparr>))"

definition close_authenticator :: "nat \<Rightarrow> 'j AuthSystem \<Rightarrow> 'j AuthSystem" where
  "close_authenticator i sys =
     (let a = sy_authenticators sys ! i in
      sys\<lparr>sy_client := abort_matching (sy_client sys) (Some (au_scope a)),
          sy_authenticators := (sy_authenticators sys)[i := a\<lparr>au_closed := True\<rparr>]\<rparr>)"

text \<open>A refresh issues its request through the scope current when it starts.\<close>

definition issue_refresh :: "nat \<Rightarrow> string \<Rightarrow> FetchKind \<Rightarrow> 'j AuthSystem \<Rightarrow> 'j AuthSystem" where
  "issue_refresh i url kind sys =
     sys\<lparr>sy_client := (sy_client sys)\<lparr>hc_exchanges := hc_exchanges (sy_client sys)
           @ [make_exchange (sy_client sys) url (Some (au_scope (sy_authenticators sys ! i))) kind]\<rparr>\<rparr>"

text \<open>
  The runs: the operations of every authenticator, and any progress of the client's exchanges, which
  does not touch a scope's latch.
\<close>

inductive auth_reachable :: "AsioIp \<Rightarrow> (string \<Rightarrow> 'j option) \<Rightarrow> 'j AuthSystem \<Rightarrow> bool"
  for ip :: AsioIp and parse_json :: "string \<Rightarrow> 'j option" where
  init: "auth_reachable ip parse_json \<lparr>sy_client = new_client policy resolver, sy_authenticators = []\<rparr>"
| create: "auth_reachable ip parse_json sys \<Longrightarrow> auth_reachable ip parse_json (new_authenticator sys)"
| cancel: "auth_reachable ip parse_json sys \<Longrightarrow> i < length (sy_authenticators sys) \<Longrightarrow>
    auth_reachable ip parse_json (cancel_authenticator i sys)"
| close: "auth_reachable ip parse_json sys \<Longrightarrow> i < length (sy_authenticators sys) \<Longrightarrow>
    auth_reachable ip parse_json (close_authenticator i sys)"
| refresh: "auth_reachable ip parse_json sys \<Longrightarrow> i < length (sy_authenticators sys) \<Longrightarrow>
    auth_reachable ip parse_json (issue_refresh i url kind sys)"
| progress: "auth_reachable ip parse_json sys \<Longrightarrow> http_step ip parse_json (sy_client sys) client \<Longrightarrow>
    hc_scopes client = hc_scopes (sy_client sys) \<Longrightarrow> auth_reachable ip parse_json (sys\<lparr>sy_client := client\<rparr>)"

definition scopes_inv :: "bool list \<Rightarrow> Authenticator list \<Rightarrow> bool" where
  "scopes_inv scopes auths \<longleftrightarrow>
     distinct (map au_scope auths)
   \<and> (\<forall>a \<in> set auths. au_scope a < length scopes \<and> scopes ! au_scope a = au_closed a)"

lemma abort_scopes: "hc_scopes (abort_matching client (Some s)) = (hc_scopes client)[s := True]"
  by (simp add: abort_matching_def)

lemma map_scope_update: "i < length auths \<Longrightarrow> map au_scope (auths[i := (auths ! i)\<lparr>au_closed := b\<rparr>]) = map au_scope auths"
  by (simp add: map_update list_update_same_conv)

lemma auth_reachable_inv:
  "auth_reachable ip parse_json sys \<Longrightarrow> scopes_inv (hc_scopes (sy_client sys)) (sy_authenticators sys)"
proof (induction rule: auth_reachable.induct)
  case (init policy resolver)
  then show ?case by (simp add: scopes_inv_def)
next
  case (create sys)
  then show ?case by (force simp: scopes_inv_def new_authenticator_def make_scope_def nth_append)
next
  case (cancel sys i)
  let ?auths = "sy_authenticators sys" and ?scopes = "hc_scopes (sy_client sys)"
  show ?case
  proof (cases "au_closed (?auths ! i)")
    case True
    with cancel show ?thesis by (simp add: cancel_authenticator_def)
  next
    case False
    let ?a = "(?auths ! i)\<lparr>au_scope := length ?scopes\<rparr>"
    note inv = cancel.IH [unfolded scopes_inv_def]
    have "length ?scopes \<notin> au_scope ` set ?auths" using inv by fastforce
    then have d: "distinct (map au_scope (?auths[i := ?a]))"
      using inv by (simp add: map_update distinct_list_update)
    have "au_scope b < length (?scopes @ [False])
        \<and> (?scopes @ [False])[au_scope (?auths ! i) := True] ! au_scope b = au_closed b"
      if b: "b \<in> set (?auths[i := ?a])" for b
    proof (cases "b = ?a")
      case True
      then show ?thesis using False inv cancel(2) by (auto simp: nth_append nth_list_update)
    next
      case False
      from b obtain j where j: "j < length ?auths" "?auths[i := ?a] ! j = b" by (auto simp: in_set_conv_nth)
      with False have ji: "j \<noteq> i" by auto
      then have bj: "b = ?auths ! j" using j by simp
      then have "au_scope b \<noteq> au_scope (?auths ! i)" using inv ji j(1) cancel(2) by (auto simp: distinct_conv_nth)
      moreover have "b \<in> set ?auths" using bj j(1) by simp
      ultimately show ?thesis using inv by (auto simp: nth_append nth_list_update)
    qed
    with d False show ?thesis
      by (simp add: scopes_inv_def cancel_authenticator_def make_scope_def abort_scopes Let_def)
  qed
next
  case (close sys i)
  let ?auths = "sy_authenticators sys"
  let ?a = "(?auths ! i)\<lparr>au_closed := True\<rparr>"
  note inv = close.IH [unfolded scopes_inv_def]
  have d: "distinct (map au_scope (?auths[i := ?a]))" using inv map_scope_update [OF close(2)] by simp
  have "au_scope b < length (hc_scopes (sy_client sys))
      \<and> (hc_scopes (sy_client sys))[au_scope (?auths ! i) := True] ! au_scope b = au_closed b"
    if b: "b \<in> set (?auths[i := ?a])" for b
  proof (cases "b = ?a")
    case True
    then show ?thesis using inv close(2) by auto
  next
    case False
    from b obtain j where j: "j < length ?auths" "?auths[i := ?a] ! j = b" by (auto simp: in_set_conv_nth)
    with False have ji: "j \<noteq> i" by auto
    then have bj: "b = ?auths ! j" using j by simp
    then have "au_scope b \<noteq> au_scope (?auths ! i)" using inv ji j(1) close(2) by (auto simp: distinct_conv_nth)
    moreover have "b \<in> set ?auths" using bj j(1) by simp
    ultimately show ?thesis using inv by auto
  qed
  with d show ?case by (simp add: scopes_inv_def close_authenticator_def abort_scopes Let_def)
next
  case (refresh sys i url kind)
  then show ?case by (simp add: issue_refresh_def)
next
  case (progress sys client)
  then show ?case by simp
qed

text \<open>Authenticators that share a client do not disturb each other: in every run, the requests an
  authenticator issues are refused exactly when the whole client has been aborted or this
  authenticator itself closed, however many others were closed or cancelled; the authenticators'
  scopes are all different; and cancelling one aborts the requests it had issued before.\<close>

theorem authenticators_isolated:
  assumes "auth_reachable ip parse_json sys" "i < length (sy_authenticators sys)"
  shows "(is_aborted (sy_client sys) (Some (au_scope (sy_authenticators sys ! i))) \<longleftrightarrow>
            hc_aborted (sy_client sys) \<or> au_closed (sy_authenticators sys ! i))
    \<and> distinct (map au_scope (sy_authenticators sys))
    \<and> is_aborted (sy_client (cancel_authenticator i sys)) (Some (au_scope (sy_authenticators sys ! i)))
    \<and> (is_aborted (sy_client (cancel_authenticator i sys)) (Some (au_scope (sy_authenticators (cancel_authenticator i sys) ! i))) \<longleftrightarrow>
         hc_aborted (sy_client sys) \<or> au_closed (sy_authenticators sys ! i))"
proof -
  let ?a = "sy_authenticators sys ! i"
  have inv: "scopes_inv (hc_scopes (sy_client sys)) (sy_authenticators sys)" by (rule auth_reachable_inv [OF assms(1)])
  then have a: "au_scope ?a < length (hc_scopes (sy_client sys))" "hc_scopes (sy_client sys) ! au_scope ?a = au_closed ?a"
    using assms(2) by (auto simp: scopes_inv_def)
  show ?thesis
    using inv a assms(2)
    by (auto simp: is_aborted_def scope_latched_def cancel_authenticator_def make_scope_def abort_scopes abort_matching_def
        Let_def nth_append nth_list_update scopes_inv_def)
qed

definition two_authenticators :: "unit AuthSystem" where
  "two_authenticators =
     close_authenticator 1 (new_authenticator (new_authenticator
       \<lparr>sy_client = new_client loopback_policy None, sy_authenticators = []\<rparr>))"

lemma two_authenticators_reachable: "auth_reachable example_ip parse_json two_authenticators"
  unfolding two_authenticators_def
  by (intro auth_reachable.close auth_reachable.create auth_reachable.init)
    (simp add: new_authenticator_def make_scope_def)

theorem authenticators_isolated_witness:
  "\<not> is_aborted (sy_client two_authenticators) (Some (au_scope (sy_authenticators two_authenticators ! 0)))"
  using authenticators_isolated [OF two_authenticators_reachable, of 0]
  by (simp add: two_authenticators_def new_authenticator_def make_scope_def close_authenticator_def
      abort_matching_def new_client_def Let_def)

end
