(* ===== verification/ClientIdentity.thy ===== *)
theory ClientIdentity
  imports KeyedStore JsonRpc
begin

text \<open>
  Which identity the client presents to an authorization server
  (include/mcp/auth/client_identity.hpp, src/auth/client_identity.cpp): the credentials, bound to an
  issuer, with their JSON form; the choice between injected credentials, a metadata document, a
  stored registration and a new one; and the body of a registration request.
\<close>

datatype ClientIdentitySource = Src_pre_registered | Src_client_id_metadata_document | Src_dynamic_registration

record OAuthClientMetadata =
  cm_redirect_uris :: "string list"
  cm_application_type :: string
  cm_grant_types :: "string list"
  cm_response_types :: "string list"
  cm_client_name :: "string option"
  cm_client_uri :: "string option"
  cm_software_id :: "string option"
  cm_software_version :: "string option"
  cm_scope :: "string option"
  cm_token_endpoint_auth_method :: "string option"

definition put_strings :: "'j JsonApi \<Rightarrow> string list \<Rightarrow> 'j" where
  "put_strings api xs = put_list api (j_of_string api) xs"

definition client_metadata_to_json :: "'j JsonApi \<Rightarrow> OAuthClientMetadata \<Rightarrow> 'j" where
  "client_metadata_to_json api m =
     (let j = j_put api (j_empty_object api) ''redirect_uris'' (put_strings api (cm_redirect_uris m));
          j = j_put api j ''application_type'' (j_of_string api (cm_application_type m));
          j = j_put api j ''grant_types'' (put_strings api (cm_grant_types m));
          j = j_put api j ''response_types'' (put_strings api (cm_response_types m));
          j = put_optional api (j_of_string api) j ''client_name'' (cm_client_name m);
          j = put_optional api (j_of_string api) j ''client_uri'' (cm_client_uri m);
          j = put_optional api (j_of_string api) j ''software_id'' (cm_software_id m);
          j = put_optional api (j_of_string api) j ''software_version'' (cm_software_version m);
          j = put_optional api (j_of_string api) j ''scope'' (cm_scope m)
      in put_optional api (j_of_string api) j ''token_endpoint_auth_method'' (cm_token_endpoint_auth_method m))"

record OAuthClientInformation =
  ci_client_id :: string
  ci_client_secret :: "string option"
  ci_client_id_issued_at :: "int option"
  ci_client_secret_expires_at :: "int option"
  ci_issuer :: string
  ci_source :: ClientIdentitySource

definition empty_information :: OAuthClientInformation where
  "empty_information =
     \<lparr>ci_client_id = '''', ci_client_secret = None, ci_client_id_issued_at = None,
      ci_client_secret_expires_at = None, ci_issuer = '''', ci_source = Src_dynamic_registration\<rparr>"

definition secret_expired :: "OAuthClientInformation \<Rightarrow> int \<Rightarrow> bool" where
  "secret_expired info now_seconds =
     (case ci_client_secret_expires_at info of
        None \<Rightarrow> False
      | Some t \<Rightarrow> if t = 0 then False else t \<le> now_seconds)"

text \<open>A member that is read only when it is a number.\<close>

definition get_number :: "'j JsonApi \<Rightarrow> 'j \<Rightarrow> string \<Rightarrow> DecodeError + int option" where
  "get_number api j k =
     (case j_find api j k of
        None \<Rightarrow> Inr None
      | Some v \<Rightarrow> if j_is_number api v then bindE (j_int api v) (\<lambda>i. Inr (Some i)) else Inr None)"

definition information_from_json :: "'j JsonApi \<Rightarrow> 'j \<Rightarrow> DecodeError + OAuthClientInformation" where
  "information_from_json api j =
     bindE (get_if_present api (j_string api) j ''client_id'') (\<lambda>client_id.
     bindE (get_optional api (j_string api) j ''client_secret'') (\<lambda>client_secret.
     bindE (get_number api j ''client_id_issued_at'') (\<lambda>issued_at.
     bindE (get_number api j ''client_secret_expires_at'') (\<lambda>expires_at.
       Inr (empty_information\<lparr>ci_client_id := case_option '''' (\<lambda>x. x) client_id, ci_client_secret := client_secret,
              ci_client_id_issued_at := issued_at, ci_client_secret_expires_at := expires_at\<rparr>)))))"

definition information_to_json :: "'j JsonApi \<Rightarrow> OAuthClientInformation \<Rightarrow> 'j" where
  "information_to_json api info =
     (let j = j_put api (j_empty_object api) ''client_id'' (j_of_string api (ci_client_id info));
          j = put_optional api (j_of_string api) j ''client_secret'' (ci_client_secret info);
          j = put_optional api (j_of_int api) j ''client_id_issued_at'' (ci_client_id_issued_at info);
          j = put_optional api (j_of_int api) j ''client_secret_expires_at'' (ci_client_secret_expires_at info)
      in j_put api j ''issuer'' (j_of_string api (ci_issuer info)))"

subsection \<open>Choosing an identity\<close>

record ClientIdentityConfig =
  cc_pre_registered :: "OAuthClientInformation option"
  cc_client_metadata_url :: "string option"
  cc_metadata :: OAuthClientMetadata

record ClientIdentityServerFacts =
  sf_issuer :: string
  sf_client_id_metadata_document_supported :: bool
  sf_registration_endpoint :: "string option"
  sf_scopes_supported :: "string list"

datatype ClientIdentityDecision =
  Use_pre_registered | Use_client_id_metadata_document | Reuse_stored_registration | Register_dynamically | Unavailable

definition filled :: "string option \<Rightarrow> bool" where
  "filled v = (case v of None \<Rightarrow> False | Some s \<Rightarrow> s \<noteq> '''')"

definition select_client_identity ::
  "ClientIdentityConfig \<Rightarrow> ClientIdentityServerFacts \<Rightarrow> OAuthClientInformation option \<Rightarrow> ClientIdentityDecision" where
  "select_client_identity config server stored =
     (case (case cc_pre_registered config of Some p \<Rightarrow> if ci_client_id p \<noteq> '''' then Some p else None | None \<Rightarrow> None) of
        Some p \<Rightarrow>
          (if ci_issuer p = '''' then (if filled (ci_client_secret p) then Unavailable else Use_pre_registered)
           else if ci_issuer p \<noteq> sf_issuer server then Unavailable
           else Use_pre_registered)
      | None \<Rightarrow>
          if filled (cc_client_metadata_url config) \<and> sf_client_id_metadata_document_supported server
          then Use_client_id_metadata_document
          else if (case stored of None \<Rightarrow> False
                   | Some i \<Rightarrow> ci_client_id i \<noteq> '''' \<and> ci_issuer i = sf_issuer server \<and> sf_issuer server \<noteq> '''')
          then Reuse_stored_registration
          else if filled (sf_registration_endpoint server) then Register_dynamically
          else Unavailable)"

subsection \<open>Registration\<close>

definition offline_access :: string where
  "offline_access = ''offline_access''"

text \<open>\<open>stream >> value\<close>: the words between white space of the classic locale.\<close>

definition is_stream_space :: "char \<Rightarrow> bool" where
  "is_stream_space c \<longleftrightarrow> c = CHR '' '' \<or> 9 \<le> (byte_of c :: nat) \<and> (byte_of c :: nat) \<le> 13"

fun split_words :: "(char \<Rightarrow> bool) \<Rightarrow> string \<Rightarrow> string \<Rightarrow> string list" where
  "split_words sep word [] = (if word = [] then [] else [word])"
| "split_words sep word (c # s) =
     (if sep c then (if word = [] then split_words sep [] s else word # split_words sep [] s)
      else split_words sep (word @ [c]) s)"

definition split_scope :: "string \<Rightarrow> string list" where
  "split_scope scope = split_words is_stream_space [] scope"

fun join_words :: "string \<Rightarrow> string list \<Rightarrow> string" where
  "join_words joined [] = joined"
| "join_words joined (v # vs) = join_words ((if joined \<noteq> [] then joined @ '' '' else joined) @ v) vs"

definition join_scope :: "string list \<Rightarrow> string" where
  "join_scope values = join_words [] values"

definition build_registration_request :: "'j JsonApi \<Rightarrow> OAuthClientMetadata \<Rightarrow> ClientIdentityServerFacts \<Rightarrow> 'j" where
  "build_registration_request api m server =
     (let body = client_metadata_to_json api m in
      if offline_access \<in> set (sf_scopes_supported server) then
        (let scopes = (case cm_scope m of None \<Rightarrow> [] | Some s \<Rightarrow> split_scope s);
             scopes = (if offline_access \<in> set scopes then scopes else scopes @ [offline_access])
         in j_put api body ''scope'' (j_of_string api (join_scope scopes)))
      else body)"

subsection \<open>Properties\<close>

lemma select_injected:
  "cc_pre_registered config = Some p \<Longrightarrow> ci_client_id p \<noteq> '''' \<Longrightarrow>
     select_client_identity config server stored =
       (if ci_issuer p = sf_issuer server \<and> ci_issuer p \<noteq> '''' \<or> ci_issuer p = '''' \<and> \<not> filled (ci_client_secret p)
        then Use_pre_registered else Unavailable)"
  by (simp add: select_client_identity_def)

lemma select_other:
  assumes "\<not> (\<exists>p. cc_pre_registered config = Some p \<and> ci_client_id p \<noteq> '''')"
  shows "select_client_identity config server stored =
    (if filled (cc_client_metadata_url config) \<and> sf_client_id_metadata_document_supported server
     then Use_client_id_metadata_document
     else if (case stored of None \<Rightarrow> False
              | Some i \<Rightarrow> ci_client_id i \<noteq> '''' \<and> ci_issuer i = sf_issuer server \<and> sf_issuer server \<noteq> '''')
     then Reuse_stored_registration
     else if filled (sf_registration_endpoint server) then Register_dynamically
     else Unavailable)"
  using assms by (cases "cc_pre_registered config") (simp_all add: select_client_identity_def)

text \<open>A credential is presented only where it belongs: injected credentials are never replaced by a
  registration or a stored entry; they are used only at the issuer they name, or, when they name
  none, only if they carry no secret; a stored registration is used only at the issuer it was made
  with; and the metadata document only when the server says it takes one.\<close>

theorem identity_never_misbound:
  assumes "d = select_client_identity config server stored"
  shows "(\<forall>p. cc_pre_registered config = Some p \<and> ci_client_id p \<noteq> '''' \<longrightarrow>
            d = (if ci_issuer p = sf_issuer server \<and> ci_issuer p \<noteq> '''' \<or> ci_issuer p = '''' \<and> \<not> filled (ci_client_secret p)
                 then Use_pre_registered else Unavailable))
    \<and> (d = Use_pre_registered \<longrightarrow> (\<exists>p. cc_pre_registered config = Some p \<and> ci_client_id p \<noteq> ''''
          \<and> (filled (ci_client_secret p) \<longrightarrow> ci_issuer p = sf_issuer server \<and> sf_issuer server \<noteq> '''')))
    \<and> (d = Reuse_stored_registration \<longrightarrow> (\<exists>i. stored = Some i \<and> ci_issuer i = sf_issuer server \<and> ci_client_id i \<noteq> ''''))
    \<and> (d = Use_client_id_metadata_document \<longrightarrow> sf_client_id_metadata_document_supported server \<and> filled (cc_client_metadata_url config))
    \<and> (d = Register_dynamically \<longrightarrow> filled (sf_registration_endpoint server))"
proof (cases "\<exists>p. cc_pre_registered config = Some p \<and> ci_client_id p \<noteq> ''''")
  case True
  then obtain p where p: "cc_pre_registered config = Some p" "ci_client_id p \<noteq> ''''" by blast
  show ?thesis unfolding assms select_injected [OF p] using p by auto
next
  case False
  note d = select_other [OF False, of server stored, folded assms]
  have "d \<noteq> Use_pre_registered" using d by (auto split: if_splits)
  moreover have "d = Reuse_stored_registration \<longrightarrow>
      (\<exists>i. stored = Some i \<and> ci_issuer i = sf_issuer server \<and> ci_client_id i \<noteq> '''')"
    using d by (auto split: if_splits option.splits)
  moreover have "d = Use_client_id_metadata_document \<longrightarrow> sf_client_id_metadata_document_supported server \<and> filled (cc_client_metadata_url config)"
    "d = Register_dynamically \<longrightarrow> filled (sf_registration_endpoint server)"
    using d by (auto split: if_splits)
  ultimately show ?thesis using False by blast
qed

definition sample_identity :: OAuthClientInformation where
  "sample_identity = empty_information\<lparr>ci_client_id := ''me'', ci_client_secret := Some ''s'', ci_issuer := ''https://a''\<rparr>"

definition sample_metadata :: OAuthClientMetadata where
  "sample_metadata =
     \<lparr>cm_redirect_uris = [''http://localhost/cb''], cm_application_type = ''native'', cm_grant_types = [''authorization_code''],
      cm_response_types = [''code''], cm_client_name = None, cm_client_uri = None, cm_software_id = None,
      cm_software_version = None, cm_scope = Some ''read  write'', cm_token_endpoint_auth_method = None\<rparr>"

definition sample_facts :: "string \<Rightarrow> ClientIdentityServerFacts" where
  "sample_facts issuer =
     \<lparr>sf_issuer = issuer, sf_client_id_metadata_document_supported = False,
      sf_registration_endpoint = Some ''https://a/register'', sf_scopes_supported = [''offline_access'']\<rparr>"

theorem identity_never_misbound_witness:
  "select_client_identity \<lparr>cc_pre_registered = Some sample_identity, cc_client_metadata_url = None, cc_metadata = sample_metadata\<rparr>
     (sample_facts ''https://b'') None = Unavailable"
proof -
  let ?c = "\<lparr>cc_pre_registered = Some sample_identity, cc_client_metadata_url = None, cc_metadata = sample_metadata\<rparr>"
  have "cc_pre_registered ?c = Some sample_identity \<and> ci_client_id sample_identity \<noteq> ''''"
    by (simp add: sample_identity_def empty_information_def)
  from identity_never_misbound [OF refl, THEN conjunct1, rule_format, OF this, of "sample_facts ''https://b''" None]
  show ?thesis by (simp add: sample_identity_def empty_information_def sample_facts_def)
qed

lemma split_words_no_sep: "w \<in> set (split_words sep word s) \<Longrightarrow> \<forall>c \<in> set word. \<not> sep c \<Longrightarrow> w \<noteq> [] \<and> (\<forall>c \<in> set w. \<not> sep c)"
proof (induction s arbitrary: word)
  case Nil
  then show ?case by (simp split: if_splits)
next
  case (Cons c s)
  show ?case
  proof (cases "sep c")
    case True
    with Cons.prems(1) have "w = word \<and> word \<noteq> [] \<or> w \<in> set (split_words sep [] s)"
      by (simp split: if_splits)
    then show ?thesis
    proof
      assume "w = word \<and> word \<noteq> []"
      with Cons.prems(2) show ?thesis by blast
    next
      assume "w \<in> set (split_words sep [] s)"
      then show ?thesis by (rule Cons.IH) simp
    qed
  next
    case False
    then have "w \<in> set (split_words sep (word @ [c]) s)" using Cons.prems(1) by simp
    then show ?thesis by (rule Cons.IH) (use Cons.prems(2) False in simp)
  qed
qed

lemma split_words_word: "\<forall>c \<in> set w. \<not> sep c \<Longrightarrow> split_words sep word (w @ s) = split_words sep (word @ w) s"
  by (induction w arbitrary: word) auto

lemma join_words_prefix: "joined \<noteq> [] \<Longrightarrow> \<forall>v \<in> set vs. v \<noteq> [] \<Longrightarrow> join_words joined vs = joined @ concat (map (\<lambda>v. '' '' @ v) vs)"
  by (induction vs arbitrary: joined) auto

lemma split_joined:
  assumes "\<forall>v \<in> set vs. v \<noteq> [] \<and> (\<forall>c \<in> set v. \<not> sep c)" "sep CHR '' ''" "word \<noteq> []"
  shows "split_words sep word (concat (map (\<lambda>v. '' '' @ v) vs)) = word # vs"
  using assms
proof (induction vs arbitrary: word)
  case (Cons v vs)
  then show ?case using split_words_word [of v sep "[]"] by simp
qed simp

text \<open>Splitting undoes joining, for values that are words.\<close>

lemma split_join_words:
  assumes "\<forall>v \<in> set vs. v \<noteq> [] \<and> (\<forall>c \<in> set v. \<not> sep c)" "sep CHR '' ''"
  shows "split_words sep [] (join_words [] vs) = vs"
proof (cases vs)
  case (Cons v us)
  then have "join_words [] vs = v @ concat (map (\<lambda>v. '' '' @ v) us)"
    using join_words_prefix [of v us] assms by simp
  then show ?thesis using split_words_word [of v sep "[]"] split_joined [of us sep v] assms Cons by simp
qed simp

text \<open>A registration asks for offline access exactly when the server offers it and never drops a
  configured scope: the body always states the application type, and its scope, when the server
  publishes \<open>offline_access\<close>, lists the configured scopes in order with \<open>offline_access\<close> at the end
  unless it was there already; otherwise the configured scope is sent as it is.\<close>

theorem registration_scope:
  assumes "json_laws api" "body = build_registration_request api m server"
  shows "j_find api body ''application_type'' = Some (j_of_string api (cm_application_type m))
    \<and> (if offline_access \<in> set (sf_scopes_supported server)
       then (let asked = (case cm_scope m of None \<Rightarrow> [] | Some s \<Rightarrow> split_scope s) in
             \<exists>s. j_find api body ''scope'' = Some (j_of_string api s)
               \<and> split_scope s = (if offline_access \<in> set asked then asked else asked @ [offline_access]))
       else j_find api body ''scope'' = map_option (j_of_string api) (cm_scope m))"
proof -
  define asked where "asked = (case cm_scope m of None \<Rightarrow> [] | Some s \<Rightarrow> split_scope s)"
  define scopes where "scopes = (if offline_access \<in> set asked then asked else asked @ [offline_access])"
  have w: "\<forall>v \<in> set asked. v \<noteq> [] \<and> (\<forall>c \<in> set v. \<not> is_stream_space c)"
    using split_words_no_sep [of _ is_stream_space "[]"] by (auto simp: asked_def split_scope_def split: option.splits)
  have "\<forall>c \<in> set offline_access. \<not> is_stream_space c" by (simp add: offline_access_def is_stream_space_def)
  with w have "\<forall>v \<in> set scopes. v \<noteq> [] \<and> (\<forall>c \<in> set v. \<not> is_stream_space c)"
    by (simp add: scopes_def offline_access_def)
  then have s: "split_scope (join_scope scopes) = scopes"
    by (simp add: split_scope_def join_scope_def split_join_words is_stream_space_def)
  show ?thesis
    using assms(1) s
    by (simp add: assms(2) build_registration_request_def client_metadata_to_json_def Let_def asked_def [symmetric]
        scopes_def [symmetric]) (auto simp: Let_def)
qed

theorem registration_scope_witness:
  "\<exists>s. j_find tree_api (build_registration_request tree_api sample_metadata (sample_facts ''https://a'')) ''scope''
       = Some (j_of_string tree_api s) \<and> split_scope s = [''read'', ''write'', ''offline_access'']"
  using registration_scope [OF tree_api_laws refl, of sample_metadata "sample_facts ''https://a''"]
  by (simp add: sample_facts_def sample_metadata_def split_scope_def is_stream_space_def offline_access_def Let_def)

text \<open>Registered credentials survive the wire: reading what was written gives the same identifier,
  secret and times; the issuer and the source are not read back, because they say where the
  credentials were obtained and must not be taken from the document.\<close>

theorem information_roundtrip:
  assumes "json_laws api" "\<forall>i. ci_client_id_issued_at info = Some i \<or> ci_client_secret_expires_at info = Some i \<longrightarrow> int64_range i"
  shows "information_from_json api (information_to_json api info) =
    Inr (info\<lparr>ci_issuer := '''', ci_source := Src_dynamic_registration\<rparr>)"
proof -
  let ?j = "information_to_json api info"
  have f: "j_find api ?j ''client_id'' = Some (j_of_string api (ci_client_id info))"
    "j_find api ?j ''client_secret'' = map_option (j_of_string api) (ci_client_secret info)"
    "j_find api ?j ''client_id_issued_at'' = map_option (j_of_int api) (ci_client_id_issued_at info)"
    "j_find api ?j ''client_secret_expires_at'' = map_option (j_of_int api) (ci_client_secret_expires_at info)"
    using assms(1) by (simp_all add: information_to_json_def Let_def)
  have "get_if_present api (j_string api) ?j ''client_id'' = Inr (Some (ci_client_id info))"
    by (rule get_if_present_field [OF assms(1), where setter = "j_of_string api"]) (use f assms(1) in simp_all)
  moreover have "get_optional api (j_string api) ?j ''client_secret'' = Inr (ci_client_secret info)"
    by (rule get_optional_field [OF assms(1) f(2)]) (use assms(1) in simp)
  moreover have "get_number api ?j ''client_id_issued_at'' = Inr (ci_client_id_issued_at info)"
    "get_number api ?j ''client_secret_expires_at'' = Inr (ci_client_secret_expires_at info)"
    using assms f by (auto simp: get_number_def split: option.split)
  ultimately show ?thesis by (simp add: information_from_json_def empty_information_def)
qed

theorem information_roundtrip_witness:
  "information_from_json tree_api (information_to_json tree_api sample_identity) =
     Inr (sample_identity\<lparr>ci_issuer := ''''\<rparr>)"
  by (subst information_roundtrip [OF tree_api_laws]) (simp_all add: sample_identity_def empty_information_def)

end
