(* ===== verification/OAuthRequests.thy ===== *)
theory OAuthRequests
  imports ClientIdentity OAuthCodec OAuthUrl
begin

text \<open>
  What the client puts into its OAuth requests (src/auth/oauth.cpp): scopes and their union, the
  authentication method of the token endpoint, where the client secret goes, and the parameters of
  the code and refresh requests.
\<close>

subsection \<open>Scopes\<close>

definition join_scopes :: "string list \<Rightarrow> string" where
  "join_scopes scopes = join_words [] scopes"

function split_scopes :: "string \<Rightarrow> string list" where
  "split_scopes scopes =
     (if scopes = [] then []
      else (case split_at CHR '' '' scopes of
              None \<Rightarrow> [scopes]
            | Some (token, scopes') \<Rightarrow> (if token \<noteq> [] then [token] else []) @ split_scopes scopes'))"
  by pat_completeness auto
termination
  by (relation "measure length") (auto dest: split_at_shorter)

declare split_scopes.simps [simp del]

definition add_missing :: "string list \<Rightarrow> string \<Rightarrow> string list" where
  "add_missing merged candidate = (if candidate \<in> set merged then merged else merged @ [candidate])"

definition union_scopes :: "string option \<Rightarrow> string option \<Rightarrow> string option" where
  "union_scopes primary secondary =
     (if \<not> filled primary then (if filled secondary then secondary else None)
      else if \<not> filled secondary then primary
      else Some (join_scopes (foldl add_missing (split_scopes (the primary)) (split_scopes (the secondary)))))"

subsection \<open>The token endpoint\<close>

definition select_token_endpoint_auth_method :: "string list option \<Rightarrow> bool \<Rightarrow> string option" where
  "select_token_endpoint_auth_method supported has_client_secret =
     (case supported of
        None \<Rightarrow> None
      | Some methods \<Rightarrow>
          if methods = [] then None
          else if has_client_secret \<and> ''client_secret_basic'' \<in> set methods then Some ''client_secret_basic''
          else if has_client_secret \<and> ''client_secret_post'' \<in> set methods then Some ''client_secret_post''
          else if ''none'' \<in> set methods then Some ''none''
          else None)"

definition append_query :: "string \<Rightarrow> string \<Rightarrow> string" where
  "append_query endpoint query =
     (if query = '''' then endpoint
      else endpoint @ (if CHR ''?'' \<in> set endpoint then ''&'' else ''?'') @ query)"

record OAuthConfig =
  oc_client_id :: string
  oc_client_secret :: "string option"
  oc_token_endpoint :: string
  oc_authorization_endpoint :: "string option"
  oc_revocation_endpoint :: "string option"
  oc_redirect_uri :: string
  oc_scope :: "string option"
  oc_resource :: "string option"
  oc_token_endpoint_auth_method :: "string option"

text \<open>The parameters with the secret where the method puts it, and the \<open>Authorization\<close> header value.\<close>

definition apply_client_authentication :: "OAuthConfig \<Rightarrow> key_values \<Rightarrow> key_values \<times> string" where
  "apply_client_authentication config params =
     (if oc_token_endpoint_auth_method config = Some ''none'' then (params, '''')
      else (case oc_client_secret config of
              None \<Rightarrow> (params, '''')
            | Some secret \<Rightarrow>
                if oc_token_endpoint_auth_method config = Some ''client_secret_basic''
                then (let credentials = form_encode (oc_client_id config) @ '':'' @ form_encode secret in
                      (params, ''Basic '' @ base64_encode (map byte_of credentials)))
                else (params @ [(''client_secret'', secret)], '''')))"

record TokenRequest =
  tr_params :: key_values
  tr_authorization :: string

definition add_resource :: "OAuthConfig \<Rightarrow> key_values \<Rightarrow> key_values" where
  "add_resource config params = (case oc_resource config of None \<Rightarrow> params | Some r \<Rightarrow> params @ [(''resource'', r)])"

definition build_authorization_code_request :: "OAuthConfig \<Rightarrow> string \<Rightarrow> string \<Rightarrow> TokenRequest" where
  "build_authorization_code_request config code verifier =
     (let params = [(''grant_type'', ''authorization_code''), (''code'', code), (''redirect_uri'', oc_redirect_uri config),
                    (''client_id'', oc_client_id config), (''code_verifier'', verifier)];
          (params, authorization) = apply_client_authentication config params
      in \<lparr>tr_params = add_resource config params, tr_authorization = authorization\<rparr>)"

definition build_refresh_request :: "OAuthConfig \<Rightarrow> string \<Rightarrow> TokenRequest" where
  "build_refresh_request config refresh =
     (let params = [(''grant_type'', ''refresh_token''), (''refresh_token'', refresh), (''client_id'', oc_client_id config)];
          (params, authorization) = apply_client_authentication config params
      in \<lparr>tr_params = add_resource config params, tr_authorization = authorization\<rparr>)"

subsection \<open>Properties\<close>

definition scope_token :: "string \<Rightarrow> bool" where
  "scope_token v \<longleftrightarrow> v \<noteq> [] \<and> (\<forall>c \<in> set v. c \<noteq> CHR '' '')"

lemma split_scopes_words: "split_scopes s = split_words ((=) CHR '' '') [] s"
proof (induction s rule: split_scopes.induct)
  case (1 s)
  show ?case
  proof (cases "split_at CHR '' '' s")
    case None
    then have "CHR '' '' \<notin> set s" by (metis not_None_eq split_at_first split_list_first)
    then have "\<forall>c \<in> set s. CHR '' '' \<noteq> c" by blast
    then have "split_words ((=) CHR '' '') [] s = (if s = [] then [] else [s])"
      using split_words_word [of s "(=) CHR '' ''" "[]" "[]"] by simp
    with None show ?thesis by (simp add: split_scopes.simps [of s])
  next
    case (Some ab)
    obtain a b where ab: "ab = (a, b)" by force
    with Some have s: "s = a @ CHR '' '' # b" "CHR '' '' \<notin> set a" using split_at_SomeD by blast+
    have "split_scopes b = split_words ((=) CHR '' '') [] b" using 1 Some ab s by simp
    moreover have "\<forall>c \<in> set a. CHR '' '' \<noteq> c" using s(2) by blast
    note split_words_word [OF this, of "[]" "CHR '' '' # b"]
    moreover have "split_scopes s = (if a \<noteq> [] then [a] else []) @ split_scopes b"
      using Some ab s(1) by (subst split_scopes.simps) simp
    ultimately show ?thesis using s(1) by simp
  qed
qed

lemma split_scopes_tokens: "v \<in> set (split_scopes s) \<Longrightarrow> scope_token v"
  unfolding split_scopes_words scope_token_def
  using split_words_no_sep [of v "(=) CHR '' ''" "[]" s] by auto

lemma split_join_scopes: "\<forall>v \<in> set vs. scope_token v \<Longrightarrow> split_scopes (join_scopes vs) = vs"
  unfolding split_scopes_words join_scopes_def
  by (rule split_join_words) (auto simp: scope_token_def)

lemma foldl_add_missing:
  "\<exists>added. foldl add_missing merged vs = merged @ added \<and> set added = set vs - set merged \<and> distinct added"
proof (induction vs arbitrary: merged)
  case (Cons v vs)
  show ?case
  proof (cases "v \<in> set merged")
    case True
    with Cons.IH [of merged] show ?thesis by (auto simp: add_missing_def)
  next
    case False
    from Cons.IH [of "merged @ [v]"] obtain added where
      "foldl add_missing (merged @ [v]) vs = (merged @ [v]) @ added" "set added = set vs - set (merged @ [v])" "distinct added"
      by blast
    then have "foldl add_missing merged (v # vs) = merged @ v # added" "set (v # added) = set (v # vs) - set merged"
      "distinct (v # added)"
      using False by (simp_all add: add_missing_def) blast
    then show ?thesis by blast
  qed
qed simp

definition scopes_of :: "string option \<Rightarrow> string list" where
  "scopes_of s = (case s of None \<Rightarrow> [] | Some t \<Rightarrow> split_scopes t)"

text \<open>A step-up keeps what was granted: the union of two scope strings lists exactly the scopes of
  both, the ones of the first in their order and as often as they were there, then each new one of
  the second once; it is absent exactly when both are absent or empty.\<close>

theorem union_scopes_exact:
  "(\<exists>added. scopes_of (union_scopes primary secondary) = scopes_of primary @ added
      \<and> set added = set (scopes_of secondary) - set (scopes_of primary)
      \<and> (filled primary \<longrightarrow> distinct added))
   \<and> (union_scopes primary secondary = None \<longleftrightarrow> \<not> filled primary \<and> \<not> filled secondary)"
proof (cases "filled primary \<and> filled secondary")
  case True
  then obtain p q where pq: "primary = Some p" "secondary = Some q" by (auto simp: filled_def split: option.splits)
  obtain added where a: "foldl add_missing (split_scopes p) (split_scopes q) = split_scopes p @ added"
    "set added = set (split_scopes q) - set (split_scopes p)" "distinct added"
    using foldl_add_missing by blast
  have "\<forall>v \<in> set (split_scopes p @ added). scope_token v" using a(2) split_scopes_tokens by auto
  from split_join_scopes [OF this] have "scopes_of (union_scopes primary secondary) = scopes_of primary @ added"
    using a(1) True pq by (simp add: union_scopes_def scopes_of_def)
  with a(2,3) True pq show ?thesis by (auto simp: union_scopes_def scopes_of_def)
next
  case False
  have none: "scopes_of s = []" if "\<not> filled s" for s
    using that by (cases s) (simp_all add: scopes_of_def filled_def split_scopes.simps [of "[]"])
  show ?thesis
  proof (cases "filled primary")
    case True
    with False none [of secondary] show ?thesis by (cases primary) (simp_all add: union_scopes_def, simp add: filled_def)
  next
    case False
    with none [of primary] none [of secondary] show ?thesis
      by (cases secondary) (auto simp: union_scopes_def scopes_of_def filled_def)
  qed
qed

text \<open>The client secret goes to exactly one place, the one the server named: with HTTP Basic it is in
  the header only, which decodes to the encoded identifier and secret with one colon between them;
  with no authentication, or without a secret, it is nowhere; with any other method it is one body
  parameter; and the method chosen is one the server listed, never one that needs a secret the
  client does not have.\<close>

theorem client_secret_placement:
  assumes "oc_client_secret config = Some secret"
  shows "(oc_token_endpoint_auth_method config = Some ''none'' \<longrightarrow> apply_client_authentication config params = (params, ''''))
    \<and> (oc_token_endpoint_auth_method config = Some ''client_secret_basic'' \<longrightarrow>
        fst (apply_client_authentication config params) = params
        \<and> base64_decode (drop 6 (snd (apply_client_authentication config params))) =
            map byte_of (form_encode (oc_client_id config) @ '':'' @ form_encode secret)
        \<and> form_decode (form_encode secret) = secret)
    \<and> (oc_token_endpoint_auth_method config \<notin> {Some ''none'', Some ''client_secret_basic''} \<longrightarrow>
        apply_client_authentication config params = (params @ [(''client_secret'', secret)], ''''))
    \<and> apply_client_authentication (config\<lparr>oc_client_secret := None\<rparr>) params = (params, '''')
    \<and> (select_token_endpoint_auth_method supported has = Some m \<longrightarrow>
        (\<exists>ms. supported = Some ms \<and> m \<in> set ms) \<and> (m = ''none'' \<or> has))"
proof -
  have "form_decode (form_encode secret) = secret"
    using form_decode_form_encode_loop [of "[]" "[]" secret] by (simp add: form_encode_def)
  moreover have "select_token_endpoint_auth_method supported has = Some m \<longrightarrow>
      (\<exists>ms. supported = Some ms \<and> m \<in> set ms) \<and> (m = ''none'' \<or> has)"
    by (auto simp: select_token_endpoint_auth_method_def split: option.splits if_splits)
  moreover have "oc_token_endpoint_auth_method config = Some ''client_secret_basic'' \<longrightarrow>
        fst (apply_client_authentication config params) = params
        \<and> base64_decode (drop 6 (snd (apply_client_authentication config params))) =
            map byte_of (form_encode (oc_client_id config) @ '':'' @ form_encode secret)"
    using assms base64_decode_encode [of "map byte_of (form_encode (oc_client_id config) @ '':'' @ form_encode secret)"]
    by (simp add: apply_client_authentication_def Let_def ball_Un)
  moreover have "oc_token_endpoint_auth_method config \<notin> {Some ''none'', Some ''client_secret_basic''} \<longrightarrow>
        apply_client_authentication config params = (params @ [(''client_secret'', secret)], '''')"
    "oc_token_endpoint_auth_method config = Some ''none'' \<longrightarrow> apply_client_authentication config params = (params, '''')"
    "apply_client_authentication (config\<lparr>oc_client_secret := None\<rparr>) params = (params, '''')"
    using assms by (simp_all add: apply_client_authentication_def)
  ultimately show ?thesis by blast
qed

definition sample_config :: OAuthConfig where
  "sample_config =
     \<lparr>oc_client_id = ''me'', oc_client_secret = Some ''a:b'', oc_token_endpoint = ''https://a/token'',
      oc_authorization_endpoint = None, oc_revocation_endpoint = None, oc_redirect_uri = ''http://localhost/cb'',
      oc_scope = None, oc_resource = Some ''https://mcp'', oc_token_endpoint_auth_method = Some ''none''\<rparr>"

theorem client_secret_placement_witness:
  "apply_client_authentication sample_config [] = ([], '''')"
  using client_secret_placement [of sample_config "''a:b''" "[]"] by (simp add: sample_config_def)

theorem union_scopes_exact_witness:
  "union_scopes (Some ''read'') None = None \<longleftrightarrow> \<not> filled (Some ''read'') \<and> \<not> filled None"
  using union_scopes_exact [of "Some ''read''" None] by blast

end
