(* ===== verification/OAuthDiscovery.thy ===== *)
theory OAuthDiscovery
  imports OAuthHttp JsonRpc
begin

text \<open>
  Metadata discovery (\<open>OAuthDiscoveryClient\<close> in src/auth/oauth.cpp): the two metadata documents with
  their JSON forms, the loops over the candidate locations and the caches. A fetch is what
  \<open>OAuthHttpClient::get_json\<close> answered (theory \<open>OAuthHttp\<close>), the caller's acceptor is an argument, and
  times are nanoseconds of the steady clock.
\<close>

subsection \<open>Documents\<close>

definition get_strings :: "'j JsonApi \<Rightarrow> 'j \<Rightarrow> DecodeError + string list" where
  "get_strings api j = get_list api (j_string api) j"

definition or_empty :: "string option \<Rightarrow> string" where
  "or_empty s = (case s of None \<Rightarrow> '''' | Some t \<Rightarrow> t)"

record 'j ProtectedResourceMetadata =
  pm_resource :: string
  pm_authorization_servers :: "string list"
  pm_scopes_supported :: "string list option"
  pm_raw :: 'j

definition protected_resource_from_json :: "'j JsonApi \<Rightarrow> 'j \<Rightarrow> DecodeError + 'j ProtectedResourceMetadata" where
  "protected_resource_from_json api j =
     bindE (get_if_present api (j_string api) j ''resource'') (\<lambda>resource.
     bindE (get_if_present api (get_strings api) j ''authorization_servers'') (\<lambda>servers.
     bindE (get_if_present api (get_strings api) j ''scopes_supported'') (\<lambda>scopes.
       Inr \<lparr>pm_resource = or_empty resource, pm_authorization_servers = (case servers of None \<Rightarrow> [] | Some s \<Rightarrow> s),
            pm_scopes_supported = scopes, pm_raw = j\<rparr>)))"

record 'j AuthServerMetadata =
  am_issuer :: string
  am_authorization_endpoint :: string
  am_token_endpoint :: string
  am_revocation_endpoint :: "string option"
  am_registration_endpoint :: "string option"
  am_scopes_supported :: "string list option"
  am_response_types_supported :: "string list option"
  am_grant_types_supported :: "string list option"
  am_code_challenge_methods_supported :: "string list option"
  am_iss_parameter_supported :: "bool option"
  am_client_id_metadata_document_supported :: "bool option"
  am_token_endpoint_auth_methods_supported :: "string list option"
  am_raw :: 'j

definition auth_server_from_json :: "'j JsonApi \<Rightarrow> 'j \<Rightarrow> DecodeError + 'j AuthServerMetadata" where
  "auth_server_from_json api j =
     bindE (get_if_present api (j_string api) j ''issuer'') (\<lambda>issuer.
     bindE (get_if_present api (j_string api) j ''authorization_endpoint'') (\<lambda>authorization_endpoint.
     bindE (get_if_present api (j_string api) j ''token_endpoint'') (\<lambda>token_endpoint.
     bindE (get_if_present api (j_string api) j ''revocation_endpoint'') (\<lambda>revocation_endpoint.
     bindE (get_if_present api (j_string api) j ''registration_endpoint'') (\<lambda>registration_endpoint.
     bindE (get_if_present api (get_strings api) j ''scopes_supported'') (\<lambda>scopes.
     bindE (get_if_present api (get_strings api) j ''response_types_supported'') (\<lambda>response_types.
     bindE (get_if_present api (get_strings api) j ''grant_types_supported'') (\<lambda>grant_types.
     bindE (get_if_present api (get_strings api) j ''code_challenge_methods_supported'') (\<lambda>challenge_methods.
     bindE (get_if_present api (j_bool api) j ''authorization_response_iss_parameter_supported'') (\<lambda>iss.
     bindE (get_if_present api (j_bool api) j ''client_id_metadata_document_supported'') (\<lambda>document.
     bindE (get_if_present api (get_strings api) j ''token_endpoint_auth_methods_supported'') (\<lambda>auth_methods.
       Inr \<lparr>am_issuer = or_empty issuer, am_authorization_endpoint = or_empty authorization_endpoint,
            am_token_endpoint = or_empty token_endpoint, am_revocation_endpoint = revocation_endpoint,
            am_registration_endpoint = registration_endpoint, am_scopes_supported = scopes,
            am_response_types_supported = response_types, am_grant_types_supported = grant_types,
            am_code_challenge_methods_supported = challenge_methods, am_iss_parameter_supported = iss,
            am_client_id_metadata_document_supported = document,
            am_token_endpoint_auth_methods_supported = auth_methods, am_raw = j\<rparr>))))))))))))"

subsection \<open>Discovery\<close>

datatype DiscoveryError = De_policy MetadataPolicyError | De_rejected string | De_url string | De_failed string

text \<open>What one candidate gives: a refused target, a document, or anything else.\<close>

datatype 'm Candidate = Cand_refused MetadataPolicyError | Cand_missed | Cand_document 'm

definition candidate :: "('j \<Rightarrow> DecodeError + 'm) \<Rightarrow> OAuthError + 'j \<Rightarrow> 'm Candidate" where
  "candidate decode response =
     (case response of
        Inl (Policy_error m) \<Rightarrow> Cand_refused m
      | Inl e \<Rightarrow> Cand_missed
      | Inr j \<Rightarrow> (case decode j of Inl e \<Rightarrow> Cand_missed | Inr m \<Rightarrow> Cand_document m))"

record 'm CachedEntry =
  ce_data :: 'm
  ce_expires_at :: int

definition entry_is_expired :: "int \<Rightarrow> 'm CachedEntry \<Rightarrow> bool" where
  "entry_is_expired now e \<longleftrightarrow> now \<ge> ce_expires_at e"

type_synonym 'm cache = "string \<rightharpoonup> 'm CachedEntry"

text \<open>
  \<open>run_protected_discovery\<close>: the cache, the locations fetched, and the result. The acceptor gives its
  objection, if it has one; \<open>fetch n\<close> is what the \<open>n\<close>-th fetch answers.
\<close>

fun run_protected_discovery ::
  "(nat \<Rightarrow> 'm Candidate) \<Rightarrow> ('m \<Rightarrow> string option) \<Rightarrow> int \<Rightarrow> string \<Rightarrow> nat \<Rightarrow> string list \<Rightarrow> 'm cache \<Rightarrow>
     'm cache \<times> string list \<times> (DiscoveryError + 'm)" where
  "run_protected_discovery fetch accept expires_at key n [] cache =
     (cache, [], Inl (De_failed (''Failed to discover protected resource metadata for '' @ sanitize_for_diagnostics key)))"
| "run_protected_discovery fetch accept expires_at key n (url # urls) cache =
     (case fetch n of
        Cand_refused m \<Rightarrow> (cache, [url], Inl (De_policy m))
      | Cand_missed \<Rightarrow>
          (case run_protected_discovery fetch accept expires_at key (Suc n) urls cache of
             (cache', tried, r) \<Rightarrow> (cache', url # tried, r))
      | Cand_document m \<Rightarrow>
          (case accept m of
             Some objection \<Rightarrow> (cache, [url], Inl (De_rejected objection))
           | None \<Rightarrow> (cache(key \<mapsto> \<lparr>ce_data = m, ce_expires_at = expires_at\<rparr>), [url], Inr m)))"

fun run_auth_discovery ::
  "(nat \<Rightarrow> 'm Candidate) \<Rightarrow> int \<Rightarrow> string \<Rightarrow> nat \<Rightarrow> string list \<Rightarrow> 'm cache \<Rightarrow>
     'm cache \<times> string list \<times> (DiscoveryError + 'm)" where
  "run_auth_discovery fetch expires_at key n [] cache =
     (cache, [], Inl (De_failed (''Failed to discover authorization server metadata for '' @ sanitize_for_diagnostics key)))"
| "run_auth_discovery fetch expires_at key n (url # urls) cache =
     (case fetch n of
        Cand_refused m \<Rightarrow> (cache, [url], Inl (De_policy m))
      | Cand_missed \<Rightarrow>
          (case run_auth_discovery fetch expires_at key (Suc n) urls cache of
             (cache', tried, r) \<Rightarrow> (cache', url # tried, r))
      | Cand_document m \<Rightarrow> (cache(key \<mapsto> \<lparr>ce_data = m, ce_expires_at = expires_at\<rparr>), [url], Inr m))"

text \<open>The entry a discovery may serve, and the discoveries themselves, at time \<open>now\<close>.\<close>

definition cached :: "int \<Rightarrow> 'm cache \<Rightarrow> string \<Rightarrow> 'm option" where
  "cached now cache key =
     (case cache key of None \<Rightarrow> None | Some e \<Rightarrow> if entry_is_expired now e then None else Some (ce_data e))"

definition discover_protected_resource ::
  "(nat \<Rightarrow> 'm Candidate) \<Rightarrow> ('m \<Rightarrow> string option) \<Rightarrow> int \<Rightarrow> int \<Rightarrow> string \<Rightarrow> string option \<Rightarrow> 'm cache \<Rightarrow>
     'm cache \<times> string list \<times> (DiscoveryError + 'm)" where
  "discover_protected_resource fetch accept now ttl resource_url challenge_metadata_url cache =
     (let cache_key = (case challenge_metadata_url of None \<Rightarrow> resource_url | Some u \<Rightarrow> u) in
      case cached now cache cache_key of
        Some m \<Rightarrow> (cache, [], case accept m of Some objection \<Rightarrow> Inl (De_rejected objection) | None \<Rightarrow> Inr m)
      | None \<Rightarrow>
          (case protected_resource_urls resource_url challenge_metadata_url of
             Inl e \<Rightarrow> (cache, [], Inl (De_url e))
           | Inr urls \<Rightarrow> run_protected_discovery fetch accept (now + ttl) cache_key 0 urls cache))"

definition discover_auth_server ::
  "(nat \<Rightarrow> 'm Candidate) \<Rightarrow> int \<Rightarrow> int \<Rightarrow> string \<Rightarrow> 'm cache \<Rightarrow> 'm cache \<times> string list \<times> (DiscoveryError + 'm)" where
  "discover_auth_server fetch now ttl issuer_url cache =
     (case cached now cache issuer_url of
        Some m \<Rightarrow> (cache, [], Inr m)
      | None \<Rightarrow>
          (case auth_server_urls issuer_url of
             Inl e \<Rightarrow> (cache, [], Inl (De_url e))
           | Inr urls \<Rightarrow> run_auth_discovery fetch (now + ttl) issuer_url 0 urls cache))"

subsection \<open>Properties\<close>

text \<open>How a run of the loop relates to its candidates.\<close>

lemma run_protected_facts:
  assumes "run_protected_discovery fetch accept expires_at key n urls cache = (cache', tried, r)"
  shows "(\<exists>k. tried = take k urls)
    \<and> (\<forall>i. Suc i < length tried \<longrightarrow> fetch (n + i) = Cand_missed)
    \<and> (\<forall>m. r = Inr m \<longrightarrow> accept m = None \<and> tried \<noteq> [] \<and> fetch (n + length tried - 1) = Cand_document m
         \<and> cache' = cache(key \<mapsto> \<lparr>ce_data = m, ce_expires_at = expires_at\<rparr>))
    \<and> (\<forall>e. r = Inl e \<longrightarrow> cache' = cache)
    \<and> (\<forall>i m. i < length tried \<and> fetch (n + i) = Cand_refused m \<longrightarrow> r = Inl (De_policy m) \<and> Suc i = length tried)"
  using assms
proof (induction urls arbitrary: n tried)
  case Nil
  then show ?case by (auto intro: exI [of _ 0])
next
  case (Cons url urls)
  show ?case
  proof (cases "fetch n")
    case (Cand_refused m)
    with Cons.prems show ?thesis by (auto intro: exI [of _ 1])
  next
    case (Cand_document m)
    with Cons.prems show ?thesis by (auto split: option.splits intro: exI [of _ 1])
  next
    case Cand_missed
    obtain c' tried' r' where run: "run_protected_discovery fetch accept expires_at key (Suc n) urls cache = (c', tried', r')"
      by (metis prod_cases3)
    with Cons.prems Cand_missed have eq: "c' = cache'" "tried = url # tried'" "r' = r" by simp_all
    note ih = Cons.IH [OF run [unfolded eq(1,3)]]
    from ih obtain k where k: "tried' = take k urls" by blast
    have "tried = take (Suc k) (url # urls)" using k eq by simp
    moreover have "fetch (n + i) = Cand_missed" if "Suc i < length tried" for i
    proof (cases i)
      case 0
      with Cand_missed show ?thesis by simp
    next
      case (Suc j)
      with that eq(2) have "Suc j < length tried'" by simp
      with ih have "fetch (Suc n + j) = Cand_missed" by blast
      with Suc show ?thesis by simp
    qed
    moreover have "r = Inl (De_policy m) \<and> Suc i = length tried" if "i < length tried" "fetch (n + i) = Cand_refused m" for i m
    proof (cases i)
      case 0
      with that Cand_missed show ?thesis by simp
    next
      case (Suc j)
      with that eq(2) have "j < length tried' \<and> fetch (Suc n + j) = Cand_refused m" by simp
      with ih have "r = Inl (De_policy m) \<and> Suc j = length tried'" by blast
      with Suc eq(2) show ?thesis by simp
    qed
    moreover have "accept m = None \<and> tried \<noteq> [] \<and> fetch (n + length tried - 1) = Cand_document m
         \<and> cache' = cache(key \<mapsto> \<lparr>ce_data = m, ce_expires_at = expires_at\<rparr>)" if "r = Inr m" for m
    proof -
      have "accept m = None" "tried' \<noteq> []" "fetch (Suc n + length tried' - 1) = Cand_document m"
        "cache' = cache(key \<mapsto> \<lparr>ce_data = m, ce_expires_at = expires_at\<rparr>)"
        using ih that by blast+
      then show ?thesis using eq(2) by simp
    qed
    ultimately show ?thesis using ih by blast
  qed
qed

lemma run_auth_is_accepting:
  "run_auth_discovery fetch expires_at key n urls cache =
     (case run_protected_discovery fetch (\<lambda>_. None) expires_at key n urls cache of
        (c, tried, r) \<Rightarrow> (c, tried, case r of
           Inl (De_failed m) \<Rightarrow>
             Inl (De_failed (''Failed to discover authorization server metadata for '' @ sanitize_for_diagnostics key))
         | _ \<Rightarrow> r))"
  by (induction urls arbitrary: n) (simp_all split: Candidate.split prod.split)

text \<open>A refused document goes nowhere: discovery returns a document only if the caller's acceptor has
  no objection to it, whether it was fetched or cached; it caches only what it returns, for exactly
  the time to live, under the challenge's location or the resource; an error leaves the cache as it
  was; a fresh entry is served without any request; the locations are tried in order, the next only
  when one gave no document, and a target the policy refuses ends the discovery.\<close>

theorem discovery_respects_acceptor:
  assumes "discover_protected_resource fetch accept now ttl resource_url challenge cache = (cache', tried, r)"
    and "key = (case challenge of None \<Rightarrow> resource_url | Some u \<Rightarrow> u)"
  shows "(\<forall>m. r = Inr m \<longrightarrow> accept m = None
        \<and> (cached now cache key = Some m \<and> cache' = cache \<and> tried = []
           \<or> cache' = cache(key \<mapsto> \<lparr>ce_data = m, ce_expires_at = now + ttl\<rparr>) \<and> fetch (length tried - 1) = Cand_document m))
    \<and> (\<forall>e. r = Inl e \<longrightarrow> cache' = cache)
    \<and> (cached now cache key \<noteq> None \<longrightarrow> tried = [])
    \<and> (\<forall>i. Suc i < length tried \<longrightarrow> fetch i = Cand_missed)
    \<and> (\<forall>i m. i < length tried \<and> fetch i = Cand_refused m \<longrightarrow> r = Inl (De_policy m) \<and> Suc i = length tried)
    \<and> (tried = [] \<or> (\<exists>urls k. protected_resource_urls resource_url challenge = Inr urls \<and> tried = take k urls))"
proof (cases "cached now cache key")
  case (Some m)
  with assms show ?thesis by (auto simp: discover_protected_resource_def Let_def split: option.splits)
next
  case None
  show ?thesis
  proof (cases "protected_resource_urls resource_url challenge")
    case (Inl e)
    with None assms show ?thesis by (auto simp: discover_protected_resource_def Let_def)
  next
    case (Inr urls)
    with None assms have "run_protected_discovery fetch accept (now + ttl) key 0 urls cache = (cache', tried, r)"
      by (simp add: discover_protected_resource_def Let_def)
    from run_protected_facts [OF this] None Inr show ?thesis by auto
  qed
qed

text \<open>A discovery that succeeded is not repeated: within the time to live the same discovery, from
  the cache the first one left, gives the same document without a request; for a protected resource
  as long as the acceptor still takes it.\<close>

theorem discovery_cached_within_ttl:
  assumes "discover_auth_server fetch now ttl issuer_url cache = (cache', tried, Inr m)"
    and "now \<le> later" "later < now + ttl" "cached now cache issuer_url = None"
  shows "discover_auth_server fetch' later ttl issuer_url cache' = (cache', [], Inr m)"
proof -
  obtain urls where "auth_server_urls issuer_url = Inr urls"
    "run_auth_discovery fetch (now + ttl) issuer_url 0 urls cache = (cache', tried, Inr m)"
    using assms(1,4) by (auto simp: discover_auth_server_def split: sum.splits)
  then have "cache' = cache(issuer_url \<mapsto> \<lparr>ce_data = m, ce_expires_at = now + ttl\<rparr>)"
    using run_protected_facts [of fetch "\<lambda>_. None" "now + ttl" issuer_url 0 urls cache cache' tried "Inr m"]
    by (auto simp: run_auth_is_accepting split: prod.splits sum.splits DiscoveryError.splits)
  then show ?thesis using assms(3) by (simp add: discover_auth_server_def cached_def entry_is_expired_def)
qed

lemma split_sample: "find_text ''://'' ''https://a'' = Some 5" "find_from (is_char CHR ''/'') ''a'' 0 = None"
  by (simp_all add: find_text_def find_from_def is_char_def)

lemma sample_urls:
  "auth_server_urls ''https://a'' = Inr [''https://a/.well-known/oauth-authorization-server'', ''https://a/.well-known/openid-configuration'']"
  "protected_resource_urls ''https://a'' None = Inr [''https://a/.well-known/oauth-protected-resource'']"
  by (simp_all add: auth_server_urls_def protected_resource_urls_def parse_url_components_def split_sample)

theorem discovery_respects_acceptor_witness:
  "\<exists>cache' tried r. discover_protected_resource (\<lambda>n. Cand_document ''doc'') (\<lambda>m. Some ''no'') 0 300 ''https://a'' None Map.empty = (cache', tried, r)
     \<and> cache' = Map.empty \<and> (\<forall>m. r \<noteq> Inr m)"
proof -
  obtain cache' tried r where d: "discover_protected_resource (\<lambda>n. Cand_document ''doc'') (\<lambda>m. Some ''no'') 0 300 ''https://a'' None Map.empty = (cache', tried, r)"
    by (metis prod_cases3)
  from discovery_respects_acceptor [OF d refl] have "(\<forall>m. r = Inr m \<longrightarrow> False) \<and> (\<forall>e. r = Inl e \<longrightarrow> cache' = Map.empty)" by auto
  then have "cache' = Map.empty \<and> (\<forall>m. r \<noteq> Inr m)" by (cases r) auto
  with d show ?thesis by blast
qed

theorem discovery_cached_within_ttl_witness:
  "discover_auth_server (\<lambda>n. Cand_missed) 299 300 ''https://a'' [''https://a'' \<mapsto> \<lparr>ce_data = ''doc'', ce_expires_at = 300\<rparr>] =
     ([''https://a'' \<mapsto> \<lparr>ce_data = ''doc'', ce_expires_at = 300\<rparr>], [], Inr ''doc'')"
proof -
  have "discover_auth_server (\<lambda>n. Cand_document ''doc'') 0 300 ''https://a'' Map.empty =
      ([''https://a'' \<mapsto> \<lparr>ce_data = ''doc'', ce_expires_at = 300\<rparr>], [''https://a/.well-known/oauth-authorization-server''], Inr ''doc'')"
    by (simp add: discover_auth_server_def cached_def sample_urls)
  from discovery_cached_within_ttl [OF this, of 299 "\<lambda>n. Cand_missed"] show ?thesis by (simp add: cached_def)
qed

end
