(* ===== verification/OAuthFlights.thy ===== *)
theory OAuthFlights
  imports Prelude
begin

text \<open>
  The single flights of \<open>OAuthAuthorizationManager::Impl\<close> (src/auth/oauth.cpp): concurrent challenges
  share one authorization, concurrent refreshes one exchange. A step is one critical section under
  \<open>state_mutex\<close>, or one task of the flight strand. A flight and a client are named by the number of
  their creation; a caller is a coroutine that entered \<open>handle_challenge\<close> or \<open>try_refresh\<close>.
\<close>

datatype FlightKind = Challenge_flight | Refresh_flight

record Flight =
  fl_finished :: bool
  fl_cancelled :: bool
  fl_succeeded :: bool
  fl_failure :: "string option"
  fl_expired :: bool

definition new_flight :: Flight where
  "new_flight = \<lparr>fl_finished = False, fl_cancelled = False, fl_succeeded = False, fl_failure = None, fl_expired = False\<rparr>"

datatype Outcome = Out_value bool | Out_failure string | Out_closed | Out_cancelled | Out_no_outcome

text \<open>A leader has its flight and the client it started on, a follower the flight it joined.\<close>

datatype Caller = Leading FlightKind nat nat | Waiting FlightKind nat | Returned FlightKind "nat option" Outcome

record Manager =
  mg_flights :: "Flight list"
  mg_current :: "FlightKind \<Rightarrow> nat option"
  mg_client :: nat
  mg_aborted :: "nat set"
  mg_posted :: "nat list"
  mg_closed :: bool
  mg_callers :: "Caller list"

definition new_manager :: Manager where
  "new_manager = \<lparr>mg_flights = [], mg_current = (\<lambda>kind. None), mg_client = 0, mg_aborted = {}, mg_posted = [],
     mg_closed = False, mg_callers = []\<rparr>"

text \<open>The end of a flight as a pair: whether it succeeded, and its exception.\<close>

definition outcome_of :: "bool \<Rightarrow> string option \<Rightarrow> Outcome" where
  "outcome_of succeeded failure = (case failure of None \<Rightarrow> Out_value succeeded | Some e \<Rightarrow> Out_failure e)"

text \<open>
  \<open>handle_challenge\<close> from its lock on, and \<open>try_refresh\<close>; \<open>refused\<close> is what a call that may not start
  reports. The second argument says whether there is a token configuration to refresh with.
\<close>

definition enter :: "FlightKind \<Rightarrow> bool \<Rightarrow> Manager \<Rightarrow> Manager" where
  "enter kind has_token_config m =
     (let add = (\<lambda>c m. m\<lparr>mg_callers := mg_callers m @ [c]\<rparr>) in
      if kind = Challenge_flight \<and> mg_closed m then add (Returned kind None Out_closed) m
      else if kind = Refresh_flight \<and> (\<not> has_token_config \<or> mg_closed m) then add (Returned kind None (Out_value False)) m
      else (case mg_current m kind of
              Some f \<Rightarrow> add (Waiting kind f) m
            | None \<Rightarrow>
                (let f = length (mg_flights m) in
                 add (Leading kind f (mg_client m))
                   (m\<lparr>mg_flights := mg_flights m @ [new_flight], mg_current := (mg_current m)(kind := Some f)\<rparr>))))"

text \<open>\<open>expire_flight\<close> posts to the strand; a null flight is a no-op.\<close>

definition expire_flight :: "nat option \<Rightarrow> Manager \<Rightarrow> Manager" where
  "expire_flight f m = (case f of None \<Rightarrow> m | Some f \<Rightarrow> m\<lparr>mg_posted := mg_posted m @ [f]\<rparr>)"

definition run_expiry :: "nat \<Rightarrow> Manager \<Rightarrow> Manager" where
  "run_expiry f m = m\<lparr>mg_posted := remove1 f (mg_posted m), mg_flights := (mg_flights m)[f := (mg_flights m ! f)\<lparr>fl_expired := True\<rparr>]\<rparr>"

text \<open>The end of \<open>run_leading_challenge\<close> and \<open>run_leading_refresh\<close>.\<close>

definition finish :: "nat \<Rightarrow> FlightKind \<Rightarrow> nat \<Rightarrow> bool \<Rightarrow> string option \<Rightarrow> Manager \<Rightarrow> Manager" where
  "finish i kind f succeeded failure m =
     (let m = (if mg_current m kind = Some f then m\<lparr>mg_current := (mg_current m)(kind := None)\<rparr> else m);
          m = m\<lparr>mg_flights := (mg_flights m)[f := (mg_flights m ! f)\<lparr>fl_succeeded := succeeded, fl_failure := failure, fl_finished := True\<rparr>]\<rparr>;
          m = expire_flight (Some f) m
      in m\<lparr>mg_callers := (mg_callers m)[i := Returned kind (Some f) (outcome_of succeeded failure)]\<rparr>)"

text \<open>What a released follower reports: \<open>await_in_flight\<close> and \<open>await_refresh\<close> after their wait.\<close>

definition awaited :: "FlightKind \<Rightarrow> Flight \<Rightarrow> bool \<Rightarrow> Outcome" where
  "awaited kind fl closed =
     (case kind of
        Challenge_flight \<Rightarrow>
          (if closed then Out_closed
           else if fl_cancelled fl \<and> \<not> fl_finished fl then Out_cancelled
           else if \<not> fl_finished fl then Out_no_outcome
           else outcome_of (fl_succeeded fl) (fl_failure fl))
      | Refresh_flight \<Rightarrow>
          (if fl_finished fl then outcome_of (fl_succeeded fl) (fl_failure fl) else Out_value False))"

definition wake :: "nat \<Rightarrow> FlightKind \<Rightarrow> nat \<Rightarrow> Manager \<Rightarrow> Manager" where
  "wake i kind f m = m\<lparr>mg_callers := (mg_callers m)[i := Returned kind (Some f) (awaited kind (mg_flights m ! f) (mg_closed m))]\<rparr>"

definition close_manager :: "Manager \<Rightarrow> Manager" where
  "close_manager m =
     (if mg_closed m then m
      else expire_flight (mg_current m Refresh_flight) (expire_flight (mg_current m Challenge_flight)
             (m\<lparr>mg_closed := True, mg_aborted := insert (mg_client m) (mg_aborted m)\<rparr>)))"

definition cancel_flight :: "nat option \<Rightarrow> Manager \<Rightarrow> Manager" where
  "cancel_flight f m =
     (case f of None \<Rightarrow> m | Some f \<Rightarrow> m\<lparr>mg_flights := (mg_flights m)[f := (mg_flights m ! f)\<lparr>fl_cancelled := True\<rparr>]\<rparr>)"

definition cancel_pending :: "Manager \<Rightarrow> Manager" where
  "cancel_pending m =
     (if mg_closed m \<or> mg_current m Challenge_flight = None \<and> mg_current m Refresh_flight = None then m
      else
        (let flight = mg_current m Challenge_flight; refresh = mg_current m Refresh_flight; client = mg_client m;
             m = cancel_flight refresh (cancel_flight flight (m\<lparr>mg_current := (\<lambda>kind. None)\<rparr>));
             m = m\<lparr>mg_client := Suc client, mg_aborted := insert client (mg_aborted m)\<rparr>
         in expire_flight refresh (expire_flight flight m)))"

inductive manager_step :: "Manager \<Rightarrow> Manager \<Rightarrow> bool" where
  enter: "manager_step m (enter kind has_token_config m)"
| finish: "i < length (mg_callers m) \<Longrightarrow> mg_callers m ! i = Leading kind f client \<Longrightarrow>
    manager_step m (finish i kind f succeeded failure m)"
| expiry: "f \<in> set (mg_posted m) \<Longrightarrow> manager_step m (run_expiry f m)"
| wake: "i < length (mg_callers m) \<Longrightarrow> mg_callers m ! i = Waiting kind f \<Longrightarrow> fl_expired (mg_flights m ! f) \<Longrightarrow>
    manager_step m (wake i kind f m)"
| close: "manager_step m (close_manager m)"
| cancel: "manager_step m (cancel_pending m)"

inductive manager_reachable :: "Manager \<Rightarrow> bool" where
  init: "manager_reachable new_manager"
| step: "manager_reachable m \<Longrightarrow> manager_step m m' \<Longrightarrow> manager_reachable m'"

inductive_cases manager_stepE: "manager_step m m'"

subsection \<open>The invariant\<close>

text \<open>The callers that lead a flight.\<close>

definition leaders :: "Caller list \<Rightarrow> nat \<Rightarrow> nat" where
  "leaders callers f = length (filter (\<lambda>c. \<exists>kind client. c = Leading kind f client) callers)"

definition flight_inv :: "Manager \<Rightarrow> nat \<Rightarrow> bool" where
  "flight_inv m f \<longleftrightarrow>
     (let fl = mg_flights m ! f in
      leaders (mg_callers m) f = (if fl_finished fl then 0 else 1)
    \<and> (fl_expired fl \<or> f \<in> set (mg_posted m) \<longrightarrow> fl_finished fl \<or> fl_cancelled fl \<or> mg_closed m)
    \<and> (fl_finished fl \<or> fl_cancelled fl \<longrightarrow> fl_expired fl \<or> f \<in> set (mg_posted m)))"

definition caller_inv :: "Manager \<Rightarrow> Caller \<Rightarrow> bool" where
  "caller_inv m c =
     (case c of
        Leading kind f client \<Rightarrow> f < length (mg_flights m)
          \<and> (if fl_cancelled (mg_flights m ! f) then client \<in> mg_aborted m else mg_current m kind = Some f \<and> client = mg_client m)
      | Waiting kind f \<Rightarrow> f < length (mg_flights m)
          \<and> (mg_current m kind = Some f \<or> fl_finished (mg_flights m ! f) \<or> fl_cancelled (mg_flights m ! f))
      | Returned kind None r \<Rightarrow> r = (if kind = Challenge_flight then Out_closed else Out_value False)
      | Returned kind (Some f) r \<Rightarrow> f < length (mg_flights m)
          \<and> (r = Out_closed \<and> mg_closed m
             \<or> r = Out_cancelled \<and> kind = Challenge_flight \<and> fl_cancelled (mg_flights m ! f)
             \<or> r = Out_value False \<and> kind = Refresh_flight \<and> (fl_cancelled (mg_flights m ! f) \<or> mg_closed m)
             \<or> fl_finished (mg_flights m ! f) \<and> r = outcome_of (fl_succeeded (mg_flights m ! f)) (fl_failure (mg_flights m ! f))))"

definition current_inv :: "Manager \<Rightarrow> FlightKind \<Rightarrow> bool" where
  "current_inv m kind \<longleftrightarrow>
     (\<forall>f. mg_current m kind = Some f \<longrightarrow> f < length (mg_flights m) \<and> \<not> fl_finished (mg_flights m ! f)
        \<and> \<not> fl_cancelled (mg_flights m ! f) \<and> (mg_closed m \<longrightarrow> fl_expired (mg_flights m ! f) \<or> f \<in> set (mg_posted m)))"

definition manager_inv :: "Manager \<Rightarrow> bool" where
  "manager_inv m \<longleftrightarrow>
     (\<forall>f < length (mg_flights m). flight_inv m f) \<and> (\<forall>c \<in> set (mg_callers m). caller_inv m c)
   \<and> (\<forall>kind. current_inv m kind)
   \<and> (\<forall>k k' f. k \<noteq> k' \<longrightarrow> mg_current m k = Some f \<longrightarrow> mg_current m k' \<noteq> Some f)
   \<and> (\<forall>f \<in> set (mg_posted m). f < length (mg_flights m))
   \<and> (mg_client m \<in> mg_aborted m \<longleftrightarrow> mg_closed m) \<and> (\<forall>c \<in> mg_aborted m. c \<le> mg_client m)"

definition leads :: "nat \<Rightarrow> Caller \<Rightarrow> nat" where
  "leads f c = (case c of Leading kind f' client \<Rightarrow> if f' = f then 1 else 0 | _ \<Rightarrow> 0)"

lemma leads_simps [simp]:
  "leads f (Leading kind f' client) = (if f' = f then 1 else 0)" "leads f (Waiting kind f') = 0" "leads f (Returned kind g r) = 0"
  by (simp_all add: leads_def)

lemma leaders_simps [simp]:
  "leaders [] f = 0"
  "leaders (c # cs) f = leads f c + leaders cs f"
  "leaders (cs @ ds) f = leaders cs f + leaders ds f"
  by (auto simp: leaders_def split: Caller.split) (cases c; simp)+

lemma leads_le: "c \<in> set cs \<Longrightarrow> leads f c \<le> leaders cs f"
  by (induction cs) auto

lemma leaders_return: "i < length cs \<Longrightarrow> leaders (cs[i := Returned kind g r]) f = leaders cs f - leads f (cs ! i)"
proof (induction cs arbitrary: i)
  case (Cons c cs)
  then show ?case using leads_le [of "cs ! (i - 1)" cs f] by (cases i) simp_all
qed simp

lemma no_leader: "\<forall>c \<in> set cs. \<forall>kind client. c \<noteq> Leading kind f client \<Longrightarrow> leaders cs f = 0"
  by (auto simp: leaders_def filter_empty_conv)

lemma some_leader: "Leading kind f client \<in> set cs \<Longrightarrow> leaders cs f \<noteq> 0"
  by (auto simp: leaders_def filter_empty_conv)

lemma manager_invI:
  assumes "\<And>f. f < length (mg_flights m) \<Longrightarrow> flight_inv m f" "\<And>c. c \<in> set (mg_callers m) \<Longrightarrow> caller_inv m c"
    and "\<And>kind. current_inv m kind"
    and "\<And>k k' f. k \<noteq> k' \<Longrightarrow> mg_current m k = Some f \<Longrightarrow> mg_current m k' \<noteq> Some f"
    and "\<And>f. f \<in> set (mg_posted m) \<Longrightarrow> f < length (mg_flights m)"
    and "mg_client m \<in> mg_aborted m \<longleftrightarrow> mg_closed m" "\<And>c. c \<in> mg_aborted m \<Longrightarrow> c \<le> mg_client m"
  shows "manager_inv m"
  unfolding manager_inv_def by (intro conjI allI ballI impI) (fact assms)+

lemma manager_invD:
  assumes "manager_inv m"
  shows "f < length (mg_flights m) \<Longrightarrow> flight_inv m f" "c \<in> set (mg_callers m) \<Longrightarrow> caller_inv m c" "current_inv m kind"
    "k \<noteq> k' \<Longrightarrow> mg_current m k = Some g \<Longrightarrow> mg_current m k' \<noteq> Some g"
    "f \<in> set (mg_posted m) \<Longrightarrow> f < length (mg_flights m)"
    "mg_client m \<in> mg_aborted m \<longleftrightarrow> mg_closed m" "d \<in> mg_aborted m \<Longrightarrow> d \<le> mg_client m"
  using assms unfolding manager_inv_def by blast+

text \<open>A new caller that is not a leader changes nothing else.\<close>

lemma add_caller_inv:
  assumes "manager_inv m" "caller_inv m c" "\<And>kind f client. c \<noteq> Leading kind f client"
  shows "manager_inv (m\<lparr>mg_callers := mg_callers m @ [c]\<rparr>)"
proof (rule manager_invI, goal_cases)
  case (1 f)
  with manager_invD(1) [OF assms(1), of f] assms(3) show ?case
    by (cases c) (auto simp: flight_inv_def)
next
  case (2 c')
  with manager_invD(2) [OF assms(1), of c'] assms(2) show ?case
    by (auto simp: caller_inv_def split: Caller.splits option.splits)
next
  case (3 kind)
  with manager_invD(3) [OF assms(1)] show ?case by (simp add: current_inv_def)
qed (use manager_invD(4-7) [OF assms(1)] in auto)

lemma enter_inv:
  assumes "manager_inv m"
  shows "manager_inv (enter kind has_token_config m)"
proof -
  consider "kind = Challenge_flight \<and> mg_closed m" | "kind = Refresh_flight \<and> (\<not> has_token_config \<or> mg_closed m)"
    | f where "mg_current m kind = Some f" "\<not> mg_closed m" "kind = Refresh_flight \<longrightarrow> has_token_config"
    | "mg_current m kind = None" "\<not> mg_closed m" "kind = Refresh_flight \<longrightarrow> has_token_config"
    by (cases "mg_current m kind"; cases kind) auto
  then show ?thesis
  proof cases
    case 1
    then show ?thesis
      by (simp add: enter_def Let_def add_caller_inv [OF assms] caller_inv_def)
  next
    case 2
    then show ?thesis
      by (simp add: enter_def Let_def add_caller_inv [OF assms] caller_inv_def)
  next
    case (3 f)
    with manager_invD(3) [OF assms, of kind] have "caller_inv m (Waiting kind f)"
      by (simp add: caller_inv_def current_inv_def)
    from add_caller_inv [OF assms this] 3 show ?thesis by (auto simp: enter_def Let_def)
  next
    case 4
    let ?f = "length (mg_flights m)"
    let ?m = "m\<lparr>mg_flights := mg_flights m @ [new_flight], mg_current := (mg_current m)(kind := Some ?f),
      mg_callers := mg_callers m @ [Leading kind ?f (mg_client m)]\<rparr>"
    have nl: "leaders (mg_callers m) ?f = 0"
      by (rule no_leader) (use manager_invD(2) [OF assms] in \<open>fastforce simp: caller_inv_def\<close>)
    have posted: "?f \<notin> set (mg_posted m)" using manager_invD(5) [OF assms] by blast
    have "manager_inv ?m"
    proof (rule manager_invI, goal_cases)
      case (1 f)
      then show ?case
        using manager_invD(1) [OF assms, of f] nl posted
        by (cases "f = ?f") (simp_all add: flight_inv_def nth_append new_flight_def)
    next
      case (2 c)
      then consider "c \<in> set (mg_callers m)" | "c = Leading kind ?f (mg_client m)" by auto
      then show ?case
      proof cases
        case 1
        with manager_invD(2) [OF assms 1] 4 show ?thesis
          by (auto simp: caller_inv_def nth_append split: Caller.splits option.splits if_splits)
      next
        case 2
        then show ?thesis by (simp add: caller_inv_def new_flight_def)
      qed
    next
      case (3 k)
      with manager_invD(3) [OF assms, of k] 4 show ?case
        by (auto simp: current_inv_def nth_append new_flight_def)
    next
      case (4 k k' f)
      with manager_invD(4) [OF assms, of k k'] manager_invD(3) [OF assms] show ?case
        by (auto simp: current_inv_def split: if_splits)
    qed (use manager_invD(5-7) [OF assms] in \<open>auto simp: less_Suc_eq\<close>)
    with 4 show ?thesis by (auto simp: enter_def Let_def)
  qed
qed


lemma caller_inv_callers [simp]: "caller_inv (m\<lparr>mg_callers := cs\<rparr>) c = caller_inv m c"
  by (cases c) (simp_all add: caller_inv_def split: option.split)

lemma flight_update: "(\<And>fl. h (u fl) = h fl) \<Longrightarrow> h (fs[f := u (fs ! f)] ! g) = h (fs ! g)"
  by (cases "g = f"; cases "f < length fs") (simp_all add: list_update_beyond not_less)

lemma flight_updates [simp]:
  "fl_finished (fs[f := (fs ! f)\<lparr>fl_expired := b\<rparr>] ! g) = fl_finished (fs ! g)"
  "fl_cancelled (fs[f := (fs ! f)\<lparr>fl_expired := b\<rparr>] ! g) = fl_cancelled (fs ! g)"
  "fl_succeeded (fs[f := (fs ! f)\<lparr>fl_expired := b\<rparr>] ! g) = fl_succeeded (fs ! g)"
  "fl_failure (fs[f := (fs ! f)\<lparr>fl_expired := b\<rparr>] ! g) = fl_failure (fs ! g)"
  "fl_finished (fs[f := (fs ! f)\<lparr>fl_cancelled := b\<rparr>] ! g) = fl_finished (fs ! g)"
  "fl_expired (fs[f := (fs ! f)\<lparr>fl_cancelled := b\<rparr>] ! g) = fl_expired (fs ! g)"
  "fl_succeeded (fs[f := (fs ! f)\<lparr>fl_cancelled := b\<rparr>] ! g) = fl_succeeded (fs ! g)"
  "fl_failure (fs[f := (fs ! f)\<lparr>fl_cancelled := b\<rparr>] ! g) = fl_failure (fs ! g)"
  by (rule flight_update, simp)+

text \<open>What a flight's fields may change to, as far as the callers are concerned.\<close>

lemma caller_inv_mono:
  assumes "caller_inv m c" "\<And>kind f client. c \<noteq> Leading kind f client"
    and "length (mg_flights m) \<le> length (mg_flights m')" "mg_closed m \<longrightarrow> mg_closed m'"
    and "\<And>f. f < length (mg_flights m) \<Longrightarrow> fl_cancelled (mg_flights m ! f) \<Longrightarrow> fl_cancelled (mg_flights m' ! f)"
    and "\<And>f. f < length (mg_flights m) \<Longrightarrow> fl_finished (mg_flights m ! f) \<Longrightarrow> fl_finished (mg_flights m' ! f)
      \<and> fl_succeeded (mg_flights m' ! f) = fl_succeeded (mg_flights m ! f) \<and> fl_failure (mg_flights m' ! f) = fl_failure (mg_flights m ! f)"
    and "\<And>kind f. f < length (mg_flights m) \<Longrightarrow> mg_current m kind = Some f \<Longrightarrow>
      mg_current m' kind = Some f \<or> fl_finished (mg_flights m' ! f) \<or> fl_cancelled (mg_flights m' ! f)"
  shows "caller_inv m' c"
proof (cases c)
  case (Waiting kind f)
  with assms(1,3) assms(5) [of f] assms(6) [of f] assms(7) [of f kind] show ?thesis by (auto simp: caller_inv_def)
next
  case (Returned kind g r)
  show ?thesis
  proof (cases g)
    case (Some f)
    with Returned assms(1,3,4) assms(5) [of f] assms(6) [of f] show ?thesis by (auto simp: caller_inv_def)
  qed (use Returned assms(1) in \<open>simp add: caller_inv_def\<close>)
qed (use assms(2) in blast)

text \<open>What an operation that only ends flights keeps, for a caller that leads another flight.\<close>

lemma leader_inv_mono:
  assumes "caller_inv m (Leading kind f client)" "length (mg_flights m) \<le> length (mg_flights m')"
    and "if fl_cancelled (mg_flights m' ! f) then client \<in> mg_aborted m'
      else \<not> fl_cancelled (mg_flights m ! f) \<and> mg_current m' kind = mg_current m kind \<and> mg_client m' = mg_client m"
  shows "caller_inv m' (Leading kind f client)"
  using assms by (auto simp: caller_inv_def split: if_splits)

lemma expired_update:
  "f < length fs \<Longrightarrow> fl_expired (fs[f := (fs ! f)\<lparr>fl_expired := True\<rparr>] ! g) \<longleftrightarrow> g = f \<or> fl_expired (fs ! g)"
  by (cases "g = f") simp_all

lemma expiry_inv:
  assumes "manager_inv m" "f \<in> set (mg_posted m)"
  shows "manager_inv (run_expiry f m)"
proof (rule manager_invI, goal_cases)
  case (1 g)
  with manager_invD(1) [OF assms(1), of g] manager_invD(1) [OF assms(1), of f] manager_invD(5) [OF assms] assms(2) show ?case
    by (cases "g = f") (auto simp: flight_inv_def run_expiry_def Let_def dest: notin_set_remove1 in_set_remove1)
next
  case (2 c)
  then have c: "caller_inv m c" using manager_invD(2) [OF assms(1)] by (simp add: run_expiry_def)
  then show ?case by (cases c) (auto simp: caller_inv_def run_expiry_def split: option.splits)
next
  case (3 kind)
  have "f < length (mg_flights m)" by (rule manager_invD(5) [OF assms])
  note e = expired_update [OF this]
  show ?case
  proof (unfold current_inv_def, intro allI impI)
    fix g assume "mg_current (run_expiry f m) kind = Some g"
    with manager_invD(3) [OF assms(1), of kind] show "g < length (mg_flights (run_expiry f m))
        \<and> \<not> fl_finished (mg_flights (run_expiry f m) ! g) \<and> \<not> fl_cancelled (mg_flights (run_expiry f m) ! g)
        \<and> (mg_closed (run_expiry f m) \<longrightarrow> fl_expired (mg_flights (run_expiry f m) ! g) \<or> g \<in> set (mg_posted (run_expiry f m)))"
      by (cases "g = f") (auto simp: current_inv_def run_expiry_def e in_set_remove1)
  qed
next
  case (5 g)
  then show ?case using manager_invD(5) [OF assms(1), of g] by (auto simp: run_expiry_def dest: notin_set_remove1)
qed (use manager_invD(4,6,7) [OF assms(1)] in \<open>auto simp: run_expiry_def\<close>)

lemma return_caller_inv:
  assumes "manager_inv m" "i < length (mg_callers m)" "\<And>f. leads f (mg_callers m ! i) = 0" "caller_inv m (Returned kind g r)"
  shows "manager_inv (m\<lparr>mg_callers := (mg_callers m)[i := Returned kind g r]\<rparr>)"
proof (rule manager_invI, goal_cases)
  case (1 f)
  with manager_invD(1) [OF assms(1), of f] assms(2,3) show ?case by (simp add: flight_inv_def leaders_return)
next
  case (2 c)
  then have "c \<in> insert (Returned kind g r) (set (mg_callers m))"
    using set_update_subset_insert [of "mg_callers m" i] by auto
  then show ?case using manager_invD(2) [OF assms(1)] assms(4) by auto
next
  case (3 kind)
  with manager_invD(3) [OF assms(1), of kind] show ?case by (simp add: current_inv_def)
qed (use manager_invD(4-7) [OF assms(1)] in auto)

lemma wake_inv:
  assumes "manager_inv m" "i < length (mg_callers m)" "mg_callers m ! i = Waiting kind f" "fl_expired (mg_flights m ! f)"
  shows "manager_inv (wake i kind f m)"
proof -
  have c: "caller_inv m (Waiting kind f)" using manager_invD(2) [OF assms(1)] assms(2,3) by (metis nth_mem)
  then have f: "f < length (mg_flights m)" by (simp add: caller_inv_def)
  have "fl_finished (mg_flights m ! f) \<or> fl_cancelled (mg_flights m ! f) \<or> mg_closed m"
    using manager_invD(1) [OF assms(1) f] assms(4) by (auto simp: flight_inv_def Let_def)
  then have "caller_inv m (Returned kind (Some f) (awaited kind (mg_flights m ! f) (mg_closed m)))"
    using f by (cases kind) (auto simp: caller_inv_def awaited_def)
  from return_caller_inv [OF assms(1,2) _ this] assms(3) show ?thesis by (simp add: wake_def)
qed


lemma expire_flight_selects [simp]:
  "mg_flights (expire_flight g m) = mg_flights m" "mg_current (expire_flight g m) = mg_current m"
  "mg_client (expire_flight g m) = mg_client m" "mg_aborted (expire_flight g m) = mg_aborted m"
  "mg_closed (expire_flight g m) = mg_closed m" "mg_callers (expire_flight g m) = mg_callers m"
  "set (mg_posted (expire_flight g m)) = set (mg_posted m) \<union> set_option g"
  by (cases g; simp add: expire_flight_def)+

lemma close_selects:
  assumes "\<not> mg_closed m"
  shows "mg_flights (close_manager m) = mg_flights m" "mg_current (close_manager m) = mg_current m"
    "mg_client (close_manager m) = mg_client m" "mg_aborted (close_manager m) = insert (mg_client m) (mg_aborted m)"
    "mg_closed (close_manager m)" "mg_callers (close_manager m) = mg_callers m"
    "set (mg_posted (close_manager m)) =
       set (mg_posted m) \<union> set_option (mg_current m Challenge_flight) \<union> set_option (mg_current m Refresh_flight)"
  using assms by (simp_all add: close_manager_def)

lemma close_inv:
  assumes "manager_inv m"
  shows "manager_inv (close_manager m)"
proof (cases "mg_closed m")
  case True
  with assms show ?thesis by (simp add: close_manager_def)
next
  case False
  note sel [simp] = close_selects [OF False]
  have posted: "f \<in> set (mg_posted (close_manager m))" if "mg_current m kind = Some f" for kind f
    using that by (cases kind) auto
  show ?thesis
  proof (rule manager_invI, goal_cases)
    case (1 f)
    with manager_invD(1) [OF assms, of f] show ?case by (auto simp: flight_inv_def Let_def)
  next
    case (2 c)
    with manager_invD(2) [OF assms, of c] False show ?case
      by (auto simp: caller_inv_def split: Caller.splits option.splits if_splits)
  next
    case (3 kind)
    with manager_invD(3) [OF assms, of kind] posted show ?case
      by (auto simp: current_inv_def)
  next
    case (5 f)
    with manager_invD(5) [OF assms, of f] manager_invD(3) [OF assms] show ?case
      by (auto simp: current_inv_def)
  qed (use manager_invD(4,6,7) [OF assms] in auto)
qed

lemma finish_inv:
  assumes "manager_inv m" "i < length (mg_callers m)" "mg_callers m ! i = Leading kind f client"
  shows "manager_inv (finish i kind f succeeded failure m)"
proof -
  let ?m = "finish i kind f succeeded failure m"
  let ?fl = "(mg_flights m ! f)\<lparr>fl_succeeded := succeeded, fl_failure := failure, fl_finished := True\<rparr>"
  let ?r = "Returned kind (Some f) (outcome_of succeeded failure)"
  have sel [simp]: "mg_flights ?m = (mg_flights m)[f := ?fl]" "mg_client ?m = mg_client m" "mg_aborted ?m = mg_aborted m"
    "mg_closed ?m = mg_closed m" "mg_callers ?m = (mg_callers m)[i := ?r]" "set (mg_posted ?m) = insert f (set (mg_posted m))"
    "mg_current ?m = (if mg_current m kind = Some f then (mg_current m)(kind := None) else mg_current m)"
    by (simp_all add: finish_def Let_def)
  have c: "caller_inv m (Leading kind f client)" using manager_invD(2) [OF assms(1)] assms(2,3) by (metis nth_mem)
  then have f: "f < length (mg_flights m)" by (simp add: caller_inv_def)
  have lead: "Leading kind f client \<in> set (mg_callers m)" using assms(2,3) by (metis nth_mem)
  have unfinished: "\<not> fl_finished (mg_flights m ! f)" and one: "leaders (mg_callers m) f = 1"
    using manager_invD(1) [OF assms(1) f] some_leader [OF lead] by (auto simp: flight_inv_def Let_def split: if_splits)
  have rest: "leaders (mg_callers ?m) g = (if g = f then 0 else leaders (mg_callers m) g)" for g
    using assms(2,3) one by (simp add: leaders_return)
  show ?thesis
  proof (rule manager_invI, goal_cases)
    case (1 g)
    with manager_invD(1) [OF assms(1), of g] rest [of g] f show ?case
      by (cases "g = f") (auto simp: flight_inv_def Let_def)
  next
    case (2 d)
    have nl: "\<not> (\<exists>k c. d = Leading k f c)"
    proof
      assume "\<exists>k c. d = Leading k f c"
      with 2 have "leaders (mg_callers ?m) f \<noteq> 0" using some_leader by blast
      with rest [of f] show False by simp
    qed
    from 2 have "d = ?r \<or> d \<in> set (mg_callers m)"
      using set_update_subset_insert [of "mg_callers m" i ?r] by auto
    then show ?case
    proof
      assume "d = ?r"
      then show ?thesis using f by (simp add: caller_inv_def)
    next
      assume "d \<in> set (mg_callers m)"
      note d = manager_invD(2) [OF assms(1) this]
      show ?thesis
      proof (cases d)
        case (Leading k g c)
        with nl have "g \<noteq> f" by blast
        then show ?thesis using d Leading by (auto simp: caller_inv_def split: if_splits)
      next
        case (Waiting k g)
        then show ?thesis using d f by (cases "g = f") (auto simp: caller_inv_def)
      next
        case (Returned k g r)
        then show ?thesis using d f unfinished
          by (cases g) (auto simp: caller_inv_def nth_list_update)
      qed
    qed
  next
    case (3 k)
    with manager_invD(3) [OF assms(1), of k] manager_invD(4) [OF assms(1), of kind k f] c show ?case
      by (auto simp: current_inv_def caller_inv_def nth_list_update split: if_splits)
  next
    case (4 k k' g)
    with manager_invD(4) [OF assms(1), of k k' g] show ?case by (auto split: if_splits)
  next
    case (5 g)
    with manager_invD(5) [OF assms(1), of g] f show ?case by auto
  qed (use manager_invD(6,7) [OF assms(1)] in auto)
qed


lemma cancel_flight_selects [simp]:
  "mg_current (cancel_flight g m) = mg_current m"
  "mg_client (cancel_flight g m) = mg_client m" "mg_aborted (cancel_flight g m) = mg_aborted m"
  "mg_closed (cancel_flight g m) = mg_closed m" "mg_callers (cancel_flight g m) = mg_callers m"
  "mg_posted (cancel_flight g m) = mg_posted m" "length (mg_flights (cancel_flight g m)) = length (mg_flights m)"
  "fl_finished (mg_flights (cancel_flight g m) ! f) = fl_finished (mg_flights m ! f)"
  "fl_expired (mg_flights (cancel_flight g m) ! f) = fl_expired (mg_flights m ! f)"
  "fl_succeeded (mg_flights (cancel_flight g m) ! f) = fl_succeeded (mg_flights m ! f)"
  "fl_failure (mg_flights (cancel_flight g m) ! f) = fl_failure (mg_flights m ! f)"
  by (cases g; simp add: cancel_flight_def)+

lemma cancel_flight_cancelled:
  "\<forall>h. g = Some h \<longrightarrow> h < length (mg_flights m) \<Longrightarrow>
     fl_cancelled (mg_flights (cancel_flight g m) ! f) \<longleftrightarrow> g = Some f \<or> fl_cancelled (mg_flights m ! f)"
  by (cases g; cases "g = Some f") (auto simp: cancel_flight_def)

lemma cancel_inv:
  assumes "manager_inv m"
  shows "manager_inv (cancel_pending m)"
proof (cases "mg_closed m \<or> mg_current m Challenge_flight = None \<and> mg_current m Refresh_flight = None")
  case True
  with assms show ?thesis by (simp add: cancel_pending_def)
next
  case False
  let ?m = "cancel_pending m"
  have len: "\<forall>h. mg_current m kind = Some h \<longrightarrow> h < length (mg_flights m)" for kind
    using manager_invD(3) [OF assms, of kind] by (simp add: current_inv_def)
  have sel [simp]: "mg_current ?m = (\<lambda>kind. None)" "mg_client ?m = Suc (mg_client m)"
    "mg_aborted ?m = insert (mg_client m) (mg_aborted m)" "mg_closed ?m = mg_closed m" "mg_callers ?m = mg_callers m"
    "length (mg_flights ?m) = length (mg_flights m)"
    "set (mg_posted ?m) = set (mg_posted m) \<union> set_option (mg_current m Challenge_flight) \<union> set_option (mg_current m Refresh_flight)"
    "\<And>f. fl_finished (mg_flights ?m ! f) = fl_finished (mg_flights m ! f)"
    "\<And>f. fl_expired (mg_flights ?m ! f) = fl_expired (mg_flights m ! f)"
    "\<And>f. fl_succeeded (mg_flights ?m ! f) = fl_succeeded (mg_flights m ! f)"
    "\<And>f. fl_failure (mg_flights ?m ! f) = fl_failure (mg_flights m ! f)"
    using False by (auto simp: cancel_pending_def Let_def)
  have canc: "fl_cancelled (mg_flights ?m ! f) \<longleftrightarrow> fl_cancelled (mg_flights m ! f) \<or> (\<exists>kind. mg_current m kind = Some f)" for f
  proof -
    have "(\<exists>kind. mg_current m kind = Some f) \<longleftrightarrow> mg_current m Challenge_flight = Some f \<or> mg_current m Refresh_flight = Some f"
      by (metis FlightKind.exhaust)
    then show ?thesis
      using False len by (auto simp: cancel_pending_def Let_def cancel_flight_cancelled)
  qed
  have posted: "f \<in> set (mg_posted ?m)" if "mg_current m kind = Some f" for kind f
    using that by (cases kind) auto
  have open_m: "mg_client m \<notin> mg_aborted m" "\<not> mg_closed m" using False manager_invD(6) [OF assms] by auto
  show ?thesis
  proof (rule manager_invI, goal_cases)
    case (1 f)
    have f: "flight_inv m f" by (rule manager_invD(1) [OF assms]) (use 1 in simp)
    have "f \<notin> set (mg_posted m) \<and> \<not> fl_expired (mg_flights m ! f)" if "mg_current m kind = Some f" for kind
      using f manager_invD(3) [OF assms, of kind] that open_m by (auto simp: flight_inv_def current_inv_def Let_def)
    with f posted canc [of f] show ?case
      by (fastforce simp: flight_inv_def Let_def dest: manager_invD(3) [OF assms, unfolded current_inv_def, rule_format])
  next
    case (2 c)
    then have c: "caller_inv m c" using manager_invD(2) [OF assms] by simp
    then show ?case
      by (auto simp: caller_inv_def canc split: Caller.splits option.splits if_splits)
  next
    case (3 k)
    then show ?case by (simp add: current_inv_def)
  next
    case (5 f)
    with manager_invD(5) [OF assms, of f] len show ?case by auto
  next
    case (7 c)
    with manager_invD(7) [OF assms, of c] show ?case by auto
  qed (use open_m manager_invD(7) [OF assms, of "Suc (mg_client m)"] in auto)
qed

lemma manager_reachable_inv: "manager_reachable m \<Longrightarrow> manager_inv m"
proof (induction rule: manager_reachable.induct)
  case init
  then show ?case by (simp add: manager_inv_def new_manager_def current_inv_def)
next
  case (step m m')
  from step(2) show ?case
    by (rule manager_stepE) (use step.IH in \<open>auto intro: enter_inv finish_inv expiry_inv wake_inv close_inv cancel_inv\<close>)
qed


subsection \<open>Properties\<close>

lemma one_leader:
  "leaders cs f \<le> 1 \<Longrightarrow> i < length cs \<Longrightarrow> j < length cs \<Longrightarrow> leads f (cs ! i) = 1 \<Longrightarrow> leads f (cs ! j) = 1 \<Longrightarrow> i = j"
proof (induction cs arbitrary: i j)
  case (Cons c cs)
  have no: "leads f (cs ! k) = 0" if "leads f c = 1" "k < length cs" for k
    using Cons.prems(1) that leads_le [of "cs ! k" cs f] by simp
  show ?case
    using Cons.IH [of "i - 1" "j - 1"] Cons.prems no [of "i - 1"] no [of "j - 1"]
    by (cases i; cases j) auto
qed simp

text \<open>C29: Concurrent challenges authorize once, and concurrent refreshes exchange once: in every
  interleaving at most one caller of each kind is running a flight that has not been cancelled, it
  runs on the manager's current client, and every other running leader belongs to a cancelled flight
  and holds an aborted client; after \<open>close\<close> every leader's client is aborted.\<close>

theorem single_flight:
  assumes "manager_reachable m" "i < length (mg_callers m)" "j < length (mg_callers m)"
    and "mg_callers m ! i = Leading kind f client" "mg_callers m ! j = Leading kind g client'"
  shows "(\<not> fl_cancelled (mg_flights m ! f) \<and> \<not> fl_cancelled (mg_flights m ! g) \<longrightarrow> i = j)
    \<and> (if fl_cancelled (mg_flights m ! f) then client \<in> mg_aborted m else mg_current m kind = Some f \<and> client = mg_client m)
    \<and> (mg_closed m \<longrightarrow> client \<in> mg_aborted m)"
proof -
  note inv = manager_reachable_inv [OF assms(1)]
  have f: "caller_inv m (Leading kind f client)" and g: "caller_inv m (Leading kind g client')"
    using manager_invD(2) [OF inv] assms(2-5) by (metis nth_mem)+
  have "i = j" if "\<not> fl_cancelled (mg_flights m ! f)" "\<not> fl_cancelled (mg_flights m ! g)"
  proof -
    have "f = g" using f g that by (simp add: caller_inv_def)
    moreover have "leaders (mg_callers m) f \<le> 1"
      using manager_invD(1) [OF inv, of f] f by (simp add: caller_inv_def flight_inv_def Let_def)
    ultimately show ?thesis using one_leader [of "mg_callers m" f i j] assms(2-5) by simp
  qed
  then show ?thesis using f manager_invD(6) [OF inv] by (auto simp: caller_inv_def split: if_splits)
qed

text \<open>A caller reports the attempt it took part in: a caller that returned from a flight reports that
  flight's own result or exception, unless the flight was cancelled or the manager closed, in which
  case it says so (or, for a refresh, that no token was renewed); success is reported only for a
  flight that succeeded, and the error for a follower woken without an outcome never occurs.\<close>

theorem caller_reports_own_flight:
  assumes "manager_reachable m" "Returned kind (Some f) r \<in> set (mg_callers m)"
  shows "r \<noteq> Out_no_outcome
    \<and> (r = Out_value True \<longrightarrow> fl_finished (mg_flights m ! f) \<and> fl_succeeded (mg_flights m ! f) \<and> fl_failure (mg_flights m ! f) = None)
    \<and> (\<forall>e. r = Out_failure e \<longrightarrow> fl_finished (mg_flights m ! f) \<and> fl_failure (mg_flights m ! f) = Some e)
    \<and> (r = Out_value False \<longrightarrow> fl_finished (mg_flights m ! f) \<and> \<not> fl_succeeded (mg_flights m ! f)
         \<or> kind = Refresh_flight \<and> (fl_cancelled (mg_flights m ! f) \<or> mg_closed m))
    \<and> (r = Out_closed \<longrightarrow> mg_closed m) \<and> (r = Out_cancelled \<longrightarrow> kind = Challenge_flight \<and> fl_cancelled (mg_flights m ! f))"
proof -
  have "caller_inv m (Returned kind (Some f) r)"
    by (rule manager_invD(2) [OF manager_reachable_inv [OF assms(1)] assms(2)])
  then show ?thesis by (cases "fl_failure (mg_flights m ! f)") (auto simp: caller_inv_def outcome_of_def)
qed


definition two_callers :: Manager where
  "two_callers = enter Challenge_flight False (enter Challenge_flight False new_manager)"

lemma two_callers_reachable: "manager_reachable two_callers"
  unfolding two_callers_def by (intro manager_reachable.step [OF _ manager_step.enter] manager_reachable.init)

lemma two_callers_state:
  "mg_callers two_callers = [Leading Challenge_flight 0 0, Waiting Challenge_flight 0]" "mg_flights two_callers = [new_flight]"
  by (simp_all add: two_callers_def enter_def new_manager_def Let_def)

theorem single_flight_witness:
  "mg_callers two_callers ! 0 = Leading Challenge_flight 0 0 \<and> mg_current two_callers Challenge_flight = Some 0"
  using single_flight [OF two_callers_reachable, of 0 0 Challenge_flight 0 0 0 0]
  by (simp add: two_callers_state new_flight_def)


theorem caller_reports_own_flight_witness:
  "fl_failure (mg_flights (finish 0 Challenge_flight 0 False (Some ''denied'') two_callers) ! 0) = Some ''denied''"
proof -
  let ?m = "finish 0 Challenge_flight 0 False (Some ''denied'') two_callers"
  have "manager_reachable ?m"
    by (rule manager_reachable.step [OF two_callers_reachable manager_step.finish]) (simp_all add: two_callers_state)
  moreover have "Returned Challenge_flight (Some 0) (Out_failure ''denied'') \<in> set (mg_callers ?m)"
    by (simp add: finish_def Let_def two_callers_state outcome_of_def)
  ultimately show ?thesis using caller_reports_own_flight [of ?m Challenge_flight 0 "Out_failure ''denied''"] by blast
qed

end
