(* ===== verification/OAuthPending.thy ===== *)
theory OAuthPending
  imports JsonRpc
begin

text \<open>
  The requests an authenticated transport remembers so that it can send them again after a refresh
  (\<open>OAuthClientTransport::Impl\<close> in src/auth/oauth.cpp): a map from correlation key to the message
  sent, the order they were sent in, the bytes they retain and a generation that tells two
  requests with one key apart. Every operation runs under \<open>pending_mutex\<close>. Times are ticks of
  the steady clock. The map is an association list, whose keys the invariant shows to be distinct;
  a \<open>std::list\<close> iterator into the order is the key it points to, which occurs there once.
\<close>

record PendingRequest =
  pr_wire :: string
  pr_expires_at :: nat
  pr_retained_bytes :: nat
  pr_generation :: "64 word"

record TransportOptions =
  max_pending_requests :: nat
  max_pending_request_bytes :: nat
  pending_request_ttl :: int

record PendingStore =
  ps_options :: TransportOptions
  ps_requests :: "(string \<times> PendingRequest) list"
  ps_order :: "string list"
  ps_bytes :: nat
  ps_generation :: "64 word"
  ps_closed :: bool

definition empty_store :: "TransportOptions \<Rightarrow> PendingStore" where
  "empty_store options =
     \<lparr>ps_options = options, ps_requests = [], ps_order = [], ps_bytes = 0, ps_generation = 0, ps_closed = False\<rparr>"

subsection \<open>Operations\<close>

definition without :: "string \<Rightarrow> (string \<times> 'a) list \<Rightarrow> (string \<times> 'a) list" where
  "without key requests = filter (\<lambda>(k, r). k \<noteq> key) requests"

definition erase_pending_locked :: "string \<Rightarrow> PendingRequest \<Rightarrow> PendingStore \<Rightarrow> PendingStore" where
  "erase_pending_locked key r s =
     s\<lparr>ps_bytes := ps_bytes s - pr_retained_bytes r, ps_order := remove1 key (ps_order s),
       ps_requests := without key (ps_requests s)\<rparr>"

function prune_expired_locked :: "nat \<Rightarrow> PendingStore \<Rightarrow> PendingStore" where
  "prune_expired_locked now s =
     (case ps_order s of
        [] \<Rightarrow> s
      | key # order \<Rightarrow>
          (case map_of (ps_requests s) key of
             None \<Rightarrow> prune_expired_locked now (s\<lparr>ps_order := order\<rparr>)
           | Some r \<Rightarrow>
               if pr_expires_at r > now then s
               else prune_expired_locked now (erase_pending_locked key r s)))"
  by pat_completeness auto
termination
  by (relation "measure (\<lambda>(now, s). length (ps_order s))") (simp_all add: erase_pending_locked_def)

declare prune_expired_locked.simps [simp del]

definition evict_oldest_locked :: "PendingStore \<Rightarrow> PendingStore" where
  "evict_oldest_locked s =
     (case ps_order s of
        [] \<Rightarrow> s
      | key # order \<Rightarrow>
          (case map_of (ps_requests s) key of
             None \<Rightarrow> s\<lparr>ps_order := order\<rparr>
           | Some r \<Rightarrow> erase_pending_locked key r s))"

text \<open>The bytes an entry retains: the message and two copies of its key, if they fit.\<close>

definition retained_size :: "TransportOptions \<Rightarrow> string \<Rightarrow> string \<Rightarrow> nat option" where
  "retained_size options key wire =
     (let remaining = max_pending_request_bytes options in
      if length wire > remaining then None
      else let remaining = remaining - length wire in
        if length key > remaining then None
        else let remaining = remaining - length key in
          if length key > remaining then None
          else let remaining = remaining - length key in Some (max_pending_request_bytes options - remaining))"

text \<open>
  The eviction loop may run forever on a store that is not well formed, so it is a partial
  function; \<open>evict_loop_ends\<close> shows that it ends on every store the transport can be in.
\<close>

definition over_limit :: "nat \<Rightarrow> PendingStore \<Rightarrow> bool" where
  "over_limit bytes s \<longleftrightarrow> length (ps_requests s) \<ge> max_pending_requests (ps_options s)
     \<or> bytes > max_pending_request_bytes (ps_options s) - ps_bytes s"

partial_function (option) evict_loop :: "nat \<Rightarrow> PendingStore \<Rightarrow> PendingStore option" where
  "evict_loop bytes s = (if over_limit bytes s then evict_loop bytes (evict_oldest_locked s) else Some s)"

text \<open>The clock counts nanoseconds up to \<open>time_max\<close>; a time to live that would pass it is capped.\<close>

definition time_max :: nat where
  "time_max = 2 ^ 63 - 1"

definition expiry :: "TransportOptions \<Rightarrow> nat \<Rightarrow> nat" where
  "expiry options now =
     (let max_ttl = int ((time_max - now) div 1000000) in
      if pending_request_ttl options \<ge> max_ttl then time_max
      else now + nat (pending_request_ttl options) * 1000000)"

definition next_generation :: "64 word \<Rightarrow> 64 word" where
  "next_generation g = (let g' = g + 1 in if g' = 0 then g' + 1 else g')"

text \<open>\<open>remember_request\<close>: the new store, with the generation when the request is remembered.\<close>

definition erase_existing :: "string \<Rightarrow> PendingStore \<Rightarrow> PendingStore" where
  "erase_existing key s = (case map_of (ps_requests s) key of None \<Rightarrow> s | Some r \<Rightarrow> erase_pending_locked key r s)"

definition remember_request :: "nat \<Rightarrow> string \<Rightarrow> string \<Rightarrow> PendingStore \<Rightarrow> (PendingStore \<times> 64 word option) option" where
  "remember_request now key wire s =
     (let s = prune_expired_locked now s in
      if ps_closed s \<or> max_pending_requests (ps_options s) = 0 \<or> pending_request_ttl (ps_options s) \<le> 0 then Some (s, None)
      else (case retained_size (ps_options s) key wire of
              None \<Rightarrow> Some (s, None)
            | Some bytes \<Rightarrow>
                (case evict_loop bytes (erase_existing key s) of
                   None \<Rightarrow> None
                 | Some s \<Rightarrow>
                     let generation = next_generation (ps_generation s) in
                     Some (s\<lparr>ps_generation := generation, ps_order := ps_order s @ [key],
                             ps_requests := (key, \<lparr>pr_wire = wire, pr_expires_at = expiry (ps_options s) now,
                                                   pr_retained_bytes = bytes, pr_generation = generation\<rparr>) # ps_requests s,
                             ps_bytes := ps_bytes s + bytes\<rparr>, Some generation))))"

text \<open>\<open>erase_pending\<close>: only the entry this operation made.\<close>

definition erase_pending :: "string option \<Rightarrow> 64 word option \<Rightarrow> PendingStore \<Rightarrow> PendingStore" where
  "erase_pending request_key request_generation s =
     (case (request_key, request_generation) of
        (Some key, Some generation) \<Rightarrow>
          (case map_of (ps_requests s) key of
             Some r \<Rightarrow> if pr_generation r = generation then erase_pending_locked key r s else s
           | None \<Rightarrow> s)
      | _ \<Rightarrow> s)"

definition unauthorized_code :: int where
  "unauthorized_code = -32000"

text \<open>What \<open>take_retry_wire\<close> reads of a message: the key of a response, and whether it is a refusal.\<close>

definition response_key :: "'j JSONRPCMessage \<Rightarrow> (string \<times> bool) option" where
  "response_key m =
     (case m of
        Msg_result r \<Rightarrow> Some (correlation_key (rr_id r), False)
      | Msg_error r \<Rightarrow>
          (case re_id r of
             None \<Rightarrow> None
           | Some i \<Rightarrow> Some (correlation_key i, er_code (re_error r) = unauthorized_code))
      | _ \<Rightarrow> None)"

definition take_for_key :: "nat \<Rightarrow> string \<times> bool \<Rightarrow> PendingStore \<Rightarrow> PendingStore \<times> string option" where
  "take_for_key now k s =
     (case k of (key, unauthorized) \<Rightarrow>
        (let s = prune_expired_locked now s in
         case map_of (ps_requests s) key of
           None \<Rightarrow> (s, None)
         | Some r \<Rightarrow> (erase_pending_locked key r s, if unauthorized then Some (pr_wire r) else None)))"

definition take_retry_wire :: "nat \<Rightarrow> 'j JSONRPCMessage option \<Rightarrow> PendingStore \<Rightarrow> PendingStore \<times> string option" where
  "take_retry_wire now message s =
     (case message of
        None \<Rightarrow> (s, None)
      | Some m \<Rightarrow>
          (case response_key m of
             None \<Rightarrow> (s, None)
           | Some k \<Rightarrow> take_for_key now k s))"

text \<open>\<open>close\<close>: the store is emptied once, for good.\<close>

definition close_store :: "PendingStore \<Rightarrow> PendingStore" where
  "close_store s =
     (if ps_closed s then s
      else s\<lparr>ps_closed := True, ps_requests := [], ps_order := [], ps_bytes := 0\<rparr>)"

subsection \<open>The invariant\<close>

definition retained_bytes :: "(string \<times> PendingRequest) list \<Rightarrow> nat" where
  "retained_bytes requests = sum_list (map (\<lambda>(k, r). pr_retained_bytes r) requests)"

definition store_inv :: "PendingStore \<Rightarrow> bool" where
  "store_inv s \<longleftrightarrow>
     distinct (ps_order s) \<and> distinct (map fst (ps_requests s)) \<and> set (ps_order s) = fst ` set (ps_requests s)
   \<and> ps_bytes s = retained_bytes (ps_requests s)
   \<and> ps_bytes s \<le> max_pending_request_bytes (ps_options s)
   \<and> length (ps_requests s) \<le> max_pending_requests (ps_options s)
   \<and> (\<forall>(k, r) \<in> set (ps_requests s). pr_retained_bytes r = length (pr_wire r) + 2 * length k)
   \<and> (ps_closed s \<longrightarrow> ps_requests s = [])"

lemma without_simps [simp]:
  "without key [] = []"
  "without key ((k, r) # rs) = (if k = key then without key rs else (k, r) # without key rs)"
  by (simp_all add: without_def)

lemma fst_without: "fst ` set (without key rs) = fst ` set rs - {key}"
  by (force simp: without_def)

lemma set_without: "set (without key rs) = {(k, r). (k, r) \<in> set rs \<and> k \<noteq> key}"
  by (auto simp: without_def)

lemma distinct_without: "distinct (map fst rs) \<Longrightarrow> distinct (map fst (without key rs))"
  by (induction rs) (auto simp: set_without)

lemma length_without_le: "length (without key rs) \<le> length rs"
  by (simp add: without_def)

lemma map_of_without: "map_of (without key rs) k = (if k = key then None else map_of rs k)"
  by (induction rs) auto

lemma without_absent: "key \<notin> fst ` set rs \<Longrightarrow> without key rs = rs"
  by (induction rs) auto

lemma retained_bytes_without:
  "distinct (map fst rs) \<Longrightarrow> map_of rs key = Some r \<Longrightarrow>
     retained_bytes rs = pr_retained_bytes r + retained_bytes (without key rs)"
proof (induction rs)
  case (Cons m rs)
  obtain k r' where m: "m = (k, r')" by force
  show ?case
  proof (cases "k = key")
    case True
    then have "key \<notin> fst ` set rs" using Cons.prems m by (metis distinct.simps(2) fst_conv image_set list.simps(9))
    then show ?thesis using True Cons.prems m by (simp add: retained_bytes_def without_absent)
  next
    case False
    with Cons m show ?thesis by (simp add: retained_bytes_def)
  qed
qed simp

lemma erase_pending_locked_inv:
  assumes "store_inv s" "map_of (ps_requests s) key = Some r"
  shows "store_inv (erase_pending_locked key r s)"
proof -
  have d: "distinct (map fst (ps_requests s))" using assms(1) by (simp add: store_inv_def)
  note b = retained_bytes_without [OF d assms(2)]
  have len: "length (without key (ps_requests s)) \<le> max_pending_requests (ps_options s)"
    using assms(1) length_without_le [of key "ps_requests s"] by (simp add: store_inv_def)
  show ?thesis
    using assms(1) b len
    by (auto simp: store_inv_def erase_pending_locked_def fst_without distinct_without set_without)
qed

lemma erase_pending_locked_selects [simp]:
  "ps_options (erase_pending_locked key r s) = ps_options s"
  "ps_closed (erase_pending_locked key r s) = ps_closed s"
  "ps_generation (erase_pending_locked key r s) = ps_generation s"
  "ps_requests (erase_pending_locked key r s) = without key (ps_requests s)"
  "ps_order (erase_pending_locked key r s) = remove1 key (ps_order s)"
  by (simp_all add: erase_pending_locked_def)

lemma order_request: "store_inv s \<Longrightarrow> key \<in> set (ps_order s) \<Longrightarrow> \<exists>r. map_of (ps_requests s) key = Some r"
  by (metis map_of_eq_None_iff not_None_eq store_inv_def)

text \<open>
  What pruning leaves: the invariant and the options, and every request that has not expired and
  is not behind an expired one in the order.
\<close>

lemma prune_inv:
  "store_inv s \<Longrightarrow> store_inv (prune_expired_locked now s) \<and> ps_options (prune_expired_locked now s) = ps_options s
     \<and> ps_closed (prune_expired_locked now s) = ps_closed s
     \<and> ps_generation (prune_expired_locked now s) = ps_generation s
     \<and> (\<forall>k r. map_of (ps_requests (prune_expired_locked now s)) k = Some r \<longrightarrow> map_of (ps_requests s) k = Some r)
     \<and> (\<forall>k r. map_of (ps_requests s) k = Some r \<and> pr_expires_at r > now \<longrightarrow>
           map_of (ps_requests (prune_expired_locked now s)) k = Some r)"
proof (induction now s rule: prune_expired_locked.induct)
  case (1 now s)
  show ?case
  proof (cases "ps_order s")
    case Nil
    with "1.prems" show ?thesis by (simp add: prune_expired_locked.simps [of now s])
  next
    case (Cons key order)
    then obtain r where r: "map_of (ps_requests s) key = Some r" using order_request [OF "1.prems", of key] by auto
    show ?thesis
    proof (cases "pr_expires_at r > now")
      case True
      with Cons r "1.prems" show ?thesis by (simp add: prune_expired_locked.simps [of now s])
    next
      case False
      have e: "prune_expired_locked now s = prune_expired_locked now (erase_pending_locked key r s)"
        using Cons r False by (simp add: prune_expired_locked.simps [of now s])
      define p where "p = prune_expired_locked now (erase_pending_locked key r s)"
      have ih: "store_inv p" "ps_options p = ps_options s" "ps_closed p = ps_closed s" "ps_generation p = ps_generation s"
        "\<And>k q. map_of (ps_requests p) k = Some q \<Longrightarrow> map_of (without key (ps_requests s)) k = Some q"
        "\<And>k q. map_of (without key (ps_requests s)) k = Some q \<Longrightarrow> pr_expires_at q > now \<Longrightarrow> map_of (ps_requests p) k = Some q"
        using "1.IH"(2) [OF Cons r False erase_pending_locked_inv [OF "1.prems" r], folded p_def,
            unfolded erase_pending_locked_selects] by blast+
      have "map_of (ps_requests s) k = Some q" if "map_of (ps_requests p) k = Some q" for k q
        using ih(5) [OF that] by (simp add: map_of_without split: if_splits)
      moreover have "map_of (ps_requests p) k = Some q" if "map_of (ps_requests s) k = Some q" "pr_expires_at q > now" for k q
      proof -
        have "k \<noteq> key" using that False r by auto
        then have "map_of (without key (ps_requests s)) k = Some q" using that(1) by (simp only: map_of_without if_False)
        with ih(6) that(2) show ?thesis by blast
      qed
      ultimately show ?thesis unfolding e p_def [symmetric] using ih(1-4) by blast
    qed
  qed
qed

lemma evict_oldest:
  assumes "store_inv s" "ps_order s = key # order"
  shows "store_inv (evict_oldest_locked s) \<and> ps_options (evict_oldest_locked s) = ps_options s
    \<and> ps_closed (evict_oldest_locked s) = ps_closed s \<and> ps_generation (evict_oldest_locked s) = ps_generation s
    \<and> ps_order (evict_oldest_locked s) = order
    \<and> ps_requests (evict_oldest_locked s) = without key (ps_requests s)"
proof -
  obtain r where r: "map_of (ps_requests s) key = Some r" using order_request [OF assms(1), of key] assms(2) by auto
  with assms erase_pending_locked_inv [OF assms(1) r] show ?thesis by (simp add: evict_oldest_locked_def)
qed

lemma not_over_limit_empty:
  "store_inv s \<Longrightarrow> ps_order s = [] \<Longrightarrow> bytes \<le> max_pending_request_bytes (ps_options s) \<Longrightarrow>
     0 < max_pending_requests (ps_options s) \<Longrightarrow> \<not> over_limit bytes s"
  by (simp add: store_inv_def over_limit_def retained_bytes_def)

text \<open>The loop ends, evicting the oldest requests first and only while there is no room.\<close>

lemma evict_loop_ends:
  assumes "store_inv s" "bytes \<le> max_pending_request_bytes (ps_options s)" "0 < max_pending_requests (ps_options s)"
  shows "\<exists>s' n. evict_loop bytes s = Some s' \<and> store_inv s' \<and> \<not> over_limit bytes s' \<and> ps_options s' = ps_options s
    \<and> ps_closed s' = ps_closed s \<and> ps_generation s' = ps_generation s \<and> ps_order s' = drop n (ps_order s)
    \<and> (\<forall>k. map_of (ps_requests s') k = (if k \<in> set (drop n (ps_order s)) then map_of (ps_requests s) k else None))"
  using assms
proof (induction "length (ps_order s)" arbitrary: s)
  case 0
  then have "\<not> over_limit bytes s" using not_over_limit_empty by simp
  moreover have "map_of (ps_requests s) k = None" if "k \<notin> set (ps_order s)" for k
    using 0(2) that by (simp add: store_inv_def map_of_eq_None_iff)
  ultimately show ?case
    using 0 by (intro exI [of _ s] exI [of _ 0]) (auto simp: evict_loop.simps [of bytes s])
next
  case (Suc n)
  show ?case
  proof (cases "over_limit bytes s")
    case False
    have "map_of (ps_requests s) k = None" if "k \<notin> set (ps_order s)" for k
      using Suc.prems(1) that by (simp add: store_inv_def map_of_eq_None_iff)
    with False Suc.prems show ?thesis
      by (intro exI [of _ s] exI [of _ 0]) (auto simp: evict_loop.simps [of bytes s])
  next
    case True
    obtain key order where o: "ps_order s = key # order" using Suc(2) by (cases "ps_order s") auto
    note e = evict_oldest [OF Suc.prems(1) o]
    have kd: "key \<notin> set order" using Suc.prems(1) o by (simp add: store_inv_def)
    have "n = length (ps_order (evict_oldest_locked s))" using e o Suc(2) by simp
    from Suc(1) [OF this] e Suc.prems obtain s' m where s': "evict_loop bytes (evict_oldest_locked s) = Some s'"
      "store_inv s'" "\<not> over_limit bytes s'" "ps_options s' = ps_options s" "ps_closed s' = ps_closed s"
      "ps_generation s' = ps_generation s" "ps_order s' = drop m order"
      "\<forall>k. map_of (ps_requests s') k = (if k \<in> set (drop m order) then map_of (without key (ps_requests s)) k else None)"
      by auto
    have "map_of (ps_requests s') k = (if k \<in> set (drop (Suc m) (ps_order s)) then map_of (ps_requests s) k else None)" for k
      using s'(8) o kd by (auto simp: map_of_without dest: in_set_dropD)
    with s' True o show ?thesis
      by (intro exI [of _ s'] exI [of _ "Suc m"]) (simp add: evict_loop.simps [of bytes s])
  qed
qed

lemma retained_size_eq:
  "retained_size options key wire =
     (if length wire + 2 * length key \<le> max_pending_request_bytes options then Some (length wire + 2 * length key) else None)"
  by (auto simp: retained_size_def Let_def)

lemma erase_existing_inv:
  "store_inv s \<Longrightarrow> store_inv (erase_existing key s) \<and> ps_options (erase_existing key s) = ps_options s
     \<and> ps_closed (erase_existing key s) = ps_closed s \<and> ps_generation (erase_existing key s) = ps_generation s
     \<and> key \<notin> fst ` set (ps_requests (erase_existing key s))"
  by (cases "map_of (ps_requests s) key")
    (auto simp: erase_existing_def erase_pending_locked_inv fst_without map_of_eq_None_iff split: option.splits)

lemma next_generation_nonzero: "next_generation g \<noteq> 0"
  by (simp add: next_generation_def Let_def)

lemma remember_request_cases:
  assumes "store_inv s"
  obtains s1 where "store_inv s1" "ps_options s1 = ps_options s" "remember_request now key wire s = Some (s1, None)"
    | s1 bytes where "store_inv s1" "\<not> ps_closed s1" "ps_options s1 = ps_options s" "ps_generation s1 = ps_generation s"
      "key \<notin> fst ` set (ps_requests s1)" "\<not> over_limit bytes s1" "bytes = length wire + 2 * length key"
      "bytes \<le> max_pending_request_bytes (ps_options s)"
      "remember_request now key wire s = Some
         (s1\<lparr>ps_generation := next_generation (ps_generation s), ps_order := ps_order s1 @ [key],
             ps_requests := (key, \<lparr>pr_wire = wire, pr_expires_at = expiry (ps_options s) now,
                                   pr_retained_bytes = bytes, pr_generation = next_generation (ps_generation s)\<rparr>) # ps_requests s1,
             ps_bytes := ps_bytes s1 + bytes\<rparr>, Some (next_generation (ps_generation s)))"
proof -
  let ?p = "prune_expired_locked now s"
  note p = prune_inv [OF assms, of now]
  show thesis
  proof (cases "ps_closed ?p \<or> max_pending_requests (ps_options ?p) = 0 \<or> pending_request_ttl (ps_options ?p) \<le> 0
      \<or> retained_size (ps_options ?p) key wire = None")
    case True
    then have "remember_request now key wire s = Some (?p, None)" by (auto simp: remember_request_def Let_def)
    with that(1) p show thesis by blast
  next
    case False
    then obtain bytes where b: "retained_size (ps_options ?p) key wire = Some bytes" by auto
    let ?e = "erase_existing key ?p"
    note e = erase_existing_inv [of ?p key]
    have bytes: "bytes = length wire + 2 * length key" "bytes \<le> max_pending_request_bytes (ps_options ?e)"
      using b e p by (auto simp: retained_size_eq split: if_splits)
    have "0 < max_pending_requests (ps_options ?e)" using False e p by auto
    from evict_loop_ends [OF _ bytes(2) this] e p obtain s1 n where s1: "evict_loop bytes ?e = Some s1" "store_inv s1"
      "\<not> over_limit bytes s1" "ps_options s1 = ps_options s" "ps_closed s1 = ps_closed s" "ps_generation s1 = ps_generation s"
      "\<forall>k. map_of (ps_requests s1) k = (if k \<in> set (drop n (ps_order ?e)) then map_of (ps_requests ?e) k else None)"
      by auto
    have "map_of (ps_requests ?e) key = None" using e p by (simp add: map_of_eq_None_iff)
    then have "map_of (ps_requests s1) key = None" using s1(7) by simp
    then have k: "key \<notin> fst ` set (ps_requests s1)" by (simp add: map_of_eq_None_iff)
    have r: "remember_request now key wire s = Some
         (s1\<lparr>ps_generation := next_generation (ps_generation s), ps_order := ps_order s1 @ [key],
             ps_requests := (key, \<lparr>pr_wire = wire, pr_expires_at = expiry (ps_options s) now,
                                   pr_retained_bytes = bytes, pr_generation = next_generation (ps_generation s)\<rparr>) # ps_requests s1,
             ps_bytes := ps_bytes s1 + bytes\<rparr>, Some (next_generation (ps_generation s)))"
      using False b s1(1,4,6) by (simp add: remember_request_def Let_def)
    show thesis
      by (rule that(2) [OF s1(2) _ s1(4) s1(6) k s1(3) bytes(1) _ r]) (use False s1 bytes e p in auto)
  qed
qed

lemma over_limit_room:
  assumes "store_inv s" "\<not> over_limit bytes s" "bytes = length wire + 2 * length key"
    and "bytes \<le> max_pending_request_bytes (ps_options s)" "\<not> ps_closed s" "key \<notin> fst ` set (ps_requests s)"
  shows "store_inv (s\<lparr>ps_generation := g, ps_order := ps_order s @ [key],
      ps_requests := (key, \<lparr>pr_wire = wire, pr_expires_at = t, pr_retained_bytes = bytes, pr_generation = g\<rparr>) # ps_requests s,
      ps_bytes := ps_bytes s + bytes\<rparr>)"
  using assms by (auto simp: store_inv_def over_limit_def retained_bytes_def)

lemma take_retry_wire_split:
  "take_retry_wire now message s =
     (case Option.bind message response_key of None \<Rightarrow> (s, None) | Some k \<Rightarrow> take_for_key now k s)"
  by (cases message) (simp_all add: take_retry_wire_def)

subsection \<open>Properties\<close>

text \<open>The states of a transport's store: every sequence of its operations.\<close>

inductive pending_reachable :: "PendingStore \<Rightarrow> bool" where
  start: "pending_reachable (empty_store options)"
| remember: "pending_reachable s \<Longrightarrow> remember_request now key wire s = Some (s', g) \<Longrightarrow> pending_reachable s'"
| erase: "pending_reachable s \<Longrightarrow> pending_reachable (erase_pending key g s)"
| take: "pending_reachable s \<Longrightarrow> pending_reachable (fst (take_for_key now k s))"
| close: "pending_reachable s \<Longrightarrow> pending_reachable (close_store s)"

lemma pending_reachable_inv: "pending_reachable s \<Longrightarrow> store_inv s"
proof (induction rule: pending_reachable.induct)
  case (start options)
  then show ?case by (simp add: store_inv_def empty_store_def retained_bytes_def)
next
  case (remember s now key wire s' g)
  show ?case
  proof (rule remember_request_cases [OF remember.IH, of now key wire])
    fix s1 assume "store_inv s1" "remember_request now key wire s = Some (s1, None)"
    with remember.hyps show ?thesis by simp
  next
    fix s1 bytes
    assume a: "store_inv s1" "\<not> ps_closed s1" "ps_options s1 = ps_options s" "key \<notin> fst ` set (ps_requests s1)"
      "\<not> over_limit bytes s1" "bytes = length wire + 2 * length key" "bytes \<le> max_pending_request_bytes (ps_options s)"
      and r: "remember_request now key wire s = Some
         (s1\<lparr>ps_generation := next_generation (ps_generation s), ps_order := ps_order s1 @ [key],
             ps_requests := (key, \<lparr>pr_wire = wire, pr_expires_at = expiry (ps_options s) now,
                                   pr_retained_bytes = bytes, pr_generation = next_generation (ps_generation s)\<rparr>) # ps_requests s1,
             ps_bytes := ps_bytes s1 + bytes\<rparr>, Some (next_generation (ps_generation s)))"
    from over_limit_room [OF a(1) a(5) a(6) _ a(2) a(4)] a(3) a(7) r remember.hyps(2) show ?thesis by auto
  qed
next
  case (erase s key g)
  then show ?case by (auto simp: erase_pending_def erase_pending_locked_inv split: option.splits)
next
  case (take s now k)
  from prune_inv [OF take.IH, of now] have "store_inv (prune_expired_locked now s)" by blast
  then show ?case
    by (cases k; cases "map_of (ps_requests (prune_expired_locked now s)) (fst k)")
      (simp_all add: take_for_key_def Let_def erase_pending_locked_inv)
next
  case (close s)
  then show ?case by (auto simp: close_store_def store_inv_def retained_bytes_def)
qed

text \<open>C32: The memory of a transport stays within its limits and its counters exact: in every state the
  number of remembered requests and the bytes they retain are at most the configured limits, the
  byte counter is the sum over the entries, each entry counts its message and two copies of its
  key, the eviction order lists every key once, and a closed transport remembers nothing.\<close>

theorem pending_store_bounded:
  assumes "pending_reachable s"
  shows "length (ps_requests s) \<le> max_pending_requests (ps_options s)
    \<and> ps_bytes s \<le> max_pending_request_bytes (ps_options s)
    \<and> ps_bytes s = sum_list (map (\<lambda>(key, r). length (pr_wire r) + 2 * length key) (ps_requests s))
    \<and> distinct (ps_order s) \<and> set (ps_order s) = fst ` set (ps_requests s)
    \<and> (ps_closed s \<longrightarrow> ps_requests s = [])"
proof -
  note inv = pending_reachable_inv [OF assms]
  have "retained_bytes (ps_requests s) = sum_list (map (\<lambda>(key, r). length (pr_wire r) + 2 * length key) (ps_requests s))"
    unfolding retained_bytes_def
    by (rule arg_cong [where f = sum_list], rule map_cong) (use inv in \<open>auto simp: store_inv_def\<close>)
  with inv show ?thesis by (simp add: store_inv_def)
qed

text \<open>Remembering a request always ends: the eviction loop stops on every state of the store, and
  the request is remembered, under a generation that is never zero, exactly when the transport is
  open, the limits are not zero, the time to live is positive and the message fits.\<close>

theorem remember_request_ends:
  assumes "pending_reachable s"
  shows "\<exists>s' generation. remember_request now key wire s = Some (s', generation)
    \<and> (generation \<noteq> None \<longleftrightarrow>
         \<not> ps_closed s \<and> max_pending_requests (ps_options s) \<noteq> 0 \<and> pending_request_ttl (ps_options s) > 0
         \<and> length wire + 2 * length key \<le> max_pending_request_bytes (ps_options s))
    \<and> generation \<noteq> Some 0"
proof -
  note inv = pending_reachable_inv [OF assms]
  note p = prune_inv [OF inv, of now]
  have none: "ps_closed s \<or> max_pending_requests (ps_options s) = 0 \<or> pending_request_ttl (ps_options s) \<le> 0
      \<or> \<not> length wire + 2 * length key \<le> max_pending_request_bytes (ps_options s)"
    if "remember_request now key wire s = Some (s1, None)" for s1
    using that p by (auto simp: remember_request_def Let_def retained_size_eq split: if_splits option.splits)
  have some: "\<not> ps_closed s \<and> max_pending_requests (ps_options s) \<noteq> 0 \<and> pending_request_ttl (ps_options s) > 0
      \<and> length wire + 2 * length key \<le> max_pending_request_bytes (ps_options s)"
    if "remember_request now key wire s = Some (s1, Some g)" for s1 g
    using that p by (auto simp: remember_request_def Let_def retained_size_eq split: if_splits option.splits)
  show ?thesis
  proof (rule remember_request_cases [OF inv, of now key wire])
    fix s1 assume "remember_request now key wire s = Some (s1, None)"
    with none show ?thesis by force
  next
    fix s1 bytes
    assume "remember_request now key wire s = Some
         (s1\<lparr>ps_generation := next_generation (ps_generation s), ps_order := ps_order s1 @ [key],
             ps_requests := (key, \<lparr>pr_wire = wire, pr_expires_at = expiry (ps_options s) now,
                                   pr_retained_bytes = bytes, pr_generation = next_generation (ps_generation s)\<rparr>) # ps_requests s1,
             ps_bytes := ps_bytes s1 + bytes\<rparr>, Some (next_generation (ps_generation s)))"
    from some [OF this] this next_generation_nonzero [of "ps_generation s"] show ?thesis by auto
  qed
qed


definition sample_options :: TransportOptions where
  "sample_options = \<lparr>max_pending_requests = 1, max_pending_request_bytes = 100, pending_request_ttl = 1000\<rparr>"

definition sample_store :: PendingStore where
  "sample_store =
     \<lparr>ps_options = sample_options,
      ps_requests = [(''s:1'', \<lparr>pr_wire = ''hi'', pr_expires_at = 1000000005, pr_retained_bytes = 8, pr_generation = 1\<rparr>)],
      ps_order = [''s:1''], ps_bytes = 8, ps_generation = 1, ps_closed = False\<rparr>"

lemma sample_remembered: "remember_request 5 ''s:1'' ''hi'' (empty_store sample_options) = Some (sample_store, Some 1)"
  by (simp add: remember_request_def prune_expired_locked.simps empty_store_def sample_options_def retained_size_def
      erase_existing_def evict_loop.simps over_limit_def next_generation_def expiry_def time_max_def sample_store_def)

lemma sample_reachable: "pending_reachable sample_store"
  using pending_reachable.remember [OF pending_reachable.start sample_remembered] .

theorem pending_store_bounded_witness:
  "length (ps_requests sample_store) \<le> 1 \<and> ps_bytes sample_store = 8"
  using pending_store_bounded [OF sample_reachable] by (simp add: sample_store_def sample_options_def)

theorem remember_request_ends_witness:
  "\<exists>s' generation. remember_request 7 ''s:2'' ''again'' sample_store = Some (s', generation) \<and> generation \<noteq> None"
  using remember_request_ends [OF sample_reachable, of 7 "''s:2''" "''again''"]
  by (auto simp: sample_store_def sample_options_def)

lemma take_forgotten:
  assumes "store_inv s" "map_of (ps_requests s) key = None"
  shows "snd (take_for_key now (key, unauthorized) s) = None"
proof -
  have "map_of (ps_requests (prune_expired_locked now s)) key = None"
    using prune_inv [OF assms(1), of now] assms(2) by (metis not_None_eq)
  then show ?thesis by (simp add: take_for_key_def Let_def)
qed

lemma take_remembered:
  assumes "store_inv s" "map_of (ps_requests s) key = Some r" "now < pr_expires_at r"
  shows "snd (take_for_key now (key, unauthorized) s) = (if unauthorized then Some (pr_wire r) else None)
    \<and> store_inv (fst (take_for_key now (key, unauthorized) s))
    \<and> map_of (ps_requests (fst (take_for_key now (key, unauthorized) s))) key = None"
proof -
  have "map_of (ps_requests (prune_expired_locked now s)) key = Some r" "store_inv (prune_expired_locked now s)"
    using prune_inv [OF assms(1), of now] assms(2,3) by blast+
  then show ?thesis by (simp add: take_for_key_def Let_def erase_pending_locked_inv map_of_without)
qed

lemma remembered_entry:
  assumes "store_inv s" "remember_request now key wire s = Some (s', Some g)"
  shows "\<exists>r. map_of (ps_requests s') key = Some r \<and> pr_wire r = wire \<and> pr_generation r = g
    \<and> pr_expires_at r = expiry (ps_options s) now"
  by (rule remember_request_cases [OF assms(1), of now key wire]) (use assms(2) in auto)

text \<open>A refused request is sent again exactly as it was written, and once: after a request has been
  remembered, the first answer with its key takes its entry away, giving the message back when the
  answer is the unauthorized error and nothing otherwise, and no later answer finds it again. A
  write that failed only removes the entry it made itself, never the one of a later request with
  the same key.\<close>

theorem refused_request_replayed_once:
  assumes "pending_reachable s" "remember_request now key wire s = Some (s', Some g)"
    and "now' < expiry (ps_options s) now" "response_key answer = Some (key, unauthorized)"
  shows "snd (take_retry_wire now' (Some answer) s') = (if unauthorized then Some wire else None)
    \<and> (response_key later = Some (key, u) \<longrightarrow>
         snd (take_retry_wire now'' (Some later) (fst (take_retry_wire now' (Some answer) s'))) = None)
    \<and> (g' \<noteq> g \<longrightarrow> erase_pending (Some key) (Some g') s' = s')
    \<and> map_of (ps_requests (erase_pending (Some key) (Some g) s')) key = None"
proof -
  note reach = pending_reachable.remember [OF assms(1,2)]
  obtain r where r: "map_of (ps_requests s') key = Some r" "pr_wire r = wire" "pr_generation r = g"
    "pr_expires_at r = expiry (ps_options s) now"
    using remembered_entry [OF pending_reachable_inv [OF assms(1)] assms(2)] by blast
  note t = take_remembered [OF pending_reachable_inv [OF reach] r(1), of now' unauthorized]
  have e: "take_retry_wire now' (Some answer) s' = take_for_key now' (key, unauthorized) s'"
    using assms(4) by (simp add: take_retry_wire_def)
  have "snd (take_retry_wire now'' (Some later) (fst (take_retry_wire now' (Some answer) s'))) = None"
    if "response_key later = Some (key, u)"
    using take_forgotten [of "fst (take_for_key now' (key, unauthorized) s')" key now'' u] t r assms(3) that
    unfolding e by (simp add: take_retry_wire_def)
  then show ?thesis using t r assms(3) unfolding e by (auto simp: erase_pending_def map_of_without)
qed

definition sample_refusal :: "bool \<Rightarrow> unit JSONRPCMessage" where
  "sample_refusal unauthorized =
     (if unauthorized
      then Msg_error \<lparr>re_error = \<lparr>er_code = unauthorized_code, er_message = ''expired'', er_data = None\<rparr>, re_jsonrpc = ''2.0'',
                      re_id = Some (Id_string ''1'')\<rparr>
      else Msg_result \<lparr>rr_id = Id_string ''1'', rr_jsonrpc = ''2.0'', rr_result = ()\<rparr>)"

theorem refused_request_replayed_once_witness:
  "snd (take_retry_wire 6 (Some (sample_refusal True)) sample_store) = Some ''hi''"
proof -
  have "response_key (sample_refusal True) = Some (''s:1'', True)"
    by (simp add: response_key_def sample_refusal_def correlation_key_def)
  from refused_request_replayed_once [OF pending_reachable.start sample_remembered _ this, of 6]
  show ?thesis by (auto simp: expiry_def time_max_def sample_options_def empty_store_def)
qed

end
