(* ===== verification/JsonScan.thy ===== *)
theory JsonScan
  imports Prelude
begin

text \<open>
  The two scanners that read JSON text without building a tree: the nesting check on documents from
  a peer (src/detail/peer_json.hpp) and the envelope scan that routes a serialized message
  (src/detail/jsonrpc_envelope.hpp). A position is the text from it on, \<open>npos\<close> is \<open>None\<close>. Both
  are proved against a grammar of JSON text, \<open>render\<close>: compact text, as \<open>dump\<close> writes it.
\<close>

subsection \<open>The nesting check\<close>

definition max_peer_json_depth :: nat where
  "max_peer_json_depth = 128"

fun depth_scan :: "nat \<Rightarrow> string \<Rightarrow> nat \<Rightarrow> bool \<Rightarrow> bool \<Rightarrow> bool" where
  "depth_scan max_depth [] depth in_string escaped = False"
| "depth_scan max_depth (c # s) depth in_string escaped =
     (if in_string then
        (if escaped then depth_scan max_depth s depth True False
         else if c = CHR 0x5C then depth_scan max_depth s depth True True
         else if c = CHR 0x22 then depth_scan max_depth s depth False escaped
         else depth_scan max_depth s depth True escaped)
      else if c = CHR 0x22 then depth_scan max_depth s depth True escaped
      else if c = CHR ''['' \<or> c = CHR ''{'' then
        (if depth + 1 > max_depth then True else depth_scan max_depth s (depth + 1) in_string escaped)
      else if c = CHR '']'' \<or> c = CHR ''}'' then
        depth_scan max_depth s (if depth > 0 then depth - 1 else depth) in_string escaped
      else depth_scan max_depth s depth in_string escaped)"

definition exceeds_json_depth :: "string \<Rightarrow> nat \<Rightarrow> bool" where
  "exceeds_json_depth text max_depth = depth_scan max_depth text 0 False False"

text \<open>\<open>parse_peer_json\<close>, over the library's parser; \<open>None\<close> is a discarded value.\<close>

definition parse_peer_json :: "(string \<Rightarrow> 'j option) \<Rightarrow> string \<Rightarrow> 'j option" where
  "parse_peer_json parse_json text =
     (if exceeds_json_depth text max_peer_json_depth then None else parse_json text)"

subsection \<open>The envelope scan\<close>

record JsonRpcEnvelope =
  env_id :: string
  env_has_result_or_error :: bool

definition is_json_space :: "char \<Rightarrow> bool" where
  "is_json_space c \<longleftrightarrow> c = CHR '' '' \<or> c = CHR 0x09 \<or> c = CHR 0x0A \<or> c = CHR 0x0D"

definition skip_json_whitespace :: "string \<Rightarrow> string" where
  "skip_json_whitespace text = dropWhile is_json_space text"

text \<open>\<open>skip_json_string\<close>, from after the opening quote.\<close>

fun skip_json_string :: "string \<Rightarrow> string option" where
  "skip_json_string [] = None"
| "skip_json_string (c # s) =
     (if c = CHR 0x5C then (case s of [] \<Rightarrow> None | d # s' \<Rightarrow> skip_json_string s')
      else if c = CHR 0x22 then Some s
      else skip_json_string s)"

lemma skip_json_string_shorter: "skip_json_string s = Some r \<Longrightarrow> length r < length s"
proof (induction s rule: skip_json_string.induct)
  case (2 c s)
  then show ?case by (force split: if_splits list.splits)
qed simp

definition ends_scalar :: "char \<Rightarrow> bool" where
  "ends_scalar c \<longleftrightarrow> c = CHR '','' \<or> c = CHR ''}'' \<or> c = CHR '']'' \<or> is_json_space c"

function skip_nested :: "nat \<Rightarrow> string \<Rightarrow> string option" where
  "skip_nested depth [] = None"
| "skip_nested depth (c # s) =
     (if c = CHR 0x22 then (case skip_json_string s of None \<Rightarrow> None | Some s' \<Rightarrow> skip_nested depth s')
      else if c = CHR ''{'' \<or> c = CHR ''['' then skip_nested (depth + 1) s
      else if c = CHR ''}'' \<or> c = CHR '']'' then
        (if depth - 1 = 0 then Some s else skip_nested (depth - 1) s)
      else skip_nested depth s)"
  by pat_completeness auto
termination
  by (relation "measure (\<lambda>(depth, s). length s)") (auto dest: skip_json_string_shorter)

definition skip_json_value :: "string \<Rightarrow> string option" where
  "skip_json_value text =
     (case text of
        [] \<Rightarrow> None
      | c # s \<Rightarrow>
          if c = CHR 0x22 then skip_json_string s
          else if c \<noteq> CHR ''{'' \<and> c \<noteq> CHR ''['' then Some (dropWhile (\<lambda>x. \<not> ends_scalar x) text)
          else skip_nested 0 text)"

lemma skip_nested_shorter: "skip_nested depth s = Some r \<Longrightarrow> length r < length s"
  by (induction depth s rule: skip_nested.induct)
    (force split: if_splits option.splits dest: skip_json_string_shorter)+

lemma skip_json_value_le: "skip_json_value s = Some r \<Longrightarrow> length r \<le> length s"
  using length_dropWhile_le [of "\<lambda>x. \<not> ends_scalar x" s]
  by (auto simp: skip_json_value_def dest: skip_json_string_shorter skip_nested_shorter split: list.splits if_splits)

lemma skip_json_whitespace_le: "length (skip_json_whitespace s) \<le> length s"
  by (simp add: skip_json_whitespace_def length_dropWhile_le)

text \<open>The text between two positions.\<close>

definition between :: "string \<Rightarrow> string \<Rightarrow> string" where
  "between text after = take (length text - length after) text"

text \<open>The loop over the members, from where a key must start.\<close>

function scan_members :: "string \<Rightarrow> JsonRpcEnvelope \<Rightarrow> JsonRpcEnvelope option" where
  "scan_members text envelope =
     (if text = [] \<or> hd text \<noteq> CHR 0x22 then None
      else (case skip_json_string (tl text) of
          None \<Rightarrow> None
        | Some after_key \<Rightarrow>
            let key = take (length text - length after_key - 2) (tl text) in
            if CHR 0x5C \<in> set key then None
            else let colon = skip_json_whitespace after_key in
              if colon = [] \<or> hd colon \<noteq> CHR '':'' then None
              else let val = skip_json_whitespace (tl colon) in
                (case skip_json_value val of
                   None \<Rightarrow> None
                 | Some after_value \<Rightarrow>
                     if length after_value = length val then None
                     else let envelope' = (if key = ''id'' then envelope\<lparr>env_id := between val after_value\<rparr>
                                           else if key = ''result'' \<or> key = ''error'' then
                                             envelope\<lparr>env_has_result_or_error := True\<rparr>
                                           else envelope);
                              next' = skip_json_whitespace after_value
                          in if next' = [] then None
                             else if hd next' = CHR ''}'' then Some envelope'
                             else if hd next' \<noteq> CHR '','' then None
                             else scan_members (skip_json_whitespace (tl next')) envelope')))"
  by pat_completeness auto
termination
proof (relation "measure (\<lambda>(text, envelope). length text)", goal_cases)
  case (2 t envelope after_key key colon val after_value envelope' next')
  have "length after_key < length (tl t)" using 2(2) by (rule skip_json_string_shorter)
  moreover have "length colon \<le> length after_key" unfolding 2(5) by (rule skip_json_whitespace_le)
  moreover have "length val \<le> length (tl colon)" unfolding 2(7) by (rule skip_json_whitespace_le)
  moreover have "length after_value \<le> length val" using 2(8) by (rule skip_json_value_le)
  moreover have "length next' \<le> length after_value" unfolding 2(11) by (rule skip_json_whitespace_le)
  ultimately show ?case using skip_json_whitespace_le [of "tl next'"] by simp
qed simp

declare scan_members.simps [simp del]

definition scan_jsonrpc_envelope :: "string \<Rightarrow> JsonRpcEnvelope option" where
  "scan_jsonrpc_envelope text =
     (let start = skip_json_whitespace text; envelope = \<lparr>env_id = [], env_has_result_or_error = False\<rparr> in
      if start = [] \<or> hd start \<noteq> CHR ''{'' then None
      else let first = skip_json_whitespace (tl start) in
        if first \<noteq> [] \<and> hd first = CHR ''}'' then Some envelope else scan_members first envelope)"

subsection \<open>JSON text\<close>

text \<open>
  Compact JSON text: a scalar other than a string as its letters, a string as what stands between
  its quotes, arrays and objects.
\<close>

datatype jtext = Scalar string | Quoted string | Array "jtext list" | Object "(string \<times> jtext) list"

definition quoted :: "string \<Rightarrow> string" where
  "quoted s = [CHR 0x22] @ s @ [CHR 0x22]"

fun separated :: "string list \<Rightarrow> string" where
  "separated [] = []"
| "separated [x] = x"
| "separated (x # y # xs) = x @ '','' @ separated (y # xs)"

fun render :: "jtext \<Rightarrow> string" where
  "render (Scalar s) = s"
| "render (Quoted s) = quoted s"
| "render (Array xs) = ''['' @ separated (map render xs) @ '']''"
| "render (Object ms) = ''{'' @ separated (map (\<lambda>(k, v). quoted k @ '':'' @ render v) ms) @ ''}''"

text \<open>Well-formed content of a string: an escape is followed by a character, and no quote stands alone.\<close>

fun string_body :: "string \<Rightarrow> bool" where
  "string_body [] = True"
| "string_body (c # s) =
     (if c = CHR 0x5C then (case s of [] \<Rightarrow> False | d # s' \<Rightarrow> string_body s') else c \<noteq> CHR 0x22 \<and> string_body s)"

definition scalar_char :: "char \<Rightarrow> bool" where
  "scalar_char c \<longleftrightarrow> \<not> ends_scalar c \<and> c \<noteq> CHR 0x22 \<and> c \<noteq> CHR ''{'' \<and> c \<noteq> CHR ''[''"

fun well_formed :: "jtext \<Rightarrow> bool" where
  "well_formed (Scalar s) \<longleftrightarrow> s \<noteq> [] \<and> (\<forall>c \<in> set s. scalar_char c)"
| "well_formed (Quoted s) \<longleftrightarrow> string_body s"
| "well_formed (Array xs) \<longleftrightarrow> (\<forall>x \<in> set xs. well_formed x)"
| "well_formed (Object ms) \<longleftrightarrow> (\<forall>(k, v) \<in> set ms. string_body k \<and> well_formed v)"

text \<open>How deeply arrays and objects nest.\<close>

fun nesting :: "jtext \<Rightarrow> nat" where
  "nesting (Scalar s) = 0"
| "nesting (Quoted s) = 0"
| "nesting (Array xs) = Suc (foldr max (map nesting xs) 0)"
| "nesting (Object ms) = Suc (foldr max (map (\<lambda>(k, v). nesting v) ms) 0)"

lemma skip_json_string_body: "string_body s \<Longrightarrow> skip_json_string (s @ CHR 0x22 # t) = Some t"
proof (induction s rule: string_body.induct)
  case (2 c s)
  then show ?case by (cases "c = CHR 0x5C"; cases s) simp_all
qed simp

lemma depth_scan_string:
  "string_body s \<Longrightarrow> depth_scan m (s @ CHR 0x22 # t) d True False = depth_scan m t d False False"
proof (induction s rule: string_body.induct)
  case (2 c s)
  then show ?case by (cases "c = CHR 0x5C"; cases s) simp_all
qed simp

lemma depth_scan_quoted:
  "string_body s \<Longrightarrow> depth_scan m (quoted s @ t) d False False = depth_scan m t d False False"
  using depth_scan_string [of s m t d] by (simp add: quoted_def)

lemma scalar_char_plain:
  "scalar_char c \<Longrightarrow> c \<noteq> CHR '']'' \<and> c \<noteq> CHR ''}'' \<and> c \<noteq> CHR 0x22 \<and> c \<noteq> CHR ''{'' \<and> c \<noteq> CHR ''['' \<and> \<not> ends_scalar c"
  by (auto simp: scalar_char_def ends_scalar_def)

lemma depth_scan_scalar:
  "\<forall>c \<in> set s. scalar_char c \<Longrightarrow> depth_scan m (s @ t) d False False = depth_scan m t d False False"
proof (induction s)
  case (Cons c s)
  then show ?case using scalar_char_plain [of c] by simp
qed simp

text \<open>A separated list is scanned element by element.\<close>

lemma scan_separated:
  assumes "\<And>x t. x \<in> set xs \<Longrightarrow> f (x @ t) = f t" and comma: "\<And>t. f (CHR '','' # t) = f t"
  shows "f (separated xs @ t) = f t"
  using assms(1)
proof (induction xs rule: separated.induct)
  case (3 x y xs)
  have "f (separated (x # y # xs) @ t) = f (x @ CHR '','' # separated (y # xs) @ t)" by simp
  also have "\<dots> = f (CHR '','' # separated (y # xs) @ t)" by (rule "3.prems") simp
  also have "\<dots> = f (separated (y # xs) @ t)" by (rule comma)
  also have "\<dots> = f t" by (rule "3.IH") (rule "3.prems", simp)
  finally show ?case .
qed simp_all

lemma depth_scan_separated:
  assumes "\<And>i t. i < length xs \<Longrightarrow> depth_scan m (xs ! i @ t) d False False = (ns ! i + d > m \<or> depth_scan m t d False False)"
    and "length ns = length xs" and "d \<le> m"
  shows "depth_scan m (separated xs @ t) d False False = (foldr max ns 0 + d > m \<or> depth_scan m t d False False)"
  using assms
proof (induction xs arbitrary: ns rule: separated.induct)
  case 1
  then show ?case by simp
next
  case (2 x)
  then obtain n where "ns = [n]" by (auto simp: length_Suc_conv)
  with "2.prems"(1) [of 0] show ?case by simp
next
  case (3 x y xs)
  then obtain n ns' where ns: "ns = n # ns'" "length ns' = length (y # xs)" by (auto simp: length_Suc_conv)
  have "depth_scan m (separated (y # xs) @ t) d False False = (foldr max ns' 0 + d > m \<or> depth_scan m t d False False)"
  proof (rule "3.IH")
    fix i t assume "i < length (y # xs)"
    with "3.prems"(1) [of "Suc i"] ns show "depth_scan m ((y # xs) ! i @ t) d False False = (ns' ! i + d > m \<or> depth_scan m t d False False)"
      by simp
  qed (use ns "3.prems" in auto)
  with "3.prems"(1) [of 0 "'','' @ separated (y # xs) @ t"] ns(1) show ?case by auto
qed

lemma depth_scan_render:
  "well_formed j \<Longrightarrow> d \<le> m \<Longrightarrow> depth_scan m (render j @ t) d False False = (nesting j + d > m \<or> depth_scan m t d False False)"
proof (induction j arbitrary: d t)
  case (Scalar s)
  then show ?case using depth_scan_scalar by simp
next
  case (Quoted s)
  then show ?case using depth_scan_quoted by simp
next
  case (Array xs)
  show ?case
  proof (cases "d + 1 > m")
    case False
    have e: "depth_scan m (map render xs ! i @ t') (d + 1) False False = (map nesting xs ! i + (d + 1) > m \<or> depth_scan m t' (d + 1) False False)"
      if "i < length (map render xs)" for i t'
      using that Array.IH [of "xs ! i" "d + 1" t'] Array.prems False by simp
    from depth_scan_separated [of "map render xs" m "d + 1" "map nesting xs" "CHR '']'' # t"] e False
    show ?thesis by (simp del: foldr_map)
  qed simp
next
  case (Object ms)
  show ?case
  proof (cases "d + 1 > m")
    case False
    let ?r = "\<lambda>(k, v). quoted k @ '':'' @ render v"
    have e: "depth_scan m (map ?r ms ! i @ t') (d + 1) False False = (map (\<lambda>(k, v). nesting v) ms ! i + (d + 1) > m \<or> depth_scan m t' (d + 1) False False)"
      if "i < length (map ?r ms)" for i t'
    proof -
      obtain k v where kv: "ms ! i = (k, v)" by force
      then have "(k, v) \<in> set ms" using that by (metis length_map nth_mem)
      then show ?thesis
        using that kv Object.IH [of "(k, v)" v "d + 1" t'] Object.prems False depth_scan_quoted [of k m "'':'' @ render v @ t'"]
        by auto
    qed
    from depth_scan_separated [of "map ?r ms" m "d + 1" "map (\<lambda>(k, v). nesting v) ms" "CHR ''}'' # t"] e False
    show ?thesis by (simp del: foldr_map)
  qed simp
qed



subsection \<open>The envelope of a serialized object\<close>

lemma skip_nested_quoted: "string_body s \<Longrightarrow> skip_nested d (quoted s @ t) = skip_nested d t"
  using skip_json_string_body [of s t] by (simp add: quoted_def)

lemma skip_nested_scalar: "\<forall>c \<in> set s. scalar_char c \<Longrightarrow> skip_nested d (s @ t) = skip_nested d t"
proof (induction s)
  case (Cons c s)
  then show ?case using scalar_char_plain [of c] by simp
qed simp

lemma skip_nested_render: "well_formed j \<Longrightarrow> d > 0 \<Longrightarrow> skip_nested d (render j @ t) = skip_nested d t"
proof (induction j arbitrary: d t)
  case (Scalar s)
  then show ?case by (simp add: skip_nested_scalar)
next
  case (Quoted s)
  then show ?case by (simp add: skip_nested_quoted)
next
  case (Array xs)
  have "skip_nested (d + 1) (separated (map render xs) @ CHR '']'' # t) = skip_nested (d + 1) (CHR '']'' # t)"
    by (rule scan_separated) (use Array in auto)
  with Array.prems show ?case by simp
next
  case (Object ms)
  have "skip_nested (d + 1) (separated (map (\<lambda>(k, v). quoted k @ '':'' @ render v) ms) @ CHR ''}'' # t)
      = skip_nested (d + 1) (CHR ''}'' # t)"
  proof (rule scan_separated)
    fix x t' assume "x \<in> set (map (\<lambda>(k, v). quoted k @ '':'' @ render v) ms)"
    then obtain k v where kv: "(k, v) \<in> set ms" "x = quoted k @ '':'' @ render v" by auto
    then have "string_body k" "well_formed v" using Object.prems by auto
    then show "skip_nested (d + 1) (x @ t') = skip_nested (d + 1) t'"
      using Object.IH [OF kv(1), of v "d + 1" t'] kv(2) skip_nested_quoted [of k "d + 1" "'':'' @ render v @ t'"] by simp
  qed simp
  with Object.prems show ?case by simp
qed

lemma skip_json_value_render:
  assumes "well_formed j" "t \<noteq> []" "ends_scalar (hd t)"
  shows "skip_json_value (render j @ t) = Some t"
proof (cases j)
  case (Scalar s)
  then have s: "s \<noteq> []" "\<forall>c \<in> set s. scalar_char c" using assms(1) by auto
  then have h: "scalar_char (hd s)" by simp
  have "dropWhile (\<lambda>x. \<not> ends_scalar x) (s @ t) = dropWhile (\<lambda>x. \<not> ends_scalar x) t"
    by (rule dropWhile_append2) (use s(2) in \<open>simp add: scalar_char_def\<close>)
  moreover have "dropWhile (\<lambda>x. \<not> ends_scalar x) t = t"
    using assms(2,3) by (cases t) simp_all
  ultimately have d: "dropWhile (\<lambda>x. \<not> ends_scalar x) (s @ t) = t" by simp
  obtain c s' where cs: "s = c # s'" using s(1) by (cases s) auto
  with h have "c \<noteq> CHR 0x22" "c \<noteq> CHR ''{''" "c \<noteq> CHR ''[''" by (auto simp: scalar_char_def)
  with cs d show ?thesis by (simp add: Scalar skip_json_value_def)
next
  case (Quoted s)
  then show ?thesis using assms skip_json_string_body [of s t] by (simp add: skip_json_value_def quoted_def)
next
  case (Array xs)
  have "skip_nested 1 (separated (map render xs) @ CHR '']'' # t) = skip_nested 1 (CHR '']'' # t)"
    by (rule scan_separated) (use Array assms skip_nested_render in auto)
  then show ?thesis by (simp add: Array skip_json_value_def)
next
  case (Object ms)
  have "skip_nested 1 (separated (map (\<lambda>(k, v). quoted k @ '':'' @ render v) ms) @ CHR ''}'' # t) = skip_nested 1 (CHR ''}'' # t)"
  proof (rule scan_separated)
    fix x t' assume "x \<in> set (map (\<lambda>(k, v). quoted k @ '':'' @ render v) ms)"
    then obtain k v where kv: "(k, v) \<in> set ms" "x = quoted k @ '':'' @ render v" by auto
    then have "string_body k" "well_formed v" using Object assms(1) by auto
    then show "skip_nested 1 (x @ t') = skip_nested 1 t'"
      using skip_nested_render [of v 1 t'] kv(2) skip_nested_quoted [of k 1 "'':'' @ render v @ t'"] by simp
  qed simp
  then show ?thesis by (simp add: Object skip_json_value_def)
qed

lemma render_start: "well_formed j \<Longrightarrow> render j \<noteq> [] \<and> \<not> is_json_space (hd (render j))"
proof (cases j)
  case (Scalar s)
  assume "well_formed j"
  with Scalar have "s \<noteq> []" "scalar_char (hd s)" by auto
  with Scalar scalar_char_plain [of "hd s"] show ?thesis by (auto simp: ends_scalar_def)
qed (auto simp: quoted_def is_json_space_def)

lemma no_space: "s \<noteq> [] \<Longrightarrow> \<not> is_json_space (hd s) \<Longrightarrow> skip_json_whitespace s = s"
  by (cases s) (auto simp: skip_json_whitespace_def)

definition envelope_member :: "JsonRpcEnvelope \<Rightarrow> string \<times> jtext \<Rightarrow> JsonRpcEnvelope" where
  "envelope_member e m = (case m of (k, v) \<Rightarrow>
     if k = ''id'' then e\<lparr>env_id := render v\<rparr>
     else if k = ''result'' \<or> k = ''error'' then e\<lparr>env_has_result_or_error := True\<rparr> else e)"

lemma scan_one_member:
  assumes k: "string_body k" "CHR 0x5C \<notin> set k" and v: "well_formed v" and t: "t \<noteq> []" "hd t \<in> {CHR '','', CHR ''}''}"
  shows "scan_members (quoted k @ '':'' @ render v @ t) e =
    (if hd t = CHR ''}'' then Some (envelope_member e (k, v))
     else scan_members (skip_json_whitespace (tl t)) (envelope_member e (k, v)))"
proof -
  let ?text = "quoted k @ '':'' @ render v @ t"
  have sk: "skip_json_string (tl ?text) = Some ('':'' @ render v @ t)"
    using skip_json_string_body [OF k(1), of "'':'' @ render v @ t"] by (simp add: quoted_def)
  have key: "take (length ?text - length ('':'' @ render v @ t) - 2) (tl ?text) = k"
    by (simp add: quoted_def)
  have colon: "skip_json_whitespace ('':'' @ render v @ t) = '':'' @ render v @ t"
    by (rule no_space) (simp_all add: is_json_space_def)
  have rs: "render v \<noteq> []" "\<not> is_json_space (hd (render v))" using render_start [OF v] by auto
  have val: "skip_json_whitespace (tl ('':'' @ render v @ t)) = render v @ t"
    using rs by (simp add: no_space)
  have es: "ends_scalar (hd t)" using t by (auto simp: ends_scalar_def)
  note sv = skip_json_value_render [OF v t(1) es]
  have nt: "skip_json_whitespace t = t" using t by (intro no_space) (auto simp: is_json_space_def)
  have bt: "between (render v @ t) t = render v" by (simp add: between_def)
  have h: "(?text = [] \<or> hd ?text \<noteq> CHR 0x22) = False"
    "('':'' @ render v @ t = [] \<or> hd ('':'' @ render v @ t) \<noteq> CHR '':'') = False"
    "(length t = length (render v @ t)) = False" "(t = []) = False"
    "(CHR 0x5C \<in> set k) = False"
    using rs(1) t(1) k(2) by (auto simp: quoted_def)
  have env: "(if k = ''id'' then e\<lparr>env_id := render v\<rparr>
      else if k = ''result'' \<or> k = ''error'' then e\<lparr>env_has_result_or_error := True\<rparr> else e) = envelope_member e (k, v)"
    by (simp only: envelope_member_def prod.case)
  have "scan_members ?text e =
      (if hd t = CHR ''}'' then Some (envelope_member e (k, v))
       else if hd t \<noteq> CHR '','' then None
       else scan_members (skip_json_whitespace (tl t)) (envelope_member e (k, v)))"
    unfolding scan_members.simps [of ?text e] h(1) if_False sk option.case Let_def key h(5) colon h(2) val sv h(3) bt env nt h(4)
    by (rule refl)
  with t(2) show ?thesis by (cases "hd t = CHR ''}''") simp_all
qed

lemma scan_members_rendered:
  assumes "ms \<noteq> []" "\<forall>(k, v) \<in> set ms. string_body k \<and> CHR 0x5C \<notin> set k \<and> well_formed v"
  shows "scan_members (separated (map (\<lambda>(k, v). quoted k @ '':'' @ render v) ms) @ CHR ''}'' # t) e
    = Some (foldl envelope_member e ms)"
  using assms
proof (induction ms arbitrary: e)
  case (Cons m ms)
  obtain k v where m: "m = (k, v)" by force
  have ok: "string_body k" "CHR 0x5C \<notin> set k" "well_formed v" using Cons.prems m by auto
  show ?case
  proof (cases ms)
    case Nil
    then show ?thesis using scan_one_member [OF ok, of "CHR ''}'' # t" e] m by simp
  next
    case (Cons n ns)
    let ?rest = "separated (map (\<lambda>(k, v). quoted k @ '':'' @ render v) ms) @ CHR ''}'' # t"
    have "hd ?rest = CHR 0x22" "?rest \<noteq> []"
      using Cons by (cases n; cases ns; simp add: quoted_def)+
    then have ns: "skip_json_whitespace ?rest = ?rest" by (intro no_space) (simp_all add: is_json_space_def)
    have "scan_members (quoted k @ '':'' @ render v @ CHR '','' # ?rest) e = scan_members ?rest (envelope_member e (k, v))"
      using scan_one_member [OF ok, of "CHR '','' # ?rest" e] ns by simp
    also have "\<dots> = Some (foldl envelope_member (envelope_member e (k, v)) ms)"
      using Cons Cons.prems by (intro Cons.IH) auto
    finally show ?thesis using Cons m by simp
  qed
qed simp

lemma foldl_envelope:
  "env_id (foldl envelope_member e ms) = (case map_of (rev ms) ''id'' of None \<Rightarrow> env_id e | Some v \<Rightarrow> render v)
   \<and> env_has_result_or_error (foldl envelope_member e ms)
      = (env_has_result_or_error e \<or> (\<exists>(k, v) \<in> set ms. k = ''result'' \<or> k = ''error''))"
proof (induction ms rule: rev_induct)
  case (snoc m ms)
  then show ?case by (cases m) (auto simp: envelope_member_def)
qed simp

text \<open>The envelope scan agrees with a full parse: on a serialized object whose member names need no
  escape, followed by anything, it finds the text of the last \<open>id\<close> member (none when there is
  none) and reports whether a \<open>result\<close> or an \<open>error\<close> is present, whatever strings, arrays and
  objects the other members hold.\<close>

theorem envelope_scan_exact:
  assumes "\<forall>(k, v) \<in> set ms. string_body k \<and> CHR 0x5C \<notin> set k \<and> well_formed v"
  shows "scan_jsonrpc_envelope (render (Object ms) @ t) =
    Some \<lparr>env_id = (case map_of (rev ms) ''id'' of None \<Rightarrow> [] | Some v \<Rightarrow> render v),
          env_has_result_or_error = (\<exists>(k, v) \<in> set ms. k = ''result'' \<or> k = ''error'')\<rparr>"
proof (cases "ms = []")
  case True
  then show ?thesis
    by (simp add: scan_jsonrpc_envelope_def skip_json_whitespace_def is_json_space_def)
next
  case False
  let ?e = "\<lparr>env_id = [], env_has_result_or_error = False\<rparr>"
  let ?body = "separated (map (\<lambda>(k, v). quoted k @ '':'' @ render v) ms) @ CHR ''}'' # t"
  have hb: "?body \<noteq> []" "hd ?body = CHR 0x22"
    using False by (cases ms; cases "tl ms"; auto simp: quoted_def)+
  have ns: "skip_json_whitespace ?body = ?body" using hb by (intro no_space) (simp_all add: is_json_space_def)
  have st: "skip_json_whitespace (CHR ''{'' # ?body) = CHR ''{'' # ?body"
    by (rule no_space) (simp_all add: is_json_space_def)
  have r: "render (Object ms) @ t = CHR ''{'' # ?body" by simp
  have "scan_jsonrpc_envelope (render (Object ms) @ t) = scan_members ?body ?e"
    unfolding scan_jsonrpc_envelope_def r st Let_def using hb by (simp only: list.sel ns) simp
  also have "\<dots> = Some (foldl envelope_member ?e ms)" by (rule scan_members_rendered [OF False assms])
  finally have f: "scan_jsonrpc_envelope (render (Object ms) @ t) = Some (foldl envelope_member ?e ms)" .
  define E where "E = foldl envelope_member ?e ms"
  have "env_id E = (case map_of (rev ms) ''id'' of None \<Rightarrow> [] | Some v \<Rightarrow> render v)"
    "env_has_result_or_error E = (\<exists>(k, v) \<in> set ms. k = ''result'' \<or> k = ''error'')"
    using foldl_envelope [of ?e ms] by (simp_all add: E_def cong: option.case_cong)
  then show ?thesis unfolding f E_def [symmetric] by (cases E) simp
qed

lemma envelope_scan_exact_witness:
  "map_option env_id (scan_jsonrpc_envelope (render (Object [(''jsonrpc'', Quoted ''2.0''), (''id'', Scalar ''7''),
      (''params'', Object [(''id'', Scalar ''8'')])]))) = Some ''7''"
proof -
  let ?ms = "[(''jsonrpc'', Quoted ''2.0''), (''id'', Scalar ''7''), (''params'', Object [(''id'', Scalar ''8'')])]"
  have "\<forall>(k, v) \<in> set ?ms. string_body k \<and> CHR 0x5C \<notin> set k \<and> well_formed v"
    by (simp add: scalar_char_def ends_scalar_def is_json_space_def)
  from envelope_scan_exact [OF this, of "[]"] show ?thesis by (simp del: render.simps) simp
qed

end
