(* ===== verification/OAuthTransport.thy ===== *)
theory OAuthTransport
  imports OAuthPending Challenge JsonScan
begin

text \<open>
  Writing and reading through an authenticated transport (\<open>OAuthClientTransport::Impl\<close> in
  src/auth/oauth.cpp): the token injected into a request, the retry loop that renews or obtains a
  token when the server refuses a message, and the answer that has a refused request sent again.
  What the wrapped transport and the authenticator answer, and whether \<open>close\<close> has been seen at
  each check, is the environment of the loop: one \<open>Round\<close> per pass.
\<close>

subsection \<open>Preparing a message\<close>

text \<open>
  \<open>params["_meta"]["auth_token"] = token\<close>: assigning a member turns a null into an object and
  throws on any other value that is not an object.
\<close>

definition index_put :: "'j JsonApi \<Rightarrow> 'j \<Rightarrow> string \<Rightarrow> 'j \<Rightarrow> DecodeError + 'j" where
  "index_put api j k v =
     (if j_is_null api j then Inr (j_put api (j_empty_object api) k v)
      else if j_is_object api j then Inr (j_put api j k v)
      else Inl (Json_error ''cannot use operator[] with a string argument''))"

definition inject_token :: "'j JsonApi \<Rightarrow> string \<Rightarrow> 'j JSONRPCRequest \<Rightarrow> DecodeError + string" where
  "inject_token api token request =
     (if token = '''' then Inr (j_dump api (request_to_json api request))
      else
        (let params = (case rq_params request of None \<Rightarrow> j_empty_object api | Some p \<Rightarrow> p);
             params = (if j_is_object api params then params else j_empty_object api);
             meta = (case j_find api params ''_meta'' of None \<Rightarrow> j_empty_object api | Some m \<Rightarrow> m) in
         bindE (index_put api meta ''auth_token'' (j_of_string api token)) (\<lambda>meta.
           Inr (j_dump api (request_to_json api (request\<lparr>rq_params := Some (j_put api params ''_meta'' meta)\<rparr>))))))"

record WriteOperation =
  wo_original :: string
  wo_outgoing :: string
  wo_request_key :: "string option"
  wo_generation :: "64 word option"
  wo_refreshed :: bool
  wo_authorized_after_unauthorized :: bool
  wo_attempts :: nat

text \<open>
  \<open>prepare_write\<close>. A message that is not JSON, or not a JSON-RPC message, goes out unchanged; so does
  a request whose token cannot be injected. \<open>None\<close> only if remembering did not end.
\<close>

definition request_of :: "'j JsonApi \<Rightarrow> string \<Rightarrow> 'j JSONRPCRequest option" where
  "request_of api original =
     (case j_parse api original of
        None \<Rightarrow> None
      | Some j \<Rightarrow> (case message_from_json api j of Inr (Msg_request r) \<Rightarrow> Some r | _ \<Rightarrow> None))"

definition outgoing_of :: "'j JsonApi \<Rightarrow> bool \<Rightarrow> string \<Rightarrow> string \<Rightarrow> string" where
  "outgoing_of api uses_header token original =
     (case request_of api original of
        None \<Rightarrow> original
      | Some r \<Rightarrow>
          if uses_header then original
          else (case inject_token api token r of Inl e \<Rightarrow> original | Inr out \<Rightarrow> out))"

definition prepare_write ::
  "'j JsonApi \<Rightarrow> bool \<Rightarrow> string \<Rightarrow> nat \<Rightarrow> string \<Rightarrow> PendingStore \<Rightarrow> (PendingStore \<times> WriteOperation) option" where
  "prepare_write api uses_header token now original s =
     (let key = map_option (\<lambda>r. correlation_key (rq_id r)) (request_of api original);
          operation = (\<lambda>generation. \<lparr>wo_original = original, wo_outgoing = outgoing_of api uses_header token original,
            wo_request_key = key, wo_generation = generation, wo_refreshed = False,
            wo_authorized_after_unauthorized = False, wo_attempts = 0\<rparr>) in
      case key of
        None \<Rightarrow> Some (s, operation None)
      | Some k \<Rightarrow>
          (case remember_request now k original s of
             None \<Rightarrow> None
           | Some (s', generation) \<Rightarrow> Some (s', operation generation)))"

subsection \<open>The retry loop\<close>

definition is_insufficient_scope :: "string \<Rightarrow> bool" where
  "is_insufficient_scope www_authenticate =
     (if www_authenticate = '''' then False
      else (case select_bearer_challenge (parse_www_authenticate www_authenticate) of
              None \<Rightarrow> False
            | Some challenge \<Rightarrow> bc_error challenge = Some ''insufficient_scope''))"

datatype WriteResult = Wrote | Status_error nat string | Other_error string

datatype AuthResult = Auth_done bool | Auth_fails string

record Round =
  rd_write :: WriteResult
  rd_closed_before_refresh :: bool
  rd_closed_at_refresh :: bool
  rd_refresh :: AuthResult
  rd_closed_before_challenge :: bool
  rd_closed_at_challenge :: bool
  rd_challenge :: AuthResult

text \<open>
  What the loop does to the world, in order. A challenge event also says whether it answers a 401.
\<close>

datatype WriteEvent = Ev_write string | Ev_refresh | Ev_challenge string bool | Ev_cancel_pending | Ev_erase_pending

datatype WriteError = We_status nat string | We_transport string | We_closed | We_authenticator string

definition max_authorization_challenges :: nat where
  "max_authorization_challenges = 3"

text \<open>
  The catch clauses: nothing when the message went out, otherwise the error, with the challenge and
  whether a refresh is allowed when it asks for authorization.
\<close>

definition judge_write :: "bool \<Rightarrow> WriteResult \<Rightarrow> (WriteError \<times> (string \<times> bool) option) option" where
  "judge_write uses_header w =
     (case w of
        Wrote \<Rightarrow> None
      | Other_error e \<Rightarrow> Some (We_transport e, None)
      | Status_error status header \<Rightarrow>
          (let unauthorized = (status = 401);
               stepped_up = (status = 403 \<and> is_insufficient_scope header) in
           Some (We_status status header,
                 if uses_header \<and> (unauthorized \<or> stepped_up) then Some (header, unauthorized) else None)))"

definition await_unless_closed :: "bool \<Rightarrow> AuthResult \<Rightarrow> WriteEvent list \<times> (WriteError + bool)" where
  "await_unless_closed closed attempt =
     (if closed then ([Ev_cancel_pending], Inl We_closed)
      else ([], case attempt of Auth_done b \<Rightarrow> Inr b | Auth_fails e \<Rightarrow> Inl (We_authenticator e)))"

text \<open>The two attempts of one pass: renewal, then the challenge.\<close>

definition renew :: "Round \<Rightarrow> bool \<Rightarrow> WriteOperation \<Rightarrow> WriteEvent list \<times> (WriteError + bool) \<times> WriteOperation" where
  "renew rnd refresh_allowed op =
     (if refresh_allowed \<and> \<not> wo_refreshed op then
        (let op = op\<lparr>wo_refreshed := True\<rparr> in
         if rd_closed_before_refresh rnd then ([], Inl We_closed, op)
         else (let (es, r) = await_unless_closed (rd_closed_at_refresh rnd) (rd_refresh rnd) in
               (Ev_refresh # es, r, op)))
      else ([], Inr False, op))"

definition challenge_step ::
  "Round \<Rightarrow> string \<Rightarrow> bool \<Rightarrow> WriteOperation \<Rightarrow> WriteEvent list \<times> (WriteError + bool) \<times> WriteOperation" where
  "challenge_step rnd header refresh_allowed op =
     (if header \<noteq> '''' then
        (let op = op\<lparr>wo_authorized_after_unauthorized := wo_authorized_after_unauthorized op \<or> refresh_allowed\<rparr> in
         if rd_closed_before_challenge rnd then ([], Inl We_closed, op)
         else (let (es, r) = await_unless_closed (rd_closed_at_challenge rnd) (rd_challenge rnd) in
               (Ev_challenge header refresh_allowed # es, r, op)))
      else ([], Inr False, op))"

definition authorize ::
  "Round \<Rightarrow> string \<Rightarrow> bool \<Rightarrow> WriteOperation \<Rightarrow> WriteEvent list \<times> (WriteError + bool) \<times> WriteOperation" where
  "authorize rnd header refresh_allowed op =
     (let (es, r, op) = renew rnd refresh_allowed op in
      case r of
        Inr False \<Rightarrow> (let (es', r', op) = challenge_step rnd header refresh_allowed op in (es @ es', r', op))
      | _ \<Rightarrow> (es, r, op))"

lemma authorize_attempts: "authorize rnd header refresh_allowed op = (es, r, op') \<Longrightarrow> wo_attempts op' = wo_attempts op"
  by (auto simp: authorize_def renew_def challenge_step_def await_unless_closed_def Let_def split: sum.splits bool.splits if_splits)

text \<open>
  \<open>run_write\<close>. Pass \<open>n\<close> runs in the environment's round \<open>n\<close>. The result is the error thrown, if any.
\<close>

function run_write :: "bool \<Rightarrow> (nat \<Rightarrow> Round) \<Rightarrow> WriteOperation \<Rightarrow> WriteEvent list \<times> WriteError option" where
  "run_write uses_header env op =
     (let rnd = env (wo_attempts op) in
      case judge_write uses_header (rd_write rnd) of
        None \<Rightarrow> ([Ev_write (wo_outgoing op)], None)
      | Some (e, None) \<Rightarrow> ([Ev_write (wo_outgoing op), Ev_erase_pending], Some e)
      | Some (e, Some (header, refresh_allowed)) \<Rightarrow>
          if wo_attempts op \<ge> max_authorization_challenges \<or> refresh_allowed \<and> wo_authorized_after_unauthorized op
          then ([Ev_write (wo_outgoing op), Ev_erase_pending], Some e)
          else (case authorize rnd header refresh_allowed (op\<lparr>wo_attempts := wo_attempts op + 1\<rparr>) of
                  (es, Inl e', op') \<Rightarrow> (Ev_write (wo_outgoing op) # es @ [Ev_erase_pending], Some e')
                | (es, Inr False, op') \<Rightarrow> (Ev_write (wo_outgoing op) # es @ [Ev_erase_pending], Some e)
                | (es, Inr True, op') \<Rightarrow>
                    (let (es', r) = run_write uses_header env op' in (Ev_write (wo_outgoing op) # es @ es', r))))"
  by pat_completeness auto
termination
  by (relation "measure (\<lambda>(uses_header, env, op). max_authorization_challenges - wo_attempts op)")
    (auto dest!: authorize_attempts [OF sym])

declare run_write.simps [simp del]


subsection \<open>Properties of the loop\<close>

fun is_write :: "WriteEvent \<Rightarrow> bool" where
  "is_write (Ev_write w) = True"
| "is_write _ = False"

fun is_challenge :: "WriteEvent \<Rightarrow> bool" where
  "is_challenge (Ev_challenge header unauthorized) = True"
| "is_challenge _ = False"

fun is_unauthorized_challenge :: "WriteEvent \<Rightarrow> bool" where
  "is_unauthorized_challenge (Ev_challenge header unauthorized) = unauthorized"
| "is_unauthorized_challenge _ = False"

definition count_of :: "('a \<Rightarrow> bool) \<Rightarrow> 'a list \<Rightarrow> nat" where
  "count_of p xs = length (filter p xs)"

lemma count_of_simps [simp]:
  "count_of p [] = 0"
  "count_of p (x # xs) = of_bool (p x) + count_of p xs"
  "count_of p (xs @ ys) = count_of p xs + count_of p ys"
  by (simp_all add: count_of_def)

text \<open>What one authorization attempt adds to the events, against the flags it sets.\<close>

lemma authorize_effect:
  assumes "authorize rnd header refresh_allowed op = (es, r, op')"
  shows "wo_outgoing op' = wo_outgoing op" "count_of is_write es = 0" "count_of ((=) Ev_erase_pending) es = 0"
    "count_of is_challenge es \<le> 1"
    "count_of ((=) Ev_refresh) es + of_bool (wo_refreshed op) \<le> (of_bool (wo_refreshed op') :: nat)"
    "\<not> (refresh_allowed \<and> wo_authorized_after_unauthorized op) \<Longrightarrow>
       count_of is_unauthorized_challenge es + of_bool (wo_authorized_after_unauthorized op)
         \<le> (of_bool (wo_authorized_after_unauthorized op') :: nat)"
  using assms
  by (auto simp: authorize_def renew_def challenge_step_def await_unless_closed_def Let_def
      split: sum.splits bool.splits if_splits)

lemma run_write_induct [consumes 1, case_names stop written again]:
  assumes "run_write u env op = (es, r)"
    and "\<And>op es' e. es' = [] \<or> (\<exists>header refresh_allowed op' x. wo_attempts op < 3
            \<and> \<not> (refresh_allowed \<and> wo_authorized_after_unauthorized op)
            \<and> authorize (env (wo_attempts op)) header refresh_allowed (op\<lparr>wo_attempts := wo_attempts op + 1\<rparr>) = (es', x, op')
            \<and> x \<noteq> Inr True) \<Longrightarrow>
          judge_write u (rd_write (env (wo_attempts op))) \<noteq> None \<Longrightarrow>
          P op (Ev_write (wo_outgoing op) # es' @ [Ev_erase_pending]) (Some e)"
    and "\<And>op. judge_write u (rd_write (env (wo_attempts op))) = None \<Longrightarrow> P op [Ev_write (wo_outgoing op)] None"
    and "\<And>op e header refresh_allowed es1 op' es2 r2.
          judge_write u (rd_write (env (wo_attempts op))) = Some (e, Some (header, refresh_allowed)) \<Longrightarrow>
          wo_attempts op < 3 \<Longrightarrow> \<not> (refresh_allowed \<and> wo_authorized_after_unauthorized op) \<Longrightarrow>
          authorize (env (wo_attempts op)) header refresh_allowed (op\<lparr>wo_attempts := wo_attempts op + 1\<rparr>) = (es1, Inr True, op') \<Longrightarrow>
          run_write u env op' = (es2, r2) \<Longrightarrow> P op' es2 r2 \<Longrightarrow>
          P op (Ev_write (wo_outgoing op) # es1 @ es2) r2"
  shows "P op es r"
  using assms(1)
proof (induction "3 - wo_attempts op" arbitrary: op es r rule: less_induct)
  case less
  let ?w = "judge_write u (rd_write (env (wo_attempts op)))"
  note run = less.prems [unfolded run_write.simps [of u env op] Let_def max_authorization_challenges_def]
  show ?case
  proof (cases ?w)
    case None
    with run assms(3) [OF None] show ?thesis by simp
  next
    case (Some w)
    obtain e c where w: "w = (e, c)" by force
    have stop: "P op (Ev_write (wo_outgoing op) # [] @ [Ev_erase_pending]) (Some e)"
      using assms(2) [of "[]" op e] Some by simp
    show ?thesis
    proof (cases c)
      case None
      with run Some w stop show ?thesis by simp
    next
      case c: (Some hc)
      obtain header ra where hc: "hc = (header, ra)" by force
      obtain es1 x op' where au: "authorize (env (wo_attempts op)) header ra (op\<lparr>wo_attempts := wo_attempts op + 1\<rparr>) = (es1, x, op')"
        by (metis prod_cases3)
      show ?thesis
      proof (cases "wo_attempts op \<ge> 3 \<or> ra \<and> wo_authorized_after_unauthorized op")
        case True
        with run Some w c hc stop show ?thesis by simp
      next
        case False
        have le: "\<And>e. x \<noteq> Inr True \<Longrightarrow> P op (Ev_write (wo_outgoing op) # es1 @ [Ev_erase_pending]) (Some e)"
          by (rule assms(2)) (use au False Some in \<open>auto simp: not_le\<close>)
        show ?thesis
        proof (cases "x = Inr True")
          case True
          obtain es2 r2 where r2: "run_write u env op' = (es2, r2)" by force
          have "3 - wo_attempts op' < 3 - wo_attempts op" using authorize_attempts [OF au] False by (simp; arith)
          from assms(4) [OF _ _ _ au [unfolded True] r2 less.hyps [OF this r2]] run Some w c hc False au True r2
          show ?thesis by (auto simp: not_le)
        next
          case x: False
          with run Some w c hc False au le show ?thesis
            by (auto simp: not_le split: sum.splits bool.splits)
        qed
      qed
    qed
  qed
qed

lemma run_write_counts:
  assumes "run_write u env op = (es, r)" "wo_attempts op \<le> 3"
  shows "1 \<le> count_of is_write es \<and> count_of is_write es + wo_attempts op \<le> 4
    \<and> count_of is_challenge es + wo_attempts op \<le> 3
    \<and> count_of ((=) Ev_refresh) es + of_bool (wo_refreshed op) \<le> 1
    \<and> count_of is_unauthorized_challenge es + of_bool (wo_authorized_after_unauthorized op) \<le> 1
    \<and> (\<forall>w. Ev_write w \<in> set es \<longrightarrow> w = wo_outgoing op)
    \<and> count_of ((=) Ev_erase_pending) es = (if r = None then 0 else 1)"
  using assms
proof (induction rule: run_write_induct)
  case (stop op es' e)
  from stop(1) show ?case
  proof
    assume "es' = []"
    then show ?thesis using stop.prems by simp
  next
    assume "\<exists>header refresh_allowed op' x. wo_attempts op < 3 \<and> \<not> (refresh_allowed \<and> wo_authorized_after_unauthorized op)
      \<and> authorize (env (wo_attempts op)) header refresh_allowed (op\<lparr>wo_attempts := wo_attempts op + 1\<rparr>) = (es', x, op') \<and> x \<noteq> Inr True"
    then obtain header ra op' x where a: "wo_attempts op < 3" "\<not> (ra \<and> wo_authorized_after_unauthorized op)"
      "authorize (env (wo_attempts op)) header ra (op\<lparr>wo_attempts := wo_attempts op + 1\<rparr>) = (es', x, op')" by blast
    note eff = authorize_effect [OF a(3)]
    have nw: "Ev_write w \<notin> set es'" for w using eff(2) by (auto simp: count_of_def filter_empty_conv)
    show ?thesis using eff(2-5) eff(6) a(1,2) nw by (auto simp: of_bool_def split: if_splits)
  qed
next
  case (written op)
  then show ?case by simp
next
  case (again op e header ra es1 op' es2 r2)
  note eff = authorize_effect [OF again(4)]
  have nw: "Ev_write w \<notin> set es1" for w using eff(2) by (auto simp: count_of_def filter_empty_conv)
  have at: "wo_attempts op' = Suc (wo_attempts op)" using authorize_attempts [OF again(4)] by simp
  note ih = again.IH [unfolded at]
  have ih': "1 \<le> count_of is_write es2 \<and> count_of is_write es2 + Suc (wo_attempts op) \<le> 4
    \<and> count_of is_challenge es2 + Suc (wo_attempts op) \<le> 3
    \<and> count_of ((=) Ev_refresh) es2 + of_bool (wo_refreshed op') \<le> 1
    \<and> count_of is_unauthorized_challenge es2 + of_bool (wo_authorized_after_unauthorized op') \<le> 1
    \<and> (\<forall>w. Ev_write w \<in> set es2 \<longrightarrow> w = wo_outgoing op')
    \<and> count_of ((=) Ev_erase_pending) es2 = (if r2 = None then 0 else 1)"
    by (rule ih) (use again(2) in simp)
  show ?case using ih' eff(1-5) eff(6) again(3) nw by (auto simp: of_bool_def split: if_splits)
qed

lemma prepared_operation:
  "prepare_write api uses_header token now original s = Some (s', op) \<Longrightarrow>
     wo_attempts op = 0 \<and> \<not> wo_refreshed op \<and> \<not> wo_authorized_after_unauthorized op
     \<and> wo_outgoing op = outgoing_of api uses_header token original"
  by (auto simp: prepare_write_def Let_def split: option.splits prod.splits)

lemma prepare_write_ends:
  assumes "store_inv s"
  shows "\<exists>s' op. prepare_write api uses_header token now original s = Some (s', op)"
proof (cases "request_of api original")
  case None
  then show ?thesis by (simp add: prepare_write_def)
next
  case (Some r)
  have "\<exists>s' g. remember_request now (correlation_key (rq_id r)) original s = Some (s', g)"
    by (rule remember_request_cases [OF assms, of now "correlation_key (rq_id r)" original]) blast+
  with Some show ?thesis by (auto simp: prepare_write_def Let_def)
qed

text \<open>C31: Refusals are retried a bounded number of times: whatever the server and the authenticator
  answer, a message is written at least once and at most four times, always as it was prepared; the
  refresh token is spent at most once on it, at most three challenges are handed to the
  authenticator, at most one of them for a 401, and the remembered copy is dropped exactly when the
  write fails.\<close>

theorem write_retries_bounded:
  assumes "prepare_write api uses_header token now original s = Some (s', op)"
    and "run_write uses_header env op = (es, r)"
  shows "1 \<le> count_of is_write es \<and> count_of is_write es \<le> 4
    \<and> count_of is_challenge es \<le> 3 \<and> count_of is_unauthorized_challenge es \<le> 1
    \<and> count_of ((=) Ev_refresh) es \<le> 1
    \<and> (\<forall>w. Ev_write w \<in> set es \<longrightarrow> w = outgoing_of api uses_header token original)
    \<and> count_of ((=) Ev_erase_pending) es = (if r = None then 0 else 1)"
  using run_write_counts [OF assms(2)] prepared_operation [OF assms(1)] by simp

text \<open>The passes of a loop end with its last write.\<close>

lemma run_write_last:
  assumes "run_write u env op = (es, r)"
  shows "r = None \<longleftrightarrow> judge_write u (rd_write (env (wo_attempts op + count_of is_write es - 1))) = None"
  using assms
proof (induction rule: run_write_induct)
  case (stop op es' e)
  from stop(1) have "count_of is_write es' = 0" using authorize_effect(2) by auto
  with stop(2) show ?case by simp
next
  case (written op)
  then show ?case by simp
next
  case (again op e header ra es1 op' es2 r2)
  have at: "wo_attempts op' = Suc (wo_attempts op)" using authorize_attempts [OF again(4)] by simp
  have "es2 \<noteq> []" using again(5)
    by (subst (asm) run_write.simps) (auto simp: Let_def split: option.splits prod.splits if_splits sum.splits bool.splits)
  with again.IH authorize_effect(2) [OF again(4)] at show ?case by simp
qed

text \<open>A write reports success exactly when the server took the message: it returns without an error
  if and only if its last attempt was accepted, and an attempt that was not is never followed by
  silence.\<close>

theorem write_succeeds_iff_accepted:
  assumes "run_write uses_header env op = (es, r)"
  shows "r = None \<longleftrightarrow> rd_write (env (wo_attempts op + count_of is_write es - 1)) = Wrote"
  using run_write_last [OF assms]
  by (simp add: judge_write_def Let_def split: WriteResult.splits)

text \<open>Only a refusal that asks for authorization is retried: an error that is not an HTTP status, a
  status other than 401 and 403, a 403 that does not ask for more scope, and any status on a
  transport without an authorization header are reported after that one write, the authenticator is
  not asked, and a 403 never spends the refresh token.\<close>

theorem write_reports_other_errors:
  assumes "rd_write (env (wo_attempts op)) = w"
    and "w = Other_error e \<or> w = Status_error status header \<and>
      (\<not> uses_header \<or> status \<noteq> 401 \<and> (status \<noteq> 403 \<or> \<not> is_insufficient_scope header))"
  shows "run_write uses_header env op =
    ([Ev_write (wo_outgoing op), Ev_erase_pending],
     Some (case w of Other_error m \<Rightarrow> We_transport m | Status_error st h \<Rightarrow> We_status st h))"
  using assms by (subst run_write.simps) (auto simp: judge_write_def Let_def)

text \<open>A closed transport asks for nothing: from a pass at which \<open>close\<close> has been seen on, the
  authenticator is asked neither to refresh nor to answer a challenge, and a refused message fails
  after that one write.\<close>

theorem closed_write_asks_nothing:
  assumes "rd_closed_before_refresh (env (wo_attempts op))" "rd_closed_before_challenge (env (wo_attempts op))"
    and "run_write uses_header env op = (es, r)"
  shows "es = Ev_write (wo_outgoing op) # (if r = None then [] else [Ev_erase_pending])"
  using assms
  by (subst (asm) run_write.simps)
    (auto simp: Let_def authorize_def renew_def challenge_step_def split: option.splits prod.splits if_splits sum.splits bool.splits)

definition accepted_round :: Round where
  "accepted_round = \<lparr>rd_write = Wrote, rd_closed_before_refresh = False, rd_closed_at_refresh = False,
     rd_refresh = Auth_done True, rd_closed_before_challenge = False, rd_closed_at_challenge = False,
     rd_challenge = Auth_done True\<rparr>"

text \<open>An expired token: the first write is refused, the refresh works, the second is accepted.\<close>

definition expired_env :: "nat \<Rightarrow> Round" where
  "expired_env n = (if n = 0 then accepted_round\<lparr>rd_write := Status_error 401 ''Bearer''\<rparr> else accepted_round)"

definition plain_operation :: WriteOperation where
  "plain_operation = \<lparr>wo_original = ''hi'', wo_outgoing = ''hi'', wo_request_key = None, wo_generation = None,
     wo_refreshed = False, wo_authorized_after_unauthorized = False, wo_attempts = 0\<rparr>"

definition null_message_api :: "tree JsonApi" where
  "null_message_api = tree_api\<lparr>j_parse := (\<lambda>s. None)\<rparr>"

lemma plain_prepared:
  "prepare_write null_message_api True '''' 0 ''hi'' s = Some (s, plain_operation)"
  by (simp add: prepare_write_def request_of_def outgoing_of_def null_message_api_def plain_operation_def Let_def)

lemma expired_run: "run_write True expired_env plain_operation = ([Ev_write ''hi'', Ev_refresh, Ev_write ''hi''], None)"
  by (simp add: run_write.simps expired_env_def accepted_round_def plain_operation_def judge_write_def Let_def
      max_authorization_challenges_def authorize_def renew_def await_unless_closed_def)

theorem write_retries_bounded_witness:
  "count_of is_write [Ev_write ''hi'', Ev_refresh, Ev_write ''hi''] \<le> 4"
  using write_retries_bounded [OF plain_prepared expired_run] by blast

theorem write_succeeds_iff_accepted_witness:
  "rd_write (expired_env 1) = Wrote"
  using write_succeeds_iff_accepted [OF expired_run] by (simp add: plain_operation_def)

theorem write_reports_other_errors_witness:
  "run_write False expired_env plain_operation =
     ([Ev_write ''hi'', Ev_erase_pending], Some (We_status 401 ''Bearer''))"
  using write_reports_other_errors [of expired_env plain_operation "Status_error 401 ''Bearer''" undefined 401 "''Bearer''" False]
  by (simp add: expired_env_def plain_operation_def)

definition closed_env :: "nat \<Rightarrow> Round" where
  "closed_env n = accepted_round\<lparr>rd_write := Status_error 401 ''Bearer'', rd_closed_before_refresh := True,
     rd_closed_before_challenge := True\<rparr>"

lemma closed_run: "run_write True closed_env plain_operation = ([Ev_write ''hi'', Ev_erase_pending], Some We_closed)"
  by (simp add: run_write.simps closed_env_def accepted_round_def plain_operation_def judge_write_def Let_def
      max_authorization_challenges_def authorize_def renew_def await_unless_closed_def)

theorem closed_write_asks_nothing_witness:
  "[Ev_write ''hi'', Ev_erase_pending] = Ev_write (wo_outgoing plain_operation) # [Ev_erase_pending]"
  using closed_write_asks_nothing [OF _ _ closed_run] by (simp add: closed_env_def)

subsection \<open>Reading\<close>

text \<open>What \<open>take_retry_wire\<close> makes of the text read.\<close>

definition answer_of :: "'j JsonApi \<Rightarrow> string \<Rightarrow> 'j JSONRPCMessage option" where
  "answer_of api raw =
     (case parse_peer_json (j_parse api) raw of
        None \<Rightarrow> None
      | Some j \<Rightarrow> (case message_from_json api j of Inl e \<Rightarrow> None | Inr m \<Rightarrow> Some m))"

datatype ReadError = Re_read string | Re_authenticator string | Re_write WriteError | Re_diverged

text \<open>
  What the world answers to one read: the wrapped transport's messages, the authenticator's refresh,
  the token it then holds, the clock at each operation on the store and the rounds of the write.
\<close>

record ReadWorld =
  rw_first :: "string + string"
  rw_refresh :: AuthResult
  rw_token :: string
  rw_now :: "nat \<Rightarrow> nat"
  rw_rounds :: "nat \<Rightarrow> Round"
  rw_second :: "string + string"

definition drop_failed :: "WriteOperation \<Rightarrow> WriteError option \<Rightarrow> PendingStore \<Rightarrow> PendingStore" where
  "drop_failed op r s = (if r = None then s else erase_pending (wo_request_key op) (wo_generation op) s)"

definition write_again ::
  "'j JsonApi \<Rightarrow> bool \<Rightarrow> ReadWorld \<Rightarrow> string \<Rightarrow> PendingStore \<Rightarrow> PendingStore \<times> WriteEvent list \<times> (ReadError + string)" where
  "write_again api uses_header world wire s =
     (case prepare_write api uses_header (rw_token world) (rw_now world 1) wire s of
        None \<Rightarrow> (s, [], Inl Re_diverged)
      | Some (s, op) \<Rightarrow>
          (let (es, r) = run_write uses_header (rw_rounds world) op;
               s = drop_failed op r s in
           case r of
             Some e \<Rightarrow> (s, es, Inl (Re_write e))
           | None \<Rightarrow>
               (case rw_second world of
                  Inl e \<Rightarrow> (s, es, Inl (Re_read e))
                | Inr raw \<Rightarrow> (fst (take_retry_wire (rw_now world 2) (answer_of api raw) s), es, Inr raw))))"

definition run_read ::
  "'j JsonApi \<Rightarrow> bool \<Rightarrow> ReadWorld \<Rightarrow> PendingStore \<Rightarrow> PendingStore \<times> WriteEvent list \<times> (ReadError + string)" where
  "run_read api uses_header world s =
     (case rw_first world of
        Inl e \<Rightarrow> (s, [], Inl (Re_read e))
      | Inr raw \<Rightarrow>
          (let (s, retry) = take_retry_wire (rw_now world 0) (answer_of api raw) s in
           case retry of
             None \<Rightarrow> (s, [], Inr raw)
           | Some wire \<Rightarrow>
               (case rw_refresh world of
                  Auth_fails e \<Rightarrow> (s, [], Inl (Re_authenticator e))
                | Auth_done False \<Rightarrow> (s, [], Inr raw)
                | Auth_done True \<Rightarrow> write_again api uses_header world wire s)))"

lemma take_retry_wire_reachable:
  "pending_reachable s \<Longrightarrow> pending_reachable (fst (take_retry_wire now message s))"
  by (auto simp: take_retry_wire_split pending_reachable.take split: option.split)

text \<open>A read that meets the refusal of a remembered request sends that request again, once: when the
  refresh succeeds the remembered message is prepared with the new token and written, and the read
  returns the next message whatever it is; when the refresh does not succeed the refusal itself is
  returned and nothing is written; in every case the read ends.\<close>

theorem refused_request_sent_again:
  assumes "pending_reachable s" "remember_request now key wire s = Some (s', Some g)"
    and "rw_now world 0 < expiry (ps_options s) now"
    and "rw_first world = Inr raw" "answer_of api raw = Some answer" "response_key answer = Some (key, True)"
    and "run_read api uses_header world s' = (s'', es, r)"
  shows "r \<noteq> Inl Re_diverged
    \<and> (rw_refresh world = Auth_done False \<longrightarrow> es = [] \<and> r = Inr raw)
    \<and> (rw_refresh world = Auth_done True \<longrightarrow>
        1 \<le> count_of is_write es \<and> count_of is_write es \<le> 4
        \<and> (\<forall>w. Ev_write w \<in> set es \<longrightarrow> w = outgoing_of api uses_header (rw_token world) wire)
        \<and> (\<forall>raw'. r = Inr raw' \<longrightarrow> rw_second world = Inr raw'))"
proof -
  note reach = pending_reachable.remember [OF assms(1,2)]
  define s1 where "s1 = fst (take_retry_wire (rw_now world 0) (Some answer) s')"
  obtain e where e: "map_of (ps_requests s') key = Some e" "pr_wire e = wire" "pr_expires_at e = expiry (ps_options s) now"
    using remembered_entry [OF pending_reachable_inv [OF assms(1)] assms(2)] by blast
  from take_remembered [OF pending_reachable_inv [OF reach] e(1), of "rw_now world 0" True] e assms(3,6)
  have t: "take_retry_wire (rw_now world 0) (Some answer) s' = (s1, Some wire)"
    by (simp add: s1_def take_retry_wire_def prod_eq_iff)
  have reach1: "pending_reachable s1" unfolding s1_def by (rule take_retry_wire_reachable [OF reach])
  show ?thesis
  proof (cases "rw_refresh world = Auth_done True")
    case False
    then show ?thesis using assms(4,5,7) t by (auto simp: run_read_def split: AuthResult.splits bool.splits)
  next
    case True
    obtain s2 op where op: "prepare_write api uses_header (rw_token world) (rw_now world 1) wire s1 = Some (s2, op)"
      using prepare_write_ends [OF pending_reachable_inv [OF reach1]] by blast
    obtain es' r' where rw: "run_write uses_header (rw_rounds world) op = (es', r')" by force
    have "run_read api uses_header world s' = write_again api uses_header world wire s1"
      using assms(4,5) t True by (simp add: run_read_def)
    then have "es = es' \<and> r \<noteq> Inl Re_diverged \<and> (\<forall>raw'. r = Inr raw' \<longrightarrow> rw_second world = Inr raw')"
      using assms(7) op rw by (auto simp: write_again_def Let_def split: option.splits sum.splits)
    with True run_write_counts [OF rw] prepared_operation [OF op] show ?thesis by simp
  qed
qed

definition refusing_api :: "tree JsonApi" where
  "refusing_api = tree_api\<lparr>j_parse := (\<lambda>s.
     if s = ''refused'' then Some (T_object [(''error'', T_object [(''code'', T_int (- 32000)), (''message'', T_string ''expired'')]),
       (''id'', T_string ''1''), (''jsonrpc'', T_string ''2.0'')])
     else None)\<rparr>"

definition refusing_world :: ReadWorld where
  "refusing_world = \<lparr>rw_first = Inr ''refused'', rw_refresh = Auth_done True, rw_token = ''new'', rw_now = (\<lambda>n. 6),
     rw_rounds = (\<lambda>n. accepted_round), rw_second = Inr ''ok''\<rparr>"

theorem refused_request_sent_again_witness:
  "\<exists>s'' es r. run_read refusing_api False refusing_world sample_store = (s'', es, r) \<and> 1 \<le> count_of is_write es"
proof -
  have a: "answer_of refusing_api ''refused'' = Some (Msg_error
      \<lparr>re_error = \<lparr>er_code = - 32000, er_message = ''expired'', er_data = None\<rparr>, re_jsonrpc = ''2.0'', re_id = Some (Id_string ''1'')\<rparr>)"
    by (simp add: answer_of_def parse_peer_json_def exceeds_json_depth_def refusing_api_def tree_api_def message_from_json_def
        has_json_value_def error_response_from_json_def get_member_def get_optional_def error_from_json_def int32_cast_def
        validate_jsonrpc_version_def id_from_json_def bindE_def)
  obtain s'' es r where r: "run_read refusing_api False refusing_world sample_store = (s'', es, r)" by (metis prod_cases3)
  have k: "response_key (Msg_error \<lparr>re_error = \<lparr>er_code = - 32000, er_message = ''expired'', er_data = None\<rparr>,
      re_jsonrpc = ''2.0'', re_id = Some (Id_string ''1'')\<rparr>) = Some (''s:1'', True)"
    by (simp add: response_key_def correlation_key_def unauthorized_code_def)
  from refused_request_sent_again [OF pending_reachable.start sample_remembered _ _ a k r] r
  show ?thesis by (simp add: refusing_world_def expiry_def time_max_def sample_options_def empty_store_def)
qed

end
