(* ===== verification/TransportWriter.thy ===== *)
theory TransportWriter
  imports Prelude
begin

text \<open>
  \<open>SerializedTransportWriter\<close> (src/core/serialized_transport_writer.cpp): writes to one transport,
  queued on a strand and written one at a time. An operation is named by the number of its call. A
  step is one uninterrupted stretch of a coroutine on the strand; the log records the writes that
  reached the transport.
\<close>

datatype WriteFailure = Aborted_before_start | Transport_failed string

record Operation =
  op_message :: string
  op_cancel :: bool
  op_completed :: bool
  op_error :: "WriteFailure option"

record Writer =
  wr_operations :: "Operation list"
  wr_queue :: "nat list"
  wr_draining :: bool
  wr_writing :: "nat option"
  wr_log :: "(nat \<times> string) list"

definition new_writer :: Writer where
  "new_writer = \<lparr>wr_operations = [], wr_queue = [], wr_draining = False, wr_writing = None, wr_log = []\<rparr>"

definition complete_operation :: "nat \<Rightarrow> WriteFailure option \<Rightarrow> Writer \<Rightarrow> Writer" where
  "complete_operation i error w =
     w\<lparr>wr_operations := (wr_operations w)[i := (wr_operations w ! i)\<lparr>op_error := error, op_completed := True\<rparr>]\<rparr>"

definition enqueue :: "string \<Rightarrow> Writer \<Rightarrow> Writer" where
  "enqueue m w =
     w\<lparr>wr_operations := wr_operations w @ [\<lparr>op_message = m, op_cancel = False, op_completed = False, op_error = None\<rparr>],
       wr_queue := wr_queue w @ [length (wr_operations w)], wr_draining := True\<rparr>"

text \<open>One pass of the loop of \<open>drain\<close>, up to the start of the transport's write.\<close>

definition drain_pass :: "Writer \<Rightarrow> Writer" where
  "drain_pass w =
     (case wr_queue w of
        [] \<Rightarrow> w\<lparr>wr_draining := False\<rparr>
      | i # queue \<Rightarrow>
          if op_cancel (wr_operations w ! i) then complete_operation i (Some Aborted_before_start) (w\<lparr>wr_queue := queue\<rparr>)
          else w\<lparr>wr_writing := Some i, wr_log := wr_log w @ [(i, op_message (wr_operations w ! i))]\<rparr>)"

definition write_done :: "nat \<Rightarrow> string option \<Rightarrow> Writer \<Rightarrow> Writer" where
  "write_done i error w =
     complete_operation i (map_option Transport_failed error) (w\<lparr>wr_queue := tl (wr_queue w), wr_writing := None\<rparr>)"

definition cancel_operation :: "nat \<Rightarrow> Writer \<Rightarrow> Writer" where
  "cancel_operation i w = w\<lparr>wr_operations := (wr_operations w)[i := (wr_operations w ! i)\<lparr>op_cancel := True\<rparr>]\<rparr>"

inductive writer_step :: "Writer \<Rightarrow> Writer \<Rightarrow> bool" where
  enqueue: "writer_step w (enqueue m w)"
| cancel: "i < length (wr_operations w) \<Longrightarrow> writer_step w (cancel_operation i w)"
| pass: "wr_draining w \<Longrightarrow> wr_writing w = None \<Longrightarrow> writer_step w (drain_pass w)"
| written: "wr_writing w = Some i \<Longrightarrow> writer_step w (write_done i error w)"

inductive_cases writer_stepE: "writer_step w w'"

inductive writer_reachable :: "Writer \<Rightarrow> bool" where
  init: "writer_reachable new_writer"
| step: "writer_reachable w \<Longrightarrow> writer_step w w' \<Longrightarrow> writer_reachable w'"

text \<open>
  The invariant: the queue and the log are in call order, the log before the queue except for the
  write in progress, and an operation is complete exactly when it has left the queue.
\<close>

definition operation_inv :: "Writer \<Rightarrow> nat \<Rightarrow> bool" where
  "operation_inv w i \<longleftrightarrow>
     (let op = wr_operations w ! i in
      (op_completed op \<longleftrightarrow> i \<notin> set (wr_queue w))
    \<and> (op_completed op \<and> i \<notin> fst ` set (wr_log w) \<longrightarrow> op_cancel op \<and> op_error op = Some Aborted_before_start)
    \<and> (i \<in> fst ` set (wr_log w) \<longrightarrow> op_error op \<noteq> Some Aborted_before_start)
    \<and> (\<not> op_completed op \<longrightarrow> op_error op = None))"

definition writer_inv :: "Writer \<Rightarrow> bool" where
  "writer_inv w \<longleftrightarrow>
     sorted_wrt (<) (wr_queue w) \<and> sorted_wrt (<) (map fst (wr_log w))
   \<and> (\<forall>i \<in> set (wr_queue w). i < length (wr_operations w))
   \<and> (\<forall>(i, m) \<in> set (wr_log w). i < length (wr_operations w) \<and> m = op_message (wr_operations w ! i)
        \<and> (\<forall>j \<in> set (wr_queue w). i < j \<or> wr_writing w = Some i \<and> i = j))
   \<and> (\<forall>i. wr_writing w = Some i \<longrightarrow> wr_queue w \<noteq> [] \<and> hd (wr_queue w) = i \<and> i \<in> fst ` set (wr_log w) \<and> wr_draining w)
   \<and> (wr_queue w \<noteq> [] \<longrightarrow> wr_draining w)
   \<and> (\<forall>i < length (wr_operations w). operation_inv w i)"

lemma writer_invD:
  assumes "writer_inv w"
  shows "j \<in> set (wr_queue w) \<Longrightarrow> j < length (wr_operations w)"
    "k \<in> fst ` set (wr_log w) \<Longrightarrow> k < length (wr_operations w)"
    "k \<in> fst ` set (wr_log w) \<Longrightarrow> j \<in> set (wr_queue w) \<Longrightarrow> k < j \<or> wr_writing w = Some k \<and> k = j"
    "wr_writing w = Some i \<Longrightarrow> wr_queue w \<noteq> [] \<and> hd (wr_queue w) = i \<and> i \<in> fst ` set (wr_log w) \<and> wr_draining w"
    "j < length (wr_operations w) \<Longrightarrow> operation_inv w j"
  using assms unfolding writer_inv_def by fastforce+

lemma operation_update:
  "(\<And>op. h (u op) = h op) \<Longrightarrow> h (xs[i := u (xs ! i)] ! j) = h (xs ! j)"
  by (cases "j = i"; cases "i < length xs") (simp_all add: list_update_beyond not_less)

lemma operation_updates [simp]:
  "op_message (xs[i := (xs ! i)\<lparr>op_error := e, op_completed := b\<rparr>] ! j) = op_message (xs ! j)"
  "op_cancel (xs[i := (xs ! i)\<lparr>op_error := e, op_completed := b\<rparr>] ! j) = op_cancel (xs ! j)"
  "op_message (xs[i := (xs ! i)\<lparr>op_cancel := b\<rparr>] ! j) = op_message (xs ! j)"
  "op_completed (xs[i := (xs ! i)\<lparr>op_cancel := b\<rparr>] ! j) = op_completed (xs ! j)"
  "op_error (xs[i := (xs ! i)\<lparr>op_cancel := b\<rparr>] ! j) = op_error (xs ! j)"
  by (rule operation_update, simp)+

lemma enqueue_inv:
  assumes "writer_inv w"
  shows "writer_inv (enqueue m w)"
proof -
  have o: "operation_inv (enqueue m w) i" if "i < length (wr_operations (enqueue m w))" for i
  proof (cases "i = length (wr_operations w)")
    case True
    have "i \<notin> fst ` set (wr_log w)" using assms True by (auto simp: writer_inv_def)
    with True show ?thesis by (simp add: operation_inv_def enqueue_def Let_def)
  next
    case False
    with that have "i < length (wr_operations w)" by (simp add: enqueue_def)
    with assms False show ?thesis by (auto simp: writer_inv_def operation_inv_def enqueue_def Let_def nth_append)
  qed
  show ?thesis
    using assms o unfolding writer_inv_def
    by (auto simp: enqueue_def sorted_wrt_append nth_append less_Suc_eq hd_append)
qed

lemma cancel_operation_inv:
  assumes "writer_inv w"
  shows "writer_inv (cancel_operation i w)"
proof -
  have "operation_inv (cancel_operation i w) j" if "j < length (wr_operations w)" for j
  proof -
    have "op_cancel (wr_operations w ! j) \<Longrightarrow> op_cancel (wr_operations (cancel_operation i w) ! j)"
      using that by (cases "j = i") (simp_all add: cancel_operation_def)
    with assms that show ?thesis
      by (auto simp: writer_inv_def operation_inv_def cancel_operation_def Let_def)
  qed
  with assms show ?thesis unfolding writer_inv_def by (auto simp: cancel_operation_def)
qed

text \<open>Taking the front off the queue, when it is complete.\<close>

lemma pop_inv:
  assumes "writer_inv w" "wr_queue w = i # queue"
    and "wr_writing w = Some i \<and> error \<noteq> Some Aborted_before_start
      \<or> wr_writing w = None \<and> op_cancel (wr_operations w ! i) \<and> error = Some Aborted_before_start"
  shows "writer_inv (complete_operation i error (w\<lparr>wr_queue := queue, wr_writing := None\<rparr>))"
proof -
  let ?w = "complete_operation i error (w\<lparr>wr_queue := queue, wr_writing := None\<rparr>)"
  have i: "i < length (wr_operations w)" "\<forall>j \<in> set queue. i < j" using assms(1,2) by (auto simp: writer_inv_def)
  have "operation_inv ?w j" if "j < length (wr_operations w)" for j
  proof (cases "j = i")
    case True
    have "wr_writing w = Some i \<longleftrightarrow> i \<in> fst ` set (wr_log w)"
      using writer_invD(3) [OF assms(1), of i i] writer_invD(4) [OF assms(1), of i] assms(2) by auto
    with True i assms(3) show ?thesis by (auto simp: operation_inv_def complete_operation_def Let_def)
  next
    case False
    have "operation_inv w j" using assms(1) that by (simp add: writer_inv_def)
    with False assms(2) show ?thesis by (simp add: operation_inv_def complete_operation_def Let_def)
  qed
  moreover have "k < j" if "(k, m) \<in> set (wr_log w)" "j \<in> set queue" for k m j
    using writer_invD(3) [OF assms(1), of k j] writer_invD(4) [OF assms(1), of k] assms(2) i(2) that by force
  ultimately show ?thesis
    using assms(1,2) unfolding writer_inv_def by (auto simp: complete_operation_def split: prod.splits)
qed

lemma drain_pass_inv:
  assumes "writer_inv w" "wr_draining w" "wr_writing w = None"
  shows "writer_inv (drain_pass w)"
proof (cases "wr_queue w")
  case Nil
  with assms show ?thesis unfolding writer_inv_def by (auto simp: drain_pass_def operation_inv_def)
next
  case (Cons i queue)
  show ?thesis
  proof (cases "op_cancel (wr_operations w ! i)")
    case True
    have "w\<lparr>wr_queue := queue\<rparr> = w\<lparr>wr_queue := queue, wr_writing := None\<rparr>" using assms(3) by simp
    with pop_inv [OF assms(1) Cons, of "Some Aborted_before_start"] True assms(3) Cons show ?thesis
      by (simp add: drain_pass_def)
  next
    case False
    let ?w = "w\<lparr>wr_writing := Some i, wr_log := wr_log w @ [(i, op_message (wr_operations w ! i))]\<rparr>"
    have i: "i < length (wr_operations w)" "\<forall>j \<in> set queue. i < j" using assms(1) Cons by (auto simp: writer_inv_def)
    have l: "j < i" if "(j, m) \<in> set (wr_log w)" for j m
      using writer_invD(3) [OF assms(1), of j i] assms(3) Cons that by force
    have "operation_inv ?w j" if "j < length (wr_operations w)" for j
    proof -
      have "operation_inv w j" using assms(1) that by (simp add: writer_inv_def)
      then show ?thesis using Cons i by (auto simp: operation_inv_def Let_def)
    qed
    with assms Cons i False show ?thesis
      unfolding writer_inv_def by (auto simp: drain_pass_def sorted_wrt_append split: prod.splits)
  qed
qed

lemma writer_reachable_inv: "writer_reachable w \<Longrightarrow> writer_inv w"
proof (induction rule: writer_reachable.induct)
  case init
  then show ?case by (simp add: writer_inv_def new_writer_def)
next
  case (step w w')
  from step(2) show ?case
  proof (rule writer_stepE)
    fix i error
    assume a: "w' = write_done i error w" "wr_writing w = Some i"
    with step.IH obtain queue where q: "wr_queue w = i # queue" by (cases "wr_queue w") (auto simp: writer_inv_def)
    have "map_option Transport_failed error \<noteq> Some Aborted_before_start" by (cases error) simp_all
    with pop_inv [OF step.IH q, of "map_option Transport_failed error"] a q show ?thesis by (simp add: write_done_def)
  qed (use step.IH in \<open>auto intro: enqueue_inv cancel_operation_inv drain_pass_inv\<close>)
qed


subsection \<open>Properties\<close>


text \<open>The steps of the draining coroutine alone.\<close>

inductive drain_step :: "Writer \<Rightarrow> Writer \<Rightarrow> bool" where
  pass: "wr_draining w \<Longrightarrow> wr_writing w = None \<Longrightarrow> drain_step w (drain_pass w)"
| written: "wr_writing w = Some i \<Longrightarrow> drain_step w (write_done i error w)"

lemma drain_step_writer_step: "drain_step w w' \<Longrightarrow> writer_step w w'"
  by (induction rule: drain_step.induct) (auto intro: writer_step.intros)

lemma drain_front:
  assumes "writer_inv w" "wr_queue w = i # queue"
  shows "\<exists>w'. drain_step\<^sup>*\<^sup>* w w' \<and> writer_inv w' \<and> wr_queue w' = queue \<and> op_completed (wr_operations w' ! i)
    \<and> (\<forall>j. op_completed (wr_operations w ! j) \<longrightarrow> op_completed (wr_operations w' ! j))"
proof -
  have d: "wr_draining w" and i: "i < length (wr_operations w)" using assms by (auto simp: writer_inv_def)
  have complete: "op_completed (wr_operations (complete_operation i e v) ! i)"
    "op_completed (wr_operations v ! j) \<Longrightarrow> op_completed (wr_operations (complete_operation i e v) ! j)"
    if "wr_operations v = wr_operations w" for e v j
    using i that by (cases "j = i"; simp add: complete_operation_def)+
  have step_inv: "writer_inv v'" if "writer_inv v" "drain_step v v'" "wr_queue v = i # queue" for v v'
    using that(2)
  proof cases
    case pass
    then show ?thesis using drain_pass_inv that(1) by blast
  next
    case (written k error)
    have "k = i" using writer_invD(4) [OF that(1) written(2)] that(3) by simp
    moreover have "map_option Transport_failed error \<noteq> Some Aborted_before_start" by (cases error) simp_all
    ultimately show ?thesis
      using pop_inv [OF that(1,3), of "map_option Transport_failed error"] written that(3) by (simp add: write_done_def)
  qed
  have write_front: "\<exists>w'. drain_step v w' \<and> writer_inv w' \<and> wr_queue w' = queue \<and> op_completed (wr_operations w' ! i)
      \<and> (\<forall>j. op_completed (wr_operations w ! j) \<longrightarrow> op_completed (wr_operations w' ! j))"
    if "writer_inv v" "wr_writing v = Some i" "wr_queue v = i # queue" "wr_operations v = wr_operations w" for v
  proof (intro exI conjI)
    show "drain_step v (write_done i None v)" by (rule drain_step.written [OF that(2)])
    then show "writer_inv (write_done i None v)" by (rule step_inv [OF that(1) _ that(3)])
    show "wr_queue (write_done i None v) = queue" using that(3) by (simp add: write_done_def complete_operation_def)
    show "op_completed (wr_operations (write_done i None v) ! i)"
      "\<forall>j. op_completed (wr_operations w ! j) \<longrightarrow> op_completed (wr_operations (write_done i None v) ! j)"
      unfolding write_done_def using complete [of "v\<lparr>wr_queue := tl (wr_queue v), wr_writing := None\<rparr>"] that(4) by simp_all
  qed
  show ?thesis
  proof (cases "wr_writing w")
    case (Some k)
    with writer_invD(4) [OF assms(1) Some] assms(2) have "wr_writing w = Some i" by simp
    from write_front [OF assms(1) this assms(2) refl] show ?thesis by blast
  next
    case None
    note s = drain_step.pass [OF d None]
    show ?thesis
    proof (cases "op_cancel (wr_operations w ! i)")
      case True
      have "drain_pass w = complete_operation i (Some Aborted_before_start) (w\<lparr>wr_queue := queue\<rparr>)"
        using True assms(2) by (simp add: drain_pass_def)
      with s step_inv [OF assms(1) s assms(2)] complete [of "w\<lparr>wr_queue := queue\<rparr>"] show ?thesis
        by (intro exI [of _ "drain_pass w"]) (auto simp: complete_operation_def)
    next
      case False
      then have p: "wr_writing (drain_pass w) = Some i" "wr_queue (drain_pass w) = i # queue"
        "wr_operations (drain_pass w) = wr_operations w" using assms(2) by (simp_all add: drain_pass_def)
      from write_front [OF step_inv [OF assms(1) s assms(2)] p] obtain w' where
        "drain_step (drain_pass w) w'" "writer_inv w'" "wr_queue w' = queue" "op_completed (wr_operations w' ! i)"
        "\<forall>j. op_completed (wr_operations w ! j) \<longrightarrow> op_completed (wr_operations w' ! j)" by blast
      moreover from s this(1) have "drain_step\<^sup>*\<^sup>* w w'" by simp
      ultimately show ?thesis by blast
    qed
  qed
qed

text \<open>Every call completes: from any state, the draining coroutine alone, with a transport that
  answers its writes, takes every queued call to completion; nothing has to be called again to wake
  it.\<close>

theorem queued_writes_complete:
  assumes "writer_reachable w" "i < length (wr_operations w)"
  shows "\<exists>w'. drain_step\<^sup>*\<^sup>* w w' \<and> op_completed (wr_operations w' ! i)"
proof -
  have "\<exists>w'. drain_step\<^sup>*\<^sup>* w w' \<and> op_completed (wr_operations w' ! i)"
    if "writer_inv w" "i \<in> set (wr_queue w) \<or> op_completed (wr_operations w ! i)" for w
    using that
  proof (induction "length (wr_queue w)" arbitrary: w)
    case 0
    then show ?case by auto
  next
    case (Suc n)
    show ?case
    proof (cases "op_completed (wr_operations w ! i)")
      case False
      with Suc obtain k queue where q: "wr_queue w = k # queue" by (cases "wr_queue w") auto
      from drain_front [OF Suc.prems(1) q] obtain w1 where w1: "drain_step\<^sup>*\<^sup>* w w1" "writer_inv w1" "wr_queue w1 = queue"
        "op_completed (wr_operations w1 ! k)" by blast
      have "i \<in> set (wr_queue w1) \<or> op_completed (wr_operations w1 ! i)" using Suc.prems(2) False q w1(3,4) by auto
      with Suc.hyps(1) [of w1] Suc.hyps(2) q w1 obtain w' where "drain_step\<^sup>*\<^sup>* w1 w'" "op_completed (wr_operations w' ! i)" by auto
      with w1(1) show ?thesis by (meson rtranclp_trans)
    qed blast
  qed
  moreover note inv = writer_reachable_inv [OF assms(1)]
  moreover have "i \<in> set (wr_queue w) \<or> op_completed (wr_operations w ! i)"
    using writer_invD(5) [OF inv assms(2)] by (simp add: operation_inv_def Let_def)
  ultimately show ?thesis by blast
qed

definition one_call :: Writer where
  "one_call = enqueue ''hi'' new_writer"

lemma one_call_reachable: "writer_reachable one_call"
  unfolding one_call_def by (rule writer_reachable.step [OF writer_reachable.init writer_step.enqueue])


theorem queued_writes_complete_witness: "\<exists>w'. drain_step\<^sup>*\<^sup>* one_call w' \<and> op_completed (wr_operations w' ! 0)"
  using queued_writes_complete [OF one_call_reachable, of 0] by (simp add: one_call_def enqueue_def new_writer_def)

end
