(* ===== verification/ClientModel.thy ===== *)
theory ClientModel
  imports JsonRpc JsonScan Diagnostics
begin

text \<open>
  The client (client/client.cpp): the table of pending requests and the classification and routing
  of the messages the read loop receives. Time is a number of milliseconds, an \<open>std::exception\<close> is
  its \<open>what()\<close>, and a method of the client is a function on its state. The callbacks and handlers of
  the application are functions of the parameters they are called with.
\<close>

subsection \<open>State\<close>

definition request_timeout :: int where "request_timeout = -32001"
definition connection_closed :: int where "connection_closed = -32002"
definition request_cancelled :: int where "request_cancelled = -32800"
definition invalid_request :: int where "invalid_request = -32600"
definition method_not_found :: int where "method_not_found = -32601"
definition internal_error :: int where "internal_error = -32603"
definition parse_error :: int where "parse_error = -32700"

definition plain_error :: "int \<Rightarrow> string \<Rightarrow> 'j Error" where
  "plain_error code message = \<lparr>er_code = code, er_message = message, er_data = None\<rparr>"

text \<open>\<open>pr_signalled\<close>: the timer was set to expire now. \<open>pr_cancel_write\<close> is the shared flag.\<close>

record 'j PendingRequest =
  pr_deadline :: nat
  pr_cancel_write :: bool
  pr_result :: 'j
  pr_error :: "'j Error option"
  pr_write_error :: "string option"
  pr_completed :: bool
  pr_signalled :: bool

datatype 'j Outcome = Got_result 'j | Got_error "'j Error" | Got_write_error string | Timer_failed string

text \<open>A call of \<open>request\<close>: before and during \<open>send_request_wire\<close>, and when it has returned.\<close>

datatype 'j Call = Requested string nat | Waiting nat | Finished nat "'j Outcome"

datatype CallbackResult = Returned_normally | Threw string | Threw_unknown

datatype 'j HandlerResult = Handler_result 'j | Handler_threw string | Handler_threw_unknown

datatype 'j RequestHandler = App_handler "'j \<Rightarrow> 'j HandlerResult" | Roots_handler

record 'j ClientOptions =
  co_request_timeout :: int
  co_strict_protocol_validation :: bool
  co_on_protocol_error :: bool

text \<open>
  \<open>cl_wires\<close> are the messages handed to the writer, \<open>cl_cancelled_writes\<close> the keys whose shared flag
  is set, and \<open>cl_seen\<close> records the objects that were routed, with the time of their arrival.
\<close>

record 'j Client =
  cl_options :: "'j ClientOptions"
  cl_now :: nat
  cl_pending :: "string \<Rightarrow> 'j PendingRequest option"
  cl_calls :: "'j Call list"
  cl_closed :: bool
  cl_read_loop_started :: bool
  cl_close_task :: "string option"
  cl_transport_open :: bool
  cl_wires :: "string list"
  cl_cancelled_writes :: "string set"
  cl_notification_handlers :: "string \<Rightarrow> ('j \<Rightarrow> CallbackResult) option"
  cl_request_handlers :: "string \<Rightarrow> 'j RequestHandler option"
  cl_roots :: "'j list"
  cl_incoming :: "'j list"
  cl_reports :: "'j Error list"
  cl_seen :: "(nat \<times> 'j) list"

definition new_client :: "'j ClientOptions \<Rightarrow> string + 'j Client" where
  "new_client options =
     (if co_request_timeout options \<le> 0 then Inl ''Client request timeout must be positive''
      else Inr \<lparr>cl_options = options, cl_now = 0, cl_pending = Map.empty, cl_calls = [], cl_closed = False,
        cl_read_loop_started = False, cl_close_task = None, cl_transport_open = True, cl_wires = [],
        cl_cancelled_writes = {}, cl_notification_handlers = Map.empty, cl_request_handlers = Map.empty,
        cl_roots = [], cl_incoming = [], cl_reports = [], cl_seen = []\<rparr>)"

text \<open>\<open>McpError\<close>: the text an application logs is flattened and bounded.\<close>

definition mcp_what :: "int \<Rightarrow> string \<Rightarrow> string" where
  "mcp_what code message = ''JSON-RPC error '' @ int_text code @ '': '' @ sanitize_for_diagnostics message"

definition what_text :: "DecodeError \<Rightarrow> string" where
  "what_text e = (case e of Json_error t \<Rightarrow> t | Bad_value t \<Rightarrow> t)"

definition mcp_error :: "int \<Rightarrow> string \<Rightarrow> DecodeError" where
  "mcp_error code message = Bad_value (mcp_what code message)"

subsection \<open>Requests\<close>

text \<open>The call with number \<open>i\<close> (from 0) has the request id \<open>i + 1\<close>, as text.\<close>

definition request_id :: "nat \<Rightarrow> RequestId" where
  "request_id i = Id_string (int_text (int i + 1))"

definition request_key :: "nat \<Rightarrow> string" where
  "request_key i = correlation_key (request_id i)"

definition request_wire :: "'j JsonApi \<Rightarrow> nat \<Rightarrow> string \<Rightarrow> 'j option \<Rightarrow> string" where
  "request_wire api i method' params =
     j_dump api (request_to_json api \<lparr>rq_id = request_id i, rq_jsonrpc = ''2.0'', rq_method = method', rq_params = params\<rparr>)"

definition request :: "'j JsonApi \<Rightarrow> string \<Rightarrow> 'j option \<Rightarrow> int option \<Rightarrow> 'j Client \<Rightarrow> string + 'j Client" where
  "request api method' params timeout' s =
     (let t = (case timeout' of None \<Rightarrow> co_request_timeout (cl_options s) | Some t \<Rightarrow> t) in
      if t \<le> 0 then Inl ''Request timeout must be positive''
      else Inr (s\<lparr>cl_calls := cl_calls s @ [Requested (request_wire api (length (cl_calls s)) method' params) (nat t)]\<rparr>))"

definition finish_call :: "nat \<Rightarrow> 'j Outcome \<Rightarrow> 'j Client \<Rightarrow> 'j Client" where
  "finish_call i outcome s =
     s\<lparr>cl_calls := (cl_calls s)[i := Finished (case cl_calls s ! i of Waiting d \<Rightarrow> d | _ \<Rightarrow> 0) outcome]\<rparr>"

text \<open>\<open>send_request_wire\<close> up to its suspension.\<close>

definition send_request_wire :: "'j JsonApi \<Rightarrow> nat \<Rightarrow> string \<Rightarrow> nat \<Rightarrow> 'j Client \<Rightarrow> 'j Client" where
  "send_request_wire api i wire timeout' s =
     (if cl_closed s then finish_call i (Got_error (plain_error connection_closed ''Client transport is closed'')) s
      else if cl_pending s (request_key i) \<noteq> None
      then finish_call i (Got_error (plain_error invalid_request (''Duplicate pending request id: '' @ request_key i))) s
      else
        (let d = cl_now s + timeout' in
         s\<lparr>cl_pending := (cl_pending s)(request_key i \<mapsto>
             \<lparr>pr_deadline = d, pr_cancel_write = False, pr_result = j_null api, pr_error = None,
              pr_write_error = None, pr_completed = False, pr_signalled = False\<rparr>),
           cl_calls := (cl_calls s)[i := Waiting d], cl_wires := cl_wires s @ [wire]\<rparr>))"

text \<open>The rest of it, when the timer has expired or was signalled.\<close>

definition timeout_error :: "'j JsonApi \<Rightarrow> nat \<Rightarrow> 'j Error" where
  "timeout_error api i =
     \<lparr>er_code = request_timeout, er_message = ''Request timed out'',
      er_data = Some (j_put api (j_empty_object api) ''id'' (j_of_string api (int_text (int i + 1))))\<rparr>"

definition outcome_of :: "'j PendingRequest \<Rightarrow> 'j Outcome" where
  "outcome_of p =
     (case pr_error p of
        Some e \<Rightarrow> Got_error e
      | None \<Rightarrow> (case pr_write_error p of Some e \<Rightarrow> Got_write_error e | None \<Rightarrow> Got_result (pr_result p)))"

definition resume_request :: "'j JsonApi \<Rightarrow> nat \<Rightarrow> 'j Client \<Rightarrow> 'j Client" where
  "resume_request api i s =
     (case cl_pending s (request_key i) of
        None \<Rightarrow> finish_call i (Got_error (plain_error connection_closed (''Pending request was removed: '' @ request_key i))) s
      | Some p \<Rightarrow>
          (let expired = \<not> pr_completed p;
               p' = (if expired then p\<lparr>pr_cancel_write := True, pr_error := Some (timeout_error api i), pr_completed := True\<rparr> else p);
               s' = s\<lparr>cl_pending := (cl_pending s)(request_key i := None),
                      cl_cancelled_writes := (if expired then insert (request_key i) (cl_cancelled_writes s) else cl_cancelled_writes s)\<rparr>
           in finish_call i (outcome_of p') s'))"

text \<open>The wait failed with another error than the one of an aborted wait.\<close>

definition timer_failed :: "nat \<Rightarrow> string \<Rightarrow> 'j Client \<Rightarrow> 'j Client" where
  "timer_failed i error s = finish_call i (Timer_failed error) (s\<lparr>cl_pending := (cl_pending s)(request_key i := None)\<rparr>)"

definition complete_request_write :: "string \<Rightarrow> string option \<Rightarrow> 'j Client \<Rightarrow> 'j Client" where
  "complete_request_write key write_error s =
     (case write_error of
        None \<Rightarrow> s
      | Some w \<Rightarrow>
          (case cl_pending s key of
             None \<Rightarrow> s
           | Some p \<Rightarrow>
               if pr_completed p \<or> pr_deadline p \<le> cl_now s then s
               else
                 (let p' = (if cl_closed s then p\<lparr>pr_error := Some (plain_error connection_closed ''Client transport is closed'')\<rparr>
                            else p\<lparr>pr_write_error := Some w\<rparr>)
                  in s\<lparr>cl_pending := (cl_pending s)(key \<mapsto> p'\<lparr>pr_completed := True, pr_signalled := True\<rparr>)\<rparr>)))"

definition fail_request :: "'j Error \<Rightarrow> 'j PendingRequest \<Rightarrow> 'j PendingRequest" where
  "fail_request e p =
     (if pr_completed p then p else p\<lparr>pr_error := Some e, pr_completed := True\<rparr>)\<lparr>pr_signalled := True\<rparr>"

definition fail_pending_requests :: "'j Error \<Rightarrow> 'j Client \<Rightarrow> 'j Client" where
  "fail_pending_requests e s = s\<lparr>cl_pending := (\<lambda>k. map_option (fail_request e) (cl_pending s k))\<rparr>"

definition request_close :: "string \<Rightarrow> 'j Client \<Rightarrow> 'j Client" where
  "request_close message s = (if cl_closed s then s else s\<lparr>cl_closed := True, cl_close_task := Some message\<rparr>)"

definition run_close_task :: "'j Client \<Rightarrow> 'j Client" where
  "run_close_task s =
     (case cl_close_task s of
        None \<Rightarrow> s
      | Some message \<Rightarrow>
          (fail_pending_requests (plain_error connection_closed message) s)\<lparr>cl_close_task := None, cl_transport_open := False\<rparr>)"

text \<open>\<open>read_message\<close> failed: the read loop ends the session. \<open>None\<close> is an exception without a text.\<close>

definition read_loop_failed :: "string option \<Rightarrow> 'j Client \<Rightarrow> 'j Client" where
  "read_loop_failed what s =
     (fail_pending_requests
        (plain_error connection_closed
          (case what of None \<Rightarrow> ''Client read loop stopped''
           | Some t \<Rightarrow> ''Client read loop stopped: '' @ sanitize_for_diagnostics t))
        (s\<lparr>cl_closed := True\<rparr>))\<lparr>cl_transport_open := False\<rparr>"

subsection \<open>Messages from the server\<close>

definition report_protocol_error :: "int \<Rightarrow> string \<Rightarrow> 'j Client \<Rightarrow> 'j Client" where
  "report_protocol_error code message s =
     (if co_on_protocol_error (cl_options s) then s\<lparr>cl_reports := cl_reports s @ [plain_error code message]\<rparr> else s)"

text \<open>What a response says: exactly one of a result and an error.\<close>

definition answer_request :: "'j JsonApi \<Rightarrow> 'j \<Rightarrow> 'j PendingRequest \<Rightarrow> DecodeError + 'j PendingRequest" where
  "answer_request api j p =
     (let has_error = has_json_value api j ''error''; has_result = j_contains api j ''result'' in
      if has_error = has_result
      then Inr (p\<lparr>pr_error := Some (plain_error invalid_request ''JSON-RPC response must contain exactly one of result or error'')\<rparr>)
      else if has_error
      then Inr (p\<lparr>pr_error := Some
             (case get_member api (error_from_json api) j ''error'' of
                Inr e \<Rightarrow> e
              | Inl d \<Rightarrow> plain_error invalid_request
                  (''Malformed JSON-RPC error object: '' @ sanitize_for_diagnostics (what_text d)))\<rparr>)
      else bindE (j_at api j ''result'') (\<lambda>r. Inr (p\<lparr>pr_result := r\<rparr>)))"

definition usable_id :: "'j JsonApi \<Rightarrow> 'j \<Rightarrow> bool" where
  "usable_id api i \<longleftrightarrow> j_is_string api i \<or> j_is_integer api i"

definition dispatch_response :: "'j JsonApi \<Rightarrow> 'j \<Rightarrow> 'j Client \<Rightarrow> DecodeError + 'j Client" where
  "dispatch_response api j s =
     bindE (j_at api j ''id'') (\<lambda>i.
       if \<not> usable_id api i then Inr s
       else bindE (id_from_json api i) (\<lambda>rid.
         case cl_pending s (correlation_key rid) of
           None \<Rightarrow> Inr s
         | Some p \<Rightarrow>
             if pr_deadline p \<le> cl_now s then Inr s
             else bindE (answer_request api j p) (\<lambda>p'.
               Inr (s\<lparr>cl_pending := (cl_pending s)(correlation_key rid \<mapsto> p'\<lparr>pr_completed := True, pr_signalled := True\<rparr>)\<rparr>))))"

record CancelledNotificationParams =
  cn_request_id :: RequestId
  cn_reason :: "string option"

definition cancelled_from_json :: "'j JsonApi \<Rightarrow> 'j \<Rightarrow> DecodeError + CancelledNotificationParams" where
  "cancelled_from_json api j =
     bindE (get_member api (id_from_json api) j ''requestId'') (\<lambda>i.
     bindE (get_optional api (j_string api) j ''reason'') (\<lambda>reason.
       Inr \<lparr>cn_request_id = i, cn_reason = reason\<rparr>))"

definition cancelled_to_json :: "'j JsonApi \<Rightarrow> CancelledNotificationParams \<Rightarrow> 'j" where
  "cancelled_to_json api p =
     put_optional api (j_of_string api) (j_put api (j_empty_object api) ''requestId'' (id_to_json api (cn_request_id p)))
       ''reason'' (cn_reason p)"

definition cancel_request :: "string \<Rightarrow> 'j Client \<Rightarrow> 'j Client" where
  "cancel_request key s =
     (case cl_pending s key of
        None \<Rightarrow> s
      | Some p \<Rightarrow>
          if cl_now s < pr_deadline p
          then s\<lparr>cl_pending := (cl_pending s)(key \<mapsto>
                 p\<lparr>pr_error := Some (plain_error request_cancelled ''Request cancelled by server''),
                   pr_completed := True, pr_signalled := True\<rparr>)\<rparr>
          else s)"

definition params_of :: "'j JsonApi \<Rightarrow> 'j \<Rightarrow> DecodeError + 'j" where
  "params_of api j = (if has_json_value api j ''params'' then j_at api j ''params'' else Inr (j_empty_object api))"

definition run_callback :: "string \<Rightarrow> CallbackResult \<Rightarrow> 'j Client \<Rightarrow> 'j Client" where
  "run_callback method' r s =
     (case r of
        Returned_normally \<Rightarrow> s
      | Threw t \<Rightarrow> report_protocol_error internal_error
          (''Notification callback for '' @ sanitize_for_diagnostics method' @ '' threw: '' @ sanitize_for_diagnostics t) s
      | Threw_unknown \<Rightarrow> report_protocol_error internal_error
          (''Notification callback for '' @ sanitize_for_diagnostics method' @ '' threw'') s)"

definition dispatch_notification :: "'j JsonApi \<Rightarrow> 'j \<Rightarrow> 'j Client \<Rightarrow> DecodeError + 'j Client" where
  "dispatch_notification api j s =
     bindE (get_member api (j_string api) j ''method'') (\<lambda>method'.
       if method' = ''notifications/cancelled''
       then if has_json_value api j ''params''
            then bindE (get_member api (cancelled_from_json api) j ''params'') (\<lambda>p.
                   Inr (cancel_request (correlation_key (cn_request_id p)) s))
            else Inr s
       else
         (case cl_notification_handlers s method' of
            None \<Rightarrow> Inr s
          | Some callback \<Rightarrow> bindE (params_of api j) (\<lambda>params. Inr (run_callback method' (callback params) s))))"

text \<open>The checks of \<open>dispatch_message\<close> before anything is routed.\<close>

definition check_version :: "'j JsonApi \<Rightarrow> 'j \<Rightarrow> DecodeError + unit" where
  "check_version api j =
     (if \<not> j_contains api j ''jsonrpc'' then Inl (mcp_error invalid_request ''JSON-RPC message is missing jsonrpc'')
      else bindE (j_at api j ''jsonrpc'') (\<lambda>v.
        if \<not> j_is_string api v then Inl (mcp_error invalid_request ''JSON-RPC message is missing jsonrpc'')
        else bindE (j_string api v) validate_jsonrpc_version))"

definition check_message :: "'j JsonApi \<Rightarrow> (string \<Rightarrow> string) \<Rightarrow> bool \<Rightarrow> string \<Rightarrow> DecodeError + 'j" where
  "check_message api parse_text strict raw =
     (if exceeds_json_depth raw max_peer_json_depth
      then Inl (mcp_error parse_error (''JSON-RPC message nests deeper than '' @ decimal max_peer_json_depth @ '' levels''))
      else
        (case j_parse api raw of
           None \<Rightarrow> Inl (Json_error (parse_text raw))
         | Some j \<Rightarrow>
             if \<not> j_is_object api j then Inl (mcp_error invalid_request ''JSON-RPC message must be an object'')
             else bindE (if strict then check_version api j else Inr ()) (\<lambda>_.
               if j_contains api j ''method''
               then bindE (j_at api j ''method'') (\<lambda>m.
                      if j_is_string api m then Inr j else Inl (mcp_error invalid_request ''JSON-RPC method must be a string''))
               else Inr j)))"

definition route_message :: "'j JsonApi \<Rightarrow> 'j \<Rightarrow> 'j Client \<Rightarrow> DecodeError + 'j Client" where
  "route_message api j s =
     (let has_id = j_contains api j ''id''; has_method = j_contains api j ''method'' in
      if has_id \<and> \<not> has_method then dispatch_response api j s
      else if has_id \<and> has_method
      then bindE (j_at api j ''id'') (\<lambda>i.
             if usable_id api i then Inr (s\<lparr>cl_incoming := cl_incoming s @ [j]\<rparr>)
             else Inl (mcp_error invalid_request ''JSON-RPC request id must be a string or integer''))
      else if has_method then dispatch_notification api j s
      else Inr s)"

text \<open>\<open>parse_text\<close> is the text of the library's exception for a text that is not JSON.\<close>

definition dispatch_message :: "'j JsonApi \<Rightarrow> (string \<Rightarrow> string) \<Rightarrow> string \<Rightarrow> 'j Client \<Rightarrow> 'j Client" where
  "dispatch_message api parse_text raw s =
     (let r = bindE (check_message api parse_text (co_strict_protocol_validation (cl_options s)) raw) (\<lambda>j.
                route_message api j (s\<lparr>cl_seen := cl_seen s @ [(cl_now s, j)]\<rparr>))
      in case r of
           Inr s' \<Rightarrow> s'
         | Inl e \<Rightarrow> report_protocol_error parse_error
             (''Dropped an undecodable message from the peer: '' @ sanitize_for_diagnostics (what_text e)) s)"

subsection \<open>Requests from the server\<close>

definition make_result_wire :: "'j JsonApi \<Rightarrow> RequestId \<Rightarrow> 'j \<Rightarrow> string" where
  "make_result_wire api i r = j_dump api (result_to_json api \<lparr>rr_id = i, rr_jsonrpc = ''2.0'', rr_result = r\<rparr>)"

definition make_error_wire :: "'j JsonApi \<Rightarrow> RequestId \<Rightarrow> int \<Rightarrow> string \<Rightarrow> string" where
  "make_error_wire api i code message =
     j_dump api (error_response_to_json api \<lparr>re_error = plain_error code message, re_jsonrpc = ''2.0'', re_id = Some i\<rparr>)"

definition roots_result :: "'j JsonApi \<Rightarrow> 'j list \<Rightarrow> 'j" where
  "roots_result api roots = j_put api (j_empty_object api) ''roots'' (j_of_list api roots)"

definition run_handler :: "'j JsonApi \<Rightarrow> 'j Client \<Rightarrow> 'j RequestHandler \<Rightarrow> 'j \<Rightarrow> 'j HandlerResult" where
  "run_handler api s h params =
     (case h of App_handler f \<Rightarrow> f params | Roots_handler \<Rightarrow> Handler_result (roots_result api (cl_roots s)))"

text \<open>The text of the answer, or the exception that ends the detached coroutine.\<close>

definition dispatch_incoming_request :: "'j JsonApi \<Rightarrow> 'j Client \<Rightarrow> 'j \<Rightarrow> DecodeError + string" where
  "dispatch_incoming_request api s j =
     bindE (get_member api (j_string api) j ''method'') (\<lambda>method'.
       case cl_request_handlers s method' of
         Some h \<Rightarrow>
           bindE (params_of api j) (\<lambda>params.
           bindE (get_member api (id_from_json api) j ''id'') (\<lambda>i.
             case run_handler api s h params of
               Handler_result r \<Rightarrow> Inr (make_result_wire api i r)
             | Handler_threw t \<Rightarrow> Inr (make_error_wire api i internal_error t)
             | Handler_threw_unknown \<Rightarrow> Inr (make_error_wire api i internal_error ''Request handler failed'')))
       | None \<Rightarrow>
           bindE (get_member api (id_from_json api) j ''id'') (\<lambda>i.
             if method' = ''ping'' then Inr (make_result_wire api i (j_empty_object api))
             else Inr (make_error_wire api i method_not_found (''Method not found: '' @ method'))))"

definition serve_incoming :: "'j JsonApi \<Rightarrow> 'j \<Rightarrow> 'j list \<Rightarrow> 'j Client \<Rightarrow> 'j Client" where
  "serve_incoming api j rest s =
     (case dispatch_incoming_request api s j of
        Inl e \<Rightarrow> s\<lparr>cl_incoming := rest\<rparr>
      | Inr wire \<Rightarrow> s\<lparr>cl_incoming := rest, cl_wires := cl_wires s @ [wire]\<rparr>)"

subsection \<open>The public operations\<close>

text \<open>\<open>send_notification_wire\<close>: the closed client refuses, otherwise the message goes to the writer.\<close>

definition send_notification :: "'j JsonApi \<Rightarrow> string \<Rightarrow> 'j option \<Rightarrow> 'j Client \<Rightarrow> 'j Error + 'j Client" where
  "send_notification api method' params s =
     (if \<not> cl_read_loop_started s
      then Inl (plain_error invalid_request ''Client must connect before sending notifications'')
      else if cl_closed s then Inl (plain_error connection_closed ''Client transport is closed'')
      else Inr (s\<lparr>cl_wires := cl_wires s @
        [j_dump api (notification_to_json api \<lparr>nt_jsonrpc = ''2.0'', nt_method = method', nt_params = params\<rparr>)]\<rparr>))"

definition cancel_call :: "'j JsonApi \<Rightarrow> RequestId \<Rightarrow> string option \<Rightarrow> 'j Client \<Rightarrow> 'j Error + 'j Client" where
  "cancel_call api i reason s =
     send_notification api ''notifications/cancelled''
       (Some (cancelled_to_json api \<lparr>cn_request_id = i, cn_reason = reason\<rparr>)) s"

text \<open>\<open>connect\<close> starts the read loop once; the request it then makes is a call like any other.\<close>

definition begin_connect :: "'j Client \<Rightarrow> 'j Error + 'j Client" where
  "begin_connect s =
     (if cl_closed s then Inl (plain_error connection_closed ''Client is closed'')
      else if cl_read_loop_started s then Inl (plain_error invalid_request ''Client has already been initialized'')
      else Inr (s\<lparr>cl_read_loop_started := True\<rparr>))"

definition on_notification :: "string \<Rightarrow> ('j \<Rightarrow> CallbackResult) \<Rightarrow> 'j Client \<Rightarrow> 'j Client" where
  "on_notification method' callback s =
     s\<lparr>cl_notification_handlers := (cl_notification_handlers s)(method' \<mapsto> callback)\<rparr>"

definition on_request :: "string \<Rightarrow> ('j \<Rightarrow> 'j HandlerResult) \<Rightarrow> 'j Client \<Rightarrow> 'j Client" where
  "on_request method' handler s =
     s\<lparr>cl_request_handlers := (cl_request_handlers s)(method' \<mapsto> App_handler handler)\<rparr>"

text \<open>\<open>set_roots\<close>, up to the notification it may send; an existing handler is kept.\<close>

definition set_roots :: "'j list \<Rightarrow> 'j Client \<Rightarrow> 'j Client" where
  "set_roots roots s =
     s\<lparr>cl_roots := roots,
       cl_request_handlers := (if cl_request_handlers s ''roots/list'' = None
         then (cl_request_handlers s)(''roots/list'' \<mapsto> Roots_handler) else cl_request_handlers s)\<rparr>"

subsection \<open>Runs of a client\<close>

definition timer_ready :: "nat \<Rightarrow> 'j Client \<Rightarrow> bool" where
  "timer_ready i s \<longleftrightarrow>
     (case cl_calls s ! i of
        Waiting d \<Rightarrow> d \<le> cl_now s \<or> (\<exists>p. cl_pending s (request_key i) = Some p \<and> pr_signalled p)
      | _ \<Rightarrow> False)"

inductive client_step :: "'j JsonApi \<Rightarrow> (string \<Rightarrow> string) \<Rightarrow> 'j Client \<Rightarrow> 'j Client \<Rightarrow> bool" for api parse_text where
  time_passes: "client_step api parse_text s (s\<lparr>cl_now := cl_now s + t\<rparr>)"
| connected: "begin_connect s = Inr s' \<Longrightarrow> client_step api parse_text s s'"
| requested: "cl_read_loop_started s \<Longrightarrow> request api method' params timeout' s = Inr s' \<Longrightarrow> client_step api parse_text s s'"
| started: "i < length (cl_calls s) \<Longrightarrow> cl_calls s ! i = Requested wire timeout' \<Longrightarrow>
    client_step api parse_text s (send_request_wire api i wire timeout' s)"
| resumed: "i < length (cl_calls s) \<Longrightarrow> timer_ready i s \<Longrightarrow> client_step api parse_text s (resume_request api i s)"
| wait_failed: "i < length (cl_calls s) \<Longrightarrow> cl_calls s ! i = Waiting d \<Longrightarrow> client_step api parse_text s (timer_failed i e s)"
| written: "client_step api parse_text s (complete_request_write key e s)"
| notified: "send_notification api method' params s = Inr s' \<Longrightarrow> client_step api parse_text s s'"
| close_requested: "client_step api parse_text s (request_close message s)"
| close_ran: "client_step api parse_text s (run_close_task s)"
| read_failed: "cl_read_loop_started s \<Longrightarrow> client_step api parse_text s (read_loop_failed what s)"
| received: "cl_read_loop_started s \<Longrightarrow> client_step api parse_text s (dispatch_message api parse_text raw s)"
| served: "cl_incoming s = before @ j # after \<Longrightarrow> client_step api parse_text s (serve_incoming api j (before @ after) s)"
| callback_set: "client_step api parse_text s (on_notification method' callback s)"
| handler_set: "client_step api parse_text s (on_request method' handler s)"
| roots_set: "client_step api parse_text s (set_roots roots s)"

inductive_cases client_stepE: "client_step api parse_text s s'"

inductive client_reachable :: "'j JsonApi \<Rightarrow> (string \<Rightarrow> string) \<Rightarrow> 'j Client \<Rightarrow> bool" for api parse_text where
  init: "new_client options = Inr s \<Longrightarrow> client_reachable api parse_text s"
| step: "client_reachable api parse_text s \<Longrightarrow> client_step api parse_text s s' \<Longrightarrow> client_reachable api parse_text s'"

end
