(* ===== verification/ClientProps.thy ===== *)
theory ClientProps
  imports ClientModel
begin

text \<open>
  What the client promises of its requests: each is answered once, by a message that answers it, by
  its deadline or by the end of the session, and none is left in the table. And what it promises of
  the requests and messages of the server.
\<close>

subsection \<open>Keys\<close>

lemma request_key_inject [simp]: "request_key i = request_key j \<longleftrightarrow> i = j"
proof
  assume "request_key i = request_key j"
  then have "int_text (int i + 1) = int_text (int j + 1)" by (simp add: request_key_def request_id_def correlation_key_def)
  then show "i = j" using int_text_inject by fastforce
qed simp

subsection \<open>What explains an outcome\<close>

definition answers :: "'j JsonApi \<Rightarrow> 'j \<Rightarrow> nat \<Rightarrow> bool" where
  "answers api j i \<longleftrightarrow>
     (\<exists>v rid. j_at api j ''id'' = Inr v \<and> id_from_json api v = Inr rid \<and> correlation_key rid = request_key i)
   \<and> \<not> j_contains api j ''method''"

definition cancels :: "'j JsonApi \<Rightarrow> 'j \<Rightarrow> nat \<Rightarrow> bool" where
  "cancels api j i \<longleftrightarrow>
     get_member api (j_string api) j ''method'' = Inr ''notifications/cancelled''
   \<and> (\<exists>p. get_member api (cancelled_from_json api) j ''params'' = Inr p \<and> correlation_key (cn_request_id p) = request_key i)"

definition explains_result :: "'j JsonApi \<Rightarrow> 'j Client \<Rightarrow> nat \<Rightarrow> nat \<Rightarrow> 'j \<Rightarrow> bool" where
  "explains_result api s i d r \<longleftrightarrow>
     (\<exists>(t, j) \<in> set (cl_seen s). t < d \<and> answers api j i \<and> j_at api j ''result'' = Inr r \<and> \<not> has_json_value api j ''error'')"

text \<open>An error is the one the server sent, a verdict on a malformed answer, the server's cancellation,
  the time-out once the deadline has passed, or the end of the session.\<close>

definition explains_error :: "'j JsonApi \<Rightarrow> 'j Client \<Rightarrow> nat \<Rightarrow> nat \<Rightarrow> 'j Error \<Rightarrow> bool" where
  "explains_error api s i d e \<longleftrightarrow>
     (\<exists>(t, j) \<in> set (cl_seen s). t < d \<and> answers api j i \<and>
        (get_member api (error_from_json api) j ''error'' = Inr e \<and> has_json_value api j ''error''
         \<or> er_code e = invalid_request))
   \<or> (\<exists>(t, j) \<in> set (cl_seen s). t < d \<and> cancels api j i \<and> er_code e = request_cancelled)
   \<or> e = timeout_error api i \<and> d \<le> cl_now s
   \<or> er_code e = connection_closed \<and> cl_closed s"

definition explained :: "'j JsonApi \<Rightarrow> 'j Client \<Rightarrow> nat \<Rightarrow> nat \<Rightarrow> 'j Outcome \<Rightarrow> bool" where
  "explained api s i d outcome \<longleftrightarrow>
     (case outcome of
        Got_result r \<Rightarrow> explains_result api s i d r
      | Got_error e \<Rightarrow> explains_error api s i d e
      | Got_write_error w \<Rightarrow> True
      | Timer_failed w \<Rightarrow> True)"

text \<open>Explanations last: time goes on, messages are only added, and a closed client stays closed.\<close>

definition later :: "'j Client \<Rightarrow> 'j Client \<Rightarrow> bool" where
  "later s s' \<longleftrightarrow> set (cl_seen s) \<subseteq> set (cl_seen s') \<and> cl_now s \<le> cl_now s' \<and> (cl_closed s \<longrightarrow> cl_closed s')"

lemma later_refl [simp]: "later s s" by (simp add: later_def)

lemma explains_result_later: "later s s' \<Longrightarrow> explains_result api s i d r \<Longrightarrow> explains_result api s' i d r"
  unfolding later_def explains_result_def by blast

lemma explains_error_later:
  assumes "later s s'" "explains_error api s i d e"
  shows "explains_error api s' i d e"
proof -
  from assms(1) have l: "set (cl_seen s) \<subseteq> set (cl_seen s')" "cl_now s \<le> cl_now s'" "cl_closed s \<longrightarrow> cl_closed s'"
    by (simp_all add: later_def)
  from assms(2) show ?thesis unfolding explains_error_def using l by (elim disjE) (blast | fastforce)+
qed

lemma explained_later: "later s s' \<Longrightarrow> explained api s i d r \<Longrightarrow> explained api s' i d r"
  by (auto simp: explained_def explains_result_later explains_error_later split: Outcome.splits)

subsection \<open>The invariant\<close>

definition pending_ok :: "'j JsonApi \<Rightarrow> 'j Client \<Rightarrow> nat \<Rightarrow> 'j PendingRequest \<Rightarrow> bool" where
  "pending_ok api s i p \<longleftrightarrow>
     (pr_signalled p \<longleftrightarrow> pr_completed p)
   \<and> (pr_completed p \<longrightarrow> explained api s i (pr_deadline p) (outcome_of p))
   \<and> (\<not> pr_completed p \<longrightarrow> pr_error p = None \<and> pr_write_error p = None)"

definition call_ok :: "'j JsonApi \<Rightarrow> 'j Client \<Rightarrow> nat \<Rightarrow> bool" where
  "call_ok api s i \<longleftrightarrow>
     (case cl_calls s ! i of
        Requested w t \<Rightarrow> cl_pending s (request_key i) = None
      | Waiting d \<Rightarrow> (\<exists>p. cl_pending s (request_key i) = Some p \<and> pr_deadline p = d \<and> pending_ok api s i p)
      | Finished d outcome \<Rightarrow> cl_pending s (request_key i) = None \<and> explained api s i d outcome)"

definition client_inv :: "'j JsonApi \<Rightarrow> 'j Client \<Rightarrow> bool" where
  "client_inv api s \<longleftrightarrow>
     (\<forall>i < length (cl_calls s). call_ok api s i)
   \<and> (\<forall>k. cl_pending s k \<noteq> None \<longrightarrow> (\<exists>i < length (cl_calls s). k = request_key i))
   \<and> (cl_closed s \<and> cl_close_task s = None \<longrightarrow> (\<forall>k p. cl_pending s k = Some p \<longrightarrow> pr_completed p))
   \<and> (cl_close_task s \<noteq> None \<longrightarrow> cl_closed s)"

lemma client_invD:
  assumes "client_inv api s"
  shows "i < length (cl_calls s) \<Longrightarrow> call_ok api s i"
    "cl_pending s k = Some p \<Longrightarrow> \<exists>i < length (cl_calls s). k = request_key i"
    "cl_closed s \<Longrightarrow> cl_close_task s = None \<Longrightarrow> cl_pending s k = Some p \<Longrightarrow> pr_completed p"
    "cl_close_task s = Some m \<Longrightarrow> cl_closed s"
  using assms unfolding client_inv_def by blast+

lemma pending_ok_later: "later s s' \<Longrightarrow> pending_ok api s i p \<Longrightarrow> pending_ok api s' i p"
  by (auto simp: pending_ok_def explained_later)

lemma call_ok_later:
  "later s s' \<Longrightarrow> cl_calls s' ! i = cl_calls s ! i \<Longrightarrow> cl_pending s' (request_key i) = cl_pending s (request_key i)
     \<Longrightarrow> call_ok api s i \<Longrightarrow> call_ok api s' i"
  by (auto simp: call_ok_def explained_later pending_ok_later split: Call.splits)

text \<open>A step that leaves calls and table alone, and does not close the client.\<close>

lemma client_inv_frame:
  assumes "client_inv api s" "later s s'" "cl_calls s' = cl_calls s" "cl_pending s' = cl_pending s"
    and "cl_closed s' = cl_closed s" "cl_close_task s' = cl_close_task s"
  shows "client_inv api s'"
  using assms call_ok_later [OF assms(2)] unfolding client_inv_def by auto

text \<open>The entry of one pending request is replaced.\<close>

lemma client_inv_put:
  assumes inv: "client_inv api s" and p: "cl_pending s (request_key i) = Some p"
    and p': "pr_deadline p' = pr_deadline p" "pending_ok api s' i p'" "pr_completed p \<longrightarrow> pr_completed p'"
    and s': "later s s'" "cl_calls s' = cl_calls s" "cl_pending s' = (cl_pending s)(request_key i \<mapsto> p')"
      "cl_closed s' = cl_closed s" "cl_close_task s' = cl_close_task s"
  shows "client_inv api s'"
proof -
  have i: "i < length (cl_calls s)" using client_invD(2) [OF inv p] by auto
  have "call_ok api s' k" if k: "k < length (cl_calls s)" for k
  proof (cases "k = i")
    case True
    with client_invD(1) [OF inv k] p p' s' show ?thesis by (auto simp: call_ok_def split: Call.splits)
  next
    case False
    with client_invD(1) [OF inv k] s' show ?thesis by (auto intro: call_ok_later [OF s'(1)])
  qed
  moreover have "\<exists>i < length (cl_calls s). k = request_key i" if "cl_pending s' k \<noteq> None" for k
    using that client_invD(2) [OF inv, of k] i s'(3) by (cases "k = request_key i") auto
  moreover have "pr_completed q" if "cl_closed s" "cl_close_task s = None" "cl_pending s' k = Some q" for k q
    using that client_invD(3) [OF inv that(1,2)] p p'(3) s'(3) by (cases "k = request_key i") auto
  moreover have "cl_closed s" if "cl_close_task s \<noteq> None"
    using that inv by (simp add: client_inv_def)
  ultimately show ?thesis using s' unfolding client_inv_def by auto
qed

text \<open>A call gets a new state, and with it its entry.\<close>

lemma client_inv_call:
  assumes inv: "client_inv api s" and i: "i < length (cl_calls s)"
    and s': "later s s'" "cl_calls s' = (cl_calls s)[i := c]" "cl_pending s' = (cl_pending s)(request_key i := v)"
      "cl_closed s' = cl_closed s" "cl_close_task s' = cl_close_task s"
    and c: "call_ok api s' i" and v: "cl_closed s \<Longrightarrow> v = None"
  shows "client_inv api s'"
proof -
  have "call_ok api s' k" if k: "k < length (cl_calls s)" for k
  proof (cases "k = i")
    case True
    with c show ?thesis by simp
  next
    case False
    with client_invD(1) [OF inv k] s' show ?thesis by (auto intro: call_ok_later [OF s'(1)])
  qed
  moreover have "\<exists>i < length (cl_calls s). k = request_key i" if "cl_pending s' k \<noteq> None" for k
    using that client_invD(2) [OF inv, of k] i s'(3) by (cases "k = request_key i") auto
  moreover have "pr_completed q" if "cl_closed s" "cl_close_task s = None" "cl_pending s' k = Some q" for k q
    using that client_invD(3) [OF inv that(1,2)] v [OF that(1)] s'(3) by (cases "k = request_key i") auto
  moreover have "cl_closed s" if "cl_close_task s \<noteq> None"
    using that inv by (simp add: client_inv_def)
  ultimately show ?thesis using s' unfolding client_inv_def by auto
qed

lemma finish_call_selects [simp]:
  "cl_seen (finish_call i r s) = cl_seen s" "cl_now (finish_call i r s) = cl_now s" "cl_closed (finish_call i r s) = cl_closed s"
  "cl_close_task (finish_call i r s) = cl_close_task s" "cl_pending (finish_call i r s) = cl_pending s"
  "cl_calls (finish_call i r s) = (cl_calls s)[i := Finished (case cl_calls s ! i of Waiting d \<Rightarrow> d | _ \<Rightarrow> 0) r]"
  by (simp_all add: finish_call_def)

lemma explains_selects:
  "cl_seen s' = cl_seen s \<Longrightarrow> cl_now s' = cl_now s \<Longrightarrow> cl_closed s' = cl_closed s \<Longrightarrow>
     explained api s' i d r = explained api s i d r"
  by (simp add: explained_def explains_result_def explains_error_def split: Outcome.split)

lemma send_request_wire_inv:
  assumes inv: "client_inv api s" and i: "i < length (cl_calls s)" "cl_calls s ! i = Requested w t"
  shows "client_inv api (send_request_wire api i wire t' s)"
proof -
  have n: "cl_pending s (request_key i) = None" using client_invD(1) [OF inv i(1)] i(2) by (simp add: call_ok_def)
  have e: "explained api s i d (Got_error (plain_error connection_closed m))" if "cl_closed s" for d m
    using that by (simp add: explained_def explains_error_def plain_error_def)
  show ?thesis
  proof (cases "cl_closed s")
    case True
    let ?s = "finish_call i (Got_error (plain_error connection_closed ''Client transport is closed'')) s"
    have "client_inv api ?s"
    proof (rule client_inv_call [OF inv i(1), where v = None])
      show "call_ok api ?s i" using i n e [OF True] by (simp add: call_ok_def explains_selects [of ?s s])
    qed (use n in \<open>auto simp: later_def\<close>)
    with True show ?thesis by (simp add: send_request_wire_def)
  next
    case False
    show ?thesis
      using False n i
      by (intro client_inv_call [OF inv i(1)])
        (auto simp: send_request_wire_def Let_def later_def call_ok_def pending_ok_def)
  qed
qed

lemma resume_request_inv:
  assumes inv: "client_inv api s" and i: "i < length (cl_calls s)" and ready: "timer_ready i s"
  shows "client_inv api (resume_request api i s)
    \<and> (\<exists>d r. cl_calls s ! i = Waiting d \<and> cl_calls (resume_request api i s) = (cl_calls s)[i := Finished d r])"
proof -
  obtain d where d: "cl_calls s ! i = Waiting d" using ready by (auto simp: timer_ready_def split: Call.splits)
  then obtain p where p: "cl_pending s (request_key i) = Some p" "pr_deadline p = d" "pending_ok api s i p"
    using client_invD(1) [OF inv i] by (auto simp: call_ok_def)
  have "explained api s i d (if pr_completed p then outcome_of p else Got_error (timeout_error api i))"
  proof (cases "pr_completed p")
    case True
    with p show ?thesis by (auto simp: pending_ok_def)
  next
    case False
    with p ready d have "d \<le> cl_now s" by (auto simp: timer_ready_def pending_ok_def)
    with False show ?thesis by (simp add: explained_def explains_error_def)
  qed
  then have e: "explained api (resume_request api i s) i d (if pr_completed p then outcome_of p else Got_error (timeout_error api i))"
    using p by (subst explains_selects [of "resume_request api i s" s]) (simp_all add: resume_request_def Let_def)
  have c: "cl_calls (resume_request api i s)
      = (cl_calls s)[i := Finished d (if pr_completed p then outcome_of p else Got_error (timeout_error api i))]"
    using p d by (simp add: resume_request_def Let_def outcome_of_def)
  have "client_inv api (resume_request api i s)"
    by (rule client_inv_call [OF inv i _ c, where v = None])
      (use p i c e in \<open>auto simp: resume_request_def Let_def later_def call_ok_def\<close>)
  with c d show ?thesis by blast
qed

lemma timer_failed_inv:
  assumes "client_inv api s" "i < length (cl_calls s)" "cl_calls s ! i = Waiting d"
  shows "client_inv api (timer_failed i e s)"
  by (rule client_inv_call [OF assms(1,2), where v = None])
    (use assms in \<open>auto simp: timer_failed_def later_def call_ok_def explained_def\<close>)

text \<open>A pending request is given an answer.\<close>

lemma client_inv_pending:
  assumes inv: "client_inv api s" and p: "cl_pending s key = Some p"
    and p': "pr_deadline p' = pr_deadline p" "pr_completed p'"
    and ok: "\<And>i. i < length (cl_calls s) \<Longrightarrow> key = request_key i \<Longrightarrow> pending_ok api s i p \<Longrightarrow> pending_ok api s i p'"
  shows "client_inv api (s\<lparr>cl_pending := (cl_pending s)(key \<mapsto> p')\<rparr>)"
proof -
  let ?s = "s\<lparr>cl_pending := (cl_pending s)(key \<mapsto> p')\<rparr>"
  obtain i where i: "i < length (cl_calls s)" "key = request_key i" using client_invD(2) [OF inv p] by blast
  have "pending_ok api s i p" using client_invD(1) [OF inv i(1)] p i(2) by (auto simp: call_ok_def split: Call.splits)
  with ok i have "pending_ok api s i p'" by blast
  then have "pending_ok api ?s i p'" by (simp add: pending_ok_def explains_selects [of ?s s])
  with p p' i(2) show ?thesis
    by (intro client_inv_put [OF inv, of i p p']) (simp_all add: later_def)
qed

lemma complete_request_write_inv:
  assumes inv: "client_inv api s"
  shows "client_inv api (complete_request_write key e s)"
proof -
  have "client_inv api (s\<lparr>cl_pending := (cl_pending s)(key \<mapsto>
      (if cl_closed s then p\<lparr>pr_error := Some (plain_error connection_closed ''Client transport is closed'')\<rparr>
       else p\<lparr>pr_write_error := Some w\<rparr>)\<lparr>pr_completed := True, pr_signalled := True\<rparr>)\<rparr>)"
    if p: "cl_pending s key = Some p" "\<not> pr_completed p" for p w
    by (rule client_inv_pending [OF inv p(1)])
      (use p(2) in \<open>auto simp: pending_ok_def explained_def outcome_of_def explains_error_def plain_error_def\<close>)
  with inv show ?thesis by (simp add: complete_request_write_def Let_def split: option.split)
qed

lemma fail_pending_inv:
  assumes inv: "client_inv api s" and e: "er_code e = connection_closed" and s': "later s s'" "cl_closed s'"
    "cl_calls s' = cl_calls s" "cl_pending s' = (\<lambda>k. map_option (fail_request e) (cl_pending s k))"
  shows "client_inv api s'"
proof -
  have ok: "pending_ok api s' i (fail_request e p)" if "pending_ok api s i p" for i p
    using pending_ok_later [OF s'(1) that] e s'(2)
    by (auto simp: pending_ok_def fail_request_def explained_def outcome_of_def explains_error_def split: option.splits)
  have d: "pr_deadline (fail_request e p) = pr_deadline p" for p by (simp add: fail_request_def)
  have "call_ok api s' i" if "i < length (cl_calls s)" for i
    using client_invD(1) [OF inv that] s' ok
    by (auto simp: call_ok_def d explained_later split: Call.splits)
  moreover have "\<exists>i < length (cl_calls s). k = request_key i" if "cl_pending s' k \<noteq> None" for k
    using that client_invD(2) [OF inv, of k] s'(4) by auto
  moreover have "pr_completed q" if "cl_pending s' k = Some q" for k q
    using that s'(4) by (auto simp: fail_request_def)
  ultimately show ?thesis using s' unfolding client_inv_def by auto
qed

lemma run_close_task_inv:
  assumes inv: "client_inv api s"
  shows "client_inv api (run_close_task s)"
proof (cases "cl_close_task s")
  case None
  with inv show ?thesis by (simp add: run_close_task_def)
next
  case (Some m)
  then have "cl_closed s" using client_invD(4) [OF inv] by blast
  with Some show ?thesis
    by (intro fail_pending_inv [OF inv, of "plain_error connection_closed m"])
      (simp_all add: run_close_task_def fail_pending_requests_def plain_error_def later_def)
qed

lemma read_loop_failed_inv:
  assumes "client_inv api s"
  shows "client_inv api (read_loop_failed what s)"
  by (rule fail_pending_inv [OF assms, of "plain_error connection_closed
        (case what of None \<Rightarrow> ''Client read loop stopped'' | Some t \<Rightarrow> ''Client read loop stopped: '' @ sanitize_for_diagnostics t)"])
    (simp_all add: read_loop_failed_def fail_pending_requests_def plain_error_def later_def)

lemma request_close_inv:
  assumes inv: "client_inv api s"
  shows "client_inv api (request_close m s)"
proof (cases "cl_closed s")
  case True
  with inv show ?thesis by (simp add: request_close_def)
next
  case False
  let ?s = "request_close m s"
  have s: "?s = s\<lparr>cl_closed := True, cl_close_task := Some m\<rparr>" using False by (simp add: request_close_def)
  have "call_ok api ?s i" if "i < length (cl_calls s)" for i
    by (rule call_ok_later [OF _ _ _ client_invD(1) [OF inv that]]) (simp_all add: s later_def)
  then show ?thesis using inv unfolding client_inv_def by (simp add: s)
qed

lemma request_inv:
  assumes inv: "client_inv api s" and r: "request api' m params t s = Inr s'"
  shows "client_inv api s'"
proof -
  let ?n = "length (cl_calls s)"
  obtain w u where s': "s' = s\<lparr>cl_calls := cl_calls s @ [Requested w u]\<rparr>"
    using r by (auto simp: request_def Let_def split: if_splits)
  have n: "cl_pending s (request_key ?n) = None"
    using client_invD(2) [OF inv, of "request_key ?n"] by (cases "cl_pending s (request_key ?n)") auto
  have "call_ok api s' i" if "i < Suc ?n" for i
  proof (cases "i = ?n")
    case True
    with n show ?thesis by (simp add: call_ok_def s')
  next
    case False
    with that have i: "i < ?n" by simp
    show ?thesis
      by (rule call_ok_later [OF _ _ _ client_invD(1) [OF inv i]]) (use i in \<open>simp_all add: s' later_def nth_append\<close>)
  qed
  moreover have "\<exists>i < Suc ?n. k = request_key i" if "cl_pending s k \<noteq> None" for k
    using that client_invD(2) [OF inv, of k] less_SucI by blast
  ultimately show ?thesis using inv unfolding client_inv_def by (simp add: s')
qed

lemma outcome_of_flags [simp]: "outcome_of (p\<lparr>pr_completed := a, pr_signalled := b\<rparr>) = outcome_of p"
  by (cases "pr_error p"; cases "pr_write_error p") (simp_all add: outcome_of_def)

lemma answer_explained:
  assumes ok: "pending_ok api s i p" and j: "(cl_now s, j) \<in> set (cl_seen s)" "cl_now s < pr_deadline p" "answers api j i"
    and p': "answer_request api j p = Inr p'"
  shows "explained api s i (pr_deadline p) (outcome_of p') \<and> pr_deadline p' = pr_deadline p"
proof -
  have err: "explains_error api s i (pr_deadline p) e"
    if "get_member api (error_from_json api) j ''error'' = Inr e \<and> has_json_value api j ''error'' \<or> er_code e = invalid_request" for e
    using that j unfolding explains_error_def by blast
  have res: "explains_result api s i (pr_deadline p) r"
    if "j_at api j ''result'' = Inr r" "\<not> has_json_value api j ''error''" for r
    using that j unfolding explains_result_def by blast
  have old: "explains_error api s i (pr_deadline p) e" if "pr_error p = Some e" for e
    using ok that by (cases "pr_completed p") (auto simp: pending_ok_def explained_def outcome_of_def)
  consider (both) "has_json_value api j ''error'' = j_contains api j ''result''"
    | (error) "has_json_value api j ''error''" "\<not> j_contains api j ''result''"
    | (result) "\<not> has_json_value api j ''error''" "j_contains api j ''result''" by blast
  then show ?thesis
  proof cases
    case both
    with p' err show ?thesis by (auto simp: answer_request_def Let_def outcome_of_def explained_def plain_error_def)
  next
    case error
    with p' err show ?thesis
      by (auto simp: answer_request_def Let_def outcome_of_def explained_def plain_error_def split: sum.splits)
  next
    case result
    with p' have "\<exists>r. j_at api j ''result'' = Inr r \<and> p' = p\<lparr>pr_result := r\<rparr>"
      by (auto simp: answer_request_def Let_def)
    with result(1) res old show ?thesis
      by (auto simp: outcome_of_def explained_def split: option.splits)
  qed
qed

lemma dispatch_response_inv:
  assumes inv: "client_inv api s" and j: "(cl_now s, j) \<in> set (cl_seen s)" "\<not> j_contains api j ''method''"
    and r: "dispatch_response api j s = Inr s'"
  shows "client_inv api s'"
proof -
  have "client_inv api (s\<lparr>cl_pending := (cl_pending s)(correlation_key rid \<mapsto> p'\<lparr>pr_completed := True, pr_signalled := True\<rparr>)\<rparr>)"
    if a: "j_at api j ''id'' = Inr v" "id_from_json api v = Inr rid" and p: "cl_pending s (correlation_key rid) = Some p"
      "cl_now s < pr_deadline p" "answer_request api j p = Inr p'" for v rid p p'
  proof (rule client_inv_pending [OF inv p(1)])
    fix i assume i: "i < length (cl_calls s)" "correlation_key rid = request_key i" "pending_ok api s i p"
    have "answers api j i" using a i(2) j(2) by (auto simp: answers_def)
    from answer_explained [OF i(3) j(1) p(2) this p(3)]
    show "pending_ok api s i (p'\<lparr>pr_completed := True, pr_signalled := True\<rparr>)"
      by (simp add: pending_ok_def)
  next
    obtain i where i: "i < length (cl_calls s)" "correlation_key rid = request_key i" using client_invD(2) [OF inv p(1)] by blast
    then show "pr_deadline (p'\<lparr>pr_completed := True, pr_signalled := True\<rparr>) = pr_deadline p"
      using p(3) by (auto simp: answer_request_def Let_def split: if_splits)
  qed simp
  with inv r show ?thesis
    unfolding dispatch_response_def by (auto split: if_splits option.splits)
qed

lemma cancel_request_inv:
  assumes inv: "client_inv api s" and j: "(cl_now s, j) \<in> set (cl_seen s)"
    "get_member api (j_string api) j ''method'' = Inr ''notifications/cancelled''"
    "get_member api (cancelled_from_json api) j ''params'' = Inr n"
  shows "client_inv api (cancel_request (correlation_key (cn_request_id n)) s)"
proof -
  let ?k = "correlation_key (cn_request_id n)"
  have "client_inv api (s\<lparr>cl_pending := (cl_pending s)(?k \<mapsto>
      p\<lparr>pr_error := Some (plain_error request_cancelled ''Request cancelled by server''), pr_completed := True, pr_signalled := True\<rparr>)\<rparr>)"
    if p: "cl_pending s ?k = Some p" "cl_now s < pr_deadline p" for p
  proof (rule client_inv_pending [OF inv p(1)])
    fix i assume "?k = request_key i"
    then have "cancels api j i" using j(2,3) by (auto simp: cancels_def)
    then have "explains_error api s i (pr_deadline p) (plain_error request_cancelled m)" for m
      using j(1) p(2) by (auto simp: explains_error_def plain_error_def)
    then show "pending_ok api s i (p\<lparr>pr_error := Some (plain_error request_cancelled ''Request cancelled by server''),
        pr_completed := True, pr_signalled := True\<rparr>)"
      by (simp add: pending_ok_def outcome_of_def explained_def)
  qed simp_all
  with inv show ?thesis by (simp add: cancel_request_def split: option.split)
qed

lemma report_frame [simp]:
  "cl_calls (report_protocol_error c m s) = cl_calls s" "cl_pending (report_protocol_error c m s) = cl_pending s"
  "cl_closed (report_protocol_error c m s) = cl_closed s" "cl_close_task (report_protocol_error c m s) = cl_close_task s"
  "cl_seen (report_protocol_error c m s) = cl_seen s" "cl_now (report_protocol_error c m s) = cl_now s"
  by (simp_all add: report_protocol_error_def)

lemma report_inv: "client_inv api s \<Longrightarrow> client_inv api (report_protocol_error c m s)"
  by (erule client_inv_frame) (simp_all add: later_def)

lemma run_callback_report: "run_callback m r s = s \<or> (\<exists>t. run_callback m r s = report_protocol_error internal_error t s)"
  by (cases r) (auto simp: run_callback_def)

lemma run_callback_inv: "client_inv api s \<Longrightarrow> client_inv api (run_callback m r s)"
  using run_callback_report [of m r s] report_inv by metis

lemma route_message_cases:
  assumes "route_message api j s = Inr s'"
  shows "dispatch_response api j s = Inr s' \<and> \<not> j_contains api j ''method''
    \<or> s' = s\<lparr>cl_incoming := cl_incoming s @ [j]\<rparr> \<or> dispatch_notification api j s = Inr s' \<or> s' = s"
proof (cases "j_contains api j ''id'' \<and> j_contains api j ''method''")
  case True
  with assms show ?thesis by (auto simp: route_message_def bindE_def split: sum.splits if_splits)
next
  case False
  with assms show ?thesis by (auto simp: route_message_def Let_def split: if_splits)
qed

lemma route_message_inv:
  assumes inv: "client_inv api s" and j: "(cl_now s, j) \<in> set (cl_seen s)" and r: "route_message api j s = Inr s'"
  shows "client_inv api s'"
proof -
  consider "dispatch_response api j s = Inr s'" "\<not> j_contains api j ''method''"
    | "s' = s\<lparr>cl_incoming := cl_incoming s @ [j]\<rparr>" | "dispatch_notification api j s = Inr s'" | "s' = s"
    using route_message_cases [OF r] by blast
  then show ?thesis
  proof cases
    case 1
    show ?thesis by (rule dispatch_response_inv [OF inv j 1(2) 1(1)])
  next
    case 2
    show ?thesis unfolding 2 by (rule client_inv_frame [OF inv]) (simp_all add: later_def)
  next
    case 3
    then obtain m where m: "get_member api (j_string api) j ''method'' = Inr m" by (auto simp: dispatch_notification_def)
    show ?thesis
    proof (cases "m = ''notifications/cancelled''")
      case True
      with 3 m inv cancel_request_inv [OF inv j] show ?thesis by (auto simp: dispatch_notification_def split: if_splits)
    next
      case False
      with 3 m have "s' = s \<or> (\<exists>r. s' = run_callback m r s)"
        by (auto simp: dispatch_notification_def split: option.splits)
      with inv run_callback_inv show ?thesis by blast
    qed
  next
    case 4
    with inv show ?thesis by simp
  qed
qed

lemma dispatch_message_inv:
  assumes inv: "client_inv api s"
  shows "client_inv api (dispatch_message api parse_text raw s)"
proof -
  have "client_inv api s'" if "route_message api j (s\<lparr>cl_seen := cl_seen s @ [(cl_now s, j)]\<rparr>) = Inr s'" for j s'
    by (rule route_message_inv [OF _ _ that]) (auto intro: client_inv_frame [OF inv] simp: later_def)
  with inv show ?thesis
    unfolding dispatch_message_def Let_def by (auto simp: report_inv split: sum.split)
qed

lemma client_step_inv:
  assumes "client_step api parse_text s s'" "client_inv api s"
  shows "client_inv api s'"
  using assms
proof (cases rule: client_step.cases)
  case (requested m params t)
  with assms(2) show ?thesis by (blast intro: request_inv)
next
  case (started i w t)
  with assms(2) show ?thesis by (blast intro: send_request_wire_inv)
next
  case (resumed i)
  with assms(2) show ?thesis by (blast dest: resume_request_inv)
next
  case (served before j after)
  then show ?thesis using assms(2)
    by (intro client_inv_frame [OF assms(2)]) (auto simp: serve_incoming_def later_def split: sum.splits)
qed (auto intro: timer_failed_inv complete_request_write_inv request_close_inv run_close_task_inv read_loop_failed_inv
      dispatch_message_inv client_inv_frame [OF assms(2)]
    simp: later_def begin_connect_def send_notification_def on_notification_def on_request_def set_roots_def split: if_splits)

lemma client_reachable_inv: "client_reachable api parse_text s \<Longrightarrow> client_inv api s"
proof (induction rule: client_reachable.induct)
  case (init options s)
  then show ?case by (auto simp: new_client_def client_inv_def split: if_splits)
next
  case (step s s')
  then show ?case by (blast intro: client_step_inv)
qed

subsection \<open>The properties\<close>

lemma finish_keeps:
  "cl_calls s ! k = Finished d r \<Longrightarrow> cl_calls s ! i = c \<Longrightarrow> c \<noteq> Finished d r \<Longrightarrow> (cl_calls s)[i := x] ! k = Finished d r"
  by (cases "k = i") auto

lemma dispatch_response_cases:
  assumes "dispatch_response api j s = Inr s'"
  shows "s' = s \<or> (\<exists>k p'. s' = s\<lparr>cl_pending := (cl_pending s)(k \<mapsto> p')\<rparr>)"
proof -
  obtain v where v: "j_at api j ''id'' = Inr v" using assms by (auto simp: dispatch_response_def)
  show ?thesis
  proof (cases "usable_id api v")
    case True
    then obtain rid where r: "id_from_json api v = Inr rid" using assms v by (auto simp: dispatch_response_def)
    show ?thesis using assms v r True by (cases "cl_pending s (correlation_key rid)") (auto simp: dispatch_response_def split: if_splits)
  next
    case False
    with assms v show ?thesis by (simp add: dispatch_response_def)
  qed
qed

lemma route_calls:
  assumes "route_message api j s = Inr s'"
  shows "cl_calls s' = cl_calls s \<and> cl_closed s' = cl_closed s \<and> cl_transport_open s' = cl_transport_open s
    \<and> cl_close_task s' = cl_close_task s \<and> (\<exists>k v. cl_pending s' = (cl_pending s)(k := v))"
proof -
  have same: "\<exists>k v. cl_pending s = (cl_pending s)(k := v)" by (metis fun_upd_triv)
  have report: "cl_calls (report_protocol_error c m s) = cl_calls s \<and> cl_transport_open (report_protocol_error c m s) = cl_transport_open s" for c m
    by (simp add: report_protocol_error_def)
  have "?thesis" if "dispatch_notification api j s = Inr s'"
  proof -
    have "s' = s \<or> (\<exists>k. s' = cancel_request k s) \<or> (\<exists>m r. s' = run_callback m r s)"
      using that by (auto simp: dispatch_notification_def split: if_splits option.splits)
    then consider "s' = s" | k where "s' = cancel_request k s" | m r where "s' = run_callback m r s" by blast
    then show ?thesis
    proof cases
      case 2
      with same show ?thesis by (auto simp: cancel_request_def split: option.splits)
    next
      case (3 m r)
      with report run_callback_report [of m r s]
      have "cl_calls s' = cl_calls s \<and> cl_closed s' = cl_closed s \<and> cl_transport_open s' = cl_transport_open s
        \<and> cl_close_task s' = cl_close_task s \<and> cl_pending s' = cl_pending s" by (elim disjE exE) simp_all
      with same show ?thesis by metis
    qed (use same in auto)
  qed
  moreover have ?thesis if "dispatch_response api j s = Inr s'"
    using dispatch_response_cases [OF that]
  proof
    assume "s' = s"
    with same show ?thesis by blast
  next
    assume "\<exists>k p'. s' = s\<lparr>cl_pending := (cl_pending s)(k \<mapsto> p')\<rparr>"
    then show ?thesis by (elim exE) (simp, blast)
  qed
  moreover have ?thesis if "s' = s\<lparr>cl_incoming := cl_incoming s @ [j]\<rparr> \<or> s' = s"
  proof -
    have "cl_calls s' = cl_calls s" "cl_closed s' = cl_closed s" "cl_transport_open s' = cl_transport_open s"
      "cl_close_task s' = cl_close_task s" "cl_pending s' = cl_pending s" using that by auto
    with same show ?thesis by metis
  qed
  ultimately show ?thesis using route_message_cases [OF assms] by blast
qed

lemma dispatch_message_frame:
  "cl_calls (dispatch_message api parse_text raw s) = cl_calls s
   \<and> cl_closed (dispatch_message api parse_text raw s) = cl_closed s
   \<and> cl_transport_open (dispatch_message api parse_text raw s) = cl_transport_open s
   \<and> cl_close_task (dispatch_message api parse_text raw s) = cl_close_task s
   \<and> (\<exists>k v. cl_pending (dispatch_message api parse_text raw s) = (cl_pending s)(k := v))"
proof -
  have same: "\<exists>k v. cl_pending s = (cl_pending s)(k := v)" by (metis fun_upd_triv)
  consider (fails) e where "dispatch_message api parse_text raw s = report_protocol_error parse_error e s"
    | (routed) j where "route_message api j (s\<lparr>cl_seen := cl_seen s @ [(cl_now s, j)]\<rparr>) = Inr (dispatch_message api parse_text raw s)"
  proof (cases "bindE (check_message api parse_text (co_strict_protocol_validation (cl_options s)) raw)
      (\<lambda>j. route_message api j (s\<lparr>cl_seen := cl_seen s @ [(cl_now s, j)]\<rparr>))")
    case (Inl e)
    then show thesis by (intro fails) (simp add: dispatch_message_def Let_def)
  next
    case (Inr s')
    then obtain j where "route_message api j (s\<lparr>cl_seen := cl_seen s @ [(cl_now s, j)]\<rparr>) = Inr s'" by auto
    moreover have "dispatch_message api parse_text raw s = s'" unfolding dispatch_message_def Let_def Inr by simp
    ultimately show thesis using routed by blast
  qed
  then show ?thesis
  proof cases
    case fails
    with same show ?thesis by (auto simp: report_protocol_error_def)
  next
    case routed
    from route_calls [OF this] show ?thesis by simp
  qed
qed

lemma finished_stays:
  assumes "client_step api parse_text s s'" "k < length (cl_calls s)" "cl_calls s ! k = Finished d r" "client_inv api s"
  shows "k < length (cl_calls s') \<and> cl_calls s' ! k = Finished d r"
  using assms(1)
proof (cases rule: client_step.cases)
  case (requested m params t)
  with assms show ?thesis by (auto simp: request_def Let_def nth_append split: if_splits)
next
  case (started i w t)
  with assms finish_keeps [OF assms(3)] show ?thesis by (auto simp: send_request_wire_def Let_def)
next
  case (resumed i)
  with assms resume_request_inv [OF assms(4), of i] finish_keeps [OF assms(3)] show ?thesis by fastforce
next
  case (wait_failed i)
  with assms finish_keeps [OF assms(3)] show ?thesis by (auto simp: timer_failed_def)
next
  case (received raw)
  with assms dispatch_message_frame show ?thesis by metis
qed (use assms in \<open>auto simp: begin_connect_def send_notification_def on_notification_def on_request_def set_roots_def
      complete_request_write_def request_close_def run_close_task_def read_loop_failed_def fail_pending_requests_def
      serve_incoming_def Let_def split: if_splits option.splits sum.splits\<close>)


text \<open>C17: The table of pending requests holds exactly the calls that wait, under different keys: no entry
  outlives its call, no call waits without an entry, and after a session has ended every entry is completed.\<close>

theorem pending_table_exact:
  assumes "client_reachable api parse_text s"
  shows "dom (cl_pending s) = request_key ` {i. i < length (cl_calls s) \<and> (\<exists>d. cl_calls s ! i = Waiting d)}
    \<and> inj request_key
    \<and> (cl_closed s \<and> cl_close_task s = None \<longrightarrow> (\<forall>p \<in> ran (cl_pending s). pr_completed p \<and> pr_signalled p))"
proof -
  have inv: "client_inv api s" by (rule client_reachable_inv [OF assms])
  have w: "\<exists>d. cl_calls s ! i = Waiting d \<and> pending_ok api s i p"
    if "i < length (cl_calls s)" "cl_pending s (request_key i) = Some p" for i p
    using client_invD(1) [OF inv that(1)] that(2) by (auto simp: call_ok_def split: Call.splits)
  have "dom (cl_pending s) \<subseteq> request_key ` {i. i < length (cl_calls s) \<and> (\<exists>d. cl_calls s ! i = Waiting d)}"
    using client_invD(2) [OF inv] w by (fastforce simp: dom_def)
  moreover have "request_key i \<in> dom (cl_pending s)" if "i < length (cl_calls s)" "cl_calls s ! i = Waiting d" for i d
    using client_invD(1) [OF inv that(1)] that(2) by (auto simp: call_ok_def)
  moreover have "pr_completed p \<and> pr_signalled p"
    if c: "cl_closed s" "cl_close_task s = None" and p: "p \<in> ran (cl_pending s)" for p
  proof -
    obtain k where k: "cl_pending s k = Some p" using p by (auto simp: ran_def)
    with client_invD(2) [OF inv k] w have "\<exists>i. pending_ok api s i p" by blast
    with client_invD(3) [OF inv c k] show ?thesis by (auto simp: pending_ok_def)
  qed
  moreover have "inj request_key" by (simp add: inj_on_def)
  ultimately show ?thesis by blast
qed

text \<open>C16: No request waits for ever: a waiting call can return once its deadline has passed, and at once when
  the session has ended, and then its coroutine returns an outcome; the passing of time alone leads there.\<close>

theorem request_settles:
  assumes "client_reachable api parse_text s" and "i < length (cl_calls s)" and "cl_calls s ! i = Waiting d"
  shows "(d \<le> cl_now s \<or> cl_closed s \<and> cl_close_task s = None \<longrightarrow>
       client_step api parse_text s (resume_request api i s) \<and> (\<exists>d r. cl_calls (resume_request api i s) ! i = Finished d r))
    \<and> (\<exists>s' r. (client_step api parse_text)\<^sup>*\<^sup>* s s' \<and> cl_calls s' ! i = Finished d r)"
proof -
  have now: "client_step api parse_text s (resume_request api i s) \<and> (\<exists>r. cl_calls (resume_request api i s) ! i = Finished d r)"
    if inv: "client_inv api s" and i: "i < length (cl_calls s)" "cl_calls s ! i = Waiting d"
      and c: "d \<le> cl_now s \<or> cl_closed s \<and> cl_close_task s = None" for s
  proof -
    obtain p where p: "cl_pending s (request_key i) = Some p" "pending_ok api s i p"
      using client_invD(1) [OF inv i(1)] i(2) by (auto simp: call_ok_def)
    then have "timer_ready i s"
      using c client_invD(3) [OF inv _ _ p(1)] i(2) by (auto simp: timer_ready_def pending_ok_def)
    moreover have "\<exists>r. cl_calls (resume_request api i s) ! i = Finished d r"
      using p(1) i by (simp add: resume_request_def Let_def)
    ultimately show ?thesis using i client_step.resumed by blast
  qed
  have inv: "client_inv api s" by (rule client_reachable_inv [OF assms(1)])
  let ?s = "s\<lparr>cl_now := cl_now s + d\<rparr>"
  have t: "client_step api parse_text s ?s" by (rule client_step.time_passes)
  from now [OF client_step_inv [OF t inv]] assms
  have "client_step api parse_text ?s (resume_request api i ?s)" "\<exists>r. cl_calls (resume_request api i ?s) ! i = Finished d r" by simp_all
  with t have "\<exists>s' r. (client_step api parse_text)\<^sup>*\<^sup>* s s' \<and> cl_calls s' ! i = Finished d r"
    by (meson converse_rtranclp_into_rtranclp rtranclp.rtrancl_refl)
  with now [OF inv assms(2,3)] show ?thesis by blast
qed


lemma id_usable: "json_laws api \<Longrightarrow> id_ok rid \<Longrightarrow> usable_id api (id_to_json api rid)"
  by (cases rid) (simp_all add: usable_id_def id_to_json_def id_ok_def)

lemma result_members:
  fixes api :: "'j JsonApi" and rid :: RequestId and r :: 'j
  assumes "json_laws api"
  defines "j \<equiv> result_to_json api \<lparr>rr_id = rid, rr_jsonrpc = ''2.0'', rr_result = r\<rparr>"
  shows "j_is_object api j" "j_find api j ''id'' = Some (id_to_json api rid)" "j_find api j ''result'' = Some r"
    "j_find api j ''jsonrpc'' = Some (j_of_string api ''2.0'')" "j_find api j ''method'' = None" "j_find api j ''error'' = None"
  using assms(1) by (simp_all add: j_def result_to_json_def Let_def)

lemma check_result_wire:
  assumes "json_laws api" "\<not> exceeds_json_depth (make_result_wire api rid r) max_peer_json_depth"
  shows "check_message api parse_text strict (make_result_wire api rid r)
    = Inr (result_to_json api \<lparr>rr_id = rid, rr_jsonrpc = ''2.0'', rr_result = r\<rparr>)"
  using assms result_members [OF assms(1), of rid r]
  by (simp add: check_message_def make_result_wire_def check_version_def j_contains_def json_at validate_jsonrpc_version_def)

lemma dispatch_result:
  assumes laws: "json_laws api" and rid: "id_ok rid" and p: "cl_pending s (correlation_key rid) = Some p" "cl_now s < pr_deadline p"
    and depth: "\<not> exceeds_json_depth (make_result_wire api rid r) max_peer_json_depth"
  shows "dispatch_message api parse_text (make_result_wire api rid r) s =
    s\<lparr>cl_seen := cl_seen s @ [(cl_now s, result_to_json api \<lparr>rr_id = rid, rr_jsonrpc = ''2.0'', rr_result = r\<rparr>)],
      cl_pending := (cl_pending s)(correlation_key rid \<mapsto> p\<lparr>pr_result := r, pr_completed := True, pr_signalled := True\<rparr>)\<rparr>"
proof -
  note m = result_members [OF laws, of rid r]
  have "answer_request api (result_to_json api \<lparr>rr_id = rid, rr_jsonrpc = ''2.0'', rr_result = r\<rparr>) p = Inr (p\<lparr>pr_result := r\<rparr>)"
    using m laws by (simp add: answer_request_def has_json_value_def j_contains_def json_at)
  then show ?thesis
    using m laws p id_usable [OF laws rid] id_roundtrip [OF laws rid]
    by (simp add: dispatch_message_def check_result_wire [OF laws depth] route_message_def j_contains_def dispatch_response_def json_at)
qed

text \<open>C18: An answer reaches its caller: a result response to a request that waits, read before the deadline,
  makes exactly that call return the result, whatever the result is, null included.\<close>

theorem answer_reaches_caller:
  assumes "client_reachable api parse_text s" and "json_laws api"
    and "i < length (cl_calls s)" and "cl_calls s ! i = Waiting d" and "cl_now s < d"
    and "cl_pending s (request_key i) = Some p" and "\<not> pr_completed p"
    and "\<not> exceeds_json_depth (make_result_wire api (request_id i) r) max_peer_json_depth"
  shows "timer_ready i (dispatch_message api parse_text (make_result_wire api (request_id i) r) s)
    \<and> cl_calls (resume_request api i (dispatch_message api parse_text (make_result_wire api (request_id i) r) s))
      = (cl_calls s)[i := Finished d (Got_result r)]"
proof -
  have inv: "client_inv api s" by (rule client_reachable_inv [OF assms(1)])
  have p: "pr_deadline p = d" "pr_error p = None" "pr_write_error p = None"
    using client_invD(1) [OF inv assms(3)] assms(4,6,7) by (auto simp: call_ok_def pending_ok_def)
  have k: "cl_pending s (correlation_key (request_id i)) = Some p" using assms(6) by (simp add: request_key_def)
  have "id_ok (request_id i)" by (simp add: request_id_def id_ok_def)
  from dispatch_result [OF assms(2) this k _ assms(8)] p(1) assms(5)
  have "dispatch_message api parse_text (make_result_wire api (request_id i) r) s
    = s\<lparr>cl_seen := cl_seen s @ [(cl_now s, result_to_json api \<lparr>rr_id = request_id i, rr_jsonrpc = ''2.0'', rr_result = r\<rparr>)],
      cl_pending := (cl_pending s)(request_key i \<mapsto> p\<lparr>pr_result := r, pr_completed := True, pr_signalled := True\<rparr>)\<rparr>"
    by (simp add: request_key_def)
  with p assms(4) show ?thesis
    by (simp add: timer_ready_def resume_request_def Let_def outcome_of_def finish_call_def)
qed

text \<open>What a request of the server is answered with.\<close>

definition expected_answer :: "'j JsonApi \<Rightarrow> 'j Client \<Rightarrow> RequestId \<Rightarrow> string \<Rightarrow> 'j \<Rightarrow> 'j JSONRPCMessage" where
  "expected_answer api s i method' params =
     (let result = (\<lambda>r. Msg_result \<lparr>rr_id = i, rr_jsonrpc = ''2.0'', rr_result = r\<rparr>);
          error = (\<lambda>code t. Msg_error \<lparr>re_error = plain_error code t, re_jsonrpc = ''2.0'', re_id = Some i\<rparr>)
      in case cl_request_handlers s method' of
           Some h \<Rightarrow> (case run_handler api s h params of
               Handler_result r \<Rightarrow> result r
             | Handler_threw t \<Rightarrow> error internal_error t
             | Handler_threw_unknown \<Rightarrow> error internal_error ''Request handler failed'')
         | None \<Rightarrow> if method' = ''ping'' then result (j_empty_object api)
                   else error method_not_found (''Method not found: '' @ method'))"

lemma wires_decode:
  assumes "json_laws api" "id_ok i"
  shows "map_option (message_from_json api) (j_parse api (make_result_wire api i r))
      = Some (Inr (Msg_result \<lparr>rr_id = i, rr_jsonrpc = ''2.0'', rr_result = r\<rparr>))"
    "int32_range code \<Longrightarrow> map_option (message_from_json api) (j_parse api (make_error_wire api i code t))
      = Some (Inr (Msg_error \<lparr>re_error = plain_error code t, re_jsonrpc = ''2.0'', re_id = Some i\<rparr>))"
  using assms message_decodes [OF assms(1), of "Msg_result \<lparr>rr_id = i, rr_jsonrpc = ''2.0'', rr_result = r\<rparr>"]
    message_decodes [OF assms(1), of "Msg_error \<lparr>re_error = plain_error code t, re_jsonrpc = ''2.0'', re_id = Some i\<rparr>"]
  by (simp_all add: make_result_wire_def make_error_wire_def message_to_json_def message_ok_def plain_error_def value_ok_def)


subsection \<open>Witnesses\<close>

text \<open>A client that has sent one request, and the same client when the answer has been read.\<close>

definition connected_client :: "tree Client" where
  "connected_client =
     \<lparr>cl_options = \<lparr>co_request_timeout = 30000, co_strict_protocol_validation = True, co_on_protocol_error = True\<rparr>,
      cl_now = 0, cl_pending = Map.empty, cl_calls = [], cl_closed = False,
      cl_read_loop_started = True, cl_close_task = None, cl_transport_open = True, cl_wires = [],
      cl_cancelled_writes = {}, cl_notification_handlers = Map.empty, cl_request_handlers = Map.empty,
      cl_roots = [], cl_incoming = [], cl_reports = [], cl_seen = []\<rparr>"

definition ping_wire :: string where
  "ping_wire = request_wire tree_api 0 ''ping'' None"

definition waiting_client :: "tree Client" where
  "waiting_client = send_request_wire tree_api 0 ping_wire 30000 (connected_client\<lparr>cl_calls := [Requested ping_wire 30000]\<rparr>)"

definition waiting_entry :: "tree PendingRequest" where
  "waiting_entry = \<lparr>pr_deadline = 30000, pr_cancel_write = False, pr_result = T_null, pr_error = None,
     pr_write_error = None, pr_completed = False, pr_signalled = False\<rparr>"

definition answer_wire :: string where
  "answer_wire = make_result_wire tree_api (request_id 0) T_null"

definition answered_client :: "tree Client" where
  "answered_client = resume_request tree_api 0 (dispatch_message tree_api id answer_wire waiting_client)"

lemma waiting_state:
  "cl_calls waiting_client = [Waiting 30000]" "cl_pending waiting_client = [request_key 0 \<mapsto> waiting_entry]"
  "cl_now waiting_client = 0" "cl_read_loop_started waiting_client"
  by (simp_all add: waiting_client_def send_request_wire_def connected_client_def Let_def waiting_entry_def tree_api_def)

lemma waiting_reachable: "client_reachable tree_api id waiting_client"
proof -
  have "client_reachable tree_api id (connected_client\<lparr>cl_read_loop_started := False\<rparr>)"
    by (rule client_reachable.init [of "cl_options connected_client"]) (simp add: new_client_def connected_client_def)
  then have "client_reachable tree_api id connected_client"
    by (rule client_reachable.step) (rule client_step.connected, simp add: begin_connect_def connected_client_def)
  then have "client_reachable tree_api id (connected_client\<lparr>cl_calls := [Requested ping_wire 30000]\<rparr>)"
    by (rule client_reachable.step)
      (rule client_step.requested [of _ _ "''ping''" None None], simp_all add: request_def connected_client_def ping_wire_def)
  then show ?thesis unfolding waiting_client_def
    by (rule client_reachable.step) (rule client_step.started, simp_all)
qed

lemma replicate_depth: "\<not> depth_scan m (replicate n (CHR ''x'')) d False e"
  by (induction n) simp_all

lemma answer_depth: "\<not> exceeds_json_depth (make_result_wire tree_api (request_id 0) T_null) max_peer_json_depth"
  using replicate_depth by (simp add: make_result_wire_def tree_api_def exceeds_json_depth_def)

lemma answered_state:
  "timer_ready 0 (dispatch_message tree_api id answer_wire waiting_client)"
  "cl_calls answered_client = [Finished 30000 (Got_result T_null)]"
proof -
  have p: "cl_pending waiting_client (correlation_key (request_id 0)) = Some waiting_entry"
    by (simp add: waiting_state request_key_def)
  have i: "id_ok (request_id 0)" by (simp add: request_id_def id_ok_def)
  have lt: "cl_now waiting_client < pr_deadline waiting_entry" by (simp add: waiting_state waiting_entry_def)
  note d = dispatch_result [where parse_text = id, OF tree_api_laws i p lt answer_depth, folded answer_wire_def request_key_def]
  show "timer_ready 0 (dispatch_message tree_api id answer_wire waiting_client)"
    by (simp add: d timer_ready_def waiting_state)
  show "cl_calls answered_client = [Finished 30000 (Got_result T_null)]"
    by (simp add: answered_client_def d resume_request_def waiting_state outcome_of_def waiting_entry_def)
qed

lemma answered_reachable: "client_reachable tree_api id answered_client"
proof -
  have "client_reachable tree_api id (dispatch_message tree_api id answer_wire waiting_client)"
    by (rule client_reachable.step [OF waiting_reachable]) (rule client_step.received, simp add: waiting_state)
  then show ?thesis unfolding answered_client_def
    by (rule client_reachable.step)
      (rule client_step.resumed, simp_all add: answered_state dispatch_message_frame waiting_state)
qed


theorem pending_table_exact_witness: "dom (cl_pending waiting_client) = {request_key 0}"
proof -
  have "{i. i < length (cl_calls waiting_client) \<and> (\<exists>d. cl_calls waiting_client ! i = Waiting d)} = {0}"
    by (auto simp: waiting_state)
  then show ?thesis using pending_table_exact [OF waiting_reachable] by simp
qed

theorem request_settles_witness:
  "\<exists>s' r. (client_step tree_api id)\<^sup>*\<^sup>* waiting_client s' \<and> cl_calls s' ! 0 = Finished 30000 r"
  using request_settles [OF waiting_reachable, of 0 30000] by (simp add: waiting_state)

theorem answer_reaches_caller_witness:
  "cl_calls (resume_request tree_api 0 (dispatch_message tree_api id (make_result_wire tree_api (request_id 0) T_null) waiting_client))
   = [Finished 30000 (Got_result T_null)]"
proof -
  have "cl_pending waiting_client (request_key 0) = Some waiting_entry" "\<not> pr_completed waiting_entry" "cl_now waiting_client < 30000"
    by (simp_all add: waiting_state waiting_entry_def)
  from answer_reaches_caller [OF waiting_reachable tree_api_laws _ _ this(3) this(1,2) answer_depth]
  show ?thesis by (simp add: waiting_state)
qed


end
