(* ===== verification/UriTemplate.thy ===== *)
theory UriTemplate
  imports Prelude Ascii
begin

text \<open>
  Resource URI templates (server/server.cpp): the compiler from a template to a matching automaton
  and to the text that identifies its language, and the matcher that follows every state at once.
  A \<open>std::invalid_argument\<close> is its text. The checks of \<open>states[index]\<close> and \<open>seen[index]\<close> that the
  code does not make are made here: \<open>None\<close> is an access out of bounds.
\<close>

subsection \<open>The automaton\<close>

datatype StateKind = eLiteral | eExcept | eSplit | eMatch

record UriMatchState =
  us_kind :: StateKind
  us_literal :: char
  us_excluded :: string
  us_next :: nat
  us_alternative :: nat

record UriTemplatePattern =
  up_source :: string
  up_matcher :: "UriMatchState list"

definition max_template_match_uri_length :: nat where
  "max_template_match_uri_length = 512"

lemma mark_decreases:
  assumes "i < length seen" "seen ! i \<noteq> Some step"
  shows "card {j. j < length seen \<and> (seen[i := Some step]) ! j \<noteq> Some step} < card {j. j < length seen \<and> seen ! j \<noteq> Some step}"
proof (rule psubset_card_mono)
  show "{j. j < length seen \<and> (seen[i := Some step]) ! j \<noteq> Some step} \<subset> {j. j < length seen \<and> seen ! j \<noteq> Some step}"
    using assms by (auto simp: nth_list_update split: if_splits)
qed simp

text \<open>The lambda \<open>add\<close>; \<open>seen\<close> holds the last step a state was added in, \<open>None\<close> for \<open>unseen\<close>.\<close>

function (sequential) add_states ::
  "UriMatchState list \<Rightarrow> nat \<Rightarrow> nat list \<Rightarrow> nat option list \<Rightarrow> nat list \<Rightarrow> (nat option list \<times> nat list) option" where
  "add_states states step [] seen acc = Some (seen, acc)"
| "add_states states step (index # pending) seen acc =
     (if index \<ge> length states \<or> index \<ge> length seen then None
      else if seen ! index = Some step then add_states states step pending seen acc
      else if us_kind (states ! index) = eSplit
      then add_states states step (us_next (states ! index) # us_alternative (states ! index) # pending) (seen[index := Some step]) acc
      else add_states states step pending (seen[index := Some step]) (acc @ [index]))"
  by pat_completeness auto

termination
  by (relation "measures [\<lambda>(states, step, pending, seen, acc). card {j. j < length seen \<and> seen ! j \<noteq> Some step},
      \<lambda>(states, step, pending, seen, acc). length pending]")
    (auto simp: mark_decreases)

definition state_consumes :: "UriMatchState \<Rightarrow> char \<Rightarrow> bool" where
  "state_consumes state ch \<longleftrightarrow>
     us_kind state = eLiteral \<and> us_literal state = ch \<or> us_kind state = eExcept \<and> ch \<notin> set (us_excluded state)"

fun follow_states ::
  "UriMatchState list \<Rightarrow> char \<Rightarrow> nat \<Rightarrow> nat list \<Rightarrow> nat option list \<Rightarrow> nat list \<Rightarrow> (nat option list \<times> nat list) option" where
  "follow_states states ch step [] seen following = Some (seen, following)"
| "follow_states states ch step (index # current) seen following =
     (if index \<ge> length states then None
      else if state_consumes (states ! index) ch
      then (case add_states states step [us_next (states ! index)] seen following of
              None \<Rightarrow> None
            | Some (seen', following') \<Rightarrow> follow_states states ch step current seen' following')
      else follow_states states ch step current seen following)"

fun match_loop :: "UriMatchState list \<Rightarrow> string \<Rightarrow> nat \<Rightarrow> nat option list \<Rightarrow> nat list \<Rightarrow> bool option" where
  "match_loop states [] position seen current =
     (if \<forall>index \<in> set current. index < length states
      then Some (\<exists>index \<in> set current. us_kind (states ! index) = eMatch) else None)"
| "match_loop states (ch # uri) position seen current =
     (case follow_states states ch (position + 1) current seen [] of
        None \<Rightarrow> None
      | Some (seen', following) \<Rightarrow>
          if following = [] then Some False else match_loop states uri (position + 1) seen' following)"

definition uri_template_matches :: "UriMatchState list \<Rightarrow> string \<Rightarrow> bool option" where
  "uri_template_matches states uri =
     (case add_states states 0 [0] (replicate (length states) None) [] of
        None \<Rightarrow> None
      | Some (seen, current) \<Rightarrow> match_loop states uri 0 seen current)"

subsection \<open>The compiler\<close>

definition is_uri_template_operator :: "char \<Rightarrow> bool" where
  "is_uri_template_operator ch \<longleftrightarrow> ch \<in> set ''+#./;?&''"

text \<open>\<open>None\<close> is the operator 0.\<close>

definition uri_expression_operator :: "string \<Rightarrow> char option" where
  "uri_expression_operator e = (case e of [] \<Rightarrow> None | ch # _ \<Rightarrow> if is_uri_template_operator ch then Some ch else None)"

definition uri_expression_excluded_characters :: "char option \<Rightarrow> string" where
  "uri_expression_excluded_characters op =
     (case op of
        None \<Rightarrow> ''/?#''
      | Some ch \<Rightarrow> if ch \<in> set ''#?&'' then ''#'' else if ch \<in> set ''+/;'' then ''?#'' else ''/?#'')"

definition variable_name_char :: "char \<Rightarrow> bool" where
  "variable_name_char ch \<longleftrightarrow> is_alnum ch \<or> ch \<in> set ''_.%''"

function validate_variables :: "string \<Rightarrow> string + unit" where
  "validate_variables e =
     (if e = [] then Inr ()
      else
        (let variable = takeWhile (\<lambda>c. c \<noteq> CHR '','') e;
             name = takeWhile (\<lambda>c. c \<noteq> CHR '':'' \<and> c \<noteq> CHR ''*'') variable
         in if variable = [] then Inl ''Resource URI template contains an empty variable''
            else if name = [] \<or> \<not> list_all variable_name_char name
            then Inl ''Resource URI template contains an invalid variable name''
            else if length variable = length e then Inr ()
            else validate_variables (drop (length variable + 1) e)))"
  by pat_completeness auto
termination
  by (relation "measure length") auto

declare validate_variables.simps [simp del]

definition validate_uri_template_variables :: "string \<Rightarrow> string + unit" where
  "validate_uri_template_variables e =
     (let e' = (if uri_expression_operator e \<noteq> None then tl e else e) in
      if e' = [] then Inl ''Resource URI template contains an empty expression'' else validate_variables e')"

definition append_regex_literal :: "string \<Rightarrow> char \<Rightarrow> string" where
  "append_regex_literal pattern ch =
     (if ch \<in> set (CHR 0x5C # ''.^$|()[]*+?{}'') then pattern @ [CHR 0x5C, ch] else pattern @ [ch])"

definition literal_state :: "char \<Rightarrow> nat \<Rightarrow> UriMatchState" where
  "literal_state ch n = \<lparr>us_kind = eLiteral, us_literal = ch, us_excluded = [], us_next = n, us_alternative = 0\<rparr>"

definition except_state :: "string \<Rightarrow> nat \<Rightarrow> UriMatchState" where
  "except_state excluded n = \<lparr>us_kind = eExcept, us_literal = CHR 0x00, us_excluded = excluded, us_next = n, us_alternative = 0\<rparr>"

definition split_state :: "nat \<Rightarrow> nat \<Rightarrow> UriMatchState" where
  "split_state n a = \<lparr>us_kind = eSplit, us_literal = CHR 0x00, us_excluded = [], us_next = n, us_alternative = a\<rparr>"

definition match_state :: UriMatchState where
  "match_state = \<lparr>us_kind = eMatch, us_literal = CHR 0x00, us_excluded = [], us_next = 0, us_alternative = 0\<rparr>"

definition append_literal_state :: "UriMatchState list \<Rightarrow> char \<Rightarrow> UriMatchState list" where
  "append_literal_state states ch = states @ [literal_state ch (length states + 1)]"

definition append_run_states :: "UriMatchState list \<Rightarrow> string \<Rightarrow> UriMatchState list" where
  "append_run_states states excluded =
     (let first = length states in states @ [except_state excluded (first + 1), split_state first (first + 2)])"

definition append_prefixed_run_states :: "UriMatchState list \<Rightarrow> char \<Rightarrow> string \<Rightarrow> bool \<Rightarrow> UriMatchState list" where
  "append_prefixed_run_states states prefix excluded non_empty =
     (let first = length states; last = first + 4 in
      states @ [split_state (first + 1) last, literal_state prefix (first + 2)]
        @ (if non_empty then [except_state excluded (first + 3), split_state (first + 2) last]
           else [split_state (first + 3) last, except_state excluded (first + 2)]))"

definition append_label_states :: "UriMatchState list \<Rightarrow> UriMatchState list" where
  "append_label_states states =
     (let first = length states in
      states @ [split_state (first + 1) (first + 4), literal_state (CHR ''.'') (first + 2),
        except_state ''/?#'' (first + 3), split_state (first + 2) first])"

definition expression_source :: "char option \<Rightarrow> string" where
  "expression_source op =
     (if op = Some (CHR ''+'') then ''[^?#]+''
      else if op = Some (CHR ''#'') then ''(?:#[^#]*)?''
      else if op = Some (CHR ''.'') then ''(?:'' @ [CHR 0x5C] @ ''.[^/?#]+(?:'' @ [CHR 0x5C] @ ''.[^/?#]+)*)?''
      else if op = Some (CHR ''/'') then ''(?:/[^?#]+)?''
      else if op = Some (CHR '';'') then ''(?:;[^?#]*)?''
      else if op = Some (CHR ''?'') then ''(?:'' @ [CHR 0x5C] @ ''?[^#]*)?''
      else if op = Some (CHR ''&'') then ''(?:&[^#]*)?''
      else ''[^/?#]+'')"

definition expression_states :: "UriMatchState list \<Rightarrow> char option \<Rightarrow> UriMatchState list" where
  "expression_states states op =
     (if op = Some (CHR ''+'') then append_run_states states ''?#''
      else if op = Some (CHR ''#'') then append_prefixed_run_states states (CHR ''#'') ''#'' False
      else if op = Some (CHR ''.'') then append_label_states states
      else if op = Some (CHR ''/'') then append_prefixed_run_states states (CHR ''/'') ''?#'' True
      else if op = Some (CHR '';'') then append_prefixed_run_states states (CHR '';'') ''?#'' False
      else if op = Some (CHR ''?'') then append_prefixed_run_states states (CHR ''?'') ''#'' False
      else if op = Some (CHR ''&'') then append_prefixed_run_states states (CHR ''&'') ''#'' False
      else append_run_states states ''/?#'')"

definition append_uri_expression_pattern ::
  "string \<Rightarrow> UriMatchState list \<Rightarrow> string \<Rightarrow> string + (string \<times> UriMatchState list)" where
  "append_uri_expression_pattern pattern states expression =
     bindE (validate_uri_template_variables expression) (\<lambda>_.
       Inr (pattern @ expression_source (uri_expression_operator expression),
            expression_states states (uri_expression_operator expression)))"

text \<open>The check between two expressions with nothing between them; \<open>prev\<close> is the operator of the
  previous token when that was an expression.\<close>

definition adjacent_ok :: "char option option \<Rightarrow> char option \<Rightarrow> bool" where
  "adjacent_ok prev op \<longleftrightarrow>
     (case prev of
        None \<Rightarrow> True
      | Some previous \<Rightarrow>
          (case op of
             None \<Rightarrow> False
           | Some ch \<Rightarrow> ch \<noteq> CHR ''+'' \<and> ch \<in> set (uri_expression_excluded_characters previous)))"

function (sequential) compile_template_loop ::
  "string \<Rightarrow> string \<Rightarrow> UriMatchState list \<Rightarrow> char option option \<Rightarrow> string + (string \<times> UriMatchState list)" where
  "compile_template_loop [] pattern states prev = Inr (pattern, states)"
| "compile_template_loop (ch # rest) pattern states prev =
     (if ch = CHR ''}'' then Inl (''Resource URI template contains an unmatched '' @ [CHR 0x27, CHR ''}'', CHR 0x27])
      else if ch \<noteq> CHR ''{''
      then compile_template_loop rest (append_regex_literal pattern ch) (append_literal_state states ch) None
      else
        (case find_index_from (\<lambda>c. c = CHR ''}'') rest 0 of
           None \<Rightarrow> Inl (''Resource URI template contains an unmatched '' @ [CHR 0x27, CHR ''{'', CHR 0x27])
         | Some close \<Rightarrow>
             (let expression = take close rest; op = uri_expression_operator expression in
              if \<not> adjacent_ok prev op
              then Inl ''Resource URI template must separate adjacent expressions with a literal''
              else bindE (append_uri_expression_pattern pattern states expression) (\<lambda>(pattern', states').
                     compile_template_loop (drop (close + 1) rest) pattern' states' (Some op)))))"
  by pat_completeness auto
termination
  by (relation "measure (\<lambda>(rest, _). length rest)") auto

definition compile_uri_template :: "string \<Rightarrow> string + UriTemplatePattern" where
  "compile_uri_template uri_template =
     (if uri_template = [] then Inl ''Resource URI template must not be empty''
      else bindE (compile_template_loop uri_template ''^'' [] None) (\<lambda>(pattern, states).
             Inr \<lparr>up_source = pattern @ ''$'', up_matcher = states @ [match_state]\<rparr>))"

subsection \<open>What the automaton accepts\<close>

inductive accepts_from :: "UriMatchState list \<Rightarrow> nat \<Rightarrow> string \<Rightarrow> bool" for states where
  matched: "i < length states \<Longrightarrow> us_kind (states ! i) = eMatch \<Longrightarrow> accepts_from states i []"
| consumed: "i < length states \<Longrightarrow> state_consumes (states ! i) ch \<Longrightarrow> accepts_from states (us_next (states ! i)) w
    \<Longrightarrow> accepts_from states i (ch # w)"
| continued: "i < length states \<Longrightarrow> us_kind (states ! i) = eSplit \<Longrightarrow> accepts_from states (us_next (states ! i)) w
    \<Longrightarrow> accepts_from states i w"
| alternative: "i < length states \<Longrightarrow> us_kind (states ! i) = eSplit \<Longrightarrow> accepts_from states (us_alternative (states ! i)) w
    \<Longrightarrow> accepts_from states i w"

inductive_cases accepts_fromE: "accepts_from states i w"

text \<open>Every target is a state: what keeps the unchecked accesses in bounds.\<close>

definition states_ok :: "UriMatchState list \<Rightarrow> bool" where
  "states_ok states \<longleftrightarrow>
     (\<forall>s \<in> set states. (us_kind s \<noteq> eMatch \<longrightarrow> us_next s < length states) \<and> (us_kind s = eSplit \<longrightarrow> us_alternative s < length states))"

definition split_edges :: "UriMatchState list \<Rightarrow> (nat \<times> nat) set" where
  "split_edges states =
     {(i, j). i < length states \<and> us_kind (states ! i) = eSplit \<and> (j = us_next (states ! i) \<or> j = us_alternative (states ! i))}"

definition marked :: "nat option list \<Rightarrow> nat \<Rightarrow> nat set" where
  "marked seen step = {i. i < length seen \<and> seen ! i = Some step}"

definition stable_states :: "UriMatchState list \<Rightarrow> nat set" where
  "stable_states states = {i. us_kind (states ! i) \<noteq> eSplit}"

lemma marked_update: "i < length seen \<Longrightarrow> marked (seen[i := Some step]) step = insert i (marked seen step)"
  by (auto simp: marked_def nth_list_update)

lemma states_okD:
  "states_ok states \<Longrightarrow> i < length states \<Longrightarrow> us_kind (states ! i) = eSplit \<Longrightarrow>
     us_next (states ! i) < length states \<and> us_alternative (states ! i) < length states"
  "states_ok states \<Longrightarrow> i < length states \<Longrightarrow> state_consumes (states ! i) ch \<Longrightarrow> us_next (states ! i) < length states"
  by (auto simp: states_ok_def state_consumes_def dest!: nth_mem)

text \<open>What one call of \<open>add\<close> does: it marks exactly what is reachable without input, and adds what is stable.\<close>

definition adds_closure ::
  "UriMatchState list \<Rightarrow> nat \<Rightarrow> nat list \<Rightarrow> nat option list \<Rightarrow> nat list \<Rightarrow> nat option list \<Rightarrow> nat list \<Rightarrow> bool" where
  "adds_closure states step pending seen acc seen' acc' \<longleftrightarrow>
     length seen' = length states
   \<and> marked seen step \<union> set pending \<subseteq> marked seen' step
   \<and> marked seen' step \<subseteq> marked seen step \<union> (split_edges states)\<^sup>* `` set pending
   \<and> (\<forall>i j. i \<in> marked seen' step \<longrightarrow> (i, j) \<in> split_edges states \<longrightarrow> j \<in> marked seen' step)
   \<and> set acc' = set acc \<union> (marked seen' step - marked seen step) \<inter> stable_states states
   \<and> (\<forall>t. t \<noteq> step \<longrightarrow> marked seen' t \<subseteq> marked seen t)"

lemma add_states_spec:
  assumes "states_ok states" "length seen = length states" "set pending \<subseteq> {..< length states}"
    and "\<And>i j. i \<in> marked seen step \<Longrightarrow> (i, j) \<in> split_edges states \<Longrightarrow> j \<in> marked seen step \<union> set pending"
  shows "\<exists>seen' acc'. add_states states step pending seen acc = Some (seen', acc')
    \<and> adds_closure states step pending seen acc seen' acc'"
  using assms
proof (induction states step pending seen acc rule: add_states.induct)
  case (1 states step seen acc)
  then show ?case by (auto simp: adds_closure_def)
next
  case (2 states step i pending seen acc)
  have i: "i < length states" "i < length seen" using "2.prems" by auto
  let ?E = "split_edges states" and ?seen = "seen[i := Some step]"
  have other: "marked ?seen t \<subseteq> marked seen t" if "t \<noteq> step" for t
    using that i(2) by (auto simp: marked_def nth_list_update split: if_splits)
  have self: "i \<in> ?E\<^sup>* `` {i}" by auto
  consider (again) "seen ! i = Some step" | (split) "seen ! i \<noteq> Some step" "us_kind (states ! i) = eSplit"
    | (stop) "seen ! i \<noteq> Some step" "us_kind (states ! i) \<noteq> eSplit" by blast
  then show ?case
  proof cases
    case again
    have m: "i \<in> marked seen step" using again i by (simp add: marked_def)
    have "\<exists>seen' acc'. add_states states step pending seen acc = Some (seen', acc')
      \<and> adds_closure states step pending seen acc seen' acc'"
    proof (rule "2.IH"(1))
      show "j \<in> marked seen step \<union> set pending" if "k \<in> marked seen step" "(k, j) \<in> ?E" for k j
        using "2.prems"(4) [OF that] m by auto
    qed (use "2.prems" i again in auto)
    then obtain seen' acc' where r: "add_states states step pending seen acc = Some (seen', acc')"
      "adds_closure states step pending seen acc seen' acc'" by blast
    from r(2) m have "adds_closure states step (i # pending) seen acc seen' acc'" unfolding adds_closure_def by auto
    with r(1) i again show ?thesis by auto
  next
    case split
    let ?n = "us_next (states ! i)" and ?a = "us_alternative (states ! i)"
    have e: "(i, j) \<in> ?E \<longleftrightarrow> j = ?n \<or> j = ?a" for j using i split by (auto simp: split_edges_def)
    have "\<exists>seen' acc'. add_states states step (?n # ?a # pending) ?seen acc = Some (seen', acc')
      \<and> adds_closure states step (?n # ?a # pending) ?seen acc seen' acc'"
    proof (rule "2.IH"(2))
      show "set (?n # ?a # pending) \<subseteq> {..<length states}"
        using "2.prems"(3) states_okD(1) [OF "2.prems"(1) i(1) split(2)] by auto
      show "j \<in> marked ?seen step \<union> set (?n # ?a # pending)" if "k \<in> marked ?seen step" "(k, j) \<in> ?E" for k j
        using that "2.prems"(4) [of k j] e [of j] by (auto simp: marked_update [OF i(2)])
    qed (use "2.prems" i split in auto)
    then obtain seen' acc' where r: "add_states states step (?n # ?a # pending) ?seen acc = Some (seen', acc')"
      "adds_closure states step (?n # ?a # pending) ?seen acc seen' acc'" by blast
    have "?E\<^sup>* `` {?n} \<union> ?E\<^sup>* `` {?a} \<subseteq> ?E\<^sup>* `` {i}" using e by (auto intro: converse_rtrancl_into_rtrancl)
    then have "?E\<^sup>* `` set (?n # ?a # pending) \<subseteq> ?E\<^sup>* `` set (i # pending)" by auto
    moreover have "marked seen' step \<subseteq> marked ?seen step \<union> ?E\<^sup>* `` set (?n # ?a # pending)"
      using r(2) unfolding adds_closure_def by blast
    moreover have "i \<in> ?E\<^sup>* `` set (i # pending)" by auto
    ultimately have reach: "marked seen' step \<subseteq> marked seen step \<union> ?E\<^sup>* `` set (i # pending)"
      unfolding marked_update [OF i(2)] by blast
    have "i \<notin> stable_states states" using split by (simp add: stable_states_def)
    moreover have "\<forall>t. t \<noteq> step \<longrightarrow> marked seen' t \<subseteq> marked seen t" using r(2) other unfolding adds_closure_def by blast
    ultimately have "adds_closure states step (i # pending) seen acc seen' acc'"
      using r(2) reach unfolding adds_closure_def by (auto simp: marked_update [OF i(2)])
    with r(1) i split show ?thesis by auto
  next
    case stop
    have e: "(i, j) \<notin> ?E" for j using stop by (auto simp: split_edges_def)
    have "\<exists>seen' acc'. add_states states step pending ?seen (acc @ [i]) = Some (seen', acc')
      \<and> adds_closure states step pending ?seen (acc @ [i]) seen' acc'"
    proof (rule "2.IH"(3))
      show "j \<in> marked ?seen step \<union> set pending" if "k \<in> marked ?seen step" "(k, j) \<in> ?E" for k j
        using that "2.prems"(4) [of k j] e [of j] by (auto simp: marked_update [OF i(2)])
    qed (use "2.prems" i stop in auto)
    then obtain seen' acc' where r: "add_states states step pending ?seen (acc @ [i]) = Some (seen', acc')"
      "adds_closure states step pending ?seen (acc @ [i]) seen' acc'" by blast
    have "i \<in> stable_states states" "i \<notin> marked seen step" using stop by (simp_all add: stable_states_def marked_def)
    moreover have "\<forall>t. t \<noteq> step \<longrightarrow> marked seen' t \<subseteq> marked seen t" using r(2) other unfolding adds_closure_def by blast
    ultimately have "adds_closure states step (i # pending) seen acc seen' acc'"
      using r(2) self unfolding adds_closure_def by (auto simp: marked_update [OF i(2)])
    with r(1) i stop show ?thesis by auto
  qed
qed

lemma marked_below: "length seen = length states \<Longrightarrow> marked seen step \<subseteq> {..< length states}"
  by (auto simp: marked_def)

lemma stable_closure: "i \<in> stable_states states \<Longrightarrow> (split_edges states)\<^sup>* `` {i} = {i}"
  by (auto simp: stable_states_def split_edges_def elim: converse_rtranclE)

lemma accepts_closure:
  "accepts_from states i w \<longleftrightarrow> (\<exists>j \<in> (split_edges states)\<^sup>* `` {i} \<inter> stable_states states. accepts_from states j w)"
proof
  assume "accepts_from states i w"
  then show "\<exists>j \<in> (split_edges states)\<^sup>* `` {i} \<inter> stable_states states. accepts_from states j w"
  proof (induction rule: accepts_from.induct)
    case (matched i)
    then show ?case by (auto simp: stable_states_def intro!: accepts_from.matched)
  next
    case (consumed i ch w)
    then have "i \<in> stable_states states" by (auto simp: stable_states_def state_consumes_def)
    with consumed show ?case by (auto intro!: accepts_from.consumed)
  next
    case (continued i w)
    then have "(i, us_next (states ! i)) \<in> split_edges states" by (simp add: split_edges_def)
    with continued.IH show ?case by (auto intro: converse_rtrancl_into_rtrancl)
  next
    case (alternative i w)
    then have "(i, us_alternative (states ! i)) \<in> split_edges states" by (simp add: split_edges_def)
    with alternative.IH show ?case by (auto intro: converse_rtrancl_into_rtrancl)
  qed
next
  assume "\<exists>j \<in> (split_edges states)\<^sup>* `` {i} \<inter> stable_states states. accepts_from states j w"
  then obtain j where "(i, j) \<in> (split_edges states)\<^sup>*" "accepts_from states j w" by auto
  then show "accepts_from states i w"
    by (induction rule: converse_rtrancl_induct) (auto simp: split_edges_def intro: accepts_from.continued accepts_from.alternative)
qed

lemma accepts_stable:
  assumes "i \<in> stable_states states"
  shows "accepts_from states i [] \<longleftrightarrow> i < length states \<and> us_kind (states ! i) = eMatch"
    "accepts_from states i (ch # w) \<longleftrightarrow> i < length states \<and> state_consumes (states ! i) ch \<and> accepts_from states (us_next (states ! i)) w"
  using assms by (auto simp: stable_states_def intro: accepts_from.intros elim: accepts_fromE)

text \<open>The states marked in a step are closed, and the stable ones are the ones collected.\<close>

definition collected :: "UriMatchState list \<Rightarrow> nat option list \<Rightarrow> nat \<Rightarrow> nat list \<Rightarrow> bool" where
  "collected states seen step acc \<longleftrightarrow>
     length seen = length states
   \<and> (\<forall>i j. i \<in> marked seen step \<longrightarrow> (i, j) \<in> split_edges states \<longrightarrow> j \<in> marked seen step)
   \<and> set acc = marked seen step \<inter> stable_states states"

lemma closed_image:
  assumes "\<forall>i j. i \<in> M \<longrightarrow> (i, j) \<in> E \<longrightarrow> j \<in> M" "S \<subseteq> M"
  shows "E\<^sup>* `` S \<subseteq> M"
proof
  fix y assume "y \<in> E\<^sup>* `` S"
  then obtain x where "x \<in> M" "(x, y) \<in> E\<^sup>*" using assms(2) by auto
  from this(2,1) show "y \<in> M" by (induction rule: rtrancl_induct) (use assms(1) in auto)
qed

lemma add_collected:
  assumes "states_ok states" "collected states seen step acc" "i < length states"
  obtains seen' acc' where "add_states states step [i] seen acc = Some (seen', acc')" "collected states seen' step acc'"
    "marked seen' step = marked seen step \<union> (split_edges states)\<^sup>* `` {i}" "\<forall>t. t \<noteq> step \<longrightarrow> marked seen' t \<subseteq> marked seen t"
proof -
  have "\<exists>seen' acc'. add_states states step [i] seen acc = Some (seen', acc') \<and> adds_closure states step [i] seen acc seen' acc'"
    by (rule add_states_spec [OF assms(1)]) (use assms(2,3) in \<open>auto simp: collected_def\<close>)
  then obtain seen' acc' where r: "add_states states step [i] seen acc = Some (seen', acc')"
    "adds_closure states step [i] seen acc seen' acc'" by blast
  note d = r(2) [unfolded adds_closure_def]
  have c: "\<forall>i j. i \<in> marked seen' step \<longrightarrow> (i, j) \<in> split_edges states \<longrightarrow> j \<in> marked seen' step"
    and sub: "marked seen step \<union> {i} \<subseteq> marked seen' step" using d by auto
  have "(split_edges states)\<^sup>* `` {i} \<subseteq> marked seen' step" using closed_image [OF c] sub by blast
  with d sub have "marked seen' step = marked seen step \<union> (split_edges states)\<^sup>* `` {i}" by auto
  moreover have "collected states seen' step acc'"
    using d sub assms(2) unfolding collected_def by auto
  moreover have "\<forall>t. t \<noteq> step \<longrightarrow> marked seen' t \<subseteq> marked seen t" using d by blast
  ultimately show thesis using that r(1) by blast
qed

lemma image_insert: "r `` insert x S = r `` {x} \<union> r `` S"
  by auto

lemma follow_states_spec:
  assumes "states_ok states" "collected states seen step following" "set current \<subseteq> {..< length states}"
  shows "\<exists>seen' following'. follow_states states ch step current seen following = Some (seen', following')
    \<and> collected states seen' step following'
    \<and> marked seen' step = marked seen step
        \<union> (split_edges states)\<^sup>* `` {us_next (states ! i) |i. i \<in> set current \<and> state_consumes (states ! i) ch}
    \<and> (\<forall>t. t \<noteq> step \<longrightarrow> marked seen' t \<subseteq> marked seen t)"
  using assms(2,3)
proof (induction current arbitrary: seen following)
  case Nil
  then show ?case by auto
next
  case (Cons i current)
  have i: "i < length states" and sub: "set current \<subseteq> {..< length states}" using Cons.prems by auto
  let ?next = "\<lambda>xs. {us_next (states ! i) |i. i \<in> set xs \<and> state_consumes (states ! i) ch}"
  show ?case
  proof (cases "state_consumes (states ! i) ch")
    case False
    have "?next (i # current) = ?next current" using False by auto
    with Cons.IH [OF Cons.prems(1) sub] i False show ?thesis by simp
  next
    case True
    have n: "us_next (states ! i) < length states" using states_okD(2) [OF assms(1) i True] .
    obtain seen1 acc1 where a: "add_states states step [us_next (states ! i)] seen following = Some (seen1, acc1)"
      "collected states seen1 step acc1" "marked seen1 step = marked seen step \<union> (split_edges states)\<^sup>* `` {us_next (states ! i)}"
      "\<forall>t. t \<noteq> step \<longrightarrow> marked seen1 t \<subseteq> marked seen t" by (rule add_collected [OF assms(1) Cons.prems(1) n])
    obtain seen2 acc2 where b: "follow_states states ch step current seen1 acc1 = Some (seen2, acc2)"
      "collected states seen2 step acc2" "marked seen2 step = marked seen1 step \<union> (split_edges states)\<^sup>* `` ?next current"
      "\<forall>t. t \<noteq> step \<longrightarrow> marked seen2 t \<subseteq> marked seen1 t" using Cons.IH [OF a(2) sub] by blast
    have "?next (i # current) = insert (us_next (states ! i)) (?next current)" using True by auto
    then have "marked seen2 step = marked seen step \<union> (split_edges states)\<^sup>* `` ?next (i # current)"
      unfolding a(3) b(3) by (simp only: image_insert [of _ "us_next (states ! i)" "?next current"] Un_assoc)
    moreover have "follow_states states ch step (i # current) seen following = Some (seen2, acc2)" using a(1) b(1) i True by simp
    moreover have "\<forall>t. t \<noteq> step \<longrightarrow> marked seen2 t \<subseteq> marked seen t" using a(4) b(4) by blast
    ultimately show ?thesis using b(2) by blast
  qed
qed

lemma match_loop_spec:
  assumes "states_ok states" "length seen = length states" "set current \<subseteq> {..< length states} \<inter> stable_states states"
    and "\<forall>t > position. marked seen t = {}"
  shows "match_loop states uri position seen current = Some (\<exists>i \<in> set current. accepts_from states i uri)"
  using assms(2-)
proof (induction uri arbitrary: position seen current)
  case Nil
  then have "\<forall>i \<in> set current. i < length states \<and> (accepts_from states i [] \<longleftrightarrow> us_kind (states ! i) = eMatch)"
    using accepts_stable(1) by blast
  then show ?case by auto
next
  case (Cons ch uri)
  let ?step = "position + 1"
  have c: "collected states seen ?step []" using Cons.prems by (simp add: collected_def)
  obtain seen' following where f: "follow_states states ch ?step current seen [] = Some (seen', following)"
    "collected states seen' ?step following"
    "marked seen' ?step = (split_edges states)\<^sup>* `` {us_next (states ! i) |i. i \<in> set current \<and> state_consumes (states ! i) ch}"
    "\<forall>t. t \<noteq> ?step \<longrightarrow> marked seen' t \<subseteq> marked seen t"
    using follow_states_spec [OF assms(1) c, of current ch] Cons.prems by auto
  have s: "set following = marked seen' ?step \<inter> stable_states states" using f(2) by (simp add: collected_def)
  have len: "length seen' = length states" using f(2) by (simp add: collected_def)
  have "accepts_from states i (ch # uri) \<longleftrightarrow> state_consumes (states ! i) ch \<and> accepts_from states (us_next (states ! i)) uri"
    if "i \<in> set current" for i using that Cons.prems(2) accepts_stable(2) [of i states] by auto
  then have "(\<exists>i \<in> set current. accepts_from states i (ch # uri)) \<longleftrightarrow>
      (\<exists>i \<in> set current. state_consumes (states ! i) ch \<and> accepts_from states (us_next (states ! i)) uri)"
    by blast
  also have "\<dots> \<longleftrightarrow> (\<exists>j \<in> set following. accepts_from states j uri)"
    unfolding s f(3) by (subst accepts_closure) blast
  finally have eq: "(\<exists>i \<in> set current. accepts_from states i (ch # uri)) \<longleftrightarrow> (\<exists>j \<in> set following. accepts_from states j uri)" .
  show ?case
  proof (cases "following = []")
    case True
    with f(1) eq show ?thesis by simp
  next
    case False
    have "marked seen' t = {}" if "t > ?step" for t
    proof -
      have "marked seen' t \<subseteq> marked seen t" using f(4) that by simp
      with Cons.prems(3) that show ?thesis by simp
    qed
    then have "match_loop states uri ?step seen' following = Some (\<exists>i \<in> set following. accepts_from states i uri)"
      using s marked_below [OF len] by (intro Cons.IH [OF len]) auto
    with f(1) False eq show ?thesis by simp
  qed
qed

lemma uri_template_matches_spec:
  assumes "states_ok states" "states \<noteq> []"
  shows "uri_template_matches states uri = Some (accepts_from states 0 uri)"
proof -
  let ?seen = "replicate (length states) None"
  have c0: "collected states ?seen 0 []" by (auto simp: collected_def marked_def)
  have "0 < length states" using assms(2) by simp
  then obtain seen current where a: "add_states states 0 [0] ?seen [] = Some (seen, current)" "collected states seen 0 current"
    "marked seen 0 = marked ?seen 0 \<union> (split_edges states)\<^sup>* `` {0}" "\<forall>t. t \<noteq> 0 \<longrightarrow> marked seen t \<subseteq> marked ?seen t"
    by (rule add_collected [OF assms(1) c0])
  have e: "marked ?seen t = {}" for t by (auto simp: marked_def)
  have c: "set current = (split_edges states)\<^sup>* `` {0} \<inter> stable_states states" "length seen = length states"
    using a(2,3) e by (auto simp: collected_def)
  have "set current \<subseteq> {..< length states} \<inter> stable_states states"
    using a(2) marked_below [OF c(2), of 0] by (auto simp: collected_def)
  moreover have "\<forall>t > 0. marked seen t = {}" using a(4) e by blast
  ultimately have "match_loop states uri 0 seen current = Some (\<exists>i \<in> set current. accepts_from states i uri)"
    by (rule match_loop_spec [OF assms(1) c(2)])
  with a(1) c(1) accepts_closure [of states 0 uri] show ?thesis by (simp add: uri_template_matches_def)
qed

subsection \<open>The language of a template\<close>

datatype UriToken = Literal_token char | Expression_token "char option"

definition clear_of :: "string \<Rightarrow> string \<Rightarrow> bool" where
  "clear_of excluded w \<longleftrightarrow> set w \<inter> set excluded = {}"

text \<open>The texts an expression with an operator stands for, as RFC 6570 expands it.\<close>

definition expression_lang :: "char option \<Rightarrow> string set" where
  "expression_lang op =
     (if op = Some (CHR ''+'') then {w. w \<noteq> [] \<and> clear_of ''?#'' w}
      else if op = Some (CHR ''#'') then {[]} \<union> {CHR ''#'' # w |w. clear_of ''#'' w}
      else if op = Some (CHR ''.'') then {concat (map ((#) (CHR ''.'')) labels) |labels. \<forall>l \<in> set labels. l \<noteq> [] \<and> clear_of ''/?#'' l}
      else if op = Some (CHR ''/'') then {[]} \<union> {CHR ''/'' # w |w. w \<noteq> [] \<and> clear_of ''?#'' w}
      else if op = Some (CHR '';'') then {[]} \<union> {CHR '';'' # w |w. clear_of ''?#'' w}
      else if op = Some (CHR ''?'') then {[]} \<union> {CHR ''?'' # w |w. clear_of ''#'' w}
      else if op = Some (CHR ''&'') then {[]} \<union> {CHR ''&'' # w |w. clear_of ''#'' w}
      else {w. w \<noteq> [] \<and> clear_of ''/?#'' w})"

fun token_lang :: "UriToken \<Rightarrow> string set" where
  "token_lang (Literal_token ch) = {[ch]}"
| "token_lang (Expression_token op) = expression_lang op"

fun tokens_lang :: "UriToken list \<Rightarrow> string set" where
  "tokens_lang [] = {[]}"
| "tokens_lang (t # ts) = {u @ v |u v. u \<in> token_lang t \<and> v \<in> tokens_lang ts}"

text \<open>The tokens of a template: an expression ends at the next closing brace.\<close>

function template_tokens :: "string \<Rightarrow> UriToken list" where
  "template_tokens s =
     (case s of
        [] \<Rightarrow> []
      | ch # rest \<Rightarrow>
          if ch = CHR ''{''
          then (let e = takeWhile (\<lambda>c. c \<noteq> CHR ''}'') rest in
                Expression_token (uri_expression_operator e) # template_tokens (drop (length e + 1) rest))
          else Literal_token ch # template_tokens rest)"
  by pat_completeness auto
termination
  by (relation "measure length") auto

declare template_tokens.simps [simp del]

subsection \<open>The language of a fragment\<close>

lemma accepts_literal:
  "i < length ss \<Longrightarrow> ss ! i = literal_state ch n \<Longrightarrow> accepts_from ss i w \<longleftrightarrow> (\<exists>v. w = ch # v \<and> accepts_from ss n v)"
  using accepts_from.consumed [of i ss ch]
  by (auto simp: literal_state_def state_consumes_def elim: accepts_fromE)

lemma accepts_except:
  "i < length ss \<Longrightarrow> ss ! i = except_state ex n \<Longrightarrow>
     accepts_from ss i w \<longleftrightarrow> (\<exists>c v. w = c # v \<and> c \<notin> set ex \<and> accepts_from ss n v)"
  using accepts_from.consumed [of i ss]
  by (auto simp: except_state_def state_consumes_def elim: accepts_fromE)

lemma accepts_split:
  "i < length ss \<Longrightarrow> ss ! i = split_state n a \<Longrightarrow> accepts_from ss i w \<longleftrightarrow> accepts_from ss n w \<or> accepts_from ss a w"
  using accepts_from.continued [of i ss w] accepts_from.alternative [of i ss w]
  by (auto simp: split_state_def state_consumes_def elim: accepts_fromE)

lemma accepts_match: "i < length ss \<Longrightarrow> ss ! i = match_state \<Longrightarrow> accepts_from ss i w \<longleftrightarrow> w = []"
  using accepts_from.matched [of i ss]
  by (auto simp: match_state_def state_consumes_def elim: accepts_fromE)

text \<open>The three loops: one or more, any number, and any number of labels.\<close>

lemma clear_of_simps [simp]:
  "clear_of ex []" "clear_of ex (c # w) \<longleftrightarrow> c \<notin> set ex \<and> clear_of ex w" "clear_of ex (u @ v) \<longleftrightarrow> clear_of ex u \<and> clear_of ex v"
  by (auto simp: clear_of_def)

lemma run_lang:
  assumes p: "\<And>w. P w \<longleftrightarrow> (\<exists>c v. w = c # v \<and> c \<notin> set ex \<and> (P v \<or> Q v))"
  shows "P w \<longleftrightarrow> (\<exists>u v. w = u @ v \<and> u \<noteq> [] \<and> clear_of ex u \<and> Q v)"
proof (induction w)
  case Nil
  show ?case by (subst p) auto
next
  case (Cons c w)
  have "P (c # w) \<longleftrightarrow> c \<notin> set ex \<and> (P w \<or> Q w)" by (subst p) auto
  also have "\<dots> \<longleftrightarrow> (\<exists>u v. c # w = u @ v \<and> u \<noteq> [] \<and> clear_of ex u \<and> Q v)" (is "_ \<longleftrightarrow> ?r")
  proof
    assume "c \<notin> set ex \<and> (P w \<or> Q w)"
    then consider u v where "w = u @ v" "clear_of ex u" "Q v" "c \<notin> set ex" | "Q w" "c \<notin> set ex" using Cons.IH by blast
    then show ?r
    proof cases
      case (1 u v)
      then show ?r by (intro exI [of _ "c # u"] exI [of _ v]) simp
    next
      case 2
      then show ?r by (intro exI [of _ "[c]"] exI [of _ w]) simp
    qed
  next
    assume ?r
    then obtain u v where r: "w = u @ v" "clear_of ex u" "Q v" "c \<notin> set ex" by (auto simp: Cons_eq_append_conv)
    then show "c \<notin> set ex \<and> (P w \<or> Q w)" using Cons.IH by (cases "u = []") auto
  qed
  finally show ?case .
qed

lemma star_lang:
  assumes p: "\<And>w. P w \<longleftrightarrow> Q w \<or> (\<exists>c v. w = c # v \<and> c \<notin> set ex \<and> P v)"
  shows "P w \<longleftrightarrow> (\<exists>u v. w = u @ v \<and> clear_of ex u \<and> Q v)"
proof (induction w)
  case Nil
  show ?case by (subst p) auto
next
  case (Cons c w)
  have "P (c # w) \<longleftrightarrow> Q (c # w) \<or> c \<notin> set ex \<and> P w" by (subst p) auto
  also have "\<dots> \<longleftrightarrow> (\<exists>u v. c # w = u @ v \<and> clear_of ex u \<and> Q v)" (is "_ \<longleftrightarrow> ?r")
  proof
    assume "Q (c # w) \<or> c \<notin> set ex \<and> P w"
    then consider "Q (c # w)" | u v where "w = u @ v" "clear_of ex u" "Q v" "c \<notin> set ex" using Cons.IH by blast
    then show ?r
    proof cases
      case 1
      then show ?r by (intro exI [of _ "[]"] exI [of _ "c # w"]) simp
    next
      case (2 u v)
      then show ?r by (intro exI [of _ "c # u"] exI [of _ v]) simp
    qed
  next
    assume ?r
    then show "Q (c # w) \<or> c \<notin> set ex \<and> P w" using Cons.IH by (auto simp: Cons_eq_append_conv)
  qed
  finally show ?case .
qed

lemma label_lang:
  assumes p: "\<And>w. P w \<longleftrightarrow> Q w \<or> (\<exists>u v. w = CHR ''.'' # u @ v \<and> u \<noteq> [] \<and> clear_of ex u \<and> P v)"
  shows "P w \<longleftrightarrow> (\<exists>ls v. w = concat (map ((#) (CHR ''.'')) ls) @ v \<and> (\<forall>l \<in> set ls. l \<noteq> [] \<and> clear_of ex l) \<and> Q v)"
proof (induction "length w" arbitrary: w rule: less_induct)
  case less
  let ?R = "\<lambda>w. \<exists>ls v. w = concat (map ((#) (CHR ''.'')) ls) @ v \<and> (\<forall>l \<in> set ls. l \<noteq> [] \<and> clear_of ex l) \<and> Q v"
  have ih: "P v \<longleftrightarrow> ?R v" if "w = CHR ''.'' # u @ v" for u v using less that by simp
  have "(w = CHR ''.'' # u @ v \<and> u \<noteq> [] \<and> clear_of ex u \<and> P v) = (w = CHR ''.'' # u @ v \<and> u \<noteq> [] \<and> clear_of ex u \<and> ?R v)"
    for u v using ih [of u v] by blast
  then have "P w \<longleftrightarrow> Q w \<or> (\<exists>u v. w = CHR ''.'' # u @ v \<and> u \<noteq> [] \<and> clear_of ex u \<and> ?R v)"
    by (simp only: p [of w])
  also have "\<dots> \<longleftrightarrow> ?R w"
  proof
    assume "Q w \<or> (\<exists>u v. w = CHR ''.'' # u @ v \<and> u \<noteq> [] \<and> clear_of ex u \<and> ?R v)"
    then show "?R w"
    proof
      assume "Q w"
      then show "?R w" by (intro exI [of _ "[]"] exI [of _ w]) simp
    next
      assume "\<exists>u v. w = CHR ''.'' # u @ v \<and> u \<noteq> [] \<and> clear_of ex u \<and> ?R v"
      then obtain u ls v where "w = CHR ''.'' # u @ concat (map ((#) (CHR ''.'')) ls) @ v" "u \<noteq> []" "clear_of ex u"
        "\<forall>l \<in> set ls. l \<noteq> [] \<and> clear_of ex l" "Q v" by blast
      then show "?R w" by (intro exI [of _ "u # ls"] exI [of _ v]) simp
    qed
  next
    assume "?R w"
    then obtain ls v where r: "w = concat (map ((#) (CHR ''.'')) ls) @ v" "\<forall>l \<in> set ls. l \<noteq> [] \<and> clear_of ex l" "Q v" by blast
    show "Q w \<or> (\<exists>u v. w = CHR ''.'' # u @ v \<and> u \<noteq> [] \<and> clear_of ex u \<and> ?R v)"
    proof (cases ls)
      case Nil
      with r show ?thesis by simp
    next
      case (Cons l ls')
      with r have "w = CHR ''.'' # l @ (concat (map ((#) (CHR ''.'')) ls') @ v)" "l \<noteq> []" "clear_of ex l"
        "?R (concat (map ((#) (CHR ''.'')) ls') @ v)" by auto
      then show ?thesis by blast
    qed
  qed
  finally show ?case .
qed

text \<open>
  A fragment appended to an automaton denotes a language: whatever follows it, its first state
  accepts a word of the language followed by what the state after the fragment accepts.
\<close>

definition fragment :: "UriMatchState list \<Rightarrow> UriMatchState list \<Rightarrow> string set \<Rightarrow> bool" where
  "fragment before after' lang \<longleftrightarrow>
     (\<exists>frag. after' = before @ frag
       \<and> (\<forall>s \<in> set frag. us_kind s \<noteq> eMatch \<and> us_next s \<le> length after' \<and> us_alternative s \<le> length after')
       \<and> (\<forall>rest w. accepts_from (after' @ rest) (length before) w
            \<longleftrightarrow> (\<exists>u v. w = u @ v \<and> u \<in> lang \<and> accepts_from (after' @ rest) (length after') v)))"

lemma fragment_refl: "fragment ss ss {[]}"
  by (simp add: fragment_def)

lemma fragment_seq:
  assumes "fragment a b L" "fragment b c M"
  shows "fragment a c {u @ v |u v. u \<in> L \<and> v \<in> M}"
proof -
  obtain f where f: "b = a @ f" "\<forall>s \<in> set f. us_kind s \<noteq> eMatch \<and> us_next s \<le> length b \<and> us_alternative s \<le> length b"
    "\<And>rest w. accepts_from (b @ rest) (length a) w \<longleftrightarrow> (\<exists>u v. w = u @ v \<and> u \<in> L \<and> accepts_from (b @ rest) (length b) v)"
    using assms(1) unfolding fragment_def by blast
  obtain g where g: "c = b @ g" "\<forall>s \<in> set g. us_kind s \<noteq> eMatch \<and> us_next s \<le> length c \<and> us_alternative s \<le> length c"
    "\<And>rest w. accepts_from (c @ rest) (length b) w \<longleftrightarrow> (\<exists>u v. w = u @ v \<and> u \<in> M \<and> accepts_from (c @ rest) (length c) v)"
    using assms(2) unfolding fragment_def by blast
  have "accepts_from (c @ rest) (length a) w
      \<longleftrightarrow> (\<exists>u v. w = u @ v \<and> u \<in> {u @ v |u v. u \<in> L \<and> v \<in> M} \<and> accepts_from (c @ rest) (length c) v)" (is "_ \<longleftrightarrow> ?r") for rest w
  proof -
    have "accepts_from (c @ rest) (length a) w \<longleftrightarrow> (\<exists>u v. w = u @ v \<and> u \<in> L \<and> accepts_from (c @ rest) (length b) v)"
      using f(3) [of "g @ rest" w] g(1) by simp
    also have "\<dots> \<longleftrightarrow> (\<exists>u x v. w = u @ x @ v \<and> u \<in> L \<and> x \<in> M \<and> accepts_from (c @ rest) (length c) v)"
      unfolding g(3) by blast
    also have "\<dots> \<longleftrightarrow> ?r" by (auto simp: append_assoc [symmetric] simp del: append_assoc)
    finally show ?thesis .
  qed
  moreover have "c = a @ (f @ g)" "length b \<le> length c" using f(1) g(1) by simp_all
  moreover have "\<forall>s \<in> set (f @ g). us_kind s \<noteq> eMatch \<and> us_next s \<le> length c \<and> us_alternative s \<le> length c"
    using f(2) g(1,2) by fastforce
  ultimately show ?thesis unfolding fragment_def by blast
qed

lemma fragmentI:
  assumes "b = ss @ frag" "\<forall>s \<in> set frag. us_kind s \<noteq> eMatch \<and> us_next s \<le> length b \<and> us_alternative s \<le> length b"
    and "\<And>rest w. accepts_from (b @ rest) (length ss) w \<longleftrightarrow> (\<exists>u v. w = u @ v \<and> u \<in> lang \<and> accepts_from (b @ rest) (length b) v)"
  shows "fragment ss b lang"
  unfolding fragment_def using assms by (intro exI [of _ frag]) simp

lemma literal_fragment: "fragment ss (append_literal_state ss ch) {[ch]}"
proof -
  have "accepts_from ((ss @ [literal_state ch (length ss + 1)]) @ rest) (length ss) w
    \<longleftrightarrow> (\<exists>v. w = ch # v \<and> accepts_from ((ss @ [literal_state ch (length ss + 1)]) @ rest) (length ss + 1) v)" for rest w
    by (rule accepts_literal) (simp_all add: nth_append)
  then show ?thesis unfolding fragment_def append_literal_state_def by (simp add: literal_state_def)
qed

lemma run_fragment: "fragment ss (append_run_states ss ex) {w. w \<noteq> [] \<and> clear_of ex w}"
proof -
  let ?n = "length ss" and ?b = "ss @ [except_state ex (length ss + 1), split_state (length ss) (length ss + 2)]"
  have "accepts_from (?b @ rest) ?n w \<longleftrightarrow> (\<exists>u v. w = u @ v \<and> u \<noteq> [] \<and> clear_of ex u \<and> accepts_from (?b @ rest) (?n + 2) v)" for rest w
  proof (rule run_lang)
    fix w
    have e: "accepts_from (?b @ rest) ?n w \<longleftrightarrow> (\<exists>c v. w = c # v \<and> c \<notin> set ex \<and> accepts_from (?b @ rest) (?n + 1) v)" for w
      by (rule accepts_except) (simp_all add: nth_append)
    have s: "accepts_from (?b @ rest) (?n + 1) w \<longleftrightarrow> accepts_from (?b @ rest) ?n w \<or> accepts_from (?b @ rest) (?n + 2) w" for w
      by (rule accepts_split) (simp_all add: nth_append)
    show "accepts_from (?b @ rest) ?n w \<longleftrightarrow>
        (\<exists>c v. w = c # v \<and> c \<notin> set ex \<and> (accepts_from (?b @ rest) ?n v \<or> accepts_from (?b @ rest) (?n + 2) v))"
      by (simp only: e [of w] s)
  qed
  then show ?thesis unfolding fragment_def append_run_states_def Let_def
    by (simp add: except_state_def split_state_def conj_assoc)
qed

lemma prefixed_fragment:
  "fragment ss (append_prefixed_run_states ss p ex non_empty) ({[]} \<union> {p # w |w. (non_empty \<longrightarrow> w \<noteq> []) \<and> clear_of ex w})"
proof -
  let ?n = "length ss"
  define b where "b = append_prefixed_run_states ss p ex non_empty"
  have len: "length b = ?n + 4" by (simp add: b_def append_prefixed_run_states_def Let_def)
  have loop: "accepts_from (b @ rest) (?n + 2) w \<longleftrightarrow>
      (\<exists>u v. w = u @ v \<and> (non_empty \<longrightarrow> u \<noteq> []) \<and> clear_of ex u \<and> accepts_from (b @ rest) (?n + 4) v)" for rest w
  proof (cases non_empty)
    case True
    have e: "accepts_from (b @ rest) (?n + 2) w \<longleftrightarrow> (\<exists>c v. w = c # v \<and> c \<notin> set ex \<and> accepts_from (b @ rest) (?n + 3) v)" for w
      by (rule accepts_except) (simp_all add: nth_append b_def append_prefixed_run_states_def Let_def True)
    have s: "accepts_from (b @ rest) (?n + 3) w \<longleftrightarrow> accepts_from (b @ rest) (?n + 2) w \<or> accepts_from (b @ rest) (?n + 4) w" for w
      by (rule accepts_split) (simp_all add: nth_append b_def append_prefixed_run_states_def Let_def True)
    from run_lang [OF e [unfolded s], of w] True show ?thesis by blast
  next
    case False
    have s: "accepts_from (b @ rest) (?n + 2) w \<longleftrightarrow> accepts_from (b @ rest) (?n + 3) w \<or> accepts_from (b @ rest) (?n + 4) w" for w
      by (rule accepts_split) (simp_all add: nth_append b_def append_prefixed_run_states_def Let_def False)
    have e: "accepts_from (b @ rest) (?n + 3) w \<longleftrightarrow> (\<exists>c v. w = c # v \<and> c \<notin> set ex \<and> accepts_from (b @ rest) (?n + 2) v)" for w
      by (rule accepts_except) (simp_all add: nth_append b_def append_prefixed_run_states_def Let_def False)
    have "accepts_from (b @ rest) (?n + 2) w \<longleftrightarrow>
        accepts_from (b @ rest) (?n + 4) w \<or> (\<exists>c v. w = c # v \<and> c \<notin> set ex \<and> accepts_from (b @ rest) (?n + 2) v)" for w
      using s [of w] e [of w] by blast
    from star_lang [OF this] False show ?thesis by simp
  qed
  have s: "accepts_from (b @ rest) ?n w \<longleftrightarrow> accepts_from (b @ rest) (?n + 1) w \<or> accepts_from (b @ rest) (?n + 4) w" for rest w
    by (rule accepts_split) (simp_all add: nth_append b_def append_prefixed_run_states_def Let_def)
  have l: "accepts_from (b @ rest) (?n + 1) w \<longleftrightarrow> (\<exists>v. w = p # v \<and> accepts_from (b @ rest) (?n + 2) v)" for rest w
    by (rule accepts_literal) (simp_all add: nth_append b_def append_prefixed_run_states_def Let_def)
  have "accepts_from (b @ rest) ?n w \<longleftrightarrow>
      (\<exists>u v. w = u @ v \<and> u \<in> {[]} \<union> {p # w |w. (non_empty \<longrightarrow> w \<noteq> []) \<and> clear_of ex w} \<and> accepts_from (b @ rest) (length b) v)" for rest w
    unfolding s [of rest w] l [of rest w] loop len by (auto simp del: append_assoc) (metis append_Cons append_Nil)+
  moreover have "\<exists>frag. b = ss @ frag \<and> (\<forall>s \<in> set frag. us_kind s \<noteq> eMatch \<and> us_next s \<le> length b \<and> us_alternative s \<le> length b)"
    unfolding len by (simp add: b_def append_prefixed_run_states_def Let_def split_state_def literal_state_def except_state_def)
  ultimately show ?thesis unfolding fragment_def b_def [symmetric] by blast
qed

lemma label_fragment:
  "fragment ss (append_label_states ss) {concat (map ((#) (CHR ''.'')) ls) |ls. \<forall>l \<in> set ls. l \<noteq> [] \<and> clear_of ''/?#'' l}"
proof -
  let ?n = "length ss"
  define b where "b = append_label_states ss"
  have len: "length b = ?n + 4" by (simp add: b_def append_label_states_def Let_def)
  note d = nth_append b_def append_label_states_def Let_def
  have s0: "accepts_from (b @ rest) ?n w \<longleftrightarrow> accepts_from (b @ rest) (?n + 1) w \<or> accepts_from (b @ rest) (?n + 4) w" for rest w
    by (rule accepts_split) (simp_all add: d)
  have l1: "accepts_from (b @ rest) (?n + 1) w \<longleftrightarrow> (\<exists>v. w = CHR ''.'' # v \<and> accepts_from (b @ rest) (?n + 2) v)" for rest w
    by (rule accepts_literal) (simp_all add: d)
  have e2: "accepts_from (b @ rest) (?n + 2) w \<longleftrightarrow> (\<exists>c v. w = c # v \<and> c \<notin> set ''/?#'' \<and> accepts_from (b @ rest) (?n + 3) v)" for rest w
    by (rule accepts_except) (simp_all add: d)
  have s3: "accepts_from (b @ rest) (?n + 3) w \<longleftrightarrow> accepts_from (b @ rest) (?n + 2) w \<or> accepts_from (b @ rest) ?n w" for rest w
    by (rule accepts_split) (simp_all add: d)
  have run: "accepts_from (b @ rest) (?n + 2) w \<longleftrightarrow>
      (\<exists>u v. w = u @ v \<and> u \<noteq> [] \<and> clear_of ''/?#'' u \<and> accepts_from (b @ rest) ?n v)" for rest w
    by (rule run_lang [OF e2 [unfolded s3]])
  have "accepts_from (b @ rest) ?n w \<longleftrightarrow> accepts_from (b @ rest) (?n + 4) w
      \<or> (\<exists>u v. w = CHR ''.'' # u @ v \<and> u \<noteq> [] \<and> clear_of ''/?#'' u \<and> accepts_from (b @ rest) ?n v)" for rest w
    unfolding s0 [of rest w] l1 [of rest w] run by blast
  note label = label_lang [OF this]
  have lang: "accepts_from (b @ rest) ?n w \<longleftrightarrow> (\<exists>u v. w = u @ v
      \<and> u \<in> {concat (map ((#) (CHR ''.'')) ls) |ls. \<forall>l \<in> set ls. l \<noteq> [] \<and> clear_of ''/?#'' l} \<and> accepts_from (b @ rest) (length b) v)" for rest w
    unfolding len label [of rest w] by blast
  have frag: "\<exists>frag. b = ss @ frag \<and> (\<forall>s \<in> set frag. us_kind s \<noteq> eMatch \<and> us_next s \<le> length b \<and> us_alternative s \<le> length b)"
    unfolding len by (simp add: b_def append_label_states_def Let_def split_state_def literal_state_def except_state_def)
  show ?thesis unfolding b_def [symmetric] using frag lang by (elim exE conjE) (rule fragmentI)
qed

lemma expression_fragment: "fragment ss (expression_states ss op) (expression_lang op)"
  using prefixed_fragment [of ss _ _ True, simplified] prefixed_fragment [of ss _ _ False, simplified]
  by (simp add: expression_states_def expression_lang_def run_fragment label_fragment)

subsection \<open>The compiled template\<close>

fun token_source :: "UriToken \<Rightarrow> string" where
  "token_source (Literal_token ch) = append_regex_literal [] ch"
| "token_source (Expression_token op) = expression_source op"

lemma append_regex_literal_eq: "append_regex_literal pattern ch = pattern @ append_regex_literal [] ch"
  by (simp add: append_regex_literal_def)

lemma find_close:
  assumes "find_index_from (\<lambda>c. c = CHR ''}'') rest 0 = Some close"
  shows "takeWhile (\<lambda>c. c \<noteq> CHR ''}'') rest = take close rest" "close < length rest"
  using find_index_from_Some [OF assms] by (auto intro: takeWhile_eq_take_P_nth)

lemma template_tokens_simps:
  "template_tokens [] = []"
  "ch \<noteq> CHR ''{'' \<Longrightarrow> template_tokens (ch # rest) = Literal_token ch # template_tokens rest"
  "find_index_from (\<lambda>c. c = CHR ''}'') rest 0 = Some close \<Longrightarrow>
     template_tokens (CHR ''{'' # rest)
       = Expression_token (uri_expression_operator (take close rest)) # template_tokens (drop (close + 1) rest)"
  using find_close [of rest close] by (simp_all add: template_tokens.simps [of "_ # _"] template_tokens.simps [of "[]"] Let_def min_absorb2)

lemma compile_template_loop_spec:
  "compile_template_loop rest pattern states prev = Inr (pattern', states') \<Longrightarrow>
     pattern' = pattern @ concat (map token_source (template_tokens rest))
     \<and> fragment states states' (tokens_lang (template_tokens rest))"
proof (induction rest pattern states prev rule: compile_template_loop.induct)
  case (1 pattern states prev)
  then show ?case by (simp add: template_tokens_simps fragment_refl)
next
  case (2 ch rest pattern states prev)
  show ?case
  proof (cases "ch = CHR ''{''")
    case False
    with "2.prems" have c: "ch \<noteq> CHR ''}''"
      "compile_template_loop rest (append_regex_literal pattern ch) (append_literal_state states ch) None = Inr (pattern', states')"
      by (simp_all split: if_splits)
    from "2.IH"(1) [OF c(1) False c(2)]
    have r: "pattern' = append_regex_literal pattern ch @ concat (map token_source (template_tokens rest))"
      "fragment (append_literal_state states ch) states' (tokens_lang (template_tokens rest))" by simp_all
    from fragment_seq [OF literal_fragment r(2)] r(1) False show ?thesis
      by (simp add: template_tokens_simps append_regex_literal_eq [of pattern])
  next
    case True
    obtain close where f: "find_index_from (\<lambda>c. c = CHR ''}'') rest 0 = Some close"
      using "2.prems" True by (auto split: option.splits)
    let ?e = "take close rest" and ?op = "uri_expression_operator (take close rest)"
    have a: "adjacent_ok prev ?op" using "2.prems" True f by (auto simp: Let_def split: if_splits)
    obtain p ss where e: "append_uri_expression_pattern pattern states ?e = Inr (p, ss)"
      and l: "compile_template_loop (drop (close + 1) rest) p ss (Some ?op) = Inr (pattern', states')"
      using "2.prems" True f a by (auto simp: Let_def)
    have ps: "p = pattern @ expression_source ?op" "ss = expression_states states ?op"
      using e by (auto simp: append_uri_expression_pattern_def)
    have "pattern' = p @ concat (map token_source (template_tokens (drop (close + 1) rest)))
      \<and> fragment ss states' (tokens_lang (template_tokens (drop (close + 1) rest)))"
      using "2.IH"(2) [of close ?e ?op "(p, ss)" p ss] True f a e l by simp
    with fragment_seq [OF expression_fragment [of states ?op]] ps True f show ?thesis
      by (simp add: template_tokens_simps)
  qed
qed

lemma fragment_ok:
  assumes "fragment [] ss lang"
  shows "states_ok (ss @ [match_state])" "accepts_from (ss @ [match_state]) 0 w \<longleftrightarrow> w \<in> lang"
proof -
  show "states_ok (ss @ [match_state])"
    using assms by (auto simp: fragment_def states_ok_def match_state_def less_Suc_eq_le)
  have "accepts_from (ss @ [match_state]) (length ss) v \<longleftrightarrow> v = []" for v
    by (rule accepts_match) simp_all
  with assms show "accepts_from (ss @ [match_state]) 0 w \<longleftrightarrow> w \<in> lang" by (auto simp: fragment_def)
qed

lemma compile_uri_template_Inr:
  assumes "compile_uri_template t = Inr p"
  shows "up_source p = ''^'' @ concat (map token_source (template_tokens t)) @ ''$''"
    "\<exists>ss. up_matcher p = ss @ [match_state] \<and> fragment [] ss (tokens_lang (template_tokens t))"
proof -
  obtain pattern ss where c: "compile_template_loop t ''^'' [] None = Inr (pattern, ss)"
    "p = \<lparr>up_source = pattern @ ''$'', up_matcher = ss @ [match_state]\<rparr>"
    using assms by (auto simp: compile_uri_template_def split: if_splits)
  from compile_template_loop_spec [OF c(1)] c(2)
  show "up_source p = ''^'' @ concat (map token_source (template_tokens t)) @ ''$''"
    "\<exists>ss. up_matcher p = ss @ [match_state] \<and> fragment [] ss (tokens_lang (template_tokens t))" by simp_all
qed

text \<open>C21: A URI matches a compiled template exactly when it is the text of an expansion: the literals of the
  template in order, each expression replaced by a text its operator can expand to. The matcher returns for
  every URI and never reads outside the automaton.\<close>

theorem uri_matching_exact:
  assumes "compile_uri_template t = Inr p"
  shows "uri_template_matches (up_matcher p) uri = Some (uri \<in> tokens_lang (template_tokens t))"
proof -
  obtain ss where "up_matcher p = ss @ [match_state]" "fragment [] ss (tokens_lang (template_tokens t))"
    using compile_uri_template_Inr(2) [OF assms] by blast
  with fragment_ok show ?thesis by (simp add: uri_template_matches_spec)
qed

subsection \<open>The source identifies the language\<close>

fun token_ok :: "UriToken \<Rightarrow> bool" where
  "token_ok (Literal_token ch) = True"
| "token_ok (Expression_token op) = (case op of None \<Rightarrow> True | Some ch \<Rightarrow> is_uri_template_operator ch)"

lemma template_tokens_ok: "t \<in> set (template_tokens s) \<Longrightarrow> token_ok t"
proof (induction s rule: template_tokens.induct)
  case (1 s)
  show ?case
  proof (cases s)
    case Nil
    with "1.prems" show ?thesis by (simp add: template_tokens.simps)
  next
    case (Cons ch rest)
    with "1.prems" "1.IH"(2) [OF Cons] "1.IH"(1) [OF Cons] show ?thesis
      by (subst (asm) template_tokens.simps)
        (auto simp: Let_def uri_expression_operator_def split: if_splits list.splits option.splits)
  qed
qed

lemma token_ok_cases:
  assumes "token_ok (Expression_token op)"
  shows "op \<in> {None, Some (CHR ''+''), Some (CHR ''#''), Some (CHR ''.''), Some (CHR ''/''), Some (CHR '';''), Some (CHR ''?''), Some (CHR ''&'')}"
  using assms by (auto simp: is_uri_template_operator_def split: option.splits)

lemma literal_source_cases:
  "append_regex_literal [] ch = [CHR 0x5C, ch] \<or> append_regex_literal [] ch = [ch] \<and> ch \<noteq> CHR 0x5C \<and> ch \<noteq> CHR ''['' \<and> ch \<noteq> CHR ''(''"
  by (simp add: append_regex_literal_def)

lemma expression_source_start: "\<exists>s. expression_source op = CHR ''['' # s \<or> expression_source op = CHR ''('' # s"
  by (simp add: expression_source_def)

lemma expression_source_inject:
  assumes "token_ok (Expression_token op)" "token_ok (Expression_token op')" "expression_source op @ r = expression_source op' @ r'"
  shows "op = op' \<and> r = r'"
  using token_ok_cases [OF assms(1)] token_ok_cases [OF assms(2)] assms(3)
  by (elim insertE emptyE) (simp_all add: expression_source_def)

lemma token_source_inject:
  assumes "token_ok t" "token_ok t'" "token_source t @ r = token_source t' @ r'"
  shows "t = t' \<and> r = r'"
proof (cases t; cases t')
  fix ch ch' assume "t = Literal_token ch" "t' = Literal_token ch'"
  with assms(3) literal_source_cases [of ch] literal_source_cases [of ch'] show ?thesis by auto
next
  fix ch op assume "t = Literal_token ch" "t' = Expression_token op"
  with assms(3) literal_source_cases [of ch] expression_source_start [of op] show ?thesis by auto
next
  fix ch op assume "t = Expression_token op" "t' = Literal_token ch"
  with assms(3) literal_source_cases [of ch] expression_source_start [of op] show ?thesis by auto
next
  fix op op' assume "t = Expression_token op" "t' = Expression_token op'"
  with assms expression_source_inject [of op op' r r'] show ?thesis by simp
qed

lemma token_source_nonempty: "token_source t \<noteq> []"
  by (cases t) (auto simp: append_regex_literal_def expression_source_def)

lemma sources_inject:
  assumes "\<forall>t \<in> set ts. token_ok t" "\<forall>t \<in> set us. token_ok t" "concat (map token_source ts) = concat (map token_source us)"
  shows "ts = us"
  using assms
proof (induction ts arbitrary: us)
  case Nil
  then show ?case by (cases us) (auto simp: token_source_nonempty)
next
  case (Cons t ts)
  have "us \<noteq> []" using Cons.prems(3) token_source_nonempty [of t] by auto
  then obtain u us' where us: "us = u # us'" by (cases us) blast+
  with Cons.prems token_source_inject [of t u "concat (map token_source ts)" "concat (map token_source us')"]
  have "t = u" and eq: "concat (map token_source ts) = concat (map token_source us')" by simp_all
  have "ts = us'" using Cons.prems(1,2) us eq by (intro Cons.IH) simp_all
  with us \<open>t = u\<close> show ?case by simp
qed

text \<open>The text kept with a template identifies it: templates with the same text match the same URIs, so the
  check that refuses a second template with the text of a registered one misses no duplicate spelled with other
  variable names.\<close>

theorem same_source_same_uris:
  assumes "compile_uri_template t = Inr p" and "compile_uri_template t' = Inr p'" and "up_source p = up_source p'"
  shows "uri_template_matches (up_matcher p) uri = uri_template_matches (up_matcher p') uri"
proof -
  have "concat (map token_source (template_tokens t)) = concat (map token_source (template_tokens t'))"
    using compile_uri_template_Inr(1) [OF assms(1)] compile_uri_template_Inr(1) [OF assms(2)] assms(3) by simp
  then have "template_tokens t = template_tokens t'"
    using template_tokens_ok by (intro sources_inject) auto
  moreover obtain ss where "up_matcher p = ss @ [match_state]" "fragment [] ss (tokens_lang (template_tokens t))"
    using compile_uri_template_Inr(2) [OF assms(1)] by blast
  moreover obtain ss' where "up_matcher p' = ss' @ [match_state]" "fragment [] ss' (tokens_lang (template_tokens t'))"
    using compile_uri_template_Inr(2) [OF assms(2)] by blast
  ultimately show ?thesis using fragment_ok by (simp add: uri_template_matches_spec)
qed

subsection \<open>Adjacent expressions\<close>

text \<open>What the excluded characters are for: the texts of an expression are free of them, fragment
  expressions excepted, whose texts start with the character itself.\<close>

lemma expression_clear:
  assumes "token_ok (Expression_token op)" "op \<noteq> Some (CHR ''#'')" "w \<in> expression_lang op"
  shows "clear_of (uri_expression_excluded_characters op) w"
proof -
  have "clear_of ''/?#'' (concat (map ((#) (CHR ''.'')) ls))" if "\<forall>l \<in> set ls. l \<noteq> [] \<and> clear_of ''/?#'' l" for ls
    using that by (induction ls) auto
  with token_ok_cases [OF assms(1)] assms(2,3) show ?thesis
    by (auto simp: expression_lang_def uri_expression_excluded_characters_def)
qed

lemma expression_leading:
  assumes "token_ok (Expression_token (Some ch))" "ch \<noteq> CHR ''+''" "w \<in> expression_lang (Some ch)" "w \<noteq> []"
  shows "hd w = ch"
proof -
  have "hd (concat (map ((#) (CHR ''.'')) ls)) = CHR ''.''" if "concat (map ((#) (CHR ''.'')) ls) \<noteq> []" for ls
    using that by (cases ls) auto
  with token_ok_cases [OF assms(1)] assms(2-) show ?thesis by (auto simp: expression_lang_def)
qed

text \<open>Where the compiler lets two expressions stand side by side, a text divides between them in one way only,
  unless both are fragment expressions.\<close>

theorem adjacent_expressions_unambiguous:
  assumes "adjacent_ok (Some op) op'" and "token_ok (Expression_token op)" and "token_ok (Expression_token op')"
    and "op \<noteq> Some (CHR ''#'')"
    and "u \<in> expression_lang op" "v \<in> expression_lang op'" "x \<in> expression_lang op" "y \<in> expression_lang op'"
    and "u @ v = x @ y"
  shows "u = x \<and> v = y"
proof -
  obtain ch where ch: "op' = Some ch" "ch \<noteq> CHR ''+''" "ch \<in> set (uri_expression_excluded_characters op)"
    using assms(1) by (auto simp: adjacent_ok_def split: option.splits)
  have same: "length u \<ge> length x" if d: "u @ v = x @ y" "v \<in> expression_lang op'" "x \<in> expression_lang op" for u v x y
  proof (rule ccontr)
    assume "\<not> length u \<ge> length x"
    then obtain z where z: "x = u @ z" "z \<noteq> []" using d(1) by (auto simp: append_eq_append_conv2)
    with d(1) have v: "v = z @ y" by simp
    with z expression_leading [of ch v] assms(3) ch d(2) have "hd z = ch" by auto
    with z(2) have "ch \<in> set x" using z(1) by (cases z) auto
    with expression_clear [OF assms(2,4) d(3)] ch(3) show False by (auto simp: clear_of_def)
  qed
  have "length u = length x" using same [OF assms(9,6,7)] same [OF assms(9) [symmetric] assms(8,5)] by simp
  with assms(9) show ?thesis by simp
qed

text \<open>Two fragment expressions pass the check, and a text divides between them in two ways.\<close>

lemma fragments_ambiguous:
  "adjacent_ok (Some (Some (CHR ''#''))) (Some (CHR ''#''))"
  "[] \<in> expression_lang (Some (CHR ''#''))" "''#top'' \<in> expression_lang (Some (CHR ''#''))"
  "[] @ ''#top'' = ''#top'' @ []"
  by (simp_all add: adjacent_ok_def uri_expression_excluded_characters_def expression_lang_def clear_of_def)

subsection \<open>Witnesses\<close>

lemma user_template:
  "compile_uri_template ''u/{id}'' = Inr \<lparr>up_source = ''^u/[^/?#]+$'',
     up_matcher = [literal_state (CHR ''u'') 1, literal_state (CHR ''/'') 2, except_state ''/?#'' 3, split_state 2 4, match_state]\<rparr>"
  by (simp add: compile_uri_template_def append_regex_literal_def append_literal_state_def append_uri_expression_pattern_def validate_uri_template_variables_def validate_variables.simps uri_expression_operator_def is_uri_template_operator_def adjacent_ok_def expression_source_def expression_states_def append_run_states_def variable_name_char_def is_alnum_def is_lower_def is_upper_def is_digit_char_def Let_def)
    (simp add: numeral_eq_Suc)

lemma other_template:
  "compile_uri_template ''u/{name}'' = Inr \<lparr>up_source = ''^u/[^/?#]+$'',
     up_matcher = [literal_state (CHR ''u'') 1, literal_state (CHR ''/'') 2, except_state ''/?#'' 3, split_state 2 4, match_state]\<rparr>"
  by (simp add: compile_uri_template_def append_regex_literal_def append_literal_state_def append_uri_expression_pattern_def validate_uri_template_variables_def validate_variables.simps uri_expression_operator_def is_uri_template_operator_def adjacent_ok_def expression_source_def expression_states_def append_run_states_def variable_name_char_def is_alnum_def is_lower_def is_upper_def is_digit_char_def Let_def)
    (simp add: numeral_eq_Suc)

lemma user_tokens: "template_tokens ''u/{id}'' = [Literal_token (CHR ''u''), Literal_token (CHR ''/''), Expression_token None]"
  by (simp add: template_tokens.simps uri_expression_operator_def is_uri_template_operator_def Let_def)

lemma user_uri: "''u/42'' \<in> tokens_lang (template_tokens ''u/{id}'')"
  by (simp add: user_tokens expression_lang_def clear_of_def)

theorem uri_matching_exact_witness:
  "uri_template_matches [literal_state (CHR ''u'') 1, literal_state (CHR ''/'') 2, except_state ''/?#'' 3, split_state 2 4, match_state] ''u/42'' = Some True"
  using uri_matching_exact [OF user_template, of "''u/42''"] user_uri by simp

theorem same_source_same_uris_witness:
  "uri_template_matches [literal_state (CHR ''u'') 1, literal_state (CHR ''/'') 2, except_state ''/?#'' 3, split_state 2 4, match_state] ''u/42''
   = uri_template_matches [literal_state (CHR ''u'') 1, literal_state (CHR ''/'') 2, except_state ''/?#'' 3, split_state 2 4, match_state] ''u/42''"
  using same_source_same_uris [OF user_template other_template, of "''u/42''"] by simp

theorem adjacent_expressions_unambiguous_witness:
  "{(u, v). u \<in> expression_lang None \<and> v \<in> expression_lang (Some (CHR ''?'')) \<and> u @ v = ''a?q=1''} = {(''a'', ''?q=1'')}"
proof -
  have ok: "adjacent_ok (Some None) (Some (CHR ''?''))" "token_ok (Expression_token (Some (CHR ''?'')))"
    "''a'' \<in> expression_lang None" "''?q=1'' \<in> expression_lang (Some (CHR ''?''))"
    by (simp_all add: adjacent_ok_def uri_expression_excluded_characters_def is_uri_template_operator_def expression_lang_def clear_of_def)
  have "u = ''a'' \<and> v = ''?q=1''"
    if "u \<in> expression_lang None" "v \<in> expression_lang (Some (CHR ''?''))" "u @ v = ''a?q=1''" for u v
    using adjacent_expressions_unambiguous [OF ok(1) _ ok(2) _ that(1,2) ok(3,4)] that(3) by simp
  moreover have "''a'' @ ''?q=1'' = ''a?q=1''" by simp
  ultimately have "(u \<in> expression_lang None \<and> v \<in> expression_lang (Some (CHR ''?'')) \<and> u @ v = ''a?q=1'')
      = (u = ''a'' \<and> v = ''?q=1'')" for u v using ok(3,4) by metis
  then show ?thesis by simp
qed

end
