(* ===== verification/ServerEnvelope.thy ===== *)
theory ServerEnvelope
  imports ClientModel
begin

text \<open>
  How the server takes a message apart (server/server.cpp): the validity of requests, notifications
  and responses, the order in which \<open>dispatch_on_strand\<close> asks for them, and the texts of its answers.
\<close>

definition invalid_params :: int where "invalid_params = -32602"

text \<open>\<open>json == "text"\<close>.\<close>

definition is_text :: "'j JsonApi \<Rightarrow> 'j \<Rightarrow> string \<Rightarrow> bool" where
  "is_text api j s \<longleftrightarrow> j_is_string api j \<and> j_string api j = Inr s"

text \<open>A condition on a member that is present.\<close>

definition member_is :: "'j JsonApi \<Rightarrow> 'j \<Rightarrow> string \<Rightarrow> ('j \<Rightarrow> bool) \<Rightarrow> bool" where
  "member_is api j k P = (case j_find api j k of None \<Rightarrow> False | Some v \<Rightarrow> P v)"

text \<open>A text between double quotes.\<close>

definition quoted :: "string \<Rightarrow> string" where
  "quoted s = CHR 0x22 # s @ [CHR 0x22]"

subsection \<open>Envelopes\<close>

definition has_valid_request_id :: "'j JsonApi \<Rightarrow> 'j \<Rightarrow> bool" where
  "has_valid_request_id api msg = member_is api msg ''id'' (\<lambda>i. j_is_string api i \<or> j_is_integer api i)"

definition has_error_member :: "'j JsonApi \<Rightarrow> 'j \<Rightarrow> bool" where
  "has_error_member api msg = member_is api msg ''error'' (\<lambda>e. \<not> j_is_null api e)"

definition validate_request_envelope :: "'j JsonApi \<Rightarrow> 'j \<Rightarrow> string option" where
  "validate_request_envelope api msg =
     (if \<not> j_is_object api msg then Some ''JSON-RPC request must be an object''
      else if \<not> member_is api msg ''jsonrpc'' (\<lambda>v. is_text api v ''2.0'') then Some (''jsonrpc must be '' @ quoted ''2.0'')
      else if \<not> has_valid_request_id api msg then Some ''JSON-RPC request id must be a string or integer''
      else if \<not> member_is api msg ''method'' (j_is_string api) then Some ''JSON-RPC request method must be a string''
      else if j_contains api msg ''result'' \<or> has_error_member api msg then Some ''JSON-RPC request must not contain result or error''
      else if member_is api msg ''params'' (\<lambda>p. \<not> j_is_object api p) then Some ''MCP request params must be an object''
      else None)"

definition is_valid_notification_envelope :: "'j JsonApi \<Rightarrow> 'j \<Rightarrow> bool" where
  "is_valid_notification_envelope api msg \<longleftrightarrow>
     j_is_object api msg \<and> \<not> j_contains api msg ''id''
     \<and> member_is api msg ''jsonrpc'' (\<lambda>v. is_text api v ''2.0'')
     \<and> member_is api msg ''method'' (j_is_string api)
     \<and> \<not> j_contains api msg ''result'' \<and> \<not> has_error_member api msg
     \<and> \<not> member_is api msg ''params'' (\<lambda>p. \<not> j_is_null api p \<and> \<not> j_is_object api p)"

definition is_valid_response_envelope :: "'j JsonApi \<Rightarrow> 'j \<Rightarrow> bool" where
  "is_valid_response_envelope api msg =
     (if \<not> j_is_object api msg \<or> \<not> has_valid_request_id api msg \<or> j_contains api msg ''method''
         \<or> \<not> member_is api msg ''jsonrpc'' (\<lambda>v. is_text api v ''2.0'')
         \<or> (j_contains api msg ''result'' \<longleftrightarrow> has_error_member api msg) then False
      else if \<not> has_error_member api msg then True
      else (case get_member api (error_from_json api) msg ''error'' of Inl e \<Rightarrow> False | Inr e \<Rightarrow> True))"

text \<open>The order of the tests in \<open>dispatch_on_strand\<close>.\<close>

datatype MessageKind = Notification_message | Dropped_message | Response_message | Request_message

definition classify_message :: "'j JsonApi \<Rightarrow> 'j \<Rightarrow> MessageKind" where
  "classify_message api msg =
     (if is_valid_notification_envelope api msg then Notification_message
      else if j_is_object api msg \<and> j_contains api msg ''method'' \<and> \<not> j_contains api msg ''id'' then Dropped_message
      else if j_is_object api msg \<and> \<not> j_contains api msg ''method''
        \<and> (j_contains api msg ''result'' \<or> has_error_member api msg) then Response_message
      else Request_message)"

subsection \<open>Answers\<close>

definition error_object :: "'j JsonApi \<Rightarrow> int \<Rightarrow> string \<Rightarrow> 'j" where
  "error_object api code message =
     j_put api (j_put api (j_empty_object api) ''code'' (j_of_int api code)) ''message'' (j_of_string api message)"

definition make_invalid_request_wire :: "'j JsonApi \<Rightarrow> 'j \<Rightarrow> string \<Rightarrow> string" where
  "make_invalid_request_wire api msg reason =
     (let i = (case j_find api msg ''id'' of
                 Some i \<Rightarrow> if j_is_object api msg \<and> has_valid_request_id api msg then i else j_null api
               | None \<Rightarrow> j_null api)
      in j_dump api (j_put api (j_put api (j_put api (j_empty_object api) ''jsonrpc'' (j_of_string api ''2.0''))
           ''id'' i) ''error'' (error_object api invalid_request reason)))"

definition make_parse_error_wire :: "'j JsonApi \<Rightarrow> string" where
  "make_parse_error_wire api =
     j_dump api (j_put api (j_put api (j_put api (j_empty_object api) ''jsonrpc'' (j_of_string api ''2.0''))
       ''id'' (j_null api)) ''error'' (error_object api parse_error ''Parse error''))"

definition result_wire :: "'j JsonApi \<Rightarrow> RequestId \<Rightarrow> 'j \<Rightarrow> string" where
  "result_wire api i r =
     j_dump api (j_put api (j_put api (j_put api (j_empty_object api) ''id'' (id_to_json api i))
       ''jsonrpc'' (j_of_string api ''2.0'')) ''result'' r)"

definition error_wire :: "'j JsonApi \<Rightarrow> RequestId \<Rightarrow> int \<Rightarrow> string \<Rightarrow> string" where
  "error_wire api i code message =
     j_dump api (error_response_to_json api \<lparr>re_error = plain_error code message, re_jsonrpc = ''2.0'', re_id = Some i\<rparr>)"

subsection \<open>The codec and the validator agree\<close>

lemma usable_id_decodes:
  "json_kinds api \<Longrightarrow> j_is_string api i \<or> j_is_integer api i \<Longrightarrow> \<exists>rid. id_from_json api i = Inr rid"
  unfolding json_kinds_def id_from_json_def by (cases "j_is_string api i") auto

lemma accepted_request_decodes:
  assumes laws: "json_laws api" and kinds: "json_kinds api" and ok: "validate_request_envelope api msg = None"
  shows "\<exists>r. request_from_json api msg = Inr r \<and> rq_params r = j_find api msg ''params''"
proof -
  obtain v where v: "j_find api msg ''jsonrpc'' = Some v" "j_string api v = Inr ''2.0''"
    using ok by (auto simp: validate_request_envelope_def member_is_def is_text_def split: if_splits option.splits)
  obtain i where i: "j_find api msg ''id'' = Some i" "j_is_string api i \<or> j_is_integer api i"
    using ok by (auto simp: validate_request_envelope_def has_valid_request_id_def member_is_def split: if_splits option.splits)
  obtain rid where rid: "id_from_json api i = Inr rid" using usable_id_decodes [OF kinds i(2)] by blast
  obtain m where m: "j_find api msg ''method'' = Some m" "j_is_string api m"
    using ok by (auto simp: validate_request_envelope_def member_is_def split: if_splits option.splits)
  obtain t where t: "j_string api m = Inr t" using kinds m(2) by (auto simp: json_kinds_def)
  have p: "\<And>q. j_find api msg ''params'' = Some q \<Longrightarrow> \<not> j_is_null api q"
    using ok laws by (auto simp: validate_request_envelope_def member_is_def split: if_splits)
  have q: "get_optional api Inr msg ''params'' = Inr (j_find api msg ''params'')"
    using laws p by (cases "j_find api msg ''params''") (auto simp: get_optional_def has_json_value_def get_member_eq)
  show ?thesis
    using v i rid m t q by (simp add: request_from_json_def get_member_eq [OF laws] validate_jsonrpc_version_def)
qed

lemma decoded_request_accepted:
  assumes laws: "json_laws api" and kinds: "json_kinds api" and obj: "j_is_object api msg"
    and m: "message_from_json api msg = Inr (Msg_request r)" and p: "member_is api msg ''params'' (\<lambda>p. \<not> j_is_object api p) = False"
  shows "validate_request_envelope api msg = None"
proof -
  have nr: "\<not> j_contains api msg ''result''" and ne: "\<not> has_json_value api msg ''error''"
    and r: "request_from_json api msg = Inr r"
    using m by (auto simp: message_from_json_def split: if_splits)
  obtain i v t where i: "j_find api msg ''id'' = Some i" "id_from_json api i = Inr (rq_id r)"
    and v: "j_find api msg ''jsonrpc'' = Some v" "j_string api v = Inr ''2.0''"
    and t: "j_find api msg ''method'' = Some t" "j_string api t = Inr (rq_method r)"
  proof -
    from r have "get_member api (id_from_json api) msg ''id'' = Inr (rq_id r)" "get_member api (j_string api) msg ''jsonrpc'' = Inr ''2.0''"
      "get_member api (j_string api) msg ''method'' = Inr (rq_method r)"
      by (auto simp: request_from_json_def)
    with that show ?thesis
      using get_member_missing [OF laws, of msg "''id''" "id_from_json api"] get_member_missing [OF laws, of msg "''jsonrpc''" "j_string api"]
        get_member_missing [OF laws, of msg "''method''" "j_string api"]
      by (cases "j_find api msg ''id''"; cases "j_find api msg ''jsonrpc''"; cases "j_find api msg ''method''")
        (auto simp: get_member_eq [OF laws])
  qed
  have "j_is_string api i \<or> j_is_integer api i" using i(2) by (auto simp: id_from_json_def split: if_splits)
  moreover have "j_is_string api v" "j_is_string api t" using kinds v t by (auto simp: json_kinds_def)
  moreover have "\<not> has_error_member api msg" using ne by (simp add: has_error_member_def has_json_value_def member_is_def split: option.splits)
  ultimately show ?thesis
    using obj nr i v t p by (simp add: validate_request_envelope_def has_valid_request_id_def member_is_def is_text_def)
qed

text \<open>C24: The validator and the codec agree on what a request is: an object passes the validation exactly when the
  message codec decodes it as a request and its parameters, where it has any, are an object; what passes is routed to
  the request handlers.\<close>

theorem request_envelope_exact:
  assumes "json_laws api" and "json_kinds api" and "j_is_object api msg"
  shows "(validate_request_envelope api msg = None \<longleftrightarrow>
      (\<exists>r. message_from_json api msg = Inr (Msg_request r)) \<and> \<not> member_is api msg ''params'' (\<lambda>p. \<not> j_is_object api p))
    \<and> (validate_request_envelope api msg = None \<longrightarrow> classify_message api msg = Request_message)"
proof -
  have "\<exists>r. message_from_json api msg = Inr (Msg_request r)" "\<not> member_is api msg ''params'' (\<lambda>p. \<not> j_is_object api p)"
    "classify_message api msg = Request_message"
    if ok: "validate_request_envelope api msg = None"
  proof -
    have e: "\<not> has_json_value api msg ''error''" "\<not> j_contains api msg ''result''" "j_contains api msg ''id''" "j_contains api msg ''method''"
      using ok by (auto simp: validate_request_envelope_def has_error_member_def has_json_value_def has_valid_request_id_def
        member_is_def j_contains_def split: if_splits option.splits)
    from accepted_request_decodes [OF assms(1,2) ok] e show "\<exists>r. message_from_json api msg = Inr (Msg_request r)"
      by (auto simp: message_from_json_def)
    from ok show "\<not> member_is api msg ''params'' (\<lambda>p. \<not> j_is_object api p)"
      by (auto simp: validate_request_envelope_def split: if_splits)
    from e show "classify_message api msg = Request_message"
      by (auto simp: classify_message_def is_valid_notification_envelope_def)
  qed
  with decoded_request_accepted [OF assms] show ?thesis by blast
qed

theorem request_envelope_exact_witness:
  "validate_request_envelope tree_api
     (T_object [(''jsonrpc'', T_string ''2.0''), (''id'', T_int 1), (''method'', T_string ''ping'')]) = None
   \<and> classify_message tree_api
     (T_object [(''jsonrpc'', T_string ''2.0''), (''id'', T_int 1), (''method'', T_string ''ping'')]) = Request_message"
proof -
  let ?m = "T_object [(''jsonrpc'', T_string ''2.0''), (''id'', T_int 1), (''method'', T_string ''ping'')]"
  have "j_is_object tree_api ?m" by (simp add: tree_api_def)
  moreover have "validate_request_envelope tree_api ?m = None"
    by (simp add: validate_request_envelope_def has_valid_request_id_def has_error_member_def j_contains_def member_is_def is_text_def tree_api_def)
  ultimately show ?thesis using request_envelope_exact [OF tree_api_laws tree_api_kinds] by blast
qed

text \<open>What a message of the codec is routed as, and whether it passes the validation there.\<close>

definition routed_well :: "'j JsonApi \<Rightarrow> 'j JSONRPCMessage \<Rightarrow> bool" where
  "routed_well api m \<longleftrightarrow>
     (let j = message_to_json api m in
      case m of
        Msg_request r \<Rightarrow> classify_message api j = Request_message \<and> validate_request_envelope api j = None
      | Msg_notification n \<Rightarrow> classify_message api j = Notification_message
      | Msg_result r \<Rightarrow> classify_message api j = Response_message \<and> is_valid_response_envelope api j
      | Msg_error r \<Rightarrow> classify_message api j = Response_message
          \<and> (is_valid_response_envelope api j \<longleftrightarrow> re_id r \<noteq> None))"

definition params_are_objects :: "'j JsonApi \<Rightarrow> 'j JSONRPCMessage \<Rightarrow> bool" where
  "params_are_objects api m =
     (case m of Msg_request r \<Rightarrow> (\<forall>p \<in> set_option (rq_params r). j_is_object api p)
      | Msg_notification n \<Rightarrow> (\<forall>p \<in> set_option (nt_params n). j_is_object api p)
      | _ \<Rightarrow> True)"

lemma id_kind: "json_laws api \<Longrightarrow> id_ok i \<Longrightarrow> j_is_string api (id_to_json api i) \<or> j_is_integer api (id_to_json api i)"
  by (cases i) (simp_all add: id_to_json_def id_ok_def)

lemma member_is_put [simp]:
  "json_laws api \<Longrightarrow> j_is_object api j \<Longrightarrow> member_is api (j_put api j k v) k' P = (if k' = k then P v else member_is api j k' P)"
  "json_laws api \<Longrightarrow> \<not> member_is api (j_empty_object api) k P"
  "json_laws api \<Longrightarrow> j_is_object api j \<Longrightarrow> j_find api j k = None \<Longrightarrow>
     member_is api (put_optional api s j k f) k P = (\<exists>x \<in> set_option f. P (s x))"
  "json_laws api \<Longrightarrow> j_is_object api j \<Longrightarrow> k' \<noteq> k \<Longrightarrow> member_is api (put_optional api s j k f) k' P = member_is api j k' P"
  by (auto simp: member_is_def put_optional_def split: option.splits)

lemma contains_put [simp]:
  "json_laws api \<Longrightarrow> j_is_object api j \<Longrightarrow> j_contains api (j_put api j k v) k' \<longleftrightarrow> k' = k \<or> j_contains api j k'"
  "json_laws api \<Longrightarrow> \<not> j_contains api (j_empty_object api) k"
  "json_laws api \<Longrightarrow> j_is_object api j \<Longrightarrow> j_contains api (put_optional api s j k f) k' \<longleftrightarrow> (k' = k \<and> f \<noteq> None) \<or> j_contains api j k'"
  by (auto simp: j_contains_def put_optional_def split: option.splits)

lemma text_is [simp]: "json_laws api \<Longrightarrow> is_text api (j_of_string api s) t \<longleftrightarrow> s = t"
  by (simp add: is_text_def)

lemmas envelope_defs = classify_message_def is_valid_notification_envelope_def validate_request_envelope_def
  is_valid_response_envelope_def has_valid_request_id_def has_error_member_def

lemma null_kinds [simp]: "json_kinds api \<Longrightarrow> \<not> j_is_string api (j_null api) \<and> \<not> j_is_integer api (j_null api)"
  unfolding json_kinds_def by blast

lemma error_response_decodes:
  assumes "json_laws api" "int32_range (er_code (re_error r))" "value_ok api (er_data (re_error r))"
  shows "\<exists>e. get_member api (error_from_json api) (error_response_to_json api r) ''error'' = Inr e"
proof -
  have "j_find api (error_response_to_json api r) ''error'' = Some (error_to_json api (re_error r))"
    using assms(1) by (simp add: error_response_to_json_def Let_def)
  then show ?thesis using assms error_roundtrip [of api "re_error r"] by (simp add: get_member_eq value_ok_def)
qed

lemma encoded_request_routed:
  assumes "json_laws api" "id_ok (rq_id r)" "rq_jsonrpc r = ''2.0''" "\<forall>p \<in> set_option (rq_params r). j_is_object api p"
  shows "routed_well api (Msg_request r)"
  using assms id_kind [OF assms(1,2)]
  by (auto simp: routed_well_def message_to_json_def request_to_json_def Let_def envelope_defs)

lemma encoded_notification_routed:
  assumes "json_laws api" "nt_jsonrpc n = ''2.0''" "\<forall>p \<in> set_option (nt_params n). j_is_object api p"
  shows "routed_well api (Msg_notification n)"
  using assms by (auto simp: routed_well_def message_to_json_def notification_to_json_def Let_def envelope_defs)

lemma encoded_result_routed:
  assumes "json_laws api" "id_ok (rr_id r)" "rr_jsonrpc r = ''2.0''"
  shows "routed_well api (Msg_result r)"
  using assms id_kind [OF assms(1,2)]
  by (auto simp: routed_well_def message_to_json_def result_to_json_def Let_def envelope_defs)

lemma error_object_value: "json_laws api \<Longrightarrow> \<not> j_is_null api (error_to_json api e)"
  using error_object [of api e] by simp

lemma encoded_error_routed:
  assumes laws: "json_laws api" and kinds: "json_kinds api" and ok: "message_ok api (Msg_error r)"
  shows "routed_well api (Msg_error r)"
proof -
  have v: "re_jsonrpc r = ''2.0''" "int32_range (er_code (re_error r))" "value_ok api (er_data (re_error r))"
    and i: "\<And>x. re_id r = Some x \<Longrightarrow> id_ok x"
    using ok by (simp_all add: message_ok_def)
  let ?j = "error_response_to_json api r"
  have m: "j_is_object api ?j" "\<not> j_contains api ?j ''method''" "\<not> j_contains api ?j ''result''" "has_error_member api ?j"
    "member_is api ?j ''jsonrpc'' (\<lambda>v. is_text api v ''2.0'')"
    using laws v(1) error_object_value [OF laws, of "re_error r"]
    by (simp_all add: error_response_to_json_def Let_def has_error_member_def)
  have "has_valid_request_id api ?j \<longleftrightarrow> re_id r \<noteq> None"
  proof (cases "re_id r")
    case None
    with laws kinds show ?thesis by (simp add: has_valid_request_id_def error_response_to_json_def Let_def put_optional_def)
  next
    case (Some x)
    with laws id_kind [OF laws i [OF Some]] show ?thesis
      by (auto simp: has_valid_request_id_def error_response_to_json_def Let_def put_optional_def)
  qed
  with m error_response_decodes [OF laws v(2,3)] show ?thesis
    by (auto simp: routed_well_def message_to_json_def classify_message_def is_valid_notification_envelope_def is_valid_response_envelope_def)
qed

text \<open>Whatever the SDK's own encoder produces is understood by the server: requests, notifications and responses are
  routed as what they are and pass the validation, an error without an id excepted, which answers no request.\<close>

theorem encoded_messages_routed:
  assumes "json_laws api" and "json_kinds api" and "message_ok api m" and "params_are_objects api m"
  shows "routed_well api m"
proof (cases m)
  case (Msg_request r)
  with assms show ?thesis by (simp add: encoded_request_routed message_ok_def params_are_objects_def)
next
  case (Msg_notification n)
  with assms show ?thesis by (simp add: encoded_notification_routed message_ok_def params_are_objects_def)
next
  case (Msg_result r)
  with assms show ?thesis by (simp add: encoded_result_routed message_ok_def)
next
  case (Msg_error r)
  with assms show ?thesis by (simp add: encoded_error_routed)
qed

theorem encoded_messages_routed_witness:
  "routed_well tree_api (Msg_notification \<lparr>nt_jsonrpc = ''2.0'', nt_method = ''notifications/initialized'', nt_params = None\<rparr>)"
  by (rule encoded_messages_routed [OF tree_api_laws tree_api_kinds])
    (simp_all add: message_ok_def value_ok_def params_are_objects_def)

text \<open>The answers the server builds by hand are messages of the codec.\<close>

lemma result_wire_parses:
  "json_laws api \<Longrightarrow> j_parse api (result_wire api i r) = Some (message_to_json api (Msg_result \<lparr>rr_id = i, rr_jsonrpc = ''2.0'', rr_result = r\<rparr>))"
  by (simp add: result_wire_def message_to_json_def result_to_json_def Let_def)

lemma error_wire_parses:
  "json_laws api \<Longrightarrow> j_parse api (error_wire api i c t) =
     Some (message_to_json api (Msg_error \<lparr>re_error = plain_error c t, re_jsonrpc = ''2.0'', re_id = Some i\<rparr>))"
  by (simp add: error_wire_def message_to_json_def)

end
