(* ===== verification/ProtoCodec.thy ===== *)
theory ProtoCodec
  imports JsonRpc
begin

text \<open>
  What the \<open>to_json\<close> and \<open>from_json\<close> functions of include/mcp/protocol share: 32-bit integers, raw
  JSON members, maps, enumerations, and the rules that run such a function on what its counterpart
  wrote. The rules are the collection \<open>codec\<close>: with them the round trip of a type is one call of the
  simplifier on its two functions.
\<close>

subsection \<open>More members\<close>

definition get_int32 :: "'j JsonApi \<Rightarrow> 'j \<Rightarrow> DecodeError + int" where
  "get_int32 api j = bindE (j_int api j) (\<lambda>i. Inr (int32_cast i))"

definition get_json :: "'j \<Rightarrow> DecodeError + 'j" where
  "get_json j = Inr j"

definition put_json :: "'j \<Rightarrow> 'j" where
  "put_json j = j"

definition put_map :: "'j JsonApi \<Rightarrow> ('a \<Rightarrow> 'j) \<Rightarrow> (string \<times> 'a) list \<Rightarrow> 'j" where
  "put_map api setter m = j_of_map api (map (\<lambda>(k, x). (k, setter x)) m)"

definition get_map :: "'j JsonApi \<Rightarrow> ('j \<Rightarrow> DecodeError + 'a) \<Rightarrow> 'j \<Rightarrow> DecodeError + (string \<times> 'a) list" where
  "get_map api getter j = bindE (j_map api j) (collect (\<lambda>(k, v). bindE (getter v) (\<lambda>x. Inr (k, x))))"

text \<open>
  \<open>NLOHMANN_JSON_SERIALIZE_ENUM\<close>: the first entry of the table for the value, or for the text; the
  first entry of all where there is none.
\<close>

definition enum_to_json :: "'j JsonApi \<Rightarrow> ('e \<times> string) list \<Rightarrow> 'e \<Rightarrow> 'j" where
  "enum_to_json api table e =
     j_of_string api (case find (\<lambda>p. fst p = e) table of None \<Rightarrow> snd (hd table) | Some p \<Rightarrow> snd p)"

definition enum_from_json :: "'j JsonApi \<Rightarrow> ('e \<times> string) list \<Rightarrow> 'j \<Rightarrow> DecodeError + 'e" where
  "enum_from_json api table j =
     Inr (case find (\<lambda>p. j_is_string api j \<and> j_string api j = Inr (snd p)) table of
            None \<Rightarrow> fst (hd table) | Some p \<Rightarrow> fst p)"

text \<open>\<open>validate_content_type\<close> of protocol/content.hpp.\<close>

definition validate_content_type :: "string \<Rightarrow> string \<Rightarrow> DecodeError + unit" where
  "validate_content_type actual expected =
     (if actual \<noteq> expected then Inl (Bad_value (''content type must be '' @ CHR 0x22 # expected @ [CHR 0x22])) else Inr ())"

subsection \<open>Running a decoder on an encoded value\<close>

definition decode_optional :: "'j JsonApi \<Rightarrow> ('j \<Rightarrow> DecodeError + 'a) \<Rightarrow> 'j option \<Rightarrow> DecodeError + 'a option" where
  "decode_optional api getter v =
     (case v of None \<Rightarrow> Inr None
      | Some x \<Rightarrow> if j_is_null api x then Inr None else bindE (getter x) (\<lambda>y. Inr (Some y)))"

definition decode_present :: "('j \<Rightarrow> DecodeError + 'a) \<Rightarrow> 'j option \<Rightarrow> DecodeError + 'a option" where
  "decode_present getter v = (case v of None \<Rightarrow> Inr None | Some x \<Rightarrow> bindE (getter x) (\<lambda>y. Inr (Some y)))"

named_theorems codec

declare elem_set [simp del]

lemma get_member_run [codec]:
  "json_laws api \<Longrightarrow> j_find api j k \<noteq> None \<Longrightarrow> get_member api getter j k = getter (the (j_find api j k))"
  by (auto simp: get_member_eq)

lemma get_optional_run [codec]:
  "json_laws api \<Longrightarrow> get_optional api getter j k = decode_optional api getter (j_find api j k)"
  by (auto simp: get_optional_def has_json_value_def decode_optional_def get_member_eq split: option.split)

lemma get_if_present_run [codec]:
  "json_laws api \<Longrightarrow> get_if_present api getter j k = decode_present getter (j_find api j k)"
  by (auto simp: get_if_present_def j_contains_def decode_present_def get_member_eq split: option.split)

lemma decode_optional_field [codec]:
  assumes "\<And>x. x \<in> set_option field \<Longrightarrow> getter (setter x) = Inr x" "\<And>x. x \<in> set_option field \<Longrightarrow> \<not> j_is_null api (setter x)"
  shows "decode_optional api getter (map_option setter field) = Inr field"
  using assms by (cases field) (simp_all add: decode_optional_def)

lemma decode_present_field [codec]:
  assumes "\<And>x. x \<in> set_option field \<Longrightarrow> getter (setter x) = Inr x"
  shows "decode_present getter (map_option setter field) = Inr field"
  using assms by (cases field) (simp_all add: decode_present_def)

lemma get_put_json [codec]: "get_json j = Inr j" "put_json j = j"
  by (simp_all add: get_json_def put_json_def)

lemma get_put_int32 [codec]: "json_laws api \<Longrightarrow> int32_range i \<Longrightarrow> get_int32 api (j_of_int api i) = Inr i"
  by (simp add: get_int32_def int32_cast_id int32_int64)

lemma map_ok_values [simp]: "map_ok (map (\<lambda>(k, x). (k, f x)) m) = map_ok m"
  by (simp add: map_ok_def comp_def case_prod_unfold)

lemma collect_values:
  "(\<And>x. x \<in> snd ` set m \<Longrightarrow> getter (setter x) = Inr x) \<Longrightarrow>
     collect (\<lambda>(k, v). bindE (getter v) (\<lambda>x. Inr (k, x))) (map (\<lambda>(k, x). (k, setter x)) m) = Inr m"
  by (induction m) auto

lemma get_put_map [codec]:
  "json_laws api \<Longrightarrow> map_ok m \<Longrightarrow> (\<And>x. x \<in> snd ` set m \<Longrightarrow> getter (setter x) = Inr x) \<Longrightarrow>
     get_map api getter (put_map api setter m) = Inr m"
  by (simp add: get_map_def put_map_def collect_values)

lemma put_map_object [codec]: "json_laws api \<Longrightarrow> map_ok m \<Longrightarrow> j_is_object api (put_map api setter m)"
  by (simp add: put_map_def)

lemma enum_roundtrip:
  assumes "json_laws api" "find (\<lambda>p. fst p = e) table = Some p" "find (\<lambda>q. snd q = snd p) table = Some p"
  shows "enum_from_json api table (enum_to_json api table e) = Inr e"
proof -
  have "find (\<lambda>q. snd p = snd q) table = Some p" using assms(3) by (simp add: eq_commute)
  moreover have "fst p = e" using assms(2) by (auto simp: find_Some_iff)
  ultimately show ?thesis using assms(1,2) by (simp add: enum_to_json_def enum_from_json_def)
qed

lemma enum_not_null [codec]: "json_laws api \<Longrightarrow> \<not> j_is_null api (enum_to_json api table e)"
  by (simp add: enum_to_json_def)

lemma content_type_checked [codec]: "validate_content_type t t = Inr ()"
  by (simp add: validate_content_type_def)

text \<open>A text that is no value of the enumeration is read as its first one.\<close>

lemma enum_unknown:
  assumes "json_laws api" "s \<notin> snd ` set table"
  shows "enum_from_json api table (j_of_string api s) = Inr (fst (hd table))"
proof -
  have "find (\<lambda>p. s = snd p) table = None" using assms(2) by (force simp: find_None_iff)
  with assms(1) show ?thesis by (simp add: enum_from_json_def)
qed

lemmas codec_ids [codec] = id_roundtrip id_not_null

end
