(* ===== verification/ProtoCapabilities.thy ===== *)
theory ProtoCapabilities
  imports ProtoCodec
begin

text \<open>
  Protocol versions, capabilities, initialization and discovery (protocol/capabilities.hpp, and the
  roles and task metadata of protocol/base.hpp).
\<close>

datatype Role = Role_eUser | Role_eAssistant

definition role_names :: "(Role \<times> string) list" where
  "role_names = [(Role_eUser, ''user''), (Role_eAssistant, ''assistant'')]"

definition role_to_json :: "'j JsonApi \<Rightarrow> Role \<Rightarrow> 'j" where
  "role_to_json api = enum_to_json api role_names"

definition role_from_json :: "'j JsonApi \<Rightarrow> 'j \<Rightarrow> DecodeError + Role" where
  "role_from_json api = enum_from_json api role_names"

lemma role_roundtrip [codec]: "json_laws api \<Longrightarrow> role_from_json api (role_to_json api v) = Inr v"
  unfolding role_from_json_def role_to_json_def by (cases v) (auto intro!: enum_roundtrip simp: role_names_def)

lemma role_not_null [codec]: "json_laws api \<Longrightarrow> \<not> j_is_null api (role_to_json api v)"
  by (simp add: role_to_json_def codec)

datatype TaskStatus = TaskStatus_eCancelled | TaskStatus_eCompleted | TaskStatus_eFailed | TaskStatus_eInputRequired | TaskStatus_eWorking

definition task_status_names :: "(TaskStatus \<times> string) list" where
  "task_status_names = [(TaskStatus_eCancelled, ''cancelled''), (TaskStatus_eCompleted, ''completed''), (TaskStatus_eFailed, ''failed''), (TaskStatus_eInputRequired, ''input_required''), (TaskStatus_eWorking, ''working'')]"

definition task_status_to_json :: "'j JsonApi \<Rightarrow> TaskStatus \<Rightarrow> 'j" where
  "task_status_to_json api = enum_to_json api task_status_names"

definition task_status_from_json :: "'j JsonApi \<Rightarrow> 'j \<Rightarrow> DecodeError + TaskStatus" where
  "task_status_from_json api = enum_from_json api task_status_names"

lemma task_status_roundtrip [codec]: "json_laws api \<Longrightarrow> task_status_from_json api (task_status_to_json api v) = Inr v"
  unfolding task_status_from_json_def task_status_to_json_def by (cases v) (auto intro!: enum_roundtrip simp: task_status_names_def)

lemma task_status_not_null [codec]: "json_laws api \<Longrightarrow> \<not> j_is_null api (task_status_to_json api v)"
  by (simp add: task_status_to_json_def codec)

record RelatedTaskMetadata =
  related_task_metadata_id :: string
  related_task_metadata_title :: "string option"

definition related_task_metadata_to_json :: "'j JsonApi \<Rightarrow> RelatedTaskMetadata \<Rightarrow> 'j" where
  "related_task_metadata_to_json api v =
     (let j = j_put api (j_empty_object api) ''id'' (j_of_string api (related_task_metadata_id v));
          j = put_optional api (j_of_string api) j ''title'' (related_task_metadata_title v)
      in j)"

definition related_task_metadata_from_json :: "'j JsonApi \<Rightarrow> 'j \<Rightarrow> DecodeError + RelatedTaskMetadata" where
  "related_task_metadata_from_json api j =
     bindE (get_member api (j_string api) j ''id'') (\<lambda>id'.
     bindE (get_optional api (j_string api) j ''title'') (\<lambda>title'.
     Inr \<lparr>related_task_metadata_id = id', related_task_metadata_title = title'\<rparr>))"

lemma related_task_metadata_object [codec]: "json_laws api \<Longrightarrow> j_is_object api (related_task_metadata_to_json api v)"
  by (simp add: related_task_metadata_to_json_def Let_def)

lemma related_task_metadata_roundtrip [codec]:
  "json_laws api \<Longrightarrow> related_task_metadata_from_json api (related_task_metadata_to_json api v) = Inr v"
  by (cases v) (simp add: related_task_metadata_to_json_def related_task_metadata_from_json_def Let_def codec)

record TaskMetadata =
  task_metadata_ttl :: "int option"
  task_metadata_relatedTasks :: "RelatedTaskMetadata list option"

definition task_metadata_to_json :: "'j JsonApi \<Rightarrow> TaskMetadata \<Rightarrow> 'j" where
  "task_metadata_to_json api v =
     (let j = put_optional api (j_of_int api) (j_empty_object api) ''ttl'' (task_metadata_ttl v);
          j = put_optional api (put_list api (related_task_metadata_to_json api)) j ''relatedTasks'' (task_metadata_relatedTasks v)
      in j)"

definition task_metadata_from_json :: "'j JsonApi \<Rightarrow> 'j \<Rightarrow> DecodeError + TaskMetadata" where
  "task_metadata_from_json api j =
     bindE (get_optional api (j_int api) j ''ttl'') (\<lambda>ttl'.
     bindE (get_optional api (get_list api (related_task_metadata_from_json api)) j ''relatedTasks'') (\<lambda>relatedTasks'.
     Inr \<lparr>task_metadata_ttl = ttl', task_metadata_relatedTasks = relatedTasks'\<rparr>))"

definition task_metadata_ok :: "'j JsonApi \<Rightarrow> TaskMetadata \<Rightarrow> bool" where
  "task_metadata_ok api v \<longleftrightarrow> (\<forall>y \<in> set_option (task_metadata_ttl v). int64_range y)"

lemma task_metadata_object [codec]: "json_laws api \<Longrightarrow> j_is_object api (task_metadata_to_json api v)"
  by (simp add: task_metadata_to_json_def Let_def)

lemma task_metadata_roundtrip [codec]:
  "json_laws api \<Longrightarrow> task_metadata_ok api v \<Longrightarrow> task_metadata_from_json api (task_metadata_to_json api v) = Inr v"
  by (cases v) (simp add: task_metadata_to_json_def task_metadata_from_json_def task_metadata_ok_def Let_def codec)

record Icon =
  icon_source :: string
  icon_mimeType :: "string option"
  icon_sizes :: "string list option"
  icon_theme :: "string option"

definition icon_to_json :: "'j JsonApi \<Rightarrow> Icon \<Rightarrow> 'j" where
  "icon_to_json api v =
     (let j = j_put api (j_empty_object api) ''src'' (j_of_string api (icon_source v));
          j = put_optional api (j_of_string api) j ''mimeType'' (icon_mimeType v);
          j = put_optional api (put_list api (j_of_string api)) j ''sizes'' (icon_sizes v);
          j = put_optional api (j_of_string api) j ''theme'' (icon_theme v)
      in j)"

definition icon_from_json :: "'j JsonApi \<Rightarrow> 'j \<Rightarrow> DecodeError + Icon" where
  "icon_from_json api j =
     bindE (get_member api (j_string api) j ''src'') (\<lambda>source'.
     bindE (get_optional api (j_string api) j ''mimeType'') (\<lambda>mimeType'.
     bindE (get_optional api (get_list api (j_string api)) j ''sizes'') (\<lambda>sizes'.
     bindE (get_optional api (j_string api) j ''theme'') (\<lambda>theme'.
     Inr \<lparr>icon_source = source', icon_mimeType = mimeType', icon_sizes = sizes', icon_theme = theme'\<rparr>))))"

lemma icon_object [codec]: "json_laws api \<Longrightarrow> j_is_object api (icon_to_json api v)"
  by (simp add: icon_to_json_def Let_def)

lemma icon_roundtrip [codec]:
  "json_laws api \<Longrightarrow> icon_from_json api (icon_to_json api v) = Inr v"
  by (cases v) (simp add: icon_to_json_def icon_from_json_def Let_def codec)

record Annotations =
  annotations_audience :: "Role list option"
  annotations_lastModified :: "string option"
  annotations_priority :: "double option"

definition annotations_to_json :: "'j JsonApi \<Rightarrow> Annotations \<Rightarrow> 'j" where
  "annotations_to_json api v =
     (let j = put_optional api (put_list api (role_to_json api)) (j_empty_object api) ''audience'' (annotations_audience v);
          j = put_optional api (j_of_string api) j ''lastModified'' (annotations_lastModified v);
          j = put_optional api (j_of_double api) j ''priority'' (annotations_priority v)
      in j)"

definition annotations_from_json :: "'j JsonApi \<Rightarrow> 'j \<Rightarrow> DecodeError + Annotations" where
  "annotations_from_json api j =
     bindE (get_optional api (get_list api (role_from_json api)) j ''audience'') (\<lambda>audience'.
     bindE (get_optional api (j_string api) j ''lastModified'') (\<lambda>lastModified'.
     bindE (get_optional api (j_double api) j ''priority'') (\<lambda>priority'.
     Inr \<lparr>annotations_audience = audience', annotations_lastModified = lastModified', annotations_priority = priority'\<rparr>)))"

definition annotations_ok :: "'j JsonApi \<Rightarrow> Annotations \<Rightarrow> bool" where
  "annotations_ok api v \<longleftrightarrow> (\<forall>y \<in> set_option (annotations_priority v). finite_double y)"

lemma annotations_object [codec]: "json_laws api \<Longrightarrow> j_is_object api (annotations_to_json api v)"
  by (simp add: annotations_to_json_def Let_def)

lemma annotations_roundtrip [codec]:
  "json_laws api \<Longrightarrow> annotations_ok api v \<Longrightarrow> annotations_from_json api (annotations_to_json api v) = Inr v"
  by (cases v) (simp add: annotations_to_json_def annotations_from_json_def annotations_ok_def Let_def codec)

record Implementation =
  implementation_name :: string
  implementation_version :: string
  implementation_title :: "string option"
  implementation_description :: "string option"
  implementation_websiteUrl :: "string option"
  implementation_icons :: "Icon list option"

definition implementation_to_json :: "'j JsonApi \<Rightarrow> Implementation \<Rightarrow> 'j" where
  "implementation_to_json api v =
     (let j = j_put api (j_empty_object api) ''name'' (j_of_string api (implementation_name v));
          j = j_put api j ''version'' (j_of_string api (implementation_version v));
          j = put_optional api (j_of_string api) j ''title'' (implementation_title v);
          j = put_optional api (j_of_string api) j ''description'' (implementation_description v);
          j = put_optional api (j_of_string api) j ''websiteUrl'' (implementation_websiteUrl v);
          j = put_optional api (put_list api (icon_to_json api)) j ''icons'' (implementation_icons v)
      in j)"

definition implementation_from_json :: "'j JsonApi \<Rightarrow> 'j \<Rightarrow> DecodeError + Implementation" where
  "implementation_from_json api j =
     bindE (get_member api (j_string api) j ''name'') (\<lambda>name'.
     bindE (get_member api (j_string api) j ''version'') (\<lambda>version'.
     bindE (get_optional api (j_string api) j ''title'') (\<lambda>title'.
     bindE (get_optional api (j_string api) j ''description'') (\<lambda>description'.
     bindE (get_optional api (j_string api) j ''websiteUrl'') (\<lambda>websiteUrl'.
     bindE (get_optional api (get_list api (icon_from_json api)) j ''icons'') (\<lambda>icons'.
     Inr \<lparr>implementation_name = name', implementation_version = version', implementation_title = title', implementation_description = description', implementation_websiteUrl = websiteUrl', implementation_icons = icons'\<rparr>))))))"

lemma implementation_object [codec]: "json_laws api \<Longrightarrow> j_is_object api (implementation_to_json api v)"
  by (simp add: implementation_to_json_def Let_def)

lemma implementation_roundtrip [codec]:
  "json_laws api \<Longrightarrow> implementation_from_json api (implementation_to_json api v) = Inr v"
  by (cases v) (simp add: implementation_to_json_def implementation_from_json_def Let_def codec)

record 'j ClientElicitationCapability =
  client_elicitation_capability_form :: "'j option"
  client_elicitation_capability_url :: "'j option"

record ClientRootsCapability =
  client_roots_capability_listChanged :: "bool option"

record 'j ClientSamplingCapability =
  client_sampling_capability_context :: "'j option"
  client_sampling_capability_tools :: "'j option"

record 'j ClientElicitationTaskCapability =
  client_elicitation_task_capability_create :: "'j option"

record 'j ClientSamplingTaskCapability =
  client_sampling_task_capability_createMessage :: "'j option"

record 'j ClientTaskRequestsCapability =
  client_task_requests_capability_elicitation :: "'j ClientElicitationTaskCapability option"
  client_task_requests_capability_sampling :: "'j ClientSamplingTaskCapability option"

record 'j ClientTasksCapability =
  client_tasks_capability_cancel :: "'j option"
  client_tasks_capability_list :: "'j option"
  client_tasks_capability_requests :: "'j ClientTaskRequestsCapability option"

record 'j ClientCapabilities =
  client_capabilities_elicitation :: "'j ClientElicitationCapability option"
  client_capabilities_experimental :: "'j option"
  client_capabilities_roots :: "ClientRootsCapability option"
  client_capabilities_sampling :: "'j ClientSamplingCapability option"
  client_capabilities_tasks :: "'j ClientTasksCapability option"
  client_capabilities_extensions :: "(string \<times> 'j) list option"

definition client_elicitation_capability_to_json :: "'j JsonApi \<Rightarrow> 'j ClientElicitationCapability \<Rightarrow> 'j" where
  "client_elicitation_capability_to_json api v =
     (let j = put_optional api put_json (j_empty_object api) ''form'' (client_elicitation_capability_form v);
          j = put_optional api put_json j ''url'' (client_elicitation_capability_url v)
      in j)"

definition client_elicitation_capability_from_json :: "'j JsonApi \<Rightarrow> 'j \<Rightarrow> DecodeError + 'j ClientElicitationCapability" where
  "client_elicitation_capability_from_json api j =
     bindE (get_if_present api get_json j ''form'') (\<lambda>form'.
     bindE (get_if_present api get_json j ''url'') (\<lambda>url'.
     Inr \<lparr>client_elicitation_capability_form = form', client_elicitation_capability_url = url'\<rparr>))"

lemma client_elicitation_capability_object [codec]: "json_laws api \<Longrightarrow> j_is_object api (client_elicitation_capability_to_json api v)"
  by (simp add: client_elicitation_capability_to_json_def Let_def)

lemma client_elicitation_capability_roundtrip [codec]:
  "json_laws api \<Longrightarrow> client_elicitation_capability_from_json api (client_elicitation_capability_to_json api v) = Inr v"
  by (cases v) (simp add: client_elicitation_capability_to_json_def client_elicitation_capability_from_json_def Let_def codec)

definition client_roots_capability_to_json :: "'j JsonApi \<Rightarrow> ClientRootsCapability \<Rightarrow> 'j" where
  "client_roots_capability_to_json api v =
     put_optional api (j_of_bool api) (j_empty_object api) ''listChanged'' (client_roots_capability_listChanged v)"

definition client_roots_capability_from_json :: "'j JsonApi \<Rightarrow> 'j \<Rightarrow> DecodeError + ClientRootsCapability" where
  "client_roots_capability_from_json api j =
     bindE (get_optional api (j_bool api) j ''listChanged'') (\<lambda>listChanged'.
     Inr \<lparr>client_roots_capability_listChanged = listChanged'\<rparr>)"

lemma client_roots_capability_object [codec]: "json_laws api \<Longrightarrow> j_is_object api (client_roots_capability_to_json api v)"
  by (simp add: client_roots_capability_to_json_def Let_def)

lemma client_roots_capability_roundtrip [codec]:
  "json_laws api \<Longrightarrow> client_roots_capability_from_json api (client_roots_capability_to_json api v) = Inr v"
  by (cases v) (simp add: client_roots_capability_to_json_def client_roots_capability_from_json_def Let_def codec)

definition client_sampling_capability_to_json :: "'j JsonApi \<Rightarrow> 'j ClientSamplingCapability \<Rightarrow> 'j" where
  "client_sampling_capability_to_json api v =
     (let j = put_optional api put_json (j_empty_object api) ''context'' (client_sampling_capability_context v);
          j = put_optional api put_json j ''tools'' (client_sampling_capability_tools v)
      in j)"

definition client_sampling_capability_from_json :: "'j JsonApi \<Rightarrow> 'j \<Rightarrow> DecodeError + 'j ClientSamplingCapability" where
  "client_sampling_capability_from_json api j =
     bindE (get_if_present api get_json j ''context'') (\<lambda>context'.
     bindE (get_if_present api get_json j ''tools'') (\<lambda>tools'.
     Inr \<lparr>client_sampling_capability_context = context', client_sampling_capability_tools = tools'\<rparr>))"

lemma client_sampling_capability_object [codec]: "json_laws api \<Longrightarrow> j_is_object api (client_sampling_capability_to_json api v)"
  by (simp add: client_sampling_capability_to_json_def Let_def)

lemma client_sampling_capability_roundtrip [codec]:
  "json_laws api \<Longrightarrow> client_sampling_capability_from_json api (client_sampling_capability_to_json api v) = Inr v"
  by (cases v) (simp add: client_sampling_capability_to_json_def client_sampling_capability_from_json_def Let_def codec)

definition client_elicitation_task_capability_to_json :: "'j JsonApi \<Rightarrow> 'j ClientElicitationTaskCapability \<Rightarrow> 'j" where
  "client_elicitation_task_capability_to_json api v =
     put_optional api put_json (j_empty_object api) ''create'' (client_elicitation_task_capability_create v)"

definition client_elicitation_task_capability_from_json :: "'j JsonApi \<Rightarrow> 'j \<Rightarrow> DecodeError + 'j ClientElicitationTaskCapability" where
  "client_elicitation_task_capability_from_json api j =
     bindE (get_if_present api get_json j ''create'') (\<lambda>create'.
     Inr \<lparr>client_elicitation_task_capability_create = create'\<rparr>)"

lemma client_elicitation_task_capability_object [codec]: "json_laws api \<Longrightarrow> j_is_object api (client_elicitation_task_capability_to_json api v)"
  by (simp add: client_elicitation_task_capability_to_json_def Let_def)

lemma client_elicitation_task_capability_roundtrip [codec]:
  "json_laws api \<Longrightarrow> client_elicitation_task_capability_from_json api (client_elicitation_task_capability_to_json api v) = Inr v"
  by (cases v) (simp add: client_elicitation_task_capability_to_json_def client_elicitation_task_capability_from_json_def Let_def codec)

definition client_sampling_task_capability_to_json :: "'j JsonApi \<Rightarrow> 'j ClientSamplingTaskCapability \<Rightarrow> 'j" where
  "client_sampling_task_capability_to_json api v =
     put_optional api put_json (j_empty_object api) ''createMessage'' (client_sampling_task_capability_createMessage v)"

definition client_sampling_task_capability_from_json :: "'j JsonApi \<Rightarrow> 'j \<Rightarrow> DecodeError + 'j ClientSamplingTaskCapability" where
  "client_sampling_task_capability_from_json api j =
     bindE (get_if_present api get_json j ''createMessage'') (\<lambda>createMessage'.
     Inr \<lparr>client_sampling_task_capability_createMessage = createMessage'\<rparr>)"

lemma client_sampling_task_capability_object [codec]: "json_laws api \<Longrightarrow> j_is_object api (client_sampling_task_capability_to_json api v)"
  by (simp add: client_sampling_task_capability_to_json_def Let_def)

lemma client_sampling_task_capability_roundtrip [codec]:
  "json_laws api \<Longrightarrow> client_sampling_task_capability_from_json api (client_sampling_task_capability_to_json api v) = Inr v"
  by (cases v) (simp add: client_sampling_task_capability_to_json_def client_sampling_task_capability_from_json_def Let_def codec)

definition client_task_requests_capability_to_json :: "'j JsonApi \<Rightarrow> 'j ClientTaskRequestsCapability \<Rightarrow> 'j" where
  "client_task_requests_capability_to_json api v =
     (let j = put_optional api (client_elicitation_task_capability_to_json api) (j_empty_object api) ''elicitation'' (client_task_requests_capability_elicitation v);
          j = put_optional api (client_sampling_task_capability_to_json api) j ''sampling'' (client_task_requests_capability_sampling v)
      in j)"

definition client_task_requests_capability_from_json :: "'j JsonApi \<Rightarrow> 'j \<Rightarrow> DecodeError + 'j ClientTaskRequestsCapability" where
  "client_task_requests_capability_from_json api j =
     bindE (get_if_present api (client_elicitation_task_capability_from_json api) j ''elicitation'') (\<lambda>elicitation'.
     bindE (get_if_present api (client_sampling_task_capability_from_json api) j ''sampling'') (\<lambda>sampling'.
     Inr \<lparr>client_task_requests_capability_elicitation = elicitation', client_task_requests_capability_sampling = sampling'\<rparr>))"

lemma client_task_requests_capability_object [codec]: "json_laws api \<Longrightarrow> j_is_object api (client_task_requests_capability_to_json api v)"
  by (simp add: client_task_requests_capability_to_json_def Let_def)

lemma client_task_requests_capability_roundtrip [codec]:
  "json_laws api \<Longrightarrow> client_task_requests_capability_from_json api (client_task_requests_capability_to_json api v) = Inr v"
  by (cases v) (simp add: client_task_requests_capability_to_json_def client_task_requests_capability_from_json_def Let_def codec)

definition client_tasks_capability_to_json :: "'j JsonApi \<Rightarrow> 'j ClientTasksCapability \<Rightarrow> 'j" where
  "client_tasks_capability_to_json api v =
     (let j = put_optional api put_json (j_empty_object api) ''cancel'' (client_tasks_capability_cancel v);
          j = put_optional api put_json j ''list'' (client_tasks_capability_list v);
          j = put_optional api (client_task_requests_capability_to_json api) j ''requests'' (client_tasks_capability_requests v)
      in j)"

definition client_tasks_capability_from_json :: "'j JsonApi \<Rightarrow> 'j \<Rightarrow> DecodeError + 'j ClientTasksCapability" where
  "client_tasks_capability_from_json api j =
     bindE (get_if_present api get_json j ''cancel'') (\<lambda>cancel'.
     bindE (get_if_present api get_json j ''list'') (\<lambda>list'.
     bindE (get_if_present api (client_task_requests_capability_from_json api) j ''requests'') (\<lambda>requests'.
     Inr \<lparr>client_tasks_capability_cancel = cancel', client_tasks_capability_list = list', client_tasks_capability_requests = requests'\<rparr>)))"

lemma client_tasks_capability_object [codec]: "json_laws api \<Longrightarrow> j_is_object api (client_tasks_capability_to_json api v)"
  by (simp add: client_tasks_capability_to_json_def Let_def)

lemma client_tasks_capability_roundtrip [codec]:
  "json_laws api \<Longrightarrow> client_tasks_capability_from_json api (client_tasks_capability_to_json api v) = Inr v"
  by (cases v) (simp add: client_tasks_capability_to_json_def client_tasks_capability_from_json_def Let_def codec)

definition client_capabilities_to_json :: "'j JsonApi \<Rightarrow> 'j ClientCapabilities \<Rightarrow> 'j" where
  "client_capabilities_to_json api v =
     (let j = put_optional api (client_elicitation_capability_to_json api) (j_empty_object api) ''elicitation'' (client_capabilities_elicitation v);
          j = put_optional api put_json j ''experimental'' (client_capabilities_experimental v);
          j = put_optional api (client_roots_capability_to_json api) j ''roots'' (client_capabilities_roots v);
          j = put_optional api (client_sampling_capability_to_json api) j ''sampling'' (client_capabilities_sampling v);
          j = put_optional api (client_tasks_capability_to_json api) j ''tasks'' (client_capabilities_tasks v);
          j = put_optional api (j_of_map api) j ''extensions'' (client_capabilities_extensions v)
      in j)"

definition client_capabilities_from_json :: "'j JsonApi \<Rightarrow> 'j \<Rightarrow> DecodeError + 'j ClientCapabilities" where
  "client_capabilities_from_json api j =
     bindE (get_if_present api (client_elicitation_capability_from_json api) j ''elicitation'') (\<lambda>elicitation'.
     bindE (get_if_present api get_json j ''experimental'') (\<lambda>experimental'.
     bindE (get_if_present api (client_roots_capability_from_json api) j ''roots'') (\<lambda>roots'.
     bindE (get_if_present api (client_sampling_capability_from_json api) j ''sampling'') (\<lambda>sampling'.
     bindE (get_if_present api (client_tasks_capability_from_json api) j ''tasks'') (\<lambda>tasks'.
     bindE (get_optional api (j_map api) j ''extensions'') (\<lambda>extensions'.
     Inr \<lparr>client_capabilities_elicitation = elicitation', client_capabilities_experimental = experimental', client_capabilities_roots = roots', client_capabilities_sampling = sampling', client_capabilities_tasks = tasks', client_capabilities_extensions = extensions'\<rparr>))))))"

definition client_capabilities_ok :: "'j JsonApi \<Rightarrow> 'j ClientCapabilities \<Rightarrow> bool" where
  "client_capabilities_ok api v \<longleftrightarrow> (\<forall>y \<in> set_option (client_capabilities_extensions v). map_ok y)"

lemma client_capabilities_object [codec]: "json_laws api \<Longrightarrow> j_is_object api (client_capabilities_to_json api v)"
  by (simp add: client_capabilities_to_json_def Let_def)

lemma client_capabilities_roundtrip [codec]:
  "json_laws api \<Longrightarrow> client_capabilities_ok api v \<Longrightarrow> client_capabilities_from_json api (client_capabilities_to_json api v) = Inr v"
  by (cases v) (simp add: client_capabilities_to_json_def client_capabilities_from_json_def client_capabilities_ok_def Let_def codec)

record ServerPromptsCapability =
  server_prompts_capability_listChanged :: "bool option"

record ServerResourcesCapability =
  server_resources_capability_listChanged :: "bool option"
  server_resources_capability_subscribe :: "bool option"

record 'j ServerToolsTaskCapability =
  server_tools_task_capability_call :: "'j option"

record 'j ServerTaskRequestsCapability =
  server_task_requests_capability_tools :: "'j ServerToolsTaskCapability option"

record 'j ServerTasksCapability =
  server_tasks_capability_cancel :: "'j option"
  server_tasks_capability_list :: "'j option"
  server_tasks_capability_requests :: "'j ServerTaskRequestsCapability option"

record ServerToolsCapability =
  server_tools_capability_listChanged :: "bool option"

record 'j ServerCapabilities =
  server_capabilities_completions :: "'j option"
  server_capabilities_experimental :: "'j option"
  server_capabilities_logging :: "'j option"
  server_capabilities_prompts :: "ServerPromptsCapability option"
  server_capabilities_resources :: "ServerResourcesCapability option"
  server_capabilities_tasks :: "'j ServerTasksCapability option"
  server_capabilities_tools :: "ServerToolsCapability option"
  server_capabilities_extensions :: "(string \<times> 'j) list option"

definition server_prompts_capability_to_json :: "'j JsonApi \<Rightarrow> ServerPromptsCapability \<Rightarrow> 'j" where
  "server_prompts_capability_to_json api v =
     put_optional api (j_of_bool api) (j_empty_object api) ''listChanged'' (server_prompts_capability_listChanged v)"

definition server_prompts_capability_from_json :: "'j JsonApi \<Rightarrow> 'j \<Rightarrow> DecodeError + ServerPromptsCapability" where
  "server_prompts_capability_from_json api j =
     bindE (get_optional api (j_bool api) j ''listChanged'') (\<lambda>listChanged'.
     Inr \<lparr>server_prompts_capability_listChanged = listChanged'\<rparr>)"

lemma server_prompts_capability_object [codec]: "json_laws api \<Longrightarrow> j_is_object api (server_prompts_capability_to_json api v)"
  by (simp add: server_prompts_capability_to_json_def Let_def)

lemma server_prompts_capability_roundtrip [codec]:
  "json_laws api \<Longrightarrow> server_prompts_capability_from_json api (server_prompts_capability_to_json api v) = Inr v"
  by (cases v) (simp add: server_prompts_capability_to_json_def server_prompts_capability_from_json_def Let_def codec)

definition server_resources_capability_to_json :: "'j JsonApi \<Rightarrow> ServerResourcesCapability \<Rightarrow> 'j" where
  "server_resources_capability_to_json api v =
     (let j = put_optional api (j_of_bool api) (j_empty_object api) ''listChanged'' (server_resources_capability_listChanged v);
          j = put_optional api (j_of_bool api) j ''subscribe'' (server_resources_capability_subscribe v)
      in j)"

definition server_resources_capability_from_json :: "'j JsonApi \<Rightarrow> 'j \<Rightarrow> DecodeError + ServerResourcesCapability" where
  "server_resources_capability_from_json api j =
     bindE (get_optional api (j_bool api) j ''listChanged'') (\<lambda>listChanged'.
     bindE (get_optional api (j_bool api) j ''subscribe'') (\<lambda>subscribe'.
     Inr \<lparr>server_resources_capability_listChanged = listChanged', server_resources_capability_subscribe = subscribe'\<rparr>))"

lemma server_resources_capability_object [codec]: "json_laws api \<Longrightarrow> j_is_object api (server_resources_capability_to_json api v)"
  by (simp add: server_resources_capability_to_json_def Let_def)

lemma server_resources_capability_roundtrip [codec]:
  "json_laws api \<Longrightarrow> server_resources_capability_from_json api (server_resources_capability_to_json api v) = Inr v"
  by (cases v) (simp add: server_resources_capability_to_json_def server_resources_capability_from_json_def Let_def codec)

definition server_tools_task_capability_to_json :: "'j JsonApi \<Rightarrow> 'j ServerToolsTaskCapability \<Rightarrow> 'j" where
  "server_tools_task_capability_to_json api v =
     put_optional api put_json (j_empty_object api) ''call'' (server_tools_task_capability_call v)"

definition server_tools_task_capability_from_json :: "'j JsonApi \<Rightarrow> 'j \<Rightarrow> DecodeError + 'j ServerToolsTaskCapability" where
  "server_tools_task_capability_from_json api j =
     bindE (get_if_present api get_json j ''call'') (\<lambda>call'.
     Inr \<lparr>server_tools_task_capability_call = call'\<rparr>)"

lemma server_tools_task_capability_object [codec]: "json_laws api \<Longrightarrow> j_is_object api (server_tools_task_capability_to_json api v)"
  by (simp add: server_tools_task_capability_to_json_def Let_def)

lemma server_tools_task_capability_roundtrip [codec]:
  "json_laws api \<Longrightarrow> server_tools_task_capability_from_json api (server_tools_task_capability_to_json api v) = Inr v"
  by (cases v) (simp add: server_tools_task_capability_to_json_def server_tools_task_capability_from_json_def Let_def codec)

definition server_task_requests_capability_to_json :: "'j JsonApi \<Rightarrow> 'j ServerTaskRequestsCapability \<Rightarrow> 'j" where
  "server_task_requests_capability_to_json api v =
     put_optional api (server_tools_task_capability_to_json api) (j_empty_object api) ''tools'' (server_task_requests_capability_tools v)"

definition server_task_requests_capability_from_json :: "'j JsonApi \<Rightarrow> 'j \<Rightarrow> DecodeError + 'j ServerTaskRequestsCapability" where
  "server_task_requests_capability_from_json api j =
     bindE (get_if_present api (server_tools_task_capability_from_json api) j ''tools'') (\<lambda>tools'.
     Inr \<lparr>server_task_requests_capability_tools = tools'\<rparr>)"

lemma server_task_requests_capability_object [codec]: "json_laws api \<Longrightarrow> j_is_object api (server_task_requests_capability_to_json api v)"
  by (simp add: server_task_requests_capability_to_json_def Let_def)

lemma server_task_requests_capability_roundtrip [codec]:
  "json_laws api \<Longrightarrow> server_task_requests_capability_from_json api (server_task_requests_capability_to_json api v) = Inr v"
  by (cases v) (simp add: server_task_requests_capability_to_json_def server_task_requests_capability_from_json_def Let_def codec)

definition server_tasks_capability_to_json :: "'j JsonApi \<Rightarrow> 'j ServerTasksCapability \<Rightarrow> 'j" where
  "server_tasks_capability_to_json api v =
     (let j = put_optional api put_json (j_empty_object api) ''cancel'' (server_tasks_capability_cancel v);
          j = put_optional api put_json j ''list'' (server_tasks_capability_list v);
          j = put_optional api (server_task_requests_capability_to_json api) j ''requests'' (server_tasks_capability_requests v)
      in j)"

definition server_tasks_capability_from_json :: "'j JsonApi \<Rightarrow> 'j \<Rightarrow> DecodeError + 'j ServerTasksCapability" where
  "server_tasks_capability_from_json api j =
     bindE (get_if_present api get_json j ''cancel'') (\<lambda>cancel'.
     bindE (get_if_present api get_json j ''list'') (\<lambda>list'.
     bindE (get_if_present api (server_task_requests_capability_from_json api) j ''requests'') (\<lambda>requests'.
     Inr \<lparr>server_tasks_capability_cancel = cancel', server_tasks_capability_list = list', server_tasks_capability_requests = requests'\<rparr>)))"

lemma server_tasks_capability_object [codec]: "json_laws api \<Longrightarrow> j_is_object api (server_tasks_capability_to_json api v)"
  by (simp add: server_tasks_capability_to_json_def Let_def)

lemma server_tasks_capability_roundtrip [codec]:
  "json_laws api \<Longrightarrow> server_tasks_capability_from_json api (server_tasks_capability_to_json api v) = Inr v"
  by (cases v) (simp add: server_tasks_capability_to_json_def server_tasks_capability_from_json_def Let_def codec)

definition server_tools_capability_to_json :: "'j JsonApi \<Rightarrow> ServerToolsCapability \<Rightarrow> 'j" where
  "server_tools_capability_to_json api v =
     put_optional api (j_of_bool api) (j_empty_object api) ''listChanged'' (server_tools_capability_listChanged v)"

definition server_tools_capability_from_json :: "'j JsonApi \<Rightarrow> 'j \<Rightarrow> DecodeError + ServerToolsCapability" where
  "server_tools_capability_from_json api j =
     bindE (get_optional api (j_bool api) j ''listChanged'') (\<lambda>listChanged'.
     Inr \<lparr>server_tools_capability_listChanged = listChanged'\<rparr>)"

lemma server_tools_capability_object [codec]: "json_laws api \<Longrightarrow> j_is_object api (server_tools_capability_to_json api v)"
  by (simp add: server_tools_capability_to_json_def Let_def)

lemma server_tools_capability_roundtrip [codec]:
  "json_laws api \<Longrightarrow> server_tools_capability_from_json api (server_tools_capability_to_json api v) = Inr v"
  by (cases v) (simp add: server_tools_capability_to_json_def server_tools_capability_from_json_def Let_def codec)

definition server_capabilities_to_json :: "'j JsonApi \<Rightarrow> 'j ServerCapabilities \<Rightarrow> 'j" where
  "server_capabilities_to_json api v =
     (let j = put_optional api put_json (j_empty_object api) ''completions'' (server_capabilities_completions v);
          j = put_optional api put_json j ''experimental'' (server_capabilities_experimental v);
          j = put_optional api put_json j ''logging'' (server_capabilities_logging v);
          j = put_optional api (server_prompts_capability_to_json api) j ''prompts'' (server_capabilities_prompts v);
          j = put_optional api (server_resources_capability_to_json api) j ''resources'' (server_capabilities_resources v);
          j = put_optional api (server_tasks_capability_to_json api) j ''tasks'' (server_capabilities_tasks v);
          j = put_optional api (server_tools_capability_to_json api) j ''tools'' (server_capabilities_tools v);
          j = put_optional api (j_of_map api) j ''extensions'' (server_capabilities_extensions v)
      in j)"

definition server_capabilities_from_json :: "'j JsonApi \<Rightarrow> 'j \<Rightarrow> DecodeError + 'j ServerCapabilities" where
  "server_capabilities_from_json api j =
     bindE (get_if_present api get_json j ''completions'') (\<lambda>completions'.
     bindE (get_if_present api get_json j ''experimental'') (\<lambda>experimental'.
     bindE (get_if_present api get_json j ''logging'') (\<lambda>logging'.
     bindE (get_if_present api (server_prompts_capability_from_json api) j ''prompts'') (\<lambda>prompts'.
     bindE (get_if_present api (server_resources_capability_from_json api) j ''resources'') (\<lambda>resources'.
     bindE (get_if_present api (server_tasks_capability_from_json api) j ''tasks'') (\<lambda>tasks'.
     bindE (get_if_present api (server_tools_capability_from_json api) j ''tools'') (\<lambda>tools'.
     bindE (get_optional api (j_map api) j ''extensions'') (\<lambda>extensions'.
     Inr \<lparr>server_capabilities_completions = completions', server_capabilities_experimental = experimental', server_capabilities_logging = logging', server_capabilities_prompts = prompts', server_capabilities_resources = resources', server_capabilities_tasks = tasks', server_capabilities_tools = tools', server_capabilities_extensions = extensions'\<rparr>))))))))"

definition server_capabilities_ok :: "'j JsonApi \<Rightarrow> 'j ServerCapabilities \<Rightarrow> bool" where
  "server_capabilities_ok api v \<longleftrightarrow> (\<forall>y \<in> set_option (server_capabilities_extensions v). map_ok y)"

lemma server_capabilities_object [codec]: "json_laws api \<Longrightarrow> j_is_object api (server_capabilities_to_json api v)"
  by (simp add: server_capabilities_to_json_def Let_def)

lemma server_capabilities_roundtrip [codec]:
  "json_laws api \<Longrightarrow> server_capabilities_ok api v \<Longrightarrow> server_capabilities_from_json api (server_capabilities_to_json api v) = Inr v"
  by (cases v) (simp add: server_capabilities_to_json_def server_capabilities_from_json_def server_capabilities_ok_def Let_def codec)

record PingRequest =
  ping_request_method :: string

definition ping_request_to_json :: "'j JsonApi \<Rightarrow> PingRequest \<Rightarrow> 'j" where
  "ping_request_to_json api v =
     j_put api (j_empty_object api) ''method'' (j_of_string api (ping_request_method v))"

definition ping_request_from_json :: "'j JsonApi \<Rightarrow> 'j \<Rightarrow> DecodeError + PingRequest" where
  "ping_request_from_json api j =
     bindE (get_member api (j_string api) j ''method'') (\<lambda>method'.
     Inr \<lparr>ping_request_method = method'\<rparr>)"

lemma ping_request_object [codec]: "json_laws api \<Longrightarrow> j_is_object api (ping_request_to_json api v)"
  by (simp add: ping_request_to_json_def Let_def)

lemma ping_request_roundtrip [codec]:
  "json_laws api \<Longrightarrow> ping_request_from_json api (ping_request_to_json api v) = Inr v"
  by (cases v) (simp add: ping_request_to_json_def ping_request_from_json_def Let_def codec)

record 'j InitializeRequest =
  initialize_request_protocolVersion :: string
  initialize_request_clientInfo :: Implementation
  initialize_request_capabilities :: "'j ClientCapabilities"

definition initialize_request_to_json :: "'j JsonApi \<Rightarrow> 'j InitializeRequest \<Rightarrow> 'j" where
  "initialize_request_to_json api v =
     (let j = j_put api (j_empty_object api) ''protocolVersion'' (j_of_string api (initialize_request_protocolVersion v));
          j = j_put api j ''clientInfo'' (implementation_to_json api (initialize_request_clientInfo v));
          j = j_put api j ''capabilities'' (client_capabilities_to_json api (initialize_request_capabilities v))
      in j)"

definition initialize_request_from_json :: "'j JsonApi \<Rightarrow> 'j \<Rightarrow> DecodeError + 'j InitializeRequest" where
  "initialize_request_from_json api j =
     bindE (get_member api (j_string api) j ''protocolVersion'') (\<lambda>protocolVersion'.
     bindE (get_member api (implementation_from_json api) j ''clientInfo'') (\<lambda>clientInfo'.
     bindE (get_member api (client_capabilities_from_json api) j ''capabilities'') (\<lambda>capabilities'.
     Inr \<lparr>initialize_request_protocolVersion = protocolVersion', initialize_request_clientInfo = clientInfo', initialize_request_capabilities = capabilities'\<rparr>)))"

definition initialize_request_ok :: "'j JsonApi \<Rightarrow> 'j InitializeRequest \<Rightarrow> bool" where
  "initialize_request_ok api v \<longleftrightarrow> client_capabilities_ok api (initialize_request_capabilities v)"

lemma initialize_request_object [codec]: "json_laws api \<Longrightarrow> j_is_object api (initialize_request_to_json api v)"
  by (simp add: initialize_request_to_json_def Let_def)

lemma initialize_request_roundtrip [codec]:
  "json_laws api \<Longrightarrow> initialize_request_ok api v \<Longrightarrow> initialize_request_from_json api (initialize_request_to_json api v) = Inr v"
  by (cases v) (simp add: initialize_request_to_json_def initialize_request_from_json_def initialize_request_ok_def Let_def codec)

record 'j InitializeResult =
  initialize_result_protocolVersion :: string
  initialize_result_capabilities :: "'j ServerCapabilities"
  initialize_result_serverInfo :: Implementation
  initialize_result_instructions :: "string option"

definition initialize_result_to_json :: "'j JsonApi \<Rightarrow> 'j InitializeResult \<Rightarrow> 'j" where
  "initialize_result_to_json api v =
     (let j = j_put api (j_empty_object api) ''protocolVersion'' (j_of_string api (initialize_result_protocolVersion v));
          j = j_put api j ''capabilities'' (server_capabilities_to_json api (initialize_result_capabilities v));
          j = j_put api j ''serverInfo'' (implementation_to_json api (initialize_result_serverInfo v));
          j = put_optional api (j_of_string api) j ''instructions'' (initialize_result_instructions v)
      in j)"

definition initialize_result_from_json :: "'j JsonApi \<Rightarrow> 'j \<Rightarrow> DecodeError + 'j InitializeResult" where
  "initialize_result_from_json api j =
     bindE (get_member api (j_string api) j ''protocolVersion'') (\<lambda>protocolVersion'.
     bindE (get_member api (server_capabilities_from_json api) j ''capabilities'') (\<lambda>capabilities'.
     bindE (get_member api (implementation_from_json api) j ''serverInfo'') (\<lambda>serverInfo'.
     bindE (get_if_present api (j_string api) j ''instructions'') (\<lambda>instructions'.
     Inr \<lparr>initialize_result_protocolVersion = protocolVersion', initialize_result_capabilities = capabilities', initialize_result_serverInfo = serverInfo', initialize_result_instructions = instructions'\<rparr>))))"

definition initialize_result_ok :: "'j JsonApi \<Rightarrow> 'j InitializeResult \<Rightarrow> bool" where
  "initialize_result_ok api v \<longleftrightarrow> server_capabilities_ok api (initialize_result_capabilities v)"

lemma initialize_result_object [codec]: "json_laws api \<Longrightarrow> j_is_object api (initialize_result_to_json api v)"
  by (simp add: initialize_result_to_json_def Let_def)

lemma initialize_result_roundtrip [codec]:
  "json_laws api \<Longrightarrow> initialize_result_ok api v \<Longrightarrow> initialize_result_from_json api (initialize_result_to_json api v) = Inr v"
  by (cases v) (simp add: initialize_result_to_json_def initialize_result_from_json_def initialize_result_ok_def Let_def codec)

record 'j DiscoverRequest =
  discover_request_meta :: "'j option"

definition discover_request_to_json :: "'j JsonApi \<Rightarrow> 'j DiscoverRequest \<Rightarrow> 'j" where
  "discover_request_to_json api v =
     put_optional api put_json (j_empty_object api) ''_meta'' (discover_request_meta v)"

definition discover_request_from_json :: "'j JsonApi \<Rightarrow> 'j \<Rightarrow> DecodeError + 'j DiscoverRequest" where
  "discover_request_from_json api j =
     bindE (get_if_present api get_json j ''_meta'') (\<lambda>meta'.
     Inr \<lparr>discover_request_meta = meta'\<rparr>)"

lemma discover_request_object [codec]: "json_laws api \<Longrightarrow> j_is_object api (discover_request_to_json api v)"
  by (simp add: discover_request_to_json_def Let_def)

lemma discover_request_roundtrip [codec]:
  "json_laws api \<Longrightarrow> discover_request_from_json api (discover_request_to_json api v) = Inr v"
  by (cases v) (simp add: discover_request_to_json_def discover_request_from_json_def Let_def codec)

datatype CacheScope = CacheScope_ePublic | CacheScope_ePrivate

definition cache_scope_names :: "(CacheScope \<times> string) list" where
  "cache_scope_names = [(CacheScope_ePublic, ''public''), (CacheScope_ePrivate, ''private'')]"

definition cache_scope_to_json :: "'j JsonApi \<Rightarrow> CacheScope \<Rightarrow> 'j" where
  "cache_scope_to_json api = enum_to_json api cache_scope_names"

definition cache_scope_from_json :: "'j JsonApi \<Rightarrow> 'j \<Rightarrow> DecodeError + CacheScope" where
  "cache_scope_from_json api = enum_from_json api cache_scope_names"

lemma cache_scope_roundtrip [codec]: "json_laws api \<Longrightarrow> cache_scope_from_json api (cache_scope_to_json api v) = Inr v"
  unfolding cache_scope_from_json_def cache_scope_to_json_def by (cases v) (auto intro!: enum_roundtrip simp: cache_scope_names_def)

lemma cache_scope_not_null [codec]: "json_laws api \<Longrightarrow> \<not> j_is_null api (cache_scope_to_json api v)"
  by (simp add: cache_scope_to_json_def codec)

record 'j DiscoverResult =
  discover_result_resultType :: string
  discover_result_supportedVersions :: "string list"
  discover_result_capabilities :: "'j ServerCapabilities"
  discover_result_serverInfo :: Implementation
  discover_result_instructions :: "string option"
  discover_result_ttlMs :: "int option"
  discover_result_cacheScope :: "CacheScope option"

definition server_info_key :: string where
  "server_info_key = ''io.modelcontextprotocol/serverInfo''"

definition no_implementation :: Implementation where
  "no_implementation = \<lparr>implementation_name = [], implementation_version = [], implementation_title = None,
     implementation_description = None, implementation_websiteUrl = None, implementation_icons = None\<rparr>"

definition discover_result_to_json :: "'j JsonApi \<Rightarrow> 'j DiscoverResult \<Rightarrow> 'j" where
  "discover_result_to_json api v =
     (let j = j_put api (j_empty_object api) ''resultType'' (j_of_string api (discover_result_resultType v));
          j = j_put api j ''supportedVersions'' (put_list api (j_of_string api) (discover_result_supportedVersions v));
          j = j_put api j ''capabilities'' (server_capabilities_to_json api (discover_result_capabilities v));
          j = j_put api j ''_meta'' (j_put api (j_empty_object api) server_info_key (implementation_to_json api (discover_result_serverInfo v)));
          j = put_optional api (j_of_string api) j ''instructions'' (discover_result_instructions v);
          j = put_optional api (j_of_int api) j ''ttlMs'' (discover_result_ttlMs v);
          j = put_optional api (cache_scope_to_json api) j ''cacheScope'' (discover_result_cacheScope v)
      in j)"

definition discover_result_from_json :: "'j JsonApi \<Rightarrow> 'j \<Rightarrow> DecodeError + 'j DiscoverResult" where
  "discover_result_from_json api j =
     bindE (get_member api (j_string api) j ''resultType'') (\<lambda>resultType'.
     bindE (get_member api (get_list api (j_string api)) j ''supportedVersions'') (\<lambda>supportedVersions'.
     bindE (get_member api (server_capabilities_from_json api) j ''capabilities'') (\<lambda>capabilities'.
     bindE (case j_find api j ''_meta'' of
              None \<Rightarrow> Inr None
            | Some m \<Rightarrow> get_if_present api (implementation_from_json api) m server_info_key) (\<lambda>info.
     bindE (get_optional api (j_string api) j ''instructions'') (\<lambda>instructions'.
     bindE (get_optional api (j_int api) j ''ttlMs'') (\<lambda>ttlMs'.
     bindE (get_if_present api (cache_scope_from_json api) j ''cacheScope'') (\<lambda>cacheScope'.
     Inr \<lparr>discover_result_resultType = resultType', discover_result_supportedVersions = supportedVersions',
       discover_result_capabilities = capabilities',
       discover_result_serverInfo = (case info of None \<Rightarrow> no_implementation | Some i \<Rightarrow> i),
       discover_result_instructions = instructions', discover_result_ttlMs = ttlMs',
       discover_result_cacheScope = cacheScope'\<rparr>)))))))"

definition discover_result_ok :: "'j JsonApi \<Rightarrow> 'j DiscoverResult \<Rightarrow> bool" where
  "discover_result_ok api v \<longleftrightarrow> server_capabilities_ok api (discover_result_capabilities v)
     \<and> (\<forall>y \<in> set_option (discover_result_ttlMs v). int64_range y)"

lemma decode_present_Some [codec]: "decode_present getter (Some x) = bindE (getter x) (\<lambda>y. Inr (Some y))"
  by (simp add: decode_present_def)

lemma discover_result_object [codec]: "json_laws api \<Longrightarrow> j_is_object api (discover_result_to_json api v)"
  by (simp add: discover_result_to_json_def Let_def)

lemma discover_result_roundtrip [codec]:
  "json_laws api \<Longrightarrow> discover_result_ok api v \<Longrightarrow> discover_result_from_json api (discover_result_to_json api v) = Inr v"
  by (cases v) (simp add: discover_result_to_json_def discover_result_from_json_def discover_result_ok_def Let_def codec)

subsection \<open>Protocol versions\<close>

definition supported_protocol_versions :: "string list" where
  "supported_protocol_versions = [''2024-11-05'', ''2025-03-26'', ''2025-06-18'', ''2025-11-25'']"

definition latest_protocol_version :: string where
  "latest_protocol_version = ''2025-11-25''"

definition discoverable_protocol_versions :: "string list" where
  "discoverable_protocol_versions = [''2024-11-05'', ''2025-03-26'', ''2025-06-18'', ''2025-11-25'', ''2026-07-28'']"

definition is_supported_protocol_version :: "string \<Rightarrow> bool" where
  "is_supported_protocol_version version \<longleftrightarrow> version \<in> set supported_protocol_versions"

definition negotiate_protocol_version :: "string \<Rightarrow> string" where
  "negotiate_protocol_version requested =
     (if is_supported_protocol_version requested then requested else latest_protocol_version)"

text \<open>Negotiation always settles on a supported version, on the requested one exactly when that is supported, and
  asking again for the settled version changes nothing; a version that is only discoverable is never negotiated.\<close>

theorem negotiation_settles:
  "is_supported_protocol_version (negotiate_protocol_version v)
   \<and> (negotiate_protocol_version v = v \<longleftrightarrow> is_supported_protocol_version v)
   \<and> negotiate_protocol_version (negotiate_protocol_version v) = negotiate_protocol_version v
   \<and> set supported_protocol_versions \<subset> set discoverable_protocol_versions
   \<and> negotiate_protocol_version ''2026-07-28'' = latest_protocol_version"
proof -
  have latest: "is_supported_protocol_version latest_protocol_version"
    by (simp add: is_supported_protocol_version_def supported_protocol_versions_def latest_protocol_version_def)
  have "\<not> is_supported_protocol_version ''2026-07-28''"
    by (simp add: is_supported_protocol_version_def supported_protocol_versions_def)
  moreover have "''2026-07-28'' \<in> set discoverable_protocol_versions"
    by (simp add: discoverable_protocol_versions_def)
  moreover have "set supported_protocol_versions \<subseteq> set discoverable_protocol_versions"
    by (simp add: supported_protocol_versions_def discoverable_protocol_versions_def)
  ultimately show ?thesis using latest
    by (auto simp: negotiate_protocol_version_def is_supported_protocol_version_def)
qed

subsection \<open>The exchange that opens a session\<close>

definition bare_initialize_request :: "'j InitializeRequest" where
  "bare_initialize_request =
     \<lparr>initialize_request_protocolVersion = ''2025-11-25'',
      initialize_request_clientInfo = no_implementation\<lparr>implementation_name := ''probe'', implementation_version := ''1''\<rparr>,
      initialize_request_capabilities = \<lparr>client_capabilities_elicitation = None, client_capabilities_experimental = None,
        client_capabilities_roots = Some \<lparr>client_roots_capability_listChanged = Some True\<rparr>,
        client_capabilities_sampling = None, client_capabilities_tasks = None, client_capabilities_extensions = None\<rparr>\<rparr>"



text \<open>
  protocol/base.hpp says that a member that is absent and one that is null are the same statement; the
  instructions of an initialize result are read by \<open>contains\<close> alone, and a null makes the decoder throw.
\<close>

lemma null_instructions_refused:
  assumes "json_laws api" "initialize_result_ok api r" "initialize_result_instructions r = None"
    and "j_string api (j_null api) = Inl e"
  shows "initialize_result_from_json api (j_put api (initialize_result_to_json api r) ''instructions'' (j_null api)) = Inl e"
  using assms by (cases r) (simp add: initialize_result_to_json_def initialize_result_from_json_def initialize_result_ok_def Let_def codec)

text \<open>An optional text of an implementation, of which a null is read as absent.\<close>

lemma null_title_accepted:
  assumes "json_laws api" "implementation_title r = None"
  shows "implementation_from_json api (j_put api (implementation_to_json api r) ''title'' (j_null api)) = Inr r"
  using assms by (cases r) (simp add: implementation_to_json_def implementation_from_json_def Let_def codec decode_optional_def [of _ _ "Some _"])

end
