(* ===== verification/ProtoContent.thy ===== *)
theory ProtoContent
  imports ProtoCapabilities
begin

text \<open>
  Content blocks and resource contents (protocol/content.hpp).
\<close>

record TextContent =
  text_content_type :: string
  text_content_text :: string

record ImageContent =
  image_content_type :: string
  image_content_data :: string
  image_content_mimeType :: string

record TextResourceContents =
  text_resource_contents_uri :: string
  text_resource_contents_text :: string
  text_resource_contents_mimeType :: "string option"

record BlobResourceContents =
  blob_resource_contents_uri :: string
  blob_resource_contents_blob :: string
  blob_resource_contents_mimeType :: "string option"

datatype ResourceContents = Text_contents TextResourceContents | Blob_contents BlobResourceContents

definition text_resource_contents_to_json :: "'j JsonApi \<Rightarrow> TextResourceContents \<Rightarrow> 'j" where
  "text_resource_contents_to_json api v =
     (let j = j_put api (j_empty_object api) ''uri'' (j_of_string api (text_resource_contents_uri v));
          j = j_put api j ''text'' (j_of_string api (text_resource_contents_text v));
          j = put_optional api (j_of_string api) j ''mimeType'' (text_resource_contents_mimeType v)
      in j)"

definition text_resource_contents_from_json :: "'j JsonApi \<Rightarrow> 'j \<Rightarrow> DecodeError + TextResourceContents" where
  "text_resource_contents_from_json api j =
     bindE (get_member api (j_string api) j ''uri'') (\<lambda>uri'.
     bindE (get_member api (j_string api) j ''text'') (\<lambda>text'.
     bindE (get_optional api (j_string api) j ''mimeType'') (\<lambda>mimeType'.
     Inr \<lparr>text_resource_contents_uri = uri', text_resource_contents_text = text', text_resource_contents_mimeType = mimeType'\<rparr>)))"

lemma text_resource_contents_object [codec]: "json_laws api \<Longrightarrow> j_is_object api (text_resource_contents_to_json api v)"
  by (simp add: text_resource_contents_to_json_def Let_def)

lemma text_resource_contents_roundtrip [codec]:
  "json_laws api \<Longrightarrow> text_resource_contents_from_json api (text_resource_contents_to_json api v) = Inr v"
  by (cases v) (simp add: text_resource_contents_to_json_def text_resource_contents_from_json_def Let_def codec)

definition blob_resource_contents_to_json :: "'j JsonApi \<Rightarrow> BlobResourceContents \<Rightarrow> 'j" where
  "blob_resource_contents_to_json api v =
     (let j = j_put api (j_empty_object api) ''uri'' (j_of_string api (blob_resource_contents_uri v));
          j = j_put api j ''blob'' (j_of_string api (blob_resource_contents_blob v));
          j = put_optional api (j_of_string api) j ''mimeType'' (blob_resource_contents_mimeType v)
      in j)"

definition blob_resource_contents_from_json :: "'j JsonApi \<Rightarrow> 'j \<Rightarrow> DecodeError + BlobResourceContents" where
  "blob_resource_contents_from_json api j =
     bindE (get_member api (j_string api) j ''uri'') (\<lambda>uri'.
     bindE (get_member api (j_string api) j ''blob'') (\<lambda>blob'.
     bindE (get_optional api (j_string api) j ''mimeType'') (\<lambda>mimeType'.
     Inr \<lparr>blob_resource_contents_uri = uri', blob_resource_contents_blob = blob', blob_resource_contents_mimeType = mimeType'\<rparr>)))"

lemma blob_resource_contents_object [codec]: "json_laws api \<Longrightarrow> j_is_object api (blob_resource_contents_to_json api v)"
  by (simp add: blob_resource_contents_to_json_def Let_def)

lemma blob_resource_contents_roundtrip [codec]:
  "json_laws api \<Longrightarrow> blob_resource_contents_from_json api (blob_resource_contents_to_json api v) = Inr v"
  by (cases v) (simp add: blob_resource_contents_to_json_def blob_resource_contents_from_json_def Let_def codec)

definition resource_contents_to_json :: "'j JsonApi \<Rightarrow> ResourceContents \<Rightarrow> 'j" where
  "resource_contents_to_json api v =
     (case v of
     Text_contents x \<Rightarrow> text_resource_contents_to_json api x
   | Blob_contents x \<Rightarrow> blob_resource_contents_to_json api x)"

definition resource_contents_from_json :: "'j JsonApi \<Rightarrow> 'j \<Rightarrow> DecodeError + ResourceContents" where
  "resource_contents_from_json api j =
     (if j_contains api j ''text'' then bindE (text_resource_contents_from_json api j) (\<lambda>x. Inr (Text_contents x))
      else if j_contains api j ''blob'' then bindE (blob_resource_contents_from_json api j) (\<lambda>x. Inr (Blob_contents x))
      else Inl (Bad_value ''Unknown resource contents type''))"

lemma text_contents_members [codec]: "json_laws api \<Longrightarrow> j_contains api (text_resource_contents_to_json api v) ''text''"
  by (simp add: text_resource_contents_to_json_def Let_def j_contains_def)

lemma blob_contents_members [codec]:
  "json_laws api \<Longrightarrow> \<not> j_contains api (blob_resource_contents_to_json api v) ''text'' \<and> j_contains api (blob_resource_contents_to_json api v) ''blob''"
  by (simp add: blob_resource_contents_to_json_def Let_def j_contains_def)

lemma resource_contents_object [codec]: "json_laws api \<Longrightarrow> j_is_object api (resource_contents_to_json api v)"
  by (cases v) (simp_all add: resource_contents_to_json_def codec)

lemma resource_contents_roundtrip [codec]:
  "json_laws api \<Longrightarrow> resource_contents_from_json api (resource_contents_to_json api v) = Inr v"
  by (cases v) (simp_all add: resource_contents_to_json_def resource_contents_from_json_def codec)

record AudioContent =
  audio_content_type :: string
  audio_content_data :: string
  audio_content_mimeType :: string

record 'j ResourceLink =
  resource_link_type :: string
  resource_link_uri :: string
  resource_link_name :: string
  resource_link_description :: "string option"
  resource_link_mimeType :: "string option"
  resource_link_size :: "int option"
  resource_link_meta :: "'j option"
  resource_link_annotations :: "Annotations option"
  resource_link_title :: "string option"
  resource_link_icons :: "Icon list option"

definition resource_link_to_json :: "'j JsonApi \<Rightarrow> 'j ResourceLink \<Rightarrow> 'j" where
  "resource_link_to_json api v =
     (let j = j_put api (j_empty_object api) ''type'' (j_of_string api (resource_link_type v));
          j = j_put api j ''uri'' (j_of_string api (resource_link_uri v));
          j = j_put api j ''name'' (j_of_string api (resource_link_name v));
          j = put_optional api (j_of_string api) j ''description'' (resource_link_description v);
          j = put_optional api (j_of_string api) j ''mimeType'' (resource_link_mimeType v);
          j = put_optional api (j_of_int api) j ''size'' (resource_link_size v);
          j = put_optional api put_json j ''_meta'' (resource_link_meta v);
          j = put_optional api (annotations_to_json api) j ''annotations'' (resource_link_annotations v);
          j = put_optional api (j_of_string api) j ''title'' (resource_link_title v);
          j = put_optional api (put_list api (icon_to_json api)) j ''icons'' (resource_link_icons v)
      in j)"

definition resource_link_from_json :: "'j JsonApi \<Rightarrow> 'j \<Rightarrow> DecodeError + 'j ResourceLink" where
  "resource_link_from_json api j =
     bindE (get_member api (j_string api) j ''type'') (\<lambda>type'.
     bindE (validate_content_type type' ''resource_link'') (\<lambda>u.
     bindE (get_member api (j_string api) j ''uri'') (\<lambda>uri'.
     bindE (get_member api (j_string api) j ''name'') (\<lambda>name'.
     bindE (get_optional api (j_string api) j ''description'') (\<lambda>description'.
     bindE (get_optional api (j_string api) j ''mimeType'') (\<lambda>mimeType'.
     bindE (get_optional api (j_int api) j ''size'') (\<lambda>size'.
     bindE (get_if_present api get_json j ''_meta'') (\<lambda>meta'.
     bindE (get_if_present api (annotations_from_json api) j ''annotations'') (\<lambda>annotations'.
     bindE (get_optional api (j_string api) j ''title'') (\<lambda>title'.
     bindE (get_optional api (get_list api (icon_from_json api)) j ''icons'') (\<lambda>icons'.
     Inr \<lparr>resource_link_type = type', resource_link_uri = uri', resource_link_name = name', resource_link_description = description', resource_link_mimeType = mimeType', resource_link_size = size', resource_link_meta = meta', resource_link_annotations = annotations', resource_link_title = title', resource_link_icons = icons'\<rparr>)))))))))))"

definition resource_link_ok :: "'j JsonApi \<Rightarrow> 'j ResourceLink \<Rightarrow> bool" where
  "resource_link_ok api v \<longleftrightarrow> resource_link_type v = ''resource_link''
     \<and> (\<forall>y \<in> set_option (resource_link_size v). int64_range y)
     \<and> (\<forall>y \<in> set_option (resource_link_annotations v). annotations_ok api y)"

lemma resource_link_object [codec]: "json_laws api \<Longrightarrow> j_is_object api (resource_link_to_json api v)"
  by (simp add: resource_link_to_json_def Let_def)

lemma resource_link_roundtrip [codec]:
  "json_laws api \<Longrightarrow> resource_link_ok api v \<Longrightarrow> resource_link_from_json api (resource_link_to_json api v) = Inr v"
  by (cases v) (simp add: resource_link_to_json_def resource_link_from_json_def resource_link_ok_def Let_def codec)

record 'j EmbeddedResource =
  embedded_resource_type :: string
  embedded_resource_resource :: ResourceContents
  embedded_resource_meta :: "'j option"
  embedded_resource_annotations :: "Annotations option"

definition embedded_resource_to_json :: "'j JsonApi \<Rightarrow> 'j EmbeddedResource \<Rightarrow> 'j" where
  "embedded_resource_to_json api v =
     (let j = j_put api (j_empty_object api) ''type'' (j_of_string api (embedded_resource_type v));
          j = j_put api j ''resource'' (resource_contents_to_json api (embedded_resource_resource v));
          j = put_optional api put_json j ''_meta'' (embedded_resource_meta v);
          j = put_optional api (annotations_to_json api) j ''annotations'' (embedded_resource_annotations v)
      in j)"

definition embedded_resource_from_json :: "'j JsonApi \<Rightarrow> 'j \<Rightarrow> DecodeError + 'j EmbeddedResource" where
  "embedded_resource_from_json api j =
     bindE (get_member api (j_string api) j ''type'') (\<lambda>type'.
     bindE (validate_content_type type' ''resource'') (\<lambda>u.
     bindE (get_member api (resource_contents_from_json api) j ''resource'') (\<lambda>resource'.
     bindE (get_if_present api get_json j ''_meta'') (\<lambda>meta'.
     bindE (get_if_present api (annotations_from_json api) j ''annotations'') (\<lambda>annotations'.
     Inr \<lparr>embedded_resource_type = type', embedded_resource_resource = resource', embedded_resource_meta = meta', embedded_resource_annotations = annotations'\<rparr>)))))"

definition embedded_resource_ok :: "'j JsonApi \<Rightarrow> 'j EmbeddedResource \<Rightarrow> bool" where
  "embedded_resource_ok api v \<longleftrightarrow> embedded_resource_type v = ''resource''
     \<and> (\<forall>y \<in> set_option (embedded_resource_annotations v). annotations_ok api y)"

lemma embedded_resource_object [codec]: "json_laws api \<Longrightarrow> j_is_object api (embedded_resource_to_json api v)"
  by (simp add: embedded_resource_to_json_def Let_def)

lemma embedded_resource_roundtrip [codec]:
  "json_laws api \<Longrightarrow> embedded_resource_ok api v \<Longrightarrow> embedded_resource_from_json api (embedded_resource_to_json api v) = Inr v"
  by (cases v) (simp add: embedded_resource_to_json_def embedded_resource_from_json_def embedded_resource_ok_def Let_def codec)

record 'j ToolUseContent =
  tool_use_content_type :: string
  tool_use_content_id :: string
  tool_use_content_name :: string
  tool_use_content_input :: "'j"
  tool_use_content_meta :: "'j option"

definition tool_use_content_to_json :: "'j JsonApi \<Rightarrow> 'j ToolUseContent \<Rightarrow> 'j" where
  "tool_use_content_to_json api v =
     (let j = j_put api (j_empty_object api) ''type'' (j_of_string api (tool_use_content_type v));
          j = j_put api j ''id'' (j_of_string api (tool_use_content_id v));
          j = j_put api j ''name'' (j_of_string api (tool_use_content_name v));
          j = j_put api j ''input'' (tool_use_content_input v);
          j = put_optional api put_json j ''_meta'' (tool_use_content_meta v)
      in j)"

definition tool_use_content_from_json :: "'j JsonApi \<Rightarrow> 'j \<Rightarrow> DecodeError + 'j ToolUseContent" where
  "tool_use_content_from_json api j =
     bindE (get_member api (j_string api) j ''type'') (\<lambda>type'.
     bindE (validate_content_type type' ''tool_use'') (\<lambda>u.
     bindE (get_member api (j_string api) j ''id'') (\<lambda>id'.
     bindE (get_member api (j_string api) j ''name'') (\<lambda>name'.
     bindE (get_member api get_json j ''input'') (\<lambda>input'.
     bindE (get_if_present api get_json j ''_meta'') (\<lambda>meta'.
     Inr \<lparr>tool_use_content_type = type', tool_use_content_id = id', tool_use_content_name = name', tool_use_content_input = input', tool_use_content_meta = meta'\<rparr>))))))"

definition tool_use_content_ok :: "'j JsonApi \<Rightarrow> 'j ToolUseContent \<Rightarrow> bool" where
  "tool_use_content_ok api v \<longleftrightarrow> tool_use_content_type v = ''tool_use''"

lemma tool_use_content_object [codec]: "json_laws api \<Longrightarrow> j_is_object api (tool_use_content_to_json api v)"
  by (simp add: tool_use_content_to_json_def Let_def)

lemma tool_use_content_roundtrip [codec]:
  "json_laws api \<Longrightarrow> tool_use_content_ok api v \<Longrightarrow> tool_use_content_from_json api (tool_use_content_to_json api v) = Inr v"
  by (cases v) (simp add: tool_use_content_to_json_def tool_use_content_from_json_def tool_use_content_ok_def Let_def codec)

record 'j ToolResultContent =
  tool_result_content_type :: string
  tool_result_content_toolUseId :: string
  tool_result_content_content :: "'j"
  tool_result_content_isError :: "bool option"
  tool_result_content_structuredContent :: "'j option"
  tool_result_content_meta :: "'j option"

definition tool_result_content_to_json :: "'j JsonApi \<Rightarrow> 'j ToolResultContent \<Rightarrow> 'j" where
  "tool_result_content_to_json api v =
     (let j = j_put api (j_empty_object api) ''type'' (j_of_string api (tool_result_content_type v));
          j = j_put api j ''toolUseId'' (j_of_string api (tool_result_content_toolUseId v));
          j = j_put api j ''content'' (tool_result_content_content v);
          j = put_optional api (j_of_bool api) j ''isError'' (tool_result_content_isError v);
          j = put_optional api put_json j ''structuredContent'' (tool_result_content_structuredContent v);
          j = put_optional api put_json j ''_meta'' (tool_result_content_meta v)
      in j)"

definition tool_result_content_from_json :: "'j JsonApi \<Rightarrow> 'j \<Rightarrow> DecodeError + 'j ToolResultContent" where
  "tool_result_content_from_json api j =
     bindE (get_member api (j_string api) j ''type'') (\<lambda>type'.
     bindE (validate_content_type type' ''tool_result'') (\<lambda>u.
     bindE (get_member api (j_string api) j ''toolUseId'') (\<lambda>toolUseId'.
     bindE (get_member api get_json j ''content'') (\<lambda>content'.
     bindE (get_optional api (j_bool api) j ''isError'') (\<lambda>isError'.
     bindE (get_optional api get_json j ''structuredContent'') (\<lambda>structuredContent'.
     bindE (get_optional api get_json j ''_meta'') (\<lambda>meta'.
     Inr \<lparr>tool_result_content_type = type', tool_result_content_toolUseId = toolUseId', tool_result_content_content = content', tool_result_content_isError = isError', tool_result_content_structuredContent = structuredContent', tool_result_content_meta = meta'\<rparr>)))))))"

definition tool_result_content_ok :: "'j JsonApi \<Rightarrow> 'j ToolResultContent \<Rightarrow> bool" where
  "tool_result_content_ok api v \<longleftrightarrow> tool_result_content_type v = ''tool_result''
     \<and> (\<forall>y \<in> set_option (tool_result_content_structuredContent v). \<not> j_is_null api y)
     \<and> (\<forall>y \<in> set_option (tool_result_content_meta v). \<not> j_is_null api y)"

lemma tool_result_content_object [codec]: "json_laws api \<Longrightarrow> j_is_object api (tool_result_content_to_json api v)"
  by (simp add: tool_result_content_to_json_def Let_def)

lemma tool_result_content_roundtrip [codec]:
  "json_laws api \<Longrightarrow> tool_result_content_ok api v \<Longrightarrow> tool_result_content_from_json api (tool_result_content_to_json api v) = Inr v"
  by (cases v) (simp add: tool_result_content_to_json_def tool_result_content_from_json_def tool_result_content_ok_def Let_def codec)

definition text_content_to_json :: "'j JsonApi \<Rightarrow> TextContent \<Rightarrow> 'j" where
  "text_content_to_json api v =
     (let j = j_put api (j_empty_object api) ''type'' (j_of_string api (text_content_type v));
          j = j_put api j ''text'' (j_of_string api (text_content_text v))
      in j)"

definition text_content_from_json :: "'j JsonApi \<Rightarrow> 'j \<Rightarrow> DecodeError + TextContent" where
  "text_content_from_json api j =
     bindE (get_member api (j_string api) j ''type'') (\<lambda>type'.
     bindE (validate_content_type type' ''text'') (\<lambda>u.
     bindE (get_member api (j_string api) j ''text'') (\<lambda>text'.
     Inr \<lparr>text_content_type = type', text_content_text = text'\<rparr>)))"

definition text_content_ok :: "'j JsonApi \<Rightarrow> TextContent \<Rightarrow> bool" where
  "text_content_ok api v \<longleftrightarrow> text_content_type v = ''text''"

lemma text_content_object [codec]: "json_laws api \<Longrightarrow> j_is_object api (text_content_to_json api v)"
  by (simp add: text_content_to_json_def Let_def)

lemma text_content_roundtrip [codec]:
  "json_laws api \<Longrightarrow> text_content_ok api v \<Longrightarrow> text_content_from_json api (text_content_to_json api v) = Inr v"
  by (cases v) (simp add: text_content_to_json_def text_content_from_json_def text_content_ok_def Let_def codec)

definition image_content_to_json :: "'j JsonApi \<Rightarrow> ImageContent \<Rightarrow> 'j" where
  "image_content_to_json api v =
     (let j = j_put api (j_empty_object api) ''type'' (j_of_string api (image_content_type v));
          j = j_put api j ''data'' (j_of_string api (image_content_data v));
          j = j_put api j ''mimeType'' (j_of_string api (image_content_mimeType v))
      in j)"

definition image_content_from_json :: "'j JsonApi \<Rightarrow> 'j \<Rightarrow> DecodeError + ImageContent" where
  "image_content_from_json api j =
     bindE (get_member api (j_string api) j ''type'') (\<lambda>type'.
     bindE (validate_content_type type' ''image'') (\<lambda>u.
     bindE (get_member api (j_string api) j ''data'') (\<lambda>data'.
     bindE (get_member api (j_string api) j ''mimeType'') (\<lambda>mimeType'.
     Inr \<lparr>image_content_type = type', image_content_data = data', image_content_mimeType = mimeType'\<rparr>))))"

definition image_content_ok :: "'j JsonApi \<Rightarrow> ImageContent \<Rightarrow> bool" where
  "image_content_ok api v \<longleftrightarrow> image_content_type v = ''image''"

lemma image_content_object [codec]: "json_laws api \<Longrightarrow> j_is_object api (image_content_to_json api v)"
  by (simp add: image_content_to_json_def Let_def)

lemma image_content_roundtrip [codec]:
  "json_laws api \<Longrightarrow> image_content_ok api v \<Longrightarrow> image_content_from_json api (image_content_to_json api v) = Inr v"
  by (cases v) (simp add: image_content_to_json_def image_content_from_json_def image_content_ok_def Let_def codec)

definition audio_content_to_json :: "'j JsonApi \<Rightarrow> AudioContent \<Rightarrow> 'j" where
  "audio_content_to_json api v =
     (let j = j_put api (j_empty_object api) ''type'' (j_of_string api (audio_content_type v));
          j = j_put api j ''data'' (j_of_string api (audio_content_data v));
          j = j_put api j ''mimeType'' (j_of_string api (audio_content_mimeType v))
      in j)"

definition audio_content_from_json :: "'j JsonApi \<Rightarrow> 'j \<Rightarrow> DecodeError + AudioContent" where
  "audio_content_from_json api j =
     bindE (get_member api (j_string api) j ''type'') (\<lambda>type'.
     bindE (validate_content_type type' ''audio'') (\<lambda>u.
     bindE (get_member api (j_string api) j ''data'') (\<lambda>data'.
     bindE (get_member api (j_string api) j ''mimeType'') (\<lambda>mimeType'.
     Inr \<lparr>audio_content_type = type', audio_content_data = data', audio_content_mimeType = mimeType'\<rparr>))))"

definition audio_content_ok :: "'j JsonApi \<Rightarrow> AudioContent \<Rightarrow> bool" where
  "audio_content_ok api v \<longleftrightarrow> audio_content_type v = ''audio''"

lemma audio_content_object [codec]: "json_laws api \<Longrightarrow> j_is_object api (audio_content_to_json api v)"
  by (simp add: audio_content_to_json_def Let_def)

lemma audio_content_roundtrip [codec]:
  "json_laws api \<Longrightarrow> audio_content_ok api v \<Longrightarrow> audio_content_from_json api (audio_content_to_json api v) = Inr v"
  by (cases v) (simp add: audio_content_to_json_def audio_content_from_json_def audio_content_ok_def Let_def codec)

datatype 'j ContentBlock =
    Text_block TextContent
  | Image_block ImageContent
  | Audio_block AudioContent
  | Link_block "'j ResourceLink"
  | Resource_block "'j EmbeddedResource"
  | Tool_use_block "'j ToolUseContent"
  | Tool_result_block "'j ToolResultContent"

lemma text_content_type [codec]: "json_laws api \<Longrightarrow> j_find api (text_content_to_json api v) ''type'' = Some (j_of_string api (text_content_type v))"
  by (simp add: text_content_to_json_def Let_def)

lemma image_content_type [codec]: "json_laws api \<Longrightarrow> j_find api (image_content_to_json api v) ''type'' = Some (j_of_string api (image_content_type v))"
  by (simp add: image_content_to_json_def Let_def)

lemma audio_content_type [codec]: "json_laws api \<Longrightarrow> j_find api (audio_content_to_json api v) ''type'' = Some (j_of_string api (audio_content_type v))"
  by (simp add: audio_content_to_json_def Let_def)

lemma resource_link_type [codec]: "json_laws api \<Longrightarrow> j_find api (resource_link_to_json api v) ''type'' = Some (j_of_string api (resource_link_type v))"
  by (simp add: resource_link_to_json_def Let_def)

lemma embedded_resource_type [codec]: "json_laws api \<Longrightarrow> j_find api (embedded_resource_to_json api v) ''type'' = Some (j_of_string api (embedded_resource_type v))"
  by (simp add: embedded_resource_to_json_def Let_def)

lemma tool_use_content_type [codec]: "json_laws api \<Longrightarrow> j_find api (tool_use_content_to_json api v) ''type'' = Some (j_of_string api (tool_use_content_type v))"
  by (simp add: tool_use_content_to_json_def Let_def)

lemma tool_result_content_type [codec]: "json_laws api \<Longrightarrow> j_find api (tool_result_content_to_json api v) ''type'' = Some (j_of_string api (tool_result_content_type v))"
  by (simp add: tool_result_content_to_json_def Let_def)

definition content_block_to_json :: "'j JsonApi \<Rightarrow> 'j ContentBlock \<Rightarrow> 'j" where
  "content_block_to_json api v =
     (case v of
     Text_block x \<Rightarrow> text_content_to_json api x
   | Image_block x \<Rightarrow> image_content_to_json api x
   | Audio_block x \<Rightarrow> audio_content_to_json api x
   | Link_block x \<Rightarrow> resource_link_to_json api x
   | Resource_block x \<Rightarrow> embedded_resource_to_json api x
   | Tool_use_block x \<Rightarrow> tool_use_content_to_json api x
   | Tool_result_block x \<Rightarrow> tool_result_content_to_json api x)"

definition content_block_from_json :: "'j JsonApi \<Rightarrow> 'j \<Rightarrow> DecodeError + 'j ContentBlock" where
  "content_block_from_json api j =
     bindE (get_member api (j_string api) j ''type'') (\<lambda>t.
     (if t = ''text'' then bindE (text_content_from_json api j) (\<lambda>x. Inr (Text_block x))
      else if t = ''image'' then bindE (image_content_from_json api j) (\<lambda>x. Inr (Image_block x))
      else if t = ''audio'' then bindE (audio_content_from_json api j) (\<lambda>x. Inr (Audio_block x))
      else if t = ''resource_link'' then bindE (resource_link_from_json api j) (\<lambda>x. Inr (Link_block x))
      else if t = ''resource'' then bindE (embedded_resource_from_json api j) (\<lambda>x. Inr (Resource_block x))
      else if t = ''tool_use'' then bindE (tool_use_content_from_json api j) (\<lambda>x. Inr (Tool_use_block x))
      else if t = ''tool_result'' then bindE (tool_result_content_from_json api j) (\<lambda>x. Inr (Tool_result_block x))
      else Inl (Bad_value (''Unknown content type: '' @ t))))"

definition content_block_ok :: "'j JsonApi \<Rightarrow> 'j ContentBlock \<Rightarrow> bool" where
  "content_block_ok api v \<longleftrightarrow>
     (case v of
     Text_block x \<Rightarrow> text_content_ok api x
   | Image_block x \<Rightarrow> image_content_ok api x
   | Audio_block x \<Rightarrow> audio_content_ok api x
   | Link_block x \<Rightarrow> resource_link_ok api x
   | Resource_block x \<Rightarrow> embedded_resource_ok api x
   | Tool_use_block x \<Rightarrow> tool_use_content_ok api x
   | Tool_result_block x \<Rightarrow> tool_result_content_ok api x)"

lemma content_block_object [codec]: "json_laws api \<Longrightarrow> j_is_object api (content_block_to_json api v)"
  by (cases v) (simp_all add: content_block_to_json_def codec)

lemma content_types [codec]:
  "text_content_ok api a0 \<Longrightarrow> text_content_type a0 = ''text''"
  "image_content_ok api a1 \<Longrightarrow> image_content_type a1 = ''image''"
  "audio_content_ok api a2 \<Longrightarrow> audio_content_type a2 = ''audio''"
  "resource_link_ok api a3 \<Longrightarrow> resource_link_type a3 = ''resource_link''"
  "embedded_resource_ok api a4 \<Longrightarrow> embedded_resource_type a4 = ''resource''"
  "tool_use_content_ok api a5 \<Longrightarrow> tool_use_content_type a5 = ''tool_use''"
  "tool_result_content_ok api a6 \<Longrightarrow> tool_result_content_type a6 = ''tool_result''"
  by (simp_all add: text_content_ok_def image_content_ok_def audio_content_ok_def resource_link_ok_def embedded_resource_ok_def tool_use_content_ok_def tool_result_content_ok_def)

lemma content_block_roundtrip [codec]:
  "json_laws api \<Longrightarrow> content_block_ok api v \<Longrightarrow> content_block_from_json api (content_block_to_json api v) = Inr v"
  by (cases v) (simp_all add: content_block_to_json_def content_block_from_json_def content_block_ok_def codec)

subsection \<open>What a content block is\<close>

text \<open>The name of the kind of a block, and the \<open>type\<close> it carries.\<close>

definition block_kind :: "'j ContentBlock \<Rightarrow> string" where
  "block_kind b =
     (case b of Text_block x \<Rightarrow> ''text'' | Image_block x \<Rightarrow> ''image'' | Audio_block x \<Rightarrow> ''audio'' | Link_block x \<Rightarrow> ''resource_link''
      | Resource_block x \<Rightarrow> ''resource'' | Tool_use_block x \<Rightarrow> ''tool_use'' | Tool_result_block x \<Rightarrow> ''tool_result'')"

definition block_type :: "'j ContentBlock \<Rightarrow> string" where
  "block_type b =
     (case b of Text_block x \<Rightarrow> text_content_type x | Image_block x \<Rightarrow> image_content_type x | Audio_block x \<Rightarrow> audio_content_type x
      | Link_block x \<Rightarrow> resource_link_type x | Resource_block x \<Rightarrow> embedded_resource_type x
      | Tool_use_block x \<Rightarrow> tool_use_content_type x | Tool_result_block x \<Rightarrow> tool_result_content_type x)"

lemma validate_content_type_Inr [simp]: "validate_content_type a b = Inr u \<longleftrightarrow> a = b"
  by (cases u) (simp add: validate_content_type_def)

lemma decoded_types:
  "text_content_from_json api j = Inr x1 \<Longrightarrow> text_content_type x1 = ''text''"
  "image_content_from_json api j = Inr x2 \<Longrightarrow> image_content_type x2 = ''image''"
  "audio_content_from_json api j = Inr x3 \<Longrightarrow> audio_content_type x3 = ''audio''"
  "resource_link_from_json api j = Inr x4 \<Longrightarrow> resource_link_type x4 = ''resource_link''"
  "embedded_resource_from_json api j = Inr x5 \<Longrightarrow> embedded_resource_type x5 = ''resource''"
  "tool_use_content_from_json api j = Inr x6 \<Longrightarrow> tool_use_content_type x6 = ''tool_use''"
  "tool_result_content_from_json api j = Inr x7 \<Longrightarrow> tool_result_content_type x7 = ''tool_result''"
  by (auto simp: text_content_from_json_def image_content_from_json_def audio_content_from_json_def resource_link_from_json_def
    embedded_resource_from_json_def tool_use_content_from_json_def tool_result_content_from_json_def)



end
