(* ===== verification/ProtoTools.thy ===== *)
theory ProtoTools
  imports ProtoContent
begin

text \<open>
  Tools, calls of tools and their results (protocol/tools.hpp and protocol/tools.cpp).
\<close>

record ToolAnnotations =
  tool_annotations_destructiveHint :: "bool option"
  tool_annotations_idempotentHint :: "bool option"
  tool_annotations_openWorldHint :: "bool option"
  tool_annotations_readOnlyHint :: "bool option"
  tool_annotations_title :: "string option"

definition tool_annotations_to_json :: "'j JsonApi \<Rightarrow> ToolAnnotations \<Rightarrow> 'j" where
  "tool_annotations_to_json api v =
     (let j = put_optional api (j_of_bool api) (j_empty_object api) ''destructiveHint'' (tool_annotations_destructiveHint v);
          j = put_optional api (j_of_bool api) j ''idempotentHint'' (tool_annotations_idempotentHint v);
          j = put_optional api (j_of_bool api) j ''openWorldHint'' (tool_annotations_openWorldHint v);
          j = put_optional api (j_of_bool api) j ''readOnlyHint'' (tool_annotations_readOnlyHint v);
          j = put_optional api (j_of_string api) j ''title'' (tool_annotations_title v)
      in j)"

definition tool_annotations_from_json :: "'j JsonApi \<Rightarrow> 'j \<Rightarrow> DecodeError + ToolAnnotations" where
  "tool_annotations_from_json api j =
     bindE (get_optional api (j_bool api) j ''destructiveHint'') (\<lambda>destructiveHint'.
     bindE (get_optional api (j_bool api) j ''idempotentHint'') (\<lambda>idempotentHint'.
     bindE (get_optional api (j_bool api) j ''openWorldHint'') (\<lambda>openWorldHint'.
     bindE (get_optional api (j_bool api) j ''readOnlyHint'') (\<lambda>readOnlyHint'.
     bindE (get_optional api (j_string api) j ''title'') (\<lambda>title'.
     Inr \<lparr>tool_annotations_destructiveHint = destructiveHint', tool_annotations_idempotentHint = idempotentHint', tool_annotations_openWorldHint = openWorldHint', tool_annotations_readOnlyHint = readOnlyHint', tool_annotations_title = title'\<rparr>)))))"

lemma tool_annotations_object [codec]: "json_laws api \<Longrightarrow> j_is_object api (tool_annotations_to_json api v)"
  by (simp add: tool_annotations_to_json_def Let_def)

lemma tool_annotations_roundtrip [codec]:
  "json_laws api \<Longrightarrow> tool_annotations_from_json api (tool_annotations_to_json api v) = Inr v"
  by (cases v) (simp add: tool_annotations_to_json_def tool_annotations_from_json_def Let_def codec)

record ToolExecution =
  tool_execution_taskSupport :: string

definition tool_execution_to_json :: "'j JsonApi \<Rightarrow> ToolExecution \<Rightarrow> 'j" where
  "tool_execution_to_json api v =
     j_put api (j_empty_object api) ''taskSupport'' (j_of_string api (tool_execution_taskSupport v))"

definition tool_execution_from_json :: "'j JsonApi \<Rightarrow> 'j \<Rightarrow> DecodeError + ToolExecution" where
  "tool_execution_from_json api j =
     bindE (get_member api (j_string api) j ''taskSupport'') (\<lambda>taskSupport'.
     Inr \<lparr>tool_execution_taskSupport = taskSupport'\<rparr>)"

lemma tool_execution_object [codec]: "json_laws api \<Longrightarrow> j_is_object api (tool_execution_to_json api v)"
  by (simp add: tool_execution_to_json_def Let_def)

lemma tool_execution_roundtrip [codec]:
  "json_laws api \<Longrightarrow> tool_execution_from_json api (tool_execution_to_json api v) = Inr v"
  by (cases v) (simp add: tool_execution_to_json_def tool_execution_from_json_def Let_def codec)

record 'j Tool =
  tool_name :: string
  tool_description :: "string option"
  tool_inputSchema :: "'j"
  tool_meta :: "'j option"
  tool_annotations :: "ToolAnnotations option"
  tool_outputSchema :: "'j option"
  tool_title :: "string option"
  tool_icons :: "Icon list option"
  tool_execution :: "ToolExecution option"

definition tool_to_json :: "'j JsonApi \<Rightarrow> 'j Tool \<Rightarrow> 'j" where
  "tool_to_json api v =
     (let j = j_put api (j_empty_object api) ''name'' (j_of_string api (tool_name v));
          j = j_put api j ''inputSchema'' (tool_inputSchema v);
          j = put_optional api (j_of_string api) j ''description'' (tool_description v);
          j = put_optional api put_json j ''_meta'' (tool_meta v);
          j = put_optional api (tool_annotations_to_json api) j ''annotations'' (tool_annotations v);
          j = put_optional api put_json j ''outputSchema'' (tool_outputSchema v);
          j = put_optional api (j_of_string api) j ''title'' (tool_title v);
          j = put_optional api (put_list api (icon_to_json api)) j ''icons'' (tool_icons v);
          j = put_optional api (tool_execution_to_json api) j ''execution'' (tool_execution v)
      in j)"

definition tool_from_json :: "'j JsonApi \<Rightarrow> 'j \<Rightarrow> DecodeError + 'j Tool" where
  "tool_from_json api j =
     bindE (get_member api (j_string api) j ''name'') (\<lambda>name'.
     bindE (get_member api get_json j ''inputSchema'') (\<lambda>inputSchema'.
     bindE (get_optional api (j_string api) j ''description'') (\<lambda>description'.
     bindE (get_optional api get_json j ''_meta'') (\<lambda>meta'.
     bindE (get_optional api (tool_annotations_from_json api) j ''annotations'') (\<lambda>annotations'.
     bindE (get_optional api get_json j ''outputSchema'') (\<lambda>outputSchema'.
     bindE (get_optional api (j_string api) j ''title'') (\<lambda>title'.
     bindE (get_optional api (get_list api (icon_from_json api)) j ''icons'') (\<lambda>icons'.
     bindE (get_optional api (tool_execution_from_json api) j ''execution'') (\<lambda>execution'.
     Inr \<lparr>tool_name = name', tool_description = description', tool_inputSchema = inputSchema', tool_meta = meta', tool_annotations = annotations', tool_outputSchema = outputSchema', tool_title = title', tool_icons = icons', tool_execution = execution'\<rparr>)))))))))"

definition tool_ok :: "'j JsonApi \<Rightarrow> 'j Tool \<Rightarrow> bool" where
  "tool_ok api v \<longleftrightarrow> (\<forall>y \<in> set_option (tool_meta v). \<not> j_is_null api y)
     \<and> (\<forall>y \<in> set_option (tool_outputSchema v). \<not> j_is_null api y)"

lemma tool_object [codec]: "json_laws api \<Longrightarrow> j_is_object api (tool_to_json api v)"
  by (simp add: tool_to_json_def Let_def)

lemma tool_roundtrip [codec]:
  "json_laws api \<Longrightarrow> tool_ok api v \<Longrightarrow> tool_from_json api (tool_to_json api v) = Inr v"
  by (cases v) (simp add: tool_to_json_def tool_from_json_def tool_ok_def Let_def codec)

record 'j CallToolParams =
  call_tool_params_name :: string
  call_tool_params_arguments :: "'j"
  call_tool_params_meta :: "'j option"

definition call_tool_params_to_json :: "'j JsonApi \<Rightarrow> 'j CallToolParams \<Rightarrow> 'j" where
  "call_tool_params_to_json api v =
     (let j = j_put api (j_empty_object api) ''name'' (j_of_string api (call_tool_params_name v));
          j = j_put api j ''arguments'' (call_tool_params_arguments v);
          j = put_optional api put_json j ''_meta'' (call_tool_params_meta v)
      in j)"

definition call_tool_params_from_json :: "'j JsonApi \<Rightarrow> 'j \<Rightarrow> DecodeError + 'j CallToolParams" where
  "call_tool_params_from_json api j =
     bindE (get_member api (j_string api) j ''name'') (\<lambda>name'.
     bindE (case j_find api j ''arguments'' of
              None \<Rightarrow> Inr (j_empty_object api)
            | Some a \<Rightarrow> if j_is_object api a then Inr a
                         else Inl (Bad_value ''CallToolParams arguments must be a JSON object'')) (\<lambda>arguments'.
     bindE (get_optional api get_json j ''_meta'') (\<lambda>meta'.
     Inr \<lparr>call_tool_params_name = name', call_tool_params_arguments = arguments', call_tool_params_meta = meta'\<rparr>)))"

definition call_tool_params_ok :: "'j JsonApi \<Rightarrow> 'j CallToolParams \<Rightarrow> bool" where
  "call_tool_params_ok api v \<longleftrightarrow> j_is_object api (call_tool_params_arguments v)
     \<and> (\<forall>y \<in> set_option (call_tool_params_meta v). \<not> j_is_null api y)"

lemma call_tool_params_object [codec]: "json_laws api \<Longrightarrow> j_is_object api (call_tool_params_to_json api v)"
  by (simp add: call_tool_params_to_json_def Let_def)

lemma call_tool_params_roundtrip [codec]:
  "json_laws api \<Longrightarrow> call_tool_params_ok api v \<Longrightarrow> call_tool_params_from_json api (call_tool_params_to_json api v) = Inr v"
  by (cases v) (simp add: call_tool_params_to_json_def call_tool_params_from_json_def call_tool_params_ok_def Let_def codec)

record 'j CallToolResult =
  call_tool_result_content :: "'j ContentBlock list"
  call_tool_result_isError :: "bool option"
  call_tool_result_meta :: "'j option"
  call_tool_result_structuredContent :: "'j option"

definition call_tool_result_to_json :: "'j JsonApi \<Rightarrow> 'j CallToolResult \<Rightarrow> 'j" where
  "call_tool_result_to_json api v =
     (let j = j_put api (j_empty_object api) ''content'' (put_list api (content_block_to_json api) (call_tool_result_content v));
          j = put_optional api (j_of_bool api) j ''isError'' (call_tool_result_isError v);
          j = put_optional api put_json j ''_meta'' (call_tool_result_meta v);
          j = put_optional api put_json j ''structuredContent'' (call_tool_result_structuredContent v)
      in j)"

definition call_tool_result_from_json :: "'j JsonApi \<Rightarrow> 'j \<Rightarrow> DecodeError + 'j CallToolResult" where
  "call_tool_result_from_json api j =
     bindE (get_member api (get_list api (content_block_from_json api)) j ''content'') (\<lambda>content'.
     bindE (get_optional api (j_bool api) j ''isError'') (\<lambda>isError'.
     bindE (get_optional api get_json j ''_meta'') (\<lambda>meta'.
     bindE (get_optional api get_json j ''structuredContent'') (\<lambda>structuredContent'.
     Inr \<lparr>call_tool_result_content = content', call_tool_result_isError = isError', call_tool_result_meta = meta', call_tool_result_structuredContent = structuredContent'\<rparr>))))"

definition call_tool_result_ok :: "'j JsonApi \<Rightarrow> 'j CallToolResult \<Rightarrow> bool" where
  "call_tool_result_ok api v \<longleftrightarrow> (\<forall>y \<in> set (call_tool_result_content v). content_block_ok api y)
     \<and> (\<forall>y \<in> set_option (call_tool_result_meta v). \<not> j_is_null api y)
     \<and> (\<forall>y \<in> set_option (call_tool_result_structuredContent v). \<not> j_is_null api y)"

lemma call_tool_result_object [codec]: "json_laws api \<Longrightarrow> j_is_object api (call_tool_result_to_json api v)"
  by (simp add: call_tool_result_to_json_def Let_def)

lemma call_tool_result_roundtrip [codec]:
  "json_laws api \<Longrightarrow> call_tool_result_ok api v \<Longrightarrow> call_tool_result_from_json api (call_tool_result_to_json api v) = Inr v"
  by (cases v) (simp add: call_tool_result_to_json_def call_tool_result_from_json_def call_tool_result_ok_def Let_def codec)

record 'j CallToolRequest =
  call_tool_request_method :: string
  call_tool_request_params :: "'j CallToolParams"

definition call_tool_request_to_json :: "'j JsonApi \<Rightarrow> 'j CallToolRequest \<Rightarrow> 'j" where
  "call_tool_request_to_json api v =
     (let j = j_put api (j_empty_object api) ''method'' (j_of_string api (call_tool_request_method v));
          j = j_put api j ''params'' (call_tool_params_to_json api (call_tool_request_params v))
      in j)"

definition call_tool_request_from_json :: "'j JsonApi \<Rightarrow> 'j \<Rightarrow> DecodeError + 'j CallToolRequest" where
  "call_tool_request_from_json api j =
     bindE (get_member api (j_string api) j ''method'') (\<lambda>method'.
     bindE (get_member api (call_tool_params_from_json api) j ''params'') (\<lambda>params'.
     Inr \<lparr>call_tool_request_method = method', call_tool_request_params = params'\<rparr>))"

definition call_tool_request_ok :: "'j JsonApi \<Rightarrow> 'j CallToolRequest \<Rightarrow> bool" where
  "call_tool_request_ok api v \<longleftrightarrow> call_tool_params_ok api (call_tool_request_params v)"

lemma call_tool_request_object [codec]: "json_laws api \<Longrightarrow> j_is_object api (call_tool_request_to_json api v)"
  by (simp add: call_tool_request_to_json_def Let_def)

lemma call_tool_request_roundtrip [codec]:
  "json_laws api \<Longrightarrow> call_tool_request_ok api v \<Longrightarrow> call_tool_request_from_json api (call_tool_request_to_json api v) = Inr v"
  by (cases v) (simp add: call_tool_request_to_json_def call_tool_request_from_json_def call_tool_request_ok_def Let_def codec)

record ListToolsRequestParams =
  list_tools_request_params_cursor :: "string option"

definition list_tools_request_params_to_json :: "'j JsonApi \<Rightarrow> ListToolsRequestParams \<Rightarrow> 'j" where
  "list_tools_request_params_to_json api v =
     put_optional api (j_of_string api) (j_empty_object api) ''cursor'' (list_tools_request_params_cursor v)"

definition list_tools_request_params_from_json :: "'j JsonApi \<Rightarrow> 'j \<Rightarrow> DecodeError + ListToolsRequestParams" where
  "list_tools_request_params_from_json api j =
     bindE (get_optional api (j_string api) j ''cursor'') (\<lambda>cursor'.
     Inr \<lparr>list_tools_request_params_cursor = cursor'\<rparr>)"

lemma list_tools_request_params_object [codec]: "json_laws api \<Longrightarrow> j_is_object api (list_tools_request_params_to_json api v)"
  by (simp add: list_tools_request_params_to_json_def Let_def)

lemma list_tools_request_params_roundtrip [codec]:
  "json_laws api \<Longrightarrow> list_tools_request_params_from_json api (list_tools_request_params_to_json api v) = Inr v"
  by (cases v) (simp add: list_tools_request_params_to_json_def list_tools_request_params_from_json_def Let_def codec)

record ListToolsRequest =
  list_tools_request_method :: string
  list_tools_request_params :: "ListToolsRequestParams option"

definition list_tools_request_to_json :: "'j JsonApi \<Rightarrow> ListToolsRequest \<Rightarrow> 'j" where
  "list_tools_request_to_json api v =
     (let j = j_put api (j_empty_object api) ''method'' (j_of_string api (list_tools_request_method v));
          j = put_optional api (list_tools_request_params_to_json api) j ''params'' (list_tools_request_params v)
      in j)"

definition list_tools_request_from_json :: "'j JsonApi \<Rightarrow> 'j \<Rightarrow> DecodeError + ListToolsRequest" where
  "list_tools_request_from_json api j =
     bindE (get_member api (j_string api) j ''method'') (\<lambda>method'.
     bindE (get_if_present api (list_tools_request_params_from_json api) j ''params'') (\<lambda>params'.
     Inr \<lparr>list_tools_request_method = method', list_tools_request_params = params'\<rparr>))"

lemma list_tools_request_object [codec]: "json_laws api \<Longrightarrow> j_is_object api (list_tools_request_to_json api v)"
  by (simp add: list_tools_request_to_json_def Let_def)

lemma list_tools_request_roundtrip [codec]:
  "json_laws api \<Longrightarrow> list_tools_request_from_json api (list_tools_request_to_json api v) = Inr v"
  by (cases v) (simp add: list_tools_request_to_json_def list_tools_request_from_json_def Let_def codec)

record 'j ListToolsResult =
  list_tools_result_tools :: "'j Tool list"
  list_tools_result_nextCursor :: "string option"
  list_tools_result_meta :: "'j option"

definition list_tools_result_to_json :: "'j JsonApi \<Rightarrow> 'j ListToolsResult \<Rightarrow> 'j" where
  "list_tools_result_to_json api v =
     (let j = j_put api (j_empty_object api) ''tools'' (put_list api (tool_to_json api) (list_tools_result_tools v));
          j = put_optional api (j_of_string api) j ''nextCursor'' (list_tools_result_nextCursor v);
          j = put_optional api put_json j ''_meta'' (list_tools_result_meta v)
      in j)"

definition list_tools_result_from_json :: "'j JsonApi \<Rightarrow> 'j \<Rightarrow> DecodeError + 'j ListToolsResult" where
  "list_tools_result_from_json api j =
     bindE (get_member api (get_list api (tool_from_json api)) j ''tools'') (\<lambda>tools'.
     bindE (get_optional api (j_string api) j ''nextCursor'') (\<lambda>nextCursor'.
     bindE (get_if_present api get_json j ''_meta'') (\<lambda>meta'.
     Inr \<lparr>list_tools_result_tools = tools', list_tools_result_nextCursor = nextCursor', list_tools_result_meta = meta'\<rparr>)))"

definition list_tools_result_ok :: "'j JsonApi \<Rightarrow> 'j ListToolsResult \<Rightarrow> bool" where
  "list_tools_result_ok api v \<longleftrightarrow> (\<forall>y \<in> set (list_tools_result_tools v). tool_ok api y)"

lemma list_tools_result_object [codec]: "json_laws api \<Longrightarrow> j_is_object api (list_tools_result_to_json api v)"
  by (simp add: list_tools_result_to_json_def Let_def)

lemma list_tools_result_roundtrip [codec]:
  "json_laws api \<Longrightarrow> list_tools_result_ok api v \<Longrightarrow> list_tools_result_from_json api (list_tools_result_to_json api v) = Inr v"
  by (cases v) (simp add: list_tools_result_to_json_def list_tools_result_from_json_def list_tools_result_ok_def Let_def codec)

subsection \<open>Results made by handlers\<close>

definition make_tool_text_result :: "string \<Rightarrow> 'j CallToolResult" where
  "make_tool_text_result text =
     \<lparr>call_tool_result_content = [Text_block \<lparr>text_content_type = ''text'', text_content_text = text\<rparr>],
      call_tool_result_isError = None, call_tool_result_meta = None, call_tool_result_structuredContent = None\<rparr>"

definition make_tool_error_result :: "string \<Rightarrow> 'j CallToolResult" where
  "make_tool_error_result message = (make_tool_text_result message)\<lparr>call_tool_result_isError := Some True\<rparr>"

definition make_tool_structured_result :: "'j JsonApi \<Rightarrow> 'j \<Rightarrow> string option \<Rightarrow> DecodeError + 'j CallToolResult" where
  "make_tool_structured_result api structured text =
     (if \<not> j_is_object api structured then Inl (Bad_value ''structuredContent must be a JSON object'')
      else Inr ((make_tool_text_result (case text of None \<Rightarrow> j_dump api structured | Some t \<Rightarrow> t))
        \<lparr>call_tool_result_structuredContent := Some structured\<rparr>))"

lemma made_results_ok [codec]:
  "call_tool_result_ok api (make_tool_text_result t)"
  "call_tool_result_ok api (make_tool_error_result t)"
  "json_laws api \<Longrightarrow> make_tool_structured_result api s text = Inr r \<Longrightarrow> call_tool_result_ok api r"
  by (auto simp: make_tool_text_result_def make_tool_error_result_def make_tool_structured_result_def call_tool_result_ok_def
    content_block_ok_def text_content_ok_def split: if_splits)

text \<open>The blocks of a result that are text.\<close>

definition result_texts :: "'j CallToolResult \<Rightarrow> string list" where
  "result_texts r = concat (map (\<lambda>b. case b of Text_block t \<Rightarrow> [text_content_text t] | _ \<Rightarrow> []) (call_tool_result_content r))"



subsection \<open>A null is no value\<close>

definition tool_optional_members :: "string list" where
  "tool_optional_members = [''description'', ''_meta'', ''annotations'', ''outputSchema'', ''title'', ''icons'', ''execution'']"

lemma get_member_other:
  "json_laws api \<Longrightarrow> j_is_object api j \<Longrightarrow> k \<noteq> k' \<Longrightarrow> get_member api getter j k = Inr x \<Longrightarrow> get_member api getter (j_put api j k' v) k = Inr x"
proof -
  assume a: "json_laws api" "j_is_object api j" "k \<noteq> k'" "get_member api getter j k = Inr x"
  then obtain w where "j_find api j k = Some w"
    using get_member_missing [of api j k getter] by (cases "j_find api j k") auto
  with a show ?thesis by (simp add: get_member_run)
qed

lemma get_optional_null:
  "json_laws api \<Longrightarrow> j_is_object api j \<Longrightarrow> j_find api j k' = None \<Longrightarrow>
     get_optional api getter (j_put api j k' (j_null api)) k = get_optional api getter j k"
  by (cases "k' = k") (auto simp: get_optional_run decode_optional_def)

text \<open>For the optional members of a tool a null is the same as absence: a tool that decodes still decodes, and to
  the same tool, when any of its absent optional members is sent as null.\<close>

theorem tool_null_is_absent:
  assumes "json_laws api" and "j_is_object api j" and "tool_from_json api j = Inr t"
    and "k \<in> set tool_optional_members" and "j_find api j k = None"
  shows "tool_from_json api (j_put api j k (j_null api)) = Inr t"
proof -
  have k: "''name'' \<noteq> k" "''inputSchema'' \<noteq> k" using assms(4) by (auto simp: tool_optional_members_def)
  show ?thesis
    using assms(3) get_member_other [OF assms(1,2) k(1)] get_member_other [OF assms(1,2) k(2)]
    by (auto simp: tool_from_json_def get_optional_null [OF assms(1,2,5)])
qed

theorem tool_null_is_absent_witness:
  "\<exists>t. tool_from_json tree_api (j_put tree_api (T_object [(''name'', T_string ''t''), (''inputSchema'', T_object [])]) ''title'' T_null) = Inr t"
proof -
  let ?j = "T_object [(''name'', T_string ''t''), (''inputSchema'', T_object [])]"
  obtain t where t: "tool_from_json tree_api ?j = Inr t"
    by (simp add: tool_from_json_def get_member_def get_optional_def has_json_value_def get_json_def tree_api_def)
  have "j_is_object tree_api ?j" "j_find tree_api ?j ''title'' = None" "j_null tree_api = T_null" by (simp_all add: tree_api_def)
  with tool_null_is_absent [OF tree_api_laws _ t, of "''title''"] show ?thesis by (simp add: tool_optional_members_def)
qed

end
