(* ===== verification/ServerTools.thy ===== *)
theory ServerTools
  imports ServerEnvelope ProtoTools
begin

text \<open>
  Tools on the server (server/server.cpp): registration and the checks of schemas, the guarded
  handler, middleware, the normalization and validation of results. JSON Schema compilation and
  validation (protocol/schema.cpp, on a third-party validator) are the parameter \<open>SchemaApi\<close>. A
  handler of the application is a function of its argument and of a world of the application's own,
  which it may change; it is run as one step.
\<close>

subsection \<open>Handlers and exceptions\<close>

text \<open>
  \<open>InvalidParamsError\<close>, any other \<open>std::exception\<close> with its \<open>what()\<close>, \<open>MiddlewareRejection\<close> (which is
  one, too), and a value thrown that is no \<open>std::exception\<close>.
\<close>

datatype Exception = Invalid_params_error string | Std_exception string | Rejection string | Foreign_exception

datatype 'j Reply = Value 'j | Raised Exception

definition exception_what :: "Exception \<Rightarrow> string" where
  "exception_what e = (case e of Invalid_params_error t \<Rightarrow> t | Std_exception t \<Rightarrow> t | Rejection t \<Rightarrow> t | Foreign_exception \<Rightarrow> [])"

type_synonym ('j, 'w) Handler = "'j \<Rightarrow> 'w \<Rightarrow> 'j Reply \<times> 'w"
type_synonym ('j, 'w) Middleware = "('j, 'w) Handler \<Rightarrow> ('j, 'w) Handler"

definition then_reply :: "'j Reply \<times> 'w \<Rightarrow> ('j \<Rightarrow> 'w \<Rightarrow> 'j Reply \<times> 'w) \<Rightarrow> 'j Reply \<times> 'w" where
  "then_reply p k = (case p of (Value x, w) \<Rightarrow> k x w | (Raised e, w) \<Rightarrow> (Raised e, w))"

text \<open>\<open>std::ranges::reverse_view\<close>: the last middleware is wrapped around the handler first.\<close>

fun wrap_handlers :: "('j, 'w) Middleware list \<Rightarrow> ('j, 'w) Handler \<Rightarrow> ('j, 'w) Handler" where
  "wrap_handlers [] handler = handler"
| "wrap_handlers (mw # mws) handler = wrap_handlers mws (mw handler)"

definition build_middleware_chain :: "('j, 'w) Middleware list \<Rightarrow> ('j, 'w) Handler \<Rightarrow> ('j, 'w) Handler" where
  "build_middleware_chain middlewares final_handler = wrap_handlers (rev middlewares) final_handler"

subsection \<open>Schemas\<close>

datatype SchemaCategory = Invalid_schema | Unsupported_dialect | Unresolved_ref

record SchemaError =
  se_category :: SchemaCategory
  se_what :: string

record SchemaViolation =
  sv_instance_path :: string
  sv_message :: string

record ValidationResult =
  vr_valid :: bool
  vr_violations :: "SchemaViolation list"

record ('j, 's) SchemaApi =
  sa_compile :: "'j \<Rightarrow> SchemaError + 's"
  sa_validate :: "'s \<Rightarrow> 'j \<Rightarrow> ValidationResult"

fun violations_text :: "SchemaViolation list \<Rightarrow> string" where
  "violations_text [] = []"
| "violations_text (v # vs) =
     (if sv_instance_path v = [] then [] else sv_instance_path v @ '': '') @ sv_message v
     @ (if vs = [] then [] else ''; '' @ violations_text vs)"

definition check_structured_content :: "'j JsonApi \<Rightarrow> ('j, 's) SchemaApi \<Rightarrow> 's \<Rightarrow> string \<Rightarrow> 'j \<Rightarrow> string option" where
  "check_structured_content api sa schema name result =
     (case j_find api result ''structuredContent'' of
        None \<Rightarrow> None
      | Some content \<Rightarrow>
          (let v = sa_validate sa schema content in
           if vr_valid v then None
           else Some (''Tool '' @ [CHR 0x27] @ name @ [CHR 0x27]
             @ '' returned structuredContent that does not conform to its outputSchema: '' @ violations_text (vr_violations v))))"

definition argument_rejection :: "'j JsonApi \<Rightarrow> ('j, 's) SchemaApi \<Rightarrow> 's \<Rightarrow> 'j \<Rightarrow> 'j option" where
  "argument_rejection api sa schema arguments =
     (let r = sa_validate sa schema arguments in
      if vr_valid r then None
      else Some (call_tool_result_to_json api (make_tool_error_result (''Invalid arguments: '' @ violations_text (vr_violations r)))))"

definition refuse_schema :: "'j Tool \<Rightarrow> SchemaCategory \<Rightarrow> string \<Rightarrow> string \<Rightarrow> SchemaError" where
  "refuse_schema tool category field problem =
     \<lparr>se_category = category,
      se_what = ''Tool '' @ [CHR 0x27] @ sanitize_for_diagnostics (tool_name tool) @ [CHR 0x27] @ '' '' @ field @ '': '' @ problem\<rparr>"

definition compile_schema :: "'j JsonApi \<Rightarrow> ('j, 's) SchemaApi \<Rightarrow> 'j Tool \<Rightarrow> 'j \<Rightarrow> string \<Rightarrow> SchemaError + 's" where
  "compile_schema api sa tool schema field =
     (if \<not> j_is_object api schema then Inl (refuse_schema tool Invalid_schema field ''must be a JSON object'')
      else (case sa_compile sa schema of
              Inl e \<Rightarrow> Inl (refuse_schema tool (se_category e) field (se_what e))
            | Inr s \<Rightarrow> Inr s))"

record 's CompiledToolSchemas =
  cs_input :: 's
  cs_output :: "'s option"

definition compile_tool_schemas :: "'j JsonApi \<Rightarrow> ('j, 's) SchemaApi \<Rightarrow> 'j Tool \<Rightarrow> SchemaError + 's CompiledToolSchemas" where
  "compile_tool_schemas api sa tool =
     bindE (compile_schema api sa tool (tool_inputSchema tool) ''inputSchema'') (\<lambda>input.
     if \<not> member_is api (tool_inputSchema tool) ''type'' (\<lambda>t. is_text api t ''object'')
     then Inl (refuse_schema tool Invalid_schema ''inputSchema'' (''must declare '' @ quoted ''type'' @ '': '' @ quoted ''object''))
     else (case tool_outputSchema tool of
             None \<Rightarrow> Inr \<lparr>cs_input = input, cs_output = None\<rparr>
           | Some schema \<Rightarrow>
               bindE (compile_schema api sa tool schema ''outputSchema'') (\<lambda>output.
                 Inr \<lparr>cs_input = input, cs_output = Some output\<rparr>)))"

subsection \<open>Results\<close>

definition validate_call_tool_result :: "'j JsonApi \<Rightarrow> 'j \<Rightarrow> DecodeError + unit" where
  "validate_call_tool_result api result =
     (if \<not> j_is_object api result \<or> \<not> j_contains api result ''content''
      then Inl (Bad_value ''Raw tool result must be a CallToolResult object with content'')
      else if member_is api result ''structuredContent'' (\<lambda>c. \<not> j_is_object api c)
      then Inl (Bad_value ''CallToolResult structuredContent must be a JSON object'')
      else if member_is api result ''_meta'' (\<lambda>m. \<not> j_is_object api m)
      then Inl (Bad_value ''CallToolResult _meta must be a JSON object'')
      else bindE (call_tool_result_from_json api result) (\<lambda>r. Inr ()))"

definition call_tool_result_members :: "string list" where
  "call_tool_result_members = [''content'', ''structuredContent'', ''isError'', ''_meta'']"

text \<open>\<open>items()\<close> and \<open>size()\<close> of an object are those of its map.\<close>

definition is_serialized_call_tool_result :: "'j JsonApi \<Rightarrow> 'j \<Rightarrow> bool" where
  "is_serialized_call_tool_result api result =
     (if \<not> j_is_object api result \<or> \<not> member_is api result ''content'' (j_is_array api) then False
      else (case j_map api result of
              Inl e \<Rightarrow> False
            | Inr items \<Rightarrow>
                if \<not> list_all (\<lambda>(k, v). k \<in> set call_tool_result_members) items then False
                else if member_is api result ''content'' (\<lambda>c. j_list api c = Inr []) \<and> length items = 1 then False
                else (case validate_call_tool_result api result of Inl e \<Rightarrow> False | Inr u \<Rightarrow> True)))"

definition normalize_structured_tool_result :: "'j JsonApi \<Rightarrow> 'j \<Rightarrow> DecodeError + 'j" where
  "normalize_structured_tool_result api result =
     (if j_is_object api result then
        (if is_serialized_call_tool_result api result then Inr result
         else bindE (make_tool_structured_result api result None) (\<lambda>r. Inr (call_tool_result_to_json api r)))
      else if j_is_string api result then
        bindE (j_string api result) (\<lambda>t. Inr (call_tool_result_to_json api (make_tool_text_result t)))
      else Inr (call_tool_result_to_json api (make_tool_text_result (j_dump api result))))"

subsection \<open>Calls\<close>

datatype ToolResultMode = Normalize | Validated

record ('j, 's, 'w) ToolRegistration =
  tr_handler :: "('j, 'w) Handler"
  tr_result_mode :: ToolResultMode
  tr_schemas :: "'s CompiledToolSchemas"

record ToolValidationOptions =
  tv_arguments :: bool
  tv_structured_content :: bool

text \<open>The world of the handlers with the server's two counters.\<close>

record 'w World =
  wd_app :: 'w
  wd_argument_rejections :: "64 word"
  wd_structured_content_rejections :: "64 word"

definition in_world :: "('j, 'w) Handler \<Rightarrow> ('j, 'w World) Handler" where
  "in_world h x w = (case h x (wd_app w) of (r, a) \<Rightarrow> (r, w\<lparr>wd_app := a\<rparr>))"

record ('j, 's, 'w) Tools =
  ts_tools :: "'j Tool list"
  ts_handlers :: "string \<Rightarrow> ('j, 's, 'w) ToolRegistration option"
  ts_validation :: ToolValidationOptions
  ts_middlewares :: "('j, 'w World) Middleware list"

definition register_tool :: "'j JsonApi \<Rightarrow> ('j, 's) SchemaApi \<Rightarrow> 'j Tool \<Rightarrow> string \<Rightarrow> ('j, 'w) Handler \<Rightarrow> ToolResultMode
    \<Rightarrow> ('j, 's, 'w) Tools \<Rightarrow> string + ('j, 's, 'w) Tools" where
  "register_tool api sa tool name handler mode ts =
     (if ts_handlers ts name \<noteq> None then Inl (''Duplicate tool registration: '' @ name)
      else (case compile_tool_schemas api sa tool of
              Inl e \<Rightarrow> Inl (se_what e)
            | Inr schemas \<Rightarrow>
                Inr (ts\<lparr>ts_tools := ts_tools ts @ [tool],
                  ts_handlers := (ts_handlers ts)(name \<mapsto> \<lparr>tr_handler = handler, tr_result_mode = mode, tr_schemas = schemas\<rparr>)\<rparr>)))"

definition has_tool_output_schema :: "('j, 's, 'w) Tools \<Rightarrow> string \<Rightarrow> bool" where
  "has_tool_output_schema ts name =
     (case find (\<lambda>t. tool_name t = name) (ts_tools ts) of None \<Rightarrow> False | Some t \<Rightarrow> tool_outputSchema t \<noteq> None)"

definition error_result_json :: "'j JsonApi \<Rightarrow> string \<Rightarrow> 'j" where
  "error_result_json api message = call_tool_result_to_json api (make_tool_error_result message)"

definition guarded_handler :: "'j JsonApi \<Rightarrow> ('j, 's) SchemaApi \<Rightarrow> bool \<Rightarrow> ('j, 's, 'w) ToolRegistration \<Rightarrow> ('j, 'w World) Handler" where
  "guarded_handler api sa validate reg arguments w =
     (case (if validate then argument_rejection api sa (cs_input (tr_schemas reg)) arguments else None) of
        Some rejection \<Rightarrow> (Value rejection, w\<lparr>wd_argument_rejections := wd_argument_rejections w + 1\<rparr>)
      | None \<Rightarrow>
          (case in_world (tr_handler reg) arguments w of
             (Value r, w') \<Rightarrow> (Value r, w')
           | (Raised e, w') \<Rightarrow>
               (Value (error_result_json api
                  (if e = Foreign_exception then ''Tool handler failed'' else sanitize_for_diagnostics (exception_what e))), w')))"

definition decode_reply :: "DecodeError + 'a \<Rightarrow> ('a \<Rightarrow> 'j Reply) \<Rightarrow> 'j Reply" where
  "decode_reply d k = (case d of Inl e \<Rightarrow> Raised (Std_exception (what_text e)) | Inr x \<Rightarrow> k x)"

text \<open>The value of the tool before its checks: the guarded handler, behind the middleware where there is any.\<close>

definition unwrap_params :: "'j JsonApi \<Rightarrow> ('j, 'v) Handler \<Rightarrow> ('j, 'v) Handler" where
  "unwrap_params api handler full w =
     (case call_tool_params_from_json api full of
        Inl e \<Rightarrow> (Raised (Std_exception (what_text e)), w)
      | Inr p \<Rightarrow> handler (call_tool_params_arguments p) w)"

definition run_tool :: "'j JsonApi \<Rightarrow> ('j, 's) SchemaApi \<Rightarrow> ('j, 's, 'w) Tools \<Rightarrow> ('j, 's, 'w) ToolRegistration
    \<Rightarrow> 'j CallToolParams \<Rightarrow> 'w World \<Rightarrow> 'j Reply \<times> 'w World" where
  "run_tool api sa ts reg params w =
     (let guarded = guarded_handler api sa (tv_arguments (ts_validation ts)) reg in
      if ts_middlewares ts = [] then guarded (call_tool_params_arguments params) w
      else (case build_middleware_chain (ts_middlewares ts) (unwrap_params api guarded)
                   (call_tool_params_to_json api params) w of
              (Raised (Rejection t), w') \<Rightarrow> (Value (error_result_json api t), w')
            | r \<Rightarrow> r))"

text \<open>\<open>value("isError", false)\<close> throws where the member is not a boolean.\<close>

definition is_error_result :: "'j JsonApi \<Rightarrow> 'j \<Rightarrow> DecodeError + bool" where
  "is_error_result api result = (case j_find api result ''isError'' of None \<Rightarrow> Inr False | Some v \<Rightarrow> j_bool api v)"

definition shape_result :: "'j JsonApi \<Rightarrow> ToolResultMode \<Rightarrow> 'j \<Rightarrow> DecodeError + 'j" where
  "shape_result api mode r =
     (case mode of Validated \<Rightarrow> bindE (validate_call_tool_result api r) (\<lambda>u. Inr r)
      | Normalize \<Rightarrow> normalize_structured_tool_result api r)"

definition finish_tool :: "'j JsonApi \<Rightarrow> ('j, 's) SchemaApi \<Rightarrow> ('j, 's, 'w) Tools \<Rightarrow> ('j, 's, 'w) ToolRegistration
    \<Rightarrow> string \<Rightarrow> 'j \<Rightarrow> 'w World \<Rightarrow> 'j Reply \<times> 'w World" where
  "finish_tool api sa ts reg name r w =
     (case bindE (shape_result api (tr_result_mode reg) r) (\<lambda>r'. bindE (is_error_result api r') (\<lambda>e. Inr (r', e))) of
        Inl e \<Rightarrow> (Raised (Std_exception (what_text e)), w)
      | Inr (r', is_error) \<Rightarrow>
          if has_tool_output_schema ts name \<and> \<not> is_error \<and> \<not> j_contains api r' ''structuredContent''
          then (Raised (Std_exception (''Tool with outputSchema must return structuredContent: '' @ name)), w)
          else
            (case (if \<not> is_error \<and> tv_structured_content (ts_validation ts) then cs_output (tr_schemas reg) else None) of
               None \<Rightarrow> (Value r', w)
             | Some schema \<Rightarrow>
                 (case check_structured_content api sa schema name r' of
                    None \<Rightarrow> (Value r', w)
                  | Some t \<Rightarrow> (Raised (Std_exception t),
                      w\<lparr>wd_structured_content_rejections := wd_structured_content_rejections w + 1\<rparr>))))"

definition invoke_tool :: "'j JsonApi \<Rightarrow> ('j, 's) SchemaApi \<Rightarrow> ('j, 's, 'w) Tools \<Rightarrow> 'j CallToolParams
    \<Rightarrow> 'w World \<Rightarrow> 'j Reply \<times> 'w World" where
  "invoke_tool api sa ts params w =
     (case ts_handlers ts (call_tool_params_name params) of
        None \<Rightarrow> (Raised (Std_exception (''Unknown tool: '' @ sanitize_for_diagnostics (call_tool_params_name params))), w)
      | Some reg \<Rightarrow>
          (case run_tool api sa ts reg params w of
             (Raised e, w') \<Rightarrow> (Raised e, w')
           | (Value r, w') \<Rightarrow> finish_tool api sa ts reg (call_tool_params_name params) r w'))"


subsection \<open>Results are results of the protocol\<close>

lemma encoded_result_valid:
  assumes "json_laws api" "call_tool_result_ok api r" "call_tool_result_meta r = None"
    and "\<forall>c \<in> set_option (call_tool_result_structuredContent r). j_is_object api c"
  shows "validate_call_tool_result api (call_tool_result_to_json api r) = Inr ()"
proof -
  let ?j = "call_tool_result_to_json api r"
  have "j_is_object api ?j" "j_contains api ?j ''content''" "\<not> member_is api ?j ''_meta'' (\<lambda>m. \<not> j_is_object api m)"
    "\<not> member_is api ?j ''structuredContent'' (\<lambda>c. \<not> j_is_object api c)"
    using assms by (simp_all add: call_tool_result_to_json_def Let_def put_json_def)
  with assms call_tool_result_roundtrip [OF assms(1,2)] show ?thesis by (simp add: validate_call_tool_result_def)
qed

lemma made_members [simp]:
  "call_tool_result_meta (make_tool_text_result t) = None" "call_tool_result_structuredContent (make_tool_text_result t) = None"
  "call_tool_result_isError (make_tool_text_result t) = None"
  "call_tool_result_meta (make_tool_error_result t) = None" "call_tool_result_structuredContent (make_tool_error_result t) = None"
  "call_tool_result_isError (make_tool_error_result t) = Some True"
  by (simp_all add: make_tool_text_result_def make_tool_error_result_def)

lemma shaped_result_valid:
  assumes "json_laws api" "shape_result api mode r = Inr r'"
  shows "validate_call_tool_result api r' = Inr ()"
proof (cases mode)
  case Validated
  with assms(2) show ?thesis by (auto simp: shape_result_def)
next
  case Normalize
  with assms(2) consider "r' = r" "is_serialized_call_tool_result api r"
    | s where "make_tool_structured_result api r None = Inr s" "r' = call_tool_result_to_json api s"
    | t where "r' = call_tool_result_to_json api (make_tool_text_result t)"
    by (auto simp: shape_result_def normalize_structured_tool_result_def split: if_splits)
  then show ?thesis
  proof cases
    case 1
    then show ?thesis by (auto simp: is_serialized_call_tool_result_def split: if_splits sum.splits)
  next
    case 2
    then have "call_tool_result_meta s = None" "\<forall>c \<in> set_option (call_tool_result_structuredContent s). j_is_object api c"
      by (auto simp: make_tool_structured_result_def split: if_splits)
    with 2 made_results_ok(3) [OF assms(1) 2(1)] show ?thesis using encoded_result_valid [OF assms(1)] by simp
  next
    case 3
    then show ?thesis using encoded_result_valid [OF assms(1) made_results_ok(1)] by simp
  qed
qed

lemma finish_tool_value:
  assumes "finish_tool api sa ts reg name r w = (Value r', w')"
  shows "\<exists>e. shape_result api (tr_result_mode reg) r = Inr r' \<and> is_error_result api r' = Inr e
    \<and> (\<not> e \<longrightarrow> has_tool_output_schema ts name \<longrightarrow> j_contains api r' ''structuredContent'')
    \<and> (\<not> e \<longrightarrow> tv_structured_content (ts_validation ts) \<longrightarrow>
        (\<forall>s \<in> set_option (cs_output (tr_schemas reg)). check_structured_content api sa s name r' = None))"
proof -
  obtain s e where s: "shape_result api (tr_result_mode reg) r = Inr s" "is_error_result api s = Inr e"
    using assms by (auto simp: finish_tool_def split: sum.splits)
  with assms have "r' = s" "\<not> e \<longrightarrow> has_tool_output_schema ts name \<longrightarrow> j_contains api r' ''structuredContent''"
    "\<not> e \<longrightarrow> tv_structured_content (ts_validation ts) \<longrightarrow>
        (\<forall>x \<in> set_option (cs_output (tr_schemas reg)). check_structured_content api sa x name r' = None)"
    by (auto simp: finish_tool_def elem_set split: if_splits option.splits)
  with s show ?thesis by blast
qed

lemma invoke_tool_value:
  assumes "invoke_tool api sa ts params w = (Value r', w')"
  obtains reg r v where "ts_handlers ts (call_tool_params_name params) = Some reg"
    "finish_tool api sa ts reg (call_tool_params_name params) r v = (Value r', w')"
  using assms by (auto simp: invoke_tool_def split: option.splits prod.splits Reply.splits)

subsection \<open>Registered tools\<close>

text \<open>Each handler belongs to a listed tool whose schemas it carries; the names are distinct.\<close>

definition tools_ok :: "'j JsonApi \<Rightarrow> ('j, 's) SchemaApi \<Rightarrow> ('j, 's, 'w) Tools \<Rightarrow> bool" where
  "tools_ok api sa ts \<longleftrightarrow>
     distinct (map tool_name (ts_tools ts))
   \<and> (\<forall>name. ts_handlers ts name \<noteq> None \<longleftrightarrow> name \<in> set (map tool_name (ts_tools ts)))
   \<and> (\<forall>t \<in> set (ts_tools ts). \<forall>reg. ts_handlers ts (tool_name t) = Some reg \<longrightarrow> compile_tool_schemas api sa t = Inr (tr_schemas reg))"

definition no_tools :: "ToolValidationOptions \<Rightarrow> ('j, 'w World) Middleware list \<Rightarrow> ('j, 's, 'w) Tools" where
  "no_tools options mws = \<lparr>ts_tools = [], ts_handlers = Map.empty, ts_validation = options, ts_middlewares = mws\<rparr>"

lemma no_tools_ok: "tools_ok api sa (no_tools options mws)"
  by (simp add: tools_ok_def no_tools_def)

lemma register_tool_ok:
  assumes "tools_ok api sa ts" "register_tool api sa tool (tool_name tool) handler mode ts = Inr ts'"
  shows "tools_ok api sa ts'"
proof -
  obtain schemas where s: "ts_handlers ts (tool_name tool) = None" "compile_tool_schemas api sa tool = Inr schemas"
    "ts' = ts\<lparr>ts_tools := ts_tools ts @ [tool],
      ts_handlers := (ts_handlers ts)(tool_name tool \<mapsto> \<lparr>tr_handler = handler, tr_result_mode = mode, tr_schemas = schemas\<rparr>)\<rparr>"
    using assms(2) by (auto simp: register_tool_def split: if_splits sum.splits)
  then have "tool_name tool \<notin> set (map tool_name (ts_tools ts))" using assms(1) by (metis tools_ok_def)
  then have n: "\<And>t. t \<in> set (ts_tools ts) \<Longrightarrow> tool_name t \<noteq> tool_name tool" by (metis image_eqI set_map)
  then have "tool_name tool \<notin> tool_name ` set (ts_tools ts)" by (metis imageE)
  with n show ?thesis using assms(1) s by (auto simp: tools_ok_def)
qed

lemma find_distinct:
  "distinct (map f xs) \<Longrightarrow> x \<in> set xs \<Longrightarrow> find (\<lambda>y. f y = f x) xs = Some x"
  by (induction xs) (auto simp: image_iff)

lemma compiled_output:
  "compile_tool_schemas api sa t = Inr c \<Longrightarrow> (cs_output c = None \<longleftrightarrow> tool_outputSchema t = None)"
  by (auto simp: compile_tool_schemas_def split: if_splits option.splits)

lemma output_schema_known:
  assumes "tools_ok api sa ts" "ts_handlers ts name = Some reg"
  shows "has_tool_output_schema ts name \<longleftrightarrow> cs_output (tr_schemas reg) \<noteq> None"
proof -
  obtain t where t: "t \<in> set (ts_tools ts)" "tool_name t = name" using assms by (force simp: tools_ok_def)
  then have "compile_tool_schemas api sa t = Inr (tr_schemas reg)" using assms by (auto simp: tools_ok_def)
  moreover have "find (\<lambda>y. tool_name y = name) (ts_tools ts) = Some t"
    using find_distinct [of tool_name "ts_tools ts" t] assms(1) t by (simp add: tools_ok_def)
  ultimately show ?thesis using compiled_output [of api sa t "tr_schemas reg"] by (simp add: has_tool_output_schema_def)
qed

text \<open>Registering a tool refuses a name that is taken and a schema that does not compile, and otherwise keeps the
  tables in step: every handler belongs to exactly one listed tool and carries that tool's own compiled schemas.\<close>

theorem registration_keeps_tools:
  assumes "tools_ok api sa ts"
  shows "case register_tool api sa tool (tool_name tool) handler mode ts of
      Inl t \<Rightarrow> tool_name tool \<in> set (map tool_name (ts_tools ts)) \<or> (\<exists>e. compile_tool_schemas api sa tool = Inl e)
    | Inr ts' \<Rightarrow> tool_name tool \<notin> set (map tool_name (ts_tools ts)) \<and> tools_ok api sa ts' \<and> ts_tools ts' = ts_tools ts @ [tool]"
proof (cases "register_tool api sa tool (tool_name tool) handler mode ts")
  case (Inl t)
  have "tool_name tool \<in> set (map tool_name (ts_tools ts)) \<or> (\<exists>e. compile_tool_schemas api sa tool = Inl e)"
  proof (cases "ts_handlers ts (tool_name tool) = None")
    case True
    with Inl show ?thesis by (auto simp: register_tool_def split: sum.splits)
  next
    case False
    with assms show ?thesis by (metis tools_ok_def)
  qed
  with Inl show ?thesis by simp
next
  case (Inr ts')
  then have "ts_handlers ts (tool_name tool) = None" "ts_tools ts' = ts_tools ts @ [tool]"
    by (auto simp: register_tool_def split: if_splits sum.splits)
  moreover have "tool_name tool \<notin> set (map tool_name (ts_tools ts))" using assms calculation(1) by (metis tools_ok_def)
  ultimately show ?thesis using Inr register_tool_ok [OF assms Inr] by simp
qed

text \<open>C7: What a tool call yields is a result of the protocol: it passes the validation of call results, and unless it
  reports an error, a tool that declares an output schema has structured content, which conforms to that schema when
  the server is asked to check it, whatever the handler and the middleware do.\<close>

theorem tool_result_conforms:
  assumes "json_laws api" and "tools_ok api sa ts" and "invoke_tool api sa ts params w = (Value r, w')"
  shows "validate_call_tool_result api r = Inr ()
    \<and> (\<exists>reg. ts_handlers ts (call_tool_params_name params) = Some reg
      \<and> (case cs_output (tr_schemas reg) of
           None \<Rightarrow> True
         | Some schema \<Rightarrow> is_error_result api r = Inr True
             \<or> (\<exists>c. j_find api r ''structuredContent'' = Some c
                 \<and> (tv_structured_content (ts_validation ts) \<longrightarrow> vr_valid (sa_validate sa schema c)))))"
proof -
  obtain reg s v where reg: "ts_handlers ts (call_tool_params_name params) = Some reg"
    and fin: "finish_tool api sa ts reg (call_tool_params_name params) s v = (Value r, w')"
    by (rule invoke_tool_value [OF assms(3)])
  obtain e where e: "shape_result api (tr_result_mode reg) s = Inr r" "is_error_result api r = Inr e"
    "\<not> e \<longrightarrow> has_tool_output_schema ts (call_tool_params_name params) \<longrightarrow> j_contains api r ''structuredContent''"
    "\<not> e \<longrightarrow> tv_structured_content (ts_validation ts) \<longrightarrow>
        (\<forall>x \<in> set_option (cs_output (tr_schemas reg)). check_structured_content api sa x (call_tool_params_name params) r = None)"
    using finish_tool_value [OF fin] by blast
  have "case cs_output (tr_schemas reg) of None \<Rightarrow> True
      | Some schema \<Rightarrow> is_error_result api r = Inr True
          \<or> (\<exists>c. j_find api r ''structuredContent'' = Some c
              \<and> (tv_structured_content (ts_validation ts) \<longrightarrow> vr_valid (sa_validate sa schema c)))"
  proof (cases "cs_output (tr_schemas reg)")
    case (Some schema)
    then have "has_tool_output_schema ts (call_tool_params_name params)" using output_schema_known [OF assms(2) reg] by simp
    with e(3) have c: "\<not> e \<Longrightarrow> \<exists>c. j_find api r ''structuredContent'' = Some c" by (simp add: j_contains_def)
    show ?thesis
    proof (cases e)
      case True
      with e(2) Some show ?thesis by simp
    next
      case False
      with c obtain c where "j_find api r ''structuredContent'' = Some c" by blast
      moreover have "tv_structured_content (ts_validation ts) \<Longrightarrow> check_structured_content api sa schema (call_tool_params_name params) r = None"
        using e(4) False Some by simp
      ultimately show ?thesis using Some by (auto simp: check_structured_content_def Let_def split: if_splits)
    qed
  qed simp
  with reg shaped_result_valid [OF assms(1) e(1)] show ?thesis by blast
qed


subsection \<open>Middleware\<close>


definition refuse_all :: "(string, bool) Middleware" where
  "refuse_all next x w = (Raised (Rejection ''no''), w)"

definition echo_tool :: "(string, bool) Handler" where
  "echo_tool x w = (Value x, \<not> w)"

definition twice_tool :: "(string, bool) Handler" where
  "twice_tool x w = (Value (x @ x), w)"


subsection \<open>Tools that fail, and arguments that do not fit\<close>

lemma error_result_members:
  assumes "json_laws api"
  shows "is_error_result api (error_result_json api t) = Inr True" "shape_result api Validated (error_result_json api t) = Inr (error_result_json api t)"
    "j_find api (error_result_json api t) ''isError'' = Some (j_of_bool api True)"
proof -
  show f: "j_find api (error_result_json api t) ''isError'' = Some (j_of_bool api True)"
    using assms by (simp add: error_result_json_def call_tool_result_to_json_def Let_def)
  then show "is_error_result api (error_result_json api t) = Inr True" using assms by (simp add: is_error_result_def)
  show "shape_result api Validated (error_result_json api t) = Inr (error_result_json api t)"
    using encoded_result_valid [OF assms made_results_ok(2), of t] by (simp add: shape_result_def error_result_json_def)
qed

lemma error_result_serialized:
  assumes laws: "json_laws api" and items: "json_items api"
  shows "is_serialized_call_tool_result api (error_result_json api t)"
proof -
  let ?j = "error_result_json api t"
  have obj: "j_is_object api ?j" by (simp add: error_result_json_def call_tool_result_object laws)
  obtain m where m: "j_map api ?j = Inr m" "distinct (map fst m)" "\<And>k v. (k, v) \<in> set m \<longleftrightarrow> j_find api ?j k = Some v"
    using items obj unfolding json_items_def by blast
  have find: "j_find api ?j k = Some v \<longleftrightarrow> (k = ''content'' \<and> v = put_list api (content_block_to_json api) (call_tool_result_content (make_tool_error_result t)))
      \<or> (k = ''isError'' \<and> v = j_of_bool api True)" for k v
    using laws by (auto simp: error_result_json_def call_tool_result_to_json_def Let_def)
  have keys: "list_all (\<lambda>(k, v). k \<in> set call_tool_result_members) m"
    using m(3) find by (auto simp: list_all_iff call_tool_result_members_def)
  have c: "j_find api ?j ''content'' = Some (put_list api (content_block_to_json api) (call_tool_result_content (make_tool_error_result t)))"
    by (simp add: find)
  have content: "member_is api ?j ''content'' (j_is_array api)"
    using c laws by (simp add: member_is_def put_list_def)
  have full: "\<not> member_is api ?j ''content'' (\<lambda>c. j_list api c = Inr [])"
    using c laws by (simp add: member_is_def put_list_def make_tool_error_result_def make_tool_text_result_def)
  have "validate_call_tool_result api ?j = Inr ()"
    using encoded_result_valid [OF laws made_results_ok(2), of t] by (simp add: error_result_json_def)
  with obj content m(1) keys full show ?thesis by (simp add: is_serialized_call_tool_result_def)
qed

lemma error_result_kept:
  assumes "json_laws api" "json_items api"
  shows "finish_tool api sa ts reg name (error_result_json api t) w = (Value (error_result_json api t), w)"
proof -
  have obj: "j_is_object api (error_result_json api t)" by (simp add: error_result_json_def call_tool_result_object assms(1))
  have "shape_result api (tr_result_mode reg) (error_result_json api t) = Inr (error_result_json api t)"
    using error_result_members(2) [OF assms(1)] error_result_serialized [OF assms] obj
    by (cases "tr_result_mode reg") (simp_all add: shape_result_def normalize_structured_tool_result_def)
  then show ?thesis by (simp add: finish_tool_def error_result_members(1) [OF assms(1)])
qed


text \<open>C6: A handler is only ever run on arguments that conform to its tool's input schema: replacing it by one that agrees
  with it on those, whatever that does on all others, changes no call, with any middleware in front.\<close>

theorem handler_sees_valid_arguments:
  assumes "tv_arguments (ts_validation ts)" and "ts_handlers ts name = Some reg"
    and "\<forall>x. vr_valid (sa_validate sa (cs_input (tr_schemas reg)) x) \<longrightarrow> handler' x = tr_handler reg x"
  shows "invoke_tool api sa (ts\<lparr>ts_handlers := (ts_handlers ts)(name \<mapsto> reg\<lparr>tr_handler := handler'\<rparr>)\<rparr>) params w = invoke_tool api sa ts params w"
proof (cases "call_tool_params_name params = name")
  case True
  have "guarded_handler api sa True (reg\<lparr>tr_handler := handler'\<rparr>) x v = guarded_handler api sa True reg x v" for x v
    using assms(3) by (simp add: guarded_handler_def argument_rejection_def Let_def in_world_def)
  then have g: "guarded_handler api sa True (reg\<lparr>tr_handler := handler'\<rparr>) = guarded_handler api sa True reg" by blast
  have "run_tool api sa (ts\<lparr>ts_handlers := h\<rparr>) (reg\<lparr>tr_handler := handler'\<rparr>) params w = run_tool api sa ts reg params w" for h
    using assms(1) by (simp add: run_tool_def g Let_def)
  moreover have "finish_tool api sa (ts\<lparr>ts_handlers := h\<rparr>) (reg\<lparr>tr_handler := handler'\<rparr>) n r v = finish_tool api sa ts reg n r v" for h n r v
    by (simp add: finish_tool_def has_tool_output_schema_def split: sum.splits)
  ultimately show ?thesis using True assms(2) by (simp add: invoke_tool_def split: prod.splits Reply.splits)
next
  case False
  have "run_tool api sa (ts\<lparr>ts_handlers := h\<rparr>) q params w = run_tool api sa ts q params w" for h q
    by (simp add: run_tool_def Let_def)
  moreover have "finish_tool api sa (ts\<lparr>ts_handlers := h\<rparr>) q n r v = finish_tool api sa ts q n r v" for h q n r v
    by (simp add: finish_tool_def has_tool_output_schema_def split: sum.splits)
  ultimately show ?thesis using False by (simp add: invoke_tool_def split: option.splits prod.splits Reply.splits)
qed

subsection \<open>A server with one tool\<close>

text \<open>Schemas that accept exactly the objects with a member \<open>n\<close>; a tool that fails, and one that answers.\<close>

definition n_schemas :: "(tree, unit) SchemaApi" where
  "n_schemas = \<lparr>sa_compile = (\<lambda>j. Inr ()), sa_validate = (\<lambda>s j. \<lparr>vr_valid = j_contains tree_api j ''n'', vr_violations = []\<rparr>)\<rparr>"

definition n_tool :: "tree Tool" where
  "n_tool = \<lparr>tool_name = ''t'', tool_description = None, tool_inputSchema = T_object [(''type'', T_string ''object'')],
     tool_meta = None, tool_annotations = None, tool_outputSchema = Some (T_object []), tool_title = None, tool_icons = None, tool_execution = None\<rparr>"

definition n_reg :: "(tree, unit) Handler \<Rightarrow> (tree, unit, unit) ToolRegistration" where
  "n_reg h = \<lparr>tr_handler = h, tr_result_mode = Normalize, tr_schemas = \<lparr>cs_input = (), cs_output = Some ()\<rparr>\<rparr>"

definition n_tools :: "(tree, unit) Handler \<Rightarrow> (tree, unit, unit) Tools" where
  "n_tools h = (no_tools \<lparr>tv_arguments = True, tv_structured_content = True\<rparr> [])
     \<lparr>ts_tools := [n_tool], ts_handlers := [''t'' \<mapsto> n_reg h]\<rparr>"

definition n_params :: "tree \<Rightarrow> tree CallToolParams" where
  "n_params a = \<lparr>call_tool_params_name = ''t'', call_tool_params_arguments = a, call_tool_params_meta = None\<rparr>"

definition new_world :: "unit World" where
  "new_world = \<lparr>wd_app = (), wd_argument_rejections = 0, wd_structured_content_rejections = 0\<rparr>"

lemma n_tool_compiles: "compile_tool_schemas tree_api n_schemas n_tool = Inr \<lparr>cs_input = (), cs_output = Some ()\<rparr>"
  by (simp add: compile_tool_schemas_def compile_schema_def n_schemas_def n_tool_def member_is_def is_text_def tree_api_def)

lemma n_tools_registered:
  "register_tool tree_api n_schemas n_tool (tool_name n_tool) h Normalize (no_tools \<lparr>tv_arguments = True, tv_structured_content = True\<rparr> []) = Inr (n_tools h)"
  using n_tool_compiles by (simp add: register_tool_def no_tools_def n_tools_def n_tool_def n_reg_def)

definition failing_tool :: "(tree, unit) Handler" where
  "failing_tool x w = (Raised (Std_exception ''boom''), w)"

definition counting_tool :: "(tree, unit) Handler" where
  "counting_tool x w = (Value (T_object [(''content'', T_list []), (''structuredContent'', T_object [(''n'', T_int 1)])]), w)"

theorem registration_keeps_tools_witness:
  "tools_ok tree_api n_schemas (n_tools failing_tool) \<and> ts_tools (n_tools failing_tool) = [n_tool]"
  using registration_keeps_tools [where api = tree_api and sa = n_schemas and tool = n_tool and handler = failing_tool and mode = Normalize
      and ts = "no_tools \<lparr>tv_arguments = True, tv_structured_content = True\<rparr> []", OF no_tools_ok]
  by (simp add: n_tools_registered) (simp add: no_tools_def)


lemma counting_tool_answers:
  "invoke_tool tree_api n_schemas (n_tools counting_tool) (n_params (T_object [(''n'', T_int 1)])) new_world
     = (Value (T_object [(''content'', T_list []), (''structuredContent'', T_object [(''n'', T_int 1)])]), new_world)"
proof -
  let ?r = "T_object [(''content'', T_list []), (''structuredContent'', T_object [(''n'', T_int 1)])]"
  have v: "validate_call_tool_result tree_api ?r = Inr ()"
    by (simp add: validate_call_tool_result_def call_tool_result_from_json_def member_is_def j_contains_def
      get_member_def get_list_def get_optional_def get_json_def has_json_value_def tree_api_def)
  have s: "is_serialized_call_tool_result tree_api ?r"
  proof -
    have "j_map tree_api ?r = Inr [(''content'', T_list []), (''structuredContent'', T_object [(''n'', T_int 1)])]"
      "member_is tree_api ?r ''content'' (j_is_array tree_api)" "j_is_object tree_api ?r"
      by (simp_all add: member_is_def tree_api_def)
    with v show ?thesis by (simp add: is_serialized_call_tool_result_def call_tool_result_members_def)
  qed
  have e: "is_error_result tree_api ?r = Inr False" "j_contains tree_api ?r ''structuredContent''" "j_is_object tree_api ?r"
    by (simp_all add: is_error_result_def j_contains_def tree_api_def)
  have c: "check_structured_content tree_api n_schemas u n ?r = None" for u n
    by (simp add: check_structured_content_def n_schemas_def j_contains_def tree_api_def)
  have f: "finish_tool tree_api n_schemas ts (n_reg counting_tool) n ?r w = (Value ?r, w)" for ts n and w :: "unit World"
    using s e c by (simp add: finish_tool_def shape_result_def normalize_structured_tool_result_def n_reg_def split: option.split)
  have g: "guarded_handler tree_api n_schemas True (n_reg counting_tool) (T_object [(''n'', T_int 1)]) new_world = (Value ?r, new_world)"
    by (simp add: guarded_handler_def argument_rejection_def in_world_def counting_tool_def n_reg_def n_schemas_def j_contains_def
      tree_api_def new_world_def)
  show ?thesis using f g by (simp add: invoke_tool_def run_tool_def n_tools_def no_tools_def n_params_def Let_def)
qed

theorem tool_result_conforms_witness:
  "validate_call_tool_result tree_api (T_object [(''content'', T_list []), (''structuredContent'', T_object [(''n'', T_int 1)])]) = Inr ()"
proof -
  have "tools_ok tree_api n_schemas (n_tools counting_tool)"
    by (rule register_tool_ok [OF no_tools_ok n_tools_registered])
  from tool_result_conforms [OF tree_api_laws this counting_tool_answers] show ?thesis by blast
qed

theorem handler_sees_valid_arguments_witness:
  "invoke_tool tree_api n_schemas ((n_tools counting_tool)\<lparr>ts_handlers := (ts_handlers (n_tools counting_tool))(''t'' \<mapsto>
      (n_reg counting_tool)\<lparr>tr_handler := (\<lambda>x. if j_contains tree_api x ''n'' then counting_tool x else failing_tool x)\<rparr>)\<rparr>)
      (n_params (T_object [])) new_world
    = invoke_tool tree_api n_schemas (n_tools counting_tool) (n_params (T_object [])) new_world"
  by (rule handler_sees_valid_arguments) (simp_all add: n_tools_def no_tools_def n_reg_def n_schemas_def)

text \<open>
  A null is no value, says protocol/base.hpp; but the error flag of a raw result is asked for with
  \<open>value\<close>, which throws on a null: the call fails although the result passes the validation.
\<close>

lemma null_error_flag_fails:
  "validate_call_tool_result tree_api (T_object [(''content'', T_list []), (''isError'', T_null)]) = Inr ()
   \<and> is_error_result tree_api (T_object [(''content'', T_list []), (''isError'', T_null)]) = Inl (Json_error ''type must be boolean'')"
  by (simp add: validate_call_tool_result_def call_tool_result_from_json_def is_error_result_def member_is_def j_contains_def
    get_member_def get_list_def get_optional_def has_json_value_def tree_api_def)

end
