(* ===== verification/ServerPages.thy ===== *)
theory ServerPages
  imports Ascii Json
begin

text \<open>
  Pagination of list results (server/server.cpp). A \<open>std::size_t\<close> is a 64-bit word; a cursor is the
  member of the parameters: absent (or null), a text, or something that is not a text.
\<close>

subsection \<open>The cursor\<close>

datatype StoullError = Invalid_argument | Out_of_range

definition is_cspace :: "char \<Rightarrow> bool" where
  "is_cspace c \<longleftrightarrow> c \<in> set [CHR 0x20, CHR 0x09, CHR 0x0A, CHR 0x0B, CHR 0x0C, CHR 0x0D]"

text \<open>
  \<open>std::stoull\<close> in base 10: white space, a sign, digits, and then anything; a negative number is
  the negation modulo \<open>2 ^ 64\<close>.
\<close>

definition stoull :: "string \<Rightarrow> StoullError + 64 word" where
  "stoull s =
     (let t = dropWhile is_cspace s;
          minus = (t \<noteq> [] \<and> hd t = CHR ''-'');
          u = (if t \<noteq> [] \<and> (hd t = CHR ''-'' \<or> hd t = CHR ''+'') then tl t else t);
          ds = takeWhile is_digit_char u;
          n = decimal_value ds
      in if ds = [] then Inl Invalid_argument
         else if 2 ^ 64 \<le> n then Inl Out_of_range
         else Inr (if minus then - of_nat n else of_nat n))"

subsection \<open>A page\<close>

record PaginationSlice =
  ps_begin :: "64 word"
  ps_end :: "64 word"
  ps_next_cursor :: "string option"

datatype Cursor = No_cursor | Cursor_text string | Not_a_text

definition read_cursor :: "'j JsonApi \<Rightarrow> 'j \<Rightarrow> Cursor" where
  "read_cursor api msg =
     (case j_find api msg ''params'' of
        None \<Rightarrow> No_cursor
      | Some p \<Rightarrow>
          (if has_json_value api p ''cursor''
           then (case get_member api (j_string api) p ''cursor'' of Inl e \<Rightarrow> Not_a_text | Inr c \<Rightarrow> Cursor_text c)
           else No_cursor))"

definition slice :: "64 word \<Rightarrow> 64 word \<Rightarrow> Cursor \<Rightarrow> PaginationSlice option" where
  "slice page_size items cursor =
     (if page_size = 0 \<or> items = 0 then Some \<lparr>ps_begin = 0, ps_end = items, ps_next_cursor = None\<rparr>
      else
        (case (case cursor of No_cursor \<Rightarrow> Inr 0 | Cursor_text c \<Rightarrow> stoull c | Not_a_text \<Rightarrow> Inl Invalid_argument) of
           Inl e \<Rightarrow> None
         | Inr o1 \<Rightarrow>
             (let offset = (if items \<le> o1 then 0 else o1);
                  last_index = min (offset + page_size) items
              in Some \<lparr>ps_begin = offset, ps_end = last_index,
                   ps_next_cursor = (if last_index < items then Some (decimal (unat last_index)) else None)\<rparr>)))"

definition paginate :: "'j JsonApi \<Rightarrow> 64 word \<Rightarrow> 64 word \<Rightarrow> 'j \<Rightarrow> PaginationSlice option" where
  "paginate api page_size items json_msg = slice page_size items (read_cursor api json_msg)"

text \<open>The indices of a page, and the pages a client reads by following the cursors, at most \<open>fuel\<close>.\<close>

definition page_indices :: "PaginationSlice \<Rightarrow> nat list" where
  "page_indices p = [unat (ps_begin p) ..< unat (ps_end p)]"

fun read_pages :: "64 word \<Rightarrow> 64 word \<Rightarrow> nat \<Rightarrow> Cursor \<Rightarrow> nat list option" where
  "read_pages page_size items 0 cursor = None"
| "read_pages page_size items (Suc fuel) cursor =
     (case slice page_size items cursor of
        None \<Rightarrow> None
      | Some p \<Rightarrow>
          (case ps_next_cursor p of
             None \<Rightarrow> Some (page_indices p)
           | Some c \<Rightarrow> map_option ((@) (page_indices p)) (read_pages page_size items fuel (Cursor_text c))))"

lemma decimal_head: "decimal n = c # s \<Longrightarrow> is_digit_char c"
  using decimal_digits [of c n] by (simp add: is_digit_char_def)

lemma digit_not_special: "is_digit_char c \<Longrightarrow> \<not> is_cspace c \<and> c \<noteq> CHR ''-'' \<and> c \<noteq> CHR ''+''"
  by (auto simp: is_cspace_def is_digit_char_def)

lemma stoull_decimal:
  assumes "n < 2 ^ 64"
  shows "stoull (decimal n) = Inr (of_nat n)"
proof -
  obtain c s where c: "decimal n = c # s" using decimal_nonempty [of n] by (cases "decimal n") auto
  have t: "takeWhile is_digit_char (decimal n) = decimal n" using decimal_digits [of _ n] by (auto simp: takeWhile_eq_all_conv is_digit_char_def)
  have "dropWhile is_cspace (decimal n) = decimal n" "hd (decimal n) \<noteq> CHR ''-''" "hd (decimal n) \<noteq> CHR ''+''"
    using digit_not_special [OF decimal_head [OF c]] by (simp_all add: c)
  with t assms show ?thesis by (simp add: stoull_def Let_def del: takeWhile_eq_all_conv)
qed

lemma page_step:
  assumes "0 < page_size" "unat page_size + unat items < 2 ^ 64" "b < unat items"
  shows "slice page_size items (if b = 0 \<and> first then No_cursor else Cursor_text (decimal b)) =
    Some \<lparr>ps_begin = of_nat b, ps_end = of_nat (min (b + unat page_size) (unat items)),
      ps_next_cursor = (if b + unat page_size < unat items then Some (decimal (b + unat page_size)) else None)\<rparr>"
proof -
  have lt: "b < 2 ^ 64" using assms(3) unsigned_less [of items, where ?'a = nat] by simp
  have ub: "unat (of_nat b :: 64 word) = b" using lt by (simp add: unat_of_nat)
  have add: "unat (of_nat b + page_size) = b + unat page_size"
    using assms(2,3) ub by (subst unat_plus_simple [THEN iffD1]) (simp_all add: word_le_nat_alt unat_word_ariths)
  have nz: "page_size \<noteq> 0" "items \<noteq> 0" using assms(1,3) by (auto simp: word_gt_0)
  have le: "\<not> items \<le> of_nat b" using assms(3) ub by (simp add: word_le_nat_alt)
  have c: "(case (if b = 0 \<and> first then No_cursor else Cursor_text (decimal b)) of No_cursor \<Rightarrow> Inr 0 | Cursor_text c \<Rightarrow> stoull c | Not_a_text \<Rightarrow> Inl Invalid_argument) = Inr (of_nat b :: 64 word)"
    using stoull_decimal [OF lt] by simp
  have m: "min (of_nat b + page_size) items = of_nat (min (b + unat page_size) (unat items))"
  proof (cases "b + unat page_size \<le> unat items")
    case True
    then have "of_nat b + page_size \<le> items" using add by (simp add: word_le_nat_alt)
    with True add show ?thesis by (simp add: min_def)
  next
    case False
    then have "\<not> of_nat b + page_size \<le> items" using add by (simp add: word_le_nat_alt)
    with False show ?thesis by (simp add: min_def)
  qed
  have l: "of_nat (min (b + unat page_size) (unat items)) < items \<longleftrightarrow> b + unat page_size < unat items"
    using unsigned_less [of items, where ?'a = nat] by (simp add: word_less_nat_alt unat_of_nat min_def)
  have u: "unat (of_nat (min (b + unat page_size) (unat items)) :: 64 word) = b + unat page_size" if "b + unat page_size < unat items"
    using that add by simp
  show ?thesis
    unfolding slice_def c using nz le m l u by (simp add: Let_def)
qed

lemma read_pages_from:
  assumes "0 < page_size" "unat page_size + unat items < 2 ^ 64" "b < unat items" "unat items - b \<le> fuel"
  shows "read_pages page_size items fuel (if b = 0 \<and> first then No_cursor else Cursor_text (decimal b)) = Some [b ..< unat items]"
  using assms(3,4)
proof (induction fuel arbitrary: b first)
  case 0
  then show ?case by simp
next
  case (Suc fuel)
  let ?n = "b + unat page_size"
  have pos: "0 < unat page_size" using assms(1) by (simp add: word_less_nat_alt)
  have ub: "unat (of_nat b :: 64 word) = b" using Suc.prems(1) unsigned_less [of items, where ?'a = nat] by (simp add: unat_of_nat)
  have ue: "unat (of_nat (min ?n (unat items)) :: 64 word) = min ?n (unat items)"
    using unsigned_less [of items, where ?'a = nat] by (simp add: unat_of_nat min_def)
  note p = page_step [OF assms(1,2) Suc.prems(1), of first]
  show ?case
  proof (cases "?n < unat items")
    case True
    have "read_pages page_size items fuel (Cursor_text (decimal ?n)) = Some [?n ..< unat items]"
      using Suc.IH [of ?n False] True pos Suc.prems(2) by simp
    moreover have "[b ..< ?n] @ [?n ..< unat items] = [b ..< unat items]" using True by (metis le_add1 less_imp_le upt_add_eq_append less_imp_add_positive)
    ultimately show ?thesis using True ub ue by (simp add: p page_indices_def)
  next
    case False
    with ub ue show ?thesis by (simp add: p page_indices_def)
  qed
qed

text \<open>C25: Following the cursors reads every item once and in order, and ends: whatever the page size, as long as it
  leaves room for an index in 64 bits, as many reads as there are items are enough.\<close>

theorem pages_cover:
  assumes "0 < page_size" and "0 < items" and "unat page_size + unat items < 2 ^ 64"
  shows "read_pages page_size items (unat items) No_cursor = Some [0 ..< unat items]"
  using read_pages_from [OF assms(1,3), of 0 "unat items" True] assms(2) by (simp add: word_less_nat_alt)

text \<open>A page always lies inside the list, whatever cursor the client makes up, as long as the page size leaves
  room for an index in 64 bits.\<close>

theorem page_in_bounds:
  assumes "unat page_size + unat items < 2 ^ 64" and "paginate api page_size items json_msg = Some p"
  shows "ps_begin p \<le> ps_end p \<and> ps_end p \<le> items"
proof -
  have "o1 \<le> min (o1 + page_size) items" if "\<not> items \<le> o1" for o1
  proof -
    have "unat o1 + unat page_size < 2 ^ 64" using that assms(1) by (simp add: word_le_nat_alt)
    then have "o1 \<le> o1 + page_size" by (simp add: word_le_nat_alt unat_word_ariths)
    with that show ?thesis by simp
  qed
  with assms(2) show ?thesis
    by (auto simp: paginate_def slice_def Let_def split: if_splits sum.splits)
qed

text \<open>A page size near the largest one wraps around: the second page of two items ends before it begins.\<close>

lemma page_wraps_around:
  "slice (- 1) 2 (Cursor_text ''1'') = Some \<lparr>ps_begin = 1, ps_end = 0, ps_next_cursor = Some ''0''\<rparr>"
  by (simp add: slice_def stoull_def is_cspace_def is_digit_char_def decimal_value_def decimal.simps digit_char_def char_of_def bit_numeral_rec bit_0 word_le_nat_alt word_less_nat_alt Let_def)

theorem pages_cover_witness: "read_pages 2 5 5 No_cursor = Some [0, 1, 2, 3, 4]"
  using pages_cover [of 2 5] by (simp add: upt_rec)

theorem page_in_bounds_witness: "ps_begin \<lparr>ps_begin = 2, ps_end = 4, ps_next_cursor = Some ''4''\<rparr> \<le> 4"
proof -
  have "paginate tree_api 2 5 (T_object [(''params'', T_object [(''cursor'', T_string ''2'')])]) =
      Some \<lparr>ps_begin = 2, ps_end = 4, ps_next_cursor = Some ''4''\<rparr>"
    by (simp add: paginate_def read_cursor_def has_json_value_def get_member_def tree_api_def slice_def stoull_def is_cspace_def
      is_digit_char_def decimal_value_def decimal.simps digit_char_def char_of_def bit_numeral_rec bit_0 word_le_nat_alt word_less_nat_alt Let_def)
  from page_in_bounds [OF _ this] show ?thesis by simp
qed

end
