(* ===== verification/ProtoResources.thy ===== *)
theory ProtoResources
  imports ProtoContent
begin

text \<open>
  Resources, resource templates and their requests (protocol/resources.hpp).
\<close>

record 'j Resource =
  resource_uri :: string
  resource_name :: string
  resource_description :: "string option"
  resource_mimeType :: "string option"
  resource_meta :: "'j option"
  resource_annotations :: "Annotations option"
  resource_size :: "int option"
  resource_title :: "string option"
  resource_icons :: "Icon list option"

definition resource_to_json :: "'j JsonApi \<Rightarrow> 'j Resource \<Rightarrow> 'j" where
  "resource_to_json api v =
     (let j = j_put api (j_empty_object api) ''uri'' (j_of_string api (resource_uri v));
          j = j_put api j ''name'' (j_of_string api (resource_name v));
          j = put_optional api (j_of_string api) j ''description'' (resource_description v);
          j = put_optional api (j_of_string api) j ''mimeType'' (resource_mimeType v);
          j = put_optional api put_json j ''_meta'' (resource_meta v);
          j = put_optional api (annotations_to_json api) j ''annotations'' (resource_annotations v);
          j = put_optional api (j_of_int api) j ''size'' (resource_size v);
          j = put_optional api (j_of_string api) j ''title'' (resource_title v);
          j = put_optional api (put_list api (icon_to_json api)) j ''icons'' (resource_icons v)
      in j)"

definition resource_from_json :: "'j JsonApi \<Rightarrow> 'j \<Rightarrow> DecodeError + 'j Resource" where
  "resource_from_json api j =
     bindE (get_member api (j_string api) j ''uri'') (\<lambda>uri'.
     bindE (get_member api (j_string api) j ''name'') (\<lambda>name'.
     bindE (get_optional api (j_string api) j ''description'') (\<lambda>description'.
     bindE (get_optional api (j_string api) j ''mimeType'') (\<lambda>mimeType'.
     bindE (get_optional api get_json j ''_meta'') (\<lambda>meta'.
     bindE (get_optional api (annotations_from_json api) j ''annotations'') (\<lambda>annotations'.
     bindE (get_optional api (j_int api) j ''size'') (\<lambda>size'.
     bindE (get_optional api (j_string api) j ''title'') (\<lambda>title'.
     bindE (get_optional api (get_list api (icon_from_json api)) j ''icons'') (\<lambda>icons'.
     Inr \<lparr>resource_uri = uri', resource_name = name', resource_description = description', resource_mimeType = mimeType', resource_meta = meta', resource_annotations = annotations', resource_size = size', resource_title = title', resource_icons = icons'\<rparr>)))))))))"

definition resource_ok :: "'j JsonApi \<Rightarrow> 'j Resource \<Rightarrow> bool" where
  "resource_ok api v \<longleftrightarrow> (\<forall>y \<in> set_option (resource_meta v). \<not> j_is_null api y)
     \<and> (\<forall>y \<in> set_option (resource_annotations v). annotations_ok api y)
     \<and> (\<forall>y \<in> set_option (resource_size v). int64_range y)"

lemma resource_object [codec]: "json_laws api \<Longrightarrow> j_is_object api (resource_to_json api v)"
  by (simp add: resource_to_json_def Let_def)

lemma resource_roundtrip [codec]:
  "json_laws api \<Longrightarrow> resource_ok api v \<Longrightarrow> resource_from_json api (resource_to_json api v) = Inr v"
  by (cases v) (simp add: resource_to_json_def resource_from_json_def resource_ok_def Let_def codec)

record 'j ResourceTemplate =
  resource_template_uriTemplate :: string
  resource_template_name :: string
  resource_template_description :: "string option"
  resource_template_mimeType :: "string option"
  resource_template_meta :: "'j option"
  resource_template_annotations :: "Annotations option"
  resource_template_title :: "string option"
  resource_template_icons :: "Icon list option"

definition resource_template_to_json :: "'j JsonApi \<Rightarrow> 'j ResourceTemplate \<Rightarrow> 'j" where
  "resource_template_to_json api v =
     (let j = j_put api (j_empty_object api) ''uriTemplate'' (j_of_string api (resource_template_uriTemplate v));
          j = j_put api j ''name'' (j_of_string api (resource_template_name v));
          j = put_optional api (j_of_string api) j ''description'' (resource_template_description v);
          j = put_optional api (j_of_string api) j ''mimeType'' (resource_template_mimeType v);
          j = put_optional api put_json j ''_meta'' (resource_template_meta v);
          j = put_optional api (annotations_to_json api) j ''annotations'' (resource_template_annotations v);
          j = put_optional api (j_of_string api) j ''title'' (resource_template_title v);
          j = put_optional api (put_list api (icon_to_json api)) j ''icons'' (resource_template_icons v)
      in j)"

definition resource_template_from_json :: "'j JsonApi \<Rightarrow> 'j \<Rightarrow> DecodeError + 'j ResourceTemplate" where
  "resource_template_from_json api j =
     bindE (get_member api (j_string api) j ''uriTemplate'') (\<lambda>uriTemplate'.
     bindE (get_member api (j_string api) j ''name'') (\<lambda>name'.
     bindE (get_optional api (j_string api) j ''description'') (\<lambda>description'.
     bindE (get_optional api (j_string api) j ''mimeType'') (\<lambda>mimeType'.
     bindE (get_optional api get_json j ''_meta'') (\<lambda>meta'.
     bindE (get_optional api (annotations_from_json api) j ''annotations'') (\<lambda>annotations'.
     bindE (get_optional api (j_string api) j ''title'') (\<lambda>title'.
     bindE (get_optional api (get_list api (icon_from_json api)) j ''icons'') (\<lambda>icons'.
     Inr \<lparr>resource_template_uriTemplate = uriTemplate', resource_template_name = name', resource_template_description = description', resource_template_mimeType = mimeType', resource_template_meta = meta', resource_template_annotations = annotations', resource_template_title = title', resource_template_icons = icons'\<rparr>))))))))"

definition resource_template_ok :: "'j JsonApi \<Rightarrow> 'j ResourceTemplate \<Rightarrow> bool" where
  "resource_template_ok api v \<longleftrightarrow> (\<forall>y \<in> set_option (resource_template_meta v). \<not> j_is_null api y)
     \<and> (\<forall>y \<in> set_option (resource_template_annotations v). annotations_ok api y)"

lemma resource_template_object [codec]: "json_laws api \<Longrightarrow> j_is_object api (resource_template_to_json api v)"
  by (simp add: resource_template_to_json_def Let_def)

lemma resource_template_roundtrip [codec]:
  "json_laws api \<Longrightarrow> resource_template_ok api v \<Longrightarrow> resource_template_from_json api (resource_template_to_json api v) = Inr v"
  by (cases v) (simp add: resource_template_to_json_def resource_template_from_json_def resource_template_ok_def Let_def codec)

record ReadResourceResult =
  read_resource_result_contents :: "ResourceContents list"

definition read_resource_result_to_json :: "'j JsonApi \<Rightarrow> ReadResourceResult \<Rightarrow> 'j" where
  "read_resource_result_to_json api v =
     j_put api (j_empty_object api) ''contents'' (put_list api (resource_contents_to_json api) (read_resource_result_contents v))"

definition read_resource_result_from_json :: "'j JsonApi \<Rightarrow> 'j \<Rightarrow> DecodeError + ReadResourceResult" where
  "read_resource_result_from_json api j =
     bindE (get_member api (get_list api (resource_contents_from_json api)) j ''contents'') (\<lambda>contents'.
     Inr \<lparr>read_resource_result_contents = contents'\<rparr>)"

lemma read_resource_result_object [codec]: "json_laws api \<Longrightarrow> j_is_object api (read_resource_result_to_json api v)"
  by (simp add: read_resource_result_to_json_def Let_def)

lemma read_resource_result_roundtrip [codec]:
  "json_laws api \<Longrightarrow> read_resource_result_from_json api (read_resource_result_to_json api v) = Inr v"
  by (cases v) (simp add: read_resource_result_to_json_def read_resource_result_from_json_def Let_def codec)

record ListResourcesRequestParams =
  list_resources_request_params_cursor :: "string option"

definition list_resources_request_params_to_json :: "'j JsonApi \<Rightarrow> ListResourcesRequestParams \<Rightarrow> 'j" where
  "list_resources_request_params_to_json api v =
     put_optional api (j_of_string api) (j_empty_object api) ''cursor'' (list_resources_request_params_cursor v)"

definition list_resources_request_params_from_json :: "'j JsonApi \<Rightarrow> 'j \<Rightarrow> DecodeError + ListResourcesRequestParams" where
  "list_resources_request_params_from_json api j =
     bindE (get_optional api (j_string api) j ''cursor'') (\<lambda>cursor'.
     Inr \<lparr>list_resources_request_params_cursor = cursor'\<rparr>)"

lemma list_resources_request_params_object [codec]: "json_laws api \<Longrightarrow> j_is_object api (list_resources_request_params_to_json api v)"
  by (simp add: list_resources_request_params_to_json_def Let_def)

lemma list_resources_request_params_roundtrip [codec]:
  "json_laws api \<Longrightarrow> list_resources_request_params_from_json api (list_resources_request_params_to_json api v) = Inr v"
  by (cases v) (simp add: list_resources_request_params_to_json_def list_resources_request_params_from_json_def Let_def codec)

record ListResourcesRequest =
  list_resources_request_method :: string
  list_resources_request_params :: "ListResourcesRequestParams option"

definition list_resources_request_to_json :: "'j JsonApi \<Rightarrow> ListResourcesRequest \<Rightarrow> 'j" where
  "list_resources_request_to_json api v =
     (let j = j_put api (j_empty_object api) ''method'' (j_of_string api (list_resources_request_method v));
          j = put_optional api (list_resources_request_params_to_json api) j ''params'' (list_resources_request_params v)
      in j)"

definition list_resources_request_from_json :: "'j JsonApi \<Rightarrow> 'j \<Rightarrow> DecodeError + ListResourcesRequest" where
  "list_resources_request_from_json api j =
     bindE (get_member api (j_string api) j ''method'') (\<lambda>method'.
     bindE (get_if_present api (list_resources_request_params_from_json api) j ''params'') (\<lambda>params'.
     Inr \<lparr>list_resources_request_method = method', list_resources_request_params = params'\<rparr>))"

lemma list_resources_request_object [codec]: "json_laws api \<Longrightarrow> j_is_object api (list_resources_request_to_json api v)"
  by (simp add: list_resources_request_to_json_def Let_def)

lemma list_resources_request_roundtrip [codec]:
  "json_laws api \<Longrightarrow> list_resources_request_from_json api (list_resources_request_to_json api v) = Inr v"
  by (cases v) (simp add: list_resources_request_to_json_def list_resources_request_from_json_def Let_def codec)

record 'j ListResourcesResult =
  list_resources_result_resources :: "'j Resource list"
  list_resources_result_nextCursor :: "string option"
  list_resources_result_meta :: "'j option"

definition list_resources_result_to_json :: "'j JsonApi \<Rightarrow> 'j ListResourcesResult \<Rightarrow> 'j" where
  "list_resources_result_to_json api v =
     (let j = j_put api (j_empty_object api) ''resources'' (put_list api (resource_to_json api) (list_resources_result_resources v));
          j = put_optional api (j_of_string api) j ''nextCursor'' (list_resources_result_nextCursor v);
          j = put_optional api put_json j ''_meta'' (list_resources_result_meta v)
      in j)"

definition list_resources_result_from_json :: "'j JsonApi \<Rightarrow> 'j \<Rightarrow> DecodeError + 'j ListResourcesResult" where
  "list_resources_result_from_json api j =
     bindE (get_member api (get_list api (resource_from_json api)) j ''resources'') (\<lambda>resources'.
     bindE (get_optional api (j_string api) j ''nextCursor'') (\<lambda>nextCursor'.
     bindE (get_if_present api get_json j ''_meta'') (\<lambda>meta'.
     Inr \<lparr>list_resources_result_resources = resources', list_resources_result_nextCursor = nextCursor', list_resources_result_meta = meta'\<rparr>)))"

definition list_resources_result_ok :: "'j JsonApi \<Rightarrow> 'j ListResourcesResult \<Rightarrow> bool" where
  "list_resources_result_ok api v \<longleftrightarrow> (\<forall>y \<in> set (list_resources_result_resources v). resource_ok api y)"

lemma list_resources_result_object [codec]: "json_laws api \<Longrightarrow> j_is_object api (list_resources_result_to_json api v)"
  by (simp add: list_resources_result_to_json_def Let_def)

lemma list_resources_result_roundtrip [codec]:
  "json_laws api \<Longrightarrow> list_resources_result_ok api v \<Longrightarrow> list_resources_result_from_json api (list_resources_result_to_json api v) = Inr v"
  by (cases v) (simp add: list_resources_result_to_json_def list_resources_result_from_json_def list_resources_result_ok_def Let_def codec)

record ListResourceTemplatesRequestParams =
  list_resource_templates_request_params_cursor :: "string option"

definition list_resource_templates_request_params_to_json :: "'j JsonApi \<Rightarrow> ListResourceTemplatesRequestParams \<Rightarrow> 'j" where
  "list_resource_templates_request_params_to_json api v =
     put_optional api (j_of_string api) (j_empty_object api) ''cursor'' (list_resource_templates_request_params_cursor v)"

definition list_resource_templates_request_params_from_json :: "'j JsonApi \<Rightarrow> 'j \<Rightarrow> DecodeError + ListResourceTemplatesRequestParams" where
  "list_resource_templates_request_params_from_json api j =
     bindE (get_optional api (j_string api) j ''cursor'') (\<lambda>cursor'.
     Inr \<lparr>list_resource_templates_request_params_cursor = cursor'\<rparr>)"

lemma list_resource_templates_request_params_object [codec]: "json_laws api \<Longrightarrow> j_is_object api (list_resource_templates_request_params_to_json api v)"
  by (simp add: list_resource_templates_request_params_to_json_def Let_def)

lemma list_resource_templates_request_params_roundtrip [codec]:
  "json_laws api \<Longrightarrow> list_resource_templates_request_params_from_json api (list_resource_templates_request_params_to_json api v) = Inr v"
  by (cases v) (simp add: list_resource_templates_request_params_to_json_def list_resource_templates_request_params_from_json_def Let_def codec)

record ListResourceTemplatesRequest =
  list_resource_templates_request_method :: string
  list_resource_templates_request_params :: "ListResourceTemplatesRequestParams option"

definition list_resource_templates_request_to_json :: "'j JsonApi \<Rightarrow> ListResourceTemplatesRequest \<Rightarrow> 'j" where
  "list_resource_templates_request_to_json api v =
     (let j = j_put api (j_empty_object api) ''method'' (j_of_string api (list_resource_templates_request_method v));
          j = put_optional api (list_resource_templates_request_params_to_json api) j ''params'' (list_resource_templates_request_params v)
      in j)"

definition list_resource_templates_request_from_json :: "'j JsonApi \<Rightarrow> 'j \<Rightarrow> DecodeError + ListResourceTemplatesRequest" where
  "list_resource_templates_request_from_json api j =
     bindE (get_member api (j_string api) j ''method'') (\<lambda>method'.
     bindE (get_if_present api (list_resource_templates_request_params_from_json api) j ''params'') (\<lambda>params'.
     Inr \<lparr>list_resource_templates_request_method = method', list_resource_templates_request_params = params'\<rparr>))"

lemma list_resource_templates_request_object [codec]: "json_laws api \<Longrightarrow> j_is_object api (list_resource_templates_request_to_json api v)"
  by (simp add: list_resource_templates_request_to_json_def Let_def)

lemma list_resource_templates_request_roundtrip [codec]:
  "json_laws api \<Longrightarrow> list_resource_templates_request_from_json api (list_resource_templates_request_to_json api v) = Inr v"
  by (cases v) (simp add: list_resource_templates_request_to_json_def list_resource_templates_request_from_json_def Let_def codec)

record 'j ListResourceTemplatesResult =
  list_resource_templates_result_resourceTemplates :: "'j ResourceTemplate list"
  list_resource_templates_result_nextCursor :: "string option"
  list_resource_templates_result_meta :: "'j option"

definition list_resource_templates_result_to_json :: "'j JsonApi \<Rightarrow> 'j ListResourceTemplatesResult \<Rightarrow> 'j" where
  "list_resource_templates_result_to_json api v =
     (let j = j_put api (j_empty_object api) ''resourceTemplates'' (put_list api (resource_template_to_json api) (list_resource_templates_result_resourceTemplates v));
          j = put_optional api (j_of_string api) j ''nextCursor'' (list_resource_templates_result_nextCursor v);
          j = put_optional api put_json j ''_meta'' (list_resource_templates_result_meta v)
      in j)"

definition list_resource_templates_result_from_json :: "'j JsonApi \<Rightarrow> 'j \<Rightarrow> DecodeError + 'j ListResourceTemplatesResult" where
  "list_resource_templates_result_from_json api j =
     bindE (get_member api (get_list api (resource_template_from_json api)) j ''resourceTemplates'') (\<lambda>resourceTemplates'.
     bindE (get_optional api (j_string api) j ''nextCursor'') (\<lambda>nextCursor'.
     bindE (get_if_present api get_json j ''_meta'') (\<lambda>meta'.
     Inr \<lparr>list_resource_templates_result_resourceTemplates = resourceTemplates', list_resource_templates_result_nextCursor = nextCursor', list_resource_templates_result_meta = meta'\<rparr>)))"

definition list_resource_templates_result_ok :: "'j JsonApi \<Rightarrow> 'j ListResourceTemplatesResult \<Rightarrow> bool" where
  "list_resource_templates_result_ok api v \<longleftrightarrow> (\<forall>y \<in> set (list_resource_templates_result_resourceTemplates v). resource_template_ok api y)"

lemma list_resource_templates_result_object [codec]: "json_laws api \<Longrightarrow> j_is_object api (list_resource_templates_result_to_json api v)"
  by (simp add: list_resource_templates_result_to_json_def Let_def)

lemma list_resource_templates_result_roundtrip [codec]:
  "json_laws api \<Longrightarrow> list_resource_templates_result_ok api v \<Longrightarrow> list_resource_templates_result_from_json api (list_resource_templates_result_to_json api v) = Inr v"
  by (cases v) (simp add: list_resource_templates_result_to_json_def list_resource_templates_result_from_json_def list_resource_templates_result_ok_def Let_def codec)

record ReadResourceRequestParams =
  read_resource_request_params_uri :: string

definition read_resource_request_params_to_json :: "'j JsonApi \<Rightarrow> ReadResourceRequestParams \<Rightarrow> 'j" where
  "read_resource_request_params_to_json api v =
     j_put api (j_empty_object api) ''uri'' (j_of_string api (read_resource_request_params_uri v))"

definition read_resource_request_params_from_json :: "'j JsonApi \<Rightarrow> 'j \<Rightarrow> DecodeError + ReadResourceRequestParams" where
  "read_resource_request_params_from_json api j =
     bindE (get_member api (j_string api) j ''uri'') (\<lambda>uri'.
     Inr \<lparr>read_resource_request_params_uri = uri'\<rparr>)"

lemma read_resource_request_params_object [codec]: "json_laws api \<Longrightarrow> j_is_object api (read_resource_request_params_to_json api v)"
  by (simp add: read_resource_request_params_to_json_def Let_def)

lemma read_resource_request_params_roundtrip [codec]:
  "json_laws api \<Longrightarrow> read_resource_request_params_from_json api (read_resource_request_params_to_json api v) = Inr v"
  by (cases v) (simp add: read_resource_request_params_to_json_def read_resource_request_params_from_json_def Let_def codec)

record ReadResourceRequest =
  read_resource_request_method :: string
  read_resource_request_params :: ReadResourceRequestParams

definition read_resource_request_to_json :: "'j JsonApi \<Rightarrow> ReadResourceRequest \<Rightarrow> 'j" where
  "read_resource_request_to_json api v =
     (let j = j_put api (j_empty_object api) ''method'' (j_of_string api (read_resource_request_method v));
          j = j_put api j ''params'' (read_resource_request_params_to_json api (read_resource_request_params v))
      in j)"

definition read_resource_request_from_json :: "'j JsonApi \<Rightarrow> 'j \<Rightarrow> DecodeError + ReadResourceRequest" where
  "read_resource_request_from_json api j =
     bindE (get_member api (j_string api) j ''method'') (\<lambda>method'.
     bindE (get_member api (read_resource_request_params_from_json api) j ''params'') (\<lambda>params'.
     Inr \<lparr>read_resource_request_method = method', read_resource_request_params = params'\<rparr>))"

lemma read_resource_request_object [codec]: "json_laws api \<Longrightarrow> j_is_object api (read_resource_request_to_json api v)"
  by (simp add: read_resource_request_to_json_def Let_def)

lemma read_resource_request_roundtrip [codec]:
  "json_laws api \<Longrightarrow> read_resource_request_from_json api (read_resource_request_to_json api v) = Inr v"
  by (cases v) (simp add: read_resource_request_to_json_def read_resource_request_from_json_def Let_def codec)

record ResourceSubscribeParams =
  resource_subscribe_params_uri :: string

definition resource_subscribe_params_to_json :: "'j JsonApi \<Rightarrow> ResourceSubscribeParams \<Rightarrow> 'j" where
  "resource_subscribe_params_to_json api v =
     j_put api (j_empty_object api) ''uri'' (j_of_string api (resource_subscribe_params_uri v))"

definition resource_subscribe_params_from_json :: "'j JsonApi \<Rightarrow> 'j \<Rightarrow> DecodeError + ResourceSubscribeParams" where
  "resource_subscribe_params_from_json api j =
     bindE (get_member api (j_string api) j ''uri'') (\<lambda>uri'.
     Inr \<lparr>resource_subscribe_params_uri = uri'\<rparr>)"

lemma resource_subscribe_params_object [codec]: "json_laws api \<Longrightarrow> j_is_object api (resource_subscribe_params_to_json api v)"
  by (simp add: resource_subscribe_params_to_json_def Let_def)

lemma resource_subscribe_params_roundtrip [codec]:
  "json_laws api \<Longrightarrow> resource_subscribe_params_from_json api (resource_subscribe_params_to_json api v) = Inr v"
  by (cases v) (simp add: resource_subscribe_params_to_json_def resource_subscribe_params_from_json_def Let_def codec)

record SubscribeRequest =
  subscribe_request_method :: string
  subscribe_request_params :: ResourceSubscribeParams

definition subscribe_request_to_json :: "'j JsonApi \<Rightarrow> SubscribeRequest \<Rightarrow> 'j" where
  "subscribe_request_to_json api v =
     (let j = j_put api (j_empty_object api) ''method'' (j_of_string api (subscribe_request_method v));
          j = j_put api j ''params'' (resource_subscribe_params_to_json api (subscribe_request_params v))
      in j)"

definition subscribe_request_from_json :: "'j JsonApi \<Rightarrow> 'j \<Rightarrow> DecodeError + SubscribeRequest" where
  "subscribe_request_from_json api j =
     bindE (get_member api (j_string api) j ''method'') (\<lambda>method'.
     bindE (get_member api (resource_subscribe_params_from_json api) j ''params'') (\<lambda>params'.
     Inr \<lparr>subscribe_request_method = method', subscribe_request_params = params'\<rparr>))"

lemma subscribe_request_object [codec]: "json_laws api \<Longrightarrow> j_is_object api (subscribe_request_to_json api v)"
  by (simp add: subscribe_request_to_json_def Let_def)

lemma subscribe_request_roundtrip [codec]:
  "json_laws api \<Longrightarrow> subscribe_request_from_json api (subscribe_request_to_json api v) = Inr v"
  by (cases v) (simp add: subscribe_request_to_json_def subscribe_request_from_json_def Let_def codec)

record ResourceUnsubscribeParams =
  resource_unsubscribe_params_uri :: string

definition resource_unsubscribe_params_to_json :: "'j JsonApi \<Rightarrow> ResourceUnsubscribeParams \<Rightarrow> 'j" where
  "resource_unsubscribe_params_to_json api v =
     j_put api (j_empty_object api) ''uri'' (j_of_string api (resource_unsubscribe_params_uri v))"

definition resource_unsubscribe_params_from_json :: "'j JsonApi \<Rightarrow> 'j \<Rightarrow> DecodeError + ResourceUnsubscribeParams" where
  "resource_unsubscribe_params_from_json api j =
     bindE (get_member api (j_string api) j ''uri'') (\<lambda>uri'.
     Inr \<lparr>resource_unsubscribe_params_uri = uri'\<rparr>)"

lemma resource_unsubscribe_params_object [codec]: "json_laws api \<Longrightarrow> j_is_object api (resource_unsubscribe_params_to_json api v)"
  by (simp add: resource_unsubscribe_params_to_json_def Let_def)

lemma resource_unsubscribe_params_roundtrip [codec]:
  "json_laws api \<Longrightarrow> resource_unsubscribe_params_from_json api (resource_unsubscribe_params_to_json api v) = Inr v"
  by (cases v) (simp add: resource_unsubscribe_params_to_json_def resource_unsubscribe_params_from_json_def Let_def codec)

record UnsubscribeRequest =
  unsubscribe_request_method :: string
  unsubscribe_request_params :: ResourceUnsubscribeParams

definition unsubscribe_request_to_json :: "'j JsonApi \<Rightarrow> UnsubscribeRequest \<Rightarrow> 'j" where
  "unsubscribe_request_to_json api v =
     (let j = j_put api (j_empty_object api) ''method'' (j_of_string api (unsubscribe_request_method v));
          j = j_put api j ''params'' (resource_unsubscribe_params_to_json api (unsubscribe_request_params v))
      in j)"

definition unsubscribe_request_from_json :: "'j JsonApi \<Rightarrow> 'j \<Rightarrow> DecodeError + UnsubscribeRequest" where
  "unsubscribe_request_from_json api j =
     bindE (get_member api (j_string api) j ''method'') (\<lambda>method'.
     bindE (get_member api (resource_unsubscribe_params_from_json api) j ''params'') (\<lambda>params'.
     Inr \<lparr>unsubscribe_request_method = method', unsubscribe_request_params = params'\<rparr>))"

lemma unsubscribe_request_object [codec]: "json_laws api \<Longrightarrow> j_is_object api (unsubscribe_request_to_json api v)"
  by (simp add: unsubscribe_request_to_json_def Let_def)

lemma unsubscribe_request_roundtrip [codec]:
  "json_laws api \<Longrightarrow> unsubscribe_request_from_json api (unsubscribe_request_to_json api v) = Inr v"
  by (cases v) (simp add: unsubscribe_request_to_json_def unsubscribe_request_from_json_def Let_def codec)

end
