(* ===== verification/ProtoPrompts.thy ===== *)
theory ProtoPrompts
  imports ProtoContent
begin

text \<open>
  Completion and prompts (protocol/completion.hpp and protocol/prompts.hpp).
\<close>

record 'j PaginatedRequestParams =
  paginated_request_params_cursor :: "string option"
  paginated_request_params_meta :: "'j option"

definition paginated_request_params_to_json :: "'j JsonApi \<Rightarrow> 'j PaginatedRequestParams \<Rightarrow> 'j" where
  "paginated_request_params_to_json api v =
     (let j = put_optional api (j_of_string api) (j_empty_object api) ''cursor'' (paginated_request_params_cursor v);
          j = put_optional api put_json j ''_meta'' (paginated_request_params_meta v)
      in j)"

definition paginated_request_params_from_json :: "'j JsonApi \<Rightarrow> 'j \<Rightarrow> DecodeError + 'j PaginatedRequestParams" where
  "paginated_request_params_from_json api j =
     bindE (get_optional api (j_string api) j ''cursor'') (\<lambda>cursor'.
     bindE (get_if_present api get_json j ''_meta'') (\<lambda>meta'.
     Inr \<lparr>paginated_request_params_cursor = cursor', paginated_request_params_meta = meta'\<rparr>))"

lemma paginated_request_params_object [codec]: "json_laws api \<Longrightarrow> j_is_object api (paginated_request_params_to_json api v)"
  by (simp add: paginated_request_params_to_json_def Let_def)

lemma paginated_request_params_roundtrip [codec]:
  "json_laws api \<Longrightarrow> paginated_request_params_from_json api (paginated_request_params_to_json api v) = Inr v"
  by (cases v) (simp add: paginated_request_params_to_json_def paginated_request_params_from_json_def Let_def codec)

record PromptReference =
  prompt_reference_type :: string
  prompt_reference_name :: string

definition prompt_reference_to_json :: "'j JsonApi \<Rightarrow> PromptReference \<Rightarrow> 'j" where
  "prompt_reference_to_json api v =
     (let j = j_put api (j_empty_object api) ''type'' (j_of_string api (prompt_reference_type v));
          j = j_put api j ''name'' (j_of_string api (prompt_reference_name v))
      in j)"

definition prompt_reference_from_json :: "'j JsonApi \<Rightarrow> 'j \<Rightarrow> DecodeError + PromptReference" where
  "prompt_reference_from_json api j =
     bindE (get_member api (j_string api) j ''type'') (\<lambda>type'.
     bindE (get_member api (j_string api) j ''name'') (\<lambda>name'.
     Inr \<lparr>prompt_reference_type = type', prompt_reference_name = name'\<rparr>))"

lemma prompt_reference_object [codec]: "json_laws api \<Longrightarrow> j_is_object api (prompt_reference_to_json api v)"
  by (simp add: prompt_reference_to_json_def Let_def)

lemma prompt_reference_roundtrip [codec]:
  "json_laws api \<Longrightarrow> prompt_reference_from_json api (prompt_reference_to_json api v) = Inr v"
  by (cases v) (simp add: prompt_reference_to_json_def prompt_reference_from_json_def Let_def codec)

record ResourceTemplateReference =
  resource_template_reference_type :: string
  resource_template_reference_uri :: string

definition resource_template_reference_to_json :: "'j JsonApi \<Rightarrow> ResourceTemplateReference \<Rightarrow> 'j" where
  "resource_template_reference_to_json api v =
     (let j = j_put api (j_empty_object api) ''type'' (j_of_string api (resource_template_reference_type v));
          j = j_put api j ''uri'' (j_of_string api (resource_template_reference_uri v))
      in j)"

definition resource_template_reference_from_json :: "'j JsonApi \<Rightarrow> 'j \<Rightarrow> DecodeError + ResourceTemplateReference" where
  "resource_template_reference_from_json api j =
     bindE (get_member api (j_string api) j ''type'') (\<lambda>type'.
     bindE (get_member api (j_string api) j ''uri'') (\<lambda>uri'.
     Inr \<lparr>resource_template_reference_type = type', resource_template_reference_uri = uri'\<rparr>))"

lemma resource_template_reference_object [codec]: "json_laws api \<Longrightarrow> j_is_object api (resource_template_reference_to_json api v)"
  by (simp add: resource_template_reference_to_json_def Let_def)

lemma resource_template_reference_roundtrip [codec]:
  "json_laws api \<Longrightarrow> resource_template_reference_from_json api (resource_template_reference_to_json api v) = Inr v"
  by (cases v) (simp add: resource_template_reference_to_json_def resource_template_reference_from_json_def Let_def codec)

datatype CompleteReference = Prompt_reference PromptReference | Template_reference ResourceTemplateReference

definition complete_reference_to_json :: "'j JsonApi \<Rightarrow> CompleteReference \<Rightarrow> 'j" where
  "complete_reference_to_json api v =
     (case v of
     Prompt_reference x \<Rightarrow> prompt_reference_to_json api x
   | Template_reference x \<Rightarrow> resource_template_reference_to_json api x)"

definition complete_reference_from_json :: "'j JsonApi \<Rightarrow> 'j \<Rightarrow> DecodeError + CompleteReference" where
  "complete_reference_from_json api j =
     bindE (j_at api j ''type'') (\<lambda>t.
     if j_is_string api t \<and> j_string api t = Inr ''ref/prompt''
     then bindE (prompt_reference_from_json api j) (\<lambda>x. Inr (Prompt_reference x))
     else bindE (resource_template_reference_from_json api j) (\<lambda>x. Inr (Template_reference x)))"

definition complete_reference_ok :: "'j JsonApi \<Rightarrow> CompleteReference \<Rightarrow> bool" where
  "complete_reference_ok api v \<longleftrightarrow>
     (case v of
     Prompt_reference x \<Rightarrow> prompt_reference_type x = ''ref/prompt''
   | Template_reference x \<Rightarrow> resource_template_reference_type x \<noteq> ''ref/prompt'')"

lemma reference_types [codec]:
  "json_laws api \<Longrightarrow> j_at api (prompt_reference_to_json api x) ''type'' = Inr (j_of_string api (prompt_reference_type x))"
  "json_laws api \<Longrightarrow> j_at api (resource_template_reference_to_json api y) ''type'' = Inr (j_of_string api (resource_template_reference_type y))"
  by (simp_all add: prompt_reference_to_json_def resource_template_reference_to_json_def Let_def json_at)

lemma complete_reference_object [codec]: "json_laws api \<Longrightarrow> j_is_object api (complete_reference_to_json api v)"
  by (cases v) (simp_all add: complete_reference_to_json_def codec)

lemma complete_reference_roundtrip [codec]:
  "json_laws api \<Longrightarrow> complete_reference_ok api v \<Longrightarrow> complete_reference_from_json api (complete_reference_to_json api v) = Inr v"
  by (cases v) (simp_all add: complete_reference_to_json_def complete_reference_from_json_def complete_reference_ok_def codec)

record CompleteParamsArgument =
  complete_params_argument_name :: string
  complete_params_argument_value :: string

definition complete_params_argument_to_json :: "'j JsonApi \<Rightarrow> CompleteParamsArgument \<Rightarrow> 'j" where
  "complete_params_argument_to_json api v =
     (let j = j_put api (j_empty_object api) ''name'' (j_of_string api (complete_params_argument_name v));
          j = j_put api j ''value'' (j_of_string api (complete_params_argument_value v))
      in j)"

definition complete_params_argument_from_json :: "'j JsonApi \<Rightarrow> 'j \<Rightarrow> DecodeError + CompleteParamsArgument" where
  "complete_params_argument_from_json api j =
     bindE (get_member api (j_string api) j ''name'') (\<lambda>name'.
     bindE (get_member api (j_string api) j ''value'') (\<lambda>value'.
     Inr \<lparr>complete_params_argument_name = name', complete_params_argument_value = value'\<rparr>))"

lemma complete_params_argument_object [codec]: "json_laws api \<Longrightarrow> j_is_object api (complete_params_argument_to_json api v)"
  by (simp add: complete_params_argument_to_json_def Let_def)

lemma complete_params_argument_roundtrip [codec]:
  "json_laws api \<Longrightarrow> complete_params_argument_from_json api (complete_params_argument_to_json api v) = Inr v"
  by (cases v) (simp add: complete_params_argument_to_json_def complete_params_argument_from_json_def Let_def codec)

record CompleteContext =
  complete_context_arguments :: "(string \<times> string) list option"

definition complete_context_to_json :: "'j JsonApi \<Rightarrow> CompleteContext \<Rightarrow> 'j" where
  "complete_context_to_json api v =
     put_optional api (put_map api (j_of_string api)) (j_empty_object api) ''arguments'' (complete_context_arguments v)"

definition complete_context_from_json :: "'j JsonApi \<Rightarrow> 'j \<Rightarrow> DecodeError + CompleteContext" where
  "complete_context_from_json api j =
     bindE (get_optional api (get_map api (j_string api)) j ''arguments'') (\<lambda>arguments'.
     Inr \<lparr>complete_context_arguments = arguments'\<rparr>)"

definition complete_context_ok :: "'j JsonApi \<Rightarrow> CompleteContext \<Rightarrow> bool" where
  "complete_context_ok api v \<longleftrightarrow> (\<forall>y \<in> set_option (complete_context_arguments v). map_ok y)"

lemma complete_context_object [codec]: "json_laws api \<Longrightarrow> j_is_object api (complete_context_to_json api v)"
  by (simp add: complete_context_to_json_def Let_def)

lemma complete_context_roundtrip [codec]:
  "json_laws api \<Longrightarrow> complete_context_ok api v \<Longrightarrow> complete_context_from_json api (complete_context_to_json api v) = Inr v"
  by (cases v) (simp add: complete_context_to_json_def complete_context_from_json_def complete_context_ok_def Let_def codec)

record 'j CompleteParams =
  complete_params_ref :: CompleteReference
  complete_params_argument :: CompleteParamsArgument
  complete_params_context :: "CompleteContext option"
  complete_params_meta :: "'j option"

definition complete_params_to_json :: "'j JsonApi \<Rightarrow> 'j CompleteParams \<Rightarrow> 'j" where
  "complete_params_to_json api v =
     (let j = j_put api (j_empty_object api) ''ref'' (complete_reference_to_json api (complete_params_ref v));
          j = j_put api j ''argument'' (complete_params_argument_to_json api (complete_params_argument v));
          j = put_optional api (complete_context_to_json api) j ''context'' (complete_params_context v);
          j = put_optional api put_json j ''_meta'' (complete_params_meta v)
      in j)"

definition complete_params_from_json :: "'j JsonApi \<Rightarrow> 'j \<Rightarrow> DecodeError + 'j CompleteParams" where
  "complete_params_from_json api j =
     bindE (get_member api (complete_reference_from_json api) j ''ref'') (\<lambda>ref'.
     bindE (get_member api (complete_params_argument_from_json api) j ''argument'') (\<lambda>argument'.
     bindE (get_optional api (complete_context_from_json api) j ''context'') (\<lambda>context'.
     bindE (get_if_present api get_json j ''_meta'') (\<lambda>meta'.
     Inr \<lparr>complete_params_ref = ref', complete_params_argument = argument', complete_params_context = context', complete_params_meta = meta'\<rparr>))))"

definition complete_params_ok :: "'j JsonApi \<Rightarrow> 'j CompleteParams \<Rightarrow> bool" where
  "complete_params_ok api v \<longleftrightarrow> complete_reference_ok api (complete_params_ref v)
     \<and> (\<forall>y \<in> set_option (complete_params_context v). complete_context_ok api y)"

lemma complete_params_object [codec]: "json_laws api \<Longrightarrow> j_is_object api (complete_params_to_json api v)"
  by (simp add: complete_params_to_json_def Let_def)

lemma complete_params_roundtrip [codec]:
  "json_laws api \<Longrightarrow> complete_params_ok api v \<Longrightarrow> complete_params_from_json api (complete_params_to_json api v) = Inr v"
  by (cases v) (simp add: complete_params_to_json_def complete_params_from_json_def complete_params_ok_def Let_def codec)

record CompletionResultDetails =
  completion_result_details_values :: "string list"
  completion_result_details_total :: "int option"
  completion_result_details_hasMore :: "bool option"

definition completion_result_details_to_json :: "'j JsonApi \<Rightarrow> CompletionResultDetails \<Rightarrow> 'j" where
  "completion_result_details_to_json api v =
     (let j = j_put api (j_empty_object api) ''values'' (put_list api (j_of_string api) (completion_result_details_values v));
          j = put_optional api (j_of_int api) j ''total'' (completion_result_details_total v);
          j = put_optional api (j_of_bool api) j ''hasMore'' (completion_result_details_hasMore v)
      in j)"

definition completion_result_details_from_json :: "'j JsonApi \<Rightarrow> 'j \<Rightarrow> DecodeError + CompletionResultDetails" where
  "completion_result_details_from_json api j =
     bindE (get_member api (get_list api (j_string api)) j ''values'') (\<lambda>values'.
     bindE (get_optional api (j_int api) j ''total'') (\<lambda>total'.
     bindE (get_optional api (j_bool api) j ''hasMore'') (\<lambda>hasMore'.
     Inr \<lparr>completion_result_details_values = values', completion_result_details_total = total', completion_result_details_hasMore = hasMore'\<rparr>)))"

definition completion_result_details_ok :: "'j JsonApi \<Rightarrow> CompletionResultDetails \<Rightarrow> bool" where
  "completion_result_details_ok api v \<longleftrightarrow> (\<forall>y \<in> set_option (completion_result_details_total v). int64_range y)"

lemma completion_result_details_object [codec]: "json_laws api \<Longrightarrow> j_is_object api (completion_result_details_to_json api v)"
  by (simp add: completion_result_details_to_json_def Let_def)

lemma completion_result_details_roundtrip [codec]:
  "json_laws api \<Longrightarrow> completion_result_details_ok api v \<Longrightarrow> completion_result_details_from_json api (completion_result_details_to_json api v) = Inr v"
  by (cases v) (simp add: completion_result_details_to_json_def completion_result_details_from_json_def completion_result_details_ok_def Let_def codec)

record 'j CompleteResult =
  complete_result_completion :: CompletionResultDetails
  complete_result_meta :: "'j option"

definition complete_result_to_json :: "'j JsonApi \<Rightarrow> 'j CompleteResult \<Rightarrow> 'j" where
  "complete_result_to_json api v =
     (let j = j_put api (j_empty_object api) ''completion'' (completion_result_details_to_json api (complete_result_completion v));
          j = put_optional api put_json j ''_meta'' (complete_result_meta v)
      in j)"

definition complete_result_from_json :: "'j JsonApi \<Rightarrow> 'j \<Rightarrow> DecodeError + 'j CompleteResult" where
  "complete_result_from_json api j =
     bindE (get_member api (completion_result_details_from_json api) j ''completion'') (\<lambda>completion'.
     bindE (get_if_present api get_json j ''_meta'') (\<lambda>meta'.
     Inr \<lparr>complete_result_completion = completion', complete_result_meta = meta'\<rparr>))"

definition complete_result_ok :: "'j JsonApi \<Rightarrow> 'j CompleteResult \<Rightarrow> bool" where
  "complete_result_ok api v \<longleftrightarrow> completion_result_details_ok api (complete_result_completion v)"

lemma complete_result_object [codec]: "json_laws api \<Longrightarrow> j_is_object api (complete_result_to_json api v)"
  by (simp add: complete_result_to_json_def Let_def)

lemma complete_result_roundtrip [codec]:
  "json_laws api \<Longrightarrow> complete_result_ok api v \<Longrightarrow> complete_result_from_json api (complete_result_to_json api v) = Inr v"
  by (cases v) (simp add: complete_result_to_json_def complete_result_from_json_def complete_result_ok_def Let_def codec)

record PromptArgument =
  prompt_argument_name :: string
  prompt_argument_description :: "string option"
  prompt_argument_required :: "bool option"
  prompt_argument_title :: "string option"

definition prompt_argument_to_json :: "'j JsonApi \<Rightarrow> PromptArgument \<Rightarrow> 'j" where
  "prompt_argument_to_json api v =
     (let j = j_put api (j_empty_object api) ''name'' (j_of_string api (prompt_argument_name v));
          j = put_optional api (j_of_string api) j ''description'' (prompt_argument_description v);
          j = put_optional api (j_of_bool api) j ''required'' (prompt_argument_required v);
          j = put_optional api (j_of_string api) j ''title'' (prompt_argument_title v)
      in j)"

definition prompt_argument_from_json :: "'j JsonApi \<Rightarrow> 'j \<Rightarrow> DecodeError + PromptArgument" where
  "prompt_argument_from_json api j =
     bindE (get_member api (j_string api) j ''name'') (\<lambda>name'.
     bindE (get_optional api (j_string api) j ''description'') (\<lambda>description'.
     bindE (get_optional api (j_bool api) j ''required'') (\<lambda>required'.
     bindE (get_optional api (j_string api) j ''title'') (\<lambda>title'.
     Inr \<lparr>prompt_argument_name = name', prompt_argument_description = description', prompt_argument_required = required', prompt_argument_title = title'\<rparr>))))"

lemma prompt_argument_object [codec]: "json_laws api \<Longrightarrow> j_is_object api (prompt_argument_to_json api v)"
  by (simp add: prompt_argument_to_json_def Let_def)

lemma prompt_argument_roundtrip [codec]:
  "json_laws api \<Longrightarrow> prompt_argument_from_json api (prompt_argument_to_json api v) = Inr v"
  by (cases v) (simp add: prompt_argument_to_json_def prompt_argument_from_json_def Let_def codec)

record 'j Prompt =
  prompt_name :: string
  prompt_description :: "string option"
  prompt_arguments :: "PromptArgument list option"
  prompt_meta :: "'j option"
  prompt_title :: "string option"
  prompt_icons :: "Icon list option"

definition prompt_to_json :: "'j JsonApi \<Rightarrow> 'j Prompt \<Rightarrow> 'j" where
  "prompt_to_json api v =
     (let j = j_put api (j_empty_object api) ''name'' (j_of_string api (prompt_name v));
          j = put_optional api (j_of_string api) j ''description'' (prompt_description v);
          j = put_optional api (put_list api (prompt_argument_to_json api)) j ''arguments'' (prompt_arguments v);
          j = put_optional api put_json j ''_meta'' (prompt_meta v);
          j = put_optional api (j_of_string api) j ''title'' (prompt_title v);
          j = put_optional api (put_list api (icon_to_json api)) j ''icons'' (prompt_icons v)
      in j)"

definition prompt_from_json :: "'j JsonApi \<Rightarrow> 'j \<Rightarrow> DecodeError + 'j Prompt" where
  "prompt_from_json api j =
     bindE (get_member api (j_string api) j ''name'') (\<lambda>name'.
     bindE (get_optional api (j_string api) j ''description'') (\<lambda>description'.
     bindE (get_optional api (get_list api (prompt_argument_from_json api)) j ''arguments'') (\<lambda>arguments'.
     bindE (get_if_present api get_json j ''_meta'') (\<lambda>meta'.
     bindE (get_optional api (j_string api) j ''title'') (\<lambda>title'.
     bindE (get_optional api (get_list api (icon_from_json api)) j ''icons'') (\<lambda>icons'.
     Inr \<lparr>prompt_name = name', prompt_description = description', prompt_arguments = arguments', prompt_meta = meta', prompt_title = title', prompt_icons = icons'\<rparr>))))))"

lemma prompt_object [codec]: "json_laws api \<Longrightarrow> j_is_object api (prompt_to_json api v)"
  by (simp add: prompt_to_json_def Let_def)

lemma prompt_roundtrip [codec]:
  "json_laws api \<Longrightarrow> prompt_from_json api (prompt_to_json api v) = Inr v"
  by (cases v) (simp add: prompt_to_json_def prompt_from_json_def Let_def codec)

record 'j PromptMessage =
  prompt_message_role :: Role
  prompt_message_content :: "'j ContentBlock"

definition prompt_message_to_json :: "'j JsonApi \<Rightarrow> 'j PromptMessage \<Rightarrow> 'j" where
  "prompt_message_to_json api v =
     (let j = j_put api (j_empty_object api) ''role'' (role_to_json api (prompt_message_role v));
          j = j_put api j ''content'' (content_block_to_json api (prompt_message_content v))
      in j)"

definition prompt_message_from_json :: "'j JsonApi \<Rightarrow> 'j \<Rightarrow> DecodeError + 'j PromptMessage" where
  "prompt_message_from_json api j =
     bindE (get_member api (role_from_json api) j ''role'') (\<lambda>role'.
     bindE (get_member api (content_block_from_json api) j ''content'') (\<lambda>content'.
     Inr \<lparr>prompt_message_role = role', prompt_message_content = content'\<rparr>))"

definition prompt_message_ok :: "'j JsonApi \<Rightarrow> 'j PromptMessage \<Rightarrow> bool" where
  "prompt_message_ok api v \<longleftrightarrow> content_block_ok api (prompt_message_content v)"

lemma prompt_message_object [codec]: "json_laws api \<Longrightarrow> j_is_object api (prompt_message_to_json api v)"
  by (simp add: prompt_message_to_json_def Let_def)

lemma prompt_message_roundtrip [codec]:
  "json_laws api \<Longrightarrow> prompt_message_ok api v \<Longrightarrow> prompt_message_from_json api (prompt_message_to_json api v) = Inr v"
  by (cases v) (simp add: prompt_message_to_json_def prompt_message_from_json_def prompt_message_ok_def Let_def codec)

record 'j GetPromptRequestParams =
  get_prompt_request_params_name :: string
  get_prompt_request_params_arguments :: "(string \<times> string) list option"
  get_prompt_request_params_meta :: "'j option"

definition get_prompt_request_params_to_json :: "'j JsonApi \<Rightarrow> 'j GetPromptRequestParams \<Rightarrow> 'j" where
  "get_prompt_request_params_to_json api v =
     (let j = j_put api (j_empty_object api) ''name'' (j_of_string api (get_prompt_request_params_name v));
          j = put_optional api (put_map api (j_of_string api)) j ''arguments'' (get_prompt_request_params_arguments v);
          j = put_optional api put_json j ''_meta'' (get_prompt_request_params_meta v)
      in j)"

definition get_prompt_request_params_from_json :: "'j JsonApi \<Rightarrow> 'j \<Rightarrow> DecodeError + 'j GetPromptRequestParams" where
  "get_prompt_request_params_from_json api j =
     bindE (get_member api (j_string api) j ''name'') (\<lambda>name'.
     bindE (get_optional api (get_map api (j_string api)) j ''arguments'') (\<lambda>arguments'.
     bindE (get_if_present api get_json j ''_meta'') (\<lambda>meta'.
     Inr \<lparr>get_prompt_request_params_name = name', get_prompt_request_params_arguments = arguments', get_prompt_request_params_meta = meta'\<rparr>)))"

definition get_prompt_request_params_ok :: "'j JsonApi \<Rightarrow> 'j GetPromptRequestParams \<Rightarrow> bool" where
  "get_prompt_request_params_ok api v \<longleftrightarrow> (\<forall>y \<in> set_option (get_prompt_request_params_arguments v). map_ok y)"

lemma get_prompt_request_params_object [codec]: "json_laws api \<Longrightarrow> j_is_object api (get_prompt_request_params_to_json api v)"
  by (simp add: get_prompt_request_params_to_json_def Let_def)

lemma get_prompt_request_params_roundtrip [codec]:
  "json_laws api \<Longrightarrow> get_prompt_request_params_ok api v \<Longrightarrow> get_prompt_request_params_from_json api (get_prompt_request_params_to_json api v) = Inr v"
  by (cases v) (simp add: get_prompt_request_params_to_json_def get_prompt_request_params_from_json_def get_prompt_request_params_ok_def Let_def codec)

record 'j GetPromptRequest =
  get_prompt_request_method :: string
  get_prompt_request_params :: "'j GetPromptRequestParams"

definition get_prompt_request_to_json :: "'j JsonApi \<Rightarrow> 'j GetPromptRequest \<Rightarrow> 'j" where
  "get_prompt_request_to_json api v =
     (let j = j_put api (j_empty_object api) ''method'' (j_of_string api (get_prompt_request_method v));
          j = j_put api j ''params'' (get_prompt_request_params_to_json api (get_prompt_request_params v))
      in j)"

definition get_prompt_request_from_json :: "'j JsonApi \<Rightarrow> 'j \<Rightarrow> DecodeError + 'j GetPromptRequest" where
  "get_prompt_request_from_json api j =
     bindE (get_member api (j_string api) j ''method'') (\<lambda>method'.
     bindE (get_member api (get_prompt_request_params_from_json api) j ''params'') (\<lambda>params'.
     Inr \<lparr>get_prompt_request_method = method', get_prompt_request_params = params'\<rparr>))"

definition get_prompt_request_ok :: "'j JsonApi \<Rightarrow> 'j GetPromptRequest \<Rightarrow> bool" where
  "get_prompt_request_ok api v \<longleftrightarrow> get_prompt_request_params_ok api (get_prompt_request_params v)"

lemma get_prompt_request_object [codec]: "json_laws api \<Longrightarrow> j_is_object api (get_prompt_request_to_json api v)"
  by (simp add: get_prompt_request_to_json_def Let_def)

lemma get_prompt_request_roundtrip [codec]:
  "json_laws api \<Longrightarrow> get_prompt_request_ok api v \<Longrightarrow> get_prompt_request_from_json api (get_prompt_request_to_json api v) = Inr v"
  by (cases v) (simp add: get_prompt_request_to_json_def get_prompt_request_from_json_def get_prompt_request_ok_def Let_def codec)

record 'j GetPromptResult =
  get_prompt_result_messages :: "'j PromptMessage list"
  get_prompt_result_description :: "string option"
  get_prompt_result_meta :: "'j option"

definition get_prompt_result_to_json :: "'j JsonApi \<Rightarrow> 'j GetPromptResult \<Rightarrow> 'j" where
  "get_prompt_result_to_json api v =
     (let j = j_put api (j_empty_object api) ''messages'' (put_list api (prompt_message_to_json api) (get_prompt_result_messages v));
          j = put_optional api (j_of_string api) j ''description'' (get_prompt_result_description v);
          j = put_optional api put_json j ''_meta'' (get_prompt_result_meta v)
      in j)"

definition get_prompt_result_from_json :: "'j JsonApi \<Rightarrow> 'j \<Rightarrow> DecodeError + 'j GetPromptResult" where
  "get_prompt_result_from_json api j =
     bindE (get_member api (get_list api (prompt_message_from_json api)) j ''messages'') (\<lambda>messages'.
     bindE (get_optional api (j_string api) j ''description'') (\<lambda>description'.
     bindE (get_if_present api get_json j ''_meta'') (\<lambda>meta'.
     Inr \<lparr>get_prompt_result_messages = messages', get_prompt_result_description = description', get_prompt_result_meta = meta'\<rparr>)))"

definition get_prompt_result_ok :: "'j JsonApi \<Rightarrow> 'j GetPromptResult \<Rightarrow> bool" where
  "get_prompt_result_ok api v \<longleftrightarrow> (\<forall>y \<in> set (get_prompt_result_messages v). prompt_message_ok api y)"

lemma get_prompt_result_object [codec]: "json_laws api \<Longrightarrow> j_is_object api (get_prompt_result_to_json api v)"
  by (simp add: get_prompt_result_to_json_def Let_def)

lemma get_prompt_result_roundtrip [codec]:
  "json_laws api \<Longrightarrow> get_prompt_result_ok api v \<Longrightarrow> get_prompt_result_from_json api (get_prompt_result_to_json api v) = Inr v"
  by (cases v) (simp add: get_prompt_result_to_json_def get_prompt_result_from_json_def get_prompt_result_ok_def Let_def codec)

record 'j ListPromptsRequest =
  list_prompts_request_method :: string
  list_prompts_request_params :: "'j PaginatedRequestParams option"

definition list_prompts_request_to_json :: "'j JsonApi \<Rightarrow> 'j ListPromptsRequest \<Rightarrow> 'j" where
  "list_prompts_request_to_json api v =
     (let j = j_put api (j_empty_object api) ''method'' (j_of_string api (list_prompts_request_method v));
          j = put_optional api (paginated_request_params_to_json api) j ''params'' (list_prompts_request_params v)
      in j)"

definition list_prompts_request_from_json :: "'j JsonApi \<Rightarrow> 'j \<Rightarrow> DecodeError + 'j ListPromptsRequest" where
  "list_prompts_request_from_json api j =
     bindE (get_member api (j_string api) j ''method'') (\<lambda>method'.
     bindE (get_if_present api (paginated_request_params_from_json api) j ''params'') (\<lambda>params'.
     Inr \<lparr>list_prompts_request_method = method', list_prompts_request_params = params'\<rparr>))"

lemma list_prompts_request_object [codec]: "json_laws api \<Longrightarrow> j_is_object api (list_prompts_request_to_json api v)"
  by (simp add: list_prompts_request_to_json_def Let_def)

lemma list_prompts_request_roundtrip [codec]:
  "json_laws api \<Longrightarrow> list_prompts_request_from_json api (list_prompts_request_to_json api v) = Inr v"
  by (cases v) (simp add: list_prompts_request_to_json_def list_prompts_request_from_json_def Let_def codec)

record 'j ListPromptsResult =
  list_prompts_result_prompts :: "'j Prompt list"
  list_prompts_result_nextCursor :: "string option"
  list_prompts_result_meta :: "'j option"

definition list_prompts_result_to_json :: "'j JsonApi \<Rightarrow> 'j ListPromptsResult \<Rightarrow> 'j" where
  "list_prompts_result_to_json api v =
     (let j = j_put api (j_empty_object api) ''prompts'' (put_list api (prompt_to_json api) (list_prompts_result_prompts v));
          j = put_optional api (j_of_string api) j ''nextCursor'' (list_prompts_result_nextCursor v);
          j = put_optional api put_json j ''_meta'' (list_prompts_result_meta v)
      in j)"

definition list_prompts_result_from_json :: "'j JsonApi \<Rightarrow> 'j \<Rightarrow> DecodeError + 'j ListPromptsResult" where
  "list_prompts_result_from_json api j =
     bindE (get_member api (get_list api (prompt_from_json api)) j ''prompts'') (\<lambda>prompts'.
     bindE (get_optional api (j_string api) j ''nextCursor'') (\<lambda>nextCursor'.
     bindE (get_if_present api get_json j ''_meta'') (\<lambda>meta'.
     Inr \<lparr>list_prompts_result_prompts = prompts', list_prompts_result_nextCursor = nextCursor', list_prompts_result_meta = meta'\<rparr>)))"

lemma list_prompts_result_object [codec]: "json_laws api \<Longrightarrow> j_is_object api (list_prompts_result_to_json api v)"
  by (simp add: list_prompts_result_to_json_def Let_def)

lemma list_prompts_result_roundtrip [codec]:
  "json_laws api \<Longrightarrow> list_prompts_result_from_json api (list_prompts_result_to_json api v) = Inr v"
  by (cases v) (simp add: list_prompts_result_to_json_def list_prompts_result_from_json_def Let_def codec)

text \<open>A reference of any type other than that of a prompt is read as one to a resource template.\<close>

lemma unknown_reference_accepted:
  assumes "json_laws api" "t \<noteq> ''ref/prompt''"
  shows "complete_reference_from_json api
      (j_put api (j_put api (j_empty_object api) ''type'' (j_of_string api t)) ''uri'' (j_of_string api u)) =
    Inr (Template_reference \<lparr>resource_template_reference_type = t, resource_template_reference_uri = u\<rparr>)"
proof -
  let ?j = "j_put api (j_put api (j_empty_object api) ''type'' (j_of_string api t)) ''uri'' (j_of_string api u)"
  have "j_at api ?j ''type'' = Inr (j_of_string api t)" using assms by (simp add: json_at)
  with assms show ?thesis by (simp add: complete_reference_from_json_def resource_template_reference_from_json_def codec)
qed

end
