(* ===== verification/ProtoTasks.thy ===== *)
theory ProtoTasks
  imports ProtoCapabilities
begin

text \<open>
  Roots, notifications and tasks (protocol/roots.hpp, notification.hpp and tasks.hpp). The parameters
  of a cancellation are with the client, which sends them.
\<close>

record 'j Root =
  root_uri :: string
  root_name :: "string option"
  root_meta :: "'j option"

definition root_to_json :: "'j JsonApi \<Rightarrow> 'j Root \<Rightarrow> 'j" where
  "root_to_json api v =
     (let j = j_put api (j_empty_object api) ''uri'' (j_of_string api (root_uri v));
          j = put_optional api (j_of_string api) j ''name'' (root_name v);
          j = put_optional api put_json j ''_meta'' (root_meta v)
      in j)"

definition root_from_json :: "'j JsonApi \<Rightarrow> 'j \<Rightarrow> DecodeError + 'j Root" where
  "root_from_json api j =
     bindE (get_member api (j_string api) j ''uri'') (\<lambda>uri'.
     bindE (get_optional api (j_string api) j ''name'') (\<lambda>name'.
     bindE (get_if_present api get_json j ''_meta'') (\<lambda>meta'.
     Inr \<lparr>root_uri = uri', root_name = name', root_meta = meta'\<rparr>)))"

lemma root_object [codec]: "json_laws api \<Longrightarrow> j_is_object api (root_to_json api v)"
  by (simp add: root_to_json_def Let_def)

lemma root_roundtrip [codec]:
  "json_laws api \<Longrightarrow> root_from_json api (root_to_json api v) = Inr v"
  by (cases v) (simp add: root_to_json_def root_from_json_def Let_def codec)

record ListRootsRequest =
  list_roots_request_method :: string

definition list_roots_request_to_json :: "'j JsonApi \<Rightarrow> ListRootsRequest \<Rightarrow> 'j" where
  "list_roots_request_to_json api v =
     j_put api (j_empty_object api) ''method'' (j_of_string api (list_roots_request_method v))"

definition list_roots_request_from_json :: "'j JsonApi \<Rightarrow> 'j \<Rightarrow> DecodeError + ListRootsRequest" where
  "list_roots_request_from_json api j =
     bindE (get_member api (j_string api) j ''method'') (\<lambda>method'.
     Inr \<lparr>list_roots_request_method = method'\<rparr>)"

lemma list_roots_request_object [codec]: "json_laws api \<Longrightarrow> j_is_object api (list_roots_request_to_json api v)"
  by (simp add: list_roots_request_to_json_def Let_def)

lemma list_roots_request_roundtrip [codec]:
  "json_laws api \<Longrightarrow> list_roots_request_from_json api (list_roots_request_to_json api v) = Inr v"
  by (cases v) (simp add: list_roots_request_to_json_def list_roots_request_from_json_def Let_def codec)

record 'j ListRootsResult =
  list_roots_result_roots :: "'j Root list"
  list_roots_result_meta :: "'j option"

definition list_roots_result_to_json :: "'j JsonApi \<Rightarrow> 'j ListRootsResult \<Rightarrow> 'j" where
  "list_roots_result_to_json api v =
     (let j = j_put api (j_empty_object api) ''roots'' (put_list api (root_to_json api) (list_roots_result_roots v));
          j = put_optional api put_json j ''_meta'' (list_roots_result_meta v)
      in j)"

definition list_roots_result_from_json :: "'j JsonApi \<Rightarrow> 'j \<Rightarrow> DecodeError + 'j ListRootsResult" where
  "list_roots_result_from_json api j =
     bindE (get_member api (get_list api (root_from_json api)) j ''roots'') (\<lambda>roots'.
     bindE (get_if_present api get_json j ''_meta'') (\<lambda>meta'.
     Inr \<lparr>list_roots_result_roots = roots', list_roots_result_meta = meta'\<rparr>))"

lemma list_roots_result_object [codec]: "json_laws api \<Longrightarrow> j_is_object api (list_roots_result_to_json api v)"
  by (simp add: list_roots_result_to_json_def Let_def)

lemma list_roots_result_roundtrip [codec]:
  "json_laws api \<Longrightarrow> list_roots_result_from_json api (list_roots_result_to_json api v) = Inr v"
  by (cases v) (simp add: list_roots_result_to_json_def list_roots_result_from_json_def Let_def codec)

datatype LoggingLevel = LoggingLevel_eEmergency | LoggingLevel_eAlert | LoggingLevel_eCritical | LoggingLevel_eError | LoggingLevel_eWarning | LoggingLevel_eNotice | LoggingLevel_eInfo | LoggingLevel_eDebug

definition logging_level_names :: "(LoggingLevel \<times> string) list" where
  "logging_level_names = [(LoggingLevel_eEmergency, ''emergency''), (LoggingLevel_eAlert, ''alert''), (LoggingLevel_eCritical, ''critical''), (LoggingLevel_eError, ''error''), (LoggingLevel_eWarning, ''warning''), (LoggingLevel_eNotice, ''notice''), (LoggingLevel_eInfo, ''info''), (LoggingLevel_eDebug, ''debug'')]"

definition logging_level_to_json :: "'j JsonApi \<Rightarrow> LoggingLevel \<Rightarrow> 'j" where
  "logging_level_to_json api = enum_to_json api logging_level_names"

definition logging_level_from_json :: "'j JsonApi \<Rightarrow> 'j \<Rightarrow> DecodeError + LoggingLevel" where
  "logging_level_from_json api = enum_from_json api logging_level_names"

lemma logging_level_roundtrip [codec]: "json_laws api \<Longrightarrow> logging_level_from_json api (logging_level_to_json api v) = Inr v"
  unfolding logging_level_from_json_def logging_level_to_json_def by (cases v) (auto intro!: enum_roundtrip simp: logging_level_names_def)

lemma logging_level_not_null [codec]: "json_laws api \<Longrightarrow> \<not> j_is_null api (logging_level_to_json api v)"
  by (simp add: logging_level_to_json_def codec)

record 'j SetLevelRequestParams =
  set_level_request_params_level :: LoggingLevel
  set_level_request_params_meta :: "'j option"

definition set_level_request_params_to_json :: "'j JsonApi \<Rightarrow> 'j SetLevelRequestParams \<Rightarrow> 'j" where
  "set_level_request_params_to_json api v =
     (let j = j_put api (j_empty_object api) ''level'' (logging_level_to_json api (set_level_request_params_level v));
          j = put_optional api put_json j ''_meta'' (set_level_request_params_meta v)
      in j)"

definition set_level_request_params_from_json :: "'j JsonApi \<Rightarrow> 'j \<Rightarrow> DecodeError + 'j SetLevelRequestParams" where
  "set_level_request_params_from_json api j =
     bindE (get_member api (logging_level_from_json api) j ''level'') (\<lambda>level'.
     bindE (get_optional api get_json j ''_meta'') (\<lambda>meta'.
     Inr \<lparr>set_level_request_params_level = level', set_level_request_params_meta = meta'\<rparr>))"

definition set_level_request_params_ok :: "'j JsonApi \<Rightarrow> 'j SetLevelRequestParams \<Rightarrow> bool" where
  "set_level_request_params_ok api v \<longleftrightarrow> (\<forall>y \<in> set_option (set_level_request_params_meta v). \<not> j_is_null api y)"

lemma set_level_request_params_object [codec]: "json_laws api \<Longrightarrow> j_is_object api (set_level_request_params_to_json api v)"
  by (simp add: set_level_request_params_to_json_def Let_def)

lemma set_level_request_params_roundtrip [codec]:
  "json_laws api \<Longrightarrow> set_level_request_params_ok api v \<Longrightarrow> set_level_request_params_from_json api (set_level_request_params_to_json api v) = Inr v"
  by (cases v) (simp add: set_level_request_params_to_json_def set_level_request_params_from_json_def set_level_request_params_ok_def Let_def codec)

record 'j SetLevelRequest =
  set_level_request_method :: string
  set_level_request_params :: "'j SetLevelRequestParams"

definition set_level_request_to_json :: "'j JsonApi \<Rightarrow> 'j SetLevelRequest \<Rightarrow> 'j" where
  "set_level_request_to_json api v =
     (let j = j_put api (j_empty_object api) ''method'' (j_of_string api (set_level_request_method v));
          j = j_put api j ''params'' (set_level_request_params_to_json api (set_level_request_params v))
      in j)"

definition set_level_request_from_json :: "'j JsonApi \<Rightarrow> 'j \<Rightarrow> DecodeError + 'j SetLevelRequest" where
  "set_level_request_from_json api j =
     bindE (get_member api (j_string api) j ''method'') (\<lambda>method'.
     bindE (get_member api (set_level_request_params_from_json api) j ''params'') (\<lambda>params'.
     Inr \<lparr>set_level_request_method = method', set_level_request_params = params'\<rparr>))"

definition set_level_request_ok :: "'j JsonApi \<Rightarrow> 'j SetLevelRequest \<Rightarrow> bool" where
  "set_level_request_ok api v \<longleftrightarrow> set_level_request_params_ok api (set_level_request_params v)"

lemma set_level_request_object [codec]: "json_laws api \<Longrightarrow> j_is_object api (set_level_request_to_json api v)"
  by (simp add: set_level_request_to_json_def Let_def)

lemma set_level_request_roundtrip [codec]:
  "json_laws api \<Longrightarrow> set_level_request_ok api v \<Longrightarrow> set_level_request_from_json api (set_level_request_to_json api v) = Inr v"
  by (cases v) (simp add: set_level_request_to_json_def set_level_request_from_json_def set_level_request_ok_def Let_def codec)

record InitializedNotification =
  initialized_notification_method :: string

definition initialized_notification_to_json :: "'j JsonApi \<Rightarrow> InitializedNotification \<Rightarrow> 'j" where
  "initialized_notification_to_json api v =
     j_put api (j_empty_object api) ''method'' (j_of_string api (initialized_notification_method v))"

definition initialized_notification_from_json :: "'j JsonApi \<Rightarrow> 'j \<Rightarrow> DecodeError + InitializedNotification" where
  "initialized_notification_from_json api j =
     bindE (get_member api (j_string api) j ''method'') (\<lambda>method'.
     Inr \<lparr>initialized_notification_method = method'\<rparr>)"

lemma initialized_notification_object [codec]: "json_laws api \<Longrightarrow> j_is_object api (initialized_notification_to_json api v)"
  by (simp add: initialized_notification_to_json_def Let_def)

lemma initialized_notification_roundtrip [codec]:
  "json_laws api \<Longrightarrow> initialized_notification_from_json api (initialized_notification_to_json api v) = Inr v"
  by (cases v) (simp add: initialized_notification_to_json_def initialized_notification_from_json_def Let_def codec)

record ProgressNotificationParams =
  progress_notification_params_progressToken :: RequestId
  progress_notification_params_progress :: double
  progress_notification_params_total :: "double option"
  progress_notification_params_message :: "string option"

definition progress_notification_params_to_json :: "'j JsonApi \<Rightarrow> ProgressNotificationParams \<Rightarrow> 'j" where
  "progress_notification_params_to_json api v =
     (let j = j_put api (j_empty_object api) ''progressToken'' (id_to_json api (progress_notification_params_progressToken v));
          j = j_put api j ''progress'' (j_of_double api (progress_notification_params_progress v));
          j = put_optional api (j_of_double api) j ''total'' (progress_notification_params_total v);
          j = put_optional api (j_of_string api) j ''message'' (progress_notification_params_message v)
      in j)"

definition progress_notification_params_from_json :: "'j JsonApi \<Rightarrow> 'j \<Rightarrow> DecodeError + ProgressNotificationParams" where
  "progress_notification_params_from_json api j =
     bindE (get_member api (id_from_json api) j ''progressToken'') (\<lambda>progressToken'.
     bindE (get_member api (j_double api) j ''progress'') (\<lambda>progress'.
     bindE (get_optional api (j_double api) j ''total'') (\<lambda>total'.
     bindE (get_optional api (j_string api) j ''message'') (\<lambda>message'.
     Inr \<lparr>progress_notification_params_progressToken = progressToken', progress_notification_params_progress = progress', progress_notification_params_total = total', progress_notification_params_message = message'\<rparr>))))"

definition progress_notification_params_ok :: "'j JsonApi \<Rightarrow> ProgressNotificationParams \<Rightarrow> bool" where
  "progress_notification_params_ok api v \<longleftrightarrow> id_ok (progress_notification_params_progressToken v)
     \<and> finite_double (progress_notification_params_progress v)
     \<and> (\<forall>y \<in> set_option (progress_notification_params_total v). finite_double y)"

lemma progress_notification_params_object [codec]: "json_laws api \<Longrightarrow> j_is_object api (progress_notification_params_to_json api v)"
  by (simp add: progress_notification_params_to_json_def Let_def)

lemma progress_notification_params_roundtrip [codec]:
  "json_laws api \<Longrightarrow> progress_notification_params_ok api v \<Longrightarrow> progress_notification_params_from_json api (progress_notification_params_to_json api v) = Inr v"
  by (cases v) (simp add: progress_notification_params_to_json_def progress_notification_params_from_json_def progress_notification_params_ok_def Let_def codec)

record ProgressNotification =
  progress_notification_method :: string
  progress_notification_params :: ProgressNotificationParams

definition progress_notification_to_json :: "'j JsonApi \<Rightarrow> ProgressNotification \<Rightarrow> 'j" where
  "progress_notification_to_json api v =
     (let j = j_put api (j_empty_object api) ''method'' (j_of_string api (progress_notification_method v));
          j = j_put api j ''params'' (progress_notification_params_to_json api (progress_notification_params v))
      in j)"

definition progress_notification_from_json :: "'j JsonApi \<Rightarrow> 'j \<Rightarrow> DecodeError + ProgressNotification" where
  "progress_notification_from_json api j =
     bindE (get_member api (j_string api) j ''method'') (\<lambda>method'.
     bindE (get_member api (progress_notification_params_from_json api) j ''params'') (\<lambda>params'.
     Inr \<lparr>progress_notification_method = method', progress_notification_params = params'\<rparr>))"

definition progress_notification_ok :: "'j JsonApi \<Rightarrow> ProgressNotification \<Rightarrow> bool" where
  "progress_notification_ok api v \<longleftrightarrow> progress_notification_params_ok api (progress_notification_params v)"

lemma progress_notification_object [codec]: "json_laws api \<Longrightarrow> j_is_object api (progress_notification_to_json api v)"
  by (simp add: progress_notification_to_json_def Let_def)

lemma progress_notification_roundtrip [codec]:
  "json_laws api \<Longrightarrow> progress_notification_ok api v \<Longrightarrow> progress_notification_from_json api (progress_notification_to_json api v) = Inr v"
  by (cases v) (simp add: progress_notification_to_json_def progress_notification_from_json_def progress_notification_ok_def Let_def codec)

record 'j LoggingMessageNotificationParams =
  logging_message_notification_params_level :: LoggingLevel
  logging_message_notification_params_logger :: "string option"
  logging_message_notification_params_data :: "'j"

definition logging_message_notification_params_to_json :: "'j JsonApi \<Rightarrow> 'j LoggingMessageNotificationParams \<Rightarrow> 'j" where
  "logging_message_notification_params_to_json api v =
     (let j = j_put api (j_empty_object api) ''level'' (logging_level_to_json api (logging_message_notification_params_level v));
          j = j_put api j ''data'' (logging_message_notification_params_data v);
          j = put_optional api (j_of_string api) j ''logger'' (logging_message_notification_params_logger v)
      in j)"

definition logging_message_notification_params_from_json :: "'j JsonApi \<Rightarrow> 'j \<Rightarrow> DecodeError + 'j LoggingMessageNotificationParams" where
  "logging_message_notification_params_from_json api j =
     bindE (get_member api (logging_level_from_json api) j ''level'') (\<lambda>level'.
     bindE (get_member api get_json j ''data'') (\<lambda>data'.
     bindE (get_optional api (j_string api) j ''logger'') (\<lambda>logger'.
     Inr \<lparr>logging_message_notification_params_level = level', logging_message_notification_params_logger = logger', logging_message_notification_params_data = data'\<rparr>)))"

lemma logging_message_notification_params_object [codec]: "json_laws api \<Longrightarrow> j_is_object api (logging_message_notification_params_to_json api v)"
  by (simp add: logging_message_notification_params_to_json_def Let_def)

lemma logging_message_notification_params_roundtrip [codec]:
  "json_laws api \<Longrightarrow> logging_message_notification_params_from_json api (logging_message_notification_params_to_json api v) = Inr v"
  by (cases v) (simp add: logging_message_notification_params_to_json_def logging_message_notification_params_from_json_def Let_def codec)

record 'j LoggingMessageNotification =
  logging_message_notification_method :: string
  logging_message_notification_params :: "'j LoggingMessageNotificationParams"

definition logging_message_notification_to_json :: "'j JsonApi \<Rightarrow> 'j LoggingMessageNotification \<Rightarrow> 'j" where
  "logging_message_notification_to_json api v =
     (let j = j_put api (j_empty_object api) ''method'' (j_of_string api (logging_message_notification_method v));
          j = j_put api j ''params'' (logging_message_notification_params_to_json api (logging_message_notification_params v))
      in j)"

definition logging_message_notification_from_json :: "'j JsonApi \<Rightarrow> 'j \<Rightarrow> DecodeError + 'j LoggingMessageNotification" where
  "logging_message_notification_from_json api j =
     bindE (get_member api (j_string api) j ''method'') (\<lambda>method'.
     bindE (get_member api (logging_message_notification_params_from_json api) j ''params'') (\<lambda>params'.
     Inr \<lparr>logging_message_notification_method = method', logging_message_notification_params = params'\<rparr>))"

lemma logging_message_notification_object [codec]: "json_laws api \<Longrightarrow> j_is_object api (logging_message_notification_to_json api v)"
  by (simp add: logging_message_notification_to_json_def Let_def)

lemma logging_message_notification_roundtrip [codec]:
  "json_laws api \<Longrightarrow> logging_message_notification_from_json api (logging_message_notification_to_json api v) = Inr v"
  by (cases v) (simp add: logging_message_notification_to_json_def logging_message_notification_from_json_def Let_def codec)

record PromptListChangedNotification =
  prompt_list_changed_notification_method :: string

definition prompt_list_changed_notification_to_json :: "'j JsonApi \<Rightarrow> PromptListChangedNotification \<Rightarrow> 'j" where
  "prompt_list_changed_notification_to_json api v =
     j_put api (j_empty_object api) ''method'' (j_of_string api (prompt_list_changed_notification_method v))"

definition prompt_list_changed_notification_from_json :: "'j JsonApi \<Rightarrow> 'j \<Rightarrow> DecodeError + PromptListChangedNotification" where
  "prompt_list_changed_notification_from_json api j =
     bindE (get_member api (j_string api) j ''method'') (\<lambda>method'.
     Inr \<lparr>prompt_list_changed_notification_method = method'\<rparr>)"

lemma prompt_list_changed_notification_object [codec]: "json_laws api \<Longrightarrow> j_is_object api (prompt_list_changed_notification_to_json api v)"
  by (simp add: prompt_list_changed_notification_to_json_def Let_def)

lemma prompt_list_changed_notification_roundtrip [codec]:
  "json_laws api \<Longrightarrow> prompt_list_changed_notification_from_json api (prompt_list_changed_notification_to_json api v) = Inr v"
  by (cases v) (simp add: prompt_list_changed_notification_to_json_def prompt_list_changed_notification_from_json_def Let_def codec)

record ResourceListChangedNotification =
  resource_list_changed_notification_method :: string

definition resource_list_changed_notification_to_json :: "'j JsonApi \<Rightarrow> ResourceListChangedNotification \<Rightarrow> 'j" where
  "resource_list_changed_notification_to_json api v =
     j_put api (j_empty_object api) ''method'' (j_of_string api (resource_list_changed_notification_method v))"

definition resource_list_changed_notification_from_json :: "'j JsonApi \<Rightarrow> 'j \<Rightarrow> DecodeError + ResourceListChangedNotification" where
  "resource_list_changed_notification_from_json api j =
     bindE (get_member api (j_string api) j ''method'') (\<lambda>method'.
     Inr \<lparr>resource_list_changed_notification_method = method'\<rparr>)"

lemma resource_list_changed_notification_object [codec]: "json_laws api \<Longrightarrow> j_is_object api (resource_list_changed_notification_to_json api v)"
  by (simp add: resource_list_changed_notification_to_json_def Let_def)

lemma resource_list_changed_notification_roundtrip [codec]:
  "json_laws api \<Longrightarrow> resource_list_changed_notification_from_json api (resource_list_changed_notification_to_json api v) = Inr v"
  by (cases v) (simp add: resource_list_changed_notification_to_json_def resource_list_changed_notification_from_json_def Let_def codec)

record ToolListChangedNotification =
  tool_list_changed_notification_method :: string

definition tool_list_changed_notification_to_json :: "'j JsonApi \<Rightarrow> ToolListChangedNotification \<Rightarrow> 'j" where
  "tool_list_changed_notification_to_json api v =
     j_put api (j_empty_object api) ''method'' (j_of_string api (tool_list_changed_notification_method v))"

definition tool_list_changed_notification_from_json :: "'j JsonApi \<Rightarrow> 'j \<Rightarrow> DecodeError + ToolListChangedNotification" where
  "tool_list_changed_notification_from_json api j =
     bindE (get_member api (j_string api) j ''method'') (\<lambda>method'.
     Inr \<lparr>tool_list_changed_notification_method = method'\<rparr>)"

lemma tool_list_changed_notification_object [codec]: "json_laws api \<Longrightarrow> j_is_object api (tool_list_changed_notification_to_json api v)"
  by (simp add: tool_list_changed_notification_to_json_def Let_def)

lemma tool_list_changed_notification_roundtrip [codec]:
  "json_laws api \<Longrightarrow> tool_list_changed_notification_from_json api (tool_list_changed_notification_to_json api v) = Inr v"
  by (cases v) (simp add: tool_list_changed_notification_to_json_def tool_list_changed_notification_from_json_def Let_def codec)

record RootsListChangedNotification =
  roots_list_changed_notification_method :: string

definition roots_list_changed_notification_to_json :: "'j JsonApi \<Rightarrow> RootsListChangedNotification \<Rightarrow> 'j" where
  "roots_list_changed_notification_to_json api v =
     j_put api (j_empty_object api) ''method'' (j_of_string api (roots_list_changed_notification_method v))"

definition roots_list_changed_notification_from_json :: "'j JsonApi \<Rightarrow> 'j \<Rightarrow> DecodeError + RootsListChangedNotification" where
  "roots_list_changed_notification_from_json api j =
     bindE (get_member api (j_string api) j ''method'') (\<lambda>method'.
     Inr \<lparr>roots_list_changed_notification_method = method'\<rparr>)"

lemma roots_list_changed_notification_object [codec]: "json_laws api \<Longrightarrow> j_is_object api (roots_list_changed_notification_to_json api v)"
  by (simp add: roots_list_changed_notification_to_json_def Let_def)

lemma roots_list_changed_notification_roundtrip [codec]:
  "json_laws api \<Longrightarrow> roots_list_changed_notification_from_json api (roots_list_changed_notification_to_json api v) = Inr v"
  by (cases v) (simp add: roots_list_changed_notification_to_json_def roots_list_changed_notification_from_json_def Let_def codec)

record ResourceUpdatedNotificationParams =
  resource_updated_notification_params_uri :: string

definition resource_updated_notification_params_to_json :: "'j JsonApi \<Rightarrow> ResourceUpdatedNotificationParams \<Rightarrow> 'j" where
  "resource_updated_notification_params_to_json api v =
     j_put api (j_empty_object api) ''uri'' (j_of_string api (resource_updated_notification_params_uri v))"

definition resource_updated_notification_params_from_json :: "'j JsonApi \<Rightarrow> 'j \<Rightarrow> DecodeError + ResourceUpdatedNotificationParams" where
  "resource_updated_notification_params_from_json api j =
     bindE (get_member api (j_string api) j ''uri'') (\<lambda>uri'.
     Inr \<lparr>resource_updated_notification_params_uri = uri'\<rparr>)"

lemma resource_updated_notification_params_object [codec]: "json_laws api \<Longrightarrow> j_is_object api (resource_updated_notification_params_to_json api v)"
  by (simp add: resource_updated_notification_params_to_json_def Let_def)

lemma resource_updated_notification_params_roundtrip [codec]:
  "json_laws api \<Longrightarrow> resource_updated_notification_params_from_json api (resource_updated_notification_params_to_json api v) = Inr v"
  by (cases v) (simp add: resource_updated_notification_params_to_json_def resource_updated_notification_params_from_json_def Let_def codec)

record ResourceUpdatedNotification =
  resource_updated_notification_method :: string
  resource_updated_notification_params :: ResourceUpdatedNotificationParams

definition resource_updated_notification_to_json :: "'j JsonApi \<Rightarrow> ResourceUpdatedNotification \<Rightarrow> 'j" where
  "resource_updated_notification_to_json api v =
     (let j = j_put api (j_empty_object api) ''method'' (j_of_string api (resource_updated_notification_method v));
          j = j_put api j ''params'' (resource_updated_notification_params_to_json api (resource_updated_notification_params v))
      in j)"

definition resource_updated_notification_from_json :: "'j JsonApi \<Rightarrow> 'j \<Rightarrow> DecodeError + ResourceUpdatedNotification" where
  "resource_updated_notification_from_json api j =
     bindE (get_member api (j_string api) j ''method'') (\<lambda>method'.
     bindE (get_member api (resource_updated_notification_params_from_json api) j ''params'') (\<lambda>params'.
     Inr \<lparr>resource_updated_notification_method = method', resource_updated_notification_params = params'\<rparr>))"

lemma resource_updated_notification_object [codec]: "json_laws api \<Longrightarrow> j_is_object api (resource_updated_notification_to_json api v)"
  by (simp add: resource_updated_notification_to_json_def Let_def)

lemma resource_updated_notification_roundtrip [codec]:
  "json_laws api \<Longrightarrow> resource_updated_notification_from_json api (resource_updated_notification_to_json api v) = Inr v"
  by (cases v) (simp add: resource_updated_notification_to_json_def resource_updated_notification_from_json_def Let_def codec)

record TaskStatusNotificationParams =
  task_status_notification_params_id :: string
  task_status_notification_params_status :: TaskStatus
  task_status_notification_params_metadata :: "TaskMetadata option"
  task_status_notification_params_message :: "string option"

definition task_status_notification_params_to_json :: "'j JsonApi \<Rightarrow> TaskStatusNotificationParams \<Rightarrow> 'j" where
  "task_status_notification_params_to_json api v =
     (let j = j_put api (j_empty_object api) ''id'' (j_of_string api (task_status_notification_params_id v));
          j = j_put api j ''status'' (task_status_to_json api (task_status_notification_params_status v));
          j = put_optional api (task_metadata_to_json api) j ''metadata'' (task_status_notification_params_metadata v);
          j = put_optional api (j_of_string api) j ''message'' (task_status_notification_params_message v)
      in j)"

definition task_status_notification_params_from_json :: "'j JsonApi \<Rightarrow> 'j \<Rightarrow> DecodeError + TaskStatusNotificationParams" where
  "task_status_notification_params_from_json api j =
     bindE (get_member api (j_string api) j ''id'') (\<lambda>id'.
     bindE (get_member api (task_status_from_json api) j ''status'') (\<lambda>status'.
     bindE (get_optional api (task_metadata_from_json api) j ''metadata'') (\<lambda>metadata'.
     bindE (get_optional api (j_string api) j ''message'') (\<lambda>message'.
     Inr \<lparr>task_status_notification_params_id = id', task_status_notification_params_status = status', task_status_notification_params_metadata = metadata', task_status_notification_params_message = message'\<rparr>))))"

definition task_status_notification_params_ok :: "'j JsonApi \<Rightarrow> TaskStatusNotificationParams \<Rightarrow> bool" where
  "task_status_notification_params_ok api v \<longleftrightarrow> (\<forall>y \<in> set_option (task_status_notification_params_metadata v). task_metadata_ok api y)"

lemma task_status_notification_params_object [codec]: "json_laws api \<Longrightarrow> j_is_object api (task_status_notification_params_to_json api v)"
  by (simp add: task_status_notification_params_to_json_def Let_def)

lemma task_status_notification_params_roundtrip [codec]:
  "json_laws api \<Longrightarrow> task_status_notification_params_ok api v \<Longrightarrow> task_status_notification_params_from_json api (task_status_notification_params_to_json api v) = Inr v"
  by (cases v) (simp add: task_status_notification_params_to_json_def task_status_notification_params_from_json_def task_status_notification_params_ok_def Let_def codec)

record TaskStatusNotification =
  task_status_notification_method :: string
  task_status_notification_params :: TaskStatusNotificationParams

definition task_status_notification_to_json :: "'j JsonApi \<Rightarrow> TaskStatusNotification \<Rightarrow> 'j" where
  "task_status_notification_to_json api v =
     (let j = j_put api (j_empty_object api) ''method'' (j_of_string api (task_status_notification_method v));
          j = j_put api j ''params'' (task_status_notification_params_to_json api (task_status_notification_params v))
      in j)"

definition task_status_notification_from_json :: "'j JsonApi \<Rightarrow> 'j \<Rightarrow> DecodeError + TaskStatusNotification" where
  "task_status_notification_from_json api j =
     bindE (get_member api (j_string api) j ''method'') (\<lambda>method'.
     bindE (get_member api (task_status_notification_params_from_json api) j ''params'') (\<lambda>params'.
     Inr \<lparr>task_status_notification_method = method', task_status_notification_params = params'\<rparr>))"

definition task_status_notification_ok :: "'j JsonApi \<Rightarrow> TaskStatusNotification \<Rightarrow> bool" where
  "task_status_notification_ok api v \<longleftrightarrow> task_status_notification_params_ok api (task_status_notification_params v)"

lemma task_status_notification_object [codec]: "json_laws api \<Longrightarrow> j_is_object api (task_status_notification_to_json api v)"
  by (simp add: task_status_notification_to_json_def Let_def)

lemma task_status_notification_roundtrip [codec]:
  "json_laws api \<Longrightarrow> task_status_notification_ok api v \<Longrightarrow> task_status_notification_from_json api (task_status_notification_to_json api v) = Inr v"
  by (cases v) (simp add: task_status_notification_to_json_def task_status_notification_from_json_def task_status_notification_ok_def Let_def codec)

record ElicitationCompleteNotificationParams =
  elicitation_complete_notification_params_requestId :: RequestId

definition elicitation_complete_notification_params_to_json :: "'j JsonApi \<Rightarrow> ElicitationCompleteNotificationParams \<Rightarrow> 'j" where
  "elicitation_complete_notification_params_to_json api v =
     j_put api (j_empty_object api) ''requestId'' (id_to_json api (elicitation_complete_notification_params_requestId v))"

definition elicitation_complete_notification_params_from_json :: "'j JsonApi \<Rightarrow> 'j \<Rightarrow> DecodeError + ElicitationCompleteNotificationParams" where
  "elicitation_complete_notification_params_from_json api j =
     bindE (get_member api (id_from_json api) j ''requestId'') (\<lambda>requestId'.
     Inr \<lparr>elicitation_complete_notification_params_requestId = requestId'\<rparr>)"

definition elicitation_complete_notification_params_ok :: "'j JsonApi \<Rightarrow> ElicitationCompleteNotificationParams \<Rightarrow> bool" where
  "elicitation_complete_notification_params_ok api v \<longleftrightarrow> id_ok (elicitation_complete_notification_params_requestId v)"

lemma elicitation_complete_notification_params_object [codec]: "json_laws api \<Longrightarrow> j_is_object api (elicitation_complete_notification_params_to_json api v)"
  by (simp add: elicitation_complete_notification_params_to_json_def Let_def)

lemma elicitation_complete_notification_params_roundtrip [codec]:
  "json_laws api \<Longrightarrow> elicitation_complete_notification_params_ok api v \<Longrightarrow> elicitation_complete_notification_params_from_json api (elicitation_complete_notification_params_to_json api v) = Inr v"
  by (cases v) (simp add: elicitation_complete_notification_params_to_json_def elicitation_complete_notification_params_from_json_def elicitation_complete_notification_params_ok_def Let_def codec)

record ElicitationCompleteNotification =
  elicitation_complete_notification_method :: string
  elicitation_complete_notification_params :: ElicitationCompleteNotificationParams

definition elicitation_complete_notification_to_json :: "'j JsonApi \<Rightarrow> ElicitationCompleteNotification \<Rightarrow> 'j" where
  "elicitation_complete_notification_to_json api v =
     (let j = j_put api (j_empty_object api) ''method'' (j_of_string api (elicitation_complete_notification_method v));
          j = j_put api j ''params'' (elicitation_complete_notification_params_to_json api (elicitation_complete_notification_params v))
      in j)"

definition elicitation_complete_notification_from_json :: "'j JsonApi \<Rightarrow> 'j \<Rightarrow> DecodeError + ElicitationCompleteNotification" where
  "elicitation_complete_notification_from_json api j =
     bindE (get_member api (j_string api) j ''method'') (\<lambda>method'.
     bindE (get_member api (elicitation_complete_notification_params_from_json api) j ''params'') (\<lambda>params'.
     Inr \<lparr>elicitation_complete_notification_method = method', elicitation_complete_notification_params = params'\<rparr>))"

definition elicitation_complete_notification_ok :: "'j JsonApi \<Rightarrow> ElicitationCompleteNotification \<Rightarrow> bool" where
  "elicitation_complete_notification_ok api v \<longleftrightarrow> elicitation_complete_notification_params_ok api (elicitation_complete_notification_params v)"

lemma elicitation_complete_notification_object [codec]: "json_laws api \<Longrightarrow> j_is_object api (elicitation_complete_notification_to_json api v)"
  by (simp add: elicitation_complete_notification_to_json_def Let_def)

lemma elicitation_complete_notification_roundtrip [codec]:
  "json_laws api \<Longrightarrow> elicitation_complete_notification_ok api v \<Longrightarrow> elicitation_complete_notification_from_json api (elicitation_complete_notification_to_json api v) = Inr v"
  by (cases v) (simp add: elicitation_complete_notification_to_json_def elicitation_complete_notification_from_json_def elicitation_complete_notification_ok_def Let_def codec)

record TaskData =
  task_data_taskId :: string
  task_data_status :: TaskStatus
  task_data_createdAt :: string
  task_data_lastUpdatedAt :: string
  task_data_ttl :: int
  task_data_pollInterval :: "int option"
  task_data_statusMessage :: "string option"

definition task_data_to_json :: "'j JsonApi \<Rightarrow> TaskData \<Rightarrow> 'j" where
  "task_data_to_json api v =
     (let j = j_put api (j_empty_object api) ''taskId'' (j_of_string api (task_data_taskId v));
          j = j_put api j ''status'' (task_status_to_json api (task_data_status v));
          j = j_put api j ''createdAt'' (j_of_string api (task_data_createdAt v));
          j = j_put api j ''lastUpdatedAt'' (j_of_string api (task_data_lastUpdatedAt v));
          j = j_put api j ''ttl'' (j_of_int api (task_data_ttl v));
          j = put_optional api (j_of_int api) j ''pollInterval'' (task_data_pollInterval v);
          j = put_optional api (j_of_string api) j ''statusMessage'' (task_data_statusMessage v)
      in j)"

definition task_data_from_json :: "'j JsonApi \<Rightarrow> 'j \<Rightarrow> DecodeError + TaskData" where
  "task_data_from_json api j =
     bindE (get_member api (j_string api) j ''taskId'') (\<lambda>taskId'.
     bindE (get_member api (task_status_from_json api) j ''status'') (\<lambda>status'.
     bindE (get_member api (j_string api) j ''createdAt'') (\<lambda>createdAt'.
     bindE (get_member api (j_string api) j ''lastUpdatedAt'') (\<lambda>lastUpdatedAt'.
     bindE (get_member api (j_int api) j ''ttl'') (\<lambda>ttl'.
     bindE (get_optional api (j_int api) j ''pollInterval'') (\<lambda>pollInterval'.
     bindE (get_optional api (j_string api) j ''statusMessage'') (\<lambda>statusMessage'.
     Inr \<lparr>task_data_taskId = taskId', task_data_status = status', task_data_createdAt = createdAt', task_data_lastUpdatedAt = lastUpdatedAt', task_data_ttl = ttl', task_data_pollInterval = pollInterval', task_data_statusMessage = statusMessage'\<rparr>)))))))"

definition task_data_ok :: "'j JsonApi \<Rightarrow> TaskData \<Rightarrow> bool" where
  "task_data_ok api v \<longleftrightarrow> int64_range (task_data_ttl v)
     \<and> (\<forall>y \<in> set_option (task_data_pollInterval v). int64_range y)"

lemma task_data_object [codec]: "json_laws api \<Longrightarrow> j_is_object api (task_data_to_json api v)"
  by (simp add: task_data_to_json_def Let_def)

lemma task_data_roundtrip [codec]:
  "json_laws api \<Longrightarrow> task_data_ok api v \<Longrightarrow> task_data_from_json api (task_data_to_json api v) = Inr v"
  by (cases v) (simp add: task_data_to_json_def task_data_from_json_def task_data_ok_def Let_def codec)

record 'j CreateTaskResult =
  create_task_result_task :: TaskData
  create_task_result_meta :: "'j option"

definition create_task_result_to_json :: "'j JsonApi \<Rightarrow> 'j CreateTaskResult \<Rightarrow> 'j" where
  "create_task_result_to_json api v =
     (let j = j_put api (j_empty_object api) ''task'' (task_data_to_json api (create_task_result_task v));
          j = put_optional api put_json j ''_meta'' (create_task_result_meta v)
      in j)"

definition create_task_result_from_json :: "'j JsonApi \<Rightarrow> 'j \<Rightarrow> DecodeError + 'j CreateTaskResult" where
  "create_task_result_from_json api j =
     bindE (get_member api (task_data_from_json api) j ''task'') (\<lambda>task'.
     bindE (get_if_present api get_json j ''_meta'') (\<lambda>meta'.
     Inr \<lparr>create_task_result_task = task', create_task_result_meta = meta'\<rparr>))"

definition create_task_result_ok :: "'j JsonApi \<Rightarrow> 'j CreateTaskResult \<Rightarrow> bool" where
  "create_task_result_ok api v \<longleftrightarrow> task_data_ok api (create_task_result_task v)"

lemma create_task_result_object [codec]: "json_laws api \<Longrightarrow> j_is_object api (create_task_result_to_json api v)"
  by (simp add: create_task_result_to_json_def Let_def)

lemma create_task_result_roundtrip [codec]:
  "json_laws api \<Longrightarrow> create_task_result_ok api v \<Longrightarrow> create_task_result_from_json api (create_task_result_to_json api v) = Inr v"
  by (cases v) (simp add: create_task_result_to_json_def create_task_result_from_json_def create_task_result_ok_def Let_def codec)

record 'j GetTaskResult =
  get_task_result_taskId :: string
  get_task_result_status :: TaskStatus
  get_task_result_createdAt :: string
  get_task_result_lastUpdatedAt :: string
  get_task_result_ttl :: int
  get_task_result_pollInterval :: "int option"
  get_task_result_statusMessage :: "string option"
  get_task_result_meta :: "'j option"

definition get_task_result_to_json :: "'j JsonApi \<Rightarrow> 'j GetTaskResult \<Rightarrow> 'j" where
  "get_task_result_to_json api v =
     (let j = j_put api (j_empty_object api) ''taskId'' (j_of_string api (get_task_result_taskId v));
          j = j_put api j ''status'' (task_status_to_json api (get_task_result_status v));
          j = j_put api j ''createdAt'' (j_of_string api (get_task_result_createdAt v));
          j = j_put api j ''lastUpdatedAt'' (j_of_string api (get_task_result_lastUpdatedAt v));
          j = j_put api j ''ttl'' (j_of_int api (get_task_result_ttl v));
          j = put_optional api (j_of_int api) j ''pollInterval'' (get_task_result_pollInterval v);
          j = put_optional api (j_of_string api) j ''statusMessage'' (get_task_result_statusMessage v);
          j = put_optional api put_json j ''_meta'' (get_task_result_meta v)
      in j)"

definition get_task_result_from_json :: "'j JsonApi \<Rightarrow> 'j \<Rightarrow> DecodeError + 'j GetTaskResult" where
  "get_task_result_from_json api j =
     bindE (get_member api (j_string api) j ''taskId'') (\<lambda>taskId'.
     bindE (get_member api (task_status_from_json api) j ''status'') (\<lambda>status'.
     bindE (get_member api (j_string api) j ''createdAt'') (\<lambda>createdAt'.
     bindE (get_member api (j_string api) j ''lastUpdatedAt'') (\<lambda>lastUpdatedAt'.
     bindE (get_member api (j_int api) j ''ttl'') (\<lambda>ttl'.
     bindE (get_optional api (j_int api) j ''pollInterval'') (\<lambda>pollInterval'.
     bindE (get_optional api (j_string api) j ''statusMessage'') (\<lambda>statusMessage'.
     bindE (get_if_present api get_json j ''_meta'') (\<lambda>meta'.
     Inr \<lparr>get_task_result_taskId = taskId', get_task_result_status = status', get_task_result_createdAt = createdAt', get_task_result_lastUpdatedAt = lastUpdatedAt', get_task_result_ttl = ttl', get_task_result_pollInterval = pollInterval', get_task_result_statusMessage = statusMessage', get_task_result_meta = meta'\<rparr>))))))))"

definition get_task_result_ok :: "'j JsonApi \<Rightarrow> 'j GetTaskResult \<Rightarrow> bool" where
  "get_task_result_ok api v \<longleftrightarrow> int64_range (get_task_result_ttl v)
     \<and> (\<forall>y \<in> set_option (get_task_result_pollInterval v). int64_range y)"

lemma get_task_result_object [codec]: "json_laws api \<Longrightarrow> j_is_object api (get_task_result_to_json api v)"
  by (simp add: get_task_result_to_json_def Let_def)

lemma get_task_result_roundtrip [codec]:
  "json_laws api \<Longrightarrow> get_task_result_ok api v \<Longrightarrow> get_task_result_from_json api (get_task_result_to_json api v) = Inr v"
  by (cases v) (simp add: get_task_result_to_json_def get_task_result_from_json_def get_task_result_ok_def Let_def codec)

record 'j ListTasksResult =
  list_tasks_result_tasks :: "TaskData list"
  list_tasks_result_nextCursor :: "string option"
  list_tasks_result_meta :: "'j option"

definition list_tasks_result_to_json :: "'j JsonApi \<Rightarrow> 'j ListTasksResult \<Rightarrow> 'j" where
  "list_tasks_result_to_json api v =
     (let j = j_put api (j_empty_object api) ''tasks'' (put_list api (task_data_to_json api) (list_tasks_result_tasks v));
          j = put_optional api (j_of_string api) j ''nextCursor'' (list_tasks_result_nextCursor v);
          j = put_optional api put_json j ''_meta'' (list_tasks_result_meta v)
      in j)"

definition list_tasks_result_from_json :: "'j JsonApi \<Rightarrow> 'j \<Rightarrow> DecodeError + 'j ListTasksResult" where
  "list_tasks_result_from_json api j =
     bindE (get_member api (get_list api (task_data_from_json api)) j ''tasks'') (\<lambda>tasks'.
     bindE (get_optional api (j_string api) j ''nextCursor'') (\<lambda>nextCursor'.
     bindE (get_if_present api get_json j ''_meta'') (\<lambda>meta'.
     Inr \<lparr>list_tasks_result_tasks = tasks', list_tasks_result_nextCursor = nextCursor', list_tasks_result_meta = meta'\<rparr>)))"

definition list_tasks_result_ok :: "'j JsonApi \<Rightarrow> 'j ListTasksResult \<Rightarrow> bool" where
  "list_tasks_result_ok api v \<longleftrightarrow> (\<forall>y \<in> set (list_tasks_result_tasks v). task_data_ok api y)"

lemma list_tasks_result_object [codec]: "json_laws api \<Longrightarrow> j_is_object api (list_tasks_result_to_json api v)"
  by (simp add: list_tasks_result_to_json_def Let_def)

lemma list_tasks_result_roundtrip [codec]:
  "json_laws api \<Longrightarrow> list_tasks_result_ok api v \<Longrightarrow> list_tasks_result_from_json api (list_tasks_result_to_json api v) = Inr v"
  by (cases v) (simp add: list_tasks_result_to_json_def list_tasks_result_from_json_def list_tasks_result_ok_def Let_def codec)

record GetTaskRequestParams =
  get_task_request_params_id :: string

definition get_task_request_params_to_json :: "'j JsonApi \<Rightarrow> GetTaskRequestParams \<Rightarrow> 'j" where
  "get_task_request_params_to_json api v =
     j_put api (j_empty_object api) ''id'' (j_of_string api (get_task_request_params_id v))"

definition get_task_request_params_from_json :: "'j JsonApi \<Rightarrow> 'j \<Rightarrow> DecodeError + GetTaskRequestParams" where
  "get_task_request_params_from_json api j =
     bindE (get_member api (j_string api) j ''id'') (\<lambda>id'.
     Inr \<lparr>get_task_request_params_id = id'\<rparr>)"

lemma get_task_request_params_object [codec]: "json_laws api \<Longrightarrow> j_is_object api (get_task_request_params_to_json api v)"
  by (simp add: get_task_request_params_to_json_def Let_def)

lemma get_task_request_params_roundtrip [codec]:
  "json_laws api \<Longrightarrow> get_task_request_params_from_json api (get_task_request_params_to_json api v) = Inr v"
  by (cases v) (simp add: get_task_request_params_to_json_def get_task_request_params_from_json_def Let_def codec)

record GetTaskRequest =
  get_task_request_method :: string
  get_task_request_params :: GetTaskRequestParams

definition get_task_request_to_json :: "'j JsonApi \<Rightarrow> GetTaskRequest \<Rightarrow> 'j" where
  "get_task_request_to_json api v =
     (let j = j_put api (j_empty_object api) ''method'' (j_of_string api (get_task_request_method v));
          j = j_put api j ''params'' (get_task_request_params_to_json api (get_task_request_params v))
      in j)"

definition get_task_request_from_json :: "'j JsonApi \<Rightarrow> 'j \<Rightarrow> DecodeError + GetTaskRequest" where
  "get_task_request_from_json api j =
     bindE (get_member api (j_string api) j ''method'') (\<lambda>method'.
     bindE (get_member api (get_task_request_params_from_json api) j ''params'') (\<lambda>params'.
     Inr \<lparr>get_task_request_method = method', get_task_request_params = params'\<rparr>))"

lemma get_task_request_object [codec]: "json_laws api \<Longrightarrow> j_is_object api (get_task_request_to_json api v)"
  by (simp add: get_task_request_to_json_def Let_def)

lemma get_task_request_roundtrip [codec]:
  "json_laws api \<Longrightarrow> get_task_request_from_json api (get_task_request_to_json api v) = Inr v"
  by (cases v) (simp add: get_task_request_to_json_def get_task_request_from_json_def Let_def codec)

record CancelTaskRequestParams =
  cancel_task_request_params_id :: string

definition cancel_task_request_params_to_json :: "'j JsonApi \<Rightarrow> CancelTaskRequestParams \<Rightarrow> 'j" where
  "cancel_task_request_params_to_json api v =
     j_put api (j_empty_object api) ''id'' (j_of_string api (cancel_task_request_params_id v))"

definition cancel_task_request_params_from_json :: "'j JsonApi \<Rightarrow> 'j \<Rightarrow> DecodeError + CancelTaskRequestParams" where
  "cancel_task_request_params_from_json api j =
     bindE (get_member api (j_string api) j ''id'') (\<lambda>id'.
     Inr \<lparr>cancel_task_request_params_id = id'\<rparr>)"

lemma cancel_task_request_params_object [codec]: "json_laws api \<Longrightarrow> j_is_object api (cancel_task_request_params_to_json api v)"
  by (simp add: cancel_task_request_params_to_json_def Let_def)

lemma cancel_task_request_params_roundtrip [codec]:
  "json_laws api \<Longrightarrow> cancel_task_request_params_from_json api (cancel_task_request_params_to_json api v) = Inr v"
  by (cases v) (simp add: cancel_task_request_params_to_json_def cancel_task_request_params_from_json_def Let_def codec)

record CancelTaskRequest =
  cancel_task_request_method :: string
  cancel_task_request_params :: CancelTaskRequestParams

definition cancel_task_request_to_json :: "'j JsonApi \<Rightarrow> CancelTaskRequest \<Rightarrow> 'j" where
  "cancel_task_request_to_json api v =
     (let j = j_put api (j_empty_object api) ''method'' (j_of_string api (cancel_task_request_method v));
          j = j_put api j ''params'' (cancel_task_request_params_to_json api (cancel_task_request_params v))
      in j)"

definition cancel_task_request_from_json :: "'j JsonApi \<Rightarrow> 'j \<Rightarrow> DecodeError + CancelTaskRequest" where
  "cancel_task_request_from_json api j =
     bindE (get_member api (j_string api) j ''method'') (\<lambda>method'.
     bindE (get_member api (cancel_task_request_params_from_json api) j ''params'') (\<lambda>params'.
     Inr \<lparr>cancel_task_request_method = method', cancel_task_request_params = params'\<rparr>))"

lemma cancel_task_request_object [codec]: "json_laws api \<Longrightarrow> j_is_object api (cancel_task_request_to_json api v)"
  by (simp add: cancel_task_request_to_json_def Let_def)

lemma cancel_task_request_roundtrip [codec]:
  "json_laws api \<Longrightarrow> cancel_task_request_from_json api (cancel_task_request_to_json api v) = Inr v"
  by (cases v) (simp add: cancel_task_request_to_json_def cancel_task_request_from_json_def Let_def codec)

record 'j CancelTaskResult =
  cancel_task_result_meta :: "'j option"

definition cancel_task_result_to_json :: "'j JsonApi \<Rightarrow> 'j CancelTaskResult \<Rightarrow> 'j" where
  "cancel_task_result_to_json api v =
     put_optional api put_json (j_empty_object api) ''_meta'' (cancel_task_result_meta v)"

definition cancel_task_result_from_json :: "'j JsonApi \<Rightarrow> 'j \<Rightarrow> DecodeError + 'j CancelTaskResult" where
  "cancel_task_result_from_json api j =
     bindE (get_if_present api get_json j ''_meta'') (\<lambda>meta'.
     Inr \<lparr>cancel_task_result_meta = meta'\<rparr>)"

lemma cancel_task_result_object [codec]: "json_laws api \<Longrightarrow> j_is_object api (cancel_task_result_to_json api v)"
  by (simp add: cancel_task_result_to_json_def Let_def)

lemma cancel_task_result_roundtrip [codec]:
  "json_laws api \<Longrightarrow> cancel_task_result_from_json api (cancel_task_result_to_json api v) = Inr v"
  by (cases v) (simp add: cancel_task_result_to_json_def cancel_task_result_from_json_def Let_def codec)

record ListTasksRequestParams =
  list_tasks_request_params_cursor :: "string option"

definition list_tasks_request_params_to_json :: "'j JsonApi \<Rightarrow> ListTasksRequestParams \<Rightarrow> 'j" where
  "list_tasks_request_params_to_json api v =
     put_optional api (j_of_string api) (j_empty_object api) ''cursor'' (list_tasks_request_params_cursor v)"

definition list_tasks_request_params_from_json :: "'j JsonApi \<Rightarrow> 'j \<Rightarrow> DecodeError + ListTasksRequestParams" where
  "list_tasks_request_params_from_json api j =
     bindE (get_optional api (j_string api) j ''cursor'') (\<lambda>cursor'.
     Inr \<lparr>list_tasks_request_params_cursor = cursor'\<rparr>)"

lemma list_tasks_request_params_object [codec]: "json_laws api \<Longrightarrow> j_is_object api (list_tasks_request_params_to_json api v)"
  by (simp add: list_tasks_request_params_to_json_def Let_def)

lemma list_tasks_request_params_roundtrip [codec]:
  "json_laws api \<Longrightarrow> list_tasks_request_params_from_json api (list_tasks_request_params_to_json api v) = Inr v"
  by (cases v) (simp add: list_tasks_request_params_to_json_def list_tasks_request_params_from_json_def Let_def codec)

record ListTasksRequest =
  list_tasks_request_method :: string
  list_tasks_request_params :: "ListTasksRequestParams option"

definition list_tasks_request_to_json :: "'j JsonApi \<Rightarrow> ListTasksRequest \<Rightarrow> 'j" where
  "list_tasks_request_to_json api v =
     (let j = j_put api (j_empty_object api) ''method'' (j_of_string api (list_tasks_request_method v));
          j = put_optional api (list_tasks_request_params_to_json api) j ''params'' (list_tasks_request_params v)
      in j)"

definition list_tasks_request_from_json :: "'j JsonApi \<Rightarrow> 'j \<Rightarrow> DecodeError + ListTasksRequest" where
  "list_tasks_request_from_json api j =
     bindE (get_member api (j_string api) j ''method'') (\<lambda>method'.
     bindE (get_if_present api (list_tasks_request_params_from_json api) j ''params'') (\<lambda>params'.
     Inr \<lparr>list_tasks_request_method = method', list_tasks_request_params = params'\<rparr>))"

lemma list_tasks_request_object [codec]: "json_laws api \<Longrightarrow> j_is_object api (list_tasks_request_to_json api v)"
  by (simp add: list_tasks_request_to_json_def Let_def)

lemma list_tasks_request_roundtrip [codec]:
  "json_laws api \<Longrightarrow> list_tasks_request_from_json api (list_tasks_request_to_json api v) = Inr v"
  by (cases v) (simp add: list_tasks_request_to_json_def list_tasks_request_from_json_def Let_def codec)

record GetTaskPayloadRequestParams =
  get_task_payload_request_params_id :: string

definition get_task_payload_request_params_to_json :: "'j JsonApi \<Rightarrow> GetTaskPayloadRequestParams \<Rightarrow> 'j" where
  "get_task_payload_request_params_to_json api v =
     j_put api (j_empty_object api) ''id'' (j_of_string api (get_task_payload_request_params_id v))"

definition get_task_payload_request_params_from_json :: "'j JsonApi \<Rightarrow> 'j \<Rightarrow> DecodeError + GetTaskPayloadRequestParams" where
  "get_task_payload_request_params_from_json api j =
     bindE (get_member api (j_string api) j ''id'') (\<lambda>id'.
     Inr \<lparr>get_task_payload_request_params_id = id'\<rparr>)"

lemma get_task_payload_request_params_object [codec]: "json_laws api \<Longrightarrow> j_is_object api (get_task_payload_request_params_to_json api v)"
  by (simp add: get_task_payload_request_params_to_json_def Let_def)

lemma get_task_payload_request_params_roundtrip [codec]:
  "json_laws api \<Longrightarrow> get_task_payload_request_params_from_json api (get_task_payload_request_params_to_json api v) = Inr v"
  by (cases v) (simp add: get_task_payload_request_params_to_json_def get_task_payload_request_params_from_json_def Let_def codec)

record GetTaskPayloadRequest =
  get_task_payload_request_method :: string
  get_task_payload_request_params :: GetTaskPayloadRequestParams

definition get_task_payload_request_to_json :: "'j JsonApi \<Rightarrow> GetTaskPayloadRequest \<Rightarrow> 'j" where
  "get_task_payload_request_to_json api v =
     (let j = j_put api (j_empty_object api) ''method'' (j_of_string api (get_task_payload_request_method v));
          j = j_put api j ''params'' (get_task_payload_request_params_to_json api (get_task_payload_request_params v))
      in j)"

definition get_task_payload_request_from_json :: "'j JsonApi \<Rightarrow> 'j \<Rightarrow> DecodeError + GetTaskPayloadRequest" where
  "get_task_payload_request_from_json api j =
     bindE (get_member api (j_string api) j ''method'') (\<lambda>method'.
     bindE (get_member api (get_task_payload_request_params_from_json api) j ''params'') (\<lambda>params'.
     Inr \<lparr>get_task_payload_request_method = method', get_task_payload_request_params = params'\<rparr>))"

lemma get_task_payload_request_object [codec]: "json_laws api \<Longrightarrow> j_is_object api (get_task_payload_request_to_json api v)"
  by (simp add: get_task_payload_request_to_json_def Let_def)

lemma get_task_payload_request_roundtrip [codec]:
  "json_laws api \<Longrightarrow> get_task_payload_request_from_json api (get_task_payload_request_to_json api v) = Inr v"
  by (cases v) (simp add: get_task_payload_request_to_json_def get_task_payload_request_from_json_def Let_def codec)

record 'j GetTaskPayloadResult =
  get_task_payload_result_payload :: "'j"
  get_task_payload_result_meta :: "'j option"

definition get_task_payload_result_to_json :: "'j JsonApi \<Rightarrow> 'j GetTaskPayloadResult \<Rightarrow> 'j" where
  "get_task_payload_result_to_json api v =
     (let j = j_put api (j_empty_object api) ''payload'' (get_task_payload_result_payload v);
          j = put_optional api put_json j ''_meta'' (get_task_payload_result_meta v)
      in j)"

definition get_task_payload_result_from_json :: "'j JsonApi \<Rightarrow> 'j \<Rightarrow> DecodeError + 'j GetTaskPayloadResult" where
  "get_task_payload_result_from_json api j =
     bindE (get_member api get_json j ''payload'') (\<lambda>payload'.
     bindE (get_if_present api get_json j ''_meta'') (\<lambda>meta'.
     Inr \<lparr>get_task_payload_result_payload = payload', get_task_payload_result_meta = meta'\<rparr>))"

lemma get_task_payload_result_object [codec]: "json_laws api \<Longrightarrow> j_is_object api (get_task_payload_result_to_json api v)"
  by (simp add: get_task_payload_result_to_json_def Let_def)

lemma get_task_payload_result_roundtrip [codec]:
  "json_laws api \<Longrightarrow> get_task_payload_result_from_json api (get_task_payload_result_to_json api v) = Inr v"
  by (cases v) (simp add: get_task_payload_result_to_json_def get_task_payload_result_from_json_def Let_def codec)

text \<open>A level that does not exist is read as the most severe one, at which nothing else is logged.\<close>

lemma unknown_level_accepted:
  assumes "json_laws api" "s \<notin> snd ` set logging_level_names"
  shows "set_level_request_params_from_json api (j_put api (j_empty_object api) ''level'' (j_of_string api s)) =
    Inr \<lparr>set_level_request_params_level = LoggingLevel_eEmergency, set_level_request_params_meta = None\<rparr>"
  using assms enum_unknown [of api s logging_level_names]
  by (simp add: set_level_request_params_from_json_def logging_level_from_json_def codec decode_optional_def logging_level_names_def)

end
