(* ===== verification/ServerHandlers.thy ===== *)
theory ServerHandlers
  imports ServerTools ServerPages UriTemplate ProtoResources ProtoPrompts ProtoTasks
begin

text \<open>
  The server's registrations, its state, and one function per request (server/server.cpp). A request
  is either answered at once, or waits for a handler of the application: then it is a \<open>Work\<close>, which is
  run later, when other messages may have changed the state. An answer is a wire text.
\<close>

subsection \<open>Registrations\<close>

record ('j, 'w) TemplateRegistration =
  rt_metadata :: "'j ResourceTemplate"
  rt_source :: string
  rt_matcher :: "UriMatchState list"
  rt_handler :: "('j, 'w World) Handler option"

type_synonym ('j, 'w) CompletionHandler = "'j CompleteParams \<Rightarrow> 'w World \<Rightarrow> (Exception + 'j CompleteResult) \<times> 'w World"
type_synonym 'w SubscriptionHandler = "string \<Rightarrow> 'w World \<Rightarrow> Exception option \<times> 'w World"

record ('j, 's, 'w) ServerConfig =
  sc_info :: Implementation
  sc_capabilities :: "'j ServerCapabilities"
  sc_instructions :: "string option"
  sc_discover_ttl_ms :: "int option"
  sc_discover_cache_scope :: "CacheScope option"
  sc_page_size :: "64 word"
  sc_tools :: "('j, 's, 'w) Tools"
  sc_resources :: "'j Resource list"
  sc_resource_handlers :: "string \<Rightarrow> ('j, 'w World) Handler option"
  sc_templates :: "('j, 'w) TemplateRegistration list"
  sc_prompts :: "'j Prompt list"
  sc_prompt_handlers :: "string \<Rightarrow> ('j, 'w World) Handler option"
  sc_completion :: "('j, 'w) CompletionHandler option"
  sc_subscribe :: "'w SubscriptionHandler option"
  sc_unsubscribe :: "'w SubscriptionHandler option"

definition register_resource :: "'j Resource \<Rightarrow> ('j, 'w World) Handler \<Rightarrow> ('j, 's, 'w) ServerConfig \<Rightarrow> string + ('j, 's, 'w) ServerConfig" where
  "register_resource resource handler cfg =
     (let uri = resource_uri resource in
      if sc_resource_handlers cfg uri \<noteq> None then Inl (''Duplicate resource registration: '' @ uri)
      else Inr (cfg\<lparr>sc_resources := sc_resources cfg @ [resource],
             sc_resource_handlers := (sc_resource_handlers cfg)(uri \<mapsto> handler)\<rparr>))"

definition register_prompt :: "'j Prompt \<Rightarrow> ('j, 'w World) Handler \<Rightarrow> ('j, 's, 'w) ServerConfig \<Rightarrow> string + ('j, 's, 'w) ServerConfig" where
  "register_prompt prompt handler cfg =
     (let name = prompt_name prompt in
      if sc_prompt_handlers cfg name \<noteq> None then Inl (''Duplicate prompt registration: '' @ name)
      else Inr (cfg\<lparr>sc_prompts := sc_prompts cfg @ [prompt],
             sc_prompt_handlers := (sc_prompt_handlers cfg)(name \<mapsto> handler)\<rparr>))"

fun clashing_template :: "('j, 'w) TemplateRegistration list \<Rightarrow> string \<Rightarrow> string \<Rightarrow> string option" where
  "clashing_template [] template source = None"
| "clashing_template (r # rs) template source =
     (if resource_template_uriTemplate (rt_metadata r) = template then Some (''Duplicate resource URI template: '' @ template)
      else if rt_source r = source then Some (''Ambiguous resource URI template: '' @ template)
      else clashing_template rs template source)"

definition register_resource_template :: "'j ResourceTemplate \<Rightarrow> ('j, 'w World) Handler option \<Rightarrow> ('j, 's, 'w) ServerConfig
    \<Rightarrow> string + ('j, 's, 'w) ServerConfig" where
  "register_resource_template tmpl handler cfg =
     bindE (compile_uri_template (resource_template_uriTemplate tmpl)) (\<lambda>pattern.
       case clashing_template (sc_templates cfg) (resource_template_uriTemplate tmpl) (up_source pattern) of
         Some e \<Rightarrow> Inl e
       | None \<Rightarrow> Inr (cfg\<lparr>sc_templates := sc_templates cfg @
           [\<lparr>rt_metadata = tmpl, rt_source = up_source pattern, rt_matcher = up_matcher pattern, rt_handler = handler\<rparr>]\<rparr>))"

definition set_discover_ttl_ms :: "int \<Rightarrow> ('j, 's, 'w) ServerConfig \<Rightarrow> string + ('j, 's, 'w) ServerConfig" where
  "set_discover_ttl_ms ttl_ms cfg =
     (if ttl_ms < 0 then Inl ''Discover ttlMs must be >= 0'' else Inr (cfg\<lparr>sc_discover_ttl_ms := Some ttl_ms\<rparr>))"

subsection \<open>State\<close>

datatype LifecycleState = Uninitialized | Awaiting_initialized | Ready

text \<open>
  A session, without the table of its own requests to the client, which the next theory holds. A cancellation flag is shared by a running tool and the table \<open>in_flight\<close>; it is named by
  the number of the dispatch it was made for.
\<close>

record Session =
  sn_http :: bool
  sn_in_flight :: "string \<Rightarrow> nat option"
  sn_subscriptions :: "string \<Rightarrow> nat option"
  sn_stopping :: bool

record ('j, 'w) ServerState =
  ss_lifecycle :: LifecycleState
  ss_terminated_at_initialize :: nat
  ss_shutdown_requested :: bool
  ss_log_level :: LoggingLevel
  ss_world :: "'w World"
  ss_session :: "Session option"
  ss_terminated_sessions :: nat
  ss_cancelled :: "nat set"

definition session_epoch :: "('j, 'w, 'z) ServerState_scheme \<Rightarrow> Session \<Rightarrow> nat" where
  "session_epoch s sn = (if sn_http sn then ss_terminated_sessions s else 0)"

definition transport_started_new_session :: "('j, 'w, 'z) ServerState_scheme \<Rightarrow> bool" where
  "transport_started_new_session s =
     (case ss_session s of None \<Rightarrow> False
      | Some sn \<Rightarrow> sn_http sn \<and> ss_terminated_sessions s \<noteq> ss_terminated_at_initialize s)"

subsection \<open>Requests\<close>

datatype ('j, 'w) Work =
    Tool_work "'j CallToolParams"
  | Handler_work "('j, 'w World) Handler" 'j
  | Completion_work "('j, 'w) CompletionHandler" "'j CompleteParams"

datatype ('j, 'w) Outcome = Answer string | Suspended "('j, 'w) Work" | Failed Exception

definition deserialize_request_params :: "'j JsonApi \<Rightarrow> ('j \<Rightarrow> DecodeError + 'a) \<Rightarrow> 'j \<Rightarrow> string \<Rightarrow> Exception + 'a" where
  "deserialize_request_params api decode msg method' =
     (case get_member api decode msg ''params'' of
        Inl e \<Rightarrow> Inl (Invalid_params_error (''Invalid '' @ method' @ '' params: '' @ what_text e))
      | Inr x \<Rightarrow> Inr x)"

definition with_params :: "Exception + 'a \<Rightarrow> 's \<Rightarrow> ('a \<Rightarrow> ('j, 'w) Outcome \<times> 's) \<Rightarrow> ('j, 'w) Outcome \<times> 's" where
  "with_params p s k = (case p of Inl e \<Rightarrow> (Failed e, s) | Inr x \<Rightarrow> k x)"

definition default_log_level :: LoggingLevel where
  "default_log_level = LoggingLevel_eDebug"

definition note_initialize :: "('j, 'w, 'z) ServerState_scheme \<Rightarrow> ('j, 'w, 'z) ServerState_scheme" where
  "note_initialize s =
     (let s' = (case ss_session s of
                  Some sn \<Rightarrow>
                    if sn_http sn then
                      (let epoch = session_epoch s sn in
                       s\<lparr>ss_log_level := (if epoch \<noteq> ss_terminated_at_initialize s then default_log_level else ss_log_level s),
                         ss_terminated_at_initialize := epoch\<rparr>)
                    else s
                | None \<Rightarrow> s)
      in s'\<lparr>ss_lifecycle := Awaiting_initialized\<rparr>)"

definition handle_initialize :: "'j JsonApi \<Rightarrow> ('j, 's, 'w) ServerConfig \<Rightarrow> RequestId \<Rightarrow> 'j \<Rightarrow> bool
    \<Rightarrow> ('j, 'w, 'z) ServerState_scheme \<Rightarrow> ('j, 'w) Outcome \<times> ('j, 'w, 'z) ServerState_scheme" where
  "handle_initialize api cfg rid msg update_lifecycle s =
     with_params (deserialize_request_params api (initialize_request_from_json api) msg ''initialize'') s (\<lambda>r.
       (Answer (result_wire api rid (initialize_result_to_json api
          \<lparr>initialize_result_protocolVersion = negotiate_protocol_version (initialize_request_protocolVersion r),
           initialize_result_capabilities = sc_capabilities cfg, initialize_result_serverInfo = sc_info cfg,
           initialize_result_instructions = sc_instructions cfg\<rparr>)),
        if update_lifecycle then note_initialize s else s))"

definition handle_discover :: "'j JsonApi \<Rightarrow> ('j, 's, 'w) ServerConfig \<Rightarrow> RequestId \<Rightarrow> string" where
  "handle_discover api cfg rid =
     result_wire api rid (discover_result_to_json api
       \<lparr>discover_result_resultType = ''complete'', discover_result_supportedVersions = discoverable_protocol_versions,
        discover_result_capabilities = sc_capabilities cfg, discover_result_serverInfo = sc_info cfg,
        discover_result_instructions = sc_instructions cfg,
        discover_result_ttlMs = Some (case sc_discover_ttl_ms cfg of None \<Rightarrow> 0 | Some t \<Rightarrow> t),
        discover_result_cacheScope = Some (case sc_discover_cache_scope cfg of None \<Rightarrow> CacheScope_ePrivate | Some c \<Rightarrow> c)\<rparr>)"

definition bad_progress_token :: "'j JsonApi \<Rightarrow> 'j CallToolParams \<Rightarrow> DecodeError option" where
  "bad_progress_token api params =
     (case call_tool_params_meta params of
        None \<Rightarrow> None
      | Some meta \<Rightarrow>
          (case get_if_present api (id_from_json api) meta ''progressToken'' of Inl e \<Rightarrow> Some e | Inr t \<Rightarrow> None))"

text \<open>The number \<open>n\<close> of the dispatch names the cancellation flag that is made for it.\<close>

definition handle_tools_call :: "'j JsonApi \<Rightarrow> ('j, 's, 'w) ServerConfig \<Rightarrow> nat \<Rightarrow> RequestId \<Rightarrow> 'j
    \<Rightarrow> ('j, 'w, 'z) ServerState_scheme \<Rightarrow> ('j, 'w) Outcome \<times> ('j, 'w, 'z) ServerState_scheme" where
  "handle_tools_call api cfg n rid msg s =
     with_params (deserialize_request_params api (call_tool_params_from_json api) msg ''tools/call'') s (\<lambda>params.
       if ts_handlers (sc_tools cfg) (call_tool_params_name params) = None
       then (Answer (error_wire api rid invalid_params (''Unknown tool: '' @ sanitize_for_diagnostics (call_tool_params_name params))), s)
       else (case bad_progress_token api params of
               Some e \<Rightarrow> (Failed (Invalid_params_error (''Invalid tools/call params: '' @ what_text e)), s)
             | None \<Rightarrow>
                 (Suspended (Tool_work params),
                  s\<lparr>ss_session := map_option (\<lambda>sn. sn\<lparr>sn_in_flight := (sn_in_flight sn)(correlation_key rid \<mapsto> n)\<rparr>) (ss_session s)\<rparr>)))"

definition bad_cursor :: "'j JsonApi \<Rightarrow> RequestId \<Rightarrow> string" where
  "bad_cursor api rid = error_wire api rid invalid_params ''Invalid pagination cursor''"

text \<open>The part of a list a page shows.\<close>

definition page_items :: "'a list \<Rightarrow> PaginationSlice \<Rightarrow> 'a list" where
  "page_items xs p = map ((!) xs) (page_indices p)"

definition handle_tools_list :: "'j JsonApi \<Rightarrow> ('j, 's, 'w) ServerConfig \<Rightarrow> RequestId \<Rightarrow> 'j \<Rightarrow> string" where
  "handle_tools_list api cfg rid msg =
     (case paginate api (sc_page_size cfg) (of_nat (length (ts_tools (sc_tools cfg)))) msg of
        None \<Rightarrow> bad_cursor api rid
      | Some p \<Rightarrow>
          result_wire api rid (put_optional api (j_of_string api)
            (j_put api (j_empty_object api) ''tools'' (put_list api (tool_to_json api) (page_items (ts_tools (sc_tools cfg)) p)))
            ''nextCursor'' (ps_next_cursor p)))"

definition handle_resources_list :: "'j JsonApi \<Rightarrow> ('j, 's, 'w) ServerConfig \<Rightarrow> RequestId \<Rightarrow> 'j \<Rightarrow> string" where
  "handle_resources_list api cfg rid msg =
     (case paginate api (sc_page_size cfg) (of_nat (length (sc_resources cfg))) msg of
        None \<Rightarrow> bad_cursor api rid
      | Some p \<Rightarrow>
          result_wire api rid (list_resources_result_to_json api
            \<lparr>list_resources_result_resources = page_items (sc_resources cfg) p,
             list_resources_result_nextCursor = ps_next_cursor p, list_resources_result_meta = None\<rparr>))"

definition handle_resource_templates_list :: "'j JsonApi \<Rightarrow> ('j, 's, 'w) ServerConfig \<Rightarrow> RequestId \<Rightarrow> 'j \<Rightarrow> string" where
  "handle_resource_templates_list api cfg rid msg =
     (case paginate api (sc_page_size cfg) (of_nat (length (sc_templates cfg))) msg of
        None \<Rightarrow> bad_cursor api rid
      | Some p \<Rightarrow>
          result_wire api rid (list_resource_templates_result_to_json api
            \<lparr>list_resource_templates_result_resourceTemplates = map rt_metadata (page_items (sc_templates cfg) p),
             list_resource_templates_result_nextCursor = ps_next_cursor p, list_resource_templates_result_meta = None\<rparr>))"

definition handle_prompts_list :: "'j JsonApi \<Rightarrow> ('j, 's, 'w) ServerConfig \<Rightarrow> RequestId \<Rightarrow> 'j \<Rightarrow> string" where
  "handle_prompts_list api cfg rid msg =
     (case paginate api (sc_page_size cfg) (of_nat (length (sc_prompts cfg))) msg of
        None \<Rightarrow> bad_cursor api rid
      | Some p \<Rightarrow>
          result_wire api rid (list_prompts_result_to_json api
            \<lparr>list_prompts_result_prompts = page_items (sc_prompts cfg) p,
             list_prompts_result_nextCursor = ps_next_cursor p, list_prompts_result_meta = None\<rparr>))"

definition template_matches :: "('j, 'w) TemplateRegistration \<Rightarrow> string \<Rightarrow> bool" where
  "template_matches r uri \<longleftrightarrow> uri_template_matches (rt_matcher r) uri = Some True"

text \<open>The loop over the templates: the one match, none, or \<open>Inl ()\<close> for a second one.\<close>

fun find_template :: "('j, 'w) TemplateRegistration list \<Rightarrow> string \<Rightarrow> ('j, 'w World) Handler option \<Rightarrow> unit + ('j, 'w World) Handler option" where
  "find_template [] uri found = Inr found"
| "find_template (r # rs) uri found =
     (case rt_handler r of
        None \<Rightarrow> find_template rs uri found
      | Some h \<Rightarrow>
          if \<not> template_matches r uri then find_template rs uri found
          else if found \<noteq> None then Inl ()
          else find_template rs uri (Some h))"

definition handle_resources_read :: "'j JsonApi \<Rightarrow> ('j, 's, 'w) ServerConfig \<Rightarrow> RequestId \<Rightarrow> 'j
    \<Rightarrow> ('j, 'w, 'z) ServerState_scheme \<Rightarrow> ('j, 'w) Outcome \<times> ('j, 'w, 'z) ServerState_scheme" where
  "handle_resources_read api cfg rid msg s =
     with_params (deserialize_request_params api (read_resource_request_params_from_json api) msg ''resources/read'') s (\<lambda>params.
       let uri = read_resource_request_params_uri params;
           run = (\<lambda>h. (Suspended (Handler_work (build_middleware_chain (ts_middlewares (sc_tools cfg)) h)
                        (read_resource_request_params_to_json api params)), s))
       in case sc_resource_handlers cfg uri of
            Some h \<Rightarrow> run h
          | None \<Rightarrow>
              if max_template_match_uri_length < length uri
              then (Answer (error_wire api rid invalid_params (''Resource URI exceeds the '' @ decimal max_template_match_uri_length
                     @ '' character limit for template matching'')), s)
              else (case find_template (sc_templates cfg) uri None of
                      Inl u \<Rightarrow> (Answer (error_wire api rid invalid_params (''Ambiguous resource template match: '' @ uri)), s)
                    | Inr None \<Rightarrow> (Answer (error_wire api rid invalid_params (''Unknown resource: '' @ uri)), s)
                    | Inr (Some h) \<Rightarrow> run h))"

definition call_subscription :: "'w SubscriptionHandler option \<Rightarrow> string \<Rightarrow> ('j, 'w, 'z) ServerState_scheme
    \<Rightarrow> Exception option \<times> ('j, 'w, 'z) ServerState_scheme" where
  "call_subscription handler uri s =
     (case handler of
        None \<Rightarrow> (None, s)
      | Some h \<Rightarrow> (case h uri (ss_world s) of (e, w) \<Rightarrow> (e, s\<lparr>ss_world := w\<rparr>)))"

definition empty_result :: "'j JsonApi \<Rightarrow> RequestId \<Rightarrow> Exception option \<Rightarrow> ('j, 'w) Outcome" where
  "empty_result api rid e = (case e of Some x \<Rightarrow> Failed x | None \<Rightarrow> Answer (result_wire api rid (j_empty_object api)))"

definition handle_subscribe :: "'j JsonApi \<Rightarrow> ('j, 's, 'w) ServerConfig \<Rightarrow> RequestId \<Rightarrow> 'j
    \<Rightarrow> ('j, 'w, 'z) ServerState_scheme \<Rightarrow> ('j, 'w) Outcome \<times> ('j, 'w, 'z) ServerState_scheme" where
  "handle_subscribe api cfg rid msg s =
     with_params (deserialize_request_params api (resource_subscribe_params_from_json api) msg ''resources/subscribe'') s (\<lambda>params.
       let uri = resource_subscribe_params_uri params;
           s' = s\<lparr>ss_session := map_option (\<lambda>sn. sn\<lparr>sn_subscriptions := (sn_subscriptions sn)(uri \<mapsto> session_epoch s sn)\<rparr>) (ss_session s)\<rparr>
       in (case call_subscription (sc_subscribe cfg) uri s' of (e, s'') \<Rightarrow> (empty_result api rid e, s'')))"

definition handle_unsubscribe :: "'j JsonApi \<Rightarrow> ('j, 's, 'w) ServerConfig \<Rightarrow> RequestId \<Rightarrow> 'j
    \<Rightarrow> ('j, 'w, 'z) ServerState_scheme \<Rightarrow> ('j, 'w) Outcome \<times> ('j, 'w, 'z) ServerState_scheme" where
  "handle_unsubscribe api cfg rid msg s =
     with_params (deserialize_request_params api (resource_unsubscribe_params_from_json api) msg ''resources/unsubscribe'') s (\<lambda>params.
       let uri = resource_unsubscribe_params_uri params;
           s' = s\<lparr>ss_session := map_option (\<lambda>sn. sn\<lparr>sn_subscriptions := (sn_subscriptions sn)(uri := None)\<rparr>) (ss_session s)\<rparr>
       in (case call_subscription (sc_unsubscribe cfg) uri s' of (e, s'') \<Rightarrow> (empty_result api rid e, s'')))"

definition handle_prompts_get :: "'j JsonApi \<Rightarrow> ('j, 's, 'w) ServerConfig \<Rightarrow> RequestId \<Rightarrow> 'j
    \<Rightarrow> ('j, 'w, 'z) ServerState_scheme \<Rightarrow> ('j, 'w) Outcome \<times> ('j, 'w, 'z) ServerState_scheme" where
  "handle_prompts_get api cfg rid msg s =
     with_params (deserialize_request_params api (get_prompt_request_params_from_json api) msg ''prompts/get'') s (\<lambda>params.
       case sc_prompt_handlers cfg (get_prompt_request_params_name params) of
         None \<Rightarrow> (Answer (error_wire api rid invalid_params (''Unknown prompt: '' @ get_prompt_request_params_name params)), s)
       | Some h \<Rightarrow> (Suspended (Handler_work (build_middleware_chain (ts_middlewares (sc_tools cfg)) h)
                     (get_prompt_request_params_to_json api params)), s))"

definition handle_set_level :: "'j JsonApi \<Rightarrow> RequestId \<Rightarrow> 'j
    \<Rightarrow> ('j, 'w, 'z) ServerState_scheme \<Rightarrow> ('j, 'w) Outcome \<times> ('j, 'w, 'z) ServerState_scheme" where
  "handle_set_level api rid msg s =
     with_params (deserialize_request_params api (set_level_request_params_from_json api) msg ''logging/setLevel'') s (\<lambda>params.
       (Answer (result_wire api rid (j_empty_object api)), s\<lparr>ss_log_level := set_level_request_params_level params\<rparr>))"

definition handle_complete :: "'j JsonApi \<Rightarrow> ('j, 's, 'w) ServerConfig \<Rightarrow> RequestId \<Rightarrow> 'j
    \<Rightarrow> ('j, 'w, 'z) ServerState_scheme \<Rightarrow> ('j, 'w) Outcome \<times> ('j, 'w, 'z) ServerState_scheme" where
  "handle_complete api cfg rid msg s =
     with_params (deserialize_request_params api (complete_params_from_json api) msg ''completion/complete'') s (\<lambda>params.
       case sc_completion cfg of
         None \<Rightarrow> (Answer (error_wire api rid method_not_found ''No completion handler registered''), s)
       | Some h \<Rightarrow> (Suspended (Completion_work h params), s))"

end
