(* ===== verification/ServerModel.thy ===== *)
theory ServerModel
  imports ServerHandlers
begin

text \<open>
  The server as a whole (server/server.cpp): the life of a session, the dispatch of the messages that
  are read, the work that handlers do, notifications, and the server's own requests to the client.
  Messages are dispatched in the order they were read; a dispatch runs up to its handler in one step,
  and the handler and the answer are another. The transport, and with it the end of an HTTP session,
  is the environment.
\<close>

subsection \<open>State\<close>

text \<open>
  The history of a run of the server: each message with the session epoch and the run in which its
  dispatch started. A message is known by its place in that history.
\<close>

record 'j Entry =
  en_msg :: 'j
  en_epoch :: nat
  en_run :: nat

record ('j, 'w) Dispatch =
  dp_id :: RequestId
  dp_epoch :: nat
  dp_work :: "('j, 'w) Work"

text \<open>Requests to the client; call \<open>i\<close> has the id \<open>i + 1\<close>. \<open>rp_signalled\<close>: its timer was cancelled.\<close>

record 'j ReversePending =
  rp_result :: 'j
  rp_error :: "'j Error option"
  rp_completed :: bool

datatype 'j ReverseOutcome = Reverse_result 'j | Reverse_failed string

datatype 'j ReverseCall = Rc_requested nat string | Rc_writing nat | Rc_waiting nat | Rc_done nat "'j ReverseOutcome"

datatype Origin = From_reader | From_dispatch nat | From_handler nat | From_call nat | From_server | From_update string

record Written =
  wr_origin :: Origin
  wr_text :: string
  wr_epoch :: nat
  wr_run :: nat

record ('j, 'w) Server = "('j, 'w) ServerState" +
  sv_run :: nat
  sv_queue :: "'j list"
  sv_log :: "'j Entry list"
  sv_running :: "nat \<Rightarrow> ('j, 'w) Dispatch option"
  sv_pending :: "nat \<Rightarrow> string \<Rightarrow> 'j ReversePending option"
  sv_calls :: "'j ReverseCall list"
  sv_out :: "Written list"

definition new_server :: "'w World \<Rightarrow> ('j, 'w) Server" where
  "new_server w =
     \<lparr>ss_lifecycle = Uninitialized, ss_terminated_at_initialize = 0, ss_shutdown_requested = False,
      ss_log_level = default_log_level, ss_world = w, ss_session = None, ss_terminated_sessions = 0, ss_cancelled = {},
      sv_run = 0, sv_queue = [], sv_log = [], sv_running = (\<lambda>n. None), sv_pending = (\<lambda>r k. None), sv_calls = [], sv_out = []\<rparr>"

definition current_epoch :: "('j, 'w) Server \<Rightarrow> nat" where
  "current_epoch s = (case ss_session s of None \<Rightarrow> 0 | Some sn \<Rightarrow> session_epoch s sn)"

definition write_out :: "Origin \<Rightarrow> string \<Rightarrow> ('j, 'w) Server \<Rightarrow> ('j, 'w) Server" where
  "write_out from wire s =
     s\<lparr>sv_out := sv_out s @ [\<lparr>wr_origin = from, wr_text = wire, wr_epoch = current_epoch s, wr_run = sv_run s\<rparr>]\<rparr>"

subsection \<open>Requests\<close>

definition not_ready_text :: string where
  "not_ready_text = ''Server is not ready; initialize and send notifications/initialized first''"

text \<open>
  The body of \<open>dispatch_request_wire\<close> behind the validation, up to the point where a handler of the
  application is awaited. \<open>n\<close> is the number of the dispatch.
\<close>

definition call_method :: "'j JsonApi \<Rightarrow> ('j, 's, 'w) ServerConfig \<Rightarrow> nat \<Rightarrow> bool \<Rightarrow> RequestId \<Rightarrow> string \<Rightarrow> 'j
    \<Rightarrow> ('j, 'w) Server \<Rightarrow> ('j, 'w) Outcome \<times> ('j, 'w) Server" where
  "call_method api cfg n enforce rid name msg s =
     (let state = (if \<not> enforce then Ready else if transport_started_new_session s then Uninitialized else ss_lifecycle s) in
      if name = ''initialize'' then
        (if enforce \<and> state \<noteq> Uninitialized
         then (Answer (error_wire api rid invalid_request ''Server has already been initialized''), s)
         else handle_initialize api cfg rid msg enforce s)
      else if name = ''ping'' then (Answer (result_wire api rid (j_empty_object api)), s)
      else if name = ''server/discover'' then (Answer (handle_discover api cfg rid), s)
      else if state \<noteq> Ready then (Answer (error_wire api rid invalid_request not_ready_text), s)
      else if name = ''shutdown'' then (Answer (result_wire api rid (j_empty_object api)), s\<lparr>ss_shutdown_requested := True\<rparr>)
      else if name = ''tools/call'' then handle_tools_call api cfg n rid msg s
      else if name = ''tools/list'' then (Answer (handle_tools_list api cfg rid msg), s)
      else if name = ''resources/list'' then (Answer (handle_resources_list api cfg rid msg), s)
      else if name = ''resources/read'' then handle_resources_read api cfg rid msg s
      else if name = ''resources/templates/list'' then (Answer (handle_resource_templates_list api cfg rid msg), s)
      else if name = ''resources/subscribe'' then handle_subscribe api cfg rid msg s
      else if name = ''resources/unsubscribe'' then handle_unsubscribe api cfg rid msg s
      else if name = ''prompts/list'' then (Answer (handle_prompts_list api cfg rid msg), s)
      else if name = ''prompts/get'' then handle_prompts_get api cfg rid msg s
      else if name = ''logging/setLevel'' then handle_set_level api rid msg s
      else if name = ''completion/complete'' then handle_complete api cfg rid msg s
      else (Answer (error_wire api rid method_not_found (''Method not found: '' @ name)), s))"

text \<open>The handlers of exceptions at its end; a foreign exception passes all of them.\<close>

definition failure_wire :: "'j JsonApi \<Rightarrow> RequestId \<Rightarrow> Exception \<Rightarrow> string option" where
  "failure_wire api rid e =
     (case e of
        Invalid_params_error t \<Rightarrow> Some (error_wire api rid invalid_params t)
      | Std_exception t \<Rightarrow> Some (error_wire api rid internal_error (sanitize_for_diagnostics t))
      | Rejection t \<Rightarrow> Some (error_wire api rid internal_error (sanitize_for_diagnostics t))
      | Foreign_exception \<Rightarrow> None)"

definition reply_wire :: "'j JsonApi \<Rightarrow> RequestId \<Rightarrow> 'j Reply \<Rightarrow> string option" where
  "reply_wire api rid r = (case r of Value x \<Rightarrow> Some (result_wire api rid x) | Raised e \<Rightarrow> failure_wire api rid e)"

definition request_fields :: "'j JsonApi \<Rightarrow> 'j \<Rightarrow> (RequestId \<times> string) option" where
  "request_fields api msg =
     (case get_member api (id_from_json api) msg ''id'' of
        Inl e \<Rightarrow> None
      | Inr rid \<Rightarrow> (case get_member api (j_string api) msg ''method'' of Inl e \<Rightarrow> None | Inr m \<Rightarrow> Some (rid, m)))"

text \<open>\<open>dispatch_request\<close>, up to the handler: what is written at once, or what is left to run.\<close>

definition begin_request :: "'j JsonApi \<Rightarrow> ('j, 's, 'w) ServerConfig \<Rightarrow> nat \<Rightarrow> 'j \<Rightarrow> ('j, 'w) Server \<Rightarrow> ('j, 'w) Server" where
  "begin_request api cfg n msg s =
     (case validate_request_envelope api msg of
        Some reason \<Rightarrow> write_out (From_dispatch n) (make_invalid_request_wire api msg reason) s
      | None \<Rightarrow>
          (case request_fields api msg of
             None \<Rightarrow> s
           | Some (rid, name) \<Rightarrow>
               (case call_method api cfg n True rid name msg s of
                  (Answer wire, s') \<Rightarrow> write_out (From_dispatch n) wire s'
                | (Failed e, s') \<Rightarrow>
                    (case failure_wire api rid e of None \<Rightarrow> s' | Some wire \<Rightarrow> write_out (From_dispatch n) wire s')
                | (Suspended work, s') \<Rightarrow>
                    s'\<lparr>sv_running := (sv_running s')(n \<mapsto> \<lparr>dp_id = rid, dp_epoch = current_epoch s, dp_work = work\<rparr>)\<rparr>)))"

text \<open>The handler runs, and its answer is written unless the client has ended the session meanwhile.\<close>

definition run_work :: "'j JsonApi \<Rightarrow> ('j, 's) SchemaApi \<Rightarrow> ('j, 's, 'w) ServerConfig \<Rightarrow> ('j, 'w) Work \<Rightarrow> 'w World \<Rightarrow> 'j Reply \<times> 'w World" where
  "run_work api sa cfg work w =
     (case work of
        Tool_work params \<Rightarrow> invoke_tool api sa (sc_tools cfg) params w
      | Handler_work h params \<Rightarrow> h params w
      | Completion_work h params \<Rightarrow>
          (case h params w of
             (Inl e, w') \<Rightarrow> (Raised e, w')
           | (Inr r, w') \<Rightarrow> (Value (complete_result_to_json api r), w')))"

definition leave_in_flight :: "('j, 'w) Dispatch \<Rightarrow> Session \<Rightarrow> Session" where
  "leave_in_flight d sn =
     (case dp_work d of
        Tool_work params \<Rightarrow> sn\<lparr>sn_in_flight := (sn_in_flight sn)(correlation_key (dp_id d) := None)\<rparr>
      | _ \<Rightarrow> sn)"

definition finish_request :: "'j JsonApi \<Rightarrow> ('j, 's) SchemaApi \<Rightarrow> ('j, 's, 'w) ServerConfig \<Rightarrow> nat \<Rightarrow> ('j, 'w) Dispatch
    \<Rightarrow> ('j, 'w) Server \<Rightarrow> ('j, 'w) Server" where
  "finish_request api sa cfg n d s =
     (case run_work api sa cfg (dp_work d) (ss_world s) of
        (reply, w) \<Rightarrow>
          (let s' = s\<lparr>ss_world := w, ss_session := map_option (leave_in_flight d) (ss_session s),
                 sv_running := (sv_running s)(n := None)\<rparr>
           in case reply_wire api (dp_id d) reply of
                None \<Rightarrow> s'
              | Some wire \<Rightarrow> if current_epoch s' \<noteq> dp_epoch d then s' else write_out (From_dispatch n) wire s'))"

subsection \<open>Notifications and responses of the client\<close>

definition cancel_in_flight :: "RequestId \<Rightarrow> ('j, 'w) Server \<Rightarrow> ('j, 'w) Server" where
  "cancel_in_flight rid s =
     (case ss_session s of
        None \<Rightarrow> s
      | Some sn \<Rightarrow>
          (case sn_in_flight sn (correlation_key rid) of
             None \<Rightarrow> s
           | Some n \<Rightarrow> s\<lparr>ss_cancelled := insert n (ss_cancelled s)\<rparr>))"

definition receive_notification :: "'j JsonApi \<Rightarrow> 'j \<Rightarrow> ('j, 'w) Server \<Rightarrow> ('j, 'w) Server" where
  "receive_notification api msg s =
     (case get_member api (j_string api) msg ''method'' of
        Inl e \<Rightarrow> s
      | Inr name \<Rightarrow>
          if name = ''notifications/initialized'' then
            (if ss_lifecycle s = Awaiting_initialized then s\<lparr>ss_lifecycle := Ready\<rparr> else s)
          else if name = ''notifications/cancelled'' then
            (if ss_lifecycle s \<noteq> Ready \<or> ss_session s = None \<or> \<not> j_contains api msg ''params'' then s
             else (case get_member api (cancelled_from_json api) msg ''params'' of
                     Inl e \<Rightarrow> s
                   | Inr params \<Rightarrow> cancel_in_flight (cn_request_id params) s))
          else s)"

definition put_pending :: "nat \<Rightarrow> string \<Rightarrow> 'j ReversePending option \<Rightarrow> ('j, 'w) Server \<Rightarrow> ('j, 'w) Server" where
  "put_pending r key p s = s\<lparr>sv_pending := (sv_pending s)(r := (sv_pending s r)(key := p))\<rparr>"

definition answer_reverse :: "'j JsonApi \<Rightarrow> 'j \<Rightarrow> 'j ReversePending \<Rightarrow> 'j ReversePending" where
  "answer_reverse api msg p =
     (if has_error_member api msg
      then (case get_member api (error_from_json api) msg ''error'' of Inl e \<Rightarrow> p | Inr e \<Rightarrow> p\<lparr>rp_error := Some e\<rparr>)
      else (case j_find api msg ''result'' of None \<Rightarrow> p | Some r \<Rightarrow> p\<lparr>rp_result := r\<rparr>))"

definition receive_response :: "'j JsonApi \<Rightarrow> 'j \<Rightarrow> ('j, 'w) Server \<Rightarrow> ('j, 'w) Server" where
  "receive_response api msg s =
     (if \<not> is_valid_response_envelope api msg \<or> ss_session s = None then s
      else (case get_member api (id_from_json api) msg ''id'' of
              Inl e \<Rightarrow> s
            | Inr rid \<Rightarrow>
                (case sv_pending s (sv_run s) (correlation_key rid) of
                   None \<Rightarrow> s
                 | Some p \<Rightarrow> put_pending (sv_run s) (correlation_key rid) (Some ((answer_reverse api msg p)\<lparr>rp_completed := True\<rparr>)) s)))"

text \<open>\<open>dispatch_on_strand\<close> for the message at the head of the queue.\<close>

definition start_dispatch :: "'j JsonApi \<Rightarrow> ('j, 's, 'w) ServerConfig \<Rightarrow> 'j \<Rightarrow> ('j, 'w) Server \<Rightarrow> ('j, 'w) Server" where
  "start_dispatch api cfg msg s =
     (let n = length (sv_log s);
          s' = s\<lparr>sv_log := sv_log s @ [\<lparr>en_msg = msg, en_epoch = current_epoch s, en_run = sv_run s\<rparr>]\<rparr>
      in case classify_message api msg of
           Notification_message \<Rightarrow> receive_notification api msg s'
         | Dropped_message \<Rightarrow> s'
         | Response_message \<Rightarrow> receive_response api msg s'
         | Request_message \<Rightarrow> begin_request api cfg n msg s')"

subsection \<open>Requests and notifications of the server\<close>

text \<open>
  A request from a handler is refused once the client has ended the session of the request the
  handler serves; \<open>caller\<close> is that request, or \<open>None\<close> for a request of the embedding program.
\<close>

definition send_request :: "'j JsonApi \<Rightarrow> ('j, 'w) Dispatch option \<Rightarrow> string \<Rightarrow> 'j option \<Rightarrow> ('j, 'w) Server \<Rightarrow> string + ('j, 'w) Server" where
  "send_request api caller name params s =
     (if (\<exists>d. caller = Some d \<and> current_epoch s \<noteq> dp_epoch d) then Inl ''the client ended the session this request belongs to''
      else (case ss_session s of
              None \<Rightarrow> Inl ''reverse RPC is unavailable in stateless direct dispatch''
            | Some sn \<Rightarrow>
                if sn_stopping sn then Inl ''reverse RPC is unavailable in stateless direct dispatch''
                else Inr (s\<lparr>sv_calls := sv_calls s @ [Rc_requested (sv_run s) (request_wire api (length (sv_calls s)) name params)]\<rparr>)))"

definition end_call :: "nat \<Rightarrow> nat \<Rightarrow> 'j ReverseOutcome \<Rightarrow> ('j, 'w) Server \<Rightarrow> ('j, 'w) Server" where
  "end_call i r outcome s = s\<lparr>sv_calls := (sv_calls s)[i := Rc_done r outcome]\<rparr>"

definition session_stopping :: "nat \<Rightarrow> ('j, 'w) Server \<Rightarrow> bool" where
  "session_stopping r s \<longleftrightarrow> \<not> (\<exists>sn. ss_session s = Some sn \<and> sv_run s = r \<and> \<not> sn_stopping sn)"

definition await_reverse_response :: "'j JsonApi \<Rightarrow> nat \<Rightarrow> nat \<Rightarrow> string \<Rightarrow> ('j, 'w) Server \<Rightarrow> ('j, 'w) Server" where
  "await_reverse_response api i r wire s =
     (if session_stopping r s then end_call i r (Reverse_failed ''server session is closing'') s
      else if sv_pending s r (request_key i) \<noteq> None
      then end_call i r (Reverse_failed (''duplicate pending request id: '' @ request_key i)) s
      else write_out (From_call i) wire
        (put_pending r (request_key i) (Some \<lparr>rp_result = j_null api, rp_error = None, rp_completed = False\<rparr>)
          (s\<lparr>sv_calls := (sv_calls s)[i := Rc_writing r]\<rparr>)))"

definition reverse_write_failed :: "nat \<Rightarrow> nat \<Rightarrow> string \<Rightarrow> ('j, 'w) Server \<Rightarrow> ('j, 'w) Server" where
  "reverse_write_failed i r what s = put_pending r (request_key i) None (end_call i r (Reverse_failed what) s)"

definition reverse_outcome :: "'j ReversePending \<Rightarrow> 'j ReverseOutcome" where
  "reverse_outcome p = (case rp_error p of None \<Rightarrow> Reverse_result (rp_result p) | Some e \<Rightarrow> Reverse_failed (mcp_what (er_code e) (er_message e)))"

definition resume_reverse :: "nat \<Rightarrow> nat \<Rightarrow> ('j, 'w) Server \<Rightarrow> ('j, 'w) Server" where
  "resume_reverse i r s =
     (case sv_pending s r (request_key i) of
        None \<Rightarrow> end_call i r (Reverse_failed (''pending request not found for id: '' @ int_text (int i + 1))) s
      | Some p \<Rightarrow> put_pending r (request_key i) None (end_call i r (reverse_outcome p) s))"

text \<open>What a waiting call waits for.\<close>

definition reverse_ready :: "nat \<Rightarrow> nat \<Rightarrow> ('j, 'w) Server \<Rightarrow> bool" where
  "reverse_ready i r s \<longleftrightarrow> (\<exists>p. sv_pending s r (request_key i) = Some p \<and> rp_completed p)"

definition send_notification :: "'j JsonApi \<Rightarrow> string \<Rightarrow> 'j option \<Rightarrow> ('j, 'w) Server \<Rightarrow> ('j, 'w) Server" where
  "send_notification api name params s =
     (case ss_session s of
        None \<Rightarrow> s
      | Some sn \<Rightarrow>
          if sn_stopping sn then s
          else write_out From_server (j_dump api (notification_to_json api
                 \<lparr>nt_jsonrpc = ''2.0'', nt_method = name, nt_params = params\<rparr>)) s)"

text \<open>
  \<open>Context\<close> (core/context.hpp): what a running handler sends beside its answer. Levels are ordered by
  severity, and nothing is sent for a session that is over.
\<close>

definition level_number :: "LoggingLevel \<Rightarrow> nat" where
  "level_number l =
     (case l of LoggingLevel_eEmergency \<Rightarrow> 0 | LoggingLevel_eAlert \<Rightarrow> 1 | LoggingLevel_eCritical \<Rightarrow> 2 | LoggingLevel_eError \<Rightarrow> 3
      | LoggingLevel_eWarning \<Rightarrow> 4 | LoggingLevel_eNotice \<Rightarrow> 5 | LoggingLevel_eInfo \<Rightarrow> 6 | LoggingLevel_eDebug \<Rightarrow> 7)"

definition context_send :: "nat \<Rightarrow> ('j, 'w) Dispatch \<Rightarrow> string \<Rightarrow> ('j, 'w) Server \<Rightarrow> ('j, 'w) Server" where
  "context_send n d wire s = (if current_epoch s \<noteq> dp_epoch d then s else write_out (From_handler n) wire s)"

definition context_log :: "'j JsonApi \<Rightarrow> nat \<Rightarrow> ('j, 'w) Dispatch \<Rightarrow> LoggingLevel \<Rightarrow> string \<Rightarrow> string option \<Rightarrow> ('j, 'w) Server \<Rightarrow> ('j, 'w) Server" where
  "context_log api n d level text logger s =
     (if level_number (ss_log_level s) < level_number level then s
      else context_send n d (j_dump api (notification_to_json api
        \<lparr>nt_jsonrpc = ''2.0'', nt_method = ''notifications/message'',
         nt_params = Some (logging_message_notification_params_to_json api
           \<lparr>logging_message_notification_params_level = level, logging_message_notification_params_logger = logger,
            logging_message_notification_params_data = j_of_string api text\<rparr>)\<rparr>)) s)"

definition progress_token :: "'j JsonApi \<Rightarrow> ('j, 'w) Dispatch \<Rightarrow> RequestId option" where
  "progress_token api d =
     (case dp_work d of
        Tool_work params \<Rightarrow>
          (case call_tool_params_meta params of
             None \<Rightarrow> None
           | Some meta \<Rightarrow> (case get_if_present api (id_from_json api) meta ''progressToken'' of Inl e \<Rightarrow> None | Inr t \<Rightarrow> t))
      | _ \<Rightarrow> None)"

definition report_progress :: "'j JsonApi \<Rightarrow> nat \<Rightarrow> ('j, 'w) Dispatch \<Rightarrow> double \<Rightarrow> double option \<Rightarrow> string option \<Rightarrow> ('j, 'w) Server \<Rightarrow> ('j, 'w) Server" where
  "report_progress api n d progress total' message s =
     (case progress_token api d of
        None \<Rightarrow> s
      | Some token \<Rightarrow>
          context_send n d (j_dump api (notification_to_json api
            \<lparr>nt_jsonrpc = ''2.0'', nt_method = ''notifications/progress'',
             nt_params = Some (progress_notification_params_to_json api
               \<lparr>progress_notification_params_progressToken = token, progress_notification_params_progress = progress,
                progress_notification_params_total = total', progress_notification_params_message = message\<rparr>)\<rparr>)) s)"

definition notify_resource_updated :: "'j JsonApi \<Rightarrow> string \<Rightarrow> ('j, 'w) Server \<Rightarrow> ('j, 'w) Server" where
  "notify_resource_updated api uri s =
     (case ss_session s of
        None \<Rightarrow> s
      | Some sn \<Rightarrow>
          if sn_stopping sn then s
          else (case sn_subscriptions sn uri of
                  None \<Rightarrow> s
                | Some e \<Rightarrow>
                    if e \<noteq> session_epoch s sn
                    then s\<lparr>ss_session := Some (sn\<lparr>sn_subscriptions := (sn_subscriptions sn)(uri := None)\<rparr>)\<rparr>
                    else write_out (From_update uri) (j_dump api (notification_to_json api
                           \<lparr>nt_jsonrpc = ''2.0'', nt_method = ''notifications/resources/updated'',
                            nt_params = Some (resource_updated_notification_params_to_json api \<lparr>resource_updated_notification_params_uri = uri\<rparr>)\<rparr>)) s))"

subsection \<open>Sessions\<close>

definition new_session :: "bool \<Rightarrow> Session" where
  "new_session http = \<lparr>sn_http = http, sn_in_flight = Map.empty, sn_subscriptions = Map.empty, sn_stopping = False\<rparr>"

text \<open>A run begins with a transport that has ended \<open>k\<close> sessions before.\<close>

definition begin_run :: "bool \<Rightarrow> nat \<Rightarrow> ('j, 'w) Server \<Rightarrow> ('j, 'w) Server" where
  "begin_run http k s =
     s\<lparr>ss_session := Some (new_session http), ss_lifecycle := Uninitialized, ss_shutdown_requested := False,
       ss_terminated_sessions := k, sv_run := Suc (sv_run s)\<rparr>"

definition abandon_pending :: "'j ReversePending \<Rightarrow> 'j ReversePending" where
  "abandon_pending p =
     (if rp_completed p then p
      else p\<lparr>rp_error := Some (plain_error connection_closed ''Server session closed''), rp_completed := True\<rparr>)"

definition abandon_session_work :: "Session \<Rightarrow> ('j, 'w) Server \<Rightarrow> ('j, 'w) Server" where
  "abandon_session_work sn s =
     s\<lparr>ss_cancelled := ss_cancelled s \<union> ran (sn_in_flight sn),
       sv_pending := (sv_pending s)(sv_run s := map_option abandon_pending \<circ> sv_pending s (sv_run s))\<rparr>"

definition stop_session :: "Session \<Rightarrow> ('j, 'w) Server \<Rightarrow> ('j, 'w) Server" where
  "stop_session sn s = abandon_session_work sn (s\<lparr>ss_session := Some (sn\<lparr>sn_stopping := True\<rparr>)\<rparr>)"

definition drained :: "('j, 'w) Server \<Rightarrow> bool" where
  "drained s \<longleftrightarrow> sv_queue s = [] \<and> (\<forall>n. sv_running s n = None)"

inductive server_step :: "'j JsonApi \<Rightarrow> ('j, 's) SchemaApi \<Rightarrow> ('j, 's, 'w) ServerConfig \<Rightarrow> ('j, 'w) Server \<Rightarrow> ('j, 'w) Server \<Rightarrow> bool"
  for api sa cfg where
  run_begins: "ss_session s = None \<Longrightarrow> server_step api sa cfg s (begin_run http k s)"
| message_read: "ss_session s = Some sn \<Longrightarrow> \<not> sn_stopping sn \<Longrightarrow> server_step api sa cfg s (s\<lparr>sv_queue := sv_queue s @ [msg]\<rparr>)"
| garbage_read: "ss_session s = Some sn \<Longrightarrow> \<not> sn_stopping sn \<Longrightarrow>
    server_step api sa cfg s (write_out From_reader (make_parse_error_wire api) s)"
| dispatched: "ss_session s = Some sn \<Longrightarrow> sv_queue s = msg # queue \<Longrightarrow>
    server_step api sa cfg s (start_dispatch api cfg msg (s\<lparr>sv_queue := queue\<rparr>))"
| handled: "sv_running s n = Some d \<Longrightarrow> server_step api sa cfg s (finish_request api sa cfg n d s)"
| session_ended: "ss_session s = Some sn \<Longrightarrow> sn_http sn \<Longrightarrow>
    server_step api sa cfg s (s\<lparr>ss_terminated_sessions := Suc (ss_terminated_sessions s)\<rparr>)"
| handler_requests: "sv_running s n = Some d \<Longrightarrow> send_request api (Some d) name params s = Inr s' \<Longrightarrow> server_step api sa cfg s s'"
| handler_logs: "sv_running s n = Some d \<Longrightarrow> server_step api sa cfg s (context_log api n d level text logger s)"
| handler_reports: "sv_running s n = Some d \<Longrightarrow> server_step api sa cfg s (report_progress api n d progress total' message s)"
| server_requests: "send_request api None name params s = Inr s' \<Longrightarrow> server_step api sa cfg s s'"
| call_starts: "i < length (sv_calls s) \<Longrightarrow> sv_calls s ! i = Rc_requested r wire \<Longrightarrow>
    server_step api sa cfg s (await_reverse_response api i r wire s)"
| call_written: "i < length (sv_calls s) \<Longrightarrow> sv_calls s ! i = Rc_writing r \<Longrightarrow>
    server_step api sa cfg s (s\<lparr>sv_calls := (sv_calls s)[i := Rc_waiting r]\<rparr>)"
| call_not_written: "i < length (sv_calls s) \<Longrightarrow> sv_calls s ! i = Rc_writing r \<Longrightarrow>
    server_step api sa cfg s (reverse_write_failed i r what s)"
| call_resumes: "i < length (sv_calls s) \<Longrightarrow> sv_calls s ! i = Rc_waiting r \<Longrightarrow> reverse_ready i r s \<Longrightarrow>
    server_step api sa cfg s (resume_reverse i r s)"
| wait_failed: "i < length (sv_calls s) \<Longrightarrow> sv_calls s ! i = Rc_waiting r \<Longrightarrow>
    server_step api sa cfg s (reverse_write_failed i r what s)"
| notified: "server_step api sa cfg s (send_notification api name params s)"
| update_notified: "server_step api sa cfg s (notify_resource_updated api uri s)"
| stopped: "ss_session s = Some sn \<Longrightarrow> \<not> sn_stopping sn \<Longrightarrow> server_step api sa cfg s (stop_session sn s)"
| run_ends: "ss_session s = Some sn \<Longrightarrow> sn_stopping sn \<Longrightarrow> drained s \<Longrightarrow> server_step api sa cfg s (s\<lparr>ss_session := None\<rparr>)"

inductive_cases server_stepE: "server_step api sa cfg s s'"

inductive server_reachable :: "'j JsonApi \<Rightarrow> ('j, 's) SchemaApi \<Rightarrow> ('j, 's, 'w) ServerConfig \<Rightarrow> ('j, 'w) Server \<Rightarrow> bool"
  for api sa cfg where
  init: "server_reachable api sa cfg (new_server w)"
| step: "server_reachable api sa cfg s \<Longrightarrow> server_step api sa cfg s s' \<Longrightarrow> server_reachable api sa cfg s'"

end
