(* ===== verification/ServerProps.thy ===== *)
theory ServerProps
  imports ServerModel
begin

text \<open>
  What holds of the server in every reachable state (server/server.cpp): each message is answered at
  most once and as what it is, and no answer crosses into another session.
\<close>

subsection \<open>What a request leaves alone\<close>

text \<open>The fields no request handler touches.\<close>

definition same_frame :: "('j, 'w) Server \<Rightarrow> ('j, 'w) Server \<Rightarrow> bool" where
  "same_frame s s' \<longleftrightarrow>
     sv_run s' = sv_run s \<and> sv_queue s' = sv_queue s \<and> sv_log s' = sv_log s \<and> sv_running s' = sv_running s
   \<and> sv_pending s' = sv_pending s \<and> sv_calls s' = sv_calls s \<and> sv_out s' = sv_out s
   \<and> ss_terminated_sessions s' = ss_terminated_sessions s
   \<and> map_option (\<lambda>sn. (sn_http sn, sn_stopping sn)) (ss_session s') = map_option (\<lambda>sn. (sn_http sn, sn_stopping sn)) (ss_session s)"

lemma same_frame_refl [simp]: "same_frame s s"
  by (simp add: same_frame_def)

lemma same_frame_epoch: "same_frame s s' \<Longrightarrow> current_epoch s' = current_epoch s"
  by (cases "ss_session s"; cases "ss_session s'") (auto simp: same_frame_def current_epoch_def session_epoch_def)

lemma frame_shutdown [simp]: "same_frame s (s\<lparr>ss_shutdown_requested := b\<rparr>)"
  by (simp add: same_frame_def)

lemma frame_initialize: "handle_initialize api cfg rid msg u s = (out, s') \<Longrightarrow> same_frame s s'"
  by (auto simp: handle_initialize_def with_params_def note_initialize_def same_frame_def Let_def split: sum.splits option.splits)

lemma frame_tools_call: "handle_tools_call api cfg n rid msg s = (out, s') \<Longrightarrow> same_frame s s'"
  by (auto simp: handle_tools_call_def with_params_def same_frame_def option.map_comp comp_def split: sum.splits option.splits if_splits)

lemma frame_resources_read: "handle_resources_read api cfg rid msg s = (out, s') \<Longrightarrow> same_frame s s'"
  by (auto simp: handle_resources_read_def with_params_def Let_def split: sum.splits option.splits if_splits)

lemma frame_prompts_get: "handle_prompts_get api cfg rid msg s = (out, s') \<Longrightarrow> same_frame s s'"
  by (auto simp: handle_prompts_get_def with_params_def split: sum.splits option.splits)

lemma frame_set_level: "handle_set_level api rid msg s = (out, s') \<Longrightarrow> same_frame s s'"
  by (auto simp: handle_set_level_def with_params_def same_frame_def split: sum.splits)

lemma frame_complete: "handle_complete api cfg rid msg s = (out, s') \<Longrightarrow> same_frame s s'"
  by (auto simp: handle_complete_def with_params_def split: sum.splits option.splits)

lemma frame_call_subscription: "call_subscription h uri s = (e, s') \<Longrightarrow> same_frame s s' \<and> ss_session s' = ss_session s \<and> ss_lifecycle s' = ss_lifecycle s"
  by (auto simp: call_subscription_def same_frame_def split: option.splits prod.splits)

lemma frame_subscribe: "handle_subscribe api cfg rid msg s = (out, s') \<Longrightarrow> same_frame s s'"
  by (auto simp: handle_subscribe_def with_params_def Let_def same_frame_def option.map_comp comp_def
    dest!: frame_call_subscription split: sum.splits prod.splits)

lemma frame_unsubscribe: "handle_unsubscribe api cfg rid msg s = (out, s') \<Longrightarrow> same_frame s s'"
  by (auto simp: handle_unsubscribe_def with_params_def Let_def same_frame_def option.map_comp comp_def
    dest!: frame_call_subscription split: sum.splits prod.splits)

lemmas handler_frames = frame_initialize frame_tools_call frame_resources_read frame_prompts_get frame_set_level
  frame_complete frame_subscribe frame_unsubscribe

lemma frame_call_method: "call_method api cfg n enforce rid name msg s = (out, s') \<Longrightarrow> same_frame s s'"
  by (auto simp: call_method_def Let_def dest: handler_frames split: if_splits)

subsection \<open>What a request may change\<close>

lemma lifecycle_handlers:
  "handle_tools_call api cfg n rid msg s = (out, s') \<Longrightarrow> ss_lifecycle s' = ss_lifecycle s \<and> ss_terminated_at_initialize s' = ss_terminated_at_initialize s"
  "handle_resources_read api cfg rid msg s = (out, s') \<Longrightarrow> ss_lifecycle s' = ss_lifecycle s \<and> ss_terminated_at_initialize s' = ss_terminated_at_initialize s"
  "handle_prompts_get api cfg rid msg s = (out, s') \<Longrightarrow> ss_lifecycle s' = ss_lifecycle s \<and> ss_terminated_at_initialize s' = ss_terminated_at_initialize s"
  "handle_set_level api rid msg s = (out, s') \<Longrightarrow> ss_lifecycle s' = ss_lifecycle s \<and> ss_terminated_at_initialize s' = ss_terminated_at_initialize s"
  "handle_complete api cfg rid msg s = (out, s') \<Longrightarrow> ss_lifecycle s' = ss_lifecycle s \<and> ss_terminated_at_initialize s' = ss_terminated_at_initialize s"
  "handle_subscribe api cfg rid msg s = (out, s') \<Longrightarrow> ss_lifecycle s' = ss_lifecycle s \<and> ss_terminated_at_initialize s' = ss_terminated_at_initialize s"
  "handle_unsubscribe api cfg rid msg s = (out, s') \<Longrightarrow> ss_lifecycle s' = ss_lifecycle s \<and> ss_terminated_at_initialize s' = ss_terminated_at_initialize s"
  by (auto simp: handle_tools_call_def handle_resources_read_def handle_prompts_get_def handle_set_level_def handle_complete_def
    handle_subscribe_def handle_unsubscribe_def call_subscription_def with_params_def Let_def
    split: sum.splits option.splits if_splits prod.splits)

text \<open>Only a successful initialize moves the lifecycle, and only a ready server suspends a request.\<close>

lemma call_method_lifecycle:
  assumes "call_method api cfg n True rid name msg s = (out, s')"
  shows "(ss_lifecycle s' = ss_lifecycle s \<and> ss_terminated_at_initialize s' = ss_terminated_at_initialize s)
    \<or> (name = ''initialize'' \<and> ss_lifecycle s' = Awaiting_initialized
      \<and> (\<forall>sn. ss_session s = Some sn \<and> sn_http sn \<longrightarrow> ss_terminated_at_initialize s' = ss_terminated_sessions s))"
proof (cases "name = ''initialize''")
  case True
  with assms show ?thesis
    by (auto simp: call_method_def handle_initialize_def note_initialize_def with_params_def session_epoch_def Let_def
      split: if_splits sum.splits option.splits)
next
  case False
  have "ss_lifecycle s' = ss_lifecycle s \<and> ss_terminated_at_initialize s' = ss_terminated_at_initialize s"
    using assms False by (auto simp: call_method_def Let_def dest: lifecycle_handlers split: if_splits)
  then show ?thesis ..
qed

lemma suspended_when_ready:
  assumes "call_method api cfg n True rid name msg s = (Suspended work, s')"
  shows "ss_lifecycle s = Ready" "\<not> transport_started_new_session s"
  using assms by (auto simp: call_method_def handle_initialize_def with_params_def Let_def split: if_splits sum.splits)

text \<open>Which wires answer a request.\<close>

definition answers :: "'j JsonApi \<Rightarrow> 'j \<Rightarrow> string \<Rightarrow> bool" where
  "answers api msg wire \<longleftrightarrow>
     (case validate_request_envelope api msg of
        Some reason \<Rightarrow> wire = make_invalid_request_wire api msg reason
      | None \<Rightarrow> (\<exists>rid name. request_fields api msg = Some (rid, name)
          \<and> ((\<exists>r. wire = result_wire api rid r) \<or> (\<exists>code text. wire = error_wire api rid code text))))"

definition response_wire :: "'j JsonApi \<Rightarrow> RequestId \<Rightarrow> string \<Rightarrow> bool" where
  "response_wire api rid wire \<longleftrightarrow> (\<exists>r. wire = result_wire api rid r) \<or> (\<exists>code text. wire = error_wire api rid code text)"

lemma response_wires [simp]: "response_wire api rid (result_wire api rid r)" "response_wire api rid (error_wire api rid c t)"
  by (auto simp: response_wire_def)

lemma answer_handlers:
  "handle_initialize api cfg rid msg u s = (Answer wire, s') \<Longrightarrow> response_wire api rid wire"
  "handle_tools_call api cfg n rid msg s = (Answer wire, s') \<Longrightarrow> response_wire api rid wire"
  "handle_resources_read api cfg rid msg s = (Answer wire, s') \<Longrightarrow> response_wire api rid wire"
  "handle_prompts_get api cfg rid msg s = (Answer wire, s') \<Longrightarrow> response_wire api rid wire"
  "handle_set_level api rid msg s = (Answer wire, s') \<Longrightarrow> response_wire api rid wire"
  "handle_complete api cfg rid msg s = (Answer wire, s') \<Longrightarrow> response_wire api rid wire"
  "handle_subscribe api cfg rid msg s = (Answer wire, s') \<Longrightarrow> response_wire api rid wire"
  "handle_unsubscribe api cfg rid msg s = (Answer wire, s') \<Longrightarrow> response_wire api rid wire"
  by (auto simp: handle_initialize_def handle_tools_call_def handle_resources_read_def handle_prompts_get_def handle_set_level_def
    handle_complete_def handle_subscribe_def handle_unsubscribe_def empty_result_def with_params_def Let_def
    split: sum.splits option.splits if_splits prod.splits)

lemma answer_lists [simp]:
  "response_wire api rid (handle_tools_list api cfg rid msg)"
  "response_wire api rid (handle_resources_list api cfg rid msg)"
  "response_wire api rid (handle_resource_templates_list api cfg rid msg)"
  "response_wire api rid (handle_prompts_list api cfg rid msg)"
  "response_wire api rid (handle_discover api cfg rid)"
  by (simp_all add: handle_tools_list_def handle_resources_list_def handle_resource_templates_list_def handle_prompts_list_def
    handle_discover_def bad_cursor_def split: option.split)

lemma call_method_answer:
  "call_method api cfg n enforce rid name msg s = (Answer wire, s') \<Longrightarrow> response_wire api rid wire"
  by (auto simp: call_method_def Let_def dest: answer_handlers split: if_splits)

lemma failure_wire_answer: "failure_wire api rid e = Some wire \<Longrightarrow> response_wire api rid wire"
  by (auto simp: failure_wire_def split: Exception.splits)

lemma reply_wire_answer: "reply_wire api rid r = Some wire \<Longrightarrow> response_wire api rid wire"
  by (auto simp: reply_wire_def dest: failure_wire_answer split: Reply.splits)


subsection \<open>Dispatches and their answers\<close>

definition own_answers :: "Written list \<Rightarrow> nat \<Rightarrow> Written list" where
  "own_answers out n = filter (\<lambda>w. wr_origin w = From_dispatch n) out"

text \<open>A dispatch that waits for its handler, and a message a dispatch or its handler wrote.\<close>

definition running_ok :: "'j JsonApi \<Rightarrow> 'j Entry list \<Rightarrow> Written list \<Rightarrow> nat \<Rightarrow> nat \<Rightarrow> ('j, 'w) Dispatch \<Rightarrow> bool" where
  "running_ok api log out run n d \<longleftrightarrow>
     n < length log \<and> en_run (log ! n) = run \<and> en_epoch (log ! n) = dp_epoch d \<and> own_answers out n = []
   \<and> classify_message api (en_msg (log ! n)) = Request_message \<and> validate_request_envelope api (en_msg (log ! n)) = None
   \<and> (\<exists>name. request_fields api (en_msg (log ! n)) = Some (dp_id d, name))"

definition written_ok :: "'j JsonApi \<Rightarrow> 'j Entry list \<Rightarrow> Written \<Rightarrow> bool" where
  "written_ok api log w \<longleftrightarrow>
     (case wr_origin w of
        From_dispatch n \<Rightarrow> n < length log \<and> classify_message api (en_msg (log ! n)) = Request_message
          \<and> answers api (en_msg (log ! n)) (wr_text w) \<and> wr_epoch w = en_epoch (log ! n) \<and> wr_run w = en_run (log ! n)
      | From_handler n \<Rightarrow> n < length log \<and> classify_message api (en_msg (log ! n)) = Request_message
          \<and> wr_epoch w = en_epoch (log ! n) \<and> wr_run w = en_run (log ! n)
      | _ \<Rightarrow> True)"

definition dispatch_inv :: "'j JsonApi \<Rightarrow> ('j, 'w) Server \<Rightarrow> bool" where
  "dispatch_inv api s \<longleftrightarrow>
     (\<forall>n d. sv_running s n = Some d \<longrightarrow> ss_session s \<noteq> None \<and> running_ok api (sv_log s) (sv_out s) (sv_run s) n d)
   \<and> (\<forall>w \<in> set (sv_out s). written_ok api (sv_log s) w)
   \<and> (\<forall>n. length (own_answers (sv_out s) n) \<le> 1)
   \<and> (sv_queue s \<noteq> [] \<longrightarrow> ss_session s \<noteq> None)"

lemma own_answers_append: "own_answers (out @ [w]) n = own_answers out n @ (if wr_origin w = From_dispatch n then [w] else [])"
  by (simp add: own_answers_def)

lemma written_ok_append: "written_ok api log w \<Longrightarrow> written_ok api (log @ [e]) w"
  by (auto simp: written_ok_def nth_append split: Origin.splits)

lemma running_ok_append: "running_ok api log out run n d \<Longrightarrow> running_ok api (log @ [e]) out run n d"
  by (auto simp: running_ok_def nth_append)

lemma no_answer_yet: "dispatch_inv api s \<Longrightarrow> own_answers (sv_out s) (length (sv_log s)) = []"
  by (force simp: dispatch_inv_def own_answers_def written_ok_def filter_empty_conv split: Origin.splits)

text \<open>The invariant looks at these fields only.\<close>

lemma dispatch_inv_frame:
  assumes "dispatch_inv api s" "sv_running s' = sv_running s" "sv_log s' = sv_log s" "sv_out s' = sv_out s" "sv_run s' = sv_run s"
    and "sv_queue s' \<noteq> [] \<Longrightarrow> ss_session s \<noteq> None" "ss_session s \<noteq> None \<Longrightarrow> ss_session s' \<noteq> None"
  shows "dispatch_inv api s'"
  using assms unfolding dispatch_inv_def by metis

lemma same_frame_session: "same_frame s s' \<Longrightarrow> (ss_session s' = None \<longleftrightarrow> ss_session s = None)"
  by (auto simp: same_frame_def)

lemma dispatch_inv_same_frame:
  assumes "dispatch_inv api s" "same_frame s s'"
  shows "dispatch_inv api s'"
proof -
  have "sv_queue s \<noteq> [] \<Longrightarrow> ss_session s \<noteq> None" using assms(1) by (simp add: dispatch_inv_def)
  then show ?thesis
    using dispatch_inv_frame [OF assms(1), of s'] same_frame_session [OF assms(2)] assms(2) unfolding same_frame_def by metis
qed

lemma dispatch_inv_write_other:
  assumes "dispatch_inv api s" "\<And>n. from \<noteq> From_dispatch n" "\<And>n. from = From_handler n \<Longrightarrow> n < length (sv_log s)
      \<and> classify_message api (en_msg (sv_log s ! n)) = Request_message
      \<and> current_epoch s = en_epoch (sv_log s ! n) \<and> sv_run s = en_run (sv_log s ! n)"
  shows "dispatch_inv api (write_out from wire s)"
proof -
  have w: "written_ok api (sv_log s) \<lparr>wr_origin = from, wr_text = wire, wr_epoch = current_epoch s, wr_run = sv_run s\<rparr>"
    using assms(2,3) by (auto simp: written_ok_def split: Origin.splits)
  have o: "own_answers (sv_out s @ [\<lparr>wr_origin = from, wr_text = wire, wr_epoch = current_epoch s, wr_run = sv_run s\<rparr>]) n
      = own_answers (sv_out s) n" for n
    using assms(2) by (simp add: own_answers_append)
  show ?thesis using assms(1) w by (auto simp: dispatch_inv_def write_out_def running_ok_def o)
qed

lemma dispatch_inv_answer:
  assumes "dispatch_inv api s" "n < length (sv_log s)" "classify_message api (en_msg (sv_log s ! n)) = Request_message"
    and "answers api (en_msg (sv_log s ! n)) wire" "current_epoch s = en_epoch (sv_log s ! n)" "sv_run s = en_run (sv_log s ! n)"
    and "own_answers (sv_out s) n = []" "sv_running s n = None"
  shows "dispatch_inv api (write_out (From_dispatch n) wire s)"
proof -
  let ?w = "\<lparr>wr_origin = From_dispatch n, wr_text = wire, wr_epoch = current_epoch s, wr_run = sv_run s\<rparr>"
  have w: "written_ok api (sv_log s) ?w" using assms by (simp add: written_ok_def)
  have l: "length (own_answers (sv_out s @ [?w]) m) \<le> 1" for m
    using assms(1,7) by (cases "m = n") (auto simp: own_answers_append dispatch_inv_def)
  have r: "running_ok api (sv_log s) (sv_out s @ [?w]) (sv_run s) m d" if "sv_running s m = Some d" for m d
  proof -
    have "m \<noteq> n" using that assms(8) by auto
    with that assms(1) show ?thesis by (simp add: dispatch_inv_def running_ok_def own_answers_append)
  qed
  from assms(1) w l r show ?thesis by (simp add: dispatch_inv_def write_out_def)
qed


lemma request_answers:
  "validate_request_envelope api msg = None \<Longrightarrow> request_fields api msg = Some (rid, name) \<Longrightarrow> response_wire api rid wire \<Longrightarrow> answers api msg wire"
  by (auto simp: answers_def response_wire_def)

text \<open>The state in which a message starts to be dispatched: it is the last entry of the history.\<close>

definition log_message :: "'j \<Rightarrow> ('j, 'w) Server \<Rightarrow> ('j, 'w) Server" where
  "log_message msg s = s\<lparr>sv_log := sv_log s @ [\<lparr>en_msg = msg, en_epoch = current_epoch s, en_run = sv_run s\<rparr>]\<rparr>"

lemma log_message_simps [simp]:
  "sv_log (log_message msg s) = sv_log s @ [\<lparr>en_msg = msg, en_epoch = current_epoch s, en_run = sv_run s\<rparr>]"
  "sv_out (log_message msg s) = sv_out s" "sv_running (log_message msg s) = sv_running s" "sv_run (log_message msg s) = sv_run s"
  "ss_session (log_message msg s) = ss_session s" "sv_queue (log_message msg s) = sv_queue s"
  "sv_pending (log_message msg s) = sv_pending s" "sv_calls (log_message msg s) = sv_calls s"
  "ss_lifecycle (log_message msg s) = ss_lifecycle s" "ss_terminated_sessions (log_message msg s) = ss_terminated_sessions s"
  "ss_terminated_at_initialize (log_message msg s) = ss_terminated_at_initialize s"
  "current_epoch (log_message msg s) = current_epoch s"
  by (cases "ss_session s"; simp add: log_message_def current_epoch_def session_epoch_def)+

lemma start_dispatch_log:
  "start_dispatch api cfg msg s =
     (case classify_message api msg of
        Notification_message \<Rightarrow> receive_notification api msg (log_message msg s)
      | Dropped_message \<Rightarrow> log_message msg s
      | Response_message \<Rightarrow> receive_response api msg (log_message msg s)
      | Request_message \<Rightarrow> begin_request api cfg (length (sv_log s)) msg (log_message msg s))"
  by (cases "classify_message api msg") (simp_all add: start_dispatch_def log_message_def Let_def)

lemma dispatch_inv_log:
  assumes "dispatch_inv api s"
  shows "dispatch_inv api (log_message msg s)"
proof -
  have "written_ok api (sv_log s @ [e]) w" if "w \<in> set (sv_out s)" for e w
    using assms that by (intro written_ok_append) (simp add: dispatch_inv_def)
  moreover have "running_ok api (sv_log s @ [e]) (sv_out s) (sv_run s) n d" if "sv_running s n = Some d" for e n d
    using assms that by (intro running_ok_append) (simp add: dispatch_inv_def)
  ultimately show ?thesis using assms by (simp add: dispatch_inv_def)
qed

lemma write_out_simps [simp]:
  "sv_log (write_out from wire s) = sv_log s" "sv_running (write_out from wire s) = sv_running s" "sv_run (write_out from wire s) = sv_run s"
  "ss_session (write_out from wire s) = ss_session s" "sv_queue (write_out from wire s) = sv_queue s"
  "sv_pending (write_out from wire s) = sv_pending s" "sv_calls (write_out from wire s) = sv_calls s"
  "ss_lifecycle (write_out from wire s) = ss_lifecycle s" "ss_terminated_sessions (write_out from wire s) = ss_terminated_sessions s"
  "ss_terminated_at_initialize (write_out from wire s) = ss_terminated_at_initialize s"
  by (simp_all add: write_out_def)

lemma dispatch_inv_begin_request:
  assumes inv: "dispatch_inv api s" and sn: "ss_session s \<noteq> None" and kind: "classify_message api msg = Request_message"
  shows "dispatch_inv api (begin_request api cfg (length (sv_log s)) msg (log_message msg s))"
proof -
  let ?n = "length (sv_log s)" and ?s = "log_message msg s"
  have inv': "dispatch_inv api ?s" by (rule dispatch_inv_log [OF inv])
  have none: "own_answers (sv_out s) ?n = []" by (rule no_answer_yet [OF inv])
  have idle: "sv_running s ?n = None"
  proof (cases "sv_running s ?n")
    case (Some d)
    with inv have "?n < ?n" unfolding dispatch_inv_def running_ok_def by metis
    then show ?thesis by simp
  qed
  have wr: "dispatch_inv api (write_out (From_dispatch ?n) wire s')"
    if "dispatch_inv api s'" "same_frame ?s s'" "answers api msg wire" for s' wire
  proof -
    have e: "sv_log s' = sv_log ?s" "sv_out s' = sv_out s" "sv_run s' = sv_run s" "sv_running s' = sv_running s"
      using that(2) unfolding same_frame_def by simp_all
    have "current_epoch s' = current_epoch s" using same_frame_epoch [OF that(2)] by simp
    with e none idle kind that(3) show ?thesis by (intro dispatch_inv_answer [OF that(1)]) simp_all
  qed
  show ?thesis
  proof (cases "validate_request_envelope api msg")
    case (Some reason)
    then have "answers api msg (make_invalid_request_wire api msg reason)" by (simp add: answers_def)
    from wr [OF inv' same_frame_refl this] Some show ?thesis by (simp add: begin_request_def)
  next
    case None
    show ?thesis
    proof (cases "request_fields api msg")
      case f: (Some p)
      obtain rid name where p: "p = (rid, name)" by (cases p)
      obtain out s' where c: "call_method api cfg ?n True rid name msg ?s = (out, s')" by (cases "call_method api cfg ?n True rid name msg ?s")
      have fr: "same_frame ?s s'" by (rule frame_call_method [OF c])
      have i: "dispatch_inv api s'" by (rule dispatch_inv_same_frame [OF inv' fr])
      show ?thesis
      proof (cases out)
        case (Answer wire)
        have "answers api msg wire" by (rule request_answers [OF None f [unfolded p] call_method_answer [OF c [unfolded Answer]]])
        from wr [OF i fr this] show ?thesis using None f p c Answer by (simp add: begin_request_def)
      next
        case (Failed e)
        have "dispatch_inv api (write_out (From_dispatch ?n) wire s')" if "failure_wire api rid e = Some wire" for wire
          by (rule wr [OF i fr request_answers [OF None f [unfolded p] failure_wire_answer [OF that]]])
        with i show ?thesis using None f p c Failed by (simp add: begin_request_def split: option.split)
      next
        case (Suspended work)
        let ?d = "\<lparr>dp_id = rid, dp_epoch = current_epoch s, dp_work = work\<rparr>"
        have "running_ok api (sv_log ?s) (sv_out s) (sv_run s) ?n ?d"
          using none kind None f p by (simp add: running_ok_def)
        moreover have "ss_session s' \<noteq> None" using same_frame_session [OF fr] sn by simp
        moreover have "sv_log s' = sv_log ?s" "sv_out s' = sv_out s" "sv_run s' = sv_run s" using fr unfolding same_frame_def by simp_all
        ultimately have "dispatch_inv api (s'\<lparr>sv_running := (sv_running s')(?n \<mapsto> ?d)\<rparr>)"
          using i by (simp add: dispatch_inv_def)
        then show ?thesis using None f p c Suspended by (simp add: begin_request_def)
      qed
    qed (use None inv' in \<open>simp add: begin_request_def\<close>)
  qed
qed

lemma receive_notification_frame:
  "sv_run (receive_notification api msg s) = sv_run s \<and> sv_queue (receive_notification api msg s) = sv_queue s
   \<and> sv_log (receive_notification api msg s) = sv_log s \<and> sv_running (receive_notification api msg s) = sv_running s
   \<and> sv_pending (receive_notification api msg s) = sv_pending s \<and> sv_calls (receive_notification api msg s) = sv_calls s
   \<and> sv_out (receive_notification api msg s) = sv_out s \<and> ss_session (receive_notification api msg s) = ss_session s
   \<and> ss_terminated_sessions (receive_notification api msg s) = ss_terminated_sessions s
   \<and> ss_terminated_at_initialize (receive_notification api msg s) = ss_terminated_at_initialize s"
  by (simp add: receive_notification_def cancel_in_flight_def split: sum.split option.split)

lemma put_pending_simps [simp]:
  "sv_log (put_pending r k p s) = sv_log s" "sv_running (put_pending r k p s) = sv_running s" "sv_run (put_pending r k p s) = sv_run s"
  "ss_session (put_pending r k p s) = ss_session s" "sv_queue (put_pending r k p s) = sv_queue s"
  "sv_out (put_pending r k p s) = sv_out s" "sv_calls (put_pending r k p s) = sv_calls s"
  "ss_lifecycle (put_pending r k p s) = ss_lifecycle s" "ss_terminated_sessions (put_pending r k p s) = ss_terminated_sessions s"
  "ss_terminated_at_initialize (put_pending r k p s) = ss_terminated_at_initialize s"
  by (simp_all add: put_pending_def)

lemma receive_response_frame:
  "sv_run (receive_response api msg s) = sv_run s \<and> sv_queue (receive_response api msg s) = sv_queue s
   \<and> sv_log (receive_response api msg s) = sv_log s \<and> sv_running (receive_response api msg s) = sv_running s
   \<and> sv_calls (receive_response api msg s) = sv_calls s
   \<and> sv_out (receive_response api msg s) = sv_out s \<and> ss_session (receive_response api msg s) = ss_session s
   \<and> ss_terminated_sessions (receive_response api msg s) = ss_terminated_sessions s
   \<and> ss_lifecycle (receive_response api msg s) = ss_lifecycle s
   \<and> ss_terminated_at_initialize (receive_response api msg s) = ss_terminated_at_initialize s"
  by (simp add: receive_response_def split: sum.split option.split)

lemma dispatch_inv_start:
  assumes inv: "dispatch_inv api s" and sn: "ss_session s \<noteq> None"
  shows "dispatch_inv api (start_dispatch api cfg msg s)"
proof (cases "classify_message api msg")
  case Request_message
  with dispatch_inv_begin_request [OF assms Request_message] show ?thesis by (simp add: start_dispatch_log)
next
  case Notification_message
  from dispatch_inv_frame [OF dispatch_inv_log [OF inv]] receive_notification_frame
  have "dispatch_inv api (receive_notification api msg (log_message msg s))" using sn by (metis log_message_simps(5))
  with Notification_message show ?thesis by (simp add: start_dispatch_log)
next
  case Response_message
  from dispatch_inv_frame [OF dispatch_inv_log [OF inv]] receive_response_frame
  have "dispatch_inv api (receive_response api msg (log_message msg s))" using sn by (metis log_message_simps(5))
  with Response_message show ?thesis by (simp add: start_dispatch_log)
next
  case Dropped_message
  with dispatch_inv_log [OF inv] show ?thesis by (simp add: start_dispatch_log)
qed


definition work_done :: "nat \<Rightarrow> ('j, 'w) Dispatch \<Rightarrow> 'w World \<Rightarrow> ('j, 'w) Server \<Rightarrow> ('j, 'w) Server" where
  "work_done n d w s = s\<lparr>ss_world := w, ss_session := map_option (leave_in_flight d) (ss_session s), sv_running := (sv_running s)(n := None)\<rparr>"

lemma work_done_simps [simp]:
  "sv_log (work_done n d w s) = sv_log s" "sv_out (work_done n d w s) = sv_out s" "sv_run (work_done n d w s) = sv_run s"
  "sv_queue (work_done n d w s) = sv_queue s" "sv_running (work_done n d w s) = (sv_running s)(n := None)"
  "sv_pending (work_done n d w s) = sv_pending s" "sv_calls (work_done n d w s) = sv_calls s"
  "ss_lifecycle (work_done n d w s) = ss_lifecycle s" "ss_terminated_sessions (work_done n d w s) = ss_terminated_sessions s"
  "ss_terminated_at_initialize (work_done n d w s) = ss_terminated_at_initialize s"
  "ss_session (work_done n d w s) = map_option (leave_in_flight d) (ss_session s)"
  by (simp_all add: work_done_def)

lemma leave_in_flight_simps [simp]:
  "sn_http (leave_in_flight d sn) = sn_http sn" "sn_stopping (leave_in_flight d sn) = sn_stopping sn"
  "sn_subscriptions (leave_in_flight d sn) = sn_subscriptions sn"
  by (cases "dp_work d"; simp add: leave_in_flight_def)+

lemma work_done_epoch [simp]: "current_epoch (work_done n d w s) = current_epoch s"
  by (cases "ss_session s") (simp_all add: current_epoch_def session_epoch_def)

lemma finish_request_eq:
  "finish_request api sa cfg n d s =
     (let (reply, w) = run_work api sa cfg (dp_work d) (ss_world s) in
      case reply_wire api (dp_id d) reply of
        None \<Rightarrow> work_done n d w s
      | Some wire \<Rightarrow> if current_epoch s \<noteq> dp_epoch d then work_done n d w s else write_out (From_dispatch n) wire (work_done n d w s))"
  unfolding finish_request_def work_done_def [symmetric] work_done_epoch Let_def by (simp split: prod.split)

lemma dispatch_inv_work_done:
  assumes inv: "dispatch_inv api s" and run: "sv_running s n = Some d"
  shows "dispatch_inv api (work_done n d w s)"
  using inv by (simp add: dispatch_inv_def)

lemma dispatch_inv_finish:
  assumes inv: "dispatch_inv api s" and run: "sv_running s n = Some d"
  shows "dispatch_inv api (finish_request api sa cfg n d s)"
proof -
  obtain reply w where r: "run_work api sa cfg (dp_work d) (ss_world s) = (reply, w)" by (cases "run_work api sa cfg (dp_work d) (ss_world s)")
  have i: "dispatch_inv api (work_done n d w s)" by (rule dispatch_inv_work_done [OF inv run])
  have ok: "running_ok api (sv_log s) (sv_out s) (sv_run s) n d" using inv run by (simp add: dispatch_inv_def)
  then obtain name where f: "request_fields api (en_msg (sv_log s ! n)) = Some (dp_id d, name)" "validate_request_envelope api (en_msg (sv_log s ! n)) = None"
    by (auto simp: running_ok_def)
  have "dispatch_inv api (write_out (From_dispatch n) wire (work_done n d w s))"
    if "reply_wire api (dp_id d) reply = Some wire" "current_epoch s = dp_epoch d" for wire
  proof -
    have "answers api (en_msg (sv_log s ! n)) wire" by (rule request_answers [OF f(2,1) reply_wire_answer [OF that(1)]])
    with ok that(2) show ?thesis by (intro dispatch_inv_answer [OF i]) (simp_all add: running_ok_def)
  qed
  with i r show ?thesis by (simp add: finish_request_eq split: option.split)
qed

lemma dispatch_inv_update:
  "dispatch_inv api s \<Longrightarrow> dispatch_inv api (notify_resource_updated api uri s)"
proof -
  assume inv: "dispatch_inv api s"
  have "dispatch_inv api (write_out (From_update uri) wire s)" for wire
    by (rule dispatch_inv_write_other [OF inv]) simp_all
  moreover have "dispatch_inv api (s\<lparr>ss_session := Some sn\<rparr>)" for sn
    by (rule dispatch_inv_frame [OF inv]) (use inv in \<open>simp_all add: dispatch_inv_def\<close>)
  ultimately show ?thesis using inv by (simp add: notify_resource_updated_def split: option.split)
qed

lemma dispatch_inv_notify: "dispatch_inv api s \<Longrightarrow> dispatch_inv api (ServerModel.send_notification api name params s)"
  using dispatch_inv_write_other [of api s From_server] by (simp add: ServerModel.send_notification_def split: option.split)

lemma dispatch_inv_context:
  assumes inv: "dispatch_inv api s" and run: "sv_running s n = Some d"
  shows "dispatch_inv api (context_send n d wire s)"
proof (cases "current_epoch s = dp_epoch d")
  case True
  have "running_ok api (sv_log s) (sv_out s) (sv_run s) n d" using inv run by (simp add: dispatch_inv_def)
  with True have "dispatch_inv api (write_out (From_handler n) wire s)"
    by (intro dispatch_inv_write_other [OF inv]) (auto simp: running_ok_def)
  with True show ?thesis by (simp add: context_send_def)
qed (use inv in \<open>simp add: context_send_def\<close>)

lemma dispatch_inv_step:
  assumes inv: "dispatch_inv api s" and step: "server_step api sa cfg s s'"
  shows "dispatch_inv api s'"
proof -
  have queue: "sv_queue s \<noteq> [] \<Longrightarrow> ss_session s \<noteq> None" using inv by (simp add: dispatch_inv_def)
  have frame: "dispatch_inv api t" if "sv_running t = sv_running s" "sv_log t = sv_log s" "sv_out t = sv_out s" "sv_run t = sv_run s"
    "sv_queue t = sv_queue s" "ss_session t = ss_session s" for t
    using dispatch_inv_frame [OF inv, of t] that queue by metis
  show ?thesis using step
  proof (cases rule: server_step.cases)
    case (run_begins http k)
    then have "sv_running s n = None" for n using inv by (cases "sv_running s n") (auto simp: dispatch_inv_def)
    with inv run_begins show ?thesis by (simp add: dispatch_inv_def begin_run_def)
  next
    case (message_read sn msg)
    with inv show ?thesis by (simp add: dispatch_inv_def)
  next
    case (garbage_read sn)
    with dispatch_inv_write_other [OF inv, of From_reader] show ?thesis by simp
  next
    case (dispatched sn msg queue')
    then have "dispatch_inv api (s\<lparr>sv_queue := queue'\<rparr>)" using inv by (simp add: dispatch_inv_def)
    from dispatch_inv_start [OF this] dispatched show ?thesis by simp
  next
    case (handled n d)
    with dispatch_inv_finish [OF inv] show ?thesis by simp
  next
    case (session_ended sn)
    with frame show ?thesis by simp
  next
    case (handler_requests n d name params)
    with frame show ?thesis by (auto simp: ServerModel.send_request_def split: if_splits option.splits)
  next
    case (handler_logs n d level line logger)
    with inv dispatch_inv_context [OF inv] show ?thesis by (simp add: context_log_def)
  next
    case (handler_reports n d progress total' message)
    with inv dispatch_inv_context [OF inv] show ?thesis by (simp add: report_progress_def split: option.split)
  next
    case (server_requests name params)
    with frame show ?thesis by (auto simp: ServerModel.send_request_def split: if_splits option.splits)
  next
    case (call_starts i r wire)
    let ?t = "put_pending r (request_key i) (Some \<lparr>rp_result = j_null api, rp_error = None, rp_completed = False\<rparr>)
          (s\<lparr>sv_calls := (sv_calls s)[i := Rc_writing r]\<rparr>)"
    have "dispatch_inv api (write_out (From_call i) wire ?t)"
      by (rule dispatch_inv_write_other) (simp_all add: frame)
    moreover have "dispatch_inv api (end_call i r out s)" for out by (rule frame) (simp_all add: end_call_def)
    ultimately show ?thesis using call_starts by (simp add: await_reverse_response_def)
  next
    case (call_written i r)
    with frame show ?thesis by simp
  next
    case (call_not_written i r what)
    with frame show ?thesis by (simp add: reverse_write_failed_def end_call_def)
  next
    case (call_resumes i r)
    with frame show ?thesis by (simp add: resume_reverse_def end_call_def split: option.split)
  next
    case (wait_failed i r what)
    with frame show ?thesis by (simp add: reverse_write_failed_def end_call_def)
  next
    case (notified name params)
    with dispatch_inv_notify [OF inv] show ?thesis by simp
  next
    case (update_notified uri)
    with dispatch_inv_update [OF inv] show ?thesis by simp
  next
    case (stopped sn)
    have "dispatch_inv api (stop_session sn s)"
      by (rule dispatch_inv_frame [OF inv]) (use queue in \<open>simp_all add: stop_session_def abandon_session_work_def\<close>)
    with stopped show ?thesis by simp
  next
    case (run_ends sn)
    with inv show ?thesis by (simp add: dispatch_inv_def drained_def)
  qed
qed

theorem dispatch_inv_reachable: "server_reachable api sa cfg s \<Longrightarrow> dispatch_inv api s"
proof (induction rule: server_reachable.induct)
  case (init w)
  show ?case by (simp add: dispatch_inv_def new_server_def own_answers_def)
next
  case (step s s')
  then show ?case using dispatch_inv_step by blast
qed


text \<open>The text as the client reads it.\<close>

definition answers_request :: "'j JsonApi \<Rightarrow> 'j \<Rightarrow> string \<Rightarrow> bool" where
  "answers_request api msg wire \<longleftrightarrow>
     (case validate_request_envelope api msg of
        Some reason \<Rightarrow> wire = make_invalid_request_wire api msg reason
      | None \<Rightarrow> (\<exists>rid name. request_fields api msg = Some (rid, name)
          \<and> ((\<exists>r. j_parse api wire = Some (message_to_json api (Msg_result \<lparr>rr_id = rid, rr_jsonrpc = ''2.0'', rr_result = r\<rparr>)))
             \<or> (\<exists>e. j_parse api wire = Some (message_to_json api (Msg_error \<lparr>re_error = e, re_jsonrpc = ''2.0'', re_id = Some rid\<rparr>))))))"

lemma answers_answer:
  assumes "json_laws api" "answers api msg wire"
  shows "answers_request api msg wire"
proof (cases "validate_request_envelope api msg")
  case (Some reason)
  then show ?thesis using assms(2) by (simp add: answers_def answers_request_def)
next
  case None
  then have "\<exists>rid name. request_fields api msg = Some (rid, name)
      \<and> ((\<exists>r. wire = result_wire api rid r) \<or> (\<exists>code text. wire = error_wire api rid code text))"
    using assms(2) by (simp add: answers_def)
  then obtain rid name where f: "request_fields api msg = Some (rid, name)"
    and "(\<exists>r. wire = result_wire api rid r) \<or> (\<exists>code text. wire = error_wire api rid code text)"
    by blast
  from this(2) consider r where "wire = result_wire api rid r" | c t where "wire = error_wire api rid c t" by blast
  then show ?thesis
  proof cases
    case 1
    show ?thesis unfolding answers_request_def None 1 by (simp add: f result_wire_parses [OF assms(1)]) blast
  next
    case 2
    show ?thesis unfolding answers_request_def None 2 by (simp add: f error_wire_parses [OF assms(1)]) blast
  qed
qed

text \<open>C2: A message is answered at most once, and only if it is a request: by one text, which parses to a result or an
  error under the id of that request, or, where the request is refused as invalid, to an error with its id when it
  has a usable one. Notifications and responses, malformed ones included, are never answered.\<close>

theorem request_answered_once:
  assumes "json_laws api" and "server_reachable api sa cfg s"
  shows "length (own_answers (sv_out s) n) \<le> 1
    \<and> (\<forall>w \<in> set (own_answers (sv_out s) n). n < length (sv_log s)
        \<and> classify_message api (en_msg (sv_log s ! n)) = Request_message
        \<and> answers_request api (en_msg (sv_log s ! n)) (wr_text w))"
proof -
  have inv: "dispatch_inv api s" by (rule dispatch_inv_reachable [OF assms(2)])
  have "n < length (sv_log s) \<and> classify_message api (en_msg (sv_log s ! n)) = Request_message
      \<and> answers_request api (en_msg (sv_log s ! n)) (wr_text w)"
    if "w \<in> set (own_answers (sv_out s) n)" for w
  proof -
    have "written_ok api (sv_log s) w" "wr_origin w = From_dispatch n" using that inv by (simp_all add: own_answers_def dispatch_inv_def)
    then show ?thesis using answers_answer [OF assms(1)] by (simp add: written_ok_def)
  qed
  then show ?thesis using inv by (simp add: dispatch_inv_def)
qed

text \<open>C3: Nothing crosses sessions: an answer, and anything a handler logs or reports while it runs, is written only in the
  HTTP session (and the run) in which the request was dispatched; once the client has ended that session, nothing
  of it reaches the next client.\<close>

theorem answers_stay_in_session:
  assumes "server_reachable api sa cfg s" and "w \<in> set (sv_out s)" and "wr_origin w = From_dispatch n \<or> wr_origin w = From_handler n"
  shows "n < length (sv_log s) \<and> wr_epoch w = en_epoch (sv_log s ! n) \<and> wr_run w = en_run (sv_log s ! n)"
proof -
  have "written_ok api (sv_log s) w" using dispatch_inv_reachable [OF assms(1)] assms(2) by (simp add: dispatch_inv_def)
  with assms(3) show ?thesis by (auto simp: written_ok_def)
qed

end
