(* ===== verification/ServerProgress.thy ===== *)
theory ServerProgress
  imports ServerProps
begin

text \<open>
  What the server owes its client (server/server.cpp): an answer to each request it has read, as long
  as the handlers of the application throw nothing but standard exceptions.
\<close>

subsection \<open>No request is forgotten\<close>

text \<open>Handlers that throw, if at all, an \<open>std::exception\<close>.\<close>

definition polite :: "('j, 'w World) Handler \<Rightarrow> bool" where
  "polite h \<longleftrightarrow> (\<forall>x w. fst (h x w) \<noteq> Raised Foreign_exception)"

definition polite_work :: "'j JsonApi \<Rightarrow> ('j, 's) SchemaApi \<Rightarrow> ('j, 's, 'w) ServerConfig \<Rightarrow> ('j, 'w) Work \<Rightarrow> bool" where
  "polite_work api sa cfg work \<longleftrightarrow> (\<forall>w. fst (run_work api sa cfg work w) \<noteq> Raised Foreign_exception)"

text \<open>
  Middleware makes polite handlers of polite ones; then so does every chain. The handlers of tools need
  no such promise, the server catches what they throw.
\<close>

definition polite_config :: "('j, 's, 'w) ServerConfig \<Rightarrow> bool" where
  "polite_config cfg \<longleftrightarrow>
     (\<forall>mw \<in> set (ts_middlewares (sc_tools cfg)). \<forall>h. polite h \<longrightarrow> polite (mw h))
   \<and> (\<forall>uri h. sc_resource_handlers cfg uri = Some h \<longrightarrow> polite h)
   \<and> (\<forall>r \<in> set (sc_templates cfg). \<forall>h. rt_handler r = Some h \<longrightarrow> polite h)
   \<and> (\<forall>name h. sc_prompt_handlers cfg name = Some h \<longrightarrow> polite h)
   \<and> (\<forall>h. sc_completion cfg = Some h \<longrightarrow> (\<forall>p w. fst (h p w) \<noteq> Inl Foreign_exception))
   \<and> (\<forall>h. sc_subscribe cfg = Some h \<longrightarrow> (\<forall>uri w. fst (h uri w) \<noteq> Some Foreign_exception))
   \<and> (\<forall>h. sc_unsubscribe cfg = Some h \<longrightarrow> (\<forall>uri w. fst (h uri w) \<noteq> Some Foreign_exception))"

lemma polite_chain:
  assumes "\<forall>mw \<in> set mws. \<forall>h. polite h \<longrightarrow> polite (mw h)" "polite h"
  shows "polite (build_middleware_chain mws h)"
proof -
  have "polite (wrap_handlers ms h)" if "\<forall>mw \<in> set ms. \<forall>h. polite h \<longrightarrow> polite (mw h)" "polite h" for ms h
    using that by (induction ms arbitrary: h) auto
  from this [of "rev mws" h] assms show ?thesis by (simp add: build_middleware_chain_def)
qed

lemma polite_guarded: "polite (guarded_handler api sa v reg)"
  by (simp add: polite_def guarded_handler_def split: option.split prod.split Reply.split)

lemma polite_unwrap: "polite h \<Longrightarrow> polite (unwrap_params api h)"
  by (auto simp: polite_def unwrap_params_def split: sum.split)

lemma polite_tool:
  assumes "polite_config cfg"
  shows "polite_work api sa cfg (Tool_work params)"
proof -
  have chain: "polite (build_middleware_chain (ts_middlewares (sc_tools cfg)) (unwrap_params api (guarded_handler api sa v reg)))" for v reg
    using assms by (intro polite_chain polite_unwrap polite_guarded) (simp add: polite_config_def)
  have "fst (run_tool api sa (sc_tools cfg) reg params w) \<noteq> Raised Foreign_exception" for reg w
  proof (cases "ts_middlewares (sc_tools cfg) = []")
    case True
    then show ?thesis using polite_guarded [unfolded polite_def, rule_format] by (simp add: run_tool_def)
  next
    case False
    let ?r = "build_middleware_chain (ts_middlewares (sc_tools cfg))
      (unwrap_params api (guarded_handler api sa (tv_arguments (ts_validation (sc_tools cfg))) reg)) (call_tool_params_to_json api params) w"
    have "fst ?r \<noteq> Raised Foreign_exception" using chain by (simp add: polite_def)
    then show ?thesis using False by (simp add: run_tool_def Let_def split: prod.split Reply.split Exception.split) auto
  qed
  then have r: "run_tool api sa (sc_tools cfg) reg params w = (q, w') \<Longrightarrow> q \<noteq> Raised Foreign_exception" for reg w q w'
    by (metis fst_conv)
  have f: "finish_tool api sa ts reg name x w = (q, w') \<Longrightarrow> q \<noteq> Raised Foreign_exception" for ts reg name x w q w'
    by (auto simp: finish_tool_def split: sum.splits prod.splits if_splits option.splits)
  have "invoke_tool api sa (sc_tools cfg) params w = (q, w') \<Longrightarrow> q \<noteq> Raised Foreign_exception" for w q w'
    by (auto simp: invoke_tool_def split: option.splits prod.splits Reply.splits dest!: r f)
  then have "fst (invoke_tool api sa (sc_tools cfg) params w) \<noteq> Raised Foreign_exception" for w
    by (metis prod.collapse)
  then show ?thesis by (simp add: polite_work_def run_work_def)
qed

lemma polite_handler_work: "polite h \<Longrightarrow> polite_work api sa cfg (Handler_work h x)"
  by (simp add: polite_def polite_work_def run_work_def)

lemma found_template: "find_template rs uri found = Inr (Some h) \<Longrightarrow> found = Some h \<or> (\<exists>r \<in> set rs. rt_handler r = Some h)"
  by (induction rs uri found rule: find_template.induct) (auto split: option.splits if_splits)


lemma polite_call_subscription:
  assumes "\<forall>h. handler = Some h \<longrightarrow> (\<forall>uri w. fst (h uri w) \<noteq> Some Foreign_exception)" "call_subscription handler uri s = (e, s')"
  shows "e \<noteq> Some Foreign_exception"
proof (cases handler)
  case None
  then show ?thesis using assms(2) by (auto simp: call_subscription_def)
next
  case (Some h)
  then have "fst (h uri (ss_world s)) \<noteq> Some Foreign_exception" using assms(1) by blast
  then show ?thesis using assms(2) Some by (cases "h uri (ss_world s)") (simp add: call_subscription_def)
qed

lemma handlers_never_foreign:
  "handle_initialize api cfg rid msg u s \<noteq> (Failed Foreign_exception, s')"
  "handle_tools_call api cfg n rid msg s \<noteq> (Failed Foreign_exception, s')"
  "handle_resources_read api cfg rid msg s \<noteq> (Failed Foreign_exception, s')"
  "handle_prompts_get api cfg rid msg s \<noteq> (Failed Foreign_exception, s')"
  "handle_set_level api rid msg s \<noteq> (Failed Foreign_exception, s')"
  "handle_complete api cfg rid msg s \<noteq> (Failed Foreign_exception, s')"
  by (auto simp: handle_initialize_def handle_tools_call_def handle_resources_read_def handle_prompts_get_def handle_set_level_def
    handle_complete_def with_params_def deserialize_request_params_def Let_def split: sum.splits option.splits if_splits)

lemma polite_subscription_calls:
  assumes "polite_config cfg"
  shows "call_subscription (sc_subscribe cfg) uri s \<noteq> (Some Foreign_exception, s')"
    and "call_subscription (sc_unsubscribe cfg) uri s \<noteq> (Some Foreign_exception, s')"
proof -
  have "\<forall>h. sc_subscribe cfg = Some h \<longrightarrow> (\<forall>uri w. fst (h uri w) \<noteq> Some Foreign_exception)"
    and "\<forall>h. sc_unsubscribe cfg = Some h \<longrightarrow> (\<forall>uri w. fst (h uri w) \<noteq> Some Foreign_exception)"
    using assms by (simp_all add: polite_config_def)
  note this [THEN polite_call_subscription]
  then show "call_subscription (sc_subscribe cfg) uri s \<noteq> (Some Foreign_exception, s')"
    "call_subscription (sc_unsubscribe cfg) uri s \<noteq> (Some Foreign_exception, s')" by metis+
qed

lemma polite_subscription:
  assumes "polite_config cfg"
  shows "handle_subscribe api cfg rid msg s \<noteq> (Failed Foreign_exception, s')"
    and "handle_unsubscribe api cfg rid msg s \<noteq> (Failed Foreign_exception, s')"
  by (auto simp: polite_subscription_calls [OF assms] handle_subscribe_def handle_unsubscribe_def with_params_def
    deserialize_request_params_def empty_result_def Let_def split: sum.splits prod.splits option.splits)

lemma polite_failures:
  assumes "polite_config cfg"
  shows "call_method api cfg n enforce rid name msg s \<noteq> (Failed Foreign_exception, s')"
  by (auto simp: call_method_def Let_def handlers_never_foreign polite_subscription [OF assms] split: if_splits)

lemma polite_suspended:
  assumes "polite_config cfg" "call_method api cfg n enforce rid name msg s = (Suspended work, s')"
  shows "polite_work api sa cfg work"
proof -
  have "polite h \<Longrightarrow> polite (build_middleware_chain (ts_middlewares (sc_tools cfg)) h)" for h
    using assms(1) by (intro polite_chain) (simp_all add: polite_config_def)
  note chain = polite_handler_work [OF this]
  have r: "polite h" if "sc_resource_handlers cfg uri = Some h" for uri h using assms(1) that by (simp add: polite_config_def)
  have t: "polite h" if "find_template (sc_templates cfg) uri None = Inr (Some h)" for uri h
    using assms(1) found_template [OF that] by (auto simp: polite_config_def)
  have p: "polite h" if "sc_prompt_handlers cfg name = Some h" for name h using assms(1) that by (simp add: polite_config_def)
  have c: "polite_work api sa cfg (Completion_work h params)" if "sc_completion cfg = Some h" for h params
    using assms(1) that by (auto simp: polite_config_def polite_work_def run_work_def split: prod.split sum.split) (metis fst_conv)
  show ?thesis using assms(2)
    by (auto simp: call_method_def handle_initialize_def handle_tools_call_def handle_resources_read_def handle_prompts_get_def
      handle_set_level_def handle_complete_def handle_subscribe_def handle_unsubscribe_def empty_result_def with_params_def Let_def
      intro: polite_tool [OF assms(1)] chain r t p c split: if_splits sum.splits option.splits prod.splits)
qed


text \<open>A usable request has the fields the dispatch reads.\<close>

lemma valid_request_fields:
  assumes "json_laws api" "json_kinds api" "validate_request_envelope api msg = None"
  shows "request_fields api msg \<noteq> None"
proof -
  obtain r where r: "request_from_json api msg = Inr r" using accepted_request_decodes [OF assms] by blast
  then have "get_member api (id_from_json api) msg ''id'' = Inr (rq_id r)" "get_member api (j_string api) msg ''method'' = Inr (rq_method r)"
    by (auto simp: request_from_json_def)
  then show ?thesis by (simp add: request_fields_def)
qed

definition entry_ok :: "('j, 'w) Server \<Rightarrow> 'j Entry \<Rightarrow> bool" where
  "entry_ok s e \<longleftrightarrow> en_run e \<le> sv_run s
     \<and> (en_run e = sv_run s \<longrightarrow> en_epoch e \<le> ss_terminated_sessions s \<and> (ss_session s \<noteq> None \<longrightarrow> en_epoch e \<le> current_epoch s))"

text \<open>What became of dispatch \<open>n\<close>.\<close>

definition accounted :: "('j, 'w) Server \<Rightarrow> nat \<Rightarrow> bool" where
  "accounted s n \<longleftrightarrow> sv_running s n \<noteq> None \<or> own_answers (sv_out s) n \<noteq> []
     \<or> en_epoch (sv_log s ! n) < ss_terminated_sessions s"

definition account_inv :: "'j JsonApi \<Rightarrow> ('j, 's) SchemaApi \<Rightarrow> ('j, 's, 'w) ServerConfig \<Rightarrow> ('j, 'w) Server \<Rightarrow> bool" where
  "account_inv api sa cfg s \<longleftrightarrow>
     (\<forall>e \<in> set (sv_log s). entry_ok s e)
   \<and> (\<forall>n d. sv_running s n = Some d \<longrightarrow> polite_work api sa cfg (dp_work d))
   \<and> (\<forall>n < length (sv_log s). classify_message api (en_msg (sv_log s ! n)) = Request_message \<longrightarrow> en_run (sv_log s ! n) = sv_run s
        \<longrightarrow> accounted s n)"

lemma account_invI:
  assumes "\<And>e. e \<in> set (sv_log s) \<Longrightarrow> entry_ok s e"
    and "\<And>n d. sv_running s n = Some d \<Longrightarrow> polite_work api sa cfg (dp_work d)"
    and "\<And>n. n < length (sv_log s) \<Longrightarrow> classify_message api (en_msg (sv_log s ! n)) = Request_message \<Longrightarrow> en_run (sv_log s ! n) = sv_run s
        \<Longrightarrow> accounted s n"
  shows "account_inv api sa cfg s"
  using assms by (simp add: account_inv_def)

lemma account_invD:
  assumes "account_inv api sa cfg s"
  shows "e \<in> set (sv_log s) \<Longrightarrow> entry_ok s e"
    and "sv_running s n = Some d \<Longrightarrow> polite_work api sa cfg (dp_work d)"
    and "n < length (sv_log s) \<Longrightarrow> classify_message api (en_msg (sv_log s ! n)) = Request_message \<Longrightarrow> en_run (sv_log s ! n) = sv_run s
        \<Longrightarrow> accounted s n"
  using assms by (simp_all add: account_inv_def)

lemma current_epoch_bound: "current_epoch s \<le> ss_terminated_sessions s"
  by (simp add: current_epoch_def session_epoch_def split: option.split)

text \<open>Steps that keep the history and the running handlers, and at most add to what is written and ended.\<close>

lemma account_grows:
  assumes inv: "account_inv api sa cfg s" and same: "sv_log t = sv_log s" "sv_run t = sv_run s" "sv_running t = sv_running s"
    and out: "\<exists>ws. sv_out t = sv_out s @ ws" and ended: "ss_terminated_sessions s \<le> ss_terminated_sessions t"
    and epoch: "ss_session t \<noteq> None \<Longrightarrow> ss_session s \<noteq> None \<and> current_epoch s \<le> current_epoch t"
  shows "account_inv api sa cfg t"
proof (rule account_invI)
  fix e
  assume "e \<in> set (sv_log t)"
  then have "entry_ok s e" using account_invD(1) [OF inv] same(1) by simp
  then show "entry_ok t e" using same(2) ended epoch unfolding entry_ok_def by (metis le_trans)
next
  fix n d
  assume "sv_running t n = Some d"
  then show "polite_work api sa cfg (dp_work d)" using account_invD(2) [OF inv] same(3) by simp
next
  fix n
  assume "n < length (sv_log t)" "classify_message api (en_msg (sv_log t ! n)) = Request_message" "en_run (sv_log t ! n) = sv_run t"
  then have "accounted s n" using account_invD(3) [OF inv] same by simp
  moreover obtain ws where "sv_out t = sv_out s @ ws" using out by blast
  ultimately show "accounted t n" using same ended by (auto simp: accounted_def own_answers_def)
qed

lemma account_same_frame:
  assumes "account_inv api sa cfg s" "same_frame s t"
  shows "account_inv api sa cfg t"
proof (rule account_grows [OF assms(1)])
  show "sv_log t = sv_log s" "sv_run t = sv_run s" "sv_running t = sv_running s" "\<exists>ws. sv_out t = sv_out s @ ws"
    "ss_terminated_sessions s \<le> ss_terminated_sessions t"
    using assms(2) unfolding same_frame_def by simp_all
  show "ss_session t \<noteq> None \<Longrightarrow> ss_session s \<noteq> None \<and> current_epoch s \<le> current_epoch t"
    using same_frame_session [OF assms(2)] same_frame_epoch [OF assms(2)] by simp
qed

lemma account_write:
  assumes "account_inv api sa cfg s"
  shows "account_inv api sa cfg (write_out from wire s)"
  by (rule account_grows [OF assms]) (auto simp: write_out_def current_epoch_def session_epoch_def split: option.splits)


lemma answered_accounted: "accounted (write_out (From_dispatch n) wire s) n"
  by (simp add: accounted_def write_out_def own_answers_def)

text \<open>A state that differs in dispatch \<open>n\<close> only, which is accounted for.\<close>

lemma account_dispatch:
  assumes inv: "\<And>e. e \<in> set (sv_log t) \<Longrightarrow> entry_ok t e"
    and running: "\<And>m d. sv_running t m = Some d \<Longrightarrow> polite_work api sa cfg (dp_work d)"
    and other: "\<And>m. m \<noteq> n \<Longrightarrow> m < length (sv_log t) \<Longrightarrow> classify_message api (en_msg (sv_log t ! m)) = Request_message
        \<Longrightarrow> en_run (sv_log t ! m) = sv_run t \<Longrightarrow> accounted t m"
    and mine: "classify_message api (en_msg (sv_log t ! n)) = Request_message \<Longrightarrow> accounted t n"
  shows "account_inv api sa cfg t"
proof (rule account_invI)
  fix m assume "m < length (sv_log t)" "classify_message api (en_msg (sv_log t ! m)) = Request_message" "en_run (sv_log t ! m) = sv_run t"
  then show "accounted t m" using other [of m] mine by (cases "m = n") simp_all
qed (use inv running in simp_all)

lemma polite_reply:
  assumes "polite_work api sa cfg work" "run_work api sa cfg work w = (reply, w')"
  shows "\<exists>wire. reply_wire api rid reply = Some wire"
proof -
  have "reply \<noteq> Raised Foreign_exception" using assms unfolding polite_work_def by (metis fst_conv)
  then show ?thesis by (auto simp: reply_wire_def failure_wire_def split: Reply.split Exception.split)
qed

lemma entry_ok_same:
  assumes "sv_run t = sv_run s" "ss_terminated_sessions t = ss_terminated_sessions s" "current_epoch t = current_epoch s"
    and "ss_session t = None \<longleftrightarrow> ss_session s = None"
  shows "entry_ok t e = entry_ok s e"
  using assms by (simp add: entry_ok_def)

lemma write_out_epoch [simp]: "current_epoch (write_out from wire s) = current_epoch s"
  by (simp add: current_epoch_def session_epoch_def split: option.split)

lemma write_out_entry [simp]: "entry_ok (write_out from wire s) = entry_ok s"
  by (rule ext) (rule entry_ok_same; simp)

lemma work_done_entry [simp]: "entry_ok (work_done n d w s) = entry_ok s"
  by (rule ext) (rule entry_ok_same; simp)

lemma account_finish:
  assumes inv: "account_inv api sa cfg s" and dinv: "dispatch_inv api s" and run: "sv_running s n = Some d"
  shows "account_inv api sa cfg (finish_request api sa cfg n d s)"
proof -
  obtain reply w where r: "run_work api sa cfg (dp_work d) (ss_world s) = (reply, w)" by (cases "run_work api sa cfg (dp_work d) (ss_world s)")
  obtain wire where wire: "reply_wire api (dp_id d) reply = Some wire"
    using polite_reply [OF account_invD(2) [OF inv run] r] by blast
  have ok: "running_ok api (sv_log s) (sv_out s) (sv_run s) n d" "ss_session s \<noteq> None" using dinv run by (simp_all add: dispatch_inv_def)
  let ?t = "work_done n d w s"
  have others: "accounted ?t m" if "m \<noteq> n" "m < length (sv_log s)" "classify_message api (en_msg (sv_log s ! m)) = Request_message"
    "en_run (sv_log s ! m) = sv_run s" for m
    using account_invD(3) [OF inv that(2,3,4)] that(1) by (simp add: accounted_def)
  have polite: "polite_work api sa cfg (dp_work d')" if "((sv_running s)(n := None)) m = Some d'" for m d'
    using account_invD(2) [OF inv] that by (auto split: if_splits)
  show ?thesis
  proof (cases "current_epoch s = dp_epoch d")
    case True
    have "account_inv api sa cfg (write_out (From_dispatch n) wire ?t)"
    proof (rule account_dispatch [where n = n])
      show "accounted (write_out (From_dispatch n) wire ?t) n" by (rule answered_accounted)
    next
      fix m assume "m \<noteq> n" "m < length (sv_log (write_out (From_dispatch n) wire ?t))"
        "classify_message api (en_msg (sv_log (write_out (From_dispatch n) wire ?t) ! m)) = Request_message"
        "en_run (sv_log (write_out (From_dispatch n) wire ?t) ! m) = sv_run (write_out (From_dispatch n) wire ?t)"
      then have "accounted ?t m" using others by simp
      then show "accounted (write_out (From_dispatch n) wire ?t) m" by (auto simp: accounted_def write_out_def own_answers_append)
    qed (use account_invD(1) [OF inv] polite in auto)
    then show ?thesis using True by (simp add: finish_request_eq r wire)
  next
    case False
    have "en_epoch (sv_log s ! n) \<le> current_epoch s" "en_epoch (sv_log s ! n) = dp_epoch d"
      using account_invD(1) [OF inv, of "sv_log s ! n"] ok by (auto simp: running_ok_def entry_ok_def)
    then have "en_epoch (sv_log s ! n) < ss_terminated_sessions s" using False current_epoch_bound [of s] by simp
    then have "accounted ?t n" by (simp add: accounted_def)
    then have "account_inv api sa cfg ?t"
      by (intro account_dispatch [where n = n]) (use account_invD(1) [OF inv] polite others in auto)
    then show ?thesis using False by (simp add: finish_request_eq r wire)
  qed
qed

text \<open>A new entry of the history.\<close>

lemma log_message_entries:
  assumes "account_inv api sa cfg s" "ss_session s \<noteq> None" "e \<in> set (sv_log (log_message msg s))"
  shows "entry_ok s e"
  using assms(3) account_invD(1) [OF assms(1)] current_epoch_bound [of s] by (auto simp: entry_ok_def)

lemma log_message_others:
  assumes "account_inv api sa cfg s" "m \<noteq> length (sv_log s)" "m < length (sv_log (log_message msg s))"
    and "classify_message api (en_msg (sv_log (log_message msg s) ! m)) = Request_message" "en_run (sv_log (log_message msg s) ! m) = sv_run s"
  shows "sv_log (log_message msg s) ! m = sv_log s ! m \<and> accounted s m"
proof -
  have "m < length (sv_log s)" using assms(2,3) by simp
  then show ?thesis using account_invD(3) [OF assms(1)] assms(4,5) by (simp add: nth_append)
qed

lemma account_log:
  assumes "account_inv api sa cfg s" "ss_session s \<noteq> None" "classify_message api msg \<noteq> Request_message"
  shows "account_inv api sa cfg (log_message msg s)"
proof (rule account_dispatch [where n = "length (sv_log s)"])
  have e: "entry_ok (log_message msg s) e = entry_ok s e" for e by (rule entry_ok_same; simp)
  show "e \<in> set (sv_log (log_message msg s)) \<Longrightarrow> entry_ok (log_message msg s) e" for e
    unfolding e by (rule log_message_entries [OF assms(1,2)])
  show "classify_message api (en_msg (sv_log (log_message msg s) ! length (sv_log s))) = Request_message
      \<Longrightarrow> accounted (log_message msg s) (length (sv_log s))" using assms(3) by simp
  show "sv_running (log_message msg s) m = Some d \<Longrightarrow> polite_work api sa cfg (dp_work d)" for m d
    using account_invD(2) [OF assms(1)] by simp
  show "accounted (log_message msg s) m" if "m \<noteq> length (sv_log s)" "m < length (sv_log (log_message msg s))"
    "classify_message api (en_msg (sv_log (log_message msg s) ! m)) = Request_message"
    "en_run (sv_log (log_message msg s) ! m) = sv_run (log_message msg s)" for m
    using log_message_others [OF assms(1) that(1-3)] that(4) by (simp add: accounted_def)
qed


lemma account_begin_request:
  assumes inv: "account_inv api sa cfg s" and sn: "ss_session s \<noteq> None" and kind: "classify_message api msg = Request_message"
    and laws: "json_laws api" "json_kinds api" and cfg: "polite_config cfg"
  shows "account_inv api sa cfg (begin_request api cfg (length (sv_log s)) msg (log_message msg s))"
proof -
  let ?n = "length (sv_log s)" and ?s = "log_message msg s"
  have entries: "entry_ok s e" if "e \<in> set (sv_log ?s)" for e by (rule log_message_entries [OF inv sn that])
  have wr: "account_inv api sa cfg (write_out (From_dispatch ?n) wire t)" if f: "same_frame ?s t" for t wire
  proof (rule account_dispatch [where n = ?n])
    have t: "sv_log t = sv_log ?s" "sv_run t = sv_run s" "sv_running t = sv_running s" "sv_out t = sv_out s"
      "ss_terminated_sessions t = ss_terminated_sessions s" using f unfolding same_frame_def by simp_all
    have e: "entry_ok t e = entry_ok s e" for e
      by (rule entry_ok_same) (use t same_frame_epoch [OF f] same_frame_session [OF f] in simp_all)
    show "e \<in> set (sv_log (write_out (From_dispatch ?n) wire t)) \<Longrightarrow> entry_ok (write_out (From_dispatch ?n) wire t) e" for e
      using entries t(1) e by simp
    show "sv_running (write_out (From_dispatch ?n) wire t) m = Some d \<Longrightarrow> polite_work api sa cfg (dp_work d)" for m d
      using account_invD(2) [OF inv] t(3) by simp
    show "accounted (write_out (From_dispatch ?n) wire t) ?n" by (rule answered_accounted)
    fix m assume "m \<noteq> ?n" "m < length (sv_log (write_out (From_dispatch ?n) wire t))"
      "classify_message api (en_msg (sv_log (write_out (From_dispatch ?n) wire t) ! m)) = Request_message"
      "en_run (sv_log (write_out (From_dispatch ?n) wire t) ! m) = sv_run (write_out (From_dispatch ?n) wire t)"
    then have "sv_log ?s ! m = sv_log s ! m \<and> accounted s m" using log_message_others [OF inv, of m msg] t by simp
    then show "accounted (write_out (From_dispatch ?n) wire t) m"
      using t by (auto simp: accounted_def write_out_def own_answers_append)
  qed
  show ?thesis
  proof (cases "validate_request_envelope api msg")
    case (Some reason)
    then show ?thesis using wr [OF same_frame_refl] by (simp add: begin_request_def)
  next
    case None
    then obtain rid name where f: "request_fields api msg = Some (rid, name)" using valid_request_fields [OF laws None] by auto
    obtain out t where c: "call_method api cfg ?n True rid name msg ?s = (out, t)" by (cases "call_method api cfg ?n True rid name msg ?s")
    have fr: "same_frame ?s t" by (rule frame_call_method [OF c])
    show ?thesis
    proof (cases out)
      case (Answer wire)
      then show ?thesis using None f c wr [OF fr] by (simp add: begin_request_def)
    next
      case (Failed e)
      then have "e \<noteq> Foreign_exception" using c polite_failures [OF cfg] by blast
      then obtain wire where "failure_wire api rid e = Some wire" by (cases e) (simp_all add: failure_wire_def)
      then show ?thesis using Failed None f c wr [OF fr] by (simp add: begin_request_def)
    next
      case (Suspended work)
      let ?d = "\<lparr>dp_id = rid, dp_epoch = current_epoch s, dp_work = work\<rparr>"
      let ?t = "t\<lparr>sv_running := (sv_running t)(?n \<mapsto> ?d)\<rparr>"
      have t: "sv_log t = sv_log ?s" "sv_run t = sv_run s" "sv_running t = sv_running s" "sv_out t = sv_out s"
        "ss_terminated_sessions t = ss_terminated_sessions s" using fr unfolding same_frame_def by simp_all
      have ep: "current_epoch ?t = current_epoch t" by (simp add: current_epoch_def session_epoch_def split: option.split)
      have e: "entry_ok ?t e = entry_ok s e" for e
        by (rule entry_ok_same) (use t ep same_frame_epoch [OF fr] same_frame_session [OF fr] in simp_all)
      have "account_inv api sa cfg ?t"
      proof (rule account_dispatch [where n = ?n])
        show "e \<in> set (sv_log ?t) \<Longrightarrow> entry_ok ?t e" for e using entries t(1) e by simp
        show "sv_running ?t m = Some d \<Longrightarrow> polite_work api sa cfg (dp_work d)" for m d
          using account_invD(2) [OF inv] t(3) polite_suspended [OF cfg c [unfolded Suspended]] by (auto split: if_splits)
        show "accounted ?t ?n" by (simp add: accounted_def)
        fix m assume "m \<noteq> ?n" "m < length (sv_log ?t)" "classify_message api (en_msg (sv_log ?t ! m)) = Request_message"
          "en_run (sv_log ?t ! m) = sv_run ?t"
        then have "sv_log ?s ! m = sv_log s ! m \<and> accounted s m" using log_message_others [OF inv, of m msg] t by simp
        then show "accounted ?t m" using t by (simp add: accounted_def)
      qed
      then show ?thesis using Suspended None f c by (simp add: begin_request_def)
    qed
  qed
qed


lemma epoch_cong:
  "ss_session t = ss_session s \<Longrightarrow> ss_terminated_sessions t = ss_terminated_sessions s \<Longrightarrow> current_epoch t = current_epoch s"
  by (simp add: current_epoch_def session_epoch_def split: option.split)

text \<open>Steps that touch neither history nor handlers nor the session.\<close>

lemma account_frame:
  assumes "account_inv api sa cfg s" "sv_log t = sv_log s" "sv_run t = sv_run s" "sv_running t = sv_running s" "sv_out t = sv_out s"
    and "ss_session t = ss_session s" "ss_terminated_sessions t = ss_terminated_sessions s"
  shows "account_inv api sa cfg t"
  by (rule account_grows [OF assms(1-4)]) (use assms(5-7) epoch_cong [OF assms(6,7)] in simp_all)

lemma account_start:
  assumes inv: "account_inv api sa cfg s" and sn: "ss_session s \<noteq> None"
    and laws: "json_laws api" "json_kinds api" and cfg: "polite_config cfg"
  shows "account_inv api sa cfg (start_dispatch api cfg msg s)"
proof (cases "classify_message api msg")
  case Request_message
  with account_begin_request [OF inv sn Request_message laws cfg] show ?thesis by (simp add: start_dispatch_log)
next
  case Notification_message
  with account_frame [OF account_log [OF inv sn, of msg]] receive_notification_frame [of api msg "log_message msg s"]
  show ?thesis by (simp add: start_dispatch_log)
next
  case Response_message
  with account_frame [OF account_log [OF inv sn, of msg]] receive_response_frame [of api msg "log_message msg s"]
  show ?thesis by (simp add: start_dispatch_log)
next
  case Dropped_message
  with account_log [OF inv sn, of msg] show ?thesis by (simp add: start_dispatch_log)
qed

lemma account_step:
  assumes inv: "account_inv api sa cfg s" and dinv: "dispatch_inv api s" and step: "server_step api sa cfg s s'"
    and laws: "json_laws api" "json_kinds api" and cfg: "polite_config cfg"
  shows "account_inv api sa cfg s'"
proof -
  note frame = account_frame [OF inv]
  have sent: "account_inv api sa cfg t" if "ServerModel.send_request api caller name params s = Inr t" for caller name params t
    using that frame by (auto simp: ServerModel.send_request_def split: if_splits option.splits)
  show ?thesis using step
  proof (cases rule: server_step.cases)
    case (run_begins http k)
    have old: "en_run e \<le> sv_run s" if "e \<in> set (sv_log s)" for e
      using account_invD(1) [OF inv that] by (simp add: entry_ok_def)
    have "account_inv api sa cfg (begin_run http k s)"
    proof (rule account_invI)
      show "e \<in> set (sv_log (begin_run http k s)) \<Longrightarrow> entry_ok (begin_run http k s) e" for e
        using old [of e] by (simp add: begin_run_def entry_ok_def)
      show "sv_running (begin_run http k s) n = Some d \<Longrightarrow> polite_work api sa cfg (dp_work d)" for n d
        using account_invD(2) [OF inv] by (simp add: begin_run_def)
      show "n < length (sv_log (begin_run http k s)) \<Longrightarrow> en_run (sv_log (begin_run http k s) ! n) = sv_run (begin_run http k s)
          \<Longrightarrow> accounted (begin_run http k s) n" for n
        using old [of "sv_log s ! n"] by (simp add: begin_run_def entry_ok_def)
    qed
    with run_begins show ?thesis by simp
  next
    case (message_read sn msg)
    with frame show ?thesis by simp
  next
    case (garbage_read sn)
    with account_write [OF inv] show ?thesis by simp
  next
    case (dispatched sn msg queue')
    have "account_inv api sa cfg (s\<lparr>sv_queue := queue'\<rparr>)" by (rule frame) simp_all
    from account_start [OF this _ laws cfg] dispatched show ?thesis by simp
  next
    case (handled n d)
    with account_finish [OF inv dinv] show ?thesis by simp
  next
    case (session_ended sn)
    have "account_inv api sa cfg (s\<lparr>ss_terminated_sessions := Suc (ss_terminated_sessions s)\<rparr>)"
      by (rule account_grows [OF inv]) (simp_all add: current_epoch_def session_epoch_def split: option.split)
    with session_ended show ?thesis by simp
  next
    case (handler_requests n d name params)
    with sent show ?thesis by simp
  next
    case (handler_logs n d level line logger)
    with inv account_write [OF inv] show ?thesis by (simp add: context_log_def context_send_def)
  next
    case (handler_reports n d progress total' message)
    with inv account_write [OF inv] show ?thesis by (simp add: report_progress_def context_send_def split: option.split)
  next
    case (server_requests name params)
    with sent show ?thesis by simp
  next
    case (call_starts i r wire)
    have "account_inv api sa cfg (put_pending r (request_key i) p (s\<lparr>sv_calls := (sv_calls s)[i := Rc_writing r]\<rparr>))" for p
      by (rule frame) simp_all
    note account_write [OF this]
    moreover have "account_inv api sa cfg (end_call i r out s)" for out by (rule frame) (simp_all add: end_call_def)
    ultimately show ?thesis using call_starts by (simp add: await_reverse_response_def)
  next
    case (call_written i r)
    with frame show ?thesis by simp
  next
    case (call_not_written i r what)
    with frame show ?thesis by (simp add: reverse_write_failed_def end_call_def)
  next
    case (call_resumes i r)
    with frame show ?thesis by (simp add: resume_reverse_def end_call_def split: option.split)
  next
    case (wait_failed i r what)
    with frame show ?thesis by (simp add: reverse_write_failed_def end_call_def)
  next
    case (notified name params)
    with inv account_write [OF inv] show ?thesis by (simp add: ServerModel.send_notification_def split: option.split)
  next
    case (update_notified uri)
    have "account_inv api sa cfg (s\<lparr>ss_session := Some (sn\<lparr>sn_subscriptions := f\<rparr>)\<rparr>)" if "ss_session s = Some sn" for sn f
      by (rule account_grows [OF inv]) (use that in \<open>simp_all add: current_epoch_def session_epoch_def\<close>)
    with update_notified inv account_write [OF inv] show ?thesis by (simp add: notify_resource_updated_def split: option.split)
  next
    case (stopped sn)
    have "account_inv api sa cfg (stop_session sn s)"
      by (rule account_grows [OF inv])
        (use stopped in \<open>simp_all add: stop_session_def abandon_session_work_def current_epoch_def session_epoch_def\<close>)
    with stopped show ?thesis by simp
  next
    case (run_ends sn)
    have "account_inv api sa cfg (s\<lparr>ss_session := None\<rparr>)" by (rule account_grows [OF inv]) simp_all
    with run_ends show ?thesis by simp
  qed
qed

theorem account_inv_reachable:
  assumes "server_reachable api sa cfg s" "json_laws api" "json_kinds api" "polite_config cfg"
  shows "account_inv api sa cfg s"
  using assms(1)
proof (induction rule: server_reachable.induct)
  case (init w)
  show ?case by (simp add: account_inv_def new_server_def)
next
  case (step s s')
  then show ?case using account_step [OF _ dispatch_inv_reachable _ assms(2-4)] by blast
qed


end
