(* ===== verification/ServerHandshake.thy ===== *)
theory ServerHandshake
  imports ServerProgress
begin

text \<open>
  The lifecycle of a session (server/server.cpp): handlers run only for a client that has initialized
  in the same run and the same HTTP session.
\<close>

subsection \<open>No handler runs before the handshake\<close>

definition opens :: "'j JsonApi \<Rightarrow> 'j Entry \<Rightarrow> bool" where
  "opens api e \<longleftrightarrow> validate_request_envelope api (en_msg e) = None \<and> (\<exists>rid. request_fields api (en_msg e) = Some (rid, ''initialize''))"

definition confirms :: "'j JsonApi \<Rightarrow> 'j Entry \<Rightarrow> bool" where
  "confirms api e \<longleftrightarrow> classify_message api (en_msg e) = Notification_message
     \<and> get_member api (j_string api) (en_msg e) ''method'' = Inr ''notifications/initialized''"

definition entry_at :: "'j Entry list \<Rightarrow> nat \<Rightarrow> nat \<Rightarrow> nat \<Rightarrow> bool" where
  "entry_at log run epoch i \<longleftrightarrow> i < length log \<and> en_run (log ! i) = run \<and> en_epoch (log ! i) = epoch"

text \<open>Before message \<open>n\<close>, the handshake of that run and session.\<close>

definition handshake_before :: "'j JsonApi \<Rightarrow> 'j Entry list \<Rightarrow> nat \<Rightarrow> nat \<Rightarrow> nat \<Rightarrow> bool" where
  "handshake_before api log run epoch n \<longleftrightarrow>
     (\<exists>i j. i < j \<and> j < n \<and> entry_at log run epoch i \<and> opens api (log ! i) \<and> entry_at log run epoch j \<and> confirms api (log ! j))"

text \<open>The session for which the server was initialized.\<close>

definition init_epoch :: "('j, 'w) Server \<Rightarrow> nat" where
  "init_epoch s = (case ss_session s of None \<Rightarrow> 0 | Some sn \<Rightarrow> if sn_http sn then ss_terminated_at_initialize s else 0)"

definition begun :: "'j JsonApi \<Rightarrow> ('j, 'w) Server \<Rightarrow> bool" where
  "begun api s \<longleftrightarrow> init_epoch s \<le> current_epoch s
     \<and> (\<exists>i. entry_at (sv_log s) (sv_run s) (init_epoch s) i \<and> opens api (sv_log s ! i)
        \<and> (ss_lifecycle s = Ready \<longrightarrow> (\<exists>j e. i < j \<and> entry_at (sv_log s) (sv_run s) e j \<and> confirms api (sv_log s ! j)
             \<and> init_epoch s \<le> e \<and> e \<le> current_epoch s)))"

definition handshake_inv :: "'j JsonApi \<Rightarrow> ('j, 'w) Server \<Rightarrow> bool" where
  "handshake_inv api s \<longleftrightarrow> (ss_lifecycle s \<noteq> Uninitialized \<and> ss_session s \<noteq> None \<longrightarrow> begun api s)
     \<and> (\<forall>n d. sv_running s n = Some d \<longrightarrow> handshake_before api (sv_log s) (sv_run s) (dp_epoch d) n)"

lemma new_session_epochs: "ss_session s \<noteq> None \<Longrightarrow> \<not> transport_started_new_session s \<longleftrightarrow> current_epoch s = init_epoch s"
  by (auto simp: transport_started_new_session_def current_epoch_def init_epoch_def session_epoch_def)

lemma entry_at_append: "entry_at log run epoch i \<Longrightarrow> entry_at (log @ es) run epoch i \<and> (log @ es) ! i = log ! i"
  by (simp add: entry_at_def nth_append)

lemma handshake_before_append: "handshake_before api log run epoch n \<Longrightarrow> handshake_before api (log @ es) run epoch n"
  unfolding handshake_before_def by (metis entry_at_append)

lemma handshake_before_later: "handshake_before api log run epoch n \<Longrightarrow> n \<le> m \<Longrightarrow> handshake_before api log run epoch m"
  unfolding handshake_before_def by (metis order_less_le_trans)

text \<open>Steps that leave the lifecycle alone.\<close>

lemma begun_grows:
  assumes "begun api s" "\<exists>es. sv_log t = sv_log s @ es" "sv_run t = sv_run s" "ss_lifecycle t = ss_lifecycle s"
    and "init_epoch t = init_epoch s" "current_epoch s \<le> current_epoch t"
  shows "begun api t"
proof -
  obtain es where es: "sv_log t = sv_log s @ es" using assms(2) by blast
  have keep: "entry_at (sv_log t) (sv_run t) e i \<and> sv_log t ! i = sv_log s ! i" if "entry_at (sv_log s) (sv_run s) e i" for e i
    using entry_at_append [OF that] by (simp add: es assms(3))
  obtain i where i: "entry_at (sv_log s) (sv_run s) (init_epoch s) i" "opens api (sv_log s ! i)"
    and later: "ss_lifecycle s = Ready \<Longrightarrow> \<exists>j e. i < j \<and> entry_at (sv_log s) (sv_run s) e j \<and> confirms api (sv_log s ! j)
             \<and> init_epoch s \<le> e \<and> e \<le> current_epoch s"
    using assms(1) by (auto simp: begun_def)
  have "\<exists>j e. i < j \<and> entry_at (sv_log t) (sv_run t) e j \<and> confirms api (sv_log t ! j) \<and> init_epoch t \<le> e \<and> e \<le> current_epoch t"
    if r: "ss_lifecycle t = Ready"
  proof -
    have "ss_lifecycle s = Ready" using r assms(4) by simp
    then obtain j e where "i < j" "entry_at (sv_log s) (sv_run s) e j" "confirms api (sv_log s ! j)" "init_epoch s \<le> e" "e \<le> current_epoch s"
      using later by blast
    then show ?thesis using keep [of e j] assms(5,6) by (intro exI [of _ j] exI [of _ e]) simp
  qed
  moreover have "init_epoch t \<le> current_epoch t" using assms(1,5,6) by (simp add: begun_def)
  ultimately show ?thesis using i keep [OF i(1)] assms(5) unfolding begun_def by (intro conjI exI [of _ i]) simp_all
qed

lemma handshake_grows:
  assumes inv: "handshake_inv api s" and log: "\<exists>es. sv_log t = sv_log s @ es" "sv_run t = sv_run s"
    and life: "ss_session t \<noteq> None \<Longrightarrow> ss_lifecycle t = ss_lifecycle s"
    and epoch: "ss_session t \<noteq> None \<Longrightarrow> ss_session s \<noteq> None \<and> init_epoch t = init_epoch s \<and> current_epoch s \<le> current_epoch t"
    and run: "\<And>n d. sv_running t n = Some d \<Longrightarrow> sv_running s n = Some d"
  shows "handshake_inv api t"
proof -
  have "begun api t" if "ss_lifecycle t \<noteq> Uninitialized" "ss_session t \<noteq> None"
  proof -
    have "begun api s" using inv that life epoch by (auto simp: handshake_inv_def)
    then show ?thesis using begun_grows [OF _ log life] epoch that(2) by blast
  qed
  moreover have "handshake_before api (sv_log t) (sv_run t) (dp_epoch d) n" if "sv_running t n = Some d" for n d
  proof -
    obtain es where "sv_log t = sv_log s @ es" using log(1) by blast
    moreover have "handshake_before api (sv_log s) (sv_run s) (dp_epoch d) n" using inv run [OF that] by (simp add: handshake_inv_def)
    ultimately show ?thesis using log(2) handshake_before_append by simp
  qed
  ultimately show ?thesis by (simp add: handshake_inv_def)
qed

lemma init_epoch_cong:
  "map_option sn_http (ss_session t) = map_option sn_http (ss_session s) \<Longrightarrow> ss_terminated_at_initialize t = ss_terminated_at_initialize s
    \<Longrightarrow> init_epoch t = init_epoch s"
  by (cases "ss_session t"; cases "ss_session s") (simp_all add: init_epoch_def)

lemma handshake_frame:
  assumes "handshake_inv api s" "sv_log t = sv_log s" "sv_run t = sv_run s" "sv_running t = sv_running s"
    and "ss_session t = ss_session s" "ss_terminated_sessions t = ss_terminated_sessions s"
    and "ss_lifecycle t = ss_lifecycle s" "ss_terminated_at_initialize t = ss_terminated_at_initialize s"
  shows "handshake_inv api t"
  by (rule handshake_grows [OF assms(1)])
    (use assms(2-) epoch_cong [OF assms(5,6)] init_epoch_cong [of t s] in simp_all)

lemma handshake_write: "handshake_inv api s \<Longrightarrow> handshake_inv api (write_out from wire s)"
  by (rule handshake_frame) simp_all

lemma init_epoch_log [simp]: "init_epoch (log_message msg s) = init_epoch s"
  by (rule init_epoch_cong) simp_all

lemma handshake_log: "handshake_inv api s \<Longrightarrow> handshake_inv api (log_message msg s)"
  by (rule handshake_grows) simp_all


lemma handshake_notification:
  assumes inv: "handshake_inv api s" and kind: "classify_message api msg = Notification_message"
  shows "handshake_inv api (receive_notification api msg (log_message msg s))"
proof -
  let ?s = "log_message msg s" and ?t = "receive_notification api msg (log_message msg s)"
  note fr = receive_notification_frame [of api msg ?s]
  have inv': "handshake_inv api ?s" by (rule handshake_log [OF inv])
  have ep: "current_epoch ?t = current_epoch s" "init_epoch ?t = init_epoch s"
    using epoch_cong [of ?t ?s] init_epoch_cong [of ?t ?s] fr by simp_all
  show ?thesis
  proof (cases "ss_lifecycle ?t = ss_lifecycle s")
    case True
    show ?thesis by (rule handshake_frame [OF inv']) (use fr True in simp_all)
  next
    case False
    then have old: "ss_lifecycle s = Awaiting_initialized" "ss_lifecycle ?t = Ready"
      and m: "get_member api (j_string api) msg ''method'' = Inr ''notifications/initialized''"
      by (auto simp: receive_notification_def cancel_in_flight_def split: sum.splits if_splits option.splits)
    have "begun api ?t" if sn: "ss_session ?t \<noteq> None"
    proof -
      have b: "begun api s" using inv old(1) sn fr by (simp add: handshake_inv_def)
      then obtain i where i: "entry_at (sv_log s) (sv_run s) (init_epoch s) i" "opens api (sv_log s ! i)" by (auto simp: begun_def)
      let ?n = "length (sv_log s)"
      have "i < ?n" using i(1) by (simp add: entry_at_def)
      moreover have "entry_at (sv_log ?t) (sv_run ?t) (current_epoch s) ?n" using fr by (simp add: entry_at_def)
      moreover have "confirms api (sv_log ?t ! ?n)" using fr kind m by (simp add: confirms_def)
      moreover have "entry_at (sv_log ?t) (sv_run ?t) (init_epoch ?t) i" "opens api (sv_log ?t ! i)"
        using entry_at_append [OF i(1)] i(2) fr ep by simp_all
      ultimately show ?thesis using b ep unfolding begun_def
        by (intro conjI exI [of _ i] impI exI [of _ ?n] exI [of _ "current_epoch s"]) simp_all
    qed
    moreover have "handshake_before api (sv_log ?t) (sv_run ?t) (dp_epoch d) n" if "sv_running ?t n = Some d" for n d
      using inv' that fr by (simp add: handshake_inv_def)
    ultimately show ?thesis by (simp add: handshake_inv_def)
  qed
qed

lemma handshake_call:
  assumes inv: "handshake_inv api s" and sn: "ss_session s \<noteq> None" and ok: "validate_request_envelope api msg = None"
    and f: "request_fields api msg = Some (rid, name)"
    and c: "call_method api cfg n True rid name msg (log_message msg s) = (out, t)"
  shows "handshake_inv api t"
proof -
  let ?s = "log_message msg s"
  have fr: "same_frame ?s t" by (rule frame_call_method [OF c])
  have t: "sv_log t = sv_log ?s" "sv_run t = sv_run s" "sv_running t = sv_running s"
    "map_option sn_http (ss_session t) = map_option sn_http (ss_session s)" "ss_session t \<noteq> None"
    "ss_terminated_sessions t = ss_terminated_sessions s"
    using fr sn unfolding same_frame_def by (auto simp: option.map_comp comp_def elim: option.map_cong split: option.splits)
  have ep: "current_epoch t = current_epoch s" using same_frame_epoch [OF fr] by simp
  have inv': "handshake_inv api ?s" by (rule handshake_log [OF inv])
  show ?thesis using call_method_lifecycle [OF c]
  proof (elim disjE conjE)
    assume l: "ss_lifecycle t = ss_lifecycle ?s" "ss_terminated_at_initialize t = ss_terminated_at_initialize ?s"
    have "init_epoch t = init_epoch s" by (rule init_epoch_cong) (use t l in simp_all)
    then show ?thesis by (intro handshake_grows [OF inv']) (use t l ep sn in simp_all)
  next
    assume l: "name = ''initialize''" "ss_lifecycle t = Awaiting_initialized"
      "\<forall>sn. ss_session ?s = Some sn \<and> sn_http sn \<longrightarrow> ss_terminated_at_initialize t = ss_terminated_sessions ?s"
    have ie: "init_epoch t = current_epoch s"
      using l(3) t(4,5) sn by (auto simp: init_epoch_def current_epoch_def session_epoch_def)
    let ?n = "length (sv_log s)"
    have "entry_at (sv_log t) (sv_run t) (init_epoch t) ?n" "opens api (sv_log t ! ?n)"
      using t ie l(1) ok f by (simp_all add: entry_at_def opens_def)
    then have "begun api t" using l(2) ie ep unfolding begun_def by (intro conjI exI [of _ ?n]) simp_all
    moreover have "handshake_before api (sv_log t) (sv_run t) (dp_epoch d) m" if "sv_running t m = Some d" for m d
      using inv' that t by (simp add: handshake_inv_def)
    ultimately show ?thesis by (simp add: handshake_inv_def)
  qed
qed

lemma handshake_suspends:
  assumes inv: "handshake_inv api s" and sn: "ss_session s \<noteq> None"
    and c: "call_method api cfg n True rid name msg (log_message msg s) = (Suspended work, t)"
  shows "handshake_before api (sv_log s) (sv_run s) (current_epoch s) (length (sv_log s))"
proof -
  have r: "ss_lifecycle s = Ready" "\<not> transport_started_new_session (log_message msg s)" using suspended_when_ready [OF c] by simp_all
  have e: "current_epoch s = init_epoch s" using new_session_epochs [of "log_message msg s"] sn r(2) by simp
  have "begun api s" using inv r(1) sn by (simp add: handshake_inv_def)
  then obtain i j e' where i: "entry_at (sv_log s) (sv_run s) (init_epoch s) i" "opens api (sv_log s ! i)"
    and j: "i < j" "entry_at (sv_log s) (sv_run s) e' j" "confirms api (sv_log s ! j)" "init_epoch s \<le> e'" "e' \<le> current_epoch s"
    using r(1) by (auto simp: begun_def)
  have "e' = current_epoch s" using j(4,5) e by simp
  moreover have "j < length (sv_log s)" using j(2) by (simp add: entry_at_def)
  ultimately show ?thesis using i j(1-3) e unfolding handshake_before_def by (intro exI [of _ i] exI [of _ j]) simp
qed

lemma handshake_begin_request:
  assumes inv: "handshake_inv api s" and sn: "ss_session s \<noteq> None"
  shows "handshake_inv api (begin_request api cfg (length (sv_log s)) msg (log_message msg s))"
proof -
  let ?n = "length (sv_log s)" and ?s = "log_message msg s"
  note inv' = handshake_log [OF inv, of msg]
  show ?thesis
  proof (cases "validate_request_envelope api msg")
    case (Some reason)
    then show ?thesis using handshake_write [OF inv'] by (simp add: begin_request_def)
  next
    case None
    show ?thesis
    proof (cases "request_fields api msg")
      case f: (Some p)
      obtain rid name where p: "p = (rid, name)" by (cases p)
      obtain out t where c: "call_method api cfg ?n True rid name msg ?s = (out, t)" by (cases "call_method api cfg ?n True rid name msg ?s")
      have i: "handshake_inv api t" by (rule handshake_call [OF inv sn None f [unfolded p] c])
      show ?thesis
      proof (cases out)
        case (Answer wire)
        then show ?thesis using None f p c handshake_write [OF i] by (simp add: begin_request_def)
      next
        case (Failed e)
        then show ?thesis using None f p c handshake_write [OF i] i by (simp add: begin_request_def split: option.split)
      next
        case (Suspended work)
        let ?d = "\<lparr>dp_id = rid, dp_epoch = current_epoch s, dp_work = work\<rparr>"
        let ?t = "t\<lparr>sv_running := (sv_running t)(?n \<mapsto> ?d)\<rparr>"
        have fr: "same_frame ?s t" by (rule frame_call_method [OF c])
        have l: "sv_log t = sv_log ?s" "sv_run t = sv_run s" using fr unfolding same_frame_def by simp_all
        have b: "handshake_before api (sv_log t) (sv_run t) (current_epoch s) ?n"
          using handshake_before_append [OF handshake_suspends [OF inv sn c [unfolded Suspended]]] l by simp
        have "init_epoch ?t = init_epoch t" by (rule init_epoch_cong) simp_all
        moreover have "current_epoch ?t = current_epoch t" by (rule epoch_cong) simp_all
        ultimately have "begun api ?t = begun api t" by (simp add: begun_def)
        then have "handshake_inv api ?t" using i b by (simp add: handshake_inv_def)
        then show ?thesis using None f p c Suspended by (simp add: begin_request_def)
      qed
    qed (use None inv' in \<open>simp add: begin_request_def\<close>)
  qed
qed


lemma handshake_finish:
  assumes inv: "handshake_inv api s"
  shows "handshake_inv api (finish_request api sa cfg n d s)"
proof -
  have "handshake_inv api (work_done n d w s)" for w
  proof (rule handshake_grows [OF inv])
    have "init_epoch (work_done n d w s) = init_epoch s" by (rule init_epoch_cong) (cases "ss_session s"; simp)+
    then show "ss_session (work_done n d w s) \<noteq> None \<Longrightarrow> ss_session s \<noteq> None \<and> init_epoch (work_done n d w s) = init_epoch s
        \<and> current_epoch s \<le> current_epoch (work_done n d w s)" by simp
    show "sv_running (work_done n d w s) m = Some d' \<Longrightarrow> sv_running s m = Some d'" for m d' by (simp split: if_splits)
  qed simp_all
  note finished = this handshake_write [OF this]
  show ?thesis by (simp add: finish_request_eq finished split: prod.split option.split)
qed

lemma handshake_start:
  assumes inv: "handshake_inv api s" and sn: "ss_session s \<noteq> None"
  shows "handshake_inv api (start_dispatch api cfg msg s)"
proof (cases "classify_message api msg")
  case Request_message
  with handshake_begin_request [OF assms] show ?thesis by (simp add: start_dispatch_log)
next
  case Notification_message
  with handshake_notification [OF inv Notification_message] show ?thesis by (simp add: start_dispatch_log)
next
  case Response_message
  with handshake_frame [OF handshake_log [OF inv, of msg]] receive_response_frame [of api msg "log_message msg s"]
  show ?thesis by (simp add: start_dispatch_log)
next
  case Dropped_message
  with handshake_log [OF inv] show ?thesis by (simp add: start_dispatch_log)
qed

lemma handshake_step:
  assumes inv: "handshake_inv api s" and dinv: "dispatch_inv api s" and step: "server_step api sa cfg s s'"
  shows "handshake_inv api s'"
proof -
  note frame = handshake_frame [OF inv]
  have sent: "handshake_inv api t" if "ServerModel.send_request api caller name params s = Inr t" for caller name params t
    using that frame by (auto simp: ServerModel.send_request_def split: if_splits option.splits)
  show ?thesis using step
  proof (cases rule: server_step.cases)
    case (run_begins http k)
    then have "sv_running s n = None" for n using dinv by (cases "sv_running s n") (auto simp: dispatch_inv_def)
    with run_begins show ?thesis by (simp add: handshake_inv_def begin_run_def)
  next
    case (message_read sn msg)
    with frame show ?thesis by simp
  next
    case (garbage_read sn)
    with handshake_write [OF inv] show ?thesis by simp
  next
    case (dispatched sn msg queue')
    have "handshake_inv api (s\<lparr>sv_queue := queue'\<rparr>)" by (rule frame) simp_all
    from handshake_start [OF this] dispatched show ?thesis by simp
  next
    case (handled n d)
    with handshake_finish [OF inv] show ?thesis by simp
  next
    case (session_ended sn)
    have "handshake_inv api (s\<lparr>ss_terminated_sessions := Suc (ss_terminated_sessions s)\<rparr>)"
      by (rule handshake_grows [OF inv]) (simp_all add: current_epoch_def session_epoch_def init_epoch_def split: option.split)
    with session_ended show ?thesis by simp
  next
    case (handler_requests n d name params)
    with sent show ?thesis by simp
  next
    case (handler_logs n d level line logger)
    with inv handshake_write [OF inv] show ?thesis by (simp add: context_log_def context_send_def)
  next
    case (handler_reports n d progress total' message)
    with inv handshake_write [OF inv] show ?thesis by (simp add: report_progress_def context_send_def split: option.split)
  next
    case (server_requests name params)
    with sent show ?thesis by simp
  next
    case (call_starts i r wire)
    have "handshake_inv api (put_pending r (request_key i) p (s\<lparr>sv_calls := (sv_calls s)[i := Rc_writing r]\<rparr>))" for p
      by (rule frame) simp_all
    note handshake_write [OF this]
    moreover have "handshake_inv api (end_call i r out s)" for out by (rule frame) (simp_all add: end_call_def)
    ultimately show ?thesis using call_starts by (simp add: await_reverse_response_def)
  next
    case (call_written i r)
    with frame show ?thesis by simp
  next
    case (call_not_written i r what)
    with frame show ?thesis by (simp add: reverse_write_failed_def end_call_def)
  next
    case (call_resumes i r)
    with frame show ?thesis by (simp add: resume_reverse_def end_call_def split: option.split)
  next
    case (wait_failed i r what)
    with frame show ?thesis by (simp add: reverse_write_failed_def end_call_def)
  next
    case (notified name params)
    with inv handshake_write [OF inv] show ?thesis by (simp add: ServerModel.send_notification_def split: option.split)
  next
    case (update_notified uri)
    have "handshake_inv api (s\<lparr>ss_session := Some (sn\<lparr>sn_subscriptions := f\<rparr>)\<rparr>)" if "ss_session s = Some sn" for sn f
      by (rule handshake_grows [OF inv]) (use that in \<open>simp_all add: current_epoch_def session_epoch_def init_epoch_def\<close>)
    with update_notified inv handshake_write [OF inv] show ?thesis by (simp add: notify_resource_updated_def split: option.split)
  next
    case (stopped sn)
    have "handshake_inv api (stop_session sn s)"
      by (rule handshake_grows [OF inv])
        (use stopped in \<open>simp_all add: stop_session_def abandon_session_work_def current_epoch_def session_epoch_def init_epoch_def\<close>)
    with stopped show ?thesis by simp
  next
    case (run_ends sn)
    have "handshake_inv api (s\<lparr>ss_session := None\<rparr>)" by (rule handshake_grows [OF inv]) simp_all
    with run_ends show ?thesis by simp
  qed
qed

theorem handshake_inv_reachable: "server_reachable api sa cfg s \<Longrightarrow> handshake_inv api s"
proof (induction rule: server_reachable.induct)
  case (init w)
  show ?case by (simp add: handshake_inv_def new_server_def)
next
  case (step s s')
  then show ?case using handshake_step [OF _ dispatch_inv_reachable] by blast
qed


end
