(* ===== verification/ServerScenario.thy ===== *)
theory ServerScenario
  imports ServerHandshake
begin

text \<open>A session of a server with one tool, and what the theorems on reachable states say of it.\<close>

subsection \<open>A session\<close>

text \<open>
  A client that initializes, confirms, and calls a tool, on a transport without HTTP sessions: states
  in which the theorems above say something.
\<close>

definition demo_config :: "(tree, unit, unit) ServerConfig" where
  "demo_config =
     \<lparr>sc_info = \<lparr>implementation_name = ''demo'', implementation_version = ''1'', implementation_title = None,
        implementation_description = None, implementation_websiteUrl = None, implementation_icons = None\<rparr>,
      sc_capabilities = \<lparr>server_capabilities_completions = None, server_capabilities_experimental = None,
        server_capabilities_logging = None, server_capabilities_prompts = None, server_capabilities_resources = None,
        server_capabilities_tasks = None, server_capabilities_tools = None, server_capabilities_extensions = None\<rparr>,
      sc_instructions = None, sc_discover_ttl_ms = None, sc_discover_cache_scope = None, sc_page_size = 0,
      sc_tools = n_tools counting_tool, sc_resources = [], sc_resource_handlers = (\<lambda>uri. None), sc_templates = [],
      sc_prompts = [], sc_prompt_handlers = (\<lambda>name. None), sc_completion = None, sc_subscribe = None, sc_unsubscribe = None\<rparr>"

definition demo_request :: "int \<Rightarrow> string \<Rightarrow> tree \<Rightarrow> tree" where
  "demo_request i name params = T_object [(''jsonrpc'', T_string ''2.0''), (''id'', T_int i), (''method'', T_string name), (''params'', params)]"

definition demo_initialize :: tree where
  "demo_initialize = demo_request 1 ''initialize'' (initialize_request_to_json tree_api bare_initialize_request)"

definition demo_initialized :: tree where
  "demo_initialized = T_object [(''jsonrpc'', T_string ''2.0''), (''method'', T_string ''notifications/initialized'')]"

definition demo_call :: tree where
  "demo_call = demo_request 2 ''tools/call'' (T_object [(''name'', T_string ''t''), (''arguments'', T_object [(''n'', T_int 1)])])"

lemma demo_request_valid:
  assumes "params = T_object ps"
  shows "validate_request_envelope tree_api (demo_request i name params) = None"
    and "request_fields tree_api (demo_request i name params) = Some (Id_int i, name)"
    and "classify_message tree_api (demo_request i name params) = Request_message"
  using assms
  by (simp_all add: demo_request_def validate_request_envelope_def has_valid_request_id_def has_error_member_def j_contains_def member_is_def
    is_text_def tree_api_def request_fields_def get_member_def id_from_json_def classify_message_def is_valid_notification_envelope_def)


lemma demo_request_params: "get_member tree_api g (demo_request i name params) ''params'' = g params"
proof -
  have "j_find tree_api (demo_request i name params) ''params'' = Some params" by (simp add: demo_request_def tree_api_def)
  then show ?thesis by (simp add: get_member_eq [OF tree_api_laws])
qed

lemma demo_initialize_params:
  "get_member tree_api (initialize_request_from_json tree_api) demo_initialize ''params'' = Inr bare_initialize_request"
  unfolding demo_initialize_def demo_request_params
  by (rule initialize_request_roundtrip [OF tree_api_laws])
    (simp add: initialize_request_ok_def client_capabilities_ok_def bare_initialize_request_def)

lemma demo_call_params:
  "get_member tree_api (call_tool_params_from_json tree_api) demo_call ''params'' = Inr (n_params (T_object [(''n'', T_int 1)]))"
  unfolding demo_call_def demo_request_params
  by (simp add: call_tool_params_from_json_def n_params_def get_member_def get_optional_def has_json_value_def tree_api_def)

lemma demo_initialize_object: "\<exists>ps. initialize_request_to_json tree_api bare_initialize_request = T_object ps"
  using initialize_request_object [OF tree_api_laws, of bare_initialize_request]
  by (cases "initialize_request_to_json tree_api bare_initialize_request") (simp_all add: tree_api_def)


lemma server_reads:
  assumes "server_reachable api sa cfg s" "ss_session s = Some sn" "\<not> sn_stopping sn" "sv_queue s = []"
  shows "server_reachable api sa cfg (start_dispatch api cfg msg s)"
proof -
  let ?q = "s\<lparr>sv_queue := sv_queue s @ [msg]\<rparr>"
  have "server_reachable api sa cfg ?q"
    by (rule server_reachable.step [OF assms(1) server_step.message_read [OF assms(2,3)]])
  moreover have "server_step api sa cfg ?q (start_dispatch api cfg msg (?q\<lparr>sv_queue := []\<rparr>))"
    by (rule server_step.dispatched) (use assms(2,4) in simp_all)
  moreover have "?q\<lparr>sv_queue := []\<rparr> = s" using assms(4) by (cases s) simp
  ultimately show ?thesis using server_reachable.step by metis
qed

text \<open>What a step needs to know of the state before it.\<close>

definition demo_state :: "(tree, unit) Server \<Rightarrow> LifecycleState \<Rightarrow> tree list \<Rightarrow> bool" where
  "demo_state s life msgs \<longleftrightarrow> server_reachable tree_api n_schemas demo_config s
     \<and> (\<exists>sn. ss_session s = Some sn \<and> \<not> sn_stopping sn \<and> \<not> sn_http sn) \<and> sv_queue s = [] \<and> ss_lifecycle s = life
     \<and> sv_log s = map (\<lambda>m. \<lparr>en_msg = m, en_epoch = 0, en_run = 1\<rparr>) msgs \<and> sv_run s = 1 \<and> ss_terminated_sessions s = 0"

lemma demo_state_reads:
  assumes "demo_state s life msgs"
  shows "server_reachable tree_api n_schemas demo_config (start_dispatch tree_api demo_config msg s)"
  using assms server_reads by (fastforce simp: demo_state_def)

lemma demo_state_epoch: "demo_state s life msgs \<Longrightarrow> current_epoch s = 0 \<and> \<not> transport_started_new_session s"
  by (auto simp: demo_state_def current_epoch_def session_epoch_def transport_started_new_session_def)

definition demo1 :: "(tree, unit) Server" where "demo1 = begin_run False 0 (new_server new_world)"
definition demo2 :: "(tree, unit) Server" where "demo2 = start_dispatch tree_api demo_config demo_initialize demo1"
definition demo3 :: "(tree, unit) Server" where "demo3 = start_dispatch tree_api demo_config demo_initialized demo2"
definition demo4 :: "(tree, unit) Server" where "demo4 = start_dispatch tree_api demo_config demo_call demo3"

lemma demo1_state: "demo_state demo1 Uninitialized []"
proof -
  have "server_reachable tree_api n_schemas demo_config demo1"
    unfolding demo1_def by (rule server_reachable.step [OF server_reachable.init server_step.run_begins]) (simp add: new_server_def)
  then show ?thesis by (simp add: demo_state_def) (simp add: demo1_def begin_run_def new_server_def new_session_def)
qed

lemma demo2_eq:
  "\<exists>wire. demo2 = write_out (From_dispatch 0) wire (note_initialize (log_message demo_initialize demo1))"
proof -
  have v: "validate_request_envelope tree_api demo_initialize = None"
    "request_fields tree_api demo_initialize = Some (Id_int 1, ''initialize'')"
    "classify_message tree_api demo_initialize = Request_message"
    using demo_initialize_object demo_request_valid by (auto simp: demo_initialize_def)
  have "sv_log demo1 = []" "ss_lifecycle demo1 = Uninitialized" using demo1_state by (simp_all add: demo_state_def)
  moreover have "\<not> transport_started_new_session (log_message demo_initialize demo1)"
    using demo1_state by (auto simp: demo_state_def transport_started_new_session_def)
  ultimately show ?thesis
    unfolding demo2_def start_dispatch_log v(3)
    by (simp add: begin_request_def v(1,2) call_method_def handle_initialize_def with_params_def deserialize_request_params_def
      demo_initialize_params) (rule exI, rule refl)
qed

lemma demo2_state: "demo_state demo2 Awaiting_initialized [demo_initialize]"
proof -
  obtain wire where e: "demo2 = write_out (From_dispatch 0) wire (note_initialize (log_message demo_initialize demo1))" using demo2_eq by blast
  have "server_reachable tree_api n_schemas demo_config demo2" unfolding demo2_def by (rule demo_state_reads [OF demo1_state])
  moreover have "current_epoch demo1 = 0" using demo_state_epoch [OF demo1_state] by simp
  ultimately show ?thesis using demo1_state
    by (auto simp: demo_state_def) (auto simp: e note_initialize_def Let_def session_epoch_def)
qed


lemma demo3_eq: "demo3 = (log_message demo_initialized demo2)\<lparr>ss_lifecycle := Ready\<rparr>"
proof -
  have "classify_message tree_api demo_initialized = Notification_message"
    by (simp add: demo_initialized_def classify_message_def is_valid_notification_envelope_def has_error_member_def j_contains_def
      member_is_def is_text_def tree_api_def)
  moreover have "get_member tree_api (j_string tree_api) demo_initialized ''method'' = Inr ''notifications/initialized''"
    by (simp add: demo_initialized_def get_member_def tree_api_def)
  moreover have "ss_lifecycle demo2 = Awaiting_initialized" using demo2_state by (simp add: demo_state_def)
  ultimately show ?thesis by (simp add: demo3_def start_dispatch_log receive_notification_def)
qed

lemma demo3_state: "demo_state demo3 Ready [demo_initialize, demo_initialized]"
proof -
  have "server_reachable tree_api n_schemas demo_config demo3" unfolding demo3_def by (rule demo_state_reads [OF demo2_state])
  moreover have "current_epoch demo2 = 0" using demo_state_epoch [OF demo2_state] by simp
  ultimately show ?thesis using demo2_state by (auto simp: demo_state_def) (auto simp: demo3_eq)
qed

definition demo_dispatch :: "(tree, unit) Dispatch" where
  "demo_dispatch = \<lparr>dp_id = Id_int 2, dp_epoch = 0, dp_work = Tool_work (n_params (T_object [(''n'', T_int 1)]))\<rparr>"

lemma demo4_state: "demo_state demo4 Ready [demo_initialize, demo_initialized, demo_call]"
  and demo4_running: "sv_running demo4 2 = Some demo_dispatch"
proof -
  let ?s = "log_message demo_call demo3"
  have v: "validate_request_envelope tree_api demo_call = None" "request_fields tree_api demo_call = Some (Id_int 2, ''tools/call'')"
    "classify_message tree_api demo_call = Request_message"
    using demo_request_valid by (auto simp: demo_call_def)
  have r: "ss_lifecycle demo3 = Ready" "length (sv_log demo3) = 2" using demo3_state by (simp_all add: demo_state_def)
  have n: "\<not> transport_started_new_session ?s" using demo3_state by (auto simp: demo_state_def transport_started_new_session_def)
  have h: "ts_handlers (sc_tools demo_config) ''t'' = Some (n_reg counting_tool)" by (simp add: demo_config_def n_tools_def)
  have p: "call_tool_params_name (n_params a) = ''t''" "bad_progress_token tree_api (n_params a) = None" for a
    by (simp_all add: n_params_def bad_progress_token_def)
  have c: "call_method tree_api demo_config 2 True (Id_int 2) ''tools/call'' demo_call ?s =
      (Suspended (Tool_work (n_params (T_object [(''n'', T_int 1)]))),
       ?s\<lparr>ss_session := map_option (\<lambda>sn. sn\<lparr>sn_in_flight := (sn_in_flight sn)(correlation_key (Id_int 2) \<mapsto> 2)\<rparr>) (ss_session ?s)\<rparr>)"
    using n r by (simp add: call_method_def handle_tools_call_def with_params_def deserialize_request_params_def demo_call_params h p)
  have ep: "current_epoch demo3 = 0" using demo_state_epoch [OF demo3_state] by simp
  have eq: "demo4 = (let t = ?s\<lparr>ss_session := map_option (\<lambda>sn. sn\<lparr>sn_in_flight := (sn_in_flight sn)(correlation_key (Id_int 2) \<mapsto> 2)\<rparr>) (ss_session ?s)\<rparr>
      in t\<lparr>sv_running := (sv_running t)(2 \<mapsto> demo_dispatch)\<rparr>)"
    unfolding demo4_def start_dispatch_log v(3) by (simp add: begin_request_def v(1,2) c r ep Let_def demo_dispatch_def)
  show "sv_running demo4 2 = Some demo_dispatch" by (simp add: eq Let_def)
  have "server_reachable tree_api n_schemas demo_config demo4" unfolding demo4_def by (rule demo_state_reads [OF demo3_state])
  then show "demo_state demo4 Ready [demo_initialize, demo_initialized, demo_call]"
    using demo3_state ep by (auto simp: demo_state_def) (auto simp: eq Let_def)
qed

lemma demo_polite: "polite_config demo_config"
  by (simp add: polite_config_def demo_config_def n_tools_def no_tools_def)



text \<open>The answer to the initialize request, as the server wrote it.\<close>

lemma written_out: "\<exists>w. w \<in> set (sv_out (write_out from wire s)) \<and> wr_origin w = from"
  by (intro exI [of _ "\<lparr>wr_origin = from, wr_text = wire, wr_epoch = current_epoch s, wr_run = sv_run s\<rparr>"])
    (simp add: write_out_def)

lemma demo2_answer: "\<exists>w. w \<in> set (sv_out demo2) \<and> wr_origin w = From_dispatch 0"
  using demo2_eq written_out [of "From_dispatch 0"] by metis

theorem request_answered_once_witness:
  "server_reachable tree_api n_schemas demo_config demo2
   \<and> (\<exists>w. own_answers (sv_out demo2) 0 = [w] \<and> answers_request tree_api demo_initialize (wr_text w))"
proof -
  have r: "server_reachable tree_api n_schemas demo_config demo2" "en_msg (sv_log demo2 ! 0) = demo_initialize"
    using demo2_state by (simp_all add: demo_state_def)
  obtain w where w: "w \<in> set (own_answers (sv_out demo2) 0)" using demo2_answer by (auto simp: own_answers_def)
  note q = request_answered_once [OF tree_api_laws r(1), of 0]
  have "answers_request tree_api demo_initialize (wr_text w)" using q w r(2) by metis
  moreover have "own_answers (sv_out demo2) 0 = [w]" using q w by (cases "own_answers (sv_out demo2) 0") auto
  ultimately show ?thesis using r(1) by blast
qed

theorem answers_stay_in_session_witness:
  "server_reachable tree_api n_schemas demo_config demo2
   \<and> (\<exists>w \<in> set (sv_out demo2). wr_origin w = From_dispatch 0 \<and> wr_epoch w = 0 \<and> wr_run w = 1)"
proof -
  have r: "server_reachable tree_api n_schemas demo_config demo2" "sv_log demo2 ! 0 = \<lparr>en_msg = demo_initialize, en_epoch = 0, en_run = 1\<rparr>"
    using demo2_state by (simp_all add: demo_state_def)
  obtain w where w: "w \<in> set (sv_out demo2)" "wr_origin w = From_dispatch 0" using demo2_answer by blast
  from answers_stay_in_session [OF r(1) w(1), of 0] w r show ?thesis by auto
qed

end
