(* ===== verification/EventStore.thy ===== *)
theory EventStore
  imports Prelude
begin

text \<open>
  The bounded store of server-sent events (transport/http_server.hpp): events are numbered from one,
  the oldest are evicted, and a client that reconnects asks for what follows the last event it saw.
\<close>

subsection \<open>The store\<close>

type_synonym SseEventList = "(string \<times> string) list"

record EventStore =
  es_capacity :: nat
  es_events :: SseEventList
  es_next_id :: "64 word"

definition new_store :: "nat \<Rightarrow> EventStore" where
  "new_store capacity = \<lparr>es_capacity = capacity, es_events = [], es_next_id = 0\<rparr>"

text \<open>\<open>while (events_.size() > capacity_) events_.pop_front()\<close>.\<close>

function evict_front :: "nat \<Rightarrow> SseEventList \<Rightarrow> SseEventList" where
  "evict_front capacity events = (if capacity < length events then evict_front capacity (tl events) else events)"
  by pat_completeness auto
termination by (relation "measure (\<lambda>(capacity, events). length events)") auto

declare evict_front.simps [simp del]

definition append_event :: "string \<Rightarrow> EventStore \<Rightarrow> string \<times> EventStore" where
  "append_event data es =
     (let n = es_next_id es + 1; event_id = decimal (unat n)
      in (event_id, es\<lparr>es_next_id := n, es_events := evict_front (es_capacity es) (es_events es @ [(event_id, data)])\<rparr>))"

fun events_from :: "string \<Rightarrow> SseEventList \<Rightarrow> SseEventList option" where
  "events_from last_event_id [] = None"
| "events_from last_event_id ((event_id, data) # events) =
     (if event_id = last_event_id then Some events else events_from last_event_id events)"

definition events_after :: "EventStore \<Rightarrow> string \<Rightarrow> SseEventList option" where
  "events_after es last_event_id = (if es_events es = [] then Some [] else events_from last_event_id (es_events es))"

definition clear_store :: "EventStore \<Rightarrow> EventStore" where
  "clear_store es = es\<lparr>es_events := [], es_next_id := 0\<rparr>"

subsection \<open>The history it stands for\<close>

text \<open>A store that has seen the events \<open>ds\<close> since it was made or cleared.\<close>

definition event_of :: "string list \<Rightarrow> nat \<Rightarrow> string \<times> string" where
  "event_of ds k = (decimal (Suc k), ds ! k)"

definition holds_history :: "string list \<Rightarrow> EventStore \<Rightarrow> bool" where
  "holds_history ds es \<longleftrightarrow> es_next_id es = of_nat (length ds)
     \<and> es_events es = map (event_of ds) [length ds - es_capacity es ..< length ds]"

definition append_all :: "string list \<Rightarrow> EventStore \<Rightarrow> EventStore" where
  "append_all ds es = foldl (\<lambda>es d. snd (append_event d es)) es ds"

lemma evict_front_drop: "evict_front capacity events = drop (length events - capacity) events"
proof (induction capacity events rule: evict_front.induct)
  case (1 capacity events)
  show ?case
  proof (cases "capacity < length events")
    case True
    have "length events - capacity = Suc (length (tl events) - capacity)" using True by simp
    then have "drop (length events - capacity) events = drop (length (tl events) - capacity) (tl events)" by (simp add: drop_Suc)
    with 1 True show ?thesis by (simp add: evict_front.simps [of capacity events])
  qed (simp add: evict_front.simps [of capacity events])
qed

lemma new_store_history: "holds_history [] (new_store capacity)"
  by (simp add: holds_history_def new_store_def)

lemma clear_store_history: "holds_history [] (clear_store es)"
  by (simp add: holds_history_def clear_store_def)

lemma append_event_capacity [simp]: "es_capacity (snd (append_event d es)) = es_capacity es"
  by (simp add: append_event_def Let_def)

lemma append_event_history:
  assumes h: "holds_history ds es" and n: "Suc (length ds) < 2 ^ 64"
  shows "holds_history (ds @ [d]) (snd (append_event d es)) \<and> fst (append_event d es) = decimal (Suc (length ds))"
proof -
  let ?n = "length ds" and ?c = "es_capacity es"
  have next_id: "es_next_id es + 1 = of_nat (Suc ?n)" using h by (simp add: holds_history_def)
  have u: "unat (of_nat (Suc ?n) :: 64 word) = Suc ?n" using n by (simp only: unat_of_nat) simp
  have old: "map (event_of (ds @ [d])) [k ..< ?n] = map (event_of ds) [k ..< ?n]" for k
    by (simp add: event_of_def nth_append)
  have last_event: "event_of (ds @ [d]) ?n = (decimal (Suc ?n), d)" by (simp add: event_of_def)
  let ?all = "map (event_of ds) [?n - ?c ..< ?n] @ [(decimal (Suc ?n), d)]"
  have "?all = map (event_of (ds @ [d])) [?n - ?c ..< Suc ?n]" unfolding old [symmetric] last_event [symmetric] by simp
  then have "evict_front ?c ?all = drop (length ?all - ?c) (map (event_of (ds @ [d])) [?n - ?c ..< Suc ?n])"
    by (simp only: evict_front_drop)
  also have "\<dots> = map (event_of (ds @ [d])) [?n - ?c + (length ?all - ?c) ..< Suc ?n]" by (simp only: drop_map drop_upt)
  also have "?n - ?c + (length ?all - ?c) = Suc ?n - ?c" by auto
  finally have "evict_front ?c ?all = map (event_of (ds @ [d])) [Suc ?n - ?c ..< Suc ?n]" .
  moreover have "es_events es = map (event_of ds) [?n - ?c ..< ?n]" using h by (simp add: holds_history_def)
  ultimately show ?thesis unfolding holds_history_def append_event_def Let_def next_id u by simp
qed

lemma append_all_capacity [simp]: "es_capacity (append_all ds es) = es_capacity es"
  by (induction ds arbitrary: es) (simp_all add: append_all_def)

lemma append_all_history:
  assumes "length ds < 2 ^ 64"
  shows "holds_history ds (append_all ds (new_store capacity))"
  using assms
proof (induction ds rule: rev_induct)
  case Nil
  then show ?case using new_store_history by (simp add: append_all_def)
next
  case (snoc d ds)
  then show ?case using append_event_history [of ds] by (simp add: append_all_def)
qed

lemma decimal_inject: "decimal m = decimal n \<longleftrightarrow> m = n"
  by (metis decimal_value_decimal)

lemma events_from_range:
  "j \<le> n \<Longrightarrow> events_from (decimal k) (map (event_of ds) [j ..< n]) =
     (if j < k \<and> k \<le> n then Some (map (event_of ds) [k ..< n]) else None)"
proof (induction "n - j" arbitrary: j)
  case (Suc m)
  then have "[j ..< n] = j # [Suc j ..< n]" by (simp add: upt_conv_Cons)
  moreover have "events_from (decimal k) (map (event_of ds) [Suc j ..< n]) =
     (if Suc j < k \<and> k \<le> n then Some (map (event_of ds) [k ..< n]) else None)" using Suc by simp
  ultimately show ?case using Suc.hyps(2) by (auto simp: event_of_def decimal_inject)
qed simp

lemma events_from_other:
  "(\<And>k. last_id \<noteq> decimal k) \<Longrightarrow> events_from last_id (map (event_of ds) ks) = None"
  by (induction ks) (auto simp: event_of_def)



text \<open>
  An empty store answers every request with no events, although the documentation of \<open>events_after\<close>
  promises \<open>nullopt\<close> for an event that was evicted: with capacity 0 every event is lost without a word.
\<close>

lemma empty_store_forgets: "events_after (append_all ds (new_store 0)) last_id = Some []"
proof -
  have "es_events (append_all ds (new_store 0)) = []"
  proof (induction ds rule: rev_induct)
    case (snoc d ds)
    have "append_all (ds @ [d]) (new_store 0) = snd (append_event d (append_all ds (new_store 0)))" by (simp add: append_all_def)
    moreover have "es_capacity (append_all ds (new_store 0)) = 0" by (simp add: new_store_def)
    ultimately show ?case by (simp add: append_event_def Let_def evict_front_drop)
  qed (simp add: append_all_def new_store_def)
  then show ?thesis by (simp add: events_after_def)
qed

end
