(* ===== verification/HttpServer.thy ===== *)
theory HttpServer
  imports HttpTypes JsonScan ClientModel ProtoCapabilities EventStore
begin

text \<open>
  The HTTP server transport (transport/http_server.cpp): what it answers to each HTTP request, the queue
  of messages it hands to the server, the requests that wait for an answer, and the one session it
  serves. Everything runs on one strand; an HTTP exchange is suspended only while a bearer token is
  validated asynchronously and while its answer is awaited. Sockets and the parsing of HTTP are the
  library's (Boost.Beast): a request is what the code reads of it.
\<close>

subsection \<open>Requests and responses\<close>

datatype Verb = Http_get | Http_post | Http_delete | Http_other

record HttpRequest =
  hr_verb :: Verb
  hr_target :: string
  hr_origin :: "string option"
  hr_authorization :: "string option"
  hr_session :: "string option"
  hr_protocol :: "string option"
  hr_last_event :: "string option"
  hr_accept :: "string option"
  hr_body :: string
  hr_keep_alive :: bool

record HttpResponse =
  rs_status :: nat
  rs_content_type :: string
  rs_no_cache :: bool
  rs_keep_alive :: bool
  rs_body :: string
  rs_session :: "string option"
  rs_challenge :: "string option"
  rs_allow :: "string option"

definition make_json_response :: "HttpRequest \<Rightarrow> nat \<Rightarrow> string \<Rightarrow> HttpResponse" where
  "make_json_response req status body =
     \<lparr>rs_status = status, rs_content_type = ''application/json'', rs_no_cache = False, rs_keep_alive = hr_keep_alive req,
      rs_body = body, rs_session = None, rs_challenge = None, rs_allow = None\<rparr>"

definition make_error_response :: "'j JsonApi \<Rightarrow> HttpRequest \<Rightarrow> nat \<Rightarrow> string \<Rightarrow> HttpResponse" where
  "make_error_response api req status message =
     make_json_response req status (j_dump api (j_put api (j_empty_object api) ''error'' (j_of_string api message)))"

definition make_empty_json_response :: "HttpRequest \<Rightarrow> nat \<Rightarrow> HttpResponse" where
  "make_empty_json_response req status = make_json_response req status []"

fun sse_text :: "SseEventList \<Rightarrow> string" where
  "sse_text [] = []"
| "sse_text ((event_id, data) # events) =
     ''id: '' @ event_id @ [CHR 0x0A] @ ''data: '' @ data @ [CHR 0x0A, CHR 0x0A] @ sse_text events"

definition make_sse_replay_response :: "HttpRequest \<Rightarrow> SseEventList \<Rightarrow> HttpResponse" where
  "make_sse_replay_response req events =
     \<lparr>rs_status = 200, rs_content_type = ''text/event-stream'', rs_no_cache = True, rs_keep_alive = hr_keep_alive req,
      rs_body = sse_text events, rs_session = None, rs_challenge = None, rs_allow = None\<rparr>"

definition make_sse_response :: "HttpRequest \<Rightarrow> string \<Rightarrow> string \<Rightarrow> HttpResponse" where
  "make_sse_response req event_id data = make_sse_replay_response req [(event_id, data)]"

text \<open>The answer to a body over the limit; the connection ends with it.\<close>

definition payload_too_large :: "'j JsonApi \<Rightarrow> HttpResponse" where
  "payload_too_large api =
     \<lparr>rs_status = 413, rs_content_type = ''application/json'', rs_no_cache = False, rs_keep_alive = False,
      rs_body = j_dump api (j_put api (j_empty_object api) ''error'' (j_of_string api ''Request body too large'')),
      rs_session = None, rs_challenge = None, rs_allow = None\<rparr>"

fun contains_text :: "string \<Rightarrow> string \<Rightarrow> bool" where
  "contains_text part [] \<longleftrightarrow> part = []"
| "contains_text part (c # s) \<longleftrightarrow> take (length part) (c # s) = part \<or> contains_text part s"

definition accepts_sse :: "HttpRequest \<Rightarrow> bool" where
  "accepts_sse req = (case hr_accept req of None \<Rightarrow> False | Some a \<Rightarrow> contains_text ''text/event-stream'' a)"

subsection \<open>Configuration\<close>

text \<open>A synchronous validator answers with a verdict, or throws: \<open>None\<close>. An asynchronous one is asked in a step of its own.\<close>

datatype Validator = No_validator | Sync_validator "string \<Rightarrow> bool option" | Async_validator

record HttpConfig =
  hc_allow_all_origins :: bool
  hc_allowed_origins :: "string list"
  hc_validator :: Validator
  hc_max_request_body_bytes :: nat
  hc_challenge :: BearerChallengeConfig
  hc_www_authenticate :: string
  hc_metadata :: "ProtectedResourceMetadataConfig option"
  hc_metadata_path :: string
  hc_metadata_body :: string
  hc_unauthenticated_paths :: "string list"

definition set_allowed_origins :: "string list \<Rightarrow> HttpConfig \<Rightarrow> HttpConfig" where
  "set_allowed_origins origins c = c\<lparr>hc_allowed_origins := origins, hc_allow_all_origins := False\<rparr>"

definition set_allow_all_origins :: "bool \<Rightarrow> HttpConfig \<Rightarrow> HttpConfig" where
  "set_allow_all_origins allow_all c = c\<lparr>hc_allow_all_origins := allow_all\<rparr>"

definition one_validator :: string where
  "one_validator = ''HttpServerTransport accepts one bearer token validator''"

definition set_bearer_token_validator :: "(string \<Rightarrow> bool option) option \<Rightarrow> HttpConfig \<Rightarrow> string + HttpConfig" where
  "set_bearer_token_validator validator c =
     (case validator of
        None \<Rightarrow> Inr (case hc_validator c of Async_validator \<Rightarrow> c | _ \<Rightarrow> c\<lparr>hc_validator := No_validator\<rparr>)
      | Some v \<Rightarrow> if hc_validator c = Async_validator then Inl one_validator else Inr (c\<lparr>hc_validator := Sync_validator v\<rparr>))"

definition set_async_bearer_token_validator :: "bool \<Rightarrow> HttpConfig \<Rightarrow> string + HttpConfig" where
  "set_async_bearer_token_validator present c =
     (case hc_validator c of
        Sync_validator v \<Rightarrow> if present then Inl one_validator else Inr c
      | _ \<Rightarrow> Inr (c\<lparr>hc_validator := (if present then Async_validator else No_validator)\<rparr>))"

definition set_max_request_body_bytes :: "nat \<Rightarrow> HttpConfig \<Rightarrow> string + HttpConfig" where
  "set_max_request_body_bytes max_bytes c =
     (if max_bytes = 0 then Inl ''Maximum request body size must be greater than zero''
      else Inr (c\<lparr>hc_max_request_body_bytes := max_bytes\<rparr>))"

text \<open>The challenge of a 401 borrows the URL of the metadata document where it names none.\<close>

definition render_challenge :: "BearerChallengeConfig \<Rightarrow> HttpConfig \<Rightarrow> string + string" where
  "render_challenge challenge c =
     (case hc_metadata c of
        Some metadata \<Rightarrow>
          if cfg_resource_metadata challenge = []
          then bindE (protected_resource_metadata_url metadata) (\<lambda>url. format_www_authenticate (challenge\<lparr>cfg_resource_metadata := url\<rparr>))
          else format_www_authenticate challenge
      | None \<Rightarrow> format_www_authenticate challenge)"

definition set_bearer_challenge :: "BearerChallengeConfig \<Rightarrow> HttpConfig \<Rightarrow> string + HttpConfig" where
  "set_bearer_challenge challenge c =
     bindE (render_challenge challenge c) (\<lambda>rendered. Inr (c\<lparr>hc_challenge := challenge, hc_www_authenticate := rendered\<rparr>))"

definition format_protected_resource_metadata :: "'j JsonApi \<Rightarrow> ProtectedResourceMetadataConfig \<Rightarrow> string" where
  "format_protected_resource_metadata api metadata =
     (let j = j_put api (j_empty_object api) ''resource'' (j_of_string api (prm_resource metadata));
          j' = (if prm_authorization_servers metadata = [] then j
                else j_put api j ''authorization_servers'' (put_list api (j_of_string api) (prm_authorization_servers metadata)));
          j'' = (if prm_scopes_supported metadata = [] then j'
                 else j_put api j' ''scopes_supported'' (put_list api (j_of_string api) (prm_scopes_supported metadata)))
      in j_dump api j'')"

definition set_protected_resource_metadata :: "'j JsonApi \<Rightarrow> ProtectedResourceMetadataConfig \<Rightarrow> HttpConfig \<Rightarrow> string + HttpConfig" where
  "set_protected_resource_metadata api metadata c =
     (if prm_resource metadata = [] then Inl ''Protected-resource metadata requires a resource URL''
      else bindE (protected_resource_metadata_url metadata) (\<lambda>url.
        let challenge = (if cfg_resource_metadata (hc_challenge c) = [] then (hc_challenge c)\<lparr>cfg_resource_metadata := url\<rparr> else hc_challenge c) in
        bindE (format_www_authenticate challenge) (\<lambda>rendered.
        bindE (protected_resource_metadata_path metadata) (\<lambda>path.
        Inr (c\<lparr>hc_metadata := Some metadata, hc_metadata_path := path,
               hc_metadata_body := format_protected_resource_metadata api metadata, hc_www_authenticate := rendered\<rparr>)))))"

definition set_unauthenticated_paths :: "string list \<Rightarrow> HttpConfig \<Rightarrow> HttpConfig" where
  "set_unauthenticated_paths paths c = c\<lparr>hc_unauthenticated_paths := paths\<rparr>"


subsection \<open>State\<close>

text \<open>
  A request whose answer is awaited. \<open>pd_timer\<close> is the exchange whose coroutine waits on the timer of
  the entry, and \<open>pd_signalled\<close> says that the timer was cancelled, so that the coroutine resumes.
\<close>

record 'j PendingResponse =
  pd_timer :: nat
  pd_body :: "string option"
  pd_session_header :: "string option"
  pd_event_id :: "string option"
  pd_client_id :: "'j option"
  pd_ready :: bool
  pd_session_ended :: bool
  pd_signalled :: bool

text \<open>An HTTP exchange: its validator is asked, its answer is awaited, it was answered, or its connection was closed.\<close>

datatype HttpExchange =
    Ex_checking HttpRequest
  | Ex_waiting HttpRequest string
  | Ex_answered HttpRequest HttpResponse
  | Ex_dropped HttpRequest

record 'j HttpServer =
  ht_config :: HttpConfig
  ht_listening :: bool
  ht_closed :: bool
  ht_swept :: bool
  ht_queue :: "string list"
  ht_read_active :: bool
  ht_pending :: "string \<Rightarrow> 'j PendingResponse option"
  ht_sessionless :: "string list"
  ht_prefix :: string
  ht_counter :: "64 word"
  ht_drawn :: nat
  ht_session :: "string option"
  ht_protocol :: string
  ht_active :: bool
  ht_awaiting_next :: bool
  ht_terminated :: "64 word"
  ht_events :: EventStore
  ht_json_only :: bool
  ht_exchanges :: "HttpExchange list"

definition default_max_request_body_bytes :: nat where
  "default_max_request_body_bytes = 8 * 1024 * 1024"

definition default_config :: HttpConfig where
  "default_config =
     \<lparr>hc_allow_all_origins = False, hc_allowed_origins = [], hc_validator = No_validator,
      hc_max_request_body_bytes = default_max_request_body_bytes,
      hc_challenge = \<lparr>cfg_resource_metadata = [], cfg_scope = [], cfg_realm = [], cfg_error = []\<rparr>, hc_www_authenticate = ''Bearer'',
      hc_metadata = None, hc_metadata_path = [], hc_metadata_body = [], hc_unauthenticated_paths = []\<rparr>"

definition new_http_server :: "nat \<Rightarrow> 'j HttpServer" where
  "new_http_server event_store_capacity =
     \<lparr>ht_config = default_config, ht_listening = False, ht_closed = False, ht_swept = False, ht_queue = [],
      ht_read_active = False, ht_pending = (\<lambda>_. None), ht_sessionless = [], ht_prefix = [], ht_counter = 0, ht_drawn = 0,
      ht_session = None, ht_protocol = latest_protocol_version, ht_active = False, ht_awaiting_next = False,
      ht_terminated = 0, ht_events = new_store event_store_capacity, ht_json_only = False, ht_exchanges = []\<rparr>"

definition max_pending_sessionless_discovers :: nat where
  "max_pending_sessionless_discovers = 16"

text \<open>Configuration is closed once listening has begun.\<close>

definition configure :: "(HttpConfig \<Rightarrow> string + HttpConfig) \<Rightarrow> 'j HttpServer \<Rightarrow> string + 'j HttpServer" where
  "configure set_it st =
     (if ht_listening st \<or> ht_closed st then Inl ''HttpServerTransport configuration must be set before listen()''
      else bindE (set_it (ht_config st)) (\<lambda>c. Inr (st\<lparr>ht_config := c\<rparr>)))"

definition begin_listening :: "'j HttpServer \<Rightarrow> string + 'j HttpServer" where
  "begin_listening st =
     (if ht_closed st then Inr st
      else if ht_listening st then Inl ''HttpServerTransport::listen() may only be called once''
      else Inr (st\<lparr>ht_listening := True\<rparr>))"

definition set_json_only :: "bool \<Rightarrow> 'j HttpServer \<Rightarrow> 'j HttpServer" where
  "set_json_only json_only st = st\<lparr>ht_json_only := json_only\<rparr>"

subsection \<open>What the code reads of a message\<close>

definition has_text_method :: "'j JsonApi \<Rightarrow> string \<Rightarrow> 'j \<Rightarrow> bool" where
  "has_text_method api name j \<longleftrightarrow> j_is_object api j \<and>
     (case j_find api j ''method'' of None \<Rightarrow> False | Some m \<Rightarrow> j_is_string api m \<and> j_string api m = Inr name)"

definition is_initialize_request :: "'j JsonApi \<Rightarrow> 'j \<Rightarrow> bool" where
  "is_initialize_request api j \<longleftrightarrow> has_text_method api ''initialize'' j"

definition is_discover_request :: "'j JsonApi \<Rightarrow> 'j \<Rightarrow> bool" where
  "is_discover_request api j \<longleftrightarrow> has_text_method api ''server/discover'' j"

definition is_initialize_result_response :: "'j JsonApi \<Rightarrow> 'j \<Rightarrow> bool" where
  "is_initialize_result_response api j \<longleftrightarrow> j_is_object api j \<and>
     (case j_find api j ''result'' of
        None \<Rightarrow> False
      | Some r \<Rightarrow> j_is_object api r \<and> j_find api r ''protocolVersion'' \<noteq> None)"

definition answerable_id :: "'j JsonApi \<Rightarrow> 'j \<Rightarrow> bool" where
  "answerable_id api rid \<longleftrightarrow> j_is_string api rid \<or> j_is_integer api rid"

subsection \<open>The checks of a request\<close>

definition bad_version_header :: "'j JsonApi \<Rightarrow> HttpRequest \<Rightarrow> HttpResponse" where
  "bad_version_header api req = make_error_response api req 400 ''Invalid MCP-Protocol-Version header''"

definition check_protocol_version :: "'j JsonApi \<Rightarrow> string \<Rightarrow> HttpRequest \<Rightarrow> 'j \<Rightarrow> HttpResponse option" where
  "check_protocol_version api negotiated req j =
     (if is_initialize_request api j then
        (case hr_protocol req of
           None \<Rightarrow> None
         | Some v \<Rightarrow> if is_supported_protocol_version v then None else Some (bad_version_header api req))
      else if is_discover_request api j then None
      else if hr_protocol req = None \<or> hr_protocol req = Some negotiated then None
      else Some (bad_version_header api req))"

definition is_origin_allowed :: "HttpConfig \<Rightarrow> string \<Rightarrow> bool" where
  "is_origin_allowed c origin \<longleftrightarrow> hc_allow_all_origins c \<or> origin \<in> set (hc_allowed_origins c)"

definition check_origin :: "'j JsonApi \<Rightarrow> HttpConfig \<Rightarrow> HttpRequest \<Rightarrow> HttpResponse option" where
  "check_origin api c req =
     (case hr_origin req of
        None \<Rightarrow> None
      | Some origin \<Rightarrow>
          if is_origin_allowed c origin then None else Some (make_error_response api req 403 ''Origin not allowed''))"

definition serve_protected_resource_metadata :: "'j JsonApi \<Rightarrow> HttpConfig \<Rightarrow> HttpRequest \<Rightarrow> HttpResponse option" where
  "serve_protected_resource_metadata api c req =
     (if hc_metadata c = None \<or> hr_verb req \<noteq> Http_get then None
      else if http_request_path (hr_target req) \<noteq> hc_metadata_path c then None
      else case check_origin api c req of
             Some r \<Rightarrow> Some r
           | None \<Rightarrow> Some (make_json_response req 200 (hc_metadata_body c)))"

definition is_unauthenticated_path :: "HttpConfig \<Rightarrow> HttpRequest \<Rightarrow> bool" where
  "is_unauthenticated_path c req \<longleftrightarrow> http_request_path (hr_target req) \<in> set (hc_unauthenticated_paths c)"

definition make_unauthorized_response :: "'j JsonApi \<Rightarrow> HttpConfig \<Rightarrow> HttpRequest \<Rightarrow> HttpResponse" where
  "make_unauthorized_response api c req =
     (make_error_response api req 401 ''Invalid bearer token'')\<lparr>rs_challenge := Some (hc_www_authenticate c)\<rparr>"

definition make_validator_failure_response :: "'j JsonApi \<Rightarrow> HttpRequest \<Rightarrow> HttpResponse" where
  "make_validator_failure_response api req = make_error_response api req 500 ''Bearer token validation failed''"

definition request_bearer_token :: "HttpRequest \<Rightarrow> string" where
  "request_bearer_token req = (case hr_authorization req of None \<Rightarrow> [] | Some h \<Rightarrow> http_bearer_token h)"

text \<open>The verdict of a validator on a token: it threw, it refused, it accepted.\<close>

definition verdict_response :: "'j JsonApi \<Rightarrow> HttpConfig \<Rightarrow> HttpRequest \<Rightarrow> bool option \<Rightarrow> HttpResponse option" where
  "verdict_response api c req verdict =
     (case verdict of
        None \<Rightarrow> Some (make_validator_failure_response api req)
      | Some accepted \<Rightarrow> if accepted then None else Some (make_unauthorized_response api c req))"

definition check_authorization :: "'j JsonApi \<Rightarrow> HttpConfig \<Rightarrow> HttpRequest \<Rightarrow> HttpResponse option" where
  "check_authorization api c req =
     (case hc_validator c of
        Sync_validator v \<Rightarrow>
          (let token = request_bearer_token req in
             if token = [] then Some (make_unauthorized_response api c req) else verdict_response api c req (v token))
      | _ \<Rightarrow> None)"

definition validate_post_session :: "HttpRequest \<Rightarrow> 'j HttpServer \<Rightarrow> string option" where
  "validate_post_session req st =
     (case ht_session st of
        Some session_id \<Rightarrow>
          (case hr_session req of
             None \<Rightarrow> Some ''Session active''
           | Some h \<Rightarrow> if h = session_id then None else Some ''Invalid MCP-Session-Id header'')
      | None \<Rightarrow>
          if ht_active st \<and> hr_session req = None then Some ''Session active''
          else if hr_session req \<noteq> None then Some ''Session not established''
          else None)"

definition validate_delete_session :: "HttpRequest \<Rightarrow> 'j HttpServer \<Rightarrow> string option" where
  "validate_delete_session req st =
     (case ht_session st of
        None \<Rightarrow> None
      | Some session_id \<Rightarrow>
          (case hr_session req of
             None \<Rightarrow> Some ''Missing MCP-Session-Id header''
           | Some h \<Rightarrow> if h = session_id then None else Some ''Invalid MCP-Session-Id header''))"


subsection \<open>The table of pending requests\<close>

definition enqueue_incoming_message :: "string \<Rightarrow> 'j HttpServer \<Rightarrow> 'j HttpServer" where
  "enqueue_incoming_message m st = st\<lparr>ht_queue := ht_queue st @ [m]\<rparr>"

definition register_pending_request :: "nat \<Rightarrow> string \<Rightarrow> 'j option \<Rightarrow> 'j HttpServer \<Rightarrow> 'j HttpServer option" where
  "register_pending_request i key client_id st =
     (if ht_pending st key \<noteq> None then None
      else Some (st\<lparr>ht_pending := (ht_pending st)(key \<mapsto>
        \<lparr>pd_timer = i, pd_body = None, pd_session_header = None, pd_event_id = None, pd_client_id = client_id,
         pd_ready = False, pd_session_ended = False, pd_signalled = False\<rparr>)\<rparr>))"

definition next_sentinel_request_id :: "(nat \<Rightarrow> string) \<Rightarrow> 'j HttpServer \<Rightarrow> string \<times> 'j HttpServer" where
  "next_sentinel_request_id random st =
     (let st' = (if ht_prefix st = []
                 then st\<lparr>ht_prefix := ''mcp-pregate-'' @ random (ht_drawn st) @ ''-'', ht_drawn := Suc (ht_drawn st)\<rparr>
                 else st);
          n = ht_counter st' + 1
      in (ht_prefix st' @ decimal (unat n), st'\<lparr>ht_counter := n\<rparr>))"

definition is_response_ready :: "string \<Rightarrow> 'j HttpServer \<Rightarrow> bool" where
  "is_response_ready key st = (case ht_pending st key of None \<Rightarrow> True | Some p \<Rightarrow> pd_ready p)"

text \<open>What a consumed entry holds: the body, the session header, the event and whether the session ended.\<close>

definition consume_pending_response ::
  "string \<Rightarrow> 'j HttpServer \<Rightarrow> (string option \<times> string option \<times> string option \<times> bool) \<times> 'j HttpServer" where
  "consume_pending_response key st =
     (case ht_pending st key of
        None \<Rightarrow> ((None, None, None, False), st)
      | Some p \<Rightarrow> ((pd_body p, pd_session_header p, pd_event_id p, pd_session_ended p),
          st\<lparr>ht_pending := (ht_pending st)(key := None), ht_sessionless := removeAll key (ht_sessionless st)\<rparr>))"

definition terminate_session :: "'j HttpServer \<Rightarrow> 'j HttpServer" where
  "terminate_session st =
     (if ht_active st
      then st\<lparr>ht_session := None, ht_active := False, ht_terminated := ht_terminated st + 1, ht_awaiting_next := True,
              ht_events := clear_store (ht_events st),
              ht_pending := map_option (\<lambda>p. p\<lparr>pd_session_ended := True, pd_ready := True, pd_signalled := True\<rparr>) \<circ> ht_pending st\<rparr>
      else st\<lparr>ht_session := None, ht_active := False\<rparr>)"

subsection \<open>One request\<close>

datatype HttpOutcome = Responded HttpResponse | Checks | Waits string

definition answer_response ::
  "'j JsonApi \<Rightarrow> HttpRequest \<Rightarrow> bool \<Rightarrow> string option \<times> string option \<times> string option \<times> bool \<Rightarrow> HttpResponse" where
  "answer_response api req json_only = (\<lambda>(body, session_header, event_id, session_ended).
     if session_ended then make_error_response api req 404 ''Session terminated''
     else case body of
            None \<Rightarrow> make_error_response api req 500 ''Missing response body for request''
          | Some b \<Rightarrow>
              (case event_id of
                 Some e \<Rightarrow> if \<not> json_only \<and> accepts_sse req then make_sse_response req e b else make_json_response req 200 b
               | None \<Rightarrow> make_json_response req 200 b)\<lparr>rs_session := session_header\<rparr>)"

text \<open>One pass of the loop that awaits the answer, and what follows the loop.\<close>

definition wait_pass :: "'j JsonApi \<Rightarrow> HttpRequest \<Rightarrow> string \<Rightarrow> 'j HttpServer \<Rightarrow> HttpOutcome \<times> 'j HttpServer" where
  "wait_pass api req key st =
     (let (result, st') = consume_pending_response key st in
      if ht_closed st then (Responded (make_error_response api req 500 ''Transport closed while waiting response''), st')
      else if is_response_ready key st then (Responded (answer_response api req (ht_json_only st) result), st')
      else (Waits key, st))"

definition unanswerable_id_body :: "'j JsonApi \<Rightarrow> string" where
  "unanswerable_id_body api =
     j_dump api (j_put api (j_put api (j_put api (j_empty_object api) ''jsonrpc'' (j_of_string api ''2.0'')) ''id'' (j_null api)) ''error''
       (j_put api (j_put api (j_empty_object api) ''code'' (j_of_int api invalid_request)) ''message''
         (j_of_string api ''JSON-RPC request id must be a string or an integer'')))"

text \<open>A request with an id: registered, handed to the server, awaited.\<close>

definition admit_request ::
  "'j JsonApi \<Rightarrow> (nat \<Rightarrow> string) \<Rightarrow> nat \<Rightarrow> HttpRequest \<Rightarrow> bool \<Rightarrow> 'j \<Rightarrow> 'j \<Rightarrow> 'j HttpServer \<Rightarrow> HttpOutcome \<times> 'j HttpServer" where
  "admit_request api random i req sessionless j rid st =
     (if sessionless then
        (let (sentinel, st1) = next_sentinel_request_id random st;
             sentinel_json = j_put api j ''id'' (j_of_string api sentinel);
             key = j_dump api (j_of_string api sentinel)
         in if max_pending_sessionless_discovers \<le> length (ht_sessionless st1)
            then (Responded (make_error_response api req 503 ''Too many pending discover requests''), st1)
            else case register_pending_request i key (Some rid) st1 of
                   None \<Rightarrow> (Responded (make_error_response api req 400 ''Request id already pending''), st1)
                 | Some st2 \<Rightarrow> wait_pass api req key (enqueue_incoming_message (j_dump api sentinel_json)
                                 (st2\<lparr>ht_sessionless := List.insert key (ht_sessionless st2)\<rparr>)))
      else
        (let key = j_dump api rid in
           case register_pending_request i key None st of
             None \<Rightarrow> (Responded (make_error_response api req 400 ''Request id already pending''), st)
           | Some st1 \<Rightarrow> wait_pass api req key (enqueue_incoming_message (hr_body req) st1)))"

definition is_sessionless_discover :: "'j JsonApi \<Rightarrow> HttpRequest \<Rightarrow> 'j \<Rightarrow> bool" where
  "is_sessionless_discover api req j \<longleftrightarrow> is_discover_request api j
     \<and> (case j_find api j ''id'' of None \<Rightarrow> False | Some rid \<Rightarrow> answerable_id api rid) \<and> hr_session req = None"

definition post_json ::
  "'j JsonApi \<Rightarrow> (nat \<Rightarrow> string) \<Rightarrow> nat \<Rightarrow> HttpRequest \<Rightarrow> 'j \<Rightarrow> 'j HttpServer \<Rightarrow> HttpOutcome \<times> 'j HttpServer" where
  "post_json api random i req j st =
     (case (if is_sessionless_discover api req j then None else validate_post_session req st) of
        Some message \<Rightarrow> (Responded (make_error_response api req 400 message), st)
      | None \<Rightarrow>
          (case j_find api j ''id'' of
             None \<Rightarrow> (Responded (make_empty_json_response req 202), enqueue_incoming_message (hr_body req) st)
           | Some rid \<Rightarrow>
               if j_find api j ''method'' = None
               then (Responded (make_empty_json_response req 202), enqueue_incoming_message (hr_body req) st)
               else if \<not> answerable_id api rid then (Responded (make_json_response req 400 (unanswerable_id_body api)), st)
               else admit_request api random i req (is_sessionless_discover api req j) j rid st))"

text \<open>\<open>handle_post\<close> once the request is authorized.\<close>

definition handle_post ::
  "'j JsonApi \<Rightarrow> (nat \<Rightarrow> string) \<Rightarrow> nat \<Rightarrow> HttpRequest \<Rightarrow> 'j HttpServer \<Rightarrow> HttpOutcome \<times> 'j HttpServer" where
  "handle_post api random i req st =
     (case parse_peer_json (j_parse api) (hr_body req) of
        None \<Rightarrow> (Responded (make_error_response api req 400 ''Invalid JSON-RPC payload''), st)
      | Some j \<Rightarrow>
          if \<not> j_is_object api j then (Responded (make_error_response api req 400 ''Invalid JSON-RPC payload''), st)
          else case check_protocol_version api (ht_protocol st) req j of
                 Some response \<Rightarrow> (Responded response, st)
               | None \<Rightarrow> post_json api random i req j st)"

text \<open>The initializer \<open>{"method", "delete"}\<close> is an array of two strings.\<close>

definition handle_delete :: "'j JsonApi \<Rightarrow> HttpRequest \<Rightarrow> 'j HttpServer \<Rightarrow> HttpOutcome \<times> 'j HttpServer" where
  "handle_delete api req st =
     (case check_protocol_version api (ht_protocol st) req (j_of_list api (map (j_of_string api) [''method'', ''delete''])) of
        Some response \<Rightarrow> (Responded response, st)
      | None \<Rightarrow>
          (case validate_delete_session req st of
             Some message \<Rightarrow> (Responded (make_error_response api req 400 message), st)
           | None \<Rightarrow> (Responded (make_json_response req 200 ''{}''), terminate_session st)))"

definition handle_get :: "'j JsonApi \<Rightarrow> HttpRequest \<Rightarrow> 'j HttpServer \<Rightarrow> HttpResponse" where
  "handle_get api req st =
     (case check_protocol_version api (ht_protocol st) req (j_of_list api (map (j_of_string api) [''method'', ''get''])) of
        Some response \<Rightarrow> response
      | None \<Rightarrow>
          if ht_session st = None then make_error_response api req 400 ''No active session''
          else if hr_session req \<noteq> ht_session st then make_error_response api req 400 ''Invalid MCP-Session-Id header''
          else case hr_last_event req of
                 None \<Rightarrow> make_empty_json_response req 200
               | Some last_id \<Rightarrow>
                   (case events_after (ht_events st) last_id of
                      None \<Rightarrow> make_error_response api req 410 ''Event ID has been evicted from store''
                    | Some [] \<Rightarrow> make_empty_json_response req 200
                    | Some events \<Rightarrow> make_sse_replay_response req events))"

definition dispatch_verb ::
  "'j JsonApi \<Rightarrow> (nat \<Rightarrow> string) \<Rightarrow> nat \<Rightarrow> HttpRequest \<Rightarrow> 'j HttpServer \<Rightarrow> HttpOutcome \<times> 'j HttpServer" where
  "dispatch_verb api random i req st =
     (case hr_verb req of
        Http_post \<Rightarrow> handle_post api random i req st
      | Http_get \<Rightarrow> (Responded (handle_get api req st), st)
      | Http_delete \<Rightarrow> handle_delete api req st
      | Http_other \<Rightarrow>
          (Responded ((make_error_response api req 405 ''Method not allowed'')\<lparr>rs_allow := Some ''GET, POST, DELETE''\<rparr>), st))"


definition handle_request ::
  "'j JsonApi \<Rightarrow> (nat \<Rightarrow> string) \<Rightarrow> nat \<Rightarrow> HttpRequest \<Rightarrow> 'j HttpServer \<Rightarrow> HttpOutcome \<times> 'j HttpServer" where
  "handle_request api random i req st =
     (let c = ht_config st in
      if ht_closed st then (Responded (make_error_response api req 503 ''Transport closed''), st)
      else case serve_protected_resource_metadata api c req of
        Some document \<Rightarrow> (Responded document, st)
      | None \<Rightarrow>
          if is_unauthenticated_path c req then (Responded (make_error_response api req 404 ''Not found''), st)
          else if hr_verb req = Http_other then dispatch_verb api random i req st
          else case check_origin api c req of
                 Some response \<Rightarrow> (Responded response, st)
               | None \<Rightarrow>
                   (case check_authorization api c req of
                      Some response \<Rightarrow> (Responded response, st)
                    | None \<Rightarrow>
                        if hc_validator c = Async_validator
                        then (if request_bearer_token req = [] then (Responded (make_unauthorized_response api c req), st)
                              else (Checks, st))
                        else dispatch_verb api random i req st))"

subsection \<open>Exchanges\<close>

text \<open>The connection writes the response, unless the transport was closed meanwhile.\<close>

definition settle :: "nat \<Rightarrow> HttpRequest \<Rightarrow> HttpOutcome \<times> 'j HttpServer \<Rightarrow> 'j HttpServer" where
  "settle i req = (\<lambda>(outcome, st).
     st\<lparr>ht_exchanges := (ht_exchanges st)[i :=
       (case outcome of
          Checks \<Rightarrow> Ex_checking req
        | Waits key \<Rightarrow> Ex_waiting req key
        | Responded response \<Rightarrow> if ht_closed st then Ex_dropped req else Ex_answered req response)]\<rparr>)"

text \<open>A request read from a connection (\<open>handle_connection\<close>); its exchange is entered once it is handled.\<close>

definition receive_request ::
  "'j JsonApi \<Rightarrow> (nat \<Rightarrow> string) \<Rightarrow> HttpRequest \<Rightarrow> 'j HttpServer \<Rightarrow> 'j HttpServer" where
  "receive_request api random req st =
     (let i = length (ht_exchanges st) in
      if hc_max_request_body_bytes (ht_config st) < length (hr_body req)
      then st\<lparr>ht_exchanges := ht_exchanges st @ [Ex_answered req (payload_too_large api)]\<rparr>
      else if ht_closed st then st\<lparr>ht_exchanges := ht_exchanges st @ [Ex_dropped req]\<rparr>
      else settle i req (handle_request api random i req (st\<lparr>ht_exchanges := ht_exchanges st @ [Ex_dropped req]\<rparr>)))"

text \<open>The asynchronous validator answers (\<open>check_authorization_async\<close>).\<close>

definition resume_check ::
  "'j JsonApi \<Rightarrow> (nat \<Rightarrow> string) \<Rightarrow> nat \<Rightarrow> HttpRequest \<Rightarrow> bool option \<Rightarrow> 'j HttpServer \<Rightarrow> 'j HttpServer" where
  "resume_check api random i req verdict st =
     settle i req (case verdict_response api (ht_config st) req verdict of
                     Some response \<Rightarrow> (Responded response, st)
                   | None \<Rightarrow> dispatch_verb api random i req st)"

definition resume_wait :: "'j JsonApi \<Rightarrow> nat \<Rightarrow> HttpRequest \<Rightarrow> string \<Rightarrow> 'j HttpServer \<Rightarrow> 'j HttpServer" where
  "resume_wait api i req key st = settle i req (wait_pass api req key st)"

text \<open>
  The wait of an exchange was cancelled: its entry says so, or \<open>close\<close> cancelled every timer and dropped
  the entries.
\<close>

definition signalled :: "nat \<Rightarrow> string \<Rightarrow> 'j HttpServer \<Rightarrow> bool" where
  "signalled i key st \<longleftrightarrow> (case ht_pending st key of None \<Rightarrow> True | Some p \<Rightarrow> pd_timer p \<noteq> i \<or> pd_signalled p)"

subsection \<open>The server's side\<close>

definition start_read :: "'j HttpServer \<Rightarrow> string + 'j HttpServer" where
  "start_read st =
     (if ht_read_active st then Inl ''HttpServerTransport supports one pending read''
      else Inr (st\<lparr>ht_read_active := True\<rparr>))"

text \<open>One pass of the loop of \<open>run_read\<close>; \<open>None\<close> is a pass that waits.\<close>

definition read_pass :: "'j HttpServer \<Rightarrow> (string + string) option \<times> 'j HttpServer" where
  "read_pass st =
     (case ht_queue st of
        m # queue \<Rightarrow> (Some (Inr m), st\<lparr>ht_queue := queue, ht_read_active := False\<rparr>)
      | [] \<Rightarrow>
          if ht_closed st then (Some (Inl ''HttpServerTransport is closed''), st\<lparr>ht_read_active := False\<rparr>)
          else (None, st))"

definition records_event :: "'j JsonApi \<Rightarrow> 'j \<Rightarrow> string option \<Rightarrow> 'j HttpServer \<Rightarrow> bool" where
  "records_event api j key st \<longleftrightarrow> \<not> ht_json_only st
     \<and> (case key of None \<Rightarrow> True | Some k \<Rightarrow> k \<notin> set (ht_sessionless st))
     \<and> (\<not> ht_awaiting_next st \<or> is_initialize_result_response api j)"

text \<open>What an initialize result changes: the session, the version, and the header its answer carries.\<close>

definition establish_session :: "'j JsonApi \<Rightarrow> (nat \<Rightarrow> string) \<Rightarrow> 'j \<Rightarrow> 'j HttpServer \<Rightarrow> 'j HttpServer" where
  "establish_session api random j st =
     (let st1 = (if ht_session st = None then st\<lparr>ht_session := Some (random (ht_drawn st)), ht_drawn := Suc (ht_drawn st)\<rparr> else st);
          st2 = (case j_find api j ''result'' of
                   None \<Rightarrow> st1
                 | Some r \<Rightarrow>
                     (case j_find api r ''protocolVersion'' of
                        None \<Rightarrow> st1
                      | Some v \<Rightarrow> (case j_string api v of Inr version \<Rightarrow> if j_is_string api v then st1\<lparr>ht_protocol := version\<rparr> else st1
                                  | Inl _ \<Rightarrow> st1)))
      in st2\<lparr>ht_active := True, ht_awaiting_next := False\<rparr>)"

definition answer_pending ::
  "'j JsonApi \<Rightarrow> (nat \<Rightarrow> string) \<Rightarrow> 'j \<Rightarrow> string \<Rightarrow> string \<Rightarrow> string option \<Rightarrow> 'j PendingResponse \<Rightarrow> 'j HttpServer \<Rightarrow> 'j HttpServer" where
  "answer_pending api random j m key event_id p st =
     (let body = (case pd_client_id p of None \<Rightarrow> m | Some rid \<Rightarrow> j_dump api (j_put api j ''id'' rid));
          init = is_initialize_result_response api j;
          st' = (if init then establish_session api random j st else st);
          p' = p\<lparr>pd_body := Some body, pd_event_id := event_id, pd_ready := True, pd_signalled := True,
                 pd_session_header := (if init then ht_session st' else pd_session_header p)\<rparr>
      in st'\<lparr>ht_pending := (ht_pending st')(key \<mapsto> p')\<rparr>)"

definition run_write :: "'j JsonApi \<Rightarrow> (nat \<Rightarrow> string) \<Rightarrow> string \<Rightarrow> 'j HttpServer \<Rightarrow> string + 'j HttpServer" where
  "run_write api random m st =
     (if ht_closed st then Inl ''HttpServerTransport is closed''
      else case j_parse api m of
        None \<Rightarrow> Inr st
      | Some j \<Rightarrow>
          if \<not> j_is_object api j then Inr st
          else
            let key = (case j_find api j ''id'' of
                         None \<Rightarrow> None
                       | Some rid \<Rightarrow> if j_find api j ''method'' = None then Some (j_dump api rid) else None);
                (event_id, st1) = (if records_event api j key st
                                   then (let (e, es) = append_event m (ht_events st) in (Some e, st\<lparr>ht_events := es\<rparr>))
                                   else (None, st))
            in case key of
                 None \<Rightarrow> Inr st1
               | Some k \<Rightarrow>
                   (case ht_pending st1 k of
                      None \<Rightarrow> Inr st1
                    | Some p \<Rightarrow> Inr (answer_pending api random j m k event_id p st1)))"

text \<open>\<open>close\<close> raises the flag at once, from any thread; the rest of it runs on the strand.\<close>

definition close_transport :: "'j HttpServer \<Rightarrow> 'j HttpServer" where
  "close_transport st = st\<lparr>ht_closed := True\<rparr>"

definition sweep_closed :: "'j HttpServer \<Rightarrow> 'j HttpServer" where
  "sweep_closed st =
     st\<lparr>ht_swept := True, ht_pending := (\<lambda>_. None), ht_sessionless := [], ht_session := None,
        ht_protocol := latest_protocol_version, ht_active := False\<rparr>"

inductive transport_step :: "'j JsonApi \<Rightarrow> (nat \<Rightarrow> string) \<Rightarrow> 'j HttpServer \<Rightarrow> 'j HttpServer \<Rightarrow> bool"
  for api random where
  configured: "configure set_it st = Inr st' \<Longrightarrow> transport_step api random st st'"
| listened: "begin_listening st = Inr st' \<Longrightarrow> transport_step api random st st'"
| chosen: "transport_step api random st (set_json_only b st)"
| received: "ht_listening st \<Longrightarrow> transport_step api random st (receive_request api random req st)"
| checked: "i < length (ht_exchanges st) \<Longrightarrow> ht_exchanges st ! i = Ex_checking req
    \<Longrightarrow> transport_step api random st (resume_check api random i req verdict st)"
| woken: "i < length (ht_exchanges st) \<Longrightarrow> ht_exchanges st ! i = Ex_waiting req key \<Longrightarrow> signalled i key st
    \<Longrightarrow> transport_step api random st (resume_wait api i req key st)"
| reading: "start_read st = Inr st' \<Longrightarrow> transport_step api random st st'"
| taken: "ht_read_active st \<Longrightarrow> transport_step api random st (snd (read_pass st))"
| written: "run_write api random m st = Inr st' \<Longrightarrow> transport_step api random st st'"
| closed: "transport_step api random st (close_transport st)"
| swept: "ht_closed st \<Longrightarrow> \<not> ht_swept st \<Longrightarrow> transport_step api random st (sweep_closed st)"

end
