(* ===== verification/SessionManager.thy ===== *)
theory SessionManager
  imports HttpServer "HOL-Library.AList"
begin

text \<open>
  The HTTP session manager (transport/http_session_manager.cpp): many sessions behind one port, each with
  a server of its own at the other end of an in-memory transport. Connections run on strands of their
  own, so a request is handled in several steps, one for each stretch between two places where another
  strand can act: the table of sessions, the state of a session and its transport are each read and
  changed under a lock. Waking a timer is posted, and arrives later.
\<close>

subsection \<open>State\<close>

record SessionPending =
  sp_timer :: nat
  sp_body :: "string option"
  sp_events :: SseEventList
  sp_ready :: bool

text \<open>
  A session. \<open>sr_closed\<close> is the transport to its server, \<open>sr_reading\<close> the coroutine that reads what the server
  writes; \<open>sr_inbox\<close> and \<open>sr_outbox\<close> are the histories of what was written to the server and read from it.
\<close>

record 'j SessionRuntime =
  sr_id :: string
  sr_protocol :: string
  sr_events :: EventStore
  sr_pending :: "(string \<times> SessionPending) list"
  sr_unassigned :: SseEventList
  sr_closed :: bool
  sr_reading :: bool
  sr_inbox :: "'j list"
  sr_outbox :: "string list"

text \<open>
  An HTTP exchange: its token is validated; a server without session works on it; its session is found;
  its message is to be written; it looks for its answer; it sleeps until its timer is cancelled; it
  destroys its session (whose waiters are marked or not yet); it was answered; its connection ended.
\<close>

datatype 'j ManagerExchange =
    Mx_checking HttpRequest
  | Mx_direct HttpRequest
  | Mx_resolved HttpRequest 'j nat
  | Mx_writing HttpRequest 'j nat "string option"
  | Mx_looking HttpRequest nat string
  | Mx_asleep HttpRequest nat string
  | Mx_deleting HttpRequest
  | Mx_destroying HttpRequest nat bool
  | Mx_answered HttpRequest HttpResponse
  | Mx_dropped HttpRequest

record ManagerConfig =
  mc_http :: HttpConfig
  mc_custom :: "(HttpRequest \<Rightarrow> HttpResponse option) option"
  mc_stateless :: bool

record 'j Manager =
  sm_config :: ManagerConfig
  sm_json_only :: bool
  sm_listening :: bool
  sm_closed :: bool
  sm_swept :: bool
  sm_capacity :: nat
  sm_drawn :: nat
  sm_sessions :: "(string \<times> nat) list"
  sm_runtimes :: "'j SessionRuntime list"
  sm_dying :: "(nat \<times> bool) list"
  sm_signals :: "nat list"
  sm_exchanges :: "'j ManagerExchange list"

definition new_manager :: "nat \<Rightarrow> 'j Manager" where
  "new_manager event_store_capacity =
     \<lparr>sm_config = \<lparr>mc_http = default_config, mc_custom = None, mc_stateless = False\<rparr>, sm_json_only = False, sm_listening = False,
      sm_closed = False, sm_swept = False, sm_capacity = event_store_capacity, sm_drawn = 0, sm_sessions = [], sm_runtimes = [],
      sm_dying = [], sm_signals = [], sm_exchanges = []\<rparr>"

definition new_runtime :: "string \<Rightarrow> nat \<Rightarrow> 'j SessionRuntime" where
  "new_runtime session_id event_store_capacity =
     \<lparr>sr_id = session_id, sr_protocol = latest_protocol_version, sr_events = new_store event_store_capacity, sr_pending = [],
      sr_unassigned = [], sr_closed = False, sr_reading = True, sr_inbox = [], sr_outbox = []\<rparr>"

definition set_runtime :: "nat \<Rightarrow> 'j SessionRuntime \<Rightarrow> 'j Manager \<Rightarrow> 'j Manager" where
  "set_runtime n rt st = st\<lparr>sm_runtimes := (sm_runtimes st)[n := rt]\<rparr>"

subsection \<open>Configuration\<close>

text \<open>The setters are those of the HTTP server transport, with a text of their own.\<close>

definition lift_setter :: "(HttpConfig \<Rightarrow> string + HttpConfig) \<Rightarrow> ManagerConfig \<Rightarrow> string + ManagerConfig" where
  "lift_setter set_it c =
     (case set_it (mc_http c) of
        Inl e \<Rightarrow> Inl (if e = one_validator then ''StreamableHttpSessionManager accepts one bearer token validator'' else e)
      | Inr h \<Rightarrow> Inr (c\<lparr>mc_http := h\<rparr>))"

definition set_custom_request_handler :: "(HttpRequest \<Rightarrow> HttpResponse option) option \<Rightarrow> ManagerConfig \<Rightarrow> string + ManagerConfig" where
  "set_custom_request_handler handler c = Inr (c\<lparr>mc_custom := handler\<rparr>)"

definition manager_open :: "'j Manager \<Rightarrow> bool" where
  "manager_open st \<longleftrightarrow> \<not> sm_listening st \<and> \<not> sm_closed st"

definition manager_frozen :: string where
  "manager_frozen = ''StreamableHttpSessionManager configuration must be set before listen()''"

definition configure_manager :: "(ManagerConfig \<Rightarrow> string + ManagerConfig) \<Rightarrow> 'j Manager \<Rightarrow> string + 'j Manager" where
  "configure_manager set_it st =
     (if manager_open st then bindE (set_it (sm_config st)) (\<lambda>c. Inr (st\<lparr>sm_config := c\<rparr>)) else Inl manager_frozen)"

definition manager_set_allowed_origins :: "string list \<Rightarrow> 'j Manager \<Rightarrow> string + 'j Manager" where
  "manager_set_allowed_origins origins = configure_manager (lift_setter (\<lambda>c. Inr (set_allowed_origins origins c)))"

definition manager_set_allow_all_origins :: "bool \<Rightarrow> 'j Manager \<Rightarrow> string + 'j Manager" where
  "manager_set_allow_all_origins allow_all = configure_manager (lift_setter (\<lambda>c. Inr (set_allow_all_origins allow_all c)))"

definition manager_set_bearer_token_validator :: "(string \<Rightarrow> bool option) option \<Rightarrow> 'j Manager \<Rightarrow> string + 'j Manager" where
  "manager_set_bearer_token_validator validator = configure_manager (lift_setter (set_bearer_token_validator validator))"

definition manager_set_async_bearer_token_validator :: "bool \<Rightarrow> 'j Manager \<Rightarrow> string + 'j Manager" where
  "manager_set_async_bearer_token_validator present = configure_manager (lift_setter (set_async_bearer_token_validator present))"

definition manager_set_max_request_body_bytes :: "nat \<Rightarrow> 'j Manager \<Rightarrow> string + 'j Manager" where
  "manager_set_max_request_body_bytes max_bytes = configure_manager (lift_setter (set_max_request_body_bytes max_bytes))"

definition manager_set_bearer_challenge :: "BearerChallengeConfig \<Rightarrow> 'j Manager \<Rightarrow> string + 'j Manager" where
  "manager_set_bearer_challenge challenge = configure_manager (lift_setter (set_bearer_challenge challenge))"

definition manager_set_protected_resource_metadata ::
  "'j JsonApi \<Rightarrow> ProtectedResourceMetadataConfig \<Rightarrow> 'j Manager \<Rightarrow> string + 'j Manager" where
  "manager_set_protected_resource_metadata api metadata =
     configure_manager (lift_setter (set_protected_resource_metadata api metadata))"

definition manager_set_unauthenticated_paths :: "string list \<Rightarrow> 'j Manager \<Rightarrow> string + 'j Manager" where
  "manager_set_unauthenticated_paths paths = configure_manager (lift_setter (\<lambda>c. Inr (set_unauthenticated_paths paths c)))"

lemmas manager_setters = manager_set_allowed_origins_def manager_set_allow_all_origins_def manager_set_bearer_token_validator_def
  manager_set_async_bearer_token_validator_def manager_set_max_request_body_bytes_def manager_set_bearer_challenge_def
  manager_set_protected_resource_metadata_def manager_set_unauthenticated_paths_def

definition set_stateless_json_mode :: "bool \<Rightarrow> 'j Manager \<Rightarrow> string + 'j Manager" where
  "set_stateless_json_mode enabled st =
     (if manager_open st
      then Inr (st\<lparr>sm_config := (sm_config st)\<lparr>mc_stateless := enabled\<rparr>, sm_json_only := enabled \<or> sm_json_only st\<rparr>)
      else Inl manager_frozen)"

definition manager_json_only :: "bool \<Rightarrow> 'j Manager \<Rightarrow> 'j Manager" where
  "manager_json_only json_only st = st\<lparr>sm_json_only := json_only\<rparr>"

definition manager_listen :: "'j Manager \<Rightarrow> string + 'j Manager" where
  "manager_listen st =
     (if sm_closed st then Inr st
      else if sm_listening st then Inl ''StreamableHttpSessionManager::listen() may only be called once''
      else Inr (st\<lparr>sm_listening := True\<rparr>))"

subsection \<open>Sessions\<close>

definition session_count :: "'j Manager \<Rightarrow> nat" where
  "session_count st = length (sm_sessions st)"

definition find_session :: "string \<Rightarrow> 'j Manager \<Rightarrow> nat option" where
  "find_session session_id st = map_of (sm_sessions st) session_id"

definition create_session :: "(nat \<Rightarrow> string) \<Rightarrow> 'j Manager \<Rightarrow> nat option \<times> 'j Manager" where
  "create_session random st =
     (if sm_closed st then (None, st)
      else let session_id = random (sm_drawn st); n = length (sm_runtimes st) in
        (Some n, st\<lparr>sm_drawn := Suc (sm_drawn st), sm_runtimes := sm_runtimes st @ [new_runtime session_id (sm_capacity st)],
          sm_sessions := (if find_session session_id st = None then (session_id, n) # sm_sessions st else sm_sessions st)\<rparr>))"

text \<open>Every pending entry is marked and its timer signalled (\<open>destroy_session\<close>, \<open>close\<close>, the end of the reader).\<close>

definition release_waiters :: "nat \<Rightarrow> 'j Manager \<Rightarrow> 'j Manager" where
  "release_waiters n st =
     (let rt = sm_runtimes st ! n in
      (set_runtime n (rt\<lparr>sr_pending := map (\<lambda>(key, p). (key, p\<lparr>sp_ready := True\<rparr>)) (sr_pending rt)\<rparr>) st)
        \<lparr>sm_signals := sm_signals st @ map (\<lambda>(key, p). sp_timer p) (sr_pending rt)\<rparr>)"

definition close_session_transport :: "nat \<Rightarrow> 'j Manager \<Rightarrow> 'j Manager" where
  "close_session_transport n st = set_runtime n ((sm_runtimes st ! n)\<lparr>sr_closed := True\<rparr>) st"

subsection \<open>Requests\<close>

definition initialize_protocol_version :: "'j JsonApi \<Rightarrow> 'j \<Rightarrow> string option" where
  "initialize_protocol_version api j =
     (case j_find api j ''params'' of
        None \<Rightarrow> None
      | Some params \<Rightarrow>
          if \<not> j_is_object api params then None
          else case j_find api params ''protocolVersion'' of
                 None \<Rightarrow> None
               | Some v \<Rightarrow> if j_is_string api v then (case j_string api v of Inr s \<Rightarrow> Some s | Inl _ \<Rightarrow> None) else None)"

definition make_jsonrpc_error_response :: "'j JsonApi \<Rightarrow> HttpRequest \<Rightarrow> nat \<Rightarrow> int \<Rightarrow> string \<Rightarrow> HttpResponse" where
  "make_jsonrpc_error_response api req status code message =
     make_json_response req status (j_dump api (j_put api (j_put api (j_put api (j_empty_object api) ''jsonrpc'' (j_of_string api ''2.0'')) ''error''
       (j_put api (j_put api (j_empty_object api) ''code'' (j_of_int api code)) ''message'' (j_of_string api message))) ''id'' (j_null api)))"

definition transport_closed :: "'j JsonApi \<Rightarrow> HttpRequest \<Rightarrow> HttpResponse" where
  "transport_closed api req = make_error_response api req 503 ''Transport closed''"

definition resolve_session_for_post ::
  "'j JsonApi \<Rightarrow> (nat \<Rightarrow> string) \<Rightarrow> HttpRequest \<Rightarrow> 'j \<Rightarrow> 'j Manager \<Rightarrow> 'j ManagerExchange \<times> 'j Manager" where
  "resolve_session_for_post api random req j st =
     (if sm_closed st then (Mx_answered req (transport_closed api req), st)
      else case hr_session req of
        None \<Rightarrow>
          if \<not> is_initialize_request api j
          then (Mx_answered req (make_jsonrpc_error_response api req 400 invalid_request
                  ''Missing Mcp-Session-Id header; only initialize is allowed without a session''), st)
          else (case create_session random st of
                  (None, st') \<Rightarrow> (Mx_answered req (transport_closed api req), st')
                | (Some n, st') \<Rightarrow> (Mx_resolved req j n, st'))
      | Some session_id \<Rightarrow>
          (case find_session session_id st of
             None \<Rightarrow> (Mx_answered req (make_jsonrpc_error_response api req 404 invalid_request ''Session not found''), st)
           | Some n \<Rightarrow> (Mx_resolved req j n, st)))"

definition has_valid_protocol_header :: "HttpRequest \<Rightarrow> bool" where
  "has_valid_protocol_header req = (case hr_protocol req of None \<Rightarrow> True | Some v \<Rightarrow> is_supported_protocol_version v)"

definition lacks_id_or_method :: "'j JsonApi \<Rightarrow> 'j \<Rightarrow> bool" where
  "lacks_id_or_method api j \<longleftrightarrow> j_find api j ''id'' = None \<or> j_find api j ''method'' = None"

definition handle_stateless_post :: "'j JsonApi \<Rightarrow> HttpRequest \<Rightarrow> 'j \<Rightarrow> 'j Manager \<Rightarrow> 'j ManagerExchange" where
  "handle_stateless_post api req j st =
     (if sm_closed st then Mx_answered req (transport_closed api req)
      else if \<not> is_initialize_request api j \<and> \<not> is_discover_request api j \<and> \<not> has_valid_protocol_header req
      then Mx_answered req (bad_version_header api req)
      else if lacks_id_or_method api j then Mx_answered req (make_empty_json_response req 202)
      else Mx_direct req)"

definition unanswerable_id :: "'j JsonApi \<Rightarrow> 'j \<Rightarrow> bool" where
  "unanswerable_id api j \<longleftrightarrow> \<not> lacks_id_or_method api j \<and> (case j_find api j ''id'' of None \<Rightarrow> False | Some rid \<Rightarrow> \<not> answerable_id api rid)"

definition manager_post ::
  "'j JsonApi \<Rightarrow> (nat \<Rightarrow> string) \<Rightarrow> HttpRequest \<Rightarrow> 'j Manager \<Rightarrow> 'j ManagerExchange \<times> 'j Manager" where
  "manager_post api random req st =
     (if sm_closed st then (Mx_answered req (transport_closed api req), st)
      else case parse_peer_json (j_parse api) (hr_body req) of
        None \<Rightarrow> (Mx_answered req (make_error_response api req 400 ''Invalid JSON-RPC payload''), st)
      | Some j \<Rightarrow>
          if \<not> j_is_object api j then (Mx_answered req (make_error_response api req 400 ''Invalid JSON-RPC payload''), st)
          else if is_initialize_request api j \<and> \<not> has_valid_protocol_header req then (Mx_answered req (bad_version_header api req), st)
          else if mc_stateless (sm_config st) then (handle_stateless_post api req j st, st)
          else if unanswerable_id api j
          then (Mx_answered req (make_jsonrpc_error_response api req 400 invalid_request ''JSON-RPC request id must be a string or an integer''), st)
          else if is_discover_request api j \<and> hr_session req = None then (Mx_direct req, st)
          else resolve_session_for_post api random req j st)"

text \<open>The checks that GET and DELETE share: the header, the session, the version.\<close>

definition named_session :: "'j JsonApi \<Rightarrow> HttpRequest \<Rightarrow> 'j Manager \<Rightarrow> HttpResponse + nat" where
  "named_session api req st =
     (case hr_session req of
        None \<Rightarrow> Inl (make_error_response api req 400 ''Missing Mcp-Session-Id header'')
      | Some session_id \<Rightarrow>
          (case find_session session_id st of
             None \<Rightarrow> Inl (make_jsonrpc_error_response api req 404 invalid_request ''Session not found'')
           | Some n \<Rightarrow>
               if hr_protocol req \<noteq> None \<and> hr_protocol req \<noteq> Some (sr_protocol (sm_runtimes st ! n))
               then Inl (bad_version_header api req) else Inr n))"

definition manager_delete :: "'j JsonApi \<Rightarrow> HttpRequest \<Rightarrow> 'j Manager \<Rightarrow> 'j ManagerExchange" where
  "manager_delete api req st =
     (case named_session api req st of Inl response \<Rightarrow> Mx_answered req response | Inr n \<Rightarrow> Mx_deleting req)"

text \<open>\<open>destroy_session\<close> takes the session out of the table first; another DELETE may have done so.\<close>

definition erase_session :: "HttpRequest \<Rightarrow> 'j Manager \<Rightarrow> 'j ManagerExchange \<times> 'j Manager" where
  "erase_session req st =
     (case hr_session req of
        None \<Rightarrow> (Mx_answered req (make_json_response req 200 ''{}''), st)
      | Some session_id \<Rightarrow>
          (case find_session session_id st of
             None \<Rightarrow> (Mx_answered req (make_json_response req 200 ''{}''), st)
           | Some n \<Rightarrow> (Mx_destroying req n False, st\<lparr>sm_sessions := AList.delete session_id (sm_sessions st)\<rparr>)))"

definition manager_get :: "'j JsonApi \<Rightarrow> HttpRequest \<Rightarrow> 'j Manager \<Rightarrow> HttpResponse" where
  "manager_get api req st =
     (case named_session api req st of
        Inl response \<Rightarrow> response
      | Inr n \<Rightarrow>
          (case hr_last_event req of
             None \<Rightarrow> make_empty_json_response req 200
           | Some last_id \<Rightarrow>
               (case events_after (sr_events (sm_runtimes st ! n)) last_id of
                  None \<Rightarrow> make_error_response api req 410 ''Event ID has been evicted from store''
                | Some [] \<Rightarrow> make_empty_json_response req 200
                | Some events \<Rightarrow> make_sse_replay_response req events)))"

definition not_allowed :: "'j JsonApi \<Rightarrow> HttpRequest \<Rightarrow> string \<Rightarrow> HttpResponse" where
  "not_allowed api req verbs = (make_error_response api req 405 ''Method not allowed'')\<lparr>rs_allow := Some verbs\<rparr>"

text \<open>\<open>handle_request\<close> after the bearer check.\<close>

definition admitted_request ::
  "'j JsonApi \<Rightarrow> (nat \<Rightarrow> string) \<Rightarrow> HttpRequest \<Rightarrow> 'j Manager \<Rightarrow> 'j ManagerExchange \<times> 'j Manager" where
  "admitted_request api random req st =
     (case (case mc_custom (sm_config st) of None \<Rightarrow> None | Some handler \<Rightarrow> handler req) of
        Some response \<Rightarrow> (Mx_answered req response, st)
      | None \<Rightarrow>
          if is_unauthenticated_path (mc_http (sm_config st)) req then (Mx_answered req (make_error_response api req 404 ''Not found''), st)
          else if hr_verb req = Http_post then manager_post api random req st
          else if mc_stateless (sm_config st) then (Mx_answered req (not_allowed api req ''POST''), st)
          else (case hr_verb req of
                  Http_get \<Rightarrow> (Mx_answered req (manager_get api req st), st)
                | Http_delete \<Rightarrow> (manager_delete api req st, st)
                | _ \<Rightarrow> (Mx_answered req (not_allowed api req ''GET, POST, DELETE''), st)))"

definition manager_metadata :: "HttpConfig \<Rightarrow> HttpRequest \<Rightarrow> HttpResponse option" where
  "manager_metadata c req =
     (if hc_metadata c = None \<or> hr_verb req \<noteq> Http_get \<or> http_request_path (hr_target req) \<noteq> hc_metadata_path c then None
      else Some (make_json_response req 200 (hc_metadata_body c)))"

definition manager_request ::
  "'j JsonApi \<Rightarrow> (nat \<Rightarrow> string) \<Rightarrow> HttpRequest \<Rightarrow> 'j Manager \<Rightarrow> 'j ManagerExchange \<times> 'j Manager" where
  "manager_request api random req st =
     (let c = mc_http (sm_config st) in
      if sm_closed st then (Mx_answered req (transport_closed api req), st)
      else case check_origin api c req of
        Some response \<Rightarrow> (Mx_answered req response, st)
      | None \<Rightarrow>
          (case manager_metadata c req of
             Some document \<Rightarrow> (Mx_answered req document, st)
           | None \<Rightarrow>
               if is_unauthenticated_path c req \<or> hc_validator c = No_validator then admitted_request api random req st
               else if request_bearer_token req = [] then (Mx_answered req (make_unauthorized_response api c req), st)
               else (case hc_validator c of
                       Sync_validator v \<Rightarrow>
                         (case verdict_response api c req (v (request_bearer_token req)) of
                            Some response \<Rightarrow> (Mx_answered req response, st)
                          | None \<Rightarrow> admitted_request api random req st)
                     | _ \<Rightarrow> (Mx_checking req, st))))"


subsection \<open>Exchanges\<close>

text \<open>A connection writes a response only while the manager is open.\<close>

definition place_exchange :: "nat \<Rightarrow> HttpRequest \<Rightarrow> 'j ManagerExchange \<times> 'j Manager \<Rightarrow> 'j Manager" where
  "place_exchange i req = (\<lambda>(ex, st).
     st\<lparr>sm_exchanges := (sm_exchanges st)[i :=
       (case ex of Mx_answered _ response \<Rightarrow> if sm_closed st then Mx_dropped req else ex | _ \<Rightarrow> ex)]\<rparr>)"

definition manager_receive :: "'j JsonApi \<Rightarrow> (nat \<Rightarrow> string) \<Rightarrow> HttpRequest \<Rightarrow> 'j Manager \<Rightarrow> 'j Manager" where
  "manager_receive api random req st =
     (let i = length (sm_exchanges st) in
      if hc_max_request_body_bytes (mc_http (sm_config st)) < length (hr_body req)
      then st\<lparr>sm_exchanges := sm_exchanges st @ [Mx_answered req (payload_too_large api)]\<rparr>
      else if sm_closed st then st\<lparr>sm_exchanges := sm_exchanges st @ [Mx_dropped req]\<rparr>
      else place_exchange i req (manager_request api random req (st\<lparr>sm_exchanges := sm_exchanges st @ [Mx_dropped req]\<rparr>)))"

definition manager_verdict ::
  "'j JsonApi \<Rightarrow> (nat \<Rightarrow> string) \<Rightarrow> nat \<Rightarrow> HttpRequest \<Rightarrow> bool option \<Rightarrow> 'j Manager \<Rightarrow> 'j Manager" where
  "manager_verdict api random i req verdict st =
     place_exchange i req (case verdict_response api (mc_http (sm_config st)) req verdict of
       Some response \<Rightarrow> (Mx_answered req response, st)
     | None \<Rightarrow> admitted_request api random req st)"

text \<open>The server without a session answers (\<open>handle_stateless_post\<close>, \<open>handle_sessionless_discover\<close>).\<close>

definition direct_answer :: "nat \<Rightarrow> HttpRequest \<Rightarrow> string \<Rightarrow> 'j Manager \<Rightarrow> 'j Manager" where
  "direct_answer i req body st = place_exchange i req (Mx_answered req (make_json_response req 200 body), st)"

text \<open>\<open>handle_post\<close> once its session is found: the version, and the entry of the request.\<close>

definition register_post ::
  "'j JsonApi \<Rightarrow> nat \<Rightarrow> HttpRequest \<Rightarrow> 'j \<Rightarrow> nat \<Rightarrow> 'j Manager \<Rightarrow> 'j ManagerExchange \<times> 'j Manager" where
  "register_post api i req j n st =
     (let rt = sm_runtimes st ! n in
      if \<not> is_initialize_request api j \<and> hr_protocol req \<noteq> None \<and> hr_protocol req \<noteq> Some (sr_protocol rt)
      then (Mx_answered req (bad_version_header api req), st)
      else
        let rt' = (if is_initialize_request api j \<and> hr_session req = None
                   then rt\<lparr>sr_protocol := negotiate_protocol_version
                     (case initialize_protocol_version api j of None \<Rightarrow> latest_protocol_version | Some v \<Rightarrow> v)\<rparr>
                   else rt)
        in if lacks_id_or_method api j then (Mx_writing req j n None, set_runtime n rt' st)
           else let key = (case j_find api j ''id'' of None \<Rightarrow> [] | Some rid \<Rightarrow> j_dump api rid) in
             if map_of (sr_pending rt) key \<noteq> None
             then (Mx_answered req (make_error_response api req 400 ''Request id already pending''), set_runtime n rt' st)
             else (Mx_writing req j n (Some key), set_runtime n
                    (rt'\<lparr>sr_pending := (key, \<lparr>sp_timer = i, sp_body = None, sp_events = [], sp_ready = False\<rparr>) # sr_pending rt\<rparr>) st))"

text \<open>A write to a closed transport throws, and the connection ends with it.\<close>

definition write_to_session :: "HttpRequest \<Rightarrow> 'j \<Rightarrow> nat \<Rightarrow> string option \<Rightarrow> 'j Manager \<Rightarrow> 'j ManagerExchange \<times> 'j Manager" where
  "write_to_session req j n key st =
     (let rt = sm_runtimes st ! n in
      if sr_closed rt then (Mx_dropped req, st)
      else (case key of
              Some k \<Rightarrow> Mx_looking req n k
            | None \<Rightarrow> Mx_answered req ((make_empty_json_response req 202)\<lparr>rs_session := Some (sr_id rt)\<rparr>),
            set_runtime n (rt\<lparr>sr_inbox := sr_inbox rt @ [j]\<rparr>) st))"

definition session_answer :: "'j JsonApi \<Rightarrow> HttpRequest \<Rightarrow> bool \<Rightarrow> string \<Rightarrow> SessionPending \<Rightarrow> HttpResponse" where
  "session_answer api req json_only session_id p =
     (case sp_body p of
        None \<Rightarrow> make_error_response api req 500 ''Missing response body for request''
      | Some body \<Rightarrow>
          (if \<not> json_only \<and> accepts_sse req \<and> sp_events p \<noteq> [] then make_sse_replay_response req (sp_events p)
           else make_json_response req 200 body)\<lparr>rs_session := Some session_id\<rparr>)"

definition forget_entry :: "nat \<Rightarrow> string \<Rightarrow> 'j Manager \<Rightarrow> 'j Manager" where
  "forget_entry n key st =
     set_runtime n ((sm_runtimes st ! n)\<lparr>sr_pending := AList.delete key (sr_pending (sm_runtimes st ! n))\<rparr>) st"

text \<open>One pass of the loop of \<open>wait_for_response\<close>, and what follows it.\<close>

definition look_for_response :: "'j JsonApi \<Rightarrow> HttpRequest \<Rightarrow> nat \<Rightarrow> string \<Rightarrow> 'j Manager \<Rightarrow> 'j ManagerExchange \<times> 'j Manager" where
  "look_for_response api req n key st =
     (let rt = sm_runtimes st ! n in
      if sm_closed st
      then (Mx_answered req (make_error_response api req 500 ''Transport closed while waiting response''), forget_entry n key st)
      else case map_of (sr_pending rt) key of
        None \<Rightarrow> (Mx_answered req (make_error_response api req 500 ''Response lost''), st)
      | Some p \<Rightarrow>
          if sp_ready p then (Mx_answered req (session_answer api req (sm_json_only st) (sr_id rt) p), forget_entry n key st)
          else (Mx_asleep req n key, st))"

text \<open>A posted cancellation arrives; it wakes the coroutine only if it sleeps.\<close>

definition signal_arrives :: "nat \<Rightarrow> 'j Manager \<Rightarrow> 'j Manager" where
  "signal_arrives i st =
     st\<lparr>sm_signals := remove1 i (sm_signals st),
        sm_exchanges := (case sm_exchanges st ! i of
          Mx_asleep req n key \<Rightarrow> (sm_exchanges st)[i := Mx_looking req n key] | _ \<Rightarrow> sm_exchanges st)\<rparr>"

subsection \<open>What the server of a session writes\<close>

text \<open>Where a message goes: \<open>None\<close>, it is no message; otherwise the key of the request it answers, if it answers one.\<close>

definition message_route :: "'j JsonApi \<Rightarrow> string \<Rightarrow> string option option" where
  "message_route api m =
     (case scan_jsonrpc_envelope m of
        Some envelope \<Rightarrow>
          if env_id envelope \<noteq> [] \<and> env_has_result_or_error envelope
          then map_option (\<lambda>rid. Some (j_dump api rid)) (j_parse api (env_id envelope))
          else Some None
      | None \<Rightarrow>
          (case j_parse api m of
             None \<Rightarrow> None
           | Some j \<Rightarrow>
               if \<not> j_is_object api j then None
               else Some (case j_find api j ''id'' of
                      None \<Rightarrow> None
                    | Some rid \<Rightarrow> if j_find api j ''result'' \<noteq> None \<or> j_find api j ''error'' \<noteq> None then Some (j_dump api rid) else None)))"

text \<open>A message that answers nothing goes to the only waiter, or is kept for the next answer.\<close>

definition route_event :: "string \<times> string \<Rightarrow> 'j SessionRuntime \<Rightarrow> 'j SessionRuntime" where
  "route_event event rt =
     (case sr_pending rt of
        [] \<Rightarrow> rt
      | [(key, p)] \<Rightarrow> rt\<lparr>sr_pending := [(key, p\<lparr>sp_events := sp_events p @ [event]\<rparr>)]\<rparr>
      | _ \<Rightarrow> rt\<lparr>sr_unassigned := sr_unassigned rt @ [event]\<rparr>)"

definition route_answer :: "bool \<Rightarrow> (string \<times> string) option \<Rightarrow> string \<Rightarrow> string \<Rightarrow> 'j SessionRuntime \<Rightarrow> 'j SessionRuntime" where
  "route_answer json_only event key m rt =
     (case map_of (sr_pending rt) key of
        None \<Rightarrow> rt\<lparr>sr_unassigned := []\<rparr>
      | Some p \<Rightarrow>
          let p' = (case event of
                      None \<Rightarrow> p
                    | Some e \<Rightarrow> p\<lparr>sp_events := sp_events p @ sr_unassigned rt @ [e]\<rparr>)
          in rt\<lparr>sr_unassigned := (if json_only then sr_unassigned rt else []),
                sr_pending := AList.update key (p'\<lparr>sp_body := Some m, sp_ready := True\<rparr>) (sr_pending rt)\<rparr>)"

definition dispatch_response_to_pending :: "'j JsonApi \<Rightarrow> nat \<Rightarrow> string \<Rightarrow> 'j Manager \<Rightarrow> 'j Manager" where
  "dispatch_response_to_pending api n m st =
     (let rt = (sm_runtimes st ! n)\<lparr>sr_outbox := sr_outbox (sm_runtimes st ! n) @ [m]\<rparr> in
      case message_route api m of
        None \<Rightarrow> set_runtime n rt st
      | Some answered \<Rightarrow>
          let json_only = sm_json_only st;
              event = (if json_only then None else Some (fst (append_event m (sr_events rt)), m));
              rt1 = (if json_only then rt else rt\<lparr>sr_events := snd (append_event m (sr_events rt))\<rparr>)
          in (case answered of
                None \<Rightarrow> set_runtime n (case event of None \<Rightarrow> rt1 | Some e \<Rightarrow> route_event e rt1) st
              | Some key \<Rightarrow>
                  (set_runtime n (route_answer json_only event key m rt1) st)\<lparr>sm_signals := sm_signals st @
                    (case map_of (sr_pending rt1) key of None \<Rightarrow> [] | Some p \<Rightarrow> [sp_timer p])\<rparr>))"

text \<open>The reader of a closed transport ends and releases who still waits.\<close>

definition end_reader :: "nat \<Rightarrow> 'j Manager \<Rightarrow> 'j Manager" where
  "end_reader n st = release_waiters n (set_runtime n ((sm_runtimes st ! n)\<lparr>sr_reading := False\<rparr>) st)"

subsection \<open>Close\<close>

definition close_manager_flag :: "'j Manager \<Rightarrow> 'j Manager" where
  "close_manager_flag st = st\<lparr>sm_closed := True\<rparr>"

definition take_sessions :: "'j Manager \<Rightarrow> 'j Manager" where
  "take_sessions st = st\<lparr>sm_swept := True, sm_dying := map (\<lambda>(session_id, n). (n, False)) (sm_sessions st), sm_sessions := []\<rparr>"

text \<open>The next thing \<open>close\<close> does to the first session it still has to end.\<close>

definition end_next_session :: "'j Manager \<Rightarrow> 'j Manager" where
  "end_next_session st =
     (case sm_dying st of
        [] \<Rightarrow> st
      | (n, released) # dying \<Rightarrow>
          if released then (close_session_transport n st)\<lparr>sm_dying := dying\<rparr>
          else (release_waiters n st)\<lparr>sm_dying := (n, True) # dying\<rparr>)"

inductive manager_step :: "'j JsonApi \<Rightarrow> (nat \<Rightarrow> string) \<Rightarrow> 'j Manager \<Rightarrow> 'j Manager \<Rightarrow> bool" for api random where
  configured: "configure_manager set_it st = Inr st' \<Longrightarrow> manager_step api random st st'"
| stateless: "set_stateless_json_mode enabled st = Inr st' \<Longrightarrow> manager_step api random st st'"
| chosen: "manager_step api random st (manager_json_only json_only st)"
| listened: "manager_listen st = Inr st' \<Longrightarrow> manager_step api random st st'"
| received: "sm_listening st \<Longrightarrow> manager_step api random st (manager_receive api random req st)"
| checked: "i < length (sm_exchanges st) \<Longrightarrow> sm_exchanges st ! i = Mx_checking req \<Longrightarrow>
    manager_step api random st (manager_verdict api random i req verdict st)"
| direct: "i < length (sm_exchanges st) \<Longrightarrow> sm_exchanges st ! i = Mx_direct req \<Longrightarrow>
    manager_step api random st (direct_answer i req body st)"
| registered: "i < length (sm_exchanges st) \<Longrightarrow> sm_exchanges st ! i = Mx_resolved req j n \<Longrightarrow>
    manager_step api random st (place_exchange i req (register_post api i req j n st))"
| written: "i < length (sm_exchanges st) \<Longrightarrow> sm_exchanges st ! i = Mx_writing req j n key \<Longrightarrow>
    manager_step api random st (place_exchange i req (write_to_session req j n key st))"
| looked: "i < length (sm_exchanges st) \<Longrightarrow> sm_exchanges st ! i = Mx_looking req n key \<Longrightarrow>
    manager_step api random st (place_exchange i req (look_for_response api req n key st))"
| signalled: "i \<in> set (sm_signals st) \<Longrightarrow> manager_step api random st (signal_arrives i st)"
| deleted: "i < length (sm_exchanges st) \<Longrightarrow> sm_exchanges st ! i = Mx_deleting req \<Longrightarrow>
    manager_step api random st (place_exchange i req (erase_session req st))"
| released: "i < length (sm_exchanges st) \<Longrightarrow> sm_exchanges st ! i = Mx_destroying req n False \<Longrightarrow>
    manager_step api random st (place_exchange i req (Mx_destroying req n True, release_waiters n st))"
| destroyed: "i < length (sm_exchanges st) \<Longrightarrow> sm_exchanges st ! i = Mx_destroying req n True \<Longrightarrow>
    manager_step api random st (place_exchange i req (Mx_answered req (make_json_response req 200 ''{}''), close_session_transport n st))"
| outbound: "n < length (sm_runtimes st) \<Longrightarrow> sr_reading (sm_runtimes st ! n) \<Longrightarrow> \<not> sr_closed (sm_runtimes st ! n) \<Longrightarrow>
    manager_step api random st (dispatch_response_to_pending api n m st)"
| server_ended: "n < length (sm_runtimes st) \<Longrightarrow> manager_step api random st (close_session_transport n st)"
| reader_ended: "n < length (sm_runtimes st) \<Longrightarrow> sr_reading (sm_runtimes st ! n) \<Longrightarrow> sr_closed (sm_runtimes st ! n) \<Longrightarrow>
    manager_step api random st (end_reader n st)"
| closed: "manager_step api random st (close_manager_flag st)"
| swept: "sm_closed st \<Longrightarrow> \<not> sm_swept st \<Longrightarrow> manager_step api random st (take_sessions st)"
| session_ended: "manager_step api random st (end_next_session st)"

inductive manager_reachable :: "'j JsonApi \<Rightarrow> (nat \<Rightarrow> string) \<Rightarrow> 'j Manager \<Rightarrow> bool" for api random where
  start: "manager_reachable api random (new_manager event_store_capacity)"
| step: "manager_reachable api random st \<Longrightarrow> manager_step api random st st' \<Longrightarrow> manager_reachable api random st'"

end
