(* ===== verification/MessageQueue.thy ===== *)
theory MessageQueue
  imports Prelude
begin

text \<open>
  What a reader of a transport relies on (\<open>ITransport\<close> in transport/transport.hpp): messages are put at
  one end and read at the other, in the order they were put.
\<close>

fun take_messages :: "('s \<Rightarrow> 'm option \<times> 's) \<Rightarrow> nat \<Rightarrow> 's \<Rightarrow> 'm option list" where
  "take_messages take_first 0 s = []"
| "take_messages take_first (Suc n) s = (case take_first s of (m, s') \<Rightarrow> m # take_messages take_first n s')"

definition put_messages :: "('m \<Rightarrow> 's \<Rightarrow> 's) \<Rightarrow> 'm list \<Rightarrow> 's \<Rightarrow> 's" where
  "put_messages put ms s = foldl (\<lambda>s m. put m s) s ms"

locale message_queue =
  fixes messages :: "'s \<Rightarrow> 'm list" and accepting :: "'s \<Rightarrow> bool"
    and put :: "'m \<Rightarrow> 's \<Rightarrow> 's" and take_first :: "'s \<Rightarrow> 'm option \<times> 's"
  assumes put_last: "accepting s \<Longrightarrow> accepting (put m s) \<and> messages (put m s) = messages s @ [m]"
    and take_head: "accepting s \<Longrightarrow> messages s = m # ms \<Longrightarrow>
      fst (take_first s) = Some m \<and> accepting (snd (take_first s)) \<and> messages (snd (take_first s)) = ms"
begin

lemma put_all: "accepting s \<Longrightarrow> accepting (put_messages put ms s) \<and> messages (put_messages put ms s) = messages s @ ms"
  by (induction ms arbitrary: s) (simp_all add: put_messages_def put_last)

lemma take_all: "accepting s \<Longrightarrow> messages s = ms \<Longrightarrow> take_messages take_first (length ms) s = map Some ms"
  by (induction ms arbitrary: s) (simp_all add: take_head case_prod_unfold)

lemma fifo:
  assumes "accepting s"
  shows "take_messages take_first (length (messages s) + length ms) (put_messages put ms s) = map Some (messages s) @ map Some ms"
  using take_all [of "put_messages put ms s" "messages s @ ms"] put_all [OF assms, of ms] by simp

end

end
