(* ===== verification/HttpServerProps.thy ===== *)
theory HttpServerProps
  imports HttpServer MessageQueue
begin

text \<open>
  What the HTTP server transport keeps: each waiting exchange has an entry of its own in the table of
  pending requests, and only requests that passed every check reach the server.
\<close>

subsection \<open>The invariant\<close>

definition waits_ok :: "HttpExchange list \<Rightarrow> (string \<Rightarrow> 'j PendingResponse option) \<Rightarrow> bool \<Rightarrow> bool" where
  "waits_ok exs pending swept \<longleftrightarrow> (\<forall>i req key. i < length exs \<longrightarrow> exs ! i = Ex_waiting req key \<longrightarrow>
     (case pending key of Some p \<Rightarrow> pd_timer p = i \<and> pd_signalled p = pd_ready p | None \<Rightarrow> swept))"

definition entries_ok :: "HttpExchange list \<Rightarrow> (string \<Rightarrow> 'j PendingResponse option) \<Rightarrow> string list \<Rightarrow> bool" where
  "entries_ok exs pending sessionless \<longleftrightarrow> (\<forall>key p. pending key = Some p \<longrightarrow>
     pd_timer p < length exs \<and> (\<exists>req. exs ! pd_timer p = Ex_waiting req key)
     \<and> (pd_client_id p \<noteq> None \<longleftrightarrow> key \<in> set sessionless))
     \<and> set sessionless \<subseteq> dom pending \<and> distinct sessionless \<and> length sessionless \<le> 16"

definition session_ok :: "'j HttpServer \<Rightarrow> bool" where
  "session_ok st \<longleftrightarrow> (ht_active st \<longleftrightarrow> ht_session st \<noteq> None) \<and> (ht_active st \<longrightarrow> \<not> ht_awaiting_next st)
     \<and> (ht_swept st \<longrightarrow> ht_closed st \<and> (\<forall>key. ht_pending st key = None))"

text \<open>A request whose token the asynchronous validator judges was admitted that far.\<close>

definition asking_ok :: "'j JsonApi \<Rightarrow> HttpConfig \<Rightarrow> bool \<Rightarrow> HttpExchange list \<Rightarrow> bool" where
  "asking_ok api c listening exs \<longleftrightarrow> (exs = [] \<or> listening) \<and> (\<forall>i req. i < length exs \<longrightarrow> exs ! i = Ex_checking req \<longrightarrow>
     check_origin api c req = None \<and> hc_validator c = Async_validator \<and> request_bearer_token req \<noteq> []
     \<and> \<not> is_unauthenticated_path c req)"

definition transport_inv :: "'j JsonApi \<Rightarrow> 'j HttpServer \<Rightarrow> bool" where
  "transport_inv api st \<longleftrightarrow> waits_ok (ht_exchanges st) (ht_pending st) (ht_swept st)
     \<and> entries_ok (ht_exchanges st) (ht_pending st) (ht_sessionless st) \<and> session_ok st
     \<and> asking_ok api (ht_config st) (ht_listening st) (ht_exchanges st)"

text \<open>The fields that the invariant does not read may change freely.\<close>

definition same_tables :: "'j HttpServer \<Rightarrow> 'j HttpServer \<Rightarrow> bool" where
  "same_tables st st' \<longleftrightarrow> ht_exchanges st' = ht_exchanges st \<and> ht_pending st' = ht_pending st
     \<and> ht_sessionless st' = ht_sessionless st \<and> ht_swept st' = ht_swept st \<and> ht_config st' = ht_config st
     \<and> ht_listening st' = ht_listening st"

subsection \<open>The steps of one exchange on the tables\<close>

lemma waits_ok_finish:
  "waits_ok exs pending swept \<Longrightarrow> \<forall>req key. e \<noteq> Ex_waiting req key \<Longrightarrow> waits_ok (exs[i := e]) pending swept"
  unfolding waits_ok_def by (metis length_list_update nth_list_update_eq nth_list_update_neq)

lemma entries_ok_finish:
  "entries_ok exs pending sessionless \<Longrightarrow> \<forall>req key. exs ! i \<noteq> Ex_waiting req key \<Longrightarrow> entries_ok (exs[i := e]) pending sessionless"
  unfolding entries_ok_def by (metis length_list_update nth_list_update_neq)

lemma asking_ok_update:
  "asking_ok api c listening exs \<Longrightarrow> \<forall>req. e \<noteq> Ex_checking req \<Longrightarrow> asking_ok api c listening (exs[i := e])"
  unfolding asking_ok_def by (metis length_list_update list_update_nonempty nth_list_update_eq nth_list_update_neq)

lemma waits_ok_register:
  assumes "waits_ok exs pending swept" "pending key = None" "\<not> swept" "pd_timer p = i" "pd_signalled p = pd_ready p"
  shows "waits_ok (exs[i := Ex_waiting req key]) (pending(key \<mapsto> p)) swept"
  unfolding waits_ok_def
proof (intro allI impI)
  fix k req' key'
  assume k: "k < length (exs[i := Ex_waiting req key])" "exs[i := Ex_waiting req key] ! k = Ex_waiting req' key'"
  show "case (pending(key \<mapsto> p)) key' of None \<Rightarrow> swept | Some p \<Rightarrow> pd_timer p = k \<and> pd_signalled p = pd_ready p"
  proof (cases "k = i")
    case True
    with k assms show ?thesis by simp
  next
    case False
    then have "case pending key' of None \<Rightarrow> swept | Some p \<Rightarrow> pd_timer p = k \<and> pd_signalled p = pd_ready p"
      using assms(1) k unfolding waits_ok_def by simp
    with assms(2,3) show ?thesis by (cases "key' = key") auto
  qed
qed

lemma entries_ok_register:
  assumes "entries_ok exs pending sessionless" "pending key = None" "pd_timer p = i" "i < length exs"
    and "\<forall>req key. exs ! i \<noteq> Ex_waiting req key"
    and "if pd_client_id p = None then sessionless' = sessionless else sessionless' = List.insert key sessionless \<and> length sessionless < 16"
  shows "entries_ok (exs[i := Ex_waiting req key]) (pending(key \<mapsto> p)) sessionless'"
proof -
  have old: "entries_ok (exs[i := Ex_waiting req key]) pending sessionless" by (rule entries_ok_finish [OF assms(1,5)])
  have fresh: "key \<notin> set sessionless" using assms(1,2) unfolding entries_ok_def by auto
  show ?thesis
  proof (cases "pd_client_id p")
    case None
    with assms(6) have "sessionless' = sessionless" by simp
    with old fresh None assms(3,4) show ?thesis unfolding entries_ok_def by auto
  next
    case (Some rid)
    with assms(6) have "sessionless' = key # sessionless" "length sessionless < 16" using fresh by simp_all
    with old fresh Some assms(3,4) show ?thesis unfolding entries_ok_def by auto
  qed
qed

lemma waits_ok_consume:
  assumes "waits_ok exs pending swept" "i < length exs" "exs ! i = Ex_waiting req key" "\<forall>req key. e \<noteq> Ex_waiting req key"
  shows "waits_ok (exs[i := e]) (pending(key := None)) swept"
proof (cases "pending key")
  case None
  then have "pending(key := None) = pending" by auto
  with waits_ok_finish [OF assms(1,4)] show ?thesis by simp
next
  case (Some p)
  then have timer: "pd_timer p = i" using assms(1-3) unfolding waits_ok_def by fastforce
  show ?thesis
    unfolding waits_ok_def
  proof (intro allI impI)
    fix k req' key'
    assume k: "k < length (exs[i := e])" "exs[i := e] ! k = Ex_waiting req' key'"
    then have "k \<noteq> i" using assms(4) by (metis length_list_update nth_list_update_eq)
    then have "case pending key' of None \<Rightarrow> swept | Some p \<Rightarrow> pd_timer p = k \<and> pd_signalled p = pd_ready p"
      using assms(1) k unfolding waits_ok_def by simp
    moreover from this \<open>k \<noteq> i\<close> timer Some have "key' \<noteq> key" by auto
    ultimately show "case (pending(key := None)) key' of None \<Rightarrow> swept | Some p \<Rightarrow> pd_timer p = k \<and> pd_signalled p = pd_ready p"
      by simp
  qed
qed

lemma entries_ok_consume:
  assumes "entries_ok exs pending sessionless" "i < length exs" "exs ! i = Ex_waiting req key"
  shows "entries_ok (exs[i := e]) (pending(key := None)) (removeAll key sessionless)"
  unfolding entries_ok_def
proof (intro conjI allI impI)
  fix key' p
  assume p: "(pending(key := None)) key' = Some p"
  then have p': "pending key' = Some p" "key' \<noteq> key" by (auto split: if_splits)
  with assms obtain req' where req': "pd_timer p < length exs" "exs ! pd_timer p = Ex_waiting req' key'"
      "pd_client_id p \<noteq> None \<longleftrightarrow> key' \<in> set sessionless" unfolding entries_ok_def by blast
  then have "pd_timer p \<noteq> i" using assms(3) p'(2) by auto
  with req' show "pd_timer p < length (exs[i := e])" "\<exists>req. exs[i := e] ! pd_timer p = Ex_waiting req key'" by simp_all
  from req' p'(2) show "(pd_client_id p \<noteq> None) = (key' \<in> set (removeAll key sessionless))" by simp
next
  show "set (removeAll key sessionless) \<subseteq> dom (pending(key := None))" using assms(1) unfolding entries_ok_def by auto
  show "distinct (removeAll key sessionless)" using assms(1) unfolding entries_ok_def by (simp add: distinct_removeAll)
  have "length (removeAll key sessionless) \<le> length sessionless" by (rule length_removeAll_less_eq)
  then show "length (removeAll key sessionless) \<le> 16" using assms(1) unfolding entries_ok_def by linarith
qed

lemma waits_ok_change:
  assumes "waits_ok exs pending swept" "pending key = Some p" "pd_timer p' = pd_timer p" "pd_signalled p' = pd_ready p'"
  shows "waits_ok exs (pending(key \<mapsto> p')) swept"
  unfolding waits_ok_def
proof (intro allI impI)
  fix k req' key'
  assume "k < length exs" "exs ! k = Ex_waiting req' key'"
  then have "case pending key' of None \<Rightarrow> swept | Some p \<Rightarrow> pd_timer p = k \<and> pd_signalled p = pd_ready p"
    using assms(1) unfolding waits_ok_def by blast
  with assms(2-4) show "case (pending(key \<mapsto> p')) key' of None \<Rightarrow> swept | Some p \<Rightarrow> pd_timer p = k \<and> pd_signalled p = pd_ready p"
    by (cases "key' = key") auto
qed

lemma entries_ok_change:
  assumes "entries_ok exs pending sessionless" "pending key = Some p" "pd_timer p' = pd_timer p" "pd_client_id p' = pd_client_id p"
  shows "entries_ok exs (pending(key \<mapsto> p')) sessionless"
proof -
  have "\<forall>k q. (pending(key \<mapsto> p')) k = Some q \<longrightarrow> pd_timer q < length exs \<and> (\<exists>req. exs ! pd_timer q = Ex_waiting req k)
     \<and> (pd_client_id q \<noteq> None \<longleftrightarrow> k \<in> set sessionless)"
  proof (intro allI impI)
    fix k q
    assume q: "(pending(key \<mapsto> p')) k = Some q"
    then obtain q' where "pending k = Some q'" "pd_timer q = pd_timer q'" "pd_client_id q = pd_client_id q'"
      using assms(2-4) by (cases "k = key") auto
    with assms(1) show "pd_timer q < length exs \<and> (\<exists>req. exs ! pd_timer q = Ex_waiting req k) \<and> (pd_client_id q \<noteq> None \<longleftrightarrow> k \<in> set sessionless)"
      unfolding entries_ok_def by metis
  qed
  with assms(1,2) show ?thesis unfolding entries_ok_def by auto
qed


subsection \<open>Requests keep the invariant\<close>

lemma settle_responded:
  assumes "transport_inv api st" "\<forall>req key. ht_exchanges st ! i \<noteq> Ex_waiting req key" "same_tables st st1" "session_ok st1"
  shows "transport_inv api (settle i req (Responded r, st1))"
proof -
  let ?e = "if ht_closed st1 then Ex_dropped req else Ex_answered req r"
  have e: "\<forall>req key. ?e \<noteq> Ex_waiting req key" "\<forall>req. ?e \<noteq> Ex_checking req" by simp_all
  from assms(1) have "waits_ok ((ht_exchanges st)[i := ?e]) (ht_pending st) (ht_swept st)"
      "entries_ok ((ht_exchanges st)[i := ?e]) (ht_pending st) (ht_sessionless st)"
      "asking_ok api (ht_config st) (ht_listening st) ((ht_exchanges st)[i := ?e])"
    unfolding transport_inv_def
    using waits_ok_finish [OF _ e(1)] entries_ok_finish [OF _ assms(2)] asking_ok_update [OF _ e(2)] by blast+
  with assms(3,4) show ?thesis by (simp add: transport_inv_def same_tables_def settle_def session_ok_def)
qed

lemma settle_waits:
  assumes inv: "transport_inv api st" and e: "\<forall>req key. ht_exchanges st ! i \<noteq> Ex_waiting req key" and i: "i < length (ht_exchanges st)"
    and open_st: "\<not> ht_closed st" and fresh: "ht_pending st key = None"
    and p: "pd_timer p = i" "pd_signalled p = pd_ready p"
    and s: "if pd_client_id p = None then sessionless' = ht_sessionless st
            else sessionless' = List.insert key (ht_sessionless st) \<and> length (ht_sessionless st) < 16"
    and st1: "ht_exchanges st1 = ht_exchanges st" "ht_pending st1 = (ht_pending st)(key \<mapsto> p)" "ht_sessionless st1 = sessionless'"
      "ht_swept st1 = ht_swept st" "ht_config st1 = ht_config st" "ht_listening st1 = ht_listening st"
      "ht_active st1 = ht_active st" "ht_session st1 = ht_session st" "ht_awaiting_next st1 = ht_awaiting_next st"
  shows "transport_inv api (settle i req (Waits key, st1))"
proof -
  from inv have parts: "waits_ok (ht_exchanges st) (ht_pending st) (ht_swept st)"
      "entries_ok (ht_exchanges st) (ht_pending st) (ht_sessionless st)" "session_ok st"
      "asking_ok api (ht_config st) (ht_listening st) (ht_exchanges st)"
    by (simp_all add: transport_inv_def)
  have sw: "\<not> ht_swept st" using parts(3) open_st by (simp add: session_ok_def)
  have "waits_ok ((ht_exchanges st)[i := Ex_waiting req key]) ((ht_pending st)(key \<mapsto> p)) (ht_swept st)"
    by (rule waits_ok_register [OF parts(1) fresh sw p])
  moreover have "entries_ok ((ht_exchanges st)[i := Ex_waiting req key]) ((ht_pending st)(key \<mapsto> p)) sessionless'"
    by (rule entries_ok_register [OF parts(2) fresh p(1) i e s])
  moreover have "asking_ok api (ht_config st) (ht_listening st) ((ht_exchanges st)[i := Ex_waiting req key])"
    by (rule asking_ok_update [OF parts(4)]) simp
  ultimately show ?thesis using sw parts(3) by (simp add: transport_inv_def settle_def session_ok_def st1)
qed

lemma consume_registered:
  assumes "ht_pending st1 = (ht_pending st)(key \<mapsto> p)" "ht_pending st key = None"
    and "removeAll key (ht_sessionless st1) = ht_sessionless st"
  shows "snd (consume_pending_response key st1) = st1\<lparr>ht_pending := ht_pending st, ht_sessionless := ht_sessionless st\<rparr>"
proof -
  have "(ht_pending st)(key := None) = ht_pending st" using assms(2) by (simp add: fun_upd_idem)
  with assms(1,3) show ?thesis by (simp add: consume_pending_response_def)
qed

lemma wait_pass_registered:
  assumes "ht_pending st1 = (ht_pending st)(key \<mapsto> p)" "ht_pending st key = None" "\<not> pd_ready p"
    and "removeAll key (ht_sessionless st1) = ht_sessionless st"
  shows "wait_pass api req key st1 =
     (if ht_closed st1 then (Responded (make_error_response api req 500 ''Transport closed while waiting response''),
        st1\<lparr>ht_pending := ht_pending st, ht_sessionless := ht_sessionless st\<rparr>)
      else (Waits key, st1))"
proof -
  have "snd (consume_pending_response key st1) = st1\<lparr>ht_pending := ht_pending st, ht_sessionless := ht_sessionless st\<rparr>"
    by (rule consume_registered [OF assms(1,2,4)])
  moreover have "\<not> is_response_ready key st1" using assms(1,3) by (simp add: is_response_ready_def)
  ultimately show ?thesis by (simp add: wait_pass_def case_prod_unfold Let_def)
qed

lemma sentinel_frame:
  "snd (next_sentinel_request_id random st) =
     st\<lparr>ht_prefix := ht_prefix (snd (next_sentinel_request_id random st)),
        ht_drawn := ht_drawn (snd (next_sentinel_request_id random st)), ht_counter := ht_counter st + 1\<rparr>"
  by (simp add: next_sentinel_request_id_def Let_def)

lemma sessionless_fresh:
  assumes "transport_inv api st" "ht_pending st key = None"
  shows "removeAll key (ht_sessionless st) = ht_sessionless st"
    and "removeAll key (List.insert key (ht_sessionless st)) = ht_sessionless st"
proof -
  have "key \<notin> set (ht_sessionless st)" using assms unfolding transport_inv_def entries_ok_def by auto
  then show "removeAll key (ht_sessionless st) = ht_sessionless st"
    and "removeAll key (List.insert key (ht_sessionless st)) = ht_sessionless st" by (simp_all add: removeAll_id)
qed

text \<open>A request is registered and awaited: the exchange waits on its entry, or the transport is closed and nothing stays.\<close>

lemma registered_inv:
  assumes inv: "transport_inv api st" and e: "\<forall>req key. ht_exchanges st ! i \<noteq> Ex_waiting req key" and i: "i < length (ht_exchanges st)"
    and fresh: "ht_pending st key = None"
    and p: "pd_timer p = i" "\<not> pd_ready p" "\<not> pd_signalled p"
    and s: "if pd_client_id p = None then sessionless' = ht_sessionless st
            else sessionless' = List.insert key (ht_sessionless st) \<and> length (ht_sessionless st) < 16"
    and st1: "st1 = st\<lparr>ht_pending := (ht_pending st)(key \<mapsto> p), ht_sessionless := sessionless',
                       ht_queue := queue, ht_prefix := prefix, ht_counter := counter, ht_drawn := drawn\<rparr>"
  shows "transport_inv api (settle i req (wait_pass api req key st1))"
proof -
  have "removeAll key (ht_sessionless st1) = ht_sessionless st"
    using sessionless_fresh [OF inv fresh] s by (cases "pd_client_id p = None") (simp_all add: st1)
  then have w: "wait_pass api req key st1 =
     (if ht_closed st1 then (Responded (make_error_response api req 500 ''Transport closed while waiting response''),
        st1\<lparr>ht_pending := ht_pending st, ht_sessionless := ht_sessionless st\<rparr>)
      else (Waits key, st1))"
    using fresh p(2) by (intro wait_pass_registered) (simp_all add: st1)
  have ok: "session_ok st" using inv by (simp add: transport_inv_def)
  show ?thesis
  proof (cases "ht_closed st")
    case True
    then have "wait_pass api req key st1 = (Responded (make_error_response api req 500 ''Transport closed while waiting response''),
        st1\<lparr>ht_pending := ht_pending st, ht_sessionless := ht_sessionless st\<rparr>)" using w by (simp add: st1)
    moreover have "same_tables st (st1\<lparr>ht_pending := ht_pending st, ht_sessionless := ht_sessionless st\<rparr>)"
      by (simp add: same_tables_def st1)
    moreover have "session_ok (st1\<lparr>ht_pending := ht_pending st, ht_sessionless := ht_sessionless st\<rparr>)"
      using ok by (simp add: session_ok_def st1)
    ultimately show ?thesis using settle_responded [OF inv e] by metis
  next
    case False
    have "wait_pass api req key st1 = (Waits key, st1)" using w False by (simp add: st1)
    moreover have "transport_inv api (settle i req (Waits key, st1))"
      by (rule settle_waits [OF inv e i False fresh p(1) _ s]) (simp_all add: st1 p)
    ultimately show ?thesis by metis
  qed
qed

lemma session_ok_frame:
  assumes "session_ok st" "ht_active st' = ht_active st" "ht_session st' = ht_session st" "ht_awaiting_next st' = ht_awaiting_next st"
    "ht_swept st' = ht_swept st" "ht_closed st' = ht_closed st" "ht_pending st' = ht_pending st"
  shows "session_ok st'"
  using assms by (simp add: session_ok_def)

lemma admit_request_inv:
  assumes inv: "transport_inv api st" and e: "\<forall>req key. ht_exchanges st ! i \<noteq> Ex_waiting req key" and i: "i < length (ht_exchanges st)"
  shows "transport_inv api (settle i req (admit_request api random i req sessionless j rid st))"
proof (cases sessionless)
  case False
  show ?thesis
  proof (cases "ht_pending st (j_dump api rid)")
    case None
    have eq: "settle i req (admit_request api random i req sessionless j rid st) =
      settle i req (wait_pass api req (j_dump api rid) (enqueue_incoming_message (hr_body req)
        (st\<lparr>ht_pending := (ht_pending st)(j_dump api rid \<mapsto>
          \<lparr>pd_timer = i, pd_body = None, pd_session_header = None, pd_event_id = None, pd_client_id = None,
           pd_ready = False, pd_session_ended = False, pd_signalled = False\<rparr>)\<rparr>)))"
      using False None by (simp add: admit_request_def register_pending_request_def Let_def)
    show ?thesis unfolding eq
      by (rule registered_inv [OF inv e i None, where sessionless' = "ht_sessionless st"
            and queue = "ht_queue st @ [hr_body req]" and prefix = "ht_prefix st" and counter = "ht_counter st" and drawn = "ht_drawn st"])
        (simp_all add: enqueue_incoming_message_def)
  next
    case (Some p)
    have ok: "session_ok st" "same_tables st st" using inv by (simp_all add: transport_inv_def same_tables_def)
    from False Some settle_responded [OF inv e ok(2,1)] show ?thesis by (simp add: admit_request_def register_pending_request_def Let_def)
  qed
next
  case True
  obtain sentinel st1 where n: "next_sentinel_request_id random st = (sentinel, st1)" by (metis surj_pair)
  then obtain prefix drawn where st1: "st1 = st\<lparr>ht_prefix := prefix, ht_drawn := drawn, ht_counter := ht_counter st + 1\<rparr>"
    using sentinel_frame [of random st] by simp
  have frame: "same_tables st st1" "session_ok st1"
    using inv session_ok_frame [of st st1] by (simp_all add: transport_inv_def same_tables_def st1)
  let ?key = "j_dump api (j_of_string api sentinel)"
  show ?thesis
  proof (cases "16 \<le> length (ht_sessionless st) \<or> ht_pending st ?key \<noteq> None")
    case True
    then have "\<exists>r. admit_request api random i req sessionless j rid st = (Responded r, st1)"
      using \<open>sessionless\<close> n
      by (auto simp: admit_request_def register_pending_request_def max_pending_sessionless_discovers_def st1 Let_def)
    with settle_responded [OF inv e frame] show ?thesis by metis
  next
    case False
    let ?p = "\<lparr>pd_timer = i, pd_body = None, pd_session_header = None, pd_event_id = None, pd_client_id = Some rid,
           pd_ready = False, pd_session_ended = False, pd_signalled = False\<rparr>"
    have eq: "admit_request api random i req sessionless j rid st =
      wait_pass api req ?key (enqueue_incoming_message (j_dump api (j_put api j ''id'' (j_of_string api sentinel)))
        (st1\<lparr>ht_pending := (ht_pending st)(?key \<mapsto> ?p), ht_sessionless := List.insert ?key (ht_sessionless st)\<rparr>))"
      using \<open>sessionless\<close> n False
      by (simp add: admit_request_def register_pending_request_def max_pending_sessionless_discovers_def Let_def st1)
    have fresh: "ht_pending st ?key = None" using False by simp
    show ?thesis unfolding eq
      by (rule registered_inv [OF inv e i fresh, where p = ?p and sessionless' = "List.insert ?key (ht_sessionless st)" and prefix = prefix
            and queue = "ht_queue st @ [j_dump api (j_put api j ''id'' (j_of_string api sentinel))]" and counter = "ht_counter st + 1" and drawn = drawn])
        (use False in \<open>simp_all add: enqueue_incoming_message_def st1\<close>)
  qed
qed


lemma same_tables_refl [simp]: "same_tables st st"
  by (simp add: same_tables_def)

lemma responded_inv:
  "transport_inv api st \<Longrightarrow> \<forall>req key. ht_exchanges st ! i \<noteq> Ex_waiting req key \<Longrightarrow> transport_inv api (settle i req (Responded r, st))"
  by (rule settle_responded [OF _ _ same_tables_refl]) (simp_all add: transport_inv_def)

lemma enqueued_inv:
  assumes "transport_inv api st" "\<forall>req key. ht_exchanges st ! i \<noteq> Ex_waiting req key"
  shows "transport_inv api (settle i req (Responded r, enqueue_incoming_message m st))"
proof (rule settle_responded [OF assms])
  show "same_tables st (enqueue_incoming_message m st)" by (simp add: same_tables_def enqueue_incoming_message_def)
  show "session_ok (enqueue_incoming_message m st)" using assms(1) by (simp add: transport_inv_def session_ok_def enqueue_incoming_message_def)
qed

lemma handle_post_inv:
  assumes "transport_inv api st" "\<forall>req key. ht_exchanges st ! i \<noteq> Ex_waiting req key" "i < length (ht_exchanges st)"
  shows "transport_inv api (settle i req (handle_post api random i req st))"
  unfolding handle_post_def post_json_def
  using responded_inv [OF assms(1,2)] enqueued_inv [OF assms(1,2)] admit_request_inv [OF assms]
  by (simp split: option.split)

lemma terminate_inv: assumes "transport_inv api st" shows "transport_inv api (terminate_session st)"
proof (cases "ht_active st")
  case True
  define end_entry :: "'a PendingResponse \<Rightarrow> 'a PendingResponse" where
    "end_entry = (\<lambda>p. p\<lparr>pd_session_ended := True, pd_ready := True, pd_signalled := True\<rparr>)"
  have e: "pd_timer (end_entry p) = pd_timer p" "pd_client_id (end_entry p) = pd_client_id p" "pd_ready (end_entry p)"
      "pd_signalled (end_entry p)" for p by (simp_all add: end_entry_def)
  have "waits_ok (ht_exchanges st) (map_option end_entry \<circ> ht_pending st) (ht_swept st)"
    using assms unfolding transport_inv_def waits_ok_def by (fastforce simp: e split: option.splits)
  moreover have "entries_ok (ht_exchanges st) (map_option end_entry \<circ> ht_pending st) (ht_sessionless st)"
  proof -
    have ok: "entries_ok (ht_exchanges st) (ht_pending st) (ht_sessionless st)" using assms by (simp add: transport_inv_def)
    have "dom (map_option end_entry \<circ> ht_pending st) = dom (ht_pending st)" by (auto simp: dom_def)
    moreover have "(map_option end_entry \<circ> ht_pending st) key = Some p \<Longrightarrow>
        \<exists>q. ht_pending st key = Some q \<and> pd_timer p = pd_timer q \<and> pd_client_id p = pd_client_id q" for key p
      using e by auto
    ultimately show ?thesis using ok unfolding entries_ok_def by metis
  qed
  moreover have "terminate_session st = st\<lparr>ht_session := None, ht_active := False, ht_terminated := ht_terminated st + 1,
      ht_awaiting_next := True, ht_events := clear_store (ht_events st), ht_pending := map_option end_entry \<circ> ht_pending st\<rparr>"
    unfolding terminate_session_def end_entry_def using True by simp
  ultimately show ?thesis using True assms by (simp add: transport_inv_def session_ok_def)
next
  case False
  with assms show ?thesis by (simp add: transport_inv_def terminate_session_def session_ok_def)
qed

lemma terminate_frame [simp]: "ht_exchanges (terminate_session st) = ht_exchanges st"
  by (simp add: terminate_session_def)

lemma handle_delete_inv:
  assumes "transport_inv api st" "\<forall>req key. ht_exchanges st ! i \<noteq> Ex_waiting req key"
  shows "transport_inv api (settle i req (handle_delete api req st))"
proof -
  have "transport_inv api (settle i req (Responded r, terminate_session st))" for r
    by (rule responded_inv [OF terminate_inv [OF assms(1)]]) (simp add: assms(2))
  with responded_inv [OF assms] show ?thesis by (simp add: handle_delete_def split: option.split)
qed

lemma dispatch_verb_inv:
  assumes "transport_inv api st" "\<forall>req key. ht_exchanges st ! i \<noteq> Ex_waiting req key" "i < length (ht_exchanges st)"
  shows "transport_inv api (settle i req (dispatch_verb api random i req st))"
  unfolding dispatch_verb_def
  using responded_inv [OF assms(1,2)] handle_post_inv [OF assms] handle_delete_inv [OF assms(1,2)]
  by (simp split: Verb.split)

lemma waits_ok_append:
  "waits_ok exs pending swept \<Longrightarrow> \<forall>req key. e \<noteq> Ex_waiting req key \<Longrightarrow> waits_ok (exs @ [e]) pending swept"
  unfolding waits_ok_def by (metis length_append_singleton less_Suc_eq nth_append nth_append_length)

lemma entries_ok_append: "entries_ok exs pending sessionless \<Longrightarrow> entries_ok (exs @ [e]) pending sessionless"
  unfolding entries_ok_def by (metis length_append_singleton less_Suc_eq nth_append)

lemma asking_ok_append:
  "asking_ok api c True exs \<Longrightarrow> \<forall>req. e \<noteq> Ex_checking req \<Longrightarrow> asking_ok api c True (exs @ [e])"
  unfolding asking_ok_def by (metis length_append_singleton less_Suc_eq nth_append nth_append_length)

lemma append_inv:
  assumes "transport_inv api st" "ht_listening st" "\<forall>req. e \<noteq> Ex_checking req" "\<forall>req key. e \<noteq> Ex_waiting req key"
  shows "transport_inv api (st\<lparr>ht_exchanges := ht_exchanges st @ [e]\<rparr>)"
  using assms(1,2) waits_ok_append [OF _ assms(4)] entries_ok_append asking_ok_append [OF _ assms(3)]
  by (auto simp: transport_inv_def session_ok_def)

lemma settle_checks:
  assumes "transport_inv api st" "\<forall>req key. ht_exchanges st ! i \<noteq> Ex_waiting req key" "ht_exchanges st \<noteq> []"
    and "check_origin api (ht_config st) req = None" "hc_validator (ht_config st) = Async_validator"
      "request_bearer_token req \<noteq> []" "\<not> is_unauthenticated_path (ht_config st) req"
  shows "transport_inv api (settle i req (Checks, st))"
proof -
  have "asking_ok api (ht_config st) (ht_listening st) ((ht_exchanges st)[i := Ex_checking req])"
    using assms unfolding transport_inv_def asking_ok_def
    by (metis HttpExchange.inject(1) length_list_update nth_list_update_eq nth_list_update_neq)
  moreover have "waits_ok ((ht_exchanges st)[i := Ex_checking req]) (ht_pending st) (ht_swept st)"
    using assms(1) by (intro waits_ok_finish) (simp_all add: transport_inv_def)
  moreover have "entries_ok ((ht_exchanges st)[i := Ex_checking req]) (ht_pending st) (ht_sessionless st)"
    using assms(1,2) by (intro entries_ok_finish) (simp_all add: transport_inv_def)
  ultimately show ?thesis using assms(1) by (simp add: transport_inv_def settle_def session_ok_def)
qed

lemma handle_request_inv:
  assumes "transport_inv api st" "\<forall>req key. ht_exchanges st ! i \<noteq> Ex_waiting req key" "i < length (ht_exchanges st)"
  shows "transport_inv api (settle i req (handle_request api random i req st))"
proof -
  note r = responded_inv [OF assms(1,2)] and d = dispatch_verb_inv [OF assms]
  have ne: "ht_exchanges st \<noteq> []" using assms(3) by auto
  have c: "check_origin api (ht_config st) req = None \<Longrightarrow> hc_validator (ht_config st) = Async_validator \<Longrightarrow>
      request_bearer_token req \<noteq> [] \<Longrightarrow> \<not> is_unauthenticated_path (ht_config st) req \<Longrightarrow> transport_inv api (settle i req (Checks, st))"
    by (rule settle_checks [OF assms(1,2) ne])
  show ?thesis
    unfolding handle_request_def Let_def using r d c by (auto split: option.split)
qed

lemma receive_request_inv:
  assumes "transport_inv api st" "ht_listening st"
  shows "transport_inv api (receive_request api random req st)"
proof -
  let ?st = "st\<lparr>ht_exchanges := ht_exchanges st @ [Ex_dropped req]\<rparr>"
  have plain: "transport_inv api ?st" "transport_inv api (st\<lparr>ht_exchanges := ht_exchanges st @ [Ex_answered req r]\<rparr>)" for r
    using append_inv [OF assms] by simp_all
  have "transport_inv api (settle (length (ht_exchanges st)) req (handle_request api random (length (ht_exchanges st)) req ?st))"
    by (rule handle_request_inv [OF plain(1)]) simp_all
  with plain show ?thesis by (simp add: receive_request_def Let_def)
qed

lemma resume_check_inv:
  assumes "transport_inv api st" "ht_exchanges st ! i = Ex_checking req" "i < length (ht_exchanges st)"
  shows "transport_inv api (resume_check api random i req verdict st)"
proof -
  have n: "\<forall>req key. ht_exchanges st ! i \<noteq> Ex_waiting req key" using assms(2) by simp
  show ?thesis
    unfolding resume_check_def using responded_inv [OF assms(1) n] dispatch_verb_inv [OF assms(1) n assms(3)]
    by (simp split: option.split)
qed

lemma entry_of_waiter:
  assumes "transport_inv api st" "i < length (ht_exchanges st)" "ht_exchanges st ! i = Ex_waiting req key"
  shows "case ht_pending st key of Some p \<Rightarrow> pd_timer p = i \<and> pd_signalled p = pd_ready p | None \<Rightarrow> ht_swept st"
  using assms unfolding transport_inv_def waits_ok_def by blast

text \<open>An exchange that is woken finishes: it is answered or dropped, and its entry is gone.\<close>

lemma resume_wait_finishes:
  assumes "transport_inv api st" "i < length (ht_exchanges st)" "ht_exchanges st ! i = Ex_waiting req key" "signalled i key st"
  shows "\<exists>e. resume_wait api i req key st = (snd (consume_pending_response key st))\<lparr>ht_exchanges := (ht_exchanges st)[i := e]\<rparr>
    \<and> e = (if ht_closed st then Ex_dropped req
           else Ex_answered req (answer_response api req (ht_json_only st) (fst (consume_pending_response key st))))"
proof -
  from entry_of_waiter [OF assms(1-3)] assms(4) have "is_response_ready key st" by (auto simp: signalled_def is_response_ready_def split: option.splits)
  then show ?thesis
    by (simp add: resume_wait_def wait_pass_def settle_def case_prod_unfold Let_def consume_pending_response_def split: option.split)
qed

lemma resume_wait_inv:
  assumes "transport_inv api st" "i < length (ht_exchanges st)" "ht_exchanges st ! i = Ex_waiting req key" "signalled i key st"
  shows "transport_inv api (resume_wait api i req key st)"
proof -
  define e where "e = (if ht_closed st then Ex_dropped req
     else Ex_answered req (answer_response api req (ht_json_only st) (fst (consume_pending_response key st))))"
  have r: "resume_wait api i req key st = (snd (consume_pending_response key st))\<lparr>ht_exchanges := (ht_exchanges st)[i := e]\<rparr>"
    using resume_wait_finishes [OF assms] e_def by blast
  have e: "\<forall>req key. e \<noteq> Ex_waiting req key" "\<forall>req. e \<noteq> Ex_checking req" by (simp_all add: e_def)
  from assms(1) have parts: "waits_ok (ht_exchanges st) (ht_pending st) (ht_swept st)"
      "entries_ok (ht_exchanges st) (ht_pending st) (ht_sessionless st)" "session_ok st"
      "asking_ok api (ht_config st) (ht_listening st) (ht_exchanges st)"
    by (simp_all add: transport_inv_def)
  have w: "waits_ok ((ht_exchanges st)[i := e]) ((ht_pending st)(key := None)) (ht_swept st)"
    by (rule waits_ok_consume [OF parts(1) assms(2,3) e(1)])
  have t: "entries_ok ((ht_exchanges st)[i := e]) ((ht_pending st)(key := None)) (removeAll key (ht_sessionless st))"
    by (rule entries_ok_consume [OF parts(2) assms(2,3)])
  have a: "asking_ok api (ht_config st) (ht_listening st) ((ht_exchanges st)[i := e])" by (rule asking_ok_update [OF parts(4) e(2)])
  show ?thesis
  proof (cases "ht_pending st key")
    case None
    then have "(ht_pending st)(key := None) = ht_pending st" "removeAll key (ht_sessionless st) = ht_sessionless st"
      using sessionless_fresh(1) [OF assms(1) None] by (auto simp: fun_upd_idem)
    with w t a parts(3) None show ?thesis unfolding r by (simp add: transport_inv_def session_ok_def consume_pending_response_def)
  next
    case (Some p)
    with w t a parts(3) show ?thesis unfolding r by (simp add: transport_inv_def session_ok_def consume_pending_response_def)
  qed
qed


subsection \<open>Answers and the other steps keep the invariant\<close>

lemma establish_frame [simp]:
  "ht_exchanges (establish_session api random j st) = ht_exchanges st"
  "ht_pending (establish_session api random j st) = ht_pending st"
  "ht_sessionless (establish_session api random j st) = ht_sessionless st"
  "ht_swept (establish_session api random j st) = ht_swept st"
  "ht_closed (establish_session api random j st) = ht_closed st"
  "ht_config (establish_session api random j st) = ht_config st"
  "ht_listening (establish_session api random j st) = ht_listening st"
  "ht_queue (establish_session api random j st) = ht_queue st"
  "ht_events (establish_session api random j st) = ht_events st"
  "ht_json_only (establish_session api random j st) = ht_json_only st"
  "ht_active (establish_session api random j st)"
  "\<not> ht_awaiting_next (establish_session api random j st)"
  "ht_session (establish_session api random j st) = (if ht_session st = None then Some (random (ht_drawn st)) else ht_session st)"
  unfolding establish_session_def Let_def by (auto split: option.split sum.split)

lemma answer_pending_inv:
  assumes inv: "transport_inv api st" and p: "ht_pending st key = Some p"
  shows "transport_inv api (answer_pending api random j m key event_id p st)"
proof -
  from inv have parts: "waits_ok (ht_exchanges st) (ht_pending st) (ht_swept st)"
      "entries_ok (ht_exchanges st) (ht_pending st) (ht_sessionless st)" "session_ok st"
      "asking_ok api (ht_config st) (ht_listening st) (ht_exchanges st)"
    by (simp_all add: transport_inv_def)
  define st1 where "st1 = (if is_initialize_result_response api j then establish_session api random j st else st)"
  define p' where "p' = p\<lparr>pd_body := Some (case pd_client_id p of None \<Rightarrow> m | Some rid \<Rightarrow> j_dump api (j_put api j ''id'' rid)),
      pd_event_id := event_id, pd_ready := True, pd_signalled := True,
      pd_session_header := (if is_initialize_result_response api j then ht_session st1 else pd_session_header p)\<rparr>"
  have st1: "ht_pending st1 = ht_pending st" by (simp add: st1_def)
  have eq: "answer_pending api random j m key event_id p st = st1\<lparr>ht_pending := (ht_pending st)(key \<mapsto> p')\<rparr>"
    unfolding answer_pending_def Let_def st1_def [symmetric] st1 p'_def ..
  have p': "pd_timer p' = pd_timer p" "pd_client_id p' = pd_client_id p" "pd_signalled p' = pd_ready p'"
    by (simp_all add: p'_def)
  have "waits_ok (ht_exchanges st) ((ht_pending st)(key \<mapsto> p')) (ht_swept st)"
    by (rule waits_ok_change [OF parts(1) p p'(1,3)])
  moreover have "entries_ok (ht_exchanges st) ((ht_pending st)(key \<mapsto> p')) (ht_sessionless st)"
    by (rule entries_ok_change [OF parts(2) p p'(1,2)])
  moreover have "\<not> ht_swept st" using parts(3) p by (auto simp: session_ok_def)
  ultimately show ?thesis using parts(3,4) unfolding eq by (simp add: transport_inv_def session_ok_def st1_def)
qed

text \<open>What a message of the server records: the store, and nothing else.\<close>

lemma recorded_inv: "transport_inv api st \<Longrightarrow> transport_inv api (st\<lparr>ht_events := es\<rparr>)"
  by (simp add: transport_inv_def session_ok_def)

definition answer_key :: "'j JsonApi \<Rightarrow> 'j \<Rightarrow> string option" where
  "answer_key api j =
     (case j_find api j ''id'' of
        None \<Rightarrow> None
      | Some rid \<Rightarrow> if j_find api j ''method'' = None then Some (j_dump api rid) else None)"

definition recorded :: "'j JsonApi \<Rightarrow> string \<Rightarrow> 'j \<Rightarrow> 'j HttpServer \<Rightarrow> string option \<times> 'j HttpServer" where
  "recorded api m j st =
     (if records_event api j (answer_key api j) st
      then (Some (fst (append_event m (ht_events st))), st\<lparr>ht_events := snd (append_event m (ht_events st))\<rparr>) else (None, st))"

lemma run_write_open:
  assumes "\<not> ht_closed st" "j_parse api m = Some j" "j_is_object api j"
  shows "run_write api random m st = Inr (
     let (event_id, st1) = recorded api m j st in
     case answer_key api j of
       None \<Rightarrow> st1
     | Some k \<Rightarrow> (case ht_pending st k of None \<Rightarrow> st1 | Some p \<Rightarrow> answer_pending api random j m k event_id p st1))"
  using assms by (simp add: run_write_def recorded_def answer_key_def case_prod_unfold Let_def split: option.split)

lemma run_write_inv:
  assumes inv: "transport_inv api st" and w: "run_write api random m st = Inr st'"
  shows "transport_inv api st'"
proof -
  have op: "\<not> ht_closed st" using w by (auto simp: run_write_def)
  show ?thesis
  proof (cases "\<exists>j. j_parse api m = Some j \<and> j_is_object api j")
    case True
    then obtain j where j: "j_parse api m = Some j" "j_is_object api j" by blast
    obtain event_id st1 where r: "recorded api m j st = (event_id, st1)" by (metis surj_pair)
    then have i: "transport_inv api st1" "ht_pending st1 = ht_pending st"
      using inv recorded_inv [OF inv] by (auto simp: recorded_def split: if_splits)
    have "st' = (case answer_key api j of None \<Rightarrow> st1
        | Some k \<Rightarrow> (case ht_pending st k of None \<Rightarrow> st1 | Some p \<Rightarrow> answer_pending api random j m k event_id p st1))"
      using w run_write_open [OF op j] r by simp
    with i answer_pending_inv [OF i(1)] show ?thesis by (simp split: option.split)
  next
    case False
    then have "st' = st" using w op by (auto simp: run_write_def split: option.splits if_splits)
    with inv show ?thesis by simp
  qed
qed

lemma sweep_inv:
  assumes "transport_inv api st" "ht_closed st" shows "transport_inv api (sweep_closed st)"
  using assms by (auto simp: transport_inv_def waits_ok_def entries_ok_def session_ok_def sweep_closed_def)

lemma transport_step_inv: "transport_step api random st st' \<Longrightarrow> transport_inv api st \<Longrightarrow> transport_inv api st'"
proof (induction rule: transport_step.induct)
  case (configured set_it st st')
  then have "\<not> ht_listening st" by (auto simp: configure_def)
  with configured have "ht_exchanges st = []" by (simp add: transport_inv_def asking_ok_def)
  moreover obtain c where "st' = st\<lparr>ht_config := c\<rparr>"
    using configured(1) by (auto simp: configure_def bindE_def split: if_splits sum.splits)
  ultimately show ?case using configured(2) by (simp add: transport_inv_def session_ok_def asking_ok_def)
next
  case (listened st st')
  then have "st' = st \<or> st' = st\<lparr>ht_listening := True\<rparr>" by (auto simp: begin_listening_def split: if_splits)
  with listened(2) show ?case by (auto simp: transport_inv_def session_ok_def asking_ok_def)
next
  case (reading st st')
  then have "st' = st\<lparr>ht_read_active := True\<rparr>" by (auto simp: start_read_def split: if_splits)
  with reading(2) show ?case by (simp add: transport_inv_def session_ok_def)
next
  case (taken st)
  then show ?case by (auto simp: transport_inv_def session_ok_def read_pass_def split: list.splits)
next
  case (closed st)
  then show ?case by (auto simp: transport_inv_def session_ok_def close_transport_def)
next
  case (chosen st b)
  then show ?case by (simp add: transport_inv_def session_ok_def set_json_only_def)
qed (simp_all add: receive_request_inv resume_check_inv resume_wait_inv run_write_inv sweep_inv)

inductive transport_reachable :: "'j JsonApi \<Rightarrow> (nat \<Rightarrow> string) \<Rightarrow> 'j HttpServer \<Rightarrow> bool" for api random where
  start: "transport_reachable api random (new_http_server event_store_capacity)"
| step: "transport_reachable api random st \<Longrightarrow> transport_step api random st st' \<Longrightarrow> transport_reachable api random st'"

lemma transport_reachable_inv: "transport_reachable api random st \<Longrightarrow> transport_inv api st"
proof (induction rule: transport_reachable.induct)
  case (start event_store_capacity)
  then show ?case by (simp add: transport_inv_def waits_ok_def entries_ok_def session_ok_def asking_ok_def new_http_server_def)
next
  case (step st st')
  then show ?case using transport_step_inv by blast
qed


subsection \<open>Routing\<close>

text \<open>C10: Answers are not confused: until the transport is closed and swept, every exchange that awaits an answer has
  the entry of its request id, with its own timer, so no two exchanges await the same id; an entry of the
  table always belongs to an exchange that waits on it; and at most sixteen entries, exactly those that
  keep the id their caller sent, are for requests that came without a session.\<close>

theorem waiting_routed:
  assumes "transport_reachable api random st"
  shows "(i < length (ht_exchanges st) \<and> ht_exchanges st ! i = Ex_waiting req key \<and> \<not> ht_swept st \<longrightarrow>
       (\<exists>p. ht_pending st key = Some p \<and> pd_timer p = i)
       \<and> (\<forall>k req'. k < length (ht_exchanges st) \<and> ht_exchanges st ! k = Ex_waiting req' key \<longrightarrow> k = i))
    \<and> (ht_pending st key = Some p \<longrightarrow>
       (\<exists>req. ht_exchanges st ! pd_timer p = Ex_waiting req key) \<and> (pd_client_id p \<noteq> None \<longleftrightarrow> key \<in> set (ht_sessionless st)))
    \<and> distinct (ht_sessionless st) \<and> length (ht_sessionless st) \<le> max_pending_sessionless_discovers"
proof -
  have w: "waits_ok (ht_exchanges st) (ht_pending st) (ht_swept st)" and e: "entries_ok (ht_exchanges st) (ht_pending st) (ht_sessionless st)"
    using transport_reachable_inv [OF assms] by (simp_all add: transport_inv_def)
  have own: "\<exists>p. ht_pending st key = Some p \<and> pd_timer p = k"
    if "k < length (ht_exchanges st)" "ht_exchanges st ! k = Ex_waiting req' key" "\<not> ht_swept st" for k req'
    using w that unfolding waits_ok_def by (fastforce split: option.splits)
  then have unique: "k = i" if "k < length (ht_exchanges st)" "ht_exchanges st ! k = Ex_waiting req' key" "\<not> ht_swept st"
      "i < length (ht_exchanges st)" "ht_exchanges st ! i = Ex_waiting req key" for k req'
    using that by (metis option.inject)
  have entry: "ht_pending st key = Some p \<Longrightarrow>
       (\<exists>req. ht_exchanges st ! pd_timer p = Ex_waiting req key) \<and> (pd_client_id p \<noteq> None \<longleftrightarrow> key \<in> set (ht_sessionless st))"
    using e unfolding entries_ok_def by blast
  have "distinct (ht_sessionless st) \<and> length (ht_sessionless st) \<le> max_pending_sessionless_discovers"
    using e by (simp add: entries_ok_def max_pending_sessionless_discovers_def)
  with own unique entry show ?thesis by blast
qed

subsection \<open>Admission\<close>

text \<open>The message that a POST hands to the server, for a request that passed the gate.\<close>

definition passes_gate :: "'j JsonApi \<Rightarrow> 'j HttpServer \<Rightarrow> HttpRequest \<Rightarrow> string \<Rightarrow> bool" where
  "passes_gate api st req m \<longleftrightarrow> hr_verb req = Http_post \<and> (\<exists>j. parse_peer_json (j_parse api) (hr_body req) = Some j
     \<and> j_is_object api j \<and> check_protocol_version api (ht_protocol st) req j = None
     \<and> (if is_sessionless_discover api req j then \<exists>sentinel. m = j_dump api (j_put api j ''id'' (j_of_string api sentinel))
        else validate_post_session req st = None \<and> m = hr_body req))"

definition authenticated :: "HttpConfig \<Rightarrow> HttpRequest \<Rightarrow> bool option \<Rightarrow> bool" where
  "authenticated c req verdict \<longleftrightarrow> (case hc_validator c of
     No_validator \<Rightarrow> True
   | Sync_validator v \<Rightarrow> request_bearer_token req \<noteq> [] \<and> v (request_bearer_token req) = Some True
   | Async_validator \<Rightarrow> request_bearer_token req \<noteq> [] \<and> verdict = Some True)"

lemma wait_pass_queue: "ht_queue (snd (wait_pass api req key st)) = ht_queue st"
  by (simp add: wait_pass_def consume_pending_response_def Let_def split: option.split)

lemma register_queue: "register_pending_request i key c st = Some st' \<Longrightarrow> ht_queue st' = ht_queue st"
  by (auto simp: register_pending_request_def split: if_splits)

lemma sentinel_queue: "next_sentinel_request_id random st = (sentinel, st1) \<Longrightarrow> ht_queue st1 = ht_queue st"
  by (auto simp: next_sentinel_request_id_def Let_def split: if_splits)

lemma admit_request_queue:
  "ht_queue (snd (admit_request api random i req sessionless j rid st)) = ht_queue st
   \<or> (\<exists>m. ht_queue (snd (admit_request api random i req sessionless j rid st)) = ht_queue st @ [m]
        \<and> (if sessionless then \<exists>sentinel. m = j_dump api (j_put api j ''id'' (j_of_string api sentinel)) else m = hr_body req))"
proof (cases sessionless)
  case False
  then show ?thesis
    by (auto simp: admit_request_def Let_def wait_pass_queue enqueue_incoming_message_def dest: register_queue split: option.split)
next
  case True
  obtain sentinel st1 where n: "next_sentinel_request_id random st = (sentinel, st1)" by (metis surj_pair)
  from True show ?thesis
    by (auto simp: admit_request_def n Let_def wait_pass_queue enqueue_incoming_message_def sentinel_queue [OF n]
      dest: register_queue split: option.split)
qed

lemma dispatch_queue:
  assumes "ht_queue (snd (dispatch_verb api random i req st)) \<noteq> ht_queue st"
  shows "\<exists>m. ht_queue (snd (dispatch_verb api random i req st)) = ht_queue st @ [m] \<and> passes_gate api st req m"
proof -
  have post: "hr_verb req = Http_post"
    using assms by (auto simp: dispatch_verb_def handle_delete_def terminate_session_def split: Verb.splits option.splits if_splits)
  then have d: "dispatch_verb api random i req st = handle_post api random i req st" by (simp add: dispatch_verb_def)
  with assms obtain j where j: "parse_peer_json (j_parse api) (hr_body req) = Some j" "j_is_object api j"
      "check_protocol_version api (ht_protocol st) req j = None"
    by (auto simp: handle_post_def split: option.splits if_splits)
  then have h: "handle_post api random i req st = post_json api random i req j st" by (simp add: handle_post_def)
  show ?thesis
  proof (cases "is_sessionless_discover api req j")
    case True
    then obtain rid where "j_find api j ''id'' = Some rid" "answerable_id api rid" "j_find api j ''method'' \<noteq> None"
      by (auto simp: is_sessionless_discover_def is_discover_request_def has_text_method_def split: option.splits)
    then have "post_json api random i req j st = admit_request api random i req True j rid st"
      using True by (auto simp: post_json_def)
    with admit_request_queue [of api random i req True j rid st] assms d h j post True show ?thesis
      by (auto simp: passes_gate_def)
  next
    case False
    then have v: "validate_post_session req st = None" using assms d h by (auto simp: post_json_def split: option.splits)
    have "ht_queue (snd (post_json api random i req j st)) = ht_queue st
      \<or> ht_queue (snd (post_json api random i req j st)) = ht_queue st @ [hr_body req]"
      using False v admit_request_queue [of api random i req False j _ st]
      by (auto simp: post_json_def enqueue_incoming_message_def split: option.split)
    with assms d h j post False v show ?thesis by (auto simp: passes_gate_def)
  qed
qed

lemma settle_queue [simp]: "ht_queue (settle i req (outcome, st)) = ht_queue st"
  by (simp add: settle_def)

lemma settle_queue' [simp]: "ht_queue (settle i req r) = ht_queue (snd r)"
  by (cases r) simp

lemma validate_post_session_exchanges [simp]:
  "validate_post_session req (st\<lparr>ht_exchanges := exs\<rparr>) = validate_post_session req st"
  by (cases "ht_session st") (simp_all add: validate_post_session_def)

lemma passes_gate_exchanges [simp]: "passes_gate api (st\<lparr>ht_exchanges := exs\<rparr>) req m = passes_gate api st req m"
  by (simp add: passes_gate_def)

lemma handle_request_queue:
  assumes "ht_queue (snd (handle_request api random i req st)) \<noteq> ht_queue st"
  shows "\<exists>m. ht_queue (snd (handle_request api random i req st)) = ht_queue st @ [m] \<and> passes_gate api st req m
    \<and> \<not> ht_closed st \<and> check_origin api (ht_config st) req = None \<and> \<not> is_unauthenticated_path (ht_config st) req
    \<and> authenticated (ht_config st) req None"
proof -
  let ?c = "ht_config st"
  have d: "handle_request api random i req st = dispatch_verb api random i req st" and op: "\<not> ht_closed st"
    and path: "\<not> is_unauthenticated_path ?c req"
    and checks: "hr_verb req = Http_other \<or> check_origin api ?c req = None \<and> check_authorization api ?c req = None \<and> hc_validator ?c \<noteq> Async_validator"
    using assms by (auto simp: handle_request_def Let_def split: option.splits if_splits)
  with assms obtain m where m: "ht_queue (snd (dispatch_verb api random i req st)) = ht_queue st @ [m]" "passes_gate api st req m"
    using dispatch_queue by metis
  then have "check_origin api ?c req = None" "check_authorization api ?c req = None" "hc_validator ?c \<noteq> Async_validator"
    using checks by (auto simp: passes_gate_def)
  moreover from this have "authenticated ?c req None"
    by (auto simp: authenticated_def check_authorization_def verdict_response_def Let_def split: Validator.splits if_splits option.splits)
  ultimately show ?thesis using d op path m by metis
qed

text \<open>C8: Nothing reaches the server unchecked: whenever a message joins the queue, it comes from one request whose
  origin is allowed, whose path is not exempt from authentication, whose bearer token the installed validator
  accepted, whose protocol version was accepted, and which names exactly the current session (or none when
  there is none); the one exception is a \<open>server/discover\<close> without a session, whose id is replaced.\<close>

theorem only_checked_requests_enter:
  assumes "transport_reachable api random st" and "transport_step api random st st'" and "length (ht_queue st) < length (ht_queue st')"
  shows "\<exists>req m verdict j. ht_queue st' = ht_queue st @ [m]
    \<and> (st' = receive_request api random req st \<and> \<not> ht_closed st
       \<or> (\<exists>i < length (ht_exchanges st). ht_exchanges st ! i = Ex_checking req \<and> st' = resume_check api random i req verdict st))
    \<and> hr_verb req = Http_post \<and> check_origin api (ht_config st) req = None \<and> \<not> is_unauthenticated_path (ht_config st) req
    \<and> authenticated (ht_config st) req verdict
    \<and> parse_peer_json (j_parse api) (hr_body req) = Some j \<and> check_protocol_version api (ht_protocol st) req j = None
    \<and> (hr_session req = ht_session st \<and> m = hr_body req
       \<or> is_sessionless_discover api req j \<and> (\<exists>sentinel. m = j_dump api (j_put api j ''id'' (j_of_string api sentinel))))"
proof -
  let ?c = "ht_config st"
  have inv: "transport_inv api st" by (rule transport_reachable_inv [OF assms(1)])
  have grew: "ht_queue st' \<noteq> ht_queue st" using assms(3) by auto
  have gate: "\<exists>j. parse_peer_json (j_parse api) (hr_body req) = Some j \<and> check_protocol_version api (ht_protocol st) req j = None
    \<and> hr_verb req = Http_post \<and> (hr_session req = ht_session st \<and> m = hr_body req
       \<or> is_sessionless_discover api req j \<and> (\<exists>sentinel. m = j_dump api (j_put api j ''id'' (j_of_string api sentinel))))"
    if "passes_gate api st req m" for req m
  proof -
    have "validate_post_session req st = None \<Longrightarrow> hr_session req = ht_session st"
      using inv by (auto simp: validate_post_session_def transport_inv_def session_ok_def split: option.splits if_splits)
    with that show ?thesis unfolding passes_gate_def by (metis (full_types))
  qed
  from assms(2,3) show ?thesis
  proof (cases rule: transport_step.cases)
    case (received req)
    let ?st = "st\<lparr>ht_exchanges := ht_exchanges st @ [Ex_dropped req]\<rparr>" and ?i = "length (ht_exchanges st)"
    have "ht_queue st' = ht_queue (snd (handle_request api random ?i req ?st))"
      using received assms(3) by (auto simp: receive_request_def Let_def split: if_splits)
    then obtain m where m: "ht_queue st' = ht_queue st @ [m]" "passes_gate api ?st req m" "\<not> ht_closed st"
        "check_origin api ?c req = None" "\<not> is_unauthenticated_path ?c req" "authenticated ?c req None"
      using handle_request_queue [of api random ?i req ?st] grew by auto
    have "passes_gate api st req m" using m(2) by simp
    from gate [OF this] m received show ?thesis by blast
  next
    case (checked i req verdict)
    have ask: "check_origin api ?c req = None" "hc_validator ?c = Async_validator" "request_bearer_token req \<noteq> []"
        "\<not> is_unauthenticated_path ?c req"
      using inv checked(2,3) unfolding transport_inv_def asking_ok_def by blast+
    have v: "verdict_response api ?c req verdict = None" and q: "ht_queue st' = ht_queue (snd (dispatch_verb api random i req st))"
      using checked assms(3) by (auto simp: resume_check_def split: option.splits)
    then obtain m where m: "ht_queue st' = ht_queue st @ [m]" "passes_gate api st req m"
      using dispatch_queue [of api random i req st] grew by auto
    have "authenticated ?c req verdict" using ask v by (auto simp: authenticated_def verdict_response_def split: option.splits if_splits)
    with gate [OF m(2)] m ask checked show ?thesis by blast
  next
    case (woken i req key)
    then have "ht_queue st' = ht_queue st" by (simp add: resume_wait_def wait_pass_queue)
    with assms(3) show ?thesis by simp
  next
    case (written m)
    then have "ht_queue st' = ht_queue st"
      by (auto simp: run_write_def answer_pending_def Let_def case_prod_unfold split: option.splits if_splits)
    with assms(3) show ?thesis by simp
  qed (auto simp: configure_def bindE_def begin_listening_def set_json_only_def start_read_def read_pass_def close_transport_def
      sweep_closed_def split: if_splits sum.splits list.splits)
qed


subsection \<open>Answers\<close>

lemma run_write_ignored:
  "run_write api random m st = Inr st' \<Longrightarrow> \<nexists>j. j_parse api m = Some j \<and> j_is_object api j \<Longrightarrow> st' = st"
  by (cases "ht_closed st"; cases "j_parse api m") (simp_all add: run_write_def)

lemma recorded_frame:
  "recorded api m j st = (event_id, st1) \<Longrightarrow> st1 = st\<lparr>ht_events := ht_events st1\<rparr>
     \<and> (\<not> records_event api j (answer_key api j) st \<longrightarrow> event_id = None \<and> st1 = st)"
  by (auto simp: recorded_def split: if_splits)

text \<open>C9: An answer reaches the request it is for. A message of the server with the id of a waiting request wakes its
  exchange, which answers 200 with exactly that message, as a document or as one event, and forgets the entry;
  no other entry changes. A request that came without a session gets its own id back and leaves nothing in
  the replay store; an initialize result is answered with the session it establishes.\<close>

theorem http_answer_reaches_caller:
  assumes "transport_reachable api random st" and "\<not> ht_closed st" and "i < length (ht_exchanges st)"
    and "ht_exchanges st ! i = Ex_waiting req key" and "ht_pending st key = Some p" and "\<not> pd_session_ended p"
    and "j_parse api m = Some j" and "j_is_object api j" and "answer_key api j = Some key"
  shows "\<exists>st' r. run_write api random m st = Inr st' \<and> signalled i key st'
    \<and> ht_exchanges (resume_wait api i req key st') ! i = Ex_answered req r \<and> rs_status r = 200
    \<and> (case pd_client_id p of
         None \<Rightarrow> rs_body r = m \<or> (\<exists>event_id. rs_body r = sse_text [(event_id, m)])
       | Some rid \<Rightarrow> rs_body r = j_dump api (j_put api j ''id'' rid) \<and> ht_events st' = ht_events st)
    \<and> (is_initialize_result_response api j \<longrightarrow> ht_session st' \<noteq> None \<and> rs_session r = ht_session st')
    \<and> ht_pending (resume_wait api i req key st') = (ht_pending st)(key := None)"
proof -
  have inv: "transport_inv api st" by (rule transport_reachable_inv [OF assms(1)])
  have timer: "pd_timer p = i" using entry_of_waiter [OF inv assms(3,4)] assms(5) by simp
  obtain event_id st1 where r: "recorded api m j st = (event_id, st1)" by (metis surj_pair)
  note f = recorded_frame [OF r]
  define st2 where "st2 = (if is_initialize_result_response api j then establish_session api random j st1 else st1)"
  define body where "body = (case pd_client_id p of None \<Rightarrow> m | Some rid \<Rightarrow> j_dump api (j_put api j ''id'' rid))"
  define p' where "p' = p\<lparr>pd_body := Some body, pd_event_id := event_id, pd_ready := True, pd_signalled := True,
      pd_session_header := (if is_initialize_result_response api j then ht_session st2 else pd_session_header p)\<rparr>"
  define st' where "st' = st2\<lparr>ht_pending := (ht_pending st)(key \<mapsto> p')\<rparr>"
  have st1: "ht_pending st1 = ht_pending st" "ht_exchanges st1 = ht_exchanges st" "ht_closed st1 = ht_closed st"
      "ht_json_only st1 = ht_json_only st" by (subst conjunct1 [OF f], simp)+
  have st2: "ht_pending st2 = ht_pending st" "ht_exchanges st2 = ht_exchanges st" "ht_closed st2 = ht_closed st"
      "ht_events st2 = ht_events st1" by (simp_all add: st2_def st1)
  have ap: "answer_pending api random j m key event_id p st1 = st'"
    unfolding answer_pending_def Let_def st2_def [symmetric] body_def [symmetric] st2(1) st'_def p'_def ..
  have w: "run_write api random m st = Inr st'"
    using run_write_open [OF assms(2,7,8)] r assms(5,9) ap by simp
  have p'_key: "ht_pending st' key = Some p'" by (simp add: st'_def)
  have sig: "signalled i key st'" using timer by (simp add: signalled_def p'_key p'_def)
  let ?r = "answer_response api req (ht_json_only st') (Some body, pd_session_header p', event_id, False)"
  have "fst (consume_pending_response key st') = (Some body, pd_session_header p', event_id, False)"
    using assms(6) by (simp add: consume_pending_response_def p'_key p'_def)
  moreover have st'_ok: "i < length (ht_exchanges st')" "ht_exchanges st' ! i = Ex_waiting req key" "\<not> ht_closed st'" "transport_inv api st'"
    using assms(2-4) run_write_inv [OF inv w] by (simp_all add: st'_def st2)
  ultimately have e: "ht_exchanges (resume_wait api i req key st') ! i = Ex_answered req ?r"
      "ht_pending (resume_wait api i req key st') = (ht_pending st)(key := None)"
    using resume_wait_finishes [OF st'_ok(4,1,2) sig] by (auto simp: consume_pending_response_def p'_key) (simp add: st'_def)
  have status: "rs_status ?r = 200" "rs_session ?r = pd_session_header p'" "rs_body ?r = body \<or> (\<exists>event_id. rs_body ?r = sse_text [(event_id, body)])"
    by (auto simp: answer_response_def make_sse_response_def make_sse_replay_response_def make_json_response_def split: option.split)
  have session: "is_initialize_result_response api j \<Longrightarrow> ht_session st' \<noteq> None \<and> rs_session ?r = ht_session st'"
    unfolding status(2) by (simp add: p'_def st'_def st2_def)
  have foreign: "rs_body ?r = j_dump api (j_put api j ''id'' rid) \<and> ht_events st' = ht_events st" if rid: "pd_client_id p = Some rid" for rid
  proof -
    have "key \<in> set (ht_sessionless st)" using inv assms(5) rid unfolding transport_inv_def entries_ok_def by blast
    then have "event_id = None" "st1 = st" using f assms(9) by (simp_all add: records_event_def)
    with rid show ?thesis by (simp add: answer_response_def make_json_response_def body_def st'_def st2)
  qed
  have "pd_client_id p = None \<Longrightarrow> body = m" by (simp add: body_def)
  with w sig e status session foreign show ?thesis by (intro exI [of _ st'] exI [of _ ?r]) (auto split: option.split)
qed

text \<open>C11: The end of a session releases everyone in it: a DELETE that names the session answers 200, forgets the
  session and its replay history, and wakes every exchange that awaits an answer, which answers 404
  instead of waiting for an answer that will not come.\<close>

theorem session_end_releases:
  assumes "transport_reachable api random st" and "\<not> ht_closed st" and "ht_session st = Some session" and "hr_session req = Some session"
    and "check_protocol_version api (ht_protocol st) req (j_of_list api (map (j_of_string api) [''method'', ''delete''])) = None"
    and "i < length (ht_exchanges st)" and "ht_exchanges st ! i = Ex_waiting req' key"
  shows "\<exists>st'. handle_delete api req st = (Responded (make_json_response req 200 ''{}''), st')
    \<and> ht_session st' = None \<and> \<not> ht_active st' \<and> ht_awaiting_next st' \<and> es_events (ht_events st') = []
    \<and> ht_terminated st' = ht_terminated st + 1 \<and> signalled i key st'
    \<and> ht_exchanges (resume_wait api i req' key st') ! i = Ex_answered req' (make_error_response api req' 404 ''Session terminated'')"
proof -
  have inv: "transport_inv api st" by (rule transport_reachable_inv [OF assms(1)])
  have active: "ht_active st" "\<not> ht_swept st" using inv assms(2,3) by (auto simp: transport_inv_def session_ok_def)
  then obtain p where p: "ht_pending st key = Some p" "pd_timer p = i"
    using entry_of_waiter [OF inv assms(6,7)] by (auto split: option.splits)
  let ?st = "terminate_session st"
  have h: "handle_delete api req st = (Responded (make_json_response req 200 ''{}''), ?st)"
    using assms(3-5) by (simp add: handle_delete_def validate_delete_session_def)
  have c: "ht_closed ?st = ht_closed st" by (simp add: terminate_session_def)
  have sig: "signalled i key ?st" using active p by (simp add: signalled_def terminate_session_def)
  have ended: "snd (snd (snd (fst (consume_pending_response key ?st))))"
    using active p by (simp add: consume_pending_response_def terminate_session_def)
  have "ht_exchanges (resume_wait api i req' key ?st) ! i = Ex_answered req' (make_error_response api req' 404 ''Session terminated'')"
    using resume_wait_finishes [OF terminate_inv [OF inv], of i req' key] assms(2,6,7) sig ended c
    by (auto simp: answer_response_def case_prod_unfold)
  with h sig active show ?thesis by (simp add: terminate_session_def clear_store_def)
qed

definition same_replay :: "'j HttpServer \<Rightarrow> 'j HttpServer \<Rightarrow> bool" where
  "same_replay st st' \<longleftrightarrow> ht_events st' = ht_events st \<and> ht_awaiting_next st' = ht_awaiting_next st"

lemma same_replay_refl [simp]: "same_replay st st"
  by (simp add: same_replay_def)

lemma wait_pass_replay: "same_replay st (snd (wait_pass api req key st))"
  by (simp add: same_replay_def wait_pass_def consume_pending_response_def Let_def split: option.split)

lemma settle_replay: "same_replay st (snd r) \<Longrightarrow> same_replay st (settle i req r)"
  by (cases r) (simp add: same_replay_def settle_def)

lemma register_replay: "register_pending_request i key c st = Some st' \<Longrightarrow> same_replay st st'"
  by (auto simp: register_pending_request_def same_replay_def split: if_splits)

lemma sentinel_replay: "next_sentinel_request_id random st = (sentinel, st1) \<Longrightarrow> same_replay st st1"
  by (auto simp: next_sentinel_request_id_def same_replay_def Let_def split: if_splits)

lemma admit_request_replay: "same_replay st (snd (admit_request api random i req sessionless j rid st))"
proof -
  obtain sentinel st1 where n: "next_sentinel_request_id random st = (sentinel, st1)" by (metis surj_pair)
  have w: "same_replay st (snd (wait_pass api req key (enqueue_incoming_message m st2)))" if "same_replay st st2" for key m st2
    using wait_pass_replay [of "enqueue_incoming_message m st2" api req key] that by (simp add: same_replay_def enqueue_incoming_message_def)
  show ?thesis
    using sentinel_replay [OF n]
    by (auto simp: admit_request_def n Let_def same_replay_def intro!: w [unfolded same_replay_def] dest: register_replay [unfolded same_replay_def]
      split: option.split)
qed

lemma dispatch_replay: "\<not> ht_active st \<Longrightarrow> same_replay st (snd (dispatch_verb api random i req st))"
proof -
  assume a: "\<not> ht_active st"
  have p: "same_replay st (snd (handle_post api random i req st))"
    using admit_request_replay [of st api random i req]
    by (auto simp: handle_post_def post_json_def enqueue_incoming_message_def same_replay_def split: option.split)
  have "same_replay st (snd (handle_delete api req st))"
    using a by (auto simp: handle_delete_def terminate_session_def same_replay_def split: option.split)
  with p show ?thesis by (auto simp: dispatch_verb_def split: Verb.split)
qed

lemma handle_request_replay: "\<not> ht_active st \<Longrightarrow> same_replay st (snd (handle_request api random i req st))"
  using dispatch_replay by (auto simp: handle_request_def Let_def split: option.split)

text \<open>C12: Nothing is recorded between two sessions: after a DELETE has ended one, every step leaves the replay store as
  it is and the transport awaiting, until the server writes an initialize result.\<close>

theorem nothing_recorded_between_sessions:
  assumes "transport_reachable api random st" and "transport_step api random st st'" and "ht_awaiting_next st"
  shows "ht_events st' = ht_events st \<and> ht_awaiting_next st'
    \<or> (\<exists>m j. run_write api random m st = Inr st' \<and> j_parse api m = Some j \<and> is_initialize_result_response api j)"
proof -
  have idle: "\<not> ht_active st" using transport_reachable_inv [OF assms(1)] assms(3) by (auto simp: transport_inv_def session_ok_def)
  have settled: "same_replay st st' \<Longrightarrow> ?thesis" using assms(3) by (simp add: same_replay_def)
  from assms(2) show ?thesis
  proof (cases rule: transport_step.cases)
    case (received req)
    let ?st = "st\<lparr>ht_exchanges := ht_exchanges st @ [Ex_dropped req]\<rparr>" and ?i = "length (ht_exchanges st)"
    have "same_replay ?st (settle ?i req (handle_request api random ?i req ?st))"
      using idle by (intro settle_replay handle_request_replay) simp
    then have "same_replay st st'" using received by (simp add: receive_request_def Let_def same_replay_def)
    then show ?thesis by (rule settled)
  next
    case (checked i req verdict)
    then have "same_replay st st'"
      using settle_replay [OF dispatch_replay [OF idle], of i req api random] settle_replay [of st "(Responded _, st)" i req]
      by (simp add: resume_check_def split: option.split)
    then show ?thesis by (rule settled)
  next
    case (woken i req key)
    then have "same_replay st st'" using settle_replay [OF wait_pass_replay] by (simp add: resume_wait_def)
    then show ?thesis by (rule settled)
  next
    case (written m)
    show ?thesis
    proof (cases "\<exists>j. j_parse api m = Some j \<and> j_is_object api j \<and> \<not> is_initialize_result_response api j")
      case True
      then obtain j where j: "j_parse api m = Some j" "j_is_object api j" "\<not> is_initialize_result_response api j" by blast
      have op: "\<not> ht_closed st" using written by (auto simp: run_write_def)
      have "recorded api m j st = (None, st)" using j(3) assms(3) by (simp add: recorded_def records_event_def)
      then have "same_replay st st'" using written run_write_open [OF op j(1,2)] j(3)
        by (auto simp: same_replay_def answer_pending_def Let_def split: option.splits)
      then show ?thesis by (rule settled)
    next
      case False
      then have "(\<exists>j. j_parse api m = Some j \<and> is_initialize_result_response api j) \<or> st' = st"
        using run_write_ignored [OF written] by blast
      then show ?thesis using written settled by (elim disjE exE) (blast, simp)
    qed
  qed (use settled in \<open>auto simp: same_replay_def configure_def bindE_def begin_listening_def set_json_only_def start_read_def
      read_pass_def close_transport_def sweep_closed_def split: if_splits sum.splits list.splits\<close>)
qed

text \<open>C13: After \<open>close\<close> nobody waits: every exchange that awaited an answer wakes and its connection is dropped, every
  later request is dropped, and a read delivers what is queued and then fails instead of waiting.\<close>

theorem close_releases:
  assumes "transport_reachable api random st" and "ht_swept st"
  shows "(i < length (ht_exchanges st) \<and> ht_exchanges st ! i = Ex_waiting req key \<longrightarrow>
       signalled i key st \<and> ht_exchanges (resume_wait api i req key st) ! i = Ex_dropped req)
    \<and> (length (hr_body req) \<le> hc_max_request_body_bytes (ht_config st) \<longrightarrow>
       ht_exchanges (receive_request api random req st) = ht_exchanges st @ [Ex_dropped req])
    \<and> fst (read_pass st) = Some (case ht_queue st of [] \<Rightarrow> Inl ''HttpServerTransport is closed'' | m # queue \<Rightarrow> Inr m)
    \<and> run_write api random m st = Inl ''HttpServerTransport is closed''"
proof -
  have inv: "transport_inv api st" by (rule transport_reachable_inv [OF assms(1)])
  then have c: "ht_closed st" "ht_pending st k = None" for k using assms(2) by (simp_all add: transport_inv_def session_ok_def)
  then have sig: "signalled i key st" by (simp add: signalled_def)
  have "ht_exchanges (resume_wait api i req key st) ! i = Ex_dropped req"
    if "i < length (ht_exchanges st)" "ht_exchanges st ! i = Ex_waiting req key"
    using resume_wait_finishes [OF inv that sig] that c by auto
  moreover have "fst (read_pass st) = Some (case ht_queue st of [] \<Rightarrow> Inl ''HttpServerTransport is closed'' | m # queue \<Rightarrow> Inr m)"
    using c by (simp add: read_pass_def split: list.split)
  moreover have "run_write api random m st = Inl ''HttpServerTransport is closed''" using c by (simp add: run_write_def)
  ultimately show ?thesis using sig c by (simp add: receive_request_def Let_def)
qed


subsection \<open>The queue of incoming messages\<close>

definition take_incoming :: "'j HttpServer \<Rightarrow> string option \<times> 'j HttpServer" where
  "take_incoming st =
     (case read_pass st of (r, st') \<Rightarrow> (case r of Some (Inr m) \<Rightarrow> Some m | _ \<Rightarrow> None, st'))"

interpretation incoming_queue: message_queue ht_queue "\<lambda>st. True" enqueue_incoming_message take_incoming
  by unfold_locales (simp_all add: enqueue_incoming_message_def take_incoming_def read_pass_def)

text \<open>The server reads the messages in the order in which requests brought them, even those still queued at the close.\<close>

lemma incoming_fifo:
  "take_messages take_incoming (length (ht_queue st) + length ms) (put_messages enqueue_incoming_message ms st)
     = map Some (ht_queue st) @ map Some ms"
  by (rule incoming_queue.fifo) simp

end
