(* ===== verification/SessionManagerProps.thy ===== *)
theory SessionManagerProps
  imports SessionManager HttpServerProps
begin

text \<open>
  What the HTTP session manager keeps: an exchange gets answers of its own session only, no wake-up is
  lost between the strands, and a session that was deleted stays deleted.
\<close>

subsection \<open>The invariant\<close>

definition names_session :: "'j JsonApi \<Rightarrow> 'j SessionRuntime list \<Rightarrow> HttpRequest \<Rightarrow> nat \<Rightarrow> bool" where
  "names_session api rts req n \<longleftrightarrow> n < length rts \<and>
     (hr_session req = Some (sr_id (rts ! n))
      \<or> hr_session req = None \<and> (\<exists>j. parse_peer_json (j_parse api) (hr_body req) = Some j \<and> is_initialize_request api j))"

definition owns_entry :: "'j SessionRuntime list \<Rightarrow> nat \<Rightarrow> string \<Rightarrow> nat \<Rightarrow> bool" where
  "owns_entry rts n key i \<longleftrightarrow> (\<exists>p. map_of (sr_pending (rts ! n)) key = Some p \<and> sp_timer p = i)"

text \<open>A waiter whose entry is not marked still has a reader; one whose entry is marked has a signal under way.\<close>

definition watched :: "'j SessionRuntime list \<Rightarrow> nat \<Rightarrow> string \<Rightarrow> bool" where
  "watched rts n key \<longleftrightarrow> (\<forall>p. map_of (sr_pending (rts ! n)) key = Some p \<longrightarrow> sp_ready p \<or> sr_reading (rts ! n))"

definition announced :: "'j SessionRuntime list \<Rightarrow> nat list \<Rightarrow> nat \<Rightarrow> string \<Rightarrow> nat \<Rightarrow> bool" where
  "announced rts signals n key i \<longleftrightarrow> (\<forall>p. map_of (sr_pending (rts ! n)) key = Some p \<longrightarrow> sp_ready p \<longrightarrow> i \<in> set signals)"

definition exchange_ok :: "'j JsonApi \<Rightarrow> 'j SessionRuntime list \<Rightarrow> nat list \<Rightarrow> nat \<Rightarrow> 'j ManagerExchange \<Rightarrow> bool" where
  "exchange_ok api rts signals i ex \<longleftrightarrow>
     (case ex of
        Mx_resolved req j n \<Rightarrow> names_session api rts req n
      | Mx_writing req j n key \<Rightarrow> names_session api rts req n \<and> (case key of None \<Rightarrow> True | Some k \<Rightarrow> owns_entry rts n k i)
      | Mx_looking req n key \<Rightarrow> names_session api rts req n \<and> owns_entry rts n key i \<and> watched rts n key
      | Mx_asleep req n key \<Rightarrow> names_session api rts req n \<and> owns_entry rts n key i \<and> watched rts n key \<and> announced rts signals n key i
      | Mx_destroying req n released \<Rightarrow> n < length rts
      | _ \<Rightarrow> True)"

text \<open>Everything a session has for its clients was written by its server.\<close>

definition entry_from :: "string set \<Rightarrow> SessionPending \<Rightarrow> bool" where
  "entry_from written p \<longleftrightarrow> (\<forall>b. sp_body p = Some b \<longrightarrow> b \<in> written) \<and> snd ` set (sp_events p) \<subseteq> written"

definition runtime_ok :: "'j SessionRuntime \<Rightarrow> bool" where
  "runtime_ok rt \<longleftrightarrow> (sr_reading rt \<or> sr_closed rt)
     \<and> (\<forall>key p. map_of (sr_pending rt) key = Some p \<longrightarrow> entry_from (set (sr_outbox rt)) p)
     \<and> snd ` set (sr_unassigned rt) \<subseteq> set (sr_outbox rt) \<and> snd ` set (es_events (sr_events rt)) \<subseteq> set (sr_outbox rt)"

definition table_ok :: "(nat \<Rightarrow> string) \<Rightarrow> 'j Manager \<Rightarrow> bool" where
  "table_ok random st \<longleftrightarrow> sm_drawn st = length (sm_runtimes st)
     \<and> (\<forall>n < length (sm_runtimes st). runtime_ok (sm_runtimes st ! n) \<and> sr_id (sm_runtimes st ! n) = random n)
     \<and> (\<forall>session_id n. (session_id, n) \<in> set (sm_sessions st) \<longrightarrow> n < length (sm_runtimes st) \<and> session_id = random n)
     \<and> distinct (map fst (sm_sessions st))
     \<and> (\<forall>(n, released) \<in> set (sm_dying st). n < length (sm_runtimes st))"

definition manager_inv :: "'j JsonApi \<Rightarrow> (nat \<Rightarrow> string) \<Rightarrow> 'j Manager \<Rightarrow> bool" where
  "manager_inv api random st \<longleftrightarrow> table_ok random st
     \<and> (\<forall>i < length (sm_exchanges st). exchange_ok api (sm_runtimes st) (sm_signals st) i (sm_exchanges st ! i))"

lemma entry_from_ready [simp]: "entry_from written (p\<lparr>sp_ready := r\<rparr>) = entry_from written p"
  by (simp add: entry_from_def)

lemma entry_from_mono: "entry_from written p \<Longrightarrow> written \<subseteq> written' \<Longrightarrow> entry_from written' p"
  by (auto simp: entry_from_def)

lemma entry_from_new [simp]: "entry_from written \<lparr>sp_timer = i, sp_body = None, sp_events = [], sp_ready = r\<rparr>"
  by (simp add: entry_from_def)

subsection \<open>What other strands may do to an exchange\<close>

definition runtime_le :: "nat \<Rightarrow> nat list \<Rightarrow> 'j SessionRuntime \<Rightarrow> 'j SessionRuntime \<Rightarrow> bool" where
  "runtime_le i signals rt rt' \<longleftrightarrow> sr_id rt' = sr_id rt \<and>
     (\<forall>key p. map_of (sr_pending rt) key = Some p \<longrightarrow> sp_timer p = i \<longrightarrow>
        (\<exists>p'. map_of (sr_pending rt') key = Some p' \<and> sp_timer p' = i \<and> (sp_ready p \<longrightarrow> sp_ready p')
           \<and> (sp_ready p' \<longrightarrow> sp_ready p \<or> i \<in> set signals) \<and> (sr_reading rt \<longrightarrow> sr_reading rt' \<or> sp_ready p')))"

definition runtimes_le :: "nat \<Rightarrow> nat list \<Rightarrow> 'j SessionRuntime list \<Rightarrow> 'j SessionRuntime list \<Rightarrow> bool" where
  "runtimes_le i signals rts rts' \<longleftrightarrow> length rts \<le> length rts' \<and> (\<forall>n < length rts. runtime_le i signals (rts ! n) (rts' ! n))"

lemma runtime_le_refl [simp]: "runtime_le i signals rt rt"
  by (auto simp: runtime_le_def)

lemma runtimes_le_refl [simp]: "runtimes_le i signals rts rts"
  by (simp add: runtimes_le_def)

lemma runtimes_le_update:
  "runtime_le i signals (rts ! n) rt \<Longrightarrow> runtimes_le i signals rts (rts[n := rt])"
  unfolding runtimes_le_def by (metis length_list_update nth_list_update_eq nth_list_update_neq order_refl runtime_le_refl)

lemma runtimes_le_append: "runtimes_le i signals rts (rts @ rts')"
  by (simp add: runtimes_le_def nth_append)

lemma names_session_mono: "names_session api rts req n \<Longrightarrow> runtimes_le i signals rts rts' \<Longrightarrow> names_session api rts' req n"
  by (auto simp: names_session_def runtimes_le_def runtime_le_def)

lemma entry_mono:
  assumes "runtimes_le i signals rts rts'" "n < length rts" "owns_entry rts n key i"
  shows "owns_entry rts' n key i" and "watched rts n key \<Longrightarrow> watched rts' n key"
    and "announced rts old n key i \<Longrightarrow> set old \<subseteq> set signals \<or> (i \<in> set old \<longrightarrow> i \<in> set signals) \<Longrightarrow> announced rts' signals n key i"
proof -
  obtain p where p: "map_of (sr_pending (rts ! n)) key = Some p" "sp_timer p = i" using assms(3) by (auto simp: owns_entry_def)
  then obtain p' where p': "map_of (sr_pending (rts' ! n)) key = Some p'" "sp_timer p' = i" "sp_ready p \<longrightarrow> sp_ready p'"
      "sp_ready p' \<longrightarrow> sp_ready p \<or> i \<in> set signals" "sr_reading (rts ! n) \<longrightarrow> sr_reading (rts' ! n) \<or> sp_ready p'"
    using assms(1,2) unfolding runtimes_le_def runtime_le_def by blast
  show "owns_entry rts' n key i" using p' by (auto simp: owns_entry_def)
  show "watched rts n key \<Longrightarrow> watched rts' n key" using p p' by (auto simp: watched_def)
  show "announced rts old n key i \<Longrightarrow> set old \<subseteq> set signals \<or> (i \<in> set old \<longrightarrow> i \<in> set signals) \<Longrightarrow> announced rts' signals n key i"
    using p p' by (auto simp: announced_def)
qed

lemma exchange_ok_mono:
  assumes "exchange_ok api rts old i ex" "runtimes_le i signals rts rts'" "i \<in> set old \<longrightarrow> i \<in> set signals"
  shows "exchange_ok api rts' signals i ex"
proof -
  have n: "names_session api rts req n \<Longrightarrow> n < length rts" for req n by (simp add: names_session_def)
  have l: "length rts \<le> length rts'" using assms(2) by (simp add: runtimes_le_def)
  show ?thesis
    using assms(1,3) entry_mono [OF assms(2)] names_session_mono [OF _ assms(2)] n l
    unfolding exchange_ok_def by (auto split: ManagerExchange.splits option.splits)
qed


text \<open>A step of exchange \<open>i\<close> leaves the exchange in \<open>ex\<close> and the rest in \<open>st1\<close>.\<close>

definition good_outcome ::
  "'j JsonApi \<Rightarrow> (nat \<Rightarrow> string) \<Rightarrow> nat \<Rightarrow> 'j Manager \<Rightarrow> 'j ManagerExchange \<times> 'j Manager \<Rightarrow> bool" where
  "good_outcome api random i st r \<longleftrightarrow> (case r of (ex, st1) \<Rightarrow>
     table_ok random st1 \<and> sm_exchanges st1 = sm_exchanges st \<and> set (sm_signals st) \<subseteq> set (sm_signals st1)
     \<and> (\<forall>k. k \<noteq> i \<longrightarrow> runtimes_le k (sm_signals st1) (sm_runtimes st) (sm_runtimes st1))
     \<and> exchange_ok api (sm_runtimes st1) (sm_signals st1) i ex)"

lemma exchange_ok_answered [simp]:
  "exchange_ok api rts signals i (Mx_answered req r)" "exchange_ok api rts signals i (Mx_dropped req)"
  "exchange_ok api rts signals i (Mx_checking req)" "exchange_ok api rts signals i (Mx_direct req)"
  "exchange_ok api rts signals i (Mx_deleting req)"
  by (simp_all add: exchange_ok_def)

lemma good_same: "table_ok random st \<Longrightarrow> exchange_ok api (sm_runtimes st) (sm_signals st) i ex \<Longrightarrow> good_outcome api random i st (ex, st)"
  by (simp add: good_outcome_def)

lemma table_ok_exchanges [simp]: "table_ok random (st\<lparr>sm_exchanges := exs\<rparr>) = table_ok random st"
  by (simp add: table_ok_def)

lemma placed_inv:
  assumes "manager_inv api random st" "i < length (sm_exchanges st)" "good_outcome api random i st r"
  shows "manager_inv api random (place_exchange i req r)"
proof -
  obtain ex st1 where r: "r = (ex, st1)" by (cases r)
  note g = assms(3) [unfolded good_outcome_def r, simplified]
  define ex' where "ex' = (case ex of Mx_answered _ response \<Rightarrow> if sm_closed st1 then Mx_dropped req else ex | _ \<Rightarrow> ex)"
  have p: "place_exchange i req r = st1\<lparr>sm_exchanges := (sm_exchanges st1)[i := ex']\<rparr>" by (simp add: place_exchange_def r ex'_def)
  have e: "exchange_ok api (sm_runtimes st1) (sm_signals st1) i ex'" using g unfolding ex'_def by (cases ex) auto
  have "exchange_ok api (sm_runtimes st1) (sm_signals st1) k (sm_exchanges st1 ! k)"
    if k: "k < length (sm_exchanges st)" "k \<noteq> i" for k
  proof (rule exchange_ok_mono)
    show "exchange_ok api (sm_runtimes st) (sm_signals st) k (sm_exchanges st1 ! k)" using assms(1) g k by (simp add: manager_inv_def)
    show "runtimes_le k (sm_signals st1) (sm_runtimes st) (sm_runtimes st1)" using g k by blast
    show "k \<in> set (sm_signals st) \<longrightarrow> k \<in> set (sm_signals st1)" using g by blast
  qed
  then have "exchange_ok api (sm_runtimes st1) (sm_signals st1) k ((sm_exchanges st1)[i := ex'] ! k)" if "k < length (sm_exchanges st)" for k
    using e g assms(2) that by (cases "k = i") simp_all
  then show ?thesis using g unfolding p by (simp add: manager_inv_def)
qed

lemma environment_inv:
  assumes "manager_inv api random st" "table_ok random st1" "sm_exchanges st1 = sm_exchanges st"
    "set (sm_signals st) \<subseteq> set (sm_signals st1)" "\<And>k. runtimes_le k (sm_signals st1) (sm_runtimes st) (sm_runtimes st1)"
  shows "manager_inv api random st1"
proof -
  have "exchange_ok api (sm_runtimes st1) (sm_signals st1) k (sm_exchanges st1 ! k)" if k: "k < length (sm_exchanges st)" for k
    by (rule exchange_ok_mono [OF _ assms(5)]) (use assms(1,3,4) k in \<open>auto simp: manager_inv_def\<close>)
  then show ?thesis using assms(2,3) by (simp add: manager_inv_def)
qed

subsection \<open>Requests keep the invariant\<close>

lemma new_runtime_ok: "runtime_ok (new_runtime session_id capacity)"
  by (simp add: runtime_ok_def new_runtime_def new_store_def)

lemma create_session_ok:
  assumes "table_ok random st" "create_session random st = (Some n, st1)"
  shows "table_ok random st1 \<and> sm_exchanges st1 = sm_exchanges st \<and> sm_signals st1 = sm_signals st
    \<and> (\<forall>k. runtimes_le k (sm_signals st1) (sm_runtimes st) (sm_runtimes st1)) \<and> n < length (sm_runtimes st1)"
proof -
  let ?rt = "new_runtime (random (sm_drawn st)) (sm_capacity st)"
  have st1: "n = length (sm_runtimes st)" "st1 = st\<lparr>sm_drawn := Suc (sm_drawn st), sm_runtimes := sm_runtimes st @ [?rt],
      sm_sessions := (if find_session (random (sm_drawn st)) st = None then (random (sm_drawn st), n) # sm_sessions st else sm_sessions st)\<rparr>"
    using assms(2) by (auto simp: create_session_def Let_def split: if_splits)
  have "find_session (random (sm_drawn st)) st = None \<Longrightarrow> random (sm_drawn st) \<notin> fst ` set (sm_sessions st)"
    by (simp add: find_session_def map_of_eq_None_iff)
  then have "table_ok random st1"
    using assms(1) new_runtime_ok [of "random (sm_drawn st)" "sm_capacity st"]
    unfolding table_ok_def st1 by (auto simp: nth_append less_Suc_eq new_runtime_def)
  then show ?thesis by (simp add: st1 runtimes_le_append)
qed

lemma find_session_ok: "table_ok random st \<Longrightarrow> find_session session_id st = Some n \<Longrightarrow>
    n < length (sm_runtimes st) \<and> sr_id (sm_runtimes st ! n) = session_id"
  unfolding find_session_def table_ok_def using map_of_SomeD by fastforce

lemma manager_post_good:
  assumes t: "table_ok random st"
  shows "good_outcome api random i st (manager_post api random req st)"
proof -
  have plain: "good_outcome api random i st (Mx_answered req r, st)" "good_outcome api random i st (Mx_direct req, st)" for r
    using good_same [OF t] by simp_all
  have stateless: "good_outcome api random i st (handle_stateless_post api req j st, st)" for j
    using plain by (simp add: handle_stateless_post_def)
  have resolved: "good_outcome api random i st (resolve_session_for_post api random req j st)"
    if j: "parse_peer_json (j_parse api) (hr_body req) = Some j" for j
  proof (cases "hr_session req")
    case None
    show ?thesis
    proof (cases "is_initialize_request api j \<and> \<not> sm_closed st")
      case True
      then obtain n st1 where c: "create_session random st = (Some n, st1)" "is_initialize_request api j" "\<not> sm_closed st"
        by (simp add: create_session_def Let_def)
      then have "exchange_ok api (sm_runtimes st1) (sm_signals st1) i (Mx_resolved req j n)"
        using create_session_ok [OF t c(1)] None j by (auto simp: exchange_ok_def names_session_def)
      moreover have "resolve_session_for_post api random req j st = (Mx_resolved req j n, st1)"
        using c None by (simp add: resolve_session_for_post_def)
      ultimately show ?thesis unfolding good_outcome_def using create_session_ok [OF t c(1)] by auto
    next
      case False
      then have "resolve_session_for_post api random req j st = (Mx_answered req (transport_closed api req), st)
          \<or> (\<exists>r. resolve_session_for_post api random req j st = (Mx_answered req r, st))"
        using None by (auto simp: resolve_session_for_post_def)
      then show ?thesis using plain by auto
    qed
  next
    case (Some session_id)
    have "exchange_ok api (sm_runtimes st) (sm_signals st) i (Mx_resolved req j n)" if "find_session session_id st = Some n" for n
      using find_session_ok [OF t that] Some by (simp add: exchange_ok_def names_session_def)
    then show ?thesis using Some plain good_same [OF t] by (simp add: resolve_session_for_post_def split: option.split)
  qed
  show ?thesis unfolding manager_post_def using plain stateless resolved by (simp split: option.split)
qed

lemma admitted_request_good:
  assumes "table_ok random st"
  shows "good_outcome api random i st (admitted_request api random req st)"
proof -
  have plain: "good_outcome api random i st (Mx_answered req r, st)" "good_outcome api random i st (Mx_deleting req, st)" for r
    using good_same [OF assms] by simp_all
  have d: "good_outcome api random i st (manager_delete api req st, st)" using plain by (simp add: manager_delete_def split: sum.split)
  show ?thesis unfolding admitted_request_def using plain d manager_post_good [OF assms] by (simp split: option.split Verb.split)
qed

lemma manager_request_good:
  assumes "table_ok random st"
  shows "good_outcome api random i st (manager_request api random req st)"
proof -
  have plain: "good_outcome api random i st (Mx_answered req r, st)" "good_outcome api random i st (Mx_checking req, st)" for r
    using good_same [OF assms] by simp_all
  show ?thesis unfolding manager_request_def Let_def
    using plain admitted_request_good [OF assms] by (simp split: option.split Validator.split)
qed

lemma manager_receive_inv:
  assumes "manager_inv api random st"
  shows "manager_inv api random (manager_receive api random req st)"
proof -
  have app: "manager_inv api random (st\<lparr>sm_exchanges := sm_exchanges st @ [ex]\<rparr>)" if "\<And>i. exchange_ok api (sm_runtimes st) (sm_signals st) i ex" for ex
    using assms that by (auto simp: manager_inv_def nth_append less_Suc_eq)
  let ?st = "st\<lparr>sm_exchanges := sm_exchanges st @ [Mx_dropped req]\<rparr>"
  have "manager_inv api random (place_exchange (length (sm_exchanges st)) req (manager_request api random req ?st))"
    using placed_inv [OF app [of "Mx_dropped req"]] manager_request_good [of random ?st] assms by (simp add: manager_inv_def)
  then show ?thesis using app by (simp add: manager_receive_def Let_def)
qed


lemma set_runtime_simps [simp]:
  "sm_exchanges (set_runtime n rt st) = sm_exchanges st" "sm_signals (set_runtime n rt st) = sm_signals st"
  "sm_runtimes (set_runtime n rt st) = (sm_runtimes st)[n := rt]" "sm_sessions (set_runtime n rt st) = sm_sessions st"
  "sm_dying (set_runtime n rt st) = sm_dying st" "sm_closed (set_runtime n rt st) = sm_closed st" "sm_drawn (set_runtime n rt st) = sm_drawn st"
  "sm_swept (set_runtime n rt st) = sm_swept st" "sm_config (set_runtime n rt st) = sm_config st"
  by (simp_all add: set_runtime_def)

lemma set_runtime_table:
  assumes "table_ok random st" "runtime_ok rt" "sr_id rt = sr_id (sm_runtimes st ! n)"
  shows "table_ok random (set_runtime n rt st)"
proof -
  have "runtime_ok ((sm_runtimes st)[n := rt] ! k) \<and> sr_id ((sm_runtimes st)[n := rt] ! k) = random k" if "k < length (sm_runtimes st)" for k
    using assms that unfolding table_ok_def by (cases "k = n") auto
  then show ?thesis using assms(1) unfolding table_ok_def by simp
qed

lemma table_runtime: "table_ok random st \<Longrightarrow> n < length (sm_runtimes st) \<Longrightarrow> runtime_ok (sm_runtimes st ! n)"
  by (simp add: table_ok_def)

text \<open>Changes that leave the entries and the reader of a session alone.\<close>

lemma runtime_le_pending:
  "sr_id rt' = sr_id rt \<Longrightarrow> sr_pending rt' = sr_pending rt \<Longrightarrow> sr_reading rt' = sr_reading rt \<Longrightarrow> runtime_le k signals rt rt'"
  by (auto simp: runtime_le_def)

lemma names_bound: "names_session api rts req n \<Longrightarrow> n < length rts"
  by (simp add: names_session_def)

lemma register_post_good:
  assumes t: "table_ok random st" and names: "names_session api (sm_runtimes st) req n"
  shows "good_outcome api random i st (register_post api i req j n st)"
proof -
  let ?rt = "sm_runtimes st ! n"
  let ?version = "negotiate_protocol_version (case initialize_protocol_version api j of None \<Rightarrow> latest_protocol_version | Some v \<Rightarrow> v)"
  define rt' where "rt' = (if is_initialize_request api j \<and> hr_session req = None then ?rt\<lparr>sr_protocol := ?version\<rparr> else ?rt)"
  define key where "key = (case j_find api j ''id'' of None \<Rightarrow> [] | Some rid \<Rightarrow> j_dump api rid)"
  let ?p = "\<lparr>sp_timer = i, sp_body = None, sp_events = [], sp_ready = False\<rparr>"
  have n: "n < length (sm_runtimes st)" by (rule names_bound [OF names])
  have rt: "runtime_ok ?rt" by (rule table_runtime [OF t n])
  have rt': "runtime_ok rt'" "sr_id rt' = sr_id ?rt" "sr_pending rt' = sr_pending ?rt" "sr_reading rt' = sr_reading ?rt"
    using rt by (simp_all add: rt'_def runtime_ok_def)
  have t1: "table_ok random (set_runtime n rt' st)" by (rule set_runtime_table [OF t rt'(1,2)])
  have le1: "runtimes_le k signals (sm_runtimes st) ((sm_runtimes st)[n := rt'])" for k signals
    by (rule runtimes_le_update [OF runtime_le_pending [OF rt'(2,3,4)]])
  have names1: "names_session api ((sm_runtimes st)[n := rt']) req n" by (rule names_session_mono [OF names le1])
  have same: "good_outcome api random i st (Mx_answered req r, st)" for r by (rule good_same [OF t]) simp
  have step1: "good_outcome api random i st (Mx_answered req r, set_runtime n rt' st)"
      "good_outcome api random i st (Mx_writing req j n None, set_runtime n rt' st)" for r
    using t1 le1 names1 by (simp_all add: good_outcome_def exchange_ok_def)
  have step2: "good_outcome api random i st (Mx_writing req j n (Some key), set_runtime n (rt'\<lparr>sr_pending := (key, ?p) # sr_pending ?rt\<rparr>) st)"
    if free: "map_of (sr_pending ?rt) key = None"
  proof -
    let ?new = "rt'\<lparr>sr_pending := (key, ?p) # sr_pending ?rt\<rparr>"
    have le: "runtimes_le k signals (sm_runtimes st) ((sm_runtimes st)[n := ?new])" for k signals
      using free rt' by (intro runtimes_le_update) (auto simp: runtime_le_def)
    have "runtime_ok ?new" using rt'(1,3) unfolding runtime_ok_def by auto
    then have "table_ok random (set_runtime n ?new st)" using rt'(2) by (intro set_runtime_table [OF t]) simp_all
    moreover have "owns_entry ((sm_runtimes st)[n := ?new]) n key i" using n by (simp add: owns_entry_def)
    ultimately show ?thesis using le names_session_mono [OF names le] by (simp add: good_outcome_def exchange_ok_def)
  qed
  show ?thesis
    unfolding register_post_def Let_def rt'_def [symmetric] key_def [symmetric] using same step1 step2 by simp
qed

lemma write_to_session_good:
  assumes t: "table_ok random st" and ok: "exchange_ok api (sm_runtimes st) (sm_signals st) i (Mx_writing req j n key)"
  shows "good_outcome api random i st (write_to_session req j n key st)"
proof -
  let ?rt = "sm_runtimes st ! n" let ?new = "?rt\<lparr>sr_inbox := sr_inbox ?rt @ [j]\<rparr>"
  have names: "names_session api (sm_runtimes st) req n" and own: "\<And>k. key = Some k \<Longrightarrow> owns_entry (sm_runtimes st) n k i"
    using ok by (auto simp: exchange_ok_def)
  have n: "n < length (sm_runtimes st)" by (rule names_bound [OF names])
  have rt: "runtime_ok ?rt" by (rule table_runtime [OF t n])
  have le: "runtimes_le k signals (sm_runtimes st) ((sm_runtimes st)[n := ?new])" for k signals
    by (rule runtimes_le_update [OF runtime_le_pending]) simp_all
  have tb: "table_ok random (set_runtime n ?new st)" using rt by (intro set_runtime_table [OF t]) (simp_all add: runtime_ok_def)
  have look: "exchange_ok api ((sm_runtimes st)[n := ?new]) (sm_signals st) i (Mx_looking req n k)" if "key = Some k" "\<not> sr_closed ?rt" for k
    using names_session_mono [OF names le] own [OF that(1)] rt that(2) n by (auto simp: exchange_ok_def owns_entry_def watched_def runtime_ok_def)
  show ?thesis
  proof (cases "sr_closed ?rt")
    case True
    with good_same [OF t] show ?thesis by (simp add: write_to_session_def)
  next
    case False
    with look tb le show ?thesis by (cases key) (simp_all add: write_to_session_def Let_def good_outcome_def)
  qed
qed

lemma forget_entry_good:
  assumes t: "table_ok random st" and n: "n < length (sm_runtimes st)" and own: "owns_entry (sm_runtimes st) n key i"
  shows "good_outcome api random i st (Mx_answered req r, forget_entry n key st)"
proof -
  let ?rt = "sm_runtimes st ! n" let ?new = "?rt\<lparr>sr_pending := AList.delete key (sr_pending ?rt)\<rparr>"
  have m: "map_of (AList.delete key (sr_pending ?rt)) = (map_of (sr_pending ?rt))(key := None)" by (rule delete_conv')
  have "runtime_le k signals ?rt ?new" if "k \<noteq> i" for k signals
    using own that by (auto simp: runtime_le_def m owns_entry_def)
  then have "runtimes_le k signals (sm_runtimes st) ((sm_runtimes st)[n := ?new])" if "k \<noteq> i" for k signals
    using that by (intro runtimes_le_update)
  moreover have "runtime_ok ?new" using table_runtime [OF t n] by (auto simp: runtime_ok_def m)
  then have "table_ok random (set_runtime n ?new st)" by (intro set_runtime_table [OF t]) simp_all
  ultimately show ?thesis by (simp add: good_outcome_def forget_entry_def)
qed

lemma look_for_response_good:
  assumes t: "table_ok random st" and ok: "exchange_ok api (sm_runtimes st) (sm_signals st) i (Mx_looking req n key)"
  shows "good_outcome api random i st (look_for_response api req n key st)"
proof -
  have names: "names_session api (sm_runtimes st) req n" and own: "owns_entry (sm_runtimes st) n key i" and w: "watched (sm_runtimes st) n key"
    using ok by (simp_all add: exchange_ok_def)
  note f = forget_entry_good [OF t names_bound [OF names] own]
  obtain p where p: "map_of (sr_pending (sm_runtimes st ! n)) key = Some p" using own by (auto simp: owns_entry_def)
  have "exchange_ok api (sm_runtimes st) (sm_signals st) i (Mx_asleep req n key)" if "\<not> sp_ready p"
    using names own w p that by (simp add: exchange_ok_def announced_def)
  with f p good_same [OF t] show ?thesis by (simp add: look_for_response_def Let_def)
qed


subsection \<open>The other strands keep the invariant\<close>

lemma runtime_environment:
  assumes inv: "manager_inv api random st" and n: "n < length (sm_runtimes st)"
    and rt: "runtime_ok rt" "sr_id rt = sr_id (sm_runtimes st ! n)"
    and signals: "set (sm_signals st) \<subseteq> set signals" and le: "\<And>k. runtime_le k signals (sm_runtimes st ! n) rt"
  shows "manager_inv api random ((set_runtime n rt st)\<lparr>sm_signals := signals\<rparr>)"
proof (rule environment_inv [OF inv])
  have "table_ok random st" using inv by (simp add: manager_inv_def)
  then have "table_ok random (set_runtime n rt st)" by (rule set_runtime_table [OF _ rt])
  then show "table_ok random ((set_runtime n rt st)\<lparr>sm_signals := signals\<rparr>)" by (simp add: table_ok_def)
qed (use signals runtimes_le_update [OF le] in simp_all)

lemma released_pending:
  "map_of (map (\<lambda>(key, p). (key, p\<lparr>sp_ready := True\<rparr>)) ps) = map_option (\<lambda>p. p\<lparr>sp_ready := True\<rparr>) \<circ> map_of ps"
  by (rule map_of_map)

lemma release_le:
  assumes "sr_id rt' = sr_id rt" "sr_pending rt' = map (\<lambda>(key, p). (key, p\<lparr>sp_ready := True\<rparr>)) (sr_pending rt)"
  shows "runtime_le k (signals @ map (\<lambda>(key, p). sp_timer p) (sr_pending rt)) rt rt'"
  using assms by (force simp: runtime_le_def released_pending dest: map_of_SomeD)

lemma release_ok:
  assumes "runtime_ok rt" "sr_reading rt' \<or> sr_closed rt'" "sr_pending rt' = map (\<lambda>(key, p). (key, p\<lparr>sp_ready := True\<rparr>)) (sr_pending rt)"
    "sr_outbox rt' = sr_outbox rt" "sr_unassigned rt' = sr_unassigned rt" "sr_events rt' = sr_events rt"
  shows "runtime_ok rt'"
  using assms by (auto simp: runtime_ok_def released_pending)

lemma runtime_ok_outbox:
  assumes "runtime_ok rt" "set (sr_outbox rt) \<subseteq> set (sr_outbox rt')" "sr_pending rt' = sr_pending rt" "sr_unassigned rt' = sr_unassigned rt"
    "sr_events rt' = sr_events rt" "sr_reading rt' = sr_reading rt" "sr_closed rt' = sr_closed rt"
  shows "runtime_ok rt'"
  using assms entry_from_mono [OF _ assms(2)] unfolding runtime_ok_def by (metis subset_trans)

lemma release_waiters_inv:
  assumes inv: "manager_inv api random st" and n: "n < length (sm_runtimes st)"
  shows "manager_inv api random (release_waiters n st)"
proof -
  let ?rt = "sm_runtimes st ! n"
  let ?new = "?rt\<lparr>sr_pending := map (\<lambda>(key, p). (key, p\<lparr>sp_ready := True\<rparr>)) (sr_pending ?rt)\<rparr>"
  have rt: "runtime_ok ?rt" using inv n by (simp add: manager_inv_def table_ok_def)
  have new: "runtime_ok ?new" by (rule release_ok [OF rt]) (use rt in \<open>simp_all add: runtime_ok_def\<close>)
  have le: "runtime_le k (sm_signals st @ map (\<lambda>(key, p). sp_timer p) (sr_pending ?rt)) ?rt ?new" for k by (rule release_le) simp_all
  show ?thesis
    unfolding release_waiters_def Let_def by (rule runtime_environment [OF inv n new _ _ le]) simp_all
qed

lemma end_reader_inv:
  assumes inv: "manager_inv api random st" and n: "n < length (sm_runtimes st)" and c: "sr_closed (sm_runtimes st ! n)"
  shows "manager_inv api random (end_reader n st)"
proof -
  let ?rt = "sm_runtimes st ! n"
  let ?new = "?rt\<lparr>sr_reading := False, sr_pending := map (\<lambda>(key, p). (key, p\<lparr>sp_ready := True\<rparr>)) (sr_pending ?rt)\<rparr>"
  have rt: "runtime_ok ?rt" using inv n by (simp add: manager_inv_def table_ok_def)
  have "end_reader n st = (set_runtime n ?new st)\<lparr>sm_signals := sm_signals st @ map (\<lambda>(key, p). sp_timer p) (sr_pending ?rt)\<rparr>"
    using n by (simp add: end_reader_def release_waiters_def set_runtime_def Let_def)
  moreover have new: "runtime_ok ?new" by (rule release_ok [OF rt]) (use c in simp_all)
  have le: "runtime_le k (sm_signals st @ map (\<lambda>(key, p). sp_timer p) (sr_pending ?rt)) ?rt ?new" for k by (rule release_le) simp_all
  have "manager_inv api random ((set_runtime n ?new st)\<lparr>sm_signals := sm_signals st @ map (\<lambda>(key, p). sp_timer p) (sr_pending ?rt)\<rparr>)"
    by (rule runtime_environment [OF inv n new _ _ le]) simp_all
  ultimately show ?thesis by simp
qed

lemma set_runtime_signals: "set_runtime n rt st = (set_runtime n rt st)\<lparr>sm_signals := sm_signals st\<rparr>"
  by (simp add: set_runtime_def)

lemma close_session_transport_inv:
  assumes inv: "manager_inv api random st" and n: "n < length (sm_runtimes st)"
  shows "manager_inv api random (close_session_transport n st)"
proof -
  have rt: "runtime_ok (sm_runtimes st ! n)" using inv n by (simp add: manager_inv_def table_ok_def)
  show ?thesis
    unfolding close_session_transport_def
    by (subst set_runtime_signals, rule runtime_environment [OF inv n]) (use rt in \<open>auto simp: runtime_ok_def intro: runtime_le_pending\<close>)
qed

lemma evicted_subset: "set (es_events (snd (append_event m es))) \<subseteq> insert (fst (append_event m es), m) (set (es_events es))"
proof -
  have "set (evict_front c xs) \<subseteq> set xs" for c xs by (simp add: evict_front_drop set_drop_subset)
  from this [of "es_capacity es"] show ?thesis by (fastforce simp: append_event_def Let_def)
qed

lemma route_event_good:
  assumes "runtime_ok rt" "snd e \<in> set (sr_outbox rt)"
  shows "runtime_ok (route_event e rt) \<and> sr_id (route_event e rt) = sr_id rt \<and> runtime_le k signals rt (route_event e rt)"
proof (cases "sr_pending rt")
  case Nil
  with assms show ?thesis by (simp add: route_event_def)
next
  case (Cons a ps)
  obtain key p where a: "a = (key, p)" by (cases a)
  show ?thesis
  proof (cases ps)
    case Nil
    then have s: "sr_pending rt = [(key, p)]" using Cons a by simp
    have "entry_from (set (sr_outbox rt)) p" using assms(1) s by (simp add: runtime_ok_def)
    then have "entry_from (set (sr_outbox rt)) (p\<lparr>sp_events := sp_events p @ [e]\<rparr>)" using assms(2) by (simp add: entry_from_def)
    with assms s show ?thesis by (simp add: route_event_def runtime_ok_def runtime_le_def)
  next
    case (Cons b qs)
    with \<open>sr_pending rt = a # ps\<close> a have "route_event e rt = rt\<lparr>sr_unassigned := sr_unassigned rt @ [e]\<rparr>" by (simp add: route_event_def)
    with assms show ?thesis by (auto simp: runtime_ok_def intro: runtime_le_pending)
  qed
qed

lemma route_answer_good:
  assumes rt: "runtime_ok rt" and m: "m \<in> set (sr_outbox rt)" and e: "\<And>x. event = Some x \<Longrightarrow> snd x = m"
  shows "runtime_ok (route_answer json_only event key m rt) \<and> sr_id (route_answer json_only event key m rt) = sr_id rt
    \<and> runtime_le k (signals @ (case map_of (sr_pending rt) key of None \<Rightarrow> [] | Some p \<Rightarrow> [sp_timer p])) rt (route_answer json_only event key m rt)"
proof (cases "map_of (sr_pending rt) key")
  case None
  with rt show ?thesis by (auto simp: route_answer_def runtime_ok_def intro: runtime_le_pending)
next
  case (Some p)
  define p' where "p' = (case event of None \<Rightarrow> p | Some x \<Rightarrow> p\<lparr>sp_events := sp_events p @ sr_unassigned rt @ [x]\<rparr>)\<lparr>sp_body := Some m, sp_ready := True\<rparr>"
  define un where "un = (if json_only then sr_unassigned rt else [])"
  have r: "route_answer json_only event key m rt = rt\<lparr>sr_unassigned := un, sr_pending := AList.update key p' (sr_pending rt)\<rparr>"
    using Some by (simp add: route_answer_def p'_def un_def Let_def)
  have p': "sp_timer p' = sp_timer p" "sp_ready p'" "sp_body p' = Some m" by (simp_all add: p'_def split: option.split)
  have "entry_from (set (sr_outbox rt)) p'"
  proof -
    have "entry_from (set (sr_outbox rt)) p" "snd ` set (sr_unassigned rt) \<subseteq> set (sr_outbox rt)" using rt Some by (simp_all add: runtime_ok_def)
    with m e show ?thesis unfolding p'_def by (cases event) (auto simp: entry_from_def)
  qed
  moreover have "snd ` set un \<subseteq> set (sr_outbox rt)" using rt by (auto simp: un_def runtime_ok_def)
  ultimately have "runtime_ok (rt\<lparr>sr_unassigned := un, sr_pending := AList.update key p' (sr_pending rt)\<rparr>)"
    using rt m p' by (auto simp: runtime_ok_def update_conv')
  moreover have "runtime_le k (signals @ [sp_timer p]) rt (rt\<lparr>sr_unassigned := un, sr_pending := AList.update key p' (sr_pending rt)\<rparr>)"
    using Some p' by (auto simp: runtime_le_def update_conv')
  ultimately show ?thesis unfolding r using Some by simp
qed

lemma runtime_le_trans_frame:
  assumes "runtime_le k signals rt1 rt2" "sr_id rt1 = sr_id rt" "sr_pending rt1 = sr_pending rt" "sr_reading rt1 = sr_reading rt"
  shows "runtime_le k signals rt rt2"
  using assms by (simp add: runtime_le_def)

lemma dispatch_inv:
  assumes inv: "manager_inv api random st" and n: "n < length (sm_runtimes st)"
  shows "manager_inv api random (dispatch_response_to_pending api n m st)"
proof -
  let ?rt = "sm_runtimes st ! n"
  define rt where "rt = ?rt\<lparr>sr_outbox := sr_outbox ?rt @ [m]\<rparr>"
  define rt1 where "rt1 = (if sm_json_only st then rt else rt\<lparr>sr_events := snd (append_event m (sr_events rt))\<rparr>)"
  define event where "event = (if sm_json_only st then None else Some (fst (append_event m (sr_events rt)), m))"
  have base: "runtime_ok ?rt" using inv n by (simp add: manager_inv_def table_ok_def)
  have ok: "runtime_ok rt" unfolding rt_def by (rule runtime_ok_outbox [OF base]) auto
  have "snd ` set (es_events (snd (append_event m (sr_events rt)))) \<subseteq> set (sr_outbox rt)"
  proof -
    have "snd ` set (es_events (snd (append_event m (sr_events rt)))) \<subseteq> insert m (snd ` set (es_events (sr_events rt)))"
      using image_mono [OF evicted_subset [of m "sr_events rt"], of snd] by simp
    moreover have "m \<in> set (sr_outbox rt)" "snd ` set (es_events (sr_events rt)) \<subseteq> set (sr_outbox rt)"
      using ok by (simp_all add: rt_def runtime_ok_def)
    ultimately show ?thesis by blast
  qed
  with ok have "runtime_ok rt1" by (simp add: rt1_def runtime_ok_def)
  moreover have f: "sr_id rt1 = sr_id ?rt" "sr_pending rt1 = sr_pending ?rt" "sr_reading rt1 = sr_reading ?rt" "m \<in> set (sr_outbox rt1)"
    by (simp_all add: rt1_def rt_def)
  ultimately have one: "runtime_ok rt1" "runtime_le k signals ?rt rt1" for k signals by (simp_all add: runtime_le_pending)
  have put: "manager_inv api random (set_runtime n r st)" if "runtime_ok r" "sr_id r = sr_id ?rt" "\<And>k. runtime_le k (sm_signals st) ?rt r" for r
    by (subst set_runtime_signals, rule runtime_environment [OF inv n that(1,2) _ that(3)]) simp
  show ?thesis
  proof (cases "message_route api m")
    case None
    then have "dispatch_response_to_pending api n m st = set_runtime n rt st" by (simp add: dispatch_response_to_pending_def rt_def)
    moreover have "manager_inv api random (set_runtime n rt st)" by (rule put [OF ok]) (auto simp: rt_def intro: runtime_le_pending)
    ultimately show ?thesis by simp
  next
    case (Some answered)
    show ?thesis
    proof (cases answered)
      case None
      let ?r = "case event of None \<Rightarrow> rt1 | Some e \<Rightarrow> route_event e rt1"
      have d: "dispatch_response_to_pending api n m st = set_runtime n ?r st"
        unfolding dispatch_response_to_pending_def Let_def rt_def [symmetric] rt1_def [symmetric] event_def [symmetric]
        using Some None by simp
      have "runtime_ok ?r \<and> sr_id ?r = sr_id ?rt \<and> runtime_le k signals ?rt ?r" for k signals
      proof (cases event)
        case (Some e)
        then have "snd e \<in> set (sr_outbox rt1)" using f(4) by (auto simp: event_def split: if_splits)
        with route_event_good [OF one(1) this] f Some show ?thesis by (auto intro: runtime_le_trans_frame)
      qed (use one f in simp)
      then show ?thesis unfolding d by (intro put) simp_all
    next
      case (Some key)
      let ?r = "route_answer (sm_json_only st) event key m rt1"
      let ?signals = "sm_signals st @ (case map_of (sr_pending rt1) key of None \<Rightarrow> [] | Some p \<Rightarrow> [sp_timer p])"
      have d: "dispatch_response_to_pending api n m st = (set_runtime n ?r st)\<lparr>sm_signals := ?signals\<rparr>"
        unfolding dispatch_response_to_pending_def Let_def rt_def [symmetric] rt1_def [symmetric] event_def [symmetric]
        using \<open>message_route api m = Some answered\<close> Some by simp
      have "snd x = m" if "event = Some x" for x using that by (auto simp: event_def split: if_splits)
      note g = route_answer_good [OF one(1) f(4) this]
      have "runtime_le k ?signals ?rt ?r" for k using g f(1-3) by (blast intro: runtime_le_trans_frame)
      then show ?thesis unfolding d by (intro runtime_environment [OF inv n]) (use g f(1) in auto)
    qed
  qed
qed


subsection \<open>Every step keeps the invariant\<close>

lemma placed_from_inv:
  assumes "manager_inv api random st" "i < length (sm_exchanges st)" "exchange_ok api (sm_runtimes st) (sm_signals st) i ex"
  shows "manager_inv api random (place_exchange i req (ex, st))"
  using assms good_same [of random st api i ex] by (intro placed_inv) (simp_all add: manager_inv_def)

lemma manager_frame:
  assumes "manager_inv api random st" "sm_exchanges st' = sm_exchanges st" "sm_runtimes st' = sm_runtimes st" "sm_signals st' = sm_signals st"
    "sm_drawn st' = sm_drawn st" "sm_sessions st' = sm_sessions st" "sm_dying st' = sm_dying st"
  shows "manager_inv api random st'"
  using assms by (simp add: manager_inv_def table_ok_def)

lemma signal_arrives_inv:
  assumes inv: "manager_inv api random st"
  shows "manager_inv api random (signal_arrives i st)"
proof -
  let ?signals = "remove1 i (sm_signals st)"
  let ?exs = "case sm_exchanges st ! i of Mx_asleep req n key \<Rightarrow> (sm_exchanges st)[i := Mx_looking req n key] | _ \<Rightarrow> sm_exchanges st"
  have "exchange_ok api (sm_runtimes st) ?signals k (?exs ! k)" if k: "k < length (sm_exchanges st)" for k
  proof (cases "k = i")
    case True
    have "exchange_ok api (sm_runtimes st) (sm_signals st) i (sm_exchanges st ! i)" using inv k True by (simp add: manager_inv_def)
    then show ?thesis using k True by (auto simp: exchange_ok_def split: ManagerExchange.splits option.splits)
  next
    case False
    then have same: "?exs ! k = sm_exchanges st ! k" by (simp split: ManagerExchange.split)
    show ?thesis unfolding same
      by (rule exchange_ok_mono [of api "sm_runtimes st" "sm_signals st"]) (use inv k False in \<open>simp_all add: manager_inv_def\<close>)
  qed
  moreover have "length ?exs = length (sm_exchanges st)" by (simp split: ManagerExchange.split)
  ultimately show ?thesis using inv by (simp add: manager_inv_def signal_arrives_def table_ok_def)
qed

lemma erase_session_good:
  assumes t: "table_ok random st"
  shows "good_outcome api random i st (erase_session req st)"
proof -
  have "table_ok random (st\<lparr>sm_sessions := AList.delete session_id (sm_sessions st)\<rparr>)" for session_id
    using t by (auto simp: table_ok_def AList.delete_eq distinct_map_filter)
  then have erased: "good_outcome api random i st (Mx_destroying req n False, st\<lparr>sm_sessions := AList.delete session_id (sm_sessions st)\<rparr>)"
    if "find_session session_id st = Some n" for session_id n
    using find_session_ok [OF t that] by (simp add: good_outcome_def exchange_ok_def)
  have "good_outcome api random i st (Mx_answered req r, st)" for r by (rule good_same [OF t]) simp
  with erased show ?thesis by (simp add: erase_session_def split: option.split)
qed

lemma end_next_session_inv:
  assumes inv: "manager_inv api random st"
  shows "manager_inv api random (end_next_session st)"
proof (cases "sm_dying st")
  case Nil
  with inv show ?thesis by (simp add: end_next_session_def)
next
  case (Cons d dying)
  obtain n released where d: "d = (n, released)" by (cases d)
  have n: "n < length (sm_runtimes st)" using inv Cons d by (auto simp: manager_inv_def table_ok_def)
  have "manager_inv api random ((close_session_transport n st)\<lparr>sm_dying := dying\<rparr>)"
    using close_session_transport_inv [OF inv n] Cons by (auto simp: manager_inv_def table_ok_def close_session_transport_def)
  moreover have "manager_inv api random ((release_waiters n st)\<lparr>sm_dying := (n, True) # dying\<rparr>)"
    using release_waiters_inv [OF inv n] Cons d by (auto simp: manager_inv_def table_ok_def release_waiters_def Let_def)
  ultimately show ?thesis using Cons d by (simp add: end_next_session_def)
qed

lemma verdict_inv:
  assumes "manager_inv api random st" "i < length (sm_exchanges st)"
  shows "manager_inv api random (manager_verdict api random i req verdict st)"
proof -
  have t: "table_ok random st" using assms(1) by (simp add: manager_inv_def)
  have "good_outcome api random i st (Mx_answered req r, st)" for r by (rule good_same [OF t]) simp
  with admitted_request_good [OF t] show ?thesis
    unfolding manager_verdict_def by (intro placed_inv [OF assms]) (simp split: option.split)
qed

lemma take_sessions_inv: "manager_inv api random st \<Longrightarrow> manager_inv api random (take_sessions st)"
  by (auto simp: manager_inv_def table_ok_def take_sessions_def)

lemma release_frame [simp]:
  "sm_exchanges (release_waiters n st) = sm_exchanges st" "length (sm_runtimes (release_waiters n st)) = length (sm_runtimes st)"
  "sm_exchanges (close_session_transport n st) = sm_exchanges st"
  by (simp_all add: release_waiters_def close_session_transport_def Let_def)

lemma manager_step_inv: "manager_step api random st st' \<Longrightarrow> manager_inv api random st \<Longrightarrow> manager_inv api random st'"
proof (induction rule: manager_step.induct)
  case (configured set_it st st')
  then obtain c where "st' = st\<lparr>sm_config := c\<rparr>" by (auto simp: configure_manager_def bindE_def split: if_splits sum.splits)
  with configured(2) show ?case by (auto intro: manager_frame)
next
  case (stateless enabled st st')
  then show ?case by (auto simp: set_stateless_json_mode_def intro: manager_frame split: if_splits)
next
  case (chosen st json_only)
  then show ?case by (auto simp: manager_json_only_def intro: manager_frame)
next
  case (listened st st')
  then show ?case by (auto simp: manager_listen_def intro: manager_frame split: if_splits)
next
  case (received st req)
  then show ?case by (intro manager_receive_inv)
next
  case (checked i st req verdict)
  then show ?case by (intro verdict_inv)
next
  case (direct i st req body)
  then show ?case unfolding direct_answer_def by (intro placed_from_inv) simp_all
next
  case (registered i st req j n)
  then have "exchange_ok api (sm_runtimes st) (sm_signals st) i (Mx_resolved req j n)" unfolding manager_inv_def by metis
  then have names: "names_session api (sm_runtimes st) req n" by (simp add: exchange_ok_def)
  have t: "table_ok random st" using registered by (simp add: manager_inv_def)
  show ?case by (rule placed_inv [OF _ _ register_post_good [OF t names]]) (use registered in simp_all)
next
  case (written i st req j n key)
  then have ok: "exchange_ok api (sm_runtimes st) (sm_signals st) i (Mx_writing req j n key)" unfolding manager_inv_def by metis
  have t: "table_ok random st" using written by (simp add: manager_inv_def)
  show ?case by (rule placed_inv [OF _ _ write_to_session_good [OF t ok]]) (use written in simp_all)
next
  case (looked i st req n key)
  then have ok: "exchange_ok api (sm_runtimes st) (sm_signals st) i (Mx_looking req n key)" unfolding manager_inv_def by metis
  have t: "table_ok random st" using looked by (simp add: manager_inv_def)
  show ?case by (rule placed_inv [OF _ _ look_for_response_good [OF t ok]]) (use looked in simp_all)
next
  case (signalled i st)
  then show ?case by (intro signal_arrives_inv)
next
  case (deleted i st req)
  then have t: "table_ok random st" by (simp add: manager_inv_def)
  show ?case by (rule placed_inv [OF _ _ erase_session_good [OF t]]) (use deleted in simp_all)
next
  case (released i st req n)
  then have n: "n < length (sm_runtimes st)" unfolding manager_inv_def exchange_ok_def by fastforce
  then show ?case using released by (intro placed_from_inv release_waiters_inv) (simp_all add: exchange_ok_def)
next
  case (destroyed i st req n)
  then have n: "n < length (sm_runtimes st)" unfolding manager_inv_def exchange_ok_def by fastforce
  then show ?case using destroyed by (intro placed_from_inv close_session_transport_inv) simp_all
next
  case (outbound n st m)
  then show ?case by (intro dispatch_inv)
next
  case (server_ended n st)
  then show ?case by (intro close_session_transport_inv)
next
  case (reader_ended n st)
  then show ?case by (intro end_reader_inv)
next
  case (closed st)
  then show ?case by (auto simp: close_manager_flag_def intro: manager_frame)
next
  case (swept st)
  then show ?case by (intro take_sessions_inv)
next
  case (session_ended st)
  then show ?case by (intro end_next_session_inv)
qed

lemma session_manager_inv: "manager_reachable api random st \<Longrightarrow> manager_inv api random st"
proof (induction rule: manager_reachable.induct)
  case (start event_store_capacity)
  then show ?case by (simp add: manager_inv_def table_ok_def new_manager_def)
next
  case (step st st')
  then show ?case using manager_step_inv by blast
qed


subsection \<open>Sessions do not mix\<close>

lemma events_from_subset: "events_from last_id events = Some later \<Longrightarrow> set later \<subseteq> set events"
proof (induction last_id events rule: events_from.induct)
  case (2 last_id event_id data events)
  then show ?case by (auto split: if_splits)
qed simp

text \<open>C0: Sessions do not mix: an exchange looks for its answer only in the session it named (or, for an initialize that
  named none, in the one made for it); a 200 it gets carries that session's id, and its body is a message
  that the server of this session wrote, or a stream of such messages. A GET replays only what the server
  of the session it names has written.\<close>

theorem session_answers_isolated:
  assumes "manager_reachable api random st" and "i < length (sm_exchanges st)" and "sm_exchanges st ! i = Mx_looking req n key"
  shows "(hr_session req = Some (sr_id (sm_runtimes st ! n))
      \<or> hr_session req = None \<and> (\<exists>j. parse_peer_json (j_parse api) (hr_body req) = Some j \<and> is_initialize_request api j))
    \<and> (look_for_response api req n key st = (Mx_answered req r, st1) \<and> rs_status r = 200 \<longrightarrow>
        rs_session r = Some (sr_id (sm_runtimes st ! n))
        \<and> (rs_body r \<in> set (sr_outbox (sm_runtimes st ! n))
           \<or> (\<exists>events. rs_body r = sse_text events \<and> snd ` set events \<subseteq> set (sr_outbox (sm_runtimes st ! n)))))
    \<and> (named_session api get st = Inr m \<and> events_after (sr_events (sm_runtimes st ! m)) last_id = Some later \<longrightarrow>
        hr_session get = Some (sr_id (sm_runtimes st ! m)) \<and> snd ` set later \<subseteq> set (sr_outbox (sm_runtimes st ! m)))"
proof (intro conjI impI)
  let ?rt = "sm_runtimes st ! n"
  have inv: "manager_inv api random st" by (rule session_manager_inv [OF assms(1)])
  then have t: "table_ok random st" by (simp add: manager_inv_def)
  have "exchange_ok api (sm_runtimes st) (sm_signals st) i (Mx_looking req n key)" using inv assms(2,3) unfolding manager_inv_def by metis
  then have names: "names_session api (sm_runtimes st) req n" and own: "owns_entry (sm_runtimes st) n key i" by (simp_all add: exchange_ok_def)
  show "hr_session req = Some (sr_id ?rt)
      \<or> hr_session req = None \<and> (\<exists>j. parse_peer_json (j_parse api) (hr_body req) = Some j \<and> is_initialize_request api j)"
    using names by (simp add: names_session_def)
  assume "look_for_response api req n key st = (Mx_answered req r, st1) \<and> rs_status r = 200"
  then have l: "look_for_response api req n key st = (Mx_answered req r, st1)" "rs_status r = 200" by simp_all
  obtain p where p: "map_of (sr_pending ?rt) key = Some p" using own by (auto simp: owns_entry_def)
  then have e: "entry_from (set (sr_outbox ?rt)) p" using table_runtime [OF t names_bound [OF names]] by (simp add: runtime_ok_def)
  have r: "r = session_answer api req (sm_json_only st) (sr_id ?rt) p" "sp_body p \<noteq> None"
    using l p by (auto simp: look_for_response_def Let_def make_error_response_def make_json_response_def session_answer_def split: if_splits option.splits)
  then obtain b where b: "sp_body p = Some b" by blast
  show "rs_session r = Some (sr_id ?rt)" by (simp add: r(1) session_answer_def b)
  show "rs_body r \<in> set (sr_outbox ?rt) \<or> (\<exists>events. rs_body r = sse_text events \<and> snd ` set events \<subseteq> set (sr_outbox ?rt))"
    using e b unfolding r(1) session_answer_def entry_from_def by (auto simp: make_json_response_def make_sse_replay_response_def)
next
  have t: "table_ok random st" using session_manager_inv [OF assms(1)] by (simp add: manager_inv_def)
  assume a: "named_session api get st = Inr m \<and> events_after (sr_events (sm_runtimes st ! m)) last_id = Some later"
  then obtain session_id where s: "hr_session get = Some session_id" "find_session session_id st = Some m"
    by (auto simp: named_session_def split: option.splits if_splits)
  with find_session_ok [OF t s(2)] show "hr_session get = Some (sr_id (sm_runtimes st ! m))" by simp
  have "set later \<subseteq> set (es_events (sr_events (sm_runtimes st ! m)))"
    using a events_from_subset by (auto simp: events_after_def split: if_splits)
  moreover have "snd ` set (es_events (sr_events (sm_runtimes st ! m))) \<subseteq> set (sr_outbox (sm_runtimes st ! m))"
    using table_runtime [OF t] find_session_ok [OF t s(2)] by (simp add: runtime_ok_def)
  ultimately show "snd ` set later \<subseteq> set (sr_outbox (sm_runtimes st ! m))" by blast
qed

subsection \<open>No wake-up is lost\<close>

text \<open>C0: No wake-up is lost between the strands: an exchange that sleeps has a signal under way, or its entry is not yet
  answered and the reader of its session still runs, to answer it or to release it. The answer, and the
  end of the reader once the transport to the server is closed, post the signal; the signal wakes the
  exchange, and once its entry is answered or released the exchange does not sleep again.\<close>

theorem no_lost_wakeup:
  assumes "manager_reachable api random st" and "i < length (sm_exchanges st)" and "sm_exchanges st ! i = Mx_asleep req n key"
  shows "\<exists>p. map_of (sr_pending (sm_runtimes st ! n)) key = Some p \<and> sp_timer p = i
    \<and> (i \<in> set (sm_signals st) \<or> \<not> sp_ready p \<and> sr_reading (sm_runtimes st ! n))
    \<and> (message_route api m = Some (Some key) \<longrightarrow> i \<in> set (sm_signals (dispatch_response_to_pending api n m st)))
    \<and> (sr_closed (sm_runtimes st ! n) \<and> i \<notin> set (sm_signals st) \<longrightarrow>
         manager_step api random st (end_reader n st) \<and> i \<in> set (sm_signals (end_reader n st)))
    \<and> sm_exchanges (signal_arrives i st) ! i = Mx_looking req n key
    \<and> (sp_ready p \<longrightarrow> fst (look_for_response api req n key st) \<noteq> Mx_asleep req n key)"
proof -
  let ?rt = "sm_runtimes st ! n"
  have inv: "manager_inv api random st" by (rule session_manager_inv [OF assms(1)])
  then have "exchange_ok api (sm_runtimes st) (sm_signals st) i (Mx_asleep req n key)" using assms(2,3) unfolding manager_inv_def by metis
  then have names: "names_session api (sm_runtimes st) req n" and own: "owns_entry (sm_runtimes st) n key i"
      and w: "watched (sm_runtimes st) n key" and a: "announced (sm_runtimes st) (sm_signals st) n key i"
    by (simp_all add: exchange_ok_def)
  have n: "n < length (sm_runtimes st)" by (rule names_bound [OF names])
  obtain p where p: "map_of (sr_pending ?rt) key = Some p" "sp_timer p = i" using own by (auto simp: owns_entry_def)
  have wake: "i \<in> set (sm_signals st) \<or> \<not> sp_ready p \<and> sr_reading ?rt" using p w a by (auto simp: watched_def announced_def)
  have answer: "message_route api m = Some (Some key) \<Longrightarrow> i \<in> set (sm_signals (dispatch_response_to_pending api n m st))"
    using p by (simp add: dispatch_response_to_pending_def Let_def)
  have "(key, p) \<in> set (sr_pending ?rt)" using p(1) by (rule map_of_SomeD)
  then have "i \<in> set (map (\<lambda>(key, p). sp_timer p) (sr_pending ?rt))" using p(2) by force
  then have ended: "i \<in> set (sm_signals (end_reader n st))" using n by (simp add: end_reader_def release_waiters_def Let_def)
  have enabled: "sr_closed ?rt \<Longrightarrow> i \<notin> set (sm_signals st) \<Longrightarrow> manager_step api random st (end_reader n st)"
    using wake n by (intro manager_step.reader_ended) simp_all
  have woken: "sm_exchanges (signal_arrives i st) ! i = Mx_looking req n key" using assms(2,3) by (simp add: signal_arrives_def)
  have "sp_ready p \<Longrightarrow> fst (look_for_response api req n key st) \<noteq> Mx_asleep req n key"
    using p by (simp add: look_for_response_def Let_def)
  with p wake answer ended enabled woken show ?thesis by blast
qed

subsection \<open>A deleted session is gone\<close>

lemma sessions_frame [simp]:
  "sm_sessions (snd (register_post api i req j n st)) = sm_sessions st"
  "sm_sessions (snd (write_to_session req j n k st)) = sm_sessions st"
  "sm_sessions (snd (look_for_response api req n key st)) = sm_sessions st"
  "sm_sessions (signal_arrives i st) = sm_sessions st"
  "sm_sessions (release_waiters n st) = sm_sessions st"
  "sm_sessions (close_session_transport n st) = sm_sessions st"
  "sm_sessions (end_reader n st) = sm_sessions st"
  "sm_sessions (dispatch_response_to_pending api n m st) = sm_sessions st"
  "sm_sessions (end_next_session st) = sm_sessions st"
proof -
  show "sm_sessions (snd (register_post api i req j n st)) = sm_sessions st" by (simp add: register_post_def Let_def)
  show "sm_sessions (snd (write_to_session req j n k st)) = sm_sessions st" by (simp add: write_to_session_def Let_def)
  show "sm_sessions (snd (look_for_response api req n key st)) = sm_sessions st"
    by (simp add: look_for_response_def forget_entry_def Let_def split: option.split)
  show "sm_sessions (signal_arrives i st) = sm_sessions st" by (simp add: signal_arrives_def)
  show r: "sm_sessions (release_waiters n st) = sm_sessions st" for n :: nat and st :: "'a Manager" by (simp add: release_waiters_def Let_def)
  show c: "sm_sessions (close_session_transport n st) = sm_sessions st" for n :: nat and st :: "'a Manager" by (simp add: close_session_transport_def)
  show "sm_sessions (end_reader n st) = sm_sessions st" by (simp add: end_reader_def r)
  show "sm_sessions (dispatch_response_to_pending api n m st) = sm_sessions st"
    by (simp add: dispatch_response_to_pending_def Let_def split: option.split)
  show "sm_sessions (end_next_session st) = sm_sessions st" by (simp add: end_next_session_def r c split: list.split)
qed

lemma sessions_grow:
  assumes "manager_step api random st st'"
  shows "set (sm_sessions st') \<subseteq> insert (random (sm_drawn st), length (sm_runtimes st)) (set (sm_sessions st))"
proof -
  have place: "sm_sessions (place_exchange i req r) = sm_sessions (snd r)" for i req and r :: "'a ManagerExchange \<times> 'a Manager"
    by (cases r) (simp add: place_exchange_def)
  have create: "set (sm_sessions (snd (create_session random s))) \<subseteq> insert (random (sm_drawn s), length (sm_runtimes s)) (set (sm_sessions s))" for s :: "'a Manager"
    by (auto simp: create_session_def Let_def)
  have post: "set (sm_sessions (snd (manager_post api random req s))) \<subseteq> insert (random (sm_drawn s), length (sm_runtimes s)) (set (sm_sessions s))" for req s
    using create [of s] by (auto simp: manager_post_def resolve_session_for_post_def split: option.splits prod.splits)
  have admitted: "set (sm_sessions (snd (admitted_request api random req s))) \<subseteq> insert (random (sm_drawn s), length (sm_runtimes s)) (set (sm_sessions s))" for req s
    using post [of req s] by (auto simp: admitted_request_def split: option.splits Verb.splits)
  have request: "set (sm_sessions (snd (manager_request api random req s))) \<subseteq> insert (random (sm_drawn s), length (sm_runtimes s)) (set (sm_sessions s))" for req s
    using admitted [of req s] by (auto simp: manager_request_def Let_def split: option.splits Validator.splits)
  from assms show ?thesis
  proof (cases rule: manager_step.cases)
    case (received req)
    then show ?thesis using request [of req "st\<lparr>sm_exchanges := sm_exchanges st @ [Mx_dropped req]\<rparr>"]
      by (auto simp: manager_receive_def Let_def place)
  next
    case (checked i req verdict)
    then show ?thesis using admitted [of req st] by (auto simp: manager_verdict_def place split: option.split)
  next
    case (deleted i req)
    then show ?thesis by (auto simp: place erase_session_def AList.delete_eq split: option.split)
  next
    case (configured set_it)
    then show ?thesis by (auto simp: configure_manager_def bindE_def split: if_splits sum.splits)
  next
    case (stateless enabled)
    then show ?thesis by (auto simp: set_stateless_json_mode_def split: if_splits)
  next
    case listened
    then show ?thesis by (auto simp: manager_listen_def split: if_splits)
  qed (auto simp: place direct_answer_def manager_json_only_def close_manager_flag_def take_sessions_def)
qed

text \<open>C0: A session that was deleted stays deleted, as long as the random source does not repeat itself: once the id of a
  session is not in the table, no step brings it back, and a request that names it is answered 404 and
  changes nothing.\<close>

theorem deleted_session_gone:
  assumes "inj random" and "manager_reachable api random st" and "manager_step api random st st'"
    and "n < length (sm_runtimes st)" and "find_session (sr_id (sm_runtimes st ! n)) st = None"
  shows "find_session (sr_id (sm_runtimes st ! n)) st' = None
    \<and> (hr_session req = Some (sr_id (sm_runtimes st ! n)) \<longrightarrow>
        named_session api req st = Inl (make_jsonrpc_error_response api req 404 invalid_request ''Session not found'')
        \<and> (sm_closed st \<or> resolve_session_for_post api random req j st =
             (Mx_answered req (make_jsonrpc_error_response api req 404 invalid_request ''Session not found''), st)))"
proof -
  have t: "table_ok random st" using session_manager_inv [OF assms(2)] by (simp add: manager_inv_def)
  then have "sr_id (sm_runtimes st ! n) = random n" "sm_drawn st = length (sm_runtimes st)" using assms(4) by (simp_all add: table_ok_def)
  then have "sr_id (sm_runtimes st ! n) \<noteq> random (sm_drawn st)" using assms(1,4) by (simp add: inj_eq)
  then have "sr_id (sm_runtimes st ! n) \<notin> fst ` set (sm_sessions st')"
    using sessions_grow [OF assms(3)] assms(5) by (force simp: find_session_def map_of_eq_None_iff)
  then have "find_session (sr_id (sm_runtimes st ! n)) st' = None" by (simp add: find_session_def map_of_eq_None_iff)
  then show ?thesis using assms(5) by (auto simp: named_session_def resolve_session_for_post_def)
qed

subsection \<open>Admission\<close>

definition acting :: "'j ManagerExchange \<Rightarrow> bool" where
  "acting ex \<longleftrightarrow> (case ex of Mx_resolved _ _ _ \<Rightarrow> True | Mx_direct _ \<Rightarrow> True | Mx_deleting _ \<Rightarrow> True | _ \<Rightarrow> False)"

definition acts_for :: "'j ManagerExchange \<Rightarrow> HttpRequest option" where
  "acts_for ex = (case ex of Mx_resolved req _ _ \<Rightarrow> Some req | Mx_direct req \<Rightarrow> Some req | Mx_deleting req \<Rightarrow> Some req | _ \<Rightarrow> None)"

definition asked_ok :: "'j JsonApi \<Rightarrow> HttpConfig \<Rightarrow> 'j ManagerExchange \<Rightarrow> bool" where
  "asked_ok api c ex \<longleftrightarrow> (case ex of
     Mx_checking req \<Rightarrow> check_origin api c req = None \<and> hc_validator c = Async_validator \<and> request_bearer_token req \<noteq> []
       \<and> \<not> is_unauthenticated_path c req
   | _ \<Rightarrow> True)"

definition asking_inv :: "'j JsonApi \<Rightarrow> 'j Manager \<Rightarrow> bool" where
  "asking_inv api st \<longleftrightarrow> (sm_exchanges st = [] \<or> sm_listening st) \<and> (\<forall>ex \<in> set (sm_exchanges st). asked_ok api (mc_http (sm_config st)) ex)"


definition same_setup :: "'j Manager \<Rightarrow> 'j Manager \<Rightarrow> bool" where
  "same_setup st st' \<longleftrightarrow> sm_config st' = sm_config st \<and> sm_listening st' = sm_listening st \<and> sm_exchanges st' = sm_exchanges st"

lemma same_setup_refl [simp]: "same_setup st st"
  by (simp add: same_setup_def)

lemma set_runtime_setup: "same_setup st (set_runtime n rt st)"
  by (simp add: same_setup_def set_runtime_def)

lemma create_setup: "create_session random st = (r, st') \<Longrightarrow> same_setup st st'"
  by (auto simp: create_session_def same_setup_def Let_def split: if_splits)

lemma resolve_setup: "same_setup st (snd (resolve_session_for_post api random req j st))"
  by (auto simp: resolve_session_for_post_def dest: create_setup split: option.split prod.split)

lemma post_setup: "same_setup st (snd (manager_post api random req st))"
  by (simp add: manager_post_def resolve_setup split: option.split)

lemma admitted_setup: "same_setup st (snd (admitted_request api random req st))"
  by (simp add: admitted_request_def post_setup split: option.split Verb.split)

lemma request_setup: "same_setup st (snd (manager_request api random req st))"
  by (simp add: manager_request_def admitted_setup Let_def split: option.split Validator.split)

lemma operation_setup:
  "same_setup st (snd (register_post api i req j n st))" "same_setup st (snd (write_to_session req j n k st))"
  "same_setup st (snd (look_for_response api req n key st))" "same_setup st (snd (erase_session req st))"
  "same_setup st (release_waiters n st)" "same_setup st (close_session_transport n st)" "same_setup st (end_reader n st)"
  "same_setup st (dispatch_response_to_pending api n m st)" "same_setup st (end_next_session st)"
proof -
  show "same_setup st (snd (register_post api i req j n st))" by (simp add: register_post_def Let_def set_runtime_setup)
  show "same_setup st (snd (write_to_session req j n k st))" by (simp add: write_to_session_def Let_def set_runtime_setup)
  show "same_setup st (snd (look_for_response api req n key st))"
    by (simp add: look_for_response_def forget_entry_def Let_def set_runtime_setup split: option.split)
  show "same_setup st (snd (erase_session req st))" by (simp add: erase_session_def same_setup_def split: option.split)
  show "same_setup st (release_waiters n st)" by (simp add: release_waiters_def Let_def same_setup_def set_runtime_def)
  show "same_setup st (close_session_transport n st)" by (simp add: close_session_transport_def set_runtime_setup)
  show "same_setup st (end_reader n st)" by (simp add: end_reader_def release_waiters_def Let_def same_setup_def set_runtime_def)
  show "same_setup st (dispatch_response_to_pending api n m st)"
    by (simp add: dispatch_response_to_pending_def Let_def same_setup_def set_runtime_def split: option.split)
  show "same_setup st (end_next_session st)"
    by (simp add: end_next_session_def close_session_transport_def release_waiters_def Let_def same_setup_def set_runtime_def split: list.split)
qed

text \<open>What an exchange may become, step by step: only a request that was checked acts, and only one that was asked about is checked.\<close>

lemma placed_exchange:
  assumes "same_setup st (snd r)" "i < length (sm_exchanges st)"
  shows "\<exists>ex. sm_exchanges (place_exchange i req r) = (sm_exchanges st)[i := ex] \<and> (ex = fst r \<or> ex = Mx_dropped req)
    \<and> sm_config (place_exchange i req r) = sm_config st \<and> sm_listening (place_exchange i req r) = sm_listening st"
  using assms by (cases r; cases "fst r") (auto simp: place_exchange_def same_setup_def)

definition quiet :: "'j ManagerExchange \<Rightarrow> bool" where
  "quiet ex \<longleftrightarrow> acts_for ex = None \<and> (\<forall>req. ex \<noteq> Mx_checking req)"

lemma quiet_simps [simp]:
  "quiet (Mx_answered req r)" "quiet (Mx_dropped req)" "quiet (Mx_writing req j n k)" "quiet (Mx_looking req n key)"
  "quiet (Mx_asleep req n key)" "quiet (Mx_destroying req n b)"
  by (simp_all add: quiet_def acts_for_def)

lemma operation_quiet:
  "quiet (fst (register_post api i req j n st))" "quiet (fst (write_to_session req j n k st))"
  "quiet (fst (look_for_response api req n key st))" "quiet (fst (erase_session req st))"
  by (auto simp: register_post_def write_to_session_def look_for_response_def erase_session_def Let_def split: option.split)

text \<open>A step that neither receives a request nor hears a verdict leaves every exchange alone or makes it quiet.\<close>

definition settles :: "'j Manager \<Rightarrow> 'j Manager \<Rightarrow> bool" where
  "settles st st' \<longleftrightarrow> length (sm_exchanges st') = length (sm_exchanges st)
     \<and> (\<forall>i < length (sm_exchanges st). sm_exchanges st' ! i = sm_exchanges st ! i \<or> quiet (sm_exchanges st' ! i))
     \<and> (sm_listening st \<longrightarrow> sm_config st' = sm_config st \<and> sm_listening st')"

lemma same_settles: "same_setup st st' \<Longrightarrow> settles st st'"
  by (simp add: same_setup_def settles_def)

lemma update_settled: "quiet ex \<Longrightarrow> k < length exs \<Longrightarrow> exs[i := ex] ! k = exs ! k \<or> quiet (exs[i := ex] ! k)"
  by (cases "k = i") simp_all

lemma placed_settles:
  assumes "same_setup st (snd r)" "i < length (sm_exchanges st)" "quiet (fst r)"
  shows "settles st (place_exchange i req r)"
proof -
  obtain ex where "sm_exchanges (place_exchange i req r) = (sm_exchanges st)[i := ex]" "ex = fst r \<or> ex = Mx_dropped req"
      "sm_config (place_exchange i req r) = sm_config st" "sm_listening (place_exchange i req r) = sm_listening st"
    using placed_exchange [OF assms(1,2)] by blast
  moreover from this assms(3) have "quiet ex" by auto
  ultimately show ?thesis using update_settled [of ex] by (simp add: settles_def)
qed

lemma step_settles:
  assumes "manager_step api random st st'"
  obtains "settles st st'"
  | req where "sm_listening st" "st' = manager_receive api random req st"
  | i req verdict where "i < length (sm_exchanges st)" "sm_exchanges st ! i = Mx_checking req" "st' = manager_verdict api random i req verdict st"
  using assms
proof (cases rule: manager_step.cases)
  case (configured set_it)
  then have "settles st st'" by (auto simp: configure_manager_def manager_open_def bindE_def settles_def split: if_splits sum.splits)
  then show ?thesis by (rule that(1))
next
  case (stateless enabled)
  then have "settles st st'" by (auto simp: set_stateless_json_mode_def manager_open_def settles_def split: if_splits)
  then show ?thesis by (rule that(1))
next
  case (chosen json_only)
  then have "settles st st'" by (auto simp: manager_json_only_def settles_def)
  then show ?thesis by (rule that(1))
next
  case listened
  then have "settles st st'" by (auto simp: manager_listen_def settles_def split: if_splits)
  then show ?thesis by (rule that(1))
next
  case (direct i req body)
  then show ?thesis unfolding direct_answer_def by (intro that(1)) (auto intro!: placed_settles)
next
  case (registered i req j n)
  then show ?thesis by (intro that(1)) (simp add: placed_settles operation_setup operation_quiet)
next
  case (written i req j n key)
  then show ?thesis by (intro that(1)) (simp add: placed_settles operation_setup operation_quiet)
next
  case (looked i req n key)
  then show ?thesis by (intro that(1)) (simp add: placed_settles operation_setup operation_quiet)
next
  case (deleted i req)
  then show ?thesis by (intro that(1)) (simp add: placed_settles operation_setup operation_quiet)
next
  case (released i req n)
  then show ?thesis by (intro that(1)) (auto intro!: placed_settles operation_setup)
next
  case (destroyed i req n)
  then show ?thesis by (intro that(1)) (auto intro!: placed_settles operation_setup)
next
  case (signalled i)
  have "settles st (signal_arrives i st)"
    by (auto simp: settles_def signal_arrives_def split: ManagerExchange.split) (metis quiet_simps(4) update_settled)
  with signalled show ?thesis by (intro that(1)) simp
next
  case closed
  then have "settles st st'" by (simp add: close_manager_flag_def settles_def)
  then show ?thesis by (rule that(1))
next
  case swept
  then have "settles st st'" by (simp add: take_sessions_def settles_def)
  then show ?thesis by (rule that(1))
next
  case (outbound n m)
  then show ?thesis by (intro that(1) same_settles) (simp add: operation_setup)
next
  case (server_ended n)
  then show ?thesis by (intro that(1) same_settles) (simp add: operation_setup)
next
  case (reader_ended n)
  then show ?thesis by (intro that(1) same_settles) (simp add: operation_setup)
next
  case session_ended
  then show ?thesis by (intro that(1) same_settles) (simp add: operation_setup)
qed (use that in blast)+

lemma acts_for_simps [simp]:
  "acts_for (Mx_answered req r) = None" "acts_for (Mx_dropped req) = None" "acts_for (Mx_checking req) = None"
  "acts_for (Mx_direct req) = Some req" "acts_for (Mx_deleting req) = Some req" "acts_for (Mx_resolved req j n) = Some req"
  by (simp_all add: acts_for_def)

definition own_exchange :: "HttpRequest \<Rightarrow> 'j ManagerExchange \<Rightarrow> bool" where
  "own_exchange req ex \<longleftrightarrow> (\<forall>req'. acts_for ex = Some req' \<longrightarrow> req' = req) \<and> (\<forall>req'. ex \<noteq> Mx_checking req')"

lemma own_exchange_simps [simp]:
  "own_exchange req (Mx_answered req r)" "own_exchange req (Mx_direct req)" "own_exchange req (Mx_deleting req)" "own_exchange req (Mx_resolved req j n)"
  by (simp_all add: own_exchange_def)

lemma resolve_own: "own_exchange req (fst (resolve_session_for_post api random req j st))"
  by (simp add: resolve_session_for_post_def split: option.split prod.split)

lemma post_own: "own_exchange req (fst (manager_post api random req st))"
  by (simp add: manager_post_def handle_stateless_post_def resolve_own split: option.split)

lemma admitted_own: "own_exchange req (fst (admitted_request api random req st))"
  by (simp add: admitted_request_def manager_delete_def post_own split: option.split Verb.split sum.split)

lemma admitted_acts:
  assumes "acts_for (fst (admitted_request api random req st)) = Some req'"
  shows "req' = req \<and> \<not> is_unauthenticated_path (mc_http (sm_config st)) req"
proof -
  have "req' = req" using assms admitted_own [of req api random st] by (simp add: own_exchange_def)
  moreover have "\<not> is_unauthenticated_path (mc_http (sm_config st)) req"
    using assms by (auto simp: admitted_request_def split: option.splits)
  ultimately show ?thesis by simp
qed

lemma admitted_asks: "fst (admitted_request api random req st) \<noteq> Mx_checking req'"
  using admitted_own [of req api random st] by (simp add: own_exchange_def)

lemma verdict_None: "verdict_response api c req verdict = None \<longleftrightarrow> verdict = Some True"
  by (cases verdict) (simp_all add: verdict_response_def)

lemma request_acts:
  assumes "acts_for (fst (manager_request api random req st)) = Some req'"
  shows "req' = req \<and> check_origin api (mc_http (sm_config st)) req = None \<and> \<not> is_unauthenticated_path (mc_http (sm_config st)) req
    \<and> authenticated (mc_http (sm_config st)) req None"
proof -
  let ?c = "mc_http (sm_config st)"
  have op: "\<not> sm_closed st" using assms by (cases "sm_closed st") (simp_all add: manager_request_def Let_def)
  have o: "check_origin api ?c req = None" using assms op by (cases "check_origin api ?c req") (simp_all add: manager_request_def Let_def)
  have d: "manager_metadata ?c req = None" using assms op o by (cases "manager_metadata ?c req") (simp_all add: manager_request_def Let_def)
  note m = manager_request_def [of api random req st, unfolded Let_def, simplified op o d, simplified]
  have "manager_request api random req st = admitted_request api random req st \<and> (is_unauthenticated_path ?c req \<or> hc_validator ?c = No_validator
      \<or> request_bearer_token req \<noteq> [] \<and> (\<exists>v. hc_validator ?c = Sync_validator v \<and> verdict_response api ?c req (v (request_bearer_token req)) = None))"
  proof (cases "is_unauthenticated_path ?c req \<or> hc_validator ?c = No_validator")
    case True
    then show ?thesis by (auto simp: m)
  next
    case False
    then have t: "request_bearer_token req \<noteq> []" using assms by (cases "request_bearer_token req = []") (simp_all add: m)
    with False assms obtain v where v: "hc_validator ?c = Sync_validator v" by (cases "hc_validator ?c") (simp_all add: m)
    with False t assms have "verdict_response api ?c req (v (request_bearer_token req)) = None"
      by (cases "verdict_response api ?c req (v (request_bearer_token req))") (simp_all add: m)
    with False t v show ?thesis by (simp add: m)
  qed
  then have a: "manager_request api random req st = admitted_request api random req st"
    and v: "is_unauthenticated_path ?c req \<or> hc_validator ?c = No_validator
      \<or> request_bearer_token req \<noteq> [] \<and> (\<exists>v. hc_validator ?c = Sync_validator v \<and> verdict_response api ?c req (v (request_bearer_token req)) = None)"
    by blast+
  from assms have "acts_for (fst (admitted_request api random req st)) = Some req'" by (simp only: a)
  from admitted_acts [OF this] have r: "req' = req" "\<not> is_unauthenticated_path ?c req" by simp_all
  with v have "authenticated ?c req None" by (auto simp: authenticated_def verdict_None)
  with r o show ?thesis by simp
qed

lemma request_asks:
  assumes "fst (manager_request api random req st) = Mx_checking req'"
  shows "asked_ok api (mc_http (sm_config st)) (Mx_checking req')"
proof -
  let ?c = "mc_http (sm_config st)"
  note na = admitted_asks [of api random req st req']
  have op: "\<not> sm_closed st" using assms by (cases "sm_closed st") (simp_all add: manager_request_def Let_def)
  have o: "check_origin api ?c req = None" using assms op by (cases "check_origin api ?c req") (simp_all add: manager_request_def Let_def)
  have d: "manager_metadata ?c req = None" using assms op o by (cases "manager_metadata ?c req") (simp_all add: manager_request_def Let_def)
  note m = manager_request_def [of api random req st, unfolded Let_def, simplified op o d, simplified]
  have u: "\<not> is_unauthenticated_path ?c req \<and> hc_validator ?c \<noteq> No_validator"
    using assms na by (cases "is_unauthenticated_path ?c req \<or> hc_validator ?c = No_validator") (auto simp: m)
  then have t: "request_bearer_token req \<noteq> []" using assms by (cases "request_bearer_token req = []") (simp_all add: m)
  have v: "hc_validator ?c = Async_validator"
  proof (cases "hc_validator ?c")
    case (Sync_validator v)
    with u t assms na show ?thesis by (cases "verdict_response api ?c req (v (request_bearer_token req))") (simp_all add: m)
  qed (use u in simp_all)
  with u t assms have "req' = req" by (simp add: m)
  with o u t v show ?thesis by (simp add: asked_ok_def)
qed

lemma settles_asking: "settles st st' \<Longrightarrow> asking_inv api st \<Longrightarrow> asking_inv api st'"
proof -
  assume s: "settles st st'" and a: "asking_inv api st"
  show ?thesis
  proof (cases "sm_exchanges st = []")
    case True
    with s show ?thesis by (simp add: settles_def asking_inv_def)
  next
    case False
    then have l: "sm_listening st" "sm_config st' = sm_config st" "sm_listening st'" using s a by (auto simp: asking_inv_def settles_def)
    have "asked_ok api (mc_http (sm_config st)) (sm_exchanges st' ! i)" if "i < length (sm_exchanges st')" for i
    proof -
      have "sm_exchanges st' ! i = sm_exchanges st ! i \<or> quiet (sm_exchanges st' ! i)" "i < length (sm_exchanges st)"
        using s that by (auto simp: settles_def)
      moreover have "quiet ex \<Longrightarrow> asked_ok api c ex" for ex c by (auto simp: quiet_def asked_ok_def split: ManagerExchange.split)
      ultimately show ?thesis using a by (auto simp: asking_inv_def)
    qed
    with l show ?thesis by (auto simp: asking_inv_def in_set_conv_nth)
  qed
qed

lemma asked_ok_simps [simp]: "asked_ok api c (Mx_answered req r)" "asked_ok api c (Mx_dropped req)"
  by (simp_all add: asked_ok_def)

lemma asking_reachable: "manager_reachable api random st \<Longrightarrow> asking_inv api st"
proof (induction rule: manager_reachable.induct)
  case (start event_store_capacity)
  then show ?case by (simp add: asking_inv_def new_manager_def)
next
  case (step st st')
  from step.hyps(2) show ?case
  proof (cases rule: step_settles)
    case 1
    then show ?thesis using settles_asking step.IH by blast
  next
    case (2 req)
    let ?st = "st\<lparr>sm_exchanges := sm_exchanges st @ [Mx_dropped req]\<rparr>" and ?i = "length (sm_exchanges st)"
    let ?r = "manager_request api random req ?st"
    obtain ex where ex: "sm_exchanges (place_exchange ?i req ?r) = (sm_exchanges ?st)[?i := ex]" "ex = fst ?r \<or> ex = Mx_dropped req"
        "sm_config (place_exchange ?i req ?r) = sm_config ?st" "sm_listening (place_exchange ?i req ?r) = sm_listening ?st"
      using placed_exchange [OF request_setup [of ?st api random req], of ?i] by auto
    have "asked_ok api (mc_http (sm_config st)) (fst ?r)"
      using request_asks [of api random req ?st] by (auto simp: asked_ok_def split: ManagerExchange.split)
    then have "asked_ok api (mc_http (sm_config st)) ex" using ex(2) by auto
    then have "asking_inv api (place_exchange ?i req ?r)" using ex 2(1) step.IH by (simp add: asking_inv_def)
    then show ?thesis using 2 step.IH by (auto simp: manager_receive_def Let_def asking_inv_def)
  next
    case (3 i req verdict)
    let ?r = "case verdict_response api (mc_http (sm_config st)) req verdict of
       Some response \<Rightarrow> (Mx_answered req response, st) | None \<Rightarrow> admitted_request api random req st"
    have s: "same_setup st (snd ?r)" by (simp add: admitted_setup split: option.split)
    obtain ex where ex: "sm_exchanges st' = (sm_exchanges st)[i := ex]" "ex = fst ?r \<or> ex = Mx_dropped req"
        "sm_config st' = sm_config st" "sm_listening st' = sm_listening st"
      using placed_exchange [OF s 3(1), of req] 3(3) by (auto simp: manager_verdict_def)
    have "asked_ok api c (fst ?r)" for c
      using admitted_asks [of api random req st] by (auto simp: asked_ok_def split: ManagerExchange.split option.split)
    then have "asked_ok api (mc_http (sm_config st)) ex" using ex(2) by auto
    with ex step.IH show ?thesis using set_update_subset_insert [of "sm_exchanges st" i ex] by (auto simp: asking_inv_def)
  qed
qed

text \<open>C0: Nothing is done for an unchecked request: whenever an exchange begins to act (it finds or makes a session, it goes
  to the server without one, or it is about to delete one), its request came from an allowed origin, on a
  path that is not exempt from authentication, with a token the installed validator accepted.\<close>

theorem only_admitted_requests_act:
  assumes "manager_reachable api random st" and "manager_step api random st st'"
    and "i < length (sm_exchanges st')" and "acts_for (sm_exchanges st' ! i) = Some req"
    and "i < length (sm_exchanges st) \<longrightarrow> acts_for (sm_exchanges st ! i) = None"
  shows "\<exists>verdict. check_origin api (mc_http (sm_config st)) req = None \<and> \<not> is_unauthenticated_path (mc_http (sm_config st)) req
    \<and> authenticated (mc_http (sm_config st)) req verdict
    \<and> (st' = manager_receive api random req st
       \<or> i < length (sm_exchanges st) \<and> sm_exchanges st ! i = Mx_checking req \<and> st' = manager_verdict api random i req verdict st)"
  using assms(2)
proof (cases rule: step_settles)
  case 1
  then have "i < length (sm_exchanges st)" "sm_exchanges st' ! i = sm_exchanges st ! i \<or> quiet (sm_exchanges st' ! i)"
    using assms(3) by (auto simp: settles_def)
  with assms(4,5) show ?thesis by (auto simp: quiet_def)
next
  case (2 req0)
  let ?st = "st\<lparr>sm_exchanges := sm_exchanges st @ [Mx_dropped req0]\<rparr>" and ?i = "length (sm_exchanges st)"
  let ?r = "manager_request api random req0 ?st"
  obtain ex where ex: "sm_exchanges (place_exchange ?i req0 ?r) = (sm_exchanges ?st)[?i := ex]" "ex = fst ?r \<or> ex = Mx_dropped req0"
    using placed_exchange [OF request_setup [of ?st api random req0], of ?i] by auto
  have at: "i = ?i" using assms(3-5) ex unfolding 2(2) manager_receive_def Let_def
    by (auto simp: nth_append less_Suc_eq split: if_splits)
  then have "acts_for ex = Some req" "st' = place_exchange ?i req0 ?r"
    using assms(4) ex(1) unfolding 2(2) manager_receive_def Let_def by (auto split: if_splits)
  then have "acts_for (fst ?r) = Some req" using ex(2) by auto
  from request_acts [OF this] 2(2) show ?thesis by auto
next
  case (3 k req0 verdict)
  let ?c = "mc_http (sm_config st)"
  let ?r = "case verdict_response api ?c req0 verdict of Some response \<Rightarrow> (Mx_answered req0 response, st) | None \<Rightarrow> admitted_request api random req0 st"
  have s: "same_setup st (snd ?r)" by (simp add: admitted_setup split: option.split)
  obtain ex where ex: "sm_exchanges st' = (sm_exchanges st)[k := ex]" "ex = fst ?r \<or> ex = Mx_dropped req0"
    using placed_exchange [OF s 3(1), of req0] 3(3) by (auto simp: manager_verdict_def)
  have k: "i = k" using assms(3-5) ex(1) by (cases "i = k") auto
  then have "acts_for (fst ?r) = Some req" using assms(4) ex 3(1) by auto
  then have v: "verdict_response api ?c req0 verdict = None" "acts_for (fst (admitted_request api random req0 st)) = Some req"
    by (auto split: option.splits)
  from admitted_acts [OF v(2)] have r: "req = req0" "\<not> is_unauthenticated_path ?c req0" by simp_all
  have "sm_exchanges st ! k \<in> set (sm_exchanges st)" using 3(1) by simp
  then have a: "check_origin api ?c req0 = None" "hc_validator ?c = Async_validator" "request_bearer_token req0 \<noteq> []"
    using asking_reachable [OF assms(1)] 3(2) unfolding asking_inv_def asked_ok_def by fastforce+
  have "authenticated ?c req0 verdict" using a v(1) by (simp add: authenticated_def verdict_None)
  with r a k 3 show ?thesis by blast
qed


subsection \<open>Configuration\<close>

text \<open>A setter changes nothing but the configuration, and only before the manager listens.\<close>

lemma configure_manager_frame:
  "configure_manager set_it st = Inr st' \<Longrightarrow> manager_open st \<and> (\<exists>c. set_it (sm_config st) = Inr c \<and> st' = st\<lparr>sm_config := c\<rparr>)"
  by (auto simp: configure_manager_def bindE_def split: if_splits sum.splits)

lemma setter_refused_when_listening:
  "\<not> manager_open st \<Longrightarrow> manager_set_allowed_origins origins st = Inl manager_frozen"
  "\<not> manager_open st \<Longrightarrow> manager_set_bearer_token_validator validator st = Inl manager_frozen"
  "\<not> manager_open st \<Longrightarrow> manager_set_unauthenticated_paths paths st = Inl manager_frozen"
  by (simp_all add: manager_setters configure_manager_def)

text \<open>At most one of the two validators is installed: the second one is refused, and the first stays.\<close>

lemma second_validator_refused:
  assumes "manager_open st" and "hc_validator (mc_http (sm_config st)) = Async_validator"
  shows "manager_set_bearer_token_validator (Some v) st = Inl ''StreamableHttpSessionManager accepts one bearer token validator''"
  using assms by (simp add: manager_setters configure_manager_def lift_setter_def set_bearer_token_validator_def one_validator_def bindE_def)

subsection \<open>A request that cannot be written\<close>

text \<open>
  A request that is registered but meets a closed transport ends with its connection, and its entry stays:
  until the session is deleted, the same id is refused as pending although nobody waits for it.
\<close>

lemma unwritten_request_blocks_its_id:
  assumes "n < length (sm_runtimes st)" and "register_post api i req j n st = (Mx_writing req j n (Some key), st1)"
    and "sr_closed (sm_runtimes st1 ! n)" and "\<not> is_initialize_request api j"
  shows "fst (write_to_session req j n (Some key) st1) = Mx_dropped req
    \<and> fst (register_post api k req j n (snd (write_to_session req j n (Some key) st1)))
        = Mx_answered req (make_error_response api req 400 ''Request id already pending'')"
proof -
  let ?rt = "sm_runtimes st ! n"
  have ok: "\<not> (hr_protocol req \<noteq> None \<and> hr_protocol req \<noteq> Some (sr_protocol ?rt))" "\<not> lacks_id_or_method api j"
    "key = (case j_find api j ''id'' of None \<Rightarrow> [] | Some rid \<Rightarrow> j_dump api rid)" "map_of (sr_pending ?rt) key = None"
    "st1 = set_runtime n (?rt\<lparr>sr_pending := (key, \<lparr>sp_timer = i, sp_body = None, sp_events = [], sp_ready = False\<rparr>) # sr_pending ?rt\<rparr>) st"
    using assms(2,4) by (auto simp: register_post_def Let_def split: if_splits)
  have w: "write_to_session req j n (Some key) st1 = (Mx_dropped req, st1)" using assms(3) by (simp add: write_to_session_def Let_def)
  have rt: "sm_runtimes st1 ! n = ?rt\<lparr>sr_pending := (key, \<lparr>sp_timer = i, sp_body = None, sp_events = [], sp_ready = False\<rparr>) # sr_pending ?rt\<rparr>"
    using assms(1) by (simp add: ok(5))
  have "fst (register_post api k req j n st1) = Mx_answered req (make_error_response api req 400 ''Request id already pending'')"
    using ok(1,2) assms(4) unfolding register_post_def Let_def rt ok(3) [symmetric] by auto
  then show ?thesis by (simp add: w)
qed

end
