(* ===== verification/HttpScenario.thy ===== *)
theory HttpScenario
  imports HttpServerProps
begin

text \<open>A session over HTTP, and what the theorems on the HTTP server transport say of its states.\<close>


subsection \<open>A session over HTTP\<close>

text \<open>
  A client that initializes over HTTP and then lists the tools: reachable states in which the theorems say
  something. The library reads the three messages of the scenario.
\<close>

definition demo_message :: "string \<Rightarrow> tree option" where
  "demo_message s =
     (if s = ''init'' then Some (T_object [(''id'', T_int 1), (''method'', T_string ''initialize'')])
      else if s = ''session'' then Some (T_object [(''id'', T_int 1), (''result'', T_object [(''protocolVersion'', T_string ''v'')])])
      else if s = ''list'' then Some (T_object [(''id'', T_int 2), (''method'', T_string ''tools/list'')])
      else None)"

definition demo_api :: "tree JsonApi" where
  "demo_api = tree_api\<lparr>j_parse := demo_message, j_dump := (\<lambda>t. case t of T_int i \<Rightarrow> decimal (nat i) | _ \<Rightarrow> ''text'')\<rparr>"

definition demo_post :: "string option \<Rightarrow> string \<Rightarrow> HttpRequest" where
  "demo_post session body =
     \<lparr>hr_verb = Http_post, hr_target = ''/mcp'', hr_origin = None, hr_authorization = None, hr_session = session, hr_protocol = None,
      hr_last_event = None, hr_accept = None, hr_body = body, hr_keep_alive = True\<rparr>"

definition demo_delete :: HttpRequest where
  "demo_delete = (demo_post (Some ''s'') [])\<lparr>hr_verb := Http_delete\<rparr>"

abbreviation demo_random :: "nat \<Rightarrow> string" where
  "demo_random \<equiv> \<lambda>n. ''s''"

definition demo_listening :: "tree HttpServer" where
  "demo_listening = (new_http_server 2)\<lparr>ht_listening := True\<rparr>"

definition demo_entry :: "nat \<Rightarrow> tree PendingResponse" where
  "demo_entry i = \<lparr>pd_timer = i, pd_body = None, pd_session_header = None, pd_event_id = None, pd_client_id = None,
     pd_ready = False, pd_session_ended = False, pd_signalled = False\<rparr>"

definition demo_asked :: "tree HttpServer" where
  "demo_asked = demo_listening\<lparr>ht_queue := [''init''], ht_pending := [''1'' \<mapsto> demo_entry 0],
     ht_exchanges := [Ex_waiting (demo_post None ''init'') ''1'']\<rparr>"

definition demo_session :: "tree HttpServer" where
  "demo_session = demo_asked\<lparr>ht_session := Some ''s'', ht_drawn := 1, ht_protocol := ''v'', ht_active := True,
     ht_pending := (\<lambda>_. None), ht_events := snd (append_event ''session'' (new_store 2)),
     ht_exchanges := [Ex_answered (demo_post None ''init'') ((make_json_response (demo_post None ''init'') 200 ''session'')\<lparr>rs_session := Some ''s''\<rparr>)]\<rparr>"

definition demo_listing :: "tree HttpServer" where
  "demo_listing = demo_session\<lparr>ht_queue := [''init'', ''list''], ht_pending := [''2'' \<mapsto> demo_entry 1],
     ht_exchanges := ht_exchanges demo_session @ [Ex_waiting (demo_post (Some ''s'') ''list'') ''2'']\<rparr>"

definition demo_ended :: "tree HttpServer" where
  "demo_ended = receive_request demo_api demo_random demo_delete demo_listing"

lemma demo_numbers [simp]: "decimal (Suc 0) = ''1''" "decimal 1 = ''1''" "decimal 2 = ''2''"
  by code_simp+

lemmas demo_request_defs = receive_request_def handle_request_def dispatch_verb_def handle_post_def post_json_def admit_request_def
  wait_pass_def settle_def register_pending_request_def enqueue_incoming_message_def consume_pending_response_def is_response_ready_def
  serve_protected_resource_metadata_def is_unauthenticated_path_def check_origin_def check_authorization_def check_protocol_version_def
  is_sessionless_discover_def is_initialize_request_def is_discover_request_def has_text_method_def answerable_id_def
  validate_post_session_def

lemma demo_shallow [simp]:
  "\<not> exceeds_json_depth ''init'' max_peer_json_depth" "\<not> exceeds_json_depth ''list'' max_peer_json_depth"
  by code_simp+

lemmas demo_defs = demo_api_def demo_message_def tree_api_def demo_post_def demo_listening_def new_http_server_def default_config_def
  default_max_request_body_bytes_def demo_entry_def parse_peer_json_def

lemma demo_asks: "receive_request demo_api demo_random (demo_post None ''init'') demo_listening = demo_asked"
  by (simp add: demo_request_defs demo_defs Let_def demo_asked_def)

lemma demo_lists: "receive_request demo_api demo_random (demo_post (Some ''s'') ''list'') demo_session = demo_listing"
  by (simp add: demo_request_defs demo_defs Let_def demo_asked_def demo_session_def demo_listing_def)


lemma demo_starts: "transport_reachable demo_api demo_random demo_listening"
proof -
  have "transport_step demo_api demo_random (new_http_server 2) demo_listening"
    by (rule transport_step.listened) (simp add: begin_listening_def demo_listening_def new_http_server_def)
  with transport_reachable.start transport_reachable.step show ?thesis by metis
qed

lemma demo_asked_reachable: "transport_reachable demo_api demo_random demo_asked"
proof -
  have "transport_step demo_api demo_random demo_listening (receive_request demo_api demo_random (demo_post None ''init'') demo_listening)"
    by (rule transport_step.received) (simp add: demo_listening_def)
  with demo_starts show ?thesis unfolding demo_asks by (rule transport_reachable.step)
qed

definition demo_answered :: "tree HttpServer" where
  "demo_answered = demo_asked\<lparr>ht_session := Some ''s'', ht_drawn := 1, ht_protocol := ''v'', ht_active := True,
     ht_pending := [''1'' \<mapsto> (demo_entry 0)\<lparr>pd_body := Some ''session'', pd_event_id := Some (fst (append_event ''session'' (new_store 2))),
        pd_ready := True, pd_signalled := True, pd_session_header := Some ''s''\<rparr>],
     ht_events := snd (append_event ''session'' (new_store 2))\<rparr>"

lemma demo_writes: "run_write demo_api demo_random ''session'' demo_asked = Inr demo_answered"
  by (simp add: run_write_def demo_answered_def demo_asked_def demo_defs Let_def records_event_def case_prod_unfold
    is_initialize_result_response_def answer_pending_def establish_session_def)

lemma demo_wakes: "resume_wait demo_api 0 (demo_post None ''init'') ''1'' demo_answered = demo_session"
  by (simp add: resume_wait_def wait_pass_def settle_def consume_pending_response_def is_response_ready_def answer_response_def
    accepts_sse_def make_json_response_def Let_def demo_answered_def demo_session_def demo_asked_def demo_defs fun_eq_iff split: option.split)

lemma demo_session_reachable: "transport_reachable demo_api demo_random demo_session"
proof -
  have a: "transport_reachable demo_api demo_random demo_answered"
    by (rule transport_reachable.step [OF demo_asked_reachable transport_step.written [OF demo_writes]])
  have "transport_step demo_api demo_random demo_answered (resume_wait demo_api 0 (demo_post None ''init'') ''1'' demo_answered)"
    by (rule transport_step.woken) (simp_all add: demo_answered_def demo_asked_def signalled_def)
  with a show ?thesis unfolding demo_wakes by (rule transport_reachable.step)
qed

lemma demo_list_step: "transport_step demo_api demo_random demo_session demo_listing"
  unfolding demo_lists [symmetric] by (rule transport_step.received) (simp add: demo_session_def demo_asked_def demo_listing_def demo_listening_def)

lemma demo_listing_reachable: "transport_reachable demo_api demo_random demo_listing"
  by (rule transport_reachable.step [OF demo_session_reachable demo_list_step])

lemma demo_listing_waits:
  "1 < length (ht_exchanges demo_listing)" "ht_exchanges demo_listing ! 1 = Ex_waiting (demo_post (Some ''s'') ''list'') ''2''"
  "\<not> ht_swept demo_listing" "\<not> ht_closed demo_listing" "ht_session demo_listing = Some ''s''"
  by (simp_all add: demo_listing_def demo_session_def demo_asked_def demo_listening_def new_http_server_def)

theorem waiting_routed_witness: "\<exists>p. ht_pending demo_listing ''2'' = Some p \<and> pd_timer p = 1"
  using waiting_routed [OF demo_listing_reachable, of 1 "demo_post (Some ''s'') ''list''" "''2''"] demo_listing_waits by blast

theorem only_checked_requests_enter_witness:
  "\<exists>req m verdict. ht_queue demo_listing = ht_queue demo_session @ [m] \<and> check_origin demo_api (ht_config demo_session) req = None
     \<and> authenticated (ht_config demo_session) req verdict"
proof -
  have "length (ht_queue demo_session) < length (ht_queue demo_listing)"
    by (simp add: demo_listing_def demo_session_def demo_asked_def)
  from only_checked_requests_enter [OF demo_session_reachable demo_list_step this] show ?thesis by blast
qed

theorem http_answer_reaches_caller_witness:
  "\<exists>st' r. run_write demo_api demo_random ''session'' demo_asked = Inr st'
     \<and> ht_exchanges (resume_wait demo_api 0 (demo_post None ''init'') ''1'' st') ! 0 = Ex_answered (demo_post None ''init'') r
     \<and> rs_status r = 200 \<and> ht_session st' \<noteq> None"
proof -
  let ?j = "T_object [(''id'', T_int 1), (''result'', T_object [(''protocolVersion'', T_string ''v'')])]"
  have j: "j_parse demo_api ''session'' = Some ?j" "j_is_object demo_api ?j" "answer_key demo_api ?j = Some ''1''"
      "is_initialize_result_response demo_api ?j"
    by (simp_all add: demo_api_def demo_message_def tree_api_def answer_key_def is_initialize_result_response_def)
  have s: "\<not> ht_closed demo_asked" "0 < length (ht_exchanges demo_asked)" "ht_exchanges demo_asked ! 0 = Ex_waiting (demo_post None ''init'') ''1''"
      "ht_pending demo_asked ''1'' = Some (demo_entry 0)" "\<not> pd_session_ended (demo_entry 0)"
    by (simp_all add: demo_asked_def demo_listening_def new_http_server_def demo_entry_def)
  from http_answer_reaches_caller [OF demo_asked_reachable s j(1-3)] j(4) show ?thesis by blast
qed

theorem session_end_releases_witness:
  "\<exists>st'. handle_delete demo_api demo_delete demo_listing = (Responded (make_json_response demo_delete 200 ''{}''), st')
     \<and> ht_exchanges (resume_wait demo_api 1 (demo_post (Some ''s'') ''list'') ''2'' st') ! 1
        = Ex_answered (demo_post (Some ''s'') ''list'') (make_error_response demo_api (demo_post (Some ''s'') ''list'') 404 ''Session terminated'')"
proof -
  have "hr_session demo_delete = Some ''s''" "check_protocol_version demo_api (ht_protocol demo_listing) demo_delete
      (j_of_list demo_api (map (j_of_string demo_api) [''method'', ''delete''])) = None"
    by (simp_all add: demo_delete_def demo_post_def check_protocol_version_def is_initialize_request_def is_discover_request_def has_text_method_def
      demo_api_def tree_api_def)
  from session_end_releases [OF demo_listing_reachable demo_listing_waits(4,5) this demo_listing_waits(1,2)] show ?thesis by blast
qed

lemma demo_ended_reachable: "transport_reachable demo_api demo_random demo_ended"
  unfolding demo_ended_def
  by (rule transport_reachable.step [OF demo_listing_reachable transport_step.received])
    (simp add: demo_listing_def demo_session_def demo_asked_def demo_listening_def)

lemma demo_ended_awaiting: "ht_awaiting_next demo_ended"
  by (simp add: demo_ended_def demo_delete_def demo_listing_def demo_session_def demo_asked_def demo_request_defs demo_defs Let_def
    handle_delete_def validate_delete_session_def terminate_session_def)

theorem nothing_recorded_between_sessions_witness:
  "ht_events (close_transport demo_ended) = ht_events demo_ended \<and> ht_awaiting_next (close_transport demo_ended)
   \<or> (\<exists>m j. run_write demo_api demo_random m demo_ended = Inr (close_transport demo_ended) \<and> j_parse demo_api m = Some j
        \<and> is_initialize_result_response demo_api j)"
  by (rule nothing_recorded_between_sessions [OF demo_ended_reachable transport_step.closed demo_ended_awaiting])

theorem close_releases_witness:
  "ht_exchanges (resume_wait demo_api 1 (demo_post (Some ''s'') ''list'') ''2'' (sweep_closed (close_transport demo_listing))) ! 1
     = Ex_dropped (demo_post (Some ''s'') ''list'')"
proof -
  have c: "transport_reachable demo_api demo_random (close_transport demo_listing)"
    by (rule transport_reachable.step [OF demo_listing_reachable transport_step.closed])
  have "transport_reachable demo_api demo_random (sweep_closed (close_transport demo_listing))"
    by (rule transport_reachable.step [OF c transport_step.swept]) (simp_all add: close_transport_def demo_listing_waits)
  moreover have "ht_swept (sweep_closed (close_transport demo_listing))"
      "ht_exchanges (sweep_closed (close_transport demo_listing)) = ht_exchanges demo_listing"
    by (simp_all add: sweep_closed_def close_transport_def)
  ultimately show ?thesis
    using close_releases [of demo_api demo_random "sweep_closed (close_transport demo_listing)" 1 "demo_post (Some ''s'') ''list''" "''2''"]
      demo_listing_waits by simp
qed

end
