(* ===== verification/SessionScenario.thy ===== *)
theory SessionScenario
  imports SessionManagerProps HttpScenario
begin

text \<open>Two clients of the session manager, and what the theorems say of the states they reach.\<close>

definition demo_init_json :: tree where
  "demo_init_json = T_object [(''id'', T_int 1), (''method'', T_string ''initialize'')]"

abbreviation init_post :: HttpRequest where
  "init_post \<equiv> demo_post None ''init''"

definition demo_manager :: "tree Manager" where
  "demo_manager = (new_manager 2)\<lparr>sm_listening := True\<rparr>"

definition demo_runtime :: "tree SessionRuntime" where
  "demo_runtime = new_runtime ''0'' 2"

definition demo_resolved :: "tree Manager" where
  "demo_resolved = demo_manager\<lparr>sm_drawn := 1, sm_runtimes := [demo_runtime], sm_sessions := [(''0'', 0)],
     sm_exchanges := [Mx_resolved init_post demo_init_json 0]\<rparr>"

definition demo_pending :: SessionPending where
  "demo_pending = \<lparr>sp_timer = 0, sp_body = None, sp_events = [], sp_ready = False\<rparr>"

definition demo_writing :: "tree Manager" where
  "demo_writing = demo_resolved\<lparr>sm_runtimes := [demo_runtime\<lparr>sr_pending := [(''1'', demo_pending)]\<rparr>],
     sm_exchanges := [Mx_writing init_post demo_init_json 0 (Some ''1'')]\<rparr>"

definition demo_looking :: "tree Manager" where
  "demo_looking = demo_writing\<lparr>sm_runtimes := [demo_runtime\<lparr>sr_pending := [(''1'', demo_pending)], sr_inbox := [demo_init_json]\<rparr>],
     sm_exchanges := [Mx_looking init_post 0 ''1'']\<rparr>"

definition demo_asleep :: "tree Manager" where
  "demo_asleep = demo_looking\<lparr>sm_exchanges := [Mx_asleep init_post 0 ''1'']\<rparr>"

definition demo_told :: "tree Manager" where
  "demo_told = signal_arrives 0 (dispatch_response_to_pending demo_api 0 ''session'' demo_asleep)"

lemma demo_zero [simp]: "decimal 0 = ''0''"
  by code_simp

lemmas manager_defs = demo_manager_def new_manager_def demo_runtime_def new_runtime_def default_config_def default_max_request_body_bytes_def

lemma demo_manager_reachable: "manager_reachable demo_api decimal demo_manager"
proof -
  have "manager_step demo_api decimal (new_manager 2) demo_manager"
    by (rule manager_step.listened) (simp add: manager_listen_def demo_manager_def new_manager_def)
  with manager_reachable.start manager_reachable.step show ?thesis by metis
qed

lemma demo_receives: "manager_receive demo_api decimal init_post demo_manager = demo_resolved"
  by (simp add: manager_receive_def manager_request_def admitted_request_def manager_post_def resolve_session_for_post_def place_exchange_def
    create_session_def find_session_def check_origin_def manager_metadata_def is_unauthenticated_path_def has_valid_protocol_header_def
    unanswerable_id_def lacks_id_or_method_def answerable_id_def is_initialize_request_def is_discover_request_def has_text_method_def
    demo_defs manager_defs demo_resolved_def demo_init_json_def Let_def)

lemma demo_received_step: "manager_step demo_api decimal demo_manager demo_resolved"
  unfolding demo_receives [symmetric] by (rule manager_step.received) (simp add: demo_manager_def)

lemma demo_resolved_reachable: "manager_reachable demo_api decimal demo_resolved"
  by (rule manager_reachable.step [OF demo_manager_reachable demo_received_step])

lemma demo_registers: "place_exchange 0 init_post (register_post demo_api 0 init_post demo_init_json 0 demo_resolved) = demo_writing"
  by (simp add: register_post_def place_exchange_def set_runtime_def initialize_protocol_version_def lacks_id_or_method_def
    is_initialize_request_def has_text_method_def negotiate_protocol_version_def
    demo_api_def tree_api_def demo_post_def manager_defs demo_resolved_def demo_writing_def demo_pending_def demo_init_json_def Let_def)

lemma demo_writing_reachable: "manager_reachable demo_api decimal demo_writing"
  unfolding demo_registers [symmetric]
  by (rule manager_reachable.step [OF demo_resolved_reachable manager_step.registered]) (simp_all add: demo_resolved_def)

lemma demo_writes_session: "place_exchange 0 init_post (write_to_session init_post demo_init_json 0 (Some ''1'') demo_writing) = demo_looking"
  by (simp add: write_to_session_def place_exchange_def set_runtime_def manager_defs demo_looking_def demo_writing_def demo_resolved_def Let_def)

lemma demo_looking_reachable: "manager_reachable demo_api decimal demo_looking"
  unfolding demo_writes_session [symmetric]
  by (rule manager_reachable.step [OF demo_writing_reachable manager_step.written]) (simp_all add: demo_writing_def)

lemma demo_sleeps: "place_exchange 0 init_post (look_for_response demo_api init_post 0 ''1'' demo_looking) = demo_asleep"
  by (simp add: look_for_response_def place_exchange_def manager_defs demo_asleep_def demo_looking_def demo_writing_def demo_resolved_def
    demo_pending_def Let_def)

lemma demo_asleep_reachable: "manager_reachable demo_api decimal demo_asleep"
  unfolding demo_sleeps [symmetric]
  by (rule manager_reachable.step [OF demo_looking_reachable manager_step.looked]) (simp_all add: demo_looking_def)

lemma demo_asleep_fields:
  "length (sm_exchanges demo_asleep) = 1" "sm_exchanges demo_asleep ! 0 = Mx_asleep init_post 0 ''1''"
  "sm_runtimes demo_asleep = [demo_runtime\<lparr>sr_pending := [(''1'', demo_pending)], sr_inbox := [demo_init_json]\<rparr>]"
  "sm_json_only demo_asleep = False" "sm_signals demo_asleep = []" "sm_closed demo_asleep = False" "sm_sessions demo_asleep = [(''0'', 0)]"
  "sm_listening demo_asleep" "sm_config demo_asleep = \<lparr>mc_http = default_config, mc_custom = None, mc_stateless = False\<rparr>"
  by (simp_all add: demo_asleep_def demo_looking_def demo_writing_def demo_resolved_def demo_manager_def new_manager_def)

lemma demo_route: "message_route demo_api ''session'' = Some (Some ''1'')"
proof -
  have "scan_jsonrpc_envelope ''session'' = None" by code_simp
  then show ?thesis by (simp add: message_route_def demo_api_def demo_message_def tree_api_def)
qed

theorem no_lost_wakeup_witness:
  "0 \<in> set (sm_signals (dispatch_response_to_pending demo_api 0 ''session'' demo_asleep))
   \<and> sm_exchanges (signal_arrives 0 demo_asleep) ! 0 = Mx_looking init_post 0 ''1''"
  using no_lost_wakeup [OF demo_asleep_reachable, of 0 init_post 0 "''1''" "''session''"] demo_asleep_fields(1,2) demo_route by auto

theorem only_admitted_requests_act_witness:
  "\<exists>verdict. check_origin demo_api (mc_http (sm_config demo_manager)) init_post = None
     \<and> authenticated (mc_http (sm_config demo_manager)) init_post verdict"
proof -
  have "0 < length (sm_exchanges demo_resolved)" "acts_for (sm_exchanges demo_resolved ! 0) = Some init_post"
    "0 < length (sm_exchanges demo_manager) \<longrightarrow> acts_for (sm_exchanges demo_manager ! 0) = None"
    by (simp_all add: demo_resolved_def demo_manager_def new_manager_def)
  from only_admitted_requests_act [OF demo_manager_reachable demo_received_step this] show ?thesis by blast
qed

lemma demo_told_reachable: "manager_reachable demo_api decimal demo_told"
proof -
  let ?st = "dispatch_response_to_pending demo_api 0 ''session'' demo_asleep"
  have "manager_reachable demo_api decimal ?st"
    by (rule manager_reachable.step [OF demo_asleep_reachable manager_step.outbound])
      (simp_all add: demo_asleep_fields demo_runtime_def new_runtime_def)
  moreover have "0 \<in> set (sm_signals ?st)" using no_lost_wakeup_witness by blast
  ultimately show ?thesis unfolding demo_told_def using manager_reachable.step manager_step.signalled by metis
qed

lemma demo_told_fields:
  "length (sm_exchanges demo_told) = 1" "sm_exchanges demo_told ! 0 = Mx_looking init_post 0 ''1''"
  "\<exists>p. sr_pending (sm_runtimes demo_told ! 0) = [(''1'', p)] \<and> sp_ready p \<and> sp_body p = Some ''session''"
  "sm_closed demo_told = False" "sr_id (sm_runtimes demo_told ! 0) = ''0''"
  by (simp_all add: demo_told_def signal_arrives_def dispatch_response_to_pending_def demo_route route_answer_def set_runtime_def Let_def
    demo_asleep_fields demo_runtime_def new_runtime_def demo_pending_def case_prod_unfold)

theorem session_answers_isolated_witness:
  "\<exists>r st1. look_for_response demo_api init_post 0 ''1'' demo_told = (Mx_answered init_post r, st1)
     \<and> rs_session r = Some (sr_id (sm_runtimes demo_told ! 0))"
proof -
  let ?rt = "sm_runtimes demo_told ! 0"
  obtain p where p: "sr_pending ?rt = [(''1'', p)]" "sp_ready p" "sp_body p = Some ''session''" using demo_told_fields(3) by blast
  let ?r = "session_answer demo_api init_post (sm_json_only demo_told) (sr_id ?rt) p"
  have looks: "look_for_response demo_api init_post 0 ''1'' demo_told = (Mx_answered init_post ?r, forget_entry 0 ''1'' demo_told)"
    using p by (simp add: look_for_response_def demo_told_fields(4) Let_def)
  have "rs_status ?r = 200" using p(3) by (simp add: session_answer_def make_sse_replay_response_def make_json_response_def)
  with looks session_answers_isolated [OF demo_told_reachable, of 0 init_post 0 "''1''" ?r "forget_entry 0 ''1'' demo_told"] demo_told_fields(1,2)
  have "rs_session ?r = Some (sr_id ?rt)" by simp
  with looks show ?thesis by blast
qed

definition delete_request :: HttpRequest where
  "delete_request = (demo_post (Some ''0'') [])\<lparr>hr_verb := Http_delete\<rparr>"

definition demo_deleting :: "tree Manager" where
  "demo_deleting = demo_asleep\<lparr>sm_exchanges := [Mx_asleep init_post 0 ''1'', Mx_deleting delete_request]\<rparr>"

definition demo_deleted :: "tree Manager" where
  "demo_deleted = demo_asleep\<lparr>sm_sessions := [], sm_exchanges := [Mx_asleep init_post 0 ''1'', Mx_destroying delete_request 0 False]\<rparr>"

lemma demo_asleep_exchanges: "sm_exchanges demo_asleep = [Mx_asleep init_post 0 ''1'']"
  by (simp add: demo_asleep_def)

lemma demo_deletes: "manager_receive demo_api decimal delete_request demo_asleep = demo_deleting"
  by (simp add: manager_receive_def manager_request_def admitted_request_def manager_delete_def named_session_def find_session_def
    place_exchange_def check_origin_def manager_metadata_def is_unauthenticated_path_def delete_request_def demo_post_def
    demo_asleep_fields demo_asleep_exchanges demo_deleting_def default_config_def default_max_request_body_bytes_def Let_def)

lemma demo_deleting_reachable: "manager_reachable demo_api decimal demo_deleting"
  unfolding demo_deletes [symmetric]
  by (rule manager_reachable.step [OF demo_asleep_reachable manager_step.received]) (simp add: demo_asleep_fields)

lemma demo_erases: "place_exchange 1 delete_request (erase_session delete_request demo_deleting) = demo_deleted"
  by (simp add: erase_session_def find_session_def place_exchange_def delete_request_def demo_post_def demo_deleting_def demo_deleted_def
    demo_asleep_fields)

lemma demo_deleted_reachable: "manager_reachable demo_api decimal demo_deleted"
  unfolding demo_erases [symmetric]
  by (rule manager_reachable.step [OF demo_deleting_reachable manager_step.deleted]) (simp_all add: demo_deleting_def)

theorem deleted_session_gone_witness:
  "find_session ''0'' (close_manager_flag demo_deleted) = None
   \<and> named_session demo_api delete_request demo_deleted
       = Inl (make_jsonrpc_error_response demo_api delete_request 404 invalid_request ''Session not found'')"
proof -
  have "inj decimal" by (rule injI) (simp add: decimal_inject)
  moreover have "length (sm_runtimes demo_deleted) = 1" "sr_id (sm_runtimes demo_deleted ! 0) = ''0''" "sm_sessions demo_deleted = []"
    by (simp_all add: demo_deleted_def demo_asleep_fields demo_runtime_def new_runtime_def)
  moreover have "hr_session delete_request = Some ''0''" by (simp add: delete_request_def demo_post_def)
  ultimately show ?thesis
    using deleted_session_gone [OF _ demo_deleted_reachable manager_step.closed, of 0 delete_request] by (simp add: find_session_def)
qed

end
