(* ===== verification/MemoryTransport.thy ===== *)
theory MemoryTransport
  imports MessageQueue Json "HOL-Library.Sublist" "HOL-Library.Multiset"
begin

text \<open>
  The in-memory transport (transport/memory.cpp): two endpoints, each with a queue of messages and the
  reads that wait for one. A read is named by the number of its call; a step is one uninterrupted
  stretch on the strand of an endpoint. \<open>close\<close> raises its flags at once, from any thread.
\<close>

subsection \<open>One endpoint\<close>

datatype 'j Message = Text_message string | Json_message 'j

definition as_string :: "'j JsonApi \<Rightarrow> 'j Message \<Rightarrow> string" where
  "as_string api m = (case m of Text_message s \<Rightarrow> s | Json_message j \<Rightarrow> j_dump api j)"

text \<open>\<open>None\<close>: the text does not parse, and \<open>parse\<close> throws.\<close>

definition as_json :: "'j JsonApi \<Rightarrow> 'j Message \<Rightarrow> 'j option" where
  "as_json api m = (case m of Text_message s \<Rightarrow> j_parse api s | Json_message j \<Rightarrow> Some j)"

text \<open>
  A read waits; it was handed a message and will resume; it returned the message; it found the transport
  closed; its wait failed, so that the waiter it left in the queue is expired. \<open>ep_delivered\<close> is the
  history of the messages the endpoint took from its peer.
\<close>

datatype 'm Read = Read_waiting | Read_handed 'm | Read_done 'm | Read_closed | Read_failed

record 'm Endpoint =
  ep_incoming :: "'m list"
  ep_waiters :: "nat list"
  ep_closed :: bool
  ep_reads :: "'m Read list"
  ep_delivered :: "'m list"

definition new_endpoint :: "'m Endpoint" where
  "new_endpoint = \<lparr>ep_incoming = [], ep_waiters = [], ep_closed = False, ep_reads = [], ep_delivered = []\<rparr>"

definition start_message_read :: "'m Endpoint \<Rightarrow> 'm Endpoint" where
  "start_message_read ep =
     (if ep_closed ep then ep\<lparr>ep_reads := ep_reads ep @ [Read_closed]\<rparr>
      else case ep_incoming ep of
             m # ms \<Rightarrow> ep\<lparr>ep_incoming := ms, ep_reads := ep_reads ep @ [Read_done m]\<rparr>
           | [] \<Rightarrow> ep\<lparr>ep_reads := ep_reads ep @ [Read_waiting], ep_waiters := ep_waiters ep @ [length (ep_reads ep)]\<rparr>)"

text \<open>The wait ends: with the message, with the end of the transport, or (\<open>failed\<close>) with an error of the timer.\<close>

definition resume_message_read :: "nat \<Rightarrow> bool \<Rightarrow> 'm Endpoint \<Rightarrow> 'm Endpoint" where
  "resume_message_read i failed ep =
     (case ep_reads ep ! i of
        Read_handed m \<Rightarrow> ep\<lparr>ep_reads := (ep_reads ep)[i := (if ep_closed ep then Read_closed else Read_done m)]\<rparr>
      | Read_waiting \<Rightarrow>
          if ep_closed ep then ep\<lparr>ep_reads := (ep_reads ep)[i := Read_closed]\<rparr>
          else if failed then ep\<lparr>ep_reads := (ep_reads ep)[i := Read_failed]\<rparr>
          else ep
      | _ \<Rightarrow> ep)"

text \<open>The loop of \<open>deliver_message\<close>, which skips the waiters of reads that are gone.\<close>

fun hand_over :: "'m \<Rightarrow> nat list \<Rightarrow> 'm Endpoint \<Rightarrow> 'm Endpoint" where
  "hand_over m [] ep = ep\<lparr>ep_waiters := [], ep_incoming := ep_incoming ep @ [m]\<rparr>"
| "hand_over m (i # ws) ep =
     (if ep_reads ep ! i = Read_waiting
      then ep\<lparr>ep_waiters := ws, ep_reads := (ep_reads ep)[i := Read_handed m]\<rparr>
      else hand_over m ws ep)"

definition deliver_message :: "'m \<Rightarrow> 'm Endpoint \<Rightarrow> 'm Endpoint" where
  "deliver_message m ep = hand_over m (ep_waiters ep) (ep\<lparr>ep_delivered := ep_delivered ep @ [m]\<rparr>)"

definition close_endpoint :: "'m Endpoint \<Rightarrow> 'm Endpoint" where
  "close_endpoint ep = ep\<lparr>ep_closed := True\<rparr>"

definition wake_readers :: "'m Endpoint \<Rightarrow> 'm Endpoint" where
  "wake_readers ep = ep\<lparr>ep_waiters := []\<rparr>"

subsection \<open>A pair\<close>

text \<open>A write checks its own endpoint and the peer, and then delivers on the strand of the peer.\<close>

datatype WriteState = Write_begun | Write_done | Write_failed string

record 'm Pair =
  pa_ends :: "bool \<Rightarrow> 'm Endpoint"
  pa_linked :: "bool \<Rightarrow> bool"
  pa_writes :: "(bool \<times> 'm \<times> WriteState) list"

definition new_pair :: "'m Pair" where
  "new_pair = \<lparr>pa_ends = (\<lambda>_. new_endpoint), pa_linked = (\<lambda>_. True), pa_writes = []\<rparr>"

definition begin_write :: "bool \<Rightarrow> 'm \<Rightarrow> 'm Pair \<Rightarrow> 'm Pair" where
  "begin_write side m p =
     p\<lparr>pa_writes := pa_writes p @ [(side, m,
       if ep_closed (pa_ends p side) then Write_failed ''transport closed''
       else if \<not> pa_linked p side then Write_failed ''peer transport not set'' else Write_begun)]\<rparr>"

definition deliver :: "nat \<Rightarrow> 'm Pair \<Rightarrow> 'm Pair" where
  "deliver k p =
     (case pa_writes p ! k of (side, m, _) \<Rightarrow>
        if ep_closed (pa_ends p side) \<or> ep_closed (pa_ends p (\<not> side))
        then p\<lparr>pa_writes := (pa_writes p)[k := (side, m, Write_failed ''transport closed'')]\<rparr>
        else p\<lparr>pa_writes := (pa_writes p)[k := (side, m, Write_done)],
               pa_ends := (pa_ends p)(\<not> side := deliver_message m (pa_ends p (\<not> side)))\<rparr>)"

definition close_pair :: "bool \<Rightarrow> 'm Pair \<Rightarrow> 'm Pair" where
  "close_pair side p =
     p\<lparr>pa_ends := (\<lambda>s. if s = side \<or> pa_linked p side then close_endpoint (pa_ends p s) else pa_ends p s)\<rparr>"

definition unlink_peer :: "bool \<Rightarrow> 'm Pair \<Rightarrow> 'm Pair" where
  "unlink_peer side p = p\<lparr>pa_linked := (pa_linked p)(side := False)\<rparr>"

text \<open>An endpoint that nobody holds any more closes its peer.\<close>

definition destroy_end :: "bool \<Rightarrow> 'm Pair \<Rightarrow> 'm Pair" where
  "destroy_end side p =
     p\<lparr>pa_ends := (if pa_linked p side then (pa_ends p)(\<not> side := close_endpoint (pa_ends p (\<not> side))) else pa_ends p),
       pa_linked := (pa_linked p)(\<not> side := False)\<rparr>"

definition on_end :: "bool \<Rightarrow> ('m Endpoint \<Rightarrow> 'm Endpoint) \<Rightarrow> 'm Pair \<Rightarrow> 'm Pair" where
  "on_end side f p = p\<lparr>pa_ends := (pa_ends p)(side := f (pa_ends p side))\<rparr>"

inductive pair_step :: "'m Pair \<Rightarrow> 'm Pair \<Rightarrow> bool" where
  begun: "pair_step p (begin_write side m p)"
| delivered: "k < length (pa_writes p) \<Longrightarrow> pa_writes p ! k = (side, m, Write_begun) \<Longrightarrow> pair_step p (deliver k p)"
| reading: "pair_step p (on_end side start_message_read p)"
| resumed: "i < length (ep_reads (pa_ends p side)) \<Longrightarrow> pair_step p (on_end side (resume_message_read i failed) p)"
| closed: "pair_step p (close_pair side p)"
| woken: "ep_closed (pa_ends p side) \<Longrightarrow> pair_step p (on_end side wake_readers p)"
| unlinked: "pair_step p (unlink_peer side p)"
| destroyed: "pair_step p (destroy_end side p)"

inductive pair_reachable :: "'m Pair \<Rightarrow> bool" where
  start: "pair_reachable new_pair"
| step: "pair_reachable p \<Longrightarrow> pair_step p p' \<Longrightarrow> pair_reachable p'"


subsection \<open>Messages arrive in order\<close>

definition given :: "'m Read \<Rightarrow> 'm list" where
  "given r = (case r of Read_handed m \<Rightarrow> [m] | Read_done m \<Rightarrow> [m] | _ \<Rightarrow> [])"

definition given_all :: "'m Read list \<Rightarrow> 'm list" where
  "given_all rs = concat (map given rs)"

definition returned :: "'m Read list \<Rightarrow> 'm list" where
  "returned rs = concat (map (\<lambda>r. case r of Read_done m \<Rightarrow> [m] | _ \<Rightarrow> []) rs)"

lemma given_simps [simp]:
  "given Read_waiting = []" "given (Read_handed m) = [m]" "given (Read_done m) = [m]" "given Read_closed = []" "given Read_failed = []"
  by (simp_all add: given_def)

lemma given_all_simps [simp]: "given_all [] = []" "given_all (r # rs) = given r @ given_all rs" "given_all (rs @ ts) = given_all rs @ given_all ts"
  by (simp_all add: given_all_def)

text \<open>
  While the endpoint is open, every read that waits is in the queue of waiters, later reads have no
  message yet, and the queue of messages is empty.
\<close>

definition endpoint_ok :: "'m Endpoint \<Rightarrow> bool" where
  "endpoint_ok ep \<longleftrightarrow> subseq (given_all (ep_reads ep)) (ep_delivered ep)
     \<and> (\<forall>i \<in> set (ep_waiters ep). i < length (ep_reads ep)) \<and> sorted_wrt (<) (ep_waiters ep)
     \<and> (\<not> ep_closed ep \<longrightarrow> given_all (ep_reads ep) @ ep_incoming ep = ep_delivered ep
         \<and> (\<forall>i < length (ep_reads ep). ep_reads ep ! i = Read_waiting \<longrightarrow>
              i \<in> set (ep_waiters ep) \<and> ep_incoming ep = [] \<and> (\<forall>j < length (ep_reads ep). i < j \<longrightarrow> given (ep_reads ep ! j) = [])))"

lemma given_all_update:
  "i < length rs \<Longrightarrow> given (rs ! i) = given r \<Longrightarrow> given_all (rs[i := r]) = given_all rs"
  by (simp add: given_all_def map_update) (metis length_map list_update_id nth_map)

lemma given_all_drop: "i < length rs \<Longrightarrow> given r = [] \<Longrightarrow> subseq (given_all (rs[i := r])) (given_all rs)"
proof -
  assume i: "i < length rs" and r: "given r = []"
  then have "given_all rs = given_all (take i rs) @ given (rs ! i) @ given_all (drop (Suc i) rs)"
    by (metis append_take_drop_id Cons_nth_drop_Suc given_all_simps(2,3))
  moreover have "given_all (rs[i := r]) = given_all (take i rs) @ given_all (drop (Suc i) rs)"
    using i r by (simp add: upd_conv_take_nth_drop)
  ultimately show ?thesis by (simp add: subseq_append' list_emb_append2)
qed

lemma given_all_last:
  assumes "i < length rs" "given (rs ! i) = []" "\<forall>j < length rs. i < j \<longrightarrow> given (rs ! j) = []" "given r = [m]"
  shows "given_all (rs[i := r]) = given_all rs @ [m]"
proof -
  have "given_all rs = given_all (take i rs) @ given (rs ! i) @ given_all (drop (Suc i) rs)"
    using assms(1) by (metis append_take_drop_id Cons_nth_drop_Suc given_all_simps(2,3))
  moreover have "given_all (rs[i := r]) = given_all (take i rs) @ [m] @ given_all (drop (Suc i) rs)"
    using assms(1,4) by (simp add: upd_conv_take_nth_drop)
  moreover have "given_all (drop (Suc i) rs) = []"
    using assms(1,3) by (auto simp: given_all_def in_set_conv_nth)
  ultimately show ?thesis using assms(2) by simp
qed

lemma hand_over_skips:
  "\<forall>i \<in> set ws. ep_reads ep ! i \<noteq> Read_waiting \<Longrightarrow> hand_over m (ws @ vs) ep = hand_over m vs ep"
  by (induction ws) auto

text \<open>Where a message goes: to the first read that waits, or into the queue.\<close>

lemma hand_over_cases:
  assumes "sorted_wrt (<) ws"
  obtains "\<forall>i \<in> set ws. ep_reads ep ! i \<noteq> Read_waiting" "hand_over m ws ep = ep\<lparr>ep_waiters := [], ep_incoming := ep_incoming ep @ [m]\<rparr>"
  | i vs where "i \<in> set ws" "ep_reads ep ! i = Read_waiting" "set vs \<subseteq> set ws" "sorted_wrt (<) vs"
      "\<forall>k \<in> set ws. k \<notin> set vs \<longrightarrow> k = i \<or> ep_reads ep ! k \<noteq> Read_waiting" "\<forall>k \<in> set vs. i < k"
      "hand_over m ws ep = ep\<lparr>ep_waiters := vs, ep_reads := (ep_reads ep)[i := Read_handed m]\<rparr>"
proof (cases "\<exists>i \<in> set ws. ep_reads ep ! i = Read_waiting")
  case False
  then show ?thesis using that(1) hand_over_skips [of ws ep m "[]"] by auto
next
  case True
  then obtain us i vs where s: "ws = us @ i # vs" "ep_reads ep ! i = Read_waiting" "\<forall>k \<in> set us. ep_reads ep ! k \<noteq> Read_waiting"
    using split_list_first_prop [of ws "\<lambda>i. ep_reads ep ! i = Read_waiting"] by blast
  show ?thesis
    by (rule that(2) [of i vs]) (use s assms hand_over_skips [OF s(3), of m "i # vs"] in \<open>auto simp: sorted_wrt_append\<close>)
qed

lemma deliver_message_ok:
  assumes ok: "endpoint_ok ep" and op: "\<not> ep_closed ep"
  shows "endpoint_ok (deliver_message m ep)"
proof -
  let ?ep = "ep\<lparr>ep_delivered := ep_delivered ep @ [m]\<rparr>"
  have s: "sorted_wrt (<) (ep_waiters ep)" using ok by (simp add: endpoint_ok_def)
  have inv: "given_all (ep_reads ep) @ ep_incoming ep = ep_delivered ep"
    "\<forall>i < length (ep_reads ep). ep_reads ep ! i = Read_waiting \<longrightarrow>
       i \<in> set (ep_waiters ep) \<and> ep_incoming ep = [] \<and> (\<forall>j < length (ep_reads ep). i < j \<longrightarrow> given (ep_reads ep ! j) = [])"
    "\<forall>i \<in> set (ep_waiters ep). i < length (ep_reads ep)"
    using ok op by (auto simp: endpoint_ok_def)
  show ?thesis
  proof (cases rule: hand_over_cases [OF s, of ?ep m])
    case 1
    then have none: "\<forall>i < length (ep_reads ep). ep_reads ep ! i \<noteq> Read_waiting" using inv(2) by auto
    have d: "deliver_message m ep = ep\<lparr>ep_delivered := ep_delivered ep @ [m], ep_waiters := [], ep_incoming := ep_incoming ep @ [m]\<rparr>"
      using 1(2) by (simp add: deliver_message_def)
    have g: "given_all (ep_reads ep) @ ep_incoming ep @ [m] = ep_delivered ep @ [m]" unfolding inv(1) [symmetric] by simp
    then have "subseq (given_all (ep_reads ep)) (ep_delivered ep @ [m])" by (metis subseq_rev_drop_many subseq_order.order_refl)
    then show ?thesis unfolding d endpoint_ok_def using g none by simp
  next
    case (2 i vs)
    have i: "i < length (ep_reads ep)" "ep_reads ep ! i = Read_waiting" using 2 inv(3) by simp_all
    then have e: "ep_incoming ep = []" "\<forall>j < length (ep_reads ep). i < j \<longrightarrow> given (ep_reads ep ! j) = []" using inv(2) by blast+
    have g: "given_all ((ep_reads ep)[i := Read_handed m]) = ep_delivered ep @ [m]"
      using given_all_last [OF i(1) _ e(2), of "Read_handed m" m] i(2) inv(1) e(1) by simp
    have w: "k \<in> set vs" if k: "k < length (ep_reads ep)" "(ep_reads ep)[i := Read_handed m] ! k = Read_waiting" for k
    proof -
      have "k \<noteq> i" using k by (metis Read.distinct(1) nth_list_update_eq)
      with k have "ep_reads ep ! k = Read_waiting" by simp
      with k(1) inv(2) 2(5) \<open>k \<noteq> i\<close> show ?thesis by auto
    qed
    then have later: "i < k" if "k < length (ep_reads ep)" "(ep_reads ep)[i := Read_handed m] ! k = Read_waiting" for k
      using that 2(6) by blast
    have none: "given ((ep_reads ep)[i := Read_handed m] ! j) = []" if "j < length (ep_reads ep)" "i < j" for j
      using that e(2) by simp
    have d: "deliver_message m ep = ep\<lparr>ep_delivered := ep_delivered ep @ [m], ep_waiters := vs,
        ep_reads := (ep_reads ep)[i := Read_handed m]\<rparr>" using 2(7) by (simp add: deliver_message_def)
    have bounds: "\<forall>k \<in> set vs. k < length (ep_reads ep)" using 2(3) inv(3) by blast
    have waiting: "\<forall>k < length (ep_reads ep). (ep_reads ep)[i := Read_handed m] ! k = Read_waiting \<longrightarrow>
        k \<in> set vs \<and> ep_incoming ep = []
        \<and> (\<forall>j < length (ep_reads ep). k < j \<longrightarrow> given ((ep_reads ep)[i := Read_handed m] ! j) = [])"
      using w later none e(1) by (meson order.strict_trans)
    show ?thesis unfolding d endpoint_ok_def using g bounds 2(4) waiting e(1) by simp
  qed
qed

lemma start_read_ok: "endpoint_ok ep \<Longrightarrow> endpoint_ok (start_message_read ep)"
proof (cases "ep_closed ep")
  case True
  assume "endpoint_ok ep"
  with True show ?thesis by (auto simp: endpoint_ok_def start_message_read_def)
next
  case False
  assume ok: "endpoint_ok ep"
  then have inv: "subseq (given_all (ep_reads ep)) (ep_delivered ep)" "given_all (ep_reads ep) @ ep_incoming ep = ep_delivered ep"
      "\<forall>i < length (ep_reads ep). ep_reads ep ! i = Read_waiting \<longrightarrow>
       i \<in> set (ep_waiters ep) \<and> ep_incoming ep = [] \<and> (\<forall>j < length (ep_reads ep). i < j \<longrightarrow> given (ep_reads ep ! j) = [])"
      "\<forall>i \<in> set (ep_waiters ep). i < length (ep_reads ep)" "sorted_wrt (<) (ep_waiters ep)"
    using False by (auto simp: endpoint_ok_def)
  show ?thesis
  proof (cases "ep_incoming ep")
    case (Cons m ms)
    then have "\<forall>i < length (ep_reads ep). ep_reads ep ! i \<noteq> Read_waiting" using inv(3) by auto
    moreover have "given_all (ep_reads ep) @ [m] @ ms = ep_delivered ep" using inv(2) Cons by simp
    moreover from this have "subseq (given_all (ep_reads ep) @ [m]) (ep_delivered ep)" by (metis append_assoc subseq_rev_drop_many subseq_order.order_refl)
    ultimately show ?thesis using False Cons inv(4,5)
      by (auto simp: endpoint_ok_def start_message_read_def nth_append less_Suc_eq)
  next
    case Nil
    have "\<forall>i < Suc (length (ep_reads ep)). (ep_reads ep @ [Read_waiting]) ! i = Read_waiting \<longrightarrow>
        i \<in> set (ep_waiters ep @ [length (ep_reads ep)])
        \<and> (\<forall>j < Suc (length (ep_reads ep)). i < j \<longrightarrow> given ((ep_reads ep @ [Read_waiting]) ! j) = [])"
      using inv(3) by (auto simp: nth_append less_Suc_eq)
    then show ?thesis using False Nil inv
      by (auto simp: endpoint_ok_def start_message_read_def sorted_wrt_append less_SucI)
  qed
qed

lemma resume_read_ok: "endpoint_ok ep \<Longrightarrow> i < length (ep_reads ep) \<Longrightarrow> endpoint_ok (resume_message_read i failed ep)"
proof -
  assume ok: "endpoint_ok ep" and i: "i < length (ep_reads ep)"
  have none: "endpoint_ok (ep\<lparr>ep_reads := (ep_reads ep)[i := r]\<rparr>)" if r: "given r = []" "r \<noteq> Read_waiting" "ep_closed ep \<or> ep_reads ep ! i = Read_waiting" for r
  proof -
    have sub: "subseq (given_all ((ep_reads ep)[i := r])) (ep_delivered ep)"
      using given_all_drop [OF i r(1)] ok subseq_order.order_trans unfolding endpoint_ok_def by blast
    show ?thesis
    proof (cases "ep_closed ep")
      case True
      with ok sub show ?thesis by (simp add: endpoint_ok_def)
    next
      case False
      then have "given_all ((ep_reads ep)[i := r]) = given_all (ep_reads ep)" using r i by (intro given_all_update) simp_all
      moreover have "(ep_reads ep)[i := r] ! k = Read_waiting \<Longrightarrow> ep_reads ep ! k = Read_waiting" if "k < length (ep_reads ep)" for k
        using r(2) i that by (metis nth_list_update_eq nth_list_update_neq)
      moreover have "given ((ep_reads ep)[i := r] ! k) = [] \<longleftrightarrow> given (ep_reads ep ! k) = []" if "k < length (ep_reads ep)" for k
        using r(1,3) False i that by (cases "k = i") simp_all
      ultimately show ?thesis using ok sub False unfolding endpoint_ok_def by simp
    qed
  qed
  have handed: "endpoint_ok (ep\<lparr>ep_reads := (ep_reads ep)[i := Read_done m]\<rparr>)" if m: "ep_reads ep ! i = Read_handed m" "\<not> ep_closed ep" for m
  proof -
    have "given_all ((ep_reads ep)[i := Read_done m]) = given_all (ep_reads ep)" using m i by (intro given_all_update) simp_all
    moreover have "(ep_reads ep)[i := Read_done m] ! k = Read_waiting \<Longrightarrow> ep_reads ep ! k = Read_waiting" if "k < length (ep_reads ep)" for k
      using i that by (metis Read.distinct(3) nth_list_update_eq nth_list_update_neq)
    moreover have "given ((ep_reads ep)[i := Read_done m] ! k) = [] \<longleftrightarrow> given (ep_reads ep ! k) = []" if "k < length (ep_reads ep)" for k
      using m i that by (cases "k = i") simp_all
    ultimately show ?thesis using ok m unfolding endpoint_ok_def by simp
  qed
  show ?thesis using ok none handed by (auto simp: resume_message_read_def split: Read.split)
qed


subsection \<open>The pair\<close>

definition done_by :: "bool \<Rightarrow> (bool \<times> 'm \<times> WriteState) list \<Rightarrow> 'm list" where
  "done_by side ws = map (fst \<circ> snd) (filter (\<lambda>(s, m, st). s = side \<and> st = Write_done) ws)"

definition pair_ok :: "'m Pair \<Rightarrow> bool" where
  "pair_ok p \<longleftrightarrow> (\<forall>side. endpoint_ok (pa_ends p side)
     \<and> mset (ep_delivered (pa_ends p side)) = mset (done_by (\<not> side) (pa_writes p)))"

lemma hand_over_delivered [simp]: "ep_delivered (hand_over m ws ep) = ep_delivered ep"
  by (induction ws) auto

lemma deliver_message_delivered [simp]: "ep_delivered (deliver_message m ep) = ep_delivered ep @ [m]"
  by (simp add: deliver_message_def)

lemma start_read_delivered [simp]: "ep_delivered (start_message_read ep) = ep_delivered ep"
  by (simp add: start_message_read_def split: list.split)

lemma resume_read_delivered [simp]: "ep_delivered (resume_message_read i failed ep) = ep_delivered ep"
  by (simp add: resume_message_read_def split: Read.split)

lemma done_by_update:
  assumes "k < length ws" "ws ! k = (side, m, Write_begun)"
  shows "mset (done_by s (ws[k := (side, m, Write_done)])) = mset (done_by s ws) + (if s = side then {#m#} else {#})"
    and "done_by s (ws[k := (side, m, Write_failed t)]) = done_by s ws"
proof -
  have w: "ws = take k ws @ (side, m, Write_begun) # drop (Suc k) ws" using assms by (metis id_take_nth_drop)
  have u: "ws[k := x] = take k ws @ x # drop (Suc k) ws" for x using assms(1) by (rule upd_conv_take_nth_drop)
  have "done_by s ws = done_by s (take k ws) @ done_by s (drop (Suc k) ws)" by (subst w) (simp add: done_by_def)
  then show "mset (done_by s (ws[k := (side, m, Write_done)])) = mset (done_by s ws) + (if s = side then {#m#} else {#})"
    and "done_by s (ws[k := (side, m, Write_failed t)]) = done_by s ws"
    unfolding u by (simp_all add: done_by_def)
qed

lemma on_end_ok:
  assumes "pair_ok p" "\<And>ep. endpoint_ok ep \<Longrightarrow> ep = pa_ends p side \<Longrightarrow> endpoint_ok (f ep)" "\<And>ep. ep_delivered (f ep) = ep_delivered ep"
  shows "pair_ok (on_end side f p)"
  using assms by (auto simp: pair_ok_def on_end_def)

lemma close_endpoint_ok: "endpoint_ok ep \<Longrightarrow> endpoint_ok (close_endpoint ep)"
  by (simp add: endpoint_ok_def close_endpoint_def)

lemma deliver_ok:
  assumes ok: "pair_ok p" and k: "k < length (pa_writes p)" "pa_writes p ! k = (side, m, Write_begun)"
  shows "pair_ok (deliver k p)"
proof (cases "ep_closed (pa_ends p side) \<or> ep_closed (pa_ends p (\<not> side))")
  case True
  with ok k done_by_update(2) [OF k] show ?thesis by (simp add: pair_ok_def deliver_def)
next
  case False
  then have d: "deliver k p = p\<lparr>pa_writes := (pa_writes p)[k := (side, m, Write_done)],
      pa_ends := (pa_ends p)(\<not> side := deliver_message m (pa_ends p (\<not> side)))\<rparr>" using k(2) by (simp add: deliver_def)
  have "endpoint_ok (deliver_message m (pa_ends p (\<not> side)))" using ok False by (intro deliver_message_ok) (simp_all add: pair_ok_def)
  then show ?thesis unfolding d pair_ok_def using ok done_by_update(1) [OF k] by (auto simp: pair_ok_def)
qed

lemma pair_step_ok: "pair_step p p' \<Longrightarrow> pair_ok p \<Longrightarrow> pair_ok p'"
proof (induction rule: pair_step.induct)
  case (begun p side m)
  have "done_by s (pa_writes (begin_write side m p)) = done_by s (pa_writes p)" for s by (simp add: begin_write_def done_by_def)
  moreover have "pa_ends (begin_write side m p) = pa_ends p" by (simp add: begin_write_def)
  ultimately show ?case using begun by (simp add: pair_ok_def)
next
  case (delivered k p side m)
  then show ?case by (intro deliver_ok)
next
  case (reading p side)
  then show ?case by (intro on_end_ok start_read_ok) simp_all
next
  case (resumed i p side failed)
  then show ?case by (intro on_end_ok resume_read_ok) simp_all
next
  case (closed p side)
  have "ep_delivered (close_endpoint ep) = ep_delivered ep" for ep :: "'a Endpoint" by (simp add: close_endpoint_def)
  with closed close_endpoint_ok show ?case by (auto simp: pair_ok_def close_pair_def)
next
  case (woken p side)
  then show ?case by (intro on_end_ok) (auto simp: endpoint_ok_def wake_readers_def)
next
  case (unlinked p side)
  then show ?case by (simp add: pair_ok_def unlink_peer_def)
next
  case (destroyed p side)
  have "ep_delivered (close_endpoint ep) = ep_delivered ep" for ep :: "'a Endpoint" by (simp add: close_endpoint_def)
  with destroyed show ?case by (auto simp: pair_ok_def destroy_end_def intro: close_endpoint_ok)
qed

lemma pair_reachable_ok: "pair_reachable p \<Longrightarrow> pair_ok p"
proof (induction rule: pair_reachable.induct)
  case start
  then show ?case by (simp add: pair_ok_def endpoint_ok_def new_pair_def new_endpoint_def done_by_def given_all_def)
next
  case (step p p')
  then show ?case using pair_step_ok by blast
qed

lemma returned_given: "subseq (returned rs) (given_all rs)"
proof (induction rs)
  case (Cons r rs)
  then show ?case by (cases r) (auto simp: returned_def list_emb_append2 intro: list_emb_Cons)
qed (simp add: returned_def)

text \<open>Messages arrive in order, and once: what the reads of an endpoint returned, in the order the reads began, is
  a subsequence of what it took from the peer, and that is exactly the messages of the writes that
  succeeded. While the endpoint is open nothing is lost: the messages that went to reads, followed by
  those in the queue, are all of them, and no read waits while a message is in the queue.\<close>

theorem messages_in_order:
  assumes "pair_reachable p" and "ep = pa_ends p (\<not> side)"
  shows "subseq (returned (ep_reads ep)) (ep_delivered ep) \<and> mset (ep_delivered ep) = mset (done_by side (pa_writes p))
    \<and> (ep_closed ep \<or> given_all (ep_reads ep) @ ep_incoming ep = ep_delivered ep
        \<and> (ep_incoming ep = [] \<or> Read_waiting \<notin> set (ep_reads ep)))"
proof -
  have ok: "endpoint_ok ep" "mset (ep_delivered ep) = mset (done_by side (pa_writes p))"
    using pair_reachable_ok [OF assms(1)] assms(2) by (simp_all add: pair_ok_def)
  then have "subseq (returned (ep_reads ep)) (ep_delivered ep)"
    using returned_given subseq_order.order_trans unfolding endpoint_ok_def by blast
  moreover have "ep_closed ep \<or> given_all (ep_reads ep) @ ep_incoming ep = ep_delivered ep
        \<and> (ep_incoming ep = [] \<or> Read_waiting \<notin> set (ep_reads ep))"
    using ok(1) by (auto simp: endpoint_ok_def in_set_conv_nth)
  ultimately show ?thesis using ok(2) by blast
qed

lemma returned_update:
  assumes "i < length rs" "\<forall>m. rs ! i \<noteq> Read_done m"
  shows "returned (rs[i := Read_closed]) = returned rs"
proof -
  define f :: "'a Read \<Rightarrow> 'a list" where "f r = (case r of Read_done m \<Rightarrow> [m] | _ \<Rightarrow> [])" for r
  have "f (rs ! i) = []" using assms(2) by (simp add: f_def split: Read.split)
  moreover have "f Read_closed = []" by (simp add: f_def)
  ultimately have "map f (rs[i := Read_closed]) = map f rs"
    using assms(1) by (metis length_map list_update_id map_update nth_map)
  then show ?thesis unfolding returned_def f_def by simp
qed

text \<open>After \<open>close\<close> no operation waits: a read that begins or resumes ends, without a message, and a write fails
  with the text of a closed transport, at its start or when it is delivered.\<close>

theorem closed_transport_refuses:
  assumes "ep_closed (pa_ends p side)" and "i < length (ep_reads (pa_ends p side))"
  shows "last (ep_reads (start_message_read (pa_ends p side))) = Read_closed
    \<and> ep_reads (resume_message_read i failed (pa_ends p side)) ! i \<noteq> Read_waiting
    \<and> returned (ep_reads (resume_message_read i failed (pa_ends p side))) = returned (ep_reads (pa_ends p side))
    \<and> last (pa_writes (begin_write side m p)) = (side, m, Write_failed ''transport closed'')
    \<and> (k < length (pa_writes p) \<and> pa_writes p ! k = (s, m', Write_begun) \<longrightarrow>
         pa_writes (deliver k p) ! k = (s, m', Write_failed ''transport closed''))"
proof -
  let ?rs = "ep_reads (pa_ends p side)"
  note r = returned_update [OF assms(2)]
  have "s = side \<or> (\<not> s) = side" by auto
  with assms r show ?thesis
    by (auto simp: start_message_read_def resume_message_read_def begin_write_def deliver_def split: Read.split)
qed

subsection \<open>An endpoint as a queue\<close>

definition take_first_message :: "'m Endpoint \<Rightarrow> 'm option \<times> 'm Endpoint" where
  "take_first_message ep =
     (let ep' = start_message_read ep in (case last (ep_reads ep') of Read_done m \<Rightarrow> Some m | _ \<Rightarrow> None, ep'))"

interpretation endpoint_queue: message_queue ep_incoming "\<lambda>ep. \<not> ep_closed ep \<and> ep_waiters ep = []" deliver_message take_first_message
  by unfold_locales (simp_all add: deliver_message_def take_first_message_def start_message_read_def)

text \<open>Reads of an open endpoint that nobody waits on return what is in its queue and then what is delivered to it, in order.\<close>

lemma endpoint_fifo:
  assumes "\<not> ep_closed ep" and "ep_waiters ep = []"
  shows "take_messages take_first_message (length (ep_incoming ep) + length ms) (put_messages deliver_message ms ep)
    = map Some (ep_incoming ep) @ map Some ms"
  using assms by (intro endpoint_queue.fifo) simp

subsection \<open>A pair in use\<close>

definition demo_pair :: "string Pair" where
  "demo_pair = on_end False start_message_read (deliver 0 (deliver 1 (begin_write True ''b'' (begin_write True ''a'' (on_end False start_message_read new_pair)))))"

lemmas demo_pair_defs = demo_pair_def on_end_def start_message_read_def new_pair_def new_endpoint_def begin_write_def deliver_def deliver_message_def

lemma demo_pair_reachable: "pair_reachable demo_pair"
proof -
  let ?p = "begin_write True ''b'' (begin_write True ''a'' (on_end False start_message_read new_pair))"
  have "pair_reachable (on_end False start_message_read new_pair)" by (rule pair_reachable.step [OF pair_reachable.start pair_step.reading])
  then have "pair_reachable (begin_write True ''a'' (on_end False start_message_read new_pair))" by (rule pair_reachable.step [OF _ pair_step.begun])
  then have "pair_reachable ?p" by (rule pair_reachable.step [OF _ pair_step.begun])
  then have "pair_reachable (deliver 1 ?p)"
    by (rule pair_reachable.step [OF _ pair_step.delivered [of 1 _ True "''b''"]]) (simp_all add: demo_pair_defs)
  then have "pair_reachable (deliver 0 (deliver 1 ?p))"
    by (rule pair_reachable.step [OF _ pair_step.delivered [of 0 _ True "''a''"]]) (simp_all add: demo_pair_defs)
  then show ?thesis unfolding demo_pair_def by (rule pair_reachable.step [OF _ pair_step.reading])
qed

theorem messages_in_order_witness:
  "subseq (returned (ep_reads (pa_ends demo_pair False))) [''b'', ''a'']
   \<and> given_all (ep_reads (pa_ends demo_pair False)) @ ep_incoming (pa_ends demo_pair False) = [''b'', ''a'']"
proof -
  have d: "ep_delivered (pa_ends demo_pair False) = [''b'', ''a'']" "\<not> ep_closed (pa_ends demo_pair False)"
    by (simp_all add: demo_pair_defs)
  from messages_in_order [OF demo_pair_reachable, of "pa_ends demo_pair False" True] d show ?thesis by simp
qed

theorem closed_transport_refuses_witness:
  "last (pa_writes (begin_write False ''c'' (close_pair True demo_pair))) = (False, ''c'', Write_failed ''transport closed'')
   \<and> ep_reads (resume_message_read 0 False (pa_ends (close_pair True demo_pair) False)) ! 0 \<noteq> Read_waiting"
proof -
  have "ep_closed (pa_ends (close_pair True demo_pair) False)" "0 < length (ep_reads (pa_ends (close_pair True demo_pair) False))"
    by (simp_all add: close_pair_def close_endpoint_def demo_pair_defs)
  from closed_transport_refuses [OF this, of False "''c''" 0 False] show ?thesis by blast
qed

end
