(* ===== verification/ProtoSampling.thy ===== *)
theory ProtoSampling
  imports ProtoTools
begin

text \<open>
  Sampling and elicitation (protocol/sampling.hpp and protocol/elicitation.hpp).
\<close>

record ToolChoice =
  tool_choice_mode :: "string option"

definition tool_choice_to_json :: "'j JsonApi \<Rightarrow> ToolChoice \<Rightarrow> 'j" where
  "tool_choice_to_json api v =
     put_optional api (j_of_string api) (j_empty_object api) ''mode'' (tool_choice_mode v)"

definition tool_choice_from_json :: "'j JsonApi \<Rightarrow> 'j \<Rightarrow> DecodeError + ToolChoice" where
  "tool_choice_from_json api j =
     bindE (get_optional api (j_string api) j ''mode'') (\<lambda>mode'.
     Inr \<lparr>tool_choice_mode = mode'\<rparr>)"

lemma tool_choice_object [codec]: "json_laws api \<Longrightarrow> j_is_object api (tool_choice_to_json api v)"
  by (simp add: tool_choice_to_json_def Let_def)

lemma tool_choice_roundtrip [codec]:
  "json_laws api \<Longrightarrow> tool_choice_from_json api (tool_choice_to_json api v) = Inr v"
  by (cases v) (simp add: tool_choice_to_json_def tool_choice_from_json_def Let_def codec)

record ModelHint =
  model_hint_name :: "string option"

definition model_hint_to_json :: "'j JsonApi \<Rightarrow> ModelHint \<Rightarrow> 'j" where
  "model_hint_to_json api v =
     put_optional api (j_of_string api) (j_empty_object api) ''name'' (model_hint_name v)"

definition model_hint_from_json :: "'j JsonApi \<Rightarrow> 'j \<Rightarrow> DecodeError + ModelHint" where
  "model_hint_from_json api j =
     bindE (get_optional api (j_string api) j ''name'') (\<lambda>name'.
     Inr \<lparr>model_hint_name = name'\<rparr>)"

lemma model_hint_object [codec]: "json_laws api \<Longrightarrow> j_is_object api (model_hint_to_json api v)"
  by (simp add: model_hint_to_json_def Let_def)

lemma model_hint_roundtrip [codec]:
  "json_laws api \<Longrightarrow> model_hint_from_json api (model_hint_to_json api v) = Inr v"
  by (cases v) (simp add: model_hint_to_json_def model_hint_from_json_def Let_def codec)

record ModelPreferences =
  model_preferences_costPriority :: "double option"
  model_preferences_hints :: "ModelHint list option"
  model_preferences_intelligencePriority :: "double option"
  model_preferences_speedPriority :: "double option"

definition model_preferences_to_json :: "'j JsonApi \<Rightarrow> ModelPreferences \<Rightarrow> 'j" where
  "model_preferences_to_json api v =
     (let j = put_optional api (j_of_double api) (j_empty_object api) ''costPriority'' (model_preferences_costPriority v);
          j = put_optional api (put_list api (model_hint_to_json api)) j ''hints'' (model_preferences_hints v);
          j = put_optional api (j_of_double api) j ''intelligencePriority'' (model_preferences_intelligencePriority v);
          j = put_optional api (j_of_double api) j ''speedPriority'' (model_preferences_speedPriority v)
      in j)"

definition model_preferences_from_json :: "'j JsonApi \<Rightarrow> 'j \<Rightarrow> DecodeError + ModelPreferences" where
  "model_preferences_from_json api j =
     bindE (get_optional api (j_double api) j ''costPriority'') (\<lambda>costPriority'.
     bindE (get_optional api (get_list api (model_hint_from_json api)) j ''hints'') (\<lambda>hints'.
     bindE (get_optional api (j_double api) j ''intelligencePriority'') (\<lambda>intelligencePriority'.
     bindE (get_optional api (j_double api) j ''speedPriority'') (\<lambda>speedPriority'.
     Inr \<lparr>model_preferences_costPriority = costPriority', model_preferences_hints = hints', model_preferences_intelligencePriority = intelligencePriority', model_preferences_speedPriority = speedPriority'\<rparr>))))"

definition model_preferences_ok :: "'j JsonApi \<Rightarrow> ModelPreferences \<Rightarrow> bool" where
  "model_preferences_ok api v \<longleftrightarrow> (\<forall>y \<in> set_option (model_preferences_costPriority v). finite_double y)
     \<and> (\<forall>y \<in> set_option (model_preferences_intelligencePriority v). finite_double y)
     \<and> (\<forall>y \<in> set_option (model_preferences_speedPriority v). finite_double y)"

lemma model_preferences_object [codec]: "json_laws api \<Longrightarrow> j_is_object api (model_preferences_to_json api v)"
  by (simp add: model_preferences_to_json_def Let_def)

lemma model_preferences_roundtrip [codec]:
  "json_laws api \<Longrightarrow> model_preferences_ok api v \<Longrightarrow> model_preferences_from_json api (model_preferences_to_json api v) = Inr v"
  by (cases v) (simp add: model_preferences_to_json_def model_preferences_from_json_def model_preferences_ok_def Let_def codec)

datatype 'j SamplingMessageContent = One_block "'j ContentBlock" | Many_blocks "'j ContentBlock list"

definition sampling_message_content_to_json :: "'j JsonApi \<Rightarrow> 'j SamplingMessageContent \<Rightarrow> 'j" where
  "sampling_message_content_to_json api v =
     (case v of
     One_block x \<Rightarrow> content_block_to_json api x
   | Many_blocks x \<Rightarrow> put_list api (content_block_to_json api) x)"

definition sampling_message_content_from_json :: "'j JsonApi \<Rightarrow> 'j \<Rightarrow> DecodeError + 'j SamplingMessageContent" where
  "sampling_message_content_from_json api j =
     (if j_is_array api j then bindE (get_list api (content_block_from_json api) j) (\<lambda>x. Inr (Many_blocks x))
      else bindE (content_block_from_json api j) (\<lambda>x. Inr (One_block x)))"

definition sampling_message_content_ok :: "'j JsonApi \<Rightarrow> 'j SamplingMessageContent \<Rightarrow> bool" where
  "sampling_message_content_ok api v \<longleftrightarrow>
     (case v of
     One_block x \<Rightarrow> content_block_ok api x
   | Many_blocks x \<Rightarrow> (\<forall>y \<in> set x. content_block_ok api y))"

lemma put_list_array [codec]: "json_laws api \<Longrightarrow> j_is_array api (put_list api setter xs)"
  by (simp add: put_list_def)

lemma sampling_message_content_not_null [codec]: "json_laws api \<Longrightarrow> \<not> j_is_null api (sampling_message_content_to_json api v)"
  by (cases v) (simp_all add: sampling_message_content_to_json_def codec)

lemma sampling_message_content_roundtrip [codec]:
  "json_laws api \<Longrightarrow> sampling_message_content_ok api v \<Longrightarrow>
     sampling_message_content_from_json api (sampling_message_content_to_json api v) = Inr v"
  by (cases v) (simp_all add: sampling_message_content_to_json_def sampling_message_content_from_json_def
    sampling_message_content_ok_def codec)

record 'j SamplingMessage =
  sampling_message_role :: Role
  sampling_message_content :: "'j SamplingMessageContent"
  sampling_message_meta :: "'j option"

definition sampling_message_to_json :: "'j JsonApi \<Rightarrow> 'j SamplingMessage \<Rightarrow> 'j" where
  "sampling_message_to_json api v =
     (let j = j_put api (j_empty_object api) ''role'' (role_to_json api (sampling_message_role v));
          j = j_put api j ''content'' (sampling_message_content_to_json api (sampling_message_content v));
          j = put_optional api put_json j ''_meta'' (sampling_message_meta v)
      in j)"

definition sampling_message_from_json :: "'j JsonApi \<Rightarrow> 'j \<Rightarrow> DecodeError + 'j SamplingMessage" where
  "sampling_message_from_json api j =
     bindE (get_member api (role_from_json api) j ''role'') (\<lambda>role'.
     bindE (get_member api (sampling_message_content_from_json api) j ''content'') (\<lambda>content'.
     bindE (get_if_present api get_json j ''_meta'') (\<lambda>meta'.
     Inr \<lparr>sampling_message_role = role', sampling_message_content = content', sampling_message_meta = meta'\<rparr>)))"

definition sampling_message_ok :: "'j JsonApi \<Rightarrow> 'j SamplingMessage \<Rightarrow> bool" where
  "sampling_message_ok api v \<longleftrightarrow> sampling_message_content_ok api (sampling_message_content v)"

lemma sampling_message_object [codec]: "json_laws api \<Longrightarrow> j_is_object api (sampling_message_to_json api v)"
  by (simp add: sampling_message_to_json_def Let_def)

lemma sampling_message_roundtrip [codec]:
  "json_laws api \<Longrightarrow> sampling_message_ok api v \<Longrightarrow> sampling_message_from_json api (sampling_message_to_json api v) = Inr v"
  by (cases v) (simp add: sampling_message_to_json_def sampling_message_from_json_def sampling_message_ok_def Let_def codec)

record 'j CreateMessageRequestParams =
  create_message_request_params_messages :: "'j SamplingMessage list"
  create_message_request_params_maxTokens :: int
  create_message_request_params_systemPrompt :: "string option"
  create_message_request_params_temperature :: "double option"
  create_message_request_params_stopSequences :: "string list option"
  create_message_request_params_modelPreferences :: "ModelPreferences option"
  create_message_request_params_includeContext :: "string option"
  create_message_request_params_tools :: "'j Tool list option"
  create_message_request_params_toolChoice :: "ToolChoice option"
  create_message_request_params_metadata :: "'j option"
  create_message_request_params_meta :: "'j option"

definition create_message_request_params_to_json :: "'j JsonApi \<Rightarrow> 'j CreateMessageRequestParams \<Rightarrow> 'j" where
  "create_message_request_params_to_json api v =
     (let j = j_put api (j_empty_object api) ''messages'' (put_list api (sampling_message_to_json api) (create_message_request_params_messages v));
          j = j_put api j ''maxTokens'' (j_of_int api (create_message_request_params_maxTokens v));
          j = put_optional api (j_of_string api) j ''systemPrompt'' (create_message_request_params_systemPrompt v);
          j = put_optional api (j_of_double api) j ''temperature'' (create_message_request_params_temperature v);
          j = put_optional api (put_list api (j_of_string api)) j ''stopSequences'' (create_message_request_params_stopSequences v);
          j = put_optional api (model_preferences_to_json api) j ''modelPreferences'' (create_message_request_params_modelPreferences v);
          j = put_optional api (j_of_string api) j ''includeContext'' (create_message_request_params_includeContext v);
          j = put_optional api (put_list api (tool_to_json api)) j ''tools'' (create_message_request_params_tools v);
          j = put_optional api (tool_choice_to_json api) j ''toolChoice'' (create_message_request_params_toolChoice v);
          j = put_optional api put_json j ''metadata'' (create_message_request_params_metadata v);
          j = put_optional api put_json j ''_meta'' (create_message_request_params_meta v)
      in j)"

definition create_message_request_params_from_json :: "'j JsonApi \<Rightarrow> 'j \<Rightarrow> DecodeError + 'j CreateMessageRequestParams" where
  "create_message_request_params_from_json api j =
     bindE (get_member api (get_list api (sampling_message_from_json api)) j ''messages'') (\<lambda>messages'.
     bindE (get_member api (get_int32 api) j ''maxTokens'') (\<lambda>maxTokens'.
     bindE (get_optional api (j_string api) j ''systemPrompt'') (\<lambda>systemPrompt'.
     bindE (get_optional api (j_double api) j ''temperature'') (\<lambda>temperature'.
     bindE (get_optional api (get_list api (j_string api)) j ''stopSequences'') (\<lambda>stopSequences'.
     bindE (get_if_present api (model_preferences_from_json api) j ''modelPreferences'') (\<lambda>modelPreferences'.
     bindE (get_optional api (j_string api) j ''includeContext'') (\<lambda>includeContext'.
     bindE (get_optional api (get_list api (tool_from_json api)) j ''tools'') (\<lambda>tools'.
     bindE (get_if_present api (tool_choice_from_json api) j ''toolChoice'') (\<lambda>toolChoice'.
     bindE (get_if_present api get_json j ''metadata'') (\<lambda>metadata'.
     bindE (get_if_present api get_json j ''_meta'') (\<lambda>meta'.
     Inr \<lparr>create_message_request_params_messages = messages', create_message_request_params_maxTokens = maxTokens', create_message_request_params_systemPrompt = systemPrompt', create_message_request_params_temperature = temperature', create_message_request_params_stopSequences = stopSequences', create_message_request_params_modelPreferences = modelPreferences', create_message_request_params_includeContext = includeContext', create_message_request_params_tools = tools', create_message_request_params_toolChoice = toolChoice', create_message_request_params_metadata = metadata', create_message_request_params_meta = meta'\<rparr>)))))))))))"

definition create_message_request_params_ok :: "'j JsonApi \<Rightarrow> 'j CreateMessageRequestParams \<Rightarrow> bool" where
  "create_message_request_params_ok api v \<longleftrightarrow> (\<forall>y \<in> set (create_message_request_params_messages v). sampling_message_ok api y)
     \<and> int32_range (create_message_request_params_maxTokens v)
     \<and> (\<forall>y \<in> set_option (create_message_request_params_temperature v). finite_double y)
     \<and> (\<forall>y \<in> set_option (create_message_request_params_modelPreferences v). model_preferences_ok api y)
     \<and> (\<forall>y \<in> set_option (create_message_request_params_tools v). (\<forall>y \<in> set y. tool_ok api y))"

lemma create_message_request_params_object [codec]: "json_laws api \<Longrightarrow> j_is_object api (create_message_request_params_to_json api v)"
  by (simp add: create_message_request_params_to_json_def Let_def)

lemma create_message_request_params_roundtrip [codec]:
  "json_laws api \<Longrightarrow> create_message_request_params_ok api v \<Longrightarrow> create_message_request_params_from_json api (create_message_request_params_to_json api v) = Inr v"
  by (cases v) (simp add: create_message_request_params_to_json_def create_message_request_params_from_json_def create_message_request_params_ok_def Let_def codec)

record 'j CreateMessageRequest =
  create_message_request_method :: string
  create_message_request_params :: "'j CreateMessageRequestParams"

definition create_message_request_to_json :: "'j JsonApi \<Rightarrow> 'j CreateMessageRequest \<Rightarrow> 'j" where
  "create_message_request_to_json api v =
     (let j = j_put api (j_empty_object api) ''method'' (j_of_string api (create_message_request_method v));
          j = j_put api j ''params'' (create_message_request_params_to_json api (create_message_request_params v))
      in j)"

definition create_message_request_from_json :: "'j JsonApi \<Rightarrow> 'j \<Rightarrow> DecodeError + 'j CreateMessageRequest" where
  "create_message_request_from_json api j =
     bindE (get_member api (j_string api) j ''method'') (\<lambda>method'.
     bindE (get_member api (create_message_request_params_from_json api) j ''params'') (\<lambda>params'.
     Inr \<lparr>create_message_request_method = method', create_message_request_params = params'\<rparr>))"

definition create_message_request_ok :: "'j JsonApi \<Rightarrow> 'j CreateMessageRequest \<Rightarrow> bool" where
  "create_message_request_ok api v \<longleftrightarrow> create_message_request_params_ok api (create_message_request_params v)"

lemma create_message_request_object [codec]: "json_laws api \<Longrightarrow> j_is_object api (create_message_request_to_json api v)"
  by (simp add: create_message_request_to_json_def Let_def)

lemma create_message_request_roundtrip [codec]:
  "json_laws api \<Longrightarrow> create_message_request_ok api v \<Longrightarrow> create_message_request_from_json api (create_message_request_to_json api v) = Inr v"
  by (cases v) (simp add: create_message_request_to_json_def create_message_request_from_json_def create_message_request_ok_def Let_def codec)

record 'j CreateMessageResult =
  create_message_result_role :: Role
  create_message_result_content :: "'j SamplingMessageContent"
  create_message_result_model :: string
  create_message_result_stopReason :: "string option"
  create_message_result_meta :: "'j option"

definition create_message_result_to_json :: "'j JsonApi \<Rightarrow> 'j CreateMessageResult \<Rightarrow> 'j" where
  "create_message_result_to_json api v =
     (let j = j_put api (j_empty_object api) ''role'' (role_to_json api (create_message_result_role v));
          j = j_put api j ''content'' (sampling_message_content_to_json api (create_message_result_content v));
          j = j_put api j ''model'' (j_of_string api (create_message_result_model v));
          j = put_optional api (j_of_string api) j ''stopReason'' (create_message_result_stopReason v);
          j = put_optional api put_json j ''_meta'' (create_message_result_meta v)
      in j)"

definition create_message_result_from_json :: "'j JsonApi \<Rightarrow> 'j \<Rightarrow> DecodeError + 'j CreateMessageResult" where
  "create_message_result_from_json api j =
     bindE (get_member api (role_from_json api) j ''role'') (\<lambda>role'.
     bindE (get_member api (sampling_message_content_from_json api) j ''content'') (\<lambda>content'.
     bindE (get_member api (j_string api) j ''model'') (\<lambda>model'.
     bindE (get_if_present api (j_string api) j ''stopReason'') (\<lambda>stopReason'.
     bindE (get_if_present api get_json j ''_meta'') (\<lambda>meta'.
     Inr \<lparr>create_message_result_role = role', create_message_result_content = content', create_message_result_model = model', create_message_result_stopReason = stopReason', create_message_result_meta = meta'\<rparr>)))))"

definition create_message_result_ok :: "'j JsonApi \<Rightarrow> 'j CreateMessageResult \<Rightarrow> bool" where
  "create_message_result_ok api v \<longleftrightarrow> sampling_message_content_ok api (create_message_result_content v)"

lemma create_message_result_object [codec]: "json_laws api \<Longrightarrow> j_is_object api (create_message_result_to_json api v)"
  by (simp add: create_message_result_to_json_def Let_def)

lemma create_message_result_roundtrip [codec]:
  "json_laws api \<Longrightarrow> create_message_result_ok api v \<Longrightarrow> create_message_result_from_json api (create_message_result_to_json api v) = Inr v"
  by (cases v) (simp add: create_message_result_to_json_def create_message_result_from_json_def create_message_result_ok_def Let_def codec)

record PrimitiveSchemaDefinition =
  primitive_schema_definition_type :: string
  primitive_schema_definition_title :: "string option"
  primitive_schema_definition_description :: "string option"

definition primitive_schema_definition_to_json :: "'j JsonApi \<Rightarrow> PrimitiveSchemaDefinition \<Rightarrow> 'j" where
  "primitive_schema_definition_to_json api v =
     (let j = j_put api (j_empty_object api) ''type'' (j_of_string api (primitive_schema_definition_type v));
          j = put_optional api (j_of_string api) j ''title'' (primitive_schema_definition_title v);
          j = put_optional api (j_of_string api) j ''description'' (primitive_schema_definition_description v)
      in j)"

definition primitive_schema_definition_from_json :: "'j JsonApi \<Rightarrow> 'j \<Rightarrow> DecodeError + PrimitiveSchemaDefinition" where
  "primitive_schema_definition_from_json api j =
     bindE (get_member api (j_string api) j ''type'') (\<lambda>type'.
     bindE (get_optional api (j_string api) j ''title'') (\<lambda>title'.
     bindE (get_optional api (j_string api) j ''description'') (\<lambda>description'.
     Inr \<lparr>primitive_schema_definition_type = type', primitive_schema_definition_title = title', primitive_schema_definition_description = description'\<rparr>)))"

lemma primitive_schema_definition_object [codec]: "json_laws api \<Longrightarrow> j_is_object api (primitive_schema_definition_to_json api v)"
  by (simp add: primitive_schema_definition_to_json_def Let_def)

lemma primitive_schema_definition_roundtrip [codec]:
  "json_laws api \<Longrightarrow> primitive_schema_definition_from_json api (primitive_schema_definition_to_json api v) = Inr v"
  by (cases v) (simp add: primitive_schema_definition_to_json_def primitive_schema_definition_from_json_def Let_def codec)

record EnumSchema =
  enum_schema_base :: PrimitiveSchemaDefinition
  enum_schema_enumValues :: "string list"

definition enum_schema_to_json :: "'j JsonApi \<Rightarrow> EnumSchema \<Rightarrow> 'j" where
  "enum_schema_to_json api v =
     j_put api (primitive_schema_definition_to_json api (enum_schema_base v)) ''enum''
       (put_list api (j_of_string api) (enum_schema_enumValues v))"

definition enum_schema_from_json :: "'j JsonApi \<Rightarrow> 'j \<Rightarrow> DecodeError + EnumSchema" where
  "enum_schema_from_json api j =
     bindE (primitive_schema_definition_from_json api j) (\<lambda>base'.
     bindE (get_optional api (get_list api (j_string api)) j ''enum'') (\<lambda>values'.
     Inr \<lparr>enum_schema_base = base', enum_schema_enumValues = (case values' of None \<Rightarrow> [] | Some xs \<Rightarrow> xs)\<rparr>))"

lemma decode_optional_Some [codec]:
  "\<not> j_is_null api x \<Longrightarrow> decode_optional api getter (Some x) = bindE (getter x) (\<lambda>y. Inr (Some y))"
  by (simp add: decode_optional_def)

lemma enum_schema_object [codec]: "json_laws api \<Longrightarrow> j_is_object api (enum_schema_to_json api v)"
  by (simp add: enum_schema_to_json_def codec)

lemma enum_schema_roundtrip [codec]:
  "json_laws api \<Longrightarrow> enum_schema_from_json api (enum_schema_to_json api v) = Inr v"
  by (cases v; cases "enum_schema_base v")
    (simp add: enum_schema_to_json_def enum_schema_from_json_def primitive_schema_definition_to_json_def
      primitive_schema_definition_from_json_def Let_def codec)

record 'j ElicitRequestURLParams =
  elicit_request_url_params_mode :: string
  elicit_request_url_params_message :: string
  elicit_request_url_params_url :: string
  elicit_request_url_params_elicitationId :: string
  elicit_request_url_params_task :: "TaskMetadata option"
  elicit_request_url_params_meta :: "'j option"

definition elicit_request_url_params_to_json :: "'j JsonApi \<Rightarrow> 'j ElicitRequestURLParams \<Rightarrow> 'j" where
  "elicit_request_url_params_to_json api v =
     (let j = j_put api (j_empty_object api) ''mode'' (j_of_string api (elicit_request_url_params_mode v));
          j = j_put api j ''message'' (j_of_string api (elicit_request_url_params_message v));
          j = j_put api j ''url'' (j_of_string api (elicit_request_url_params_url v));
          j = j_put api j ''elicitationId'' (j_of_string api (elicit_request_url_params_elicitationId v));
          j = put_optional api (task_metadata_to_json api) j ''task'' (elicit_request_url_params_task v);
          j = put_optional api put_json j ''_meta'' (elicit_request_url_params_meta v)
      in j)"

definition elicit_request_url_params_from_json :: "'j JsonApi \<Rightarrow> 'j \<Rightarrow> DecodeError + 'j ElicitRequestURLParams" where
  "elicit_request_url_params_from_json api j =
     bindE (get_member api (j_string api) j ''mode'') (\<lambda>mode'.
     bindE (get_member api (j_string api) j ''message'') (\<lambda>message'.
     bindE (get_member api (j_string api) j ''url'') (\<lambda>url'.
     bindE (get_member api (j_string api) j ''elicitationId'') (\<lambda>elicitationId'.
     bindE (get_if_present api (task_metadata_from_json api) j ''task'') (\<lambda>task'.
     bindE (get_if_present api get_json j ''_meta'') (\<lambda>meta'.
     Inr \<lparr>elicit_request_url_params_mode = mode', elicit_request_url_params_message = message', elicit_request_url_params_url = url', elicit_request_url_params_elicitationId = elicitationId', elicit_request_url_params_task = task', elicit_request_url_params_meta = meta'\<rparr>))))))"

definition elicit_request_url_params_ok :: "'j JsonApi \<Rightarrow> 'j ElicitRequestURLParams \<Rightarrow> bool" where
  "elicit_request_url_params_ok api v \<longleftrightarrow> (\<forall>y \<in> set_option (elicit_request_url_params_task v). task_metadata_ok api y)"

lemma elicit_request_url_params_object [codec]: "json_laws api \<Longrightarrow> j_is_object api (elicit_request_url_params_to_json api v)"
  by (simp add: elicit_request_url_params_to_json_def Let_def)

lemma elicit_request_url_params_roundtrip [codec]:
  "json_laws api \<Longrightarrow> elicit_request_url_params_ok api v \<Longrightarrow> elicit_request_url_params_from_json api (elicit_request_url_params_to_json api v) = Inr v"
  by (cases v) (simp add: elicit_request_url_params_to_json_def elicit_request_url_params_from_json_def elicit_request_url_params_ok_def Let_def codec)

record 'j ElicitRequestFormParams =
  elicit_request_form_params_mode :: string
  elicit_request_form_params_message :: string
  elicit_request_form_params_requestedSchema :: "'j"
  elicit_request_form_params_task :: "TaskMetadata option"
  elicit_request_form_params_meta :: "'j option"

definition elicit_request_form_params_to_json :: "'j JsonApi \<Rightarrow> 'j ElicitRequestFormParams \<Rightarrow> 'j" where
  "elicit_request_form_params_to_json api v =
     (let j = j_put api (j_empty_object api) ''mode'' (j_of_string api (elicit_request_form_params_mode v));
          j = j_put api j ''message'' (j_of_string api (elicit_request_form_params_message v));
          j = j_put api j ''requestedSchema'' (elicit_request_form_params_requestedSchema v);
          j = put_optional api (task_metadata_to_json api) j ''task'' (elicit_request_form_params_task v);
          j = put_optional api put_json j ''_meta'' (elicit_request_form_params_meta v)
      in j)"

definition elicit_request_form_params_from_json :: "'j JsonApi \<Rightarrow> 'j \<Rightarrow> DecodeError + 'j ElicitRequestFormParams" where
  "elicit_request_form_params_from_json api j =
     bindE (get_member api (j_string api) j ''mode'') (\<lambda>mode'.
     bindE (get_member api (j_string api) j ''message'') (\<lambda>message'.
     bindE (get_member api get_json j ''requestedSchema'') (\<lambda>requestedSchema'.
     bindE (get_if_present api (task_metadata_from_json api) j ''task'') (\<lambda>task'.
     bindE (get_if_present api get_json j ''_meta'') (\<lambda>meta'.
     Inr \<lparr>elicit_request_form_params_mode = mode', elicit_request_form_params_message = message', elicit_request_form_params_requestedSchema = requestedSchema', elicit_request_form_params_task = task', elicit_request_form_params_meta = meta'\<rparr>)))))"

definition elicit_request_form_params_ok :: "'j JsonApi \<Rightarrow> 'j ElicitRequestFormParams \<Rightarrow> bool" where
  "elicit_request_form_params_ok api v \<longleftrightarrow> (\<forall>y \<in> set_option (elicit_request_form_params_task v). task_metadata_ok api y)"

lemma elicit_request_form_params_object [codec]: "json_laws api \<Longrightarrow> j_is_object api (elicit_request_form_params_to_json api v)"
  by (simp add: elicit_request_form_params_to_json_def Let_def)

lemma elicit_request_form_params_roundtrip [codec]:
  "json_laws api \<Longrightarrow> elicit_request_form_params_ok api v \<Longrightarrow> elicit_request_form_params_from_json api (elicit_request_form_params_to_json api v) = Inr v"
  by (cases v) (simp add: elicit_request_form_params_to_json_def elicit_request_form_params_from_json_def elicit_request_form_params_ok_def Let_def codec)

datatype 'j ElicitRequestParams = Url_params "'j ElicitRequestURLParams" | Form_params "'j ElicitRequestFormParams"

definition elicit_request_params_to_json :: "'j JsonApi \<Rightarrow> 'j ElicitRequestParams \<Rightarrow> 'j" where
  "elicit_request_params_to_json api v =
     (case v of
     Url_params x \<Rightarrow> elicit_request_url_params_to_json api x
   | Form_params x \<Rightarrow> elicit_request_form_params_to_json api x)"

definition elicit_request_params_from_json :: "'j JsonApi \<Rightarrow> 'j \<Rightarrow> DecodeError + 'j ElicitRequestParams" where
  "elicit_request_params_from_json api j =
     bindE (get_member api (j_string api) j ''mode'') (\<lambda>mode.
     if mode = ''url'' then bindE (elicit_request_url_params_from_json api j) (\<lambda>x. Inr (Url_params x))
     else if mode = ''form'' then bindE (elicit_request_form_params_from_json api j) (\<lambda>x. Inr (Form_params x))
     else Inl (Bad_value (''Unknown elicitation mode: '' @ mode)))"

definition elicit_request_params_ok :: "'j JsonApi \<Rightarrow> 'j ElicitRequestParams \<Rightarrow> bool" where
  "elicit_request_params_ok api v \<longleftrightarrow>
     (case v of
     Url_params x \<Rightarrow> elicit_request_url_params_mode x = ''url'' \<and> elicit_request_url_params_ok api x
   | Form_params x \<Rightarrow> elicit_request_form_params_mode x = ''form'' \<and> elicit_request_form_params_ok api x)"

lemma elicit_modes [codec]:
  "json_laws api \<Longrightarrow> j_find api (elicit_request_url_params_to_json api x) ''mode'' = Some (j_of_string api (elicit_request_url_params_mode x))"
  "json_laws api \<Longrightarrow> j_find api (elicit_request_form_params_to_json api y) ''mode'' = Some (j_of_string api (elicit_request_form_params_mode y))"
  by (simp_all add: elicit_request_url_params_to_json_def elicit_request_form_params_to_json_def Let_def)

lemma elicit_request_params_object [codec]: "json_laws api \<Longrightarrow> j_is_object api (elicit_request_params_to_json api v)"
  by (cases v) (simp_all add: elicit_request_params_to_json_def codec)

lemma elicit_request_params_roundtrip [codec]:
  "json_laws api \<Longrightarrow> elicit_request_params_ok api v \<Longrightarrow>
     elicit_request_params_from_json api (elicit_request_params_to_json api v) = Inr v"
  by (cases v) (simp_all add: elicit_request_params_to_json_def elicit_request_params_from_json_def elicit_request_params_ok_def codec)

record 'j ElicitRequest =
  elicit_request_method :: string
  elicit_request_params :: "'j ElicitRequestParams"

definition elicit_request_to_json :: "'j JsonApi \<Rightarrow> 'j ElicitRequest \<Rightarrow> 'j" where
  "elicit_request_to_json api v =
     (let j = j_put api (j_empty_object api) ''method'' (j_of_string api (elicit_request_method v));
          j = j_put api j ''params'' (elicit_request_params_to_json api (elicit_request_params v))
      in j)"

definition elicit_request_from_json :: "'j JsonApi \<Rightarrow> 'j \<Rightarrow> DecodeError + 'j ElicitRequest" where
  "elicit_request_from_json api j =
     bindE (get_member api (j_string api) j ''method'') (\<lambda>method'.
     bindE (get_member api (elicit_request_params_from_json api) j ''params'') (\<lambda>params'.
     Inr \<lparr>elicit_request_method = method', elicit_request_params = params'\<rparr>))"

definition elicit_request_ok :: "'j JsonApi \<Rightarrow> 'j ElicitRequest \<Rightarrow> bool" where
  "elicit_request_ok api v \<longleftrightarrow> elicit_request_params_ok api (elicit_request_params v)"

lemma elicit_request_object [codec]: "json_laws api \<Longrightarrow> j_is_object api (elicit_request_to_json api v)"
  by (simp add: elicit_request_to_json_def Let_def)

lemma elicit_request_roundtrip [codec]:
  "json_laws api \<Longrightarrow> elicit_request_ok api v \<Longrightarrow> elicit_request_from_json api (elicit_request_to_json api v) = Inr v"
  by (cases v) (simp add: elicit_request_to_json_def elicit_request_from_json_def elicit_request_ok_def Let_def codec)

datatype ElicitAction = ElicitAction_eAccept | ElicitAction_eDecline | ElicitAction_eCancel

definition elicit_action_names :: "(ElicitAction \<times> string) list" where
  "elicit_action_names = [(ElicitAction_eAccept, ''accept''), (ElicitAction_eDecline, ''decline''), (ElicitAction_eCancel, ''cancel'')]"

definition elicit_action_to_json :: "'j JsonApi \<Rightarrow> ElicitAction \<Rightarrow> 'j" where
  "elicit_action_to_json api = enum_to_json api elicit_action_names"

definition elicit_action_from_json :: "'j JsonApi \<Rightarrow> 'j \<Rightarrow> DecodeError + ElicitAction" where
  "elicit_action_from_json api = enum_from_json api elicit_action_names"

lemma elicit_action_roundtrip [codec]: "json_laws api \<Longrightarrow> elicit_action_from_json api (elicit_action_to_json api v) = Inr v"
  unfolding elicit_action_from_json_def elicit_action_to_json_def by (cases v) (auto intro!: enum_roundtrip simp: elicit_action_names_def)

lemma elicit_action_not_null [codec]: "json_laws api \<Longrightarrow> \<not> j_is_null api (elicit_action_to_json api v)"
  by (simp add: elicit_action_to_json_def codec)

record 'j ElicitResult =
  elicit_result_action :: ElicitAction
  elicit_result_content :: "'j option"
  elicit_result_meta :: "'j option"

definition elicit_result_to_json :: "'j JsonApi \<Rightarrow> 'j ElicitResult \<Rightarrow> 'j" where
  "elicit_result_to_json api v =
     (let j = j_put api (j_empty_object api) ''action'' (elicit_action_to_json api (elicit_result_action v));
          j = put_optional api put_json j ''content'' (elicit_result_content v);
          j = put_optional api put_json j ''_meta'' (elicit_result_meta v)
      in j)"

definition elicit_result_from_json :: "'j JsonApi \<Rightarrow> 'j \<Rightarrow> DecodeError + 'j ElicitResult" where
  "elicit_result_from_json api j =
     bindE (get_member api (elicit_action_from_json api) j ''action'') (\<lambda>action'.
     bindE (get_if_present api get_json j ''content'') (\<lambda>content'.
     bindE (get_if_present api get_json j ''_meta'') (\<lambda>meta'.
     Inr \<lparr>elicit_result_action = action', elicit_result_content = content', elicit_result_meta = meta'\<rparr>)))"

lemma elicit_result_object [codec]: "json_laws api \<Longrightarrow> j_is_object api (elicit_result_to_json api v)"
  by (simp add: elicit_result_to_json_def Let_def)

lemma elicit_result_roundtrip [codec]:
  "json_laws api \<Longrightarrow> elicit_result_from_json api (elicit_result_to_json api v) = Inr v"
  by (cases v) (simp add: elicit_result_to_json_def elicit_result_from_json_def Let_def codec)

text \<open>The parameters of a sampling request and the model's answer, with any mixture of content blocks, survive the
  wire: what the other side parses and decodes is what was sent.\<close>

theorem sampling_arrives:
  assumes "json_laws api" and "create_message_request_params_ok api p" and "create_message_result_ok api r"
  shows "map_option (create_message_request_params_from_json api) (j_parse api (j_dump api (create_message_request_params_to_json api p))) = Some (Inr p)
    \<and> map_option (create_message_result_from_json api) (j_parse api (j_dump api (create_message_result_to_json api r))) = Some (Inr r)"
  using assms by (simp add: codec)

definition small_sampling_request :: "'j CreateMessageRequestParams" where
  "small_sampling_request =
     \<lparr>create_message_request_params_messages = [\<lparr>sampling_message_role = Role_eUser,
        sampling_message_content = Many_blocks [Text_block \<lparr>text_content_type = ''text'', text_content_text = ''hi''\<rparr>],
        sampling_message_meta = None\<rparr>],
      create_message_request_params_maxTokens = 10, create_message_request_params_systemPrompt = None,
      create_message_request_params_temperature = Some 0x3FE0000000000000, create_message_request_params_stopSequences = None,
      create_message_request_params_modelPreferences = None, create_message_request_params_includeContext = None,
      create_message_request_params_tools = None, create_message_request_params_toolChoice = None,
      create_message_request_params_metadata = None, create_message_request_params_meta = None\<rparr>"

definition small_sampling_result :: "'j CreateMessageResult" where
  "small_sampling_result =
     \<lparr>create_message_result_role = Role_eAssistant,
      create_message_result_content = One_block (Text_block \<lparr>text_content_type = ''text'', text_content_text = ''hello''\<rparr>),
      create_message_result_model = ''m'', create_message_result_stopReason = Some ''endTurn'', create_message_result_meta = None\<rparr>"

theorem sampling_arrives_witness:
  "map_option (create_message_result_from_json tree_api) (j_parse tree_api (j_dump tree_api (create_message_result_to_json tree_api small_sampling_result)))
    = Some (Inr small_sampling_result)"
proof -
  have "take_bit 11 (drop_bit 52 (0x3FE0000000000000 :: 64 word)) = 1022"
    by (simp add: drop_bit_eq_div take_bit_eq_mod)
  then have "create_message_request_params_ok tree_api small_sampling_request"
    by (simp add: create_message_request_params_ok_def sampling_message_ok_def sampling_message_content_ok_def content_block_ok_def
      text_content_ok_def small_sampling_request_def int32_range_def finite_double_def)
  moreover have "create_message_result_ok tree_api small_sampling_result"
    by (simp add: create_message_result_ok_def sampling_message_content_ok_def content_block_ok_def text_content_ok_def small_sampling_result_def)
  ultimately show ?thesis using sampling_arrives [OF tree_api_laws] by blast
qed

end
