(* ===== verification/Spec2Isabelle.thy ===== *)
theory Spec2Isabelle
  imports RegexProps Diagnostics MetadataPolicy Challenge HttpTypes OAuthCodec OAuthUrl OAuthHttp OAuthTokens
    ClientIdentity OAuthRequests OAuthDiscovery OAuthFlights OAuthPending OAuthTransport JsonRpc JsonScan TransportWriter ClientProps UriTemplate ServerScenario SessionScenario MemoryTransport ProtoTools ProtoResources ProtoPrompts ProtoTasks ProtoSampling
begin

text \<open>
  A verification development for the C++ SDK of the Model Context Protocol: the library code under
  include/mcp and src (in this repository src/include/mcp and src/src).

  \<^bold>\<open>The program.\<close> A client and a server exchange JSON-RPC messages over a transport. The protocol
  headers (protocol/*.hpp) define the messages and their JSON forms. \<open>Client\<close> (client/client.cpp) keeps a
  table of the requests it waits for; \<open>Server\<close> (server/server.cpp) validates what it reads, runs the
  handlers of the application and answers. Both write through \<open>SerializedTransportWriter\<close> (core). On the
  HTTP side \<open>HttpServerTransport\<close> (transport/http_server.cpp) turns HTTP exchanges into messages and
  back. \<open>OAuthClientTransport\<close> (auth/oauth.cpp) wraps a transport and attaches access tokens, which the
  authorization manager, the authenticator, the discovery client and the client identity code obtain;
  everything those fetch passes the metadata policy (auth/metadata_policy.cpp). A small regular
  expression engine (core/regex.cpp) stands on its own and serves the schema validator.

  \<^bold>\<open>Theories and code.\<close> A theory holds the definitions of one part in the order the code has them, its
  invariants and its lemmas; a theory \<open>...Props\<close>, \<open>...Progress\<close>, \<open>...Handshake\<close> or \<open>...Scenario\<close> holds
  the properties of the model of that name and the concrete states that witness them.
  \<^item> Shared: \<open>Prelude\<close> (the C++ standard library types: \<open>std::string\<close> is a list of characters,
    \<open>std::size_t\<close> a 64-bit word where it can wrap and a natural number where it cannot, an error is the
    left side of a sum; \<open>bindE\<close> composes), \<open>Ascii\<close>, \<open>KeyedStore\<close> (the interface of the credential
    stores as a locale, interpreted on the in-memory store), \<open>Json\<close> (nlohmann/json as the record
    \<open>JsonApi\<close> of the operations the code calls).
  \<^item> core/regex.cpp: \<open>Utf8\<close>, \<open>RegexRange\<close>, \<open>RegexLexer\<close>, \<open>RegexParser\<close>, \<open>RegexProgram\<close>,
    \<open>RegexCompiler\<close>, \<open>SparseSet\<close> (\<open>ThreadList\<close>, a locale of sets of threads interpreted on it),
    \<open>RegexVM\<close>, \<open>RegexProps\<close>. \<open>regex_search_exact\<close> composes all of them.
  \<^item> auth: \<open>Diagnostics\<close> and \<open>MetadataPolicy\<close> (metadata_policy.cpp), \<open>Challenge\<close> (challenge.cpp),
    \<open>ClientIdentity\<close> (client_identity.cpp), and from oauth.cpp \<open>OAuthCodec\<close>, \<open>OAuthUrl\<close>, \<open>OAuthHttp\<close>
    (\<open>OAuthHttpClient\<close>), \<open>OAuthTokens\<close>, \<open>OAuthRequests\<close>, \<open>OAuthDiscovery\<close>, \<open>OAuthFlights\<close> (the single
    flights of \<open>OAuthAuthorizationManager\<close>), \<open>OAuthPending\<close> and \<open>OAuthTransport\<close> (\<open>OAuthClientTransport\<close>).
  \<^item> protocol: \<open>JsonRpc\<close> (base.hpp), \<open>ProtoCodec\<close> (what the codecs share), \<open>ProtoCapabilities\<close>,
    \<open>ProtoContent\<close>, \<open>ProtoTools\<close>, \<open>ProtoResources\<close>, \<open>ProtoPrompts\<close>, \<open>ProtoTasks\<close>, \<open>ProtoSampling\<close>; one
    record per struct, one \<open>..._to_json\<close> and \<open>..._from_json\<close> per pair of functions.
  \<^item> detail: \<open>JsonScan\<close> (peer_json.hpp and jsonrpc_envelope.hpp).
  \<^item> client: \<open>ClientModel\<close> and \<open>ClientProps\<close>; core: \<open>TransportWriter\<close>.
  \<^item> server/server.cpp: \<open>UriTemplate\<close>, \<open>ServerPages\<close>, \<open>ServerEnvelope\<close>, \<open>ServerTools\<close>, \<open>ServerHandlers\<close>,
    \<open>ServerModel\<close>; properties in \<open>ServerProps\<close>, \<open>ServerProgress\<close>, \<open>ServerHandshake\<close>, \<open>ServerScenario\<close>.
  \<^item> transport: \<open>HttpTypes\<close> (http_types.cpp), \<open>EventStore\<close> (http_server.hpp), \<open>HttpServer\<close>,
    \<open>HttpServerProps\<close>, \<open>HttpScenario\<close> (http_server.cpp).

  \<^bold>\<open>How concurrency is modelled.\<close> The program is made of coroutines on strands. A component with such
  code has a record for its state, one function per uninterrupted stretch of a coroutine (from one
  suspension to the next), and an inductive step relation whose rules are those functions; the rules
  also let the environment act: a message arrives, a handler finishes, time passes, a caller cancels, a
  transport closes. A property of all reachable states therefore holds for every interleaving. Histories
  that the properties need (the log of writes, the causes of an outcome) are fields that no guard reads.

  \<^bold>\<open>What is shown.\<close> In the order of the manifest: the search of the regular expression engine is exact
  and total; the server answers each request once, in its own session and run, forgets none, and runs no
  handler before the handshake or on arguments the schema refuses; only checked HTTP requests reach it and
  each answer reaches the exchange that waits for it; each request of the client has exactly one explained
  outcome and none waits for ever; templates match exactly the texts of their expansions; pages cover the
  list; messages survive the wire; at most one authorization flight of a kind is live and its followers
  are released; retries and stores are bounded; writes keep their order; every socket that is opened was
  allowed by the policy; authorization responses are used only when state and issuer are right.

  \<^bold>\<open>Fuel and bounds.\<close> The parser and the compiler of regular expressions take fuel, since their recursion
  is not structural in HOL. \<open>RegexParser\<close> and \<open>RegexCompiler\<close> show that the amount \<open>Regex\<close> supplies (the
  nesting limit the code itself enforces, and the number of nodes) is never used up
  (\<open>regex_constructor_returns\<close>). The budget of a search is the program's own. All other recursions are
  shown to terminate. Counters that can wrap are words (event numbers, page offsets, counts of sessions);
  where a theorem needs that a counter has not wrapped, it says so.

  \<^bold>\<open>Parameters.\<close> Code that is not in the repository is an argument: \<open>JsonApi\<close> (nlohmann/json, with its
  documented laws \<open>json_laws\<close>, satisfied by the concrete \<open>tree_api\<close>), \<open>SchemaApi\<close> (the JSON Schema
  validator), \<open>AsioIp\<close> (Boost.Asio addresses), SHA-256, the random source, the resolver and the sockets.

  \<^bold>\<open>Not modelled.\<close> The HTTP session manager;
  the HTTP client, stdio and WebSocket transports, which are loops around Boost.Beast and pipes; the JSON
  Schema front end and its metaschemas; the runtime (a thread pool); the challenge pipeline of the
  authorization manager between two flights, and TLS; the typed wrappers of client.hpp and server.hpp,
  which are templates around the codecs; the examples and benchmarks. Memory safety and the C++ memory
  model are outside: a data race is not a behaviour of these models.
\<close>

end
